(* ===== verification/Prelude.thy ===== *)
theory Prelude
  imports "HOL-Library.Word" "HOL-Library.Monad_Syntax" "HOL-Library.List_Lexorder"
    "HOL-Library.Char_ord"
begin

text \<open>
  Shared types and lemmas of the development.  A Go string and a Go byte slice are both the list
  of their bytes (type \<open>string\<close>, a list of 8-bit characters), so \<open>len\<close> is \<open>length\<close>, \<open>==\<close> is
  equality and \<open><\<close> is the lexicographic order of HOL-Library.List\_Lexorder.  A function that
  returns \<open>(value, error)\<close> returns a sum: \<open>Inl\<close> the error, \<open>Inr\<close> the value; \<open>ebind\<close> is the
  \<open>if err != nil { return err }\<close> of the sources and \<open>require\<close> a guard that returns an error.
\<close>

type_synonym bytes = string

section \<open>Results with errors\<close>

definition ebind :: "('e + 'a) \<Rightarrow> ('a \<Rightarrow> 'e + 'b) \<Rightarrow> 'e + 'b" where
  "ebind m f = (case m of Inl e \<Rightarrow> Inl e | Inr a \<Rightarrow> f a)"

definition require :: "bool \<Rightarrow> 'e \<Rightarrow> 'e + unit" where
  "require b e = (if b then Inr () else Inl e)"

definition map_err :: "('e \<Rightarrow> 'f) \<Rightarrow> 'e + 'a \<Rightarrow> 'f + 'a" where
  "map_err f m = (case m of Inl e \<Rightarrow> Inl (f e) | Inr a \<Rightarrow> Inr a)"

definition of_option :: "'e \<Rightarrow> 'a option \<Rightarrow> 'e + 'a" where
  "of_option e m = (case m of None \<Rightarrow> Inl e | Some a \<Rightarrow> Inr a)"

lemma ebind_simps [simp]:
  "ebind (Inl e) f = Inl e"
  "ebind (Inr a) f = f a"
  by (simp_all add: ebind_def)

lemma ebind_Inr_iff [simp]: "ebind m f = Inr b \<longleftrightarrow> (\<exists>a. m = Inr a \<and> f a = Inr b)"
  by (cases m) simp_all

lemma ebind_Inl_iff:
  "ebind m f = Inl e \<longleftrightarrow> m = Inl e \<or> (\<exists>a. m = Inr a \<and> f a = Inl e)"
  by (cases m) simp_all

lemma require_simps [simp]:
  "require True e = Inr ()"
  "require False e = Inl e"
  by (simp_all add: require_def)

lemma require_Inr_iff [simp]: "require b e = Inr u \<longleftrightarrow> b"
  by (simp add: require_def)

lemma require_Inl_iff [simp]: "require b e = Inl e' \<longleftrightarrow> \<not> b \<and> e' = e"
  by (auto simp: require_def)

lemma map_err_simps [simp]:
  "map_err f (Inl e) = Inl (f e)"
  "map_err f (Inr a) = Inr a"
  by (simp_all add: map_err_def)

lemma map_err_Inr_iff [simp]: "map_err f m = Inr a \<longleftrightarrow> m = Inr a"
  by (cases m) simp_all

lemma map_err_Inl_iff [simp]: "map_err f m = Inl e \<longleftrightarrow> (\<exists>e'. m = Inl e' \<and> e = f e')"
  by (cases m) auto

lemma of_option_simps [simp]:
  "of_option e None = Inl e"
  "of_option e (Some a) = Inr a"
  by (simp_all add: of_option_def)

lemma of_option_Inr_iff [simp]: "of_option e m = Inr a \<longleftrightarrow> m = Some a"
  by (cases m) simp_all

lemma of_option_Inl_iff [simp]: "of_option e m = Inl e' \<longleftrightarrow> m = None \<and> e' = e"
  by (cases m) auto

text \<open>A guard \<open>if b { return err }\<close> before the rest of a function.\<close>

lemma if_Inl_Inr [simp]: "(if b then Inl e else m) = Inr u \<longleftrightarrow> \<not> b \<and> m = Inr u"
  by simp

lemma if_Inl_Inl: "(if b then Inl e else m) = Inl e' \<longleftrightarrow> b \<and> e = e' \<or> \<not> b \<and> m = Inl e'"
  by auto

lemma case_option_Inr [simp]:
  "(case m of None \<Rightarrow> Inl e | Some a \<Rightarrow> f a) = Inr b \<longleftrightarrow> (\<exists>a. m = Some a \<and> f a = Inr b)"
  by (cases m) simp_all

text \<open>A loop over a slice that stops at the first error, threading a state.\<close>

fun efold :: "('s \<Rightarrow> 'a \<Rightarrow> 'e + 's) \<Rightarrow> 's \<Rightarrow> 'a list \<Rightarrow> 'e + 's" where
  "efold f s [] = Inr s"
| "efold f s (x # xs) = ebind (f s x) (\<lambda>s'. efold f s' xs)"

lemma efold_append: "efold f s (xs @ ys) = ebind (efold f s xs) (\<lambda>s'. efold f s' ys)"
  by (induction xs arbitrary: s) (auto simp: ebind_def split: sum.splits)

lemma efold_snoc_Inr:
  "efold f s (xs @ [x]) = Inr t \<longleftrightarrow> (\<exists>u. efold f s xs = Inr u \<and> f u x = Inr t)"
  by (auto simp: efold_append)

text \<open>An invariant of the loop body over the processed prefix is an invariant of the loop.\<close>

lemma efold_invariant:
  assumes "efold f s xs = Inr t" and "I [] s"
    and "\<And>ys u x v. I ys u \<Longrightarrow> f u x = Inr v \<Longrightarrow> I (ys @ [x]) v"
  shows "I xs t"
  using assms(1)
proof (induction xs arbitrary: t rule: rev_induct)
  case Nil
  with assms(2) show ?case by simp
next
  case (snoc x xs)
  then show ?case by (auto simp: efold_snoc_Inr intro: assms(3))
qed

text \<open>Looking up by a key that is unique.\<close>

lemma find_distinct: "distinct (map f xs) \<Longrightarrow> find (\<lambda>x. f x = v) xs = Some x \<longleftrightarrow> x \<in> set xs \<and> f x = v"
  by (induction xs) (auto simp: image_iff)

section \<open>Byte-string order\<close>

lemma lex_append_less:
  fixes a b c d :: "'a :: linorder list"
  assumes "length a = length b"
  shows "a @ c < b @ d \<longleftrightarrow> a < b \<or> a = b \<and> c < d"
  using assms by (induction a b rule: list_induct2) auto

lemma lex_same_prefix [simp]: "(a @ c :: 'a :: linorder list) < a @ d \<longleftrightarrow> c < d"
  by (simp add: lex_append_less)

section \<open>Machine integers\<close>

text \<open>Signed 64-bit subtraction of Go's \<open>time.Duration\<close> saturates in \<open>Time.Sub\<close>.\<close>

definition sat64 :: "int \<Rightarrow> int" where
  "sat64 x = max (- (2 ^ 63)) (min (2 ^ 63 - 1) x)"

lemma sat64_le_iff: "- (2 ^ 63) \<le> m \<Longrightarrow> m < 2 ^ 63 - 1 \<Longrightarrow> sat64 x \<le> m \<longleftrightarrow> x \<le> m"
  by (auto simp: sat64_def)

end
