(* ===== verification/GoTime.thy ===== *)
theory GoTime
  imports Prelude
begin

text \<open>
  The timestamps of the program: Go's \<open>time.Parse\<close> and \<open>Time.Format\<close> at the one layout the
  sources use, \<open>receipt.TimeFormat = "2006-01-02T15:04:05.000Z"\<close>, over the proleptic Gregorian
  calendar.  A \<open>time.Time\<close> is the integer number of nanoseconds since 0000-01-01T00:00:00Z.
  The end of the theory proves what the sources rely on in a comment: on accepted timestamps the
  order of the strings is the order of the times.
\<close>

type_synonym time = int

section \<open>The calendar\<close>

definition leap :: "int \<Rightarrow> bool" where
  "leap y \<longleftrightarrow> y mod 4 = 0 \<and> (y mod 100 \<noteq> 0 \<or> y mod 400 = 0)"

definition year_start :: "int \<Rightarrow> int" where
  "year_start y = 365 * y + (y + 3) div 4 - (y + 99) div 100 + (y + 399) div 400"

definition month_start :: "int \<Rightarrow> int \<Rightarrow> int" where
  "month_start y m = [0, 31, 59, 90, 120, 151, 181, 212, 243, 273, 304, 334, 365] ! nat (m - 1)
     + (if leap y \<and> 2 < m then 1 else 0)"

definition days_in :: "int \<Rightarrow> int \<Rightarrow> int" where
  "days_in y m = month_start y (m + 1) - month_start y m"

definition year_of :: "int \<Rightarrow> int" where
  "year_of n = (let y = (400 * n) div 146097
     in if year_start (y + 1) \<le> n then y + 1 else if n < year_start y then y - 1 else y)"

definition month_of :: "int \<Rightarrow> int \<Rightarrow> int" where
  "month_of y r = (if r < month_start y 2 then 1 else if r < month_start y 3 then 2
     else if r < month_start y 4 then 3 else if r < month_start y 5 then 4
     else if r < month_start y 6 then 5 else if r < month_start y 7 then 6
     else if r < month_start y 8 then 7 else if r < month_start y 9 then 8
     else if r < month_start y 10 then 9 else if r < month_start y 11 then 10
     else if r < month_start y 12 then 11 else 12)"

lemma ceil_div_Suc:
  fixes a k :: int
  assumes "0 < k"
  shows "(a + k) div k = (a + (k - 1)) div k + (if a mod k = 0 then 1 else 0)"
proof -
  define q r where "q = a div k" and "r = a mod k"
  have a: "a = k * q + r" and r: "0 \<le> r" "r < k"
    using assms by (simp_all add: q_def r_def)
  have "(a + k) div k = q + 1"
    using assms by (simp add: q_def div_add_self2)
  moreover have "(a + (k - 1)) div k = (if r = 0 then q else q + 1)"
  proof (cases "r = 0")
    case True
    then show ?thesis using assms by (simp add: a div_pos_pos_trivial)
  next
    case False
    have "(a + (k - 1)) div k = (k * (q + 1) + (r - 1)) div k" by (simp add: a algebra_simps)
    also have "\<dots> = q + 1 + (r - 1) div k" using assms by (intro div_mult_self4) simp
    also have "(r - 1) div k = 0" using False r by (intro div_pos_pos_trivial) simp_all
    finally show ?thesis using False by simp
  qed
  ultimately show ?thesis by (simp add: r_def)
qed

lemma ceil_div_bounds:
  fixes a k :: int
  assumes "0 < k"
  shows "k * ((a + (k - 1)) div k) \<le> a + (k - 1)" "a \<le> k * ((a + (k - 1)) div k)"
proof -
  have "k * ((a + (k - 1)) div k) + (a + (k - 1)) mod k = a + (k - 1)" by simp
  moreover have "0 \<le> (a + (k - 1)) mod k" "(a + (k - 1)) mod k < k" using assms by simp_all
  ultimately show "k * ((a + (k - 1)) div k) \<le> a + (k - 1)" "a \<le> k * ((a + (k - 1)) div k)"
    by linarith+
qed

lemma inclusion_exclusion:
  "(c \<Longrightarrow> b) \<Longrightarrow> (b \<Longrightarrow> a) \<Longrightarrow>
    (if a then 1 else 0) - (if b then 1 else 0) + (if c then 1 else 0) = (if a \<and> (\<not> b \<or> c) then 1 else (0 :: int))"
  by (cases a; cases b; cases c) simp_all

lemma leap_count:
  "(if y mod 4 = 0 then 1 else 0) - (if y mod 100 = 0 then 1 else 0) + (if y mod 400 = 0 then 1 else 0)
    = (if leap y then 1 else (0 :: int))"
  unfolding leap_def
proof (rule inclusion_exclusion)
  show "y mod 400 = 0 \<Longrightarrow> y mod 100 = 0"
    using dvd_trans [of 100 400 y] by (simp add: mod_eq_0_iff_dvd)
  show "y mod 100 = 0 \<Longrightarrow> y mod 4 = 0"
    using dvd_trans [of 4 100 y] by (simp add: mod_eq_0_iff_dvd)
qed

lemma ceil_div_step:
  fixes a k c :: int
  assumes "0 < k" "c = k - 1"
  shows "(a + 1 + c) div k = (a + c) div k + (if a mod k = 0 then 1 else 0)"
proof -
  have "a + 1 + c = a + k" "a + c = a + (k - 1)" using assms(2) by simp_all
  then show ?thesis using ceil_div_Suc [OF assms(1), of a] by simp
qed

lemma year_start_Suc: "year_start (y + 1) = year_start y + (if leap y then 366 else 365)"
proof -
  have steps:
    "(y + 1 + 3) div 4 = (y + 3) div 4 + (if y mod 4 = 0 then 1 else 0)"
    "(y + 1 + 99) div 100 = (y + 99) div 100 + (if y mod 100 = 0 then 1 else 0)"
    "(y + 1 + 399) div 400 = (y + 399) div 400 + (if y mod 400 = 0 then 1 else 0)"
    by (rule ceil_div_step; simp)+
  have ring: "365 * (x + 1) + (A + a) - (B + b) + (C + c) = (365 * x + A - B + C) + (365 + (a - b + c))"
    for x A B C a b c :: int
    by simp
  have "(if leap y then 366 else 365) = 365 + (if leap y then 1 else (0 :: int))" by simp
  then show ?thesis
    unfolding year_start_def steps ring leap_count by (rule arg_cong [OF sym])
qed

lemma year_start_mono: "y \<le> z \<Longrightarrow> year_start y \<le> year_start z"
proof (induction z rule: int_ge_induct)
  case (step i)
  then show ?case by (simp add: year_start_Suc)
qed simp

lemma year_start_bounds:
  "146097 * y - 400 \<le> 400 * year_start y" "400 * year_start y \<le> 146097 * y + 800"
  unfolding year_start_def
  using ceil_div_bounds [of 4 y] ceil_div_bounds [of 100 y] ceil_div_bounds [of 400 y] by simp_all

lemma year_of_bounds: "year_start (year_of n) \<le> n" "n < year_start (year_of n + 1)"
proof -
  define y where "y = (400 * n) div 146097"
  have "146097 * y + (400 * n) mod 146097 = 400 * n" unfolding y_def by simp
  moreover have "0 \<le> (400 * n) mod 146097" "(400 * n) mod 146097 < 146097" by simp_all
  ultimately have "146097 * y \<le> 400 * n" "400 * n < 146097 * y + 146097" by linarith+
  note n = this
  have "400 * year_start (y - 1) \<le> 400 * n"
    using n(1) year_start_bounds(2) [of "y - 1"] by (simp add: algebra_simps)
  then have lo: "year_start (y - 1) \<le> n" by simp
  have "400 * n < 400 * year_start (y + 2)"
    using n(2) year_start_bounds(1) [of "y + 2"] by (simp add: algebra_simps)
  then have hi: "n < year_start (y + 2)" by simp
  have eq: "year_of n = (if year_start (y + 1) \<le> n then y + 1 else if n < year_start y then y - 1 else y)"
    by (simp add: year_of_def y_def Let_def)
  show "year_start (year_of n) \<le> n" using lo by (simp add: eq)
  show "n < year_start (year_of n + 1)" using hi by (simp add: eq add.commute)
qed

lemma year_of_unique: "year_start y \<le> n \<Longrightarrow> n < year_start (y + 1) \<Longrightarrow> year_of n = y"
  using year_of_bounds [of n] year_start_mono [of "year_of n + 1" y]
    year_start_mono [of "y + 1" "year_of n"] by linarith

lemma year_of_nonneg: "0 \<le> n \<Longrightarrow> 0 \<le> year_of n"
proof (rule ccontr)
  assume n: "0 \<le> n" and "\<not> 0 \<le> year_of n"
  then have "year_start (year_of n + 1) \<le> year_start 0" by (intro year_start_mono) simp
  with n year_of_bounds(2) [of n] show False by (simp add: year_start_def)
qed

lemma month_start_simps [simp]:
  "month_start y 1 = 0" "month_start y 2 = 31"
  "month_start y 3 = 59 + (if leap y then 1 else 0)"
  "month_start y 4 = 90 + (if leap y then 1 else 0)"
  "month_start y 5 = 120 + (if leap y then 1 else 0)"
  "month_start y 6 = 151 + (if leap y then 1 else 0)"
  "month_start y 7 = 181 + (if leap y then 1 else 0)"
  "month_start y 8 = 212 + (if leap y then 1 else 0)"
  "month_start y 9 = 243 + (if leap y then 1 else 0)"
  "month_start y 10 = 273 + (if leap y then 1 else 0)"
  "month_start y 11 = 304 + (if leap y then 1 else 0)"
  "month_start y 12 = 334 + (if leap y then 1 else 0)"
  "month_start y 13 = 365 + (if leap y then 1 else 0)"
  by (simp_all add: month_start_def nth_Cons numeral_eq_Suc)

lemma month_cases:
  assumes "1 \<le> (m :: int)" "m \<le> 12"
  obtains "m = 1" | "m = 2" | "m = 3" | "m = 4" | "m = 5" | "m = 6" | "m = 7" | "m = 8"
    | "m = 9" | "m = 10" | "m = 11" | "m = 12"
proof -
  have "m \<in> {1..12}" using assms by simp
  also have "{1..12} = {1, 2, 3, 4, 5, 6, 7, 8, 9, 10, 11, 12 :: int}" by code_simp
  finally show thesis using that by blast
qed

lemma month_of_bounds:
  assumes "0 \<le> r" "r < (if leap y then 366 else 365)"
  shows "1 \<le> month_of y r" "month_of y r \<le> 12" "month_start y (month_of y r) \<le> r"
    "r < month_start y (month_of y r + 1)"
  using assms unfolding month_of_def by (simp_all split: if_splits)

lemma month_of_unique:
  "1 \<le> m \<Longrightarrow> m \<le> 12 \<Longrightarrow> month_start y m \<le> r \<Longrightarrow> r < month_start y (m + 1) \<Longrightarrow> month_of y r = m"
  by (erule (1) month_cases) (simp_all add: month_of_def split: if_splits)

lemma month_start_le_365:
  "1 \<le> m \<Longrightarrow> m \<le> 12 \<Longrightarrow> 0 \<le> month_start y m \<and> month_start y (m + 1) \<le> (if leap y then 366 else 365)"
  by (erule (1) month_cases) simp_all

section \<open>Decimal numbers\<close>

definition is_digit :: "char \<Rightarrow> bool" where
  "is_digit c \<longleftrightarrow> CHR ''0'' \<le> c \<and> c \<le> CHR ''9''"

definition digit :: "int \<Rightarrow> char" where
  "digit d = char_of (48 + d)"

definition digit_val :: "char \<Rightarrow> int" where
  "digit_val c = of_char c - 48"

fun dec_digits :: "nat \<Rightarrow> string" where
  "dec_digits n = (if n < 10 then [digit (int n)] else dec_digits (n div 10) @ [digit (int (n mod 10))])"

declare dec_digits.simps [simp del]

text \<open>\<open>show_int\<close> is \<open>strconv.Itoa\<close>; \<open>append_int\<close> is the time package's zero-padded printer.\<close>

definition show_int :: "int \<Rightarrow> string" where
  "show_int x = (if x < 0 then ''-'' else []) @ dec_digits (nat \<bar>x\<bar>)"

definition append_int :: "int \<Rightarrow> nat \<Rightarrow> string" where
  "append_int x w = (let d = dec_digits (nat \<bar>x\<bar>)
     in (if x < 0 then ''-'' else []) @ replicate (w - length d) (CHR ''0'') @ d)"

fun padw :: "nat \<Rightarrow> int \<Rightarrow> string" where
  "padw 0 n = []"
| "padw (Suc w) n = padw w (n div 10) @ [digit (n mod 10)]"

lemma length_padw [simp]: "length (padw w n) = w"
  by (induction w arbitrary: n) simp_all

lemma char_less_int: "c < d \<longleftrightarrow> (of_char c :: int) < of_char d"
  by (metis less_char_def of_nat_of_char of_nat_less_iff)

lemma char_le_int: "c \<le> d \<longleftrightarrow> (of_char c :: int) \<le> of_char d"
  by (metis less_eq_char_def of_nat_of_char of_nat_le_iff)

lemma of_char_digit: "0 \<le> d \<Longrightarrow> d < 10 \<Longrightarrow> of_char (digit d) = (48 + d :: int)"
  by (simp add: digit_def)

lemma digit_val_digit [simp]: "0 \<le> d \<Longrightarrow> d < 10 \<Longrightarrow> digit_val (digit d) = d"
  by (simp add: digit_val_def of_char_digit)

lemma digit_less_iff [simp]:
  "0 \<le> d \<Longrightarrow> d < 10 \<Longrightarrow> 0 \<le> e \<Longrightarrow> e < 10 \<Longrightarrow> digit d < digit e \<longleftrightarrow> d < e"
  by (simp add: char_less_int of_char_digit)

lemma digit_eq_iff [simp]:
  "0 \<le> d \<Longrightarrow> d < 10 \<Longrightarrow> 0 \<le> e \<Longrightarrow> e < 10 \<Longrightarrow> digit d = digit e \<longleftrightarrow> d = e"
  by (metis digit_val_digit)

lemma is_digit_digit [simp]: "0 \<le> d \<Longrightarrow> d < 10 \<Longrightarrow> is_digit (digit d)"
  by (simp add: is_digit_def char_le_int of_char_digit)

lemma digit_zero [simp]: "digit 0 = CHR ''0''"
  unfolding digit_def by code_simp

lemma div_mod_less_iff:
  fixes m n k :: int
  assumes "0 < k"
  shows "m div k < n div k \<or> m div k = n div k \<and> m mod k < n mod k \<longleftrightarrow> m < n"
proof -
  have m: "m = k * (m div k) + m mod k" and n: "n = k * (n div k) + n mod k" by simp_all
  have r: "0 \<le> m mod k" "m mod k < k" "0 \<le> n mod k" "n mod k < k" using assms by simp_all
  have "m div k < n div k \<Longrightarrow> m < n" "n div k < m div k \<Longrightarrow> n < m"
    using zdiv_mono1 [of n m k] zdiv_mono1 [of m n k] assms by linarith+
  moreover have "m div k = n div k \<Longrightarrow> m < n \<longleftrightarrow> m mod k < n mod k"
    using m n by (metis add_less_cancel_left)
  ultimately show ?thesis by (metis less_asym' linorder_neq_iff)
qed

lemma padw_less_iff:
  "0 \<le> m \<Longrightarrow> m < 10 ^ w \<Longrightarrow> 0 \<le> n \<Longrightarrow> n < 10 ^ w \<Longrightarrow> padw w m < padw w n \<longleftrightarrow> m < n"
proof (induction w arbitrary: m n)
  case (Suc w)
  have IH: "padw w (m div 10) < padw w (n div 10) \<longleftrightarrow> m div 10 < n div 10"
    "padw w (n div 10) < padw w (m div 10) \<longleftrightarrow> n div 10 < m div 10"
    using Suc.prems by (intro Suc.IH; simp)+
  then have "padw w (m div 10) = padw w (n div 10) \<longleftrightarrow> m div 10 = n div 10"
    by (metis linorder_neq_iff)
  with IH have "padw (Suc w) m < padw (Suc w) n \<longleftrightarrow>
      m div 10 < n div 10 \<or> m div 10 = n div 10 \<and> m mod 10 < n mod 10"
    by (simp add: lex_append_less)
  also have "\<dots> \<longleftrightarrow> m < n" by (rule div_mod_less_iff) simp
  finally show ?case .
qed simp

lemma padw_zero: "padw v 0 = replicate v (CHR ''0'')"
  by (induction v) (simp_all add: replicate_append_same)

lemma dec_digits_padw: "0 < w \<Longrightarrow> n < 10 ^ w \<Longrightarrow>
    replicate (w - length (dec_digits n)) (CHR ''0'') @ dec_digits n = padw w (int n) \<and> length (dec_digits n) \<le> w"
proof (induction w arbitrary: n)
  case (Suc w)
  show ?case
  proof (cases "n < 10")
    case True
    then have "dec_digits n = [digit (int n)]" by (subst dec_digits.simps) simp
    with True show ?thesis by (simp add: padw_zero)
  next
    case False
    with Suc.prems have "0 < w" by (cases w) simp_all
    moreover have "n div 10 < 10 ^ w" using Suc.prems by (simp add: less_mult_imp_div_less mult.commute)
    ultimately have IH: "replicate (w - length (dec_digits (n div 10))) (CHR ''0'') @ dec_digits (n div 10)
        = padw w (int (n div 10))" "length (dec_digits (n div 10)) \<le> w"
      using Suc.IH by blast+
    have d: "dec_digits n = dec_digits (n div 10) @ [digit (int (n mod 10))]"
      using False by (subst dec_digits.simps) simp
    show ?thesis using IH by (simp add: d zdiv_int zmod_int flip: append_assoc)
  qed
qed simp

lemma append_int_padw: "0 < w \<Longrightarrow> 0 \<le> x \<Longrightarrow> x < 10 ^ w \<Longrightarrow> append_int x w = padw w x"
  using dec_digits_padw [of w "nat x"] by (simp add: append_int_def Let_def nat_less_iff)

section \<open>Formatting and parsing at the layout of the receipts\<close>

definition ns_per_ms :: int where "ns_per_ms = 1000000"
definition ns_per_s :: int where "ns_per_s = 1000000000"

record civil =
  c_year :: int
  c_month :: int
  c_day :: int
  c_hour :: int
  c_min :: int
  c_sec :: int
  c_ms :: int

text \<open>The fields of a time, to the millisecond (\<open>Time.Format\<close> truncates the fraction).\<close>

definition civil_of :: "time \<Rightarrow> civil" where
  "civil_of t = (let ms = t div ns_per_ms; days = ms div 86400000; r = ms mod 86400000;
      y = year_of days; yd = days - year_start y; mo = month_of y yd
    in \<lparr>c_year = y, c_month = mo, c_day = yd - month_start y mo + 1,
        c_hour = r div 3600000, c_min = r mod 3600000 div 60000,
        c_sec = r mod 60000 div 1000, c_ms = r mod 1000\<rparr>)"

definition fmt_civil :: "civil \<Rightarrow> string" where
  "fmt_civil c = append_int (c_year c) 4 @ ''-'' @ append_int (c_month c) 2 @ ''-'' @ append_int (c_day c) 2
     @ ''T'' @ append_int (c_hour c) 2 @ '':'' @ append_int (c_min c) 2 @ '':'' @ append_int (c_sec c) 2
     @ ''.'' @ append_int (c_ms c) 3 @ ''Z''"

definition format_ts :: "time \<Rightarrow> string" where
  "format_ts t = fmt_civil (civil_of t)"

text \<open>
  The elements of the layout: a literal (\<open>skip\<close>), a four-digit year, \<open>getnum\<close> (two digits, or one
  where the element is not zero-padded: only the hour), and the fraction, which is a comma or a
  period and an \<open>atoi\<close> over exactly three bytes, so that a sign is read there.
\<close>

fun lit :: "char \<Rightarrow> string \<Rightarrow> string option" where
  "lit c [] = None"
| "lit c (x # s) = (if x = c then Some s else None)"

fun get_year :: "string \<Rightarrow> (int \<times> string) option" where
  "get_year (a # b # c # d # s) =
     (if is_digit a \<and> is_digit b \<and> is_digit c \<and> is_digit d
      then Some (1000 * digit_val a + 100 * digit_val b + 10 * digit_val c + digit_val d, s)
      else None)"
| "get_year _ = None"

fun getnum :: "bool \<Rightarrow> string \<Rightarrow> (int \<times> string) option" where
  "getnum fixed [] = None"
| "getnum fixed [a] = (if is_digit a \<and> \<not> fixed then Some (digit_val a, []) else None)"
| "getnum fixed (a # b # s) =
     (if \<not> is_digit a then None
      else if is_digit b then Some (10 * digit_val a + digit_val b, s)
      else if fixed then None else Some (digit_val a, b # s))"

fun get_frac :: "string \<Rightarrow> (int \<times> string) option" where
  "get_frac (p # a # b # c # s) =
     (if (p = CHR ''.'' \<or> p = CHR '','') \<and> is_digit b \<and> is_digit c then
        if is_digit a then Some (100 * digit_val a + 10 * digit_val b + digit_val c, s)
        else if a = CHR ''+'' then Some (10 * digit_val b + digit_val c, s)
        else if a = CHR ''-'' \<and> digit_val b = 0 \<and> digit_val c = 0 then Some (0, s)
        else None
      else None)"
| "get_frac _ = None"

definition in_range :: "int \<Rightarrow> int \<Rightarrow> int \<Rightarrow> unit option" where
  "in_range lo hi x = (if lo \<le> x \<and> x \<le> hi then Some () else None)"

definition of_civil :: "civil \<Rightarrow> time" where
  "of_civil c = (((year_start (c_year c) + month_start (c_year c) (c_month c) + c_day c - 1) * 24
     + c_hour c) * 3600 + c_min c * 60 + c_sec c) * ns_per_s + c_ms c * ns_per_ms"

definition parse_ts :: "string \<Rightarrow> time option" where
  "parse_ts s0 = do {
     (y, s) \<leftarrow> get_year s0; s \<leftarrow> lit CHR ''-'' s;
     (mo, s) \<leftarrow> getnum True s; in_range 1 12 mo; s \<leftarrow> lit CHR ''-'' s;
     (d, s) \<leftarrow> getnum True s; s \<leftarrow> lit CHR ''T'' s;
     (h, s) \<leftarrow> getnum False s; in_range 0 23 h; s \<leftarrow> lit CHR '':'' s;
     (mi, s) \<leftarrow> getnum True s; in_range 0 59 mi; s \<leftarrow> lit CHR '':'' s;
     (sec, s) \<leftarrow> getnum True s; in_range 0 59 sec;
     (ms, s) \<leftarrow> get_frac s; s \<leftarrow> lit CHR ''Z'' s;
     (if s = [] then Some () else None);
     in_range 1 (days_in y mo) d;
     Some (of_civil \<lparr>c_year = y, c_month = mo, c_day = d, c_hour = h, c_min = mi,
                     c_sec = sec, c_ms = ms\<rparr>)
   }"

text \<open>
  The check the sources make on every timestamp they accept: it parses and formats back to the
  same string, which leaves one spelling per millisecond.
\<close>

definition valid_ts :: "string \<Rightarrow> bool" where
  "valid_ts s \<longleftrightarrow> (case parse_ts s of None \<Rightarrow> False | Some t \<Rightarrow> format_ts t = s)"

text \<open>The first instant of the year 10000, where four digits no longer suffice.\<close>

definition y10k :: time where
  "y10k = year_start 10000 * 86400 * ns_per_s"

section \<open>Parsing inverts formatting\<close>

definition civil_wf :: "civil \<Rightarrow> bool" where
  "civil_wf c \<longleftrightarrow> 0 \<le> c_year c \<and> c_year c \<le> 9999 \<and> 1 \<le> c_month c \<and> c_month c \<le> 12
     \<and> 1 \<le> c_day c \<and> c_day c \<le> days_in (c_year c) (c_month c) \<and> 0 \<le> c_hour c \<and> c_hour c \<le> 23
     \<and> 0 \<le> c_min c \<and> c_min c \<le> 59 \<and> 0 \<le> c_sec c \<and> c_sec c \<le> 59 \<and> 0 \<le> c_ms c \<and> c_ms c \<le> 999"

lemma days_in_le_31: "1 \<le> m \<Longrightarrow> m \<le> 12 \<Longrightarrow> days_in y m \<le> 31"
  by (erule (1) month_cases) (simp_all add: days_in_def)

lemma fmt_civil_padw:
  assumes "civil_wf c"
  shows "fmt_civil c = padw 4 (c_year c) @ ''-'' @ padw 2 (c_month c) @ ''-'' @ padw 2 (c_day c)
     @ ''T'' @ padw 2 (c_hour c) @ '':'' @ padw 2 (c_min c) @ '':'' @ padw 2 (c_sec c)
     @ ''.'' @ padw 3 (c_ms c) @ ''Z''"
proof -
  have "c_day c \<le> 31"
    using assms days_in_le_31 [of "c_month c" "c_year c"] by (simp add: civil_wf_def)
  with assms show ?thesis
    by (simp add: fmt_civil_def append_int_padw civil_wf_def)
qed

lemma split_digit: "10 * (n div 10) + n mod 10 = (n :: int)"
  by simp

lemma mod_digit [simp]: "0 \<le> (n :: int) mod 10" "(n :: int) mod 10 < 10"
  by simp_all

lemma padw_digits:
  "padw 2 n = [digit (n div 10 mod 10), digit (n mod 10)]"
  "padw 3 n = [digit (n div 10 div 10 mod 10), digit (n div 10 mod 10), digit (n mod 10)]"
  "padw 4 n = [digit (n div 10 div 10 div 10 mod 10), digit (n div 10 div 10 mod 10),
     digit (n div 10 mod 10), digit (n mod 10)]"
proof -
  have "(4 :: nat) = Suc (Suc (Suc (Suc 0)))" by simp
  note eqs = numeral_2_eq_2 numeral_3_eq_3 this
  show "padw 2 n = [digit (n div 10 mod 10), digit (n mod 10)]"
    "padw 3 n = [digit (n div 10 div 10 mod 10), digit (n div 10 mod 10), digit (n mod 10)]"
    "padw 4 n = [digit (n div 10 div 10 div 10 mod 10), digit (n div 10 div 10 mod 10),
       digit (n div 10 mod 10), digit (n mod 10)]"
    by (simp_all only: eqs padw.simps append.simps)
qed

lemma small_mod: "0 \<le> n \<Longrightarrow> n < 10 \<Longrightarrow> n mod 10 = (n :: int)"
  by (rule mod_pos_pos_trivial)

lemma get_year_padw [simp]:
  assumes "0 \<le> y" "y \<le> 9999"
  shows "get_year (padw 4 y @ s) = Some (y, s)"
proof -
  define a b c where abc: "a = y div 10" "b = a div 10" "c = b div 10"
  have n: "10 * a + y mod 10 = y" "10 * b + a mod 10 = a" "10 * c + b mod 10 = b"
    unfolding abc by (rule split_digit)+
  then have "c mod 10 = c"
    using assms mod_digit [of y] mod_digit [of a] mod_digit [of b] by (intro small_mod; linarith)
  with n have sum: "1000 * (c mod 10) + 100 * (b mod 10) + 10 * (a mod 10) + y mod 10 = y"
    by linarith
  have "padw 4 y = [digit (c mod 10), digit (b mod 10), digit (a mod 10), digit (y mod 10)]"
    unfolding abc by (rule padw_digits)
  then show ?thesis
    using sum by (simp del: mod_by_Suc_0)
qed

lemma getnum_padw [simp]:
  assumes "0 \<le> n" "n \<le> 99"
  shows "getnum f (padw 2 n @ s) = Some (n, s)"
proof -
  define a where a: "a = n div 10"
  have n: "10 * a + n mod 10 = n" unfolding a by (rule split_digit)
  then have "a mod 10 = a" using assms mod_digit [of n] by (intro small_mod; linarith)
  with n have sum: "10 * (a mod 10) + n mod 10 = n" by linarith
  have "padw 2 n = [digit (a mod 10), digit (n mod 10)]" unfolding a by (rule padw_digits)
  then show ?thesis using sum by simp
qed

lemma get_frac_padw [simp]:
  assumes "0 \<le> n" "n \<le> 999"
  shows "get_frac (CHR ''.'' # padw 3 n @ s) = Some (n, s)"
proof -
  define a b where ab: "a = n div 10" "b = a div 10"
  have n: "10 * a + n mod 10 = n" "10 * b + a mod 10 = a" unfolding ab by (rule split_digit)+
  then have "b mod 10 = b"
    using assms mod_digit [of n] mod_digit [of a] by (intro small_mod; linarith)
  with n have sum: "100 * (b mod 10) + 10 * (a mod 10) + n mod 10 = n" by linarith
  have "padw 3 n = [digit (b mod 10), digit (a mod 10), digit (n mod 10)]"
    unfolding ab by (rule padw_digits)
  then show ?thesis using sum by simp
qed

lemma parse_fmt_civil:
  assumes "civil_wf c"
  shows "parse_ts (fmt_civil c) = Some (of_civil c)"
proof -
  have "c_day c \<le> 31"
    using assms days_in_le_31 [of "c_month c" "c_year c"] by (simp add: civil_wf_def)
  then show ?thesis using assms
    by (cases c) (simp add: fmt_civil_padw parse_ts_def in_range_def civil_wf_def)
qed

lemma is_digit_val: "is_digit a \<Longrightarrow> 0 \<le> digit_val a \<and> digit_val a \<le> 9"
  by (simp add: is_digit_def char_le_int digit_val_def)

lemma get_year_range: "get_year s = Some (y, r) \<Longrightarrow> 0 \<le> y \<and> y \<le> 9999"
  by (induction s rule: get_year.induct) (auto dest!: is_digit_val split: if_splits)

lemma get_frac_range: "get_frac s = Some (y, r) \<Longrightarrow> 0 \<le> y \<and> y \<le> 999"
  by (induction s rule: get_frac.induct) (auto dest!: is_digit_val split: if_splits)

lemma in_range_Some [simp]: "in_range lo hi x = Some u \<longleftrightarrow> lo \<le> x \<and> x \<le> hi"
  by (simp add: in_range_def)

lemma parse_ts_civil:
  assumes "parse_ts s = Some t"
  obtains c where "civil_wf c" "t = of_civil c"
proof -
  from assms obtain y mo d h mi sec ms where
    "0 \<le> y \<and> y \<le> 9999" "1 \<le> mo \<and> mo \<le> 12" "1 \<le> d \<and> d \<le> days_in y mo" "0 \<le> h \<and> h \<le> 23"
    "0 \<le> mi \<and> mi \<le> 59" "0 \<le> sec \<and> sec \<le> 59" "0 \<le> ms \<and> ms \<le> 999"
    "t = of_civil \<lparr>c_year = y, c_month = mo, c_day = d, c_hour = h, c_min = mi, c_sec = sec, c_ms = ms\<rparr>"
    by (auto simp: parse_ts_def bind_eq_Some_conv split: if_splits dest!: get_year_range get_frac_range)
  then show thesis
    by (intro that [of "\<lparr>c_year = y, c_month = mo, c_day = d, c_hour = h, c_min = mi, c_sec = sec, c_ms = ms\<rparr>"])
      (auto simp: civil_wf_def)
qed

lemma div_mod_eqI:
  fixes n k q r :: int
  assumes "n = k * q + r" "0 \<le> r" "r < k"
  shows "n div k = q" "n mod k = r"
  using assms by (simp_all add: div_pos_pos_trivial mod_pos_pos_trivial)

definition civil_days :: "civil \<Rightarrow> int" where
  "civil_days c = year_start (c_year c) + month_start (c_year c) (c_month c) + c_day c - 1"

definition civil_day_ms :: "civil \<Rightarrow> int" where
  "civil_day_ms c = 3600000 * c_hour c + 60000 * c_min c + 1000 * c_sec c + c_ms c"

lemma of_civil_ms: "of_civil c = ns_per_ms * (86400000 * civil_days c + civil_day_ms c)"
  by (simp add: of_civil_def civil_days_def civil_day_ms_def ns_per_ms_def ns_per_s_def algebra_simps)

lemma civil_day_ms_bounds: "civil_wf c \<Longrightarrow> 0 \<le> civil_day_ms c \<and> civil_day_ms c < 86400000"
  by (simp add: civil_wf_def civil_day_ms_def)

lemma civil_days_bounds:
  assumes "civil_wf c"
  shows "year_start (c_year c) \<le> civil_days c" "civil_days c < year_start (c_year c + 1)"
    "month_start (c_year c) (c_month c) \<le> civil_days c - year_start (c_year c)"
    "civil_days c - year_start (c_year c) < month_start (c_year c) (c_month c + 1)"
  using assms month_start_le_365 [of "c_month c" "c_year c"]
  by (simp_all add: civil_wf_def civil_days_def days_in_def year_start_Suc)

lemma civil_of_of_civil:
  assumes wf: "civil_wf c"
  shows "civil_of (of_civil c) = c"
proof -
  define R D where "R = civil_day_ms c" and "D = civil_days c"
  have R: "0 \<le> R" "R < 86400000" using civil_day_ms_bounds [OF wf] by (simp_all add: R_def)
  have ms: "of_civil c div ns_per_ms = 86400000 * D + R"
    by (simp add: of_civil_ms R_def D_def ns_per_ms_def)
  have D: "(86400000 * D + R) div 86400000 = D" "(86400000 * D + R) mod 86400000 = R"
    using R by (intro div_mod_eqI [of _ _ _ R]; simp)+
  have b: "0 \<le> c_hour c" "0 \<le> c_min c" "c_min c < 60" "0 \<le> c_sec c" "c_sec c < 60"
    "0 \<le> c_ms c" "c_ms c < 1000" using wf by (simp_all add: civil_wf_def)
  have "R = 3600000 * c_hour c + (60000 * c_min c + (1000 * c_sec c + c_ms c))"
    by (simp add: R_def civil_day_ms_def)
  note h = div_mod_eqI [OF this]
  have h: "R div 3600000 = c_hour c" "R mod 3600000 = 60000 * c_min c + (1000 * c_sec c + c_ms c)"
    using b by (intro h; simp)+
  have m: "(60000 * c_min c + (1000 * c_sec c + c_ms c)) div 60000 = c_min c"
    using b by (intro div_mod_eqI(1) [of _ _ _ "1000 * c_sec c + c_ms c"]; simp)
  have s: "R mod 60000 = 1000 * c_sec c + c_ms c"
    using b by (intro div_mod_eqI(2) [of _ _ "60 * c_hour c + c_min c"]) (simp_all add: R_def civil_day_ms_def)
  have s': "(1000 * c_sec c + c_ms c) div 1000 = c_sec c"
    using b by (intro div_mod_eqI(1) [of _ _ _ "c_ms c"]; simp)
  have l: "R mod 1000 = c_ms c"
    using b by (intro div_mod_eqI(2) [of _ _ "3600 * c_hour c + 60 * c_min c + c_sec c"])
      (simp_all add: R_def civil_day_ms_def)
  have y: "year_of D = c_year c"
    using civil_days_bounds [OF wf] by (intro year_of_unique) (simp_all add: D_def)
  have mo: "month_of (c_year c) (D - year_start (c_year c)) = c_month c"
    using civil_days_bounds [OF wf] wf by (intro month_of_unique) (simp_all add: D_def civil_wf_def)
  show ?thesis
    unfolding civil_of_def ms Let_def D y mo h m s s' l
    by (cases c) (simp add: D_def civil_days_def)
qed

lemma div_bound:
  fixes k n x :: int
  assumes "0 < k" "0 \<le> x" "x < k * n"
  shows "0 \<le> x div k" "x div k < n"
proof -
  have x: "k * (x div k) + x mod k = x" "0 \<le> x mod k" using assms(1) by simp_all
  show "0 \<le> x div k" using assms(1,2) by (simp add: pos_imp_zdiv_nonneg_iff)
  show "x div k < n"
  proof (rule ccontr)
    assume "\<not> x div k < n"
    then have "k * n \<le> k * (x div k)" using assms(1) by simp
    with x assms(3) show False by linarith
  qed
qed

lemma year_of_range:
  assumes "0 \<le> D" "D < year_start 10000"
  shows "0 \<le> year_of D" "year_of D \<le> 9999"
proof -
  show "0 \<le> year_of D" using assms(1) by (rule year_of_nonneg)
  have "year_start (year_of D) < year_start 10000"
    using year_of_bounds(1) [of D] assms(2) by (rule le_less_trans)
  then have "\<not> 10000 \<le> year_of D" using year_start_mono [of 10000 "year_of D"] by (metis not_le)
  then show "year_of D \<le> 9999" by linarith
qed

lemma day_of_year_bounds:
  "0 \<le> D - year_start (year_of D)" "D - year_start (year_of D) < (if leap (year_of D) then 366 else 365)"
  using year_of_bounds [of D] unfolding year_start_Suc by simp_all

lemma time_of_day_bounds:
  fixes R :: int
  assumes "0 \<le> R" "R < 86400000"
  shows "0 \<le> R div 3600000" "R div 3600000 \<le> 23"
    "0 \<le> R mod 3600000 div 60000" "R mod 3600000 div 60000 \<le> 59"
    "0 \<le> R mod 60000 div 1000" "R mod 60000 div 1000 \<le> 59" "0 \<le> R mod 1000" "R mod 1000 \<le> 999"
proof -
  have pos: "0 < (3600000 :: int)" "0 < (60000 :: int)" "0 < (1000 :: int)" by simp_all
  have "R < 3600000 * 24" using assms by simp
  from div_bound [OF pos(1) assms(1) this]
  show "0 \<le> R div 3600000" "R div 3600000 \<le> 23" by linarith+
  have "R mod 3600000 < 60000 * 60" using pos_mod_bound [OF pos(1), of R] by simp
  from div_bound [OF pos(2) pos_mod_sign [OF pos(1)] this]
  show "0 \<le> R mod 3600000 div 60000" "R mod 3600000 div 60000 \<le> 59" by linarith+
  have "R mod 60000 < 1000 * 60" using pos_mod_bound [OF pos(2), of R] by simp
  from div_bound [OF pos(3) pos_mod_sign [OF pos(2)] this]
  show "0 \<le> R mod 60000 div 1000" "R mod 60000 div 1000 \<le> 59" by linarith+
  show "0 \<le> R mod 1000" "R mod 1000 \<le> 999"
    using pos_mod_bound [OF pos(3), of R] pos_mod_sign [OF pos(3), of R] by linarith+
qed

lemma civil_of_wf:
  assumes "0 \<le> t" "t < y10k"
  shows "civil_wf (civil_of t)"
proof -
  define ms where "ms = t div ns_per_ms"
  define D R where DR: "D = ms div 86400000" "R = ms mod 86400000"
  have pos: "0 < ns_per_ms" "0 < (86400000 :: int)" by (simp_all add: ns_per_ms_def)
  have "t < ns_per_ms * (86400000 * year_start 10000)"
    using assms(2) by (simp add: y10k_def ns_per_ms_def ns_per_s_def)
  note ms = div_bound [OF pos(1) assms(1) this, folded ms_def]
  note D = div_bound [OF pos(2) ms, folded DR]
  have R: "0 \<le> R" "R < 86400000" unfolding DR by simp_all
  note y = year_of_range [OF D]
  define yd where "yd = D - year_start (year_of D)"
  note mo = month_of_bounds [OF day_of_year_bounds, of D, folded yd_def]
  have "civil_of t = \<lparr>c_year = year_of D, c_month = month_of (year_of D) yd,
      c_day = yd - month_start (year_of D) (month_of (year_of D) yd) + 1, c_hour = R div 3600000,
      c_min = R mod 3600000 div 60000, c_sec = R mod 60000 div 1000, c_ms = R mod 1000\<rparr>"
    unfolding civil_of_def Let_def DR yd_def ms_def by (rule refl)
  moreover have "1 \<le> yd - month_start (year_of D) (month_of (year_of D) yd) + 1"
    "yd - month_start (year_of D) (month_of (year_of D) yd) + 1 \<le> days_in (year_of D) (month_of (year_of D) yd)"
    using mo(3,4) unfolding days_in_def by linarith+
  ultimately show ?thesis
    using y mo(1,2) time_of_day_bounds [OF R] by (simp only: civil_wf_def civil.simps simp_thms)
qed

section \<open>Accepted timestamps\<close>

lemma valid_ts_iff: "valid_ts s \<longleftrightarrow> (\<exists>c. civil_wf c \<and> s = fmt_civil c)"
proof
  assume "valid_ts s"
  then obtain t where p: "parse_ts s = Some t" and f: "format_ts t = s"
    by (auto simp: valid_ts_def split: option.splits)
  from p obtain c where "civil_wf c" "t = of_civil c" by (rule parse_ts_civil)
  with f show "\<exists>c. civil_wf c \<and> s = fmt_civil c"
    by (auto simp: format_ts_def civil_of_of_civil)
next
  assume "\<exists>c. civil_wf c \<and> s = fmt_civil c"
  then show "valid_ts s"
    by (auto simp: valid_ts_def parse_fmt_civil format_ts_def civil_of_of_civil)
qed

lemma valid_ts_format: "0 \<le> t \<Longrightarrow> t < y10k \<Longrightarrow> valid_ts (format_ts t)"
  by (auto simp: valid_ts_iff format_ts_def intro: civil_of_wf)

definition civil_lex :: "civil \<Rightarrow> civil \<Rightarrow> bool" where
  "civil_lex c d \<longleftrightarrow> c_year c < c_year d \<or> c_year c = c_year d \<and> (c_month c < c_month d \<or>
     c_month c = c_month d \<and> (c_day c < c_day d \<or> c_day c = c_day d \<and> (c_hour c < c_hour d \<or>
     c_hour c = c_hour d \<and> (c_min c < c_min d \<or> c_min c = c_min d \<and> (c_sec c < c_sec d \<or>
     c_sec c = c_sec d \<and> c_ms c < c_ms d)))))"

lemma civil_lex_total: "civil_lex c d \<or> c = d \<or> civil_lex d c"
  unfolding civil_lex_def by (cases c; cases d) (simp, linarith)

lemma padw_eq_iff:
  "0 \<le> m \<Longrightarrow> m < 10 ^ w \<Longrightarrow> 0 \<le> n \<Longrightarrow> n < 10 ^ w \<Longrightarrow> padw w m = padw w n \<longleftrightarrow> m = n"
  by (metis linorder_neq_iff padw_less_iff)

lemma fmt_civil_less:
  assumes "civil_wf c" "civil_wf d"
  shows "fmt_civil c < fmt_civil d \<longleftrightarrow> civil_lex c d"
proof -
  have "c_day c \<le> 31" "c_day d \<le> 31"
    using assms days_in_le_31 [of "c_month c" "c_year c"] days_in_le_31 [of "c_month d" "c_year d"]
    by (simp_all add: civil_wf_def)
  with assms show ?thesis
    by (simp add: fmt_civil_padw lex_append_less padw_less_iff padw_eq_iff civil_wf_def civil_lex_def)
qed

lemma month_start_mono:
  "1 \<le> m \<Longrightarrow> m < n \<Longrightarrow> n \<le> 12 \<Longrightarrow> month_start y (m + 1) \<le> month_start y n"
  by (rule month_cases [of m]; simp; rule month_cases [of n]; simp)

lemma civil_days_lex:
  assumes c: "civil_wf c" and d: "civil_wf d"
  shows "c_year c < c_year d \<Longrightarrow> civil_days c < civil_days d"
    "c_year c = c_year d \<Longrightarrow> c_month c < c_month d \<Longrightarrow> civil_days c < civil_days d"
proof -
  show "civil_days c < civil_days d" if "c_year c < c_year d"
    using civil_days_bounds(2) [OF c] civil_days_bounds(1) [OF d]
      year_start_mono [of "c_year c + 1" "c_year d"] that by linarith
  show "civil_days c < civil_days d" if "c_year c = c_year d" "c_month c < c_month d"
    using civil_days_bounds(4) [OF c] civil_days_bounds(3) [OF d]
      month_start_mono [of "c_month c" "c_month d" "c_year d"] that c d by (simp add: civil_wf_def)
qed

lemma civil_day_ms_lex:
  assumes "civil_wf c" "civil_wf d"
  shows "c_hour c < c_hour d \<or> c_hour c = c_hour d \<and> (c_min c < c_min d \<or> c_min c = c_min d \<and>
    (c_sec c < c_sec d \<or> c_sec c = c_sec d \<and> c_ms c < c_ms d)) \<Longrightarrow> civil_day_ms c < civil_day_ms d"
  using assms unfolding civil_wf_def civil_day_ms_def by (elim disjE conjE) linarith+

lemma of_civil_lex:
  assumes c: "civil_wf c" and d: "civil_wf d" and "civil_lex c d"
  shows "of_civil c < of_civil d"
proof -
  have "civil_days c < civil_days d \<or> civil_days c = civil_days d \<and> civil_day_ms c < civil_day_ms d"
    using assms(3) civil_days_lex [OF c d] civil_day_ms_lex [OF c d]
    unfolding civil_lex_def by (auto simp: civil_days_def)
  then have "86400000 * civil_days c + civil_day_ms c < 86400000 * civil_days d + civil_day_ms d"
    using civil_day_ms_bounds [OF c] civil_day_ms_bounds [OF d] by linarith
  then show ?thesis by (simp add: of_civil_ms ns_per_ms_def)
qed

lemma fmt_civil_less_time:
  assumes c: "civil_wf c" and d: "civil_wf d"
  shows "fmt_civil c < fmt_civil d \<longleftrightarrow> of_civil c < of_civil d"
  using civil_lex_total [of c d] of_civil_lex [OF c d] of_civil_lex [OF d c]
    fmt_civil_less [OF c d] fmt_civil_less [OF d c]
  by (metis less_asym' less_irrefl)

text \<open>The order of accepted timestamps is the order of the times they name.\<close>

lemma valid_ts_order:
  assumes "valid_ts a" "valid_ts b" "parse_ts a = Some s" "parse_ts b = Some t"
  shows "a < b \<longleftrightarrow> s < t"
  using assms by (auto simp: valid_ts_iff parse_fmt_civil fmt_civil_less_time)

lemma of_civil_civil_of: "of_civil (civil_of t) = t - t mod ns_per_ms"
proof -
  define ms D R where "ms = t div ns_per_ms" and "D = ms div 86400000" and "R = ms mod 86400000"
  have split: "R div 3600000 * 3600000 + R mod 3600000 div 60000 * 60000 + R mod 60000 div 1000 * 1000 + R mod 1000 = R"
  proof -
    have "R mod 60000 = R mod 3600000 mod 60000" "R mod 1000 = R mod 60000 mod 1000"
      by (simp_all add: mod_mod_cancel)
    then show ?thesis
      using div_mult_mod_eq [of R 3600000] div_mult_mod_eq [of "R mod 3600000" 60000]
        div_mult_mod_eq [of "R mod 60000" 1000] by linarith
  qed
  have "civil_days (civil_of t) = D"
    unfolding civil_days_def civil_of_def Let_def civil.simps ms_def [symmetric] D_def [symmetric] by simp
  moreover have "civil_day_ms (civil_of t) = R"
    using split unfolding civil_day_ms_def civil_of_def Let_def civil.simps ms_def [symmetric] R_def [symmetric]
    by (simp add: algebra_simps)
  ultimately have "of_civil (civil_of t) = ns_per_ms * (86400000 * D + R)" by (simp add: of_civil_ms)
  also have "86400000 * D + R = ms" unfolding D_def R_def by (rule mult_div_mod_eq)
  finally show ?thesis
    using mult_div_mod_eq [of ns_per_ms t] unfolding ms_def by linarith
qed

lemma parse_format_ts:
  "0 \<le> t \<Longrightarrow> t < y10k \<Longrightarrow> parse_ts (format_ts t) = Some (t - t mod ns_per_ms)"
  by (simp add: format_ts_def parse_fmt_civil civil_of_wf of_civil_civil_of)

text \<open>Two clock readings format in the order of the readings.\<close>

lemma format_ts_mono:
  assumes "0 \<le> t" "t \<le> u" "u < y10k"
  shows "format_ts t \<le> format_ts u"
proof -
  have "t - t mod ns_per_ms \<le> u - u mod ns_per_ms"
    using assms(2) zdiv_mono1 [of t u ns_per_ms]
    by (simp add: minus_mod_eq_mult_div ns_per_ms_def)
  moreover have "format_ts u < format_ts t \<longleftrightarrow> u - u mod ns_per_ms < t - t mod ns_per_ms"
    using assms fmt_civil_less_time [OF civil_of_wf civil_of_wf, of u t]
    by (simp add: format_ts_def of_civil_civil_of)
  ultimately show ?thesis by (simp only: not_less [symmetric] simp_thms)
qed

end
