(* ===== verification/GoBytes.thy ===== *)
theory GoBytes
  imports GoTime
begin

text \<open>
  Byte encodings of Go's standard library that the sources use: \<open>encoding/hex\<close>, UTF-8, and
  \<open>base64.RawURLEncoding.Strict()\<close>.  Go's decoder ignores carriage returns and line feeds in
  its input, also in strict mode, so decoding inverts encoding only up to those two bytes
  (\<open>b64_decode_Some\<close>).
\<close>

section \<open>Bytes\<close>

abbreviation byte :: "char \<Rightarrow> nat" where
  "byte c \<equiv> of_char c"

lemma byte_less: "byte c < 256"
  by (rule nat_of_char_less_256)

lemma char_of_byte [simp]: "char_of (byte c) = c"
  by simp

lemma byte_char_of: "n < 256 \<Longrightarrow> byte (char_of n) = n"
  by simp

text \<open>\<open>strings.CutPrefix\<close>.\<close>

definition cut_prefix :: "string \<Rightarrow> string \<Rightarrow> string option" where
  "cut_prefix p s = (if take (length p) s = p then Some (drop (length p) s) else None)"

lemma cut_prefix_append [simp]: "cut_prefix p (p @ s) = Some s"
  by (simp add: cut_prefix_def)

lemma cut_prefix_Some: "cut_prefix p s = Some r \<longleftrightarrow> s = p @ r"
  using append_take_drop_id [of "length p" s] by (auto simp: cut_prefix_def split: if_splits simp del: append_take_drop_id)

section \<open>Hexadecimal\<close>

definition hex_digit :: "nat \<Rightarrow> char" where
  "hex_digit n = (if n < 10 then char_of (48 + n) else char_of (87 + n))"

definition is_hex :: "char \<Rightarrow> bool" where
  "is_hex c \<longleftrightarrow> CHR ''0'' \<le> c \<and> c \<le> CHR ''9'' \<or> CHR ''a'' \<le> c \<and> c \<le> CHR ''f''"

fun hex_encode :: "bytes \<Rightarrow> string" where
  "hex_encode [] = []"
| "hex_encode (c # cs) = hex_digit (byte c div 16) # hex_digit (byte c mod 16) # hex_encode cs"

lemma length_hex_encode [simp]: "length (hex_encode bs) = 2 * length bs"
  by (induction bs) simp_all

lemma hex_digit_byte: "n < 16 \<Longrightarrow> byte (hex_digit n) = (if n < 10 then 48 + n else 87 + n)"
  by (simp add: hex_digit_def)

lemma hex_digit_inj: "m < 16 \<Longrightarrow> n < 16 \<Longrightarrow> hex_digit m = hex_digit n \<longleftrightarrow> m = n"
  by (auto dest!: arg_cong [where f = byte] simp: hex_digit_byte split: if_splits)

lemma is_hex_digit: "n < 16 \<Longrightarrow> is_hex (hex_digit n)"
  by (simp add: is_hex_def less_eq_char_def hex_digit_byte)

lemma hex_encode_is_hex: "list_all is_hex (hex_encode bs)"
  by (induction bs) (simp_all add: is_hex_digit byte_less less_mult_imp_div_less)

lemma byte_div_mod_inj: "byte c div 16 = byte d div 16 \<Longrightarrow> byte c mod 16 = byte d mod 16 \<Longrightarrow> c = d"
  by (metis div_mult_mod_eq of_char_eq_iff)

lemma hex_encode_inj: "hex_encode bs = hex_encode cs \<Longrightarrow> bs = cs"
proof (induction bs arbitrary: cs)
  case Nil
  then show ?case by (cases cs) simp_all
next
  case (Cons b bs)
  then show ?case
    by (cases cs) (auto simp: hex_digit_inj byte_less less_mult_imp_div_less intro: byte_div_mod_inj)
qed

section \<open>UTF-8\<close>

definition cont_byte :: "char \<Rightarrow> bool" where
  "cont_byte c \<longleftrightarrow> 128 \<le> byte c \<and> byte c < 192"

text \<open>
  \<open>utf8.DecodeRune\<close>: the first rune and its width, or \<open>None\<close> where Go returns
  \<open>(RuneError, 1)\<close> for an invalid encoding.
\<close>

fun decode_rune :: "string \<Rightarrow> (nat \<times> nat) option" where
  "decode_rune [] = None"
| "decode_rune (a # s) =
     (let x = byte a in
      if x < 128 then Some (x, 1)
      else if 194 \<le> x \<and> x < 224 then
        (case s of b # _ \<Rightarrow> if cont_byte b then Some ((x - 192) * 64 + (byte b - 128), 2) else None
         | _ \<Rightarrow> None)
      else if 224 \<le> x \<and> x < 240 then
        (case s of b # c # _ \<Rightarrow>
           if cont_byte b \<and> cont_byte c \<and> (x = 224 \<longrightarrow> 160 \<le> byte b) \<and> (x = 237 \<longrightarrow> byte b < 160)
           then Some ((x - 224) * 4096 + (byte b - 128) * 64 + (byte c - 128), 3) else None
         | _ \<Rightarrow> None)
      else if 240 \<le> x \<and> x < 245 then
        (case s of b # c # d # _ \<Rightarrow>
           if cont_byte b \<and> cont_byte c \<and> cont_byte d \<and> (x = 240 \<longrightarrow> 144 \<le> byte b) \<and> (x = 244 \<longrightarrow> byte b < 144)
           then Some ((x - 240) * 262144 + (byte b - 128) * 4096 + (byte c - 128) * 64 + (byte d - 128), 4)
           else None
         | _ \<Rightarrow> None)
      else None)"

lemma decode_rune_width: "decode_rune s = Some (r, n) \<Longrightarrow> 0 < n \<and> n \<le> length s"
  by (cases s) (auto simp: Let_def split: if_splits list.splits)

function utf8_valid :: "string \<Rightarrow> bool" where
  "utf8_valid s = (s = [] \<or> (case decode_rune s of None \<Rightarrow> False | Some (r, n) \<Rightarrow> utf8_valid (drop n s)))"
  by pat_completeness auto
termination
  by (relation "measure length") (auto dest: decode_rune_width)

text \<open>The runes a \<open>for range\<close> visits; an invalid byte is the rune U+FFFD of width one.\<close>

function runes :: "string \<Rightarrow> nat list" where
  "runes s = (if s = [] then [] else
     (case decode_rune s of None \<Rightarrow> 65533 # runes (tl s) | Some (r, n) \<Rightarrow> r # runes (drop n s)))"
  by pat_completeness auto
termination
  by (relation "measure length") (auto dest: decode_rune_width)

declare utf8_valid.simps [simp del] runes.simps [simp del]

definition ascii :: "string \<Rightarrow> bool" where
  "ascii s \<longleftrightarrow> list_all (\<lambda>c. byte c < 128) s"

lemma ascii_simps [simp]:
  "ascii []" "ascii (c # s) \<longleftrightarrow> byte c < 128 \<and> ascii s" "ascii (s @ t) \<longleftrightarrow> ascii s \<and> ascii t"
  by (simp_all add: ascii_def)

lemma utf8_valid_ascii: "ascii s \<Longrightarrow> utf8_valid s"
proof (induction s)
  case Nil
  show ?case by (subst utf8_valid.simps) simp
next
  case (Cons c s)
  then show ?case by (subst utf8_valid.simps) (simp add: ascii_def)
qed

text \<open>
  The sources reject control characters rune by rune.  A rune below 128 is exactly its byte, so
  the loop over runes and a loop over bytes reject the same strings.
\<close>

definition control :: "nat \<Rightarrow> bool" where
  "control r \<longleftrightarrow> r < 32 \<or> r = 127"

lemma decode_rune_small:
  assumes "decode_rune s = Some (r, n)"
  shows "r < 128 \<and> n = 1 \<and> r = byte (hd s) \<or> 128 \<le> r \<and> list_all (\<lambda>c. 128 \<le> byte c) (take n s)"
  using assms by (cases s) (auto simp: Let_def cont_byte_def split: if_splits list.splits)

lemma runes_small:
  assumes small: "\<And>r. P r \<Longrightarrow> r < 128"
  shows "(\<exists>r \<in> set (runes s). P r) \<longleftrightarrow> (\<exists>c \<in> set s. P (byte c))"
proof (induction s rule: runes.induct)
  case (1 s)
  show ?case
  proof (cases "s = []")
    case True
    then show ?thesis by (subst runes.simps) simp
  next
    case False
    then obtain c s' where s: "s = c # s'" by (cases s) auto
    show ?thesis
    proof (cases "decode_rune s")
      case None
      then have "\<not> P (byte c)" using small by (fastforce simp: s Let_def split: if_splits)
      with 1(1) [OF False None] None show ?thesis
        using small [of 65533] by (subst runes.simps) (auto simp: s)
    next
      case (Some p)
      obtain r n where p: "p = (r, n)" by (cases p)
      have IH: "(\<exists>r \<in> set (runes (drop n s)). P r) \<longleftrightarrow> (\<exists>c \<in> set (drop n s). P (byte c))"
        using 1(2) [OF False Some p [symmetric]] .
      have "set s = set (take n s) \<union> set (drop n s)" by (metis append_take_drop_id set_append)
      then have split: "(\<exists>c \<in> set s. P (byte c)) \<longleftrightarrow>
          (\<exists>c \<in> set (take n s). P (byte c)) \<or> (\<exists>c \<in> set (drop n s). P (byte c))" by auto
      have "P r \<longleftrightarrow> (\<exists>c \<in> set (take n s). P (byte c))"
        using decode_rune_small [OF Some [unfolded p]] small [of r]
        by (fastforce simp: s list_all_iff dest: small)
      with IH split Some p False show ?thesis by (subst runes.simps) simp
    qed
  qed
qed

lemma control_runes: "(\<exists>r \<in> set (runes s). control r) \<longleftrightarrow> (\<exists>c \<in> set s. control (byte c))"
  by (rule runes_small) (auto simp: control_def)

section \<open>Strict URL-safe base64 without padding\<close>

definition b64_char :: "nat \<Rightarrow> char" where
  "b64_char n = (if n < 26 then char_of (65 + n) else if n < 52 then char_of (71 + n)
     else if n < 62 then char_of (n - 4) else if n = 62 then CHR ''-'' else CHR ''_'')"

definition b64_val :: "char \<Rightarrow> nat option" where
  "b64_val c = (let n = byte c in
     if 65 \<le> n \<and> n \<le> 90 then Some (n - 65) else if 97 \<le> n \<and> n \<le> 122 then Some (n - 71)
     else if 48 \<le> n \<and> n \<le> 57 then Some (n + 4) else if n = 45 then Some 62
     else if n = 95 then Some 63 else None)"

fun b64_encode :: "bytes \<Rightarrow> string" where
  "b64_encode [] = []"
| "b64_encode [a] = [b64_char (byte a div 4), b64_char (byte a mod 4 * 16)]"
| "b64_encode [a, b] =
     [b64_char (byte a div 4), b64_char (byte a mod 4 * 16 + byte b div 16), b64_char (byte b mod 16 * 4)]"
| "b64_encode (a # b # c # r) =
     b64_char (byte a div 4) # b64_char (byte a mod 4 * 16 + byte b div 16)
     # b64_char (byte b mod 16 * 4 + byte c div 64) # b64_char (byte c mod 64) # b64_encode r"

fun b64_quanta :: "nat list \<Rightarrow> bytes option" where
  "b64_quanta [] = Some []"
| "b64_quanta [w] = None"
| "b64_quanta [w, x] = (if x mod 16 = 0 then Some [char_of (w * 4 + x div 16)] else None)"
| "b64_quanta [w, x, y] = (if y mod 4 = 0
     then Some [char_of (w * 4 + x div 16), char_of (x mod 16 * 16 + y div 4)] else None)"
| "b64_quanta (w # x # y # z # r) = map_option
     (\<lambda>t. char_of (w * 4 + x div 16) # char_of (x mod 16 * 16 + y div 4) # char_of (y mod 4 * 64 + z) # t)
     (b64_quanta r)"

definition crlf :: "char \<Rightarrow> bool" where
  "crlf c \<longleftrightarrow> byte c = 10 \<or> byte c = 13"

definition b64_decode :: "string \<Rightarrow> bytes option" where
  "b64_decode s = do { ws \<leftarrow> those (map b64_val (filter (\<lambda>c. \<not> crlf c) s)); b64_quanta ws }"

lemma b64_char_byte: "n < 64 \<Longrightarrow> byte (b64_char n) =
    (if n < 26 then 65 + n else if n < 52 then 71 + n else if n < 62 then n - 4 else if n = 62 then 45 else 95)"
  by (simp add: b64_char_def)

lemma b64_val_char [simp]: "n < 64 \<Longrightarrow> b64_val (b64_char n) = Some n"
  by (cases "n < 26"; cases "n < 52"; cases "n < 62"; cases "n = 62"; simp add: b64_val_def b64_char_byte Let_def; presburger?)

lemma b64_char_not_crlf [simp]: "n < 64 \<Longrightarrow> \<not> crlf (b64_char n)"
  by (cases "n < 26"; cases "n < 52"; cases "n < 62"; cases "n = 62"; simp add: crlf_def b64_char_byte; presburger?)

lemma b64_val_SomeD: "b64_val c = Some n \<Longrightarrow> n < 64 \<and> b64_char n = c"
proof -
  assume v: "b64_val c = Some n"
  then have "n < 64" by (auto simp: b64_val_def Let_def split: if_splits)
  moreover from v this have "byte (b64_char n) = byte c"
    by (auto simp: b64_char_byte b64_val_def Let_def split: if_splits)
  ultimately show ?thesis by (simp only: of_char_eq_iff)
qed

lemma b64_val_not_crlf: "b64_val c \<noteq> None \<Longrightarrow> \<not> crlf c"
  by (auto simp: b64_val_def crlf_def Let_def)

lemma b64_char_not_crlf_div [simp]: "\<not> crlf (b64_char (byte c div 4))"
  by (simp add: byte_less less_mult_imp_div_less)

lemma b64_sextets:
  "byte a div 4 < 64" "byte a mod 4 * 16 < 64" "byte a mod 4 * 16 + byte b div 16 < 64"
  "byte b mod 16 * 4 < 64" "byte b mod 16 * 4 + byte c div 64 < 64" "byte c mod 64 < 64"
proof -
  have a: "byte a < 256" and b: "byte b < 256" and c: "byte c < 256" by (rule byte_less)+
  show "byte a div 4 < 64" "byte c mod 64 < 64" using a by (simp_all add: less_mult_imp_div_less)
  have "byte a mod 4 < 4" "byte b div 16 < 16" "byte b mod 16 < 16" "byte c div 64 < 4"
    using b c by (simp_all add: less_mult_imp_div_less)
  then show "byte a mod 4 * 16 < 64" "byte a mod 4 * 16 + byte b div 16 < 64"
    "byte b mod 16 * 4 < 64" "byte b mod 16 * 4 + byte c div 64 < 64" by linarith+
qed

lemma b64_join: "(w * k + x) div k = w \<and> (w * k + x) mod k = x" if "x < (k :: nat)"
  using that by simp

lemma b64_quanta_encode:
  "b64_quanta (map (\<lambda>c. the (b64_val c)) (b64_encode bs)) = Some bs
   \<and> list_all (\<lambda>c. b64_val c \<noteq> None) (b64_encode bs)"
proof (induction bs rule: b64_encode.induct)
  case (2 a)
  have "byte a mod 4 * 16 div 16 = byte a mod 4" "byte a mod 4 * 16 mod 16 = 0" by simp_all
  then show ?case by (simp add: b64_sextets [of a])
next
  case (3 a b)
  have "(byte a mod 4 * 16 + byte b div 16) div 16 = byte a mod 4"
    "(byte a mod 4 * 16 + byte b div 16) mod 16 = byte b div 16"
    by (rule b64_join [THEN conjunct1] b64_join [THEN conjunct2], simp add: byte_less less_mult_imp_div_less)+
  then show ?case by (simp add: b64_sextets)
next
  case (4 a b c r)
  have "(byte a mod 4 * 16 + byte b div 16) div 16 = byte a mod 4"
    "(byte a mod 4 * 16 + byte b div 16) mod 16 = byte b div 16"
    "(byte b mod 16 * 4 + byte c div 64) div 4 = byte b mod 16"
    "(byte b mod 16 * 4 + byte c div 64) mod 4 = byte c div 64"
    by (rule b64_join [THEN conjunct1] b64_join [THEN conjunct2], simp add: byte_less less_mult_imp_div_less)+
  with 4 show ?case by (simp add: b64_sextets)
qed simp

lemma those_map_the: "list_all (\<lambda>c. f c \<noteq> None) xs \<Longrightarrow> those (map f xs) = Some (map (\<lambda>c. the (f c)) xs)"
  by (induction xs) auto

lemma those_map_SomeD: "those (map f xs) = Some ys \<Longrightarrow> list_all2 (\<lambda>x y. f x = Some y) xs ys"
  by (induction xs arbitrary: ys) (auto split: option.splits)

lemma b64_decode_encode: "b64_decode (b64_encode bs) = Some bs"
proof -
  have v: "list_all (\<lambda>c. b64_val c \<noteq> None) (b64_encode bs)" using b64_quanta_encode by blast
  then have "filter (\<lambda>c. \<not> crlf c) (b64_encode bs) = b64_encode bs"
    by (simp add: filter_id_conv list_all_iff b64_val_not_crlf)
  with v show ?thesis by (simp add: b64_decode_def those_map_the b64_quanta_encode)
qed

lemma b64_decode_ignores_crlf: "b64_decode (filter (\<lambda>c. \<not> crlf c) s) = b64_decode s"
  by (simp add: b64_decode_def)

lemma b64_quanta_SomeD:
  "b64_quanta ws = Some bs \<Longrightarrow> list_all (\<lambda>w. w < 64) ws \<Longrightarrow> b64_encode bs = map b64_char ws"
proof (induction ws arbitrary: bs rule: b64_quanta.induct)
  case (3 w x)
  then have x: "x mod 16 = 0" "bs = [char_of (w * 4 + x div 16)]" by (auto split: if_splits)
  have b: "w * 4 + x div 16 < 256" using 3(2) by auto
  have "x div 16 < 4" using 3(2) by auto
  moreover have "x div 16 * 16 = x" using div_mult_mod_eq [of x 16] x by simp
  ultimately show ?case by (simp add: b x(2))
next
  case (4 w x y)
  then have y: "y mod 4 = 0" "bs = [char_of (w * 4 + x div 16), char_of (x mod 16 * 16 + y div 4)]"
    by (auto split: if_splits)
  have b: "w * 4 + x div 16 < 256" "x mod 16 * 16 + y div 4 < 256" using 4(2) by auto
  have "x div 16 < 4" "y div 4 < 16" using 4(2) by auto
  moreover have "y div 4 * 4 = y" using div_mult_mod_eq [of y 4] y by simp
  ultimately show ?case by (simp add: b y(2))
next
  case (5 w x y z r)
  then obtain t where t: "b64_quanta r = Some t"
    "bs = char_of (w * 4 + x div 16) # char_of (x mod 16 * 16 + y div 4) # char_of (y mod 4 * 64 + z) # t"
    by auto
  have b: "w * 4 + x div 16 < 256" "x mod 16 * 16 + y div 4 < 256" "y mod 4 * 64 + z < 256"
    using 5(3) by auto
  have "x div 16 < 4" "y div 4 < 16" "z < 64" using 5(3) by auto
  with 5 t show ?case by (simp add: b)
qed simp_all

lemma those_b64_val:
  "those (map b64_val s) = Some ws \<Longrightarrow> map b64_char ws = s \<and> list_all (\<lambda>w. w < 64) ws"
  by (induction s arbitrary: ws) (auto split: option.splits dest: b64_val_SomeD)

text \<open>What strict decoding accepts is the encoding of its result, up to CR and LF bytes.\<close>

lemma b64_decode_Some: "b64_decode s = Some bs \<longleftrightarrow> filter (\<lambda>c. \<not> crlf c) s = b64_encode bs"
proof
  assume "b64_decode s = Some bs"
  then obtain ws where "those (map b64_val (filter (\<lambda>c. \<not> crlf c) s)) = Some ws" "b64_quanta ws = Some bs"
    by (auto simp: b64_decode_def bind_eq_Some_conv)
  then show "filter (\<lambda>c. \<not> crlf c) s = b64_encode bs"
    using those_b64_val b64_quanta_SomeD by metis
next
  assume "filter (\<lambda>c. \<not> crlf c) s = b64_encode bs"
  then show "b64_decode s = Some bs" by (metis b64_decode_ignores_crlf b64_decode_encode)
qed

lemma b64_encode_inj: "b64_encode a = b64_encode b \<longleftrightarrow> a = b"
  by (metis b64_decode_encode option.inject)

text \<open>\<open>unicode.IsSpace\<close>.\<close>

definition is_space :: "nat \<Rightarrow> bool" where
  "is_space r \<longleftrightarrow> r \<in> {9, 10, 11, 12, 13, 32, 133, 160, 5760, 8232, 8233, 8239, 8287, 12288} \<or> 8192 \<le> r \<and> r \<le> 8202"

end
