(* ===== verification/Digest.thy ===== *)
theory Digest
  imports GoBytes
begin

text \<open>
  The \<open>sha256:<hex>\<close> digests of receipts (\<open>internal/digest/digest.go\<close>).  SHA-256 itself is code
  of the standard library that nothing here depends on beyond its type: every definition that
  hashes takes it as the argument \<open>H\<close>, a function from byte strings to 256-bit words.  Theorems
  that need two hashed strings to be equal when their hashes are name the finite set of strings on
  which \<open>H\<close> must be injective.
\<close>

type_synonym hash = "256 word"
type_synonym hasher = "bytes \<Rightarrow> hash"

text \<open>The fixed-width big-endian bytes of a number; \<open>h[:]\<close> of a hash is \<open>hash_bytes h\<close>.\<close>

primrec be_bytes :: "nat \<Rightarrow> nat \<Rightarrow> bytes" where
  "be_bytes 0 v = []"
| "be_bytes (Suc k) v = be_bytes k (v div 256) @ [char_of (v mod 256)]"

definition hash_bytes :: "hash \<Rightarrow> bytes" where
  "hash_bytes h = be_bytes 32 (unat h)"

lemma length_be_bytes [simp]: "length (be_bytes k v) = k"
  by (induction k arbitrary: v) simp_all

lemma be_bytes_inj: "be_bytes k v = be_bytes k w \<Longrightarrow> v < 256 ^ k \<Longrightarrow> w < 256 ^ k \<Longrightarrow> v = w"
proof (induction k arbitrary: v w)
  case (Suc k)
  then have "v div 256 = w div 256" "v mod 256 = w mod 256"
    by (auto simp: less_mult_imp_div_less mult.commute dest: arg_cong [where f = byte])
  then show ?case by (metis div_mult_mod_eq)
qed simp

lemma length_hash_bytes [simp]: "length (hash_bytes h) = 32"
  by (simp add: hash_bytes_def)

lemma hash_bytes_inj [simp]: "hash_bytes g = hash_bytes h \<longleftrightarrow> g = h"
proof
  assume eq: "hash_bytes g = hash_bytes h"
  have "unat g < 256 ^ 32" "unat h < 256 ^ 32"
    using unsigned_less [of g] unsigned_less [of h] by simp_all
  with eq have "unat g = unat h" by (auto simp: hash_bytes_def intro: be_bytes_inj)
  then show "g = h" by (rule unsigned_word_eqI)
qed simp

text \<open>Fixed-length append, the form in which every hash is concatenated.\<close>

lemma hash_bytes_append_inj [simp]:
  "hash_bytes g @ xs = hash_bytes h @ ys \<longleftrightarrow> g = h \<and> xs = ys"
  by (auto dest: append_eq_append_conv [THEN iffD1, rotated])

section \<open>Digest strings\<close>

definition digest_prefix :: string where
  "digest_prefix = ''sha256:''"

definition digest_of_hash :: "hash \<Rightarrow> string" where
  "digest_of_hash h = digest_prefix @ hex_encode (hash_bytes h)"

definition digest_SHA256 :: "hasher \<Rightarrow> bytes \<Rightarrow> string" where
  "digest_SHA256 H b = digest_of_hash (H b)"

definition digest_Valid :: "string \<Rightarrow> bool" where
  "digest_Valid s = (case cut_prefix digest_prefix s of
     None \<Rightarrow> False
   | Some h \<Rightarrow> length h = 64 \<and> list_all is_hex h)"

lemma digest_Valid_iff:
  "digest_Valid s \<longleftrightarrow> (\<exists>h. s = digest_prefix @ h \<and> length h = 64 \<and> list_all is_hex h)"
  by (auto simp: digest_Valid_def cut_prefix_Some split: option.splits)

lemma digest_of_hash_valid [simp]: "digest_Valid (digest_of_hash h)"
  by (auto simp: digest_Valid_iff digest_of_hash_def hex_encode_is_hex)

lemma digest_SHA256_valid [simp]: "digest_Valid (digest_SHA256 H b)"
  by (simp add: digest_SHA256_def)

lemma digest_of_hash_inj [simp]: "digest_of_hash g = digest_of_hash h \<longleftrightarrow> g = h"
  by (auto simp: digest_of_hash_def dest: hex_encode_inj)

lemma digest_SHA256_eq_iff [simp]: "digest_SHA256 H a = digest_SHA256 H b \<longleftrightarrow> H a = H b"
  by (simp add: digest_SHA256_def)

lemma digest_Valid_nonempty: "digest_Valid s \<Longrightarrow> s \<noteq> []"
  by (auto simp: digest_Valid_iff digest_prefix_def)

lemma not_digest_Valid_Nil [simp]: "\<not> digest_Valid []"
  using digest_Valid_nonempty by blast

lemma is_hex_ascii: "is_hex c \<Longrightarrow> byte c < 128"
  by (auto simp: is_hex_def less_eq_char_def)

lemma digest_Valid_ascii: "digest_Valid s \<Longrightarrow> ascii s"
  using is_hex_ascii by (auto simp: digest_Valid_iff digest_prefix_def ascii_def list_all_iff)

lemma utf8_valid_digest [simp]: "utf8_valid (digest_SHA256 H b)"
  by (intro utf8_valid_ascii digest_Valid_ascii) simp

text \<open>
  Injectivity of the hash on a named set of inputs, the only assumption about SHA-256 that any
  theorem makes.  It is never assumed of all strings, of which infinitely many collide.
\<close>

definition no_collision :: "hasher \<Rightarrow> bytes set \<Rightarrow> bool" where
  "no_collision H A \<longleftrightarrow> inj_on H A"

lemma no_collisionD: "no_collision H A \<Longrightarrow> H a = H b \<Longrightarrow> a \<in> A \<Longrightarrow> b \<in> A \<Longrightarrow> a = b"
  by (simp add: no_collision_def inj_on_eq_iff)

lemma no_collision_subset: "no_collision H A \<Longrightarrow> B \<subseteq> A \<Longrightarrow> no_collision H B"
  by (auto simp: no_collision_def intro: inj_on_subset)

end
