(* ===== verification/Json.thy ===== *)
theory Json
  imports GoBytes
begin

text \<open>
  The parts of Go's \<open>encoding/json\<close> that the sources use: \<open>json.Marshal\<close> with its string escaping,
  the syntax the decoder accepts, and the decoding of an object into a struct.  \<open>parse_marshal\<close> is
  the round trip.  The fuel of the parser is twice the length of the text plus one, which is enough
  because of two nested calls at least one follows the consumption of a byte.
\<close>

section \<open>JSON values and their encoding\<close>

text \<open>
  \<open>JInt\<close> is a number literal without fraction and exponent, \<open>JNum\<close> any other one; the structs of the
  sources have integer fields only.
\<close>

datatype json = JNull | JBool bool | JInt int | JNum string | JStr string | JArr "json list" | JObj "(string \<times> json) list"

definition hex4 :: "nat \<Rightarrow> string" where
  "hex4 n = char_of (92 :: nat) # CHR ''u'' # map hex_digit [n div 4096 mod 16, n div 256 mod 16, n div 16 mod 16, n mod 16]"

text \<open>One rune of a string, with the HTML escaping that \<open>json.Marshal\<close> applies.\<close>

definition escape_rune :: "nat \<Rightarrow> string \<Rightarrow> string" where
  "escape_rune r raw =
     (if r = 34 \<or> r = 92 then [char_of (92 :: nat), char_of r]
      else if r = 8 then [char_of (92 :: nat), CHR ''b''] else if r = 12 then [char_of (92 :: nat), CHR ''f''] else if r = 10 then [char_of (92 :: nat), CHR ''n'']
      else if r = 13 then [char_of (92 :: nat), CHR ''r''] else if r = 9 then [char_of (92 :: nat), CHR ''t'']
      else if r < 32 \<or> r = 60 \<or> r = 62 \<or> r = 38 \<or> r = 8232 \<or> r = 8233 then hex4 r
      else raw)"

function escape_string :: "string \<Rightarrow> string" where
  "escape_string s = (if s = [] then [] else
     (case decode_rune s of
        None \<Rightarrow> hex4 65533 @ escape_string (tl s)
      | Some (r, n) \<Rightarrow> escape_rune r (take n s) @ escape_string (drop n s)))"
  by pat_completeness auto
termination
  by (relation "measure length") (auto dest: decode_rune_width)

declare escape_string.simps [simp del]

definition quote_json :: "string \<Rightarrow> string" where
  "quote_json s = char_of (34 :: nat) # escape_string s @ [char_of (34 :: nat)]"

fun commas :: "string list \<Rightarrow> string" where
  "commas [] = []"
| "commas [x] = x"
| "commas (x # xs) = x @ CHR '','' # commas xs"

fun marshal :: "json \<Rightarrow> string" where
  "marshal JNull = ''null''"
| "marshal (JBool b) = (if b then ''true'' else ''false'')"
| "marshal (JInt i) = show_int i"
| "marshal (JNum s) = s"
| "marshal (JStr s) = quote_json s"
| "marshal (JArr js) = CHR ''['' # commas (map marshal js) @ '']''"
| "marshal (JObj fs) = CHR ''{'' # commas (map (\<lambda>(k, j). quote_json k @ CHR '':'' # marshal j) fs) @ ''}''"

text \<open>Struct fields with the tag \<open>omitempty\<close>.\<close>

definition omit_str :: "string \<Rightarrow> string \<Rightarrow> (string \<times> json) list" where
  "omit_str k s = (if s = [] then [] else [(k, JStr s)])"

definition omit_strs :: "string \<Rightarrow> string list \<Rightarrow> (string \<times> json) list" where
  "omit_strs k xs = (if xs = [] then [] else [(k, JArr (map JStr xs))])"

definition omit_ptr :: "string \<Rightarrow> ('a \<Rightarrow> json) \<Rightarrow> 'a option \<Rightarrow> (string \<times> json) list" where
  "omit_ptr k f x = (case x of None \<Rightarrow> [] | Some a \<Rightarrow> [(k, f a)])"

section \<open>The syntax the decoder accepts\<close>

definition json_ws :: "char \<Rightarrow> bool" where
  "json_ws c \<longleftrightarrow> byte c = 32 \<or> byte c = 9 \<or> byte c = 10 \<or> byte c = 13"

definition skip_ws :: "string \<Rightarrow> string" where
  "skip_ws s = dropWhile json_ws s"

definition encode_rune :: "nat \<Rightarrow> string" where
  "encode_rune r =
     (if r < 128 then [char_of r]
      else if r < 2048 then [char_of (192 + r div 64), char_of (128 + r mod 64)]
      else if 55296 \<le> r \<and> r < 57344 \<or> 1114111 < r then map char_of [239, 191, 189 :: nat]
      else if r < 65536 then [char_of (224 + r div 4096), char_of (128 + r div 64 mod 64), char_of (128 + r mod 64)]
      else [char_of (240 + r div 262144), char_of (128 + r div 4096 mod 64), char_of (128 + r div 64 mod 64),
            char_of (128 + r mod 64)])"

definition hex_val :: "char \<Rightarrow> nat option" where
  "hex_val c = (let n = byte c in
     if 48 \<le> n \<and> n \<le> 57 then Some (n - 48) else if 97 \<le> n \<and> n \<le> 102 then Some (n - 87)
     else if 65 \<le> n \<and> n \<le> 70 then Some (n - 55) else None)"

fun hex4_val :: "string \<Rightarrow> (nat \<times> string) option" where
  "hex4_val (a # b # c # d # s) = do {
     w \<leftarrow> hex_val a; x \<leftarrow> hex_val b; y \<leftarrow> hex_val c; z \<leftarrow> hex_val d;
     Some (w * 4096 + x * 256 + y * 16 + z, s) }"
| "hex4_val _ = None"

text \<open>After a backslash and \<open>u\<close>: a rune, or a surrogate pair, or U+FFFD for half of one.\<close>

definition unicode_escape :: "string \<Rightarrow> (string \<times> string) option" where
  "unicode_escape s = do {
     (r, t) \<leftarrow> hex4_val s;
     (if 55296 \<le> r \<and> r < 56320 \<and> take 2 t = [char_of (92 :: nat), CHR ''u''] then
        (case hex4_val (drop 2 t) of
           Some (q, t') \<Rightarrow>
             if 56320 \<le> q \<and> q < 57344 then Some (encode_rune (65536 + (r - 55296) * 1024 + (q - 56320)), t')
             else Some (encode_rune 65533, t)
         | None \<Rightarrow> Some (encode_rune 65533, t))
      else Some (encode_rune r, t)) }"

definition char_escape :: "char \<Rightarrow> char option" where
  "char_escape e =
     (if byte e = 34 \<or> byte e = 92 \<or> byte e = 47 then Some e
      else if e = CHR ''b'' then Some (char_of (8 :: nat)) else if e = CHR ''f'' then Some (char_of (12 :: nat))
      else if e = CHR ''n'' then Some (char_of (10 :: nat)) else if e = CHR ''r'' then Some (char_of (13 :: nat))
      else if e = CHR ''t'' then Some (char_of (9 :: nat)) else None)"

text \<open>One character of a string: its decoded bytes and what follows.\<close>

fun char_step :: "string \<Rightarrow> (string \<times> string) option" where
  "char_step [] = None"
| "char_step (c # s) =
     (if byte c = 92 then
        (case s of [] \<Rightarrow> None
         | e # t \<Rightarrow> if e = CHR ''u'' then unicode_escape t else map_option (\<lambda>d. ([d], t)) (char_escape e))
      else if byte c < 32 then None
      else case decode_rune (c # s) of
          None \<Rightarrow> Some (encode_rune 65533, s)
        | Some (r, n) \<Rightarrow> Some (take n (c # s), drop n (c # s)))"

lemma hex4_val_shorter: "hex4_val s = Some (r, t) \<Longrightarrow> length t < length s"
  by (cases s rule: hex4_val.cases) (auto simp: bind_eq_Some_conv)

lemma unicode_escape_shorter: "unicode_escape s = Some (o', t) \<Longrightarrow> length t < length s"
  by (auto simp: unicode_escape_def bind_eq_Some_conv split: if_splits option.splits dest!: hex4_val_shorter)

lemma char_step_shorter: "char_step s = Some (o', t) \<Longrightarrow> length t < length s"
  by (cases s) (auto split: if_splits list.splits option.splits simp del: decode_rune.simps
      dest!: unicode_escape_shorter decode_rune_width)

function parse_chars :: "string \<Rightarrow> (string \<times> string) option" where
  "parse_chars s = (case s of [] \<Rightarrow> None | c # t \<Rightarrow>
     if byte c = 34 then Some ([], t)
     else case char_step s of None \<Rightarrow> None
       | Some (a, u) \<Rightarrow> map_option (\<lambda>(b, v). (a @ b, v)) (parse_chars u))"
  by pat_completeness auto
termination
  by (relation "measure length") (auto dest: char_step_shorter simp del: char_step.simps)

declare parse_chars.simps [simp del]

definition digits_val :: "string \<Rightarrow> int" where
  "digits_val = foldl (\<lambda>n c. 10 * n + digit_val c) 0"

text \<open>A number literal: sign, integer part without leading zeros, fraction and exponent.\<close>

definition take_digits :: "string \<Rightarrow> string \<times> string" where
  "take_digits s = (takeWhile is_digit s, dropWhile is_digit s)"

definition int_part :: "string \<Rightarrow> (string \<times> string) option" where
  "int_part s = (let (d, t) = take_digits s in
     if d = [] then None else if hd d = CHR ''0'' then Some (''0'', tl s) else Some (d, t))"

definition frac_part :: "string \<Rightarrow> (string \<times> string) option" where
  "frac_part s = (case s of [] \<Rightarrow> Some ([], s) | c # t \<Rightarrow>
     if c = CHR ''.'' then (let (d, u) = take_digits t in if d = [] then None else Some (c # d, u))
     else Some ([], s))"

definition exp_part :: "string \<Rightarrow> (string \<times> string) option" where
  "exp_part s = (case s of [] \<Rightarrow> Some ([], s) | c # t \<Rightarrow>
     if c = CHR ''e'' \<or> c = CHR ''E'' then
       (let (sg, u) = (case t of x # u \<Rightarrow> if x = CHR ''+'' \<or> x = CHR ''-'' then ([x], u) else ([], t) | [] \<Rightarrow> ([], t));
            (d, v) = take_digits u in if d = [] then None else Some (c # sg @ d, v))
     else Some ([], s))"

definition parse_number :: "string \<Rightarrow> (json \<times> string) option" where
  "parse_number s = (let (neg, s1) = (case s of c # t \<Rightarrow> if c = CHR ''-'' then (True, t) else (False, s) | [] \<Rightarrow> (False, s))
     in do {
       (i, s2) \<leftarrow> int_part s1; (f, s3) \<leftarrow> frac_part s2; (e, s4) \<leftarrow> exp_part s3;
       Some (if f @ e = [] then JInt (if neg then - digits_val i else digits_val i)
             else JNum ((if neg then ''-'' else []) @ i @ f @ e), s4) })"

fun parse_value :: "nat \<Rightarrow> string \<Rightarrow> (json \<times> string) option"
  and parse_elems :: "nat \<Rightarrow> string \<Rightarrow> (json list \<times> string) option"
  and parse_members :: "nat \<Rightarrow> string \<Rightarrow> ((string \<times> json) list \<times> string) option" where
  "parse_value 0 s = None"
| "parse_value (Suc n) s0 = (case skip_ws s0 of [] \<Rightarrow> None | c # s \<Rightarrow>
     if byte c = 34 then map_option (\<lambda>(x, t). (JStr x, t)) (parse_chars s)
     else if c = CHR ''{'' then
       (case skip_ws s of [] \<Rightarrow> None | d # t \<Rightarrow>
          if d = CHR ''}'' then Some (JObj [], t) else map_option (\<lambda>(x, u). (JObj x, u)) (parse_members n s))
     else if c = CHR ''['' then
       (case skip_ws s of [] \<Rightarrow> None | d # t \<Rightarrow>
          if d = CHR '']'' then Some (JArr [], t) else map_option (\<lambda>(x, u). (JArr x, u)) (parse_elems n s))
     else if c = CHR ''t'' then map_option (\<lambda>t. (JBool True, t)) (cut_prefix ''rue'' s)
     else if c = CHR ''f'' then map_option (\<lambda>t. (JBool False, t)) (cut_prefix ''alse'' s)
     else if c = CHR ''n'' then map_option (\<lambda>t. (JNull, t)) (cut_prefix ''ull'' s)
     else parse_number (c # s))"
| "parse_elems 0 s = None"
| "parse_elems (Suc n) s = do {
     (j, t) \<leftarrow> parse_value n s;
     (case skip_ws t of [] \<Rightarrow> None | c # u \<Rightarrow>
        if c = CHR '','' then map_option (\<lambda>(js, v). (j # js, v)) (parse_elems n u)
        else if c = CHR '']'' then Some ([j], u) else None) }"
| "parse_members 0 s = None"
| "parse_members (Suc n) s = (case skip_ws s of [] \<Rightarrow> None | q # s1 \<Rightarrow>
     if byte q \<noteq> 34 then None else do {
     (k, s2) \<leftarrow> parse_chars s1;
     (case skip_ws s2 of [] \<Rightarrow> None | c # s3 \<Rightarrow>
        if c \<noteq> CHR '':'' then None else do {
        (j, t) \<leftarrow> parse_value n s3;
        (case skip_ws t of [] \<Rightarrow> None | d # u \<Rightarrow>
           if d = CHR '','' then map_option (\<lambda>(fs, v). ((k, j) # fs, v)) (parse_members n u)
           else if d = CHR ''}'' then Some ([(k, j)], u) else None) }) })"

text \<open>\<open>json.Decoder.Decode\<close> reads the first value; \<open>json.Unmarshal\<close> wants nothing but space after it.\<close>

definition decode_json :: "string \<Rightarrow> (json \<times> string) option" where
  "decode_json s = parse_value (2 * length s + 1) s"

definition unmarshal_json :: "string \<Rightarrow> json option" where
  "unmarshal_json s = (case decode_json s of None \<Rightarrow> None | Some (j, t) \<Rightarrow> if skip_ws t = [] then Some j else None)"

section \<open>Round trip\<close>

lemma decode_rune_append:
  "decode_rune s = Some (r, n) \<Longrightarrow> decode_rune (s @ t) = Some (r, n)"
  by (cases s) (auto simp: Let_def split: if_splits list.splits)

lemma decode_rune_take:
  "decode_rune s = Some (r, n) \<Longrightarrow> decode_rune (take n s @ t) = Some (r, n)"
proof -
  assume d: "decode_rune s = Some (r, n)"
  consider a where "s = [a]" | a b where "s = [a, b]" | a b c where "s = [a, b, c]"
    | a b c e u where "s = a # b # c # e # u" | "s = []"
    by (metis list.exhaust)
  then show ?thesis using d by cases (auto simp: Let_def split: if_splits)
qed

lemma hex_val_digit: "n < 16 \<Longrightarrow> hex_val (hex_digit n) = Some n"
  by (simp add: hex_val_def hex_digit_byte Let_def)

lemma hex4_val_hex4: "n < 65536 \<Longrightarrow> hex4_val (drop 2 (hex4 n) @ t) = Some (n, t)"
proof -
  assume n: "n < 65536"
  have "n div 4096 * 4096 + n div 256 mod 16 * 256 + n div 16 mod 16 * 16 + n mod 16 = n"
  proof -
    define a b c where abc: "a = n div 16" "b = a div 16" "c = b div 16"
    then have "n div 256 = b" "n div 4096 = c" by (simp_all flip: div_mult2_eq)
    moreover have "c < 16" using n abc by (simp flip: div_mult2_eq)
    moreover have "n = 16 * a + n mod 16" "a = 16 * b + a mod 16" "b = 16 * c + b mod 16"
      unfolding abc by simp_all
    ultimately show ?thesis by (simp flip: abc(1))
  qed
  moreover have "n div 4096 mod 16 = n div 4096" using n by (intro mod_less) auto
  ultimately show ?thesis by (simp add: hex4_def hex_val_digit n less_mult_imp_div_less)
qed

lemma decode_rune_1: "decode_rune s = Some (r, n) \<Longrightarrow> r < 128 \<Longrightarrow> n = 1 \<and> take n s = [char_of r]"
  using decode_rune_small [of s r n] decode_rune_width [of s r n] by (cases s) auto

lemma three_bytes:
  fixes r x y z :: nat
  assumes "r = (x - 224) * 4096 + (y - 128) * 64 + (z - 128)" "r = 8232 \<or> r = 8233"
    and "224 \<le> x" "128 \<le> y" "y < 192" "128 \<le> z" "z < 192"
  shows "x = 226 \<and> y = 128 \<and> z = r - 8064"
proof -
  obtain u where u: "x = 224 + u" using assms(3) by (auto simp: le_iff_add)
  obtain v where v: "y = 128 + v" using assms(4) by (auto simp: le_iff_add)
  obtain w where w: "z = 128 + w" using assms(6) by (auto simp: le_iff_add)
  have b: "v < 64" "w < 64" using assms(5,7) v w by auto
  have r: "r = u * 4096 + v * 64 + w" using assms(1) u v w by simp
  have "u < 3" "1 < u" using assms(2) r b by linarith+
  then have "u = 2" by simp
  moreover from this have "v < 1" using assms(2) r b by linarith
  ultimately show ?thesis using u v w r by simp
qed

lemma if_Some_pair: "(if P then Some (x, y) else None) = Some (r, n) \<longleftrightarrow> P \<and> x = r \<and> y = n"
  by auto

lemma decode_rune_cases:
  assumes "decode_rune s = Some (r, n)"
  obtains (one) a u where "s = a # u" "n = 1" "r = byte a" "r < 128"
  | (two) a b u where "s = a # b # u" "n = 2" "r = (byte a - 192) * 64 + (byte b - 128)" "byte a < 224"
      "194 \<le> byte a" "128 \<le> byte b" "byte b < 192"
  | (three) a b c u where "s = a # b # c # u" "n = 3"
      "r = (byte a - 224) * 4096 + (byte b - 128) * 64 + (byte c - 128)" "224 \<le> byte a"
      "128 \<le> byte b" "byte b < 192" "128 \<le> byte c" "byte c < 192"
  | (four) a b c d u where "s = a # b # c # d # u" "n = 4"
      "r = (byte a - 240) * 262144 + (byte b - 128) * 4096 + (byte c - 128) * 64 + (byte d - 128)"
      "240 \<le> byte a" "128 \<le> byte b" "byte a = 240 \<longrightarrow> 144 \<le> byte b"
proof -
  consider a where "s = [a]" | a b where "s = [a, b]" | a b c where "s = [a, b, c]"
    | a b c e u where "s = a # b # c # e # u" | "s = []"
    by (metis list.exhaust)
  then show thesis
  proof cases
    case 1
    then show thesis using assms one [of a "[]"]
      by (simp add: Let_def cont_byte_def split: if_splits)
  next
    case 2
    then show thesis using assms one [of a "[b]"] two [of a b "[]"]
      by (simp add: Let_def cont_byte_def split: if_splits)
  next
    case 3
    then show thesis using assms one [of a "[b, c]"] two [of a b "[c]"] three [of a b c "[]"]
      by (simp add: Let_def cont_byte_def split: if_splits)
  next
    case s: 4
    consider "byte a < 128" | "128 \<le> byte a" "byte a < 224" | "224 \<le> byte a" "byte a < 240" | "240 \<le> byte a"
      by linarith
    then show thesis
    proof cases
      case 1
      with s assms one [of a "b # c # e # u"] show thesis by (simp add: Let_def)
    next
      case 2
      with s assms two [of a b "c # e # u"] show thesis by (simp add: Let_def cont_byte_def split: if_splits)
    next
      case 3
      with s assms three [of a b c "e # u"] show thesis by (simp add: Let_def cont_byte_def split: if_splits)
    next
      case 4
      then have dr: "decode_rune s = (if byte a < 245 \<and> cont_byte b \<and> cont_byte c \<and> cont_byte e
            \<and> (byte a = 240 \<longrightarrow> 144 \<le> byte b) \<and> (byte a = 244 \<longrightarrow> byte b < 144)
          then Some ((byte a - 240) * 262144 + (byte b - 128) * 4096 + (byte c - 128) * 64 + (byte e - 128), 4)
          else None)" by (simp add: s Let_def)
      note trans [OF dr [symmetric] assms, unfolded if_Some_pair]
      then have f: "cont_byte b" "byte a = 240 \<longrightarrow> 144 \<le> byte b" "n = 4"
          "r = (byte a - 240) * 262144 + (byte b - 128) * 4096 + (byte c - 128) * 64 + (byte e - 128)"
        by blast+
      show thesis by (rule four [OF s f(3,4) 4 _ f(2)]) (use f(1) in \<open>simp add: cont_byte_def\<close>)
    qed
  qed (use assms in simp)
qed

lemma byte_eq_char: "byte c = m \<Longrightarrow> c = char_of m"
  by auto

lemma decode_rune_separators:
  assumes "decode_rune s = Some (r, n)" and r: "r = 8232 \<or> r = 8233"
  shows "take n s = encode_rune r"
  using assms(1)
proof (cases rule: decode_rune_cases)
  case one
  with r show ?thesis by simp
next
  case (two a b u)
  then have "(byte a - 192) * 64 + (byte b - 128) < 32 * 64" by linarith
  with two r show ?thesis by simp
next
  case (three a b c u)
  note abc = three_bytes [OF three(3) r three(4-8)]
  have "a = char_of (226 :: nat)" "b = char_of (128 :: nat)" "c = char_of (r - 8064)"
    by (rule byte_eq_char [OF abc [THEN conjunct1]],
      rule byte_eq_char [OF abc [THEN conjunct2, THEN conjunct1]],
      rule byte_eq_char [OF abc [THEN conjunct2, THEN conjunct2]])
  with three(1,2) r show ?thesis by (auto simp: encode_rune_def)
next
  case (four a b c d u)
  have "4096 * 16 \<le> (byte a - 240) * 262144 + (byte b - 128) * 4096"
    using four by (cases "byte a = 240") auto
  with four r show ?thesis by auto
qed

lemma unicode_escape_hex4:
  "r < 55296 \<Longrightarrow> unicode_escape (drop 2 (hex4 r) @ t) = Some (encode_rune r, t)"
  by (simp add: unicode_escape_def hex4_val_hex4)

lemma hex4_head: "hex4 r = char_of (92 :: nat) # CHR ''u'' # drop 2 (hex4 r)"
  by (simp add: hex4_def)

lemma char_step_hex4: "r < 55296 \<Longrightarrow> char_step (hex4 r @ t) = Some (encode_rune r, t)"
  by (subst hex4_head) (simp add: unicode_escape_hex4)

text \<open>A rune that is written unescaped: its first byte is no quote, backslash or control character.\<close>

lemma raw_head:
  assumes "decode_rune s = Some (r, n)" "r \<noteq> 34" "r \<noteq> 92" "32 \<le> r"
  obtains c u where "s = c # u" "byte c \<noteq> 34" "byte c \<noteq> 92" "32 \<le> byte c"
  using assms by (cases s) (auto simp: Let_def split: if_splits)

lemma short_escapes:
  "escape_rune 34 u = [char_of (92 :: nat), char_of (34 :: nat)]"
  "escape_rune 92 u = [char_of (92 :: nat), char_of (92 :: nat)]"
  "escape_rune 8 u = [char_of (92 :: nat), CHR ''b'']" "escape_rune 9 u = [char_of (92 :: nat), CHR ''t'']"
  "escape_rune 10 u = [char_of (92 :: nat), CHR ''n'']" "escape_rune 12 u = [char_of (92 :: nat), CHR ''f'']"
  "escape_rune 13 u = [char_of (92 :: nat), CHR ''r'']"
  by (simp_all add: escape_rune_def)

lemma quote_not_u: "char_of (34 :: nat) \<noteq> CHR ''u''" "char_of (92 :: nat) \<noteq> CHR ''u''"
  by code_simp+

lemma char_step_escape:
  assumes d: "decode_rune s = Some (r, n)"
  shows "char_step (escape_rune r (take n s) @ t) = Some (take n s, t)"
    and "byte (hd (escape_rune r (take n s) @ t)) \<noteq> 34" and "escape_rune r (take n s) \<noteq> []"
proof -
  consider (short) "r \<in> {34, 92, 8, 9, 10, 12, 13}"
    | (hex) "r \<notin> {34, 92, 8, 9, 10, 12, 13}" "r < 32 \<or> r = 60 \<or> r = 62 \<or> r = 38 \<or> r = 8232 \<or> r = 8233"
    | (raw) "r \<noteq> 34" "r \<noteq> 92" "32 \<le> r" "r \<notin> {60, 62, 38, 8232, 8233}"
    by fastforce
  then have "char_step (escape_rune r (take n s) @ t) = Some (take n s, t)
    \<and> byte (hd (escape_rune r (take n s) @ t)) \<noteq> 34 \<and> escape_rune r (take n s) \<noteq> []"
  proof cases
    case short
    then have "take n s = [char_of r]" using decode_rune_1 [OF d] by auto
    moreover have "r = 34 \<or> r = 92 \<or> r = 8 \<or> r = 9 \<or> r = 10 \<or> r = 12 \<or> r = 13" using short by blast
    ultimately show ?thesis
      by (elim disjE) (simp_all only: short_escapes, simp_all add: char_escape_def quote_not_u)
  next
    case hex
    then have "escape_rune r (take n s) = hex4 r" by (auto simp: escape_rune_def)
    moreover have "take n s = encode_rune r"
    proof (cases "r < 128")
      case True
      then have "take n s = [char_of r]" using decode_rune_1 [OF d] by blast
      with True show ?thesis by (simp only: encode_rune_def if_True)
    next
      case False
      then show ?thesis using hex(2) decode_rune_separators [OF d] by linarith
    qed
    moreover have "byte (hd (hex4 r @ t)) \<noteq> 34" "hex4 r \<noteq> []" by (subst hex4_head, simp)+
    ultimately show ?thesis using hex by (auto simp: char_step_hex4)
  next
    case raw
    then have e: "escape_rune r (take n s) = take n s" by (auto simp: escape_rune_def)
    obtain c u where s: "s = c # u" "byte c \<noteq> 34" "byte c \<noteq> 92" "32 \<le> byte c"
      using raw_head [OF d raw(1-3)] .
    have n: "0 < n" "n \<le> length s" using decode_rune_width [OF d] by auto
    then obtain v where v: "take n s = c # v" using s(1) by (cases n) auto
    have "decode_rune (c # v @ t) = Some (r, n)" using decode_rune_take [OF d, of t] v by simp
    moreover have "n = length (c # v)" using n v [symmetric] by simp
    then have "take n (c # v @ t) = take n s" "drop n (c # v @ t) = t" using v by simp_all
    ultimately show ?thesis using s e v by (simp del: decode_rune.simps)
  qed
  then show "char_step (escape_rune r (take n s) @ t) = Some (take n s, t)"
    "byte (hd (escape_rune r (take n s) @ t)) \<noteq> 34" "escape_rune r (take n s) \<noteq> []" by blast+
qed

lemma parse_chars_escape:
  "utf8_valid s \<Longrightarrow> parse_chars (escape_string s @ char_of (34 :: nat) # t) = Some (s, t)"
proof (induction s rule: utf8_valid.induct)
  case (1 s)
  show ?case
  proof (cases "s = []")
    case True
    then show ?thesis by (subst escape_string.simps, subst parse_chars.simps) simp
  next
    case False
    with 1(2) obtain r n where d: "decode_rune s = Some (r, n)" and v: "utf8_valid (drop n s)"
      by (subst (asm) utf8_valid.simps) (auto split: option.splits)
    let ?rest = "escape_string (drop n s) @ char_of (34 :: nat) # t"
    have IH: "parse_chars ?rest = Some (drop n s, t)" using 1(1) [OF d refl v] .
    have e: "escape_string s = escape_rune r (take n s) @ escape_string (drop n s)"
      using False d by (subst escape_string.simps) simp
    obtain c u where cu: "escape_rune r (take n s) @ ?rest = c # u"
      using char_step_escape(3) [OF d] by (cases "escape_rune r (take n s)") auto
    have "byte c \<noteq> 34" using char_step_escape(2) [OF d, of ?rest] by (simp add: cu)
    moreover have "char_step (c # u) = Some (take n s, ?rest)"
      using char_step_escape(1) [OF d, of ?rest] by (simp add: cu)
    ultimately have "parse_chars (c # u) = Some (s, t)"
      using IH by (subst parse_chars.simps) (simp del: char_step.simps)
    with cu show ?thesis by (simp add: e)
  qed
qed

lemma digits_val_snoc: "digits_val (s @ [c]) = 10 * digits_val s + digit_val c"
  by (simp add: digits_val_def)

lemma dec_digits_props:
  "list_all is_digit (dec_digits n) \<and> dec_digits n \<noteq> [] \<and> digits_val (dec_digits n) = int n
   \<and> (hd (dec_digits n) = CHR ''0'' \<longrightarrow> n = 0)"
proof (induction n rule: dec_digits.induct)
  case (1 n)
  show ?case
  proof (cases "n < 10")
    case True
    moreover have "digit (int n) = CHR ''0'' \<longrightarrow> n = 0"
    proof
      assume "digit (int n) = CHR ''0''"
      then have "digit_val (digit (int n)) = digit_val (digit 0)" by (simp only: digit_zero)
      with True show "n = 0" by (simp del: digit_zero)
    qed
    moreover have "dec_digits n = [digit (int n)]" using True by (subst dec_digits.simps) simp
    ultimately show ?thesis by (simp add: digits_val_def)
  next
    case False
    have e: "dec_digits n = dec_digits (n div 10) @ [digit (int (n mod 10))]"
      using False by (subst dec_digits.simps) simp
    have "int n = 10 * int (n div 10) + int (n mod 10)" by presburger
    moreover have "n div 10 \<noteq> 0" using False by simp
    ultimately show ?thesis using 1 [OF False] by (simp add: e digits_val_snoc)
  qed
qed

text \<open>What may follow a value inside a larger one, or nothing.\<close>

definition follows :: "string \<Rightarrow> bool" where
  "follows t \<longleftrightarrow> t = [] \<or> json_ws (hd t) \<or> hd t \<in> {CHR '','', CHR '']'', CHR ''}''}"

lemma follows_simps [simp]:
  "follows []" "follows (CHR '','' # t)" "follows (CHR '']'' # t)" "follows (CHR ''}'' # t)"
  by (simp_all add: follows_def)

lemma follows_not_digit: "follows (c # t) \<Longrightarrow> \<not> is_digit c \<and> c \<noteq> CHR ''.'' \<and> c \<noteq> CHR ''e'' \<and> c \<noteq> CHR ''E''"
  by (auto simp: follows_def is_digit_def less_eq_char_def json_ws_def)

lemma take_digits_follows:
  assumes "list_all is_digit d" "follows t"
  shows "take_digits (d @ t) = (d, t)"
proof -
  have "takeWhile is_digit t = []" "dropWhile is_digit t = t"
    using assms(2) follows_not_digit by (cases t; auto)+
  with assms(1) show ?thesis
    by (simp add: take_digits_def takeWhile_append2 dropWhile_append2 list_all_iff)
qed

lemma int_part_dec: "follows t \<Longrightarrow> int_part (dec_digits n @ t) = Some (dec_digits n, t)"
proof -
  assume t: "follows t"
  have td: "take_digits (dec_digits n @ t) = (dec_digits n, t)"
    using take_digits_follows [OF _ t] dec_digits_props by blast
  show ?thesis
  proof (cases "hd (dec_digits n) = CHR ''0''")
    case True
    then have "dec_digits n = ''0''" using dec_digits_props [of n] by (subst dec_digits.simps) simp
    with td show ?thesis by (simp add: int_part_def)
  next
    case False
    with td dec_digits_props [of n] show ?thesis by (simp add: int_part_def)
  qed
qed

lemma frac_exp_follows: "follows t \<Longrightarrow> frac_part t = Some ([], t) \<and> exp_part t = Some ([], t)"
  using follows_not_digit by (cases t) (auto simp: frac_part_def exp_part_def)

lemma parse_number_int: "follows t \<Longrightarrow> parse_number (show_int i @ t) = Some (JInt i, t)"
proof -
  assume t: "follows t"
  obtain c u where cu: "dec_digits (nat \<bar>i\<bar>) = c # u" "is_digit c"
    using dec_digits_props [of "nat \<bar>i\<bar>"] by (cases "dec_digits (nat \<bar>i\<bar>)") auto
  then have "c \<noteq> CHR ''-''" by (auto simp: is_digit_def less_eq_char_def)
  with cu t int_part_dec [OF t, of "nat \<bar>i\<bar>"] frac_exp_follows [OF t] dec_digits_props [of "nat \<bar>i\<bar>"] show ?thesis
    by (auto simp: parse_number_def show_int_def Let_def)
qed

text \<open>Values that Go's structs encode to: valid UTF-8 strings, and numbers that are integers.\<close>

fun json_ok :: "json \<Rightarrow> bool" where
  "json_ok JNull = True"
| "json_ok (JBool b) = True"
| "json_ok (JInt i) = True"
| "json_ok (JNum s) = False"
| "json_ok (JStr s) = utf8_valid s"
| "json_ok (JArr js) = list_all json_ok js"
| "json_ok (JObj fs) = list_all (\<lambda>(k, j). utf8_valid k \<and> json_ok j) fs"

definition member :: "string \<times> json \<Rightarrow> string" where
  "member kj = quote_json (fst kj) @ CHR '':'' # marshal (snd kj)"

lemma member_simp: "member (k, j) = quote_json k @ CHR '':'' # marshal j"
  by (simp add: member_def)

lemma marshal_obj: "marshal (JObj fs) = CHR ''{'' # commas (map member fs) @ ''}''"
  by (simp add: member_def [abs_def] case_prod_unfold)

lemma skip_ws_non_ws [simp]: "\<not> json_ws c \<Longrightarrow> skip_ws (c # s) = c # s"
  by (simp add: skip_ws_def)

lemma punctuation_not_ws [simp]:
  "\<not> json_ws (CHR '','')" "\<not> json_ws (CHR '']'')" "\<not> json_ws (CHR ''}'')" "\<not> json_ws (CHR '':'')"
  "\<not> json_ws (CHR ''{'')" "\<not> json_ws (CHR ''['')" "\<not> json_ws (char_of (34 :: nat))"
  "\<not> json_ws (CHR ''t'')" "\<not> json_ws (CHR ''f'')" "\<not> json_ws (CHR ''n'')" "\<not> json_ws (CHR ''-'')"
  by (simp_all add: json_ws_def)

lemma digit_not_ws: "is_digit c \<Longrightarrow> \<not> json_ws c \<and> byte c \<noteq> 34 \<and> c \<notin> {CHR ''{'', CHR ''['', CHR ''t'',
    CHR ''f'', CHR ''n'', CHR '']'', CHR ''}''}"
  by (auto simp: is_digit_def json_ws_def less_eq_char_def)

lemma show_int_head: "\<exists>c u. show_int i = c # u \<and> (is_digit c \<or> c = CHR ''-'')"
  using dec_digits_props [of "nat \<bar>i\<bar>"] by (cases "dec_digits (nat \<bar>i\<bar>)") (auto simp: show_int_def)

lemma marshal_head:
  assumes "json_ok j"
  obtains c u where "marshal j = c # u" "\<not> json_ws c" "c \<noteq> CHR '']''"
proof (cases j)
  case (JInt i)
  then show thesis using show_int_head [of i] that digit_not_ws by fastforce
next
  case (JBool b)
  then show thesis using that by (cases b) auto
next
  case (JStr s)
  have "char_of (34 :: nat) \<noteq> CHR '']''" by code_simp
  with JStr show thesis using that by (simp add: quote_json_def)
qed (use assms that in auto)

lemma commas_Cons: "xs \<noteq> [] \<Longrightarrow> commas (x # xs) = x @ CHR '','' # commas xs"
  by (cases xs) simp_all

lemma parse_value_int:
  assumes "follows t" "0 < n"
  shows "parse_value n (show_int i @ t) = Some (JInt i, t)"
proof -
  obtain c u where c: "show_int i = c # u" "is_digit c \<or> c = CHR ''-''"
    using show_int_head [of i] by blast
  obtain m where "n = Suc m" using assms(2) by (cases n) auto
  with c digit_not_ws [of c] parse_number_int [OF assms(1), of i] show ?thesis by auto
qed

lemma parse_value_str:
  assumes "utf8_valid s" "0 < n"
  shows "parse_value n (quote_json s @ t) = Some (JStr s, t)"
proof -
  obtain m where "n = Suc m" using assms(2) by (cases n) auto
  with parse_chars_escape [OF assms(1), of t] show ?thesis by (simp add: quote_json_def)
qed

lemma marshal_nonempty: "json_ok j \<Longrightarrow> 1 \<le> length (marshal j)"
  by (rule marshal_head) auto

lemma parse_elems_marshal:
  assumes "\<And>j n t. j \<in> set js \<Longrightarrow> json_ok j \<Longrightarrow> 2 * length (marshal j) \<le> n \<Longrightarrow> follows t \<Longrightarrow>
      parse_value n (marshal j @ t) = Some (j, t)"
    and "js \<noteq> []" "list_all json_ok js" "2 * length (commas (map marshal js)) + 1 \<le> n"
  shows "parse_elems n (commas (map marshal js) @ CHR '']'' # t) = Some (js, t)"
  using assms
proof (induction js arbitrary: n)
  case (Cons j js)
  then obtain m where n: "n = Suc m" by (cases n) auto
  show ?case
  proof (cases "js = []")
    case True
    with Cons.prems n show ?thesis by simp
  next
    case False
    with Cons.prems(4) n have m: "2 * length (marshal j) \<le> m" "2 * length (commas (map marshal js)) + 1 \<le> m"
      by (simp_all add: commas_Cons)
    have "parse_value m (marshal j @ CHR '','' # commas (map marshal js) @ CHR '']'' # t)
        = Some (j, CHR '','' # commas (map marshal js) @ CHR '']'' # t)"
      using Cons.prems m by simp
    moreover have "parse_elems m (commas (map marshal js) @ CHR '']'' # t) = Some (js, t)"
      using Cons.IH [OF _ False _ m(2)] Cons.prems by simp
    ultimately show ?thesis using False n by (simp add: commas_Cons)
  qed
qed simp

lemma parse_members_marshal:
  assumes "\<And>k j n t. (k, j) \<in> set fs \<Longrightarrow> json_ok j \<Longrightarrow> 2 * length (marshal j) \<le> n \<Longrightarrow> follows t \<Longrightarrow>
      parse_value n (marshal j @ t) = Some (j, t)"
    and "fs \<noteq> []" "list_all (\<lambda>(k, j). utf8_valid k \<and> json_ok j) fs"
    and "2 * length (commas (map member fs)) + 1 \<le> n"
  shows "parse_members n (commas (map member fs) @ CHR ''}'' # t) = Some (fs, t)"
  using assms
proof (induction fs arbitrary: n)
  case (Cons kj fs)
  obtain k j where kj: "kj = (k, j)" by (cases kj)
  obtain m where n: "n = Suc m" using Cons.prems(4) by (cases n) auto
  have k: "parse_chars (escape_string k @ char_of (34 :: nat) # u) = Some (k, u)" for u
    using Cons.prems(3) kj parse_chars_escape by simp
  have j: "2 * length (marshal j) \<le> m \<Longrightarrow> follows u \<Longrightarrow> parse_value m (marshal j @ u) = Some (j, u)" for u
    using Cons.prems(1) [of k j m u] Cons.prems(3) kj by simp
  show ?case
  proof (cases "fs = []")
    case True
    with Cons.prems(4) k j n show ?thesis by (simp add: member_simp quote_json_def kj)
  next
    case False
    with Cons.prems(4) n have m: "2 * length (marshal j) \<le> m" "2 * length (commas (map member fs)) + 1 \<le> m"
      by (simp_all add: commas_Cons member_simp kj)
    have "parse_members m (commas (map member fs) @ CHR ''}'' # t) = Some (fs, t)"
    proof (rule Cons.IH [OF _ False _ m(2)])
      show "parse_value n (marshal j @ t) = Some (j, t)"
        if "(k, j) \<in> set fs" "json_ok j" "2 * length (marshal j) \<le> n" "follows t" for k j n t
        using Cons.prems(1) [OF _ that(2,3,4)] that(1) by auto
    qed (use Cons.prems(3) in simp)
    with k j [OF m(1)] False n show ?thesis by (simp add: member_simp quote_json_def kj commas_Cons)
  qed
qed simp

lemma cut_prefix_Nil [simp]: "cut_prefix [] s = Some s"
  by (simp add: cut_prefix_def)

lemma cut_prefix_Cons [simp]: "cut_prefix (c # p) (d # s) = (if c = d then cut_prefix p s else None)"
  by (simp add: cut_prefix_def)

lemma parse_marshal:
  "json_ok j \<Longrightarrow> 2 * length (marshal j) \<le> n \<Longrightarrow> follows t \<Longrightarrow> parse_value n (marshal j @ t) = Some (j, t)"
proof (induction j arbitrary: n t)
  case (JArr js)
  from JArr.prems obtain m where n: "n = Suc (Suc m)" by (cases n; cases "n - 1") auto
  show ?case
  proof (cases "js = []")
    case False
    then obtain j js' where js: "js = j # js'" by (cases js) auto
    with JArr.prems obtain c u where h: "marshal j = c # u" "\<not> json_ws c" "c \<noteq> CHR '']''"
      using marshal_head [of j] by auto
    then have hd: "\<exists>v. commas (map marshal js) = c # v"
      using js by (cases js') auto
    have "parse_elems (Suc m) (commas (map marshal js) @ CHR '']'' # t) = Some (js, t)"
      using parse_elems_marshal [of js "Suc m" t] JArr False n by simp
    with hd h n show ?thesis by auto
  qed (simp add: n)
next
  case (JObj fs)
  from JObj.prems(2) obtain m where n: "n = Suc (Suc m)" by (cases n; cases "n - 1") (auto simp: marshal_obj)
  show ?case
  proof (cases "fs = []")
    case False
    then have hd: "\<exists>v. commas (map member fs) = char_of (34 :: nat) # v"
      by (cases fs; cases "tl fs") (auto simp: member_simp quote_json_def)
    have "parse_members (Suc m) (commas (map member fs) @ CHR ''}'' # t) = Some (fs, t)"
    proof (rule parse_members_marshal [OF _ False])
      show "parse_value n (marshal j @ t) = Some (j, t)"
        if "(k, j) \<in> set fs" "json_ok j" "2 * length (marshal j) \<le> n" "follows t" for k j n t
        using JObj.IH [OF that(1) _ that(2,3,4)] by simp
      show "list_all (\<lambda>(k, j). utf8_valid k \<and> json_ok j) fs" using JObj.prems(1) by simp
      show "2 * length (commas (map member fs)) + 1 \<le> Suc m"
        using JObj.prems(2) n by (simp add: marshal_obj del: marshal.simps)
    qed
    moreover have "char_of (34 :: nat) \<noteq> CHR ''}''" by code_simp
    ultimately show ?thesis unfolding marshal_obj using hd n
      by (auto simp del: parse_members.simps marshal.simps)
  qed (simp add: n)
next
  case (JInt i)
  then show ?case using marshal_nonempty [of "JInt i"] by (simp add: parse_value_int)
next
  case (JStr s)
  then show ?case using marshal_nonempty [of "JStr s"] by (simp add: parse_value_str)
next
  case (JBool b)
  then obtain m where "n = Suc m" by (cases n; cases b) auto
  then show ?case by (cases b) simp_all
next
  case JNull
  then obtain m where "n = Suc m" by (cases n) auto
  then show ?case by simp
qed simp

lemma decode_marshal: "json_ok j \<Longrightarrow> decode_json (marshal j) = Some (j, [])"
  using parse_marshal [of j "2 * length (marshal j) + 1" "[]"] by (simp add: decode_json_def)

lemma unmarshal_marshal: "json_ok j \<Longrightarrow> unmarshal_json (marshal j) = Some j"
  by (simp add: unmarshal_json_def decode_marshal skip_ws_def)

lemma marshal_inj: "json_ok i \<Longrightarrow> json_ok j \<Longrightarrow> marshal i = marshal j \<longleftrightarrow> i = j"
  by (metis decode_marshal option.inject prod.inject)

end
