(* ===== verification/JsonStruct.thy ===== *)
theory JsonStruct
  imports Json "HOL-Library.Multiset"
begin

text \<open>
  Decoding a JSON object into a struct as \<open>encoding/json\<close> does it with \<open>DisallowUnknownFields\<close>:
  member names match field names exactly or up to ASCII case, the last of several members wins,
  \<open>null\<close> and a missing member leave the zero value, and numbers must be 64-bit integers.  The second
  part relates an object to its members in sorted order, which is what canonical JSON stores.
\<close>

section \<open>Members of an object\<close>

definition fold_char :: "char \<Rightarrow> char" where
  "fold_char c = (if 65 \<le> byte c \<and> byte c \<le> 90 then char_of (byte c + 32) else c)"

definition field_name :: "string list \<Rightarrow> string \<Rightarrow> string option" where
  "field_name names k = (if k \<in> set names then Some k
     else find (\<lambda>n. map fold_char n = map fold_char k) names)"

definition fields_of :: "string list \<Rightarrow> json \<Rightarrow> (string \<Rightarrow> json option) option" where
  "fields_of names j = (case j of
     JObj fs \<Rightarrow> map_option (\<lambda>gs. map_of (rev gs))
       (those (map (\<lambda>(k, v). map_option (\<lambda>n. (n, v)) (field_name names k)) fs))
   | JNull \<Rightarrow> Some (\<lambda>_. None)
   | _ \<Rightarrow> None)"

definition as_str :: "json \<Rightarrow> string option" where
  "as_str j = (case j of JStr s \<Rightarrow> Some s | JNull \<Rightarrow> Some [] | _ \<Rightarrow> None)"

definition get_str :: "(string \<Rightarrow> json option) \<Rightarrow> string \<Rightarrow> string option" where
  "get_str f k = (case f k of None \<Rightarrow> Some [] | Some j \<Rightarrow> as_str j)"

definition get_int :: "(string \<Rightarrow> json option) \<Rightarrow> string \<Rightarrow> int option" where
  "get_int f k = (case f k of None \<Rightarrow> Some 0 | Some JNull \<Rightarrow> Some 0
     | Some (JInt i) \<Rightarrow> if - (2 ^ 63) \<le> i \<and> i < 2 ^ 63 then Some i else None
     | _ \<Rightarrow> None)"

definition get_strs :: "(string \<Rightarrow> json option) \<Rightarrow> string \<Rightarrow> string list option" where
  "get_strs f k = (case f k of None \<Rightarrow> Some [] | Some JNull \<Rightarrow> Some []
     | Some (JArr js) \<Rightarrow> those (map as_str js) | _ \<Rightarrow> None)"

definition get_ptr :: "(json \<Rightarrow> 'a option) \<Rightarrow> (string \<Rightarrow> json option) \<Rightarrow> string \<Rightarrow> 'a option option" where
  "get_ptr dec f k = (case f k of None \<Rightarrow> Some None | Some JNull \<Rightarrow> Some None
     | Some j \<Rightarrow> map_option Some (dec j))"

text \<open>A slice of structs; a nil slice is \<open>None\<close>, which only its encoding tells from an empty one.\<close>

definition get_arr :: "(json \<Rightarrow> 'a option) \<Rightarrow> (string \<Rightarrow> json option) \<Rightarrow> string \<Rightarrow> 'a list option option" where
  "get_arr dec f k = (case f k of None \<Rightarrow> Some None | Some JNull \<Rightarrow> Some None
     | Some (JArr js) \<Rightarrow> map_option Some (those (map dec js)) | _ \<Rightarrow> None)"

definition json_of_slice :: "('a \<Rightarrow> json) \<Rightarrow> 'a list option \<Rightarrow> json" where
  "json_of_slice enc x = (case x of None \<Rightarrow> JNull | Some xs \<Rightarrow> JArr (map enc xs))"

text \<open>\<open>json.Decoder.Decode\<close> of the first value of a text, and \<open>Decoder.More\<close> after it.\<close>

definition dec_More :: "bytes \<Rightarrow> bool" where
  "dec_More rest = (case skip_ws rest of [] \<Rightarrow> False | c # _ \<Rightarrow> c \<noteq> CHR '']'' \<and> c \<noteq> CHR ''}'')"

definition decode_into :: "(json \<Rightarrow> 'a option) \<Rightarrow> bytes \<Rightarrow> 'a option" where
  "decode_into dec b = (case decode_json b of None \<Rightarrow> None | Some (j, _) \<Rightarrow> dec j)"

section \<open>Sorted members\<close>

fun sort_json :: "json \<Rightarrow> json" where
  "sort_json (JArr js) = JArr (map sort_json js)"
| "sort_json (JObj fs) = JObj (sort_key fst (map (\<lambda>(k, j). (k, sort_json j)) fs))"
| "sort_json j = j"

text \<open>Values that canonical JSON keeps: distinct ASCII member names and integers of 53 bits.\<close>

fun json_safe :: "json \<Rightarrow> bool" where
  "json_safe (JInt i) \<longleftrightarrow> \<bar>i\<bar> < 2 ^ 53"
| "json_safe (JArr js) \<longleftrightarrow> list_all json_safe js"
| "json_safe (JObj fs) \<longleftrightarrow> distinct (map fst fs) \<and> list_all (\<lambda>(k, j). ascii k \<and> json_safe j) fs"
| "json_safe (JNum s) \<longleftrightarrow> False"
| "json_safe j \<longleftrightarrow> True"

lemma those_map_Some: "those (map (\<lambda>x. Some (f x)) xs) = Some (map f xs)"
  by (induction xs) simp_all

lemma those_map_eq_Some: "(\<And>x. x \<in> set xs \<Longrightarrow> g x = Some (f x)) \<Longrightarrow> those (map g xs) = Some (map f xs)"
  by (induction xs) simp_all

lemma map_of_perm:
  assumes "distinct (map fst xs)" "mset xs = mset ys"
  shows "map_of ys = map_of xs"
proof -
  have "mset (map fst xs) = mset (map fst ys)" using assms(2) by simp
  then have "distinct (map fst ys)" using assms(1) mset_eq_imp_distinct_iff by blast
  moreover have "set xs = set ys" using assms(2) by (metis set_mset_mset)
  ultimately show ?thesis using assms(1) by (simp add: map_of_inject_set)
qed

lemma fields_of_sorted:
  assumes "distinct (map fst fs)" "set (map fst fs) \<subseteq> set names"
  shows "fields_of names (sort_json (JObj fs)) = Some (\<lambda>k. map_option sort_json (map_of fs k))"
proof -
  let ?gs = "sort_key fst (map (\<lambda>(k, j). (k, sort_json j)) fs)"
  have "those (map (\<lambda>(k, v). map_option (\<lambda>n. (n, v)) (field_name names k)) ?gs) = Some (map (\<lambda>x. x) ?gs)"
    by (rule those_map_eq_Some) (use assms(2) in \<open>auto simp: field_name_def subset_iff\<close>)
  then have "fields_of names (sort_json (JObj fs)) = Some (map_of (rev ?gs))"
    by (simp add: fields_of_def)
  also have "map_of (rev ?gs) = map_of (map (\<lambda>(k, j). (k, sort_json j)) fs)"
    by (rule map_of_perm) (use assms(1) in \<open>simp_all add: case_prod_unfold comp_def\<close>)
  also have "\<dots> = (\<lambda>k. map_option sort_json (map_of fs k))"
    by (simp add: map_of_map fun_eq_iff comp_def)
  finally show ?thesis .
qed

text \<open>The members that the encoders write, looked up in sorted form.\<close>

lemma map_of_omit_str:
  "map_of (omit_str k s) = (\<lambda>k'. if k' = k \<and> s \<noteq> [] then Some (JStr s) else None)"
  by (auto simp: omit_str_def)

lemma map_of_omit_strs:
  "map_of (omit_strs k xs) = (\<lambda>k'. if k' = k \<and> xs \<noteq> [] then Some (JArr (map JStr xs)) else None)"
  by (auto simp: omit_strs_def)

lemma map_of_omit_ptr:
  "map_of (omit_ptr k f x) = (\<lambda>k'. if k' = k then map_option f x else None)"
  by (auto simp: omit_ptr_def split: option.splits)

lemma keys_omit:
  "map fst (omit_str k s) = (if s = [] then [] else [k])"
  "map fst (omit_strs k xs) = (if xs = [] then [] else [k])"
  "map fst (omit_ptr k f x) = (if x = None then [] else [k])"
  by (auto simp: omit_str_def omit_strs_def omit_ptr_def split: option.splits)

lemma those_as_str [simp]: "those (map (\<lambda>x. as_str (JStr x)) xs) = Some xs"
  by (induction xs) (simp_all add: as_str_def)

lemma those_Some [simp]: "those (map Some xs) = Some xs"
  by (induction xs) simp_all

lemma get_ptr_sorted [simp]:
  "get_ptr dec (\<lambda>k. map_option sort_json (m k)) k = (case m k of None \<Rightarrow> Some None
     | Some JNull \<Rightarrow> Some None | Some j \<Rightarrow> map_option Some (dec (sort_json j)))"
  by (auto simp: get_ptr_def split: option.splits json.splits)

lemma get_arr_sorted:
  assumes "m k = Some (json_of_slice enc x)" "\<And>a. dec (sort_json (enc a)) = Some a"
  shows "get_arr dec (\<lambda>k. map_option sort_json (m k)) k = Some x"
  using assms by (cases x) (simp_all add: get_arr_def json_of_slice_def comp_def)

lemmas struct_simps = map_of_omit_str map_of_omit_strs map_of_omit_ptr map_add_def
  get_str_def get_int_def get_strs_def comp_def

lemma as_str_simp [simp]: "as_str (JStr s) = Some s"
  by (simp add: as_str_def)

section \<open>Canonical texts\<close>

lemma utf8_valid_append: "utf8_valid a \<Longrightarrow> utf8_valid (a @ b) = utf8_valid b"
proof (induction a rule: utf8_valid.induct)
  case (1 a)
  show ?case
  proof (cases "a = []")
    case False
    with 1(2) obtain r n where d: "decode_rune a = Some (r, n)" and v: "utf8_valid (drop n a)"
      by (subst (asm) utf8_valid.simps) (auto split: option.splits)
    have "utf8_valid (a @ b) = utf8_valid (drop n (a @ b))"
      using False decode_rune_append [OF d, of b] by (subst utf8_valid.simps) simp
    also have "drop n (a @ b) = drop n a @ b" using decode_rune_width [OF d] by simp
    finally show ?thesis using 1(1) [OF d refl v] by simp
  qed simp
qed

lemma utf8_valid_Nil [simp]: "utf8_valid []"
  by (simp add: utf8_valid_ascii ascii_def)

lemma utf8_valid_Cons [simp]: "byte c < 128 \<Longrightarrow> utf8_valid (c # s) = utf8_valid s"
  using utf8_valid_append [of "[c]" s] by (simp add: utf8_valid_ascii ascii_def)

lemma hex_digit_ascii [simp]: "byte (hex_digit (n mod 16)) < 128"
proof -
  have "n mod 16 < 16" by simp
  then show ?thesis by (cases "n mod 16 < 10") (simp_all add: hex_digit_byte)
qed

lemma utf8_valid_hex4 [simp]: "utf8_valid (hex4 r)"
  by (simp add: hex4_def)

lemma decode_rune_valid: "decode_rune s = Some (r, n) \<Longrightarrow> utf8_valid (take n s)"
proof -
  assume d: "decode_rune s = Some (r, n)"
  then have "decode_rune (take n s) = Some (r, n)" using decode_rune_take [of s r n "[]"] by simp
  then show ?thesis using d decode_rune_width [OF d] by (subst utf8_valid.simps) simp
qed

lemma utf8_valid_escape: "utf8_valid (escape_string s)"
proof (induction s rule: escape_string.induct)
  case (1 s)
  show ?case
  proof (cases "decode_rune s")
    case None
    with 1(1) show ?thesis by (subst escape_string.simps) (auto simp: utf8_valid_append)
  next
    case (Some p)
    obtain r n where p: "p = (r, n)" by (cases p)
    have "utf8_valid (escape_rune r (take n s))"
      using decode_rune_valid Some p by (auto simp: escape_rune_def)
    with 1(2) Some p show ?thesis by (subst escape_string.simps) (auto simp: utf8_valid_append)
  qed
qed

lemma utf8_valid_quote [simp]: "utf8_valid (quote_json s)"
  by (simp add: quote_json_def utf8_valid_append utf8_valid_escape)

lemma utf8_valid_commas: "list_all utf8_valid xs \<Longrightarrow> utf8_valid (commas xs)"
  by (induction xs rule: commas.induct) (auto simp: utf8_valid_append)

lemma utf8_valid_show_int [simp]: "utf8_valid (show_int i)"
proof -
  have "list_all (\<lambda>c. byte c < 128) (dec_digits n)" for n
    using dec_digits_props [of n] by (auto simp: list_all_iff is_digit_def less_eq_char_def)
  then show ?thesis by (intro utf8_valid_ascii) (simp add: ascii_def show_int_def)
qed

lemma utf8_valid_marshal: "json_ok j \<Longrightarrow> utf8_valid (marshal j)"
proof (induction j)
  case (JArr js)
  then have "list_all utf8_valid (map marshal js)" by (auto simp: list_all_iff)
  then show ?case by (simp add: utf8_valid_append utf8_valid_commas)
next
  case (JObj fs)
  then have "list_all utf8_valid (map member fs)"
    by (fastforce simp: list_all_iff member_def utf8_valid_append)
  then show ?case by (simp only: marshal_obj) (simp add: utf8_valid_append utf8_valid_commas)
qed simp_all

lemma json_ok_sort: "json_ok j \<Longrightarrow> json_ok (sort_json j)"
  by (induction j) (fastforce simp: list_all_iff)+

lemma sort_key_idem: "sort_key f (sort_key f xs) = sort_key f xs"
  by (simp add: sort_key_id_if_sorted)

lemma map_insort_key: "(\<And>x. f (g x) = f x) \<Longrightarrow> map g (insort_key f x xs) = insort_key f (g x) (map g xs)"
  by (induction xs) simp_all

lemma map_sort_key: "(\<And>x. f (g x) = f x) \<Longrightarrow> map g (sort_key f xs) = sort_key f (map g xs)"
  by (induction xs) (simp_all add: map_insort_key)

lemma sort_json_idem: "sort_json (sort_json j) = sort_json j"
proof (induction j)
  case (JObj fs)
  let ?g = "\<lambda>(k, j). (k, sort_json j)"
  have "map ?g (map ?g fs) = map ?g fs" using JObj by (auto simp: case_prod_unfold snds.simps)
  then show ?case by (simp add: map_sort_key case_prod_unfold sort_key_idem del: map_map)
qed simp_all

text \<open>
  What the sources rely on the JCS package for (RFC 8785): it accepts what \<open>json.Marshal\<close> writes, and
  its output is UTF-8, is its own canonical form, and is the same value with sorted members.
\<close>

definition jcs_ok :: "(bytes \<Rightarrow> bytes option) \<Rightarrow> bool" where
  "jcs_ok f \<longleftrightarrow> (\<forall>j. json_ok j \<and> json_safe j \<longrightarrow>
     (\<exists>c. f (marshal j) = Some c \<and> utf8_valid c \<and> f c = Some c \<and> decode_json c = Some (sort_json j, [])))"

text \<open>A function that has these properties: sort the members and print without escapes changed.\<close>

definition jcs_model :: "bytes \<Rightarrow> bytes option" where
  "jcs_model b = (case decode_json b of Some (j, r) \<Rightarrow> if r = [] then Some (marshal (sort_json j)) else None
     | None \<Rightarrow> None)"

lemma jcs_ok_model: "jcs_ok jcs_model"
  by (auto simp: jcs_ok_def jcs_model_def decode_marshal json_ok_sort sort_json_idem utf8_valid_marshal)

end
