(* ===== verification/Canonical.thy ===== *)
theory Canonical
  imports JsonStruct
begin

text \<open>
  Canonical JSON (\<open>internal/canonical/canonical.go\<close>).  The RFC 8785 transformation is a third-party
  package and is the argument \<open>jcs\<close>.  A Go value is passed with its encoding \<open>enc\<close> and decoding
  \<open>dec\<close>, which each component defines for its structs.  What \<open>DecodeStrict\<close> accepts always
  re-encodes to the same bytes, whatever \<open>jcs\<close> does (\<open>decode_strict_reencodes\<close>).
\<close>

section \<open>Transform, Encode, Check and DecodeStrict\<close>

datatype canonical_error = InvalidUTF8 | JcsFailed | ErrNotCanonical | DecodeFailed | NoRoundTrip

type_synonym jcs_fun = "bytes \<Rightarrow> bytes option"

definition MaxSafeInteger :: int where
  "MaxSafeInteger = 2 ^ 53 - 1"

definition canonical_Transform :: "jcs_fun \<Rightarrow> bytes \<Rightarrow> canonical_error + bytes" where
  "canonical_Transform jcs b =
     (if \<not> utf8_valid b then Inl InvalidUTF8 else of_option JcsFailed (jcs b))"

definition canonical_Encode :: "jcs_fun \<Rightarrow> json \<Rightarrow> canonical_error + bytes" where
  "canonical_Encode jcs j = canonical_Transform jcs (marshal j)"

definition canonical_Check :: "jcs_fun \<Rightarrow> bytes \<Rightarrow> canonical_error + unit" where
  "canonical_Check jcs b = ebind (canonical_Transform jcs b) (\<lambda>out. require (out = b) ErrNotCanonical)"

definition DecodeStrict ::
  "jcs_fun \<Rightarrow> (json \<Rightarrow> 'a option) \<Rightarrow> ('a \<Rightarrow> json) \<Rightarrow> bytes \<Rightarrow> canonical_error + 'a" where
  "DecodeStrict jcs dec enc b =
     ebind (canonical_Check jcs b) (\<lambda>_.
     ebind (of_option DecodeFailed (decode_into dec b)) (\<lambda>v.
     ebind (canonical_Encode jcs (enc v)) (\<lambda>again.
     if again \<noteq> b then Inl NoRoundTrip else Inr v)))"

lemma canonical_Check_Inr [simp]:
  "canonical_Check jcs b = Inr u \<longleftrightarrow> utf8_valid b \<and> jcs b = Some b"
  by (auto simp: canonical_Check_def canonical_Transform_def)

lemma canonical_Encode_Inr:
  "canonical_Encode jcs j = Inr b \<longleftrightarrow> utf8_valid (marshal j) \<and> jcs (marshal j) = Some b"
  by (auto simp: canonical_Encode_def canonical_Transform_def)

lemma DecodeStrict_Inr:
  "DecodeStrict jcs dec enc b = Inr v \<longleftrightarrow>
     utf8_valid b \<and> jcs b = Some b \<and> decode_into dec b = Some v \<and> canonical_Encode jcs (enc v) = Inr b"
  by (auto simp: DecodeStrict_def split: if_splits)

lemma decode_strict_reencodes: "DecodeStrict jcs dec enc b = Inr v \<Longrightarrow> canonical_Encode jcs (enc v) = Inr b"
  by (simp add: DecodeStrict_Inr)

text \<open>Two texts that decode to the same value are the same text.\<close>

lemma DecodeStrict_inj:
  "DecodeStrict jcs dec enc a = Inr v \<Longrightarrow> DecodeStrict jcs dec enc b = Inr v \<Longrightarrow> a = b"
  by (simp add: DecodeStrict_Inr)

text \<open>
  With the documented behaviour of JCS, a value whose integers and member names canonical JSON keeps
  has an encoding; it passes \<open>Check\<close>, and decoding it gives the value back wherever the struct decoder
  inverts the encoder on sorted members.
\<close>

lemma canonical_Encode_ok:
  assumes "jcs_ok jcs" "json_ok j" "json_safe j"
  shows "\<exists>b. canonical_Encode jcs j = Inr b \<and> canonical_Check jcs b = Inr () \<and> decode_json b = Some (sort_json j, [])"
  using assms by (auto simp: jcs_ok_def canonical_Encode_Inr utf8_valid_marshal)

lemma canonical_Check_Encode:
  assumes "jcs_ok jcs" "json_ok j" "json_safe j" "canonical_Encode jcs j = Inr b"
  shows "canonical_Check jcs b = Inr ()"
  using canonical_Encode_ok [OF assms(1-3)] assms(4) by auto

lemma DecodeStrict_Encode:
  assumes "jcs_ok jcs" "json_ok (enc v)" "json_safe (enc v)" "canonical_Encode jcs (enc v) = Inr b"
    and "dec (sort_json (enc v)) = Some v"
  shows "DecodeStrict jcs dec enc b = Inr v"
  using canonical_Encode_ok [OF assms(1-3)] assms(4,5)
  by (auto simp: DecodeStrict_Inr decode_into_def)

text \<open>Two values with the same encoding decode to the same value, so they are equal.\<close>

lemma canonical_Encode_inj:
  assumes "jcs_ok jcs" "json_ok (enc v)" "json_safe (enc v)" "json_ok (enc w)" "json_safe (enc w)"
    and "canonical_Encode jcs (enc v) = Inr b" "canonical_Encode jcs (enc w) = Inr b"
    and "dec (sort_json (enc v)) = Some v" "dec (sort_json (enc w)) = Some w"
  shows "v = w"
  using DecodeStrict_Encode [of jcs enc v b dec] DecodeStrict_Encode [of jcs enc w b dec] assms by simp

end
