(* ===== verification/Receipt.thy ===== *)
theory Receipt
  imports Digest Canonical
begin

text \<open>
  The receipt payload and its validation (\<open>internal/receipt/receipt.go\<close>).  A pointer section is an
  option.  The string types \<open>Type\<close>, \<open>DecisionResult\<close>, \<open>ResultStatus\<close> and \<open>ApprovalOutcome\<close> stay
  strings, so that the unknown values that \<open>Validate\<close> rejects exist in the model.  An error carries
  the field it is about instead of its message.
\<close>

section \<open>The payload\<close>

definition receipt_Version :: int where
  "receipt_Version = 1"

definition receipt_Domain :: string where
  "receipt_Domain = ''agent-warden/receipt/v1''"

definition MaxSeq :: int where
  "MaxSeq = MaxSafeInteger"

definition maxIDLen :: nat where
  "maxIDLen = 256"

definition TypeDecision :: string where "TypeDecision = ''decision''"

definition TypeApproval :: string where "TypeApproval = ''approval''"

definition TypeResult :: string where "TypeResult = ''result''"

definition TypeKeyRotation :: string where "TypeKeyRotation = ''key_rotation''"

definition TypeCheckpoint :: string where "TypeCheckpoint = ''checkpoint''"

definition Allow :: string where "Allow = ''allow''"

definition Deny :: string where "Deny = ''deny''"

definition RequireApproval :: string where "RequireApproval = ''require_approval''"

definition StatusOK :: string where "StatusOK = ''ok''"

definition StatusError :: string where "StatusError = ''error''"

definition Approved :: string where "Approved = ''approved''"

definition Rejected :: string where "Rejected = ''rejected''"

lemmas receipt_consts =
  TypeDecision_def TypeApproval_def TypeResult_def TypeKeyRotation_def TypeCheckpoint_def
  Allow_def Deny_def RequireApproval_def StatusOK_def StatusError_def Approved_def Rejected_def

record actor =
  agent :: string
  principal :: string

record call =
  tool :: string
  manifest :: string
  args_commitment :: string

record decision =
  d_result :: string
  d_policy_revision :: string
  d_rule :: string
  d_taint :: "string list"

record result =
  res_decision_seq :: int
  res_status :: string
  res_commitment :: string
  res_taint :: "string list"

record approval =
  a_decision_seq :: int
  a_outcome :: string
  a_approver :: string
  a_statement :: string
  a_expires_ts :: string

record rotation =
  rot_from :: string
  rot_to :: string
  rot_key :: string
  rot_certificate :: string
  rot_reason :: string

record receipt =
  r_v :: int
  r_domain :: string
  r_chain_id :: string
  r_seq :: int
  r_prev :: string
  r_ts :: string
  r_type :: string
  r_task_id :: string
  r_actor :: "actor option"
  r_call :: "call option"
  r_decision :: "decision option"
  r_result :: "result option"
  r_approval :: "approval option"
  r_rotation :: "rotation option"

section \<open>JSON encoding, in the order of the struct fields\<close>

definition json_of_actor :: "actor \<Rightarrow> json" where
  "json_of_actor a = JObj [(''agent'', JStr (agent a)), (''principal'', JStr (principal a))]"

definition json_of_call :: "call \<Rightarrow> json" where
  "json_of_call c = JObj [(''tool'', JStr (tool c)), (''manifest'', JStr (manifest c)),
     (''args_commitment'', JStr (args_commitment c))]"

definition json_of_decision :: "decision \<Rightarrow> json" where
  "json_of_decision d = JObj ([(''result'', JStr (d_result d)), (''policy_revision'', JStr (d_policy_revision d))]
     @ omit_str ''rule'' (d_rule d) @ omit_strs ''taint'' (d_taint d))"

definition json_of_result :: "result \<Rightarrow> json" where
  "json_of_result r = JObj ([(''decision_seq'', JInt (res_decision_seq r)), (''status'', JStr (res_status r))]
     @ omit_str ''result_commitment'' (res_commitment r) @ omit_strs ''taint'' (res_taint r))"

definition json_of_approval :: "approval \<Rightarrow> json" where
  "json_of_approval a = JObj [(''decision_seq'', JInt (a_decision_seq a)), (''outcome'', JStr (a_outcome a)),
     (''approver'', JStr (a_approver a)), (''statement'', JStr (a_statement a)),
     (''expires_ts'', JStr (a_expires_ts a))]"

definition json_of_rotation :: "rotation \<Rightarrow> json" where
  "json_of_rotation r = JObj ([(''from'', JStr (rot_from r)), (''to'', JStr (rot_to r)),
     (''key'', JStr (rot_key r)), (''certificate'', JStr (rot_certificate r))] @ omit_str ''reason'' (rot_reason r))"

definition receipt_members :: "receipt \<Rightarrow> (string \<times> json) list" where
  "receipt_members r = [(''v'', JInt (r_v r)), (''domain'', JStr (r_domain r)),
     (''chain_id'', JStr (r_chain_id r)), (''seq'', JInt (r_seq r)), (''prev'', JStr (r_prev r)),
     (''ts'', JStr (r_ts r)), (''type'', JStr (r_type r))]
     @ omit_str ''task_id'' (r_task_id r) @ omit_ptr ''actor'' json_of_actor (r_actor r)
     @ omit_ptr ''call'' json_of_call (r_call r) @ omit_ptr ''decision'' json_of_decision (r_decision r)
     @ omit_ptr ''result'' json_of_result (r_result r) @ omit_ptr ''approval'' json_of_approval (r_approval r)
     @ omit_ptr ''rotation'' json_of_rotation (r_rotation r)"

definition json_of_receipt :: "receipt \<Rightarrow> json" where
  "json_of_receipt r = JObj (receipt_members r)"

section \<open>Decoding\<close>

definition dec_actor :: "json \<Rightarrow> actor option" where
  "dec_actor j = do {
     f \<leftarrow> fields_of [''agent'', ''principal''] j;
     a \<leftarrow> get_str f ''agent''; p \<leftarrow> get_str f ''principal'';
     Some \<lparr>agent = a, principal = p\<rparr> }"

definition dec_call :: "json \<Rightarrow> call option" where
  "dec_call j = do {
     f \<leftarrow> fields_of [''tool'', ''manifest'', ''args_commitment''] j;
     t \<leftarrow> get_str f ''tool''; m \<leftarrow> get_str f ''manifest''; a \<leftarrow> get_str f ''args_commitment'';
     Some \<lparr>tool = t, manifest = m, args_commitment = a\<rparr> }"

definition dec_decision :: "json \<Rightarrow> decision option" where
  "dec_decision j = do {
     f \<leftarrow> fields_of [''result'', ''policy_revision'', ''rule'', ''taint''] j;
     r \<leftarrow> get_str f ''result''; p \<leftarrow> get_str f ''policy_revision''; u \<leftarrow> get_str f ''rule'';
     t \<leftarrow> get_strs f ''taint'';
     Some \<lparr>d_result = r, d_policy_revision = p, d_rule = u, d_taint = t\<rparr> }"

definition dec_result :: "json \<Rightarrow> result option" where
  "dec_result j = do {
     f \<leftarrow> fields_of [''decision_seq'', ''status'', ''result_commitment'', ''taint''] j;
     d \<leftarrow> get_int f ''decision_seq''; s \<leftarrow> get_str f ''status''; c \<leftarrow> get_str f ''result_commitment'';
     t \<leftarrow> get_strs f ''taint'';
     Some \<lparr>res_decision_seq = d, res_status = s, res_commitment = c, res_taint = t\<rparr> }"

definition dec_approval :: "json \<Rightarrow> approval option" where
  "dec_approval j = do {
     f \<leftarrow> fields_of [''decision_seq'', ''outcome'', ''approver'', ''statement'', ''expires_ts''] j;
     d \<leftarrow> get_int f ''decision_seq''; x \<leftarrow> get_str f ''outcome''; a \<leftarrow> get_str f ''approver'';
     s \<leftarrow> get_str f ''statement''; e \<leftarrow> get_str f ''expires_ts'';
     Some \<lparr>a_decision_seq = d, a_outcome = x, a_approver = a, a_statement = s, a_expires_ts = e\<rparr> }"

definition dec_rotation :: "json \<Rightarrow> rotation option" where
  "dec_rotation j = do {
     f \<leftarrow> fields_of [''from'', ''to'', ''key'', ''certificate'', ''reason''] j;
     a \<leftarrow> get_str f ''from''; b \<leftarrow> get_str f ''to''; k \<leftarrow> get_str f ''key'';
     c \<leftarrow> get_str f ''certificate''; r \<leftarrow> get_str f ''reason'';
     Some \<lparr>rot_from = a, rot_to = b, rot_key = k, rot_certificate = c, rot_reason = r\<rparr> }"

definition receipt_fields :: "string list" where
  "receipt_fields = [''v'', ''domain'', ''chain_id'', ''seq'', ''prev'', ''ts'', ''type'', ''task_id'',
     ''actor'', ''call'', ''decision'', ''result'', ''approval'', ''rotation'']"

definition dec_receipt :: "json \<Rightarrow> receipt option" where
  "dec_receipt j = do {
     f \<leftarrow> fields_of receipt_fields j;
     v \<leftarrow> get_int f ''v''; d \<leftarrow> get_str f ''domain''; c \<leftarrow> get_str f ''chain_id''; s \<leftarrow> get_int f ''seq'';
     p \<leftarrow> get_str f ''prev''; t \<leftarrow> get_str f ''ts''; y \<leftarrow> get_str f ''type''; k \<leftarrow> get_str f ''task_id'';
     a \<leftarrow> get_ptr dec_actor f ''actor''; l \<leftarrow> get_ptr dec_call f ''call'';
     e \<leftarrow> get_ptr dec_decision f ''decision''; r \<leftarrow> get_ptr dec_result f ''result'';
     x \<leftarrow> get_ptr dec_approval f ''approval''; o' \<leftarrow> get_ptr dec_rotation f ''rotation'';
     Some \<lparr>r_v = v, r_domain = d, r_chain_id = c, r_seq = s, r_prev = p, r_ts = t, r_type = y, r_task_id = k,
       r_actor = a, r_call = l, r_decision = e, r_result = r, r_approval = x, r_rotation = o'\<rparr> }"

lemma dec_actor_sorted [simp]: "dec_actor (sort_json (json_of_actor a)) = Some a"
  unfolding json_of_actor_def dec_actor_def by (subst fields_of_sorted) (simp_all add: struct_simps)

lemma dec_call_sorted [simp]: "dec_call (sort_json (json_of_call c)) = Some c"
  unfolding json_of_call_def dec_call_def by (subst fields_of_sorted) (simp_all add: struct_simps)

lemma dec_decision_sorted [simp]: "dec_decision (sort_json (json_of_decision d)) = Some d"
  unfolding json_of_decision_def dec_decision_def
  by (subst fields_of_sorted) (auto simp: keys_omit struct_simps)

lemma dec_result_sorted [simp]:
  "json_safe (json_of_result r) \<Longrightarrow> dec_result (sort_json (json_of_result r)) = Some r"
  unfolding json_of_result_def dec_result_def
  by (subst fields_of_sorted) (auto simp: keys_omit struct_simps)

lemma dec_approval_sorted [simp]:
  "json_safe (json_of_approval a) \<Longrightarrow> dec_approval (sort_json (json_of_approval a)) = Some a"
  unfolding json_of_approval_def dec_approval_def
  by (subst fields_of_sorted) (auto simp: keys_omit struct_simps)

lemma dec_rotation_sorted [simp]: "dec_rotation (sort_json (json_of_rotation r)) = Some r"
  unfolding json_of_rotation_def dec_rotation_def
  by (subst fields_of_sorted) (auto simp: keys_omit struct_simps)

lemma json_of_not_null [simp]:
  "json_of_actor a \<noteq> JNull" "json_of_call c \<noteq> JNull" "json_of_decision d \<noteq> JNull"
  "json_of_result r \<noteq> JNull" "json_of_approval p \<noteq> JNull" "json_of_rotation x \<noteq> JNull"
  by (simp_all add: json_of_actor_def json_of_call_def json_of_decision_def json_of_result_def
      json_of_approval_def json_of_rotation_def)

lemma get_ptr_map:
  "map_of fs k = map_option enc x \<Longrightarrow> (\<And>a. enc a \<noteq> JNull) \<Longrightarrow> (\<And>a. x = Some a \<Longrightarrow> dec (sort_json (enc a)) = Some a) \<Longrightarrow>
     get_ptr dec (\<lambda>k. map_option sort_json (map_of fs k)) k = Some x"
  by (cases x) (auto split: json.splits)

lemma get_str_map:
  "map_of fs k = (if s \<noteq> [] then Some (JStr s) else None) \<or> map_of fs k = Some (JStr s) \<Longrightarrow>
     get_str (\<lambda>k. map_option sort_json (map_of fs k)) k = Some s"
  by (auto simp: get_str_def)

lemma get_int_map:
  "map_of fs k = Some (JInt i) \<Longrightarrow> \<bar>i\<bar> < 2 ^ 53 \<Longrightarrow> get_int (\<lambda>k. map_option sort_json (map_of fs k)) k = Some i"
  by (auto simp: get_int_def)

lemma receipt_members_keys:
  "distinct (map fst (receipt_members r))" "set (map fst (receipt_members r)) \<subseteq> set receipt_fields"
  unfolding receipt_members_def receipt_fields_def by (simp_all add: keys_omit)

lemma receipt_members_lookup:
  "map_of (receipt_members r) ''v'' = Some (JInt (r_v r))"
  "map_of (receipt_members r) ''domain'' = Some (JStr (r_domain r))"
  "map_of (receipt_members r) ''chain_id'' = Some (JStr (r_chain_id r))"
  "map_of (receipt_members r) ''seq'' = Some (JInt (r_seq r))"
  "map_of (receipt_members r) ''prev'' = Some (JStr (r_prev r))"
  "map_of (receipt_members r) ''ts'' = Some (JStr (r_ts r))"
  "map_of (receipt_members r) ''type'' = Some (JStr (r_type r))"
  "map_of (receipt_members r) ''task_id'' = (if r_task_id r \<noteq> [] then Some (JStr (r_task_id r)) else None)"
  "map_of (receipt_members r) ''actor'' = map_option json_of_actor (r_actor r)"
  "map_of (receipt_members r) ''call'' = map_option json_of_call (r_call r)"
  "map_of (receipt_members r) ''decision'' = map_option json_of_decision (r_decision r)"
  "map_of (receipt_members r) ''result'' = map_option json_of_result (r_result r)"
  "map_of (receipt_members r) ''approval'' = map_option json_of_approval (r_approval r)"
  "map_of (receipt_members r) ''rotation'' = map_option json_of_rotation (r_rotation r)"
  unfolding receipt_members_def
  by (simp_all add: map_of_omit_str map_of_omit_ptr map_add_def split: option.split)

lemma dec_receipt_sorted:
  assumes "json_safe (json_of_receipt r)"
  shows "dec_receipt (sort_json (json_of_receipt r)) = Some r"
proof -
  have safe: "\<bar>r_v r\<bar> < 2 ^ 53" "\<bar>r_seq r\<bar> < 2 ^ 53"
    "r_result r = Some x \<Longrightarrow> json_safe (json_of_result x)" "r_approval r = Some a \<Longrightarrow> json_safe (json_of_approval a)"
    for x a using assms by (auto simp: json_of_receipt_def receipt_members_def omit_ptr_def)
  note m = receipt_members_lookup [of r]
  let ?f = "\<lambda>k. map_option sort_json (map_of (receipt_members r) k)"
  have "fields_of receipt_fields (sort_json (JObj (receipt_members r))) = Some ?f"
    by (intro fields_of_sorted receipt_members_keys)
  moreover have "get_int ?f ''v'' = Some (r_v r)" "get_int ?f ''seq'' = Some (r_seq r)"
    using safe by (intro get_int_map m; simp)+
  moreover have "get_str ?f ''domain'' = Some (r_domain r)" "get_str ?f ''chain_id'' = Some (r_chain_id r)"
    "get_str ?f ''prev'' = Some (r_prev r)" "get_str ?f ''ts'' = Some (r_ts r)"
    "get_str ?f ''type'' = Some (r_type r)" "get_str ?f ''task_id'' = Some (r_task_id r)"
    by (rule get_str_map, simp only: m simp_thms)+
  moreover have "get_ptr dec_actor ?f ''actor'' = Some (r_actor r)" "get_ptr dec_call ?f ''call'' = Some (r_call r)"
    "get_ptr dec_decision ?f ''decision'' = Some (r_decision r)" "get_ptr dec_result ?f ''result'' = Some (r_result r)"
    "get_ptr dec_approval ?f ''approval'' = Some (r_approval r)"
    "get_ptr dec_rotation ?f ''rotation'' = Some (r_rotation r)"
    by (rule get_ptr_map [OF m(9)] get_ptr_map [OF m(10)] get_ptr_map [OF m(11)] get_ptr_map [OF m(12)]
        get_ptr_map [OF m(13)] get_ptr_map [OF m(14)]; use safe(3,4) in simp)+
  ultimately show ?thesis by (simp add: dec_receipt_def json_of_receipt_def del: get_ptr_sorted sort_json.simps)
qed

section \<open>Validation\<close>

datatype receipt_error =
  ErrInvalid string
| ErrUnsupportedType

text \<open>
  \<open>validID\<close> accepts a non-empty, bounded string without control characters; the loop is over runes.
\<close>

definition validID :: "string \<Rightarrow> string \<Rightarrow> receipt_error + unit" where
  "validID field s =
     (if s = [] \<or> length s > maxIDLen then Inl (ErrInvalid field)
      else if list_ex control (runes s) then Inl (ErrInvalid field)
      else Inr ())"

fun validTaint :: "string \<Rightarrow> string list \<Rightarrow> receipt_error + unit" where
  "validTaint field [] = Inr ()"
| "validTaint field (s # taint) = ebind (validID field s) (\<lambda>_. validTaint field taint)"

definition validateCallContext :: "receipt \<Rightarrow> receipt_error + unit" where
  "validateCallContext r =
     ebind (validID ''task_id'' (r_task_id r)) (\<lambda>_.
     case r_actor r of None \<Rightarrow> Inl (ErrInvalid ''actor'') | Some a \<Rightarrow>
     ebind (validID ''actor.agent'' (agent a)) (\<lambda>_.
     ebind (validID ''actor.principal'' (principal a)) (\<lambda>_.
     case r_call r of None \<Rightarrow> Inl (ErrInvalid ''call'') | Some c \<Rightarrow>
     ebind (validID ''call.tool'' (tool c)) (\<lambda>_.
     if \<not> digest_Valid (manifest c) then Inl (ErrInvalid ''call.manifest'')
     else if \<not> digest_Valid (args_commitment c) then Inl (ErrInvalid ''call.args_commitment'')
     else Inr ()))))"

definition decision_validate :: "decision option \<Rightarrow> receipt_error + unit" where
  "decision_validate md = (case md of None \<Rightarrow> Inl (ErrInvalid ''decision'') | Some d \<Rightarrow>
     if d_result d \<notin> {Allow, Deny, RequireApproval} then Inl (ErrInvalid ''decision.result'')
     else if \<not> digest_Valid (d_policy_revision d) then Inl (ErrInvalid ''decision.policy_revision'')
     else validTaint ''decision.taint'' (d_taint d))"

definition result_validate :: "result option \<Rightarrow> int \<Rightarrow> receipt_error + unit" where
  "result_validate mr seq = (case mr of None \<Rightarrow> Inl (ErrInvalid ''result'') | Some r \<Rightarrow>
     if res_decision_seq r < 0 \<or> res_decision_seq r \<ge> seq then Inl (ErrInvalid ''result.decision_seq'')
     else if res_status r = StatusOK \<and> \<not> digest_Valid (res_commitment r)
       then Inl (ErrInvalid ''result.result_commitment'')
     else if res_status r = StatusError \<and> res_commitment r \<noteq> [] \<and> \<not> digest_Valid (res_commitment r)
       then Inl (ErrInvalid ''result.result_commitment'')
     else if res_status r \<notin> {StatusOK, StatusError} then Inl (ErrInvalid ''result.status'')
     else validTaint ''result.taint'' (res_taint r))"

definition approval_validate :: "approval option \<Rightarrow> int \<Rightarrow> string \<Rightarrow> receipt_error + unit" where
  "approval_validate ma seq ts = (case ma of None \<Rightarrow> Inl (ErrInvalid ''approval'') | Some a \<Rightarrow>
     if a_decision_seq a < 0 \<or> a_decision_seq a \<ge> seq then Inl (ErrInvalid ''approval.decision_seq'')
     else if a_outcome a \<notin> {Approved, Rejected} then Inl (ErrInvalid ''approval.outcome'')
     else ebind (validID ''approval.approver'' (a_approver a)) (\<lambda>_.
     if \<not> digest_Valid (a_statement a) then Inl (ErrInvalid ''approval.statement'')
     else if \<not> valid_ts (a_expires_ts a) then Inl (ErrInvalid ''approval.expires_ts'')
     else if a_expires_ts a \<le> ts then Inl (ErrInvalid ''approval.expires_ts'')
     else Inr ()))"

definition maxCertificate :: nat where
  "maxCertificate = 65536"

definition rotation_validate :: "rotation option \<Rightarrow> receipt_error + unit" where
  "rotation_validate mr = (case mr of None \<Rightarrow> Inl (ErrInvalid ''rotation'') | Some rot \<Rightarrow>
     ebind (validID ''rotation.from'' (rot_from rot)) (\<lambda>_.
     ebind (validID ''rotation.to'' (rot_to rot)) (\<lambda>_.
     if rot_from rot = rot_to rot then Inl (ErrInvalid ''rotation.to'')
     else if \<not> digest_Valid (rot_key rot) then Inl (ErrInvalid ''rotation.key'')
     else if rot_certificate rot = [] \<or> length (rot_certificate rot) > maxCertificate
       then Inl (ErrInvalid ''rotation.certificate'')
     else if b64_decode (rot_certificate rot) = None then Inl (ErrInvalid ''rotation.certificate'')
     else if rot_reason rot \<noteq> [] then validID ''rotation.reason'' (rot_reason rot)
     else Inr ())))"

definition receipt_Validate :: "receipt \<Rightarrow> receipt_error + unit" where
  "receipt_Validate r =
     (if r_v r \<noteq> receipt_Version then Inl (ErrInvalid ''v'')
      else if r_domain r \<noteq> receipt_Domain then Inl (ErrInvalid ''domain'')
      else ebind (validID ''chain_id'' (r_chain_id r)) (\<lambda>_.
      if r_seq r < 0 \<or> r_seq r > MaxSeq then Inl (ErrInvalid ''seq'')
      else if \<not> digest_Valid (r_prev r) then Inl (ErrInvalid ''prev'')
      else if \<not> valid_ts (r_ts r) then Inl (ErrInvalid ''ts'')
      else if r_type r = TypeDecision then
        ebind (validateCallContext r) (\<lambda>_.
        if r_result r \<noteq> None \<or> r_approval r \<noteq> None \<or> r_rotation r \<noteq> None then Inl (ErrInvalid ''sections'')
        else decision_validate (r_decision r))
      else if r_type r = TypeResult then
        ebind (validateCallContext r) (\<lambda>_.
        if r_decision r \<noteq> None \<or> r_approval r \<noteq> None \<or> r_rotation r \<noteq> None then Inl (ErrInvalid ''sections'')
        else result_validate (r_result r) (r_seq r))
      else if r_type r = TypeApproval then
        ebind (validateCallContext r) (\<lambda>_.
        if r_decision r \<noteq> None \<or> r_result r \<noteq> None \<or> r_rotation r \<noteq> None then Inl (ErrInvalid ''sections'')
        else approval_validate (r_approval r) (r_seq r) (r_ts r))
      else if r_type r = TypeKeyRotation then
        (if r_task_id r \<noteq> [] \<or> r_actor r \<noteq> None \<or> r_call r \<noteq> None then Inl (ErrInvalid ''context'')
         else if r_decision r \<noteq> None \<or> r_result r \<noteq> None \<or> r_approval r \<noteq> None then Inl (ErrInvalid ''sections'')
         else rotation_validate (r_rotation r))
      else if r_type r = TypeCheckpoint then Inl ErrUnsupportedType
      else Inl (ErrInvalid ''type'')))"

section \<open>What validation accepts\<close>

definition id_ok :: "string \<Rightarrow> bool" where
  "id_ok s \<longleftrightarrow> s \<noteq> [] \<and> length s \<le> 256 \<and> (\<forall>c \<in> set s. \<not> control (byte c))"

definition context_ok :: "receipt \<Rightarrow> actor \<Rightarrow> call \<Rightarrow> bool" where
  "context_ok r a c \<longleftrightarrow> r_actor r = Some a \<and> r_call r = Some c \<and> id_ok (r_task_id r) \<and> id_ok (agent a)
     \<and> id_ok (principal a) \<and> id_ok (tool c) \<and> digest_Valid (manifest c) \<and> digest_Valid (args_commitment c)"

definition header_ok :: "receipt \<Rightarrow> bool" where
  "header_ok r \<longleftrightarrow> r_v r = 1 \<and> r_domain r = receipt_Domain \<and> id_ok (r_chain_id r) \<and> 0 \<le> r_seq r
     \<and> r_seq r < 2 ^ 53 \<and> digest_Valid (r_prev r) \<and> valid_ts (r_ts r)"

definition decision_ok :: "receipt \<Rightarrow> decision \<Rightarrow> bool" where
  "decision_ok r d \<longleftrightarrow> r_decision r = Some d \<and> r_result r = None \<and> r_approval r = None \<and> r_rotation r = None
     \<and> (d_result d = Allow \<or> d_result d = Deny \<or> d_result d = RequireApproval)
     \<and> digest_Valid (d_policy_revision d) \<and> list_all id_ok (d_taint d)"

definition result_ok :: "receipt \<Rightarrow> result \<Rightarrow> bool" where
  "result_ok r x \<longleftrightarrow> r_result r = Some x \<and> r_decision r = None \<and> r_approval r = None \<and> r_rotation r = None
     \<and> 0 \<le> res_decision_seq x \<and> res_decision_seq x < r_seq r
     \<and> (res_status x = StatusOK \<and> digest_Valid (res_commitment x)
        \<or> res_status x = StatusError \<and> (res_commitment x = [] \<or> digest_Valid (res_commitment x)))
     \<and> list_all id_ok (res_taint x)"

definition approval_ok :: "receipt \<Rightarrow> approval \<Rightarrow> bool" where
  "approval_ok r a \<longleftrightarrow> r_approval r = Some a \<and> r_decision r = None \<and> r_result r = None \<and> r_rotation r = None
     \<and> 0 \<le> a_decision_seq a \<and> a_decision_seq a < r_seq r
     \<and> (a_outcome a = Approved \<or> a_outcome a = Rejected) \<and> id_ok (a_approver a)
     \<and> digest_Valid (a_statement a) \<and> valid_ts (a_expires_ts a) \<and> r_ts r < a_expires_ts a"

definition rotation_ok :: "receipt \<Rightarrow> rotation \<Rightarrow> bool" where
  "rotation_ok r x \<longleftrightarrow> r_rotation r = Some x \<and> r_task_id r = [] \<and> r_actor r = None \<and> r_call r = None
     \<and> r_decision r = None \<and> r_result r = None \<and> r_approval r = None
     \<and> id_ok (rot_from x) \<and> id_ok (rot_to x) \<and> rot_from x \<noteq> rot_to x \<and> digest_Valid (rot_key x)
     \<and> rot_certificate x \<noteq> [] \<and> length (rot_certificate x) \<le> 65536 \<and> b64_decode (rot_certificate x) \<noteq> None
     \<and> (rot_reason x \<noteq> [] \<longrightarrow> id_ok (rot_reason x))"

lemma list_ex_control: "list_ex control (runes s) \<longleftrightarrow> (\<exists>c \<in> set s. control (byte c))"
  by (simp add: list_ex_iff control_runes)

lemma validID_Inr [simp]: "validID field s = Inr u \<longleftrightarrow> id_ok s"
  by (auto simp: validID_def id_ok_def list_ex_control maxIDLen_def not_less)

lemma validID_Inl: "validID field s = Inl e \<longleftrightarrow> \<not> id_ok s \<and> e = ErrInvalid field"
  by (auto simp: validID_def id_ok_def list_ex_control maxIDLen_def not_less)

lemma validTaint_Inr [simp]: "validTaint field xs = Inr u \<longleftrightarrow> list_all id_ok xs"
  by (induction xs) auto

lemma validateCallContext_Inr [simp]:
  "validateCallContext r = Inr u \<longleftrightarrow> (\<exists>a c. context_ok r a c)"
  by (auto simp: validateCallContext_def context_ok_def split: option.splits)

lemma digest_Valid_NilD: "digest_Valid [] = False"
  by simp

lemma status_neq [simp]: "StatusOK \<noteq> StatusError" "StatusError \<noteq> StatusOK"
  by (simp_all add: receipt_consts)

lemma type_neq [simp]:
  "TypeDecision \<noteq> TypeResult" "TypeDecision \<noteq> TypeApproval" "TypeDecision \<noteq> TypeKeyRotation"
  "TypeResult \<noteq> TypeDecision" "TypeResult \<noteq> TypeApproval" "TypeResult \<noteq> TypeKeyRotation"
  "TypeApproval \<noteq> TypeDecision" "TypeApproval \<noteq> TypeResult" "TypeApproval \<noteq> TypeKeyRotation"
  "TypeKeyRotation \<noteq> TypeDecision" "TypeKeyRotation \<noteq> TypeResult" "TypeKeyRotation \<noteq> TypeApproval"
  by (simp_all add: receipt_consts)

lemma outcome_neq [simp]: "Approved \<noteq> Rejected" "Rejected \<noteq> Approved" "Approved \<noteq> []" "Rejected \<noteq> []"
  by (simp_all add: receipt_consts)

lemma result_neq [simp]:
  "Allow \<noteq> Deny" "Allow \<noteq> RequireApproval" "Deny \<noteq> Allow" "Deny \<noteq> RequireApproval"
  "RequireApproval \<noteq> Allow" "RequireApproval \<noteq> Deny"
  by (simp_all add: receipt_consts)

lemma header_ok_iff:
  "header_ok r \<longleftrightarrow> r_v r = receipt_Version \<and> r_domain r = receipt_Domain \<and> id_ok (r_chain_id r)
     \<and> \<not> (r_seq r < 0 \<or> r_seq r > MaxSeq) \<and> digest_Valid (r_prev r) \<and> valid_ts (r_ts r)"
  by (auto simp: header_ok_def receipt_Version_def MaxSeq_def MaxSafeInteger_def)

lemma decision_validate_Inr:
  "decision_validate (r_decision r) = Inr u \<and> r_result r = None \<and> r_approval r = None \<and> r_rotation r = None
   \<longleftrightarrow> (\<exists>d. decision_ok r d)"
  by (cases "r_decision r") (auto simp: decision_validate_def decision_ok_def)

lemma result_validate_Inr:
  "result_validate (r_result r) (r_seq r) = Inr u \<and> r_decision r = None \<and> r_approval r = None \<and> r_rotation r = None
   \<longleftrightarrow> (\<exists>x. result_ok r x)"
  by (cases "r_result r") (auto simp: result_validate_def result_ok_def)

lemma approval_validate_Inr:
  "approval_validate (r_approval r) (r_seq r) (r_ts r) = Inr u \<and> r_decision r = None \<and> r_result r = None
     \<and> r_rotation r = None \<longleftrightarrow> (\<exists>x. approval_ok r x)"
  by (cases "r_approval r") (auto simp: approval_validate_def approval_ok_def)

lemma rotation_validate_Inr:
  "rotation_validate (r_rotation r) = Inr u \<and> r_task_id r = [] \<and> r_actor r = None \<and> r_call r = None
     \<and> r_decision r = None \<and> r_result r = None \<and> r_approval r = None \<longleftrightarrow> (\<exists>x. rotation_ok r x)"
  by (cases "r_rotation r") (auto simp: rotation_validate_def rotation_ok_def maxCertificate_def)

text \<open>Validation per type; any other type is an error.\<close>

lemma Validate_decision:
  assumes "r_type r = TypeDecision"
  shows "receipt_Validate r = Inr u \<longleftrightarrow> header_ok r \<and> (\<exists>a c. context_ok r a c) \<and> (\<exists>d. decision_ok r d)"
  unfolding header_ok_iff decision_validate_Inr [symmetric, of r u] receipt_Validate_def using assms by auto

lemma Validate_result:
  assumes "r_type r = TypeResult"
  shows "receipt_Validate r = Inr u \<longleftrightarrow> header_ok r \<and> (\<exists>a c. context_ok r a c) \<and> (\<exists>x. result_ok r x)"
  unfolding header_ok_iff result_validate_Inr [symmetric, of r u] receipt_Validate_def using assms by auto

lemma Validate_approval:
  assumes "r_type r = TypeApproval"
  shows "receipt_Validate r = Inr u \<longleftrightarrow> header_ok r \<and> (\<exists>a c. context_ok r a c) \<and> (\<exists>x. approval_ok r x)"
  unfolding header_ok_iff approval_validate_Inr [symmetric, of r u] receipt_Validate_def using assms by auto

lemma Validate_rotation:
  assumes "r_type r = TypeKeyRotation"
  shows "receipt_Validate r = Inr u \<longleftrightarrow> header_ok r \<and> (\<exists>x. rotation_ok r x)"
  unfolding header_ok_iff rotation_validate_Inr [symmetric, of r u] receipt_Validate_def using assms by auto

lemma Validate_type:
  "receipt_Validate r = Inr u \<Longrightarrow>
     r_type r = TypeDecision \<or> r_type r = TypeResult \<or> r_type r = TypeApproval \<or> r_type r = TypeKeyRotation"
  by (rule ccontr) (simp add: receipt_Validate_def)

lemma Validate_header: "receipt_Validate r = Inr u \<Longrightarrow> header_ok r"
  by (frule Validate_type) (auto simp: Validate_decision Validate_result Validate_approval Validate_rotation)

lemmas Validate_simps = Validate_decision Validate_result Validate_approval Validate_rotation

text \<open>
  validation accepts a receipt exactly when its header is well formed and it is one of four kinds
  of event with that kind's section and no other: a decision, a result of an earlier
  receipt, an approval of an earlier receipt that expires after it, or a rotation without call
  context; every other type is rejected.
\<close>

theorem receipt_Validate_iff:
  "receipt_Validate r = Inr () \<longleftrightarrow> header_ok r \<and>
     (r_type r = TypeDecision \<and> (\<exists>a c d. context_ok r a c \<and> decision_ok r d)
      \<or> r_type r = TypeResult \<and> (\<exists>a c x. context_ok r a c \<and> result_ok r x)
      \<or> r_type r = TypeApproval \<and> (\<exists>a c x. context_ok r a c \<and> approval_ok r x)
      \<or> r_type r = TypeKeyRotation \<and> (\<exists>x. rotation_ok r x))"
  using Validate_type [of r "()"] by (auto simp: Validate_simps) blast+

end
