(* ===== verification/Composite.thy ===== *)
theory Composite
  imports Digest Canonical
begin

text \<open>
  Composite ML-DSA and Ed25519 signatures (\<open>internal/composite/composite.go\<close>).  The primitives of
  the standard library are the fields of the record \<open>crypto\<close>, which also carries SHA-256 and the
  third-party JSON canonicalisation for the components above; every definition that reaches a
  primitive takes this record.  A key pair of a primitive is identified by its seed and a public key
  by its serialised bytes.
\<close>

section \<open>Library functions\<close>

datatype mldsa_params = MLDSA44 | MLDSA65 | MLDSA87

record crypto =
  sha256 :: hasher
  sha512 :: "bytes \<Rightarrow> 512 word"
  jcs :: jcs_fun
  mldsa_public :: "mldsa_params \<Rightarrow> bytes \<Rightarrow> bytes option"
  mldsa_public_ok :: "mldsa_params \<Rightarrow> bytes \<Rightarrow> bool"
  mldsa_sign :: "mldsa_params \<Rightarrow> bytes \<Rightarrow> bytes \<Rightarrow> string \<Rightarrow> bytes option"
  mldsa_verify :: "mldsa_params \<Rightarrow> bytes \<Rightarrow> bytes \<Rightarrow> bytes \<Rightarrow> string \<Rightarrow> bool"
  ed_public :: "bytes \<Rightarrow> bytes"
  ed_sign :: "bytes \<Rightarrow> bytes \<Rightarrow> bytes"
  ed_verify :: "bytes \<Rightarrow> bytes \<Rightarrow> bytes \<Rightarrow> bool"

text \<open>\<open>sha256.Sum256\<close> as bytes.\<close>

abbreviation sum256 :: "'x crypto_scheme \<Rightarrow> bytes \<Rightarrow> bytes" where
  "sum256 C b \<equiv> hash_bytes (sha256 C b)"

section \<open>Suites and keys\<close>

record suite =
  suite_Name :: string
  suite_Label :: string
  suite_params :: mldsa_params
  suite_pubSize :: nat
  suite_sigSize :: nat

record public_key =
  pk_suite :: suite
  pk_mldsa :: bytes
  pk_ed :: bytes

record private_key =
  sk_suite :: suite
  sk_mldsa :: bytes
  sk_ed :: bytes
  sk_pub :: public_key

datatype composite_error = BadSeedSize | MldsaKey | MldsaSign | SigSize | PubSize | ErrInvalidSignature

definition composite_Prefix :: string where
  "composite_Prefix = ''CompositeAlgorithmSignatures2025''"

definition SeedSize :: nat where
  "SeedSize = 32 + 32"

definition MLDSA65Ed25519 :: suite where
  "MLDSA65Ed25519 = \<lparr>suite_Name = ''ML-DSA-65-Ed25519'', suite_Label = ''COMPSIG-MLDSA65-Ed25519-SHA512'',
     suite_params = MLDSA65, suite_pubSize = 1952, suite_sigSize = 3309\<rparr>"

definition mldsa44Ed25519 :: suite where
  "mldsa44Ed25519 = \<lparr>suite_Name = ''ML-DSA-44-Ed25519'', suite_Label = ''COMPSIG-MLDSA44-Ed25519-SHA512'',
     suite_params = MLDSA44, suite_pubSize = 1312, suite_sigSize = 2420\<rparr>"

definition PublicKeySize :: "suite \<Rightarrow> nat" where
  "PublicKeySize s = suite_pubSize s + 32"

definition SignatureSize :: "suite \<Rightarrow> nat" where
  "SignatureSize s = suite_sigSize s + 64"

definition MessageRepresentative :: "'x crypto_scheme \<Rightarrow> suite \<Rightarrow> bytes \<Rightarrow> bytes" where
  "MessageRepresentative C s msg =
     composite_Prefix @ suite_Label s @ [char_of (0 :: nat)] @ be_bytes 64 (unat (sha512 C msg))"

definition NewPrivateKey :: "'x crypto_scheme \<Rightarrow> suite \<Rightarrow> bytes \<Rightarrow> composite_error + private_key" where
  "NewPrivateKey C s seed =
     (if length seed \<noteq> SeedSize then Inl BadSeedSize
      else ebind (of_option MldsaKey (mldsa_public C (suite_params s) (take 32 seed))) (\<lambda>mk.
        Inr \<lparr>sk_suite = s, sk_mldsa = take 32 seed, sk_ed = drop 32 seed,
             sk_pub = \<lparr>pk_suite = s, pk_mldsa = mk, pk_ed = ed_public C (drop 32 seed)\<rparr>\<rparr>))"

text \<open>The \<open>SeedSize\<close> bytes that \<open>rand.Read\<close> fills are an argument.\<close>

definition GenerateKey :: "'x crypto_scheme \<Rightarrow> suite \<Rightarrow> bytes \<Rightarrow> composite_error + private_key" where
  "GenerateKey C s seed = NewPrivateKey C s seed"

definition key_Seed :: "private_key \<Rightarrow> bytes" where
  "key_Seed k = sk_mldsa k @ sk_ed k"

definition key_Sign :: "'x crypto_scheme \<Rightarrow> private_key \<Rightarrow> bytes \<Rightarrow> composite_error + bytes" where
  "key_Sign C k msg =
     (let m = MessageRepresentative C (sk_suite k) msg in
      ebind (of_option MldsaSign
          (mldsa_sign C (suite_params (sk_suite k)) (sk_mldsa k) m (suite_Label (sk_suite k)))) (\<lambda>ms.
      if length ms \<noteq> suite_sigSize (sk_suite k) then Inl SigSize
      else Inr (ms @ ed_sign C (sk_ed k) m)))"

definition ParsePublicKey :: "'x crypto_scheme \<Rightarrow> suite \<Rightarrow> bytes \<Rightarrow> composite_error + public_key" where
  "ParsePublicKey C s b =
     (if length b \<noteq> PublicKeySize s then Inl PubSize
      else if \<not> mldsa_public_ok C (suite_params s) (take (suite_pubSize s) b) then Inl MldsaKey
      else Inr \<lparr>pk_suite = s, pk_mldsa = take (suite_pubSize s) b, pk_ed = drop (suite_pubSize s) b\<rparr>)"

definition pub_Bytes :: "public_key \<Rightarrow> bytes" where
  "pub_Bytes p = pk_mldsa p @ pk_ed p"

definition pub_Verify :: "'x crypto_scheme \<Rightarrow> public_key \<Rightarrow> bytes \<Rightarrow> bytes \<Rightarrow> composite_error + unit" where
  "pub_Verify C p msg sig =
     (if length sig \<noteq> SignatureSize (pk_suite p) then Inl ErrInvalidSignature
      else let m = MessageRepresentative C (pk_suite p) msg;
        mldsaOK = mldsa_verify C (suite_params (pk_suite p)) (pk_mldsa p) m
          (take (suite_sigSize (pk_suite p)) sig) (suite_Label (pk_suite p));
        edOK = ed_verify C (pk_ed p) m (drop (suite_sigSize (pk_suite p)) sig) in
      if \<not> mldsaOK \<or> \<not> edOK then Inl ErrInvalidSignature else Inr ())"

section \<open>The Signer interface\<close>

text \<open>
  \<open>Signer\<close> is an interface of two methods; a nil interface is \<open>None\<close>, and a nil key inside it has
  no public key.  The randomness of hedged signing is part of the signer value: nothing below uses
  that two signatures of one message are equal.
\<close>

record signer =
  sgn_Public :: "public_key option"
  sgn_Sign :: "bytes \<Rightarrow> composite_error + bytes"

definition private_signer :: "'x crypto_scheme \<Rightarrow> private_key \<Rightarrow> signer" where
  "private_signer C k = \<lparr>sgn_Public = Some (sk_pub k), sgn_Sign = key_Sign C k\<rparr>"

text \<open>
  The documented behaviour of the primitives: sizes of FIPS 204 and RFC 8032, and that a signature
  made with a seed verifies under the public key of that seed.
\<close>

definition primitives_ok :: "'x crypto_scheme \<Rightarrow> bool" where
  "primitives_ok C \<longleftrightarrow>
     (\<forall>p seed pk. mldsa_public C p seed = Some pk \<longrightarrow>
        length pk = (case p of MLDSA44 \<Rightarrow> 1312 | MLDSA65 \<Rightarrow> 1952 | MLDSA87 \<Rightarrow> 2592) \<and> mldsa_public_ok C p pk \<and>
        (\<forall>m ctx sig. mldsa_sign C p seed m ctx = Some sig \<longrightarrow> mldsa_verify C p pk m sig ctx)) \<and>
     (\<forall>seed. length (ed_public C seed) = 32 \<and>
        (\<forall>m. length (ed_sign C seed m) = 64 \<and> ed_verify C (ed_public C seed) m (ed_sign C seed m)))"

lemma pub_Verify_Inr:
  "pub_Verify C p msg sig = Inr u \<longleftrightarrow>
     length sig = SignatureSize (pk_suite p) \<and>
     mldsa_verify C (suite_params (pk_suite p)) (pk_mldsa p) (MessageRepresentative C (pk_suite p) msg)
       (take (suite_sigSize (pk_suite p)) sig) (suite_Label (pk_suite p)) \<and>
     ed_verify C (pk_ed p) (MessageRepresentative C (pk_suite p) msg) (drop (suite_sigSize (pk_suite p)) sig)"
  by (simp add: pub_Verify_def Let_def)

lemma pub_Verify_Inl: "pub_Verify C p msg sig = Inl e \<Longrightarrow> e = ErrInvalidSignature"
  by (auto simp: pub_Verify_def Let_def split: if_splits)

lemma key_Sign_verifies:
  assumes "primitives_ok C" "NewPrivateKey C s seed = Inr k" "key_Sign C k msg = Inr sig"
  shows "pub_Verify C (sk_pub k) msg sig = Inr ()"
proof -
  obtain mk where k: "mldsa_public C (suite_params s) (take 32 seed) = Some mk"
    "k = \<lparr>sk_suite = s, sk_mldsa = take 32 seed, sk_ed = drop 32 seed,
           sk_pub = \<lparr>pk_suite = s, pk_mldsa = mk, pk_ed = ed_public C (drop 32 seed)\<rparr>\<rparr>"
    using assms(2) by (auto simp: NewPrivateKey_def split: if_splits)
  with assms(1,3) show ?thesis
    by (auto simp: key_Sign_def pub_Verify_Inr primitives_ok_def Let_def SignatureSize_def split: if_splits)
qed

lemma MessageRepresentative_inj:
  assumes "length (suite_Label s) = length (suite_Label t)"
    and "MessageRepresentative C s m = MessageRepresentative C t n"
  shows "suite_Label s = suite_Label t \<and> sha512 C m = sha512 C n"
proof -
  have "suite_Label s = suite_Label t" "be_bytes 64 (unat (sha512 C m)) = be_bytes 64 (unat (sha512 C n))"
    using assms by (simp_all add: MessageRepresentative_def)
  moreover have "unat (sha512 C m) < 256 ^ 64" "unat (sha512 C n) < 256 ^ 64"
    using unsigned_less [of "sha512 C m"] unsigned_less [of "sha512 C n"] by simp_all
  ultimately show ?thesis by (metis be_bytes_inj unsigned_word_eqI)
qed

text \<open>
  a composite signature is accepted exactly when it has the suite's size, its first part
  verifies as an ML-DSA signature and the rest as an Ed25519 signature, both over the message
  representative; in particular replacing either half by one that does not verify is always
  rejected, and the two suites never accept for the same reason because their representatives
  differ.
\<close>

theorem composite_Verify_both:
  "(pub_Verify C p msg sig = Inr () \<longleftrightarrow>
     (\<exists>ms es. sig = ms @ es \<and> length ms = suite_sigSize (pk_suite p) \<and> length es = 64 \<and>
        mldsa_verify C (suite_params (pk_suite p)) (pk_mldsa p)
          (MessageRepresentative C (pk_suite p) msg) ms (suite_Label (pk_suite p)) \<and>
        ed_verify C (pk_ed p) (MessageRepresentative C (pk_suite p) msg) es))
   \<and> MessageRepresentative C MLDSA65Ed25519 msg \<noteq> MessageRepresentative C mldsa44Ed25519 msg'"
proof
  show "pub_Verify C p msg sig = Inr () \<longleftrightarrow>
     (\<exists>ms es. sig = ms @ es \<and> length ms = suite_sigSize (pk_suite p) \<and> length es = 64 \<and>
        mldsa_verify C (suite_params (pk_suite p)) (pk_mldsa p)
          (MessageRepresentative C (pk_suite p) msg) ms (suite_Label (pk_suite p)) \<and>
        ed_verify C (pk_ed p) (MessageRepresentative C (pk_suite p) msg) es)" (is "?l = ?r")
  proof
    assume ?l
    then show ?r
      by (intro exI [of _ "take (suite_sigSize (pk_suite p)) sig"] exI [of _ "drop (suite_sigSize (pk_suite p)) sig"])
        (auto simp: pub_Verify_Inr SignatureSize_def)
  qed (auto simp: pub_Verify_Inr SignatureSize_def)
  show "MessageRepresentative C MLDSA65Ed25519 msg \<noteq> MessageRepresentative C mldsa44Ed25519 msg'"
    by (simp add: MessageRepresentative_def MLDSA65Ed25519_def mldsa44Ed25519_def)
qed

text \<open>
  What the code above this package expects of a \<open>Signer\<close>: it has a public key, and what it signs
  verifies under that key.  \<open>good\<close> selects the signers the promise is made for.
\<close>

locale signing =
  fixes C :: "'x crypto_scheme" and good :: "signer \<Rightarrow> bool"
  assumes signer_has_key: "good s \<Longrightarrow> \<exists>p. sgn_Public s = Some p"
    and signer_verifies: "good s \<Longrightarrow> sgn_Public s = Some p \<Longrightarrow> sgn_Sign s m = Inr sig \<Longrightarrow>
      pub_Verify C p m sig = Inr ()"

definition file_signer :: "'x crypto_scheme \<Rightarrow> signer \<Rightarrow> bool" where
  "file_signer C s \<longleftrightarrow> primitives_ok C \<and>
     (\<exists>st seed k. NewPrivateKey C st seed = Inr k \<and> s = private_signer C k)"

interpretation file_keys: signing C "file_signer C" for C
proof
  fix s assume "file_signer C s"
  then show "\<exists>p. sgn_Public s = Some p" by (auto simp: file_signer_def private_signer_def)
next
  fix s p m sig
  assume "file_signer C s" "sgn_Public s = Some p" "sgn_Sign s m = Inr sig"
  then show "pub_Verify C p m sig = Inr ()"
    by (auto simp: file_signer_def private_signer_def intro: key_Sign_verifies)
qed

text \<open>Serialised public keys parse back to themselves.\<close>

lemma ParsePublicKey_Bytes:
  assumes "length (pk_mldsa p) = suite_pubSize (pk_suite p)" "length (pk_ed p) = 32"
    and "mldsa_public_ok C (suite_params (pk_suite p)) (pk_mldsa p)"
  shows "ParsePublicKey C (pk_suite p) (pub_Bytes p) = Inr p"
  using assms by (simp add: ParsePublicKey_def pub_Bytes_def PublicKeySize_def)

lemma ParsePublicKey_Inr:
  "ParsePublicKey C s b = Inr p \<Longrightarrow> pub_Bytes p = b \<and> pk_suite p = s \<and> length b = PublicKeySize s"
  by (auto simp: ParsePublicKey_def pub_Bytes_def split: if_splits)

lemma NewPrivateKey_seed: "NewPrivateKey C s seed = Inr k \<Longrightarrow> key_Seed k = seed"
  by (auto simp: NewPrivateKey_def key_Seed_def split: if_splits)

end
