(* ===== verification/Envelope.thy ===== *)
theory Envelope
  imports Receipt Composite
begin

text \<open>
  The signed envelope of receipts and checkpoints (\<open>internal/receipt/envelope.go\<close>): a flattened JWS
  with base64url fields.
\<close>

definition Alg :: string where
  "Alg = ''ML-DSA-65-Ed25519''"

definition AlgRef :: string where
  "AlgRef = ''draft-ietf-jose-pq-composite-sigs-04''"

record header =
  h_alg :: string
  h_alg_ref :: string
  h_crit :: "string list"
  h_kid :: string

record signed =
  s_payload :: string
  s_protected :: string
  s_signature :: string

datatype envelope_error =
  ReceiptErr receipt_error
| ErrMalformed string
| ErrBadSignature
| KeySuite
| NoSigningKey
| PayloadNotCanonical canonical_error
| EncodeErr canonical_error
| SignErr composite_error

definition json_of_header :: "header \<Rightarrow> json" where
  "json_of_header h = JObj [(''alg'', JStr (h_alg h)), (''alg_ref'', JStr (h_alg_ref h)),
     (''crit'', JArr (map JStr (h_crit h))), (''kid'', JStr (h_kid h))]"

definition json_of_signed :: "signed \<Rightarrow> json" where
  "json_of_signed s = JObj [(''payload'', JStr (s_payload s)), (''protected'', JStr (s_protected s)),
     (''signature'', JStr (s_signature s))]"

definition dec_header :: "json \<Rightarrow> header option" where
  "dec_header j = do {
     f \<leftarrow> fields_of [''alg'', ''alg_ref'', ''crit'', ''kid''] j;
     a \<leftarrow> get_str f ''alg''; r \<leftarrow> get_str f ''alg_ref''; c \<leftarrow> get_strs f ''crit''; k \<leftarrow> get_str f ''kid'';
     Some \<lparr>h_alg = a, h_alg_ref = r, h_crit = c, h_kid = k\<rparr> }"

definition dec_signed :: "json \<Rightarrow> signed option" where
  "dec_signed j = do {
     f \<leftarrow> fields_of [''payload'', ''protected'', ''signature''] j;
     p \<leftarrow> get_str f ''payload''; h \<leftarrow> get_str f ''protected''; g \<leftarrow> get_str f ''signature'';
     Some \<lparr>s_payload = p, s_protected = h, s_signature = g\<rparr> }"

definition signingInput :: "signed \<Rightarrow> bytes" where
  "signingInput s = s_protected s @ ''.'' @ s_payload s"

text \<open>\<open>SignPayload\<close>: a nil interface and a nil key inside one are both refused.\<close>

definition new_header :: "string \<Rightarrow> header" where
  "new_header kid = \<lparr>h_alg = Alg, h_alg_ref = AlgRef, h_crit = [''alg_ref''], h_kid = kid\<rparr>"

definition SignPayload ::
  "'x crypto_scheme \<Rightarrow> signer option \<Rightarrow> string \<Rightarrow> bytes \<Rightarrow> envelope_error + signed" where
  "SignPayload C mk kid payload =
     (case mk of None \<Rightarrow> Inl NoSigningKey | Some k \<Rightarrow>
      case sgn_Public k of None \<Rightarrow> Inl NoSigningKey | Some p \<Rightarrow>
      if suite_Name (pk_suite p) \<noteq> Alg then Inl KeySuite
      else ebind (map_err ReceiptErr (validID ''kid'' kid)) (\<lambda>_.
      ebind (map_err PayloadNotCanonical (canonical_Check (jcs C) payload)) (\<lambda>_.
      ebind (map_err EncodeErr (canonical_Encode (jcs C) (json_of_header (new_header kid)))) (\<lambda>hdr.
      let s = \<lparr>s_payload = b64_encode payload, s_protected = b64_encode hdr, s_signature = []\<rparr> in
      ebind (map_err SignErr (sgn_Sign k (signingInput s))) (\<lambda>sig.
      Inr (s\<lparr>s_signature := b64_encode sig\<rparr>))))))"

definition receipt_Sign ::
  "'x crypto_scheme \<Rightarrow> signer option \<Rightarrow> string \<Rightarrow> receipt \<Rightarrow> envelope_error + signed" where
  "receipt_Sign C mk kid r =
     ebind (map_err ReceiptErr (receipt_Validate r)) (\<lambda>_.
     ebind (map_err EncodeErr (canonical_Encode (jcs C) (json_of_receipt r))) (\<lambda>payload.
     SignPayload C mk kid payload))"

definition signed_Line :: "'x crypto_scheme \<Rightarrow> signed \<Rightarrow> canonical_error + bytes" where
  "signed_Line C s = canonical_Encode (jcs C) (json_of_signed s)"

definition signed_Hash :: "'x crypto_scheme \<Rightarrow> signed \<Rightarrow> canonical_error + string" where
  "signed_Hash C s = ebind (signed_Line C s) (\<lambda>line. Inr (digest_SHA256 (sha256 C) line))"

definition ParseLine :: "'x crypto_scheme \<Rightarrow> bytes \<Rightarrow> envelope_error + signed" where
  "ParseLine C line =
     map_err (\<lambda>_. ErrMalformed ''line'') (DecodeStrict (jcs C) dec_signed json_of_signed line)"

definition signed_header :: "'x crypto_scheme \<Rightarrow> signed \<Rightarrow> envelope_error + header" where
  "signed_header C s =
     ebind (of_option (ErrMalformed ''protected'') (b64_decode (s_protected s))) (\<lambda>raw.
     ebind (map_err (\<lambda>_. ErrMalformed ''protected'')
         (DecodeStrict (jcs C) dec_header json_of_header raw)) (\<lambda>h.
     if h_alg h \<noteq> Alg then Inl (ErrMalformed ''alg'')
     else if h_alg_ref h \<noteq> AlgRef then Inl (ErrMalformed ''alg_ref'')
     else if h_crit h \<noteq> [''alg_ref''] then Inl (ErrMalformed ''crit'')
     else ebind (map_err (\<lambda>_. ErrMalformed ''kid'') (validID ''kid'' (h_kid h))) (\<lambda>_. Inr h)))"

definition signed_KeyID :: "'x crypto_scheme \<Rightarrow> signed \<Rightarrow> envelope_error + string" where
  "signed_KeyID C s = ebind (signed_header C s) (\<lambda>h. Inr (h_kid h))"

definition VerifyPayload ::
  "'x crypto_scheme \<Rightarrow> public_key \<Rightarrow> signed \<Rightarrow> envelope_error + bytes" where
  "VerifyPayload C pub s =
     (if suite_Name (pk_suite pub) \<noteq> Alg then Inl KeySuite
      else ebind (signed_header C s) (\<lambda>_.
      ebind (of_option (ErrMalformed ''signature'') (b64_decode (s_signature s))) (\<lambda>sig.
      ebind (map_err (\<lambda>_. ErrBadSignature) (pub_Verify C pub (signingInput s) sig)) (\<lambda>_.
      of_option (ErrMalformed ''payload'') (b64_decode (s_payload s))))))"

definition receipt_Verify ::
  "'x crypto_scheme \<Rightarrow> public_key \<Rightarrow> signed \<Rightarrow> envelope_error + receipt" where
  "receipt_Verify C pub s =
     ebind (VerifyPayload C pub s) (\<lambda>payload.
     ebind (map_err (\<lambda>_. ErrMalformed ''payload'')
         (DecodeStrict (jcs C) dec_receipt json_of_receipt payload)) (\<lambda>r.
     ebind (map_err ReceiptErr (receipt_Validate r)) (\<lambda>_. Inr r)))"

section \<open>Lemmas\<close>

lemma ParseLine_Inr:
  "ParseLine C line = Inr s \<Longrightarrow> signed_Line C s = Inr line"
  by (auto simp: ParseLine_def signed_Line_def dest: decode_strict_reencodes)

lemma new_header_iff:
  "h = new_header (h_kid h) \<longleftrightarrow> h_alg h = Alg \<and> h_alg_ref h = AlgRef \<and> h_crit h = [''alg_ref'']"
  by (cases h) (auto simp: new_header_def)

lemma signed_header_Inr:
  "signed_header C s = Inr h \<longleftrightarrow> (\<exists>raw. b64_decode (s_protected s) = Some raw \<and>
     DecodeStrict (jcs C) dec_header json_of_header raw = Inr h \<and>
     h = new_header (h_kid h) \<and> id_ok (h_kid h))"
  by (auto simp: signed_header_def new_header_iff)

lemma VerifyPayload_Inr:
  "VerifyPayload C pub s = Inr p \<longleftrightarrow> suite_Name (pk_suite pub) = Alg \<and> (\<exists>h. signed_header C s = Inr h) \<and>
     (\<exists>sig. b64_decode (s_signature s) = Some sig \<and> pub_Verify C pub (signingInput s) sig = Inr ()) \<and>
     b64_decode (s_payload s) = Some p"
  by (auto simp: VerifyPayload_def)

lemma receipt_Verify_Inr:
  "receipt_Verify C pub s = Inr r \<longleftrightarrow> (\<exists>p. VerifyPayload C pub s = Inr p \<and>
     DecodeStrict (jcs C) dec_receipt json_of_receipt p = Inr r \<and> receipt_Validate r = Inr ())"
  by (auto simp: receipt_Verify_def)

text \<open>What \<open>SignPayload\<close> returns, if anything.\<close>

lemma SignPayload_Inr:
  "SignPayload C mk kid payload = Inr s \<longleftrightarrow> (\<exists>k p hdr sig. mk = Some k \<and> sgn_Public k = Some p \<and>
     suite_Name (pk_suite p) = Alg \<and> id_ok kid \<and> canonical_Check (jcs C) payload = Inr () \<and>
     canonical_Encode (jcs C) (json_of_header (new_header kid)) = Inr hdr \<and>
     sgn_Sign k (signingInput s) = Inr sig \<and>
     s = \<lparr>s_payload = b64_encode payload, s_protected = b64_encode hdr, s_signature = b64_encode sig\<rparr>)"
  by (auto simp: SignPayload_def signingInput_def Let_def split: option.splits)

section \<open>Signed values verify and read back\<close>

lemma dec_header_sorted [simp]: "dec_header (sort_json (json_of_header h)) = Some h"
  unfolding json_of_header_def dec_header_def
  by (subst fields_of_sorted) (auto simp: keys_omit struct_simps)

lemma dec_signed_sorted [simp]: "dec_signed (sort_json (json_of_signed s)) = Some s"
  unfolding json_of_signed_def dec_signed_def by (subst fields_of_sorted) (simp_all add: struct_simps)

lemma b64_char_ascii: "n < 64 \<Longrightarrow> byte (b64_char n) < 128"
  by (cases "n < 26"; cases "n < 52"; cases "n < 62"; simp add: b64_char_byte)

lemma b64_encode_ascii [simp]: "ascii (b64_encode bs)"
  unfolding ascii_def by (induction bs rule: b64_encode.induct) (simp_all add: b64_sextets b64_char_ascii)

lemma json_header_ok:
  "json_ok (json_of_header (new_header kid)) \<longleftrightarrow> utf8_valid kid" "json_safe (json_of_header (new_header kid))"
  by (simp_all add: json_of_header_def new_header_def Alg_def AlgRef_def utf8_valid_ascii ascii_def)

lemma json_signed_ok:
  assumes "ascii (s_payload s)" "ascii (s_protected s)" "ascii (s_signature s)"
  shows "json_ok (json_of_signed s)" "json_safe (json_of_signed s)"
  using assms by (simp_all add: json_of_signed_def utf8_valid_ascii)

definition receipt_utf8 :: "receipt \<Rightarrow> bool" where
  "receipt_utf8 r \<longleftrightarrow> json_ok (json_of_receipt r)"

lemma json_safe_omit [simp]:
  "list_all (\<lambda>(k, j). ascii k \<and> json_safe j) (omit_str k s) \<longleftrightarrow> s = [] \<or> ascii k"
  "list_all (\<lambda>(k, j). ascii k \<and> json_safe j) (omit_strs k xs) \<longleftrightarrow> xs = [] \<or> ascii k"
  "list_all (\<lambda>(k, j). ascii k \<and> json_safe j) (omit_ptr k f x) \<longleftrightarrow>
     (case x of None \<Rightarrow> True | Some a \<Rightarrow> ascii k \<and> json_safe (f a))"
  by (auto simp: omit_str_def omit_strs_def omit_ptr_def list_all_iff split: option.splits)

lemma json_safe_sections:
  "json_safe (json_of_actor a)" "json_safe (json_of_call c)" "json_safe (json_of_decision d)"
  "json_safe (json_of_rotation o')"
  "json_safe (json_of_result x) \<longleftrightarrow> \<bar>res_decision_seq x\<bar> < 2 ^ 53"
  "json_safe (json_of_approval p) \<longleftrightarrow> \<bar>a_decision_seq p\<bar> < 2 ^ 53"
  by (simp_all add: json_of_actor_def json_of_call_def json_of_decision_def json_of_rotation_def
      json_of_result_def json_of_approval_def keys_omit)

lemma json_safe_receipt:
  "json_safe (json_of_receipt r) \<longleftrightarrow> \<bar>r_v r\<bar> < 2 ^ 53 \<and> \<bar>r_seq r\<bar> < 2 ^ 53 \<and>
     (\<forall>x. r_result r = Some x \<longrightarrow> \<bar>res_decision_seq x\<bar> < 2 ^ 53) \<and>
     (\<forall>x. r_approval r = Some x \<longrightarrow> \<bar>a_decision_seq x\<bar> < 2 ^ 53)"
  by (simp add: json_of_receipt_def receipt_members_keys(1))
    (simp add: receipt_members_def json_safe_sections split: option.splits)

lemma receipt_json_safe: "receipt_Validate r = Inr () \<Longrightarrow> json_safe (json_of_receipt r)"
  using Validate_type [of r "()"] Validate_header [of r "()"]
  by (auto simp: json_safe_receipt Validate_simps header_ok_def decision_ok_def result_ok_def
      approval_ok_def rotation_ok_def)

text \<open>A key ID, a payload and a signer for which \<open>SignPayload\<close> succeeds give a line that parses.\<close>

lemma SignPayload_line:
  assumes "jcs_ok (jcs C)" "SignPayload C mk kid payload = Inr s"
  shows "\<exists>line. signed_Line C s = Inr line \<and> ParseLine C line = Inr s"
proof -
  have a: "json_ok (json_of_signed s)" "json_safe (json_of_signed s)"
    using assms(2) by (auto simp: SignPayload_Inr intro!: json_signed_ok)
  then obtain line where "signed_Line C s = Inr line"
    using canonical_Encode_ok [OF assms(1)] by (auto simp: signed_Line_def)
  with DecodeStrict_Encode [OF assms(1), of json_of_signed s line dec_signed] a show ?thesis
    by (auto simp: ParseLine_def signed_Line_def)
qed

lemma SignPayload_header:
  assumes "jcs_ok (jcs C)" "SignPayload C mk kid payload = Inr s" "utf8_valid kid"
  shows "signed_header C s = Inr (new_header kid)"
proof -
  obtain hdr where h: "canonical_Encode (jcs C) (json_of_header (new_header kid)) = Inr hdr"
    "s_protected s = b64_encode hdr" "id_ok kid"
    using assms(2) by (auto simp: SignPayload_Inr)
  have "DecodeStrict (jcs C) dec_header json_of_header hdr = Inr (new_header kid)"
    using DecodeStrict_Encode [of "jcs C" json_of_header "new_header kid" hdr dec_header] assms(1,3) h(1)
    by (simp add: json_header_ok)
  with h show ?thesis
    by (simp add: signed_header_Inr b64_decode_encode) (simp add: new_header_def)
qed

context signing
begin

lemma SignPayload_verifies:
  assumes "good k" "jcs_ok (jcs C)" "utf8_valid kid" "SignPayload C (Some k) kid payload = Inr s"
    and "sgn_Public k = Some p"
  shows "VerifyPayload C p s = Inr payload"
proof -
  have "b64_decode (s_payload s) = Some payload" "suite_Name (pk_suite p) = Alg"
    using assms(4,5) by (auto simp: SignPayload_Inr b64_decode_encode)
  moreover obtain sig where "sgn_Sign k (signingInput s) = Inr sig" "b64_decode (s_signature s) = Some sig"
    using assms(4) by (auto simp: SignPayload_Inr b64_decode_encode)
  ultimately show ?thesis
    using SignPayload_header [OF assms(2,4,3)] signer_verifies [OF assms(1,5)]
    by (simp add: VerifyPayload_Inr)
qed

lemma receipt_Sign_verifies:
  assumes "good k" "jcs_ok (jcs C)" "utf8_valid kid" "receipt_utf8 r" "receipt_Sign C (Some k) kid r = Inr s"
    and "sgn_Public k = Some p"
  shows "receipt_Verify C p s = Inr r"
proof -
  obtain payload where pl: "receipt_Validate r = Inr ()" "SignPayload C (Some k) kid payload = Inr s"
    "canonical_Encode (jcs C) (json_of_receipt r) = Inr payload"
    using assms(5) by (auto simp: receipt_Sign_def)
  have "DecodeStrict (jcs C) dec_receipt json_of_receipt payload = Inr r"
    using assms(4) receipt_json_safe [OF pl(1)] pl(3) dec_receipt_sorted
    by (intro DecodeStrict_Encode [OF assms(2)]) (auto simp: receipt_utf8_def)
  with SignPayload_verifies [OF assms(1-3) pl(2) assms(6)] pl(1) show ?thesis
    by (simp add: receipt_Verify_Inr)
qed

end

end
