(* ===== verification/Merkle.thy ===== *)
theory Merkle
  imports Digest "HOL-Library.While_Combinator"
begin

text \<open>
  RFC 9162 Merkle trees (\<open>internal/merkle/merkle.go\<close>).  The tree hash and the audit path recurse on
  the largest power of two below the size; \<open>VerifyInclusion\<close> is an unrelated loop over the bits of
  two 64-bit words.  Both are related to the tree seen level by level (\<open>pairup\<close>), which gives the
  completeness and the soundness of verification.
\<close>

section \<open>Definitions\<close>

datatype merkle_error = ErrInvalidProof | IndexOutOfRange

definition leaf_pre :: "bytes \<Rightarrow> bytes" where
  "leaf_pre d = char_of (0 :: nat) # d"

definition node_pre :: "hash \<Rightarrow> hash \<Rightarrow> bytes" where
  "node_pre l r = char_of (1 :: nat) # hash_bytes l @ hash_bytes r"

definition LeafHash :: "hasher \<Rightarrow> bytes \<Rightarrow> hash" where
  "LeafHash H d = H (leaf_pre d)"

definition nodeHash :: "hasher \<Rightarrow> hash \<Rightarrow> hash \<Rightarrow> hash" where
  "nodeHash H l r = H (node_pre l r)"

definition EmptyRoot :: "hasher \<Rightarrow> hash" where
  "EmptyRoot H = H []"

definition split_size :: "nat \<Rightarrow> nat" where
  "split_size n = while (\<lambda>k. k * 2 < n) (\<lambda>k. k * 2) 1"

lemma split_size_spec:
  assumes "1 < n"
  shows "\<exists>j. split_size n = 2 ^ j \<and> 2 ^ j < n \<and> n \<le> 2 * 2 ^ j"
  unfolding split_size_def
proof (rule while_rule [where P = "\<lambda>k. (\<exists>j. k = 2 ^ j) \<and> k < n" and r = "measure (\<lambda>k. n - k)"])
  show "(\<exists>j. 1 = 2 ^ j) \<and> 1 < n" using assms by (auto intro: exI [of _ 0])
next
  fix k :: nat assume "(\<exists>j. k = 2 ^ j) \<and> k < n" "k * 2 < n"
  then show "(\<exists>j. k * 2 = 2 ^ j) \<and> k * 2 < n" by (auto intro: power_Suc2 [symmetric])
next
  fix k :: nat assume "(\<exists>j. k = 2 ^ j) \<and> k < n" "k * 2 < n"
  then have "0 < k" "k * 2 < n" by auto
  then show "(k * 2, k) \<in> measure (\<lambda>k. n - k)" by simp
qed auto

lemma split_size_bounds: "Suc 0 < n \<Longrightarrow> 0 < split_size n \<and> split_size n < n"
  using split_size_spec [of n] by auto

function mth :: "hasher \<Rightarrow> hash list \<Rightarrow> hash" where
  "mth H leaves = (if length leaves \<le> 1 then hd leaves else
     (let k = split_size (length leaves) in nodeHash H (mth H (take k leaves)) (mth H (drop k leaves))))"
  by pat_completeness auto
termination
  by (relation "measure (\<lambda>(H, l). length l)") (auto simp: min_def not_le dest: split_size_bounds)

definition Root :: "hasher \<Rightarrow> hash list \<Rightarrow> hash" where
  "Root H leaves = (if leaves = [] then EmptyRoot H else mth H leaves)"

function merkle_path :: "hasher \<Rightarrow> nat \<Rightarrow> hash list \<Rightarrow> hash list" where
  "merkle_path H m leaves = (if length leaves \<le> 1 then [] else
     (let k = split_size (length leaves) in
      if m < k then merkle_path H m (take k leaves) @ [mth H (drop k leaves)]
      else merkle_path H (m - k) (drop k leaves) @ [mth H (take k leaves)]))"
  by pat_completeness auto
termination
  by (relation "measure (\<lambda>(H, m, l). length l)") (auto simp: min_def not_le dest: split_size_bounds)

definition InclusionProof :: "hasher \<Rightarrow> hash list \<Rightarrow> int \<Rightarrow> merkle_error + hash list" where
  "InclusionProof H leaves m = (if m < 0 \<or> int (length leaves) \<le> m then Inl IndexOutOfRange
     else Inr (merkle_path H (nat m) leaves))"

text \<open>The inner loop \<open>for fn&1 == 0 && fn != 0\<close> and the loop over the proof.\<close>

unbundle bit_operations_syntax

lemma unat_shift1: "unat (drop_bit 1 (w :: 64 word)) = unat w div 2"
  by (simp add: unat_div_distrib drop_bit_eq_div)

function skip_even :: "64 word \<Rightarrow> 64 word \<Rightarrow> 64 word \<times> 64 word" where
  "skip_even fn sn = (if fn AND 1 = 0 \<and> fn \<noteq> 0 then skip_even (drop_bit 1 fn) (drop_bit 1 sn) else (fn, sn))"
  by pat_completeness auto
termination
  by (relation "measure (\<lambda>(fn, sn). unat fn)") (auto simp: unat_shift1 unat_gt_0 simp del: drop_bit_Suc One_nat_def)

fun verify_loop :: "hasher \<Rightarrow> 64 word \<Rightarrow> 64 word \<Rightarrow> hash \<Rightarrow> hash list \<Rightarrow> (64 word \<times> hash) option" where
  "verify_loop H fn sn r [] = Some (sn, r)"
| "verify_loop H fn sn r (p # ps) =
     (if sn = 0 then None
      else if fn AND 1 = 1 \<or> fn = sn then
        (let (fn', sn') = skip_even fn sn
         in verify_loop H (drop_bit 1 fn') (drop_bit 1 sn') (nodeHash H p r) ps)
      else verify_loop H (drop_bit 1 fn) (drop_bit 1 sn) (nodeHash H r p) ps)"

definition VerifyInclusion ::
  "hasher \<Rightarrow> hash \<Rightarrow> 64 word \<Rightarrow> 64 word \<Rightarrow> hash list \<Rightarrow> hash \<Rightarrow> merkle_error + unit" where
  "VerifyInclusion H leaf index n proof root =
     (if n \<le> index then Inl ErrInvalidProof
      else case verify_loop H index (n - 1) leaf proof of
        None \<Rightarrow> Inl ErrInvalidProof
      | Some (sn, r) \<Rightarrow> require (sn = 0 \<and> r = root) ErrInvalidProof)"

definition merkle_Digest :: "hash \<Rightarrow> string" where
  "merkle_Digest h = digest_prefix @ hex_encode (hash_bytes h)"

declare mth.simps [simp del] merkle_path.simps [simp del] skip_even.simps [simp del]

lemma mth_single [simp]: "mth H [x] = x"
  by (subst mth.simps) simp

lemma mth_rec:
  "1 < length l \<Longrightarrow> mth H l = nodeHash H (mth H (take (split_size (length l)) l)) (mth H (drop (split_size (length l)) l))"
  by (subst mth.simps) (simp add: Let_def)

lemma path_single [simp]: "merkle_path H m [x] = []"
  by (subst merkle_path.simps) simp

lemma path_rec:
  assumes "1 < length l"
  shows "merkle_path H m l = (let k = split_size (length l) in
      if m < k then merkle_path H m (take k l) @ [mth H (drop k l)]
      else merkle_path H (m - k) (drop k l) @ [mth H (take k l)])"
  using assms by (subst merkle_path.simps) simp

section \<open>The tree level by level\<close>

text \<open>One level up: adjacent hashes are combined and an odd last one is promoted.\<close>

fun pairup :: "hasher \<Rightarrow> hash list \<Rightarrow> hash list" where
  "pairup H (a # b # r) = nodeHash H a b # pairup H r"
| "pairup H l = l"

lemma length_pairup [simp]: "length (pairup H l) = (length l + 1) div 2"
  by (induction H l rule: pairup.induct) auto

lemma pairup_take: "pairup H (take (2 * k) l) = take k (pairup H l)"
proof (induction k arbitrary: l)
  case (Suc k)
  then show ?case by (cases "(H, l)" rule: pairup.cases) simp_all
qed simp

lemma pairup_drop: "pairup H (drop (2 * k) l) = drop k (pairup H l)"
proof (induction k arbitrary: l)
  case (Suc k)
  then show ?case by (cases "(H, l)" rule: pairup.cases) simp_all
qed simp

lemma pairup_nth:
  "i < (length l + 1) div 2 \<Longrightarrow> pairup H l ! i =
     (if 2 * i + 1 < length l then nodeHash H (l ! (2 * i)) (l ! (2 * i + 1)) else l ! (2 * i))"
proof (induction H l arbitrary: i rule: pairup.induct)
  case (1 H a b r)
  then show ?case by (cases i) auto
qed auto

lemma split_size_unique: "2 ^ j < n \<Longrightarrow> n \<le> 2 * 2 ^ j \<Longrightarrow> split_size n = 2 ^ j"
proof -
  assume j: "2 ^ j < n" "n \<le> 2 * 2 ^ j"
  then have "1 < n" by (meson le_less_trans one_le_numeral one_le_power)
  then obtain i where i: "split_size n = 2 ^ i" "2 ^ i < n" "n \<le> 2 * 2 ^ i"
    using split_size_spec by blast
  have "j < Suc i" by (rule power_less_imp_less_exp [of "2 :: nat"]) (use i j in auto)
  moreover have "i < Suc j" by (rule power_less_imp_less_exp [of "2 :: nat"]) (use i j in auto)
  ultimately have "i = j" by simp
  with i show ?thesis by simp
qed

lemma split_size_half: "2 < n \<Longrightarrow> split_size n = 2 * split_size ((n + 1) div 2)"
proof -
  assume n: "2 < n"
  then have "1 < (n + 1) div 2" by simp
  then obtain j where j: "split_size ((n + 1) div 2) = 2 ^ j" "2 ^ j < (n + 1) div 2" "(n + 1) div 2 \<le> 2 * 2 ^ j"
    using split_size_spec by blast
  then have "2 ^ Suc j < n" "n \<le> 2 * 2 ^ Suc j" by auto
  then show ?thesis using j split_size_unique [of "Suc j" n] by simp
qed

lemma split_size_2 [simp]: "split_size 2 = 1" "split_size (Suc (Suc 0)) = 1"
  using split_size_unique [of 0 2] by (simp_all add: numeral_2_eq_2)

text \<open>The case split on which the level lemmas recurse.\<close>

lemma level_split:
  assumes "2 < length l"
  obtains k where "split_size (length l) = 2 * k" "split_size (length (pairup H l)) = k"
    "0 < k" "2 * k < length l" "k < length (pairup H l)"
proof
  show "split_size (length l) = 2 * split_size ((length l + 1) div 2)"
    using assms by (rule split_size_half)
  show "0 < split_size ((length l + 1) div 2)" "split_size ((length l + 1) div 2) < length (pairup H l)"
    using assms split_size_bounds [of "(length l + 1) div 2"] by auto
  show "2 * split_size ((length l + 1) div 2) < length l"
    using assms split_size_bounds [of "length l"] by (simp add: split_size_half)
qed simp

lemma length2: "length l = 2 \<Longrightarrow> \<exists>a b. l = [a, b]"
  by (cases l; cases "tl l") auto

lemma mth_pairup: "l \<noteq> [] \<Longrightarrow> mth H l = mth H (pairup H l)"
proof (induction "length l" arbitrary: l rule: less_induct)
  case less
  consider x where "l = [x]" | a b where "l = [a, b]" | "2 < length l"
    using less.prems length2 [of l] by (cases l; cases "tl l"; cases "tl (tl l)") auto
  then show ?case
  proof cases
    case 3
    then obtain k where k: "split_size (length l) = 2 * k" "split_size (length (pairup H l)) = k"
      "0 < k" "2 * k < length l" "k < length (pairup H l)" by (rule level_split)
    have "mth H (take (2 * k) l) = mth H (take k (pairup H l))"
      "mth H (drop (2 * k) l) = mth H (drop k (pairup H l))"
      using k less.prems less(1) [of "take (2 * k) l"] less(1) [of "drop (2 * k) l"]
      by (auto simp: pairup_take [symmetric] pairup_drop [symmetric] simp del: length_pairup)
    moreover have "1 < length (pairup H l)" using k by linarith
    ultimately show ?thesis using 3 k by (simp add: mth_rec del: length_pairup)
  qed (simp_all add: mth_rec)
qed

text \<open>The audit path is the sibling on the lowest level, if there is one, and the path of the parent.\<close>

definition sibling :: "nat \<Rightarrow> hash list \<Rightarrow> hash list" where
  "sibling m l = (if m + 1 = length l \<and> even m then [] else [l ! (if even m then m + 1 else m - 1)])"

lemma sibling_take: "m < k \<Longrightarrow> even k \<Longrightarrow> k \<le> length l \<Longrightarrow> sibling m (take k l) = sibling m l"
proof -
  assume a: "m < k" "even k" "k \<le> length l"
  then have "even m \<Longrightarrow> m + 1 < k" by presburger
  with a show ?thesis by (auto simp: sibling_def)
qed

lemma sibling_drop: "k \<le> m \<Longrightarrow> even k \<Longrightarrow> m < length l \<Longrightarrow> sibling (m - k) (drop k l) = sibling m l"
proof -
  assume a: "k \<le> m" "even k" "m < length l"
  then have "odd m \<Longrightarrow> k < m" "even (m - k) = even m" by presburger+
  with a show ?thesis by (auto simp: sibling_def)
qed

lemma path_pairup:
  "m < length l \<Longrightarrow> 1 < length l \<Longrightarrow> merkle_path H m l = sibling m l @ merkle_path H (m div 2) (pairup H l)"
proof (induction "length l" arbitrary: l m rule: less_induct)
  case less
  consider a b where "l = [a, b]" | "2 < length l"
    using less.prems length2 [of l] by fastforce
  then show ?case
  proof cases
    case 1
    with less.prems show ?thesis by (auto simp: path_rec sibling_def Let_def less_2_cases_iff)
  next
    case 2
    then obtain k where k: "split_size (length l) = 2 * k" "split_size (length (pairup H l)) = k"
      "0 < k" "2 * k < length l" "k < length (pairup H l)" by (rule level_split)
    have l: "1 < length (pairup H l)" using k by linarith
    show ?thesis
    proof (cases "m < 2 * k")
      case True
      then have "merkle_path H m (take (2 * k) l)
          = sibling m l @ merkle_path H (m div 2) (take k (pairup H l))"
        using less(1) [of "take (2 * k) l" m] k by (simp add: sibling_take pairup_take)
      moreover have "m div 2 < k" using True by auto
      ultimately show ?thesis using True k l less.prems mth_pairup [of "drop (2 * k) l" H]
        by (simp add: path_rec Let_def pairup_drop del: length_pairup)
    next
      case False
      then have "merkle_path H (m - 2 * k) (drop (2 * k) l)
          = sibling m l @ merkle_path H (m div 2 - k) (drop k (pairup H l))"
      proof (cases "length (drop (2 * k) l) = 1")
        case True
        then obtain x where x: "drop (2 * k) l = [x]" by (auto simp: length_Suc_conv simp del: length_drop)
        then have "drop k (pairup H l) = [x]" by (simp add: pairup_drop [symmetric])
        moreover have "m = 2 * k" "m + 1 = length l" using True False less.prems by auto
        ultimately show ?thesis using x by (simp add: sibling_def)
      next
        case long: False
        have "(m - 2 * k) div 2 = m div 2 - k" by simp
        with less(1) [of "drop (2 * k) l" "m - 2 * k"] k less.prems False long show ?thesis
          by (simp add: sibling_drop pairup_drop)
      qed
      moreover have "\<not> m div 2 < k" "l \<noteq> []" using False k by auto
      ultimately show ?thesis using False k l less.prems mth_pairup [of "take (2 * k) l" H]
        by (simp add: path_rec Let_def pairup_take del: length_pairup)
    qed
  qed
qed

section \<open>Verification against the tree\<close>

lemma even_unat: "even (unat (w :: 64 word)) \<longleftrightarrow> even w"
  using bit_unsigned_iff [where ?'a = nat, of w 0] by (simp add: bit_0)

lemma and1_word:
  "(w :: 64 word) AND 1 = 1 \<longleftrightarrow> odd (unat w)" "w AND 1 = 0 \<longleftrightarrow> even (unat w)"
  by (simp_all add: even_unat and_one_eq mod_2_eq_odd)

lemma skip_even_odd [simp]: "odd (unat fn) \<Longrightarrow> skip_even fn sn = (fn, sn)"
  by (subst skip_even.simps) (simp add: and1_word)

lemma skip_even_even: "even (unat fn) \<Longrightarrow> fn \<noteq> 0 \<Longrightarrow> skip_even fn sn = skip_even (drop_bit 1 fn) (drop_bit 1 sn)"
  by (subst skip_even.simps) (simp add: and1_word)

lemma shift1_nonzero: "even (unat fn) \<Longrightarrow> fn \<noteq> 0 \<Longrightarrow> drop_bit 1 (fn :: 64 word) \<noteq> 0"
  by (auto simp: unat_shift1 simp flip: unat_eq_0 simp del: drop_bit_Suc One_nat_def elim!: evenE)

lemma verify_loop_promoted:
  assumes "even (unat fn)" "fn \<noteq> 0"
  shows "verify_loop H fn fn r (p # ps) = verify_loop H (drop_bit 1 fn) (drop_bit 1 fn) r (p # ps)"
  using assms shift1_nonzero [OF assms] skip_even_even [OF assms, of fn]
  by (simp del: drop_bit_Suc One_nat_def)

text \<open>The strings a verification hashes, and those the tree hash does.\<close>

fun verify_pre :: "hasher \<Rightarrow> 64 word \<Rightarrow> 64 word \<Rightarrow> hash \<Rightarrow> hash list \<Rightarrow> bytes set" where
  "verify_pre H fn sn r [] = {}"
| "verify_pre H fn sn r (p # ps) =
     (if sn = 0 then {}
      else if fn AND 1 = 1 \<or> fn = sn then
        (let (fn', sn') = skip_even fn sn
         in insert (node_pre p r) (verify_pre H (drop_bit 1 fn') (drop_bit 1 sn') (nodeHash H p r) ps))
      else insert (node_pre r p) (verify_pre H (drop_bit 1 fn) (drop_bit 1 sn) (nodeHash H r p) ps))"

function mth_pre :: "hasher \<Rightarrow> hash list \<Rightarrow> bytes set" where
  "mth_pre H l = (if length l \<le> 1 then {} else
     (let k = split_size (length l) in
      insert (node_pre (mth H (take k l)) (mth H (drop k l))) (mth_pre H (take k l) \<union> mth_pre H (drop k l))))"
  by pat_completeness auto
termination
  by (relation "measure (\<lambda>(H, l). length l)") (auto simp: min_def not_le dest: split_size_bounds)

declare mth_pre.simps [simp del]

lemma mth_pre_single [simp]: "mth_pre H [x] = {}"
  by (subst mth_pre.simps) simp

lemma mth_pre_rec:
  assumes "1 < length l"
  shows "mth_pre H l = (let k = split_size (length l) in
      insert (node_pre (mth H (take k l)) (mth H (drop k l))) (mth_pre H (take k l) \<union> mth_pre H (drop k l)))"
  using assms by (subst mth_pre.simps) simp

fun pairup_pre :: "hash list \<Rightarrow> bytes set" where
  "pairup_pre (a # b # r) = insert (node_pre a b) (pairup_pre r)"
| "pairup_pre _ = {}"

lemma pairup_pre_split: "pairup_pre l = pairup_pre (take (2 * k) l) \<union> pairup_pre (drop (2 * k) l)"
proof (induction k arbitrary: l)
  case (Suc k)
  show ?case by (cases l rule: pairup_pre.cases) (use Suc [of "drop 2 l"] in simp_all)
qed simp

lemma pairup_pre_nth: "2 * i + 1 < length l \<Longrightarrow> node_pre (l ! (2 * i)) (l ! (2 * i + 1)) \<in> pairup_pre l"
proof (induction l arbitrary: i rule: pairup_pre.induct)
  case (1 a b r)
  then show ?case by (cases i) auto
qed auto

lemma mth_pre_pairup: "l \<noteq> [] \<Longrightarrow> mth_pre H l = pairup_pre l \<union> mth_pre H (pairup H l)"
proof (induction "length l" arbitrary: l rule: less_induct)
  case less
  consider x where "l = [x]" | a b where "l = [a, b]" | "2 < length l"
    using less.prems length2 [of l] by (cases l; cases "tl l"; cases "tl (tl l)") auto
  then show ?case
  proof cases
    case 3
    then obtain k where k: "split_size (length l) = 2 * k" "split_size (length (pairup H l)) = k"
      "0 < k" "2 * k < length l" "k < length (pairup H l)" by (rule level_split)
    have "mth_pre H (take (2 * k) l) = pairup_pre (take (2 * k) l) \<union> mth_pre H (take k (pairup H l))"
      "mth_pre H (drop (2 * k) l) = pairup_pre (drop (2 * k) l) \<union> mth_pre H (drop k (pairup H l))"
      using k less.prems less(1) [of "take (2 * k) l"] less(1) [of "drop (2 * k) l"]
      by (auto simp: pairup_take [symmetric] pairup_drop [symmetric] simp del: length_pairup)
    moreover have "mth H (take (2 * k) l) = mth H (take k (pairup H l))"
      "mth H (drop (2 * k) l) = mth H (drop k (pairup H l))"
      using k less.prems mth_pairup [of "take (2 * k) l" H] mth_pairup [of "drop (2 * k) l" H]
      by (auto simp: pairup_take pairup_drop)
    moreover have "1 < length (pairup H l)" using k by linarith
    ultimately show ?thesis using 3 k pairup_pre_split [of l k]
      by (auto simp: mth_pre_rec Let_def simp del: length_pairup)
  qed (simp_all add: mth_pre_rec)
qed

text \<open>A position of the loop: \<open>sn\<close> is the last index of the level and \<open>fn\<close> an index of it.\<close>

definition at_level :: "64 word \<Rightarrow> 64 word \<Rightarrow> hash list \<Rightarrow> bool" where
  "at_level fn sn l \<longleftrightarrow> length l = unat sn + 1 \<and> unat fn \<le> unat sn"

lemma at_level_up: "at_level fn sn l \<Longrightarrow> odd (unat fn) \<or> fn \<noteq> sn \<Longrightarrow> sn \<noteq> 0 \<Longrightarrow> even (unat fn) \<longrightarrow> fn \<noteq> sn \<Longrightarrow>
    at_level (drop_bit 1 fn) (drop_bit 1 sn) (pairup H l)"
  by (auto simp: at_level_def unat_shift1 div_le_mono simp del: drop_bit_Suc One_nat_def)

lemma at_level_promoted: "at_level fn fn l \<Longrightarrow> at_level (drop_bit 1 fn) (drop_bit 1 fn) (pairup H l)"
  by (auto simp: at_level_def unat_shift1 simp del: drop_bit_Suc One_nat_def)

text \<open>The three ways a level is left: promoted, combined on the left, combined on the right.\<close>

lemma level_cases:
  assumes "at_level fn sn l"
  obtains (top) "fn = 0" "sn = 0" "length l = 1"
  | (promoted) "fn \<noteq> 0" "fn = sn" "even (unat fn)" "sibling (unat fn) l = []" "1 < length l"
      "at_level (drop_bit 1 fn) (drop_bit 1 fn) (pairup H l)"
      "pairup H l ! unat (drop_bit 1 fn) = l ! unat fn"
  | (left) "sn \<noteq> 0" "odd (unat fn)" "sibling (unat fn) l = [l ! (unat fn - 1)]" "1 < length l"
      "at_level (drop_bit 1 fn) (drop_bit 1 sn) (pairup H l)"
      "pairup H l ! unat (drop_bit 1 fn) = nodeHash H (l ! (unat fn - 1)) (l ! unat fn)"
      "node_pre (l ! (unat fn - 1)) (l ! unat fn) \<in> pairup_pre l"
  | (right) "sn \<noteq> 0" "fn \<noteq> sn" "even (unat fn)" "sibling (unat fn) l = [l ! (unat fn + 1)]" "1 < length l"
      "at_level (drop_bit 1 fn) (drop_bit 1 sn) (pairup H l)"
      "pairup H l ! unat (drop_bit 1 fn) = nodeHash H (l ! unat fn) (l ! (unat fn + 1))"
      "node_pre (l ! unat fn) (l ! (unat fn + 1)) \<in> pairup_pre l"
proof -
  have len: "length l = unat sn + 1" "unat fn \<le> unat sn" using assms by (auto simp: at_level_def)
  have sn: "sn \<noteq> 0 \<Longrightarrow> 0 < unat sn" by (simp add: unat_gt_0)
  consider "sn = 0" | "sn \<noteq> 0" "fn = sn" "even (unat fn)" | "sn \<noteq> 0" "odd (unat fn)"
    | "sn \<noteq> 0" "fn \<noteq> sn" "even (unat fn)" by blast
  then show thesis
  proof cases
    case 1
    with len show thesis by (intro top) (auto simp: unat_eq_0)
  next
    case 2
    then obtain i where i: "unat fn = 2 * i" by (elim evenE)
    have "at_level (drop_bit 1 fn) (drop_bit 1 fn) (pairup H l)"
      using 2 assms by (simp only: at_level_promoted)
    moreover have "sibling (unat fn) l = []" using 2 len by (simp add: sibling_def)
    moreover have "pairup H l ! unat (drop_bit 1 fn) = l ! unat fn"
      using 2 len i unfolding unat_shift1 by (simp add: pairup_nth)
    ultimately show thesis using 2 len sn by (intro promoted) auto
  next
    case 3
    then obtain i where i: "unat fn = 2 * i + 1" by (elim oddE)
    have "at_level (drop_bit 1 fn) (drop_bit 1 sn) (pairup H l)" using 3 assms by (intro at_level_up) auto
    moreover have "sibling (unat fn) l = [l ! (unat fn - 1)]" using 3 by (simp add: sibling_def)
    moreover have "pairup H l ! unat (drop_bit 1 fn) = nodeHash H (l ! (unat fn - 1)) (l ! unat fn)"
      using len i unfolding unat_shift1 by (simp add: pairup_nth)
    moreover have "node_pre (l ! (unat fn - 1)) (l ! unat fn) \<in> pairup_pre l"
      using pairup_pre_nth [of i l] len i by simp
    ultimately show thesis using 3 len sn by (intro left) auto
  next
    case 4
    then obtain i where i: "unat fn = 2 * i" by (elim evenE)
    have ne: "unat fn < unat sn" using 4(2) len(2) by (metis le_neq_implies_less unsigned_word_eqI)
    have "at_level (drop_bit 1 fn) (drop_bit 1 sn) (pairup H l)" using 4 assms by (intro at_level_up) auto
    moreover have "sibling (unat fn) l = [l ! (unat fn + 1)]" using 4 ne len by (simp add: sibling_def)
    moreover have "pairup H l ! unat (drop_bit 1 fn) = nodeHash H (l ! unat fn) (l ! (unat fn + 1))"
      using ne len i unfolding unat_shift1 by (simp add: pairup_nth)
    moreover have "node_pre (l ! unat fn) (l ! (unat fn + 1)) \<in> pairup_pre l"
      using pairup_pre_nth [of i l] ne len i by simp
    ultimately show thesis using 4 ne len sn by (intro right) auto
  qed
qed

lemma verify_loop_path:
  "at_level fn sn l \<Longrightarrow> verify_loop H fn sn (l ! unat fn) (merkle_path H (unat fn) l) = Some (0, mth H l)"
proof (induction "length l" arbitrary: l fn sn rule: less_induct)
  case less
  have ne: "l \<noteq> []" using less.prems by (auto simp: at_level_def)
  from less.prems show ?case
  proof (cases rule: level_cases [where H = H])
    case top
    then obtain x where "l = [x]" by (auto simp: length_Suc_conv)
    with top show ?thesis by simp
  next
    case promoted
    then have "1 < length (pairup H l)"
      using less.prems unat_gt_0 [of fn] by (auto simp: at_level_def elim!: evenE simp del: unat_gt_0)
    then obtain p ps where "merkle_path H (unat fn div 2) (pairup H l) = p # ps"
      by (auto simp: path_rec Let_def neq_Nil_conv simp del: length_pairup)
        (metis append_is_Nil_conv list.exhaust not_Cons_self2)
    with promoted less.hyps [of "pairup H l" "drop_bit 1 fn" "drop_bit 1 fn"] less.prems show ?thesis
      by (simp add: path_pairup mth_pairup [OF ne] verify_loop_promoted unat_shift1 at_level_def
          del: drop_bit_Suc One_nat_def verify_loop.simps)
  next
    case left
    with less.hyps [of "pairup H l" "drop_bit 1 fn" "drop_bit 1 sn"] less.prems show ?thesis
      by (simp add: path_pairup mth_pairup [OF ne] unat_shift1 at_level_def and1_word
          del: drop_bit_Suc One_nat_def)
  next
    case right
    with less.hyps [of "pairup H l" "drop_bit 1 fn" "drop_bit 1 sn"] less.prems show ?thesis
      by (simp add: path_pairup mth_pairup [OF ne] unat_shift1 at_level_def and1_word
          del: drop_bit_Suc One_nat_def)
  qed
qed

lemma node_pre_inj: "node_pre a b = node_pre c d \<longleftrightarrow> a = c \<and> b = d"
  by (auto simp: node_pre_def)

lemma nodeHash_inj:
  "no_collision H A \<Longrightarrow> nodeHash H a b = nodeHash H c d \<Longrightarrow> node_pre a b \<in> A \<Longrightarrow> node_pre c d \<in> A \<Longrightarrow>
    a = c \<and> b = d"
  by (auto simp: nodeHash_def node_pre_inj dest: no_collisionD)

lemma verify_loop_sound:
  assumes "at_level fn sn l" "verify_loop H fn sn r ps = Some (0, mth H l)"
    and "no_collision H (verify_pre H fn sn r ps \<union> mth_pre H l)"
  shows "r = l ! unat fn"
  using assms
proof (induction "length l" arbitrary: l fn sn r ps rule: less_induct)
  case less
  have ne: "l \<noteq> []" using less.prems(1) by (auto simp: at_level_def)
  from less.prems(1) show ?case
  proof (cases rule: level_cases [where H = H])
    case top
    then obtain x where "l = [x]" by (auto simp: length_Suc_conv)
    with top less.prems show ?thesis by (cases ps) auto
  next
    case promoted
    with less.prems(2) obtain p ps' where ps: "ps = p # ps'" by (cases ps) auto
    have "length (pairup H l) < length l" using promoted by auto
    moreover have "verify_pre H fn sn r ps = verify_pre H (drop_bit 1 fn) (drop_bit 1 fn) r ps"
      using promoted shift1_nonzero skip_even_even [of fn fn] by (simp add: ps del: drop_bit_Suc One_nat_def)
    moreover have "no_collision H (verify_pre H fn sn r ps \<union> mth_pre H (pairup H l))"
      using less.prems(3) by (rule no_collision_subset) (auto simp: mth_pre_pairup [OF ne])
    ultimately show ?thesis
      using promoted less.hyps [of "pairup H l" "drop_bit 1 fn" "drop_bit 1 fn" r ps] less.prems
      by (auto simp: ps mth_pairup [OF ne] mth_pre_pairup [OF ne] verify_loop_promoted
          simp del: drop_bit_Suc One_nat_def verify_loop.simps verify_pre.simps elim!: no_collision_subset)
  next
    case left
    with less.prems(2) obtain p ps' where ps: "ps = p # ps'" by (cases ps) auto
    have len: "length (pairup H l) < length l" using left by auto
    have nc: "no_collision H (verify_pre H (drop_bit 1 fn) (drop_bit 1 sn) (nodeHash H p r) ps' \<union> mth_pre H (pairup H l))"
      using less.prems(3) left by (elim no_collision_subset)
        (auto simp: ps and1_word mth_pre_pairup [OF ne] simp del: drop_bit_Suc One_nat_def)
    have "nodeHash H p r = nodeHash H (l ! (unat fn - 1)) (l ! unat fn)"
      using left len nc less.hyps [of "pairup H l" "drop_bit 1 fn" "drop_bit 1 sn" "nodeHash H p r" ps'] less.prems
      by (auto simp: ps mth_pairup [OF ne] and1_word simp del: drop_bit_Suc One_nat_def)
    moreover have "node_pre p r \<in> verify_pre H fn sn r ps" using left by (simp add: ps and1_word)
    moreover have "node_pre (l ! (unat fn - 1)) (l ! unat fn) \<in> mth_pre H l"
      using left mth_pre_pairup [OF ne] by auto
    ultimately show ?thesis using nodeHash_inj [OF less.prems(3)] by blast
  next
    case right
    with less.prems(2) obtain p ps' where ps: "ps = p # ps'" by (cases ps) auto
    have len: "length (pairup H l) < length l" using right by auto
    have nc: "no_collision H (verify_pre H (drop_bit 1 fn) (drop_bit 1 sn) (nodeHash H r p) ps' \<union> mth_pre H (pairup H l))"
      using less.prems(3) right by (elim no_collision_subset)
        (auto simp: ps and1_word mth_pre_pairup [OF ne] simp del: drop_bit_Suc One_nat_def)
    have "nodeHash H r p = nodeHash H (l ! unat fn) (l ! (unat fn + 1))"
      using right len nc less.hyps [of "pairup H l" "drop_bit 1 fn" "drop_bit 1 sn" "nodeHash H r p" ps'] less.prems
      by (auto simp: ps mth_pairup [OF ne] and1_word simp del: drop_bit_Suc One_nat_def)
    moreover have "node_pre r p \<in> verify_pre H fn sn r ps" using right by (simp add: ps and1_word)
    moreover have "node_pre (l ! unat fn) (l ! (unat fn + 1)) \<in> mth_pre H l"
      using right mth_pre_pairup [OF ne] by auto
    ultimately show ?thesis using nodeHash_inj [OF less.prems(3)] by blast
  qed
qed

lemma at_level_leaves:
  "m < length leaves \<Longrightarrow> length leaves < 2 ^ 64 \<Longrightarrow> at_level (of_nat m) (of_nat (length leaves) - 1) leaves"
proof -
  assume m: "m < length leaves" "length leaves < 2 ^ 64"
  then have "of_nat (length leaves) - 1 = (of_nat (length leaves - 1) :: 64 word)" by (simp add: of_nat_diff)
  then have "unat (of_nat (length leaves) - 1 :: 64 word) = length leaves - 1"
    using m by (simp only: unat_of_nat) simp
  with m show ?thesis by (auto simp: at_level_def unat_of_nat)
qed

text \<open>Trees of one size with one root have the same leaves.\<close>

lemma mth_inj:
  "length l = length l' \<Longrightarrow> l \<noteq> [] \<Longrightarrow> mth H l = mth H l' \<Longrightarrow> no_collision H (mth_pre H l \<union> mth_pre H l') \<Longrightarrow> l = l'"
proof (induction "length l" arbitrary: l l' rule: less_induct)
  case less
  show ?case
  proof (cases "length l = 1")
    case True
    then obtain x y where "l = [x]" "l' = [y]" using less.prems(1) by (auto simp: length_Suc_conv)
    with less.prems(3) show ?thesis by simp
  next
    case False
    then have len: "1 < length l" "1 < length l'" using less.prems(1,2) by (cases l; auto)+
    define k where "k = split_size (length l)"
    have k: "0 < k" "k < length l" "split_size (length l') = k"
      using split_size_bounds [of "length l"] len less.prems(1) by (auto simp: k_def)
    have pre: "node_pre (mth H (take k l)) (mth H (drop k l)) \<in> mth_pre H l"
      "node_pre (mth H (take k l')) (mth H (drop k l')) \<in> mth_pre H l'"
      "mth_pre H (take k l) \<union> mth_pre H (drop k l) \<subseteq> mth_pre H l"
      "mth_pre H (take k l') \<union> mth_pre H (drop k l') \<subseteq> mth_pre H l'"
      using mth_pre_rec [OF len(1), of H] mth_pre_rec [OF len(2), of H] k(3)
      by (auto simp: Let_def simp flip: k_def)
    have "nodeHash H (mth H (take k l)) (mth H (drop k l)) = nodeHash H (mth H (take k l')) (mth H (drop k l'))"
      using less.prems(3) mth_rec [OF len(1), of H] mth_rec [OF len(2), of H] k(3) by (simp flip: k_def)
    then have eq: "mth H (take k l) = mth H (take k l')" "mth H (drop k l) = mth H (drop k l')"
      using nodeHash_inj [OF less.prems(4)] pre(1,2) by blast+
    have "take k l = take k l'"
      by (rule less.hyps) (use k len less.prems(1) eq(1) in auto,
        rule no_collision_subset [OF less.prems(4)], use pre(3,4) in blast)
    moreover have "drop k l = drop k l'"
      by (rule less.hyps) (use k len less.prems(1) eq(2) in auto,
        rule no_collision_subset [OF less.prems(4)], use pre(3,4) in blast)
    ultimately show ?thesis by (metis append_take_drop_id)
  qed
qed

text \<open>The strings hashed for the tree over some data.\<close>

definition tree_pre :: "hasher \<Rightarrow> bytes list \<Rightarrow> bytes set" where
  "tree_pre H ds = leaf_pre ` set ds \<union> mth_pre H (map (LeafHash H) ds)"

lemma Root_inj:
  assumes "length ds = length es" "Root H (map (LeafHash H) ds) = Root H (map (LeafHash H) es)"
    and nc: "no_collision H (tree_pre H ds \<union> tree_pre H es)"
  shows "ds = es"
proof (cases "ds = []")
  case False
  have "map (LeafHash H) ds = map (LeafHash H) es"
  proof (rule mth_inj)
    show "mth H (map (LeafHash H) ds) = mth H (map (LeafHash H) es)"
      using assms(1,2) False by (auto simp: Root_def)
    show "no_collision H (mth_pre H (map (LeafHash H) ds) \<union> mth_pre H (map (LeafHash H) es))"
      by (rule no_collision_subset [OF nc]) (auto simp: tree_pre_def)
  qed (use assms(1) False in simp_all)
  moreover have "d = e" if "d \<in> set ds" "e \<in> set es" "LeafHash H d = LeafHash H e" for d e
  proof -
    have "leaf_pre d = leaf_pre e"
      by (rule no_collisionD [OF nc]) (use that in \<open>auto simp: LeafHash_def tree_pre_def\<close>)
    then show "d = e" by (simp add: leaf_pre_def)
  qed
  ultimately show ?thesis using assms(1) by (auto simp: list_eq_iff_nth_eq)
qed (use assms(1) in simp)

definition inclusion_pre :: "hasher \<Rightarrow> hash \<Rightarrow> 64 word \<Rightarrow> 64 word \<Rightarrow> hash list \<Rightarrow> hash list \<Rightarrow> bytes set" where
  "inclusion_pre H leaf index n proof leaves = verify_pre H index (n - 1) leaf proof \<union> mth_pre H leaves"

text \<open>
  an inclusion proof that the code makes for a leaf of a tree of fewer than 2^64 leaves is
  accepted by the bit-level verification loop for that leaf, its index and the root of the tree.
\<close>

theorem VerifyInclusion_complete:
  assumes "InclusionProof H leaves (int m) = Inr proof" "length leaves < 2 ^ 64"
  shows "VerifyInclusion H (leaves ! m) (of_nat m) (of_nat (length leaves)) proof (Root H leaves) = Inr ()"
proof -
  have m: "m < length leaves" "proof = merkle_path H m leaves"
    using assms(1) by (auto simp: InclusionProof_def split: if_splits)
  have "(of_nat m :: 64 word) < of_nat (length leaves)"
    using m assms(2) by (simp add: word_less_nat_alt unat_of_nat)
  with m verify_loop_path [OF at_level_leaves [OF m(1) assms(2)], of H] assms(2) show ?thesis
    by (auto simp: VerifyInclusion_def Root_def unat_of_nat not_le)
qed

text \<open>
  what the loop accepts is in the tree: with the right size and root, a leaf hash it accepts at
  an index is the leaf of the tree at that index, unless two of the strings that the verification
  and the tree hash collide.
\<close>

theorem VerifyInclusion_sound:
  assumes "VerifyInclusion H leaf index n proof (Root H leaves) = Inr ()" "unat n = length leaves"
    and "no_collision H (inclusion_pre H leaf index n proof leaves)"
  shows "unat index < length leaves \<and> leaf = leaves ! unat index"
proof -
  have idx: "index < n" "verify_loop H index (n - 1) leaf proof = Some (0, Root H leaves)"
    using assms(1) by (auto simp: VerifyInclusion_def not_le split: if_splits option.splits)
  then have lt: "unat index < length leaves" using assms(2) by (simp add: word_less_nat_alt)
  then have "unat (n - 1) = length leaves - 1" using assms(2) by (subst unat_minus_one) auto
  with lt have "at_level index (n - 1) leaves" by (auto simp: at_level_def)
  moreover have "Root H leaves = mth H leaves" using lt by (auto simp: Root_def)
  ultimately show ?thesis
    using verify_loop_sound idx(2) assms(3) lt by (auto simp: inclusion_pre_def)
qed

end
