(* ===== verification/Lines.thy ===== *)
theory Lines
  imports Prelude
begin

text \<open>
  Line scanning as \<open>bufio.Scanner\<close> does it with \<open>ScanLines\<close> and a buffer of at most \<open>maxLine\<close>
  bytes, and the sequence of lines that an append-only file of lines reads back as.
\<close>

definition maxLine :: nat where
  "maxLine = 1048576"

definition newline :: char where
  "newline = char_of (10 :: nat)"

definition carriage :: char where
  "carriage = char_of (13 :: nat)"

text \<open>The segments between newlines; the last one only if it is not empty.\<close>

fun segments :: "bytes \<Rightarrow> bytes list" where
  "segments [] = []"
| "segments (c # s) = (if c = newline then [] # segments s
     else case s of [] \<Rightarrow> [[c]]
       | d # t \<Rightarrow> if d = newline then [c] # segments t
          else case segments s of [] \<Rightarrow> [[c]] | l # ls \<Rightarrow> (c # l) # ls)"

definition dropCR :: "bytes \<Rightarrow> bytes" where
  "dropCR l = (if l \<noteq> [] \<and> last l = carriage then butlast l else l)"

text \<open>The tokens, and whether the scanner stopped with \<open>ErrTooLong\<close>.\<close>

definition scan_lines :: "bytes \<Rightarrow> bytes list \<times> bool" where
  "scan_lines b = (let ls = segments b in
     (map dropCR (takeWhile (\<lambda>l. length l < maxLine) ls), list_ex (\<lambda>l. \<not> length l < maxLine) ls))"

text \<open>A line that the scanner reads back as it was written.\<close>

definition plain_line :: "bytes \<Rightarrow> bool" where
  "plain_line l \<longleftrightarrow> newline \<notin> set l \<and> carriage \<notin> set l \<and> length l < maxLine"

definition unlines :: "bytes list \<Rightarrow> bytes" where
  "unlines ls = concat (map (\<lambda>l. l @ [newline]) ls)"

lemma segments_line: "newline \<notin> set l \<Longrightarrow> segments (l @ newline # s) = l # segments s"
proof (induction l)
  case (Cons c l)
  then show ?case by (cases l) auto
qed simp

lemma segments_unlines: "list_all (\<lambda>l. newline \<notin> set l) ls \<Longrightarrow> segments (unlines ls) = ls"
  by (induction ls) (simp_all add: unlines_def segments_line)

lemma dropCR_plain: "plain_line l \<Longrightarrow> dropCR l = l"
  by (auto simp: dropCR_def plain_line_def dest: last_in_set)

lemma map_dropCR_plain: "list_all plain_line ls \<Longrightarrow> map dropCR ls = ls"
  by (induction ls) (simp_all add: dropCR_plain)

lemma scan_unlines:
  assumes "list_all plain_line ls"
  shows "scan_lines (unlines ls) = (ls, False)"
proof -
  have s: "segments (unlines ls) = ls"
    using assms by (intro segments_unlines) (auto simp: list_all_iff plain_line_def)
  have len: "\<forall>l \<in> set ls. length l < maxLine" using assms by (auto simp: list_all_iff plain_line_def)
  then have "takeWhile (\<lambda>l. length l < maxLine) ls = ls" by (simp add: takeWhile_eq_all_conv)
  moreover have "\<not> list_ex (\<lambda>l. \<not> length l < maxLine) ls" using len by (auto simp: list_ex_iff)
  ultimately show ?thesis using assms by (simp only: scan_lines_def s Let_def map_dropCR_plain)
qed

text \<open>Appending a line to a file of complete lines appends it to the lines read.\<close>

definition complete_lines :: "bytes \<Rightarrow> bool" where
  "complete_lines b \<longleftrightarrow> b = [] \<or> last b = newline"

lemma segments_append: "complete_lines a \<Longrightarrow> segments (a @ b) = segments a @ segments b"
proof (induction a rule: segments.induct)
  case (2 c s)
  show ?case
  proof (cases "c = newline")
    case True
    with 2 show ?thesis by (cases s) (auto simp: complete_lines_def)
  next
    case False
    with 2(4) obtain d t where s: "s = d # t" by (cases s) (auto simp: complete_lines_def)
    show ?thesis
    proof (cases "d = newline")
      case True
      with 2(2) [OF False s True] 2(4) False s show ?thesis by (cases t) (auto simp: complete_lines_def)
    next
      case d: False
      have "segments (s @ b) = segments s @ segments b"
        using 2(3) [OF False s d] 2(4) s by (auto simp: complete_lines_def)
      moreover have "segments s \<noteq> []" using s by (auto split: list.splits)
      ultimately show ?thesis using False d s by (auto split: list.splits)
    qed
  qed
qed simp

lemma scan_append_line:
  assumes "complete_lines b" "plain_line l" "scan_lines b = (ls, False)"
  shows "scan_lines (b @ l @ [newline]) = (ls @ [l], False)"
proof -
  have len: "list_all (\<lambda>l. length l < maxLine) (segments b)"
    using assms(3) by (auto simp: scan_lines_def Let_def list_all_iff list_ex_iff)
  have "segments (b @ l @ [newline]) = segments b @ [l]"
    using assms(1,2) segments_line [of l "[]"] by (simp add: segments_append plain_line_def)
  moreover have t: "takeWhile (\<lambda>l. length l < maxLine) (segments b) = segments b"
    using len by (simp only: takeWhile_eq_all_conv list_all_iff)
  have "ls = map dropCR (segments b)" using assms(3) unfolding scan_lines_def Let_def t by simp
  moreover have "length l < maxLine" "dropCR l = l" using assms(2) by (auto simp: plain_line_def dropCR_plain)
  ultimately show ?thesis
    using len by (auto simp: scan_lines_def Let_def takeWhile_append2 list_all_iff list_ex_iff)
qed

text \<open>Lines read back whatever follows them.\<close>

lemma segments_unlines_append: "list_all plain_line ls \<Longrightarrow> segments (unlines ls @ b) = ls @ segments b"
  by (induction ls) (simp_all add: unlines_def segments_line plain_line_def)

lemma scan_unlines_append:
  assumes "list_all plain_line ls"
  shows "scan_lines (unlines ls @ b) = (ls @ fst (scan_lines b), snd (scan_lines b))"
proof -
  have t: "takeWhile (\<lambda>l. length l < maxLine) (ls @ xs) = ls @ takeWhile (\<lambda>l. length l < maxLine) xs" for xs
    using assms by (intro takeWhile_append2) (auto simp: list_all_iff plain_line_def)
  have "\<not> list_ex (\<lambda>l. \<not> length l < maxLine) ls" using assms by (auto simp: list_all_iff list_ex_iff plain_line_def)
  then show ?thesis using assms by (simp add: scan_lines_def Let_def segments_unlines_append t map_dropCR_plain)
qed

end
