(* ===== verification/Checkpoint.thy ===== *)
theory Checkpoint
  imports Envelope Merkle Lines
begin

text \<open>
  Checkpoints over a prefix of a chain: \<open>internal/checkpoint/checkpoint.go\<close> (format, signing,
  building and the schedule) and \<open>internal/checkpoint/anchor.go\<close> (the file anchor and reading it
  back verified).
\<close>

section \<open>Format, signing and verification\<close>

definition checkpoint_Version :: int where
  "checkpoint_Version = 1"

definition checkpoint_Domain :: string where
  "checkpoint_Domain = ''agent-warden/checkpoint/v1''"

record checkpoint =
  c_v :: int
  c_domain :: string
  c_chain_id :: string
  c_size :: int
  c_root :: string
  c_head :: string
  c_ts :: string

datatype checkpoint_error =
  CInvalid string
| CEncode canonical_error
| CEnvelope envelope_error
| NoReceipts
| CUnknownKey string
| CWrongChain
| ErrAnchorOrder
| CTooLong

definition json_of_checkpoint :: "checkpoint \<Rightarrow> json" where
  "json_of_checkpoint c = JObj [(''v'', JInt (c_v c)), (''domain'', JStr (c_domain c)),
     (''chain_id'', JStr (c_chain_id c)), (''size'', JInt (c_size c)), (''root'', JStr (c_root c)),
     (''head'', JStr (c_head c)), (''ts'', JStr (c_ts c))]"

definition dec_checkpoint :: "json \<Rightarrow> checkpoint option" where
  "dec_checkpoint j = do {
     f \<leftarrow> fields_of [''v'', ''domain'', ''chain_id'', ''size'', ''root'', ''head'', ''ts''] j;
     v \<leftarrow> get_int f ''v''; d \<leftarrow> get_str f ''domain''; i \<leftarrow> get_str f ''chain_id''; n \<leftarrow> get_int f ''size'';
     r \<leftarrow> get_str f ''root''; h \<leftarrow> get_str f ''head''; t \<leftarrow> get_str f ''ts'';
     Some \<lparr>c_v = v, c_domain = d, c_chain_id = i, c_size = n, c_root = r, c_head = h, c_ts = t\<rparr> }"

definition checkpoint_Validate :: "checkpoint \<Rightarrow> checkpoint_error + unit" where
  "checkpoint_Validate c =
     (if c_v c \<noteq> checkpoint_Version then Inl (CInvalid ''v'')
      else if c_domain c \<noteq> checkpoint_Domain then Inl (CInvalid ''domain'')
      else if c_chain_id c = [] \<or> length (c_chain_id c) > 256 then Inl (CInvalid ''chain_id'')
      else if list_ex control (runes (c_chain_id c)) then Inl (CInvalid ''chain_id'')
      else if c_size c < 1 \<or> c_size c > MaxSafeInteger then Inl (CInvalid ''size'')
      else if \<not> digest_Valid (c_root c) then Inl (CInvalid ''root'')
      else if \<not> digest_Valid (c_head c) then Inl (CInvalid ''head'')
      else if \<not> valid_ts (c_ts c) then Inl (CInvalid ''ts'')
      else Inr ())"

definition checkpoint_Sign ::
  "'x crypto_scheme \<Rightarrow> signer option \<Rightarrow> string \<Rightarrow> checkpoint \<Rightarrow> checkpoint_error + signed" where
  "checkpoint_Sign C mk kid c =
     ebind (checkpoint_Validate c) (\<lambda>_.
     ebind (map_err CEncode (canonical_Encode (jcs C) (json_of_checkpoint c))) (\<lambda>payload.
     map_err CEnvelope (SignPayload C mk kid payload)))"

definition checkpoint_Verify ::
  "'x crypto_scheme \<Rightarrow> public_key \<Rightarrow> signed \<Rightarrow> checkpoint_error + checkpoint" where
  "checkpoint_Verify C pub s =
     ebind (map_err CEnvelope (VerifyPayload C pub s)) (\<lambda>payload.
     ebind (map_err (\<lambda>_. CEnvelope (ErrMalformed ''payload''))
         (DecodeStrict (jcs C) dec_checkpoint json_of_checkpoint payload)) (\<lambda>c.
     ebind (checkpoint_Validate c) (\<lambda>_. Inr c)))"

section \<open>Builder and schedule\<close>

record builder =
  b_chainID :: string
  b_leaves :: "hash list"
  b_head :: string

definition NewBuilder :: "string \<Rightarrow> builder" where
  "NewBuilder chainID = \<lparr>b_chainID = chainID, b_leaves = [], b_head = []\<rparr>"

definition builder_Add :: "'x crypto_scheme \<Rightarrow> builder \<Rightarrow> bytes \<Rightarrow> builder" where
  "builder_Add C b line = b\<lparr>b_leaves := b_leaves b @ [LeafHash (sha256 C) line],
     b_head := digest_SHA256 (sha256 C) line\<rparr>"

definition builder_Size :: "builder \<Rightarrow> int" where
  "builder_Size b = int (length (b_leaves b))"

definition builder_Checkpoint ::
  "'x crypto_scheme \<Rightarrow> builder \<Rightarrow> string \<Rightarrow> checkpoint_error + checkpoint" where
  "builder_Checkpoint C b ts =
     (if b_leaves b = [] then Inl NoReceipts
      else let c = \<lparr>c_v = checkpoint_Version, c_domain = checkpoint_Domain, c_chain_id = b_chainID b,
             c_size = int (length (b_leaves b)), c_root = merkle_Digest (Root (sha256 C) (b_leaves b)),
             c_head = b_head b, c_ts = ts\<rparr> in
        ebind (checkpoint_Validate c) (\<lambda>_. Inr c))"

text \<open>Durations are nanoseconds; \<open>now.Sub\<close> saturates at 64 bits.\<close>

record checkpoint_policy =
  cp_Every :: int
  cp_Interval :: int

definition DefaultPolicy :: checkpoint_policy where
  "DefaultPolicy = \<lparr>cp_Every = 100, cp_Interval = 60 * ns_per_s\<rparr>"

definition policy_Due :: "checkpoint_policy \<Rightarrow> int \<Rightarrow> int \<Rightarrow> time \<Rightarrow> time \<Rightarrow> bool" where
  "policy_Due p lastSize sz lastAt now =
     (if sz \<le> lastSize then False
      else sz - lastSize \<ge> cp_Every p \<or> sat64 (now - lastAt) \<ge> cp_Interval p)"

section \<open>The anchor\<close>

text \<open>
  The content of an anchor file is its bytes.  \<open>write\<close> is the outcome of the file system: the number
  of bytes a failed write left behind, or \<open>None\<close> when write and sync succeed.
\<close>

definition file_Publish ::
  "'x crypto_scheme \<Rightarrow> bytes \<Rightarrow> signed \<Rightarrow> nat option \<Rightarrow> bool \<times> bytes" where
  "file_Publish C file s write =
     (case signed_Line C s of Inl _ \<Rightarrow> (False, file)
      | Inr line \<Rightarrow> (case write of
          None \<Rightarrow> (True, file @ line @ [newline])
        | Some n \<Rightarrow> (False, file @ take n (line @ [newline]))))"

type_synonym key_resolver = "string \<Rightarrow> public_key option"

definition read_anchor_line ::
  "'x crypto_scheme \<Rightarrow> string \<Rightarrow> key_resolver \<Rightarrow> checkpoint list \<Rightarrow> bytes \<Rightarrow> checkpoint_error + checkpoint list" where
  "read_anchor_line C chainID keys out line =
     ebind (map_err CEnvelope (ParseLine C line)) (\<lambda>s.
     ebind (map_err CEnvelope (signed_KeyID C s)) (\<lambda>kid.
     case keys kid of None \<Rightarrow> Inl (CUnknownKey kid) | Some pub \<Rightarrow>
     ebind (checkpoint_Verify C pub s) (\<lambda>c.
     if c_chain_id c \<noteq> chainID then Inl CWrongChain
     else if out \<noteq> [] \<and> (c_size c \<le> c_size (last out) \<or> c_ts c < c_ts (last out)) then Inl ErrAnchorOrder
     else Inr (out @ [c]))))"

definition ReadVerified ::
  "'x crypto_scheme \<Rightarrow> bytes \<Rightarrow> string \<Rightarrow> key_resolver \<Rightarrow> checkpoint_error + checkpoint list" where
  "ReadVerified C r chainID keys = (let (lines, toolong) = scan_lines r in
     ebind (efold (read_anchor_line C chainID keys) [] lines) (\<lambda>out.
     if toolong then Inl CTooLong else Inr out))"

section \<open>Lemmas\<close>

definition checkpoint_ok :: "checkpoint \<Rightarrow> bool" where
  "checkpoint_ok c \<longleftrightarrow> c_v c = 1 \<and> c_domain c = checkpoint_Domain \<and> id_ok (c_chain_id c) \<and> 1 \<le> c_size c
     \<and> c_size c < 2 ^ 53 \<and> digest_Valid (c_root c) \<and> digest_Valid (c_head c) \<and> valid_ts (c_ts c)"

lemma checkpoint_Validate_Inr [simp]: "checkpoint_Validate c = Inr u \<longleftrightarrow> checkpoint_ok c"
  by (auto simp: checkpoint_Validate_def checkpoint_ok_def checkpoint_Version_def id_ok_def
      list_ex_control MaxSafeInteger_def)

lemma checkpoint_Verify_Inr:
  "checkpoint_Verify C pub s = Inr c \<longleftrightarrow> (\<exists>p. VerifyPayload C pub s = Inr p \<and>
     DecodeStrict (jcs C) dec_checkpoint json_of_checkpoint p = Inr c \<and> checkpoint_ok c)"
  by (auto simp: checkpoint_Verify_def)

lemma dec_checkpoint_sorted:
  "json_safe (json_of_checkpoint c) \<Longrightarrow> dec_checkpoint (sort_json (json_of_checkpoint c)) = Some c"
  unfolding json_of_checkpoint_def dec_checkpoint_def
  by (subst fields_of_sorted) (auto simp: struct_simps)

lemma json_safe_checkpoint: "checkpoint_ok c \<Longrightarrow> json_safe (json_of_checkpoint c)"
  by (simp add: json_of_checkpoint_def checkpoint_ok_def)

context signing
begin

lemma checkpoint_Sign_verifies:
  assumes "good k" "jcs_ok (jcs C)" "utf8_valid kid" "json_ok (json_of_checkpoint c)"
    and "checkpoint_Sign C (Some k) kid c = Inr s" "sgn_Public k = Some p"
  shows "checkpoint_Verify C p s = Inr c"
proof -
  obtain payload where pl: "checkpoint_ok c" "SignPayload C (Some k) kid payload = Inr s"
    "canonical_Encode (jcs C) (json_of_checkpoint c) = Inr payload"
    using assms(5) by (auto simp: checkpoint_Sign_def)
  have "DecodeStrict (jcs C) dec_checkpoint json_of_checkpoint payload = Inr c"
    using assms(4) json_safe_checkpoint [OF pl(1)] pl(3) dec_checkpoint_sorted
    by (intro DecodeStrict_Encode [OF assms(2)]) auto
  with SignPayload_verifies [OF assms(1-3) pl(2) assms(6)] pl(1) show ?thesis
    by (simp add: checkpoint_Verify_Inr)
qed

end

text \<open>The builder over a log: what it has seen determines its checkpoint.\<close>

definition build :: "'x crypto_scheme \<Rightarrow> string \<Rightarrow> bytes list \<Rightarrow> builder" where
  "build C chainID lines = foldl (builder_Add C) (NewBuilder chainID) lines"

lemma build_eq:
  "build C chainID lines = \<lparr>b_chainID = chainID, b_leaves = map (LeafHash (sha256 C)) lines,
     b_head = (if lines = [] then [] else digest_SHA256 (sha256 C) (last lines))\<rparr>"
  unfolding build_def
  by (induction lines rule: rev_induct) (simp_all add: NewBuilder_def builder_Add_def)

definition commits :: "'x crypto_scheme \<Rightarrow> string \<Rightarrow> checkpoint \<Rightarrow> bytes list \<Rightarrow> bool" where
  "commits C chainID c lines \<longleftrightarrow> c_chain_id c = chainID \<and> c_size c = int (length lines) \<and> lines \<noteq> []
     \<and> c_root c = merkle_Digest (Root (sha256 C) (map (LeafHash (sha256 C)) lines))
     \<and> c_head c = digest_SHA256 (sha256 C) (last lines)"

lemma merkle_Digest_eq: "merkle_Digest h = digest_of_hash h"
  by (simp add: merkle_Digest_def digest_of_hash_def)

lemma builder_Checkpoint_commits:
  "builder_Checkpoint C (build C chainID lines) ts = Inr c \<Longrightarrow> commits C chainID c lines \<and> checkpoint_ok c"
  by (auto simp: builder_Checkpoint_def build_eq commits_def Let_def split: if_splits)

lemma builder_Checkpoint_succeeds:
  assumes "lines \<noteq> []" "id_ok chainID" "valid_ts ts" "length lines < 2 ^ 53"
  shows "\<exists>c. builder_Checkpoint C (build C chainID lines) ts = Inr c"
  using assms by (cases lines) (auto simp: builder_Checkpoint_def build_eq checkpoint_ok_def Let_def
      merkle_Digest_eq checkpoint_Version_def)

text \<open>An anchor that reads back verified holds growing checkpoints of the one chain.\<close>

definition anchor_line ::
  "'x crypto_scheme \<Rightarrow> string \<Rightarrow> key_resolver \<Rightarrow> bytes \<Rightarrow> checkpoint \<Rightarrow> bool" where
  "anchor_line C chainID keys l c \<longleftrightarrow> (\<exists>s kid pub. ParseLine C l = Inr s \<and> signed_KeyID C s = Inr kid \<and>
     keys kid = Some pub \<and> checkpoint_Verify C pub s = Inr c \<and> c_chain_id c = chainID)"

definition cp_before :: "checkpoint \<Rightarrow> checkpoint \<Rightarrow> bool" where
  "cp_before a b \<longleftrightarrow> c_size a < c_size b \<and> c_ts a \<le> c_ts b"

definition anchored :: "'x crypto_scheme \<Rightarrow> string \<Rightarrow> key_resolver \<Rightarrow> bytes list \<Rightarrow> checkpoint list \<Rightarrow> bool" where
  "anchored C chainID keys lines cps \<longleftrightarrow>
     list_all2 (anchor_line C chainID keys) lines cps \<and> sorted_wrt cp_before cps"

lemma sorted_wrt_snoc:
  assumes "\<And>x y z. R x y \<Longrightarrow> R y z \<Longrightarrow> R x z"
  shows "sorted_wrt R (xs @ [c]) \<longleftrightarrow> sorted_wrt R xs \<and> (xs \<noteq> [] \<longrightarrow> R (last xs) c)"
  by (induction xs) (auto intro: assms)

lemma cp_before_trans: "cp_before a b \<Longrightarrow> cp_before b c \<Longrightarrow> cp_before a c"
  by (auto simp: cp_before_def)

lemma read_anchor_line_Inr:
  "read_anchor_line C chainID keys out line = Inr out' \<longleftrightarrow> (\<exists>c. anchor_line C chainID keys line c \<and>
     (out \<noteq> [] \<longrightarrow> cp_before (last out) c) \<and> out' = out @ [c])"
  by (auto simp: read_anchor_line_def anchor_line_def cp_before_def not_le not_less)

lemma anchored_snoc:
  assumes "anchored C chainID keys lines out" "read_anchor_line C chainID keys out line = Inr out'"
  shows "anchored C chainID keys (lines @ [line]) out'"
proof -
  obtain c where "anchor_line C chainID keys line c" "out \<noteq> [] \<longrightarrow> cp_before (last out) c" "out' = out @ [c]"
    using assms(2) unfolding read_anchor_line_Inr by blast
  with assms(1) show ?thesis
    using sorted_wrt_snoc [of cp_before out c] cp_before_trans
    by (auto simp: anchored_def intro: list_all2_appendI)
qed

lemma efold_read_anchor:
  "efold (read_anchor_line C chainID keys) [] lines = Inr cps \<Longrightarrow> anchored C chainID keys lines cps"
  by (rule efold_invariant [where I = "\<lambda>ls out. anchored C chainID keys ls out"])
    (assumption, simp add: anchored_def, rule anchored_snoc)

lemma ReadVerified_Inr:
  "ReadVerified C r chainID keys = Inr cps \<longleftrightarrow> \<not> snd (scan_lines r) \<and>
     efold (read_anchor_line C chainID keys) [] (fst (scan_lines r)) = Inr cps"
  by (auto simp: ReadVerified_def split: prod.splits)

lemma ReadVerified_anchored:
  "ReadVerified C r chainID keys = Inr cps \<Longrightarrow> anchored C chainID keys (fst (scan_lines r)) cps"
  by (simp add: ReadVerified_Inr efold_read_anchor)

end
