(* ===== verification/Chain.thy ===== *)
theory Chain
  imports Checkpoint
begin

text \<open>
  The hash chain and its writer (\<open>internal/chain/chain.go\<close>): genesis parameters, the appender as a
  state that is passed and returned, and resuming it.
\<close>

section \<open>Genesis parameters\<close>

definition GenesisDomain :: string where
  "GenesisDomain = ''agent-warden/genesis/v1''"

record chain_params =
  p_domain :: string
  p_chain_id :: string
  p_alg :: string
  p_alg_ref :: string
  p_kid :: string
  p_key :: string

definition json_of_params :: "chain_params \<Rightarrow> json" where
  "json_of_params p = JObj [(''domain'', JStr (p_domain p)), (''chain_id'', JStr (p_chain_id p)),
     (''alg'', JStr (p_alg p)), (''alg_ref'', JStr (p_alg_ref p)), (''kid'', JStr (p_kid p)),
     (''key'', JStr (p_key p))]"

definition NewParams :: "'x crypto_scheme \<Rightarrow> string \<Rightarrow> string \<Rightarrow> public_key \<Rightarrow> chain_params" where
  "NewParams C chainID kid pub = \<lparr>p_domain = GenesisDomain, p_chain_id = chainID, p_alg = Alg,
     p_alg_ref = AlgRef, p_kid = kid, p_key = digest_SHA256 (sha256 C) (pub_Bytes pub)\<rparr>"

definition GenesisPrev :: "'x crypto_scheme \<Rightarrow> chain_params \<Rightarrow> canonical_error + string" where
  "GenesisPrev C p = ebind (canonical_Encode (jcs C) (json_of_params p)) (\<lambda>b.
     Inr (digest_SHA256 (sha256 C) b))"

section \<open>The appender\<close>

datatype chain_error =
  ChainNoKey
| ChainEncode canonical_error
| ResumeGenesis
| ResumeRange
| ResumePrev
| ResumeTS
| SeqExhausted
| ErrTimeRegression
| AppendSign envelope_error

record appender =
  ap_key :: "signer option"
  ap_kid :: string
  ap_chainID :: string
  ap_next :: int
  ap_prev :: string
  ap_lastTS :: string

record chain_state =
  st_Next :: int
  st_Prev :: string
  st_LastTS :: string

definition signer_public :: "signer option \<Rightarrow> public_key option" where
  "signer_public mk = (case mk of None \<Rightarrow> None | Some k \<Rightarrow> sgn_Public k)"

definition NewAppender ::
  "'x crypto_scheme \<Rightarrow> signer option \<Rightarrow> string \<Rightarrow> string \<Rightarrow> chain_error + appender" where
  "NewAppender C key kid chainID =
     (case signer_public key of None \<Rightarrow> Inl ChainNoKey | Some pub \<Rightarrow>
      ebind (map_err ChainEncode (GenesisPrev C (NewParams C chainID kid pub))) (\<lambda>prev.
      Inr \<lparr>ap_key = key, ap_kid = kid, ap_chainID = chainID, ap_next = 0, ap_prev = prev, ap_lastTS = []\<rparr>))"

definition appender_State :: "appender \<Rightarrow> chain_state" where
  "appender_State a = \<lparr>st_Next = ap_next a, st_Prev = ap_prev a, st_LastTS = ap_lastTS a\<rparr>"

definition ResumeAppender ::
  "'x crypto_scheme \<Rightarrow> signer option \<Rightarrow> string \<Rightarrow> string \<Rightarrow> chain_state \<Rightarrow> chain_error + appender" where
  "ResumeAppender C key kid chainID st =
     ebind (NewAppender C key kid chainID) (\<lambda>a.
     if st_Next st = 0 then
       (if st_Prev st \<noteq> ap_prev a \<or> st_LastTS st \<noteq> [] then Inl ResumeGenesis else Inr a)
     else if st_Next st < 0 \<or> st_Next st > MaxSeq + 1 then Inl ResumeRange
     else if \<not> digest_Valid (st_Prev st) then Inl ResumePrev
     else if st_LastTS st = [] then Inl ResumeTS
     else Inr (a\<lparr>ap_next := st_Next st, ap_prev := st_Prev st, ap_lastTS := st_LastTS st\<rparr>))"

definition fill :: "appender \<Rightarrow> receipt \<Rightarrow> receipt" where
  "fill a r = r\<lparr>r_chain_id := ap_chainID a, r_seq := ap_next a, r_prev := ap_prev a\<rparr>"

definition Append ::
  "'x crypto_scheme \<Rightarrow> appender \<Rightarrow> receipt \<Rightarrow> appender \<times> (chain_error + signed \<times> bytes)" where
  "Append C a r =
     (if ap_next a > MaxSeq then (a, Inl SeqExhausted)
      else if r_ts r < ap_lastTS a then (a, Inl ErrTimeRegression)
      else case receipt_Sign C (ap_key a) (ap_kid a) (fill a r) of
        Inl e \<Rightarrow> (a, Inl (AppendSign e))
      | Inr s \<Rightarrow> (case signed_Line C s of
          Inl e \<Rightarrow> (a, Inl (ChainEncode e))
        | Inr line \<Rightarrow>
            (a\<lparr>ap_prev := digest_SHA256 (sha256 C) line, ap_lastTS := r_ts r, ap_next := ap_next a + 1\<rparr>,
             Inr (s, line))))"

section \<open>Lemmas\<close>

lemma GenesisPrev_valid: "GenesisPrev C p = Inr d \<Longrightarrow> digest_Valid d"
  by (auto simp: GenesisPrev_def)

lemma Append_error: "Append C a r = (a', Inl e) \<Longrightarrow> a' = a"
  by (auto simp: Append_def split: if_splits sum.splits)

lemma Append_Inr:
  "Append C a r = (a', Inr (s, line)) \<longleftrightarrow> ap_next a \<le> MaxSeq \<and> ap_lastTS a \<le> r_ts r \<and>
     receipt_Sign C (ap_key a) (ap_kid a) (fill a r) = Inr s \<and> signed_Line C s = Inr line \<and>
     a' = a\<lparr>ap_prev := digest_SHA256 (sha256 C) line, ap_lastTS := r_ts r, ap_next := ap_next a + 1\<rparr>"
  by (auto simp: Append_def split: sum.splits)

text \<open>What holds of an appender between calls.\<close>

definition appender_ok :: "appender \<Rightarrow> bool" where
  "appender_ok a \<longleftrightarrow> 0 \<le> ap_next a \<and> ap_next a \<le> MaxSeq + 1 \<and> digest_Valid (ap_prev a)
     \<and> (ap_next a \<noteq> 0 \<longrightarrow> ap_lastTS a \<noteq> []) \<and> (ap_next a = 0 \<longrightarrow> ap_lastTS a = [])"

lemma NewAppender_ok: "NewAppender C key kid chainID = Inr a \<Longrightarrow> appender_ok a"
  by (auto simp: NewAppender_def appender_ok_def MaxSeq_def MaxSafeInteger_def GenesisPrev_valid)

lemma valid_ts_nonempty: "valid_ts t \<Longrightarrow> t \<noteq> []"
  by (auto simp: valid_ts_iff fmt_civil_def)

lemma Append_ok: "appender_ok a \<Longrightarrow> Append C a r = (a', x) \<Longrightarrow> appender_ok a'"
proof (cases x)
  case (Inl e)
  then show "appender_ok a \<Longrightarrow> Append C a r = (a', x) \<Longrightarrow> appender_ok a'" by (auto dest: Append_error)
next
  case (Inr sl)
  obtain s line where sl: "sl = (s, line)" by (cases sl)
  assume a: "appender_ok a" "Append C a r = (a', x)"
  then have "receipt_Validate (fill a r) = Inr ()" by (auto simp: Inr sl Append_Inr receipt_Sign_def)
  then have "valid_ts (r_ts r)" by (auto dest!: Validate_header simp: header_ok_def fill_def)
  with a show "appender_ok a'" by (auto simp: Inr sl Append_Inr appender_ok_def valid_ts_nonempty)
qed

text \<open>The state of an appender is all that a restart needs.\<close>

lemma ResumeAppender_State:
  assumes "NewAppender C (ap_key a) (ap_kid a) (ap_chainID a) = Inr a0" "appender_ok a"
    and "ap_next a = 0 \<longrightarrow> ap_prev a = ap_prev a0"
  shows "ResumeAppender C (ap_key a) (ap_kid a) (ap_chainID a) (appender_State a) = Inr a"
proof -
  have a0: "ap_key a0 = ap_key a" "ap_kid a0 = ap_kid a" "ap_chainID a0 = ap_chainID a" "ap_next a0 = 0"
    "ap_lastTS a0 = []"
    using assms(1) by (auto simp: NewAppender_def)
  show ?thesis
  proof (cases "ap_next a = 0")
    case True
    with a0 assms show ?thesis
      by (simp add: ResumeAppender_def appender_State_def appender_ok_def)
  next
    case False
    have "a0\<lparr>ap_next := ap_next a, ap_prev := ap_prev a, ap_lastTS := ap_lastTS a\<rparr> = a" using a0 by simp
    with False assms show ?thesis by (simp add: ResumeAppender_def appender_State_def appender_ok_def)
  qed
qed

lemma dropped_append:
  "Append C a r = (a', Inr (s, line)) \<Longrightarrow> ap_key a' = ap_key a \<and> ap_kid a' = ap_kid a \<and> ap_chainID a' = ap_chainID a
     \<and> ap_next a' = ap_next a + 1"
  by (simp add: Append_Inr)

end
