(* ===== verification/Verify.thy ===== *)
theory Verify
  imports Chain
begin

text \<open>
  Verification of a receipt log (\<open>internal/chain/verify.go\<close>).  \<open>VerifyAll\<close> is a loop over the lines
  with the local variables of the source as its state; \<open>Keys\<close> is an interface whose implementations
  have a state of their own, of type \<open>'k\<close>, which \<open>Accept\<close> may change.  A nil dereference or a slice
  out of range is the reason \<open>Panic\<close>.
\<close>

section \<open>Types\<close>

datatype reason = EmptyLog | Malformed | UnknownKey | BadSignature | InvalidReceipt | WrongChain | SeqGap
  | ChainBreak | TimeRegression | BadReference | DuplicateResult | DeniedCallExecuted | MissingApproval
  | CheckpointMismatch | DuplicateApproval | SelfApproval | RejectedCallExecuted | ApprovalExpired
  | WrongKey | BadRotation | UncertifiedKey | RevokedKey | Panic

record failure =
  f_Line :: int
  f_Seq :: int
  f_Reason :: reason

record 'k keys =
  k_Resolve :: "'k \<Rightarrow> string \<Rightarrow> public_key option"
  k_Accept :: "'k \<Rightarrow> string \<Rightarrow> string \<Rightarrow> bytes \<Rightarrow> time \<Rightarrow> 'k option"

text \<open>\<open>StaticKeys\<close>: a resolver that can never learn another key.\<close>

definition StaticKeys :: "key_resolver \<Rightarrow> unit keys" where
  "StaticKeys resolve = \<lparr>k_Resolve = (\<lambda>_. resolve), k_Accept = (\<lambda>_ _ _ _ _. None)\<rparr>"

record handover =
  kh_Seq :: int
  kh_TS :: string
  kh_From :: string
  kh_To :: string
  kh_Reason :: string

record report =
  rep_ChainID :: string
  rep_Receipts :: int
  rep_LastSeq :: int
  rep_Head :: string
  rep_OpenDecisions :: "int list"
  rep_Checkpointed :: int
  rep_Unanchored :: int
  rep_Rotations :: "handover list"

record revoked =
  rv_Kid :: string
  rv_EffectiveSize :: int

record decision_info =
  di_taskID :: string
  di_actor :: actor
  di_call :: call
  di_result :: string
  di_resulted :: bool
  di_approval :: "approval option"

record 'k verify_state =
  v_lineNo :: int
  v_seq :: int
  v_prev :: string
  v_lastTS :: string
  v_signer :: string
  v_rotations :: "handover list"
  v_leaves :: "hash list"
  v_decisions :: "int \<rightharpoonup> decision_info"
  v_heads :: "int \<rightharpoonup> string"
  v_keys :: 'k

definition sameCall :: "decision_info \<Rightarrow> receipt \<Rightarrow> bool" where
  "sameCall d r \<longleftrightarrow> di_taskID d = r_task_id r \<and> Some (di_actor d) = r_actor r \<and> Some (di_call d) = r_call r"

section \<open>One line\<close>

text \<open>Decoding and authenticating a line: the receipt, the key ID and the key.\<close>

definition verify_reason :: "envelope_error \<Rightarrow> reason" where
  "verify_reason e = (case e of ErrBadSignature \<Rightarrow> BadSignature | ReceiptErr _ \<Rightarrow> InvalidReceipt | _ \<Rightarrow> Malformed)"

definition open_line ::
  "'x crypto_scheme \<Rightarrow> (string \<Rightarrow> public_key option) \<Rightarrow> bytes \<Rightarrow> reason + string \<times> public_key \<times> receipt" where
  "open_line C resolve line =
     ebind (map_err (\<lambda>_. Malformed) (ParseLine C line)) (\<lambda>s.
     ebind (map_err (\<lambda>_. Malformed) (signed_KeyID C s)) (\<lambda>kid.
     ebind (of_option UnknownKey (resolve kid)) (\<lambda>pub.
     ebind (map_err verify_reason (receipt_Verify C pub s)) (\<lambda>r. Inr (kid, pub, r)))))"

text \<open>Membership, sequence, linkage, time order, the one signing key, revocations.\<close>

definition check_link ::
  "'x crypto_scheme \<Rightarrow> string \<Rightarrow> revoked list \<Rightarrow> 'k verify_state \<Rightarrow> string \<Rightarrow> public_key \<Rightarrow> receipt \<Rightarrow> reason + string" where
  "check_link C chainID revs st kid pub r =
     (if r_chain_id r \<noteq> chainID then Inl WrongChain
      else if r_seq r \<noteq> v_seq st then Inl SeqGap
      else ebind (if v_seq st = 0 then map_err (\<lambda>_. Malformed) (GenesisPrev C (NewParams C chainID kid pub))
                  else Inr (v_prev st)) (\<lambda>prev.
      if r_prev r \<noteq> prev then Inl ChainBreak
      else if r_ts r < v_lastTS st then Inl TimeRegression
      else if v_seq st \<noteq> 0 \<and> kid \<noteq> v_signer st then Inl WrongKey
      else if list_ex (\<lambda>rev. rv_Kid rev = kid \<and> v_seq st \<ge> rv_EffectiveSize rev) revs then Inl RevokedKey
      else Inr (if v_seq st = 0 then kid else v_signer st)))"

definition check_decision :: "'k verify_state \<Rightarrow> receipt \<Rightarrow> reason + (int \<rightharpoonup> decision_info)" where
  "check_decision st r =
     (case (r_actor r, r_call r, r_decision r) of
        (Some a, Some c, Some d) \<Rightarrow> Inr ((v_decisions st)(v_seq st \<mapsto>
          \<lparr>di_taskID = r_task_id r, di_actor = a, di_call = c, di_result = d_result d, di_resulted = False,
           di_approval = None\<rparr>))
      | _ \<Rightarrow> Inl Panic)"

definition check_approval :: "'k verify_state \<Rightarrow> receipt \<Rightarrow> reason + (int \<rightharpoonup> decision_info)" where
  "check_approval st r =
     (case r_approval r of None \<Rightarrow> Inl Panic | Some a \<Rightarrow>
      case v_decisions st (a_decision_seq a) of None \<Rightarrow> Inl BadReference | Some d \<Rightarrow>
      if di_result d \<noteq> RequireApproval then Inl BadReference
      else if \<not> sameCall d r then Inl BadReference
      else if di_approval d \<noteq> None then Inl DuplicateApproval
      else if di_resulted d then Inl BadReference
      else if a_approver a = principal (di_actor d) then Inl SelfApproval
      else Inr ((v_decisions st)(a_decision_seq a \<mapsto> d\<lparr>di_approval := Some a\<rparr>)))"

definition check_result :: "'k verify_state \<Rightarrow> receipt \<Rightarrow> reason + (int \<rightharpoonup> decision_info)" where
  "check_result st r =
     (case r_result r of None \<Rightarrow> Inl Panic | Some x \<Rightarrow>
      case v_decisions st (res_decision_seq x) of None \<Rightarrow> Inl BadReference | Some d \<Rightarrow>
      if \<not> sameCall d r then Inl BadReference
      else if di_resulted d then Inl DuplicateResult
      else if di_result d = Deny then Inl DeniedCallExecuted
      else if di_result d = RequireApproval then
        (case di_approval d of None \<Rightarrow> Inl MissingApproval | Some a \<Rightarrow>
         if a_outcome a \<noteq> Approved then Inl RejectedCallExecuted
         else if r_ts r > a_expires_ts a then Inl ApprovalExpired
         else Inr ((v_decisions st)(res_decision_seq x \<mapsto> d\<lparr>di_resulted := True\<rparr>)))
      else Inr ((v_decisions st)(res_decision_seq x \<mapsto> d\<lparr>di_resulted := True\<rparr>)))"

definition check_rotation ::
  "'k keys \<Rightarrow> 'k verify_state \<Rightarrow> string \<Rightarrow> receipt \<Rightarrow> reason + 'k \<times> handover" where
  "check_rotation K st kid r =
     (case r_rotation r of None \<Rightarrow> Inl Panic | Some rot \<Rightarrow>
      if rot_from rot \<noteq> kid then Inl BadRotation
      else ebind (of_option BadRotation (b64_decode (rot_certificate rot))) (\<lambda>cert.
      ebind (of_option BadRotation (parse_ts (r_ts r))) (\<lambda>at'.
      ebind (of_option UncertifiedKey (k_Accept K (v_keys st) (rot_to rot) (rot_key rot) cert at')) (\<lambda>keys'.
      Inr (keys', \<lparr>kh_Seq = v_seq st, kh_TS = r_ts r, kh_From = rot_from rot, kh_To = rot_to rot,
        kh_Reason = rot_reason rot\<rparr>)))))"

text \<open>The switch on the type: new decisions, keys, signer and handovers.\<close>

definition check_body ::
  "'k keys \<Rightarrow> 'k verify_state \<Rightarrow> string \<Rightarrow> string \<Rightarrow> receipt \<Rightarrow> reason + 'k verify_state" where
  "check_body K st kid signer r =
     (if r_type r = TypeDecision then
        ebind (check_decision st r) (\<lambda>ds. Inr (st\<lparr>v_decisions := ds, v_signer := signer\<rparr>))
      else if r_type r = TypeApproval then
        ebind (check_approval st r) (\<lambda>ds. Inr (st\<lparr>v_decisions := ds, v_signer := signer\<rparr>))
      else if r_type r = TypeResult then
        ebind (check_result st r) (\<lambda>ds. Inr (st\<lparr>v_decisions := ds, v_signer := signer\<rparr>))
      else if r_type r = TypeKeyRotation then
        ebind (check_rotation K st kid r) (\<lambda>(ks, h). Inr (st\<lparr>v_keys := ks, v_signer := kh_To h,
          v_rotations := v_rotations st @ [h]\<rparr>))
      else Inr (st\<lparr>v_signer := signer\<rparr>))"

definition finish_line :: "'x crypto_scheme \<Rightarrow> bytes \<Rightarrow> receipt \<Rightarrow> 'k verify_state \<Rightarrow> 'k verify_state" where
  "finish_line C line r st = (let prev = digest_SHA256 (sha256 C) line; sq = v_seq st in
     st\<lparr>v_prev := prev, v_leaves := v_leaves st @ [LeafHash (sha256 C) line],
        v_heads := (if v_heads st (sq + 1) \<noteq> None then (v_heads st)(sq + 1 \<mapsto> prev) else v_heads st),
        v_lastTS := r_ts r, v_seq := sq + 1\<rparr>)"

definition verify_line ::
  "'x crypto_scheme \<Rightarrow> 'k keys \<Rightarrow> string \<Rightarrow> revoked list \<Rightarrow> 'k verify_state \<Rightarrow> bytes \<Rightarrow> failure + 'k verify_state" where
  "verify_line C K chainID revs st0 line = (let st = st0\<lparr>v_lineNo := v_lineNo st0 + 1\<rparr> in
     map_err (\<lambda>why. \<lparr>f_Line = v_lineNo st, f_Seq = v_seq st, f_Reason = why\<rparr>)
       (ebind (open_line C (k_Resolve K (v_keys st)) line) (\<lambda>(kid, pub, r).
        ebind (check_link C chainID revs st kid pub r) (\<lambda>signer.
        ebind (check_body K st kid signer r) (\<lambda>st'. Inr (finish_line C line r st'))))))"

section \<open>The whole log\<close>

definition init_heads :: "checkpoint list \<Rightarrow> int \<rightharpoonup> string" where
  "init_heads cps = foldl (\<lambda>m c. m(c_size c \<mapsto> [])) Map.empty cps"

definition init_state :: "checkpoint list \<Rightarrow> 'k \<Rightarrow> 'k verify_state" where
  "init_state cps ks = \<lparr>v_lineNo = 0, v_seq = 0, v_prev = [], v_lastTS = [], v_signer = [], v_rotations = [],
     v_leaves = [], v_decisions = Map.empty, v_heads = init_heads cps, v_keys = ks\<rparr>"

text \<open>The checkpoints in order of size; each must match the prefix of its size.\<close>

definition check_checkpoint ::
  "'x crypto_scheme \<Rightarrow> string \<Rightarrow> 'k verify_state \<Rightarrow> int \<Rightarrow> checkpoint \<Rightarrow> failure + int" where
  "check_checkpoint C chainID st covered c =
     (if c_chain_id c \<noteq> chainID then Inl \<lparr>f_Line = 0, f_Seq = 0, f_Reason = CheckpointMismatch\<rparr>
      else if c_size c > v_lineNo st
        then Inl \<lparr>f_Line = v_lineNo st + 1, f_Seq = v_lineNo st, f_Reason = CheckpointMismatch\<rparr>
      else if c_size c < 0 then Inl \<lparr>f_Line = 0, f_Seq = 0, f_Reason = Panic\<rparr>
      else if merkle_Digest (Root (sha256 C) (take (nat (c_size c)) (v_leaves st))) \<noteq> c_root c
          \<or> v_heads st (c_size c) \<noteq> Some (c_head c)
        then Inl \<lparr>f_Line = c_size c, f_Seq = c_size c - 1, f_Reason = CheckpointMismatch\<rparr>
      else Inr (c_size c))"

definition open_decisions :: "'k verify_state \<Rightarrow> int list" where
  "open_decisions st = filter (\<lambda>s. case v_decisions st s of None \<Rightarrow> False
     | Some d \<Rightarrow> di_result d = Allow \<and> \<not> di_resulted d) (map int [0..<nat (v_seq st)])"

text \<open>
  The final key state is returned as well, because the keys a caller passes are shared with it.  The
  order of checkpoints of equal size, which \<open>slices.SortFunc\<close> leaves open, is that of the argument.
\<close>

definition VerifyAll ::
  "'x crypto_scheme \<Rightarrow> bytes \<Rightarrow> string \<Rightarrow> 'k keys \<Rightarrow> 'k \<Rightarrow> checkpoint list \<Rightarrow> revoked list \<Rightarrow> failure + report \<times> 'k" where
  "VerifyAll C log chainID K ks cps revs = (let (lines, toolong) = scan_lines log in
     ebind (efold (verify_line C K chainID revs) (init_state cps ks) lines) (\<lambda>st.
     if toolong then Inl \<lparr>f_Line = v_lineNo st + 1, f_Seq = v_seq st, f_Reason = Malformed\<rparr>
     else if v_lineNo st = 0 then Inl \<lparr>f_Line = 0, f_Seq = 0, f_Reason = EmptyLog\<rparr>
     else ebind (efold (check_checkpoint C chainID st) 0 (sort_key c_size cps)) (\<lambda>covered.
     Inr (\<lparr>rep_ChainID = chainID, rep_Receipts = v_lineNo st, rep_LastSeq = v_seq st - 1, rep_Head = v_prev st,
          rep_OpenDecisions = open_decisions st, rep_Checkpointed = covered,
          rep_Unanchored = v_lineNo st - covered, rep_Rotations = v_rotations st\<rparr>, v_keys st))))"

definition VerifyWithKeys ::
  "'x crypto_scheme \<Rightarrow> bytes \<Rightarrow> string \<Rightarrow> 'k keys \<Rightarrow> 'k \<Rightarrow> checkpoint list \<Rightarrow> failure + report \<times> 'k" where
  "VerifyWithKeys C log chainID K ks cps = VerifyAll C log chainID K ks cps []"

definition VerifyWithCheckpoints ::
  "'x crypto_scheme \<Rightarrow> bytes \<Rightarrow> string \<Rightarrow> key_resolver \<Rightarrow> checkpoint list \<Rightarrow> failure + report \<times> unit" where
  "VerifyWithCheckpoints C log chainID keys cps = VerifyWithKeys C log chainID (StaticKeys keys) () cps"

definition Verify_log ::
  "'x crypto_scheme \<Rightarrow> bytes \<Rightarrow> string \<Rightarrow> key_resolver \<Rightarrow> failure + report \<times> unit" where
  "Verify_log C log chainID keys = VerifyWithCheckpoints C log chainID keys []"

end
