(* ===== verification/LogSpec.thy ===== *)
theory LogSpec
  imports Verify
begin

text \<open>
  What a verified log is, without the loop: a sequence of authenticated receipts each of which is
  admissible after the ones before it.  The first part states admissibility over the receipts
  themselves; the second shows that the loop of \<open>VerifyAll\<close> accepts exactly these logs and that its
  local variables are the functions of the log named here.
\<close>

section \<open>Admissible receipts\<close>

record entry =
  e_line :: bytes
  e_kid :: string
  e_pub :: public_key
  e_rcpt :: receipt

text \<open>The receipt of a decision, the results and approvals that refer to it.\<close>

definition decision_at :: "entry list \<Rightarrow> int \<Rightarrow> receipt option" where
  "decision_at es j = (if 0 \<le> j \<and> j < int (length es) \<and> r_type (e_rcpt (es ! nat j)) = TypeDecision
     then Some (e_rcpt (es ! nat j)) else None)"

definition result_for :: "int \<Rightarrow> entry \<Rightarrow> bool" where
  "result_for j e \<longleftrightarrow> r_type (e_rcpt e) = TypeResult \<and> map_option res_decision_seq (r_result (e_rcpt e)) = Some j"

definition approval_for :: "int \<Rightarrow> entry \<Rightarrow> bool" where
  "approval_for j e \<longleftrightarrow> r_type (e_rcpt e) = TypeApproval \<and> map_option a_decision_seq (r_approval (e_rcpt e)) = Some j"

definition has_result :: "entry list \<Rightarrow> int \<Rightarrow> bool" where
  "has_result es j \<longleftrightarrow> list_ex (result_for j) es"

definition approval_of :: "entry list \<Rightarrow> int \<Rightarrow> approval option" where
  "approval_of es j = (case find (approval_for j) es of None \<Rightarrow> None | Some e \<Rightarrow> r_approval (e_rcpt e))"

definition same_call :: "receipt \<Rightarrow> receipt \<Rightarrow> bool" where
  "same_call p r \<longleftrightarrow> r_task_id p = r_task_id r \<and> r_actor p = r_actor r \<and> r_call p = r_call r"

definition result_of :: "receipt \<Rightarrow> string" where
  "result_of p = (case r_decision p of None \<Rightarrow> [] | Some d \<Rightarrow> d_result d)"

text \<open>The key ID that signs next, the key state after the rotations of a log, the handovers.\<close>

definition signer_after :: "entry list \<Rightarrow> string" where
  "signer_after es = (if es = [] then [] else case r_rotation (e_rcpt (last es)) of
     Some rot \<Rightarrow> rot_to rot | None \<Rightarrow> e_kid (last es))"

definition accept_rotation :: "'k keys \<Rightarrow> 'k \<Rightarrow> receipt \<Rightarrow> 'k option" where
  "accept_rotation K ks r = do {
     rot \<leftarrow> r_rotation r; cert \<leftarrow> b64_decode (rot_certificate rot); t \<leftarrow> parse_ts (r_ts r);
     k_Accept K ks (rot_to rot) (rot_key rot) cert t }"

definition keys_after :: "'k keys \<Rightarrow> 'k \<Rightarrow> entry list \<Rightarrow> 'k" where
  "keys_after K ks es = foldl (\<lambda>k e. case accept_rotation K k (e_rcpt e) of None \<Rightarrow> k | Some k' \<Rightarrow> k') ks es"

definition handovers :: "entry list \<Rightarrow> handover list" where
  "handovers es = concat (map (\<lambda>e. case r_rotation (e_rcpt e) of None \<Rightarrow> []
     | Some rot \<Rightarrow> [\<lparr>kh_Seq = r_seq (e_rcpt e), kh_TS = r_ts (e_rcpt e), kh_From = rot_from rot,
         kh_To = rot_to rot, kh_Reason = rot_reason rot\<rparr>]) es)"

text \<open>The four conditions on a receipt after a log.\<close>

definition authentic :: "'x crypto_scheme \<Rightarrow> 'k keys \<Rightarrow> 'k \<Rightarrow> entry list \<Rightarrow> entry \<Rightarrow> bool" where
  "authentic C K ks es e \<longleftrightarrow> (\<exists>s. ParseLine C (e_line e) = Inr s \<and> signed_KeyID C s = Inr (e_kid e) \<and>
     k_Resolve K (keys_after K ks es) (e_kid e) = Some (e_pub e) \<and> receipt_Verify C (e_pub e) s = Inr (e_rcpt e))"

definition prev_after :: "'x crypto_scheme \<Rightarrow> string \<Rightarrow> entry list \<Rightarrow> entry \<Rightarrow> string option" where
  "prev_after C chainID es e = (if es = []
     then case GenesisPrev C (NewParams C chainID (e_kid e) (e_pub e)) of Inl _ \<Rightarrow> None | Inr p \<Rightarrow> Some p
     else Some (digest_SHA256 (sha256 C) (e_line (last es))))"

definition linked :: "'x crypto_scheme \<Rightarrow> string \<Rightarrow> revoked list \<Rightarrow> entry list \<Rightarrow> entry \<Rightarrow> bool" where
  "linked C chainID revs es e \<longleftrightarrow> r_chain_id (e_rcpt e) = chainID \<and> r_seq (e_rcpt e) = int (length es)
     \<and> prev_after C chainID es e = Some (r_prev (e_rcpt e))
     \<and> (es \<noteq> [] \<longrightarrow> r_ts (e_rcpt (last es)) \<le> r_ts (e_rcpt e) \<and> e_kid e = signer_after es)
     \<and> (\<forall>rev \<in> set revs. rv_Kid rev = e_kid e \<longrightarrow> int (length es) < rv_EffectiveSize rev)"

definition approval_admissible :: "entry list \<Rightarrow> receipt \<Rightarrow> bool" where
  "approval_admissible es r \<longleftrightarrow> (\<exists>a p. r_approval r = Some a \<and> decision_at es (a_decision_seq a) = Some p \<and>
     result_of p = RequireApproval \<and> same_call p r \<and> approval_of es (a_decision_seq a) = None \<and>
     \<not> has_result es (a_decision_seq a) \<and> map_option principal (r_actor p) \<noteq> Some (a_approver a))"

definition result_admissible :: "entry list \<Rightarrow> receipt \<Rightarrow> bool" where
  "result_admissible es r \<longleftrightarrow> (\<exists>x p. r_result r = Some x \<and> decision_at es (res_decision_seq x) = Some p \<and>
     same_call p r \<and> \<not> has_result es (res_decision_seq x) \<and>
     (result_of p = Allow \<or> result_of p = RequireApproval \<and>
       (\<exists>a. approval_of es (res_decision_seq x) = Some a \<and> a_outcome a = Approved \<and> r_ts r \<le> a_expires_ts a)))"

definition rotation_admissible :: "'k keys \<Rightarrow> 'k \<Rightarrow> entry list \<Rightarrow> entry \<Rightarrow> bool" where
  "rotation_admissible K ks es e \<longleftrightarrow> (\<exists>rot. r_rotation (e_rcpt e) = Some rot \<and> rot_from rot = e_kid e) \<and>
     accept_rotation K (keys_after K ks es) (e_rcpt e) \<noteq> None"

definition admissible ::
  "'x crypto_scheme \<Rightarrow> 'k keys \<Rightarrow> 'k \<Rightarrow> string \<Rightarrow> revoked list \<Rightarrow> entry list \<Rightarrow> entry \<Rightarrow> bool" where
  "admissible C K ks chainID revs es e \<longleftrightarrow> authentic C K ks es e \<and> linked C chainID revs es e
     \<and> (r_type (e_rcpt e) = TypeApproval \<longrightarrow> approval_admissible es (e_rcpt e))
     \<and> (r_type (e_rcpt e) = TypeResult \<longrightarrow> result_admissible es (e_rcpt e))
     \<and> (r_type (e_rcpt e) = TypeKeyRotation \<longrightarrow> rotation_admissible K ks es e)"

definition log_ok ::
  "'x crypto_scheme \<Rightarrow> 'k keys \<Rightarrow> 'k \<Rightarrow> string \<Rightarrow> revoked list \<Rightarrow> entry list \<Rightarrow> bool" where
  "log_ok C K ks chainID revs es \<longleftrightarrow> (\<forall>i < length es. admissible C K ks chainID revs (take i es) (es ! i))"

section \<open>The variables of the loop as functions of the log\<close>

definition info_of :: "entry list \<Rightarrow> int \<Rightarrow> receipt \<Rightarrow> decision_info" where
  "info_of es j p = \<lparr>di_taskID = r_task_id p, di_actor = the (r_actor p), di_call = the (r_call p),
     di_result = result_of p, di_resulted = has_result es j, di_approval = approval_of es j\<rparr>"

definition heads_of :: "'x crypto_scheme \<Rightarrow> checkpoint list \<Rightarrow> entry list \<Rightarrow> int \<rightharpoonup> string" where
  "heads_of C cps es k = (if k \<in> c_size ` set cps then Some
     (if 1 \<le> k \<and> k \<le> int (length es) then digest_SHA256 (sha256 C) (e_line (es ! nat (k - 1))) else []) else None)"

definition state_of ::
  "'x crypto_scheme \<Rightarrow> 'k keys \<Rightarrow> checkpoint list \<Rightarrow> 'k \<Rightarrow> entry list \<Rightarrow> 'k verify_state" where
  "state_of C K cps ks es = \<lparr>v_lineNo = int (length es), v_seq = int (length es),
     v_prev = (if es = [] then [] else digest_SHA256 (sha256 C) (e_line (last es))),
     v_lastTS = (if es = [] then [] else r_ts (e_rcpt (last es))),
     v_signer = signer_after es, v_rotations = handovers es,
     v_leaves = map (\<lambda>e. LeafHash (sha256 C) (e_line e)) es,
     v_decisions = (\<lambda>j. map_option (info_of es j) (decision_at es j)),
     v_heads = heads_of C cps es, v_keys = keys_after K ks es\<rparr>"

lemma log_ok_Nil [simp]: "log_ok C K ks chainID revs []"
  by (simp add: log_ok_def)

lemma log_ok_snoc:
  "log_ok C K ks chainID revs (es @ [e]) \<longleftrightarrow> log_ok C K ks chainID revs es \<and> admissible C K ks chainID revs es e"
  by (auto simp: log_ok_def nth_append less_Suc_eq)

lemma log_okD: "log_ok C K ks chainID revs es \<Longrightarrow> i < length es \<Longrightarrow> admissible C K ks chainID revs (take i es) (es ! i)"
  by (simp add: log_ok_def)

lemma admissible_Validate: "admissible C K ks chainID revs es e \<Longrightarrow> receipt_Validate (e_rcpt e) = Inr ()"
  by (auto simp: admissible_def authentic_def receipt_Verify_Inr)

lemma admissible_seq: "admissible C K ks chainID revs es e \<Longrightarrow> r_seq (e_rcpt e) = int (length es)"
  by (simp add: admissible_def linked_def)

lemma log_ok_Validate: "log_ok C K ks chainID revs es \<Longrightarrow> e \<in> set es \<Longrightarrow> receipt_Validate (e_rcpt e) = Inr ()"
  by (auto simp: in_set_conv_nth dest!: log_okD intro: admissible_Validate)

lemma log_ok_seq: "log_ok C K ks chainID revs es \<Longrightarrow> i < length es \<Longrightarrow> r_seq (e_rcpt (es ! i)) = int i"
  by (auto dest!: log_okD admissible_seq)

lemma Validate_refs:
  assumes "receipt_Validate r = Inr ()"
  shows "r_type r = TypeResult \<Longrightarrow> \<exists>x. r_result r = Some x \<and> 0 \<le> res_decision_seq x \<and> res_decision_seq x < r_seq r"
    and "r_type r = TypeApproval \<Longrightarrow> \<exists>x. r_approval r = Some x \<and> 0 \<le> a_decision_seq x \<and> a_decision_seq x < r_seq r"
    and "r_type r = TypeDecision \<Longrightarrow> \<exists>a c d. r_actor r = Some a \<and> r_call r = Some c \<and> r_decision r = Some d \<and>
      d_result d \<in> {Allow, Deny, RequireApproval}"
    and "r_rotation r \<noteq> None \<longleftrightarrow> r_type r = TypeKeyRotation"
  using assms Validate_type [OF assms]
  by (auto simp: Validate_simps decision_ok_def result_ok_def approval_ok_def rotation_ok_def context_ok_def)

text \<open>References point backwards, so nothing refers to the next sequence number yet.\<close>

lemma no_forward_refs:
  assumes "log_ok C K ks chainID revs es" "e \<in> set es" "int (length es) \<le> j"
  shows "\<not> result_for j e" "\<not> approval_for j e"
proof -
  obtain i where i: "i < length es" "e = es ! i" using assms(2) by (auto simp: in_set_conv_nth)
  have "receipt_Validate (e_rcpt e) = Inr ()" "r_seq (e_rcpt e) = int i"
    using log_ok_Validate [OF assms(1,2)] log_ok_seq [OF assms(1) i(1)] i by auto
  with i assms(3) Validate_refs(1,2) [of "e_rcpt e"] show "\<not> result_for j e" "\<not> approval_for j e"
    by (fastforce simp: result_for_def approval_for_def)+
qed

lemma nothing_for_next:
  assumes "log_ok C K ks chainID revs es"
  shows "\<not> has_result es (int (length es))" "approval_of es (int (length es)) = None"
proof -
  show "\<not> has_result es (int (length es))"
    using no_forward_refs(1) [OF assms] by (auto simp: has_result_def list_ex_iff)
  have "find (approval_for (int (length es))) es = None"
    using no_forward_refs(2) [OF assms] by (auto simp: find_None_iff)
  then show "approval_of es (int (length es)) = None" by (simp add: approval_of_def)
qed

section \<open>One more receipt\<close>

lemma decision_at_snoc:
  "decision_at (es @ [e]) j = (if j = int (length es) \<and> r_type (e_rcpt e) = TypeDecision then Some (e_rcpt e)
     else decision_at es j)"
  by (auto simp: decision_at_def nth_append nat_less_iff)

lemma has_result_snoc: "has_result (es @ [e]) j \<longleftrightarrow> has_result es j \<or> result_for j e"
  by (simp add: has_result_def)

lemma find_append: "find P (xs @ ys) = (case find P xs of None \<Rightarrow> find P ys | Some x \<Rightarrow> Some x)"
  by (induction xs) simp_all

lemma approval_of_None: "approval_of es j = None \<longleftrightarrow> find (approval_for j) es = None"
proof (cases "find (approval_for j) es")
  case (Some e)
  then have "approval_for j e" by (auto simp: find_Some_iff)
  with Some show ?thesis by (auto simp: approval_of_def approval_for_def)
qed (simp add: approval_of_def)

lemma approval_of_snoc:
  "approval_of (es @ [e]) j = (case approval_of es j of Some a \<Rightarrow> Some a
     | None \<Rightarrow> if approval_for j e then r_approval (e_rcpt e) else None)"
proof (cases "find (approval_for j) es")
  case None
  then show ?thesis using approval_of_None [of es j] by (simp add: approval_of_def find_append)
next
  case (Some x)
  then have "approval_of es j \<noteq> None" by (simp add: approval_of_None)
  with Some show ?thesis by (auto simp: approval_of_def find_append)
qed

lemma signer_after_snoc:
  "signer_after (es @ [e]) = (case r_rotation (e_rcpt e) of Some rot \<Rightarrow> rot_to rot | None \<Rightarrow> e_kid e)"
  by (simp add: signer_after_def split: option.split)

lemma keys_after_snoc:
  "keys_after K ks (es @ [e]) = (case accept_rotation K (keys_after K ks es) (e_rcpt e) of
     None \<Rightarrow> keys_after K ks es | Some k \<Rightarrow> k)"
  by (simp add: keys_after_def split: option.split)

lemma handovers_snoc: "handovers (es @ [e]) = handovers es @ handovers [e]"
  by (simp add: handovers_def)

lemma heads_of_snoc:
  "heads_of C cps (es @ [e]) = (let j = int (length es) + 1; d = digest_SHA256 (sha256 C) (e_line e) in
     if heads_of C cps es j \<noteq> None then (heads_of C cps es)(j \<mapsto> d) else heads_of C cps es)"
proof (rule ext)
  fix k
  show "heads_of C cps (es @ [e]) k = (let j = int (length es) + 1; d = digest_SHA256 (sha256 C) (e_line e) in
     if heads_of C cps es j \<noteq> None then (heads_of C cps es)(j \<mapsto> d) else heads_of C cps es) k"
  proof (cases "k = int (length es) + 1")
    case False
    then have "k \<le> int (length es) + 1 \<longleftrightarrow> k \<le> int (length es)" by linarith
    with False show ?thesis by (auto simp: heads_of_def Let_def nth_append nat_less_iff)
  qed (auto simp: heads_of_def Let_def nth_append)
qed

lemma info_of_snoc:
  "\<not> result_for j e \<Longrightarrow> \<not> approval_for j e \<Longrightarrow> info_of (es @ [e]) j = info_of es j"
  by (auto simp: fun_eq_iff info_of_def has_result_snoc approval_of_snoc split: option.splits)

lemma decisions_after_decision:
  assumes "log_ok C K ks chainID revs es" "r_type (e_rcpt e) = TypeDecision"
  shows "(\<lambda>j. map_option (info_of (es @ [e]) j) (decision_at (es @ [e]) j))
    = (\<lambda>j. map_option (info_of es j) (decision_at es j))(int (length es) \<mapsto> info_of es (int (length es)) (e_rcpt e))"
  using assms(2) nothing_for_next [OF assms(1)]
  by (auto simp: fun_eq_iff decision_at_snoc info_of_snoc info_of_def has_result_snoc approval_of_snoc result_for_def
      approval_for_def split: option.splits)

lemma decisions_after_approval:
  assumes "r_type (e_rcpt e) = TypeApproval" "r_approval (e_rcpt e) = Some a"
    and "decision_at es (a_decision_seq a) = Some p" "approval_of es (a_decision_seq a) = None"
  shows "(\<lambda>j. map_option (info_of (es @ [e]) j) (decision_at (es @ [e]) j))
    = (\<lambda>j. map_option (info_of es j) (decision_at es j))
        (a_decision_seq a \<mapsto> (info_of es (a_decision_seq a) p)\<lparr>di_approval := Some a\<rparr>)"
  using assms by (auto simp: fun_eq_iff decision_at_snoc info_of_snoc info_of_def has_result_snoc approval_of_snoc
      result_for_def approval_for_def split: option.splits)

lemma decisions_after_result:
  assumes "r_type (e_rcpt e) = TypeResult" "r_result (e_rcpt e) = Some x"
    and "decision_at es (res_decision_seq x) = Some p"
  shows "(\<lambda>j. map_option (info_of (es @ [e]) j) (decision_at (es @ [e]) j))
    = (\<lambda>j. map_option (info_of es j) (decision_at es j))
        (res_decision_seq x \<mapsto> (info_of es (res_decision_seq x) p)\<lparr>di_resulted := True\<rparr>)"
  using assms by (auto simp: fun_eq_iff decision_at_snoc info_of_snoc info_of_def has_result_snoc approval_of_snoc
      result_for_def approval_for_def split: option.splits)

lemma decisions_after_rotation:
  assumes "r_type (e_rcpt e) = TypeKeyRotation"
  shows "(\<lambda>j. map_option (info_of (es @ [e]) j) (decision_at (es @ [e]) j))
    = (\<lambda>j. map_option (info_of es j) (decision_at es j))"
  using assms by (auto simp: fun_eq_iff decision_at_snoc info_of_snoc info_of_def has_result_snoc approval_of_snoc
      result_for_def approval_for_def split: option.splits)

lemma decision_at_props:
  assumes "log_ok C K ks chainID revs es" "decision_at es j = Some p"
  shows "\<exists>a c d. r_actor p = Some a \<and> r_call p = Some c \<and> r_decision p = Some d \<and> result_of p = d_result d \<and>
    result_of p \<in> {Allow, Deny, RequireApproval}"
proof -
  obtain e where "e \<in> set es" "p = e_rcpt e" "r_type p = TypeDecision"
    using assms(2) by (auto simp: decision_at_def split: if_splits) (metis nat_less_iff nth_mem of_nat_nat)
  with log_ok_Validate [OF assms(1)] Validate_refs(3) [of p] show ?thesis by (auto simp: result_of_def)
qed

section \<open>The loop accepts exactly the admissible logs\<close>

lemma open_line_Inr:
  "open_line C (k_Resolve K (keys_after K ks es)) l = Inr (kid, pub, r) \<longleftrightarrow>
     authentic C K ks es \<lparr>e_line = l, e_kid = kid, e_pub = pub, e_rcpt = r\<rparr>"
  by (auto simp: open_line_def authentic_def)

lemma list_ex_revoked:
  "\<not> list_ex (\<lambda>rev. rv_Kid rev = kid \<and> n \<ge> rv_EffectiveSize rev) revs \<longleftrightarrow>
     (\<forall>rev \<in> set revs. rv_Kid rev = kid \<longrightarrow> n < rv_EffectiveSize rev)"
  by (auto simp: list_ex_iff not_le)

lemma check_link_Inr:
  "check_link C chainID revs ((state_of C K cps ks es)\<lparr>v_lineNo := n\<rparr>) kid pub r = Inr signer \<longleftrightarrow>
     linked C chainID revs es \<lparr>e_line = l, e_kid = kid, e_pub = pub, e_rcpt = r\<rparr> \<and> signer = kid"
proof (cases "es = []")
  case True
  then show ?thesis
    by (auto simp: check_link_def linked_def state_of_def list_ex_revoked prev_after_def split: sum.splits)
next
  case False
  then show ?thesis
    by (auto simp: check_link_def linked_def state_of_def list_ex_revoked prev_after_def not_less)
qed

lemma sameCall_info:
  assumes "r_actor p = Some a" "r_call p = Some c"
  shows "sameCall (info_of es j p) r \<longleftrightarrow> same_call p r"
  using assms by (auto simp: sameCall_def same_call_def info_of_def)

lemma accept_rotation_Some:
  "r_rotation r = Some rot \<Longrightarrow> accept_rotation K k r = Some k' \<longleftrightarrow>
     (\<exists>cert t. b64_decode (rot_certificate rot) = Some cert \<and> parse_ts (r_ts r) = Some t \<and>
       k_Accept K k (rot_to rot) (rot_key rot) cert t = Some k')"
  by (auto simp: accept_rotation_def bind_eq_Some_conv)

definition body_admissible :: "'k keys \<Rightarrow> 'k \<Rightarrow> entry list \<Rightarrow> entry \<Rightarrow> bool" where
  "body_admissible K ks es e \<longleftrightarrow>
     (r_type (e_rcpt e) = TypeApproval \<longrightarrow> approval_admissible es (e_rcpt e)) \<and>
     (r_type (e_rcpt e) = TypeResult \<longrightarrow> result_admissible es (e_rcpt e)) \<and>
     (r_type (e_rcpt e) = TypeKeyRotation \<longrightarrow> rotation_admissible K ks es e)"

definition decisions_of :: "entry list \<Rightarrow> int \<rightharpoonup> decision_info" where
  "decisions_of es = (\<lambda>j. map_option (info_of es j) (decision_at es j))"

text \<open>What the switch makes of the state.\<close>

definition after_body ::
  "'x crypto_scheme \<Rightarrow> 'k keys \<Rightarrow> checkpoint list \<Rightarrow> 'k \<Rightarrow> entry list \<Rightarrow> entry \<Rightarrow> 'k verify_state" where
  "after_body C K cps ks es e = (state_of C K cps ks es)\<lparr>v_lineNo := int (length es) + 1,
     v_decisions := decisions_of (es @ [e]), v_signer := signer_after (es @ [e]),
     v_keys := keys_after K ks (es @ [e]), v_rotations := handovers (es @ [e])\<rparr>"

lemma after_body_no_rotation:
  assumes "r_rotation (e_rcpt e) = None"
  shows "after_body C K cps ks es e = (state_of C K cps ks es)\<lparr>v_lineNo := int (length es) + 1,
     v_decisions := decisions_of (es @ [e]), v_signer := e_kid e\<rparr>"
proof -
  have "signer_after (es @ [e]) = e_kid e" "handovers (es @ [e]) = handovers es"
    using assms by (simp_all add: signer_after_snoc handovers_snoc) (simp add: handovers_def)
  moreover have "accept_rotation K k (e_rcpt e) = None" for k using assms by (simp add: accept_rotation_def)
  ultimately show ?thesis by (simp add: after_body_def keys_after_snoc state_of_def)
qed

definition start_state ::
  "'x crypto_scheme \<Rightarrow> 'k keys \<Rightarrow> checkpoint list \<Rightarrow> 'k \<Rightarrow> entry list \<Rightarrow> 'k verify_state" where
  "start_state C K cps ks es = (state_of C K cps ks es)\<lparr>v_lineNo := int (length es) + 1\<rparr>"

lemma start_state_simps [simp]:
  "v_decisions (start_state C K cps ks es) = decisions_of es" "v_seq (start_state C K cps ks es) = int (length es)"
  "v_keys (start_state C K cps ks es) = keys_after K ks es" "v_rotations (start_state C K cps ks es) = handovers es"
  "v_lineNo (start_state C K cps ks es) = int (length es) + 1"
  by (simp_all add: start_state_def state_of_def decisions_of_def)

lemma decisions_of_Some: "decisions_of es j = Some d \<longleftrightarrow> (\<exists>p. decision_at es j = Some p \<and> d = info_of es j p)"
  by (auto simp: decisions_of_def)

lemma body_decision:
  assumes "log_ok C K ks chainID revs es" "receipt_Validate (e_rcpt e) = Inr ()" "r_type (e_rcpt e) = TypeDecision"
  shows "check_decision (start_state C K cps ks es) (e_rcpt e) = Inr ds \<longleftrightarrow> ds = decisions_of (es @ [e])"
proof -
  obtain a c d where r: "r_actor (e_rcpt e) = Some a" "r_call (e_rcpt e) = Some c" "r_decision (e_rcpt e) = Some d"
    using Validate_refs(3) [OF assms(2,3)] by auto
  have "info_of es (int (length es)) (e_rcpt e) = \<lparr>di_taskID = r_task_id (e_rcpt e), di_actor = a, di_call = c,
      di_result = d_result d, di_resulted = False, di_approval = None\<rparr>"
    using r nothing_for_next [OF assms(1)] by (simp add: info_of_def result_of_def)
  with r show ?thesis
    unfolding decisions_of_def decisions_after_decision [OF assms(1,3)]
    by (auto simp: check_decision_def decisions_of_def)
qed

lemma body_approval:
  assumes "log_ok C K ks chainID revs es" "r_type (e_rcpt e) = TypeApproval"
  shows "check_approval (start_state C K cps ks es) (e_rcpt e) = Inr ds \<longleftrightarrow>
    approval_admissible es (e_rcpt e) \<and> ds = decisions_of (es @ [e])"
proof (cases "\<exists>a p. r_approval (e_rcpt e) = Some a \<and> decision_at es (a_decision_seq a) = Some p")
  case True
  then obtain a p where a: "r_approval (e_rcpt e) = Some a" "decision_at es (a_decision_seq a) = Some p" by blast
  obtain x c where p: "r_actor p = Some x" "r_call p = Some c" using decision_at_props [OF assms(1) a(2)] by auto
  have "approval_of es (a_decision_seq a) = None \<Longrightarrow> decisions_of (es @ [e]) = (decisions_of es)
      (a_decision_seq a \<mapsto> (info_of es (a_decision_seq a) p)\<lparr>di_approval := Some a\<rparr>)"
    using decisions_after_approval [OF assms(2) a] by (simp add: decisions_of_def)
  with a p show ?thesis
    by (auto simp: check_approval_def approval_admissible_def decisions_of_Some sameCall_info [OF p])
      (auto simp: info_of_def)
next
  case False
  then show ?thesis
    by (cases "r_approval (e_rcpt e)") (simp_all add: check_approval_def approval_admissible_def decisions_of_def)
qed

lemma body_result:
  assumes "log_ok C K ks chainID revs es" "r_type (e_rcpt e) = TypeResult"
  shows "check_result (start_state C K cps ks es) (e_rcpt e) = Inr ds \<longleftrightarrow>
    result_admissible es (e_rcpt e) \<and> ds = decisions_of (es @ [e])"
proof (cases "\<exists>a p. r_result (e_rcpt e) = Some a \<and> decision_at es (res_decision_seq a) = Some p")
  case True
  then obtain a p where a: "r_result (e_rcpt e) = Some a" "decision_at es (res_decision_seq a) = Some p" by blast
  obtain x c where p: "r_actor p = Some x" "r_call p = Some c" "result_of p \<in> {Allow, Deny, RequireApproval}"
    using decision_at_props [OF assms(1) a(2)] by auto
  have d: "decisions_of (es @ [e]) = (decisions_of es)
      (res_decision_seq a \<mapsto> (info_of es (res_decision_seq a) p)\<lparr>di_resulted := True\<rparr>)"
    using decisions_after_result [OF assms(2) a] by (simp add: decisions_of_def)
  have i: "di_result (info_of es j p) = result_of p" "di_resulted (info_of es j p) = has_result es j"
    "di_approval (info_of es j p) = approval_of es j" for j by (simp_all add: info_of_def)
  show ?thesis unfolding d using a p(3)
    by (auto simp: check_result_def result_admissible_def decisions_of_Some sameCall_info [OF p(1,2)] i not_less)
next
  case False
  then show ?thesis
    by (cases "r_result (e_rcpt e)") (simp_all add: check_result_def result_admissible_def decisions_of_def)
qed

lemma body_rotation:
  assumes "r_type (e_rcpt e) = TypeKeyRotation" "r_seq (e_rcpt e) = int (length es)"
  shows "check_rotation K (start_state C K cps ks es) (e_kid e) (e_rcpt e) = Inr (k', h) \<longleftrightarrow>
    rotation_admissible K ks es e \<and> k' = keys_after K ks (es @ [e]) \<and> handovers [e] = [h]"
proof (cases "r_rotation (e_rcpt e)")
  case None
  then show ?thesis by (simp add: check_rotation_def rotation_admissible_def)
next
  case (Some rot)
  show ?thesis
  proof (cases "accept_rotation K (keys_after K ks es) (e_rcpt e)")
    case None
    then show ?thesis using accept_rotation_Some [OF Some, of K "keys_after K ks es"] Some
      by (auto simp: check_rotation_def rotation_admissible_def)
  next
    case a: (Some k)
    then have "keys_after K ks (es @ [e]) = k" by (simp add: keys_after_snoc)
    with a show ?thesis using accept_rotation_Some [OF Some, of K "keys_after K ks es"] Some assms
      by (auto simp: check_rotation_def rotation_admissible_def handovers_def)
  qed
qed

lemma start_state_update:
  "(start_state C K cps ks es)\<lparr>v_decisions := d, v_signer := s\<rparr>
    = (state_of C K cps ks es)\<lparr>v_lineNo := int (length es) + 1, v_decisions := d, v_signer := s\<rparr>"
  by (simp add: start_state_def)

lemma check_body_Inr:
  assumes "log_ok C K ks chainID revs es" "receipt_Validate (e_rcpt e) = Inr ()" "r_seq (e_rcpt e) = int (length es)"
  shows "check_body K (start_state C K cps ks es) (e_kid e) (e_kid e) (e_rcpt e) = Inr st' \<longleftrightarrow>
    body_admissible K ks es e \<and> st' = after_body C K cps ks es e"
proof -
  note rot = Validate_refs(4) [OF assms(2)]
  consider "r_type (e_rcpt e) = TypeDecision" | "r_type (e_rcpt e) = TypeApproval"
    | "r_type (e_rcpt e) = TypeResult" | "r_type (e_rcpt e) = TypeKeyRotation"
    using Validate_type [OF assms(2)] by blast
  then show ?thesis
  proof cases
    case 1
    with rot show ?thesis
      by (auto simp: check_body_def body_admissible_def after_body_no_rotation start_state_update body_decision [OF assms(1,2) 1])
  next
    case 2
    with rot show ?thesis
      by (auto simp: check_body_def body_admissible_def after_body_no_rotation start_state_update body_approval [OF assms(1) 2])
  next
    case 3
    with rot show ?thesis
      by (auto simp: check_body_def body_admissible_def after_body_no_rotation start_state_update body_result [OF assms(1) 3])
  next
    case 4
    then obtain rt where rt: "r_rotation (e_rcpt e) = Some rt" using rot by auto
    obtain h where h: "handovers [e] = [h]" "kh_To h = rot_to rt" using rt by (simp add: handovers_def)
    have d: "decisions_of (es @ [e]) = decisions_of es"
      using decisions_after_rotation [OF 4] by (simp add: decisions_of_def)
    have "after_body C K cps ks es e = (start_state C K cps ks es)\<lparr>v_keys := keys_after K ks (es @ [e]),
        v_signer := kh_To h, v_rotations := handovers es @ [h]\<rparr>"
      using rt h by (simp add: after_body_def start_state_def d handovers_snoc signer_after_snoc)
        (simp add: state_of_def decisions_of_def)
    with 4 h show ?thesis
      by (auto simp: check_body_def body_admissible_def body_rotation [OF 4 assms(3)])
  qed
qed

lemma finish_line_state:
  "finish_line C (e_line e) (e_rcpt e) (after_body C K cps ks es e) = state_of C K cps ks (es @ [e])"
  by (simp add: finish_line_def after_body_def state_of_def Let_def heads_of_snoc decisions_of_def)

lemma admissible_body:
  "admissible C K ks chainID revs es e \<longleftrightarrow>
     authentic C K ks es e \<and> linked C chainID revs es e \<and> body_admissible K ks es e"
  by (simp add: admissible_def body_admissible_def)

lemma verify_line_Inr:
  assumes "log_ok C K ks chainID revs es"
  shows "verify_line C K chainID revs (state_of C K cps ks es) l = Inr st' \<longleftrightarrow>
    (\<exists>e. e_line e = l \<and> admissible C K ks chainID revs es e \<and> st' = state_of C K cps ks (es @ [e]))"
    (is "?l \<longleftrightarrow> ?r")
proof -
  have start: "(state_of C K cps ks es)\<lparr>v_lineNo := v_lineNo (state_of C K cps ks es) + 1\<rparr> = start_state C K cps ks es"
    by (simp add: start_state_def state_of_def)
  have "?l \<longleftrightarrow> (\<exists>kid pub r signer st. open_line C (k_Resolve K (keys_after K ks es)) l = Inr (kid, pub, r) \<and>
      check_link C chainID revs (start_state C K cps ks es) kid pub r = Inr signer \<and>
      check_body K (start_state C K cps ks es) kid signer r = Inr st \<and> st' = finish_line C l r st)"
    unfolding verify_line_def Let_def start by auto
  also have "\<dots> \<longleftrightarrow> (\<exists>e st. e_line e = l \<and> authentic C K ks es e \<and> linked C chainID revs es e \<and>
      check_body K (start_state C K cps ks es) (e_kid e) (e_kid e) (e_rcpt e) = Inr st \<and>
      st' = finish_line C (e_line e) (e_rcpt e) st)"
    unfolding open_line_Inr start_state_def check_link_Inr [where l = l]
    by (auto intro: exI [of _ "\<lparr>e_line = l, e_kid = _, e_pub = _, e_rcpt = _\<rparr>"]) (metis entry.surjective old.unit.exhaust)
  also have "\<dots> \<longleftrightarrow> ?r"
  proof -
    have "(\<exists>st. check_body K (start_state C K cps ks es) (e_kid e) (e_kid e) (e_rcpt e) = Inr st \<and>
        st' = finish_line C (e_line e) (e_rcpt e) st) \<longleftrightarrow>
        body_admissible K ks es e \<and> st' = state_of C K cps ks (es @ [e])"
      if "authentic C K ks es e" "linked C chainID revs es e" for e
    proof -
      have "receipt_Validate (e_rcpt e) = Inr ()" "r_seq (e_rcpt e) = int (length es)"
        using that by (auto simp: authentic_def receipt_Verify_Inr linked_def)
      then show ?thesis by (simp add: check_body_Inr [OF assms] finish_line_state)
    qed
    then show ?thesis unfolding admissible_body by blast
  qed
  finally show ?thesis .
qed

section \<open>The whole log\<close>

lemma init_heads_eq: "init_heads cps k = (if k \<in> c_size ` set cps then Some [] else None)"
  unfolding init_heads_def by (induction cps rule: rev_induct) auto

lemma init_state_eq: "init_state cps ks = state_of C K cps ks []"
proof -
  have "init_heads cps = heads_of C cps []" by (rule ext) (auto simp: init_heads_eq heads_of_def)
  moreover have "decision_at [] = (\<lambda>_. None)" by (auto simp: decision_at_def fun_eq_iff)
  ultimately show ?thesis
    by (simp add: init_state_def state_of_def signer_after_def handovers_def keys_after_def)
qed

lemma verify_lines_Inr:
  "efold (verify_line C K chainID revs) (init_state cps ks) lines = Inr st \<longleftrightarrow>
     (\<exists>es. map e_line es = lines \<and> log_ok C K ks chainID revs es \<and> st = state_of C K cps ks es)"
proof (induction lines arbitrary: st rule: rev_induct)
  case Nil
  then show ?case by (auto simp: init_state_eq [of cps ks C K])
next
  case (snoc l lines)
  have "efold (verify_line C K chainID revs) (init_state cps ks) (lines @ [l]) = Inr st \<longleftrightarrow>
      (\<exists>es. map e_line es = lines \<and> log_ok C K ks chainID revs es \<and>
        verify_line C K chainID revs (state_of C K cps ks es) l = Inr st)"
    unfolding efold_snoc_Inr snoc.IH by blast
  also have "\<dots> \<longleftrightarrow> (\<exists>es e. map e_line es = lines \<and> log_ok C K ks chainID revs es \<and> e_line e = l \<and>
      admissible C K ks chainID revs es e \<and> st = state_of C K cps ks (es @ [e]))"
    by (rule ex_cong1) (auto simp: verify_line_Inr)
  also have "\<dots> \<longleftrightarrow> (\<exists>es. map e_line es = lines @ [l] \<and> log_ok C K ks chainID revs es \<and> st = state_of C K cps ks es)"
    (is "?a \<longleftrightarrow> ?b")
  proof
    assume ?a
    then obtain es e where "map e_line es = lines" "log_ok C K ks chainID revs (es @ [e])" "e_line e = l"
      "st = state_of C K cps ks (es @ [e])" by (auto simp: log_ok_snoc)
    then show ?b by (intro exI [of _ "es @ [e]"]) simp
  next
    assume ?b
    then obtain es where es: "map e_line es = lines @ [l]" "log_ok C K ks chainID revs es"
      "st = state_of C K cps ks es" by blast
    then obtain es' e where "es = es' @ [e]" by (cases es rule: rev_cases) auto
    with es show ?a by (auto simp: log_ok_snoc)
  qed
  finally show ?case .
qed

text \<open>A checkpoint that a log agrees with: it covers a prefix of it and commits to that prefix.\<close>

definition cp_matches :: "'x crypto_scheme \<Rightarrow> string \<Rightarrow> bytes list \<Rightarrow> checkpoint \<Rightarrow> bool" where
  "cp_matches C chainID lines c \<longleftrightarrow> c_chain_id c = chainID \<and> 0 \<le> c_size c \<and> c_size c \<le> int (length lines)
     \<and> c_root c = merkle_Digest (Root (sha256 C) (map (LeafHash (sha256 C)) (take (nat (c_size c)) lines)))
     \<and> c_head c = (if c_size c = 0 then [] else digest_SHA256 (sha256 C) (lines ! nat (c_size c - 1)))"

lemma check_checkpoint_Inr:
  assumes "c \<in> set cps"
  shows "check_checkpoint C chainID (state_of C K cps ks es) n c = Inr m \<longleftrightarrow>
    cp_matches C chainID (map e_line es) c \<and> m = c_size c"
proof -
  have "c_size c \<in> c_size ` set cps" using assms by blast
  then show ?thesis
    by (auto simp: check_checkpoint_def cp_matches_def state_of_def heads_of_def take_map comp_def)
qed

lemma check_checkpoints_Inr:
  assumes "set xs \<subseteq> set cps"
  shows "efold (check_checkpoint C chainID (state_of C K cps ks es)) n xs = Inr m \<longleftrightarrow>
    (\<forall>c \<in> set xs. cp_matches C chainID (map e_line es) c) \<and> m = (if xs = [] then n else c_size (last xs))"
  using assms by (induction xs arbitrary: n) (auto simp: check_checkpoint_Inr)

definition covered_by :: "checkpoint list \<Rightarrow> int" where
  "covered_by cps = (if cps = [] then 0 else Max (c_size ` set cps))"

lemma sort_key_Nil_iff: "sort_key f xs = [] \<longleftrightarrow> xs = []"
  by (metis length_0_conv length_sort)

lemma last_sort_key_max: "cps \<noteq> [] \<Longrightarrow> c_size (last (sort_key c_size cps)) = Max (c_size ` set cps)"
proof -
  assume ne: "cps \<noteq> []"
  let ?s = "sort_key c_size cps"
  obtain ys y where s: "?s = ys @ [y]" using ne sort_key_Nil_iff [of c_size cps] by (metis rev_exhaust)
  have "sorted (map c_size ?s)" by simp
  then have "\<forall>x \<in> set ?s. c_size x \<le> c_size y" unfolding s by (auto simp: sorted_append)
  then have "\<forall>x \<in> set cps. c_size x \<le> c_size y" by simp
  moreover have "y \<in> set cps" using arg_cong [OF s, of set] by auto
  ultimately show ?thesis unfolding s by (intro Max_eqI [symmetric]) auto
qed

definition open_at :: "entry list \<Rightarrow> int \<Rightarrow> bool" where
  "open_at es s \<longleftrightarrow> (\<exists>p. decision_at es s = Some p \<and> result_of p = Allow \<and> \<not> has_result es s)"

lemma open_decisions_eq: "open_decisions (state_of C K cps ks es) = filter (open_at es) (map int [0..<length es])"
  unfolding open_decisions_def
  by (rule arg_cong2 [where f = filter]) (auto simp: fun_eq_iff state_of_def open_at_def info_of_def split: option.splits)

definition report_of :: "'x crypto_scheme \<Rightarrow> string \<Rightarrow> checkpoint list \<Rightarrow> entry list \<Rightarrow> report" where
  "report_of C chainID cps es = \<lparr>rep_ChainID = chainID, rep_Receipts = int (length es),
     rep_LastSeq = int (length es) - 1, rep_Head = digest_SHA256 (sha256 C) (e_line (last es)),
     rep_OpenDecisions = filter (open_at es) (map int [0..<length es]), rep_Checkpointed = covered_by cps,
     rep_Unanchored = int (length es) - covered_by cps, rep_Rotations = handovers es\<rparr>"

definition verified_log ::
  "'x crypto_scheme \<Rightarrow> bytes \<Rightarrow> string \<Rightarrow> 'k keys \<Rightarrow> 'k \<Rightarrow> checkpoint list \<Rightarrow> revoked list \<Rightarrow> entry list \<Rightarrow> bool" where
  "verified_log C log chainID K ks cps revs es \<longleftrightarrow> scan_lines log = (map e_line es, False) \<and> es \<noteq> [] \<and>
     log_ok C K ks chainID revs es \<and> (\<forall>c \<in> set cps. cp_matches C chainID (map e_line es) c)"

lemma VerifyAll_Inr:
  "VerifyAll C log chainID K ks cps revs = Inr (rep, ks') \<longleftrightarrow>
     (\<exists>es. verified_log C log chainID K ks cps revs es \<and> rep = report_of C chainID cps es \<and> ks' = keys_after K ks es)"
proof -
  obtain lines toolong where sc: "scan_lines log = (lines, toolong)" by fastforce
  have rep: "\<lparr>rep_ChainID = chainID, rep_Receipts = v_lineNo (state_of C K cps ks es),
      rep_LastSeq = v_seq (state_of C K cps ks es) - 1, rep_Head = v_prev (state_of C K cps ks es),
      rep_OpenDecisions = open_decisions (state_of C K cps ks es), rep_Checkpointed = m,
      rep_Unanchored = v_lineNo (state_of C K cps ks es) - m, rep_Rotations = v_rotations (state_of C K cps ks es)\<rparr>
      = report_of C chainID cps es" if "es \<noteq> []" "m = covered_by cps" for es m
    using that by (simp add: open_decisions_eq) (simp add: report_of_def state_of_def)
  have cov: "(if sort_key c_size cps = [] then 0 else c_size (last (sort_key c_size cps))) = covered_by cps"
    by (cases "cps = []") (simp_all add: covered_by_def last_sort_key_max sort_key_Nil_iff)
  have st: "v_lineNo (state_of C K cps ks es) = 0 \<longleftrightarrow> es = []" "v_keys (state_of C K cps ks es) = keys_after K ks es" for es
    by (simp_all add: state_of_def)
  show ?thesis
    unfolding VerifyAll_def sc verified_log_def
    using rep check_checkpoints_Inr [of "sort_key c_size cps" cps C chainID K ks _ 0]
    by (auto simp: verify_lines_Inr cov st)
qed

end
