(* ===== verification/LogTheorems.thy ===== *)
theory LogTheorems
  imports LogSpec
begin

text \<open>
  What a verified log guarantees as a whole: the head commits to every line, checkpoints pin
  prefixes, one key signs at a time, and no call was executed without the authorisation that the
  policy asked for.
\<close>

section \<open>The head commits to the log\<close>

lemma receipt_of_line:
  assumes "authentic C K ks es e" "authentic C K' ks' es' e'" "e_line e = e_line e'"
  shows "e_rcpt e = e_rcpt e' \<and> e_kid e = e_kid e'"
  using assms by (auto simp: authentic_def receipt_Verify_Inr VerifyPayload_Inr)

lemma log_ok_authentic: "log_ok C K ks chainID revs es \<Longrightarrow> i < length es \<Longrightarrow> authentic C K ks (take i es) (es ! i)"
  by (auto simp: admissible_def dest: log_okD)

lemma log_ok_linked: "log_ok C K ks chainID revs es \<Longrightarrow> i < length es \<Longrightarrow> linked C chainID revs (take i es) (es ! i)"
  by (auto simp: admissible_def dest: log_okD)

lemma log_ok_prev:
  assumes "log_ok C K ks chainID revs es" "Suc i < length es"
  shows "r_prev (e_rcpt (es ! Suc i)) = digest_SHA256 (sha256 C) (e_line (es ! i))"
proof -
  have "take (Suc i) es \<noteq> []" "last (take (Suc i) es) = es ! i"
    using assms(2) by (auto simp: take_Suc_conv_app_nth)
  with log_ok_linked [OF assms] show ?thesis by (simp add: linked_def prev_after_def)
qed

lemma same_last_line_same_log:
  assumes "log_ok C K ks chainID revs es" "log_ok C K' ks' chainID' revs' es'" "es \<noteq> []" "es' \<noteq> []"
    and "e_line (last es) = e_line (last es')"
    and nc: "no_collision (sha256 C) (e_line ` set es \<union> e_line ` set es')"
  shows "map e_line es = map e_line es' \<and> chainID = chainID'"
proof -
  let ?n = "length es - 1"
  have n: "?n < length es" "length es' - 1 < length es'" using assms(3,4) by auto
  have last: "es ! ?n = last es" "es' ! (length es' - 1) = last es'" using assms(3,4) by (simp_all add: last_conv_nth)
  have "e_rcpt (last es) = e_rcpt (last es')"
    using receipt_of_line [OF log_ok_authentic [OF assms(1) n(1), unfolded last]
        log_ok_authentic [OF assms(2) n(2), unfolded last] assms(5)] by blast
  then have len: "length es = length es'" and chain: "chainID = chainID'"
    using log_ok_linked [OF assms(1) n(1)] log_ok_linked [OF assms(2) n(2)] n
    unfolding last by (auto simp: linked_def)
  have "k \<le> ?n \<Longrightarrow> e_line (es ! (?n - k)) = e_line (es' ! (?n - k))" for k
  proof (induction k)
    case 0
    then show ?case using assms(5) last len by simp
  next
    case (Suc k)
    let ?i = "?n - Suc k"
    have i: "Suc ?i = ?n - k" "Suc ?i < length es" "Suc ?i < length es'" using Suc.prems n(1) len by linarith+
    have "e_rcpt (es ! Suc ?i) = e_rcpt (es' ! Suc ?i)"
      using receipt_of_line [OF log_ok_authentic [OF assms(1) i(2)] log_ok_authentic [OF assms(2) i(3)]]
        Suc.IH Suc.prems i(1) by simp
    then have "digest_SHA256 (sha256 C) (e_line (es ! ?i)) = digest_SHA256 (sha256 C) (e_line (es' ! ?i))"
      using log_ok_prev [OF assms(1) i(2)] log_ok_prev [OF assms(2) i(3)] by simp
    then show ?case
      using nc i by (auto intro!: no_collisionD [of "sha256 C"])
  qed
  then have "e_line (es ! i) = e_line (es' ! i)" if "i < length es" for i
    using that by (metis (no_types) Suc_pred' diff_diff_cancel diff_le_self length_greater_0_conv less_Suc_eq_le assms(3))
  with len chain show ?thesis by (auto intro: nth_equalityI)
qed

text \<open>
  C8: the head digest that verification reports commits to the whole log: two logs that both verify,
  under any keys, chain identifiers and revocations, with the same head have the same lines and the
  same chain identifier, unless two of those lines have the same SHA-256.
\<close>

theorem head_commits_to_log:
  assumes "VerifyAll C log chainID K ks cps revs = Inr (rep, k)"
    and "VerifyAll C log' chainID' K' ks' cps' revs' = Inr (rep', k')"
    and "rep_Head rep = rep_Head rep'"
    and "no_collision (sha256 C) (set (fst (scan_lines log)) \<union> set (fst (scan_lines log')))"
  shows "fst (scan_lines log) = fst (scan_lines log') \<and> chainID = chainID'"
proof -
  obtain es where es: "scan_lines log = (map e_line es, False)" "es \<noteq> []" "log_ok C K ks chainID revs es"
    "rep = report_of C chainID cps es"
    using assms(1) by (auto simp: VerifyAll_Inr verified_log_def)
  obtain es' where es': "scan_lines log' = (map e_line es', False)" "es' \<noteq> []" "log_ok C K' ks' chainID' revs' es'"
    "rep' = report_of C chainID' cps' es'"
    using assms(2) by (auto simp: VerifyAll_Inr verified_log_def)
  have "e_line (last es) = e_line (last es')"
    using assms(3,4) es es' by (auto simp: report_of_def intro!: no_collisionD [of "sha256 C"])
  then show ?thesis
    using same_last_line_same_log [OF es(3) es'(3) es(2) es'(2)] assms(4) es(1) es'(1) by simp
qed

text \<open>A log that a checkpoint matches begins with the lines that the checkpoint was built over.\<close>

lemma matching_prefix:
  assumes "cp_matches C chainID lines c" "builder_Checkpoint C (build C chain0 lines0) ts = Inr c"
    and "no_collision (sha256 C) (tree_pre (sha256 C) lines0 \<union> tree_pre (sha256 C) (take (length lines0) lines))"
  shows "take (length lines0) lines = lines0 \<and> chain0 = chainID \<and> c_size c = int (length lines0)"
proof -
  have cm: "commits C chain0 c lines0" using builder_Checkpoint_commits [OF assms(2)] by blast
  have "nat (c_size c) = length lines0" using cm by (simp add: commits_def)
  with assms(1) have "c_root c = digest_of_hash (Root (sha256 C) (map (LeafHash (sha256 C)) (take (length lines0) lines)))"
    by (simp only: cp_matches_def merkle_Digest_eq)
  moreover have "c_root c = digest_of_hash (Root (sha256 C) (map (LeafHash (sha256 C)) lines0))"
    using cm by (simp add: commits_def merkle_Digest_eq)
  ultimately have "Root (sha256 C) (map (LeafHash (sha256 C)) (take (length lines0) lines)) = Root (sha256 C) (map (LeafHash (sha256 C)) lines0)"
    by simp
  moreover have "length lines0 \<le> length lines" using assms(1) cm by (simp add: cp_matches_def commits_def)
  ultimately have "take (length lines0) lines = lines0"
    using Root_inj [of "take (length lines0) lines" lines0 "sha256 C"] assms(3) by (simp add: Un_commute)
  then show ?thesis using assms(1) cm by (simp add: commits_def cp_matches_def)
qed

text \<open>
  C9: truncation and rewriting are detected below a checkpoint: if a log verifies against a checkpoint
  that the builder made over some lines, the log begins with exactly those lines, unless two of the
  strings hashed for the two trees collide.
\<close>

theorem checkpoint_pins_prefix:
  assumes "VerifyAll C log chainID K ks cps revs = Inr (rep, k)" "c \<in> set cps"
    and "builder_Checkpoint C (build C chain0 lines0) ts = Inr c"
    and "no_collision (sha256 C) (tree_pre (sha256 C) lines0
      \<union> tree_pre (sha256 C) (take (length lines0) (fst (scan_lines log))))"
  shows "take (length lines0) (fst (scan_lines log)) = lines0 \<and> chain0 = chainID
    \<and> int (length lines0) \<le> rep_Checkpointed rep"
proof -
  obtain es where es: "scan_lines log = (map e_line es, False)" "cp_matches C chainID (map e_line es) c"
    "rep = report_of C chainID cps es"
    using assms(1,2) by (auto simp: VerifyAll_Inr verified_log_def)
  have "take (length lines0) (map e_line es) = lines0 \<and> chain0 = chainID \<and> c_size c = int (length lines0)"
    using matching_prefix [OF es(2) assms(3)] assms(4) es(1) by simp
  moreover have "c_size c \<le> Max (c_size ` set cps)" using assms(2) by simp
  ultimately show ?thesis using es(1,3) assms(2) by (auto simp: report_of_def covered_by_def)
qed

section \<open>The verifier as a specification\<close>

text \<open>
  C1: \<open>VerifyAll\<close> refines its specification: it returns a report exactly when the log scans into lines
  that form a non-empty sequence of admissible receipts (authentic, linked, and with references that
  the rules allow) and every checkpoint matches a prefix, and then the report and the keys are the
  ones of that sequence.
\<close>

theorem VerifyAll_refines:
  "VerifyAll C log chainID K ks cps revs = Inr (rep, ks') \<longleftrightarrow>
     (\<exists>es. verified_log C log chainID K ks cps revs es \<and> rep = report_of C chainID cps es \<and> ks' = keys_after K ks es)"
  by (rule VerifyAll_Inr)

section \<open>Executed calls were authorised\<close>

lemma log_ok_admissible:
  "log_ok C K ks chainID revs es \<Longrightarrow> i < length es \<Longrightarrow> body_admissible K ks (take i es) (es ! i)"
  by (drule log_okD, assumption) (simp add: admissible_def body_admissible_def)

lemma decision_at_take:
  "decision_at (take i es) j = Some p \<Longrightarrow> i \<le> length es \<Longrightarrow> 0 \<le> j \<and> nat j < i \<and> e_rcpt (es ! nat j) = p \<and> r_type p = TypeDecision"
  by (auto simp: decision_at_def split: if_splits)

lemma result_after_decision:
  assumes "log_ok C K ks chainID revs es" "i < length es" "r_type (e_rcpt (es ! i)) = TypeResult"
  shows "\<exists>x p. r_result (e_rcpt (es ! i)) = Some x \<and> 0 \<le> res_decision_seq x \<and> nat (res_decision_seq x) < i \<and>
    p = e_rcpt (es ! nat (res_decision_seq x)) \<and> r_type p = TypeDecision \<and> same_call p (e_rcpt (es ! i)) \<and>
    \<not> has_result (take i es) (res_decision_seq x) \<and>
    (result_of p = Allow \<or> result_of p = RequireApproval \<and>
      (\<exists>a. approval_of (take i es) (res_decision_seq x) = Some a \<and> a_outcome a = Approved \<and>
         r_ts (e_rcpt (es ! i)) \<le> a_expires_ts a))"
proof -
  have "result_admissible (take i es) (e_rcpt (es ! i))"
    using log_ok_admissible [OF assms(1,2)] assms(3) by (simp add: body_admissible_def)
  then obtain x p where xp: "r_result (e_rcpt (es ! i)) = Some x" "decision_at (take i es) (res_decision_seq x) = Some p"
    "same_call p (e_rcpt (es ! i))" "\<not> has_result (take i es) (res_decision_seq x)"
    "result_of p = Allow \<or> result_of p = RequireApproval \<and>
      (\<exists>a. approval_of (take i es) (res_decision_seq x) = Some a \<and> a_outcome a = Approved \<and>
         r_ts (e_rcpt (es ! i)) \<le> a_expires_ts a)"
    unfolding result_admissible_def by blast
  from decision_at_take [OF xp(2)] assms(2) xp show ?thesis by (intro exI [of _ x] exI [of _ p]) auto
qed

lemma approval_of_take:
  assumes "log_ok C K ks chainID revs es" "i \<le> length es" "approval_of (take i es) j = Some a"
  shows "\<exists>k < i. r_type (e_rcpt (es ! k)) = TypeApproval \<and> r_approval (e_rcpt (es ! k)) = Some a \<and> a_decision_seq a = j \<and>
    approval_admissible (take k es) (e_rcpt (es ! k))"
proof -
  obtain e where "find (approval_for j) (take i es) = Some e" "r_approval (e_rcpt e) = Some a"
    using assms(3) by (auto simp: approval_of_def split: option.splits)
  then obtain k where k: "k < i" "approval_for j (es ! k)" "r_approval (e_rcpt (es ! k)) = Some a"
    using assms(2) by (auto simp: find_Some_iff)
  then have "r_type (e_rcpt (es ! k)) = TypeApproval" "a_decision_seq a = j" by (auto simp: approval_for_def)
  moreover have "body_admissible K ks (take k es) (es ! k)" using log_ok_admissible [OF assms(1)] k(1) assms(2) by simp
  ultimately show ?thesis using k by (auto simp: body_admissible_def)
qed

lemma one_result:
  assumes "log_ok C K ks chainID revs es" "i < length es" "k < length es" "result_for j (es ! i)" "result_for j (es ! k)"
  shows "i = k"
proof -
  have "\<not> i < k" if k: "k < length es" "result_for j (es ! i)" "result_for j (es ! k)" for i k
  proof
    assume "i < k"
    from k(3) have t: "r_type (e_rcpt (es ! k)) = TypeResult" "\<And>x. r_result (e_rcpt (es ! k)) = Some x \<Longrightarrow> res_decision_seq x = j"
      by (auto simp: result_for_def)
    have "es ! i \<in> set (take k es)" using \<open>i < k\<close> k(1) by (auto simp: in_set_conv_nth)
    then have "has_result (take k es) j" using k(2) by (auto simp: has_result_def list_ex_iff)
    with result_after_decision [OF assms(1) k(1) t(1)] t(2) show False by auto
  qed
  then show ?thesis using assms by (meson linorder_neqE_nat)
qed

text \<open>
  The call whose result is entry \<open>i\<close> was authorised by decision \<open>d\<close>: an allow decision, or one that
  requires approval with an approval between the two.
\<close>

definition approved_between :: "entry list \<Rightarrow> nat \<Rightarrow> nat \<Rightarrow> bool" where
  "approved_between es d i \<longleftrightarrow> (\<exists>k a. d < k \<and> k < i \<and> r_approval (e_rcpt (es ! k)) = Some a \<and>
     a_decision_seq a = int d \<and> same_call (e_rcpt (es ! d)) (e_rcpt (es ! k)) \<and> a_outcome a = Approved \<and>
     r_ts (e_rcpt (es ! i)) \<le> a_expires_ts a \<and> map_option principal (r_actor (e_rcpt (es ! d))) \<noteq> Some (a_approver a))"

definition authorised_by :: "entry list \<Rightarrow> nat \<Rightarrow> nat \<Rightarrow> bool" where
  "authorised_by es i d \<longleftrightarrow> d < i \<and> map_option res_decision_seq (r_result (e_rcpt (es ! i))) = Some (int d) \<and>
     r_type (e_rcpt (es ! d)) = TypeDecision \<and> same_call (e_rcpt (es ! d)) (e_rcpt (es ! i)) \<and>
     (\<forall>k < length es. k \<noteq> i \<longrightarrow> \<not> result_for (int d) (es ! k)) \<and>
     (result_of (e_rcpt (es ! d)) = Allow \<or> result_of (e_rcpt (es ! d)) = RequireApproval \<and> approved_between es d i)"

lemma approved_between:
  assumes "log_ok C K ks chainID revs es" "i < length es" "approval_of (take i es) (int d) = Some a"
    and "a_outcome a = Approved" "r_ts (e_rcpt (es ! i)) \<le> a_expires_ts a"
  shows "approved_between es d i"
proof -
  obtain k where k: "k < i" "r_approval (e_rcpt (es ! k)) = Some a" "a_decision_seq a = int d"
    "approval_admissible (take k es) (e_rcpt (es ! k))"
    using approval_of_take [OF assms(1) _ assms(3)] assms(2) by auto
  then obtain p where "decision_at (take k es) (int d) = Some p" "same_call p (e_rcpt (es ! k))"
    "map_option principal (r_actor p) \<noteq> Some (a_approver a)"
    by (auto simp: approval_admissible_def)
  with decision_at_take [of k es "int d" p] k assms(2,4,5) show ?thesis by (auto simp: approved_between_def)
qed

lemma result_authorised:
  assumes "log_ok C K ks chainID revs es" "i < length es" "r_type (e_rcpt (es ! i)) = TypeResult"
  shows "\<exists>d. authorised_by es i d"
proof -
  obtain x where x: "r_result (e_rcpt (es ! i)) = Some x" "0 \<le> res_decision_seq x" "nat (res_decision_seq x) < i"
    "r_type (e_rcpt (es ! nat (res_decision_seq x))) = TypeDecision"
    "same_call (e_rcpt (es ! nat (res_decision_seq x))) (e_rcpt (es ! i))"
    "result_of (e_rcpt (es ! nat (res_decision_seq x))) = Allow \<or>
      result_of (e_rcpt (es ! nat (res_decision_seq x))) = RequireApproval \<and>
      (\<exists>a. approval_of (take i es) (res_decision_seq x) = Some a \<and> a_outcome a = Approved \<and>
       r_ts (e_rcpt (es ! i)) \<le> a_expires_ts a)"
    using result_after_decision [OF assms] by blast
  define d where "d = nat (res_decision_seq x)"
  have d: "res_decision_seq x = int d" "nat (res_decision_seq x) = d" using x(2) by (simp_all add: d_def)
  have "result_for (int d) (es ! i)" using x(1) d(1) assms(3) by (simp add: result_for_def)
  then have "\<forall>k < length es. k \<noteq> i \<longrightarrow> \<not> result_for (int d) (es ! k)"
    using one_result [OF assms(1,2)] by blast
  moreover have "approval_of (take i es) (int d) = Some a \<Longrightarrow> a_outcome a = Approved \<Longrightarrow>
      r_ts (e_rcpt (es ! i)) \<le> a_expires_ts a \<Longrightarrow> approved_between es d i" for a
    by (rule approved_between [OF assms(1,2)])
  ultimately have "authorised_by es i d"
    using d(1) x(1) x(3-6) [unfolded d(2), unfolded d(1)] by (auto simp: authorised_by_def)
  then show ?thesis ..
qed

text \<open>
  C2: no call was executed without authorisation: in a verified log every result receipt answers one
  earlier decision about the same task, actor and call that was not denied; if that decision required
  an approval, an approval receipt between the two approved it, was made for that decision and call
  by someone other than the requesting principal, and had not expired; and no two results answer the
  same decision.
\<close>

theorem executed_calls_authorised:
  assumes "VerifyAll C log chainID K ks cps revs = Inr (rep, ks')"
  shows "\<exists>es. scan_lines log = (map e_line es, False) \<and> rep = report_of C chainID cps es \<and>
    (\<forall>i < length es. authentic C K ks (take i es) (es ! i) \<and>
      (r_type (e_rcpt (es ! i)) = TypeResult \<longrightarrow> (\<exists>d. authorised_by es i d)))"
proof -
  obtain es where es: "scan_lines log = (map e_line es, False)" "log_ok C K ks chainID revs es" "rep = report_of C chainID cps es"
    using assms by (auto simp: VerifyAll_Inr verified_log_def)
  show ?thesis
    by (rule exI [of _ es]) (simp add: es log_ok_authentic [OF es(2)] result_authorised [OF es(2)])
qed

section \<open>One key signs at a time\<close>

lemma next_signer:
  assumes "log_ok C K ks chainID revs es" "Suc i < length es"
  shows "e_kid (es ! Suc i) = e_kid (es ! i) \<and> r_type (e_rcpt (es ! i)) \<noteq> TypeKeyRotation \<or>
    (\<exists>rot. r_type (e_rcpt (es ! i)) = TypeKeyRotation \<and> r_rotation (e_rcpt (es ! i)) = Some rot \<and>
       rot_from rot = e_kid (es ! i) \<and> rot_to rot = e_kid (es ! Suc i))"
proof -
  have "take (Suc i) es = take i es @ [es ! i]" using assms(2) by (simp add: take_Suc_conv_app_nth)
  then have s: "e_kid (es ! Suc i) = signer_after (take i es @ [es ! i])"
    using log_ok_linked [OF assms] assms(2) by (auto simp: linked_def)
  have b: "body_admissible K ks (take i es) (es ! i)" using log_ok_admissible [OF assms(1)] assms(2) by simp
  have v: "receipt_Validate (e_rcpt (es ! i)) = Inr ()" using log_ok_Validate [OF assms(1)] assms(2) by simp
  show ?thesis
    using s b Validate_refs(4) [OF v]
    by (cases "r_rotation (e_rcpt (es ! i))") (auto simp: signer_after_snoc body_admissible_def rotation_admissible_def)
qed

text \<open>
  one key signs at a time: in a verified log the key ID changes only at a rotation receipt, which
  the outgoing key signed and which names the key ID that signs the next receipt.
\<close>

theorem one_key_signs:
  assumes "VerifyAll C log chainID K ks cps revs = Inr (rep, ks')"
  shows "\<exists>es. scan_lines log = (map e_line es, False) \<and> (\<forall>i. Suc i < length es \<longrightarrow>
    (e_kid (es ! Suc i) = e_kid (es ! i) \<and> r_type (e_rcpt (es ! i)) \<noteq> TypeKeyRotation \<or>
     (\<exists>rot. r_rotation (e_rcpt (es ! i)) = Some rot \<and> rot_from rot = e_kid (es ! i) \<and> rot_to rot = e_kid (es ! Suc i)))) \<and>
    (\<forall>i < length es. authentic C K ks (take i es) (es ! i))"
proof -
  obtain es where es: "scan_lines log = (map e_line es, False)" "log_ok C K ks chainID revs es"
    using assms by (auto simp: VerifyAll_Inr verified_log_def)
  show ?thesis
    by (rule exI [of _ es]) (use next_signer [OF es(2)] log_ok_authentic [OF es(2)] es(1) in blast)
qed

text \<open>
  revocation is a bound on positions: in a verified log every receipt that a revoked key signed
  lies before the size from which its revocation takes effect.
\<close>

theorem revoked_key_bounded:
  assumes "VerifyAll C log chainID K ks cps revs = Inr (rep, ks')" "v \<in> set revs"
  shows "\<exists>es. scan_lines log = (map e_line es, False) \<and> (\<forall>i < length es. authentic C K ks (take i es) (es ! i) \<and>
    (e_kid (es ! i) = rv_Kid v \<longrightarrow> int i < rv_EffectiveSize v))"
proof -
  obtain es where es: "scan_lines log = (map e_line es, False)" "log_ok C K ks chainID revs es"
    using assms by (auto simp: VerifyAll_Inr verified_log_def)
  have "int i < rv_EffectiveSize v" if "i < length es" "e_kid (es ! i) = rv_Kid v" for i
  proof -
    have "\<forall>v \<in> set revs. rv_Kid v = e_kid (es ! i) \<longrightarrow> int (length (take i es)) < rv_EffectiveSize v"
      using log_ok_linked [OF es(2) that(1)] by (simp add: linked_def)
    then show ?thesis using that assms(2) by force
  qed
  then show ?thesis by (intro exI [of _ es]) (simp add: es(1) log_ok_authentic [OF es(2)])
qed

section \<open>The receipts are those of the lines\<close>

text \<open>A line fixes its receipt, whoever's key verifies it.\<close>

lemma authentic_lines_same:
  assumes "log_ok C K ks chainID revs es" "log_ok C K' ks' chainID' revs' es'" "map e_line es = map e_line es'"
  shows "map e_rcpt es = map e_rcpt es'"
proof -
  have n: "length es = length es'" using assms(3) map_eq_imp_length_eq by blast
  have "e_rcpt (es ! i) = e_rcpt (es' ! i)" if "i < length es" for i
  proof -
    have "e_line (es ! i) = e_line (es' ! i)" using that assms(3) n by (metis nth_map)
    then show ?thesis
      using receipt_of_line [OF log_ok_authentic [OF assms(1) that] log_ok_authentic [OF assms(2)]] that n by simp
  qed
  then show ?thesis using n by (auto intro: nth_equalityI)
qed

lemma same_receipts:
  assumes "map e_rcpt es = map e_rcpt es'"
  shows "decision_at es = decision_at es'" "approval_of es = approval_of es'"
proof -
  have n: "length es = length es'" using assms map_eq_imp_length_eq by blast
  have nth: "e_rcpt (es ! i) = e_rcpt (es' ! i)" if "i < length es" for i using that assms n by (metis nth_map)
  show "decision_at es = decision_at es'" using n nth by (auto simp: fun_eq_iff decision_at_def nat_less_iff)
  have "(case find (approval_for j) es of None \<Rightarrow> None | Some e \<Rightarrow> r_approval (e_rcpt e)) =
      (case find (approval_for j) es' of None \<Rightarrow> None | Some e \<Rightarrow> r_approval (e_rcpt e))" for j
    using assms by (induction es es' rule: list_induct2') (auto simp: approval_for_def)
  then show "approval_of es = approval_of es'" by (simp add: fun_eq_iff approval_of_def)
qed

lemma same_receipts_more:
  assumes "map e_rcpt es = map e_rcpt es'"
  shows "has_result es = has_result es'" "keys_after K ks es = keys_after K ks es'"
proof -
  have "list_ex (result_for j) es = list_ex (result_for j) es'" for j
    using assms by (induction es es' rule: list_induct2') (auto simp: result_for_def)
  then show "has_result es = has_result es'" by (simp add: fun_eq_iff has_result_def)
  have "foldl (\<lambda>k e. case accept_rotation K k (e_rcpt e) of None \<Rightarrow> k | Some k' \<Rightarrow> k') ks es =
      foldl (\<lambda>k r. case accept_rotation K k r of None \<Rightarrow> k | Some k' \<Rightarrow> k') ks (map e_rcpt es)" for es :: "entry list"
    by (induction es arbitrary: ks) simp_all
  then show "keys_after K ks es = keys_after K ks es'" unfolding keys_after_def by (simp add: assms)
qed

lemma same_receipts_body:
  assumes "map e_rcpt es = map e_rcpt es'" "e_rcpt e = e_rcpt e'" "e_kid e = e_kid e'"
  shows "body_admissible K ks es e \<longleftrightarrow> body_admissible K ks es' e'"
  unfolding body_admissible_def approval_admissible_def result_admissible_def rotation_admissible_def
    same_receipts [OF assms(1)] same_receipts_more [OF assms(1)] assms(2,3) ..

end
