(* ===== verification/AppendLog.thy ===== *)
theory AppendLog
  imports LogSpec
begin

text \<open>
  The writer and the verifier together: what an appender with an honest signer appends to a log that
  verifies extends it to a log that verifies, as long as the receipt refers back the way
  \<open>body_admissible\<close> demands.
\<close>

text \<open>The appender stands at the end of a log.\<close>

definition appender_at :: "'x crypto_scheme \<Rightarrow> string \<Rightarrow> entry list \<Rightarrow> appender \<Rightarrow> bool" where
  "appender_at C chainID es a \<longleftrightarrow> ap_chainID a = chainID \<and> ap_next a = int (length es) \<and>
     ap_lastTS a = (if es = [] then [] else r_ts (e_rcpt (last es))) \<and>
     (if es = [] then (\<exists>pub. signer_public (ap_key a) = Some pub \<and>
        GenesisPrev C (NewParams C chainID (ap_kid a) pub) = Inr (ap_prev a))
      else ap_prev a = digest_SHA256 (sha256 C) (e_line (last es)))"

lemma NewAppender_at: "NewAppender C key kid chainID = Inr a \<Longrightarrow>
    appender_at C chainID [] a \<and> ap_key a = key \<and> ap_kid a = kid"
  by (auto simp: NewAppender_def appender_at_def)

lemma fill_simps [simp]:
  "r_chain_id (fill a r) = ap_chainID a" "r_seq (fill a r) = ap_next a" "r_prev (fill a r) = ap_prev a"
  "r_ts (fill a r) = r_ts r" "r_type (fill a r) = r_type r"
  by (simp_all add: fill_def)

lemma signed_line_of_Sign:
  assumes "jcs_ok (jcs C)" "receipt_Sign C mk kid r = Inr s" "signed_Line C s = Inr line"
  shows "ParseLine C line = Inr s"
  using SignPayload_line [OF assms(1), of mk kid _ s] assms(2,3) by (auto simp: receipt_Sign_def)

lemma signed_kid_of_Sign:
  assumes "jcs_ok (jcs C)" "receipt_Sign C mk kid r = Inr s" "utf8_valid kid"
  shows "signed_KeyID C s = Inr kid"
proof -
  obtain p where "SignPayload C mk kid p = Inr s" using assms(2) by (auto simp: receipt_Sign_def)
  from SignPayload_header [OF assms(1) this assms(3)] show ?thesis
    by (simp add: signed_KeyID_def new_header_def)
qed

definition new_entry :: "appender \<Rightarrow> public_key \<Rightarrow> bytes \<Rightarrow> receipt \<Rightarrow> entry" where
  "new_entry a p line r = \<lparr>e_line = line, e_kid = ap_kid a, e_pub = p, e_rcpt = fill a r\<rparr>"

text \<open>The conditions under which the verifier accepts the appender's key here.\<close>

definition key_accepted ::
  "'k keys \<Rightarrow> 'k \<Rightarrow> revoked list \<Rightarrow> entry list \<Rightarrow> string \<Rightarrow> public_key \<Rightarrow> bool" where
  "key_accepted K ks revs es kid p \<longleftrightarrow> k_Resolve K (keys_after K ks es) kid = Some p \<and>
     (es \<noteq> [] \<longrightarrow> kid = signer_after es) \<and>
     (\<forall>rev \<in> set revs. rv_Kid rev = kid \<longrightarrow> int (length es) < rv_EffectiveSize rev)"

context signing
begin

lemma Append_extends:
  assumes "log_ok C K ks chainID revs es" "appender_at C chainID es a" "Append C a r = (a', Inr (s, line))"
    and "ap_key a = Some k" "good k" "sgn_Public k = Some p" "jcs_ok (jcs C)" "utf8_valid (ap_kid a)"
    and "receipt_utf8 (fill a r)" "key_accepted K ks revs es (ap_kid a) p"
    and "body_admissible K ks es (new_entry a p line r)"
  shows "log_ok C K ks chainID revs (es @ [new_entry a p line r])
    \<and> appender_at C chainID (es @ [new_entry a p line r]) a'"
proof -
  have ap: "ap_lastTS a \<le> r_ts r" "receipt_Sign C (Some k) (ap_kid a) (fill a r) = Inr s" "signed_Line C s = Inr line"
    "a' = a\<lparr>ap_prev := digest_SHA256 (sha256 C) line, ap_lastTS := r_ts r, ap_next := ap_next a + 1\<rparr>"
    using assms(3,4) by (auto simp: Append_Inr)
  have "authentic C K ks es (new_entry a p line r)"
    using signed_line_of_Sign [OF assms(7) ap(2,3)] signed_kid_of_Sign [OF assms(7) ap(2) assms(8)]
      receipt_Sign_verifies [OF assms(5,7,8,9) ap(2) assms(6)] assms(10)
    by (auto simp: authentic_def new_entry_def key_accepted_def)
  moreover have "linked C chainID revs es (new_entry a p line r)"
    using assms(2,4,6,10) ap(1)
    by (auto simp: linked_def new_entry_def key_accepted_def appender_at_def prev_after_def signer_public_def
        split: if_splits)
  ultimately have "admissible C K ks chainID revs es (new_entry a p line r)"
    using assms(11) by (simp add: admissible_body)
  moreover have "appender_at C chainID (es @ [new_entry a p line r]) a'"
    using assms(2) ap(4) by (auto simp: appender_at_def new_entry_def)
  ultimately show ?thesis using assms(1) by (simp add: log_ok_snoc)
qed

lemma Append_succeeds:
  assumes "ap_key a = Some k" "good k" "sgn_Public k = Some p" "suite_Name (pk_suite p) = Alg"
    and "\<And>m. \<exists>sig. sgn_Sign k m = Inr sig" "jcs_ok (jcs C)" "utf8_valid (ap_kid a)" "id_ok (ap_kid a)"
    and "receipt_utf8 (fill a r)" "receipt_Validate (fill a r) = Inr ()" "ap_lastTS a \<le> r_ts r"
  shows "\<exists>a' s line. Append C a r = (a', Inr (s, line))"
proof -
  have seq: "ap_next a \<le> MaxSeq"
    using Validate_header [OF assms(10)] by (simp add: header_ok_def MaxSeq_def MaxSafeInteger_def)
  obtain payload where pl: "canonical_Encode (jcs C) (json_of_receipt (fill a r)) = Inr payload"
    "canonical_Check (jcs C) payload = Inr ()"
    using canonical_Encode_ok [OF assms(6), of "json_of_receipt (fill a r)"] assms(9) receipt_json_safe [OF assms(10)]
    by (auto simp: receipt_utf8_def)
  obtain hdr where "canonical_Encode (jcs C) (json_of_header (new_header (ap_kid a))) = Inr hdr"
    using canonical_Encode_ok [OF assms(6), of "json_of_header (new_header (ap_kid a))"] assms(7)
    by (auto simp: json_header_ok)
  moreover obtain sig where "sgn_Sign k (signingInput \<lparr>s_payload = b64_encode payload, s_protected = b64_encode hdr,
      s_signature = []\<rparr>) = Inr sig" using assms(5) by blast
  ultimately obtain s where s: "SignPayload C (Some k) (ap_kid a) payload = Inr s"
    using assms(3,4,8) pl(2) by (auto simp: SignPayload_def Let_def)
  obtain line where "signed_Line C s = Inr line" using SignPayload_line [OF assms(6) s] by blast
  with s pl(1) assms(1,10,11) seq show ?thesis by (auto simp: Append_Inr receipt_Sign_def)
qed

end

text \<open>A line that was signed fixes its receipt.\<close>

lemma line_fixes_receipt:
  assumes "jcs_ok (jcs C)" "receipt_Sign C mk kid r = Inr s" "signed_Line C s = Inr line" "receipt_utf8 r"
    and "ParseLine C line = Inr s'" "receipt_Verify C q s' = Inr r'"
  shows "r' = r"
proof -
  obtain payload where pl: "receipt_Validate r = Inr ()" "SignPayload C mk kid payload = Inr s"
    "canonical_Encode (jcs C) (json_of_receipt r) = Inr payload"
    using assms(2) by (auto simp: receipt_Sign_def)
  have "DecodeStrict (jcs C) dec_receipt json_of_receipt payload = Inr r"
    using assms(4) receipt_json_safe [OF pl(1)] pl(3) dec_receipt_sorted
    by (intro DecodeStrict_Encode [OF assms(1)]) (auto simp: receipt_utf8_def)
  moreover have "s' = s" using signed_line_of_Sign [OF assms(1-3)] assms(5) by simp
  moreover have "b64_decode (s_payload s) = Some payload"
    using pl(2) by (auto simp: SignPayload_Inr b64_decode_encode)
  ultimately show ?thesis using assms(6) by (auto simp: receipt_Verify_Inr VerifyPayload_Inr)
qed

end
