(* ===== verification/Sample.thy ===== *)
theory Sample
  imports AppendLog
begin

text \<open>
  A concrete instance on which the properties of logs are exercised: library functions that have the
  behaviour the theorems assume of them, a key, and a log of a decision and its result written by the
  appender.
\<close>

section \<open>Printed JSON is one line of bounded length\<close>

definition printable :: "string \<Rightarrow> bool" where
  "printable s \<longleftrightarrow> list_all (\<lambda>c. 32 \<le> byte c) s"

lemma printable_simps [simp]:
  "printable []" "printable (c # s) \<longleftrightarrow> 32 \<le> byte c \<and> printable s"
  "printable (s @ t) \<longleftrightarrow> printable s \<and> printable t"
  by (simp_all add: printable_def)

lemma byte_hex_digit: "32 \<le> byte (hex_digit (n mod 16))"
proof -
  have "n mod 16 < 16" by simp
  then show ?thesis by (cases "n mod 16 < 10") (simp_all add: hex_digit_byte)
qed

lemma printable_hex4: "printable (hex4 r)" "length (hex4 r) = 6"
  by (simp_all add: hex4_def byte_hex_digit)

lemma printable_raw:
  assumes "decode_rune s = Some (r, n)" "32 \<le> r"
  shows "printable (take n s)"
proof -
  consider "r < 128" | "list_all (\<lambda>c. 128 \<le> byte c) (take n s)"
    using decode_rune_small [OF assms(1)] by auto
  then show ?thesis
  proof cases
    case 1
    then have "take n s = [char_of r]" using decode_rune_1 [OF assms(1)] by blast
    moreover have "byte (char_of r) = r" using 1 by (intro byte_char_of) simp
    ultimately show ?thesis using assms(2) by (simp del: of_char_of)
  next
    case 2
    then show ?thesis by (auto simp: printable_def list_all_iff)
  qed
qed

lemma escape_rune_bounds:
  assumes "decode_rune s = Some (r, n)"
  shows "printable (escape_rune r (take n s))" "length (escape_rune r (take n s)) \<le> 6 * n"
proof -
  have n: "0 < n" "n \<le> length s" using decode_rune_width [OF assms] by auto
  have esc: "printable [char_of (92 :: nat), char_of (34 :: nat)]" "printable [char_of (92 :: nat), char_of (92 :: nat)]"
    "printable [char_of (92 :: nat), CHR ''b'']" "printable [char_of (92 :: nat), CHR ''t'']"
    "printable [char_of (92 :: nat), CHR ''n'']" "printable [char_of (92 :: nat), CHR ''f'']"
    "printable [char_of (92 :: nat), CHR ''r'']" by simp_all
  show "printable (escape_rune r (take n s))"
    using esc printable_hex4 printable_raw [OF assms] unfolding escape_rune_def by (auto simp del: printable_simps)
  show "length (escape_rune r (take n s)) \<le> 6 * n"
    using n printable_hex4(2) unfolding escape_rune_def by auto
qed

lemma escape_string_bounds: "printable (escape_string s) \<and> length (escape_string s) \<le> 6 * length s"
proof (induction s rule: escape_string.induct)
  case (1 s)
  show ?case
  proof (cases "s = []")
    case True
    then show ?thesis by (subst (1 2) escape_string.simps) simp
  next
    case False
    show ?thesis
    proof (cases "decode_rune s")
      case None
      have e: "escape_string s = hex4 65533 @ escape_string (tl s)"
        using None False by (subst escape_string.simps) simp
      obtain c t where "s = c # t" using False by (cases s) auto
      with 1(1) [OF False None] printable_hex4 [of 65533] show ?thesis unfolding e by simp
    next
      case (Some p)
      obtain r n where p: "p = (r, n)" by (cases p)
      have e: "escape_string s = escape_rune r (take n s) @ escape_string (drop n s)"
        using Some p False by (subst escape_string.simps) simp
      have "n \<le> length s" using decode_rune_width Some p by blast
      then obtain m where "length s = n + m" by (auto simp: le_iff_add)
      with 1(2) [OF False Some p [symmetric]] escape_rune_bounds [of s r n] Some p show ?thesis by (simp add: e)
    qed
  qed
qed

text \<open>An upper bound of the printed length, computed on the value.\<close>

fun weight :: "json \<Rightarrow> nat" where
  "weight JNull = 4"
| "weight (JBool b) = 5"
| "weight (JInt i) = length (show_int i)"
| "weight (JNum s) = length s"
| "weight (JStr s) = 6 * length s + 2"
| "weight (JArr js) = sum_list (map (\<lambda>j. weight j + 1) js) + 2"
| "weight (JObj fs) = sum_list (map (\<lambda>(k, j). 6 * length k + weight j + 4) fs) + 2"

lemma length_commas: "length (commas xs) \<le> sum_list (map (\<lambda>x. length x + 1) xs)"
  by (induction xs rule: commas.induct) auto

lemma length_marshal: "length (marshal j) \<le> weight j"
proof (induction j)
  case (JStr s)
  then show ?case using escape_string_bounds [of s] by (simp add: quote_json_def)
next
  case (JArr js)
  have "length (commas (map marshal js)) \<le> sum_list (map (\<lambda>x. length x + 1) (map marshal js))"
    by (rule length_commas)
  also have "\<dots> \<le> sum_list (map (\<lambda>j. weight j + 1) js)"
    using JArr by (simp only: map_map comp_def) (rule sum_list_mono, simp)
  finally show ?case by simp
next
  case (JObj fs)
  have "length (commas (map member fs)) \<le> sum_list (map (\<lambda>x. length x + 1) (map member fs))"
    by (rule length_commas)
  also have "\<dots> \<le> sum_list (map (\<lambda>(k, j). 6 * length k + weight j + 4) fs)"
    unfolding map_map comp_def
  proof (rule sum_list_mono)
    fix kj assume kj: "kj \<in> set fs"
    obtain k j where p: "kj = (k, j)" by (cases kj)
    have "length (marshal j) \<le> weight j" using JObj.IH [OF kj [unfolded p]] by simp
    then show "length (member kj) + 1 \<le> (case kj of (k, j) \<Rightarrow> 6 * length k + weight j + 4)"
      using escape_string_bounds [of k] by (simp add: p member_def quote_json_def)
  qed
  finally show ?case by (simp only: marshal_obj) simp
qed auto

lemma printable_quote: "printable (quote_json s)"
  using escape_string_bounds [of s] by (simp add: quote_json_def)

lemma printable_commas: "list_all printable xs \<Longrightarrow> printable (commas xs)"
  by (induction xs rule: commas.induct) auto

lemma printable_show_int: "printable (show_int i)"
  using dec_digits_props [of "nat \<bar>i\<bar>"]
  by (auto simp: show_int_def printable_def list_all_iff is_digit_def less_eq_char_def)

lemma printable_marshal: "json_ok j \<Longrightarrow> printable (marshal j)"
proof (induction j)
  case (JArr js)
  then have "list_all printable (map marshal js)" by (auto simp: list_all_iff)
  then show ?case by (simp add: printable_commas)
next
  case (JObj fs)
  then have "list_all printable (map member fs)"
    by (fastforce simp: list_all_iff member_def printable_quote)
  then show ?case by (simp only: marshal_obj) (simp add: printable_commas)
qed (simp_all add: printable_quote printable_show_int)

lemma weight_sort: "weight (sort_json j) = weight j"
proof (induction j)
  case (JArr js)
  then show ?case by (auto intro!: arg_cong [where f = sum_list])
next
  case (JObj fs)
  let ?w = "\<lambda>(k, j). 6 * length k + weight j + 4"
  have "sum_list (map ?w (sort_key fst xs)) = sum_list (map ?w xs)" for xs :: "(string \<times> json) list"
    by (simp flip: sum_mset_sum_list)
  moreover have "map ?w (map (\<lambda>(k, j). (k, sort_json j)) fs) = map ?w fs" using JObj by auto
  ultimately show ?case by (simp only: weight.simps sort_json.simps)
qed simp_all

lemma canonical_Encode_model:
  assumes "json_ok j" "canonical_Encode jcs_model j = Inr b"
  shows "b = marshal (sort_json j)"
  using assms by (auto simp: canonical_Encode_Inr jcs_model_def decode_marshal)

lemma encoded_plain:
  assumes "json_ok j" "canonical_Encode jcs_model j = Inr b" "weight j < maxLine"
  shows "plain_line b"
proof -
  have b: "b = marshal (sort_json j)" using assms(1,2) by (rule canonical_Encode_model)
  have "printable b" using printable_marshal [OF json_ok_sort [OF assms(1)]] b by simp
  then have "newline \<notin> set b" "carriage \<notin> set b"
    by (auto simp: printable_def list_all_iff newline_def carriage_def)
  moreover have "length b < maxLine" using length_marshal [of "sort_json j"] assms(3) by (simp add: b weight_sort)
  ultimately show ?thesis by (simp add: plain_line_def)
qed

lemma length_b64_encode: "length (b64_encode bs) \<le> 2 * length bs + 1"
  by (induction bs rule: b64_encode.induct) auto

section \<open>Library functions and a key\<close>

definition toy_pub :: "mldsa_params \<Rightarrow> bytes" where
  "toy_pub p = replicate (case p of MLDSA44 \<Rightarrow> 1312 | MLDSA65 \<Rightarrow> 1952 | MLDSA87 \<Rightarrow> 2592) (CHR ''p'')"

definition toy_sig :: "mldsa_params \<Rightarrow> bytes" where
  "toy_sig p = replicate (case p of MLDSA44 \<Rightarrow> 2420 | MLDSA65 \<Rightarrow> 3309 | MLDSA87 \<Rightarrow> 4627) (CHR ''s'')"

definition toy :: crypto where
  "toy = \<lparr>sha256 = (\<lambda>b. of_nat (length b)), sha512 = (\<lambda>b. of_nat (length b)), jcs = jcs_model,
     mldsa_public = (\<lambda>p seed. Some (toy_pub p)), mldsa_public_ok = (\<lambda>p k. k = toy_pub p),
     mldsa_sign = (\<lambda>p seed m ctx. Some (toy_sig p)), mldsa_verify = (\<lambda>p k m sig ctx. k = toy_pub p \<and> sig = toy_sig p),
     ed_public = (\<lambda>seed. replicate 32 (CHR ''e'')), ed_sign = (\<lambda>seed m. replicate 64 (CHR ''f'')),
     ed_verify = (\<lambda>k m sig. k = replicate 32 (CHR ''e'') \<and> sig = replicate 64 (CHR ''f''))\<rparr>"

lemma toy_ok: "primitives_ok toy" "jcs_ok (jcs toy)" "jcs toy = jcs_model"
  by (simp_all add: primitives_ok_def toy_def toy_pub_def jcs_ok_model split: mldsa_params.split)

definition toy_public :: public_key where
  "toy_public = \<lparr>pk_suite = MLDSA65Ed25519, pk_mldsa = toy_pub MLDSA65, pk_ed = replicate 32 (CHR ''e'')\<rparr>"

definition toy_private :: private_key where
  "toy_private = \<lparr>sk_suite = MLDSA65Ed25519, sk_mldsa = replicate 32 (CHR ''x''), sk_ed = replicate 32 (CHR ''x''),
     sk_pub = toy_public\<rparr>"

definition toy_signer :: signer where
  "toy_signer = private_signer toy toy_private"

lemma toy_private_new: "NewPrivateKey toy MLDSA65Ed25519 (replicate 64 (CHR ''x'')) = Inr toy_private"
  by (simp add: NewPrivateKey_def SeedSize_def toy_def toy_private_def toy_public_def toy_pub_def MLDSA65Ed25519_def)

lemma toy_signer_ok: "file_signer toy toy_signer"
  unfolding file_signer_def toy_signer_def using toy_ok(1) toy_private_new by blast

lemma toy_signer_simps [simp]:
  "sgn_Public toy_signer = Some toy_public" "suite_Name (pk_suite toy_public) = Alg"
  "sgn_Sign toy_signer m = Inr (toy_sig MLDSA65 @ replicate 64 (CHR ''f''))"
  by (simp_all add: toy_signer_def private_signer_def toy_private_def toy_public_def MLDSA65Ed25519_def Alg_def
      key_Sign_def toy_def toy_sig_def Let_def)

definition toy_keys :: "unit keys" where
  "toy_keys = StaticKeys (\<lambda>kid. if kid = ''k1'' then Some toy_public else None)"

section \<open>A log\<close>

definition sample_actor :: actor where
  "sample_actor = \<lparr>agent = ''a'', principal = ''p''\<rparr>"

definition sample_digest :: string where
  "sample_digest = digest_SHA256 (sha256 toy) []"

definition sample_call :: call where
  "sample_call = \<lparr>tool = ''t'', manifest = sample_digest, args_commitment = sample_digest\<rparr>"

definition sample_receipt :: receipt where
  "sample_receipt = \<lparr>r_v = 1, r_domain = receipt_Domain, r_chain_id = [], r_seq = 0, r_prev = [],
     r_ts = ''2026-01-02T03:04:05.000Z'', r_type = TypeDecision, r_task_id = ''k'', r_actor = Some sample_actor,
     r_call = Some sample_call, r_decision = None, r_result = None, r_approval = None, r_rotation = None\<rparr>"

definition sample_decision :: receipt where
  "sample_decision = sample_receipt\<lparr>r_decision := Some \<lparr>d_result = Allow, d_policy_revision = sample_digest,
     d_rule = [], d_taint = []\<rparr>\<rparr>"

definition sample_result :: receipt where
  "sample_result = sample_receipt\<lparr>r_type := TypeResult, r_result := Some \<lparr>res_decision_seq = 0,
     res_status = StatusError, res_commitment = [], res_taint = []\<rparr>\<rparr>"

definition sample_a0 :: appender where
  "sample_a0 = (case NewAppender toy (Some toy_signer) ''k1'' ''c1'' of Inr a \<Rightarrow> a)"

definition sample_a1 :: appender where
  "sample_a1 = fst (Append toy sample_a0 sample_decision)"

definition line_of :: "appender \<Rightarrow> receipt \<Rightarrow> bytes" where
  "line_of a r = (case snd (Append toy a r) of Inr (s, l) \<Rightarrow> l | Inl _ \<Rightarrow> [])"

definition sample_log :: bytes where
  "sample_log = unlines [line_of sample_a0 sample_decision, line_of sample_a1 sample_result]"

lemma sample_ts: "valid_ts ''2026-01-02T03:04:05.000Z''"
  by code_simp

lemma sample_a0_eq: "NewAppender toy (Some toy_signer) ''k1'' ''c1'' = Inr sample_a0"
proof -
  have "\<exists>b. canonical_Encode (jcs toy) (json_of_params (NewParams toy ''c1'' ''k1'' toy_public)) = Inr b"
    using canonical_Encode_ok [OF toy_ok(2), of "json_of_params (NewParams toy ''c1'' ''k1'' toy_public)"]
    by (auto simp: json_of_params_def NewParams_def GenesisDomain_def Alg_def AlgRef_def utf8_valid_ascii)
  then obtain a where "NewAppender toy (Some toy_signer) ''k1'' ''c1'' = Inr a"
    by (auto simp: NewAppender_def signer_public_def GenesisPrev_def)
  then show ?thesis by (simp add: sample_a0_def)
qed

lemma sample_a0_at:
  "appender_at toy ''c1'' [] sample_a0" "ap_key sample_a0 = Some toy_signer" "ap_kid sample_a0 = ''k1''"
  using NewAppender_at [OF sample_a0_eq] by simp_all

lemma sample_a0_fields:
  "ap_lastTS sample_a0 = []" "ap_chainID sample_a0 = ''c1''" "ap_next sample_a0 = 0" "digest_Valid (ap_prev sample_a0)"
  using sample_a0_at(1) by (auto simp: appender_at_def GenesisPrev_valid)

lemma id_ok_ascii: "s \<noteq> [] \<Longrightarrow> length s \<le> 256 \<Longrightarrow> list_all (\<lambda>c. 32 \<le> byte c \<and> byte c < 127) s \<Longrightarrow> id_ok s"
  by (auto simp: id_ok_def control_def list_all_iff)

lemma sample_context: "context_ok (fill a sample_decision) sample_actor sample_call"
  "context_ok (fill a sample_result) sample_actor sample_call"
  by (simp_all add: context_ok_def fill_def sample_decision_def sample_result_def sample_receipt_def
      sample_actor_def sample_call_def sample_digest_def id_ok_ascii)

lemma sample_header:
  assumes "ap_chainID a = ''c1''" "digest_Valid (ap_prev a)" "0 \<le> ap_next a" "ap_next a < 2 ^ 53"
  shows "header_ok (fill a sample_decision)" "header_ok (fill a sample_result)"
  using assms sample_ts
  by (simp_all add: header_ok_def fill_def sample_decision_def sample_result_def sample_receipt_def id_ok_ascii)

lemma sample_valid:
  assumes "ap_chainID a = ''c1''" "digest_Valid (ap_prev a)"
  shows "ap_next a = 0 \<Longrightarrow> receipt_Validate (fill a sample_decision) = Inr ()"
    "ap_next a = 1 \<Longrightarrow> receipt_Validate (fill a sample_result) = Inr ()"
proof -
  have "decision_ok (fill a sample_decision) \<lparr>d_result = Allow, d_policy_revision = sample_digest, d_rule = [], d_taint = []\<rparr>"
    by (simp add: decision_ok_def fill_def sample_decision_def sample_receipt_def sample_digest_def)
  moreover have "r_type (fill a sample_decision) = TypeDecision" by (simp add: sample_decision_def sample_receipt_def)
  ultimately show "ap_next a = 0 \<Longrightarrow> receipt_Validate (fill a sample_decision) = Inr ()"
    using sample_header(1) [OF assms] sample_context(1) [of a] Validate_decision by fastforce
  have "ap_next a = 1 \<Longrightarrow> result_ok (fill a sample_result) \<lparr>res_decision_seq = 0, res_status = StatusError,
      res_commitment = [], res_taint = []\<rparr>"
    by (simp add: result_ok_def fill_def sample_result_def sample_receipt_def)
  moreover have "r_type (fill a sample_result) = TypeResult" by (simp add: sample_result_def sample_receipt_def)
  ultimately show "ap_next a = 1 \<Longrightarrow> receipt_Validate (fill a sample_result) = Inr ()"
    using sample_header(2) [OF assms] sample_context(2) [of a] Validate_result by fastforce
qed

lemma sample_json:
  assumes "ap_chainID a = ''c1''" "digest_Valid (ap_prev a)"
  shows "receipt_utf8 (fill a sample_decision)" "receipt_utf8 (fill a sample_result)"
  using utf8_valid_ascii [OF digest_Valid_ascii [OF assms(2)]] assms(1)
  by (simp_all add: receipt_utf8_def json_of_receipt_def receipt_members_def omit_str_def omit_ptr_def fill_def
      sample_decision_def sample_result_def sample_receipt_def json_of_actor_def json_of_call_def
      json_of_decision_def json_of_result_def omit_strs_def sample_actor_def sample_call_def sample_digest_def
      receipt_Domain_def utf8_valid_ascii receipt_consts)

lemma sample_key_accepted: "key_accepted toy_keys () [] es ''k1'' toy_public \<longleftrightarrow> es = [] \<or> signer_after es = ''k1''"
  by (auto simp: key_accepted_def toy_keys_def StaticKeys_def)

lemma line_of_Append: "Append toy a r = (a', Inr (s, line)) \<Longrightarrow> line_of a r = line"
  by (simp add: line_of_def)

text \<open>One step of the sample: it succeeds, and the log it makes is in order.\<close>

lemma sample_step:
  assumes "log_ok toy toy_keys () ''c1'' [] es" "appender_at toy ''c1'' es a" "ap_key a = Some toy_signer"
    and "ap_kid a = ''k1''" "es = [] \<or> signer_after es = ''k1''" "receipt_utf8 (fill a r)"
    and "receipt_Validate (fill a r) = Inr ()" "ap_lastTS a \<le> r_ts r"
    and "body_admissible toy_keys () es (new_entry a toy_public (line_of a r) r)"
  shows "\<exists>a' s. Append toy a r = (a', Inr (s, line_of a r)) \<and>
    log_ok toy toy_keys () ''c1'' [] (es @ [new_entry a toy_public (line_of a r) r]) \<and>
    appender_at toy ''c1'' (es @ [new_entry a toy_public (line_of a r) r]) a'"
proof -
  obtain a' s line where ap: "Append toy a r = (a', Inr (s, line))"
    using file_keys.Append_succeeds [OF assms(3) toy_signer_ok, of toy_public r] assms toy_ok
    by (auto simp: id_ok_ascii utf8_valid_ascii)
  have l: "line = line_of a r" using line_of_Append [OF ap] by simp
  from file_keys.Append_extends [OF assms(1,2) ap assms(3) toy_signer_ok _ toy_ok(2), of toy_public] assms ap
  show ?thesis unfolding l by (simp add: sample_key_accepted utf8_valid_ascii)
qed

definition sample_e1 :: entry where
  "sample_e1 = new_entry sample_a0 toy_public (line_of sample_a0 sample_decision) sample_decision"

definition sample_e2 :: entry where
  "sample_e2 = new_entry sample_a1 toy_public (line_of sample_a1 sample_result) sample_result"

lemma sample_a1:
  "log_ok toy toy_keys () ''c1'' [] [sample_e1]" "appender_at toy ''c1'' [sample_e1] sample_a1"
  "\<exists>s. Append toy sample_a0 sample_decision = (sample_a1, Inr (s, line_of sample_a0 sample_decision))"
proof -
  have v: "receipt_Validate (fill sample_a0 sample_decision) = Inr ()" "receipt_utf8 (fill sample_a0 sample_decision)"
    using sample_valid(1) [of sample_a0] sample_json(1) [of sample_a0] sample_a0_fields by simp_all
  have "body_admissible toy_keys () [] (new_entry sample_a0 toy_public (line_of sample_a0 sample_decision) sample_decision)"
    by (simp add: body_admissible_def new_entry_def sample_decision_def sample_receipt_def)
  then obtain a' s where "Append toy sample_a0 sample_decision = (a', Inr (s, line_of sample_a0 sample_decision))"
    "log_ok toy toy_keys () ''c1'' [] [sample_e1]" "appender_at toy ''c1'' [sample_e1] a'"
    using sample_step [of "[]" sample_a0 sample_decision] v sample_a0_at sample_a0_fields
    by (auto simp: sample_e1_def)
  then show "log_ok toy toy_keys () ''c1'' [] [sample_e1]" "appender_at toy ''c1'' [sample_e1] sample_a1"
    "\<exists>s. Append toy sample_a0 sample_decision = (sample_a1, Inr (s, line_of sample_a0 sample_decision))"
    by (simp_all add: sample_a1_def)
qed

lemma sample_a1_fields:
  "ap_key sample_a1 = Some toy_signer" "ap_kid sample_a1 = ''k1''" "ap_chainID sample_a1 = ''c1''"
  "ap_next sample_a1 = 1" "digest_Valid (ap_prev sample_a1)" "ap_lastTS sample_a1 = r_ts sample_result"
proof -
  obtain l where a1: "sample_a1 = sample_a0\<lparr>ap_prev := digest_SHA256 (sha256 toy) l, ap_lastTS := r_ts sample_decision,
      ap_next := ap_next sample_a0 + 1\<rparr>"
    using sample_a1(3) by (auto simp only: Append_Inr)
  then show "ap_key sample_a1 = Some toy_signer" "ap_kid sample_a1 = ''k1''" "ap_chainID sample_a1 = ''c1''"
    "ap_next sample_a1 = 1" "digest_Valid (ap_prev sample_a1)" "ap_lastTS sample_a1 = r_ts sample_result"
    unfolding a1 using sample_a0_at(2,3) sample_a0_fields(2,3)
    by (simp_all add: sample_decision_def sample_result_def sample_receipt_def)
qed

lemma sample_result_admissible: "body_admissible toy_keys () [sample_e1] sample_e2"
proof -
  have "decision_at [sample_e1] 0 = Some (fill sample_a0 sample_decision)"
    by (simp add: decision_at_def sample_e1_def new_entry_def sample_decision_def sample_receipt_def)
  moreover have "\<not> has_result [sample_e1] 0"
    by (simp add: has_result_def result_for_def sample_e1_def new_entry_def sample_decision_def sample_receipt_def)
  ultimately show ?thesis
    by (simp add: body_admissible_def result_admissible_def sample_e2_def new_entry_def sample_result_def
        sample_receipt_def sample_decision_def same_call_def result_of_def fill_def)
qed

lemma sample_log_ok: "log_ok toy toy_keys () ''c1'' [] [sample_e1, sample_e2]"
  "\<exists>a' s. Append toy sample_a1 sample_result = (a', Inr (s, line_of sample_a1 sample_result))"
proof -
  have "signer_after [sample_e1] = ''k1''"
    using sample_a0_at by (simp add: signer_after_def sample_e1_def new_entry_def fill_def sample_decision_def sample_receipt_def)
  then show "log_ok toy toy_keys () ''c1'' [] [sample_e1, sample_e2]"
    "\<exists>a' s. Append toy sample_a1 sample_result = (a', Inr (s, line_of sample_a1 sample_result))"
    using sample_step [of "[sample_e1]" sample_a1 sample_result] sample_a1 sample_a1_fields sample_result_admissible
      sample_valid(2) [of sample_a1] sample_json(2) [of sample_a1]
    by (auto simp: sample_e2_def)
qed

section \<open>The lines of the sample\<close>

lemma toy_signed_plain:
  assumes "SignPayload toy (Some toy_signer) ''k1'' payload = Inr s" "signed_Line toy s = Inr line" "length payload < 60000"
  shows "plain_line line"
proof -
  obtain hdr sig where hd: "canonical_Encode (jcs toy) (json_of_header (new_header ''k1'')) = Inr hdr"
    "sig = toy_sig MLDSA65 @ replicate 64 (CHR ''f'')"
    "s = \<lparr>s_payload = b64_encode payload, s_protected = b64_encode hdr, s_signature = b64_encode sig\<rparr>"
    using assms(1) by (auto simp: SignPayload_Inr)
  have "hdr = marshal (sort_json (json_of_header (new_header ''k1'')))"
    using hd(1) by (intro canonical_Encode_model) (simp_all add: toy_ok(3) json_header_ok utf8_valid_ascii)
  moreover have "weight (json_of_header (new_header ''k1'')) < 2000"
    by (simp add: json_of_header_def new_header_def Alg_def AlgRef_def)
  ultimately have h: "length hdr < 2000"
    using length_marshal [of "sort_json (json_of_header (new_header ''k1''))"] by (simp add: weight_sort)
  have g: "length sig < 4000" unfolding hd(2) by (simp add: toy_sig_def)
  have "weight (json_of_signed s) < maxLine"
    using assms(3) h g length_b64_encode [of payload] length_b64_encode [of hdr] length_b64_encode [of sig]
    unfolding hd(3) by (simp add: json_of_signed_def maxLine_def)
  then show ?thesis
    using assms(2) hd(3) by (intro encoded_plain [of "json_of_signed s"])
      (simp_all add: signed_Line_def toy_ok(3) json_signed_ok)
qed

lemma encoded_length:
  assumes "json_ok j" "canonical_Encode (jcs toy) j = Inr payload" "weight j < n"
  shows "length payload < n"
proof -
  have "payload = marshal (sort_json j)" using assms(1,2) by (intro canonical_Encode_model) (simp_all add: toy_ok(3))
  then show ?thesis using length_marshal [of "sort_json j"] assms(3) by (simp add: weight_sort)
qed

lemma line_plain:
  assumes "Append toy a r = (a', Inr (s, line))" "ap_key a = Some toy_signer" "ap_kid a = ''k1''"
    and "receipt_utf8 (fill a r)" "weight (json_of_receipt (fill a r)) < 60000"
  shows "plain_line line"
proof -
  have sg: "receipt_Sign toy (Some toy_signer) ''k1'' (fill a r) = Inr s" "signed_Line toy s = Inr line"
    using assms(1-3) by (auto simp: Append_Inr)
  obtain payload where pl: "canonical_Encode (jcs toy) (json_of_receipt (fill a r)) = Inr payload"
    "SignPayload toy (Some toy_signer) ''k1'' payload = Inr s"
    using sg(1) by (auto simp: receipt_Sign_def)
  have "length payload < 60000"
    by (rule encoded_length [OF _ pl(1) assms(5)]) (use assms(4) in \<open>simp add: receipt_utf8_def\<close>)
  from toy_signed_plain [OF pl(2) sg(2) this] show ?thesis .
qed

lemma digest_Valid_length: "digest_Valid s \<Longrightarrow> length s = 71"
  by (auto simp: digest_Valid_iff digest_prefix_def)

lemma dec_digits_01: "length (dec_digits 0) = 1" "length (dec_digits (Suc 0)) = 1"
  by code_simp+

lemma sample_weight:
  assumes "ap_chainID a = ''c1''" "digest_Valid (ap_prev a)"
  shows "ap_next a = 0 \<Longrightarrow> weight (json_of_receipt (fill a sample_decision)) < 60000"
    "ap_next a = 1 \<Longrightarrow> weight (json_of_receipt (fill a sample_result)) < 60000"
  using assms(1) digest_Valid_length [OF assms(2)] digest_Valid_length [of sample_digest]
  by (simp_all add: json_of_receipt_def receipt_members_def omit_str_def omit_ptr_def fill_def
      sample_decision_def sample_result_def sample_receipt_def json_of_actor_def json_of_call_def
      json_of_decision_def json_of_result_def omit_strs_def sample_actor_def sample_call_def sample_digest_def
      receipt_Domain_def receipt_consts show_int_def dec_digits_01)

lemma sample_lines: "e_line sample_e1 = line_of sample_a0 sample_decision" "e_line sample_e2 = line_of sample_a1 sample_result"
  "plain_line (e_line sample_e1)" "plain_line (e_line sample_e2)"
proof -
  obtain s where a0: "Append toy sample_a0 sample_decision = (sample_a1, Inr (s, line_of sample_a0 sample_decision))"
    using sample_a1(3) by blast
  obtain a2 s2 where a1: "Append toy sample_a1 sample_result = (a2, Inr (s2, line_of sample_a1 sample_result))"
    using sample_log_ok(2) by blast
  show l: "e_line sample_e1 = line_of sample_a0 sample_decision" "e_line sample_e2 = line_of sample_a1 sample_result"
    by (simp_all add: sample_e1_def sample_e2_def new_entry_def)
  show "plain_line (e_line sample_e1)" unfolding l
    using line_plain [OF a0] sample_a0_at sample_a0_fields sample_weight(1) sample_json(1) by simp
  show "plain_line (e_line sample_e2)" unfolding l
    using line_plain [OF a1] sample_a1_fields sample_weight(2) sample_json(2) by simp
qed

text \<open>The log of the decision alone, and the log of the decision and its result.\<close>

definition sample_log1 :: bytes where
  "sample_log1 = unlines [e_line sample_e1]"

lemma sample_scan:
  "scan_lines sample_log1 = ([e_line sample_e1], False)"
  "scan_lines sample_log = ([e_line sample_e1, e_line sample_e2], False)"
  using scan_unlines [of "[e_line sample_e1]"] scan_unlines [of "[e_line sample_e1, e_line sample_e2]"] sample_lines
  by (simp_all add: sample_log1_def sample_log_def)

lemma sample_verified:
  "verified_log toy sample_log1 ''c1'' toy_keys () [] [] [sample_e1]"
  "verified_log toy sample_log ''c1'' toy_keys () [] [] [sample_e1, sample_e2]"
  by (simp_all add: verified_log_def sample_scan sample_a1(1) sample_log_ok(1))

lemma sample_report:
  "VerifyAll toy sample_log1 ''c1'' toy_keys () [] [] = Inr (report_of toy ''c1'' [] [sample_e1], keys_after toy_keys () [sample_e1])"
  "VerifyAll toy sample_log ''c1'' toy_keys () [] [] = Inr (report_of toy ''c1'' [] [sample_e1, sample_e2],
     keys_after toy_keys () [sample_e1, sample_e2])"
  using sample_verified by (auto simp: VerifyAll_Inr)

text \<open>A checkpoint over the first line.\<close>

definition sample_cp :: checkpoint where
  "sample_cp = (case builder_Checkpoint toy (build toy ''c1'' [e_line sample_e1]) ''2026-01-02T03:04:05.000Z'' of Inr c \<Rightarrow> c)"

lemma sample_cp_eq:
  "builder_Checkpoint toy (build toy ''c1'' [e_line sample_e1]) ''2026-01-02T03:04:05.000Z'' = Inr sample_cp"
  using builder_Checkpoint_succeeds [of "[e_line sample_e1]" "''c1''" _ toy, OF _ _ sample_ts]
  by (auto simp: sample_cp_def id_ok_ascii)

lemma sample_cp_verified: "verified_log toy sample_log1 ''c1'' toy_keys () [sample_cp] [] [sample_e1]"
  using builder_Checkpoint_commits [OF sample_cp_eq]
  by (auto simp: verified_log_def sample_scan sample_a1(1) cp_matches_def commits_def)

end
