(* ===== verification/Witnesses.thy ===== *)
theory Witnesses
  imports LogTheorems Sample
begin

text \<open>
  Every property that has hypotheses, applied at a concrete input at which they hold: trees of two
  leaves, and the sample logs.
\<close>

section \<open>Trees\<close>

definition two_leaves :: "hash list" where
  "two_leaves = [5, 7]"

definition zero_hash :: hasher where
  "zero_hash b = 0"

lemma two_leaves_proof: "InclusionProof zero_hash two_leaves (int 1) = Inr [5]"
  by code_simp

theorem VerifyInclusion_complete_witness:
  "VerifyInclusion zero_hash (two_leaves ! 1) 1 2 [5] (Root zero_hash two_leaves) = Inr ()"
  using VerifyInclusion_complete [OF two_leaves_proof] by (simp add: two_leaves_def)

theorem VerifyInclusion_sound_witness: "unat (1 :: 64 word) < length two_leaves \<and> 7 = two_leaves ! unat (1 :: 64 word)"
proof (rule VerifyInclusion_sound)
  show "VerifyInclusion zero_hash 7 1 2 [5] (Root zero_hash two_leaves) = Inr ()" by code_simp
  show "unat (2 :: 64 word) = length two_leaves" by code_simp
  show "no_collision zero_hash (inclusion_pre zero_hash 7 1 2 [5] two_leaves)"
  proof -
    have "split_size 2 = 1" by code_simp
    then have "mth_pre zero_hash [5, 7] = {node_pre 5 7}" using mth_pre_rec [of "[5, 7]" zero_hash] by simp
    then show ?thesis by (simp add: no_collision_def inclusion_pre_def two_leaves_def)
  qed
qed

section \<open>Logs\<close>

theorem head_commits_to_log_witness:
  "fst (scan_lines sample_log1) = fst (scan_lines sample_log1) \<and> ''c1'' = (''c1'' :: string)"
  by (rule head_commits_to_log [OF sample_report(1) sample_report(1) refl])
    (simp add: sample_scan no_collision_def)

theorem checkpoint_pins_prefix_witness:
  "take (length [e_line sample_e1]) (fst (scan_lines sample_log1)) = [e_line sample_e1] \<and> ''c1'' = (''c1'' :: string)
    \<and> int (length [e_line sample_e1]) \<le> rep_Checkpointed (report_of toy ''c1'' [sample_cp] [sample_e1])"
proof (rule checkpoint_pins_prefix)
  show "VerifyAll toy sample_log1 ''c1'' toy_keys () [sample_cp] [] = Inr (report_of toy ''c1'' [sample_cp] [sample_e1],
      keys_after toy_keys () [sample_e1])"
    using sample_cp_verified by (auto simp: VerifyAll_Inr)
  show "no_collision (sha256 toy) (tree_pre (sha256 toy) [e_line sample_e1]
      \<union> tree_pre (sha256 toy) (take (length [e_line sample_e1]) (fst (scan_lines sample_log1))))"
    by (simp add: sample_scan tree_pre_def no_collision_def)
qed (use sample_cp_eq in simp_all)

text \<open>Directories that know the key of the sample accept its first line.\<close>

lemma sample_e1_kid: "e_kid sample_e1 = ''k1''" "e_pub sample_e1 = toy_public" "r_type (e_rcpt sample_e1) = TypeDecision"
  by (simp_all add: sample_e1_def new_entry_def sample_a0_at(3) sample_decision_def sample_receipt_def)

lemma sample_e1_ok:
  assumes "k_Resolve K ks ''k1'' = Some toy_public" "\<forall>rev \<in> set revs. rv_Kid rev = ''k1'' \<longrightarrow> 0 < rv_EffectiveSize rev"
  shows "verified_log toy sample_log1 ''c1'' K ks [] revs [sample_e1]"
proof -
  have "admissible toy toy_keys () ''c1'' [] [] sample_e1" using sample_a1(1) by (simp add: log_ok_def)
  then have "admissible toy K ks ''c1'' revs [] sample_e1"
    using assms by (auto simp: admissible_def authentic_def linked_def keys_after_def sample_e1_kid)
  then show ?thesis by (simp add: verified_log_def log_ok_def sample_scan)
qed

lemma sample_e1_report:
  "k_Resolve K ks ''k1'' = Some toy_public \<Longrightarrow> \<forall>rev \<in> set revs. rv_Kid rev = ''k1'' \<longrightarrow> 0 < rv_EffectiveSize rev \<Longrightarrow>
     VerifyAll toy sample_log1 ''c1'' K ks [] revs = Inr (report_of toy ''c1'' [] [sample_e1], keys_after K ks [sample_e1])"
  unfolding VerifyAll_Inr by (intro exI [of _ "[sample_e1]"] conjI sample_e1_ok refl)

definition sample_revoked :: revoked where
  "sample_revoked = \<lparr>rv_Kid = ''k1'', rv_EffectiveSize = 1\<rparr>"

theorem revoked_key_bounded_witness:
  "\<exists>es. scan_lines sample_log1 = (map e_line es, False) \<and> (\<forall>i < length es. authentic toy toy_keys () (take i es) (es ! i) \<and>
    (e_kid (es ! i) = rv_Kid sample_revoked \<longrightarrow> int i < rv_EffectiveSize sample_revoked))"
  by (rule revoked_key_bounded [OF sample_e1_report [where revs = "[sample_revoked]"]])
    (simp_all add: toy_keys_def StaticKeys_def sample_revoked_def)

theorem executed_calls_authorised_witness:
  "\<exists>es. scan_lines sample_log = (map e_line es, False) \<and>
    report_of toy ''c1'' [] [sample_e1, sample_e2] = report_of toy ''c1'' [] es \<and>
    (\<forall>i < length es. authentic toy toy_keys () (take i es) (es ! i) \<and>
      (r_type (e_rcpt (es ! i)) = TypeResult \<longrightarrow> (\<exists>d. authorised_by es i d)))"
  by (rule executed_calls_authorised [OF sample_report(2)])

theorem one_key_signs_witness:
  "\<exists>es. scan_lines sample_log = (map e_line es, False) \<and> (\<forall>i. Suc i < length es \<longrightarrow>
    (e_kid (es ! Suc i) = e_kid (es ! i) \<and> r_type (e_rcpt (es ! i)) \<noteq> TypeKeyRotation \<or>
     (\<exists>rot. r_rotation (e_rcpt (es ! i)) = Some rot \<and> rot_from rot = e_kid (es ! i) \<and> rot_to rot = e_kid (es ! Suc i)))) \<and>
    (\<forall>i < length es. authentic toy toy_keys () (take i es) (es ! i))"
  by (rule one_key_signs [OF sample_report(2)])

end
