(* ===== verification/Commit.thy ===== *)
theory Commit
  imports Canonical Composite
begin

text \<open>
  Salted commitments (\<open>internal/commit/commit.go\<close>).  A committed value is its JSON; the salt that
  \<open>rand.Read\<close> fills is an argument.
\<close>

definition SaltSize :: nat where
  "SaltSize = 32"

datatype commit_error = SaltLength | CommitEncode canonical_error | MalformedCommitment | CommitMismatch

text \<open>\<open>Compute\<close>, given what \<open>json.Marshal\<close> makes of the value.\<close>

definition commit_Sum :: "'x crypto_scheme \<Rightarrow> bytes \<Rightarrow> bytes \<Rightarrow> commit_error + string" where
  "commit_Sum C salt b =
     (if length salt \<noteq> SaltSize then Inl SaltLength
      else ebind (map_err CommitEncode (canonical_Transform (jcs C) b)) (\<lambda>c.
        Inr (digest_SHA256 (sha256 C) (salt @ c))))"

definition commit_Compute :: "'x crypto_scheme \<Rightarrow> bytes \<Rightarrow> json \<Rightarrow> commit_error + string" where
  "commit_Compute C salt v = commit_Sum C salt (marshal v)"

definition commit_New :: "'x crypto_scheme \<Rightarrow> bytes \<Rightarrow> json \<Rightarrow> commit_error + string \<times> bytes" where
  "commit_New C salt v = ebind (commit_Compute C salt v) (\<lambda>c. Inr (c, salt))"

definition commit_Verify :: "'x crypto_scheme \<Rightarrow> string \<Rightarrow> bytes \<Rightarrow> json \<Rightarrow> commit_error + unit" where
  "commit_Verify C com salt v =
     (if \<not> digest_Valid com then Inl MalformedCommitment
      else ebind (commit_Compute C salt v) (\<lambda>got. if got \<noteq> com then Inl CommitMismatch else Inr ()))"

lemma commit_Compute_Inr:
  "commit_Compute C salt v = Inr com \<longleftrightarrow> length salt = SaltSize \<and>
     (\<exists>c. canonical_Encode (jcs C) v = Inr c \<and> com = digest_SHA256 (sha256 C) (salt @ c))"
  by (auto simp: commit_Compute_def commit_Sum_def canonical_Encode_def)

lemma commit_Verify_Inr: "commit_Verify C com salt v = Inr u \<longleftrightarrow> commit_Compute C salt v = Inr com"
  by (auto simp: commit_Verify_def) (auto simp: commit_Compute_Inr)

lemma commit_Compute_valid: "commit_Compute C salt v = Inr com \<Longrightarrow> digest_Valid com"
  by (auto simp: commit_Compute_Inr)

lemma commit_New_Inr: "commit_New C salt v = Inr (com, s) \<longleftrightarrow> s = salt \<and> commit_Compute C salt v = Inr com"
  by (auto simp: commit_New_def)

lemma commit_New_opens: "commit_New C rnd v = Inr (com, salt) \<Longrightarrow> commit_Verify C com salt v = Inr ()"
  by (simp add: commit_New_Inr commit_Verify_Inr)

text \<open>The string that a commitment hashes.\<close>

definition commit_pre :: "'x crypto_scheme \<Rightarrow> bytes \<Rightarrow> json \<Rightarrow> bytes set" where
  "commit_pre C salt v = {salt @ c | c. canonical_Encode (jcs C) v = Inr c}"

text \<open>
  commitments are binding: two openings that verify against one commitment have the same salt
  and the same canonical value, so values that canonical JSON keeps are equal up to the order of
  their members, unless the two hashed strings collide.
\<close>

theorem commitment_binding:
  assumes "commit_Verify C com salt v = Inr ()" "commit_Verify C com salt' v' = Inr ()"
    and "no_collision (sha256 C) (commit_pre C salt v \<union> commit_pre C salt' v')"
    and "jcs_ok (jcs C)" "json_ok v" "json_safe v" "json_ok v'" "json_safe v'"
  shows "salt = salt' \<and> sort_json v = sort_json v'"
proof -
  obtain c c' where e: "canonical_Encode (jcs C) v = Inr c" "canonical_Encode (jcs C) v' = Inr c'"
    "length salt = SaltSize" "length salt' = SaltSize" "sha256 C (salt @ c) = sha256 C (salt' @ c')"
    using assms(1,2) by (auto simp: commit_Verify_Inr commit_Compute_Inr)
  have "salt @ c = salt' @ c'" by (rule no_collisionD [OF assms(3) e(5)]) (use e in \<open>auto simp: commit_pre_def\<close>)
  then have "salt = salt'" "c = c'" using e(3,4) by auto
  then show ?thesis
    using canonical_Encode_ok [OF assms(4-6)] canonical_Encode_ok [OF assms(4,7,8)] e(1,2) by auto
qed

end
