(* ===== verification/Registry.thy ===== *)
theory Registry
  imports Canonical Composite
begin

text \<open>
  Pinned tool manifests (\<open>internal/registry/registry.go\<close>).  The schemas and annotations of a manifest
  are Go values of type \<open>any\<close>: their JSON, with \<open>None\<close> for \<open>nil\<close>.
\<close>

section \<open>Manifests\<close>

definition ManifestDomain :: string where
  "ManifestDomain = ''agent-warden/tool-manifest/v1''"

record Manifest =
  m_Server :: string
  m_Name :: string
  m_Title :: string
  m_Description :: string
  m_InputSchema :: "json option"
  m_OutputSchema :: "json option"
  m_Annotations :: "json option"

datatype registry_error =
  BadName string
| NoInputSchema
| ManifestEncode canonical_error
| PinDigest
| DuplicatePin
| ErrUnpinned
| ErrChanged
| PinFile canonical_error
| PinVersion

definition Manifest_ID :: "Manifest \<Rightarrow> string" where
  "Manifest_ID m = m_Server m @ ''/'' @ m_Name m"

definition validName :: "string \<Rightarrow> string \<Rightarrow> registry_error + unit" where
  "validName field s =
     (if s = [] \<or> length s > 128 \<or> CHR ''/'' \<in> set s then Inl (BadName field)
      else if list_ex (\<lambda>r. r < 33 \<or> r = 127) (runes s) then Inl (BadName field) else Inr ())"

definition json_of_manifest :: "Manifest \<Rightarrow> json" where
  "json_of_manifest m = JObj ([(''domain'', JStr ManifestDomain), (''server'', JStr (m_Server m)),
     (''name'', JStr (m_Name m))] @ omit_str ''title'' (m_Title m) @ omit_str ''description'' (m_Description m) @
     [(''input_schema'', case m_InputSchema m of None \<Rightarrow> JNull | Some j \<Rightarrow> j)] @
     omit_ptr ''output_schema'' (\<lambda>j. j) (m_OutputSchema m) @ omit_ptr ''annotations'' (\<lambda>j. j) (m_Annotations m))"

definition Manifest_Digest :: "'x crypto_scheme \<Rightarrow> Manifest \<Rightarrow> registry_error + string" where
  "Manifest_Digest C m =
     ebind (validName ''server'' (m_Server m)) (\<lambda>_.
     ebind (validName ''name'' (m_Name m)) (\<lambda>_.
     if m_InputSchema m = None then Inl NoInputSchema
     else ebind (map_err ManifestEncode (canonical_Encode (jcs C) (json_of_manifest m))) (\<lambda>b.
       Inr (digest_SHA256 (sha256 C) b))))"

section \<open>Pins and the registry\<close>

record pin =
  p_Server :: string
  p_Tool :: string
  p_Manifest :: string

record pin_file =
  f_V :: int
  f_Pins :: "pin list option"

type_synonym registry = "string \<rightharpoonup> string"

definition json_of_pin :: "pin \<Rightarrow> json" where
  "json_of_pin p = JObj [(''server'', JStr (p_Server p)), (''tool'', JStr (p_Tool p)),
     (''manifest'', JStr (p_Manifest p))]"

definition json_of_pin_file :: "pin_file \<Rightarrow> json" where
  "json_of_pin_file f = JObj [(''v'', JInt (f_V f)), (''pins'', json_of_slice json_of_pin (f_Pins f))]"

definition dec_pin :: "json \<Rightarrow> pin option" where
  "dec_pin j = do {
     f \<leftarrow> fields_of [''server'', ''tool'', ''manifest''] j;
     s \<leftarrow> get_str f ''server''; t \<leftarrow> get_str f ''tool''; m \<leftarrow> get_str f ''manifest'';
     Some \<lparr>p_Server = s, p_Tool = t, p_Manifest = m\<rparr> }"

definition dec_pin_file :: "json \<Rightarrow> pin_file option" where
  "dec_pin_file j = do {
     f \<leftarrow> fields_of [''v'', ''pins''] j;
     v \<leftarrow> get_int f ''v''; ps \<leftarrow> get_arr dec_pin f ''pins'';
     Some \<lparr>f_V = v, f_Pins = ps\<rparr> }"

definition pin_id :: "pin \<Rightarrow> string" where
  "pin_id p = p_Server p @ ''/'' @ p_Tool p"

definition add_pin :: "registry \<Rightarrow> pin \<Rightarrow> registry_error + registry" where
  "add_pin r p =
     ebind (validName ''server'' (p_Server p)) (\<lambda>_.
     ebind (validName ''tool'' (p_Tool p)) (\<lambda>_.
     if \<not> digest_Valid (p_Manifest p) then Inl PinDigest
     else if r (pin_id p) \<noteq> None then Inl DuplicatePin
     else Inr (r(pin_id p \<mapsto> p_Manifest p))))"

definition registry_New :: "pin list \<Rightarrow> registry_error + registry" where
  "registry_New pins = efold add_pin Map.empty pins"

definition slice :: "'a list option \<Rightarrow> 'a list" where
  "slice x = (case x of None \<Rightarrow> [] | Some xs \<Rightarrow> xs)"

definition registry_Load :: "'x crypto_scheme \<Rightarrow> bytes \<Rightarrow> registry_error + registry" where
  "registry_Load C data =
     ebind (map_err PinFile (DecodeStrict (jcs C) dec_pin_file json_of_pin_file data)) (\<lambda>f.
     if f_V f \<noteq> 1 then Inl PinVersion else registry_New (slice (f_Pins f)))"

text \<open>\<open>Check\<close> returns a digest with its error, so that a refusal can be recorded.\<close>

definition registry_Check :: "'x crypto_scheme \<Rightarrow> registry \<Rightarrow> Manifest \<Rightarrow> string \<times> registry_error option" where
  "registry_Check C r m = (case Manifest_Digest C m of
     Inl e \<Rightarrow> ([], Some e)
   | Inr d \<Rightarrow> (case r (Manifest_ID m) of
       None \<Rightarrow> (d, Some ErrUnpinned)
     | Some pinned \<Rightarrow> if pinned \<noteq> d then (d, Some ErrChanged) else (d, None)))"

record checked =
  ck_Manifest :: Manifest
  ck_Digest :: string
  ck_Err :: "registry_error option"

record review =
  rv_Allowed :: "checked list"
  rv_Unpinned :: "checked list"
  rv_Changed :: "checked list"
  rv_Invalid :: "checked list"

definition review_one :: "'x crypto_scheme \<Rightarrow> registry \<Rightarrow> review \<Rightarrow> Manifest \<Rightarrow> review" where
  "review_one C r out m = (let (d, err) = registry_Check C r m;
       c = \<lparr>ck_Manifest = m, ck_Digest = d, ck_Err = err\<rparr> in
     (case err of
        None \<Rightarrow> out\<lparr>rv_Allowed := rv_Allowed out @ [c]\<rparr>
      | Some ErrUnpinned \<Rightarrow> out\<lparr>rv_Unpinned := rv_Unpinned out @ [c]\<rparr>
      | Some ErrChanged \<Rightarrow> out\<lparr>rv_Changed := rv_Changed out @ [c]\<rparr>
      | Some _ \<Rightarrow> out\<lparr>rv_Invalid := rv_Invalid out @ [c]\<rparr>))"

definition registry_Review :: "'x crypto_scheme \<Rightarrow> registry \<Rightarrow> Manifest list \<Rightarrow> review" where
  "registry_Review C r ms = foldl (review_one C r)
     \<lparr>rv_Allowed = [], rv_Unpinned = [], rv_Changed = [], rv_Invalid = []\<rparr> ms"

text \<open>
  \<open>PinAll\<close>; the sort is not stable in Go, but equal keys are duplicate pins, which \<open>New\<close> refuses.
\<close>

definition pin_of :: "'x crypto_scheme \<Rightarrow> pin list \<Rightarrow> Manifest \<Rightarrow> registry_error + pin list" where
  "pin_of C ps m = ebind (Manifest_Digest C m) (\<lambda>d.
     Inr (ps @ [\<lparr>p_Server = m_Server m, p_Tool = m_Name m, p_Manifest = d\<rparr>]))"

definition PinAll :: "'x crypto_scheme \<Rightarrow> Manifest list \<Rightarrow> registry_error + bytes" where
  "PinAll C ms =
     ebind (efold (pin_of C) [] ms) (\<lambda>ps.
     let pins = sort_key pin_id ps in
     ebind (registry_New pins) (\<lambda>_.
     map_err ManifestEncode (canonical_Encode (jcs C)
       (json_of_pin_file \<lparr>f_V = 1, f_Pins = if ms = [] then None else Some pins\<rparr>))))"

section \<open>Lemmas\<close>

definition name_ok :: "string \<Rightarrow> bool" where
  "name_ok s \<longleftrightarrow> s \<noteq> [] \<and> length s \<le> 128 \<and> CHR ''/'' \<notin> set s \<and> (\<forall>c \<in> set s. 33 \<le> byte c \<and> byte c \<noteq> 127)"

lemma validName_Inr [simp]: "validName field s = Inr u \<longleftrightarrow> name_ok s"
proof -
  have r: "(\<exists>r \<in> set (runes s). r < 33 \<or> r = 127) \<longleftrightarrow> (\<exists>c \<in> set s. byte c < 33 \<or> byte c = 127)"
    by (rule runes_small) auto
  show ?thesis unfolding validName_def name_ok_def list_ex_iff r by (auto simp: not_less)
qed

lemma Manifest_Digest_Inr:
  "Manifest_Digest C m = Inr d \<longleftrightarrow> name_ok (m_Server m) \<and> name_ok (m_Name m) \<and> m_InputSchema m \<noteq> None \<and>
     (\<exists>b. canonical_Encode (jcs C) (json_of_manifest m) = Inr b \<and> d = digest_SHA256 (sha256 C) b)"
  by (auto simp: Manifest_Digest_def)

lemma split_at_first:
  "a @ x # b = c @ x # d \<Longrightarrow> x \<notin> set a \<Longrightarrow> x \<notin> set c \<Longrightarrow> a = c \<and> b = d"
proof (induction a arbitrary: c)
  case Nil
  then show ?case by (cases c) auto
next
  case (Cons y ys)
  then obtain c' where "c = y # c'" by (cases c) auto
  with Cons show ?case by simp
qed

lemma Manifest_ID_inj:
  "Manifest_ID m = Manifest_ID m' \<Longrightarrow> name_ok (m_Server m) \<Longrightarrow> name_ok (m_Server m') \<Longrightarrow>
     m_Server m = m_Server m' \<and> m_Name m = m_Name m'"
  using split_at_first [of "m_Server m" "CHR ''/''" "m_Name m" "m_Server m'" "m_Name m'"]
  by (simp add: Manifest_ID_def name_ok_def)

lemma registry_Check_None:
  "registry_Check C r m = (d, None) \<longleftrightarrow> Manifest_Digest C m = Inr d \<and> r (Manifest_ID m) = Some d"
  by (auto simp: registry_Check_def split: sum.splits option.splits)

text \<open>The pins that make a registry.\<close>

definition pin_ok :: "pin \<Rightarrow> bool" where
  "pin_ok p \<longleftrightarrow> name_ok (p_Server p) \<and> name_ok (p_Tool p) \<and> digest_Valid (p_Manifest p)"

definition pins_map :: "pin list \<Rightarrow> registry" where
  "pins_map ps = map_of (map (\<lambda>p. (pin_id p, p_Manifest p)) ps)"

lemma add_pin_Inr: "add_pin r p = Inr r' \<longleftrightarrow> pin_ok p \<and> r (pin_id p) = None \<and> r' = r(pin_id p \<mapsto> p_Manifest p)"
  by (auto simp: add_pin_def pin_ok_def)

lemma add_pins_Inr:
  "efold add_pin r ps = Inr r' \<longleftrightarrow> list_all pin_ok ps \<and> distinct (map pin_id ps) \<and>
     (\<forall>p \<in> set ps. r (pin_id p) = None) \<and> r' = r ++ pins_map ps"
proof (induction ps arbitrary: r)
  case Nil
  then show ?case by (auto simp: pins_map_def)
next
  case (Cons p ps)
  have p: "pins_map (p # ps) = (pins_map ps)(pin_id p \<mapsto> p_Manifest p)" by (simp add: pins_map_def)
  have "pin_id p \<notin> pin_id ` set ps \<Longrightarrow> pin_id p \<notin> dom (pins_map ps)" unfolding pins_map_def dom_map_of_conv_image_fst by force
  then have u: "pin_id p \<notin> pin_id ` set ps \<Longrightarrow>
      r(pin_id p \<mapsto> p_Manifest p) ++ pins_map ps = r ++ (pins_map ps)(pin_id p \<mapsto> p_Manifest p)"
    by (metis map_add_upd map_add_upd_left)
  show ?case
  proof (cases "pin_id p \<in> pin_id ` set ps")
    case True
    then show ?thesis by (auto simp: Cons.IH add_pin_Inr)
  next
    case False
    then have o': "(\<forall>q \<in> set ps. (r(pin_id p \<mapsto> p_Manifest p)) (pin_id q) = None) \<longleftrightarrow> (\<forall>q \<in> set ps. r (pin_id q) = None)"
      by (metis fun_upd_other imageI)
    show ?thesis using False by (simp add: Cons.IH add_pin_Inr o' u [OF False] p del: map_add_upd fun_upd_apply) blast
  qed
qed

lemma registry_New_Inr:
  "registry_New ps = Inr r \<longleftrightarrow> list_all pin_ok ps \<and> distinct (map pin_id ps) \<and> r = pins_map ps"
  by (auto simp: registry_New_def add_pins_Inr)

lemma pins_map_in: "distinct (map pin_id ps) \<Longrightarrow> p \<in> set ps \<Longrightarrow> pins_map ps (pin_id p) = Some (p_Manifest p)"
  unfolding pins_map_def by (rule map_of_is_SomeI) (auto simp: comp_def)

text \<open>The string that a manifest digest hashes.\<close>

definition manifest_pre :: "'x crypto_scheme \<Rightarrow> Manifest \<Rightarrow> bytes set" where
  "manifest_pre C m = {b. canonical_Encode (jcs C) (json_of_manifest m) = Inr b}"

text \<open>
  a changed tool is refused ("rug pull"): two manifests that one registry accepts under the same
  name have the same canonical text; when their schemas are values that canonical JSON keeps, the
  title, the description and the schemas and annotations (up to the order of members) are the same.
\<close>

theorem registry_pins_manifest:
  assumes "registry_Check C r m = (d, None)" "registry_Check C r m' = (d', None)" "Manifest_ID m = Manifest_ID m'"
    and "no_collision (sha256 C) (manifest_pre C m \<union> manifest_pre C m')"
    and "jcs_ok (jcs C)" "json_ok (json_of_manifest m)" "json_safe (json_of_manifest m)"
    and "json_ok (json_of_manifest m')" "json_safe (json_of_manifest m')"
  shows "sort_json (json_of_manifest m) = sort_json (json_of_manifest m') \<and> d = d'"
proof -
  have "Manifest_Digest C m = Inr d" "Manifest_Digest C m' = Inr d'" and dd: "d = d'"
    using assms(1-3) by (simp_all add: registry_Check_None)
  then obtain b b' where "canonical_Encode (jcs C) (json_of_manifest m) = Inr b" "d = digest_SHA256 (sha256 C) b"
    "canonical_Encode (jcs C) (json_of_manifest m') = Inr b'" "d' = digest_SHA256 (sha256 C) b'"
    unfolding Manifest_Digest_Inr by blast
  then have b: "canonical_Encode (jcs C) (json_of_manifest m) = Inr b"
    "canonical_Encode (jcs C) (json_of_manifest m') = Inr b'" "sha256 C b = sha256 C b'" "d = d'"
    using dd by simp_all
  have "b = b'" by (rule no_collisionD [OF assms(4) b(3)]) (use b in \<open>simp_all add: manifest_pre_def\<close>)
  with b canonical_Encode_ok [OF assms(5-7)] canonical_Encode_ok [OF assms(5,8,9)] show ?thesis by auto
qed

section \<open>Review\<close>

definition checked_of :: "'x crypto_scheme \<Rightarrow> registry \<Rightarrow> Manifest \<Rightarrow> checked" where
  "checked_of C r m = \<lparr>ck_Manifest = m, ck_Digest = fst (registry_Check C r m), ck_Err = snd (registry_Check C r m)\<rparr>"

definition refused :: "checked \<Rightarrow> bool" where
  "refused c \<longleftrightarrow> ck_Err c \<noteq> None \<and> ck_Err c \<noteq> Some ErrUnpinned \<and> ck_Err c \<noteq> Some ErrChanged"

lemma review_one_eq:
  "review_one C r out m = (let c = checked_of C r m in
     \<lparr>rv_Allowed = rv_Allowed out @ filter (\<lambda>c. ck_Err c = None) [c],
      rv_Unpinned = rv_Unpinned out @ filter (\<lambda>c. ck_Err c = Some ErrUnpinned) [c],
      rv_Changed = rv_Changed out @ filter (\<lambda>c. ck_Err c = Some ErrChanged) [c],
      rv_Invalid = rv_Invalid out @ filter refused [c]\<rparr>)"
proof -
  obtain d err where c: "registry_Check C r m = (d, err)" by fastforce
  then show ?thesis
  proof (cases err)
    case (Some e)
    with c show ?thesis by (cases e) (simp_all add: review_one_def checked_of_def refused_def)
  qed (simp add: review_one_def checked_of_def refused_def)
qed

lemma registry_Review_eq:
  "registry_Review C r ms = (let cs = map (checked_of C r) ms in
     \<lparr>rv_Allowed = filter (\<lambda>c. ck_Err c = None) cs, rv_Unpinned = filter (\<lambda>c. ck_Err c = Some ErrUnpinned) cs,
      rv_Changed = filter (\<lambda>c. ck_Err c = Some ErrChanged) cs, rv_Invalid = filter refused cs\<rparr>)"
  unfolding registry_Review_def
proof (induction ms rule: rev_induct)
  case (snoc m ms)
  then show ?case by (simp only: foldl_append foldl.simps review_one_eq Let_def map_append list.map) simp
qed (simp add: Let_def)

text \<open>
  a review sorts every manifest into exactly one of the four lists, in order, and lists as allowed
  exactly the tools whose digest is the pinned one.
\<close>

theorem registry_Review_partition:
  "map ck_Manifest (rv_Allowed (registry_Review C r ms)) =
     filter (\<lambda>m. \<exists>d. Manifest_Digest C m = Inr d \<and> r (Manifest_ID m) = Some d) ms
   \<and> mset (map ck_Manifest (rv_Allowed (registry_Review C r ms) @ rv_Unpinned (registry_Review C r ms)
       @ rv_Changed (registry_Review C r ms) @ rv_Invalid (registry_Review C r ms))) = mset ms"
proof -
  have a: "(snd (registry_Check C r m) = None) = (\<exists>d. Manifest_Digest C m = Inr d \<and> r (Manifest_ID m) = Some d)" for m
    using registry_Check_None [of C r m] by (metis prod.collapse snd_conv)
  have part: "mset (filter (\<lambda>c. ck_Err c = None) cs @ filter (\<lambda>c. ck_Err c = Some ErrUnpinned) cs
      @ filter (\<lambda>c. ck_Err c = Some ErrChanged) cs @ filter refused cs) = mset cs" for cs
    by (induction cs) (auto simp: refused_def)
  have "map ck_Manifest (map (checked_of C r) ms) = ms" by (induction ms) (simp_all add: checked_of_def)
  then have "mset (map ck_Manifest (rv_Allowed (registry_Review C r ms) @ rv_Unpinned (registry_Review C r ms)
       @ rv_Changed (registry_Review C r ms) @ rv_Invalid (registry_Review C r ms))) = mset ms"
    unfolding registry_Review_eq Let_def review.simps mset_map part by (simp only: mset_map [symmetric])
  moreover have "map ck_Manifest (filter (\<lambda>c. ck_Err c = None) (map (checked_of C r) ms))
      = filter (\<lambda>m. snd (registry_Check C r m) = None) ms"
    by (induction ms) (auto simp: checked_of_def)
  ultimately show ?thesis unfolding registry_Review_eq Let_def review.simps a by blast
qed

section \<open>Pinning what was reviewed\<close>

lemma pin_of_Inr: "pin_of C qs m = Inr ps \<longleftrightarrow> (\<exists>d. Manifest_Digest C m = Inr d \<and>
    ps = qs @ [\<lparr>p_Server = m_Server m, p_Tool = m_Name m, p_Manifest = d\<rparr>])"
  by (auto simp: pin_of_def)

lemma pin_of_fold:
  "efold (pin_of C) qs ms = Inr ps \<longleftrightarrow> (\<exists>ds. list_all2 (\<lambda>m d. Manifest_Digest C m = Inr d) ms ds \<and>
     ps = qs @ map (\<lambda>(m, d). \<lparr>p_Server = m_Server m, p_Tool = m_Name m, p_Manifest = d\<rparr>) (zip ms ds))"
proof (induction ms arbitrary: qs)
  case (Cons m ms)
  show ?case
  proof
    assume "efold (pin_of C) qs (m # ms) = Inr ps"
    then obtain d ds where "Manifest_Digest C m = Inr d" "list_all2 (\<lambda>m d. Manifest_Digest C m = Inr d) ms ds"
      "ps = qs @ map (\<lambda>(m, d). \<lparr>p_Server = m_Server m, p_Tool = m_Name m, p_Manifest = d\<rparr>) (zip (m # ms) (d # ds))"
      by (auto simp: Cons pin_of_Inr)
    then show "\<exists>ds. list_all2 (\<lambda>m d. Manifest_Digest C m = Inr d) (m # ms) ds \<and> ps =
        qs @ map (\<lambda>(m, d). \<lparr>p_Server = m_Server m, p_Tool = m_Name m, p_Manifest = d\<rparr>) (zip (m # ms) ds)"
      by (intro exI [of _ "d # ds"]) simp
  qed (auto simp: Cons pin_of_Inr list_all2_Cons1)
qed auto

lemma dec_pin_sorted: "dec_pin (sort_json (json_of_pin p)) = Some p"
  unfolding json_of_pin_def dec_pin_def by (subst fields_of_sorted) (simp_all add: struct_simps)

lemma dec_pin_file_sorted: "f_V f = 1 \<Longrightarrow> dec_pin_file (sort_json (json_of_pin_file f)) = Some f"
  unfolding json_of_pin_file_def dec_pin_file_def
  by (subst fields_of_sorted)
    (simp_all add: get_arr_sorted [where enc = json_of_pin] dec_pin_sorted struct_simps)

lemma json_pin_file_ok:
  "list_all (\<lambda>p. utf8_valid (p_Server p) \<and> utf8_valid (p_Tool p) \<and> utf8_valid (p_Manifest p)) (slice (f_Pins f)) \<Longrightarrow>
     f_V f = 1 \<Longrightarrow> json_ok (json_of_pin_file f) \<and> json_safe (json_of_pin_file f)"
  by (auto simp: json_of_pin_file_def json_of_slice_def json_of_pin_def slice_def list_all_iff split: option.splits)

text \<open>
  what an operator pins is what the registry allows: the pin file made for reviewed manifests
  loads, and the registry it makes accepts every one of them.
\<close>

theorem PinAll_Load:
  assumes "PinAll C ms = Inr b" "jcs_ok (jcs C)" "list_all (\<lambda>m. utf8_valid (m_Server m) \<and> utf8_valid (m_Name m)) ms"
  shows "\<exists>r. registry_Load C b = Inr r \<and> (\<forall>m \<in> set ms. \<exists>d. registry_Check C r m = (d, None))"
proof -
  let ?pin = "\<lambda>(m, d). \<lparr>p_Server = m_Server m, p_Tool = m_Name m, p_Manifest = d\<rparr>"
  obtain ds where ds: "list_all2 (\<lambda>m d. Manifest_Digest C m = Inr d) ms ds" and
    f: "registry_New (sort_key pin_id (map ?pin (zip ms ds))) = Inr (pins_map (sort_key pin_id (map ?pin (zip ms ds))))"
    "distinct (map pin_id (sort_key pin_id (map ?pin (zip ms ds))))"
    "canonical_Encode (jcs C) (json_of_pin_file \<lparr>f_V = 1, f_Pins = if ms = [] then None
       else Some (sort_key pin_id (map ?pin (zip ms ds)))\<rparr>) = Inr b"
    using assms(1) by (auto simp: PinAll_def pin_of_fold registry_New_Inr Let_def)
  let ?ps = "sort_key pin_id (map ?pin (zip ms ds))"
  let ?f = "\<lparr>f_V = 1, f_Pins = if ms = [] then None else Some ?ps\<rparr>"
  have ps: "slice (f_Pins ?f) = ?ps" by (simp add: slice_def)
  have "list_all (\<lambda>p. utf8_valid (p_Server p) \<and> utf8_valid (p_Tool p) \<and> utf8_valid (p_Manifest p)) ?ps"
    using assms(3) ds by (auto simp: list_all_iff list_all2_conv_all_nth set_zip Manifest_Digest_Inr)
  then have "json_ok (json_of_pin_file ?f) \<and> json_safe (json_of_pin_file ?f)"
    using json_pin_file_ok [of ?f] ps by simp
  then have "DecodeStrict (jcs C) dec_pin_file json_of_pin_file b = Inr ?f"
    using f(3) by (intro DecodeStrict_Encode assms(2)) (simp_all add: dec_pin_file_sorted)
  then have "registry_Load C b = Inr (pins_map ?ps)" using f(1) ps by (simp add: registry_Load_def)
  moreover have "\<exists>d. registry_Check C (pins_map ?ps) m = (d, None)" if m: "m \<in> set ms" for m
  proof -
    obtain i where i: "i < length ms" "ms ! i = m" using m by (auto simp: in_set_conv_nth)
    let ?p = "\<lparr>p_Server = m_Server m, p_Tool = m_Name m, p_Manifest = ds ! i\<rparr>"
    have "(m, ds ! i) \<in> set (zip ms ds)" using i ds by (auto simp: set_zip list_all2_conv_all_nth)
    then have "?p \<in> set ?ps" by force
    then have "pins_map ?ps (Manifest_ID m) = Some (ds ! i)"
      using pins_map_in [OF f(2), of ?p] by (simp add: pin_id_def Manifest_ID_def)
    moreover have "Manifest_Digest C m = Inr (ds ! i)" using ds i by (auto simp: list_all2_conv_all_nth)
    ultimately show ?thesis by (auto simp: registry_Check_None)
  qed
  ultimately show ?thesis by blast
qed

end
