(* ===== verification/Identity.thy ===== *)
theory Identity
  imports Composite GoTime
begin

text \<open>
  Certificates (\<open>internal/identity/identity.go\<close>): key-epoch certificates, task credentials and the
  server certificate.  Parsing, signing and chain verification belong to \<open>crypto/x509\<close> and are the
  fields of an \<open>x509\<close> record; the profile, which certificate may be used for what, is the code's own.
\<close>

section \<open>Certificates and the library\<close>

datatype key_usage = DigitalSignature | CertSign
datatype ext_usage = UsageAny | ClientAuth | ServerAuth | TimeStamping | OtherUsage

record certificate =
  ct_Serial :: int
  ct_CommonName :: string
  ct_IsCA :: bool
  ct_SigAlg :: string
  ct_MLDSA :: "bytes option"
  ct_Policies :: "string list"
  ct_DNSNames :: "string list"
  ct_Emails :: "string list"
  ct_IPs :: "bytes list"
  ct_URIs :: "string list"
  ct_NotBefore :: time
  ct_NotAfter :: time
  ct_KeyUsage :: key_usage
  ct_ExtKeyUsage :: "ext_usage list"
  ct_UnknownExtKeyUsage :: nat

text \<open>An ML-DSA private key with its public key, and a CA; a pool of roots is the list of its DER texts.\<close>

record mldsa_key =
  mk_seed :: bytes
  mk_pub :: bytes

record ca =
  ca_Cert :: bytes
  ca_Key :: mldsa_key

record x509 =
  x_Parse :: "bytes \<Rightarrow> certificate option"
  x_Verify :: "bytes list \<Rightarrow> bytes \<Rightarrow> time \<Rightarrow> ext_usage list \<Rightarrow> bool"
  x_SelfSign :: "certificate \<Rightarrow> mldsa_key \<Rightarrow> bytes option"
  x_Create :: "certificate \<Rightarrow> ca \<Rightarrow> bytes \<Rightarrow> bytes option"

datatype identity_error =
  IdInvalid string
| BadValue
| RootKey
| CreateFailed
| KeySuiteMismatch
| NotMLDSA65
| BadLifetime
| BadServerName
| BadKeyBytes

section \<open>Constants and values\<close>

definition Arc :: string where
  "Arc = ''2.25.319797216735078154913038669087058524786''"

definition PolicyKeyEpoch :: string where
  "PolicyKeyEpoch = Arc @ ''.1''"

definition PolicyTaskCredential :: string where
  "PolicyTaskCredential = Arc @ ''.2''"

definition PolicyServer :: string where
  "PolicyServer = Arc @ ''.3''"

definition MaxServerLifetime :: int where
  "MaxServerLifetime = 90 * 24 * 3600 * ns_per_s"

definition MaxTaskLifetime :: int where
  "MaxTaskLifetime = 15 * 60 * ns_per_s"

definition ClockSkew :: int where
  "ClockSkew = 60 * ns_per_s"

definition uriWarden :: string where "uriWarden = ''urn:warden:''"
definition uriKid :: string where "uriKid = ''urn:warden:kid:''"
definition uriEd25519 :: string where "uriEd25519 = ''urn:warden:ed25519:''"
definition uriAgent :: string where "uriAgent = ''urn:warden:agent:''"
definition uriPrincipal :: string where "uriPrincipal = ''urn:warden:principal:''"
definition uriTask :: string where "uriTask = ''urn:warden:task:''"

definition alnum :: "char \<Rightarrow> bool" where
  "alnum c \<longleftrightarrow> (let b = byte c in 65 \<le> b \<and> b \<le> 90 \<or> 97 \<le> b \<and> b \<le> 122 \<or> 48 \<le> b \<and> b \<le> 57)"

definition value_ok :: "string \<Rightarrow> bool" where
  "value_ok v \<longleftrightarrow> 1 \<le> length v \<and> length v \<le> 256 \<and> list_all (\<lambda>c. alnum c \<or> c \<in> set ''._~@:+-'') v"

definition checkValue :: "string \<Rightarrow> identity_error + unit" where
  "checkValue v = require (value_ok v) BadValue"

definition isMLDSA65 :: "bytes \<Rightarrow> bool" where
  "isMLDSA65 pub \<longleftrightarrow> length pub = 1952"

definition urn :: "string \<Rightarrow> string \<Rightarrow> string" where
  "urn prefix v = prefix @ v"

section \<open>Issuing\<close>

definition leaf_template :: certificate where
  "leaf_template = \<lparr>ct_Serial = 0, ct_CommonName = [], ct_IsCA = False, ct_SigAlg = [], ct_MLDSA = None, ct_Policies = [],
     ct_DNSNames = [], ct_Emails = [], ct_IPs = [], ct_URIs = [], ct_NotBefore = 0, ct_NotAfter = 0,
     ct_KeyUsage = DigitalSignature, ct_ExtKeyUsage = [], ct_UnknownExtKeyUsage = 0\<rparr>"

text \<open>The serial number that \<open>rand.Int\<close> draws is an argument.\<close>

definition NewCA :: "x509 \<Rightarrow> int \<Rightarrow> string \<Rightarrow> mldsa_key \<Rightarrow> time \<Rightarrow> time \<Rightarrow> identity_error + ca" where
  "NewCA X sn name key notBefore notAfter =
     (if \<not> isMLDSA65 (mk_pub key) then Inl RootKey
      else ebind (of_option CreateFailed (x_SelfSign X (leaf_template\<lparr>ct_Serial := sn, ct_CommonName := name,
          ct_NotBefore := notBefore, ct_NotAfter := notAfter, ct_IsCA := True, ct_KeyUsage := CertSign\<rparr>) key)) (\<lambda>der.
        ebind (of_option CreateFailed (x_Parse X der)) (\<lambda>_. Inr \<lparr>ca_Cert = der, ca_Key = key\<rparr>)))"

definition ca_Pool :: "ca \<Rightarrow> bytes list" where
  "ca_Pool ca = [ca_Cert ca]"

definition ca_issue :: "x509 \<Rightarrow> int \<Rightarrow> ca \<Rightarrow> certificate \<Rightarrow> bytes \<Rightarrow> identity_error + bytes" where
  "ca_issue X sn ca tmpl pub = of_option CreateFailed (x_Create X (tmpl\<lparr>ct_Serial := sn\<rparr>) ca pub)"

definition IssueKeyEpoch ::
  "'x crypto_scheme \<Rightarrow> x509 \<Rightarrow> int \<Rightarrow> ca \<Rightarrow> string \<Rightarrow> public_key \<Rightarrow> time \<Rightarrow> time \<Rightarrow> identity_error + bytes" where
  "IssueKeyEpoch C X sn ca kid pub notBefore notAfter =
     ebind (checkValue kid) (\<lambda>_.
     if suite_Name (pk_suite pub) \<noteq> suite_Name MLDSA65Ed25519 then Inl KeySuiteMismatch
     else let raw = pub_Bytes pub; n = length raw - 32 in
       if \<not> mldsa_public_ok C MLDSA65 (take n raw) then Inl BadKeyBytes
       else ca_issue X sn ca (leaf_template\<lparr>ct_CommonName := kid, ct_NotBefore := notBefore, ct_NotAfter := notAfter,
         ct_Policies := [PolicyKeyEpoch],
         ct_URIs := [urn uriKid kid, urn uriEd25519 (b64_encode (drop n raw))]\<rparr>) (take n raw))"

record task_claims =
  tc_Agent :: string
  tc_Principal :: string
  tc_Task :: string

definition claims_check :: "task_claims \<Rightarrow> identity_error + unit" where
  "claims_check c = ebind (checkValue (tc_Agent c)) (\<lambda>_. ebind (checkValue (tc_Principal c)) (\<lambda>_. checkValue (tc_Task c)))"

definition IssueTask ::
  "x509 \<Rightarrow> int \<Rightarrow> ca \<Rightarrow> task_claims \<Rightarrow> bytes \<Rightarrow> time \<Rightarrow> time \<Rightarrow> identity_error + bytes" where
  "IssueTask X sn ca c pub notBefore notAfter =
     ebind (claims_check c) (\<lambda>_.
     if \<not> isMLDSA65 pub then Inl NotMLDSA65
     else if \<not> notBefore < notAfter \<or> sat64 (notAfter - notBefore) > MaxTaskLifetime + ClockSkew then Inl BadLifetime
     else ca_issue X sn ca (leaf_template\<lparr>ct_CommonName := tc_Agent c, ct_NotBefore := notBefore, ct_NotAfter := notAfter,
       ct_ExtKeyUsage := [ClientAuth], ct_Policies := [PolicyTaskCredential],
       ct_URIs := [urn uriAgent (tc_Agent c), urn uriPrincipal (tc_Principal c), urn uriTask (tc_Task c)]\<rparr>) pub)"

text \<open>The pattern of DNS names: labels of at most 63 letters, digits and inner hyphens.\<close>

fun split_on :: "char \<Rightarrow> string \<Rightarrow> string list" where
  "split_on x [] = [[]]"
| "split_on x (c # s) = (if c = x then [] # split_on x s
     else case split_on x s of [] \<Rightarrow> [[c]] | l # ls \<Rightarrow> (c # l) # ls)"

definition dns_label :: "string \<Rightarrow> bool" where
  "dns_label l \<longleftrightarrow> l \<noteq> [] \<and> length l \<le> 63 \<and> alnum (hd l) \<and> alnum (last l) \<and> list_all (\<lambda>c. alnum c \<or> c = CHR ''-'') l"

definition dns_name :: "string \<Rightarrow> bool" where
  "dns_name n \<longleftrightarrow> list_all dns_label (split_on (CHR ''.'') n)"

definition IssueServer ::
  "x509 \<Rightarrow> int \<Rightarrow> ca \<Rightarrow> string list \<Rightarrow> bytes list \<Rightarrow> bytes \<Rightarrow> time \<Rightarrow> time \<Rightarrow> identity_error + bytes" where
  "IssueServer X sn ca dnsNames ips pub notBefore notAfter =
     (if length dnsNames + length ips = 0 then Inl BadServerName
      else if list_ex (\<lambda>n. length n > 253 \<or> \<not> dns_name n) dnsNames then Inl BadServerName
      else if \<not> isMLDSA65 pub then Inl NotMLDSA65
      else if \<not> notBefore < notAfter \<or> sat64 (notAfter - notBefore) > MaxServerLifetime then Inl BadLifetime
      else ca_issue X sn ca (leaf_template\<lparr>ct_CommonName := ''Warden gateway'', ct_NotBefore := notBefore,
        ct_NotAfter := notAfter, ct_ExtKeyUsage := [ServerAuth], ct_Policies := [PolicyServer],
        ct_DNSNames := dnsNames, ct_IPs := ips\<rparr>) pub)"

section \<open>Verifying\<close>

definition CheckServer :: "certificate list \<Rightarrow> identity_error + unit" where
  "CheckServer peers = (case peers of
     [] \<Rightarrow> Inl (IdInvalid ''no server certificate'')
   | leaf # _ \<Rightarrow>
       if ct_Policies leaf \<noteq> [PolicyServer] then Inl (IdInvalid ''policies'')
       else if ct_SigAlg leaf \<noteq> ''ML-DSA-65'' then Inl (IdInvalid ''signature algorithm'')
       else Inr ())"

text \<open>One subject alternative name: the first prefix that fits takes its value.\<close>

fun take_uri :: "(string \<rightharpoonup> string) \<Rightarrow> string \<Rightarrow> string list \<Rightarrow> identity_error + (string \<rightharpoonup> string)" where
  "take_uri vals s [] = Inl (IdInvalid ''unexpected URI'')"
| "take_uri vals s (p # ps) = (case cut_prefix p s of
     None \<Rightarrow> take_uri vals s ps
   | Some v \<Rightarrow> if vals p \<noteq> None then Inl (IdInvalid ''duplicate URI'')
       else if \<not> value_ok v then Inl (IdInvalid ''malformed URI'')
       else Inr (vals(p \<mapsto> v)))"

definition cert_verify ::
  "x509 \<Rightarrow> bytes \<Rightarrow> bytes list \<Rightarrow> time \<Rightarrow> string \<Rightarrow> ext_usage list \<Rightarrow> string list \<Rightarrow>
     identity_error + certificate \<times> (string \<rightharpoonup> string)" where
  "cert_verify X der roots at policy usages prefixes =
     ebind (of_option (IdInvalid ''parse'') (x_Parse X der)) (\<lambda>cert.
     if ct_IsCA cert then Inl (IdInvalid ''CA certificate'')
     else if \<not> x_Verify X roots der at usages then Inl (IdInvalid ''chain'')
     else if ct_SigAlg cert \<noteq> ''ML-DSA-65'' then Inl (IdInvalid ''signature algorithm'')
     else if \<not> (case ct_MLDSA cert of None \<Rightarrow> False | Some k \<Rightarrow> isMLDSA65 k) then Inl (IdInvalid ''subject key'')
     else if ct_Policies cert \<noteq> [policy] then Inl (IdInvalid ''policies'')
     else if length (ct_DNSNames cert) + length (ct_Emails cert) + length (ct_IPs cert) > 0 then Inl (IdInvalid ''names'')
     else ebind (efold (\<lambda>vals s. take_uri vals s prefixes) Map.empty (ct_URIs cert)) (\<lambda>vals.
       if list_ex (\<lambda>p. vals p = None) prefixes then Inl (IdInvalid ''missing URI'') else Inr (cert, vals)))"

record key_epoch =
  ke_Kid :: string
  ke_Key :: public_key
  ke_NotBefore :: time
  ke_NotAfter :: time

definition VerifyKeyEpoch ::
  "'x crypto_scheme \<Rightarrow> x509 \<Rightarrow> bytes \<Rightarrow> bytes list \<Rightarrow> time \<Rightarrow> identity_error + key_epoch" where
  "VerifyKeyEpoch C X der roots at =
     ebind (cert_verify X der roots at PolicyKeyEpoch [UsageAny] [uriKid, uriEd25519]) (\<lambda>(cert, vals).
     if length (ct_ExtKeyUsage cert) + ct_UnknownExtKeyUsage cert > 0 then Inl (IdInvalid ''extended key usages'')
     else case b64_decode (the (vals uriEd25519)) of None \<Rightarrow> Inl (IdInvalid ''ed25519 URI'') | Some ed \<Rightarrow>
       if length ed \<noteq> 32 then Inl (IdInvalid ''ed25519 URI'')
       else ebind (map_err (\<lambda>_. IdInvalid ''key'') (ParsePublicKey C MLDSA65Ed25519 (the (ct_MLDSA cert) @ ed))) (\<lambda>key.
         Inr \<lparr>ke_Kid = the (vals uriKid), ke_Key = key, ke_NotBefore = ct_NotBefore cert, ke_NotAfter = ct_NotAfter cert\<rparr>))"

record task =
  t_claims :: task_claims
  t_Key :: bytes
  t_NotAfter :: time
  t_Fingerprint :: string

definition VerifyTask ::
  "'x crypto_scheme \<Rightarrow> x509 \<Rightarrow> bytes \<Rightarrow> bytes list \<Rightarrow> time \<Rightarrow> identity_error + task" where
  "VerifyTask C X der roots at =
     ebind (cert_verify X der roots at PolicyTaskCredential [ClientAuth] [uriAgent, uriPrincipal, uriTask]) (\<lambda>(cert, vals).
     if sat64 (ct_NotAfter cert - ct_NotBefore cert) > MaxTaskLifetime + ClockSkew then Inl (IdInvalid ''lifetime'')
     else Inr \<lparr>t_claims = \<lparr>tc_Agent = the (vals uriAgent), tc_Principal = the (vals uriPrincipal), tc_Task = the (vals uriTask)\<rparr>,
       t_Key = the (ct_MLDSA cert), t_NotAfter = ct_NotAfter cert,
       t_Fingerprint = ''cert-sha256:'' @ hex_encode (hash_bytes (sha256 C der))\<rparr>)"

section \<open>What the profile guarantees\<close>

lemma take_uri_Inr:
  "take_uri vals s ps = Inr vals' \<Longrightarrow> \<exists>p \<in> set ps. \<exists>v. s = p @ v \<and> vals p = None \<and> value_ok v \<and> vals' = vals(p \<mapsto> v)"
  by (induction vals s ps rule: take_uri.induct) (auto simp: cut_prefix_Some split: option.splits if_splits)

text \<open>The values read from the URIs are well formed and come from the certificate.\<close>

lemma take_uris_values:
  assumes "efold (\<lambda>vals s. take_uri vals s ps) Map.empty uris = Inr vals" "vals p = Some v"
  shows "value_ok v \<and> p @ v \<in> set uris"
proof -
  have "\<forall>p v. vals p = Some v \<longrightarrow> value_ok v \<and> p @ v \<in> set uris"
  proof (rule efold_invariant [OF assms(1), where I = "\<lambda>us vals. \<forall>p v. vals p = Some v \<longrightarrow> value_ok v \<and> p @ v \<in> set us"])
    fix ys u x w
    assume "\<forall>p v. u p = Some v \<longrightarrow> value_ok v \<and> p @ v \<in> set ys" "take_uri u x ps = Inr w"
    then show "\<forall>p v. w p = Some v \<longrightarrow> value_ok v \<and> p @ v \<in> set (ys @ [x])"
      using take_uri_Inr [of u x ps w] by (auto split: if_splits)
  qed simp
  then show ?thesis using assms(2) by blast
qed

lemma cert_verify_Inr:
  assumes "cert_verify X der roots at policy usages prefixes = Inr (cert, vals)"
  shows "x_Parse X der = Some cert" "x_Verify X roots der at usages" "ct_Policies cert = [policy]"
    "\<not> ct_IsCA cert" "\<exists>k. ct_MLDSA cert = Some k \<and> isMLDSA65 k"
    "p \<in> set prefixes \<Longrightarrow> \<exists>v. vals p = Some v \<and> value_ok v \<and> p @ v \<in> set (ct_URIs cert)"
proof -
  obtain k where c: "x_Parse X der = Some cert" "x_Verify X roots der at usages" "ct_Policies cert = [policy]"
    "\<not> ct_IsCA cert" "ct_MLDSA cert = Some k" "isMLDSA65 k"
    "efold (\<lambda>vals s. take_uri vals s prefixes) Map.empty (ct_URIs cert) = Inr vals" "\<not> list_ex (\<lambda>p. vals p = None) prefixes"
    using assms by (auto simp: cert_verify_def split: option.splits)
  then show "x_Parse X der = Some cert" "x_Verify X roots der at usages" "ct_Policies cert = [policy]"
    "\<not> ct_IsCA cert" "\<exists>k. ct_MLDSA cert = Some k \<and> isMLDSA65 k" by simp_all
  assume "p \<in> set prefixes"
  with c(8) obtain v where "vals p = Some v" by (auto simp: list_ex_iff)
  with take_uris_values [OF c(7)] show "\<exists>v. vals p = Some v \<and> value_ok v \<and> p @ v \<in> set (ct_URIs cert)" by blast
qed

lemma policies_distinct:
  "PolicyKeyEpoch \<noteq> PolicyTaskCredential" "PolicyServer \<noteq> PolicyTaskCredential" "PolicyServer \<noteq> PolicyKeyEpoch"
  by (simp_all add: PolicyKeyEpoch_def PolicyTaskCredential_def PolicyServer_def)

lemma VerifyTask_Inr:
  "VerifyTask C X der roots at = Inr t \<longleftrightarrow> (\<exists>cert vals.
     cert_verify X der roots at PolicyTaskCredential [ClientAuth] [uriAgent, uriPrincipal, uriTask] = Inr (cert, vals) \<and>
     ct_NotAfter cert - ct_NotBefore cert \<le> MaxTaskLifetime + ClockSkew \<and>
     t = \<lparr>t_claims = \<lparr>tc_Agent = the (vals uriAgent), tc_Principal = the (vals uriPrincipal), tc_Task = the (vals uriTask)\<rparr>,
       t_Key = the (ct_MLDSA cert), t_NotAfter = ct_NotAfter cert,
       t_Fingerprint = ''cert-sha256:'' @ hex_encode (hash_bytes (sha256 C der))\<rparr>)"
proof -
  have "\<not> sat64 (ct_NotAfter cert - ct_NotBefore cert) > MaxTaskLifetime + ClockSkew \<longleftrightarrow>
      ct_NotAfter cert - ct_NotBefore cert \<le> MaxTaskLifetime + ClockSkew" for cert :: certificate
    unfolding not_less by (rule sat64_le_iff) (simp_all add: MaxTaskLifetime_def ClockSkew_def ns_per_s_def)
  then show ?thesis by (auto simp: VerifyTask_def split: prod.splits)
qed

lemma VerifyKeyEpoch_cert:
  assumes "VerifyKeyEpoch C X der roots at = Inr e"
  shows "\<exists>cert vals ed. cert_verify X der roots at PolicyKeyEpoch [UsageAny] [uriKid, uriEd25519] = Inr (cert, vals) \<and>
     b64_decode (the (vals uriEd25519)) = Some ed \<and> length ed = 32 \<and>
     ParsePublicKey C MLDSA65Ed25519 (the (ct_MLDSA cert) @ ed) = Inr (ke_Key e) \<and> ke_Kid e = the (vals uriKid)"
  using assms by (auto simp: VerifyKeyEpoch_def split: prod.splits option.splits if_splits)

text \<open>
  a certificate has one purpose: what a gateway accepts as a task credential is never accepted as
  a receipt-signing key epoch and never as the server's certificate, whatever roots and times are
  used, and the credential it accepts names well-formed values and lives for at most 16 minutes.
\<close>

theorem task_credential_purpose:
  assumes "VerifyTask C X der roots at = Inr t"
  shows "(\<exists>e. VerifyKeyEpoch C X der roots' at' = Inl e) \<and>
    (\<forall>cert rest. x_Parse X der = Some cert \<longrightarrow> (\<exists>e. CheckServer (cert # rest) = Inl e) \<and>
       ct_NotAfter cert - ct_NotBefore cert \<le> 16 * 60 * ns_per_s \<and> t_NotAfter t = ct_NotAfter cert) \<and>
    value_ok (tc_Agent (t_claims t)) \<and> value_ok (tc_Principal (t_claims t)) \<and> value_ok (tc_Task (t_claims t))
    \<and> isMLDSA65 (t_Key t)"
proof -
  obtain cert vals where cv: "cert_verify X der roots at PolicyTaskCredential [ClientAuth] [uriAgent, uriPrincipal, uriTask]
      = Inr (cert, vals)" "ct_NotAfter cert - ct_NotBefore cert \<le> MaxTaskLifetime + ClockSkew" "t = \<lparr>t_claims =
      \<lparr>tc_Agent = the (vals uriAgent), tc_Principal = the (vals uriPrincipal), tc_Task = the (vals uriTask)\<rparr>,
       t_Key = the (ct_MLDSA cert), t_NotAfter = ct_NotAfter cert,
       t_Fingerprint = ''cert-sha256:'' @ hex_encode (hash_bytes (sha256 C der))\<rparr>"
    using assms unfolding VerifyTask_Inr by blast
  note props = cert_verify_Inr [OF cv(1)]
  have "\<exists>e. VerifyKeyEpoch C X der roots' at' = Inl e"
  proof (cases "VerifyKeyEpoch C X der roots' at'")
    case (Inr e)
    then obtain cert' vals' where "cert_verify X der roots' at' PolicyKeyEpoch [UsageAny] [uriKid, uriEd25519] = Inr (cert', vals')"
      using VerifyKeyEpoch_cert by blast
    from cert_verify_Inr(1,3) [OF this] props(1,3) show ?thesis by (simp add: policies_distinct)
  qed blast
  moreover have "\<exists>e. CheckServer (cert # rest) = Inl e" for rest
    using props(3) policies_distinct by (simp add: CheckServer_def)
  moreover have "value_ok (the (vals uriAgent))" "value_ok (the (vals uriPrincipal))" "value_ok (the (vals uriTask))"
    using props(6) by force+
  ultimately show ?thesis using props(1,5) cv(2,3) by (auto simp: MaxTaskLifetime_def ClockSkew_def)
qed

section \<open>Issued credentials verify\<close>

text \<open>
  What the sources rely on \<open>crypto/x509\<close> for: a certificate it creates parses back to its template
  with the CA's signature algorithm, the subject key and times in whole seconds, and chains to its
  CA while both are valid, for any of its extended usages.
\<close>

definition whole_s :: "time \<Rightarrow> time" where
  "whole_s t = t - t mod ns_per_s"

definition valid_at :: "certificate \<Rightarrow> time \<Rightarrow> bool" where
  "valid_at c at \<longleftrightarrow> ct_NotBefore c \<le> at \<and> at \<le> ct_NotAfter c"

definition x509_ok :: "x509 \<Rightarrow> ca \<Rightarrow> bool" where
  "x509_ok X ca \<longleftrightarrow> (\<forall>tmpl pub der. x_Create X tmpl ca pub = Some der \<longrightarrow>
     (\<exists>cert. cert = tmpl\<lparr>ct_SigAlg := ''ML-DSA-65'', ct_MLDSA := Some pub, ct_NotBefore := whole_s (ct_NotBefore tmpl),
         ct_NotAfter := whole_s (ct_NotAfter tmpl)\<rparr> \<and> x_Parse X der = Some cert \<and>
       (\<forall>root at usages. x_Parse X (ca_Cert ca) = Some root \<and> valid_at root at \<and> valid_at cert at \<and>
          (UsageAny \<in> set usages \<or> ct_ExtKeyUsage cert = [] \<or> set usages \<inter> set (ct_ExtKeyUsage cert) \<noteq> {}) \<longrightarrow>
          x_Verify X [ca_Cert ca] der at usages)))"

lemma x509_okD:
  assumes "x509_ok X ca" "x_Create X tmpl ca pub = Some der"
  shows "x_Parse X der = Some (tmpl\<lparr>ct_SigAlg := ''ML-DSA-65'', ct_MLDSA := Some pub,
      ct_NotBefore := whole_s (ct_NotBefore tmpl), ct_NotAfter := whole_s (ct_NotAfter tmpl)\<rparr>)"
    "x_Parse X (ca_Cert ca) = Some root \<Longrightarrow> valid_at root at \<Longrightarrow> whole_s (ct_NotBefore tmpl) \<le> at \<Longrightarrow>
      at \<le> whole_s (ct_NotAfter tmpl) \<Longrightarrow>
      UsageAny \<in> set usages \<or> ct_ExtKeyUsage tmpl = [] \<or> set usages \<inter> set (ct_ExtKeyUsage tmpl) \<noteq> {} \<Longrightarrow>
      x_Verify X [ca_Cert ca] der at usages"
  using assms by (auto simp: x509_ok_def valid_at_def)

lemma whole_s_diff: "b - a \<le> n * ns_per_s \<Longrightarrow> whole_s b - whole_s a \<le> n * ns_per_s"
proof -
  assume "b - a \<le> n * ns_per_s"
  then have "b \<le> a + n * ns_per_s" by simp
  then have "b div ns_per_s \<le> (a + n * ns_per_s) div ns_per_s" by (intro zdiv_mono1) (simp_all add: ns_per_s_def)
  then have "b div ns_per_s - a div ns_per_s \<le> n" by (simp add: ns_per_s_def)
  then have "(b div ns_per_s - a div ns_per_s) * ns_per_s \<le> n * ns_per_s" by (simp add: ns_per_s_def)
  then show ?thesis by (simp add: whole_s_def minus_mod_eq_div_mult left_diff_distrib)
qed

lemma uri_prefixes [simp]:
  "cut_prefix uriAgent (uriAgent @ v) = Some v" "cut_prefix uriPrincipal (uriPrincipal @ v) = Some v"
  "cut_prefix uriTask (uriTask @ v) = Some v" "cut_prefix uriAgent (uriPrincipal @ v) = None"
  "cut_prefix uriAgent (uriTask @ v) = None" "cut_prefix uriPrincipal (uriTask @ v) = None"
  "cut_prefix uriKid (uriKid @ v) = Some v" "cut_prefix uriKid (uriEd25519 @ v) = None"
  "cut_prefix uriEd25519 (uriEd25519 @ v) = Some v"
  by (simp_all add: uriAgent_def uriPrincipal_def uriTask_def uriKid_def uriEd25519_def cut_prefix_def)

lemma uri_distinct [simp]:
  "uriAgent \<noteq> uriPrincipal" "uriAgent \<noteq> uriTask" "uriPrincipal \<noteq> uriTask" "uriKid \<noteq> uriEd25519"
  "uriPrincipal \<noteq> uriAgent" "uriTask \<noteq> uriAgent" "uriTask \<noteq> uriPrincipal" "uriEd25519 \<noteq> uriKid"
  by (simp_all add: uriAgent_def uriPrincipal_def uriTask_def uriKid_def uriEd25519_def)

text \<open>
  a task credential that the CA issues verifies under the CA's pool while it is valid, and gives
  back the claims and the key it was issued for.
\<close>

theorem IssueTask_VerifyTask:
  assumes "IssueTask X sn ca c pub nb na = Inr der" "x509_ok X ca" "x_Parse X (ca_Cert ca) = Some root"
    and "valid_at root at" "whole_s nb \<le> at" "at \<le> whole_s na"
  shows "\<exists>t. VerifyTask C X der (ca_Pool ca) at = Inr t \<and> t_claims t = c \<and> t_Key t = pub \<and> t_NotAfter t = whole_s na"
proof -
  let ?tmpl = "leaf_template\<lparr>ct_CommonName := tc_Agent c, ct_NotBefore := nb, ct_NotAfter := na,
    ct_ExtKeyUsage := [ClientAuth], ct_Policies := [PolicyTaskCredential],
    ct_URIs := [urn uriAgent (tc_Agent c), urn uriPrincipal (tc_Principal c), urn uriTask (tc_Task c)], ct_Serial := sn\<rparr>"
  have i: "value_ok (tc_Agent c)" "value_ok (tc_Principal c)" "value_ok (tc_Task c)" "isMLDSA65 pub"
    "sat64 (na - nb) \<le> MaxTaskLifetime + ClockSkew" "x_Create X ?tmpl ca pub = Some der"
    using assms(1) by (simp_all add: IssueTask_def claims_check_def checkValue_def require_def ca_issue_def not_less
        split: if_splits)
  have life: "whole_s na - whole_s nb \<le> MaxTaskLifetime + ClockSkew"
  proof -
    have "na - nb \<le> MaxTaskLifetime + ClockSkew"
      using i(5) by (subst (asm) sat64_le_iff) (simp_all add: MaxTaskLifetime_def ClockSkew_def ns_per_s_def)
    then have "na - nb \<le> 960 * ns_per_s" by (simp add: MaxTaskLifetime_def ClockSkew_def)
    from whole_s_diff [OF this] show ?thesis by (simp add: MaxTaskLifetime_def ClockSkew_def)
  qed
  have "x_Verify X [ca_Cert ca] der at [ClientAuth]"
    using x509_okD(2) [OF assms(2) i(6) assms(3,4)] assms(5,6) by (simp add: leaf_template_def)
  then show ?thesis
    using x509_okD(1) [OF assms(2) i(6)] i(1-4) life
    by (simp add: VerifyTask_Inr cert_verify_def ca_Pool_def leaf_template_def urn_def)
qed

end
