(* ===== verification/Keys.thy ===== *)
theory Keys
  imports LogSpec Identity
begin

text \<open>
  Trust files and rotating keys: \<open>internal/keys/keys.go\<close> (JWK Sets) and \<open>internal/keys/rotating.go\<close>
  (keys that a log introduces by certified rotations).  The interface \<open>chain.Keys\<close> is the locale
  \<open>key_directory\<close>, interpreted on both implementations.
\<close>

section \<open>JWK Sets\<close>

definition KeyType :: string where
  "KeyType = ''AKP''"

record jwk =
  jwk_Kty :: string
  jwk_Alg :: string
  jwk_Kid :: string
  jwk_Pub :: string
  jwk_Priv :: "string option"

datatype keys_error =
  KeysSyntax
| TrailingData
| NoKeys
| PrivateKey
| WrongKty
| WrongAlg
| MissingKid
| DuplicateKid
| PubEncoding
| PubKey composite_error
| NoRoots
| EpochInvalid identity_error
| EpochKid
| EpochKey
| KidKnown

definition PublicJWK :: "string \<Rightarrow> public_key \<Rightarrow> jwk" where
  "PublicJWK kid pub = \<lparr>jwk_Kty = KeyType, jwk_Alg = suite_Name (pk_suite pub), jwk_Kid = kid,
     jwk_Pub = b64_encode (pub_Bytes pub), jwk_Priv = None\<rparr>"

definition json_of_jwk :: "jwk \<Rightarrow> json" where
  "json_of_jwk k = JObj ([(''kty'', JStr (jwk_Kty k)), (''alg'', JStr (jwk_Alg k)), (''kid'', JStr (jwk_Kid k)),
     (''pub'', JStr (jwk_Pub k))] @ omit_ptr ''priv'' JStr (jwk_Priv k))"

definition json_of_set :: "jwk list option \<Rightarrow> json" where
  "json_of_set ks = JObj [(''keys'', json_of_slice json_of_jwk ks)]"

definition dec_jwk :: "json \<Rightarrow> jwk option" where
  "dec_jwk j = do {
     f \<leftarrow> fields_of [''kty'', ''alg'', ''kid'', ''pub'', ''priv''] j;
     t \<leftarrow> get_str f ''kty''; a \<leftarrow> get_str f ''alg''; k \<leftarrow> get_str f ''kid''; p \<leftarrow> get_str f ''pub'';
     x \<leftarrow> get_ptr as_str f ''priv'';
     Some \<lparr>jwk_Kty = t, jwk_Alg = a, jwk_Kid = k, jwk_Pub = p, jwk_Priv = x\<rparr> }"

definition dec_set :: "json \<Rightarrow> jwk list option option" where
  "dec_set j = do { f \<leftarrow> fields_of [''keys''] j; get_arr dec_jwk f ''keys'' }"

type_synonym trusted = "string \<rightharpoonup> public_key"

definition add_key :: "'x crypto_scheme \<Rightarrow> trusted \<Rightarrow> jwk \<Rightarrow> keys_error + trusted" where
  "add_key C out k =
     (if jwk_Priv k \<noteq> None then Inl PrivateKey
      else if jwk_Kty k \<noteq> KeyType then Inl WrongKty
      else if jwk_Alg k \<noteq> Alg then Inl WrongAlg
      else if jwk_Kid k = [] then Inl MissingKid
      else if out (jwk_Kid k) \<noteq> None then Inl DuplicateKid
      else ebind (of_option PubEncoding (b64_decode (jwk_Pub k))) (\<lambda>raw.
        ebind (map_err PubKey (ParsePublicKey C MLDSA65Ed25519 raw)) (\<lambda>pub.
        Inr (out(jwk_Kid k \<mapsto> pub)))))"

definition keys_Parse :: "'x crypto_scheme \<Rightarrow> bytes \<Rightarrow> keys_error + trusted" where
  "keys_Parse C data =
     ebind (of_option KeysSyntax (decode_json data)) (\<lambda>(j, rest).
     ebind (of_option KeysSyntax (dec_set j)) (\<lambda>ks.
     if dec_More rest then Inl TrailingData
     else let keys = (case ks of None \<Rightarrow> [] | Some l \<Rightarrow> l) in
       if keys = [] then Inl NoKeys else efold (add_key C) Map.empty keys))"

definition Resolver :: "trusted \<Rightarrow> key_resolver" where
  "Resolver trusted kid = trusted kid"

section \<open>Rotating keys\<close>

record rotating =
  rot_known :: trusted
  rot_roots :: "bytes list option"
  rot_learned :: "string list"

definition NewRotating :: "trusted \<Rightarrow> bytes list option \<Rightarrow> rotating" where
  "NewRotating trusted roots = \<lparr>rot_known = trusted, rot_roots = roots, rot_learned = []\<rparr>"

definition rotating_Resolve :: "rotating \<Rightarrow> string \<Rightarrow> public_key option" where
  "rotating_Resolve r kid = rot_known r kid"

definition rotating_Accept ::
  "'x crypto_scheme \<Rightarrow> x509 \<Rightarrow> rotating \<Rightarrow> string \<Rightarrow> string \<Rightarrow> bytes \<Rightarrow> time \<Rightarrow> keys_error + rotating" where
  "rotating_Accept C X r kid keyDigest cert at =
     (case rot_roots r of None \<Rightarrow> Inl NoRoots | Some roots \<Rightarrow>
      ebind (map_err EpochInvalid (VerifyKeyEpoch C X cert roots at)) (\<lambda>epoch.
      if ke_Kid epoch \<noteq> kid then Inl EpochKid
      else if digest_SHA256 (sha256 C) (pub_Bytes (ke_Key epoch)) \<noteq> keyDigest then Inl EpochKey
      else (case rot_known r kid of
          Some existing \<Rightarrow> if pub_Bytes existing = pub_Bytes (ke_Key epoch) then Inr r else Inl KidKnown
        | None \<Rightarrow> Inr (r\<lparr>rot_known := (rot_known r)(kid \<mapsto> ke_Key epoch), rot_learned := rot_learned r @ [kid]\<rparr>))))"

definition Rotating :: "'x crypto_scheme \<Rightarrow> x509 \<Rightarrow> rotating keys" where
  "Rotating C X = \<lparr>k_Resolve = rotating_Resolve,
     k_Accept = (\<lambda>r kid d cert at. case rotating_Accept C X r kid d cert at of Inl _ \<Rightarrow> None | Inr r' \<Rightarrow> Some r')\<rparr>"

section \<open>The interface of key directories\<close>

text \<open>A rotation of the log introduced the key, by what \<open>certs\<close> lets a directory learn.\<close>

definition introduced ::
  "('k \<Rightarrow> string \<Rightarrow> bytes \<Rightarrow> time \<Rightarrow> public_key \<Rightarrow> bool) \<Rightarrow> 'k \<Rightarrow> entry \<Rightarrow> string \<Rightarrow> public_key \<Rightarrow> bool" where
  "introduced certs ks e kid p \<longleftrightarrow> (\<exists>rot cert t. r_rotation (e_rcpt e) = Some rot \<and> rot_to rot = kid \<and>
     b64_decode (rot_certificate rot) = Some cert \<and> parse_ts (r_ts (e_rcpt e)) = Some t \<and> certs ks kid cert t p)"

text \<open>
  \<open>certs\<close> says which keys a directory may learn from a certificate.  A directory never changes or
  forgets the meaning of a key ID, and learns only the key ID it is asked to accept.
\<close>

locale key_directory =
  fixes K :: "'k keys" and certs :: "'k \<Rightarrow> string \<Rightarrow> bytes \<Rightarrow> time \<Rightarrow> public_key \<Rightarrow> bool"
  assumes accept_keeps: "k_Accept K ks kid d c t = Some ks' \<Longrightarrow> k_Resolve K ks k = Some p \<Longrightarrow> k_Resolve K ks' k = Some p"
    and accept_learns: "k_Accept K ks kid d c t = Some ks' \<Longrightarrow> k_Resolve K ks' k = Some p \<Longrightarrow>
      k_Resolve K ks k = Some p \<or> k = kid \<and> certs ks kid c t p"
    and accept_certs: "k_Accept K ks kid d c t = Some ks' \<Longrightarrow> certs ks' = certs ks"
begin

lemma keys_after_keeps: "k_Resolve K ks kid = Some p \<Longrightarrow> k_Resolve K (keys_after K ks es) kid = Some p"
proof (induction es rule: rev_induct)
  case (snoc e es)
  then show ?case
    by (auto simp: keys_after_snoc accept_rotation_def bind_eq_Some_conv intro: accept_keeps split: option.split)
qed (simp add: keys_after_def)

lemma keys_after_certs: "certs (keys_after K ks es) = certs ks"
proof (induction es rule: rev_induct)
  case (snoc e es)
  then show ?case
    by (auto simp: keys_after_snoc accept_rotation_def bind_eq_Some_conv dest!: accept_certs split: option.split)
qed (simp add: keys_after_def)

lemma key_origin:
  "k_Resolve K (keys_after K ks es) kid = Some p \<Longrightarrow> k_Resolve K ks kid = Some p \<or> (\<exists>e \<in> set es. introduced certs ks e kid p)"
proof (induction es rule: rev_induct)
  case (snoc e es)
  show ?case
  proof (cases "accept_rotation K (keys_after K ks es) (e_rcpt e)")
    case None
    then show ?thesis using snoc by (auto simp: keys_after_snoc)
  next
    case (Some ks')
    then obtain rot cert t where a: "r_rotation (e_rcpt e) = Some rot" "b64_decode (rot_certificate rot) = Some cert"
      "parse_ts (r_ts (e_rcpt e)) = Some t" "k_Accept K (keys_after K ks es) (rot_to rot) (rot_key rot) cert t = Some ks'"
      by (auto simp: accept_rotation_def bind_eq_Some_conv)
    have "k_Resolve K ks' kid = Some p" using snoc.prems Some by (simp add: keys_after_snoc)
    from accept_learns [OF a(4) this] show ?thesis
      using snoc.IH a keys_after_certs [of ks es] by (auto simp: introduced_def)
  qed
qed (simp add: keys_after_def)

lemma log_key_origin:
  assumes "log_ok C K ks chainID revs es" "i < length es"
  shows "k_Resolve K ks (e_kid (es ! i)) = Some (e_pub (es ! i)) \<or>
    (\<exists>j < i. introduced certs ks (es ! j) (e_kid (es ! i)) (e_pub (es ! i)))"
proof -
  have "authentic C K ks (take i es) (es ! i)" using log_okD [OF assms] by (simp add: admissible_def)
  then have "k_Resolve K (keys_after K ks (take i es)) (e_kid (es ! i)) = Some (e_pub (es ! i))" by (auto simp: authentic_def)
  from key_origin [OF this] show ?thesis using assms(2) by (auto simp: in_set_conv_nth)
qed

lemma log_same_key:
  assumes "log_ok C K ks chainID revs es" "i \<le> j" "j < length es" "e_kid (es ! i) = e_kid (es ! j)"
  shows "e_pub (es ! i) = e_pub (es ! j)"
proof -
  have r: "k_Resolve K (keys_after K ks (take n es)) (e_kid (es ! n)) = Some (e_pub (es ! n))" if "n < length es" for n
    using log_okD [OF assms(1) that] by (auto simp: admissible_def authentic_def)
  have "take j es = take i es @ drop i (take j es)"
    using append_take_drop_id [of i "take j es"] assms(2) by (simp add: min_def)
  then have "keys_after K ks (take j es) = keys_after K (keys_after K ks (take i es)) (drop i (take j es))"
    unfolding keys_after_def by (metis foldl_append)
  then have "k_Resolve K (keys_after K ks (take j es)) (e_kid (es ! i)) = Some (e_pub (es ! i))"
    using keys_after_keeps r [of i] assms(2,3) by simp
  with r [OF assms(3)] assms(4) show ?thesis by simp
qed

end

lemma StaticKeys_directory: "key_directory (StaticKeys f) (\<lambda>_ _ _ _ _. False)"
  by unfold_locales (simp_all add: StaticKeys_def)

interpretation static_keys: key_directory "StaticKeys f" "\<lambda>_ _ _ _ _. False" for f
  by (rule StaticKeys_directory)

definition epoch_certs ::
  "'x crypto_scheme \<Rightarrow> x509 \<Rightarrow> rotating \<Rightarrow> string \<Rightarrow> bytes \<Rightarrow> time \<Rightarrow> public_key \<Rightarrow> bool" where
  "epoch_certs C X r kid cert at p \<longleftrightarrow> (\<exists>roots e. rot_roots r = Some roots \<and>
     VerifyKeyEpoch C X cert roots at = Inr e \<and> ke_Kid e = kid \<and> ke_Key e = p)"

lemma rotating_Accept_Some:
  "k_Accept (Rotating C X) r kid d cert at = Some r' \<longleftrightarrow> rotating_Accept C X r kid d cert at = Inr r'"
  by (simp add: Rotating_def split: sum.split)

lemma Rotating_Resolve: "k_Resolve (Rotating C X) r kid = rot_known r kid"
  by (simp add: Rotating_def rotating_Resolve_def)

lemma rotating_Accept_cases:
  assumes "rotating_Accept C X r kid d cert at = Inr r'"
  shows "\<exists>p. epoch_certs C X r kid cert at p \<and> digest_SHA256 (sha256 C) (pub_Bytes p) = d \<and>
    (r' = r \<and> rot_known r kid \<noteq> None \<or>
     rot_known r kid = None \<and> r' = r\<lparr>rot_known := (rot_known r)(kid \<mapsto> p), rot_learned := rot_learned r @ [kid]\<rparr>)"
proof -
  obtain roots where roots: "rot_roots r = Some roots" using assms by (auto simp: rotating_Accept_def)
  with assms obtain e where e: "VerifyKeyEpoch C X cert roots at = Inr e" "ke_Kid e = kid"
    "digest_SHA256 (sha256 C) (pub_Bytes (ke_Key e)) = d"
    "(case rot_known r kid of Some p \<Rightarrow> if pub_Bytes p = pub_Bytes (ke_Key e) then Inr r else Inl KidKnown
      | None \<Rightarrow> Inr (r\<lparr>rot_known := (rot_known r)(kid \<mapsto> ke_Key e), rot_learned := rot_learned r @ [kid]\<rparr>)) = Inr r'"
    by (simp add: rotating_Accept_def del: not_None_eq) blast
  show ?thesis
    by (rule exI [of _ "ke_Key e"]) (use e roots in \<open>auto simp: epoch_certs_def split: option.splits if_splits\<close>)
qed

lemma Rotating_directory: "key_directory (Rotating C X) (epoch_certs C X)"
proof
  fix r kid d c t r' k p
  assume "k_Accept (Rotating C X) r kid d c t = Some r'"
  then have "rotating_Accept C X r kid d c t = Inr r'" by (simp only: rotating_Accept_Some)
  then show "epoch_certs C X r' = epoch_certs C X r"
    and "k_Resolve (Rotating C X) r k = Some p \<Longrightarrow> k_Resolve (Rotating C X) r' k = Some p"
    and "k_Resolve (Rotating C X) r' k = Some p \<Longrightarrow>
      k_Resolve (Rotating C X) r k = Some p \<or> k = kid \<and> epoch_certs C X r kid c t p"
    using rotating_Accept_cases [of C X r kid d c t r']
    by (auto simp: Rotating_Resolve epoch_certs_def fun_eq_iff split: if_splits)
qed

interpretation rotating_keys: key_directory "Rotating C X" "epoch_certs C X" for C X
  by (rule Rotating_directory)

text \<open>
  C28: rotations introduce only certified keys: when a log verifies with a rotating directory, the key
  of every receipt is the trusted one of its key ID or was introduced by an earlier rotation whose
  certificate, judged at the time of the rotation, the given roots issued for that key ID and key;
  and a key ID means the same key throughout the log.
\<close>

theorem rotated_keys_certified:
  assumes "VerifyAll C log chainID (Rotating C X) ks cps revs = Inr (rep, ks')"
  shows "\<exists>es. scan_lines log = (map e_line es, False) \<and> (\<forall>i < length es.
    authentic C (Rotating C X) ks (take i es) (es ! i) \<and>
    (rot_known ks (e_kid (es ! i)) = Some (e_pub (es ! i)) \<or>
     (\<exists>j < i. \<exists>rot cert t roots e. r_rotation (e_rcpt (es ! j)) = Some rot \<and> rot_to rot = e_kid (es ! i) \<and>
        b64_decode (rot_certificate rot) = Some cert \<and> parse_ts (r_ts (e_rcpt (es ! j))) = Some t \<and>
        rot_roots ks = Some roots \<and> VerifyKeyEpoch C X cert roots t = Inr e \<and>
        ke_Kid e = e_kid (es ! i) \<and> ke_Key e = e_pub (es ! i))) \<and>
    (\<forall>j < length es. e_kid (es ! i) = e_kid (es ! j) \<longrightarrow> e_pub (es ! i) = e_pub (es ! j)))"
proof -
  obtain es where es: "scan_lines log = (map e_line es, False)" "log_ok C (Rotating C X) ks chainID revs es"
    using assms by (auto simp: VerifyAll_Inr verified_log_def)
  have same: "e_pub (es ! i) = e_pub (es ! j)" if "i < length es" "j < length es" "e_kid (es ! i) = e_kid (es ! j)" for i j
    using rotating_keys.log_same_key [OF es(2) _ that(2,3)] rotating_keys.log_same_key [OF es(2) _ that(1) that(3) [symmetric], THEN sym]
    by (rule le_cases)
  have origin: "rot_known ks (e_kid (es ! i)) = Some (e_pub (es ! i)) \<or>
     (\<exists>j < i. \<exists>rot cert t roots e. r_rotation (e_rcpt (es ! j)) = Some rot \<and> rot_to rot = e_kid (es ! i) \<and>
        b64_decode (rot_certificate rot) = Some cert \<and> parse_ts (r_ts (e_rcpt (es ! j))) = Some t \<and>
        rot_roots ks = Some roots \<and> VerifyKeyEpoch C X cert roots t = Inr e \<and>
        ke_Kid e = e_kid (es ! i) \<and> ke_Key e = e_pub (es ! i))" if "i < length es" for i
  proof (rule disjE [OF rotating_keys.log_key_origin [OF es(2) that]])
    assume "k_Resolve (Rotating C X) ks (e_kid (es ! i)) = Some (e_pub (es ! i))"
    then show ?thesis by (simp add: Rotating_Resolve)
  next
    assume "\<exists>j < i. introduced (epoch_certs C X) ks (es ! j) (e_kid (es ! i)) (e_pub (es ! i))"
    then obtain j where j: "j < i" "introduced (epoch_certs C X) ks (es ! j) (e_kid (es ! i)) (e_pub (es ! i))" by blast
    from j(2) obtain rot cert t where r: "r_rotation (e_rcpt (es ! j)) = Some rot" "rot_to rot = e_kid (es ! i)"
      "b64_decode (rot_certificate rot) = Some cert" "parse_ts (r_ts (e_rcpt (es ! j))) = Some t"
      "epoch_certs C X ks (e_kid (es ! i)) cert t (e_pub (es ! i))"
      unfolding introduced_def by blast
    from r(5) obtain roots e where e: "rot_roots ks = Some roots" "VerifyKeyEpoch C X cert roots t = Inr e"
      "ke_Kid e = e_kid (es ! i)" "ke_Key e = e_pub (es ! i)"
      unfolding epoch_certs_def by blast
    show ?thesis
      by (intro disjI2 exI [of _ j] exI [of _ rot] exI [of _ cert] exI [of _ t] exI [of _ roots] exI [of _ e] conjI j(1) r(1-4) e)
  qed
  have auth: "authentic C (Rotating C X) ks (take i es) (es ! i)" if "i < length es" for i
    using log_okD [OF es(2) that] by (simp add: admissible_def)
  show ?thesis 
    by (intro exI [of _ es] conjI allI impI es(1)) (rule auth origin same; assumption)+
qed

text \<open>
  with a static directory a log that verifies has no rotation, reports none, and is signed under
  one key ID by the one key the directory has for it.
\<close>

theorem static_keys_no_rotation:
  assumes "VerifyAll C log chainID (StaticKeys f) u cps revs = Inr (rep, u')"
  shows "rep_Rotations rep = [] \<and> (\<exists>(es :: entry list) kid pub. scan_lines log = (map e_line es, False) \<and> f kid = Some pub \<and>
    (\<forall>e \<in> set es. e_kid e = kid \<and> e_pub e = pub))"
proof -
  obtain es where es: "scan_lines log = (map e_line es, False)" "log_ok C (StaticKeys f) u chainID revs es" "es \<noteq> []"
    "rep = report_of C chainID cps es"
    using assms by (auto simp: VerifyAll_Inr verified_log_def)
  have norot: "r_rotation (e_rcpt (es ! i)) = None" if "i < length es" for i
  proof (rule ccontr)
    assume r: "r_rotation (e_rcpt (es ! i)) \<noteq> None"
    have a: "admissible C (StaticKeys f) u chainID revs (take i es) (es ! i)" by (rule log_okD [OF es(2) that])
    then have "r_type (e_rcpt (es ! i)) = TypeKeyRotation" using Validate_refs(4) [OF admissible_Validate [OF a]] r by simp
    with a show False
      by (auto simp: admissible_def rotation_admissible_def accept_rotation_def StaticKeys_def bind_eq_Some_conv)
  qed
  have kid: "e_kid (es ! i) = e_kid (es ! 0)" if "i < length es" for i
    using that
  proof (induction i)
    case (Suc i)
    have "take (Suc i) es = take i es @ [es ! i]" using Suc.prems by (simp add: take_Suc_conv_app_nth)
    moreover have "admissible C (StaticKeys f) u chainID revs (take (Suc i) es) (es ! Suc i)"
      by (rule log_okD [OF es(2) Suc.prems])
    ultimately have "e_kid (es ! Suc i) = signer_after (take i es @ [es ! i])" by (simp add: admissible_def linked_def)
    with norot [of i] Suc show ?case by (simp add: signer_after_snoc)
  qed simp
  have pub: "f (e_kid (es ! i)) = Some (e_pub (es ! i))" if "i < length es" for i
  proof -
    have "authentic C (StaticKeys f) u (take i es) (es ! i)" using log_okD [OF es(2) that] unfolding admissible_def by (rule conjunct1)
    then show ?thesis by (auto simp: authentic_def StaticKeys_def)
  qed
  have "rep_Rotations rep = []"
    using norot es(4) by (auto simp: report_of_def handovers_def in_set_conv_nth)
  moreover have "\<forall>e \<in> set es. e_kid e = e_kid (es ! 0) \<and> e_pub e = e_pub (es ! 0)"
  proof
    fix e assume "e \<in> set es"
    then obtain i where i: "i < length es" "e = es ! i" by (auto simp: in_set_conv_nth)
    have "f (e_kid (es ! 0)) = Some (e_pub e)" using pub [OF i(1)] kid [OF i(1)] i(2) by simp
    then show "e_kid e = e_kid (es ! 0) \<and> e_pub e = e_pub (es ! 0)" using kid [OF i(1)] i pub [of 0] es(3) by simp
  qed
  moreover have "f (e_kid (es ! 0)) = Some (e_pub (es ! 0))" using pub [of 0] es(3) by simp
  ultimately show ?thesis
    by (intro conjI exI [of _ es] exI [of _ "e_kid (es ! 0)"] exI [of _ "e_pub (es ! 0)"] es(1)) assumption+
qed

section \<open>Trust files\<close>

lemma dec_jwk_sorted: "dec_jwk (json_of_jwk k) = Some k"
  unfolding json_of_jwk_def dec_jwk_def
  by (cases "jwk_Priv k") (simp_all add: fields_of_def field_name_def omit_ptr_def get_str_def get_ptr_def)

lemma dec_set_of: "dec_set (json_of_set (Some ks)) = Some (Some ks)"
  by (simp add: json_of_set_def dec_set_def fields_of_def field_name_def get_arr_def json_of_slice_def
      dec_jwk_sorted comp_def)

lemma add_keys_Inr:
  assumes "distinct (map fst kps)" "\<forall>(kid, p) \<in> set kps. kid \<noteq> [] \<and> suite_Name (pk_suite p) = Alg \<and> out kid = None \<and>
      ParsePublicKey C MLDSA65Ed25519 (pub_Bytes p) = Inr p"
  shows "efold (add_key C) out (map (\<lambda>(kid, p). PublicJWK kid p) kps) = Inr (out ++ map_of kps)"
  using assms
proof (induction kps arbitrary: out)
  case (Cons kp kps)
  obtain kid p where kp: "kp = (kid, p)" by (cases kp)
  have a: "add_key C out (PublicJWK kid p) = Inr (out(kid \<mapsto> p))"
    using Cons.prems(2) kp by (simp add: add_key_def PublicJWK_def b64_decode_encode)
  have "efold (add_key C) (out(kid \<mapsto> p)) (map (\<lambda>(kid, p). PublicJWK kid p) kps) = Inr (out(kid \<mapsto> p) ++ map_of kps)"
    using Cons.prems kp by (intro Cons.IH) force+
  moreover have "kid \<notin> dom (map_of kps)" using Cons.prems(1) kp by (simp add: dom_map_of_conv_image_fst)
  then have "out(kid \<mapsto> p) ++ map_of kps = out ++ map_of (kp # kps)"
    using kp by (auto simp: fun_eq_iff map_add_def split: option.split)
  ultimately show ?case by (simp add: a kp del: map_of.simps)
qed simp

text \<open>
  a trust file written from public keys is read back as exactly those keys.
\<close>

theorem trust_file_roundtrip:
  assumes "kps \<noteq> []" "distinct (map fst kps)" "\<forall>(kid, p) \<in> set kps. kid \<noteq> [] \<and> utf8_valid kid \<and>
      suite_Name (pk_suite p) = Alg \<and> ParsePublicKey C MLDSA65Ed25519 (pub_Bytes p) = Inr p"
  shows "keys_Parse C (marshal (json_of_set (Some (map (\<lambda>(kid, p). PublicJWK kid p) kps)))) = Inr (map_of kps)"
proof -
  let ?j = "json_of_set (Some (map (\<lambda>(kid, p). PublicJWK kid p) kps))"
  have "json_ok ?j"
    using assms(3) by (auto simp: json_of_set_def json_of_slice_def json_of_jwk_def PublicJWK_def KeyType_def
        list_all_iff utf8_valid_ascii omit_ptr_def Alg_def)
  moreover have "efold (add_key C) Map.empty (map (\<lambda>(kid, p). PublicJWK kid p) kps) = Inr (map_of kps)"
    using add_keys_Inr [OF assms(2), of Map.empty C] assms(3) by auto
  ultimately show ?thesis
    using assms(1) by (simp add: keys_Parse_def decode_marshal dec_set_of dec_More_def skip_ws_def Let_def)
qed

text \<open>
  the check for trailing data has a gap: \<open>Decoder.More\<close> answers no before a closing bracket or
  brace, so whatever follows such a character after the key set is not looked at.
\<close>

theorem trust_file_trailing_data:
  assumes "json_ok (json_of_set ks)"
  shows "keys_Parse C (marshal (json_of_set ks) @ ''}'' @ junk) = keys_Parse C (marshal (json_of_set ks))"
proof -
  have "decode_json (marshal (json_of_set ks) @ ''}'' @ junk) = Some (json_of_set ks, ''}'' @ junk)"
    unfolding decode_json_def by (rule parse_marshal [OF assms]) (simp_all add: follows_def)
  then show ?thesis
    by (simp add: keys_Parse_def decode_marshal assms dec_More_def skip_ws_def json_ws_def)
qed

end
