(* ===== verification/GoText.thy ===== *)
theory GoText
  imports GoBytes Lines JsonStruct
begin

text \<open>
  Text functions of the Go library that the sources use on files: \<open>bytes.TrimSpace\<close>, splitting into lines
  as \<open>bytes.Split\<close> does it, and standard base64 with padding (\<open>encoding/base64.StdEncoding\<close>).
\<close>

section \<open>Trimming\<close>

text \<open>A text as its runes, each with the bytes it is decoded from; an invalid byte is a rune of its own.\<close>

function chunks :: "bytes \<Rightarrow> (nat \<times> bytes) list" where
  "chunks s = (if s = [] then [] else
     (case decode_rune s of None \<Rightarrow> (65533, take 1 s) # chunks (drop 1 s)
      | Some (r, n) \<Rightarrow> (r, take n s) # chunks (drop n s)))"
  by auto
termination
  by (relation "measure length") (auto dest: decode_rune_width)

declare chunks.simps [simp del]

definition trim_space :: "bytes \<Rightarrow> bytes" where
  "trim_space s = (let space = (\<lambda>(r, b). is_space r) in
     concat (map snd (rev (dropWhile space (rev (dropWhile space (chunks s)))))))"

text \<open>\<open>bytes.Split(b, "\n")\<close>: one more segment than there are newlines.\<close>

fun split_lines :: "bytes \<Rightarrow> bytes list" where
  "split_lines [] = [[]]"
| "split_lines (c # s) = (if c = newline then [] # split_lines s
     else case split_lines s of [] \<Rightarrow> [[c]] | l # ls \<Rightarrow> (c # l) # ls)"

lemma chunks_Nil [simp]: "chunks [] = []"
  by (simp add: chunks.simps)

lemma chunks_ascii: "byte c < 128 \<Longrightarrow> chunks (c # s) = (byte c, [c]) # chunks s"
  by (subst chunks.simps) simp

lemma chunks_all_ascii: "ascii s \<Longrightarrow> chunks s = map (\<lambda>c. (byte c, [c])) s"
  by (induction s) (simp_all add: chunks_ascii ascii_def)

text \<open>An ASCII text without outer white space is its own trim.\<close>

lemma trim_space_ascii:
  assumes "ascii s"
  shows "trim_space s = rev (dropWhile (\<lambda>c. is_space (byte c)) (rev (dropWhile (\<lambda>c. is_space (byte c)) s)))"
proof -
  let ?f = "\<lambda>c. (byte c, [c])"
  have "concat (map snd (map ?f xs)) = xs" for xs by (induction xs) simp_all
  moreover have "dropWhile (\<lambda>(r, b). is_space r) (map ?f xs) = map ?f (dropWhile (\<lambda>c. is_space (byte c)) xs)" for xs
    by (simp add: dropWhile_map comp_def)
  ultimately show ?thesis
    by (simp only: trim_space_def Let_def chunks_all_ascii [OF assms] rev_map)
qed

lemma split_lines_line: "newline \<notin> set l \<Longrightarrow> split_lines (l @ newline # s) = l # split_lines s"
  by (induction l) auto

lemma split_lines_last: "newline \<notin> set l \<Longrightarrow> split_lines l = [l]"
  by (induction l) auto

section \<open>Standard base64\<close>

definition b64_std :: "bytes \<Rightarrow> bytes" where
  "b64_std v = map (\<lambda>c. if c = CHR ''-'' then CHR ''+'' else if c = CHR ''_'' then CHR ''/'' else c) (b64_encode v)"

definition b64_pad :: "bytes \<Rightarrow> bytes" where
  "b64_pad s = s @ replicate ((4 - length s mod 4) mod 4) (CHR ''='')"

definition std_val :: "char \<Rightarrow> nat option" where
  "std_val c = (if c = CHR ''+'' then Some 62 else if c = CHR ''/'' then Some 63
     else if c = CHR ''-'' \<or> c = CHR ''_'' then None else b64_val c)"

text \<open>The bits that are left over in the last quantum are not looked at.\<close>

fun std_quanta :: "nat list \<Rightarrow> bytes option" where
  "std_quanta [] = Some []"
| "std_quanta [w] = None"
| "std_quanta [w, x] = Some [char_of (w * 4 + x div 16)]"
| "std_quanta [w, x, y] = Some [char_of (w * 4 + x div 16), char_of (x mod 16 * 16 + y div 4)]"
| "std_quanta (w # x # y # z # r) = map_option
     (\<lambda>t. char_of (w * 4 + x div 16) # char_of (x mod 16 * 16 + y div 4) # char_of (y mod 4 * 64 + z) # t)
     (std_quanta r)"

text \<open>Line breaks are skipped; up to two padding characters end the text, which fills whole quanta.\<close>

definition std_decode :: "string \<Rightarrow> bytes option" where
  "std_decode s =
     (let t = filter (\<lambda>c. \<not> crlf c) s;
          body = (if length t \<ge> 2 \<and> drop (length t - 2) t = ''=='' then take (length t - 2) t
            else if t \<noteq> [] \<and> last t = CHR ''='' then butlast t else t) in
      if length t mod 4 \<noteq> 0 then None else do { ws \<leftarrow> those (map std_val body); std_quanta ws })"

lemma quanta_std: "b64_quanta ws = Some bs \<Longrightarrow> std_quanta ws = Some bs"
  by (induction ws arbitrary: bs rule: b64_quanta.induct) (auto split: if_splits)

lemma std_val_map: "n < 64 \<Longrightarrow> std_val (if b64_char n = CHR ''-'' then CHR ''+'' else if b64_char n = CHR ''_'' then CHR ''/'' else b64_char n) = Some n"
proof -
  assume n: "n < 64"
  have b: "b64_char n = c \<longleftrightarrow> byte (b64_char n) = byte c" for c by simp
  have "b64_char n = CHR ''-'' \<Longrightarrow> n = 62" "b64_char n = CHR ''_'' \<Longrightarrow> n = 63"
    "b64_char n \<noteq> CHR ''+''" "b64_char n \<noteq> CHR ''/''"
    using n b64_char_byte [OF n] unfolding b by (auto split: if_splits)
  then show ?thesis using n by (auto simp: std_val_def)
qed

lemma length_b64_mod: "length (b64_encode v) mod 4 \<noteq> 1"
  by (induction v rule: b64_encode.induct) simp_all

text \<open>The characters of standard base64.\<close>

definition std_char :: "nat \<Rightarrow> char" where
  "std_char n = (if b64_char n = CHR ''-'' then CHR ''+'' else if b64_char n = CHR ''_'' then CHR ''/'' else b64_char n)"

lemma std_char_ok: "n < 64 \<Longrightarrow> std_val (std_char n) = Some n" "n < 64 \<Longrightarrow> \<not> crlf (std_char n)" "n < 64 \<Longrightarrow> std_char n \<noteq> CHR ''=''"
    "n < 64 \<Longrightarrow> byte (std_char n) < 128"
proof -
  assume n: "n < 64"
  show v: "std_val (std_char n) = Some n" using std_val_map [OF n] by (simp add: std_char_def)
  have b: "b64_val (b64_char n) = Some n" "\<not> crlf (b64_char n)" using n by simp_all
  have "b64_val (CHR ''='') = None" by code_simp
  then show "std_char n \<noteq> CHR ''=''" using b(1) by (auto simp: std_char_def)
  show "\<not> crlf (std_char n)" using b(2) by (auto simp: std_char_def crlf_def)
  show "byte (std_char n) < 128" using n by (auto simp: std_char_def b64_char_byte)
qed

lemma b64_std_sextets:
  "b64_std v = map (\<lambda>c. std_char (the (b64_val c))) (b64_encode v)" "\<forall>c \<in> set (b64_encode v). the (b64_val c) < 64"
proof -
  have c: "\<exists>n < 64. c = b64_char n" if "c \<in> set (b64_encode v)" for c
    using that b64_quanta_encode [of v] b64_val_SomeD [of c] by (fastforce simp: list_all_iff)
  then show "\<forall>c \<in> set (b64_encode v). the (b64_val c) < 64" by fastforce
  have "std_char (the (b64_val c)) = (if c = CHR ''-'' then CHR ''+'' else if c = CHR ''_'' then CHR ''/'' else c)"
    if cv: "c \<in> set (b64_encode v)" for c
  proof -
    obtain n where n: "n < 64" "c = b64_char n" using c [OF cv] by blast
    then have "the (b64_val c) = n" by simp
    then show ?thesis by (simp only: std_char_def n(2) [symmetric])
  qed
  then show "b64_std v = map (\<lambda>c. std_char (the (b64_val c))) (b64_encode v)" by (simp add: b64_std_def)
qed

lemma pad_length:
  assumes "(n :: nat) mod 4 \<noteq> 1"
  shows "(4 - n mod 4) mod 4 = 0 \<or> (4 - n mod 4) mod 4 = 1 \<or> (4 - n mod 4) mod 4 = 2" "(n + (4 - n mod 4) mod 4) mod 4 = 0"
proof -
  have "n mod 4 = 0 \<or> n mod 4 = 2 \<or> n mod 4 = 3" using assms mod_less_divisor [of 4 n] by linarith
  then show "(4 - n mod 4) mod 4 = 0 \<or> (4 - n mod 4) mod 4 = 1 \<or> (4 - n mod 4) mod 4 = 2" "(n + (4 - n mod 4) mod 4) mod 4 = 0"
    by (auto simp: mod_add_left_eq [of n 4, symmetric] simp del: mod_add_left_eq)
qed

lemma std_decode_pad: "std_decode (b64_pad (b64_std v)) = Some v"
proof -
  define ws where "ws = map (\<lambda>c. the (b64_val c)) (b64_encode v)"
  let ?s = "b64_std v"
  have w: "\<forall>n \<in> set ws. n < 64" "?s = map std_char ws" using b64_std_sextets [of v] by (simp_all add: ws_def)
  have ch: "\<forall>c \<in> set ?s. \<not> crlf c \<and> c \<noteq> CHR ''=''" using w by (auto simp: std_char_ok)
  have "those (map std_val ?s) = Some ws"
    unfolding w(2) using w(1) those_map_eq_Some [of ws "std_val \<circ> std_char" "\<lambda>n. n"] by (simp add: std_char_ok)
  then have dec: "do { ws \<leftarrow> those (map std_val ?s); std_quanta ws } = Some v"
    using quanta_std [of ws v] b64_quanta_encode [of v] by (simp add: ws_def)
  define p where "p = (4 - length ?s mod 4) mod 4"
  have len: "length ?s mod 4 \<noteq> 1" using length_b64_mod [of v] by (simp add: b64_std_def)
  then have p: "p = 0 \<or> p = 1 \<or> p = 2" "(length ?s + p) mod 4 = 0" using pad_length [OF len] by (simp_all add: p_def)
  have t: "filter (\<lambda>c. \<not> crlf c) (b64_pad ?s) = ?s @ replicate p (CHR ''='')"
    using ch by (simp add: b64_pad_def p_def filter_id_conv crlf_def)
  have last: "?s = [] \<or> last ?s \<noteq> CHR ''=''" using ch last_in_set by blast
  have none: "\<not> (length ?s \<ge> 2 \<and> drop (length ?s - 2) ?s = ''=='')"
  proof
    assume "length ?s \<ge> 2 \<and> drop (length ?s - 2) ?s = ''==''"
    then have "CHR ''='' \<in> set ?s" by (metis in_set_dropD list.set_intros(1))
    with ch show False by blast
  qed
  have one: "drop (length ?s + 1 - 2) (?s @ ''='') \<noteq> ''==''" if "?s \<noteq> []"
  proof
    assume "drop (length ?s + 1 - 2) (?s @ ''='') = ''==''"
    moreover have "drop (length ?s + 1 - 2) (?s @ ''='') = drop (length ?s - 1) ?s @ ''=''" by simp
    ultimately have "CHR ''='' \<in> set ?s" by (metis append1_eq_conv append_Cons append_Nil in_set_dropD list.set_intros(1))
    with ch show False by blast
  qed
  have ne: "p = 1 \<Longrightarrow> ?s \<noteq> []" using p(2) by auto
  show ?thesis using p(1)
  proof (elim disjE)
    assume "p = 0"
    then show ?thesis using t p(2) last none dec by (auto simp: std_decode_def Let_def simp del: drop_eq_Nil)
  next
    assume p1: "p = 1"
    then show ?thesis using t p(2) one [OF ne [OF p1]] dec by (simp add: std_decode_def Let_def)
  next
    assume "p = 2"
    then show ?thesis using t p(2) dec by (simp add: std_decode_def Let_def numeral_2_eq_2)
  qed
qed

section \<open>Numbers and times are ASCII\<close>

lemma ascii_append_int [simp]: "ascii (append_int x w)"
proof -
  have "ascii (dec_digits n)" for n
    using dec_digits_props [of n] by (auto simp: ascii_def list_all_iff is_digit_def less_eq_char_def)
  moreover have "ascii (replicate n (CHR ''0''))" for n by (induction n) simp_all
  ultimately show ?thesis by (simp add: append_int_def Let_def)
qed

lemma utf8_valid_format_ts [simp]: "utf8_valid (format_ts t)"
  by (intro utf8_valid_ascii) (simp add: format_ts_def fmt_civil_def)

end
