(* ===== verification/Broker.thy ===== *)
theory Broker
  imports Receipt GoText "HOL-Library.Sublist"
begin

text \<open>
  Credentials (\<open>internal/broker/broker.go\<close>): the bindings a configuration may have, resolving them when a
  call needs them, and scrubbing them from what a tool returns.  The environment and the secrets
  directory are the fields of a \<open>sources\<close> record.
\<close>

section \<open>Secrets, bindings and sources\<close>

definition Redacted :: string where "Redacted = ''[REDACTED]''"
definition EnvPrefix :: string where "EnvPrefix = ''WARDEN_SECRET_''"
definition maxSecretSize :: nat where "maxSecretSize = 65536"

record secret =
  sec_v :: bytes

definition secret_Reveal :: "secret \<Rightarrow> string" where "secret_Reveal s = sec_v s"
definition secret_String :: "secret \<Rightarrow> string" where "secret_String s = Redacted"
definition secret_GoString :: "secret \<Rightarrow> string" where "secret_GoString s = Redacted"
definition secret_Format :: "secret \<Rightarrow> string" where "secret_Format s = Redacted"
definition secret_MarshalJSON :: "secret \<Rightarrow> bytes" where "secret_MarshalJSON s = marshal (JStr Redacted)"
definition secret_MarshalText :: "secret \<Rightarrow> bytes" where "secret_MarshalText s = Redacted"

definition InjectHeader :: string where "InjectHeader = ''header''"
definition InjectEnv :: string where "InjectEnv = ''env''"

record credential =
  cr_Inject :: string
  cr_Name :: string
  cr_Value :: secret

record binding =
  bd_Server :: string
  bd_Tool :: string
  bd_Inject :: string
  bd_Name :: string
  bd_Prefix :: string
  bd_Secret :: string

record broker_config =
  bc_V :: int
  bc_Bindings :: "binding list option"

text \<open>A file of the secrets directory, as \<open>os.Lstat\<close> and \<open>os.ReadFile\<close> report it.\<close>

record file_info =
  fi_regular :: bool
  fi_perm :: "32 word"
  fi_size :: int
  fi_content :: "bytes option"

record sources =
  src_LookupEnv :: "string \<rightharpoonup> bytes"
  src_Dir :: string
  src_File :: "string \<rightharpoonup> file_info"

datatype broker_error =
  ConfigSyntax
| ConfigTrailing
| ConfigVersion
| BadBinding string
| Overlap
| ErrSecret string

definition dec_binding :: "json \<Rightarrow> binding option" where
  "dec_binding j = do {
     f \<leftarrow> fields_of [''server'', ''tool'', ''inject'', ''name'', ''prefix'', ''secret''] j;
     s \<leftarrow> get_str f ''server''; t \<leftarrow> get_str f ''tool''; i \<leftarrow> get_str f ''inject''; n \<leftarrow> get_str f ''name'';
     p \<leftarrow> get_str f ''prefix''; x \<leftarrow> get_str f ''secret'';
     Some \<lparr>bd_Server = s, bd_Tool = t, bd_Inject = i, bd_Name = n, bd_Prefix = p, bd_Secret = x\<rparr> }"

definition dec_broker_config :: "json \<Rightarrow> broker_config option" where
  "dec_broker_config j = do {
     f \<leftarrow> fields_of [''v'', ''bindings''] j;
     v \<leftarrow> get_int f ''v''; bs \<leftarrow> get_arr dec_binding f ''bindings'';
     Some \<lparr>bc_V = v, bc_Bindings = bs\<rparr> }"

section \<open>Checking a binding\<close>

definition upper :: "char \<Rightarrow> bool" where "upper c \<longleftrightarrow> 65 \<le> byte c \<and> byte c \<le> 90"
definition lower :: "char \<Rightarrow> bool" where "lower c \<longleftrightarrow> 97 \<le> byte c \<and> byte c \<le> 122"
definition decimal :: "char \<Rightarrow> bool" where "decimal c \<longleftrightarrow> 48 \<le> byte c \<and> byte c \<le> 57"

definition matches_chars :: "(char \<Rightarrow> bool) \<Rightarrow> nat \<Rightarrow> string \<Rightarrow> bool" where
  "matches_chars P m s \<longleftrightarrow> 1 \<le> length s \<and> length s \<le> m \<and> list_all P s"

definition namePattern :: "string \<Rightarrow> bool" where
  "namePattern = matches_chars (\<lambda>c. upper c \<or> lower c \<or> decimal c \<or> c \<in> set ''._-'') 128"

definition headerPattern :: "string \<Rightarrow> bool" where
  "headerPattern = matches_chars (\<lambda>c. upper c \<or> lower c \<or> decimal c \<or> c \<in> set ''!#$%&*+.^_|~-'' \<or> byte c = 39 \<or> byte c = 96) 128"

definition envNamePattern :: "string \<Rightarrow> bool" where
  "envNamePattern s \<longleftrightarrow> matches_chars (\<lambda>c. upper c \<or> decimal c \<or> c = CHR ''_'') 128 s \<and> upper (hd s)"

definition fileRefPattern :: "string \<Rightarrow> bool" where
  "fileRefPattern = namePattern"

definition canonicalName :: "string \<Rightarrow> string \<Rightarrow> string" where
  "canonicalName inject name = (if inject = InjectHeader then map fold_char name else name)"

definition cut_at :: "char \<Rightarrow> string \<Rightarrow> string \<times> string \<times> bool" where
  "cut_at x s = (if x \<in> set s then (takeWhile (\<lambda>c. c \<noteq> x) s, tl (dropWhile (\<lambda>c. c \<noteq> x) s), True) else (s, [], False))"

definition breaks_line :: "char \<Rightarrow> bool" where
  "breaks_line c \<longleftrightarrow> byte c = 13 \<or> byte c = 10 \<or> byte c = 0"

definition has_prefix :: "string \<Rightarrow> string \<Rightarrow> bool" where
  "has_prefix p s \<longleftrightarrow> cut_prefix p s \<noteq> None"

definition checkBinding :: "binding \<Rightarrow> sources \<Rightarrow> broker_error + unit" where
  "checkBinding bd src =
     (if \<not> namePattern (bd_Server bd) then Inl (BadBinding ''server'')
      else if bd_Tool bd \<noteq> ''*'' \<and> \<not> namePattern (bd_Tool bd) then Inl (BadBinding ''tool'')
      else if bd_Inject bd = InjectHeader \<and> \<not> headerPattern (bd_Name bd) then Inl (BadBinding ''header'')
      else if bd_Inject bd = InjectEnv \<and> \<not> envNamePattern (bd_Name bd) then Inl (BadBinding ''env'')
      else if bd_Inject bd \<noteq> InjectHeader \<and> bd_Inject bd \<noteq> InjectEnv then Inl (BadBinding ''inject'')
      else if list_ex breaks_line (bd_Prefix bd) then Inl (BadBinding ''prefix'')
      else let (kind, ref, ok) = cut_at (CHR '':'') (bd_Secret bd) in
      if \<not> ok then Inl (BadBinding ''secret'')
      else if kind = ''env'' then
        (if \<not> envNamePattern ref \<or> \<not> has_prefix EnvPrefix ref \<or> ref = EnvPrefix then Inl (BadBinding ''secret env'') else Inr ())
      else if kind = ''file'' then
        (if src_Dir src = [] then Inl (BadBinding ''secrets directory'')
         else if \<not> fileRefPattern ref \<or> ref = ''.'' \<or> ref = ''..'' \<or> has_prefix ''.'' ref then Inl (BadBinding ''secret file'')
         else Inr ())
      else Inl (BadBinding ''secret source''))"

section \<open>Loading\<close>

type_synonym slot = "string \<times> string \<times> string"

record broker =
  br_bindings :: "string \<times> string \<Rightarrow> binding list"
  br_sources :: sources

record load_state =
  ls_seen :: "slot \<Rightarrow> string list"
  ls_bindings :: "string \<times> string \<Rightarrow> binding list"

definition slot_of :: "binding \<Rightarrow> slot" where
  "slot_of bd = (bd_Server bd, bd_Inject bd, canonicalName (bd_Inject bd) (bd_Name bd))"

definition load_binding :: "sources \<Rightarrow> load_state \<Rightarrow> binding \<Rightarrow> broker_error + load_state" where
  "load_binding src st bd =
     ebind (checkBinding bd src) (\<lambda>_.
     let s = slot_of bd; k = (bd_Server bd, bd_Tool bd) in
     if list_ex (\<lambda>t. t = bd_Tool bd \<or> t = ''*'' \<or> bd_Tool bd = ''*'') (ls_seen st s) then Inl Overlap
     else Inr \<lparr>ls_seen = (ls_seen st)(s := ls_seen st s @ [bd_Tool bd]),
               ls_bindings = (ls_bindings st)(k := ls_bindings st k @ [bd])\<rparr>)"

definition broker_Load :: "bytes \<Rightarrow> sources \<Rightarrow> broker_error + broker" where
  "broker_Load data src =
     (case decode_json data of None \<Rightarrow> Inl ConfigSyntax | Some (j, rest) \<Rightarrow>
      case dec_broker_config j of None \<Rightarrow> Inl ConfigSyntax | Some cfg \<Rightarrow>
      if dec_More rest then Inl ConfigTrailing
      else if bc_V cfg \<noteq> 1 then Inl ConfigVersion
      else ebind (efold (load_binding src) \<lparr>ls_seen = (\<lambda>_. []), ls_bindings = (\<lambda>_. [])\<rparr>
          (case bc_Bindings cfg of None \<Rightarrow> [] | Some bs \<Rightarrow> bs)) (\<lambda>st.
        Inr \<lparr>br_bindings = ls_bindings st, br_sources = src\<rparr>))"

section \<open>Resolving\<close>

definition trim_right :: "bytes \<Rightarrow> bytes" where
  "trim_right v = rev (dropWhile (\<lambda>c. byte c = 13 \<or> byte c = 10) (rev v))"

definition resolve :: "sources \<Rightarrow> string \<Rightarrow> broker_error + bytes" where
  "resolve src ref =
     (let (kind, name, ok) = cut_at (CHR '':'') ref in
      ebind (if kind = ''env'' then of_option (ErrSecret ''env'') (src_LookupEnv src name)
        else if kind = ''file'' then
          (case src_File src name of None \<Rightarrow> Inl (ErrSecret ''file'') | Some fi \<Rightarrow>
           if \<not> fi_regular fi then Inl (ErrSecret ''not regular'')
           else if and (fi_perm fi) 63 \<noteq> 0 then Inl (ErrSecret ''mode'')
           else if fi_size fi > int maxSecretSize then Inl (ErrSecret ''size'')
           else ebind (of_option (ErrSecret ''read'') (fi_content fi)) (\<lambda>v. Inr (trim_right v)))
        else Inl (ErrSecret ''source'')) (\<lambda>v.
      if v = [] then Inl (ErrSecret ''empty'')
      else if length v > maxSecretSize then Inl (ErrSecret ''size'')
      else if list_ex breaks_line v then Inl (ErrSecret ''line break'')
      else Inr v))"

definition add_credential :: "sources \<Rightarrow> credential list \<Rightarrow> binding \<Rightarrow> broker_error + credential list" where
  "add_credential src out bd = ebind (resolve src (bd_Secret bd)) (\<lambda>v.
     Inr (out @ [\<lparr>cr_Inject = bd_Inject bd, cr_Name = bd_Name bd, cr_Value = \<lparr>sec_v = bd_Prefix bd @ v\<rparr>\<rparr>]))"

definition broker_For :: "broker \<Rightarrow> string \<Rightarrow> string \<Rightarrow> broker_error + credential list" where
  "broker_For b server toolName =
     (if toolName = ''*'' then Inl (ErrSecret ''reserved'')
      else efold (add_credential (br_sources b)) [] (br_bindings b (server, ''*'') @ br_bindings b (server, toolName)))"

definition ServerCredentials :: "broker \<Rightarrow> string \<Rightarrow> broker_error + credential list" where
  "ServerCredentials b server = efold (add_credential (br_sources b)) [] (br_bindings b (server, ''*''))"

text \<open>\<open>Describe\<close> visits the map in an order Go leaves open: the keys in that order are an argument.\<close>

definition broker_Describe :: "broker \<Rightarrow> (string \<times> string) list \<Rightarrow> string \<Rightarrow> binding list" where
  "broker_Describe b keys server = concat (map (br_bindings b) (filter (\<lambda>k. fst k = server) keys))"

section \<open>Scrubbing\<close>

definition minScrubLen :: nat where "minScrubLen = 8"

definition scrub_mark :: bytes where "scrub_mark = ''[REDACTED:credential]''"

fun contains :: "bytes \<Rightarrow> bytes \<Rightarrow> bool" where
  "contains x [] \<longleftrightarrow> x = []"
| "contains x (c # s) \<longleftrightarrow> cut_prefix x (c # s) \<noteq> None \<or> contains x s"

text \<open>\<open>bytes.ReplaceAll\<close> of a non-empty string.\<close>

function replace_all :: "bytes \<Rightarrow> bytes \<Rightarrow> bytes \<Rightarrow> bytes" where
  "replace_all old new s = (if old = [] then s
     else case cut_prefix old s of
       Some rest \<Rightarrow> new @ replace_all old new rest
     | None \<Rightarrow> (case s of [] \<Rightarrow> [] | c # t \<Rightarrow> c # replace_all old new t))"
  by pat_completeness auto
termination
  by (relation "measure (\<lambda>(old, new, s). length s)") (auto simp: cut_prefix_Some)

declare replace_all.simps [simp del]

definition scrub_forms :: "bytes \<Rightarrow> bytes list" where
  "scrub_forms v = [v, b64_pad (b64_std v), b64_std v, b64_pad (b64_encode v), b64_encode v]"

definition scrub_form :: "bytes \<times> bool \<Rightarrow> bytes \<Rightarrow> bytes \<times> bool" where
  "scrub_form st f = (let (out, found) = st in
     if contains f out then (replace_all f scrub_mark out, True) else (out, found))"

definition scrub_cred :: "bytes \<times> bool \<Rightarrow> credential \<Rightarrow> bytes \<times> bool" where
  "scrub_cred st c = (let v = sec_v (cr_Value c) in
     if length v < minScrubLen then st else foldl scrub_form st (scrub_forms v))"

definition Scrub :: "bytes \<Rightarrow> credential list \<Rightarrow> bytes \<times> bool" where
  "Scrub data creds = foldl scrub_cred (data, False) creds"


section \<open>What scrubbing removes\<close>

lemma contains_sublist: "contains x s \<longleftrightarrow> sublist x s"
  by (induction s) (auto simp: sublist_Cons_right cut_prefix_Some prefix_def split: if_splits)

definition bracket_free :: "bytes \<Rightarrow> bool" where
  "bracket_free f \<longleftrightarrow> CHR ''['' \<notin> set f \<and> CHR '']'' \<notin> set f"

definition scrubbable :: "bytes \<Rightarrow> bool" where
  "scrubbable f \<longleftrightarrow> f \<noteq> [] \<and> bracket_free f \<and> \<not> sublist f ''REDACTED:credential''"

lemma sublist_past:
  assumes "sublist f (a @ x # b)" "x \<notin> set f" shows "sublist f a \<or> sublist f b"
proof -
  obtain p q where "p @ (f @ q) = a @ (x # b)" using assms(1) by (auto simp: sublist_def)
  then consider us where "p = a @ us" "us @ f @ q = x # b" | us where "a = p @ us" "f @ q = us @ x # b"
    by (auto simp: append_eq_append_conv2)
  then show ?thesis
  proof cases
    case 1
    then show ?thesis using assms(2) sublist_appendI [of f _ q] by (cases us; cases f) (simp_all, metis append_Cons)
  next
    case 2
    from 2(2) consider vs where "f = us @ vs" "vs @ q = x # b" | vs where "us = f @ vs"
      by (auto simp: append_eq_append_conv2)
    then show ?thesis
    proof cases
      case a: 1
      then show ?thesis using assms(2) 2 by (cases vs) auto
    next
      case 2
      then show ?thesis using \<open>a = p @ us\<close> by auto
    qed
  qed
qed

lemma bracketed_past:
  assumes "bracket_free f" "\<not> sublist f m" "f \<noteq> []" "sublist f (CHR ''['' # m @ CHR '']'' # r)" shows "sublist f r"
proof -
  have "sublist f (m @ CHR '']'' # r)"
    using sublist_past [of f "[]" "CHR ''[''" "m @ CHR '']'' # r"] assms by (simp add: bracket_free_def)
  then show ?thesis using sublist_past [of f m "CHR '']''" r] assms by (simp add: bracket_free_def)
qed

lemma scrub_mark_past:
  assumes "scrubbable f" "sublist f (scrub_mark @ r)" shows "sublist f r"
proof -
  have "scrub_mark @ r = CHR ''['' # ''REDACTED:credential'' @ CHR '']'' # r" by (simp add: scrub_mark_def)
  then have "sublist f (CHR ''['' # ''REDACTED:credential'' @ CHR '']'' # r)" using assms(2) by argo
  then show ?thesis using assms(1) unfolding scrubbable_def by (elim conjE bracketed_past [rotated -1]) 
qed

lemma replace_all_Some: "old \<noteq> [] \<Longrightarrow> cut_prefix old s = Some r \<Longrightarrow> replace_all old new s = new @ replace_all old new r"
  by (subst replace_all.simps) simp

lemma replace_all_None: "cut_prefix old (c # s) = None \<Longrightarrow> old \<noteq> [] \<Longrightarrow> replace_all old new (c # s) = c # replace_all old new s"
  by (subst replace_all.simps) simp

lemma replace_all_Nil [simp]: "replace_all old new [] = []"
  by (subst replace_all.simps) (auto simp: cut_prefix_Some split: option.splits)

lemma replace_all_cases:
  assumes "old \<noteq> []" "\<And>r. s = old @ r \<Longrightarrow> P" "s = [] \<Longrightarrow> P" "\<And>c t. s = c # t \<Longrightarrow> cut_prefix old (c # t) = None \<Longrightarrow> P"
  shows P
  using assms by (cases "cut_prefix old s"; cases s) (auto simp: cut_prefix_Some)

lemma replace_all_prefix:
  assumes "old \<noteq> []" "bracket_free f" "prefix f (replace_all old scrub_mark s)" shows "prefix f s"
  using assms(2,3)
proof (induction s arbitrary: f rule: length_induct)
  case (1 s)
  show ?case
  proof (rule replace_all_cases [OF assms(1), of s])
    fix r assume s: "s = old @ r"
    then have "prefix f (scrub_mark @ replace_all old scrub_mark r)"
      using 1(3) assms(1) by (simp add: replace_all_Some)
    then show ?thesis using 1(2) by (cases f) (auto simp: scrub_mark_def bracket_free_def)
  next
    assume "s = []" then show ?thesis using 1(3) by simp
  next
    fix c t assume s: "s = c # t" "cut_prefix old (c # t) = None"
    then have "prefix f (c # replace_all old scrub_mark t)" using 1(3) assms(1) by (simp add: replace_all_None)
    then show ?thesis using 1(1,2) s by (cases f) (auto simp: bracket_free_def)
  qed
qed

lemma replace_all_keeps_out:
  assumes "old \<noteq> []" "scrubbable f" "f = old \<or> \<not> sublist f s"
  shows "\<not> sublist f (replace_all old scrub_mark s)"
  using assms(3)
proof (induction s rule: length_induct)
  case (1 s)
  have f: "f \<noteq> []" "bracket_free f" using assms(2) by (auto simp: scrubbable_def)
  show ?case
  proof (rule replace_all_cases [OF assms(1), of s])
    fix r assume s: "s = old @ r"
    then have r: "f = old \<or> \<not> sublist f r" using 1(2) by (auto simp: sublist_appendI sublist_append)
    have "length r < length s" using s assms(1) by simp
    then have "\<not> sublist f (replace_all old scrub_mark r)" using 1(1) r by blast
    then have "\<not> sublist f (scrub_mark @ replace_all old scrub_mark r)" using scrub_mark_past [OF assms(2)] by blast
    then show ?thesis using s assms(1) by (simp add: replace_all_Some)
  next
    assume "s = []" then show ?thesis using f by simp
  next
    fix c t assume s: "s = c # t" "cut_prefix old (c # t) = None"
    then have t: "\<not> sublist f (replace_all old scrub_mark t)" using 1 by (auto simp: sublist_Cons_right)
    have "\<not> prefix f (c # replace_all old scrub_mark t)"
    proof
      assume "prefix f (c # replace_all old scrub_mark t)"
      then have "prefix f s" using replace_all_prefix [OF assms(1) f(2), of s] s assms(1) by (simp add: replace_all_None)
      then show False using 1(2) s by (auto simp: prefix_def cut_prefix_Some [symmetric] prefix_imp_sublist)
    qed
    then show ?thesis using s t assms(1) by (simp add: replace_all_None sublist_Cons_right)
  qed
qed

lemma scrub_form_keeps_out:
  assumes "scrubbable g" "g = f \<or> \<not> sublist g (fst st)" "f \<noteq> []"
  shows "\<not> sublist g (fst (scrub_form st f))"
  using assms replace_all_keeps_out [OF assms(3,1), of "fst st"]
  by (auto simp: scrub_form_def contains_sublist Let_def split: prod.splits)

lemma scrub_forms_keep_out:
  assumes "scrubbable g" "g \<in> set fs \<or> \<not> sublist g (fst st)" "\<forall>f \<in> set fs. f \<noteq> []"
  shows "\<not> sublist g (fst (foldl scrub_form st fs))"
  using assms(2,3)
proof (induction fs arbitrary: st)
  case (Cons f fs)
  then show ?case using scrub_form_keeps_out [OF assms(1), of f st] by (cases "g \<in> set fs") auto
qed simp

lemma scrub_forms_nonempty: "minScrubLen \<le> length v \<Longrightarrow> f \<in> set (scrub_forms v) \<Longrightarrow> f \<noteq> []"
  by (cases v rule: b64_encode.cases) (auto simp: scrub_forms_def b64_std_def b64_pad_def minScrubLen_def)

lemma Scrub_creds:
  assumes "scrubbable g"
    "(\<exists>c \<in> set creds. minScrubLen \<le> length (sec_v (cr_Value c)) \<and> g \<in> set (scrub_forms (sec_v (cr_Value c)))) \<or> \<not> sublist g (fst st)"
  shows "\<not> sublist g (fst (foldl scrub_cred st creds))"
  using assms(2)
proof (induction creds arbitrary: st)
  case (Cons c creds)
  let ?v = "sec_v (cr_Value c)"
  have one: "\<not> sublist g (fst (scrub_cred st c))"
    if "minScrubLen \<le> length ?v \<and> g \<in> set (scrub_forms ?v) \<or> \<not> sublist g (fst st)"
    using that scrub_forms_keep_out [OF assms(1), of "scrub_forms ?v" st] scrub_forms_nonempty [of ?v]
    by (auto simp: scrub_cred_def Let_def)
  show ?case unfolding foldl.simps by (rule Cons.IH) (use Cons.prems one in auto)
qed simp

lemma length_b64: "4 * length v \<le> 3 * length (b64_encode v)"
  by (induction v rule: b64_encode.induct) auto

lemma b64_chars: "c \<in> set (b64_encode v) \<Longrightarrow> \<exists>n < 64. c = b64_char n"
  by (induction v rule: b64_encode.induct) (auto intro: b64_sextets)

definition b64_form_char :: "char \<Rightarrow> bool" where
  "b64_form_char c \<longleftrightarrow> byte c \<noteq> 58 \<and> byte c \<noteq> 91 \<and> byte c \<noteq> 93"

lemma b64_char_form: "n < 64 \<Longrightarrow> b64_form_char (b64_char n)"
  using b64_char_byte [of n] by (auto simp: b64_form_char_def split: if_splits)

lemma b64_form_encode: "list_all b64_form_char (b64_encode v)"
  using b64_chars [of _ v] b64_char_form by (auto simp: list_all_iff)

lemma b64_form_std: "list_all b64_form_char (b64_std v)"
  unfolding b64_std_def list_all_iff set_map
  by (intro ballI, elim imageE) (use b64_form_encode [of v] in \<open>simp add: b64_form_char_def list_all_iff\<close>)

lemma b64_form_pad: "list_all b64_form_char s \<Longrightarrow> list_all b64_form_char (b64_pad s)"
  by (simp add: b64_pad_def list_all_iff b64_form_char_def set_replicate_conv_if Ball_def)

lemma scrubbable_form:
  assumes "list_all b64_form_char f" "11 \<le> length f" shows "scrubbable f"
proof -
  have "\<forall>c \<in> set f. b64_form_char c" using assms(1) by (simp add: list_all_iff)
  then have n: "CHR '':'' \<notin> set f" "CHR ''['' \<notin> set f" "CHR '']'' \<notin> set f"
    by (auto simp: b64_form_char_def dest!: bspec)
  have "\<not> sublist f ''REDACTED''" "\<not> sublist f ''credential''"
    using assms(2) by (auto dest: sublist_length_le)
  then have "\<not> sublist f (''REDACTED'' @ CHR '':'' # ''credential'')" using sublist_past [OF _ n(1)] by blast
  then show ?thesis using assms(2) n by (simp add: scrubbable_def bracket_free_def) auto
qed

lemma scrub_forms_scrubbable:
  assumes "minScrubLen \<le> length v" "f \<in> set (tl (scrub_forms v))" shows "scrubbable f"
proof (rule scrubbable_form)
  show "list_all b64_form_char f"
    using assms(2) by (auto simp: scrub_forms_def intro!: b64_form_encode b64_form_std b64_form_pad)
  have "11 \<le> length (b64_encode v)" using length_b64 [of v] assms(1) by (simp add: minScrubLen_def)
  then show "11 \<le> length f" using assms(2) by (auto simp: scrub_forms_def b64_pad_def b64_std_def)
qed

text \<open>
  After scrubbing, no base64 form (standard or URL-safe, padded or not) of any injected credential of at
  least eight bytes is left in the output, whatever the tool returned; and neither is the raw value,
  unless it contains a bracket or is itself part of the mark that replaces it.
\<close>
theorem Scrub_removes:
  assumes "c \<in> set creds" "minScrubLen \<le> length (sec_v (cr_Value c))"
    "f \<in> set (scrub_forms (sec_v (cr_Value c)))" "f = sec_v (cr_Value c) \<longrightarrow> scrubbable f"
  shows "\<not> sublist f (fst (Scrub data creds))"
proof -
  have "scrubbable f"
    using assms scrub_forms_scrubbable [of "sec_v (cr_Value c)" f] by (cases "f = sec_v (cr_Value c)") (auto simp: scrub_forms_def)
  then show ?thesis unfolding Scrub_def using assms by (intro Scrub_creds) auto
qed

lemma scrub_form_found: "snd (scrub_form st f) \<longleftrightarrow> snd st \<or> sublist f (fst st)"
  and scrub_form_same: "\<not> snd (scrub_form st f) \<Longrightarrow> scrub_form st f = st"
  by (auto simp: scrub_form_def contains_sublist split: prod.splits)

lemma scrub_steps_found:
  assumes "\<And>st x. snd (step st x) \<longleftrightarrow> snd st \<or> P x (fst st)" "\<And>st x. \<not> snd (step st x) \<Longrightarrow> step st x = st"
  shows "(snd (foldl step st xs) \<longleftrightarrow> snd st \<or> (\<exists>x \<in> set xs. P x (fst st))) \<and> (\<not> snd (foldl step st xs) \<longrightarrow> foldl step st xs = st)"
proof (induction xs arbitrary: st)
  case (Cons x xs)
  show ?case
  proof (cases "snd (step st x)")
    case True
    then show ?thesis using Cons [of "step st x"] assms(1) [of st x] by auto
  next
    case False
    then show ?thesis using Cons [of st] assms(1) [of st x] assms(2) [OF False] by auto
  qed
qed simp

definition leaks :: "credential \<Rightarrow> bytes \<Rightarrow> bool" where
  "leaks c data \<longleftrightarrow> minScrubLen \<le> length (sec_v (cr_Value c)) \<and> (\<exists>f \<in> set (scrub_forms (sec_v (cr_Value c))). sublist f data)"

lemma scrub_cred_found:
  "snd (scrub_cred st c) \<longleftrightarrow> snd st \<or> leaks c (fst st)" "\<not> snd (scrub_cred st c) \<Longrightarrow> scrub_cred st c = st"
  using scrub_steps_found [of scrub_form sublist st "scrub_forms (sec_v (cr_Value c))", OF scrub_form_found scrub_form_same]
  by (auto simp: scrub_cred_def leaks_def Let_def)

text \<open>
  \<open>Scrub\<close> reports a find exactly when some form of some credential occurs in what the tool returned, and
  returns clean data unchanged.
\<close>
theorem Scrub_reports:
  "(snd (Scrub data creds) \<longleftrightarrow> (\<exists>c \<in> set creds. leaks c data)) \<and> (snd (Scrub data creds) \<or> fst (Scrub data creds) = data)"
  using scrub_steps_found [of scrub_cred leaks "(data, False)" creds, OF scrub_cred_found]
  by (auto simp: Scrub_def)

section \<open>What resolving promises\<close>

definition secret_ok :: "bytes \<Rightarrow> bool" where
  "secret_ok v \<longleftrightarrow> v \<noteq> [] \<and> length v \<le> maxSecretSize \<and> \<not> list_ex breaks_line v"

lemma resolve_ok: "resolve src ref = Inr v \<Longrightarrow> secret_ok v"
  by (auto simp: resolve_def secret_ok_def Let_def not_le split: prod.splits)

lemma add_credentials:
  "efold (add_credential src) out bds = Inr creds \<longleftrightarrow>
     (\<exists>vs. list_all2 (\<lambda>bd v. resolve src (bd_Secret bd) = Inr v) bds vs \<and>
       creds = out @ map2 (\<lambda>bd v. \<lparr>cr_Inject = bd_Inject bd, cr_Name = bd_Name bd, cr_Value = \<lparr>sec_v = bd_Prefix bd @ v\<rparr>\<rparr>) bds vs)"
  by (induction bds arbitrary: out)
    (auto simp: add_credential_def list_all2_Cons1, fastforce+)

text \<open>
  A call gets every credential bound to its server and its tool, in that order, each resolved to a
  non-empty, bounded, single-line value behind its prefix; otherwise it gets none at all.
\<close>
theorem broker_For_all_or_nothing:
  "broker_For b server t = Inr creds \<longleftrightarrow> t \<noteq> ''*'' \<and>
     (\<exists>vs. list_all2 (\<lambda>bd v. resolve (br_sources b) (bd_Secret bd) = Inr v \<and> secret_ok v)
         (br_bindings b (server, ''*'') @ br_bindings b (server, t)) vs \<and>
       creds = map2 (\<lambda>bd v. \<lparr>cr_Inject = bd_Inject bd, cr_Name = bd_Name bd, cr_Value = \<lparr>sec_v = bd_Prefix bd @ v\<rparr>\<rparr>)
         (br_bindings b (server, ''*'') @ br_bindings b (server, t)) vs)"
proof -
  have "list_all2 (\<lambda>bd v. resolve (br_sources b) (bd_Secret bd) = Inr v \<and> secret_ok v) bds vs
    \<longleftrightarrow> list_all2 (\<lambda>bd v. resolve (br_sources b) (bd_Secret bd) = Inr v) bds vs" for bds :: "binding list" and vs
    using resolve_ok by (intro list.rel_cong) auto
  then show ?thesis by (simp add: broker_For_def add_credentials)
qed


text \<open>Loading: no two bindings that can apply to the same call fill the same header or variable.\<close>

definition load_inv :: "sources \<Rightarrow> load_state \<Rightarrow> bool" where
  "load_inv src st \<longleftrightarrow>
     (\<forall>srv t. \<forall>bd \<in> set (ls_bindings st (srv, t)). bd_Server bd = srv \<and> bd_Tool bd = t \<and> checkBinding bd src = Inr () \<and>
        t \<in> set (ls_seen st (slot_of bd))) \<and>
     (\<forall>srv t. distinct (map slot_of (ls_bindings st (srv, t)))) \<and>
     (\<forall>s. ''*'' \<in> set (ls_seen st s) \<longrightarrow> set (ls_seen st s) = {''*''})"

lemma load_binding_inv:
  assumes "load_binding src st bd = Inr st'" "load_inv src st" shows "load_inv src st'"
proof -
  have c: "checkBinding bd src = Inr ()" and
    fresh: "\<And>t. t \<in> set (ls_seen st (slot_of bd)) \<Longrightarrow> t \<noteq> bd_Tool bd \<and> t \<noteq> ''*'' \<and> bd_Tool bd \<noteq> ''*''" and
    st': "st' = \<lparr>ls_seen = (ls_seen st)(slot_of bd := ls_seen st (slot_of bd) @ [bd_Tool bd]),
      ls_bindings = (ls_bindings st)((bd_Server bd, bd_Tool bd) := ls_bindings st (bd_Server bd, bd_Tool bd) @ [bd])\<rparr>"
    using assms(1) by (auto simp: load_binding_def list_ex_iff Let_def split: if_splits)
  note inv = assms(2) [unfolded load_inv_def]
  have old: "\<And>srv t b. b \<in> set (ls_bindings st (srv, t)) \<Longrightarrow> bd_Server b = srv \<and> bd_Tool b = t \<and> checkBinding b src = Inr () \<and> t \<in> set (ls_seen st (slot_of b))"
    using inv [THEN conjunct1] by blast
  have distinct: "\<And>srv t. distinct (map slot_of (ls_bindings st (srv, t)))" using inv [THEN conjunct2] by blast
  have star: "set (ls_seen st s) = {''*''}" if "''*'' \<in> set (ls_seen st s)" for s
    using inv [THEN conjunct2, THEN conjunct2, rule_format, OF that] .
  have "slot_of bd \<notin> slot_of ` set (ls_bindings st (bd_Server bd, bd_Tool bd))"
    using old fresh by force
  then have d: "distinct (map slot_of (ls_bindings st' (srv, t)))" for srv t
    using distinct by (simp add: st')
  have s: "set (ls_seen st' s) = {''*''}" if s: "''*'' \<in> set (ls_seen st' s)" for s
  proof (cases "s = slot_of bd")
    case True
    have "bd_Tool bd = ''*''" using fresh [of "''*''"] s True by (auto simp: st')
    then have "set (ls_seen st s) = {}" using fresh True by (intro equals0I) blast
    then show ?thesis using s True by (simp add: st')
  qed (use s star in \<open>simp add: st'\<close>)
  have b: "bd_Server b = srv \<and> bd_Tool b = t \<and> checkBinding b src = Inr () \<and> t \<in> set (ls_seen st' (slot_of b))"
    if "b \<in> set (ls_bindings st' (srv, t))" for srv t b
  proof (cases "b \<in> set (ls_bindings st (srv, t))")
    case True
    have "set (ls_seen st x) \<subseteq> set (ls_seen st' x)" for x by (simp add: st' subset_insertI)
    then show ?thesis using old [OF True] by blast
  next
    case False
    have "ls_bindings st' (srv, t) = (if srv = bd_Server bd \<and> t = bd_Tool bd then ls_bindings st (srv, t) @ [bd] else ls_bindings st (srv, t))"
      by (simp add: st')
    then have "srv = bd_Server bd \<and> t = bd_Tool bd" "b \<in> set (ls_bindings st (srv, t) @ [bd])"
      using that False by presburger+
    then have "srv = bd_Server bd \<and> t = bd_Tool bd \<and> b = bd" using False by simp
    moreover have "bd_Tool bd \<in> set (ls_seen st' (slot_of bd))" by (simp add: st')
    ultimately show ?thesis using c by simp
  qed
  show ?thesis unfolding load_inv_def by (intro conjI allI ballI impI) (use d s b in \<open>simp_all (no_asm_simp)\<close>)
qed

lemma broker_Load_inv:
  assumes "broker_Load data src = Inr b"
  obtains seen where "load_inv src \<lparr>ls_seen = seen, ls_bindings = br_bindings b\<rparr>" "br_sources b = src"
proof -
  define step where "step = efold (load_binding src) \<lparr>ls_seen = (\<lambda>_. []), ls_bindings = (\<lambda>_. [])\<rparr>"
  have "\<exists>bs st. step bs = Inr st \<and> b = \<lparr>br_bindings = ls_bindings st, br_sources = src\<rparr>"
    using assms unfolding broker_Load_def step_def [symmetric] by (auto split: option.splits if_splits prod.splits) blast+
  then obtain bs st where st: "efold (load_binding src) \<lparr>ls_seen = (\<lambda>_. []), ls_bindings = (\<lambda>_. [])\<rparr> bs = Inr st"
    "b = \<lparr>br_bindings = ls_bindings st, br_sources = src\<rparr>" unfolding step_def by blast
  have "load_inv src st"
    by (rule efold_invariant [OF st(1), of "\<lambda>_. load_inv src"]) (auto simp: load_inv_def [of _ "\<lparr>ls_seen = _, ls_bindings = _\<rparr>"] intro: load_binding_inv)
  then show thesis using that [of "ls_seen st"] st(2) by (cases st) simp
qed

text \<open>
  In a loaded configuration the bindings that apply to one call fill distinct slots (server, kind of
  injection, header name up to case or variable name), each passed its checks, and no environment secret
  is read from a variable without the prefix.
\<close>
theorem broker_Load_slots:
  assumes "broker_Load data src = Inr b" "t \<noteq> ''*''"
  shows "distinct (map slot_of (br_bindings b (srv, ''*'') @ br_bindings b (srv, t))) \<and>
    (\<forall>bd \<in> set (br_bindings b (srv, ''*'') @ br_bindings b (srv, t)). bd_Server bd = srv \<and> checkBinding bd src = Inr ())"
proof -
  obtain seen where inv: "load_inv src \<lparr>ls_seen = seen, ls_bindings = br_bindings b\<rparr>" by (rule broker_Load_inv [OF assms(1)])
  have ne: "slot_of x \<noteq> slot_of y" if m: "x \<in> set (br_bindings b (srv, ''*''))" "y \<in> set (br_bindings b (srv, t))" for x y
  proof
    assume e: "slot_of x = slot_of y"
    have seen: "t' \<in> set (seen (slot_of z))" if "z \<in> set (br_bindings b (srv, t'))" for z t'
      using inv [unfolded load_inv_def, THEN conjunct1] that by simp
    have one: "set (seen (slot_of x)) = {''*''}"
      using inv [unfolded load_inv_def, THEN conjunct2, THEN conjunct2, rule_format, of "slot_of x"] seen [OF m(1)] by simp
    then show False using seen [OF m(2)] e assms(2) by simp
  qed
  have "slot_of ` set (br_bindings b (srv, ''*'')) \<inter> slot_of ` set (br_bindings b (srv, t)) = {}"
  proof (rule equals0I, elim IntE imageE)
    fix s x y assume "s = slot_of x" "s = slot_of y" "x \<in> set (br_bindings b (srv, ''*''))" "y \<in> set (br_bindings b (srv, t))"
    then show False using ne [of x y] by simp
  qed
  moreover have "distinct (map slot_of (br_bindings b (srv, u)))"
    "bd \<in> set (br_bindings b (srv, u)) \<Longrightarrow> bd_Server bd = srv \<and> checkBinding bd src = Inr ()" for u bd
    using inv unfolding load_inv_def by simp_all
  ultimately show ?thesis by (simp add: ball_Un)
qed

end
