(* ===== verification/Approval.thy ===== *)
theory Approval
  imports AppendLog Checkpoint
begin

text \<open>
  Approval statements (\<open>internal/approval/approval.go\<close>): what an approver signs, and how a signed
  statement becomes an approval receipt.
\<close>

section \<open>Statements\<close>

definition StatementDomain :: string where
  "StatementDomain = ''agent-warden/approval-statement/v1''"

definition CallDomain :: string where
  "CallDomain = ''agent-warden/call/v1''"

datatype approval_error =
  ErrStatement string
| AEncode canonical_error
| AEnvelope envelope_error
| ErrNotPending
| ErrMismatch string
| ErrSelfApproval
| ErrExpired
| ApprovalPanic

record statement =
  st_domain :: string
  st_chain_id :: string
  st_decision_seq :: int
  st_call_digest :: string
  st_outcome :: string
  st_approver :: string
  st_expires_ts :: string
  st_ts :: string

definition json_of_statement :: "statement \<Rightarrow> json" where
  "json_of_statement s = JObj [(''domain'', JStr (st_domain s)), (''chain_id'', JStr (st_chain_id s)),
     (''decision_seq'', JInt (st_decision_seq s)), (''call_digest'', JStr (st_call_digest s)),
     (''outcome'', JStr (st_outcome s)), (''approver'', JStr (st_approver s)),
     (''expires_ts'', JStr (st_expires_ts s)), (''ts'', JStr (st_ts s))]"

definition dec_statement :: "json \<Rightarrow> statement option" where
  "dec_statement j = do {
     f \<leftarrow> fields_of [''domain'', ''chain_id'', ''decision_seq'', ''call_digest'', ''outcome'', ''approver'',
       ''expires_ts'', ''ts''] j;
     d \<leftarrow> get_str f ''domain''; i \<leftarrow> get_str f ''chain_id''; n \<leftarrow> get_int f ''decision_seq'';
     c \<leftarrow> get_str f ''call_digest''; x \<leftarrow> get_str f ''outcome''; a \<leftarrow> get_str f ''approver'';
     e \<leftarrow> get_str f ''expires_ts''; t \<leftarrow> get_str f ''ts'';
     Some \<lparr>st_domain = d, st_chain_id = i, st_decision_seq = n, st_call_digest = c, st_outcome = x,
       st_approver = a, st_expires_ts = e, st_ts = t\<rparr> }"

text \<open>The call an approver is shown.\<close>

record shown_call =
  sh_task :: string
  sh_actor :: actor
  sh_call :: call

definition json_of_shown :: "shown_call \<Rightarrow> json" where
  "json_of_shown x = JObj [(''domain'', JStr CallDomain), (''task_id'', JStr (sh_task x)),
     (''actor'', json_of_actor (sh_actor x)), (''call'', json_of_call (sh_call x))]"

definition CallDigest :: "'x crypto_scheme \<Rightarrow> string \<Rightarrow> actor \<Rightarrow> call \<Rightarrow> approval_error + string" where
  "CallDigest C taskID a c =
     ebind (map_err AEncode (canonical_Encode (jcs C) (json_of_shown \<lparr>sh_task = taskID, sh_actor = a, sh_call = c\<rparr>)))
       (\<lambda>b. Inr (digest_SHA256 (sha256 C) b))"

definition approval_parseTS :: "string \<Rightarrow> approval_error + time" where
  "approval_parseTS s = (case parse_ts s of
     None \<Rightarrow> Inl (ErrStatement ''time'')
   | Some t \<Rightarrow> if format_ts t \<noteq> s then Inl (ErrStatement ''time'') else Inr t)"

definition statement_Validate :: "statement \<Rightarrow> approval_error + unit" where
  "statement_Validate s =
     (if st_domain s \<noteq> StatementDomain then Inl (ErrStatement ''domain'')
      else if st_chain_id s = [] then Inl (ErrStatement ''chain_id'')
      else if st_decision_seq s < 0 \<or> st_decision_seq s > MaxSeq then Inl (ErrStatement ''decision_seq'')
      else if \<not> digest_Valid (st_call_digest s) then Inl (ErrStatement ''call_digest'')
      else if st_outcome s \<noteq> Approved \<and> st_outcome s \<noteq> Rejected then Inl (ErrStatement ''outcome'')
      else if st_approver s = [] \<or> length (st_approver s) > 256 then Inl (ErrStatement ''approver'')
      else ebind (approval_parseTS (st_ts s)) (\<lambda>ts.
      ebind (approval_parseTS (st_expires_ts s)) (\<lambda>exp.
      if \<not> ts < exp then Inl (ErrStatement ''expires_ts'') else Inr ())))"

definition statement_Sign :: "'x crypto_scheme \<Rightarrow> signer option \<Rightarrow> statement \<Rightarrow> approval_error + signed" where
  "statement_Sign C k s =
     ebind (statement_Validate s) (\<lambda>_.
     ebind (map_err AEncode (canonical_Encode (jcs C) (json_of_statement s))) (\<lambda>payload.
     map_err AEnvelope (SignPayload C k (st_approver s) payload)))"

definition statement_Verify :: "'x crypto_scheme \<Rightarrow> signed \<Rightarrow> key_resolver \<Rightarrow> approval_error + statement" where
  "statement_Verify C sg keys =
     ebind (map_err (\<lambda>_. ErrStatement ''kid'') (signed_KeyID C sg)) (\<lambda>kid.
     ebind (of_option (ErrStatement ''not trusted'') (keys kid)) (\<lambda>pub.
     ebind (map_err (\<lambda>_. ErrStatement ''signature'') (VerifyPayload C pub sg)) (\<lambda>payload.
     ebind (map_err (\<lambda>_. ErrStatement ''payload'') (DecodeStrict (jcs C) dec_statement json_of_statement payload)) (\<lambda>s.
     ebind (statement_Validate s) (\<lambda>_.
     if st_approver s \<noteq> kid then Inl (ErrStatement ''approver'') else Inr s)))))"

section \<open>Accepting a statement\<close>

record limits =
  lim_MaxTTL :: int
  lim_ClockSkew :: int

definition DefaultLimits :: limits where
  "DefaultLimits = \<lparr>lim_MaxTTL = 3600 * ns_per_s, lim_ClockSkew = 60 * ns_per_s\<rparr>"

record accepted =
  ac_Receipt :: receipt
  ac_Statement :: statement
  ac_StatementDigest :: string
  ac_StatementLine :: bytes

definition approval_receipt :: "receipt \<Rightarrow> statement \<Rightarrow> string \<Rightarrow> string \<Rightarrow> receipt" where
  "approval_receipt d st nowTS dg = \<lparr>r_v = receipt_Version, r_domain = receipt_Domain, r_chain_id = [], r_seq = 0, r_prev = [],
     r_ts = nowTS, r_type = TypeApproval, r_task_id = r_task_id d, r_actor = r_actor d, r_call = r_call d,
     r_decision = None, r_result = None,
     r_approval = Some \<lparr>a_decision_seq = r_seq d, a_outcome = st_outcome st, a_approver = st_approver st,
       a_statement = dg, a_expires_ts = st_expires_ts st\<rparr>,
     r_rotation = None\<rparr>"

definition Accept ::
  "'x crypto_scheme \<Rightarrow> signed \<Rightarrow> receipt \<Rightarrow> key_resolver \<Rightarrow> time \<Rightarrow> limits \<Rightarrow> approval_error + accepted" where
  "Accept C sg d keys now lim =
     (if r_type d \<noteq> TypeDecision \<or> map_option d_result (r_decision d) \<noteq> Some RequireApproval then Inl ErrNotPending
      else ebind (statement_Verify C sg keys) (\<lambda>st.
      if st_chain_id st \<noteq> r_chain_id d \<or> st_decision_seq st \<noteq> r_seq d then Inl (ErrMismatch ''decision'')
      else case (r_actor d, r_call d) of (Some a, Some c) \<Rightarrow>
        ebind (CallDigest C (r_task_id d) a c) (\<lambda>callDigest.
        if st_call_digest st \<noteq> callDigest then Inl (ErrMismatch ''call'')
        else if st_approver st = principal a then Inl ErrSelfApproval
        else let ts = (case approval_parseTS (st_ts st) of Inl _ \<Rightarrow> 0 | Inr t \<Rightarrow> t);
                 exp = (case approval_parseTS (st_expires_ts st) of Inl _ \<Rightarrow> 0 | Inr t \<Rightarrow> t) in
        if now + lim_ClockSkew lim < ts then Inl (ErrStatement ''future'')
        else if sat64 (exp - ts) > lim_MaxTTL lim then Inl ErrExpired
        else let nowTS = format_ts now in
        if st_expires_ts st \<le> nowTS then Inl ErrExpired
        else ebind (map_err AEncode (signed_Line C sg)) (\<lambda>line.
          let dg = digest_SHA256 (sha256 C) line in
          Inr \<lparr>ac_Receipt = approval_receipt d st nowTS dg, ac_Statement = st, ac_StatementDigest = dg,
            ac_StatementLine = line\<rparr>))
      | _ \<Rightarrow> Inl ApprovalPanic))"

section \<open>Lemmas\<close>

lemma approval_parseTS_Inr: "approval_parseTS s = Inr t \<longleftrightarrow> parse_ts s = Some t \<and> format_ts t = s"
  by (auto simp: approval_parseTS_def split: option.splits)

lemma approval_parseTS_valid: "(\<exists>t. approval_parseTS s = Inr t) \<longleftrightarrow> valid_ts s"
  by (auto simp: approval_parseTS_Inr valid_ts_def split: option.splits)

definition statement_ok :: "statement \<Rightarrow> bool" where
  "statement_ok s \<longleftrightarrow> st_domain s = StatementDomain \<and> st_chain_id s \<noteq> [] \<and> 0 \<le> st_decision_seq s \<and>
     st_decision_seq s < 2 ^ 53 \<and> digest_Valid (st_call_digest s) \<and> st_outcome s \<in> {Approved, Rejected} \<and>
     st_approver s \<noteq> [] \<and> length (st_approver s) \<le> 256 \<and> valid_ts (st_ts s) \<and> valid_ts (st_expires_ts s) \<and>
     st_ts s < st_expires_ts s"

lemma statement_Validate_Inr: "statement_Validate s = Inr u \<longleftrightarrow> statement_ok s"
proof -
  have "(\<exists>t e. approval_parseTS (st_ts s) = Inr t \<and> approval_parseTS (st_expires_ts s) = Inr e \<and> t < e) \<longleftrightarrow>
      valid_ts (st_ts s) \<and> valid_ts (st_expires_ts s) \<and> st_ts s < st_expires_ts s"
    using valid_ts_order [of "st_ts s" "st_expires_ts s"] approval_parseTS_valid [of "st_ts s"]
      approval_parseTS_valid [of "st_expires_ts s"] by (auto simp: approval_parseTS_Inr)
  then show ?thesis
    by (auto simp: statement_Validate_def statement_ok_def MaxSeq_def MaxSafeInteger_def not_less)
qed

lemma statement_Verify_Inr:
  "statement_Verify C sg keys = Inr s \<longleftrightarrow> signed_KeyID C sg = Inr (st_approver s) \<and> statement_ok s \<and>
     (\<exists>pub payload. keys (st_approver s) = Some pub \<and> VerifyPayload C pub sg = Inr payload \<and>
       DecodeStrict (jcs C) dec_statement json_of_statement payload = Inr s)"
  by (auto simp: statement_Verify_def statement_Validate_Inr)

lemma signed_KeyID_ok: "signed_KeyID C s = Inr kid \<Longrightarrow> id_ok kid"
  by (auto simp: signed_KeyID_def signed_header_Inr)

lemma Accept_Inr:
  assumes "Accept C sg d keys now lim = Inr acc" "- (2 ^ 63) \<le> lim_MaxTTL lim" "lim_MaxTTL lim < 2 ^ 63 - 1"
  shows "\<exists>a c ts exp. r_type d = TypeDecision \<and> result_of d = RequireApproval \<and> r_actor d = Some a \<and> r_call d = Some c \<and>
    statement_Verify C sg keys = Inr (ac_Statement acc) \<and>
    st_chain_id (ac_Statement acc) = r_chain_id d \<and> st_decision_seq (ac_Statement acc) = r_seq d \<and>
    CallDigest C (r_task_id d) a c = Inr (st_call_digest (ac_Statement acc)) \<and>
    st_approver (ac_Statement acc) \<noteq> principal a \<and>
    parse_ts (st_ts (ac_Statement acc)) = Some ts \<and> parse_ts (st_expires_ts (ac_Statement acc)) = Some exp \<and>
    ts \<le> now + lim_ClockSkew lim \<and> exp - ts \<le> lim_MaxTTL lim \<and> format_ts now < st_expires_ts (ac_Statement acc) \<and>
    signed_Line C sg = Inr (ac_StatementLine acc) \<and>
    ac_StatementDigest acc = digest_SHA256 (sha256 C) (ac_StatementLine acc) \<and>
    ac_Receipt acc = approval_receipt d (ac_Statement acc) (format_ts now) (ac_StatementDigest acc)"
proof -
  obtain st a c cd line where ac: "r_type d = TypeDecision" "map_option d_result (r_decision d) = Some RequireApproval"
    "statement_Verify C sg keys = Inr st" "st_chain_id st = r_chain_id d" "st_decision_seq st = r_seq d"
    "r_actor d = Some a" "r_call d = Some c" "CallDigest C (r_task_id d) a c = Inr (st_call_digest st)"
    "st_approver st \<noteq> principal a" "signed_Line C sg = Inr line"
    "\<not> now + lim_ClockSkew lim < (case approval_parseTS (st_ts st) of Inl _ \<Rightarrow> 0 | Inr t \<Rightarrow> t)"
    "\<not> sat64 ((case approval_parseTS (st_expires_ts st) of Inl _ \<Rightarrow> 0 | Inr t \<Rightarrow> t) -
      (case approval_parseTS (st_ts st) of Inl _ \<Rightarrow> 0 | Inr t \<Rightarrow> t)) > lim_MaxTTL lim"
    "\<not> st_expires_ts st \<le> format_ts now"
    "acc = \<lparr>ac_Receipt = approval_receipt d st (format_ts now) (digest_SHA256 (sha256 C) line), ac_Statement = st,
      ac_StatementDigest = digest_SHA256 (sha256 C) line, ac_StatementLine = line\<rparr>"
    using assms(1) unfolding Accept_def Let_def by (auto split: option.splits)
  have "statement_ok st" using ac(3) by (simp add: statement_Verify_Inr)
  then have "valid_ts (st_ts st)" "valid_ts (st_expires_ts st)" by (simp_all add: statement_ok_def)
  then obtain ts exp where p: "approval_parseTS (st_ts st) = Inr ts" "approval_parseTS (st_expires_ts st) = Inr exp"
    unfolding approval_parseTS_valid [symmetric] by blast
  have "exp - ts \<le> lim_MaxTTL lim"
    using ac(12) sat64_le_iff [OF assms(2,3)] by (simp add: p not_less)
  moreover have "ts \<le> now + lim_ClockSkew lim" using ac(11) by (simp add: p)
  moreover have "result_of d = RequireApproval" using ac(2) by (auto simp: result_of_def)
  ultimately show ?thesis
    using ac(1,3-10,13,14) p by (intro exI [of _ a] exI [of _ c] exI [of _ ts] exI [of _ exp])
      (simp add: approval_parseTS_Inr not_le)
qed

lemma dec_statement_sorted: "json_safe (json_of_statement s) \<Longrightarrow> dec_statement (sort_json (json_of_statement s)) = Some s"
  unfolding json_of_statement_def dec_statement_def by (subst fields_of_sorted) (auto simp: struct_simps)

lemma json_safe_statement: "statement_ok s \<Longrightarrow> json_safe (json_of_statement s)"
  by (simp add: json_of_statement_def statement_ok_def)

definition dec_shown :: "json \<Rightarrow> shown_call option" where
  "dec_shown j = do {
     f \<leftarrow> fields_of [''domain'', ''task_id'', ''actor'', ''call''] j;
     k \<leftarrow> get_str f ''task_id''; a \<leftarrow> get_ptr dec_actor f ''actor''; c \<leftarrow> get_ptr dec_call f ''call'';
     (case (a, c) of (Some a, Some c) \<Rightarrow> Some \<lparr>sh_task = k, sh_actor = a, sh_call = c\<rparr> | _ \<Rightarrow> None) }"

lemma dec_shown_sorted: "dec_shown (sort_json (json_of_shown x)) = Some x"
proof -
  let ?fs = "[(''domain'', JStr CallDomain), (''task_id'', JStr (sh_task x)),
     (''actor'', json_of_actor (sh_actor x)), (''call'', json_of_call (sh_call x))]"
  let ?f = "\<lambda>k. map_option sort_json (map_of ?fs k)"
  have f: "fields_of [''domain'', ''task_id'', ''actor'', ''call''] (sort_json (json_of_shown x)) = Some ?f"
    unfolding json_of_shown_def by (rule fields_of_sorted) simp_all
  have a: "get_ptr dec_actor ?f ''actor'' = Some (Some (sh_actor x))"
    by (rule get_ptr_map [where enc = json_of_actor, OF _ _ dec_actor_sorted]) (simp_all add: json_of_actor_def)
  have c: "get_ptr dec_call ?f ''call'' = Some (Some (sh_call x))"
    by (rule get_ptr_map [where enc = json_of_call, OF _ _ dec_call_sorted]) (simp_all add: json_of_call_def)
  have t: "get_str ?f ''task_id'' = Some (sh_task x)" by (simp add: get_str_def)
  show ?thesis unfolding dec_shown_def f bind.bind_lunit a c t by simp
qed

definition shown_utf8 :: "string \<Rightarrow> actor \<Rightarrow> call \<Rightarrow> bool" where
  "shown_utf8 t a c \<longleftrightarrow> list_all utf8_valid [t, agent a, principal a, tool c, manifest c, args_commitment c]"

lemma json_shown_ok:
  "json_safe (json_of_shown x)" "shown_utf8 (sh_task x) (sh_actor x) (sh_call x) \<Longrightarrow> json_ok (json_of_shown x)"
  by (simp_all add: json_of_shown_def json_of_actor_def json_of_call_def shown_utf8_def CallDomain_def utf8_valid_ascii)

definition call_pre :: "'x crypto_scheme \<Rightarrow> string \<Rightarrow> actor \<Rightarrow> call \<Rightarrow> bytes set" where
  "call_pre C t a c = {b. canonical_Encode (jcs C) (json_of_shown \<lparr>sh_task = t, sh_actor = a, sh_call = c\<rparr>) = Inr b}"

lemma CallDigest_inj:
  assumes "CallDigest C t a c = Inr d" "CallDigest C t' a' c' = Inr d" "jcs_ok (jcs C)"
    and "shown_utf8 t a c" "shown_utf8 t' a' c'" "no_collision (sha256 C) (call_pre C t a c \<union> call_pre C t' a' c')"
  shows "t = t' \<and> a = a' \<and> c = c'"
proof -
  let ?x = "\<lparr>sh_task = t, sh_actor = a, sh_call = c\<rparr>" and ?y = "\<lparr>sh_task = t', sh_actor = a', sh_call = c'\<rparr>"
  obtain b b' where b: "canonical_Encode (jcs C) (json_of_shown ?x) = Inr b"
    "canonical_Encode (jcs C) (json_of_shown ?y) = Inr b'" "sha256 C b = sha256 C b'"
    using assms(1,2) by (auto simp: CallDigest_def)
  have "b = b'" by (rule no_collisionD [OF assms(6) b(3)]) (use b in \<open>simp_all add: call_pre_def\<close>)
  then have "?x = ?y"
    using b canonical_Encode_inj [of "jcs C" json_of_shown ?x ?y b dec_shown] assms(3-5)
    by (simp add: json_shown_ok dec_shown_sorted)
  then show ?thesis by simp
qed

text \<open>
  C31: an accepted approval is genuine: the statement verifies under the trusted key of the approver it
  names, answers exactly this decision, which required approval, was made for the task, actor and
  call of the decision and for no other (unless two of the hashed strings collide), and the approver
  is not the requesting principal.
\<close>

theorem Accept_genuine:
  assumes "Accept C sg d keys now lim = Inr acc" "- (2 ^ 63) \<le> lim_MaxTTL lim" "lim_MaxTTL lim < 2 ^ 63 - 1"
    and "jcs_ok (jcs C)" "r_actor d = Some a" "r_call d = Some c" "shown_utf8 (r_task_id d) a c" "shown_utf8 t' a' c'"
    and "no_collision (sha256 C) (call_pre C (r_task_id d) a c \<union> call_pre C t' a' c')"
  shows "statement_Verify C sg keys = Inr (ac_Statement acc) \<and> result_of d = RequireApproval \<and>
    st_chain_id (ac_Statement acc) = r_chain_id d \<and> st_decision_seq (ac_Statement acc) = r_seq d \<and>
    st_approver (ac_Statement acc) \<noteq> principal a \<and>
    (CallDigest C t' a' c' = Inr (st_call_digest (ac_Statement acc)) \<longleftrightarrow> t' = r_task_id d \<and> a' = a \<and> c' = c)"
proof -
  have i: "result_of d = RequireApproval" "statement_Verify C sg keys = Inr (ac_Statement acc)"
    "st_chain_id (ac_Statement acc) = r_chain_id d" "st_decision_seq (ac_Statement acc) = r_seq d"
    "CallDigest C (r_task_id d) a c = Inr (st_call_digest (ac_Statement acc))"
    "st_approver (ac_Statement acc) \<noteq> principal a"
    using Accept_Inr [OF assms(1-3)] assms(5,6) by auto
  then show ?thesis using CallDigest_inj [OF i(5) _ assms(4,7,8,9)] by blast
qed

text \<open>
  an approval lives for a bounded time: with the default limits an accepted statement has not
  expired at the moment it is recorded and expires at most an hour and a minute later, so no approval
  recorded at \<open>now\<close> authorises a result after that.
\<close>

theorem Accept_bounded:
  assumes "Accept C sg d keys now DefaultLimits = Inr acc"
  shows "\<exists>exp. parse_ts (st_expires_ts (ac_Statement acc)) = Some exp \<and>
    format_ts now < st_expires_ts (ac_Statement acc) \<and> exp \<le> now + 61 * 60 * ns_per_s \<and>
    map_option a_expires_ts (r_approval (ac_Receipt acc)) = Some (st_expires_ts (ac_Statement acc)) \<and>
    r_ts (ac_Receipt acc) = format_ts now"
proof -
  have l: "- (2 ^ 63) \<le> lim_MaxTTL DefaultLimits" "lim_MaxTTL DefaultLimits < 2 ^ 63 - 1"
    by (simp_all add: DefaultLimits_def ns_per_s_def)
  obtain ts exp where "parse_ts (st_expires_ts (ac_Statement acc)) = Some exp"
    "ts \<le> now + lim_ClockSkew DefaultLimits" "exp - ts \<le> lim_MaxTTL DefaultLimits"
    "format_ts now < st_expires_ts (ac_Statement acc)"
    "ac_Receipt acc = approval_receipt d (ac_Statement acc) (format_ts now) (ac_StatementDigest acc)"
    using Accept_Inr [OF assms l] by blast
  then show ?thesis by (simp add: DefaultLimits_def approval_receipt_def ns_per_s_def)
qed

text \<open>
  what \<open>Accept\<close> returns can be recorded: after a log in which the decision has no approval and no
  result yet, the approval receipt, filled by the appender that stands at the end of the log, is
  well formed and refers back the way the verifier demands.
\<close>

theorem Accept_admissible:
  assumes "Accept C sg d keys now lim = Inr acc" "- (2 ^ 63) \<le> lim_MaxTTL lim" "lim_MaxTTL lim < 2 ^ 63 - 1"
    and "receipt_Validate d = Inr ()" "decision_at es (r_seq d) = Some d" "approval_of es (r_seq d) = None"
    and "\<not> has_result es (r_seq d)" "appender_at C chainID es a" "id_ok chainID" "digest_Valid (ap_prev a)"
    and "length es < 2 ^ 53" "0 \<le> now" "now < y10k"
  shows "receipt_Validate (fill a (ac_Receipt acc)) = Inr () \<and> approval_admissible es (fill a (ac_Receipt acc))"
proof -
  obtain x y where ac: "r_type d = TypeDecision" "result_of d = RequireApproval" "r_actor d = Some x" "r_call d = Some y"
    "statement_Verify C sg keys = Inr (ac_Statement acc)" "st_approver (ac_Statement acc) \<noteq> principal x"
    "format_ts now < st_expires_ts (ac_Statement acc)" "ac_StatementDigest acc = digest_SHA256 (sha256 C) (ac_StatementLine acc)"
    "ac_Receipt acc = approval_receipt d (ac_Statement acc) (format_ts now) (ac_StatementDigest acc)"
    using Accept_Inr [OF assms(1-3)] by blast
  have st: "statement_ok (ac_Statement acc)" "id_ok (st_approver (ac_Statement acc))"
    using ac(5) by (auto simp: statement_Verify_Inr signed_KeyID_ok)
  have seq: "0 \<le> r_seq d" "r_seq d < int (length es)" using assms(5) by (auto simp: decision_at_def split: if_splits)
  have "context_ok d x y" using assms(4) ac(1,3,4) Validate_decision [OF ac(1)] by (auto simp: context_ok_def)
  then have ctx: "context_ok (fill a (ac_Receipt acc)) x y"
    by (simp add: context_ok_def ac(9) approval_receipt_def fill_def)
  have hdr: "header_ok (fill a (ac_Receipt acc))"
    using assms(8-13) by (simp add: header_ok_def ac(9) approval_receipt_def fill_def appender_at_def receipt_Version_def valid_ts_format)
  have "approval_ok (fill a (ac_Receipt acc)) \<lparr>a_decision_seq = r_seq d, a_outcome = st_outcome (ac_Statement acc),
      a_approver = st_approver (ac_Statement acc), a_statement = ac_StatementDigest acc,
      a_expires_ts = st_expires_ts (ac_Statement acc)\<rparr>"
    using st seq ac(7,8) assms(8) by (auto simp: approval_ok_def ac(9) approval_receipt_def fill_def statement_ok_def appender_at_def)
  moreover have "r_type (fill a (ac_Receipt acc)) = TypeApproval" by (simp add: ac(9) approval_receipt_def fill_def)
  ultimately have "receipt_Validate (fill a (ac_Receipt acc)) = Inr ()"
    using hdr ctx Validate_approval by blast
  moreover have "approval_admissible es (fill a (ac_Receipt acc))"
    using assms(5-7) ac(2,3,6) by (simp add: approval_admissible_def ac(9) approval_receipt_def fill_def same_call_def)
  ultimately show ?thesis ..
qed

context signing
begin

lemma statement_Sign_verifies:
  assumes "good k" "jcs_ok (jcs C)" "json_ok (json_of_statement s)" "statement_Sign C (Some k) s = Inr sg"
    and "sgn_Public k = Some p" "keys (st_approver s) = Some p"
  shows "statement_Verify C sg keys = Inr s"
proof -
  obtain payload where pl: "statement_ok s" "SignPayload C (Some k) (st_approver s) payload = Inr sg"
    "canonical_Encode (jcs C) (json_of_statement s) = Inr payload"
    using assms(4) by (auto simp: statement_Sign_def statement_Validate_Inr)
  have u: "utf8_valid (st_approver s)" using assms(3) by (simp add: json_of_statement_def)
  have "DecodeStrict (jcs C) dec_statement json_of_statement payload = Inr s"
    using assms(3) json_safe_statement [OF pl(1)] pl(3) dec_statement_sorted
    by (intro DecodeStrict_Encode [OF assms(2)]) auto
  moreover have "signed_KeyID C sg = Inr (st_approver s)"
    using SignPayload_header [OF assms(2) pl(2) u] by (simp add: signed_KeyID_def new_header_def)
  ultimately show ?thesis
    using SignPayload_verifies [OF assms(1,2) u pl(2) assms(5)] pl(1) assms(6) by (simp add: statement_Verify_Inr)
qed

end

text \<open>
  a statement that an approver signs with a key file verifies under that key and comes back
  unchanged.
\<close>

theorem statement_roundtrip:
  assumes "file_signer C k" "jcs_ok (jcs C)" "json_ok (json_of_statement s)" "statement_Sign C (Some k) s = Inr sg"
    and "sgn_Public k = Some p" "keys (st_approver s) = Some p"
  shows "statement_Verify C sg keys = Inr s"
  using file_keys.statement_Sign_verifies [OF assms(1-5), of keys] assms(6) by simp

end
