(* ===== verification/Store.thy ===== *)
theory Store
  imports AppendLog LogTheorems
begin

text \<open>
  The durable receipt log (\<open>internal/store/store.go\<close>).  The SQLite database is the value of its four
  tables; whether a statement or transaction succeeds is an argument (\<open>ok\<close>), and one that fails
  leaves the tables as they were.  What is in memory, the signing key and the appender, is lost in a
  crash; \<open>store_Open\<close> rebuilds it from the tables.
\<close>

section \<open>Tables and state\<close>

record row =
  row_seq :: int
  row_line :: bytes
  row_hash :: string
  row_ts :: string

record database =
  db_meta :: "string \<rightharpoonup> string"
  db_receipts :: "row list"
  db_statements :: "string \<rightharpoonup> bytes"
  db_openings :: "string \<rightharpoonup> bytes \<times> bytes"

definition empty_db :: database where
  "empty_db = \<lparr>db_meta = Map.empty, db_receipts = [], db_statements = Map.empty, db_openings = Map.empty\<rparr>"

record store =
  s_db :: database
  s_chainID :: string
  s_key :: "signer option"
  s_kid :: string
  s_app :: appender

datatype store_error =
  BadPath
| DbFailed
| StoreMismatch string
| RowsMissing
| OpenChain chain_error
| UseRotate
| SAppend chain_error
| NotWritten
| NotRotation
| NoIncomingSigner
| NotSwitched chain_error
| StatementParse envelope_error
| StatementLine canonical_error
| ErrNotFound
| StatementDigest
| MalformedOpening

definition ordered_rows :: "database \<Rightarrow> row list" where
  "ordered_rows db = sort_key row_seq (db_receipts db)"

section \<open>Opening\<close>

text \<open>\<open>init\<close> runs in one transaction, so an error leaves the tables unchanged.\<close>

definition store_init ::
  "'x crypto_scheme \<Rightarrow> database \<Rightarrow> signer option \<Rightarrow> string \<Rightarrow> string \<Rightarrow> bool \<Rightarrow> store_error + store" where
  "store_init C db key kid chainID ok =
     (if \<not> ok then Inl DbFailed
      else ebind (case db_meta db ''chain_id'' of
          None \<Rightarrow> Inr ((db_meta db)(''chain_id'' \<mapsto> chainID))
        | Some got \<Rightarrow> if got \<noteq> chainID then Inl (StoreMismatch ''chain_id'') else Inr (db_meta db)) (\<lambda>m1.
      let genesis = (case m1 ''kid'' of None \<Rightarrow> kid | Some g \<Rightarrow> g);
          m2 = m1(''kid'' \<mapsto> genesis);
          current = (case m2 ''current_kid'' of None \<Rightarrow> genesis | Some c \<Rightarrow> c);
          m3 = m2(''current_kid'' \<mapsto> current);
          rows = ordered_rows db; count = int (length rows) in
      if current \<noteq> kid then Inl (StoreMismatch ''kid'')
      else ebind (if count = 0 then map_err OpenChain (NewAppender C key kid chainID)
          else if row_seq (last rows) \<noteq> count - 1 then Inl RowsMissing
          else map_err OpenChain (ResumeAppender C key kid chainID
            \<lparr>st_Next = count, st_Prev = row_hash (last rows), st_LastTS = row_ts (last rows)\<rparr>)) (\<lambda>app.
      Inr \<lparr>s_db = db\<lparr>db_meta := m3\<rparr>, s_chainID = chainID, s_key = key, s_kid = kid, s_app = app\<rparr>)))"

definition store_Open ::
  "'x crypto_scheme \<Rightarrow> string \<Rightarrow> database \<Rightarrow> signer option \<Rightarrow> string \<Rightarrow> string \<Rightarrow> bool \<Rightarrow> database \<times> (store_error + store)" where
  "store_Open C path db key kid chainID ok =
     (if path = [] \<or> CHR ''?'' \<in> set path \<or> CHR ''#'' \<in> set path then (db, Inl BadPath)
      else case store_init C db key kid chainID ok of Inl e \<Rightarrow> (db, Inl e) | Inr s \<Rightarrow> (s_db s, Inr s))"

section \<open>Appending and rotating\<close>

record appended =
  ap_Seq :: int
  ap_Hash :: string
  ap_Line :: bytes
  ap_Signed :: signed

text \<open>\<open>INSERT\<close> fails on a duplicate primary key.\<close>

definition insert_row :: "bool \<Rightarrow> row \<Rightarrow> database \<Rightarrow> database option" where
  "insert_row ok r db = (if ok \<and> row_seq r \<notin> row_seq ` set (db_receipts db)
     then Some (db\<lparr>db_receipts := db_receipts db @ [r]\<rparr>) else None)"

definition rollback :: "'x crypto_scheme \<Rightarrow> chain_state \<Rightarrow> store \<Rightarrow> store" where
  "rollback C before s = (case ResumeAppender C (s_key s) (s_kid s) (s_chainID s) before of
     Inr a \<Rightarrow> s\<lparr>s_app := a\<rparr> | Inl _ \<Rightarrow> s)"

definition store_Append ::
  "'x crypto_scheme \<Rightarrow> store \<Rightarrow> receipt \<Rightarrow> bool \<Rightarrow> store \<times> (store_error + appended)" where
  "store_Append C s r ok =
     (if r_type r = TypeKeyRotation then (s, Inl UseRotate)
      else let before = appender_State (s_app s) in
      case Append C (s_app s) r of
        (a, Inl e) \<Rightarrow> (s\<lparr>s_app := a\<rparr>, Inl (SAppend e))
      | (a, Inr (sg, line)) \<Rightarrow>
          (let hash = digest_SHA256 (sha256 C) line;
               row = \<lparr>row_seq = st_Next before, row_line = line, row_hash = hash, row_ts = r_ts r\<rparr> in
           case insert_row ok row (s_db s) of
             None \<Rightarrow> (rollback C before (s\<lparr>s_app := a\<rparr>), Inl NotWritten)
           | Some db \<Rightarrow> (s\<lparr>s_app := a, s_db := db\<rparr>,
               Inr \<lparr>ap_Seq = st_Next before, ap_Hash = hash, ap_Line = line, ap_Signed = sg\<rparr>)))"

definition store_Rotate ::
  "'x crypto_scheme \<Rightarrow> store \<Rightarrow> receipt \<Rightarrow> signer option \<Rightarrow> bool \<Rightarrow> store \<times> (store_error + appended)" where
  "store_Rotate C s r next ok =
     (case r_rotation r of None \<Rightarrow> (s, Inl NotRotation) | Some rot \<Rightarrow>
      if r_type r \<noteq> TypeKeyRotation then (s, Inl NotRotation)
      else case signer_public next of None \<Rightarrow> (s, Inl NoIncomingSigner) | Some pub \<Rightarrow>
      if rot_from rot \<noteq> s_kid s then (s, Inl (StoreMismatch ''from''))
      else if digest_SHA256 (sha256 C) (pub_Bytes pub) \<noteq> rot_key rot then (s, Inl (StoreMismatch ''key''))
      else let before = appender_State (s_app s) in
      case Append C (s_app s) r of
        (a, Inl e) \<Rightarrow> (s\<lparr>s_app := a\<rparr>, Inl (SAppend e))
      | (a, Inr (sg, line)) \<Rightarrow>
          (let hash = digest_SHA256 (sha256 C) line;
               row = \<lparr>row_seq = st_Next before, row_line = line, row_hash = hash, row_ts = r_ts r\<rparr> in
           case insert_row ok row (s_db s) of
             None \<Rightarrow> (rollback C before (s\<lparr>s_app := a\<rparr>), Inl NotWritten)
           | Some db \<Rightarrow>
              let db' = (if db_meta db ''current_kid'' = None then db
                         else db\<lparr>db_meta := (db_meta db)(''current_kid'' \<mapsto> rot_to rot)\<rparr>) in
              case ResumeAppender C next (rot_to rot) (s_chainID s) (appender_State a) of
                Inl e \<Rightarrow> (s\<lparr>s_app := a, s_db := db'\<rparr>, Inl (NotSwitched e))
              | Inr app \<Rightarrow> (s\<lparr>s_key := next, s_kid := rot_to rot, s_app := app, s_db := db'\<rparr>,
                  Inr \<lparr>ap_Seq = st_Next before, ap_Hash = hash, ap_Line = line, ap_Signed = sg\<rparr>)))"

definition store_Next :: "store \<Rightarrow> int" where
  "store_Next s = ap_next (s_app s)"

definition store_Kid :: "store \<Rightarrow> string" where
  "store_Kid s = s_kid s"

definition store_ChainID :: "store \<Rightarrow> string" where
  "store_ChainID s = s_chainID s"

section \<open>Export, verification, statements and openings\<close>

definition store_lines :: "store \<Rightarrow> bytes list" where
  "store_lines s = map row_line (ordered_rows (s_db s))"

definition store_Export :: "store \<Rightarrow> bytes" where
  "store_Export s = unlines (store_lines s)"

definition store_Verify :: "'x crypto_scheme \<Rightarrow> store \<Rightarrow> key_resolver \<Rightarrow> failure + report \<times> unit" where
  "store_Verify C s keys = Verify_log C (store_Export s) (s_chainID s) keys"

definition store_VerifyWithKeys :: "'x crypto_scheme \<Rightarrow> store \<Rightarrow> 'k keys \<Rightarrow> 'k \<Rightarrow> failure + report \<times> 'k" where
  "store_VerifyWithKeys C s K ks = VerifyWithKeys C (store_Export s) (s_chainID s) K ks []"

definition SaveStatement ::
  "'x crypto_scheme \<Rightarrow> store \<Rightarrow> bytes \<Rightarrow> bool \<Rightarrow> store \<times> (store_error + string)" where
  "SaveStatement C s line ok =
     (case ParseLine C line of Inl e \<Rightarrow> (s, Inl (StatementParse e)) | Inr sg \<Rightarrow>
      case signed_Line C sg of Inl e \<Rightarrow> (s, Inl (StatementLine e)) | Inr canon \<Rightarrow>
      let d = digest_SHA256 (sha256 C) canon; db = s_db s in
      if \<not> ok then (s, Inl DbFailed)
      else (s\<lparr>s_db := (if db_statements db d = None then db\<lparr>db_statements := (db_statements db)(d \<mapsto> canon)\<rparr> else db)\<rparr>, Inr d))"

definition get_statement :: "'x crypto_scheme \<Rightarrow> store \<Rightarrow> string \<Rightarrow> bool \<Rightarrow> store_error + bytes" where
  "get_statement C s d ok =
     (if \<not> ok then Inl DbFailed
      else case db_statements (s_db s) d of None \<Rightarrow> Inl ErrNotFound
      | Some line \<Rightarrow> if digest_SHA256 (sha256 C) line \<noteq> d then Inl StatementDigest else Inr line)"

definition SaveOpening :: "store \<Rightarrow> string \<Rightarrow> bytes \<Rightarrow> bytes \<Rightarrow> bool \<Rightarrow> store \<times> (store_error + unit)" where
  "SaveOpening s com salt v ok =
     (if \<not> digest_Valid com then (s, Inl MalformedOpening)
      else if \<not> ok then (s, Inl DbFailed)
      else let db = s_db s in
        (s\<lparr>s_db := (if db_openings db com = None then db\<lparr>db_openings := (db_openings db)(com \<mapsto> (salt, v))\<rparr> else db)\<rparr>, Inr ()))"

definition get_opening :: "store \<Rightarrow> string \<Rightarrow> bool \<Rightarrow> store_error + bytes \<times> bytes" where
  "get_opening s com ok =
     (if \<not> ok then Inl DbFailed
      else of_option ErrNotFound (db_openings (s_db s) com))"

section \<open>The rows are the log\<close>

definition row_of :: "'x crypto_scheme \<Rightarrow> nat \<Rightarrow> entry \<Rightarrow> row" where
  "row_of C i e = \<lparr>row_seq = int i, row_line = e_line e, row_hash = digest_SHA256 (sha256 C) (e_line e),
     row_ts = r_ts (e_rcpt e)\<rparr>"

definition rows_of :: "'x crypto_scheme \<Rightarrow> entry list \<Rightarrow> row list" where
  "rows_of C es = map2 (row_of C) [0..<length es] es"

lemma rows_of_snoc: "rows_of C (es @ [e]) = rows_of C es @ [row_of C (length es) e]"
  by (simp add: rows_of_def)

lemma rows_of_simps [simp]: "rows_of C [] = []" "length (rows_of C es) = length es"
  by (simp_all add: rows_of_def)

lemma rows_of_nth: "i < length es \<Longrightarrow> rows_of C es ! i = row_of C i (es ! i)"
  by (simp add: rows_of_def)

lemma rows_of_seqs: "map row_seq (rows_of C es) = map int [0..<length es]"
  by (rule nth_equalityI) (simp_all add: rows_of_nth row_of_def)

lemma rows_of_lines: "map row_line (rows_of C es) = map e_line es"
  by (rule nth_equalityI) (simp_all add: rows_of_nth row_of_def)

lemma sort_rows_of [simp]: "sort_key row_seq (rows_of C es) = rows_of C es"
proof -
  have "sorted (map int [0..<length es])" by (simp add: sorted_map)
  then show ?thesis by (intro sort_key_id_if_sorted) (simp add: rows_of_seqs)
qed

text \<open>What holds of a store between calls, for the log of its receipts.\<close>

definition store_holds :: "'x crypto_scheme \<Rightarrow> entry list \<Rightarrow> store \<Rightarrow> bool" where
  "store_holds C es s \<longleftrightarrow> db_receipts (s_db s) = rows_of C es \<and> appender_at C (s_chainID s) es (s_app s) \<and>
     appender_ok (s_app s) \<and> ap_key (s_app s) = s_key s \<and> ap_kid (s_app s) = s_kid s \<and>
     (\<exists>a. NewAppender C (s_key s) (s_kid s) (s_chainID s) = Inr a) \<and>
     db_meta (s_db s) ''chain_id'' = Some (s_chainID s) \<and> db_meta (s_db s) ''current_kid'' = Some (s_kid s) \<and>
     (\<exists>g. db_meta (s_db s) ''kid'' = Some g)"

lemma store_holds_resume:
  assumes "store_holds C es s"
  shows "ResumeAppender C (s_key s) (s_kid s) (s_chainID s) (appender_State (s_app s)) = Inr (s_app s)"
proof -
  obtain a0 where a0: "NewAppender C (s_key s) (s_kid s) (s_chainID s) = Inr a0" using assms by (auto simp: store_holds_def)
  have a: "ap_key (s_app s) = s_key s" "ap_kid (s_app s) = s_kid s" "ap_chainID (s_app s) = s_chainID s" "appender_ok (s_app s)"
    using assms by (auto simp: store_holds_def appender_at_def)
  have "ap_prev (s_app s) = ap_prev a0" if "ap_next (s_app s) = 0"
    using that a0 assms by (auto simp: store_holds_def appender_at_def NewAppender_def)
  with ResumeAppender_State [of C "s_app s" a0] a a0 show ?thesis by simp
qed

lemma rollback_id: "store_holds C es s \<Longrightarrow> rollback C (appender_State (s_app s)) (s\<lparr>s_app := a\<rparr>) = s"
  using store_holds_resume [of C es s] by (simp add: rollback_def)

lemma store_holds_next: "store_holds C es s \<Longrightarrow> st_Next (appender_State (s_app s)) = int (length es)"
  by (simp add: store_holds_def appender_at_def appender_State_def)

lemma insert_next:
  assumes "store_holds C es s"
  shows "insert_row ok \<lparr>row_seq = int (length es), row_line = l, row_hash = h, row_ts = t\<rparr> (s_db s) =
    (if ok then Some ((s_db s)\<lparr>db_receipts := rows_of C es @ [\<lparr>row_seq = int (length es), row_line = l, row_hash = h, row_ts = t\<rparr>]\<rparr>)
     else None)"
proof -
  have "row_seq ` set (rows_of C es) = set (map row_seq (rows_of C es))" by simp
  also have "\<dots> = int ` {0..<length es}" by (simp only: rows_of_seqs set_map set_upt)
  finally have "int (length es) \<notin> row_seq ` set (db_receipts (s_db s))" using assms by (auto simp: store_holds_def)
  with assms show ?thesis by (simp add: insert_row_def store_holds_def)
qed

text \<open>The entry that a store appends.\<close>

definition store_entry :: "store \<Rightarrow> bytes \<Rightarrow> receipt \<Rightarrow> entry" where
  "store_entry s line r = new_entry (s_app s) (the (signer_public (s_key s))) line r"

lemma store_entry_simps [simp]:
  "e_line (store_entry s line r) = line" "e_rcpt (store_entry s line r) = fill (s_app s) r"
  "e_kid (store_entry s line r) = ap_kid (s_app s)" "e_pub (store_entry s line r) = the (signer_public (s_key s))"
  by (simp_all add: store_entry_def new_entry_def)

lemma appender_at_snoc:
  "appender_at C chainID es a \<Longrightarrow> Append C a r = (a', Inr (sg, line)) \<Longrightarrow> e_line e = line \<Longrightarrow> e_rcpt e = fill a r \<Longrightarrow>
     appender_at C chainID (es @ [e]) a'"
  by (simp add: appender_at_def Append_Inr)

text \<open>Appending: either nothing changes, or the log has one more receipt.\<close>

lemma store_Append_cases:
  assumes "store_holds C es s" "store_Append C s r ok = (s', x)"
  shows "(\<exists>e. x = Inl e) \<and> s' = s \<or>
    (\<exists>sg line. x = Inr \<lparr>ap_Seq = int (length es), ap_Hash = digest_SHA256 (sha256 C) line, ap_Line = line, ap_Signed = sg\<rparr> \<and>
       r_type r \<noteq> TypeKeyRotation \<and> Append C (s_app s) r = (s_app s', Inr (sg, line)) \<and>
       s' = s\<lparr>s_app := s_app s', s_db := (s_db s)\<lparr>db_receipts := rows_of C (es @ [store_entry s line r])\<rparr>\<rparr> \<and>
       store_holds C (es @ [store_entry s line r]) s')"
proof (cases "r_type r = TypeKeyRotation")
  case True
  with assms(2) show ?thesis by (auto simp: store_Append_def)
next
  case False
  obtain a y where ap: "Append C (s_app s) r = (a, y)" by fastforce
  show ?thesis
  proof (cases y)
    case (Inl e)
    with ap assms(2) False Append_error [of C "s_app s" r a e] show ?thesis by (auto simp: store_Append_def Let_def)
  next
    case (Inr z)
    obtain sg line where z: "z = (sg, line)" by (cases z)
    note ap = ap [unfolded Inr z]
    have row: "rows_of C (es @ [store_entry s line r]) = rows_of C es @ [\<lparr>row_seq = int (length es), row_line = line,
        row_hash = digest_SHA256 (sha256 C) line, row_ts = r_ts r\<rparr>]"
      by (simp add: rows_of_snoc row_of_def)
    have ins: "store_Append C s r ok = (if ok
        then (s\<lparr>s_app := a, s_db := (s_db s)\<lparr>db_receipts := rows_of C (es @ [store_entry s line r])\<rparr>\<rparr>,
          Inr \<lparr>ap_Seq = int (length es), ap_Hash = digest_SHA256 (sha256 C) line, ap_Line = line, ap_Signed = sg\<rparr>)
        else (s, Inl NotWritten))"
      using False ap by (simp add: store_Append_def Let_def store_holds_next [OF assms(1)] insert_next [OF assms(1)]
          rollback_id [OF assms(1)] row)
    have "store_holds C (es @ [store_entry s line r])
        (s\<lparr>s_app := a, s_db := (s_db s)\<lparr>db_receipts := rows_of C (es @ [store_entry s line r])\<rparr>\<rparr>)"
      using assms(1) dropped_append [OF ap] Append_ok [OF _ ap] appender_at_snoc [OF _ ap]
      by (simp add: store_holds_def)
    with ins ap assms(2) False show ?thesis by (cases ok) auto
  qed
qed

text \<open>Rotating: either nothing changes, or the log has one more receipt and the incoming key signs.\<close>

lemma ResumeAppender_switch:
  assumes "jcs_ok (jcs C)" "signer_public next = Some pub" "utf8_valid kid" "utf8_valid chainID" "appender_ok a" "ap_next a \<noteq> 0"
  shows "(\<exists>a0. NewAppender C next kid chainID = Inr a0) \<and>
    ResumeAppender C next kid chainID (appender_State a) = Inr (a\<lparr>ap_key := next, ap_kid := kid, ap_chainID := chainID\<rparr>)"
proof -
  have "\<exists>b. canonical_Encode (jcs C) (json_of_params (NewParams C chainID kid pub)) = Inr b"
    using canonical_Encode_ok [OF assms(1), of "json_of_params (NewParams C chainID kid pub)"] assms(3,4)
    by (auto simp: json_of_params_def NewParams_def GenesisDomain_def Alg_def AlgRef_def utf8_valid_ascii)
  then obtain p where p: "GenesisPrev C (NewParams C chainID kid pub) = Inr p" by (auto simp: GenesisPrev_def)
  let ?a0 = "\<lparr>ap_key = next, ap_kid = kid, ap_chainID = chainID, ap_next = 0, ap_prev = p, ap_lastTS = []\<rparr>"
  have n: "NewAppender C next kid chainID = Inr ?a0" using p assms(2) by (simp add: NewAppender_def)
  with assms(5,6) show ?thesis
    by (auto simp: ResumeAppender_def appender_State_def appender_ok_def)
qed

lemma store_Rotate_eq:
  assumes "store_holds C es s" "jcs_ok (jcs C)" "utf8_valid (s_chainID s)" "utf8_valid (rot_to rot)"
    and "r_rotation r = Some rot" "r_type r = TypeKeyRotation" "signer_public next = Some pub" "rot_from rot = s_kid s"
    and "digest_SHA256 (sha256 C) (pub_Bytes pub) = rot_key rot" "Append C (s_app s) r = (a, Inr (sg, line))"
  obtains s' where "store_Rotate C s r next ok = (if ok then (s',
          Inr \<lparr>ap_Seq = int (length es), ap_Hash = digest_SHA256 (sha256 C) line, ap_Line = line, ap_Signed = sg\<rparr>)
        else (s, Inl NotWritten))"
    "s_key s' = next" "s_kid s' = rot_to rot" "s_chainID s' = s_chainID s" "store_holds C (es @ [store_entry s line r]) s'"
proof -
  note rot = assms(5-9) and ap = assms(10)
  let ?es = "es @ [store_entry s line r]"
  have row: "rows_of C ?es = rows_of C es @ [\<lparr>row_seq = int (length es), row_line = line,
      row_hash = digest_SHA256 (sha256 C) line, row_ts = r_ts r\<rparr>]"
    by (simp add: rows_of_snoc row_of_def)
  have at0: "appender_at C (s_chainID s) es (s_app s)" "appender_ok (s_app s)"
    using assms(1) by (simp_all add: store_holds_def)
  have at: "appender_at C (s_chainID s) ?es a" by (rule appender_at_snoc [OF at0(1) ap]) simp_all
  then have a: "appender_ok a" "ap_next a \<noteq> 0" "ap_chainID a = s_chainID s"
    using Append_ok [OF at0(2) ap] by (simp_all add: appender_at_def)
  let ?a = "a\<lparr>ap_key := next, ap_kid := rot_to rot, ap_chainID := s_chainID s\<rparr>"
  let ?s = "s\<lparr>s_key := next, s_kid := rot_to rot, s_app := ?a, s_db := (s_db s)\<lparr>db_receipts := rows_of C ?es,
      db_meta := (db_meta (s_db s))(''current_kid'' \<mapsto> rot_to rot)\<rparr>\<rparr>"
  note sw = ResumeAppender_switch [OF assms(2) rot(3) assms(4,3) a(1,2)]
  have cur: "db_meta (s_db s) ''current_kid'' = Some (s_kid s)" using assms(1) by (simp add: store_holds_def)
  have "store_Rotate C s r next ok = (if ok then (?s,
        Inr \<lparr>ap_Seq = int (length es), ap_Hash = digest_SHA256 (sha256 C) line, ap_Line = line, ap_Signed = sg\<rparr>)
      else (s, Inl NotWritten))"
    using rot ap cur sw by (simp add: store_Rotate_def Let_def store_holds_next [OF assms(1)] insert_next [OF assms(1)]
        rollback_id [OF assms(1)] row)
  moreover have "store_holds C ?es ?s"
    using assms(1) a at sw by (auto simp: store_holds_def appender_at_def appender_ok_def)
  ultimately show ?thesis by (intro that [of ?s]) simp_all
qed

lemma store_Rotate_cases:
  assumes "store_holds C es s" "store_Rotate C s r next ok = (s', x)"
    and "jcs_ok (jcs C)" "utf8_valid (s_chainID s)" "pred_option (\<lambda>rot. utf8_valid (rot_to rot)) (r_rotation r)"
  shows "(\<exists>e. x = Inl e) \<and> s' = s \<or>
    (\<exists>sg line a rot pub. x = Inr \<lparr>ap_Seq = int (length es), ap_Hash = digest_SHA256 (sha256 C) line, ap_Line = line, ap_Signed = sg\<rparr> \<and>
       Append C (s_app s) r = (a, Inr (sg, line)) \<and> r_rotation r = Some rot \<and> rot_from rot = s_kid s \<and>
       signer_public next = Some pub \<and> rot_key rot = digest_SHA256 (sha256 C) (pub_Bytes pub) \<and>
       s_key s' = next \<and> s_kid s' = rot_to rot \<and> s_chainID s' = s_chainID s \<and>
       store_holds C (es @ [store_entry s line r]) s')"
proof (cases "\<exists>rot pub. r_rotation r = Some rot \<and> r_type r = TypeKeyRotation \<and> signer_public next = Some pub \<and>
    rot_from rot = s_kid s \<and> digest_SHA256 (sha256 C) (pub_Bytes pub) = rot_key rot")
  case False
  with assms(2) show ?thesis by (auto simp: store_Rotate_def split: option.splits if_splits)
next
  case True
  then obtain rot pub where rot: "r_rotation r = Some rot" "r_type r = TypeKeyRotation" "signer_public next = Some pub"
    "rot_from rot = s_kid s" "digest_SHA256 (sha256 C) (pub_Bytes pub) = rot_key rot" by blast
  obtain a y where ap: "Append C (s_app s) r = (a, y)" by fastforce
  show ?thesis
  proof (cases y)
    case (Inl e)
    with ap assms(2) rot Append_error [of C "s_app s" r a e] show ?thesis by (auto simp: store_Rotate_def Let_def)
  next
    case (Inr z)
    obtain sg line where z: "z = (sg, line)" by (cases z)
    note ap = ap [unfolded Inr z]
    have "utf8_valid (rot_to rot)" using assms(5) rot(1) by simp
    obtain s1 where "store_Rotate C s r next ok = (if ok then (s1,
          Inr \<lparr>ap_Seq = int (length es), ap_Hash = digest_SHA256 (sha256 C) line, ap_Line = line, ap_Signed = sg\<rparr>)
        else (s, Inl NotWritten))"
      "s_key s1 = next" "s_kid s1 = rot_to rot" "s_chainID s1 = s_chainID s" "store_holds C (es @ [store_entry s line r]) s1"
      by (rule store_Rotate_eq [OF assms(1,3,4) \<open>utf8_valid (rot_to rot)\<close> rot ap])
    then show ?thesis using ap assms(2) rot by (cases ok) auto
  qed
qed

text \<open>Opening again what is on disk gives the store back.\<close>

lemma store_init_again:
  assumes "store_holds C es s"
  shows "store_init C (s_db s) (s_key s) (s_kid s) (s_chainID s) ok = (if ok then Inr s else Inl DbFailed)"
proof -
  obtain g where meta: "db_meta (s_db s) ''chain_id'' = Some (s_chainID s)" "db_meta (s_db s) ''current_kid'' = Some (s_kid s)"
    "db_meta (s_db s) ''kid'' = Some g"
    using assms(1) by (auto simp: store_holds_def)
  have rows: "ordered_rows (s_db s) = rows_of C es" using assms(1) by (simp add: store_holds_def ordered_rows_def)
  have m: "(db_meta (s_db s))(''kid'' \<mapsto> g, ''current_kid'' \<mapsto> s_kid s) = db_meta (s_db s)" using meta by auto
  have app: "(if int (length es) = 0 then map_err OpenChain (NewAppender C (s_key s) (s_kid s) (s_chainID s))
      else if row_seq (last (rows_of C es)) \<noteq> int (length es) - 1 then Inl RowsMissing
      else map_err OpenChain (ResumeAppender C (s_key s) (s_kid s) (s_chainID s)
        \<lparr>st_Next = int (length es), st_Prev = row_hash (last (rows_of C es)), st_LastTS = row_ts (last (rows_of C es))\<rparr>))
      = Inr (s_app s)"
  proof (cases es rule: rev_cases)
    case Nil
    then show ?thesis using store_holds_resume [OF assms(1)] assms(1)
      by (auto simp: store_holds_def appender_at_def appender_State_def ResumeAppender_def split: if_splits)
  next
    case (snoc es' e)
    then have "appender_State (s_app s) = \<lparr>st_Next = int (length es), st_Prev = row_hash (last (rows_of C es)),
        st_LastTS = row_ts (last (rows_of C es))\<rparr>"
      using assms(1) by (simp add: store_holds_def appender_at_def appender_State_def rows_of_snoc row_of_def)
    then show ?thesis using store_holds_resume [OF assms(1)] snoc by (simp add: rows_of_snoc row_of_def)
  qed
  show ?thesis using app by (cases "es = []") (auto simp: store_init_def meta rows Let_def m)
qed

lemma store_Open_again:
  assumes "store_holds C es s" "store_Open C path (s_db s) (s_key s) (s_kid s) (s_chainID s) ok = (db, Inr s')"
  shows "s' = s \<and> db = s_db s"
  using assms(2) store_init_again [OF assms(1), of ok] by (auto simp: store_Open_def split: if_splits)

section \<open>Every history of a store verifies\<close>

text \<open>
  What the callers of a store see to: a key file signs, the directory knows its key under the current
  key ID, the receipt is text and refers back the way the rules demand, and its line is shorter than
  the verifier's buffer.
\<close>

definition honest :: "'x crypto_scheme \<Rightarrow> 'k keys \<Rightarrow> 'k \<Rightarrow> store \<Rightarrow> entry list \<Rightarrow> entry \<Rightarrow> bool" where
  "honest C K ks s es e \<longleftrightarrow> (\<exists>k p. s_key s = Some k \<and> file_signer C k \<and> sgn_Public k = Some p \<and>
       key_accepted K ks [] es (s_kid s) p) \<and>
     utf8_valid (s_kid s) \<and> receipt_utf8 (e_rcpt e) \<and> body_admissible K ks es e \<and> plain_line (e_line e)"

lemma store_Open_empty:
  assumes "store_Open C path empty_db key kid chainID ok = (db, Inr s)"
  shows "store_holds C [] s \<and> s_chainID s = chainID"
proof -
  obtain a where a: "NewAppender C key kid chainID = Inr a"
    "s = \<lparr>s_db = empty_db\<lparr>db_meta := [''chain_id'' \<mapsto> chainID, ''kid'' \<mapsto> kid, ''current_kid'' \<mapsto> kid]\<rparr>,
       s_chainID = chainID, s_key = key, s_kid = kid, s_app = a\<rparr>"
    using assms by (auto simp: store_Open_def store_init_def empty_db_def ordered_rows_def Let_def split: if_splits sum.splits)
  with NewAppender_at [OF a(1)] NewAppender_ok [OF a(1)] show ?thesis
    by (simp add: store_holds_def empty_db_def)
qed

definition store_inv :: "'x crypto_scheme \<Rightarrow> 'k keys \<Rightarrow> 'k \<Rightarrow> store \<Rightarrow> entry list \<Rightarrow> bool" where
  "store_inv C K ks s es \<longleftrightarrow> store_holds C es s \<and> log_ok C K ks (s_chainID s) [] es \<and>
     list_all plain_line (map e_line es) \<and> utf8_valid (s_chainID s)"

lemma honest_extends:
  assumes "store_inv C K ks s es" "jcs_ok (jcs C)" "Append C (s_app s) r = (a, Inr (sg, line))"
    and "honest C K ks s es (store_entry s line r)"
  shows "log_ok C K ks (s_chainID s) [] (es @ [store_entry s line r]) \<and>
    list_all plain_line (map e_line (es @ [store_entry s line r]))"
proof -
  obtain k p where k: "s_key s = Some k" "file_signer C k" "sgn_Public k = Some p" "key_accepted K ks [] es (s_kid s) p"
    "utf8_valid (s_kid s)" "receipt_utf8 (fill (s_app s) r)" "body_admissible K ks es (store_entry s line r)" "plain_line line"
    using assms(4) by (auto simp: honest_def)
  have s: "log_ok C K ks (s_chainID s) [] es" "appender_at C (s_chainID s) es (s_app s)" "ap_key (s_app s) = Some k"
    "ap_kid (s_app s) = s_kid s" "list_all plain_line (map e_line es)"
    using assms(1) k(1) by (simp_all add: store_inv_def store_holds_def)
  have e: "store_entry s line r = new_entry (s_app s) p line r"
    using k(1,3) by (simp add: store_entry_def signer_public_def)
  show ?thesis
    using file_keys.Append_extends [OF s(1,2) assms(3) s(3) k(2,3) assms(2)] k s(4,5) e
    by (simp add: new_entry_def)
qed

lemma store_inv_verifies:
  assumes "store_inv C K ks s es" "es \<noteq> []"
  shows "store_VerifyWithKeys C s K ks = Inr (report_of C (s_chainID s) [] es, keys_after K ks es)"
proof -
  have i: "store_holds C es s" "log_ok C K ks (s_chainID s) [] es" "list_all plain_line (map e_line es)"
    using assms(1) by (simp_all add: store_inv_def)
  have "store_Export s = unlines (map e_line es)"
    using i(1) by (simp add: store_Export_def store_lines_def ordered_rows_def store_holds_def rows_of_lines)
  then have "scan_lines (store_Export s) = (map e_line es, False)" using scan_unlines [OF i(3)] by simp
  with i(2) assms(2) have "verified_log C (store_Export s) (s_chainID s) K ks [] [] es" by (simp add: verified_log_def)
  then show ?thesis unfolding store_VerifyWithKeys_def VerifyWithKeys_def VerifyAll_Inr by blast
qed

text \<open>
  The histories of a store: opened empty, then any sequence of appends and rotations, whatever the receipts say and
  whether they succeed or fail, and of restarts that open the tables again.  The keys are those of key files.
\<close>

inductive store_history :: "'x crypto_scheme \<Rightarrow> store \<Rightarrow> entry list \<Rightarrow> bool" for C where
  opened: "store_Open C path empty_db key kid chainID ok = (db, Inr s) \<Longrightarrow> pred_option (file_signer C) key \<Longrightarrow>
    utf8_valid kid \<Longrightarrow> utf8_valid chainID \<Longrightarrow> store_history C s []"
| appended: "store_history C s es \<Longrightarrow> store_Append C s r ok = (s', x) \<Longrightarrow>
    store_history C s' (case x of Inl _ \<Rightarrow> es | Inr a \<Rightarrow> es @ [store_entry s (ap_Line a) r])"
| rotated: "store_history C s es \<Longrightarrow> store_Rotate C s r k ok = (s', x) \<Longrightarrow> pred_option (file_signer C) k \<Longrightarrow>
    pred_option (\<lambda>rot. utf8_valid (rot_to rot)) (r_rotation r) \<Longrightarrow>
    store_history C s' (case x of Inl _ \<Rightarrow> es | Inr a \<Rightarrow> es @ [store_entry s (ap_Line a) r])"
| reopened: "store_history C s es \<Longrightarrow>
    store_Open C path (s_db s) (s_key s) (s_kid s) (s_chainID s) ok = (db, Inr s') \<Longrightarrow> store_history C s' es"

text \<open>The signature of a receipt, if it is text, verifies under the key that the entry names.\<close>

definition signed_entry :: "'x crypto_scheme \<Rightarrow> entry \<Rightarrow> bool" where
  "signed_entry C e \<longleftrightarrow> (\<exists>sg. ParseLine C (e_line e) = Inr sg \<and> signed_KeyID C sg = Inr (e_kid e) \<and>
     (receipt_utf8 (e_rcpt e) \<longrightarrow> receipt_Verify C (e_pub e) sg = Inr (e_rcpt e)))"

definition history_inv :: "'x crypto_scheme \<Rightarrow> store \<Rightarrow> entry list \<Rightarrow> bool" where
  "history_inv C s es \<longleftrightarrow> store_holds C es s \<and> utf8_valid (s_chainID s) \<and> utf8_valid (s_kid s) \<and> pred_option (file_signer C) (s_key s) \<and>
     (es \<noteq> [] \<longrightarrow> s_kid s = signer_after es) \<and>
     (\<forall>i < length es. linked C (s_chainID s) [] (take i es) (es ! i)) \<and> (\<forall>e \<in> set es. signed_entry C e)"

lemma appended_entry:
  assumes "history_inv C s es" "jcs_ok (jcs C)" "Append C (s_app s) r = (a, Inr (sg, line))"
  shows "linked C (s_chainID s) [] es (store_entry s line r) \<and> signed_entry C (store_entry s line r) \<and>
    receipt_Validate (e_rcpt (store_entry s line r)) = Inr ()"
proof -
  let ?e = "store_entry s line r"
  note i = assms(1) [unfolded history_inv_def]
  obtain k where k: "s_key s = Some k" "ap_lastTS (s_app s) \<le> r_ts r" "receipt_Sign C (Some k) (s_kid s) (fill (s_app s) r) = Inr sg"
    "signed_Line C sg = Inr line"
    using assms(3) i by (auto simp: Append_Inr store_holds_def receipt_Sign_def SignPayload_Inr)
  then have f: "file_signer C k" using i by simp
  then obtain p where p: "sgn_Public k = Some p" using file_keys.signer_has_key by blast
  have pub: "signer_public (s_key s) = Some p" using k(1) p by (simp add: signer_public_def)
  have at: "appender_at C (s_chainID s) es (s_app s)" "ap_kid (s_app s) = s_kid s" "ap_key (s_app s) = s_key s"
    using i by (simp_all add: store_holds_def)
  have "linked C (s_chainID s) [] es ?e"
    using at k(2) pub i by (auto simp: linked_def appender_at_def prev_after_def split: if_splits)
  moreover have "signed_entry C ?e"
    using signed_line_of_Sign [OF assms(2) k(3,4)] signed_kid_of_Sign [OF assms(2) k(3)] i at(2) pub
      file_keys.receipt_Sign_verifies [OF f assms(2) _ _ k(3) p]
    by (auto simp: signed_entry_def)
  moreover have "receipt_Validate (e_rcpt ?e) = Inr ()" using k(3) by (auto simp: receipt_Sign_def)
  ultimately show ?thesis by blast
qed

lemma history_grows:
  assumes "history_inv C s es" "linked C (s_chainID s) [] es e" "signed_entry C e"
    and "store_holds C (es @ [e]) s'" "s_chainID s' = s_chainID s" "pred_option (file_signer C) (s_key s')" "utf8_valid (s_kid s')"
    and "s_kid s' = signer_after (es @ [e])"
  shows "history_inv C s' (es @ [e])"
  using assms by (auto simp: history_inv_def nth_append less_Suc_eq)

lemma store_history_inv: "store_history C s es \<Longrightarrow> jcs_ok (jcs C) \<Longrightarrow> history_inv C s es"
proof (induction rule: store_history.induct)
  case (opened path key kid chainID ok db s)
  then have "s_key s = key \<and> s_kid s = kid"
    by (auto simp: store_Open_def store_init_def empty_db_def ordered_rows_def Let_def split: if_splits sum.splits)
  then show ?case using store_Open_empty [OF opened.hyps(1)] opened by (simp add: history_inv_def)
next
  case (appended s es r ok s' x)
  then have i: "history_inv C s es" by simp
  then have h: "store_holds C es s" by (simp add: history_inv_def)
  from store_Append_cases [OF h appended.hyps(2)] show ?case
  proof (elim disjE exE conjE)
    fix e assume "x = Inl e" "s' = s"
    then show ?thesis using i by simp
  next
    fix sg line assume x: "x = Inr \<lparr>ap_Seq = int (length es), ap_Hash = digest_SHA256 (sha256 C) line, ap_Line = line, ap_Signed = sg\<rparr>"
      and w: "r_type r \<noteq> TypeKeyRotation" "Append C (s_app s) r = (s_app s', Inr (sg, line))"
        "s' = s\<lparr>s_app := s_app s', s_db := (s_db s)\<lparr>db_receipts := rows_of C (es @ [store_entry s line r])\<rparr>\<rparr>"
        "store_holds C (es @ [store_entry s line r]) s'"
    have same: "s_chainID s' = s_chainID s" "s_key s' = s_key s" "s_kid s' = s_kid s" by (subst w(3), simp)+
    note e = appended_entry [OF i appended.prems w(2)]
    have "r_rotation (fill (s_app s) r) = None" using Validate_refs(4) [of "fill (s_app s) r"] e w(1) by simp
    then have "s_kid s' = signer_after (es @ [store_entry s line r])"
      using same(3) h by (simp add: signer_after_snoc store_holds_def)
    then have "history_inv C s' (es @ [store_entry s line r])"
      using history_grows [OF i _ _ w(4) same(1)] e i same by (simp add: history_inv_def)
    then show ?thesis by (simp add: x)
  qed
next
  case (rotated s es r k ok s' x)
  then have i: "history_inv C s es" by simp
  then have h: "store_holds C es s" "utf8_valid (s_chainID s)" by (simp_all add: history_inv_def)
  from store_Rotate_cases [OF h(1) rotated.hyps(2) rotated.prems h(2) rotated.hyps(4)] show ?case
  proof (elim disjE exE conjE)
    fix e assume "x = Inl e" "s' = s"
    then show ?thesis using i by simp
  next
    fix sg line a rot pub
    assume x: "x = Inr \<lparr>ap_Seq = int (length es), ap_Hash = digest_SHA256 (sha256 C) line, ap_Line = line, ap_Signed = sg\<rparr>"
      and w: "Append C (s_app s) r = (a, Inr (sg, line))" "r_rotation r = Some rot" "s_key s' = k" "s_kid s' = rot_to rot"
        "s_chainID s' = s_chainID s" "store_holds C (es @ [store_entry s line r]) s'"
    note e = appended_entry [OF i rotated.prems w(1)]
    have "s_kid s' = signer_after (es @ [store_entry s line r])" using w(2,4) by (simp add: signer_after_snoc fill_def)
    then have "history_inv C s' (es @ [store_entry s line r])"
      using history_grows [OF i _ _ w(6,5)] e rotated.hyps(3,4) w(2-4) by simp
    then show ?thesis by (simp add: x)
  qed
next
  case (reopened s es path ok db s')
  then show ?case using store_Open_again [of C es s path ok db s'] by (auto simp: history_inv_def)
qed

text \<open>
  C7: what a store writes, and when it verifies: through any sequence of appends and rotations of any receipts that succeed or
  fail, and of restarts from disk, with keys from key files and names in UTF-8, the store's lines are those of the receipts
  that were acknowledged, in order, each linked to the one before under the key that signs then.  If the auditor's directory
  holds those keys, the texts are UTF-8 and no line is longer than the scanner's limit, then the verifier accepts the log,
  with the report of exactly these receipts, when each receipt's body is admissible after the receipts before it, and
  refuses it otherwise: the store itself does not check that.
\<close>

theorem store_log_verifies:
  assumes "store_history C s es" "jcs_ok (jcs C)"
  shows "store_lines s = map e_line es \<and> (\<forall>i < length es. linked C (s_chainID s) [] (take i es) (es ! i)) \<and>
    (es \<noteq> [] \<longrightarrow> (\<forall>i < length es. receipt_utf8 (e_rcpt (es ! i)) \<and> plain_line (e_line (es ! i)) \<and>
        k_Resolve K (keys_after K ks (take i es)) (e_kid (es ! i)) = Some (e_pub (es ! i))) \<longrightarrow>
      (if \<forall>i < length es. body_admissible K ks (take i es) (es ! i)
       then store_VerifyWithKeys C s K ks = Inr (report_of C (s_chainID s) [] es, keys_after K ks es)
       else store_VerifyWithKeys C s K ks \<notin> range Inr))"
proof -
  note i = store_history_inv [OF assms, unfolded history_inv_def]
  have lines: "store_lines s = map e_line es"
    using i by (simp add: store_lines_def ordered_rows_def store_holds_def rows_of_lines)
  have "if \<forall>i < length es. body_admissible K ks (take i es) (es ! i)
       then store_VerifyWithKeys C s K ks = Inr (report_of C (s_chainID s) [] es, keys_after K ks es)
       else store_VerifyWithKeys C s K ks \<notin> range Inr"
    if ne: "es \<noteq> []" and c: "\<forall>i < length es. receipt_utf8 (e_rcpt (es ! i)) \<and> plain_line (e_line (es ! i)) \<and>
        k_Resolve K (keys_after K ks (take i es)) (e_kid (es ! i)) = Some (e_pub (es ! i))"
  proof -
    have au: "authentic C K ks (take j es) (es ! j)" if "j < length es" for j
      using c i that by (auto simp: authentic_def signed_entry_def)
    have pl: "list_all plain_line (map e_line es)" unfolding list_all_length using c by simp
    show ?thesis
    proof (cases "\<forall>i < length es. body_admissible K ks (take i es) (es ! i)")
      case True
      then have "log_ok C K ks (s_chainID s) [] es" using au i by (simp add: log_ok_def admissible_body)
      then have "store_inv C K ks s es" using i pl by (simp add: store_inv_def)
      from store_inv_verifies [OF this ne] True show ?thesis by simp
    next
      case False
      then obtain j where j: "j < length es" "\<not> body_admissible K ks (take j es) (es ! j)" by blast
      have "store_VerifyWithKeys C s K ks \<notin> range Inr"
      proof
        assume "store_VerifyWithKeys C s K ks \<in> range Inr"
        then obtain es' where es': "scan_lines (store_Export s) = (map e_line es', False)" "log_ok C K ks (s_chainID s) [] es'"
          by (auto simp: store_VerifyWithKeys_def VerifyWithKeys_def verified_log_def VerifyAll_Inr)
        have m: "map e_line es' = map e_line es" using es'(1) scan_unlines [OF pl] by (simp add: store_Export_def lines)
        then have n: "length es' = length es" using map_eq_imp_length_eq by blast
        have same: "e_rcpt (es' ! k) = e_rcpt (es ! k) \<and> e_kid (es' ! k) = e_kid (es ! k)" if "k < length es" for k
        proof -
          have "e_line (es' ! k) = e_line (es ! k)" using that m n by (metis nth_map)
          with receipt_of_line [OF log_ok_authentic [OF es'(2)] au [OF that], of k] that n show ?thesis by simp
        qed
        have "map e_rcpt (take j es') = map e_rcpt (take j es)"
          by (rule nth_equalityI) (use same n j in auto)
        then have "body_admissible K ks (take j es') (es' ! j) \<longleftrightarrow> body_admissible K ks (take j es) (es ! j)"
          using same [OF j(1)] by (intro same_receipts_body) simp_all
        moreover have "body_admissible K ks (take j es') (es' ! j)"
          using log_okD [OF es'(2), of j] j(1) n by (simp add: admissible_body)
        ultimately show False using j(2) by blast
      qed
      then show ?thesis unfolding if_not_P [OF False] .
    qed
  qed
  with lines i show ?thesis by blast
qed

text \<open>
  an append is atomic and a restart loses nothing: on an error neither the tables nor the signing
  state change, so the next append continues the same chain; on success exactly one row is added
  and its sequence number is the length of the log; and opening the tables again gives the store back.
\<close>

theorem store_append_atomic:
  assumes "store_holds C es s" "store_Append C s r ok = (s', x)"
  shows "(case x of
      Inl e \<Rightarrow> s' = s
    | Inr a \<Rightarrow> ap_Seq a = int (length es) \<and> store_lines s' = store_lines s @ [ap_Line a] \<and>
        ap_Hash a = digest_SHA256 (sha256 C) (ap_Line a) \<and> store_holds C (es @ [store_entry s (ap_Line a) r]) s' \<and>
        store_Next s' = store_Next s + 1) \<and>
    (\<forall>path db s''. store_Open C path (s_db s') (s_key s') (s_kid s') (s_chainID s') True = (db, Inr s'') \<longrightarrow> s'' = s')"
proof -
  consider e where "x = Inl e" "s' = s"
    | sg line where "x = Inr \<lparr>ap_Seq = int (length es), ap_Hash = digest_SHA256 (sha256 C) line, ap_Line = line, ap_Signed = sg\<rparr>"
      "store_holds C (es @ [store_entry s line r]) s'"
    using store_Append_cases [OF assms] by blast
  then show ?thesis
  proof cases
    case 1
    with store_Open_again [OF assms(1)] show ?thesis by auto
  next
    case 2
    have "store_lines s' = store_lines s @ [line]" "store_Next s' = store_Next s + 1"
      using assms(1) 2(2) by (simp_all add: store_lines_def ordered_rows_def store_holds_def rows_of_lines store_Next_def appender_at_def)
    with 2 store_Open_again [OF 2(2)] show ?thesis by auto
  qed
qed

text \<open>
  a stored statement can be proven later: the digest that saving returns fetches the canonical
  line, which parses as the same statement, and saving more statements or openings never changes it.
\<close>

theorem SaveStatement_get:
  assumes "SaveStatement C s line ok = (s', Inr d)"
    and "\<And>l. db_statements (s_db s) d = Some l \<Longrightarrow> digest_SHA256 (sha256 C) l = d"
    and "\<And>l. db_statements (s_db s) d = Some l \<Longrightarrow> no_collision (sha256 C) {l, line}"
  shows "get_statement C s' d True = Inr line \<and>
    get_statement C (fst (SaveOpening (fst (SaveStatement C s' line2 ok2)) com salt v ok3)) d True = Inr line"
proof -
  obtain sg where sg: "ParseLine C line = Inr sg" "signed_Line C sg = Inr line" "d = digest_SHA256 (sha256 C) line"
    "s' = s\<lparr>s_db := (if db_statements (s_db s) d = None then (s_db s)\<lparr>db_statements := (db_statements (s_db s))(d \<mapsto> line)\<rparr>
        else s_db s)\<rparr>"
    using assms(1) ParseLine_Inr [of C line]
    by (auto simp: SaveStatement_def Let_def split: sum.splits if_splits)
  have st: "db_statements (s_db s') d = Some line"
  proof (cases "db_statements (s_db s) d")
    case (Some l)
    have "l = line" using no_collisionD [OF assms(3) [OF Some], of l line] assms(2) [OF Some] sg(3) by simp
    with Some sg(4) show ?thesis by simp
  qed (simp add: sg(4))
  have keep: "db_statements (s_db (fst (SaveStatement C t line2 ok2))) d = Some line" if "db_statements (s_db t) d = Some line" for t
    using that by (auto simp: SaveStatement_def Let_def split: sum.split)
  have keep2: "db_statements (s_db (fst (SaveOpening t com salt v ok3))) d = db_statements (s_db t) d" for t
    by (simp add: SaveOpening_def Let_def)
  show ?thesis using st keep [OF st] by (simp add: get_statement_def keep2 sg(3) [symmetric])
qed

end
