(* ===== verification/Policy.thy ===== *)
theory Policy
  imports Canonical Receipt
begin

text \<open>
  Policy decisions (\<open>internal/policy/policy.go\<close>).  The Cedar engine is a third-party package: parsing a
  document and authorising a request are the fields of a \<open>cedar\<close> record.  Which requests are made
  and what the answers mean is the code's own.
\<close>

section \<open>Values, requests and the engine\<close>

datatype cvalue = CBool bool | CString string | CLong int | CSet "cvalue list" | CRecord "(string \<times> cvalue) list"

type_synonym uid = "string \<times> string"

record cedar_request =
  rq_Principal :: uid
  rq_Action :: uid
  rq_Resource :: uid
  rq_Agent :: string
  rq_Task :: string
  rq_Args :: cvalue
  rq_Taint :: "string list"

type_synonym entities = "(uid \<times> uid list) list"

record diagnostic =
  dg_Reasons :: "string list"
  dg_Errors :: "(string \<times> string) list"

record 'p cedar =
  cd_Parse :: "bytes \<Rightarrow> ('p \<times> string option) list option"
  cd_Authorize :: "(string \<times> 'p) list \<Rightarrow> entities \<Rightarrow> cedar_request \<Rightarrow> bool \<times> diagnostic"

record 'p engine =
  e_set :: "(string \<times> 'p) list"
  e_revision :: string

datatype policy_error = PolicySyntax | NoPolicies | MissingID | BadID | DuplicateID

text \<open>\<open>ErrInput\<close> with what is wrong.\<close>

datatype input_error = MissingField | ServerSlash | ArgsCanonical | ArgsDecode | ArgsNotObject | ArgsDepth | ArgsNull | ArgsNumber

definition ActionCall :: string where "ActionCall = ''call''"
definition ActionUnattended :: string where "ActionUnattended = ''call_unattended''"
definition maxArgsDepth :: nat where "maxArgsDepth = 16"
definition maxRuleLen :: nat where "maxRuleLen = 256"

definition id_char :: "char \<Rightarrow> bool" where
  "id_char c \<longleftrightarrow> (let b = byte c in 65 \<le> b \<and> b \<le> 90 \<or> 97 \<le> b \<and> b \<le> 122 \<or> 48 \<le> b \<and> b \<le> 57)
     \<or> c \<in> set ''_.:-''"

definition id_pattern :: "string \<Rightarrow> bool" where
  "id_pattern s \<longleftrightarrow> 1 \<le> length s \<and> length s \<le> 64 \<and> list_all id_char s"

section \<open>Loading\<close>

definition add_policy :: "(string \<times> 'p) list \<Rightarrow> 'p \<times> string option \<Rightarrow> policy_error + (string \<times> 'p) list" where
  "add_policy ps p = (case snd p of None \<Rightarrow> Inl MissingID | Some i \<Rightarrow>
     if \<not> id_pattern i then Inl BadID
     else if i \<in> fst ` set ps then Inl DuplicateID
     else Inr (ps @ [(i, fst p)]))"

definition policy_Load :: "hasher \<Rightarrow> ('p, 'x) cedar_scheme \<Rightarrow> bytes \<Rightarrow> policy_error + 'p engine" where
  "policy_Load H cd text = (case cd_Parse cd text of None \<Rightarrow> Inl PolicySyntax | Some l \<Rightarrow>
     if l = [] then Inl NoPolicies
     else ebind (efold add_policy [] l) (\<lambda>ps. Inr \<lparr>e_set = ps, e_revision = digest_SHA256 H text\<rparr>))"

section \<open>Rules\<close>

fun join :: "string \<Rightarrow> string list \<Rightarrow> string" where
  "join sep [] = []"
| "join sep [s] = s"
| "join sep (s # t # r) = s @ sep @ join sep (t # r)"

definition joinIDs :: "string list \<Rightarrow> string" where
  "joinIDs ids = join '','' (remdups_adj (sort ids))"

definition last_index :: "char \<Rightarrow> string \<Rightarrow> nat option" where
  "last_index c s = (if c \<in> set s then Some (length s - Suc (length (takeWhile (\<lambda>d. d \<noteq> c) (rev s)))) else None)"

definition limitRule :: "string \<Rightarrow> string" where
  "limitRule rule =
     (if length rule \<le> maxRuleLen then rule
      else let cut = (case last_index (CHR '','') (take (maxRuleLen - 16) rule) of None \<Rightarrow> maxRuleLen - 16 | Some i \<Rightarrow> i);
               more = length (filter (\<lambda>c. c = CHR '','') (drop cut rule)) in
           take cut rule @ '',+'' @ show_int (int more) @ ''more'')"

definition ruleOf :: "string list \<Rightarrow> string" where
  "ruleOf reasons = limitRule (joinIDs reasons)"

record policy_decision =
  pd_Result :: string
  pd_Rule :: string
  pd_PolicyRevision :: string
  pd_Errors :: "string list"

definition errorDecision :: "policy_decision \<Rightarrow> diagnostic \<Rightarrow> policy_decision" where
  "errorDecision deny diag = deny\<lparr>pd_Errors := pd_Errors deny @ map snd (dg_Errors diag),
     pd_Rule := limitRule (''error:'' @ joinIDs (map fst (dg_Errors diag)))\<rparr>"

section \<open>Building the request\<close>

record policy_input =
  in_Principal :: string
  in_Roles :: "string list"
  in_Agent :: string
  in_TaskID :: string
  in_Server :: string
  in_Tool :: string
  in_Args :: bytes
  in_Taint :: "string list"

fun esequence :: "('e + 'a) list \<Rightarrow> 'e + 'a list" where
  "esequence [] = Inr []"
| "esequence (m # ms) = ebind m (\<lambda>x. ebind (esequence ms) (\<lambda>xs. Inr (x # xs)))"

fun toValue :: "nat \<Rightarrow> json \<Rightarrow> input_error + cvalue" where
  "toValue depth JNull = (if depth > maxArgsDepth then Inl ArgsDepth else Inl ArgsNull)"
| "toValue depth (JBool b) = (if depth > maxArgsDepth then Inl ArgsDepth else Inr (CBool b))"
| "toValue depth (JStr s) = (if depth > maxArgsDepth then Inl ArgsDepth else Inr (CString s))"
| "toValue depth (JNum s) = (if depth > maxArgsDepth then Inl ArgsDepth else Inl ArgsNumber)"
| "toValue depth (JInt i) = (if depth > maxArgsDepth then Inl ArgsDepth
     else if i > MaxSafeInteger \<or> i < - MaxSafeInteger then Inl ArgsNumber else Inr (CLong i))"
| "toValue depth (JArr js) = (if depth > maxArgsDepth then Inl ArgsDepth
     else ebind (esequence (map (toValue (Suc depth)) js)) (\<lambda>vs. Inr (CSet vs)))"
| "toValue depth (JObj fs) = (if depth > maxArgsDepth then Inl ArgsDepth
     else ebind (esequence (map (\<lambda>(k, j). ebind (toValue (Suc depth) j) (\<lambda>v. Inr (k, v))) fs)) (\<lambda>vs. Inr (CRecord vs)))"

definition convertArgs :: "jcs_fun \<Rightarrow> bytes \<Rightarrow> input_error + cvalue" where
  "convertArgs jcs raw =
     (if list_all is_space (runes raw) then Inr (CRecord [])
      else ebind (map_err (\<lambda>_. ArgsCanonical) (canonical_Transform jcs raw)) (\<lambda>_.
        case decode_json raw of None \<Rightarrow> Inl ArgsDecode
        | Some (JObj fs, _) \<Rightarrow> toValue 1 (JObj fs)
        | Some _ \<Rightarrow> Inl ArgsNotObject))"

definition buildRequest :: "jcs_fun \<Rightarrow> policy_input \<Rightarrow> input_error + cedar_request \<times> entities" where
  "buildRequest jcs inp =
     (if [] \<in> {in_Principal inp, in_Agent inp, in_TaskID inp, in_Server inp, in_Tool inp} then Inl MissingField
      else if CHR ''/'' \<in> set (in_Server inp) then Inl ServerSlash
      else ebind (convertArgs jcs (in_Args inp)) (\<lambda>args.
        let principal = (''User'', in_Principal inp);
            tool = (''Tool'', in_Server inp @ ''/'' @ in_Tool inp) in
        Inr (\<lparr>rq_Principal = principal, rq_Action = ([], []), rq_Resource = tool, rq_Agent = in_Agent inp,
               rq_Task = in_TaskID inp, rq_Args = args, rq_Taint = in_Taint inp\<rparr>,
             [(principal, map (Pair ''Role'') (in_Roles inp)), (tool, [(''Server'', in_Server inp)])])))"

section \<open>Deciding\<close>

definition Decide ::
  "jcs_fun \<Rightarrow> ('p, 'x) cedar_scheme \<Rightarrow> 'p engine \<Rightarrow> policy_input \<Rightarrow> policy_decision \<times> input_error option" where
  "Decide jcs cd e inp =
     (let deny = \<lparr>pd_Result = Deny, pd_Rule = [], pd_PolicyRevision = e_revision e, pd_Errors = []\<rparr> in
      case buildRequest jcs inp of
        Inl err \<Rightarrow> (deny\<lparr>pd_Rule := ''invalid_input''\<rparr>, Some err)
      | Inr (req, ents) \<Rightarrow>
          (let (ok, diag) = cd_Authorize cd (e_set e) ents (req\<lparr>rq_Action := (''Action'', ActionCall)\<rparr>) in
           if dg_Errors diag \<noteq> [] then (errorDecision deny diag, None)
           else if \<not> ok then (deny\<lparr>pd_Rule := ruleOf (dg_Reasons diag)\<rparr>, None)
           else let callRule = ruleOf (dg_Reasons diag);
                    (unattended, diag2) = cd_Authorize cd (e_set e) ents (req\<lparr>rq_Action := (''Action'', ActionUnattended)\<rparr>) in
           if dg_Errors diag2 \<noteq> [] then (errorDecision deny diag2, None)
           else if unattended then (\<lparr>pd_Result = Allow, pd_Rule = ruleOf (dg_Reasons diag2),
             pd_PolicyRevision = e_revision e, pd_Errors = []\<rparr>, None)
           else (\<lparr>pd_Result = RequireApproval, pd_Rule = callRule, pd_PolicyRevision = e_revision e, pd_Errors = []\<rparr>, None)))"

section \<open>What a decision means\<close>

text \<open>
  a call is allowed only when policy allows it to run unattended: the decision is allow exactly when
  the request could be built and both questions, the call and running it unattended, were answered
  yes without an evaluation error; it is require\_approval exactly when the first was answered yes and
  the second no, both without errors; everything else is a deny.  The revision is always the loaded
  document's, and an input error never comes with anything but a deny.
\<close>

theorem Decide_meaning:
  "(pd_Result (fst (Decide jcs cd e inp)) = Allow \<longleftrightarrow> (\<exists>req ents. buildRequest jcs inp = Inr (req, ents) \<and>
      (\<exists>g. cd_Authorize cd (e_set e) ents (req\<lparr>rq_Action := (''Action'', ActionCall)\<rparr>) = (True, g) \<and> dg_Errors g = []) \<and>
      (\<exists>g. cd_Authorize cd (e_set e) ents (req\<lparr>rq_Action := (''Action'', ActionUnattended)\<rparr>) = (True, g) \<and> dg_Errors g = [])))
   \<and> (pd_Result (fst (Decide jcs cd e inp)) = RequireApproval \<longleftrightarrow> (\<exists>req ents. buildRequest jcs inp = Inr (req, ents) \<and>
      (\<exists>g. cd_Authorize cd (e_set e) ents (req\<lparr>rq_Action := (''Action'', ActionCall)\<rparr>) = (True, g) \<and> dg_Errors g = []) \<and>
      (\<exists>g. cd_Authorize cd (e_set e) ents (req\<lparr>rq_Action := (''Action'', ActionUnattended)\<rparr>) = (False, g) \<and> dg_Errors g = [])))
   \<and> pd_Result (fst (Decide jcs cd e inp)) \<in> {Allow, RequireApproval, Deny}
   \<and> (snd (Decide jcs cd e inp) = None \<or> pd_Result (fst (Decide jcs cd e inp)) = Deny)
   \<and> pd_PolicyRevision (fst (Decide jcs cd e inp)) = e_revision e"
proof (cases "buildRequest jcs inp")
  case (Inl err)
  then show ?thesis by (simp add: Decide_def Let_def receipt_consts)
next
  case (Inr re)
  obtain req ents where re: "re = (req, ents)" by (cases re)
  obtain ok g where a: "cd_Authorize cd (e_set e) ents (req\<lparr>rq_Action := (''Action'', ActionCall)\<rparr>) = (ok, g)" by fastforce
  obtain ok2 g2 where b: "cd_Authorize cd (e_set e) ents (req\<lparr>rq_Action := (''Action'', ActionUnattended)\<rparr>) = (ok2, g2)" by fastforce
  show ?thesis
    by (cases "dg_Errors g = []"; cases ok; cases "dg_Errors g2 = []"; cases ok2)
      (simp_all add: Decide_def Inr re a b Let_def receipt_consts errorDecision_def)
qed

section \<open>Arguments reach policy exactly\<close>

fun value_json :: "cvalue \<Rightarrow> json" where
  "value_json (CBool b) = JBool b"
| "value_json (CString s) = JStr s"
| "value_json (CLong i) = JInt i"
| "value_json (CSet vs) = JArr (map value_json vs)"
| "value_json (CRecord fs) = JObj (map (\<lambda>(k, v). (k, value_json v)) fs)"

fun nesting :: "json \<Rightarrow> nat" where
  "nesting (JArr js) = Suc (fold max (map nesting js) 0)"
| "nesting (JObj fs) = Suc (fold max (map (\<lambda>(k, j). nesting j) fs) 0)"
| "nesting j = 1"

fun cedar_ok :: "json \<Rightarrow> bool" where
  "cedar_ok JNull \<longleftrightarrow> False"
| "cedar_ok (JNum s) \<longleftrightarrow> False"
| "cedar_ok (JInt i) \<longleftrightarrow> \<bar>i\<bar> \<le> MaxSafeInteger"
| "cedar_ok (JArr js) \<longleftrightarrow> list_all cedar_ok js"
| "cedar_ok (JObj fs) \<longleftrightarrow> list_all (\<lambda>(k, j). cedar_ok j) fs"
| "cedar_ok j \<longleftrightarrow> True"

lemma value_json_leaf:
  "value_json v = JBool b \<longleftrightarrow> v = CBool b" "value_json v = JStr s \<longleftrightarrow> v = CString s"
  "value_json v = JInt i \<longleftrightarrow> v = CLong i" "value_json v \<noteq> JNull" "value_json v \<noteq> JNum n"
  by (cases v; auto)+

lemma fold_max_le: "fold max xs m \<le> (b :: nat) \<longleftrightarrow> m \<le> b \<and> (\<forall>x \<in> set xs. x \<le> b)"
  by (induction xs arbitrary: m) auto

lemma nesting_le:
  "depth + nesting (JArr js) \<le> Suc m \<longleftrightarrow> depth \<le> m \<and> (\<forall>j \<in> set js. Suc depth + nesting j \<le> Suc m)"
  "depth + nesting (JObj fs) \<le> Suc m \<longleftrightarrow> depth \<le> m \<and> (\<forall>(k, j) \<in> set fs. Suc depth + nesting j \<le> Suc m)"
  using fold_max_le [of "map nesting js" 0 "m - depth"] fold_max_le [of "map (\<lambda>(k, j). nesting j) fs" 0 "m - depth"]
  by (auto simp: le_diff_conv2 add.commute case_prod_unfold)

lemma esequence_Inr: "esequence ms = Inr xs \<longleftrightarrow> list_all2 (\<lambda>m x. m = Inr x) ms xs"
  by (induction ms arbitrary: xs) (auto simp: list_all2_Cons1)

lemma esequence_map_Inr:
  assumes "\<And>x v. x \<in> set xs \<Longrightarrow> f x = Inr v \<longleftrightarrow> P x \<and> g v = x"
  shows "esequence (map f xs) = Inr vs \<longleftrightarrow> list_all P xs \<and> map g vs = xs"
  using assms
proof (induction xs arbitrary: vs)
  case (Cons x xs)
  have "esequence (map f xs) = Inr vs \<longleftrightarrow> list_all P xs \<and> map g vs = xs" for vs
    by (rule Cons.IH) (use Cons.prems in auto)
  then show ?case using Cons.prems [of x] by (cases vs) auto
qed auto

text \<open>
  the arguments policy evaluates are exactly the JSON arguments: conversion succeeds if and only if
  nothing is nested deeper than 16 levels, no value is null and every number is an integer that
  canonical JSON keeps, and then the converted value is the same tree.
\<close>

theorem toValue_exact:
  "toValue depth j = Inr v \<longleftrightarrow> depth + nesting j \<le> Suc maxArgsDepth \<and> cedar_ok j \<and> value_json v = j"
proof (induction depth j arbitrary: v rule: toValue.induct)
  case (6 depth js)
  show ?case
  proof (cases "depth > maxArgsDepth")
    case False
    let ?P = "\<lambda>j. Suc depth + nesting j \<le> Suc maxArgsDepth \<and> cedar_ok j"
    have "esequence (map (toValue (Suc depth)) js) = Inr vs \<longleftrightarrow> list_all ?P js \<and> map value_json vs = js" for vs
      by (rule esequence_map_Inr) (use 6 False in auto)
    then show ?thesis using False
      by (cases v) (auto simp: nesting_le list_all_iff simp del: nesting.simps)
  qed auto
next
  case (7 depth fs)
  show ?case
  proof (cases "depth > maxArgsDepth")
    case False
    let ?P = "\<lambda>(k, j). Suc depth + nesting j \<le> Suc maxArgsDepth \<and> cedar_ok j"
    let ?f = "\<lambda>(k, j). ebind (toValue (Suc depth) j) (\<lambda>v. Inr (k, v))"
    let ?g = "\<lambda>(k, v). (k, value_json v)"
    have "esequence (map ?f fs) = Inr vs \<longleftrightarrow> list_all ?P fs \<and> map ?g vs = fs" for vs
    proof (rule esequence_map_Inr)
      fix x and v :: "string \<times> cvalue" assume x: "x \<in> set fs"
      obtain k j k' w where p: "x = (k, j)" "v = (k', w)" by (cases x; cases v) blast
      show "?f x = Inr v \<longleftrightarrow> ?P x \<and> ?g v = x"
        using 7 [OF False x p(1) [symmetric], of w] by (auto simp: p)
    qed
    then show ?thesis using False
      by (cases v) (auto simp: nesting_le list_all_iff case_prod_unfold simp del: nesting.simps)
  qed auto
qed (auto simp: MaxSafeInteger_def abs_le_iff value_json_leaf)

lemma length_show_nat: "0 < w \<Longrightarrow> n < 10 ^ w \<Longrightarrow> length (show_int (int n)) \<le> w"
  using dec_digits_padw [of w n] by (simp add: show_int_def)

text \<open>
  a recorded rule fits its field: for every rule of fewer than ten billion bytes the shortened rule
  has at most 256 bytes, and a rule that fits already is recorded unchanged.
\<close>

theorem limitRule_bounded:
  assumes "length rule < 10 ^ 10"
  shows "length (limitRule rule) \<le> maxRuleLen \<and> (length rule \<le> maxRuleLen \<longrightarrow> limitRule rule = rule)"
proof (cases "length rule \<le> maxRuleLen")
  case False
  define cut where "cut = (case last_index (CHR '','') (take (maxRuleLen - 16) rule) of None \<Rightarrow> maxRuleLen - 16 | Some i \<Rightarrow> i)"
  define more where "more = length (filter (\<lambda>c. c = CHR '','') (drop cut rule))"
  have "cut \<le> maxRuleLen - 16" by (auto simp: cut_def last_index_def split: option.split)
  then have "length (take cut rule) \<le> 240" by (simp add: maxRuleLen_def)
  moreover have "more \<le> length (drop cut rule)" unfolding more_def by (rule length_filter_le)
  then have "more < 10 ^ 10" using assms by simp
  then have "length (show_int (int more)) \<le> 10" by (rule length_show_nat [rotated]) simp
  moreover have "limitRule rule = take cut rule @ '',+'' @ show_int (int more) @ ''more''"
    using False by (simp only: limitRule_def Let_def cut_def more_def if_False)
  ultimately show ?thesis using False by (simp add: maxRuleLen_def)
qed (simp add: limitRule_def)

end
