(* ===== verification/Argschema.thy ===== *)
theory Argschema
  imports Canonical
begin

text \<open>
  Arguments against the pinned input schema (\<open>internal/argschema/argschema.go\<close>).  The JSON Schema
  package is third-party: compiling a schema and validating an instance are the fields of a
  \<open>schema_lib\<close> record, with the text that \<open>encoding/json\<close> gives for a syntax error.
\<close>

section \<open>Schemas and arguments\<close>

record 'v schema_lib =
  sl_Resolve :: "bytes \<Rightarrow> string + 'v"
  sl_Validate :: "'v \<Rightarrow> json \<Rightarrow> string option"
  sl_SyntaxText :: "bytes \<Rightarrow> string"

definition ErrInvalidArgs :: string where
  "ErrInvalidArgs = ''arguments do not match the tool's input schema''"

definition maxDetail :: nat where
  "maxDetail = 300"

definition Compile :: "('v, 'z) schema_lib_scheme \<Rightarrow> json option \<Rightarrow> string + 'v" where
  "Compile L schema =
     (case schema of None \<Rightarrow> Inl ''argschema: the tool has no input schema''
      | Some j \<Rightarrow> map_err (\<lambda>e. ''argschema: invalid schema: '' @ e) (sl_Resolve L (marshal j)))"

text \<open>
  Decoding into \<open>any\<close> reads every number as a \<open>float64\<close> and fails on one that is out of range: its
  magnitude would round to \<open>2^1024\<close>.
\<close>

definition float_bound :: int where
  "float_bound = 2 ^ 1024 - 2 ^ 970"

definition exponent_val :: "string \<Rightarrow> int" where
  "exponent_val s = (case s of [] \<Rightarrow> 0 | c # t \<Rightarrow>
     if c = CHR ''-'' then - digits_val t else if c = CHR ''+'' then digits_val t else digits_val s)"

definition literal_overflows :: "string \<Rightarrow> bool" where
  "literal_overflows s =
     (let body = (case s of CHR ''-'' # t \<Rightarrow> t | _ \<Rightarrow> s);
          exp_mark = (\<lambda>c. c = CHR ''e'' \<or> c = CHR ''E'');
          mant = takeWhile (\<lambda>c. \<not> exp_mark c) body;
          whole = takeWhile (\<lambda>c. c \<noteq> CHR ''.'') mant;
          frac = drop (Suc (length whole)) mant;
          m = digits_val (whole @ frac);
          e = exponent_val (drop (Suc (length mant)) body) - int (length frac) in
      if 0 \<le> e then m * 10 ^ nat e \<ge> float_bound else m \<ge> float_bound * 10 ^ nat (- e))"

fun numbers_fit :: "json \<Rightarrow> bool" where
  "numbers_fit (JInt i) \<longleftrightarrow> \<bar>i\<bar> < float_bound"
| "numbers_fit (JNum s) \<longleftrightarrow> \<not> literal_overflows s"
| "numbers_fit (JArr js) \<longleftrightarrow> list_all numbers_fit js"
| "numbers_fit (JObj fs) \<longleftrightarrow> list_all (\<lambda>(k, j). numbers_fit j) fs"
| "numbers_fit j \<longleftrightarrow> True"

definition invalid_args :: "string \<Rightarrow> string" where
  "invalid_args d = ErrInvalidArgs @ '': '' @ d"

definition truncate :: "string \<Rightarrow> string" where
  "truncate msg = (if length msg > maxDetail then take maxDetail msg @ ''...'' else msg)"

text \<open>\<open>Validator.Validate\<close>: the reason the arguments are refused, or \<open>None\<close>.\<close>

definition args_Validate :: "('v, 'z) schema_lib_scheme \<Rightarrow> 'v \<Rightarrow> bytes \<Rightarrow> string option" where
  "args_Validate L v args =
     (case decode_json args of None \<Rightarrow> Some (invalid_args (sl_SyntaxText L args))
      | Some (inst, rest) \<Rightarrow>
        if \<not> numbers_fit inst then Some (invalid_args (sl_SyntaxText L args))
        else if dec_More rest then Some (invalid_args ''trailing data after the arguments'')
        else case inst of
            JObj fs \<Rightarrow> map_option (\<lambda>msg. invalid_args (truncate msg)) (sl_Validate L v inst)
          | _ \<Rightarrow> Some (invalid_args ''arguments must be a JSON object''))"

text \<open>
  accepted arguments are one JSON object that the schema accepts, and a refusal by the schema is told
  in at most 303 bytes after its fixed prefix.
\<close>

theorem args_Validate_object:
  "(args_Validate L v args = None \<longleftrightarrow> (\<exists>fs rest. decode_json args = Some (JObj fs, rest) \<and> \<not> dec_More rest \<and>
      numbers_fit (JObj fs) \<and> sl_Validate L v (JObj fs) = None))
   \<and> (case decode_json args of Some (JObj fs, rest) \<Rightarrow> (case sl_Validate L v (JObj fs) of Some msg \<Rightarrow>
        numbers_fit (JObj fs) \<and> \<not> dec_More rest \<longrightarrow>
          (\<exists>d. args_Validate L v args = Some (invalid_args d) \<and> length d \<le> maxDetail + 3)
      | None \<Rightarrow> True) | _ \<Rightarrow> True)"
  by (auto simp: args_Validate_def truncate_def maxDetail_def split: option.splits json.splits)

end
