(* ===== verification/ComponentWitnesses.thy ===== *)
theory ComponentWitnesses
  imports Witnesses Commit Registry Keys Broker Approval Store Policy Argschema Identity
begin

text \<open>
  The properties of the components around the log, applied at concrete inputs at which their
  hypotheses hold.
\<close>

section \<open>Commitments and the registry\<close>

lemma no_collision_single: "A \<subseteq> {x} \<Longrightarrow> no_collision H A"
  by (auto simp: no_collision_def inj_on_def)

definition sample_salt :: bytes where
  "sample_salt = replicate 32 (CHR ''s'')"

lemma canonical_Encode_toy:
  assumes "json_ok j" "json_safe j"
  shows "canonical_Encode (jcs toy) j = Inr (marshal (sort_json j))"
  using canonical_Encode_ok [OF toy_ok(2) assms] canonical_Encode_model [OF assms(1)] by (auto simp: toy_ok(3))

theorem commitment_binding_witness: "sample_salt = sample_salt \<and> sort_json (JStr ''v'') = sort_json (JStr ''v'')"
proof -
  let ?com = "digest_SHA256 (sha256 toy) (sample_salt @ marshal (JStr ''v''))"
  have c: "commit_Verify toy ?com sample_salt (JStr ''v'') = Inr ()"
    by (simp add: commit_Verify_Inr commit_Compute_Inr canonical_Encode_toy sample_salt_def SaltSize_def utf8_valid_ascii)
  show ?thesis
    by (rule commitment_binding [OF c c])
      (simp_all add: commit_pre_def canonical_Encode_toy utf8_valid_ascii toy_ok(2) no_collision_def)
qed

definition sample_manifest :: Manifest where
  "sample_manifest = \<lparr>m_Server = ''s'', m_Name = ''t'', m_Title = [], m_Description = ''d'',
     m_InputSchema = Some (JObj []), m_OutputSchema = None, m_Annotations = None\<rparr>"

lemma sample_manifest_json: "json_ok (json_of_manifest sample_manifest)" "json_safe (json_of_manifest sample_manifest)"
  by (simp_all add: json_of_manifest_def sample_manifest_def omit_str_def omit_ptr_def utf8_valid_ascii ManifestDomain_def)

definition sample_pin :: string where
  "sample_pin = digest_SHA256 (sha256 toy) (marshal (sort_json (json_of_manifest sample_manifest)))"

lemma sample_manifest_digest: "Manifest_Digest toy sample_manifest = Inr sample_pin"
  by (simp add: Manifest_Digest_Inr canonical_Encode_toy [OF sample_manifest_json] sample_pin_def name_ok_def)
    (simp add: sample_manifest_def)

definition sample_registry :: registry where
  "sample_registry = [''s/t'' \<mapsto> sample_pin]"

lemma sample_check: "registry_Check toy sample_registry sample_manifest = (sample_pin, None)"
  unfolding registry_Check_None by (simp add: sample_manifest_digest sample_registry_def Manifest_ID_def) (simp add: sample_manifest_def)

theorem registry_pins_manifest_witness:
  "sort_json (json_of_manifest sample_manifest) = sort_json (json_of_manifest sample_manifest) \<and> sample_pin = sample_pin"
  by (rule registry_pins_manifest [OF sample_check sample_check])
    (simp_all add: toy_ok(2) sample_manifest_json manifest_pre_def canonical_Encode_toy no_collision_def)

theorem PinAll_Load_witness:
  "\<exists>b r. PinAll toy [sample_manifest] = Inr b \<and> registry_Load toy b = Inr r \<and>
     (\<forall>m \<in> set [sample_manifest]. \<exists>d. registry_Check toy r m = (d, None))"
proof -
  let ?f = "\<lparr>f_V = 1, f_Pins = Some [\<lparr>p_Server = ''s'', p_Tool = ''t'', p_Manifest = sample_pin\<rparr>]\<rparr>"
  have p: "digest_Valid sample_pin" by (simp add: sample_pin_def)
  have j: "json_ok (json_of_pin_file ?f)" "json_safe (json_of_pin_file ?f)"
    using utf8_valid_ascii [OF digest_Valid_ascii [OF p]]
    by (simp_all add: json_of_pin_file_def json_of_pin_def json_of_slice_def utf8_valid_ascii)
  have "PinAll toy [sample_manifest] = Inr (marshal (sort_json (json_of_pin_file ?f)))"
    using p by (simp add: PinAll_def pin_of_def sample_manifest_digest registry_New_def add_pin_def pin_id_def canonical_Encode_toy [OF j])
      (simp add: sample_manifest_def name_ok_def canonical_Encode_toy [OF j])
  from PinAll_Load [OF this toy_ok(2)] this show ?thesis by (auto simp: sample_manifest_def utf8_valid_ascii)
qed

section \<open>Keys\<close>

lemma toy_public_parses: "ParsePublicKey toy MLDSA65Ed25519 (pub_Bytes toy_public) = Inr toy_public"
  by (simp add: ParsePublicKey_def PublicKeySize_def pub_Bytes_def toy_public_def toy_def toy_pub_def MLDSA65Ed25519_def)

theorem trust_file_roundtrip_witness:
  "keys_Parse toy (marshal (json_of_set (Some [PublicJWK ''k1'' toy_public]))) = Inr [''k1'' \<mapsto> toy_public]"
  using trust_file_roundtrip [of "[(''k1'', toy_public)]" toy] by (simp add: toy_public_parses utf8_valid_ascii)

theorem trust_file_trailing_data_witness:
  "keys_Parse toy (marshal (json_of_set None) @ ''}'' @ ''x'') = keys_Parse toy (marshal (json_of_set None))"
  by (rule trust_file_trailing_data) (simp add: json_of_set_def json_of_slice_def utf8_valid_ascii)

definition toy_x509 :: x509 where
  "toy_x509 = \<lparr>x_Parse = (\<lambda>_. None), x_Verify = (\<lambda>_ _ _ _. False), x_SelfSign = (\<lambda>_ _. None), x_Create = (\<lambda>_ _ _. None)\<rparr>"

definition toy_rotating :: rotating where
  "toy_rotating = NewRotating [''k1'' \<mapsto> toy_public] None"

theorem rotated_keys_certified_witness:
  "\<exists>es. scan_lines sample_log1 = (map e_line es, False) \<and> (\<forall>i < length es.
    authentic toy (Rotating toy toy_x509) toy_rotating (take i es) (es ! i) \<and>
    (rot_known toy_rotating (e_kid (es ! i)) = Some (e_pub (es ! i)) \<or>
     (\<exists>j < i. \<exists>rot cert t roots e. r_rotation (e_rcpt (es ! j)) = Some rot \<and> rot_to rot = e_kid (es ! i) \<and>
        b64_decode (rot_certificate rot) = Some cert \<and> parse_ts (r_ts (e_rcpt (es ! j))) = Some t \<and>
        rot_roots toy_rotating = Some roots \<and> VerifyKeyEpoch toy toy_x509 cert roots t = Inr e \<and>
        ke_Kid e = e_kid (es ! i) \<and> ke_Key e = e_pub (es ! i))) \<and>
    (\<forall>j < length es. e_kid (es ! i) = e_kid (es ! j) \<longrightarrow> e_pub (es ! i) = e_pub (es ! j)))"
  by (rule rotated_keys_certified [OF sample_e1_report [where revs = "[]"]])
    (simp_all add: Rotating_Resolve toy_rotating_def NewRotating_def)

theorem static_keys_no_rotation_witness:
  "rep_Rotations (report_of toy ''c1'' [] [sample_e1, sample_e2]) = [] \<and>
    (\<exists>(es :: entry list) kid pub. scan_lines sample_log = (map e_line es, False) \<and>
      (if kid = ''k1'' then Some toy_public else None) = Some pub \<and> (\<forall>e \<in> set es. e_kid e = kid \<and> e_pub e = pub))"
  by (rule static_keys_no_rotation [OF sample_report(2) [unfolded toy_keys_def]])

section \<open>Credentials\<close>

definition sample_credential :: credential where
  "sample_credential = \<lparr>cr_Inject = InjectHeader, cr_Name = ''X-Key'', cr_Value = \<lparr>sec_v = ''hunter2hunter2''\<rparr>\<rparr>"

lemma sample_secret: "sec_v (cr_Value sample_credential) = ''hunter2hunter2''"
  by (simp add: sample_credential_def)

lemma sample_scrubbable: "scrubbable ''hunter2hunter2''"
  by (simp add: scrubbable_def bracket_free_def flip: contains_sublist)

theorem Scrub_removes_witness: "\<not> sublist ''hunter2hunter2'' (fst (Scrub ''the key is hunter2hunter2.'' [sample_credential]))"
  by (rule Scrub_removes [of sample_credential])
    (simp_all add: sample_secret minScrubLen_def scrub_forms_def sample_scrubbable)

definition sample_sources :: sources where
  "sample_sources = \<lparr>src_LookupEnv = (\<lambda>n. if n = ''WARDEN_SECRET_K'' then Some ''hunter2hunter2'' else None), src_Dir = [],
     src_File = (\<lambda>_. None)\<rparr>"

section \<open>Rules and arguments\<close>

theorem limitRule_bounded_witness:
  "length (limitRule (replicate 300 (CHR '',''))) \<le> maxRuleLen \<and>
     (length (replicate 300 (CHR '','')) \<le> maxRuleLen \<longrightarrow> limitRule (replicate 300 (CHR '','')) = replicate 300 (CHR '',''))"
  by (rule limitRule_bounded) simp

definition toy_schemas :: "unit schema_lib" where
  "toy_schemas = \<lparr>sl_Resolve = (\<lambda>_. Inr ()), sl_Validate = (\<lambda>_ _. None), sl_SyntaxText = (\<lambda>_. ''syntax'')\<rparr>"

lemma decode_empty_object: "decode_json ''{}'' = Some (JObj [], [])"
  using decode_marshal [of "JObj []"] by simp

theorem args_Validate_object_witness: "args_Validate toy_schemas () ''{}'' = None"
  using args_Validate_object [of toy_schemas "()" "''{}''"] by (simp add: decode_empty_object toy_schemas_def dec_More_def skip_ws_def)

section \<open>The credential configuration\<close>

definition sample_binding :: "string \<Rightarrow> json" where
  "sample_binding t = JObj [(''server'', JStr ''s''), (''tool'', JStr t), (''inject'', JStr ''header''), (''name'', JStr ''X-Key''),
     (''prefix'', JStr []), (''secret'', JStr ''env:WARDEN_SECRET_K'')]"

definition sample_config :: bytes where
  "sample_config = marshal (JObj [(''v'', JInt 1), (''bindings'', JArr [sample_binding ''t''])])"

definition sample_bd :: binding where
  "sample_bd = \<lparr>bd_Server = ''s'', bd_Tool = ''t'', bd_Inject = ''header'', bd_Name = ''X-Key'', bd_Prefix = [], bd_Secret = ''env:WARDEN_SECRET_K''\<rparr>"

definition sample_broker :: broker where
  "sample_broker = \<lparr>br_bindings = (\<lambda>_. [])((''s'', ''t'') := [sample_bd]), br_sources = sample_sources\<rparr>"

lemma sample_bd_ok: "checkBinding sample_bd sample_sources = Inr ()"
  by code_simp

lemma sample_config_decodes:
  "decode_json sample_config = Some (JObj [(''v'', JInt 1), (''bindings'', JArr [sample_binding ''t''])], [])"
  unfolding sample_config_def by (rule decode_marshal) (simp add: sample_binding_def utf8_valid_ascii)

lemma sample_binding_decodes: "dec_binding (sample_binding ''t'') = Some sample_bd"
  by code_simp

lemma sample_broker_Load: "broker_Load sample_config sample_sources = Inr sample_broker"
proof -
  have "dec_broker_config (JObj [(''v'', JInt 1), (''bindings'', JArr [sample_binding ''t''])]) = Some \<lparr>bc_V = 1, bc_Bindings = Some [sample_bd]\<rparr>"
    by code_simp
  then show ?thesis
    by (simp add: broker_Load_def sample_config_decodes dec_More_def skip_ws_def load_binding_def sample_bd_ok Let_def
        sample_broker_def)
      (simp add: sample_bd_def)
qed

theorem broker_Load_slots_witness:
  "distinct (map slot_of (br_bindings sample_broker (''s'', ''*'') @ br_bindings sample_broker (''s'', ''t''))) \<and>
    bd_Server sample_bd = ''s'' \<and> checkBinding sample_bd sample_sources = Inr ()"
  using broker_Load_slots [OF sample_broker_Load, of "''t''" "''s''"] by (simp add: sample_broker_def)

end
