(* ===== verification/Gateway.thy ===== *)
theory Gateway
  imports Store Approval Registry Policy Broker Commit Argschema Identity "HOL-Library.AList"
begin

text \<open>
  The enforcement pipeline (\<open>internal/gateway/gateway.go\<close>).  What the world contributes to a handler
  (clock readings, what tool servers answer, salts, whether a database statement succeeds) is an
  argument record.  \<open>Call\<close> and \<open>Resume\<close> are composed of phases, each of which touches the shared state
  once, under the lock the code holds there; \<open>GatewayRun\<close> interleaves the phases.
\<close>

section \<open>Configuration and state\<close>

record tool_result =
  tr_Content :: bytes
  tr_IsError :: bool
  tr_Authors :: "string list"

record ('p, 'v) gateway_config =
  cf_C :: crypto
  cf_X :: x509
  cf_Cedar :: "'p cedar"
  cf_Policy :: "'p engine"
  cf_Schemas :: "'v schema_lib"
  cf_Registry :: registry
  cf_Broker :: broker
  cf_Roots :: "bytes list"
  cf_Approvers :: key_resolver
  cf_Roles :: "(string \<Rightarrow> string list) option"
  cf_Taint :: "(string \<Rightarrow> string \<Rightarrow> string) option"
  cf_Inspect :: "(bytes \<Rightarrow> string list) option"
  cf_Limits :: limits
  cf_IsPrint :: "nat \<Rightarrow> bool"

datatype call_status = Ok | Denied | PendingApproval | ToolError

definition TaintCredentialEcho :: string where "TaintCredentialEcho = ''credential_echo''"
definition TaintForeignPrincipal :: string where "TaintForeignPrincipal = ''foreign_principal''"
definition RuleInvalidArguments :: string where "RuleInvalidArguments = ''invalid_arguments''"

record response =
  rs_Status :: call_status
  rs_DecisionSeq :: int
  rs_ResultSeq :: int
  rs_Rule :: string
  rs_Result :: bytes
  rs_Taint :: "string list"
  rs_CredentialScrubbed :: bool
  rs_Detail :: string

datatype gateway_error =
  MissingPart
| Unauthenticated identity_error
| ReceiptFailed
| UpstreamUnavailable
| NotPending
| AlreadyAnswered
| NotApproved
| CredentialMismatch
| StatementRefused approval_error

record pending_call =
  pc_decision :: receipt
  pc_server :: string
  pc_tool :: string
  pc_args :: bytes
  pc_approval :: "approval option"
  pc_running :: bool

record 'v gateway =
  gw_store :: store
  gw_pending :: "(int \<times> pending_call) list"
  gw_taint :: "string \<Rightarrow> string list"
  gw_validators :: "string \<rightharpoonup> 'v"

definition fresh_gateway :: "store \<Rightarrow> 'v gateway" where
  "fresh_gateway s = \<lparr>gw_store = s, gw_pending = [], gw_taint = (\<lambda>_. []), gw_validators = Map.empty\<rparr>"

text \<open>\<open>New\<close>: \<open>present\<close> tells which of the seven required parts are not nil.\<close>

definition gateway_New ::
  "bool list \<Rightarrow> ('p, 'v) gateway_config \<Rightarrow> store \<Rightarrow> gateway_error + ('p, 'v) gateway_config \<times> 'v gateway" where
  "gateway_New present cfg s =
     (if \<not> list_all id present then Inl MissingPart
      else Inr (if cf_Limits cfg = \<lparr>lim_MaxTTL = 0, lim_ClockSkew = 0\<rparr> then cfg\<lparr>cf_Limits := DefaultLimits\<rparr> else cfg,
        fresh_gateway s))"

section \<open>Receipts, taint and commitments\<close>

definition appendReceipt ::
  "crypto \<Rightarrow> 'v gateway \<Rightarrow> receipt \<Rightarrow> time \<Rightarrow> bool \<Rightarrow> 'v gateway \<times> (gateway_error + appended)" where
  "appendReceipt C g r now ok =
     (case store_Append C (gw_store g) (r\<lparr>r_ts := format_ts now\<rparr>) ok of
        (s, Inl e) \<Rightarrow> (g\<lparr>gw_store := s\<rparr>, Inl ReceiptFailed)
      | (s, Inr a) \<Rightarrow> (g\<lparr>gw_store := s\<rparr>, Inr a))"

definition taintOf :: "'v gateway \<Rightarrow> string \<Rightarrow> string list" where
  "taintOf g t = gw_taint g t"

definition add_label :: "string list \<Rightarrow> string \<Rightarrow> string list" where
  "add_label ls l = (if l \<in> set ls then ls else ls @ [l])"

definition addTaint :: "'v gateway \<Rightarrow> string \<Rightarrow> string list \<Rightarrow> 'v gateway" where
  "addTaint g t labels = g\<lparr>gw_taint := (gw_taint g)(t := sort (foldl add_label (gw_taint g t) labels))\<rparr>"

text \<open>
  \<open>json.Marshal\<close> of a \<open>json.RawMessage\<close> checks the syntax, drops the space between tokens and escapes
  what HTML would read; the two flags are whether the byte is in a string and after a backslash.
\<close>

fun compact :: "bool \<Rightarrow> bool \<Rightarrow> bytes \<Rightarrow> bytes" where
  "compact i e [] = []"
| "compact i e (c # s) =
     (let i' = (if i then e \<or> byte c \<noteq> 34 else byte c = 34); e' = (i \<and> \<not> e \<and> byte c = 92) in
      if byte c \<in> {60, 62, 38} then hex4 (byte c) @ compact i' e' s
      else if byte c = 226 \<and> map byte (take 2 s) \<in> {[128, 168], [128, 169]}
        then hex4 (8064 + byte (s ! 1)) @ compact i' e' (drop 2 s)
      else if \<not> i \<and> json_ws c then compact i' e' s
      else c # compact i' e' s)"

definition marshal_raw :: "bytes \<Rightarrow> bytes option" where
  "marshal_raw raw = (if unmarshal_json raw = None then None else Some (compact False False raw))"

text \<open>\<open>fmt.Sprintf("%q")\<close> of a byte string; which runes beyond ASCII print is Unicode data, an argument.\<close>

definition hex_digits :: "nat \<Rightarrow> nat \<Rightarrow> string" where
  "hex_digits w n = map (\<lambda>i. hex_digit (n div 16 ^ i mod 16)) (rev [0..<w])"

definition quote_rune :: "(nat \<Rightarrow> bool) \<Rightarrow> nat \<Rightarrow> bytes \<Rightarrow> string" where
  "quote_rune printable r raw =
     (let bs = char_of (92 :: nat) in
      if r = 34 \<or> r = 92 then bs # raw
      else if (if r < 128 then 32 \<le> r \<and> r < 127 else printable r) then raw
      else if 7 \<le> r \<and> r \<le> 13 then [bs, ''abtnvfr'' ! (r - 7)]
      else if r < 32 \<or> r = 127 then bs # CHR ''x'' # hex_digits 2 r
      else if r < 65536 then bs # CHR ''u'' # hex_digits 4 r
      else bs # CHR ''U'' # hex_digits 8 r)"

function quote_bytes :: "(nat \<Rightarrow> bool) \<Rightarrow> bytes \<Rightarrow> string" where
  "quote_bytes printable s = (case s of [] \<Rightarrow> [] | c # t \<Rightarrow>
     (case decode_rune s of
        None \<Rightarrow> char_of (92 :: nat) # CHR ''x'' # hex_digits 2 (byte c) @ quote_bytes printable t
      | Some (r, n) \<Rightarrow> quote_rune printable r (take n s) @ quote_bytes printable (drop n s)))"
  by pat_completeness auto
termination
  by (relation "measure (\<lambda>(p, s). length s)") (auto dest: decode_rune_width simp del: decode_rune.simps)

declare quote_bytes.simps [simp del]

definition go_quote :: "(nat \<Rightarrow> bool) \<Rightarrow> bytes \<Rightarrow> string" where
  "go_quote printable s = char_of (34 :: nat) # quote_bytes printable s @ [char_of (34 :: nat)]"

text \<open>The canonical arguments (none if there are none) and the JSON of the value committed to.\<close>

definition args_value :: "('p, 'v) gateway_config \<Rightarrow> bytes \<Rightarrow> bytes \<times> bytes option" where
  "args_value cfg args =
     (let a = (if args = [] then ''{}'' else args) in
      case canonical_Transform (jcs (cf_C cfg)) a of
        Inr canon \<Rightarrow> (canon, marshal_raw canon)
      | Inl _ \<Rightarrow> ([], Some (marshal (JStr (if utf8_valid a then a else go_quote (cf_IsPrint cfg) a)))))"

definition save_opening :: "'v gateway \<Rightarrow> string \<Rightarrow> bytes \<Rightarrow> bytes \<Rightarrow> bool \<Rightarrow> 'v gateway \<times> (gateway_error + unit)" where
  "save_opening g c salt v ok = (case SaveOpening (gw_store g) c salt v ok of
     (s, Inl e) \<Rightarrow> (g\<lparr>gw_store := s\<rparr>, Inl ReceiptFailed) | (s, Inr _) \<Rightarrow> (g\<lparr>gw_store := s\<rparr>, Inr ()))"

definition commitArgs ::
  "('p, 'v) gateway_config \<Rightarrow> 'v gateway \<Rightarrow> bytes \<Rightarrow> bytes \<Rightarrow> bool \<Rightarrow> 'v gateway \<times> (gateway_error + bytes \<times> string)" where
  "commitArgs cfg g args salt ok =
     (let (canon, m) = args_value cfg args in
      case ebind (of_option ReceiptFailed m) (\<lambda>b.
           ebind (map_err (\<lambda>_. ReceiptFailed) (commit_Sum (cf_C cfg) salt b)) (\<lambda>c.
           ebind (map_err (\<lambda>_. ReceiptFailed) (canonical_Transform (jcs (cf_C cfg)) b)) (\<lambda>stored. Inr (c, stored)))) of
        Inl e \<Rightarrow> (g, Inl e)
      | Inr (c, stored) \<Rightarrow> (case save_opening g c salt stored ok of
          (g', Inl e) \<Rightarrow> (g', Inl e) | (g', Inr _) \<Rightarrow> (g', Inr (canon, c))))"

section \<open>Call\<close>

definition checkArgs ::
  "('v, 'z) schema_lib_scheme \<Rightarrow> 'v gateway \<Rightarrow> string \<Rightarrow> json option \<Rightarrow> bytes \<Rightarrow> 'v gateway \<times> string option" where
  "checkArgs L g dg schema args =
     (case gw_validators g dg of
        Some v \<Rightarrow> (g, args_Validate L v args)
      | None \<Rightarrow> (case Compile L schema of
          Inl e \<Rightarrow> (g, Some e)
        | Inr v \<Rightarrow> (g\<lparr>gw_validators := (gw_validators g)(dg \<mapsto> v)\<rparr>, args_Validate L v args)))"

definition gate_decision ::
  "('p, 'v) gateway_config \<Rightarrow> task_claims \<Rightarrow> registry_error option \<Rightarrow> string option \<Rightarrow> string \<Rightarrow> string \<Rightarrow> bytes \<Rightarrow> string list
     \<Rightarrow> gateway_error + policy_decision" where
  "gate_decision cfg tc regErr argErr server toolName args taint =
     (let deny = \<lparr>pd_Result = Deny, pd_Rule = [], pd_PolicyRevision = e_revision (cf_Policy cfg), pd_Errors = []\<rparr> in
      if regErr = Some ErrUnpinned then Inr (deny\<lparr>pd_Rule := ''tool_unpinned''\<rparr>)
      else if regErr = Some ErrChanged then Inr (deny\<lparr>pd_Rule := ''tool_changed''\<rparr>)
      else if regErr \<noteq> None then Inl UpstreamUnavailable
      else case argErr of Some e \<Rightarrow> Inr (deny\<lparr>pd_Rule := RuleInvalidArguments, pd_Errors := [e]\<rparr>)
      | None \<Rightarrow> Inr (fst (Decide (jcs (cf_C cfg)) (cf_Cedar cfg) (cf_Policy cfg)
          \<lparr>in_Principal = tc_Principal tc, in_Roles = (case cf_Roles cfg of None \<Rightarrow> [] | Some f \<Rightarrow> f (tc_Principal tc)),
           in_Agent = tc_Agent tc, in_TaskID = tc_Task tc, in_Server = server, in_Tool = toolName,
           in_Args = args, in_Taint = taint\<rparr>)))"

record call_env =
  ce_Now :: time
  ce_Manifest :: "Manifest option"
  ce_Salt :: bytes
  ce_OpeningOk :: bool

text \<open>What a call has become when its decision receipt is about to be written.\<close>

record prepared =
  pr_receipt :: receipt
  pr_decision :: policy_decision
  pr_server :: string
  pr_tool :: string
  pr_args :: bytes

definition decision_receipt :: "task_claims \<Rightarrow> call \<Rightarrow> policy_decision \<Rightarrow> string list \<Rightarrow> receipt" where
  "decision_receipt tc c dec taint = \<lparr>r_v = receipt_Version, r_domain = receipt_Domain, r_chain_id = [], r_seq = 0,
     r_prev = [], r_ts = [], r_type = TypeDecision, r_task_id = tc_Task tc,
     r_actor = Some \<lparr>agent = tc_Agent tc, principal = tc_Principal tc\<rparr>, r_call = Some c,
     r_decision = Some \<lparr>d_result = pd_Result dec, d_policy_revision = pd_PolicyRevision dec, d_rule = pd_Rule dec,
       d_taint = taint\<rparr>,
     r_result = None, r_approval = None, r_rotation = None\<rparr>"

definition Call_open ::
  "('p, 'v) gateway_config \<Rightarrow> 'v gateway \<Rightarrow> call_env \<Rightarrow> bytes \<Rightarrow> string \<Rightarrow> string \<Rightarrow> bytes
     \<Rightarrow> 'v gateway \<times> (gateway_error + prepared)" where
  "Call_open cfg g ce cred server toolName args =
     (case VerifyTask (cf_C cfg) (cf_X cfg) cred (cf_Roots cfg) (ce_Now ce) of
        Inl e \<Rightarrow> (g, Inl (Unauthenticated e))
      | Inr t \<Rightarrow>
     (case ce_Manifest ce of None \<Rightarrow> (g, Inl UpstreamUnavailable) | Some m \<Rightarrow>
      if m_Server m \<noteq> server \<or> m_Name m \<noteq> toolName then (g, Inl UpstreamUnavailable)
      else let (dg, regErr) = registry_Check (cf_C cfg) (cf_Registry cfg) m in
      if dg = [] then (g, Inl UpstreamUnavailable)
      else case commitArgs cfg g args (ce_Salt ce) (ce_OpeningOk ce) of
        (g1, Inl e) \<Rightarrow> (g1, Inl e)
      | (g1, Inr (canon, commitment)) \<Rightarrow>
         (let (g2, argErr) = (if regErr = None then checkArgs (cf_Schemas cfg) g1 dg (m_InputSchema m) canon else (g1, None));
              taint = taintOf g2 (tc_Task (t_claims t)) in
          case gate_decision cfg (t_claims t) regErr argErr server toolName args taint of
            Inl e \<Rightarrow> (g2, Inl e)
          | Inr dec \<Rightarrow> (g2, Inr \<lparr>pr_receipt = decision_receipt (t_claims t)
                \<lparr>tool = Manifest_ID m, manifest = dg, args_commitment = commitment\<rparr> dec taint,
              pr_decision = dec, pr_server = server, pr_tool = toolName, pr_args = canon\<rparr>))))"

text \<open>The decision receipt is written before anything runs; \<open>None\<close> in the result: nothing is to run now.\<close>

definition Call_record ::
  "('p, 'v) gateway_config \<Rightarrow> 'v gateway \<Rightarrow> prepared \<Rightarrow> time \<Rightarrow> bool \<Rightarrow> 'v gateway \<times> (gateway_error + response \<times> pending_call option)" where
  "Call_record cfg g pr now ok =
     (case appendReceipt (cf_C cfg) g (pr_receipt pr) now ok of
        (g1, Inl e) \<Rightarrow> (g1, Inl e)
      | (g1, Inr a) \<Rightarrow>
         (let dec = pr_decision pr;
              resp = \<lparr>rs_Status = Ok, rs_DecisionSeq = ap_Seq a, rs_ResultSeq = 0, rs_Rule = pd_Rule dec, rs_Result = [],
                rs_Taint = [], rs_CredentialScrubbed = False, rs_Detail = []\<rparr>;
              p = \<lparr>pc_decision = (pr_receipt pr)\<lparr>r_ts := format_ts now, r_chain_id := store_ChainID (gw_store g1), r_seq := ap_Seq a\<rparr>,
                pc_server = pr_server pr, pc_tool = pr_tool pr, pc_args = pr_args pr, pc_approval = None, pc_running = False\<rparr> in
          if pd_Result dec = Deny then
            (g1, Inr (resp\<lparr>rs_Status := Denied, rs_Detail := join ''; '' (pd_Errors dec)\<rparr>, None))
          else if pd_Result dec = RequireApproval then
            (g1\<lparr>gw_pending := AList.update (ap_Seq a) p (gw_pending g1)\<rparr>, Inr (resp\<lparr>rs_Status := PendingApproval\<rparr>, None))
          else (g1, Inr (resp, Some p))))"

section \<open>Running a tool\<close>

record exec_env =
  ee_Sources :: sources
  ee_Manifest :: "Manifest option"
  ee_Result :: "tool_result option"
  ee_Salt :: bytes
  ee_OpeningOk :: bool
  ee_Now :: time
  ee_AppendOk :: bool

record upstream_call =
  uc_Server :: string
  uc_Tool :: string
  uc_Args :: bytes
  uc_Creds :: "credential list"
  uc_Decision :: int
  uc_Manifest :: string

datatype outcome = Failed string | Returned tool_result "credential list"

definition exec_tool :: "('p, 'v) gateway_config \<Rightarrow> pending_call \<Rightarrow> exec_env \<Rightarrow> upstream_call list \<times> outcome" where
  "exec_tool cfg p ee =
     (case broker_For ((cf_Broker cfg)\<lparr>br_sources := ee_Sources ee\<rparr>) (pc_server p) (pc_tool p) of
        Inl e \<Rightarrow> ([], Failed ''credential unavailable'')
      | Inr creds \<Rightarrow>
         (let (current, manErr) = (case ee_Manifest ee of None \<Rightarrow> ([], True)
            | Some m \<Rightarrow> (let (d, e) = registry_Check (cf_C cfg) (cf_Registry cfg) m in (d, e \<noteq> None))) in
          if manErr \<or> map_option manifest (r_call (pc_decision p)) \<noteq> Some current
            then ([], Failed ''tool manifest changed or unavailable before execution'')
          else ([\<lparr>uc_Server = pc_server p, uc_Tool = pc_tool p, uc_Args = pc_args p, uc_Creds = creds,
                uc_Decision = r_seq (pc_decision p), uc_Manifest = current\<rparr>],
            case ee_Result ee of None \<Rightarrow> Failed ''tool server error''
            | Some res \<Rightarrow> if \<not> utf8_valid (tr_Content res) then Failed ''tool returned invalid UTF-8''
                else Returned res creds)))"

definition result_labels :: "('p, 'v) gateway_config \<Rightarrow> pending_call \<Rightarrow> tool_result \<Rightarrow> bytes \<Rightarrow> bool \<Rightarrow> string list" where
  "result_labels cfg p res content echoed = remdups_adj (sort (
     (case cf_Taint cfg of None \<Rightarrow> [] | Some f \<Rightarrow> (let l = f (pc_server p) (pc_tool p) in if l \<noteq> [] then [l] else [])) @
     (if echoed then [TaintCredentialEcho] else []) @
     (if list_ex (\<lambda>a. Some a \<noteq> map_option principal (r_actor (pc_decision p))) (tr_Authors res) then [TaintForeignPrincipal] else []) @
     (case cf_Inspect cfg of None \<Rightarrow> [] | Some f \<Rightarrow> f content)))"

text \<open>The result of a run: what the receipt, the agent and the task's taint get.\<close>

record sealed =
  se_status :: string
  se_commitment :: string
  se_content :: bytes
  se_labels :: "string list"

definition exec_seal ::
  "('p, 'v) gateway_config \<Rightarrow> 'v gateway \<Rightarrow> pending_call \<Rightarrow> response \<Rightarrow> outcome \<Rightarrow> exec_env
     \<Rightarrow> 'v gateway \<times> (gateway_error + response \<times> sealed)" where
  "exec_seal cfg g p resp out ee =
     (case out of
        Failed d \<Rightarrow> (g, Inr (resp\<lparr>rs_Status := ToolError, rs_Detail := d\<rparr>,
          \<lparr>se_status = StatusError, se_commitment = [], se_content = [], se_labels = []\<rparr>))
      | Returned res creds \<Rightarrow>
         (let (content, echoed) = Scrub (tr_Content res) creds;
              labels = result_labels cfg p res content echoed;
              resp1 = (if echoed then resp\<lparr>rs_CredentialScrubbed := True\<rparr> else resp) in
          case commit_New (cf_C cfg) (ee_Salt ee) (JStr content) of
            Inl e \<Rightarrow> (g, Inl ReceiptFailed)
          | Inr (c, salt) \<Rightarrow> (case save_opening g c salt content (ee_OpeningOk ee) of
              (g1, Inl e) \<Rightarrow> (g1, Inl e)
            | (g1, Inr _) \<Rightarrow> (g1, Inr
                (if tr_IsError res then resp1\<lparr>rs_Status := ToolError, rs_Detail := ''tool reported an error''\<rparr>
                 else resp1\<lparr>rs_Status := Ok\<rparr>,
                 \<lparr>se_status = (if tr_IsError res then StatusError else StatusOK), se_commitment = c,
                   se_content = content, se_labels = labels\<rparr>)))))"

definition result_receipt :: "pending_call \<Rightarrow> sealed \<Rightarrow> receipt" where
  "result_receipt p se = \<lparr>r_v = receipt_Version, r_domain = receipt_Domain, r_chain_id = [], r_seq = 0, r_prev = [],
     r_ts = [], r_type = TypeResult, r_task_id = r_task_id (pc_decision p), r_actor = r_actor (pc_decision p),
     r_call = r_call (pc_decision p), r_decision = None,
     r_result = Some \<lparr>res_decision_seq = r_seq (pc_decision p), res_status = se_status se,
       res_commitment = se_commitment se, res_taint = se_labels se\<rparr>,
     r_approval = None, r_rotation = None\<rparr>"

text \<open>The result is withheld when it cannot be receipted.\<close>

definition exec_record ::
  "('p, 'v) gateway_config \<Rightarrow> 'v gateway \<Rightarrow> pending_call \<Rightarrow> response \<Rightarrow> sealed \<Rightarrow> time \<Rightarrow> bool
     \<Rightarrow> 'v gateway \<times> (gateway_error + response)" where
  "exec_record cfg g p resp se now ok =
     (case appendReceipt (cf_C cfg) g (result_receipt p se) now ok of
        (g1, Inl e) \<Rightarrow> (g1, Inl e)
      | (g1, Inr a) \<Rightarrow> (g1, Inr (resp\<lparr>rs_ResultSeq := ap_Seq a, rs_Result := se_content se, rs_Taint := se_labels se\<rparr>)))"

definition execute ::
  "('p, 'v) gateway_config \<Rightarrow> 'v gateway \<Rightarrow> pending_call \<Rightarrow> response \<Rightarrow> exec_env
     \<Rightarrow> 'v gateway \<times> upstream_call list \<times> (gateway_error + response)" where
  "execute cfg g p resp ee =
     (let (ucs, out) = exec_tool cfg p ee in
      case exec_seal cfg g p resp out ee of
        (g1, Inl e) \<Rightarrow> (g1, ucs, Inl e)
      | (g1, Inr (resp1, se)) \<Rightarrow> (case exec_record cfg g1 p resp1 se (ee_Now ee) (ee_AppendOk ee) of
          (g2, Inl e) \<Rightarrow> (g2, ucs, Inl e)
        | (g2, Inr resp2) \<Rightarrow> (addTaint g2 (r_task_id (pc_decision p)) (se_labels se), ucs, Inr resp2)))"

definition gateway_Call ::
  "('p, 'v) gateway_config \<Rightarrow> 'v gateway \<Rightarrow> call_env \<Rightarrow> time \<Rightarrow> bool \<Rightarrow> exec_env \<Rightarrow> bytes \<Rightarrow> string \<Rightarrow> string \<Rightarrow> bytes
     \<Rightarrow> 'v gateway \<times> upstream_call list \<times> (gateway_error + response)" where
  "gateway_Call cfg g ce now ok ee cred server toolName args =
     (case Call_open cfg g ce cred server toolName args of
        (g1, Inl e) \<Rightarrow> (g1, [], Inl e)
      | (g1, Inr pr) \<Rightarrow> (case Call_record cfg g1 pr now ok of
          (g2, Inl e) \<Rightarrow> (g2, [], Inl e)
        | (g2, Inr (resp, None)) \<Rightarrow> (g2, [], Inr resp)
        | (g2, Inr (resp, Some p)) \<Rightarrow> execute cfg g2 p resp ee))"

section \<open>Pending calls, approvals and Resume\<close>

record pending_view =
  pv_Decision :: receipt
  pv_CallDigest :: string
  pv_Args :: bytes
  pv_Approval :: "approval option"

definition pending_show :: "crypto \<Rightarrow> pending_call \<Rightarrow> gateway_error + pending_view" where
  "pending_show C p =
     (case (r_actor (pc_decision p), r_call (pc_decision p)) of
        (Some a, Some c) \<Rightarrow> ebind (map_err StatementRefused (CallDigest C (r_task_id (pc_decision p)) a c)) (\<lambda>cd.
          Inr \<lparr>pv_Decision = pc_decision p, pv_CallDigest = cd, pv_Args = pc_args p, pv_Approval = pc_approval p\<rparr>)
      | _ \<Rightarrow> Inl (StatementRefused ApprovalPanic))"

definition gateway_Pending :: "crypto \<Rightarrow> 'v gateway \<Rightarrow> int \<Rightarrow> gateway_error + pending_view" where
  "gateway_Pending C g seq = (case map_of (gw_pending g) seq of None \<Rightarrow> Inl NotPending | Some p \<Rightarrow> pending_show C p)"

definition ListPending :: "crypto \<Rightarrow> 'v gateway \<Rightarrow> gateway_error + pending_view list" where
  "ListPending C g =
     ebind (esequence (map (pending_show C) (map snd (filter (\<lambda>(s, p). \<not> pc_running p) (gw_pending g))))) (\<lambda>vs.
       Inr (sort_key (\<lambda>v. r_seq (pv_Decision v)) vs))"

definition Approve_check ::
  "('p, 'v) gateway_config \<Rightarrow> 'v gateway \<Rightarrow> bytes \<Rightarrow> time \<Rightarrow> gateway_error + int \<times> accepted" where
  "Approve_check cfg g line now =
     ebind (map_err (\<lambda>_. StatementRefused (ErrStatement ''line'')) (ParseLine (cf_C cfg) line)) (\<lambda>sg.
     ebind (map_err StatementRefused (statement_Verify (cf_C cfg) sg (cf_Approvers cfg))) (\<lambda>st.
     case map_of (gw_pending g) (st_decision_seq st) of None \<Rightarrow> Inl NotPending | Some p \<Rightarrow>
     if pc_approval p \<noteq> None then Inl AlreadyAnswered
     else ebind (map_err StatementRefused (Accept (cf_C cfg) sg (pc_decision p) (cf_Approvers cfg) now (cf_Limits cfg))) (\<lambda>acc.
       Inr (st_decision_seq st, acc))))"

definition Approve_record ::
  "('p, 'v) gateway_config \<Rightarrow> 'v gateway \<Rightarrow> int \<Rightarrow> accepted \<Rightarrow> bool \<Rightarrow> bool \<Rightarrow> 'v gateway \<times> (gateway_error + approval)" where
  "Approve_record cfg g seq acc ok1 ok2 =
     (case SaveStatement (cf_C cfg) (gw_store g) (ac_StatementLine acc) ok1 of
        (s1, Inl e) \<Rightarrow> (g\<lparr>gw_store := s1\<rparr>, Inl ReceiptFailed)
      | (s1, Inr _) \<Rightarrow> (case store_Append (cf_C cfg) s1 (ac_Receipt acc) ok2 of
          (s2, Inl e) \<Rightarrow> (g\<lparr>gw_store := s2\<rparr>, Inl ReceiptFailed)
        | (s2, Inr _) \<Rightarrow> (g\<lparr>gw_store := s2,
              gw_pending := AList.map_entry seq (\<lambda>p. p\<lparr>pc_approval := r_approval (ac_Receipt acc)\<rparr>) (gw_pending g)\<rparr>,
            of_option NotPending (r_approval (ac_Receipt acc)))))"

definition gateway_Approve ::
  "('p, 'v) gateway_config \<Rightarrow> 'v gateway \<Rightarrow> bytes \<Rightarrow> time \<Rightarrow> bool \<Rightarrow> bool \<Rightarrow> 'v gateway \<times> (gateway_error + approval)" where
  "gateway_Approve cfg g line now ok1 ok2 =
     (case Approve_check cfg g line now of Inl e \<Rightarrow> (g, Inl e) | Inr (seq, acc) \<Rightarrow> Approve_record cfg g seq acc ok1 ok2)"

definition Resume_begin ::
  "('p, 'v) gateway_config \<Rightarrow> 'v gateway \<Rightarrow> bytes \<Rightarrow> int \<Rightarrow> time \<Rightarrow> 'v gateway \<times> (gateway_error + response \<times> pending_call)" where
  "Resume_begin cfg g cred seq now =
     (case VerifyTask (cf_C cfg) (cf_X cfg) cred (cf_Roots cfg) now of
        Inl e \<Rightarrow> (g, Inl (Unauthenticated e))
      | Inr t \<Rightarrow>
     (case map_of (gw_pending g) seq of None \<Rightarrow> (g, Inl NotPending) | Some p \<Rightarrow>
      let d = pc_decision p in
      if pc_running p then (g, Inl NotPending)
      else if tc_Task (t_claims t) \<noteq> r_task_id d \<or> Some (tc_Agent (t_claims t)) \<noteq> map_option agent (r_actor d) \<or>
        Some (tc_Principal (t_claims t)) \<noteq> map_option principal (r_actor d) then (g, Inl CredentialMismatch)
      else case pc_approval p of None \<Rightarrow> (g, Inl NotApproved) | Some a \<Rightarrow>
      if a_outcome a \<noteq> Approved then (g, Inl NotApproved)
      else if a_expires_ts a \<le> format_ts now then (g, Inl NotApproved)
      else (g\<lparr>gw_pending := AList.map_entry seq (\<lambda>p. p\<lparr>pc_running := True\<rparr>) (gw_pending g)\<rparr>,
        Inr (\<lparr>rs_Status = Ok, rs_DecisionSeq = seq, rs_ResultSeq = 0,
            rs_Rule = (case r_decision d of None \<Rightarrow> [] | Some x \<Rightarrow> d_rule x), rs_Result = [], rs_Taint = [],
            rs_CredentialScrubbed = False, rs_Detail = []\<rparr>, p\<lparr>pc_running := True\<rparr>))))"

definition Resume_end :: "'v gateway \<Rightarrow> int \<Rightarrow> bool \<Rightarrow> 'v gateway" where
  "Resume_end g seq failed =
     (if failed then g\<lparr>gw_pending := AList.map_entry seq (\<lambda>p. p\<lparr>pc_running := False\<rparr>) (gw_pending g)\<rparr>
      else g\<lparr>gw_pending := AList.delete seq (gw_pending g)\<rparr>)"

definition gateway_Resume ::
  "('p, 'v) gateway_config \<Rightarrow> 'v gateway \<Rightarrow> bytes \<Rightarrow> int \<Rightarrow> time \<Rightarrow> exec_env
     \<Rightarrow> 'v gateway \<times> upstream_call list \<times> (gateway_error + response)" where
  "gateway_Resume cfg g cred seq now ee =
     (case Resume_begin cfg g cred seq now of
        (g1, Inl e) \<Rightarrow> (g1, [], Inl e)
      | (g1, Inr (resp, p)) \<Rightarrow>
         (let (g2, ucs, x) = execute cfg g1 p resp ee in
          (Resume_end g2 seq (case x of Inl _ \<Rightarrow> True | Inr _ \<Rightarrow> False), ucs, x)))"

end
