(* ===== verification/GatewayRun.thy ===== *)
theory GatewayRun
  imports Gateway
begin

text \<open>
  The gateway at work: any number of calls and resumptions in flight, their phases interleaved with one
  another, with approvals, key rotations and restarts, in any order and with any failure.  The second
  part is the invariant of this system; \<open>GatewayTheorems\<close> draws the conclusions.
\<close>

section \<open>Calls in flight\<close>

text \<open>
  The flag of a thread says whether it resumes a held call; \<open>Returning\<close> is the end of \<open>Resume\<close>, with
  whether execution failed.
\<close>

datatype thread =
  Prepared prepared
| Executing pending_call response bool
| Called pending_call response bool outcome
| Sealed pending_call response bool sealed
| Recorded pending_call bool "string list"
| Returning int bool

text \<open>\<open>sy_calls\<close> records every call to a tool server, with the number of receipts in the log when it was made.\<close>

record 'v system =
  sy_gw :: "'v gateway"
  sy_threads :: "thread list"
  sy_calls :: "(int \<times> upstream_call) list"

definition seq_of :: "pending_call \<Rightarrow> int" where
  "seq_of p = r_seq (pc_decision p)"

definition after_error :: "pending_call \<Rightarrow> bool \<Rightarrow> thread list" where
  "after_error p resumed = (if resumed then [Returning (seq_of p) True] else [])"

definition log_after :: "store \<Rightarrow> store \<Rightarrow> entry list \<Rightarrow> receipt \<Rightarrow> entry list" where
  "log_after s s' es r = (if length (db_receipts (s_db s')) = length (db_receipts (s_db s)) then es
     else es @ [store_entry s (row_line (last (db_receipts (s_db s')))) r])"

definition stamped :: "receipt \<Rightarrow> time \<Rightarrow> receipt" where
  "stamped r now = r\<lparr>r_ts := format_ts now\<rparr>"

inductive gateway_step ::
  "('p, 'v) gateway_config \<Rightarrow> 'v system \<times> entry list \<Rightarrow> 'v system \<times> entry list \<Rightarrow> bool" for cfg where
  call_opened: "Call_open cfg (sy_gw y) ce cred server toolName args = (g, x) \<Longrightarrow>
    gateway_step cfg (y, es) (y\<lparr>sy_gw := g, sy_threads := (case x of Inl _ \<Rightarrow> [] | Inr pr \<Rightarrow> [Prepared pr]) @ sy_threads y\<rparr>, es)"
| call_recorded: "sy_threads y = ts @ Prepared pr # us \<Longrightarrow> Call_record cfg (sy_gw y) pr now ok = (g, x) \<Longrightarrow>
    gateway_step cfg (y, es)
      (y\<lparr>sy_gw := g, sy_threads := (case x of Inr (resp, Some p) \<Rightarrow> [Executing p resp False] | _ \<Rightarrow> []) @ ts @ us\<rparr>,
       log_after (gw_store (sy_gw y)) (gw_store g) es (stamped (pr_receipt pr) now))"
| tool_called: "sy_threads y = ts @ Executing p resp b # us \<Longrightarrow> exec_tool cfg p ee = (ucs, out) \<Longrightarrow>
    gateway_step cfg (y, es)
      (y\<lparr>sy_threads := [Called p resp b out] @ ts @ us,
         sy_calls := sy_calls y @ map (Pair (store_Next (gw_store (sy_gw y)))) ucs\<rparr>, es)"
| result_sealed: "sy_threads y = ts @ Called p resp b out # us \<Longrightarrow> exec_seal cfg (sy_gw y) p resp out ee = (g, x) \<Longrightarrow>
    gateway_step cfg (y, es)
      (y\<lparr>sy_gw := g, sy_threads := (case x of Inl _ \<Rightarrow> after_error p b | Inr (resp', se) \<Rightarrow> [Sealed p resp' b se]) @ ts @ us\<rparr>, es)"
| result_recorded: "sy_threads y = ts @ Sealed p resp b se # us \<Longrightarrow> exec_record cfg (sy_gw y) p resp se now ok = (g, x) \<Longrightarrow>
    gateway_step cfg (y, es)
      (y\<lparr>sy_gw := g, sy_threads := (case x of Inl _ \<Rightarrow> after_error p b | Inr _ \<Rightarrow> [Recorded p b (se_labels se)]) @ ts @ us\<rparr>,
       log_after (gw_store (sy_gw y)) (gw_store g) es (stamped (result_receipt p se) now))"
| taint_added: "sy_threads y = ts @ Recorded p b labels # us \<Longrightarrow>
    gateway_step cfg (y, es)
      (y\<lparr>sy_gw := addTaint (sy_gw y) (r_task_id (pc_decision p)) labels,
         sy_threads := (if b then [Returning (seq_of p) False] else []) @ ts @ us\<rparr>, es)"
| resume_ended: "sy_threads y = ts @ Returning s failed # us \<Longrightarrow>
    gateway_step cfg (y, es) (y\<lparr>sy_gw := Resume_end (sy_gw y) s failed, sy_threads := ts @ us\<rparr>, es)"
| resume_begun: "Resume_begin cfg (sy_gw y) cred s now = (g, x) \<Longrightarrow>
    gateway_step cfg (y, es)
      (y\<lparr>sy_gw := g, sy_threads := (case x of Inl _ \<Rightarrow> [] | Inr (resp, p) \<Rightarrow> [Executing p resp True]) @ sy_threads y\<rparr>, es)"
| approved: "Approve_check cfg (sy_gw y) line now = Inr (s, acc) \<Longrightarrow> Approve_record cfg (sy_gw y) s acc ok1 ok2 = (g, x) \<Longrightarrow>
    gateway_step cfg (y, es) (y\<lparr>sy_gw := g\<rparr>, log_after (gw_store (sy_gw y)) (gw_store g) es (ac_Receipt acc))"
| rotated: "store_Rotate (cf_C cfg) (gw_store (sy_gw y)) r next ok = (s', x) \<Longrightarrow>
    pred_option (\<lambda>rot. utf8_valid (rot_to rot)) (r_rotation r) \<Longrightarrow>
    gateway_step cfg (y, es) (y\<lparr>sy_gw := (sy_gw y)\<lparr>gw_store := s'\<rparr>\<rparr>, log_after (gw_store (sy_gw y)) s' es r)"
| restarted: "s = gw_store (sy_gw y) \<Longrightarrow>
    store_Open (cf_C cfg) path (s_db s) (s_key s) (s_kid s) (s_chainID s) ok = (db, Inr s') \<Longrightarrow>
    gateway_step cfg (y, es) (\<lparr>sy_gw = fresh_gateway s', sy_threads = [], sy_calls = sy_calls y\<rparr>, es)"

text \<open>
  A gateway starts on a log that verifies, which may be empty.  \<open>good\<close> is what is assumed of every
  receipt that is written, for instance that a trusted key signs it; the safety properties assume nothing.
\<close>

inductive gateway_run ::
  "('p, 'v) gateway_config \<Rightarrow> 'k keys \<Rightarrow> 'k \<Rightarrow> (store \<Rightarrow> entry list \<Rightarrow> entry \<Rightarrow> bool) \<Rightarrow> 'v system \<Rightarrow> entry list \<Rightarrow> bool"
  for cfg K ks good where
  started: "store_holds (cf_C cfg) es s \<Longrightarrow> log_ok (cf_C cfg) K ks (s_chainID s) [] es \<Longrightarrow>
    list_all plain_line (map e_line es) \<Longrightarrow> utf8_valid (s_chainID s) \<Longrightarrow>
    gateway_run cfg K ks good \<lparr>sy_gw = fresh_gateway s, sy_threads = [], sy_calls = []\<rparr> es"
| stepped: "gateway_run cfg K ks good y es \<Longrightarrow> gateway_step cfg (y, es) (y', es') \<Longrightarrow>
    (\<And>e. es' = es @ [e] \<Longrightarrow> good (gw_store (sy_gw y)) es e) \<Longrightarrow> gateway_run cfg K ks good y' es'"

section \<open>The receipt log as the gateway uses it\<close>

text \<open>
  What the gateway relies on: an append that fails changes nothing, one that succeeds adds one valid
  receipt under the next sequence number.  The interface is interpreted on the store.
\<close>

locale receipt_log =
  fixes append :: "'s \<Rightarrow> receipt \<Rightarrow> bool \<Rightarrow> 's \<times> ('e + appended)"
    and holds :: "entry list \<Rightarrow> 's \<Rightarrow> bool"
    and entry_of :: "'s \<Rightarrow> bytes \<Rightarrow> receipt \<Rightarrow> entry"
  assumes refused: "holds es s \<Longrightarrow> append s r ok = (s', Inl e) \<Longrightarrow> s' = s"
    and grown: "holds es s \<Longrightarrow> append s r ok = (s', Inr a) \<Longrightarrow> holds (es @ [entry_of s (ap_Line a) r]) s'"
    and next_seq: "holds es s \<Longrightarrow> append s r ok = (s', Inr a) \<Longrightarrow>
      ap_Seq a = int (length es) \<and> r_seq (e_rcpt (entry_of s (ap_Line a) r)) = int (length es)"
    and valid: "holds es s \<Longrightarrow> append s r ok = (s', Inr a) \<Longrightarrow> receipt_Validate (e_rcpt (entry_of s (ap_Line a) r)) = Inr ()"
begin

text \<open>The log after an append, whatever its outcome.\<close>

lemma append_holds:
  assumes "holds es s" "append s r ok = (s', x)"
  shows "holds (case x of Inl _ \<Rightarrow> es | Inr a \<Rightarrow> es @ [entry_of s (ap_Line a) r]) s'"
  using assms by (cases x) (auto dest: refused grown)

lemma append_twice:
  assumes "holds es s" "append s r ok = (s', Inr a)" "append s' r' ok' = (s'', Inr a')"
  shows "ap_Seq a' = ap_Seq a + 1"
  using next_seq [OF assms(1,2)] next_seq [OF grown [OF assms(1,2)] assms(3)] by simp

end

lemma store_Append_Inr:
  assumes "store_holds C es s" "store_Append C s r ok = (s', Inr a)"
  shows "ap_Seq a = int (length es) \<and> store_holds C (es @ [store_entry s (ap_Line a) r]) s' \<and>
    receipt_Validate (fill (s_app s) r) = Inr () \<and> r_seq (fill (s_app s) r) = int (length es) \<and>
    r_type r \<noteq> TypeKeyRotation \<and> s_chainID s' = s_chainID s \<and>
    db_receipts (s_db s') = rows_of C (es @ [store_entry s (ap_Line a) r]) \<and>
    (\<exists>sg a'. Append C (s_app s) r = (a', Inr (sg, ap_Line a)))"
proof -
  obtain sg line where w: "a = \<lparr>ap_Seq = int (length es), ap_Hash = digest_SHA256 (sha256 C) line, ap_Line = line, ap_Signed = sg\<rparr>"
    "r_type r \<noteq> TypeKeyRotation" "Append C (s_app s) r = (s_app s', Inr (sg, line))"
    "s' = s\<lparr>s_app := s_app s', s_db := (s_db s)\<lparr>db_receipts := rows_of C (es @ [store_entry s line r])\<rparr>\<rparr>"
    "store_holds C (es @ [store_entry s line r]) s'"
    using store_Append_cases [OF assms] by auto
  have "receipt_Validate (fill (s_app s) r) = Inr ()"
    using w(3) by (auto simp: Append_Inr receipt_Sign_def)
  moreover have "s_chainID s' = s_chainID s" by (subst w(4)) simp
  moreover have "db_receipts (s_db s') = rows_of C (es @ [store_entry s line r])" by (subst w(4)) simp
  moreover have "r_seq (fill (s_app s) r) = int (length es)"
    using assms(1) by (simp add: store_holds_def appender_at_def)
  ultimately show ?thesis using w(1,2,3,5) by auto
qed

lemma store_Append_Inl: "store_holds C es s \<Longrightarrow> store_Append C s r ok = (s', Inl e) \<Longrightarrow> s' = s"
  using store_Append_cases [of C es s r ok s' "Inl e"] by auto

interpretation store_log: receipt_log "store_Append C" "store_holds C" store_entry for C :: "'x crypto_scheme"
  by unfold_locales (auto dest: store_Append_Inl store_Append_Inr)

section \<open>What the phases do\<close>

text \<open>Statements and openings come and go without touching the log.\<close>

definition same_log :: "store \<Rightarrow> store \<Rightarrow> bool" where
  "same_log s s' \<longleftrightarrow> s_chainID s' = s_chainID s \<and> s_key s' = s_key s \<and> s_kid s' = s_kid s \<and> s_app s' = s_app s \<and>
     db_meta (s_db s') = db_meta (s_db s) \<and> db_receipts (s_db s') = db_receipts (s_db s)"

lemma same_log_refl [simp]: "same_log s s"
  by (simp add: same_log_def)

lemma same_log_holds: "same_log s s' \<Longrightarrow> store_holds C es s' \<longleftrightarrow> store_holds C es s"
  by (simp add: same_log_def store_holds_def)

lemma SaveOpening_same_log: "SaveOpening s c salt v ok = (s', x) \<Longrightarrow> same_log s s'"
  by (auto simp: SaveOpening_def same_log_def Let_def split: if_splits)

lemma SaveStatement_same_log: "SaveStatement C s l ok = (s', x) \<Longrightarrow> same_log s s'"
  by (auto simp: SaveStatement_def same_log_def Let_def split: if_splits sum.splits)

definition same_calls :: "'v gateway \<Rightarrow> 'v gateway \<Rightarrow> bool" where
  "same_calls g g' \<longleftrightarrow> gw_pending g' = gw_pending g \<and> gw_taint g' = gw_taint g \<and> same_log (gw_store g) (gw_store g')"

lemma same_calls_refl [simp]: "same_calls g g"
  by (simp add: same_calls_def)

lemma same_calls_trans: "same_calls g h \<Longrightarrow> same_calls h k \<Longrightarrow> same_calls g k"
  by (simp add: same_calls_def same_log_def)

lemma save_opening_same: "save_opening g c salt v ok = (g', x) \<Longrightarrow> same_calls g g'"
  by (auto simp: save_opening_def same_calls_def dest: SaveOpening_same_log split: prod.splits sum.splits)

lemma commitArgs_same: "commitArgs cfg g args salt ok = (g', x) \<Longrightarrow> same_calls g g'"
  by (auto simp: commitArgs_def dest: save_opening_same split: prod.splits sum.splits)

lemma checkArgs_same: "checkArgs L g dg schema args = (g', x) \<Longrightarrow> same_calls g g'"
  by (auto simp: checkArgs_def same_calls_def split: option.splits sum.splits)

text \<open>What a prepared call knows about itself.\<close>

text \<open>The call of a receipt: the tool, pinned with this manifest, and arguments committed to.\<close>

definition call_of :: "('p, 'v) gateway_config \<Rightarrow> string \<Rightarrow> string \<Rightarrow> bytes \<Rightarrow> receipt \<Rightarrow> bool" where
  "call_of cfg srv t args r \<longleftrightarrow> (\<exists>c. r_call r = Some c \<and> tool c = srv @ ''/'' @ t \<and>
     cf_Registry cfg (tool c) = Some (manifest c) \<and>
     (\<exists>b salt. marshal_raw args = Some b \<and> commit_Sum (cf_C cfg) salt b = Inr (args_commitment c)))"

definition prepared_ok :: "('p, 'v) gateway_config \<Rightarrow> prepared \<Rightarrow> bool" where
  "prepared_ok cfg pr \<longleftrightarrow> r_type (pr_receipt pr) = TypeDecision \<and> result_of (pr_receipt pr) = pd_Result (pr_decision pr) \<and>
     pd_Result (pr_decision pr) \<in> {Allow, RequireApproval, Deny} \<and>
     (pd_Result (pr_decision pr) \<noteq> Deny \<longrightarrow> call_of cfg (pr_server pr) (pr_tool pr) (pr_args pr) (pr_receipt pr))"

lemma Decide_result: "pd_Result (fst (Decide j cd e inp)) \<in> {Allow, RequireApproval, Deny}"
proof (cases "buildRequest j inp")
  case (Inl err)
  then show ?thesis by (simp add: Decide_def Let_def)
next
  case (Inr re)
  then show ?thesis by (cases re) (simp add: Decide_def Let_def errorDecision_def split: prod.split)
qed

lemma gate_decision_result:
  assumes "gate_decision cfg tc re ae srv t args taint = Inr dec"
  shows "pd_Result dec \<in> {Allow, RequireApproval, Deny} \<and> (pd_Result dec \<noteq> Deny \<longrightarrow> re = None \<and> ae = None)"
  using assms Decide_result by (auto simp: gate_decision_def Let_def split: if_splits option.splits)

lemma args_Validate_Nil [simp]: "args_Validate L v [] \<noteq> None"
  by (simp add: args_Validate_def decode_json_def skip_ws_def)

lemma commitArgs_canon:
  assumes "commitArgs cfg g args salt ok = (g', Inr (canon, c))" "canon \<noteq> []"
  shows "\<exists>b. marshal_raw canon = Some b \<and> commit_Sum (cf_C cfg) salt b = Inr c"
  using assms
  by (auto simp: commitArgs_def args_value_def Let_def split: prod.splits sum.splits if_splits)

lemma checkArgs_canon: "checkArgs L g dg schema args = (g', None) \<Longrightarrow> args \<noteq> []"
  by (auto simp: checkArgs_def split: option.splits sum.splits)

lemma Call_open_effect:
  assumes "Call_open cfg g ce cred srv t args = (g', x)"
  shows "same_calls g g' \<and> (\<forall>pr. x = Inr pr \<longrightarrow> prepared_ok cfg pr)"
proof -
  consider "g' = g" "\<exists>e. x = Inl e"
    | tk m dg re where "VerifyTask (cf_C cfg) (cf_X cfg) cred (cf_Roots cfg) (ce_Now ce) = Inr tk" "ce_Manifest ce = Some m"
      "m_Server m = srv" "m_Name m = t" "registry_Check (cf_C cfg) (cf_Registry cfg) m = (dg, re)" "dg \<noteq> []"
    using assms by (auto simp: Call_open_def split: sum.splits option.splits if_splits prod.splits)
  then show ?thesis
  proof cases
    case 2
    obtain g1 y where c: "commitArgs cfg g args (ce_Salt ce) (ce_OpeningOk ce) = (g1, y)" by fastforce
    show ?thesis
    proof (cases y)
      case (Inl e)
      then show ?thesis using assms 2 c commitArgs_same [OF c] by (auto simp: Call_open_def)
    next
      case (Inr cc)
      obtain canon com where cc: "cc = (canon, com)" by (cases cc)
      obtain g2 ae where k: "(if re = None then checkArgs (cf_Schemas cfg) g1 dg (m_InputSchema m) canon else (g1, None)) = (g2, ae)"
        by fastforce
      have s: "same_calls g g2"
        using same_calls_trans [OF commitArgs_same [OF c], of g2] k by (auto split: if_splits dest: checkArgs_same)
      let ?taint = "taintOf g2 (tc_Task (t_claims tk))"
      let ?pr = "\<lambda>dec. \<lparr>pr_receipt = decision_receipt (t_claims tk) \<lparr>tool = Manifest_ID m, manifest = dg, args_commitment = com\<rparr> dec ?taint,
              pr_decision = dec, pr_server = srv, pr_tool = t, pr_args = canon\<rparr>"
      have g': "g' = g2" "x = (case gate_decision cfg (t_claims tk) re ae srv t args ?taint of Inl e \<Rightarrow> Inl e | Inr dec \<Rightarrow> Inr (?pr dec))"
        using assms 2 c Inr cc k by (auto simp: Call_open_def Let_def split: sum.splits)
      have "prepared_ok cfg (?pr dec)" if d: "gate_decision cfg (t_claims tk) re ae srv t args ?taint = Inr dec" for dec
      proof -
        have "call_of cfg srv t canon (pr_receipt (?pr dec))" if nd: "pd_Result dec \<noteq> Deny"
        proof -
          have r: "re = None" "ae = None" using gate_decision_result [OF d] nd by auto
          have reg: "cf_Registry cfg (Manifest_ID m) = Some dg" using 2(5) r(1) by (simp add: registry_Check_None)
          have "canon \<noteq> []" using k r by (auto dest: checkArgs_canon)
          with commitArgs_canon [OF c [unfolded Inr cc]] have "\<exists>b salt. marshal_raw canon = Some b \<and> commit_Sum (cf_C cfg) salt b = Inr com" by blast
          with reg 2(3,4) show ?thesis by (auto simp: call_of_def decision_receipt_def Manifest_ID_def)
        qed
        with gate_decision_result [OF d] show ?thesis by (auto simp: prepared_ok_def decision_receipt_def result_of_def)
      qed
      then show ?thesis using g' s by (auto split: sum.splits)
    qed
  qed auto
qed

lemma exec_seal_effect:
  assumes "exec_seal cfg g p resp out ee = (g', x)" shows "same_calls g g'"
  using assms
  by (auto simp: exec_seal_def Let_def dest: save_opening_same split: outcome.splits prod.splits sum.splits)

section \<open>The invariant\<close>

definition log_valid :: "entry list \<Rightarrow> bool" where
  "log_valid es \<longleftrightarrow> (\<forall>i < length es. receipt_Validate (e_rcpt (es ! i)) = Inr () \<and> r_seq (e_rcpt (es ! i)) = int i)"

lemma log_valid_snoc:
  "log_valid (es @ [e]) \<longleftrightarrow> log_valid es \<and> receipt_Validate (e_rcpt e) = Inr () \<and> r_seq (e_rcpt e) = int (length es)"
  by (auto simp: log_valid_def nth_append less_Suc_eq)

lemma log_ok_valid: "log_ok C K ks chainID revs es \<Longrightarrow> log_valid es"
  using log_ok_Validate [of C K ks chainID revs es] log_ok_seq [of C K ks chainID revs es] by (simp add: log_valid_def)

lemma log_valid_next:
  assumes "log_valid es"
  shows "\<not> has_result es (int (length es))" "approval_of es (int (length es)) = None"
proof -
  have "\<not> result_for (int (length es)) e \<and> \<not> approval_for (int (length es)) e" if m: "e \<in> set es" for e
  proof -
    obtain i where i: "i < length es" "e = es ! i" using m by (auto simp: in_set_conv_nth)
    have "receipt_Validate (e_rcpt e) = Inr ()" "r_seq (e_rcpt e) = int i" using assms i by (auto simp: log_valid_def)
    with i Validate_refs(1,2) [of "e_rcpt e"] show ?thesis by (fastforce simp: result_for_def approval_for_def)
  qed
  then show "\<not> has_result es (int (length es))" "approval_of es (int (length es)) = None"
    by (auto simp: has_result_def list_ex_iff approval_of_None find_None_iff)
qed

text \<open>The decision of a call is in the log.\<close>

definition decided :: "('p, 'v) gateway_config \<Rightarrow> entry list \<Rightarrow> pending_call \<Rightarrow> bool" where
  "decided cfg es p \<longleftrightarrow> (\<exists>d. decision_at es (seq_of p) = Some d \<and> same_call d (pc_decision p) \<and>
     result_of d = result_of (pc_decision p)) \<and> call_of cfg (pc_server p) (pc_tool p) (pc_args p) (pc_decision p)"

definition may_run :: "entry list \<Rightarrow> pending_call \<Rightarrow> bool" where
  "may_run es p \<longleftrightarrow> result_of (pc_decision p) = Allow \<or> result_of (pc_decision p) = RequireApproval \<and>
     (\<exists>a. approval_of es (seq_of p) = Some a \<and> a_outcome a = Approved)"

type_synonym held_calls = "(int \<times> pending_call) list"

text \<open>A resumed call is held and marked running; a call that runs at once is not held.\<close>

definition held :: "held_calls \<Rightarrow> int \<Rightarrow> bool \<Rightarrow> bool" where
  "held P s resumed \<longleftrightarrow> (if resumed then map_option pc_running (map_of P s) = Some True else map_of P s = None)"

definition running_ok :: "('p, 'v) gateway_config \<Rightarrow> held_calls \<Rightarrow> entry list \<Rightarrow> pending_call \<Rightarrow> bool \<Rightarrow> bool" where
  "running_ok cfg P es p b \<longleftrightarrow> decided cfg es p \<and> may_run es p \<and> \<not> has_result es (seq_of p) \<and> held P (seq_of p) b"

fun owner :: "thread \<Rightarrow> int list" where
  "owner (Prepared pr) = []"
| "owner (Executing p r b) = [seq_of p]"
| "owner (Called p r b out) = [seq_of p]"
| "owner (Sealed p r b se) = [seq_of p]"
| "owner (Recorded p b ls) = [seq_of p]"
| "owner (Returning s failed) = [s]"

fun thread_ok :: "('p, 'v) gateway_config \<Rightarrow> held_calls \<Rightarrow> entry list \<Rightarrow> thread \<Rightarrow> bool" where
  "thread_ok cfg P es (Prepared pr) \<longleftrightarrow> prepared_ok cfg pr"
| "thread_ok cfg P es (Executing p r b) \<longleftrightarrow> running_ok cfg P es p b"
| "thread_ok cfg P es (Called p r b out) \<longleftrightarrow> running_ok cfg P es p b"
| "thread_ok cfg P es (Sealed p r b se) \<longleftrightarrow> running_ok cfg P es p b"
| "thread_ok cfg P es (Recorded p b ls) \<longleftrightarrow> held P (seq_of p) b \<and> decision_at es (seq_of p) \<noteq> None"
| "thread_ok cfg P es (Returning s failed) \<longleftrightarrow> held P s True \<and> (failed \<longrightarrow> \<not> has_result es s) \<and> decision_at es s \<noteq> None"

definition owners :: "thread list \<Rightarrow> int list" where
  "owners ts = concat (map owner ts)"

lemma owners_simps [simp]: "owners [] = []" "owners (t # ts) = owner t @ owners ts" "owners (ts @ us) = owners ts @ owners us"
  by (simp_all add: owners_def)

definition threads_ok :: "('p, 'v) gateway_config \<Rightarrow> held_calls \<Rightarrow> entry list \<Rightarrow> thread list \<Rightarrow> bool" where
  "threads_ok cfg P es ts \<longleftrightarrow> (\<forall>t \<in> set ts. thread_ok cfg P es t) \<and> distinct (owners ts)"

definition pending_ok :: "('p, 'v) gateway_config \<Rightarrow> entry list \<Rightarrow> int \<Rightarrow> pending_call \<Rightarrow> bool" where
  "pending_ok cfg es s p \<longleftrightarrow> seq_of p = s \<and> decided cfg es p \<and> result_of (pc_decision p) = RequireApproval \<and>
     approval_of es s = pc_approval p \<and> (\<not> pc_running p \<longrightarrow> \<not> has_result es s) \<and> (pc_running p \<longrightarrow> pc_approval p \<noteq> None)"

definition held_ok :: "('p, 'v) gateway_config \<Rightarrow> entry list \<Rightarrow> held_calls \<Rightarrow> bool" where
  "held_ok cfg es P \<longleftrightarrow> distinct (map fst P) \<and> (\<forall>s p. map_of P s = Some p \<longrightarrow> pending_ok cfg es s p)"

text \<open>A call to a tool server was covered by the log at the moment it was made.\<close>

definition covered :: "entry list \<Rightarrow> upstream_call \<Rightarrow> bool" where
  "covered es uc \<longleftrightarrow> (\<exists>d c. decision_at es (uc_Decision uc) = Some d \<and> r_call d = Some c \<and>
     tool c = uc_Server uc @ ''/'' @ uc_Tool uc \<and> manifest c = uc_Manifest uc \<and> \<not> has_result es (uc_Decision uc) \<and>
     (result_of d = Allow \<or> result_of d = RequireApproval \<and>
       (\<exists>a. approval_of es (uc_Decision uc) = Some a \<and> a_outcome a = Approved)))"

definition calls_ok :: "entry list \<Rightarrow> (int \<times> upstream_call) list \<Rightarrow> bool" where
  "calls_ok es ucs \<longleftrightarrow> (\<forall>(n, uc) \<in> set ucs. 0 \<le> n \<and> n \<le> int (length es) \<and> covered (take (nat n) es) uc)"

definition gw_inv :: "('p, 'v) gateway_config \<Rightarrow> 'v system \<Rightarrow> entry list \<Rightarrow> bool" where
  "gw_inv cfg y es \<longleftrightarrow> store_holds (cf_C cfg) es (gw_store (sy_gw y)) \<and> utf8_valid (s_chainID (gw_store (sy_gw y))) \<and>
     log_valid es \<and> held_ok cfg es (gw_pending (sy_gw y)) \<and>
     threads_ok cfg (gw_pending (sy_gw y)) es (sy_threads y) \<and> calls_ok es (sy_calls y)"

section \<open>How the log and the held calls may change under the others\<close>

definition later :: "entry list \<Rightarrow> entry list \<Rightarrow> bool" where
  "later es es' \<longleftrightarrow> length es \<le> length es' \<and> (\<forall>j d. decision_at es j = Some d \<longrightarrow> decision_at es' j = Some d) \<and>
     (\<forall>j a. approval_of es j = Some a \<longrightarrow> approval_of es' j = Some a)"

lemma later_refl [simp]: "later es es"
  by (simp add: later_def)

lemma decision_at_lt: "decision_at es j \<noteq> None \<Longrightarrow> 0 \<le> j \<and> j < int (length es)"
  by (auto simp: decision_at_def split: if_splits)

lemma later_snoc: "later es (es @ [e])"
  using decision_at_lt [of es] by (fastforce simp: later_def decision_at_snoc approval_of_snoc)

lemma decided_later: "later es es' \<Longrightarrow> decided cfg es p \<Longrightarrow> decided cfg es' p"
  unfolding later_def decided_def by blast

lemma may_run_later: "later es es' \<Longrightarrow> may_run es p \<Longrightarrow> may_run es' p"
  unfolding later_def may_run_def by blast

lemma thread_ok_later:
  assumes "thread_ok cfg P es t" "later es es'"
    and "\<And>s. s \<in> set (owner t) \<Longrightarrow> has_result es' s = has_result es s"
    and "\<And>s. s \<in> set (owner t) \<Longrightarrow> map_option pc_running (map_of P' s) = map_option pc_running (map_of P s)"
  shows "thread_ok cfg P' es' t"
proof -
  have h: "held P' s b = held P s b" if "s \<in> set (owner t)" for s b
    using assms(4) [OF that] by (cases "map_of P s") (auto simp: held_def)
  have d: "decision_at es' s \<noteq> None" if "decision_at es s \<noteq> None" for s
    using that assms(2) by (auto simp: later_def)
  have r: "running_ok cfg P' es' p b" if "running_ok cfg P es p b" "seq_of p \<in> set (owner t)" for p b
    using that h [OF that(2)] assms(3) [OF that(2)] decided_later [OF assms(2), of cfg p] may_run_later [OF assms(2), of p]
    by (simp add: running_ok_def)
  show ?thesis using assms(1) h assms(3) d r by (cases t) auto
qed

lemma threads_ok_later:
  assumes "threads_ok cfg P es ts" "later es es'"
    and "\<And>s. s \<in> set (owners ts) \<Longrightarrow> has_result es' s = has_result es s"
    and "\<And>s. s \<in> set (owners ts) \<Longrightarrow> map_option pc_running (map_of P' s) = map_option pc_running (map_of P s)"
  shows "threads_ok cfg P' es' ts"
proof -
  have "s \<in> set (owners ts)" if "t \<in> set ts" "s \<in> set (owner t)" for t s using that by (auto simp: owners_def)
  then show ?thesis using assms(1) thread_ok_later [OF _ assms(2), of cfg P _ P'] assms(3,4)
    by (simp add: threads_ok_def)
qed

text \<open>The thread that acts is taken out of the list and what becomes of it is put in front.\<close>

lemma threads_ok_pick:
  "threads_ok cfg P es (ts @ t # us) \<longleftrightarrow>
     thread_ok cfg P es t \<and> threads_ok cfg P es (ts @ us) \<and> distinct (owner t) \<and> set (owner t) \<inter> set (owners (ts @ us)) = {}"
  by (auto simp: threads_ok_def)

lemma threads_ok_Cons:
  "threads_ok cfg P es (t # ts) \<longleftrightarrow>
     thread_ok cfg P es t \<and> threads_ok cfg P es ts \<and> distinct (owner t) \<and> set (owner t) \<inter> set (owners ts) = {}"
  using threads_ok_pick [of cfg P es "[]" t ts] by simp

lemma pending_ok_later:
  "pending_ok cfg es s p \<Longrightarrow> later es es' \<Longrightarrow> has_result es' s = has_result es s \<Longrightarrow> approval_of es' s = approval_of es s \<Longrightarrow>
     pending_ok cfg es' s p"
  by (auto simp: pending_ok_def decided_later)

lemma held_okD: "held_ok cfg es P \<Longrightarrow> map_of P s = Some p \<Longrightarrow> pending_ok cfg es s p"
  by (simp only: held_ok_def)

lemma pending_ok_decided: "pending_ok cfg es s p \<Longrightarrow> decision_at es s \<noteq> None"
  by (auto simp: pending_ok_def decided_def)

lemma held_ok_later:
  assumes "held_ok cfg es P" "later es es'"
    and "\<And>s p. map_of P s = Some p \<Longrightarrow> has_result es' s = has_result es s \<and> approval_of es' s = approval_of es s"
  shows "held_ok cfg es' P"
  using assms(1,3) pending_ok_later [OF _ assms(2), of cfg] unfolding held_ok_def by blast

lemma calls_ok_snoc: "calls_ok es ucs \<Longrightarrow> calls_ok (es @ [e]) ucs"
  by (auto simp: calls_ok_def)

section \<open>One more receipt\<close>

lemma log_after_same: "db_receipts (s_db s') = db_receipts (s_db s) \<Longrightarrow> log_after s s' es r = es"
  by (simp add: log_after_def)

lemma log_after_Append:
  assumes "store_holds C es s" "store_Append C s r ok = (s', x)" "same_log s0 s"
  shows "log_after s0 s' es r = (case x of Inl _ \<Rightarrow> es | Inr a \<Rightarrow> es @ [store_entry s (ap_Line a) r])"
proof (cases x)
  case (Inl e)
  then show ?thesis using store_Append_Inl [OF assms(1)] assms(2,3) by (auto intro!: log_after_same simp: same_log_def)
next
  case (Inr a)
  have r: "db_receipts (s_db s') = rows_of C (es @ [store_entry s (ap_Line a) r])"
    using store_Append_Inr [OF assms(1)] assms(2) Inr by auto
  have "db_receipts (s_db s0) = rows_of C es" "s_app s0 = s_app s" "s_key s0 = s_key s"
    using assms(1,3) by (auto simp: store_holds_def same_log_def)
  then show ?thesis using r Inr by (simp add: log_after_def rows_of_snoc row_of_def store_entry_def new_entry_def)
qed

lemma snoc_neutral:
  assumes "r_type (e_rcpt e) \<noteq> TypeResult" "r_type (e_rcpt e) \<noteq> TypeApproval"
  shows "has_result (es @ [e]) j = has_result es j" "approval_of (es @ [e]) j = approval_of es j"
  using assms by (auto simp: has_result_snoc approval_of_snoc result_for_def approval_for_def split: option.split)

lemma snoc_result:
  assumes "r_type (e_rcpt e) = TypeResult" "r_result (e_rcpt e) = Some x"
  shows "has_result (es @ [e]) j \<longleftrightarrow> has_result es j \<or> j = res_decision_seq x" "approval_of (es @ [e]) j = approval_of es j"
  using assms by (auto simp: has_result_snoc approval_of_snoc result_for_def approval_for_def split: option.split)

lemma snoc_approval:
  assumes "r_type (e_rcpt e) = TypeApproval" "r_approval (e_rcpt e) = Some a"
  shows "has_result (es @ [e]) j = has_result es j"
    "approval_of (es @ [e]) j = (if j = a_decision_seq a \<and> approval_of es j = None then Some a else approval_of es j)"
  using assms by (auto simp: has_result_snoc approval_of_snoc result_for_def approval_for_def split: option.split)

text \<open>An append in a valid log: nothing, or one receipt that \<open>log_after\<close> sees.\<close>

lemma append_cases:
  assumes "store_holds C es s" "log_valid es" "same_log s0 s" "store_Append C s r ok = (s', x)"
  obtains (kept) e where "x = Inl e" "s' = s" "log_after s0 s' es r = es"
  | (grown) a e where "x = Inr a" "ap_Seq a = int (length es)" "log_after s0 s' es r = es @ [e]"
      "e = store_entry s (ap_Line a) r" "e_rcpt e = fill (s_app s) r" "store_holds C (es @ [e]) s'" "log_valid (es @ [e])"
      "s_chainID s' = s_chainID s" "r_type r \<noteq> TypeKeyRotation"
proof (cases x)
  case (Inl e)
  then show thesis using kept [of e] store_Append_Inl [OF assms(1)] assms(4) log_after_Append [OF assms(1,4,3)] by auto
next
  case (Inr a)
  note w = store_Append_Inr [OF assms(1) assms(4) [unfolded Inr]]
  have "log_valid (es @ [store_entry s (ap_Line a) r])" using w assms(2) by (simp add: log_valid_snoc)
  then show thesis using grown [of a "store_entry s (ap_Line a) r"] w Inr log_after_Append [OF assms(1,4,3)] by simp
qed

lemma appendReceipt_cases:
  assumes "store_holds C es (gw_store g)" "log_valid es" "appendReceipt C g r now ok = (g', x)"
  obtains (kept) e where "x = Inl e" "g' = g" "log_after (gw_store g) (gw_store g') es (stamped r now) = es"
  | (grown) a e where "x = Inr a" "ap_Seq a = int (length es)"
      "log_after (gw_store g) (gw_store g') es (stamped r now) = es @ [e]"
      "e = store_entry (gw_store g) (ap_Line a) (stamped r now)" "e_rcpt e = fill (s_app (gw_store g)) (stamped r now)"
      "store_holds C (es @ [e]) (gw_store g')" "log_valid (es @ [e])"
      "s_chainID (gw_store g') = s_chainID (gw_store g)" "gw_pending g' = gw_pending g" "gw_taint g' = gw_taint g"
proof -
  obtain s y where sy: "store_Append C (gw_store g) (stamped r now) ok = (s, y)" by fastforce
  have g': "g' = g\<lparr>gw_store := s\<rparr>" "x = (case y of Inl _ \<Rightarrow> Inl ReceiptFailed | Inr a \<Rightarrow> Inr a)"
    using assms(3) sy by (auto simp: appendReceipt_def stamped_def split: sum.splits)
  show thesis
  proof (rule append_cases [OF assms(1,2) same_log_refl sy])
    fix e assume "y = Inl e" "s = gw_store g" "log_after (gw_store g) s es (stamped r now) = es"
    then show thesis using kept g' by simp
  next
    fix a e assume "y = Inr a" "ap_Seq a = int (length es)" "log_after (gw_store g) s es (stamped r now) = es @ [e]"
      "e = store_entry (gw_store g) (ap_Line a) (stamped r now)" "e_rcpt e = fill (s_app (gw_store g)) (stamped r now)"
      "store_holds C (es @ [e]) s" "log_valid (es @ [e])" "s_chainID s = s_chainID (gw_store g)"
    then show thesis using grown [of a e] g' by simp
  qed
qed

lemma fill_stamped [simp]:
  "r_type (stamped r now) = r_type r" "r_ts (stamped r now) = format_ts now" "r_result (fill a (stamped r now)) = r_result r"
  "r_decision (fill a (stamped r now)) = r_decision r" "r_approval (fill a (stamped r now)) = r_approval r"
  "r_task_id (fill a (stamped r now)) = r_task_id r" "r_actor (fill a (stamped r now)) = r_actor r"
  "r_call (fill a (stamped r now)) = r_call r" "result_of (fill a (stamped r now)) = result_of r"
  by (simp_all add: fill_def stamped_def result_of_def)

lemma types_distinct [simp]:
  "TypeDecision \<noteq> TypeResult" "TypeDecision \<noteq> TypeApproval" "TypeResult \<noteq> TypeApproval" "TypeApproval \<noteq> TypeResult"
  "TypeKeyRotation \<noteq> TypeResult" "TypeKeyRotation \<noteq> TypeApproval" "TypeDecision \<noteq> TypeKeyRotation"
  by (simp_all add: receipt_consts)

section \<open>Every step keeps the invariant\<close>

lemma gw_inv_parts:
  assumes "gw_inv cfg y es"
  shows "store_holds (cf_C cfg) es (gw_store (sy_gw y))" "utf8_valid (s_chainID (gw_store (sy_gw y)))" "log_valid es"
    "held_ok cfg es (gw_pending (sy_gw y))" "threads_ok cfg (gw_pending (sy_gw y)) es (sy_threads y)" "calls_ok es (sy_calls y)"
  using assms by (simp_all add: gw_inv_def)

lemma same_calls_holds: "same_calls g g' \<Longrightarrow> store_holds C es (gw_store g) \<Longrightarrow> store_holds C es (gw_store g')"
  using same_log_holds [of "gw_store g" "gw_store g'" C es] by (simp add: same_calls_def)

lemma same_calls_parts: "same_calls g g' \<Longrightarrow> gw_pending g' = gw_pending g \<and> s_chainID (gw_store g') = s_chainID (gw_store g)"
  by (simp add: same_calls_def same_log_def)

lemma step_opened:
  assumes "gw_inv cfg y es" "Call_open cfg (sy_gw y) ce cred srv t args = (g, x)"
  shows "gw_inv cfg (y\<lparr>sy_gw := g, sy_threads := (case x of Inl _ \<Rightarrow> [] | Inr pr \<Rightarrow> [Prepared pr]) @ sy_threads y\<rparr>) es"
  using gw_inv_parts [OF assms(1)] Call_open_effect [OF assms(2)]
    same_calls_holds [of "sy_gw y" g] same_calls_parts [of "sy_gw y" g]
  by (auto simp: gw_inv_def threads_ok_Cons split: sum.split)

lemma step_sealed:
  assumes "gw_inv cfg y es" "sy_threads y = ts @ Called p resp b out # us" "exec_seal cfg (sy_gw y) p resp out ee = (g, x)"
  shows "gw_inv cfg (y\<lparr>sy_gw := g, sy_threads := (case x of Inl _ \<Rightarrow> after_error p b | Inr (resp', se) \<Rightarrow> [Sealed p resp' b se]) @ ts @ us\<rparr>) es"
proof -
  note i = gw_inv_parts [OF assms(1)]
  have t: "running_ok cfg (gw_pending (sy_gw y)) es p b" "threads_ok cfg (gw_pending (sy_gw y)) es (ts @ us)"
    "seq_of p \<notin> set (owners (ts @ us))"
    using i(5) by (auto simp: assms(2) threads_ok_pick)
  have "decision_at es (seq_of p) \<noteq> None" using t(1) by (auto simp: running_ok_def decided_def)
  with t i same_calls_holds [OF exec_seal_effect [OF assms(3)]] same_calls_parts [OF exec_seal_effect [OF assms(3)]] show ?thesis
    by (auto simp: gw_inv_def threads_ok_Cons after_error_def running_ok_def split: sum.split)
qed

lemma step_tool:
  assumes "gw_inv cfg y es" "sy_threads y = ts @ Executing p resp b # us" "exec_tool cfg p ee = (ucs, out)"
  shows "gw_inv cfg (y\<lparr>sy_threads := [Called p resp b out] @ ts @ us,
         sy_calls := sy_calls y @ map (Pair (store_Next (gw_store (sy_gw y)))) ucs\<rparr>) es"
proof -
  note i = gw_inv_parts [OF assms(1)]
  have t: "running_ok cfg (gw_pending (sy_gw y)) es p b" "threads_ok cfg (gw_pending (sy_gw y)) es (ts @ us)"
    "seq_of p \<notin> set (owners (ts @ us))"
    using i(5) by (auto simp: assms(2) threads_ok_pick)
  obtain d c where d: "decision_at es (seq_of p) = Some d" "same_call d (pc_decision p)" "result_of d = result_of (pc_decision p)"
    "r_call (pc_decision p) = Some c" "tool c = pc_server p @ ''/'' @ pc_tool p"
    using t(1) by (auto simp: running_ok_def decided_def call_of_def)
  have uc: "uc_Decision uc = seq_of p \<and> uc_Server uc = pc_server p \<and> uc_Tool uc = pc_tool p \<and>
      map_option manifest (r_call (pc_decision p)) = Some (uc_Manifest uc)" if "uc \<in> set ucs" for uc
    using assms(3) that by (auto simp: exec_tool_def seq_of_def Let_def split: sum.splits prod.splits if_splits)
  have "covered es uc" if "uc \<in> set ucs" for uc
    using uc [OF that] d t(1) by (auto simp: covered_def same_call_def running_ok_def may_run_def)
  moreover have "store_Next (gw_store (sy_gw y)) = int (length es)"
    using i(1) by (simp add: store_Next_def store_holds_def appender_at_def)
  ultimately have "calls_ok es (sy_calls y @ map (Pair (store_Next (gw_store (sy_gw y)))) ucs)"
    using i(6) by (auto simp: calls_ok_def)
  with i t show ?thesis by (simp add: gw_inv_def threads_ok_Cons)
qed

lemma step_recorded:
  assumes "gw_inv cfg y es" "sy_threads y = ts @ Prepared pr # us" "Call_record cfg (sy_gw y) pr now ok = (g, x)"
  shows "gw_inv cfg (y\<lparr>sy_gw := g, sy_threads := (case x of Inr (resp, Some p) \<Rightarrow> [Executing p resp False] | _ \<Rightarrow> []) @ ts @ us\<rparr>)
    (log_after (gw_store (sy_gw y)) (gw_store g) es (stamped (pr_receipt pr) now))"
proof -
  note i = gw_inv_parts [OF assms(1)]
  have t: "prepared_ok cfg pr" "threads_ok cfg (gw_pending (sy_gw y)) es (ts @ us)"
    using i(5) by (auto simp: assms(2) threads_ok_pick)
  obtain g1 z where ap: "appendReceipt (cf_C cfg) (sy_gw y) (pr_receipt pr) now ok = (g1, z)" by fastforce
  show ?thesis
  proof (rule appendReceipt_cases [OF i(1,3) ap])
    fix e assume "z = Inl e" "g1 = sy_gw y" "log_after (gw_store (sy_gw y)) (gw_store g1) es (stamped (pr_receipt pr) now) = es"
    then show ?thesis using ap assms(3) t i by (auto simp: Call_record_def gw_inv_def)
  next
    fix a e assume a: "z = Inr a" "ap_Seq a = int (length es)"
      "log_after (gw_store (sy_gw y)) (gw_store g1) es (stamped (pr_receipt pr) now) = es @ [e]"
      "e_rcpt e = fill (s_app (gw_store (sy_gw y))) (stamped (pr_receipt pr) now)"
      "store_holds (cf_C cfg) (es @ [e]) (gw_store g1)" "log_valid (es @ [e])"
      "s_chainID (gw_store g1) = s_chainID (gw_store (sy_gw y))" "gw_pending g1 = gw_pending (sy_gw y)"
    define n where "n = int (length es)"
    define p where "p = \<lparr>pc_decision = (pr_receipt pr)\<lparr>r_ts := format_ts now, r_chain_id := store_ChainID (gw_store g1), r_seq := ap_Seq a\<rparr>,
                pc_server = pr_server pr, pc_tool = pr_tool pr, pc_args = pr_args pr, pc_approval = None, pc_running = False\<rparr>"
    have ty: "r_type (e_rcpt e) = TypeDecision" using t(1) a(4) by (simp add: prepared_ok_def)
    note sn = snoc_neutral [of e es, unfolded ty, OF types_distinct(1,2)]
    have l: "later es (es @ [e])" by (rule later_snoc)
    have nx: "\<not> has_result es n" "approval_of es n = None" using log_valid_next [OF i(3)] by (simp_all add: n_def)
    have fresh: "map_of (gw_pending (sy_gw y)) n = None"
    proof (rule ccontr)
      assume "map_of (gw_pending (sy_gw y)) n \<noteq> None"
      then obtain q where "map_of (gw_pending (sy_gw y)) n = Some q" by blast
      then have "decision_at es n \<noteq> None" by (rule pending_ok_decided [OF held_okD [OF i(4)]])
      then show False using decision_at_lt [of es n] by (simp add: n_def)
    qed
    have own: "n \<notin> set (owners (ts @ us))"
    proof
      assume "n \<in> set (owners (ts @ us))"
      then obtain th where "th \<in> set (ts @ us)" "n \<in> set (owner th)" by (auto simp: owners_def)
      then have "thread_ok cfg (gw_pending (sy_gw y)) es th" "n \<in> set (owner th)" using t(2) by (auto simp: threads_ok_def)
      then have "decision_at es n \<noteq> None" by (cases th) (auto simp: running_ok_def decided_def)
      then show False using decision_at_lt [of es n] by (simp add: n_def)
    qed
    have th: "threads_ok cfg (gw_pending (sy_gw y)) (es @ [e]) (ts @ us)"
      by (rule threads_ok_later [OF t(2) l]) (simp_all add: sn)
    have hd: "held_ok cfg (es @ [e]) (gw_pending (sy_gw y))"
      by (rule held_ok_later [OF i(4) l]) (simp add: sn)
    have sp: "seq_of p = n" by (simp add: seq_of_def p_def a(2) n_def)
    have dc: "decided cfg (es @ [e]) p" if "pd_Result (pr_decision pr) \<noteq> Deny"
      using t(1) that a(4) ty sp
      by (auto simp: decided_def decision_at_snoc n_def same_call_def p_def prepared_ok_def call_of_def result_of_def)
    have rs: "result_of (pc_decision p) = pd_Result (pr_decision pr)" using t(1) by (simp add: p_def prepared_ok_def result_of_def)
    have base: "gw_inv cfg (y\<lparr>sy_gw := g1, sy_threads := ts @ us\<rparr>) (es @ [e])"
      using i a th hd by (simp add: gw_inv_def calls_ok_snoc)
    consider "pd_Result (pr_decision pr) = Deny" | "pd_Result (pr_decision pr) = RequireApproval" | "pd_Result (pr_decision pr) = Allow"
      using t(1) by (auto simp: prepared_ok_def)
    then show ?thesis
    proof cases
      case 1
      then have "g = g1" "\<exists>r. x = Inr (r, None)" using assms(3) ap a(1) by (auto simp: Call_record_def Let_def)
      with base a(3) show ?thesis by auto
    next
      case 2
      have "RequireApproval \<noteq> Deny" by (simp add: receipt_consts)
      with 2 have g: "g = g1\<lparr>gw_pending := AList.update n p (gw_pending (sy_gw y))\<rparr>" "\<exists>r. x = Inr (r, None)"
        using assms(3) ap a(1,2,8) by (auto simp: Call_record_def Let_def p_def n_def)
      have "pending_ok cfg (es @ [e]) n p"
        using dc rs 2 sp nx \<open>RequireApproval \<noteq> Deny\<close> by (simp add: pending_ok_def sn) (simp add: p_def)
      then have hd': "held_ok cfg (es @ [e]) (AList.update n p (gw_pending (sy_gw y)))"
        using hd by (auto simp: held_ok_def AList.update_conv' AList.distinct_update split: if_splits)
      have th': "threads_ok cfg (AList.update n p (gw_pending (sy_gw y))) (es @ [e]) (ts @ us)"
        by (rule threads_ok_later [OF th later_refl]) (use own in \<open>auto simp: AList.update_conv'\<close>)
      from base g hd' th' a(3) show ?thesis by (auto simp: gw_inv_def)
    next
      case 3
      have "Allow \<noteq> Deny" "Allow \<noteq> RequireApproval" by (simp_all add: receipt_consts)
      with 3 have g: "g = g1" "\<exists>r. x = Inr (r, Some p)"
        using assms(3) ap a(1,2) by (auto simp: Call_record_def Let_def p_def n_def)
      have "running_ok cfg (gw_pending (sy_gw y)) (es @ [e]) p False"
        using dc rs 3 sp nx fresh \<open>Allow \<noteq> Deny\<close> by (simp add: running_ok_def may_run_def held_def sn)
      with base g own sp a(3,8) show ?thesis by (auto simp: gw_inv_def threads_ok_Cons)
    qed
  qed
qed

lemma step_result:
  assumes "gw_inv cfg y es" "sy_threads y = ts @ Sealed p resp b se # us" "exec_record cfg (sy_gw y) p resp se now ok = (g, x)"
  shows "gw_inv cfg (y\<lparr>sy_gw := g, sy_threads := (case x of Inl _ \<Rightarrow> after_error p b | Inr _ \<Rightarrow> [Recorded p b (se_labels se)]) @ ts @ us\<rparr>)
    (log_after (gw_store (sy_gw y)) (gw_store g) es (stamped (result_receipt p se) now))"
proof -
  note i = gw_inv_parts [OF assms(1)]
  have t: "running_ok cfg (gw_pending (sy_gw y)) es p b" "threads_ok cfg (gw_pending (sy_gw y)) es (ts @ us)"
    "seq_of p \<notin> set (owners (ts @ us))"
    using i(5) by (auto simp: assms(2) threads_ok_pick)
  have dp: "decision_at es (seq_of p) \<noteq> None" using t(1) by (auto simp: running_ok_def decided_def)
  obtain g1 z where ap: "appendReceipt (cf_C cfg) (sy_gw y) (result_receipt p se) now ok = (g1, z)" by fastforce
  show ?thesis
  proof (rule appendReceipt_cases [OF i(1,3) ap])
    fix e assume "z = Inl e" "g1 = sy_gw y" "log_after (gw_store (sy_gw y)) (gw_store g1) es (stamped (result_receipt p se) now) = es"
    then show ?thesis using ap assms(3) t i dp
      by (auto simp: exec_record_def gw_inv_def threads_ok_Cons after_error_def running_ok_def)
  next
    fix a e assume a: "z = Inr a"
      "log_after (gw_store (sy_gw y)) (gw_store g1) es (stamped (result_receipt p se) now) = es @ [e]"
      "e_rcpt e = fill (s_app (gw_store (sy_gw y))) (stamped (result_receipt p se) now)"
      "store_holds (cf_C cfg) (es @ [e]) (gw_store g1)" "log_valid (es @ [e])"
      "s_chainID (gw_store g1) = s_chainID (gw_store (sy_gw y))" "gw_pending g1 = gw_pending (sy_gw y)"
    obtain rr where rr: "r_type (e_rcpt e) = TypeResult" "r_result (e_rcpt e) = Some rr" "res_decision_seq rr = seq_of p"
      using a(3) by (auto simp: result_receipt_def seq_of_def)
    note sn = snoc_result [OF rr(1,2), of es, unfolded rr(3)]
    have l: "later es (es @ [e])" by (rule later_snoc)
    have th: "threads_ok cfg (gw_pending (sy_gw y)) (es @ [e]) (ts @ us)"
      by (rule threads_ok_later [OF t(2) l]) (use t(3) in \<open>auto simp: sn\<close>)
    have "pending_ok cfg (es @ [e]) s q" if q: "map_of (gw_pending (sy_gw y)) s = Some q" for s q
    proof -
      have ok: "pending_ok cfg es s q" by (rule held_okD [OF i(4) q])
      have "pc_running q" if "s = seq_of p"
        using t(1) q that by (auto simp: running_ok_def held_def split: if_splits)
      then show ?thesis using ok decided_later [OF l, of cfg q] by (auto simp: pending_ok_def sn)
    qed
    then have hd: "held_ok cfg (es @ [e]) (gw_pending (sy_gw y))"
      using i(4) unfolding held_ok_def by blast
    have "decision_at (es @ [e]) (seq_of p) \<noteq> None" using l dp by (auto simp: later_def)
    moreover have "held (gw_pending (sy_gw y)) (seq_of p) b" using t(1) by (simp add: running_ok_def)
    moreover have "g = g1" "\<exists>r. x = Inr r" using assms(3) ap a(1) by (auto simp: exec_record_def)
    ultimately show ?thesis using i a th hd t(3) by (auto simp: gw_inv_def threads_ok_Cons calls_ok_snoc)
  qed
qed

lemma step_taint:
  assumes "gw_inv cfg y es" "sy_threads y = ts @ Recorded p b labels # us"
  shows "gw_inv cfg (y\<lparr>sy_gw := addTaint (sy_gw y) (r_task_id (pc_decision p)) labels,
         sy_threads := (if b then [Returning (seq_of p) False] else []) @ ts @ us\<rparr>) es"
  using gw_inv_parts [OF assms(1)] by (auto simp: assms(2) gw_inv_def threads_ok_pick threads_ok_Cons addTaint_def)

lemma step_ended:
  assumes "gw_inv cfg y es" "sy_threads y = ts @ Returning s failed # us"
  shows "gw_inv cfg (y\<lparr>sy_gw := Resume_end (sy_gw y) s failed, sy_threads := ts @ us\<rparr>) es"
proof -
  note i = gw_inv_parts [OF assms(1)]
  let ?P = "gw_pending (sy_gw y)"
  have t: "held ?P s True" "failed \<Longrightarrow> \<not> has_result es s" "threads_ok cfg ?P es (ts @ us)" "s \<notin> set (owners (ts @ us))"
    using i(5) by (auto simp: assms(2) threads_ok_pick)
  obtain p where p: "map_of ?P s = Some p" "pc_running p" using t(1) by (auto simp: held_def)
  have ok: "pending_ok cfg es s p" by (rule held_okD [OF i(4) p(1)])
  define P' where "P' = gw_pending (Resume_end (sy_gw y) s failed)"
  have m: "map_of P' = (map_of ?P)(s := (if failed then Some (p\<lparr>pc_running := False\<rparr>) else None))"
    using p(1) by (simp add: P'_def Resume_end_def AList.map_of_map_entry AList.delete_conv')
  have d: "distinct (map fst P')"
    using i(4) by (simp add: P'_def Resume_end_def held_ok_def AList.distinct_map_entry AList.distinct_delete)
  have "pending_ok cfg es s' q" if "map_of P' s' = Some q" for s' q
  proof (cases "s' = s")
    case True
    then have "failed" "q = p\<lparr>pc_running := False\<rparr>" using that m by (auto split: if_splits)
    then show ?thesis using ok True t(2) by (auto simp: pending_ok_def decided_def seq_of_def)
  next
    case False
    then show ?thesis using that m held_okD [OF i(4), of s' q] by simp
  qed
  then have hd: "held_ok cfg es P'" using d unfolding held_ok_def by blast
  have th: "threads_ok cfg P' es (ts @ us)"
  proof (rule threads_ok_later [OF t(3) later_refl])
    fix u assume "u \<in> set (owners (ts @ us))"
    then have "u \<noteq> s" using t(4) by blast
    then show "map_option pc_running (map_of P' u) = map_option pc_running (map_of ?P u)" by (simp add: m)
  qed simp
  have "gw_store (Resume_end (sy_gw y) s failed) = gw_store (sy_gw y)" by (simp add: Resume_end_def)
  with i hd th show ?thesis by (simp add: gw_inv_def P'_def)
qed

lemma Resume_begin_Inr:
  assumes "Resume_begin cfg g cred s now = (g', Inr (resp, p'))"
  shows "\<exists>p a. map_of (gw_pending g) s = Some p \<and> \<not> pc_running p \<and> p' = p\<lparr>pc_running := True\<rparr> \<and> pc_approval p = Some a \<and>
    a_outcome a = Approved \<and> format_ts now < a_expires_ts a \<and>
    g' = g\<lparr>gw_pending := AList.map_entry s (\<lambda>p. p\<lparr>pc_running := True\<rparr>) (gw_pending g)\<rparr>"
  using assms by (auto simp: Resume_begin_def Let_def not_le split: sum.splits option.splits if_splits)

lemma Resume_begin_Inl: "Resume_begin cfg g cred s now = (g', Inl e) \<Longrightarrow> g' = g"
  by (auto simp: Resume_begin_def Let_def split: sum.splits option.splits if_splits)

lemma step_resumed:
  assumes "gw_inv cfg y es" "Resume_begin cfg (sy_gw y) cred s now = (g, x)"
  shows "gw_inv cfg (y\<lparr>sy_gw := g, sy_threads := (case x of Inl _ \<Rightarrow> [] | Inr (resp, p) \<Rightarrow> [Executing p resp True]) @ sy_threads y\<rparr>) es"
proof (cases x)
  case (Inl e)
  then have "g = sy_gw y" using Resume_begin_Inl assms(2) by metis
  then show ?thesis using assms(1) Inl by (simp add: gw_inv_def)
next
  case (Inr rp)
  obtain resp p' where rp: "rp = (resp, p')" by (cases rp)
  note i = gw_inv_parts [OF assms(1)]
  let ?P = "gw_pending (sy_gw y)"
  obtain p a where p: "map_of ?P s = Some p" "\<not> pc_running p" "p' = p\<lparr>pc_running := True\<rparr>" "pc_approval p = Some a"
    "a_outcome a = Approved" "g = (sy_gw y)\<lparr>gw_pending := AList.map_entry s (\<lambda>p. p\<lparr>pc_running := True\<rparr>) ?P\<rparr>"
    using Resume_begin_Inr [OF assms(2) [unfolded Inr rp]] by blast
  have ok: "pending_ok cfg es s p" by (rule held_okD [OF i(4) p(1)])
  have sp: "seq_of p' = s" "decided cfg es p'" "result_of (pc_decision p') = RequireApproval" "approval_of es s = Some a"
    "\<not> has_result es s"
    using ok p(2-4) by (auto simp: pending_ok_def seq_of_def decided_def)
  define P' where "P' = AList.map_entry s (\<lambda>p. p\<lparr>pc_running := True\<rparr>) ?P"
  have m: "map_of P' = (map_of ?P)(s \<mapsto> p')" using p(1,3) by (simp add: P'_def AList.map_of_map_entry)
  have d: "distinct (map fst P')" using i(4) by (simp add: P'_def held_ok_def AList.distinct_map_entry)
  have own: "s \<notin> set (owners (sy_threads y))"
  proof
    assume "s \<in> set (owners (sy_threads y))"
    then obtain th where "th \<in> set (sy_threads y)" "s \<in> set (owner th)" by (auto simp: owners_def)
    then have "thread_ok cfg ?P es th" "s \<in> set (owner th)" using i(5) by (auto simp: threads_ok_def)
    then show False using p(1,2) by (cases th) (auto simp: running_ok_def held_def split: if_splits)
  qed
  have "pending_ok cfg es s' q" if "map_of P' s' = Some q" for s' q
  proof (cases "s' = s")
    case True
    then show ?thesis using that m ok p(3,4) by (auto simp: pending_ok_def decided_def seq_of_def)
  next
    case False
    then show ?thesis using that m held_okD [OF i(4), of s' q] by simp
  qed
  then have hd: "held_ok cfg es P'" using d unfolding held_ok_def by blast
  have th: "threads_ok cfg P' es (sy_threads y)"
    by (rule threads_ok_later [OF i(5) later_refl]) (use own in \<open>auto simp: m\<close>)
  have "running_ok cfg P' es p' True"
    using sp p(5) m p(3) by (auto simp: running_ok_def may_run_def held_def)
  with i hd th own sp(1) Inr rp p(6) show ?thesis by (simp add: gw_inv_def threads_ok_Cons P'_def)
qed

lemma Approve_check_Inr:
  assumes "Approve_check cfg g line now = Inr (s, acc)"
  shows "\<exists>sg p. map_of (gw_pending g) s = Some p \<and> pc_approval p = None \<and>
    Accept (cf_C cfg) sg (pc_decision p) (cf_Approvers cfg) now (cf_Limits cfg) = Inr acc"
  using assms by (auto simp: Approve_check_def split: option.splits if_splits)

text \<open>What \<open>Accept\<close> guarantees without any bound on the limits.\<close>

lemma Accept_receipt:
  assumes "Accept C sg d keys now lim = Inr acc"
  shows "\<exists>a st dg. r_actor d = Some a \<and> st_approver st \<noteq> principal a \<and> ac_Receipt acc = approval_receipt d st (format_ts now) dg"
  using assms by (auto simp: Accept_def Let_def split: if_splits option.splits) blast+

lemma approval_receipt_simps [simp]:
  "r_type (approval_receipt d st t dg) = TypeApproval" "r_task_id (approval_receipt d st t dg) = r_task_id d"
  "r_actor (approval_receipt d st t dg) = r_actor d" "r_call (approval_receipt d st t dg) = r_call d"
  "r_approval (approval_receipt d st t dg) = Some \<lparr>a_decision_seq = r_seq d, a_outcome = st_outcome st,
     a_approver = st_approver st, a_statement = dg, a_expires_ts = st_expires_ts st\<rparr>"
  by (simp_all add: approval_receipt_def)

lemma step_approved:
  assumes "gw_inv cfg y es" "Approve_check cfg (sy_gw y) line now = Inr (s, acc)"
    "Approve_record cfg (sy_gw y) s acc ok1 ok2 = (g, x)"
  shows "gw_inv cfg (y\<lparr>sy_gw := g\<rparr>) (log_after (gw_store (sy_gw y)) (gw_store g) es (ac_Receipt acc))"
proof -
  note i = gw_inv_parts [OF assms(1)]
  let ?P = "gw_pending (sy_gw y)" and ?s = "gw_store (sy_gw y)"
  obtain sg p where p: "map_of ?P s = Some p" "pc_approval p = None"
    "Accept (cf_C cfg) sg (pc_decision p) (cf_Approvers cfg) now (cf_Limits cfg) = Inr acc"
    using Approve_check_Inr [OF assms(2)] by blast
  obtain st dg where r: "ac_Receipt acc = approval_receipt (pc_decision p) st (format_ts now) dg"
    using Accept_receipt [OF p(3)] by blast
  have ok: "pending_ok cfg es s p" by (rule held_okD [OF i(4) p(1)])
  obtain s1 z where sv: "SaveStatement (cf_C cfg) ?s (ac_StatementLine acc) ok1 = (s1, z)" by fastforce
  have sl: "same_log ?s s1" by (rule SaveStatement_same_log [OF sv])
  then have h1: "store_holds (cf_C cfg) es s1" "s_chainID s1 = s_chainID ?s"
    using i(1) same_log_holds [OF sl, of "cf_C cfg" es] by (simp_all add: same_log_def)
  obtain s2 w where ap: "store_Append (cf_C cfg) s1 (ac_Receipt acc) ok2 = (s2, w)" by fastforce
  have unchanged: "gw_inv cfg (y\<lparr>sy_gw := (sy_gw y)\<lparr>gw_store := s1\<rparr>\<rparr>) (log_after ?s s1 es (ac_Receipt acc))"
    using i h1 sl by (simp add: gw_inv_def log_after_same same_log_def)
  show ?thesis
  proof (cases z)
    case (Inl e)
    then show ?thesis using assms(3) sv unchanged by (auto simp: Approve_record_def)
  next
    case (Inr d)
    show ?thesis
    proof (rule append_cases [OF h1(1) i(3) sl ap])
      fix e assume "w = Inl e" "s2 = s1" "log_after ?s s2 es (ac_Receipt acc) = es"
      then show ?thesis using assms(3) sv Inr ap unchanged by (auto simp: Approve_record_def)
    next
      fix a e assume a: "w = Inr a" "log_after ?s s2 es (ac_Receipt acc) = es @ [e]"
        "e_rcpt e = fill (s_app s1) (ac_Receipt acc)" "store_holds (cf_C cfg) (es @ [e]) s2" "log_valid (es @ [e])"
        "s_chainID s2 = s_chainID s1"
      define ap' where "ap' = \<lparr>a_decision_seq = r_seq (pc_decision p), a_outcome = st_outcome st,
        a_approver = st_approver st, a_statement = dg, a_expires_ts = st_expires_ts st\<rparr>"
      have ty: "r_type (e_rcpt e) = TypeApproval" "r_approval (e_rcpt e) = Some ap'" "a_decision_seq ap' = s"
        using a(3) r ok by (auto simp: ap'_def fill_def pending_ok_def seq_of_def)
      note sn = snoc_approval [OF ty(1,2), of es, unfolded ty(3)]
      have l: "later es (es @ [e])" by (rule later_snoc)
      define P' where "P' = AList.map_entry s (\<lambda>p. p\<lparr>pc_approval := r_approval (ac_Receipt acc)\<rparr>) ?P"
      have m: "map_of P' = (map_of ?P)(s \<mapsto> p\<lparr>pc_approval := Some ap'\<rparr>)"
        using p(1) r by (simp add: P'_def AList.map_of_map_entry ap'_def)
      have d: "distinct (map fst P')" using i(4) by (simp add: P'_def held_ok_def AList.distinct_map_entry)
      have "pending_ok cfg (es @ [e]) s' q" if q: "map_of P' s' = Some q" for s' q
      proof (cases "s' = s")
        case True
        then have "q = p\<lparr>pc_approval := Some ap'\<rparr>" using q m by simp
        then show ?thesis using True ok p(2) decided_later [OF l, of cfg p]
          by (auto simp: pending_ok_def sn decided_def seq_of_def)
      next
        case False
        then have "pending_ok cfg es s' q" using q m held_okD [OF i(4), of s' q] by simp
        then show ?thesis by (rule pending_ok_later [OF _ l]) (simp_all add: sn False)
      qed
      then have hd: "held_ok cfg (es @ [e]) P'" using d unfolding held_ok_def by blast
      have th: "threads_ok cfg P' (es @ [e]) (sy_threads y)"
        by (rule threads_ok_later [OF i(5) l]) (use p(1) in \<open>auto simp: m sn\<close>)
      have "g = (sy_gw y)\<lparr>gw_store := s2, gw_pending := P'\<rparr>"
        using assms(3) sv Inr ap a(1) by (auto simp: Approve_record_def P'_def)
      with i a h1 hd th show ?thesis by (simp add: gw_inv_def calls_ok_snoc)
    qed
  qed
qed

lemma step_rotated:
  assumes "gw_inv cfg y es" "store_Rotate (cf_C cfg) (gw_store (sy_gw y)) r next ok = (s', x)"
    "pred_option (\<lambda>rot. utf8_valid (rot_to rot)) (r_rotation r)" "jcs_ok (jcs (cf_C cfg))"
  shows "gw_inv cfg (y\<lparr>sy_gw := (sy_gw y)\<lparr>gw_store := s'\<rparr>\<rparr>) (log_after (gw_store (sy_gw y)) s' es r) \<and>
    (log_after (gw_store (sy_gw y)) s' es r = es \<and> s' = gw_store (sy_gw y) \<or>
     (\<exists>sg line a. Append (cf_C cfg) (s_app (gw_store (sy_gw y))) r = (a, Inr (sg, line)) \<and> r_type r = TypeKeyRotation \<and>
       log_after (gw_store (sy_gw y)) s' es r = es @ [store_entry (gw_store (sy_gw y)) line r]))"
proof -
  note i = gw_inv_parts [OF assms(1)]
  let ?s = "gw_store (sy_gw y)"
  consider "\<exists>e. x = Inl e" "s' = ?s"
    | sg line a where "Append (cf_C cfg) (s_app ?s) r = (a, Inr (sg, line))" "s_chainID s' = s_chainID ?s"
      "store_holds (cf_C cfg) (es @ [store_entry ?s line r]) s'" "r_rotation r \<noteq> None"
    using store_Rotate_cases [OF i(1) assms(2,4) i(2) assms(3)] by (fastforce simp: option.map_sel)
  then show ?thesis
  proof cases
    case 1
    then have "log_after ?s s' es r = es" by (simp add: log_after_same)
    with 1 assms(1) show ?thesis by simp
  next
    case 2
    let ?e = "store_entry ?s line r"
    have v: "receipt_Validate (e_rcpt ?e) = Inr ()" using 2(1) by (auto simp: Append_Inr receipt_Sign_def)
    have ro: "r_rotation (e_rcpt ?e) \<noteq> None" using 2(4) by (simp add: fill_def)
    then have ty: "r_type (e_rcpt ?e) = TypeKeyRotation" using Validate_refs(4) [OF v] by blast
    have sq: "r_seq (e_rcpt ?e) = int (length es)" using i(1) by (simp add: store_holds_def appender_at_def)
    note sn = snoc_neutral [of ?e es, unfolded ty, OF types_distinct(5,6)]
    have l: "later es (es @ [?e])" by (rule later_snoc)
    have lg: "log_after ?s s' es r = es @ [?e]"
      using i(1) 2(3) by (simp add: log_after_def store_holds_def rows_of_snoc row_of_def store_entry_def new_entry_def)
    have "threads_ok cfg (gw_pending (sy_gw y)) (es @ [?e]) (sy_threads y)"
      by (rule threads_ok_later [OF i(5) l]) (simp_all add: sn)
    moreover have "held_ok cfg (es @ [?e]) (gw_pending (sy_gw y))"
      by (rule held_ok_later [OF i(4) l]) (simp add: sn)
    ultimately have "gw_inv cfg (y\<lparr>sy_gw := (sy_gw y)\<lparr>gw_store := s'\<rparr>\<rparr>) (es @ [?e])"
      using i 2 v sq by (simp add: gw_inv_def log_valid_snoc calls_ok_snoc)
    moreover have "r_type r = TypeKeyRotation" using ty by simp
    ultimately show ?thesis using lg 2(1) by auto
  qed
qed

lemma step_restarted:
  assumes "gw_inv cfg y es" "s = gw_store (sy_gw y)"
    "store_Open (cf_C cfg) path (s_db s) (s_key s) (s_kid s) (s_chainID s) ok = (db, Inr s')"
  shows "s' = s \<and> gw_inv cfg \<lparr>sy_gw = fresh_gateway s', sy_threads = [], sy_calls = sy_calls y\<rparr> es"
  using gw_inv_parts [OF assms(1)] store_Open_again [OF _ assms(3), of es] assms(2)
  by (simp add: gw_inv_def fresh_gateway_def held_ok_def threads_ok_def)

lemma gateway_step_inv:
  assumes "gateway_step cfg (y, es) (y', es')" "gw_inv cfg y es" "jcs_ok (jcs (cf_C cfg))"
  shows "gw_inv cfg y' es'"
  using assms(1,2)
proof (cases rule: gateway_step.cases)
  case (call_opened ce cred server toolName args g x)
  show ?thesis unfolding call_opened(1,2) by (rule step_opened [OF assms(2) call_opened(3)])
next
  case (call_recorded ts pr us now ok g x)
  show ?thesis unfolding call_recorded(1,2) by (rule step_recorded [OF assms(2) call_recorded(3,4)])
next
  case (tool_called ts p resp b us ee ucs out)
  show ?thesis unfolding tool_called(1,2) by (rule step_tool [OF assms(2) tool_called(3,4)])
next
  case (result_sealed ts p resp b out us ee g x)
  show ?thesis unfolding result_sealed(1,2) by (rule step_sealed [OF assms(2) result_sealed(3,4)])
next
  case (result_recorded ts p resp b se us now ok g x)
  show ?thesis unfolding result_recorded(1,2) by (rule step_result [OF assms(2) result_recorded(3,4)])
next
  case (taint_added ts p b labels us)
  show ?thesis unfolding taint_added(1,2) by (rule step_taint [OF assms(2) taint_added(3)])
next
  case (resume_ended ts s failed us)
  show ?thesis unfolding resume_ended(1,2) by (rule step_ended [OF assms(2) resume_ended(3)])
next
  case (resume_begun cred s now g x)
  show ?thesis unfolding resume_begun(1,2) by (rule step_resumed [OF assms(2) resume_begun(3)])
next
  case (approved line now s acc ok1 ok2 g x)
  show ?thesis unfolding approved(1,2) by (rule step_approved [OF assms(2) approved(3,4)])
next
  case (rotated r nk ok s' x)
  show ?thesis unfolding rotated(1,2) by (rule conjunct1 [OF step_rotated [OF assms(2) rotated(3,4) assms(3)]])
next
  case (restarted s path ok db s')
  show ?thesis unfolding restarted(1,2) by (rule conjunct2 [OF step_restarted [OF assms(2) restarted(3,4)]])
qed

end
