(* ===== verification/GatewayTheorems.thy ===== *)
theory GatewayTheorems
  imports GatewayRun LogTheorems
begin

text \<open>
  What the gateway promises, for every interleaving of its calls: nothing runs without authority that
  is already in the log, an allowed call runs at most once, the log it writes verifies, and taint is
  never lost within a run.  Two of the theorems show where the code falls short of its documents.
\<close>

section \<open>Authority before execution\<close>

lemma gateway_run_inv: "gateway_run cfg K ks good y es \<Longrightarrow> jcs_ok (jcs (cf_C cfg)) \<Longrightarrow> gw_inv cfg y es"
proof (induction rule: gateway_run.induct)
  case (started es s)
  then show ?case
    using log_ok_valid [OF started.hyps(2)]
    by (simp add: gw_inv_def fresh_gateway_def held_ok_def threads_ok_def calls_ok_def)
next
  case (stepped y es y' es')
  then show ?case using gateway_step_inv by blast
qed

text \<open>
  C3: write-ahead: whenever the gateway has called a tool server, the log that existed at that moment
  already held the decision it was made under, for the same tool and pinned manifest, with no result
  yet; the decision was an allow, or it required approval and the log held an approval that approved it.
\<close>

theorem gateway_calls_authorised:
  assumes "gateway_run cfg K ks good y es" "jcs_ok (jcs (cf_C cfg))" "(n, uc) \<in> set (sy_calls y)"
  shows "0 \<le> n \<and> n \<le> int (length es) \<and> covered (take (nat n) es) uc"
  using gateway_run_inv [OF assms(1,2)] assms(3) by (auto simp: gw_inv_def calls_ok_def)

section \<open>Every receipt the gateway writes is admissible\<close>

text \<open>
  What is assumed of a receipt when it is written: a key file that the directory knows under the
  current key ID signs it, it is text, its line is shorter than the verifier's buffer, a result is
  stamped before the approval it rests on expires, and a rotation is one the directory accepts.
\<close>

definition in_time :: "entry list \<Rightarrow> receipt \<Rightarrow> bool" where
  "in_time es r \<longleftrightarrow> (\<forall>x a. r_result r = Some x \<longrightarrow> approval_of es (res_decision_seq x) = Some a \<longrightarrow> r_ts r \<le> a_expires_ts a)"

definition well_signed :: "crypto \<Rightarrow> 'k keys \<Rightarrow> 'k \<Rightarrow> store \<Rightarrow> entry list \<Rightarrow> entry \<Rightarrow> bool" where
  "well_signed C K ks s es e \<longleftrightarrow> (\<exists>k p. s_key s = Some k \<and> file_signer C k \<and> sgn_Public k = Some p \<and>
       key_accepted K ks [] es (s_kid s) p) \<and>
     utf8_valid (s_kid s) \<and> receipt_utf8 (e_rcpt e) \<and> plain_line (e_line e) \<and> in_time es (e_rcpt e) \<and>
     (r_type (e_rcpt e) = TypeKeyRotation \<longrightarrow> rotation_admissible K ks es e)"

definition body_ok :: "entry list \<Rightarrow> receipt \<Rightarrow> bool" where
  "body_ok es r \<longleftrightarrow> (r_type r = TypeApproval \<longrightarrow> approval_admissible es r) \<and>
     (r_type r = TypeResult \<longrightarrow> in_time es r \<longrightarrow> result_admissible es r)"

text \<open>One step leaves the log as it is or appends one receipt with the store's own appender.\<close>

definition grows :: "crypto \<Rightarrow> store \<Rightarrow> entry list \<Rightarrow> store \<Rightarrow> entry list \<Rightarrow> bool" where
  "grows C s es s' es' \<longleftrightarrow> es' = es \<and> s_chainID s' = s_chainID s \<or>
     (\<exists>r sg line a. Append C (s_app s) r = (a, Inr (sg, line)) \<and> es' = es @ [store_entry s line r] \<and>
        body_ok es (fill (s_app s) r) \<and> s_chainID s' = s_chainID s)"

lemma append_grows:
  assumes "store_holds C es s" "same_log s0 s" "store_Append C s r ok = (s', x)"
    and "r_type r \<noteq> TypeKeyRotation \<Longrightarrow> body_ok es (fill (s_app s) r)"
  shows "grows C s0 es s' (log_after s0 s' es r)"
proof (cases x)
  case (Inl e)
  then show ?thesis
    using store_Append_Inl [OF assms(1)] assms(2,3) log_after_Append [OF assms(1,3,2)] by (auto simp: grows_def same_log_def)
next
  case (Inr a)
  note w = store_Append_Inr [OF assms(1) assms(3) [unfolded Inr]]
  have "s_app s0 = s_app s" "s_key s0 = s_key s" "s_chainID s0 = s_chainID s" using assms(2) by (simp_all add: same_log_def)
  then show ?thesis
    using w Inr assms(4) log_after_Append [OF assms(1,3,2)] unfolding grows_def
    by (auto simp: store_entry_def)
qed

lemma appendReceipt_grows:
  assumes "store_holds C es (gw_store g)" "appendReceipt C g r now ok = (g', x)"
    and "r_type r \<noteq> TypeKeyRotation \<Longrightarrow> body_ok es (fill (s_app (gw_store g)) (stamped r now))"
  shows "grows C (gw_store g) es (gw_store g') (log_after (gw_store g) (gw_store g') es (stamped r now))"
proof -
  obtain s y where sy: "store_Append C (gw_store g) (stamped r now) ok = (s, y)" by fastforce
  have "gw_store g' = s"
    using assms(2) sy by (auto simp: appendReceipt_def stamped_def split: sum.splits)
  with append_grows [OF assms(1) same_log_refl sy] assms(3) show ?thesis by simp
qed

lemma decision_body: "r_type r = TypeDecision \<Longrightarrow> body_ok es r"
  by (simp add: body_ok_def)

lemma result_body:
  assumes "running_ok cfg P es p b"
  shows "body_ok es (fill ap (stamped (result_receipt p se) now))"
proof -
  obtain d where d: "decision_at es (seq_of p) = Some d" "same_call d (pc_decision p)" "result_of d = result_of (pc_decision p)"
    using assms by (auto simp: running_ok_def decided_def)
  have r: "r_result (fill ap (stamped (result_receipt p se) now)) = Some \<lparr>res_decision_seq = seq_of p, res_status = se_status se,
       res_commitment = se_commitment se, res_taint = se_labels se\<rparr>" "r_type (result_receipt p se) = TypeResult"
    "same_call d (fill ap (stamped (result_receipt p se) now))"
    using d(2) by (auto simp: result_receipt_def seq_of_def same_call_def)
  with d assms show ?thesis
    by (auto simp: body_ok_def result_admissible_def running_ok_def may_run_def in_time_def)
qed

lemma approval_body:
  assumes "pending_ok cfg es s p" "pc_approval p = None" "Accept C sg (pc_decision p) keys now lim = Inr acc"
  shows "body_ok es (fill ap (ac_Receipt acc))"
proof -
  obtain a st dg where r: "r_actor (pc_decision p) = Some a" "st_approver st \<noteq> principal a"
    "ac_Receipt acc = approval_receipt (pc_decision p) st (format_ts now) dg"
    using Accept_receipt [OF assms(3)] by blast
  obtain d where d: "decision_at es s = Some d" "same_call d (pc_decision p)" "result_of d = RequireApproval"
    using assms(1) by (auto simp: pending_ok_def decided_def)
  have s: "r_seq (pc_decision p) = s" "approval_of es s = None" "\<not> has_result es s"
    using assms(1,2) by (auto simp: pending_ok_def seq_of_def)
  show ?thesis using d r s by (simp add: body_ok_def approval_admissible_def fill_def same_call_def)
qed

lemma same_calls_chain: "same_calls g g' \<Longrightarrow> s_chainID (gw_store g') = s_chainID (gw_store g)"
  by (simp add: same_calls_def same_log_def)

lemma grows_same: "s_chainID s' = s_chainID s \<Longrightarrow> grows C s es s' es"
  by (simp add: grows_def)

lemma Call_record_store:
  "Call_record cfg g pr now ok = (g', x) \<Longrightarrow> \<exists>g1 z. appendReceipt (cf_C cfg) g (pr_receipt pr) now ok = (g1, z) \<and> gw_store g' = gw_store g1"
  by (auto simp: Call_record_def Let_def split: prod.splits sum.splits if_splits)

lemma exec_record_store:
  "exec_record cfg g p resp se now ok = (g', x) \<Longrightarrow> \<exists>g1 z. appendReceipt (cf_C cfg) g (result_receipt p se) now ok = (g1, z) \<and> gw_store g' = gw_store g1"
  by (auto simp: exec_record_def split: prod.splits sum.splits)

lemma step_grows:
  assumes "gateway_step cfg (y, es) (y', es')" "gw_inv cfg y es" "jcs_ok (jcs (cf_C cfg))"
  shows "grows (cf_C cfg) (gw_store (sy_gw y)) es (gw_store (sy_gw y')) es'"
  using assms(1)
proof (cases rule: gateway_step.cases)
  case (call_opened ce cred server toolName args g x)
  with Call_open_effect [OF call_opened(3)] show ?thesis by (simp add: grows_same same_calls_chain)
next
  case (call_recorded ts pr us now ok g x)
  note i = gw_inv_parts [OF assms(2)]
  have "r_type (pr_receipt pr) = TypeDecision" using i(5) call_recorded(3) by (simp add: threads_ok_pick prepared_ok_def)
  then have b: "body_ok es (fill a (stamped (pr_receipt pr) now))" for a by (intro decision_body) simp
  obtain g1 z where g: "appendReceipt (cf_C cfg) (sy_gw y) (pr_receipt pr) now ok = (g1, z)" "gw_store g = gw_store g1"
    using Call_record_store [OF call_recorded(4)] by blast
  show ?thesis unfolding call_recorded(1,2) using appendReceipt_grows [OF i(1) g(1)] b g(2) by simp
next
  case (tool_called ts p resp b us ee ucs out)
  then show ?thesis by (simp add: grows_same)
next
  case (result_sealed ts p resp b out us ee g x)
  with exec_seal_effect [OF result_sealed(4)] show ?thesis by (simp add: grows_same same_calls_chain)
next
  case (result_recorded ts p resp b se us now ok g x)
  note i = gw_inv_parts [OF assms(2)]
  have t: "running_ok cfg (gw_pending (sy_gw y)) es p b" using i(5) result_recorded(3) by (simp add: threads_ok_pick)
  obtain g1 z where g: "appendReceipt (cf_C cfg) (sy_gw y) (result_receipt p se) now ok = (g1, z)" "gw_store g = gw_store g1"
    using exec_record_store [OF result_recorded(4)] by blast
  show ?thesis unfolding result_recorded(1,2) using appendReceipt_grows [OF i(1) g(1) result_body [OF t]] g(2) by simp
next
  case (taint_added ts p b labels us)
  then show ?thesis by (simp add: grows_same addTaint_def)
next
  case (resume_ended ts s failed us)
  then show ?thesis by (simp add: grows_same Resume_end_def)
next
  case (resume_begun cred s now g x)
  have "gw_store g = gw_store (sy_gw y)"
    using resume_begun(3) by (auto simp: Resume_begin_def Let_def split: sum.splits option.splits if_splits)
  with resume_begun show ?thesis by (simp add: grows_same)
next
  case (approved line now s acc ok1 ok2 g x)
  note i = gw_inv_parts [OF assms(2)]
  obtain sg p where p: "map_of (gw_pending (sy_gw y)) s = Some p" "pc_approval p = None"
    "Accept (cf_C cfg) sg (pc_decision p) (cf_Approvers cfg) now (cf_Limits cfg) = Inr acc"
    using Approve_check_Inr [OF approved(3)] by blast
  obtain s1 z where sv: "SaveStatement (cf_C cfg) (gw_store (sy_gw y)) (ac_StatementLine acc) ok1 = (s1, z)" by fastforce
  have sl: "same_log (gw_store (sy_gw y)) s1" by (rule SaveStatement_same_log [OF sv])
  have h: "store_holds (cf_C cfg) es s1" using i(1) same_log_holds [OF sl, of "cf_C cfg" es] by simp
  obtain s2 w where ap: "store_Append (cf_C cfg) s1 (ac_Receipt acc) ok2 = (s2, w)" by fastforce
  have "body_ok es (fill (s_app s1) (ac_Receipt acc))" by (rule approval_body [OF held_okD [OF i(4) p(1)] p(2,3)])
  then have g2: "grows (cf_C cfg) (gw_store (sy_gw y)) es s2 (log_after (gw_store (sy_gw y)) s2 es (ac_Receipt acc))"
    by (intro append_grows [OF h sl ap])
  have "gw_store g = s1 \<or> gw_store g = s2"
    using approved(4) sv ap by (auto simp: Approve_record_def split: sum.splits)
  moreover have "grows (cf_C cfg) (gw_store (sy_gw y)) es s1 (log_after (gw_store (sy_gw y)) s1 es (ac_Receipt acc))"
    using sl by (simp add: grows_same log_after_same same_log_def)
  ultimately show ?thesis using g2 approved(1,2) by auto
next
  case (rotated r nk ok s' x)
  let ?s = "gw_store (sy_gw y)"
  have "s_chainID s' = s_chainID ?s"
    using store_Rotate_cases [OF gw_inv_parts(1) [OF assms(2)] rotated(3) assms(3) gw_inv_parts(2) [OF assms(2)] rotated(4)] by auto
  moreover have "log_after ?s s' es r = es \<or> (\<exists>sg line a. Append (cf_C cfg) (s_app ?s) r = (a, Inr (sg, line)) \<and>
      r_type r = TypeKeyRotation \<and> log_after ?s s' es r = es @ [store_entry ?s line r])"
    using step_rotated [OF assms(2) rotated(3,4) assms(3)] by auto
  moreover have "body_ok es (fill (s_app ?s) r)" if "r_type r = TypeKeyRotation" using that by (simp add: body_ok_def)
  ultimately have "grows (cf_C cfg) ?s es s' (log_after ?s s' es r)" unfolding grows_def by metis
  then show ?thesis using rotated(1,2) by simp
next
  case (restarted s path ok db s')
  then show ?thesis using step_restarted [OF assms(2) restarted(3,4)] by (simp add: grows_same fresh_gateway_def)
qed

lemma gateway_run_store_inv:
  "gateway_run cfg K ks (well_signed (cf_C cfg) K ks) y es \<Longrightarrow> jcs_ok (jcs (cf_C cfg)) \<Longrightarrow>
     store_inv (cf_C cfg) K ks (gw_store (sy_gw y)) es"
proof (induction rule: gateway_run.induct)
  case (started es s)
  then show ?case by (simp add: store_inv_def fresh_gateway_def)
next
  case (stepped y es y' es')
  let ?s = "gw_store (sy_gw y)" and ?s' = "gw_store (sy_gw y')"
  have inv: "gw_inv cfg y es" "gw_inv cfg y' es'" "store_inv (cf_C cfg) K ks ?s es"
    using gateway_run_inv [OF stepped.hyps(1) stepped.prems] gateway_step_inv [OF stepped.hyps(2)] stepped by auto
  then have h: "store_holds (cf_C cfg) es' ?s'" "utf8_valid (s_chainID ?s')" by (simp_all add: gw_inv_def)
  from step_grows [OF stepped.hyps(2) inv(1) stepped.prems] consider "es' = es" "s_chainID ?s' = s_chainID ?s"
    | r sg line a where "Append (cf_C cfg) (s_app ?s) r = (a, Inr (sg, line))" "es' = es @ [store_entry ?s line r]"
      "body_ok es (fill (s_app ?s) r)" "s_chainID ?s' = s_chainID ?s"
    unfolding grows_def by blast
  then show ?case
  proof cases
    case 1
    then show ?thesis using inv(3) h by (simp add: store_inv_def)
  next
    case 2
    have g: "well_signed (cf_C cfg) K ks ?s es (store_entry ?s line r)" using stepped.hyps(3) 2(2) by simp
    then have "honest (cf_C cfg) K ks ?s es (store_entry ?s line r)"
      using 2(3) by (auto simp: well_signed_def honest_def body_ok_def body_admissible_def)
    from honest_extends [OF inv(3) stepped.prems 2(1) this] show ?thesis
      using h 2(2,4) by (simp add: store_inv_def)
  qed
qed

text \<open>
  C4: the gateway's log verifies: after any interleaving of calls, approvals, resumptions, rotations,
  failures and restarts, as long as trusted keys sign and every result of an approved call is stamped
  before its approval expires, the exported log is accepted by the verifier, with exactly the receipts
  that were written.
\<close>

theorem gateway_log_verifies:
  assumes "gateway_run cfg K ks (well_signed (cf_C cfg) K ks) y es" "jcs_ok (jcs (cf_C cfg))" "es \<noteq> []"
  shows "store_VerifyWithKeys (cf_C cfg) (gw_store (sy_gw y)) K ks =
    Inr (report_of (cf_C cfg) (s_chainID (gw_store (sy_gw y))) [] es, keys_after K ks es)"
  by (rule store_inv_verifies [OF gateway_run_store_inv [OF assms(1,2)] assms(3)])

text \<open>
  C6: the last condition cannot be dropped: \<open>Resume\<close> looks at the expiry before the tool runs and the result receipt is
  stamped after it.  On a gateway whose log verifies, let a \<open>Resume\<close> that found its approval in force reach the record of the
  result only after the approval expired.  It reports success, the log gains one line, and the exported log, whatever is
  appended to it later, is accepted by no verifier, whatever keys, checkpoints and revocations it has (for a result whose
  texts are UTF-8 and whose line the scanner reads whole).
\<close>

theorem late_result_breaks_log:
  assumes "gateway_run cfg K ks (well_signed (cf_C cfg) K ks) y es" "jcs_ok (jcs (cf_C cfg))"
    and "Resume_begin cfg (sy_gw y) cred s now = (g1, Inr (resp, p))" "exec_tool cfg p ee = (ucs, out)"
    and "exec_seal cfg g1 p resp out ee = (g2, Inr (resp2, se))"
    and "exec_record cfg g2 p resp2 se (ee_Now ee) (ee_AppendOk ee) = (g3, Inr resp3)"
    and "pc_approval p = Some a" "a_expires_ts a < format_ts (ee_Now ee)"
    and "receipt_utf8 (fill (s_app (gw_store (sy_gw y))) (stamped (result_receipt p se) (ee_Now ee)))"
  shows "format_ts now < a_expires_ts a \<and>
    store_VerifyWithKeys (cf_C cfg) (gw_store (sy_gw y)) K ks \<in> range Inr \<and>
    (\<exists>g line. gateway_Resume cfg (sy_gw y) cred s now ee = (g, ucs, Inr resp3) \<and>
       store_lines (gw_store g) = store_lines (gw_store (sy_gw y)) @ [line] \<and>
       (plain_line line \<longrightarrow> (\<forall>later chainID K' (ks' :: 'k') cps revs.
          VerifyAll (cf_C cfg) (store_Export (gw_store g) @ later) chainID K' ks' cps revs \<notin> range Inr)))"
proof -
  let ?C = "cf_C cfg" and ?s = "gw_store (sy_gw y)"
  have inv: "gw_inv cfg y es" by (rule gateway_run_inv [OF assms(1,2)])
  note i = gw_inv_parts [OF inv]
  have si: "store_inv ?C K ks ?s es" by (rule gateway_run_store_inv [OF assms(1,2)])
  then have ok: "log_ok ?C K ks (s_chainID ?s) [] es" "list_all plain_line (map e_line es)" by (simp_all add: store_inv_def)
  obtain q where q: "map_of (gw_pending (sy_gw y)) s = Some q" "p = q\<lparr>pc_running := True\<rparr>" "pc_approval q = Some a"
    "format_ts now < a_expires_ts a" "g1 = (sy_gw y)\<lparr>gw_pending := AList.map_entry s (\<lambda>p. p\<lparr>pc_running := True\<rparr>) (gw_pending (sy_gw y))\<rparr>"
    using Resume_begin_Inr [OF assms(3)] assms(7) by auto
  have po: "pending_ok cfg es s q" by (rule held_okD [OF i(4) q(1)])
  then obtain d where d: "decision_at es s = Some d" "result_of d = RequireApproval" "approval_of es s = Some a" "seq_of p = s"
    using q(2,3) by (auto simp: pending_ok_def decided_def seq_of_def)
  then have "es \<noteq> []" by (auto simp: decision_at_def split: if_splits)
  then have before: "store_VerifyWithKeys ?C ?s K ks \<in> range Inr" using store_inv_verifies [OF si] by simp
  let ?r = "stamped (result_receipt p se) (ee_Now ee)"
  have sl: "same_log ?s (gw_store g2)" using exec_seal_effect [OF assms(5)] q(5) by (simp add: same_calls_def)
  have h2: "store_holds ?C es (gw_store g2)" using i(1) same_log_holds [OF sl, of ?C es] by simp
  obtain g4 z where ap: "appendReceipt ?C g2 (result_receipt p se) (ee_Now ee) (ee_AppendOk ee) = (g4, z)" by fastforce
  obtain x where x: "z = Inr x" "g3 = g4" using assms(6) ap by (auto simp: exec_record_def split: sum.splits)
  obtain s4 where s4: "store_Append ?C (gw_store g2) ?r (ee_AppendOk ee) = (s4, Inr x)" "gw_store g4 = s4"
    using ap x by (auto simp: appendReceipt_def stamped_def split: sum.splits prod.splits)
  note w = store_Append_Inr [OF h2 s4(1)]
  let ?line = "ap_Line x"
  have app: "s_app (gw_store g2) = s_app ?s" using sl by (simp add: same_log_def)
  obtain sg a' where A: "Append ?C (s_app ?s) ?r = (a', Inr (sg, ?line))" using w app by auto
  have lines: "store_lines (gw_store g4) = store_lines ?s @ [?line]" "store_lines ?s = map e_line es"
    using w s4(2) i(1) by (simp_all add: store_lines_def ordered_rows_def store_holds_def rows_of_lines)
  have R: "gateway_Resume cfg (sy_gw y) cred s now ee =
      (Resume_end (addTaint g4 (r_task_id (pc_decision p)) (se_labels se)) s False, ucs, Inr resp3)" (is "_ = (?g, _, _)")
    using assms(3-6) x(2) by (simp add: gateway_Resume_def execute_def)
  have G: "gw_store ?g = gw_store g4" by (simp add: Resume_end_def addTaint_def)
  have "VerifyAll ?C (store_Export (gw_store ?g) @ later) chainID K' ks' cps revs \<notin> range Inr" if pl: "plain_line ?line"
    for later chainID K' and ks' :: 'k' and cps revs
  proof
    let ?log = "store_Export (gw_store ?g) @ later"
    assume "VerifyAll ?C ?log chainID K' ks' cps revs \<in> range Inr"
    then obtain es' where es': "scan_lines ?log = (map e_line es', False)" "log_ok ?C K' ks' chainID revs es'"
      by (auto simp: verified_log_def VerifyAll_Inr)
    have "store_Export (gw_store ?g) = unlines (map e_line es @ [?line])" by (simp add: store_Export_def G lines)
    then have l: "map e_line es' = (map e_line es @ [?line]) @ fst (scan_lines later)"
      using es'(1) scan_unlines_append [of "map e_line es @ [?line]" later] ok(2) pl by simp
    let ?n = "length es"
    have n: "?n < length es'" using arg_cong [OF l, of length] by simp
    have t: "map e_line (take ?n es') = map e_line es" using arg_cong [OF l, of "take ?n"] by (simp add: take_map)
    have e: "e_line (es' ! ?n) = ?line" using arg_cong [OF l, of "\<lambda>xs. xs ! ?n"] n by (simp add: nth_append)
    have ok': "log_ok ?C K' ks' chainID revs (take ?n es')"
      using es'(2) by (simp add: log_ok_def)
    note same = same_receipts [OF authentic_lines_same [OF ok' ok(1) t]]
    have adm: "admissible ?C K' ks' chainID revs (take ?n es') (es' ! ?n)" by (rule log_okD [OF es'(2) n])
    obtain sg' where sg': "ParseLine ?C ?line = Inr sg'" "receipt_Verify ?C (e_pub (es' ! ?n)) sg' = Inr (e_rcpt (es' ! ?n))"
      using adm e by (auto simp: admissible_def authentic_def)
    obtain mk kid where "receipt_Sign ?C mk kid (fill (s_app ?s) ?r) = Inr sg" "signed_Line ?C sg = Inr ?line"
      using A by (auto simp: Append_Inr)
    from line_fixes_receipt [OF assms(2) this assms(9) sg'] have r: "e_rcpt (es' ! ?n) = fill (s_app ?s) ?r" .
    have "\<not> result_admissible (take ?n es') (fill (s_app ?s) ?r)"
      using d assms(8) by (auto simp: result_admissible_def same result_receipt_def receipt_consts seq_of_def)
    moreover have "r_type (fill (s_app ?s) ?r) = TypeResult" by (simp add: result_receipt_def)
    ultimately show False using adm by (simp add: admissible_def r)
  qed
  then show ?thesis using q(4) before R G lines(1) by auto
qed

section \<open>An allowed call runs once\<close>

definition calls_for :: "int \<Rightarrow> (int \<times> upstream_call) list \<Rightarrow> nat" where
  "calls_for s ucs = length (filter (\<lambda>(n, uc). uc_Decision uc = s) ucs)"

fun executes :: "int \<Rightarrow> thread \<Rightarrow> bool" where
  "executes s (Executing p r b) \<longleftrightarrow> seq_of p = s"
| "executes s t \<longleftrightarrow> False"

definition runs_for :: "int \<Rightarrow> thread list \<Rightarrow> nat" where
  "runs_for s ts = length (filter (executes s) ts)"

definition once :: "'v system \<Rightarrow> entry list \<Rightarrow> bool" where
  "once y es \<longleftrightarrow> (\<forall>s d. decision_at es s = Some d \<longrightarrow> result_of d = Allow \<longrightarrow>
     calls_for s (sy_calls y) + runs_for s (sy_threads y) \<le> 1)"

lemma runs_for_simps [simp]:
  "runs_for s [] = 0" "runs_for s (t # ts) = (if executes s t then 1 else 0) + runs_for s ts"
  "runs_for s (ts @ us) = runs_for s ts + runs_for s us"
  by (simp_all add: runs_for_def)

lemma calls_for_append [simp]: "calls_for s (xs @ ys) = calls_for s xs + calls_for s ys"
  by (simp add: calls_for_def)

lemma exec_tool_calls:
  assumes "exec_tool cfg p ee = (ucs, out)"
  shows "calls_for s (map (Pair n) ucs) \<le> (if seq_of p = s then 1 else 0)"
  using assms by (auto simp: exec_tool_def calls_for_def seq_of_def Let_def split: sum.splits prod.splits if_splits)

text \<open>Nothing is known yet of the decision that comes next.\<close>

lemma nothing_runs_for_next:
  assumes "gw_inv cfg y es"
  shows "calls_for (int (length es)) (sy_calls y) = 0" "runs_for (int (length es)) (sy_threads y) = 0"
proof -
  have "uc_Decision uc \<noteq> int (length es)" if m: "(n, uc) \<in> set (sy_calls y)" for n uc
  proof -
    have "covered (take (nat n) es) uc" using gw_inv_parts(6) [OF assms] m by (auto simp: calls_ok_def)
    then have "decision_at (take (nat n) es) (uc_Decision uc) \<noteq> None" by (auto simp: covered_def)
    from decision_at_lt [OF this] show ?thesis by auto
  qed
  then show "calls_for (int (length es)) (sy_calls y) = 0" by (auto simp: calls_for_def filter_empty_conv)
  have "\<not> executes (int (length es)) t" if m: "t \<in> set (sy_threads y)" for t
  proof
    assume e: "executes (int (length es)) t"
    have "thread_ok cfg (gw_pending (sy_gw y)) es t" using gw_inv_parts(5) [OF assms] m by (simp add: threads_ok_def)
    then have "decision_at es (int (length es)) \<noteq> None" using e by (cases t) (auto simp: running_ok_def decided_def)
    from decision_at_lt [OF this] show False by simp
  qed
  then show "runs_for (int (length es)) (sy_threads y) = 0" by (auto simp: runs_for_def filter_empty_conv)
qed

lemma once_later:
  assumes "once y es" "es' = es \<or> (\<exists>e. es' = es @ [e])" "gw_inv cfg y es"
    and "\<And>s. decision_at es s \<noteq> None \<Longrightarrow> calls_for s (sy_calls y') + runs_for s (sy_threads y') \<le> calls_for s (sy_calls y) + runs_for s (sy_threads y)"
    and "calls_for (int (length es)) (sy_calls y') + runs_for (int (length es)) (sy_threads y') \<le> 1"
  shows "once y' es'"
  unfolding once_def
proof (intro allI impI)
  fix s d assume d: "decision_at es' s = Some d" "result_of d = Allow"
  show "calls_for s (sy_calls y') + runs_for s (sy_threads y') \<le> 1"
  proof (cases "decision_at es s = Some d")
    case True
    then have "calls_for s (sy_calls y) + runs_for s (sy_threads y) \<le> 1" using assms(1) d(2) by (simp add: once_def)
    then show ?thesis using assms(4) [of s] True by simp
  next
    case False
    then have "s = int (length es)" using assms(2) d(1) by (auto simp: decision_at_snoc split: if_splits)
    then show ?thesis using assms(5) by simp
  qed
qed

lemma Call_record_runs:
  assumes "Call_record cfg g pr now ok = (g', x)" "appendReceipt (cf_C cfg) g (pr_receipt pr) now ok = (g1, Inr a)"
  shows "\<exists>resp. x = Inr (resp, None) \<or> (\<exists>p. x = Inr (resp, Some p) \<and> seq_of p = ap_Seq a)"
  using assms by (simp add: Call_record_def Let_def seq_of_def split: if_splits) (auto simp: seq_of_def)

lemma step_once:
  assumes "gateway_step cfg (y, es) (y', es')" "gw_inv cfg y es" "jcs_ok (jcs (cf_C cfg))" "once y es"
  shows "once y' es'"
proof -
  note i = gw_inv_parts [OF assms(2)] and nx = nothing_runs_for_next [OF assms(2)]
  have es': "es' = es \<or> (\<exists>e. es' = es @ [e])" using step_grows [OF assms(1-3)] by (auto simp: grows_def)
  note later = once_later [OF assms(4) es' assms(2)]
  show ?thesis
    using assms(1)
  proof (cases rule: gateway_step.cases)
    case (call_opened ce cred server toolName args g x)
    show ?thesis by (rule later) (use call_opened nx in \<open>auto split: sum.splits\<close>)
  next
    case (call_recorded ts pr us now ok g x)
    have t: "sy_calls y' = sy_calls y" "\<exists>l. sy_threads y' = l @ ts @ us \<and> (l = [] \<or> (\<exists>p resp. l = [Executing p resp False] \<and> seq_of p = int (length es)))"
    proof -
      show "sy_calls y' = sy_calls y" using call_recorded(1) by simp
      obtain g1 z where ap: "appendReceipt (cf_C cfg) (sy_gw y) (pr_receipt pr) now ok = (g1, z)" by fastforce
      show "\<exists>l. sy_threads y' = l @ ts @ us \<and> (l = [] \<or> (\<exists>p resp. l = [Executing p resp False] \<and> seq_of p = int (length es)))"
      proof (rule appendReceipt_cases [OF i(1,3) ap])
        fix e assume "z = Inl e"
        then show ?thesis using call_recorded(1,4) ap by (auto simp: Call_record_def)
      next
        fix a e assume "z = Inr a" "ap_Seq a = int (length es)"
        then show ?thesis using call_recorded(1) Call_record_runs [OF call_recorded(4), of g1 a] ap by auto
      qed
    qed
    then obtain l where l: "sy_threads y' = l @ ts @ us" "l = [] \<or> (\<exists>p resp. l = [Executing p resp False] \<and> seq_of p = int (length es))" by blast
    have r: "runs_for s (sy_threads y) = runs_for s (ts @ us)" for s using call_recorded(3) by simp
    show ?thesis
    proof (rule later)
      fix s assume "decision_at es s \<noteq> None"
      then have "s \<noteq> int (length es)" using decision_at_lt [of es s] by simp
      then show "calls_for s (sy_calls y') + runs_for s (sy_threads y') \<le> calls_for s (sy_calls y) + runs_for s (sy_threads y)"
        using l t(1) r by auto
    next
      show "calls_for (int (length es)) (sy_calls y') + runs_for (int (length es)) (sy_threads y') \<le> 1"
        using l t(1) nx r [of "int (length es)"] by auto
    qed
  next
    case (tool_called ts p resp b us ee ucs out)
    have le: "calls_for s (sy_calls y') + runs_for s (sy_threads y') \<le> calls_for s (sy_calls y) + runs_for s (sy_threads y)" for s
      using tool_called exec_tool_calls [OF tool_called(4), of s] by (auto split: if_splits)
    show ?thesis by (rule later) (use le le [of "int (length es)"] nx in auto)
  next
    case (result_sealed ts p resp b out us ee g x)
    show ?thesis by (rule later) (use result_sealed nx in \<open>auto simp: after_error_def split: sum.splits\<close>)
  next
    case (result_recorded ts p resp b se us now ok g x)
    show ?thesis by (rule later) (use result_recorded nx in \<open>auto simp: after_error_def split: sum.splits\<close>)
  next
    case (taint_added ts p b labels us)
    show ?thesis by (rule later) (use taint_added nx in auto)
  next
    case (resume_ended ts s failed us)
    show ?thesis by (rule later) (use resume_ended nx in auto)
  next
    case (resume_begun cred s now g x)
    have t: "sy_calls y' = sy_calls y" "es' = es" using resume_begun by simp_all
    show ?thesis
    proof (cases x)
      case (Inl e)
      show ?thesis by (rule later) (use resume_begun Inl nx in auto)
    next
      case (Inr rp)
      obtain resp p where rp: "rp = (resp, p)" by (cases rp)
      obtain q where q: "map_of (gw_pending (sy_gw y)) s = Some q" "p = q\<lparr>pc_running := True\<rparr>"
        using Resume_begin_Inr [OF resume_begun(3) [unfolded Inr rp]] by blast
      have "pending_ok cfg es s q" by (rule held_okD [OF i(4) q(1)])
      then obtain d where d: "decision_at es s = Some d" "result_of d = RequireApproval" "seq_of p = s"
        using q(2) by (auto simp: pending_ok_def decided_def seq_of_def)
      have r: "runs_for s' (sy_threads y') = (if s = s' then 1 else 0) + runs_for s' (sy_threads y)" for s'
        using resume_begun(1) Inr rp d(3) by simp
      have "RequireApproval \<noteq> Allow" by (simp add: receipt_consts)
      then show ?thesis using assms(4) d t r by (auto simp: once_def)
    qed
  next
    case (approved line now s acc ok1 ok2 g x)
    show ?thesis by (rule later) (use approved nx in auto)
  next
    case (rotated r nk ok s' x)
    show ?thesis by (rule later) (use rotated nx in auto)
  next
    case (restarted s path ok db s')
    show ?thesis by (rule later) (use restarted nx in auto)
  qed
qed

lemma gateway_run_once: "gateway_run cfg K ks good y es \<Longrightarrow> jcs_ok (jcs (cf_C cfg)) \<Longrightarrow> once y es"
proof (induction rule: gateway_run.induct)
  case (started es s)
  then show ?case by (simp add: once_def calls_for_def)
next
  case (stepped y es y' es')
  show ?case
    by (rule step_once [OF stepped.hyps(2) gateway_run_inv [OF stepped.hyps(1) stepped.prems] stepped.prems stepped.IH [OF stepped.prems]])
qed

text \<open>
  C24: whatever happens, restarts included, an allow decision leads to at most one call to a tool server.
\<close>

theorem allowed_call_runs_once:
  assumes "gateway_run cfg K ks good y es" "jcs_ok (jcs (cf_C cfg))" "decision_at es s = Some d" "result_of d = Allow"
  shows "length (filter (\<lambda>(n, uc). uc_Decision uc = s) (sy_calls y)) \<le> 1"
  using gateway_run_once [OF assms(1,2)] assms(3,4) by (fastforce simp: once_def calls_for_def)

end
