(* ===== verification/GatewayRules.thy ===== *)
theory GatewayRules
  imports GatewayRun
begin

text \<open>
  What single handlers of the gateway guarantee: the last look at a tool before it is called, what the
  agent may see of a credential, the list of calls that wait for a person, the cache of compiled schemas
  and the taint of a task.  One theorem shows a handler that does less than its documents promise.
\<close>

section \<open>The last look before a call\<close>

text \<open>
  A tool is called at most once per execution, and exactly when its credentials resolve and the manifest
  its server publishes at that moment is the one the registry pins and the decision names.
\<close>

theorem exec_tool_pinned:
  "length (fst (exec_tool cfg p ee)) \<le> 1 \<and>
   (uc \<in> set (fst (exec_tool cfg p ee)) \<longleftrightarrow>
     (\<exists>creds m d. broker_For ((cf_Broker cfg)\<lparr>br_sources := ee_Sources ee\<rparr>) (pc_server p) (pc_tool p) = Inr creds \<and>
        ee_Manifest ee = Some m \<and> Manifest_Digest (cf_C cfg) m = Inr d \<and> cf_Registry cfg (Manifest_ID m) = Some d \<and>
        map_option manifest (r_call (pc_decision p)) = Some d \<and>
        uc = \<lparr>uc_Server = pc_server p, uc_Tool = pc_tool p, uc_Args = pc_args p, uc_Creds = creds,
          uc_Decision = r_seq (pc_decision p), uc_Manifest = d\<rparr>))"
  by (auto simp: exec_tool_def Let_def registry_Check_def split: sum.split option.split)

section \<open>What the agent sees of a credential\<close>

lemma execute_Inr:
  assumes "execute cfg g p resp ee = (g', ucs, Inr resp')"
  shows "\<exists>out g1 resp1 se. exec_tool cfg p ee = (ucs, out) \<and> exec_seal cfg g p resp out ee = (g1, Inr (resp1, se)) \<and>
    rs_Result resp' = se_content se \<and> rs_Taint resp' = se_labels se \<and> rs_CredentialScrubbed resp' = rs_CredentialScrubbed resp1"
  using assms by (auto simp: execute_def exec_record_def split: prod.splits sum.splits)

lemma exec_tool_returned: "exec_tool cfg p ee = (ucs, Returned res creds) \<Longrightarrow> \<exists>uc. ucs = [uc] \<and> uc_Creds uc = creds"
  by (auto simp: exec_tool_def Let_def split: sum.splits option.splits prod.splits if_splits)

lemma exec_seal_content:
  assumes "exec_seal cfg g p resp out ee = (g1, Inr (resp1, se))"
  shows "case out of Failed d \<Rightarrow> se_content se = [] | Returned res creds \<Rightarrow> se_content se = fst (Scrub (tr_Content res) creds)"
  using assms by (auto simp: exec_seal_def Let_def split: outcome.splits prod.splits sum.splits)

text \<open>
  C27: Whatever a tool answers, the result that the agent receives holds no base64 form of a credential of at least eight bytes
  (\<open>minScrubLen\<close>) that was given to that tool, nor such a credential itself if it has no square bracket and is no part of the marker
  that replaces it; shorter credentials are not looked for in any form.
\<close>

theorem agent_sees_no_credential:
  assumes "execute cfg g p resp ee = (g', ucs, Inr resp')" "uc \<in> set ucs" "c \<in> set (uc_Creds uc)"
    "minScrubLen \<le> length (sec_v (cr_Value c))" "f \<in> set (scrub_forms (sec_v (cr_Value c)))"
    "f = sec_v (cr_Value c) \<longrightarrow> scrubbable f"
  shows "\<not> sublist f (rs_Result resp')"
proof -
  obtain out g1 resp1 se where e: "exec_tool cfg p ee = (ucs, out)" "exec_seal cfg g p resp out ee = (g1, Inr (resp1, se))"
    "rs_Result resp' = se_content se"
    using execute_Inr [OF assms(1)] by blast
  show ?thesis
  proof (cases out)
    case (Failed d)
    then show ?thesis using exec_seal_content [OF e(2)] e(3) scrub_forms_nonempty [OF assms(4,5)] by simp
  next
    case (Returned res creds)
    then have "c \<in> set creds" using exec_tool_returned [of cfg p ee ucs res creds] e(1) assms(2,3) by auto
    then have "\<not> sublist f (fst (Scrub (tr_Content res) creds))" using Scrub_creds [of f creds] assms(4-6)
        scrub_forms_scrubbable [of "sec_v (cr_Value c)" f]
      by (cases "f = sec_v (cr_Value c)") (auto simp: scrub_forms_def Scrub_def)
    then show ?thesis using exec_seal_content [OF e(2)] e(3) Returned by simp
  qed
qed

section \<open>A failed Resume\<close>

lemma execute_pending: "execute cfg g p resp ee = (g', ucs, x) \<Longrightarrow> gw_pending g' = gw_pending g"
  by (auto simp: execute_def exec_record_def appendReceipt_def addTaint_def same_calls_def
    dest!: exec_seal_effect split: prod.splits sum.splits)

lemma execute_ucs: "execute cfg g p resp ee = (g', ucs, x) \<Longrightarrow> ucs = fst (exec_tool cfg p ee)"
  by (auto simp: execute_def split: prod.splits sum.splits)

lemma map_entry_same: "map_of xs k = Some v \<Longrightarrow> f v = v \<Longrightarrow> distinct (map fst xs) \<Longrightarrow> AList.map_entry k f xs = xs"
  by (induction xs) (auto split: if_splits)

lemma map_entry_twice: "AList.map_entry k f (AList.map_entry k h xs) = AList.map_entry k (f \<circ> h) xs"
  by (induction xs) auto

lemma Resume_begin_pending:
  "gw_pending g' = gw_pending g \<Longrightarrow> Resume_begin cfg g cred s now = (h, Inr rp) \<Longrightarrow>
     \<exists>h'. Resume_begin cfg g' cred s now = (h', Inr rp)"
  by (auto simp: Resume_begin_def Let_def split: sum.splits option.splits if_splits)

text \<open>
  C26: An approval lets a call run once, says its documentation.  But when the tool has been called and only
  what follows fails (the opening or the result receipt cannot be written), \<open>Resume\<close> puts the call back
  as it was, approval included: the same \<open>Resume\<close> calls the tool again.
\<close>

theorem Resume_runs_again:
  assumes "gateway_Resume cfg g cred s now ee = (g', ucs, Inl e)" "ucs \<noteq> []" "distinct (map fst (gw_pending g))"
  shows "gw_pending g' = gw_pending g \<and> fst (snd (gateway_Resume cfg g' cred s now ee)) = ucs"
proof -
  obtain g1 resp p' g2 where b: "Resume_begin cfg g cred s now = (g1, Inr (resp, p'))"
    and x: "execute cfg g1 p' resp ee = (g2, ucs, Inl e)" and g': "g' = Resume_end g2 s True"
    using assms(1,2) by (auto simp: gateway_Resume_def split: prod.splits sum.splits)
  obtain p where p: "map_of (gw_pending g) s = Some p" "\<not> pc_running p"
    "gw_pending g1 = AList.map_entry s (\<lambda>p. p\<lparr>pc_running := True\<rparr>) (gw_pending g)"
    using Resume_begin_Inr [OF b] by auto
  have "gw_pending g' = AList.map_entry s ((\<lambda>p. p\<lparr>pc_running := False\<rparr>) \<circ> (\<lambda>p. p\<lparr>pc_running := True\<rparr>)) (gw_pending g)"
    by (simp add: g' Resume_end_def execute_pending [OF x] p(3) map_entry_twice)
  also have "\<dots> = gw_pending g"
    by (rule map_entry_same [OF p(1) _ assms(3)]) (use p(2) in simp)
  finally have P: "gw_pending g' = gw_pending g" .
  obtain h' where "Resume_begin cfg g' cred s now = (h', Inr (resp, p'))" using Resume_begin_pending [OF P b] by blast
  then have "fst (snd (gateway_Resume cfg g' cred s now ee)) = fst (exec_tool cfg p' ee)"
    by (auto simp: gateway_Resume_def dest: execute_ucs split: prod.splits)
  with P execute_ucs [OF x] show ?thesis by simp
qed

section \<open>The calls that wait for a person\<close>

lemma pending_show_decision: "pending_show C p = Inr v \<Longrightarrow> pv_Decision v = pc_decision p"
  by (auto simp: pending_show_def split: option.splits)

lemma esequence_map_set:
  "esequence (map f xs) = Inr vs \<Longrightarrow> v \<in> set vs \<longleftrightarrow> (\<exists>x \<in> set xs. f x = Inr v)"
  by (induction xs arbitrary: vs) auto

lemma esequence_map_proj:
  "esequence (map f xs) = Inr vs \<Longrightarrow> (\<And>x v. x \<in> set xs \<Longrightarrow> f x = Inr v \<Longrightarrow> g v = h x) \<Longrightarrow> map g vs = map h xs"
  by (induction xs arbitrary: vs) auto

lemma distinct_filter_fst: "distinct (map fst xs) \<Longrightarrow> distinct (map fst (filter P xs))"
  by (rule distinct_map_filter)

text \<open>
  \<open>ListPending\<close> shows every held call that is not being resumed, each once, in the order of the log.
\<close>

theorem ListPending_complete:
  assumes "held_ok cfg es (gw_pending g)" "ListPending C g = Inr vs"
  shows "sorted_wrt (<) (map (\<lambda>v. r_seq (pv_Decision v)) vs) \<and>
    (v \<in> set vs \<longleftrightarrow> (\<exists>s p. map_of (gw_pending g) s = Some p \<and> \<not> pc_running p \<and> pending_show C p = Inr v \<and> r_seq (pv_Decision v) = s))"
proof -
  let ?xs = "filter (\<lambda>(s, p). \<not> pc_running p) (gw_pending g)" and ?k = "\<lambda>v. r_seq (pv_Decision v)"
  obtain ws where w: "esequence (map (pending_show C) (map snd ?xs)) = Inr ws" "vs = sort_key ?k ws"
    using assms(2) by (auto simp: ListPending_def)
  have d: "distinct (map fst (gw_pending g))" using assms(1) by (simp add: held_ok_def)
  have sq: "r_seq (pc_decision p) = s" if "(s, p) \<in> set (gw_pending g)" for s p
    using held_okD [OF assms(1)] that d by (auto simp: pending_ok_def seq_of_def)
  have "map ?k ws = map (\<lambda>p. r_seq (pc_decision p)) (map snd ?xs)"
    by (rule esequence_map_proj [OF w(1)]) (simp add: pending_show_decision)
  also have "\<dots> = map fst ?xs" using sq by (auto simp: comp_def)
  finally have "distinct (map ?k ws)" using distinct_filter_fst [OF d] by simp
  then have "distinct (map ?k vs)" unfolding w(2) by (simp add: distinct_map)
  moreover have "sorted (map ?k vs)" by (simp add: w(2))
  ultimately have "sorted_wrt (<) (map ?k vs)" by (simp add: strict_sorted_iff)
  moreover have "v \<in> set vs \<longleftrightarrow> (\<exists>s p. (s, p) \<in> set (gw_pending g) \<and> \<not> pc_running p \<and> pending_show C p = Inr v)"
    using esequence_map_set [OF w(1), of v] by (auto simp: w(2))
  ultimately show ?thesis using d sq pending_show_decision by (metis map_of_eq_Some_iff)
qed

section \<open>The cache of compiled schemas\<close>

definition cache_ok :: "('p, 'v) gateway_config \<Rightarrow> (string \<rightharpoonup> 'v) \<Rightarrow> bool" where
  "cache_ok cfg c \<longleftrightarrow> (\<forall>dg v. c dg = Some v \<longrightarrow> (\<exists>m. Manifest_Digest (cf_C cfg) m = Inr dg \<and>
     cf_Registry cfg (Manifest_ID m) = Some dg \<and> Compile (cf_Schemas cfg) (m_InputSchema m) = Inr v))"

lemma commitArgs_cache: "commitArgs cfg g args salt ok = (g', x) \<Longrightarrow> gw_validators g' = gw_validators g"
  by (auto simp: commitArgs_def save_opening_def split: prod.splits sum.splits)

lemma checkArgs_cache:
  assumes "checkArgs (cf_Schemas cfg) g dg (m_InputSchema m) args = (g', x)" "cache_ok cfg (gw_validators g)"
    "registry_Check (cf_C cfg) (cf_Registry cfg) m = (dg, None)"
  shows "cache_ok cfg (gw_validators g')"
  using assms by (auto simp: checkArgs_def cache_ok_def registry_Check_None split: option.splits sum.splits if_splits)

lemma Call_open_cache:
  assumes "Call_open cfg g ce cred srv t args = (g', x)" "cache_ok cfg (gw_validators g)"
  shows "cache_ok cfg (gw_validators g')"
proof -
  consider "g' = g"
    | tk m dg re where "VerifyTask (cf_C cfg) (cf_X cfg) cred (cf_Roots cfg) (ce_Now ce) = Inr tk" "ce_Manifest ce = Some m"
      "m_Server m = srv" "m_Name m = t" "registry_Check (cf_C cfg) (cf_Registry cfg) m = (dg, re)" "dg \<noteq> []"
    using assms(1) by (auto simp: Call_open_def split: sum.splits option.splits if_splits prod.splits)
  then show ?thesis
  proof cases
    case 2
    obtain g1 y where c: "commitArgs cfg g args (ce_Salt ce) (ce_OpeningOk ce) = (g1, y)" by fastforce
    have c1: "cache_ok cfg (gw_validators g1)" using assms(2) commitArgs_cache [OF c] by simp
    show ?thesis
    proof (cases y)
      case (Inl e)
      then show ?thesis using assms(1) 2 c c1 by (auto simp: Call_open_def)
    next
      case (Inr cc)
      obtain canon com where cc: "cc = (canon, com)" by (cases cc)
      obtain g2 ae where k: "(if re = None then checkArgs (cf_Schemas cfg) g1 dg (m_InputSchema m) canon else (g1, None)) = (g2, ae)"
        by fastforce
      have "cache_ok cfg (gw_validators g2)" using k c1 2(5) by (auto split: if_splits dest: checkArgs_cache)
      moreover have "g' = g2" using assms(1) 2 c Inr cc k by (auto simp: Call_open_def Let_def split: sum.splits)
      ultimately show ?thesis by simp
    qed
  qed (use assms(2) in simp)
qed

lemma step_cache:
  assumes "gateway_step cfg (y, es) (y', es')" "cache_ok cfg (gw_validators (sy_gw y))"
  shows "cache_ok cfg (gw_validators (sy_gw y'))"
  using assms(1)
proof (cases rule: gateway_step.cases)
  case (call_opened ce cred server toolName args g x)
  then show ?thesis using Call_open_cache assms(2) by simp
next
  case (call_recorded ts pr us now ok g x)
  then show ?thesis using assms(2)
    by (auto simp: Call_record_def appendReceipt_def Let_def split: prod.splits sum.splits if_splits)
next
  case (result_sealed ts p resp b out us ee g x)
  then show ?thesis using assms(2)
    by (auto simp: exec_seal_def save_opening_def Let_def split: outcome.splits prod.splits sum.splits)
next
  case (result_recorded ts p resp b se us now ok g x)
  then show ?thesis using assms(2)
    by (auto simp: exec_record_def appendReceipt_def split: prod.splits sum.splits)
next
  case (resume_begun cred s now g x)
  then show ?thesis using assms(2)
    by (auto simp: Resume_begin_def Let_def split: sum.splits option.splits if_splits)
next
  case (approved line now s acc ok1 ok2 g x)
  then show ?thesis using assms(2) by (auto simp: Approve_record_def split: prod.splits sum.splits)
qed (use assms(2) in \<open>auto simp: addTaint_def Resume_end_def fresh_gateway_def cache_ok_def\<close>)

text \<open>
  The validator that the gateway keeps under a digest is the one that compiling the schema of a pinned
  manifest with that digest gives: the cache never holds the schema of a tool nobody pinned.
\<close>

theorem cached_validator_pinned:
  assumes "gateway_run cfg K ks good y es" "gw_validators (sy_gw y) dg = Some v"
  shows "\<exists>m. Manifest_Digest (cf_C cfg) m = Inr dg \<and> cf_Registry cfg (Manifest_ID m) = Some dg \<and>
    Compile (cf_Schemas cfg) (m_InputSchema m) = Inr v"
proof -
  have "cache_ok cfg (gw_validators (sy_gw y))" using assms(1)
  proof (induction rule: gateway_run.induct)
    case (started es s)
    then show ?case by (simp add: cache_ok_def fresh_gateway_def)
  next
    case (stepped y es y' es')
    then show ?case using step_cache by blast
  qed
  then show ?thesis using assms(2) by (simp add: cache_ok_def)
qed

end
