(* ===== verification/GatewaySample.thy ===== *)
theory GatewaySample
  imports ComponentWitnesses GatewayTheorems GatewayRules
begin

text \<open>
  A gateway at work on concrete input: a task credential, one pinned tool, one credential, a policy, and
  a call that policy allows or holds for approval, from the request to the result.
\<close>

section \<open>A task and a tool\<close>

definition task_cert :: certificate where
  "task_cert = leaf_template\<lparr>ct_SigAlg := ''ML-DSA-65'', ct_MLDSA := Some (replicate 1952 (CHR ''m'')),
     ct_Policies := [PolicyTaskCredential], ct_ExtKeyUsage := [ClientAuth], ct_NotAfter := 60 * ns_per_s,
     ct_URIs := [''urn:warden:agent:bot'', ''urn:warden:principal:ann'', ''urn:warden:task:job'']\<rparr>"

definition task_x509 :: x509 where
  "task_x509 = \<lparr>x_Parse = (\<lambda>_. Some task_cert), x_Verify = (\<lambda>_ _ _ _. True), x_SelfSign = (\<lambda>_ _. None),
     x_Create = (\<lambda>_ _ _. None)\<rparr>"

definition sample_claims :: task_claims where
  "sample_claims = \<lparr>tc_Agent = ''bot'', tc_Principal = ''ann'', tc_Task = ''job''\<rparr>"

lemma task_values: "value_ok ''bot''" "value_ok ''ann''" "value_ok ''job''"
  by code_simp+

lemma sample_task: "\<exists>t. VerifyTask toy task_x509 [] roots now = Inr t \<and> t_claims t = sample_claims"
  by (simp add: VerifyTask_def cert_verify_def task_x509_def task_cert_def leaf_template_def isMLDSA65_def
      uriAgent_def uriPrincipal_def uriTask_def task_values sat64_def MaxTaskLifetime_def ClockSkew_def ns_per_s_def
      sample_claims_def)

definition toy_cedar :: "string \<Rightarrow> unit cedar" where
  "toy_cedar res = \<lparr>cd_Parse = (\<lambda>_. None), cd_Authorize = (\<lambda>_ _ rq. (snd (rq_Action rq) = ActionCall \<or> res = Allow,
     \<lparr>dg_Reasons = [], dg_Errors = []\<rparr>))\<rparr>"

definition toy_config :: "string \<Rightarrow> (unit, unit) gateway_config" where
  "toy_config res = \<lparr>cf_C = toy, cf_X = task_x509, cf_Cedar = toy_cedar res, cf_Policy = \<lparr>e_set = [], e_revision = sample_digest\<rparr>,
     cf_Schemas = toy_schemas, cf_Registry = sample_registry, cf_Broker = sample_broker, cf_Roots = [],
     cf_Approvers = (\<lambda>kid. if kid = ''bob'' then Some toy_public else None), cf_Roles = None, cf_Taint = Some (\<lambda>_ _. ''web''),
     cf_Inspect = None, cf_Limits = DefaultLimits, cf_IsPrint = (\<lambda>_. True)\<rparr>"

lemma toy_config_simps [simp]:
  "cf_C (toy_config res) = toy" "cf_X (toy_config res) = task_x509" "cf_Cedar (toy_config res) = toy_cedar res"
  "cf_Policy (toy_config res) = \<lparr>e_set = [], e_revision = sample_digest\<rparr>" "cf_Schemas (toy_config res) = toy_schemas"
  "cf_Registry (toy_config res) = sample_registry" "cf_Broker (toy_config res) = sample_broker" "cf_Roots (toy_config res) = []"
  "cf_Approvers (toy_config res) = (\<lambda>kid. if kid = ''bob'' then Some toy_public else None)" "cf_Roles (toy_config res) = None"
  "cf_Taint (toy_config res) = Some (\<lambda>_ _. ''web'')" "cf_Inspect (toy_config res) = None" "cf_Limits (toy_config res) = DefaultLimits"
  by (simp_all add: toy_config_def)

section \<open>The request\<close>

definition sample_commitment :: string where
  "sample_commitment = digest_SHA256 (sha256 toy) (sample_salt @ ''{}'')"

lemma canonical_empty_object: "canonical_Transform jcs_model ''{}'' = Inr ''{}''"
  by (simp add: canonical_Transform_def jcs_model_def decode_empty_object utf8_valid_ascii)

lemma marshal_raw_empty: "marshal_raw ''{}'' = Some ''{}''"
  by (simp add: marshal_raw_def unmarshal_json_def decode_empty_object skip_ws_def)

lemma sample_commitArgs:
  "\<exists>g'. commitArgs (toy_config res) g ''{}'' sample_salt True = (g', Inr (''{}'', sample_commitment))"
  by (simp add: commitArgs_def args_value_def canonical_empty_object marshal_raw_empty commit_Sum_def toy_ok(3)
      sample_commitment_def sample_salt_def SaltSize_def save_opening_def SaveOpening_def Let_def)

definition sample_ce :: call_env where
  "sample_ce = \<lparr>ce_Now = 0, ce_Manifest = Some sample_manifest, ce_Salt = sample_salt, ce_OpeningOk = True\<rparr>"

definition sample_prepared :: "string \<Rightarrow> string list \<Rightarrow> prepared" where
  "sample_prepared res taint = (let dec = \<lparr>pd_Result = res, pd_Rule = [], pd_PolicyRevision = sample_digest, pd_Errors = []\<rparr> in
     \<lparr>pr_receipt = decision_receipt sample_claims \<lparr>tool = ''s/t'', manifest = sample_pin, args_commitment = sample_commitment\<rparr> dec taint,
       pr_decision = dec, pr_server = ''s'', pr_tool = ''t'', pr_args = ''{}''\<rparr>)"

lemma toy_schemas_resolve: "sl_Resolve toy_schemas b = Inr ()"
  by (simp add: toy_schemas_def)

lemma sample_validate: "args_Validate toy_schemas v ''{}'' = None"
  by (simp add: args_Validate_def decode_empty_object toy_schemas_def dec_More_def skip_ws_def)

lemma sample_checkArgs: "snd (checkArgs toy_schemas g dg (Some j) ''{}'') = None"
  by (simp add: checkArgs_def sample_validate Compile_def toy_schemas_resolve split: option.split)

lemma sample_Decide:
  assumes "res \<in> {Allow, RequireApproval}"
  shows "gate_decision (toy_config res) sample_claims None None ''s'' ''t'' ''{}'' taint =
    Inr \<lparr>pd_Result = res, pd_Rule = [], pd_PolicyRevision = sample_digest, pd_Errors = []\<rparr>"
proof -
  have "runes ''{}'' = [123, 125]" by code_simp
  then obtain v where "convertArgs jcs_model ''{}'' = Inr v"
    by (simp add: convertArgs_def is_space_def canonical_empty_object decode_empty_object maxArgsDepth_def)
  then obtain req ents where "buildRequest jcs_model \<lparr>in_Principal = ''ann'', in_Roles = [], in_Agent = ''bot'', in_TaskID = ''job'',
      in_Server = ''s'', in_Tool = ''t'', in_Args = ''{}'', in_Taint = taint\<rparr> = Inr (req, ents)"
    by (simp add: buildRequest_def Let_def)
  then show ?thesis using assms
    by (auto simp: gate_decision_def Decide_def toy_ok(3) sample_claims_def toy_cedar_def
        ActionCall_def ActionUnattended_def ruleOf_def joinIDs_def limitRule_def maxRuleLen_def receipt_consts)
qed

lemma sample_Call_open:
  assumes "res \<in> {Allow, RequireApproval}"
  shows "\<exists>g'. Call_open (toy_config res) g sample_ce [] ''s'' ''t'' ''{}'' = (g', Inr (sample_prepared res (taintOf g ''job''))) \<and> same_calls g g' \<and>
    gw_validators g' sample_pin = Some ()"
proof -
  obtain t where t: "VerifyTask toy task_x509 [] [] 0 = Inr t" "t_claims t = sample_claims" using sample_task by blast
  obtain g1 where c: "commitArgs (toy_config res) g ''{}'' sample_salt True = (g1, Inr (''{}'', sample_commitment))"
    using sample_commitArgs by blast
  obtain g2 where k: "checkArgs toy_schemas g1 sample_pin (m_InputSchema sample_manifest) ''{}'' = (g2, None)"
    using sample_checkArgs [of g1 sample_pin "JObj []"] by (simp add: prod_eq_iff sample_manifest_def)
  have v: "gw_validators g2 sample_pin = Some ()"
    using k by (auto simp: checkArgs_def sample_manifest_def Compile_def toy_schemas_resolve split: option.splits)
  have s: "same_calls g g2" by (rule same_calls_trans [OF commitArgs_same [OF c] checkArgs_same [OF k]])
  have m: "m_Server sample_manifest = ''s''" "m_Name sample_manifest = ''t''" "Manifest_ID sample_manifest = ''s/t''"
    by (simp_all add: sample_manifest_def Manifest_ID_def)
  have p: "sample_pin \<noteq> []" using digest_Valid_length [of sample_pin] by (auto simp: sample_pin_def)
  have "tc_Task (t_claims t) = ''job''" by (simp add: t(2) sample_claims_def)
  moreover have "taintOf g2 ''job'' = taintOf g ''job''" using s by (simp add: same_calls_def taintOf_def)
  ultimately show ?thesis
    using s v by (simp add: Call_open_def t sample_ce_def m sample_check p c k sample_Decide [OF assms] sample_prepared_def Let_def)
qed

section \<open>The store\<close>

text \<open>Stores that the sample key writes.\<close>

definition sample_store :: "entry list \<Rightarrow> store \<Rightarrow> bool" where
  "sample_store es s \<longleftrightarrow> store_holds toy es s \<and> s_key s = Some toy_signer \<and> s_kid s = ''k1'' \<and> s_chainID s = ''c1'' \<and> length es < 1000"

lemma toy_store: "\<exists>s. store_Open toy ''p'' empty_db (Some toy_signer) ''k1'' ''c1'' True = (s_db s, Inr s) \<and> sample_store [] s"
proof -
  have "\<exists>s. store_init toy empty_db (Some toy_signer) ''k1'' ''c1'' True = Inr s \<and> s_key s = Some toy_signer \<and> s_kid s = ''k1'' \<and> s_chainID s = ''c1''"
    using sample_a0_eq by (simp add: store_init_def empty_db_def ordered_rows_def Let_def)
  then obtain s where "store_init toy empty_db (Some toy_signer) ''k1'' ''c1'' True = Inr s" "s_key s = Some toy_signer"
    "s_kid s = ''k1''" "s_chainID s = ''c1''" by blast
  moreover from this(1) have o: "store_Open toy ''p'' empty_db (Some toy_signer) ''k1'' ''c1'' True = (s_db s, Inr s)"
    by (simp add: store_Open_def)
  ultimately show ?thesis using store_Open_empty [OF o] by (auto simp: sample_store_def)
qed

definition last_ts :: "entry list \<Rightarrow> string" where
  "last_ts es = (if es = [] then [] else r_ts (e_rcpt (last es)))"

lemma sample_store_app:
  assumes "sample_store es s"
  shows "ap_key (s_app s) = Some toy_signer" "ap_kid (s_app s) = ''k1''" "ap_chainID (s_app s) = ''c1''"
    "ap_next (s_app s) = int (length es)" "ap_lastTS (s_app s) = last_ts es" "digest_Valid (ap_prev (s_app s))"
  using assms GenesisPrev_valid by (auto simp: sample_store_def store_holds_def appender_at_def last_ts_def split: if_splits)

text \<open>An append of a well-formed receipt succeeds.\<close>

lemma sample_append:
  assumes "sample_store es s" "r_type r \<noteq> TypeKeyRotation" "receipt_utf8 (fill (s_app s) r)"
    "receipt_Validate (fill (s_app s) r) = Inr ()" "last_ts es \<le> r_ts r" "length es < 999"
  shows "\<exists>s' a. store_Append toy s r True = (s', Inr a) \<and> ap_Seq a = int (length es) \<and>
    sample_store (es @ [store_entry s (ap_Line a) r]) s' \<and>
    log_after s s' es r = es @ [store_entry s (ap_Line a) r] \<and> e_rcpt (store_entry s (ap_Line a) r) = fill (s_app s) r"
proof -
  note a = sample_store_app [OF assms(1)]
  have h: "store_holds toy es s" using assms(1) by (simp add: sample_store_def)
  obtain app sg line where ap: "Append toy (s_app s) r = (app, Inr (sg, line))"
    using file_keys.Append_succeeds [OF a(1) toy_signer_ok, of toy_public r] a assms toy_ok
    by (auto simp: id_ok_ascii utf8_valid_ascii)
  then have "row_seq ` set (db_receipts (s_db s)) \<subseteq> {0..<int (length es)}"
    using h by (auto simp: store_holds_def rows_of_def row_of_def set_zip)
  then have "\<exists>s' x. store_Append toy s r True = (s', Inr x)"
    using ap assms(2) a(4) by (auto simp: store_Append_def Let_def insert_row_def appender_State_def)
  then obtain s' x where x: "store_Append toy s r True = (s', Inr x)" by blast
  have w: "s_key s' = s_key s" "s_kid s' = s_kid s"
  proof -
    obtain D where e: "s' = s\<lparr>s_app := s_app s', s_db := D\<rparr>" using store_Append_cases [OF h x] by blast
    show "s_key s' = s_key s" "s_kid s' = s_kid s" by (subst e, simp)+
  qed
  show ?thesis using store_Append_Inr [OF h x] log_after_Append [OF h x same_log_refl] assms(1,6) x w
    by (auto simp: sample_store_def)
qed

section \<open>The receipts\<close>

definition sample_ts :: string where "sample_ts = ''2026-01-02T03:04:05.000Z''"
definition expiry_ts :: string where "expiry_ts = ''2026-01-02T03:30:00.000Z''"
definition late_ts :: string where "late_ts = ''2026-01-02T03:31:00.000Z''"

definition time_of :: "string \<Rightarrow> time" where
  "time_of s = the (parse_ts s)"

lemma ts_valid: "valid_ts sample_ts" "valid_ts expiry_ts" "valid_ts late_ts"
  by code_simp+

lemma format_time_of: "valid_ts s \<Longrightarrow> format_ts (time_of s) = s"
  by (auto simp: valid_ts_def time_of_def split: option.splits)

lemma ts_ascii: "ascii sample_ts" "ascii expiry_ts" "ascii late_ts"
  by (simp_all add: sample_ts_def expiry_ts_def late_ts_def)

lemma ts_order: "sample_ts < expiry_ts" "expiry_ts < late_ts" "sample_ts \<le> late_ts"
  by code_simp+

lemma sample_texts: "digest_Valid sample_pin" "digest_Valid sample_commitment" "digest_Valid sample_digest"
  "ascii sample_pin" "ascii sample_commitment" "ascii sample_digest"
  by (simp_all add: sample_pin_def sample_commitment_def sample_digest_def digest_Valid_ascii)

lemmas json_of_defs = json_of_receipt_def receipt_members_def omit_str_def omit_ptr_def omit_strs_def json_of_actor_def
  json_of_call_def json_of_decision_def json_of_result_def json_of_approval_def

lemma sample_decision_written:
  assumes "sample_store es s" "res \<in> {Allow, RequireApproval}"
  shows "receipt_Validate (fill (s_app s) (stamped (pr_receipt (sample_prepared res [])) (time_of sample_ts))) = Inr ()"
    "receipt_utf8 (fill (s_app s) (stamped (pr_receipt (sample_prepared res [])) (time_of sample_ts)))"
proof -
  note a = sample_store_app [OF assms(1)] and l = format_time_of [OF ts_valid(1)]
  let ?r = "fill (s_app s) (stamped (pr_receipt (sample_prepared res [])) (time_of sample_ts))"
  have n: "length es < 1000" using assms(1) by (simp add: sample_store_def)
  have "header_ok ?r"
    using a n ts_valid by (simp add: header_ok_def sample_prepared_def Let_def decision_receipt_def fill_def stamped_def l id_ok_ascii receipt_Version_def)
  moreover have "context_ok ?r \<lparr>agent = ''bot'', principal = ''ann''\<rparr> \<lparr>tool = ''s/t'', manifest = sample_pin, args_commitment = sample_commitment\<rparr>"
    by (simp add: context_ok_def sample_prepared_def Let_def decision_receipt_def fill_def stamped_def sample_claims_def id_ok_ascii sample_texts)
  moreover have "decision_ok ?r \<lparr>d_result = res, d_policy_revision = sample_digest, d_rule = [], d_taint = []\<rparr>"
    using assms(2) by (auto simp: decision_ok_def sample_prepared_def Let_def decision_receipt_def fill_def stamped_def sample_texts)
  moreover have "r_type ?r = TypeDecision" by (simp add: sample_prepared_def Let_def decision_receipt_def)
  ultimately show "receipt_Validate ?r = Inr ()" using Validate_decision by blast
  have "ascii res" using assms(2) by (auto simp: receipt_consts)
  then show "receipt_utf8 ?r"
    using a digest_Valid_ascii [OF a(6)]
    by (simp add: receipt_utf8_def json_of_defs sample_prepared_def Let_def decision_receipt_def fill_def stamped_def l
        sample_claims_def utf8_valid_ascii sample_texts ts_ascii receipt_Domain_def receipt_consts)
qed

definition sample_pending :: "string \<Rightarrow> int \<Rightarrow> pending_call" where
  "sample_pending res n = \<lparr>pc_decision = (pr_receipt (sample_prepared res []))\<lparr>r_ts := sample_ts, r_chain_id := ''c1'', r_seq := n\<rparr>,
     pc_server = ''s'', pc_tool = ''t'', pc_args = ''{}'', pc_approval = None, pc_running = False\<rparr>"

lemma sample_Call_record:
  assumes "sample_store es (gw_store g)" "last_ts es \<le> sample_ts" "length es < 999" "res \<in> {Allow, RequireApproval}"
  shows "\<exists>g' e resp. Call_record (toy_config res) g (sample_prepared res []) (time_of sample_ts) True =
      (g', Inr (resp, if res = Allow then Some (sample_pending res (int (length es))) else None)) \<and>
    sample_store (es @ [e]) (gw_store g') \<and> r_ts (e_rcpt e) = sample_ts \<and> gw_taint g' = gw_taint g \<and>
    gw_pending g' = (if res = Allow then gw_pending g else AList.update (int (length es)) (sample_pending res (int (length es))) (gw_pending g)) \<and>
    log_after (gw_store g) (gw_store g') es (stamped (pr_receipt (sample_prepared res [])) (time_of sample_ts)) = es @ [e] \<and>
    e_rcpt e = fill (s_app (gw_store g)) (stamped (pr_receipt (sample_prepared res [])) (time_of sample_ts))"
proof -
  let ?r = "stamped (pr_receipt (sample_prepared res [])) (time_of sample_ts)"
  have t: "r_type ?r \<noteq> TypeKeyRotation" "r_ts ?r = sample_ts"
    by (simp_all add: sample_prepared_def Let_def decision_receipt_def stamped_def receipt_consts format_time_of ts_valid)
  obtain s' a where a: "store_Append toy (gw_store g) ?r True = (s', Inr a)" "ap_Seq a = int (length es)"
    "sample_store (es @ [store_entry (gw_store g) (ap_Line a) ?r]) s'"
    "log_after (gw_store g) s' es ?r = es @ [store_entry (gw_store g) (ap_Line a) ?r]"
    "e_rcpt (store_entry (gw_store g) (ap_Line a) ?r) = fill (s_app (gw_store g)) ?r"
    using sample_append [OF assms(1) t(1) sample_decision_written(2,1) [OF assms(1,4)]] assms(2,3) t(2) by auto
  have c: "store_ChainID s' = ''c1''" using a(3) by (simp add: sample_store_def store_ChainID_def)
  have ap: "appendReceipt toy g (pr_receipt (sample_prepared res [])) (time_of sample_ts) True = (g\<lparr>gw_store := s'\<rparr>, Inr a)"
    using a(1) by (simp add: appendReceipt_def stamped_def)
  have d: "pd_Result (pr_decision (sample_prepared res [])) = res" by (simp add: sample_prepared_def Let_def)
  have p: "\<lparr>pc_decision = (pr_receipt (sample_prepared r []))\<lparr>r_ts := sample_ts, r_chain_id := ''c1'', r_seq := n\<rparr>,
      pc_server = pr_server (sample_prepared r []), pc_tool = pr_tool (sample_prepared r []), pc_args = pr_args (sample_prepared r []),
      pc_approval = None, pc_running = False\<rparr> = sample_pending r n" for r n
    by (simp add: sample_pending_def) (simp add: sample_prepared_def Let_def)
  have ne: "Allow \<noteq> Deny" "RequireApproval \<noteq> Deny" "Allow \<noteq> RequireApproval" by (simp_all add: receipt_consts)
  show ?thesis
    by (intro exI [of _ "if res = Allow then g\<lparr>gw_store := s'\<rparr> else g\<lparr>gw_store := s', gw_pending := AList.update (int (length es)) (sample_pending res (int (length es))) (gw_pending g)\<rparr>"]
        exI [of _ "store_entry (gw_store g) (ap_Line a) ?r"])
      (use assms(4) a c ap d ne t(2) in \<open>auto simp: Call_record_def Let_def p\<close>)
qed

end
