(* ===== verification/GatewaySteps.thy ===== *)
theory GatewaySteps
  imports GatewayRun
begin

text \<open>
  \<open>Call\<close> and \<open>Resume\<close>, as the code composes them, are sequences of the steps of \<open>GatewayRun\<close>: what is
  proved of every interleaving of steps holds of the handlers.
\<close>

lemma steps_trans: "(gateway_step cfg)\<^sup>*\<^sup>* a b \<Longrightarrow> gateway_step cfg b c \<Longrightarrow> (gateway_step cfg)\<^sup>*\<^sup>* a c"
  by (rule rtranclp.rtrancl_into_rtrancl)

text \<open>\<open>reaches\<close>: from a system, by steps alone, to the given gateway and threads, with these further calls.\<close>

definition reaches ::
  "('p, 'v) gateway_config \<Rightarrow> 'v system \<times> entry list \<Rightarrow> 'v gateway \<Rightarrow> thread list \<Rightarrow> upstream_call list \<Rightarrow> bool" where
  "reaches cfg st g ts ucs \<longleftrightarrow> (\<exists>y' es'. (gateway_step cfg)\<^sup>*\<^sup>* st (y', es') \<and> sy_gw y' = g \<and> sy_threads y' = ts \<and>
     map snd (sy_calls y') = map snd (sy_calls (fst st)) @ ucs)"

lemma reaches_refl: "reaches cfg (y, es) (sy_gw y) (sy_threads y) []"
  unfolding reaches_def by (intro exI [of _ y] exI [of _ es]) simp

lemma reaches_step:
  assumes "gateway_step cfg (y, es) (y', es')" "reaches cfg (y', es') g ts ucs"
    "map snd (sy_calls y') = map snd (sy_calls y) @ ucs0"
  shows "reaches cfg (y, es) g ts (ucs0 @ ucs)"
proof -
  obtain y2 es2 where "(gateway_step cfg)\<^sup>*\<^sup>* (y', es') (y2, es2)" "sy_gw y2 = g" "sy_threads y2 = ts"
    "map snd (sy_calls y2) = map snd (sy_calls y') @ ucs"
    using assms(2) unfolding reaches_def by auto
  with converse_rtranclp_into_rtranclp [of "gateway_step cfg", OF assms(1)] assms(3) show ?thesis
    unfolding reaches_def by (intro exI [of _ y2] exI [of _ es2]) simp
qed

lemma execute_steps:
  assumes "sy_threads y = Executing p resp b # us" "execute cfg (sy_gw y) p resp ee = (g, ucs, x)"
  shows "reaches cfg (y, es) g ((if b then [Returning (seq_of p) (\<exists>e. x = Inl e)] else []) @ us) ucs"
proof -
  obtain ucs' out where t: "exec_tool cfg p ee = (ucs', out)" by fastforce
  obtain g1 z where s: "exec_seal cfg (sy_gw y) p resp out ee = (g1, z)" by fastforce
  define y1 where "y1 = y\<lparr>sy_threads := [Called p resp b out] @ [] @ us,
         sy_calls := sy_calls y @ map (Pair (store_Next (gw_store (sy_gw y)))) ucs'\<rparr>"
  have 1: "gateway_step cfg (y, es) (y1, es)" unfolding y1_def
    by (rule gateway_step.tool_called [OF _ t]) (simp add: assms(1))
  have c1: "map snd (sy_calls y1) = map snd (sy_calls y) @ ucs'" by (simp add: y1_def comp_def)
  have t1: "sy_threads y1 = [] @ Called p resp b out # us" and g1: "sy_gw y1 = sy_gw y" by (simp_all add: y1_def)
  define y2 where "y2 = y1\<lparr>sy_gw := g1, sy_threads := (case z of Inl _ \<Rightarrow> after_error p b | Inr (resp', se) \<Rightarrow> [Sealed p resp' b se]) @ [] @ us\<rparr>"
  have 2: "gateway_step cfg (y1, es) (y2, es)" unfolding y2_def
    by (rule gateway_step.result_sealed [OF t1, where ee = ee]) (simp add: g1 s)
  have c2: "map snd (sy_calls y2) = map snd (sy_calls y1) @ []" by (simp add: y2_def)
  have end': "reaches cfg (y2, es) g ((if b then [Returning (seq_of p) (\<exists>e. x = Inl e)] else []) @ us) []" and ucs: "ucs = ucs'"
  proof -
    show "reaches cfg (y2, es) g ((if b then [Returning (seq_of p) (\<exists>e. x = Inl e)] else []) @ us) []"
    proof (cases z)
      case (Inl e)
      then have "g = g1" "x = Inl e" using assms(2) t s by (auto simp: execute_def)
      moreover have "sy_gw y2 = g1" "sy_threads y2 = after_error p b @ us" using Inl by (simp_all add: y2_def)
      ultimately show ?thesis using reaches_refl [of cfg y2 es] by (cases b) (simp_all add: after_error_def)
    next
      case (Inr rs)
      obtain resp' se where rs: "rs = (resp', se)" by (cases rs)
      obtain g2 w where r: "exec_record cfg g1 p resp' se (ee_Now ee) (ee_AppendOk ee) = (g2, w)" by fastforce
      have t2: "sy_threads y2 = [] @ Sealed p resp' b se # us" and gw2: "sy_gw y2 = g1" using Inr rs by (simp_all add: y2_def)
      define y3 where "y3 = y2\<lparr>sy_gw := g2, sy_threads := (case w of Inl _ \<Rightarrow> after_error p b | Inr _ \<Rightarrow> [Recorded p b (se_labels se)]) @ [] @ us\<rparr>"
      define es3 where "es3 = log_after (gw_store (sy_gw y2)) (gw_store g2) es (stamped (result_receipt p se) (ee_Now ee))"
      have 3: "gateway_step cfg (y2, es) (y3, es3)" unfolding y3_def es3_def
        by (rule gateway_step.result_recorded [OF t2, where now = "ee_Now ee" and ok = "ee_AppendOk ee"]) (simp add: gw2 r)
      have c3: "map snd (sy_calls y3) = map snd (sy_calls y2) @ []" by (simp add: y3_def)
      have "reaches cfg (y3, es3) g ((if b then [Returning (seq_of p) (\<exists>e. x = Inl e)] else []) @ us) []"
      proof (cases w)
        case (Inl e)
        then have "g = g2" "x = Inl e" using assms(2) t s Inr rs r by (auto simp: execute_def)
        moreover have "sy_gw y3 = g2" "sy_threads y3 = after_error p b @ us" using Inl by (simp_all add: y3_def)
        ultimately show ?thesis using reaches_refl [of cfg y3 es3] by (cases b) (simp_all add: after_error_def)
      next
        case w: (Inr resp2)
        then have gx: "g = addTaint g2 (r_task_id (pc_decision p)) (se_labels se)" "x = Inr resp2"
          using assms(2) t s Inr rs r by (auto simp: execute_def)
        have t3: "sy_threads y3 = [] @ Recorded p b (se_labels se) # us" and gw3: "sy_gw y3 = g2" using w by (simp_all add: y3_def)
        define y4 where "y4 = y3\<lparr>sy_gw := addTaint (sy_gw y3) (r_task_id (pc_decision p)) (se_labels se),
         sy_threads := (if b then [Returning (seq_of p) False] else []) @ [] @ us\<rparr>"
        have 4: "gateway_step cfg (y3, es3) (y4, es3)" unfolding y4_def by (rule gateway_step.taint_added [OF t3])
        have "sy_gw y4 = g" "sy_threads y4 = (if b then [Returning (seq_of p) (\<exists>e. x = Inl e)] else []) @ us"
          using gx gw3 by (simp_all add: y4_def)
        then have "reaches cfg (y4, es3) g ((if b then [Returning (seq_of p) (\<exists>e. x = Inl e)] else []) @ us) []"
          using reaches_refl [of cfg y4 es3] by simp
        from reaches_step [OF 4 this, of "[]"] show ?thesis by (simp add: y4_def)
      qed
      from reaches_step [OF 3 this c3] show ?thesis by simp
    qed
    show "ucs = ucs'" using assms(2) t s by (auto simp: execute_def split: sum.splits prod.splits)
  qed
  have "reaches cfg (y, es) g ((if b then [Returning (seq_of p) (\<exists>e. x = Inl e)] else []) @ us) (ucs' @ [] @ [])"
    by (rule reaches_step [OF 1 reaches_step [OF 2 end' c2] c1])
  with ucs show ?thesis by simp
qed

text \<open>
  \<open>Call\<close>, run alone, is a sequence of the steps that the other theorems interleave, and makes the calls
  to tool servers that those record.
\<close>

theorem Call_is_steps:
  "case gateway_Call cfg (sy_gw y) ce now ok ee cred srv t args of
     (g, ucs, x) \<Rightarrow> reaches cfg (y, es) g (sy_threads y) ucs"
proof -
  obtain g ucs x where c: "gateway_Call cfg (sy_gw y) ce now ok ee cred srv t args = (g, ucs, x)" by (rule prod_cases3)
  obtain g1 z where o: "Call_open cfg (sy_gw y) ce cred srv t args = (g1, z)" by fastforce
  define y1 where "y1 = y\<lparr>sy_gw := g1, sy_threads := (case z of Inl _ \<Rightarrow> [] | Inr pr \<Rightarrow> [Prepared pr]) @ sy_threads y\<rparr>"
  have 1: "gateway_step cfg (y, es) (y1, es)" unfolding y1_def by (rule gateway_step.call_opened [OF o])
  have c1: "map snd (sy_calls y1) = map snd (sy_calls y) @ []" by (simp add: y1_def)
  have "reaches cfg (y1, es) g (sy_threads y) ucs"
  proof (cases z)
    case (Inl e)
    then have "g = g1" "ucs = []" using c o by (auto simp: gateway_Call_def)
    then show ?thesis using reaches_refl [of cfg y1 es] Inl by (simp add: y1_def)
  next
    case (Inr pr)
    obtain g2 w where r: "Call_record cfg g1 pr now ok = (g2, w)" by fastforce
    define l where "l = (case w of Inr (resp, Some p) \<Rightarrow> [Executing p resp False] | _ \<Rightarrow> [])"
    define es2 where "es2 = log_after (gw_store (sy_gw y1)) (gw_store g2) es (stamped (pr_receipt pr) now)"
    define y2 where "y2 = y1\<lparr>sy_gw := g2, sy_threads := l @ [] @ sy_threads y\<rparr>"
    have 2: "gateway_step cfg (y1, es) (y2, es2)" unfolding y2_def l_def es2_def
      by (rule gateway_step.call_recorded [where now = now and ok = ok]) (simp_all add: y1_def Inr r)
    have c2: "map snd (sy_calls y2) = map snd (sy_calls y1) @ []" by (simp add: y2_def)
    have "reaches cfg (y2, es2) g (sy_threads y) ucs"
    proof (cases "\<exists>resp p. w = Inr (resp, Some p)")
      case True
      then obtain resp p where w: "w = Inr (resp, Some p)" by blast
      have "execute cfg (sy_gw y2) p resp ee = (g, ucs, x)" using c o Inr r w by (simp add: gateway_Call_def y2_def)
      moreover have "sy_threads y2 = Executing p resp False # sy_threads y" using w by (simp add: y2_def l_def)
      ultimately show ?thesis using execute_steps [of y2 p resp False] by fastforce
    next
      case False
      then have "l = []" by (auto simp: l_def split: sum.split option.split)
      moreover have "g = g2 \<and> ucs = []" using c o Inr r False by (auto simp: gateway_Call_def split: sum.splits option.splits)
      ultimately show ?thesis using reaches_refl [of cfg y2 es2] by (simp add: y2_def)
    qed
    from reaches_step [OF 2 this c2] show ?thesis by simp
  qed
  from reaches_step [OF 1 this c1] c show ?thesis by simp
qed

text \<open>
  C32: \<open>Resume\<close>, run alone, is a sequence of those steps too: taking the held call, running the tool, and
  releasing or removing the call.
\<close>

theorem Resume_is_steps:
  assumes "held_ok cfg es (gw_pending (sy_gw y))"
  shows "case gateway_Resume cfg (sy_gw y) cred s now ee of
     (g, ucs, x) \<Rightarrow> reaches cfg (y, es) g (sy_threads y) ucs"
proof -
  note h = assms(1)
  obtain g ucs x where c: "gateway_Resume cfg (sy_gw y) cred s now ee = (g, ucs, x)" by (rule prod_cases3)
  obtain g1 z where o: "Resume_begin cfg (sy_gw y) cred s now = (g1, z)" by fastforce
  define y1 where "y1 = y\<lparr>sy_gw := g1, sy_threads := (case z of Inl _ \<Rightarrow> [] | Inr (resp, p) \<Rightarrow> [Executing p resp True]) @ sy_threads y\<rparr>"
  have 1: "gateway_step cfg (y, es) (y1, es)" unfolding y1_def by (rule gateway_step.resume_begun [OF o])
  have c1: "map snd (sy_calls y1) = map snd (sy_calls y) @ []" by (simp add: y1_def)
  have "reaches cfg (y1, es) g (sy_threads y) ucs"
  proof (cases z)
    case (Inl e)
    then have "g = g1" "ucs = []" using c o by (auto simp: gateway_Resume_def)
    then show ?thesis using reaches_refl [of cfg y1 es] Inl by (simp add: y1_def)
  next
    case (Inr rp)
    obtain resp p where rp: "rp = (resp, p)" by (cases rp)
    obtain g2 where e: "execute cfg g1 p resp ee = (g2, ucs, x)" "g = Resume_end g2 s (\<exists>e. x = Inl e)"
      using c o Inr rp by (auto simp: gateway_Resume_def split: prod.splits sum.splits)
    obtain q where q: "map_of (gw_pending (sy_gw y)) s = Some q" "p = q\<lparr>pc_running := True\<rparr>"
      using Resume_begin_Inr [OF o [unfolded Inr rp]] by blast
    have "seq_of p = s" using held_okD [OF h q(1)] q(2) by (simp add: pending_ok_def seq_of_def)
    moreover have "sy_threads y1 = Executing p resp True # sy_threads y" "sy_gw y1 = g1" using Inr rp by (simp_all add: y1_def)
    ultimately have "reaches cfg (y1, es) g2 (Returning s (\<exists>e. x = Inl e) # sy_threads y) ucs"
      using execute_steps [of y1 p resp True "sy_threads y" cfg ee g2 ucs x es] e(1) by simp
    then obtain y2 es2 where y2: "(gateway_step cfg)\<^sup>*\<^sup>* (y1, es) (y2, es2)" "sy_gw y2 = g2"
      "sy_threads y2 = [] @ Returning s (\<exists>e. x = Inl e) # sy_threads y" "map snd (sy_calls y2) = map snd (sy_calls y1) @ ucs"
      by (auto simp: reaches_def)
    have 3: "gateway_step cfg (y2, es2) (y2\<lparr>sy_gw := Resume_end (sy_gw y2) s (\<exists>e. x = Inl e), sy_threads := [] @ sy_threads y\<rparr>, es2)"
      by (rule gateway_step.resume_ended [OF y2(3)])
    show ?thesis unfolding reaches_def
      by (intro exI conjI, rule steps_trans [OF y2(1) 3]) (simp_all add: y2(2,4) e(2))
  qed
  from reaches_step [OF 1 this c1] c show ?thesis by simp
qed

end
