(* ===== verification/GatewayTaint.thy ===== *)
theory GatewayTaint
  imports GatewayTheorems
begin

text \<open>
  The taint of a task: the gateway's in-memory labels are, in every interleaving, exactly what the
  result receipts of the log say since the gateway was last started, less what is about to be added.
\<close>

section \<open>Labels in the log and in flight\<close>

definition receipt_taint :: "string \<Rightarrow> receipt \<Rightarrow> string set" where
  "receipt_taint t r = (if r_type r = TypeResult \<and> r_task_id r = t
     then (case r_result r of None \<Rightarrow> {} | Some x \<Rightarrow> set (res_taint x)) else {})"

definition log_taint :: "string \<Rightarrow> entry list \<Rightarrow> string set" where
  "log_taint t es = (\<Union>e \<in> set es. receipt_taint t (e_rcpt e))"

fun thread_taint :: "string \<Rightarrow> thread \<Rightarrow> string set" where
  "thread_taint t (Recorded p b ls) = (if r_task_id (pc_decision p) = t then set ls else {})"
| "thread_taint t th = {}"

definition flight_taint :: "string \<Rightarrow> thread list \<Rightarrow> string set" where
  "flight_taint t ts = (\<Union>th \<in> set ts. thread_taint t th)"

definition taint_matches :: "nat \<Rightarrow> 'v system \<Rightarrow> entry list \<Rightarrow> bool" where
  "taint_matches n y es \<longleftrightarrow> n \<le> length es \<and> (\<forall>t. sorted (taintOf (sy_gw y) t) \<and> distinct (taintOf (sy_gw y) t) \<and>
     set (taintOf (sy_gw y) t) \<union> flight_taint t (sy_threads y) = log_taint t (drop n es))"

lemma flight_taint_simps [simp]:
  "flight_taint t [] = {}" "flight_taint t (th # ts) = thread_taint t th \<union> flight_taint t ts"
  "flight_taint t (ts @ us) = flight_taint t ts \<union> flight_taint t us"
  by (auto simp: flight_taint_def)

lemma log_taint_snoc: "n \<le> length es \<Longrightarrow> log_taint t (drop n (es @ [e])) = log_taint t (drop n es) \<union> receipt_taint t (e_rcpt e)"
  by (auto simp: log_taint_def)

lemma log_after_taint:
  "r_type r \<noteq> TypeResult \<Longrightarrow> n \<le> length es \<Longrightarrow> log_taint t (drop n (log_after s s' es r)) = log_taint t (drop n es)"
  by (simp add: log_after_def log_taint_snoc receipt_taint_def del: drop_append)

lemma log_after_length [simp]: "n \<le> length es \<Longrightarrow> n \<le> length (log_after s s' es r)"
  by (simp add: log_after_def)

lemma add_labels: "set (foldl add_label ls xs) = set ls \<union> set xs" "distinct ls \<Longrightarrow> distinct (foldl add_label ls xs)"
  by (induction xs arbitrary: ls) (auto simp: add_label_def)

lemma taintOf_addTaint:
  "taintOf (addTaint g t ls) u = (if u = t then sort (foldl add_label (taintOf g t) ls) else taintOf g u)"
  by (simp add: taintOf_def addTaint_def)

text \<open>Most steps touch neither the labels of a task nor those in flight.\<close>

lemma taint_same:
  assumes "taint_matches n y es" "n \<le> length es'" "gw_taint (sy_gw y') = gw_taint (sy_gw y)"
    "\<And>t. flight_taint t (sy_threads y') = flight_taint t (sy_threads y)"
    "\<And>t. log_taint t (drop n es') = log_taint t (drop n es)"
  shows "taint_matches n y' es'"
  using assms by (simp add: taint_matches_def taintOf_def)

lemma result_taint:
  "receipt_taint t (fill a (stamped (result_receipt p se) now)) = (if r_task_id (pc_decision p) = t then set (se_labels se) else {})"
  by (simp add: receipt_taint_def result_receipt_def)

text \<open>The step of a restart: a fresh gateway over the tables, without threads.\<close>

definition restarts :: "('p, 'v) gateway_config \<Rightarrow> 'v system \<Rightarrow> 'v system \<Rightarrow> bool" where
  "restarts cfg y y' \<longleftrightarrow> (\<exists>path ok db s'. store_Open (cf_C cfg) path (s_db (gw_store (sy_gw y))) (s_key (gw_store (sy_gw y)))
       (s_kid (gw_store (sy_gw y))) (s_chainID (gw_store (sy_gw y))) ok = (db, Inr s') \<and>
     y' = \<lparr>sy_gw = fresh_gateway s', sy_threads = [], sy_calls = sy_calls y\<rparr>)"

lemma restart_taint_matches: "restarts cfg y y' \<Longrightarrow> taint_matches (length es) y' es"
  by (auto simp: restarts_def taint_matches_def taintOf_def fresh_gateway_def log_taint_def)

lemma step_taint_matches:
  assumes "gateway_step cfg (y, es) (y', es')" "gw_inv cfg y es" "jcs_ok (jcs (cf_C cfg))" "taint_matches n y es"
  shows "restarts cfg y y' \<or> taint_matches n y' es'"
proof -
  note i = gw_inv_parts [OF assms(2)]
  have n: "n \<le> length es" using assms(4) by (simp add: taint_matches_def)
  note same = taint_same [OF assms(4)]
  show ?thesis using assms(1)
  proof (cases rule: gateway_step.cases)
    case (call_opened ce cred server toolName args g x)
    have "gw_taint g = gw_taint (sy_gw y)" using Call_open_effect [OF call_opened(3)] by (simp add: same_calls_def)
    then have "taint_matches n y' es'" unfolding call_opened(1,2)
      by (intro same) (use n in \<open>auto split: sum.splits\<close>)
    then show ?thesis by (rule disjI2)
  next
    case (call_recorded ts pr us now ok g x)
    have "r_type (pr_receipt pr) = TypeDecision" using i(5) call_recorded(3) by (simp add: threads_ok_pick prepared_ok_def)
    then have l: "r_type (stamped (pr_receipt pr) now) \<noteq> TypeResult" by (simp add: types_distinct)
    have "gw_taint g = gw_taint (sy_gw y)" using call_recorded(4)
      by (auto simp: Call_record_def appendReceipt_def Let_def split: prod.splits sum.splits if_splits)
    moreover have "flight_taint t ((case x of Inr (resp, Some p) \<Rightarrow> [Executing p resp False] | _ \<Rightarrow> []) @ ts @ us) = flight_taint t (sy_threads y)" for t
      using call_recorded(3) by (auto split: sum.splits option.splits)
    ultimately have "taint_matches n y' es'" unfolding call_recorded(1,2)
      by (intro same) (use n l in \<open>auto simp: log_after_taint\<close>)
    then show ?thesis by (rule disjI2)
  next
    case (tool_called ts p resp b us ee ucs out)
    then have "taint_matches n y' es'" by (intro same) (use n in auto)
    then show ?thesis by (rule disjI2)
  next
    case (result_sealed ts p resp b out us ee g x)
    have "gw_taint g = gw_taint (sy_gw y)" using exec_seal_effect [OF result_sealed(4)] by (simp add: same_calls_def)
    then have "taint_matches n y' es'" unfolding result_sealed(1,2)
      by (intro same) (use n result_sealed(3) in \<open>auto simp: after_error_def split: sum.splits\<close>)
    then show ?thesis by (rule disjI2)
  next
    case (result_recorded ts p resp b se us now ok g x)
    obtain g1 z where ap: "appendReceipt (cf_C cfg) (sy_gw y) (result_receipt p se) now ok = (g1, z)" by fastforce
    have "taint_matches n y' es'"
    proof (rule appendReceipt_cases [OF i(1,3) ap])
      fix e assume e: "z = Inl e" "g1 = sy_gw y"
        "log_after (gw_store (sy_gw y)) (gw_store g1) es (stamped (result_receipt p se) now) = es"
      then have "g = g1" "x = Inl e" using result_recorded(4) ap by (simp_all add: exec_record_def)
      with e show ?thesis unfolding result_recorded(1,2)
        by (intro same) (use n result_recorded(3) in \<open>auto simp: after_error_def\<close>)
    next
      fix a e assume e: "z = Inr a" "gw_taint g1 = gw_taint (sy_gw y)"
        "log_after (gw_store (sy_gw y)) (gw_store g1) es (stamped (result_receipt p se) now) = es @ [e]"
        "e_rcpt e = fill (s_app (gw_store (sy_gw y))) (stamped (result_receipt p se) now)"
      then have "g = g1" "\<exists>r. x = Inr r" using result_recorded(4) ap by (auto simp: exec_record_def)
      with e show ?thesis using assms(4) n result_recorded(1-3)
        by (auto simp: taint_matches_def taintOf_def log_taint_snoc result_taint simp del: drop_append)
    qed
    then show ?thesis by (rule disjI2)
  next
    case (taint_added ts p b labels us)
    have "taint_matches n y' es'" unfolding taint_matches_def
    proof (intro conjI allI)
      fix t
      have t: "sorted (taintOf (sy_gw y) t) \<and> distinct (taintOf (sy_gw y) t)"
        "set (taintOf (sy_gw y) t) \<union> flight_taint t (sy_threads y) = log_taint t (drop n es)"
        using assms(4) by (auto simp: taint_matches_def)
      show "sorted (taintOf (sy_gw y') t)" "distinct (taintOf (sy_gw y') t)"
        using t(1) taint_added(1) by (auto simp: taintOf_addTaint add_labels)
      show "set (taintOf (sy_gw y') t) \<union> flight_taint t (sy_threads y') = log_taint t (drop n es')"
        unfolding taint_added(2) t(2) [symmetric] taint_added(1,3) by (auto simp: taintOf_addTaint add_labels)
    qed (use n taint_added in simp)
    then show ?thesis by (rule disjI2)
  next
    case (resume_ended ts s failed us)
    then have "taint_matches n y' es'" by (intro same) (use n in \<open>auto simp: Resume_end_def\<close>)
    then show ?thesis by (rule disjI2)
  next
    case (resume_begun cred s now g x)
    have "gw_taint g = gw_taint (sy_gw y)"
      using resume_begun(3) by (auto simp: Resume_begin_def Let_def split: sum.splits option.splits if_splits)
    then have "taint_matches n y' es'" unfolding resume_begun(1,2)
      by (intro same) (use n in \<open>auto split: sum.splits\<close>)
    then show ?thesis by (rule disjI2)
  next
    case (approved line now s acc ok1 ok2 g x)
    obtain sg p where "map_of (gw_pending (sy_gw y)) s = Some p"
      and a: "Accept (cf_C cfg) sg (pc_decision p) (cf_Approvers cfg) now (cf_Limits cfg) = Inr acc"
      using Approve_check_Inr [OF approved(3)] by blast
    from Accept_receipt [OF a] have l: "r_type (ac_Receipt acc) \<noteq> TypeResult" by (auto simp: types_distinct)
    have "gw_taint g = gw_taint (sy_gw y)" using approved(4) by (auto simp: Approve_record_def split: prod.splits sum.splits)
    then have "taint_matches n y' es'" unfolding approved(1,2)
      by (intro same) (use n l in \<open>auto simp: log_after_taint\<close>)
    then show ?thesis by (rule disjI2)
  next
    case (rotated r nk ok s' x)
    have "log_after (gw_store (sy_gw y)) s' es r = es \<or> r_type r \<noteq> TypeResult"
      using step_rotated [OF assms(2) rotated(3,4) assms(3)] by (auto simp: types_distinct)
    then have "taint_matches n y' es'" unfolding rotated(1,2)
      by (intro same) (use n in \<open>auto simp: log_after_taint\<close>)
    then show ?thesis by (rule disjI2)
  next
    case (restarted s path ok db s')
    then have "restarts cfg y y'" unfolding restarts_def by blast
    then show ?thesis by (rule disjI1)
  qed
qed

text \<open>
  A run of the gateway together with the length that its log had when it was last started: a restart, and nothing else,
  moves it to where the log ends then.
\<close>

inductive run_since ::
  "('p, 'v) gateway_config \<Rightarrow> 'k keys \<Rightarrow> 'k \<Rightarrow> (store \<Rightarrow> entry list \<Rightarrow> entry \<Rightarrow> bool) \<Rightarrow> nat \<Rightarrow> 'v system \<Rightarrow> entry list \<Rightarrow> bool"
  for cfg K ks good where
  since_start: "store_holds (cf_C cfg) es s \<Longrightarrow> log_ok (cf_C cfg) K ks (s_chainID s) [] es \<Longrightarrow>
    list_all plain_line (map e_line es) \<Longrightarrow> utf8_valid (s_chainID s) \<Longrightarrow>
    run_since cfg K ks good (length es) \<lparr>sy_gw = fresh_gateway s, sy_threads = [], sy_calls = []\<rparr> es"
| since_step: "run_since cfg K ks good n y es \<Longrightarrow> gateway_step cfg (y, es) (y', es') \<Longrightarrow>
    (\<And>e. es' = es @ [e] \<Longrightarrow> good (gw_store (sy_gw y)) es e) \<Longrightarrow> \<not> restarts cfg y y' \<Longrightarrow> run_since cfg K ks good n y' es'"
| since_restart: "run_since cfg K ks good n y es \<Longrightarrow> gateway_step cfg (y, es) (y', es') \<Longrightarrow>
    (\<And>e. es' = es @ [e] \<Longrightarrow> good (gw_store (sy_gw y)) es e) \<Longrightarrow> restarts cfg y y' \<Longrightarrow> run_since cfg K ks good (length es') y' es'"

lemma run_since_run: "run_since cfg K ks good n y es \<Longrightarrow> gateway_run cfg K ks good y es"
  by (induction rule: run_since.induct) (blast intro: gateway_run.intros)+

lemma run_run_since: "gateway_run cfg K ks good y es \<Longrightarrow> \<exists>n. run_since cfg K ks good n y es"
proof (induction rule: gateway_run.induct)
  case (started es s)
  then show ?case by (intro exI [of _ "length es"] run_since.since_start)
next
  case (stepped y es y' es')
  then obtain n where "run_since cfg K ks good n y es" by blast
  then show ?case using run_since.since_step run_since.since_restart stepped.hyps(2,3) by metis
qed

text \<open>
  C25: in every run of the gateway, restarts included, each task's taint is sorted, free of duplicates and, together with the
  labels of results that are just being recorded, exactly the union of the labels in the task's result receipts since the
  length that the log had when the gateway was last started: until the next restart no label is lost, none is invented, and
  none leaks to another task.
\<close>

theorem taint_is_union_of_results:
  assumes "run_since cfg K ks good n y es" "jcs_ok (jcs (cf_C cfg))"
  shows "n \<le> length es \<and> (\<forall>t. sorted (taintOf (sy_gw y) t) \<and> distinct (taintOf (sy_gw y) t) \<and>
    set (taintOf (sy_gw y) t) \<union> flight_taint t (sy_threads y) = log_taint t (drop n es))"
proof -
  have "taint_matches n y es" using assms
  proof (induction rule: run_since.induct)
    case (since_start es s)
    show ?case by (simp add: taint_matches_def taintOf_def fresh_gateway_def log_taint_def)
  next
    case (since_step n y es y' es')
    then show ?case
      using step_taint_matches [OF since_step.hyps(2) gateway_run_inv [OF run_since_run [OF since_step.hyps(1)] since_step.prems]]
      by blast
  next
    case (since_restart n y es y' es')
    then show ?case using restart_taint_matches by blast
  qed
  then show ?thesis unfolding taint_matches_def by blast
qed

end
