(* ===== verification/GatewayScenario.thy ===== *)
theory GatewayScenario
  imports GatewaySample GatewaySteps GatewayTaint
begin

text \<open>
  The sample gateway in motion: the approver's answer to the held call, the run of the tool, and the
  systems these lead to, at which the properties of the gateway are applied.
\<close>

section \<open>The approver's answer\<close>

definition sample_callrec :: call where
  "sample_callrec = \<lparr>tool = ''s/t'', manifest = sample_pin, args_commitment = sample_commitment\<rparr>"

definition sample_botactor :: actor where
  "sample_botactor = \<lparr>agent = ''bot'', principal = ''ann''\<rparr>"

definition sample_calldigest :: string where
  "sample_calldigest = (case CallDigest toy ''job'' sample_botactor sample_callrec of Inr d \<Rightarrow> d)"

lemma sample_shown: "shown_utf8 ''job'' sample_botactor sample_callrec"
  by (simp add: shown_utf8_def sample_botactor_def sample_callrec_def utf8_valid_ascii sample_texts)

lemma sample_CallDigest: "CallDigest toy ''job'' sample_botactor sample_callrec = Inr sample_calldigest" "digest_Valid sample_calldigest"
proof -
  have "\<exists>d. CallDigest toy ''job'' sample_botactor sample_callrec = Inr d \<and> digest_Valid d"
    using sample_shown by (simp add: CallDigest_def canonical_Encode_toy json_shown_ok)
  then show "CallDigest toy ''job'' sample_botactor sample_callrec = Inr sample_calldigest" "digest_Valid sample_calldigest"
    by (auto simp: sample_calldigest_def)
qed

definition sample_statement :: "int \<Rightarrow> statement" where
  "sample_statement n = \<lparr>st_domain = StatementDomain, st_chain_id = ''c1'', st_decision_seq = n, st_call_digest = sample_calldigest,
     st_outcome = Approved, st_approver = ''bob'', st_expires_ts = expiry_ts, st_ts = sample_ts\<rparr>"

lemma sample_statement_ok: "0 \<le> n \<Longrightarrow> n < 2 ^ 53 \<Longrightarrow> statement_ok (sample_statement n)"
  using sample_CallDigest(2) ts_valid ts_order by (simp add: statement_ok_def sample_statement_def)

lemma sample_statement_json: "json_ok (json_of_statement (sample_statement n))"
  using digest_Valid_ascii [OF sample_CallDigest(2)]
  by (simp add: json_of_statement_def sample_statement_def utf8_valid_ascii ts_ascii StatementDomain_def receipt_consts)

lemma sample_signed:
  assumes "0 \<le> n" "n < 2 ^ 53"
  shows "\<exists>sg line. statement_Sign toy (Some toy_signer) (sample_statement n) = Inr sg \<and> signed_Line toy sg = Inr line \<and> ParseLine toy line = Inr sg"
proof -
  have v: "statement_Validate (sample_statement n) = Inr ()" by (simp add: statement_Validate_Inr sample_statement_ok [OF assms])
  obtain payload where p: "canonical_Encode (jcs toy) (json_of_statement (sample_statement n)) = Inr payload"
    "canonical_Check (jcs toy) payload = Inr ()"
    using canonical_Encode_ok [OF toy_ok(2) sample_statement_json json_safe_statement [OF sample_statement_ok [OF assms]]] by blast
  obtain hdr where "canonical_Encode (jcs toy) (json_of_header (new_header ''bob'')) = Inr hdr"
    using canonical_Encode_ok [OF toy_ok(2), of "json_of_header (new_header ''bob'')"]
    by (auto simp: json_header_ok utf8_valid_ascii)
  then obtain sg where "SignPayload toy (Some toy_signer) ''bob'' payload = Inr sg"
    using p(2) by (auto simp: SignPayload_Inr id_ok_ascii)
  with v p(1) have "statement_Sign toy (Some toy_signer) (sample_statement n) = Inr sg"
    by (simp add: statement_Sign_def) (simp add: sample_statement_def)
  moreover from SignPayload_line [OF toy_ok(2)] \<open>SignPayload _ _ _ _ = _\<close>
  obtain line where "signed_Line toy sg = Inr line" "ParseLine toy line = Inr sg" by blast
  ultimately show ?thesis by blast
qed

lemma sample_statement_verifies:
  assumes "statement_Sign toy (Some toy_signer) (sample_statement n) = Inr sg" "keys ''bob'' = Some toy_public"
  shows "statement_Verify toy sg keys = Inr (sample_statement n)"
  using file_keys.statement_Sign_verifies [OF toy_signer_ok toy_ok(2) sample_statement_json assms(1), of toy_public keys] assms(2)
  by (simp add: sample_statement_def)

theorem statement_roundtrip_witness:
  "\<exists>sg. statement_Sign toy (Some toy_signer) (sample_statement 0) = Inr sg \<and>
     statement_Verify toy sg [''bob'' \<mapsto> toy_public] = Inr (sample_statement 0)"
proof -
  obtain sg where sg: "statement_Sign toy (Some toy_signer) (sample_statement 0) = Inr sg" using sample_signed [of 0] by auto
  have "statement_Verify toy sg [''bob'' \<mapsto> toy_public] = Inr (sample_statement 0)"
    by (rule statement_roundtrip [OF toy_signer_ok toy_ok(2) sample_statement_json sg]) (simp_all add: sample_statement_def)
  with sg show ?thesis by blast
qed

text \<open>Accepted for the held call.\<close>

lemma sample_times: "time_of expiry_ts - time_of sample_ts \<le> 3600 * ns_per_s" "0 \<le> time_of expiry_ts - time_of sample_ts"
  "0 \<le> time_of sample_ts" "time_of sample_ts < y10k"
  by code_simp+

lemma sample_parse: "approval_parseTS sample_ts = Inr (time_of sample_ts)" "approval_parseTS expiry_ts = Inr (time_of expiry_ts)"
  using ts_valid by (auto simp: approval_parseTS_def time_of_def valid_ts_def split: option.splits)

lemma sample_held_simps:
  "r_type (pc_decision (sample_pending res n)) = TypeDecision" "r_decision (pc_decision (sample_pending res n)) =
     Some \<lparr>d_result = res, d_policy_revision = sample_digest, d_rule = [], d_taint = []\<rparr>"
  "r_chain_id (pc_decision (sample_pending res n)) = ''c1''" "r_seq (pc_decision (sample_pending res n)) = n"
  "r_actor (pc_decision (sample_pending res n)) = Some sample_botactor" "r_call (pc_decision (sample_pending res n)) = Some sample_callrec"
  "r_task_id (pc_decision (sample_pending res n)) = ''job''"
  by (simp_all add: sample_pending_def sample_prepared_def Let_def decision_receipt_def sample_claims_def sample_botactor_def sample_callrec_def)

definition held_like :: "int \<Rightarrow> receipt \<Rightarrow> bool" where
  "held_like n d \<longleftrightarrow> r_type d = TypeDecision \<and> map_option d_result (r_decision d) = Some RequireApproval \<and> r_chain_id d = ''c1'' \<and>
     r_seq d = n \<and> r_actor d = Some sample_botactor \<and> r_call d = Some sample_callrec \<and> r_task_id d = ''job''"

lemma sample_held_like: "held_like n (pc_decision (sample_pending RequireApproval n))"
  by (simp add: held_like_def sample_held_simps)

definition sample_accepted :: "receipt \<Rightarrow> bytes \<Rightarrow> accepted" where
  "sample_accepted d line = (let dg = digest_SHA256 (sha256 toy) line; st = sample_statement (r_seq d) in
     \<lparr>ac_Receipt = approval_receipt d st sample_ts dg, ac_Statement = st, ac_StatementDigest = dg, ac_StatementLine = line\<rparr>)"

lemma sample_Accept:
  assumes "statement_Sign toy (Some toy_signer) (sample_statement n) = Inr sg" "signed_Line toy sg = Inr line"
    "keys ''bob'' = Some toy_public" "held_like n d"
  shows "Accept toy sg d keys (time_of sample_ts) DefaultLimits = Inr (sample_accepted d line)"
proof -
  have "\<not> sat64 (time_of expiry_ts - time_of sample_ts) > lim_MaxTTL DefaultLimits"
    using sample_times(1,2) by (simp add: sat64_def DefaultLimits_def ns_per_s_def)
  moreover have "\<not> time_of sample_ts + lim_ClockSkew DefaultLimits < time_of sample_ts" by (simp add: DefaultLimits_def ns_per_s_def)
  moreover have "st_approver (sample_statement n) \<noteq> principal sample_botactor" by (simp add: sample_statement_def sample_botactor_def)
  ultimately show ?thesis
    using sample_statement_verifies [where keys = keys, OF assms(1,3)] assms(2,4) sample_CallDigest ts_order
    by (simp add: Accept_def held_like_def Let_def sample_accepted_def format_time_of ts_valid)
      (simp add: sample_statement_def sample_parse not_le)
qed

definition toy_approvers :: key_resolver where
  "toy_approvers = [''bob'' \<mapsto> toy_public]"

lemma toy_approvers_bob: "toy_approvers ''bob'' = Some toy_public"
  by (simp add: toy_approvers_def)

theorem Accept_bounded_witness:
  "\<exists>sg (acc :: accepted). Accept toy sg (pc_decision (sample_pending RequireApproval 0)) toy_approvers (time_of sample_ts) DefaultLimits = Inr acc \<and>
    (\<exists>exp. parse_ts (st_expires_ts (ac_Statement acc)) = Some exp \<and>
      format_ts (time_of sample_ts) < st_expires_ts (ac_Statement acc) \<and> exp \<le> time_of sample_ts + 61 * 60 * ns_per_s \<and>
      map_option a_expires_ts (r_approval (ac_Receipt acc)) = Some (st_expires_ts (ac_Statement acc)) \<and>
      r_ts (ac_Receipt acc) = format_ts (time_of sample_ts))"
proof -
  obtain sg line where "statement_Sign toy (Some toy_signer) (sample_statement 0) = Inr sg" "signed_Line toy sg = Inr line"
    using sample_signed [of 0] by auto
  note a = sample_Accept [where keys = toy_approvers and d = "pc_decision (sample_pending RequireApproval 0)", OF this toy_approvers_bob sample_held_like]
  from a Accept_bounded [OF a] show ?thesis by blast
qed

theorem Accept_genuine_witness:
  "\<exists>sg (acc :: accepted). statement_Verify toy sg toy_approvers = Inr (ac_Statement acc) \<and>
    result_of (pc_decision (sample_pending RequireApproval 0)) = RequireApproval \<and>
    st_chain_id (ac_Statement acc) = r_chain_id (pc_decision (sample_pending RequireApproval 0)) \<and>
    st_decision_seq (ac_Statement acc) = r_seq (pc_decision (sample_pending RequireApproval 0)) \<and>
    st_approver (ac_Statement acc) \<noteq> principal sample_botactor \<and>
    (CallDigest toy ''job'' sample_botactor sample_callrec = Inr (st_call_digest (ac_Statement acc)) \<longleftrightarrow>
       ''job'' = r_task_id (pc_decision (sample_pending RequireApproval 0)) \<and> sample_botactor = sample_botactor \<and> sample_callrec = sample_callrec)"
proof -
  obtain sg line where "statement_Sign toy (Some toy_signer) (sample_statement 0) = Inr sg" "signed_Line toy sg = Inr line"
    using sample_signed [of 0] by auto
  note a = sample_Accept [where keys = toy_approvers and d = "pc_decision (sample_pending RequireApproval 0)", OF this toy_approvers_bob sample_held_like]
  have "no_collision (sha256 toy) (call_pre toy (r_task_id (pc_decision (sample_pending RequireApproval 0))) sample_botactor sample_callrec \<union>
      call_pre toy ''job'' sample_botactor sample_callrec)"
    by (auto simp: no_collision_def inj_on_def call_pre_def sample_held_simps)
  from Accept_genuine [OF a _ _ toy_ok(2) sample_held_simps(5,6) _ sample_shown this] sample_shown
  show ?thesis
    by (intro exI [of _ sg] exI [of _ "sample_accepted (pc_decision (sample_pending RequireApproval 0)) line"])
      (simp add: DefaultLimits_def ns_per_s_def sample_held_simps(7))
qed

section \<open>A held call in the log\<close>

lemma sample_decision_logged:
  assumes "sample_store [] s"
  shows "\<exists>s' a. store_Append toy s (stamped (pr_receipt (sample_prepared RequireApproval [])) (time_of sample_ts)) True = (s', Inr a) \<and>
    sample_store [store_entry s (ap_Line a) (stamped (pr_receipt (sample_prepared RequireApproval [])) (time_of sample_ts))] s' \<and>
    held_like 0 (fill (s_app s) (stamped (pr_receipt (sample_prepared RequireApproval [])) (time_of sample_ts)))"
proof -
  let ?r = "stamped (pr_receipt (sample_prepared RequireApproval [])) (time_of sample_ts)"
  have "r_type ?r \<noteq> TypeKeyRotation"
    by (simp add: sample_prepared_def Let_def decision_receipt_def stamped_def receipt_consts)
  moreover have "held_like 0 (fill (s_app s) ?r)"
    using sample_store_app [OF assms]
    by (simp add: held_like_def sample_prepared_def Let_def decision_receipt_def stamped_def fill_def sample_claims_def
        sample_botactor_def sample_callrec_def)
  moreover obtain s' a where "store_Append toy s ?r True = (s', Inr a)" "sample_store ([] @ [store_entry s (ap_Line a) ?r]) s'"
    using sample_append [OF assms calculation(1) sample_decision_written(2,1) [OF assms]] by (auto simp: last_ts_def)
  ultimately show ?thesis by (intro exI [of _ s'] exI [of _ a]) simp
qed

theorem Accept_admissible_witness:
  "\<exists>(a :: appender) sg d (acc :: accepted) es. Accept toy sg d toy_approvers (time_of sample_ts) DefaultLimits = Inr acc \<and>
     receipt_Validate (fill a (ac_Receipt acc)) = Inr () \<and> approval_admissible es (fill a (ac_Receipt acc))"
proof -
  obtain s0 where s0: "sample_store [] s0" using toy_store by blast
  let ?r = "stamped (pr_receipt (sample_prepared RequireApproval [])) (time_of sample_ts)"
  obtain s and a :: appended where s: "sample_store [store_entry s0 (ap_Line a) ?r] s" "held_like 0 (fill (s_app s0) ?r)"
    using sample_decision_logged [OF s0] by blast
  define d where "d = fill (s_app s0) ?r"
  define es where "es = [store_entry s0 (ap_Line a) ?r]"
  have e: "decision_at es 0 = Some d" "approval_of es 0 = None" "\<not> has_result es 0" "r_seq d = 0"
    using s(2) by (simp_all add: es_def d_def held_like_def decision_at_def approval_of_def approval_for_def has_result_def result_for_def receipt_consts)
  have v: "receipt_Validate d = Inr ()" unfolding d_def by (rule sample_decision_written(1) [OF s0]) simp
  obtain sg line where "statement_Sign toy (Some toy_signer) (sample_statement 0) = Inr sg" "signed_Line toy sg = Inr line"
    using sample_signed [of 0] by auto
  note ac = sample_Accept [where keys = toy_approvers, OF this toy_approvers_bob s(2) [folded d_def]]
  have ap: "appender_at toy ''c1'' es (s_app s)" using s(1) by (auto simp: sample_store_def store_holds_def es_def)
  have "receipt_Validate (fill (s_app s) (ac_Receipt (sample_accepted d line))) = Inr () \<and>
      approval_admissible es (fill (s_app s) (ac_Receipt (sample_accepted d line)))"
    by (rule Accept_admissible [OF ac _ _ v _ _ _ ap])
      (use e sample_store_app(6) [OF s(1)] sample_times in \<open>simp_all add: DefaultLimits_def ns_per_s_def id_ok_ascii es_def\<close>)
  with ac show ?thesis by blast
qed

end
