(* ===== verification/GatewayWitnesses.thy ===== *)
theory GatewayWitnesses
  imports GatewayScenario
begin

text \<open>
  The properties of the store and of the gateway, applied to the sample gateway: after a call that is
  recorded, after the tool has run, and after a held call was approved and resumed.
\<close>

section \<open>A call is recorded\<close>

lemma gateway_run_mono:
  "gateway_run cfg K ks good y es \<Longrightarrow> (\<And>s es e. good s es e \<Longrightarrow> good' s es e) \<Longrightarrow> gateway_run cfg K ks good' y es"
  by (induction rule: gateway_run.induct) (auto intro: gateway_run.intros)

lemma sample_prepared_weight:
  assumes "sample_store es s" "length es = 0" "res \<in> {Allow, RequireApproval}"
  shows "weight (json_of_receipt (fill (s_app s) (stamped (pr_receipt (sample_prepared res [])) (time_of sample_ts)))) < 60000"
proof -
  have n: "length (show_int 0) = 1" "length (show_int 1) = 1" by code_simp+
  have t: "length sample_ts = 24" by (simp add: sample_ts_def)
  have l: "length res \<le> 16" using assms(3) by (auto simp: receipt_consts)
  show ?thesis
    using sample_store_app [OF assms(1)] assms(2) l t digest_Valid_length [OF sample_store_app(6) [OF assms(1)]]
      digest_Valid_length [OF sample_texts(1)] digest_Valid_length [OF sample_texts(2)] digest_Valid_length [OF sample_texts(3)]
    by (simp add: json_of_defs sample_prepared_def Let_def decision_receipt_def fill_def stamped_def format_time_of ts_valid n
        sample_claims_def receipt_Domain_def receipt_consts receipt_Version_def)
qed

lemma sample_well_signed:
  assumes "sample_store [] s" "res \<in> {Allow, RequireApproval}"
    "store_Append toy s (stamped (pr_receipt (sample_prepared res [])) (time_of sample_ts)) True = (s', Inr x)"
  shows "well_signed toy toy_keys () s [] (store_entry s (ap_Line x) (stamped (pr_receipt (sample_prepared res [])) (time_of sample_ts)))"
proof -
  let ?r = "stamped (pr_receipt (sample_prepared res [])) (time_of sample_ts)"
  note a = sample_store_app [OF assms(1)]
  have u: "receipt_utf8 (fill (s_app s) ?r)" by (rule sample_decision_written(2) [OF assms(1,2)])
  obtain sg a' where "Append toy (s_app s) ?r = (a', Inr (sg, ap_Line x))"
    using store_Append_Inr [OF _ assms(3), of "[]"] assms(1) by (auto simp: sample_store_def)
  then have "plain_line (ap_Line x)"
    using line_plain [OF _ a(1,2) u sample_prepared_weight [OF assms(1) _ assms(2)]] by auto
  moreover have "r_type ?r = TypeDecision" "r_result ?r = None" by (simp_all add: sample_prepared_def Let_def decision_receipt_def stamped_def)
  ultimately show ?thesis
    using assms(1) u toy_signer_ok by (simp add: well_signed_def sample_store_def sample_key_accepted utf8_valid_ascii in_time_def types_distinct fill_def)
qed

lemma sample_recorded:
  assumes "res \<in> {Allow, RequireApproval}"
  shows "\<exists>y e resp. gateway_run (toy_config res) toy_keys () (well_signed toy toy_keys ()) y [e] \<and>
    sample_store [e] (gw_store (sy_gw y)) \<and> r_ts (e_rcpt e) = sample_ts \<and> decision_at [e] 0 = Some (e_rcpt e) \<and>
    result_of (e_rcpt e) = res \<and> sy_calls y = [] \<and>
    sy_threads y = (if res = Allow then [Executing (sample_pending res 0) resp False] else []) \<and>
    gw_pending (sy_gw y) = (if res = Allow then [] else [(0, sample_pending res 0)]) \<and> (\<forall>t. taintOf (sy_gw y) t = [])"
proof -
  obtain s0 where s0: "sample_store [] s0" using toy_store by blast
  have h0: "store_holds toy [] s0" "s_chainID s0 = ''c1''" using s0 by (simp_all add: sample_store_def)
  define y0 :: "unit system" where "y0 = \<lparr>sy_gw = fresh_gateway s0, sy_threads = [], sy_calls = []\<rparr>"
  let ?cfg = "toy_config res" and ?good = "well_signed toy toy_keys ()" and ?pr = "sample_prepared res []"
  have r0: "gateway_run ?cfg toy_keys () ?good y0 []" unfolding y0_def
    by (rule gateway_run.started) (use h0 in \<open>simp_all add: log_ok_def utf8_valid_ascii\<close>)
  obtain g1 where o: "Call_open ?cfg (sy_gw y0) sample_ce [] ''s'' ''t'' ''{}'' = (g1, Inr ?pr)" and sc: "same_calls (sy_gw y0) g1"
    using sample_Call_open [OF assms, of "sy_gw y0"] by (auto simp: y0_def taintOf_def fresh_gateway_def)
  define y1 where "y1 = y0\<lparr>sy_gw := g1, sy_threads := [Prepared ?pr]\<rparr>"
  have "gateway_step ?cfg (y0, []) (y1, [])"
    using gateway_step.call_opened [OF o, of "[]"] by (simp add: y1_def y0_def)
  then have r1: "gateway_run ?cfg toy_keys () ?good y1 []" by (rule gateway_run.stepped [OF r0]) simp
  have s1: "sample_store [] (gw_store g1)" "gw_pending g1 = []" "gw_taint g1 = (\<lambda>_. [])"
    using sc s0 same_log_holds [of s0 "gw_store g1" toy "[]"] by (simp_all add: y0_def fresh_gateway_def same_calls_def sample_store_def same_log_def)
  let ?r = "stamped (pr_receipt ?pr) (time_of sample_ts)"
  obtain g2 e resp where rec: "Call_record ?cfg g1 ?pr (time_of sample_ts) True = (g2, Inr (resp, if res = Allow then Some (sample_pending res 0) else None))"
    "sample_store [e] (gw_store g2)" "r_ts (e_rcpt e) = sample_ts" "gw_taint g2 = gw_taint g1"
    "gw_pending g2 = (if res = Allow then gw_pending g1 else AList.update 0 (sample_pending res 0) (gw_pending g1))"
    "log_after (gw_store g1) (gw_store g2) [] ?r = [e]" "e_rcpt e = fill (s_app (gw_store g1)) ?r"
    using sample_Call_record [OF s1(1) _ _ assms] by (auto simp: last_ts_def)
  define y2 where "y2 = y1\<lparr>sy_gw := g2, sy_threads := (if res = Allow then [Executing (sample_pending res 0) resp False] else [])\<rparr>"
  have g1': "sy_gw y1 = g1" by (simp add: y1_def)
  have st: "gateway_step ?cfg (y1, []) (y2, [e])"
    using gateway_step.call_recorded [of y1 "[]" ?pr "[]" ?cfg "time_of sample_ts" True g2 _ "[]"] rec(1,6)
    by (simp add: g1' y1_def y2_def split: if_splits)
  have ws: "well_signed toy toy_keys () (gw_store (sy_gw y1)) [] e"
  proof -
    obtain x where x: "store_Append toy (gw_store g1) ?r True = (gw_store g2, Inr x)"
      using rec(1) assms by (auto simp: Call_record_def appendReceipt_def stamped_def Let_def receipt_consts split: prod.splits sum.splits if_splits)
    then have "e = store_entry (gw_store g1) (ap_Line x) ?r"
      using log_after_Append [OF _ x same_log_refl, of "[]"] s1(1) rec(6) by (simp add: sample_store_def)
    then show ?thesis using sample_well_signed [OF s1(1) assms x] by (simp add: g1')
  qed
  have r2: "gateway_run ?cfg toy_keys () ?good y2 [e]" by (rule gateway_run.stepped [OF r1 st]) (use ws in simp)
  have "decision_at [e] 0 = Some (e_rcpt e)" "result_of (e_rcpt e) = res"
    by (simp_all add: decision_at_def rec(7) result_of_def sample_prepared_def Let_def decision_receipt_def stamped_def fill_def)
  with r2 rec s1 show ?thesis
    by (intro exI [of _ y2] exI [of _ e] exI [of _ resp]) (simp add: y2_def y1_def y0_def taintOf_def)
qed

theorem gateway_log_verifies_witness:
  "\<exists>(y :: unit system) e. store_VerifyWithKeys toy (gw_store (sy_gw y)) toy_keys () =
    Inr (report_of toy (s_chainID (gw_store (sy_gw y))) [] [e], keys_after toy_keys () [e])"
proof -
  obtain y e where "gateway_run (toy_config Allow) toy_keys () (well_signed toy toy_keys ()) y [e]"
    using sample_recorded [of Allow] by blast
  from gateway_log_verifies [where cfg = "toy_config Allow", unfolded toy_config_simps, OF this toy_ok(2)]
  show ?thesis by blast
qed

section \<open>The tool runs\<close>

definition sample_output :: bytes where
  "sample_output = ''key hunter2hunter2''"

definition sample_ee :: "bool \<Rightarrow> string \<Rightarrow> exec_env" where
  "sample_ee ok now = \<lparr>ee_Sources = sample_sources, ee_Manifest = Some sample_manifest,
     ee_Result = Some \<lparr>tr_Content = sample_output, tr_IsError = False, tr_Authors = [''eve'']\<rparr>,
     ee_Salt = sample_salt, ee_OpeningOk = True, ee_Now = time_of now, ee_AppendOk = ok\<rparr>"

definition sample_uc :: "int \<Rightarrow> upstream_call" where
  "sample_uc n = \<lparr>uc_Server = ''s'', uc_Tool = ''t'', uc_Args = ''{}'', uc_Creds = [sample_credential\<lparr>cr_Inject := ''header''\<rparr>], uc_Decision = n,
     uc_Manifest = sample_pin\<rparr>"

lemma sample_For: "broker_For (sample_broker\<lparr>br_sources := sample_sources\<rparr>) ''s'' ''t'' = Inr [sample_credential\<lparr>cr_Inject := ''header''\<rparr>]"
proof -
  have "cut_at (CHR '':'') ''env:WARDEN_SECRET_K'' = (''env'', ''WARDEN_SECRET_K'', True)" by code_simp
  then have "resolve sample_sources ''env:WARDEN_SECRET_K'' = Inr ''hunter2hunter2''"
    by (simp add: resolve_def sample_sources_def maxSecretSize_def breaks_line_def)
  then show ?thesis by (simp add: broker_For_def sample_broker_def add_credential_def sample_bd_def sample_credential_def)
qed

definition sample_outcome :: outcome where
  "sample_outcome = Returned \<lparr>tr_Content = sample_output, tr_IsError = False, tr_Authors = [''eve'']\<rparr> [sample_credential\<lparr>cr_Inject := ''header''\<rparr>]"

definition sample_like :: "int \<Rightarrow> pending_call \<Rightarrow> bool" where
  "sample_like n p \<longleftrightarrow> pc_server p = ''s'' \<and> pc_tool p = ''t'' \<and> pc_args p = ''{}'' \<and> r_task_id (pc_decision p) = ''job'' \<and>
     r_actor (pc_decision p) = Some sample_botactor \<and> r_call (pc_decision p) = Some sample_callrec \<and> r_seq (pc_decision p) = n"

lemma sample_pending_like: "sample_like n (sample_pending res n)" "sample_like n p \<Longrightarrow> sample_like n (p\<lparr>pc_approval := a\<rparr>)"
  "sample_like n p \<Longrightarrow> sample_like n (p\<lparr>pc_running := b\<rparr>)"
  by (simp_all add: sample_like_def sample_held_simps) (simp add: sample_pending_def)

lemma sample_exec_tool: "sample_like n p \<Longrightarrow> exec_tool (toy_config res) p (sample_ee ok now) = ([sample_uc n], sample_outcome)"
  by (simp add: exec_tool_def sample_ee_def sample_like_def sample_For sample_check sample_callrec_def sample_uc_def
      sample_outcome_def sample_output_def utf8_valid_ascii)

lemma sample_Scrub: "Scrub sample_output [sample_credential\<lparr>cr_Inject := ''header''\<rparr>] = (''key [REDACTED:credential]'', True)"
  by code_simp

definition sample_labels :: "string list" where
  "sample_labels = [''credential_echo'', ''foreign_principal'', ''web'']"

definition sample_sealed :: sealed where
  "sample_sealed = \<lparr>se_status = StatusOK, se_commitment = digest_SHA256 (sha256 toy) (sample_salt @ marshal (JStr ''key [REDACTED:credential]'')),
     se_content = ''key [REDACTED:credential]'', se_labels = sample_labels\<rparr>"

lemma sample_result_labels:
  assumes "sample_like n p"
  shows "result_labels (toy_config res) p \<lparr>tr_Content = sample_output, tr_IsError = False, tr_Authors = [''eve'']\<rparr> c True = sample_labels"
proof -
  have "remdups_adj (sort [''web'', TaintCredentialEcho, TaintForeignPrincipal]) = sample_labels" by code_simp
  then show ?thesis using assms by (simp add: result_labels_def sample_like_def sample_botactor_def Let_def)
qed

lemma sample_exec_seal:
  assumes "sample_like n p"
  shows "\<exists>g' resp'. exec_seal (toy_config res) g p resp sample_outcome (sample_ee ok now) = (g', Inr (resp', sample_sealed)) \<and> same_calls g g'"
proof -
  let ?j = "JStr ''key [REDACTED:credential]''"
  have "commit_New toy sample_salt ?j = Inr (se_commitment sample_sealed, sample_salt)"
    by (simp add: commit_New_Inr commit_Compute_Inr canonical_Encode_toy sample_salt_def SaltSize_def utf8_valid_ascii sample_sealed_def)
  moreover have "digest_Valid (se_commitment sample_sealed)" by (simp add: sample_sealed_def)
  then obtain g' where "save_opening g (se_commitment sample_sealed) sample_salt ''key [REDACTED:credential]'' True = (g', Inr ())"
    by (auto simp: save_opening_def SaveOpening_def Let_def)
  ultimately have "exec_seal (toy_config res) g p resp sample_outcome (sample_ee ok now) =
      (g', Inr (resp\<lparr>rs_CredentialScrubbed := True, rs_Status := Ok\<rparr>, sample_sealed))"
    by (simp add: exec_seal_def sample_outcome_def sample_Scrub sample_result_labels [OF assms] sample_ee_def)
      (simp add: sample_sealed_def)
  with exec_seal_effect [OF this] show ?thesis by blast
qed

lemma sample_result_written:
  assumes "sample_store es s" "sample_like n p" "0 \<le> n" "n < int (length es)" "valid_ts now" "ascii now"
  shows "receipt_Validate (fill (s_app s) (stamped (result_receipt p sample_sealed) (time_of now))) = Inr ()"
    "receipt_utf8 (fill (s_app s) (stamped (result_receipt p sample_sealed) (time_of now)))"
proof -
  note a = sample_store_app [OF assms(1)] and l = format_time_of [OF assms(5)]
  let ?r = "fill (s_app s) (stamped (result_receipt p sample_sealed) (time_of now))"
  have len: "length es < 1000" using assms(1) by (simp add: sample_store_def)
  have d: "digest_Valid (se_commitment sample_sealed)" by (simp add: sample_sealed_def)
  have "header_ok ?r"
    using a len assms(5) by (simp add: header_ok_def result_receipt_def fill_def stamped_def l id_ok_ascii receipt_Version_def)
  moreover have "context_ok ?r sample_botactor sample_callrec"
    using assms(2) by (simp add: context_ok_def result_receipt_def fill_def stamped_def sample_like_def sample_botactor_def
        sample_callrec_def id_ok_ascii sample_texts)
  moreover have "result_ok ?r \<lparr>res_decision_seq = n, res_status = StatusOK, res_commitment = se_commitment sample_sealed, res_taint = sample_labels\<rparr>"
    using assms(2-4) a(4) d by (simp add: result_ok_def result_receipt_def fill_def stamped_def sample_like_def)
      (simp add: sample_sealed_def sample_labels_def id_ok_ascii)
  moreover have "r_type ?r = TypeResult" by (simp add: result_receipt_def)
  ultimately show "receipt_Validate ?r = Inr ()" using Validate_result by blast
  show "receipt_utf8 ?r"
    using a digest_Valid_ascii [OF a(6)] digest_Valid_ascii [OF d] assms(2,6)
    by (simp add: receipt_utf8_def json_of_defs result_receipt_def fill_def stamped_def l sample_like_def sample_botactor_def
        sample_callrec_def utf8_valid_ascii sample_texts receipt_Domain_def receipt_consts)
      (simp add: sample_sealed_def sample_labels_def utf8_valid_ascii receipt_consts)
qed

lemma sample_result_weight:
  assumes "sample_store es s" "sample_like 0 p" "length es = 2" "valid_ts now" "length now = 24"
  shows "weight (json_of_receipt (fill (s_app s) (stamped (result_receipt p sample_sealed) (time_of now)))) < 60000"
proof -
  have n: "length (show_int 0) = 1" "length (show_int 1) = 1" "length (show_int 2) = 1" by code_simp+
  have d: "digest_Valid (se_commitment sample_sealed)" by (simp add: sample_sealed_def)
  have l: "se_labels sample_sealed = sample_labels" "se_status sample_sealed = StatusOK" by (simp_all add: sample_sealed_def)
  show ?thesis
    using sample_store_app [OF assms(1)] assms(2,3,5) digest_Valid_length [OF sample_store_app(6) [OF assms(1)]] digest_Valid_length [OF d]
      digest_Valid_length [OF sample_texts(1)] digest_Valid_length [OF sample_texts(2)]
    by (simp add: json_of_defs result_receipt_def sample_like_def fill_def stamped_def format_time_of assms(4) n l sample_labels_def
        sample_botactor_def sample_callrec_def receipt_Domain_def receipt_consts receipt_Version_def)
qed

lemma sample_result_plain:
  assumes "sample_store es s" "sample_like 0 p" "length es = 2" "valid_ts now" "ascii now" "length now = 24"
    and "store_Append toy s (stamped (result_receipt p sample_sealed) (time_of now)) True = (s', Inr x)"
  shows "plain_line (ap_Line x)"
proof -
  let ?r = "stamped (result_receipt p sample_sealed) (time_of now)"
  note a = sample_store_app [OF assms(1)]
  have u: "receipt_utf8 (fill (s_app s) ?r)" by (rule sample_result_written(2) [OF assms(1,2) _ _ assms(4,5)]) (simp_all add: assms(3))
  obtain sg a' where "Append toy (s_app s) ?r = (a', Inr (sg, ap_Line x))"
    using store_Append_Inr [OF _ assms(7), of es] assms(1) by (auto simp: sample_store_def)
  then show ?thesis using line_plain [OF _ a(1,2) u sample_result_weight [OF assms(1-4,6)]] by auto
qed

lemma sample_exec_record:
  assumes "sample_store es (gw_store g)" "sample_like n p" "0 \<le> n" "n < int (length es)" "valid_ts now" "ascii now"
    "last_ts es \<le> now" "length es < 999"
  shows "\<exists>g' e resp'. exec_record (toy_config res) g p resp sample_sealed (time_of now) True = (g', Inr resp') \<and>
    rs_Result resp' = ''key [REDACTED:credential]'' \<and> sample_store (es @ [e]) (gw_store g') \<and> gw_pending g' = gw_pending g \<and>
    log_after (gw_store g) (gw_store g') es (stamped (result_receipt p sample_sealed) (time_of now)) = es @ [e] \<and>
    (n = 0 \<longrightarrow> length es = 2 \<longrightarrow> length now = 24 \<longrightarrow> plain_line (e_line e))"
proof -
  let ?r = "stamped (result_receipt p sample_sealed) (time_of now)"
  have t: "r_type ?r \<noteq> TypeKeyRotation" "r_ts ?r = now"
    by (simp_all add: result_receipt_def stamped_def receipt_consts format_time_of assms(5))
  obtain s' a where a: "store_Append toy (gw_store g) ?r True = (s', Inr a)"
    "sample_store (es @ [store_entry (gw_store g) (ap_Line a) ?r]) s'"
    "log_after (gw_store g) s' es ?r = es @ [store_entry (gw_store g) (ap_Line a) ?r]"
    using sample_append [OF assms(1) t(1) sample_result_written(2,1) [OF assms(1-6)]] assms(7,8) t(2) by auto
  have "appendReceipt toy g (result_receipt p sample_sealed) (time_of now) True = (g\<lparr>gw_store := s'\<rparr>, Inr a)"
    using a(1) by (simp add: appendReceipt_def stamped_def)
  moreover have "se_content sample_sealed = ''key [REDACTED:credential]''" by (simp add: sample_sealed_def)
  moreover have "n = 0 \<Longrightarrow> length es = 2 \<Longrightarrow> length now = 24 \<Longrightarrow> plain_line (ap_Line a)"
    using sample_result_plain [OF assms(1) _ _ assms(5,6) _ a(1)] assms(2) by simp
  ultimately show ?thesis using a(2,3)
    by (intro exI [of _ "g\<lparr>gw_store := s'\<rparr>"] exI [of _ "store_entry (gw_store g) (ap_Line a) ?r"]) (simp add: exec_record_def)
qed

section \<open>After an allowed call\<close>

lemma sample_tool_called:
  "\<exists>y e. gateway_run (toy_config Allow) toy_keys () (\<lambda>_ _ _. True) y [e] \<and> (1, sample_uc 0) \<in> set (sy_calls y) \<and>
     decision_at [e] 0 = Some (e_rcpt e) \<and> result_of (e_rcpt e) = Allow"
proof -
  let ?cfg = "toy_config Allow" and ?p = "sample_pending Allow 0"
  obtain y e resp where y: "gateway_run ?cfg toy_keys () (well_signed toy toy_keys ()) y [e]" "sample_store [e] (gw_store (sy_gw y))"
    "decision_at [e] 0 = Some (e_rcpt e)" "result_of (e_rcpt e) = Allow" "sy_calls y = []" "sy_threads y = [Executing ?p resp False]"
    using sample_recorded [of Allow] by auto
  have t: "exec_tool ?cfg ?p (sample_ee True sample_ts) = ([sample_uc 0], sample_outcome)"
    by (rule sample_exec_tool) (rule sample_pending_like)
  have n: "store_Next (gw_store (sy_gw y)) = 1" using sample_store_app(4) [OF y(2)] by (simp add: store_Next_def)
  define y' where "y' = y\<lparr>sy_threads := [Called ?p resp False sample_outcome], sy_calls := [(1, sample_uc 0)]\<rparr>"
  have s: "gateway_step ?cfg (y, [e]) (y', [e])"
    using gateway_step.tool_called [OF _ t, of y "[]" resp False "[]" "[e]"] y(5,6) n by (simp add: y'_def)
  have "gateway_run ?cfg toy_keys () (\<lambda>_ _ _. True) y [e]" by (rule gateway_run_mono [OF y(1)]) simp
  then have "gateway_run ?cfg toy_keys () (\<lambda>_ _ _. True) y' [e]" by (rule gateway_run.stepped [OF _ s]) simp
  with y(3,4) show ?thesis by (intro exI [of _ y'] exI [of _ e]) (simp add: y'_def)
qed

theorem gateway_calls_authorised_witness:
  "\<exists>(y :: unit system) es. (1, sample_uc 0) \<in> set (sy_calls y) \<and> covered (take 1 es) (sample_uc 0)"
proof -
  obtain y :: "unit system" and e where "gateway_run (toy_config Allow) toy_keys () (\<lambda>_ _ _. True) y [e]" "(1, sample_uc 0) \<in> set (sy_calls y)"
    using sample_tool_called by blast
  from gateway_calls_authorised [where cfg = "toy_config Allow", unfolded toy_config_simps, OF this(1) toy_ok(2) this(2)] this(2)
  show ?thesis by (intro exI [of _ y] exI [of _ "[e]"]) simp
qed

theorem allowed_call_runs_once_witness:
  "\<exists>(y :: unit system). (1, sample_uc 0) \<in> set (sy_calls y) \<and> length (filter (\<lambda>(n, uc). uc_Decision uc = 0) (sy_calls y)) \<le> 1"
proof -
  obtain y :: "unit system" and e where "gateway_run (toy_config Allow) toy_keys () (\<lambda>_ _ _. True) y [e]" "(1, sample_uc 0) \<in> set (sy_calls y)"
    "decision_at [e] 0 = Some (e_rcpt e)" "result_of (e_rcpt e) = Allow"
    using sample_tool_called by blast
  from allowed_call_runs_once [where cfg = "toy_config Allow", unfolded toy_config_simps, OF this(1) toy_ok(2) this(3,4)] this(2)
  show ?thesis by (intro exI [of _ y]) simp
qed

theorem cached_validator_pinned_witness:
  "\<exists>y :: unit system. gw_validators (sy_gw y) sample_pin = Some () \<and> (\<exists>m. Manifest_Digest toy m = Inr sample_pin \<and>
    sample_registry (Manifest_ID m) = Some sample_pin \<and> Compile toy_schemas (m_InputSchema m) = Inr ())"
proof -
  obtain s0 where s0: "sample_store [] s0" using toy_store by blast
  define y0 :: "unit system" where "y0 = \<lparr>sy_gw = fresh_gateway s0, sy_threads = [], sy_calls = []\<rparr>"
  have r0: "gateway_run (toy_config Allow) toy_keys () (\<lambda>_ _ _. True) y0 []" unfolding y0_def
    by (rule gateway_run.started) (use s0 in \<open>simp_all add: sample_store_def log_ok_def utf8_valid_ascii\<close>)
  obtain g1 where o: "Call_open (toy_config Allow) (sy_gw y0) sample_ce [] ''s'' ''t'' ''{}'' = (g1, Inr (sample_prepared Allow (taintOf (sy_gw y0) ''job'')))"
    "gw_validators g1 sample_pin = Some ()"
    using sample_Call_open [of Allow "sy_gw y0"] by auto
  define y1 where "y1 = y0\<lparr>sy_gw := g1, sy_threads := [Prepared (sample_prepared Allow (taintOf (sy_gw y0) ''job''))]\<rparr>"
  have "gateway_step (toy_config Allow) (y0, []) (y1, [])"
    using gateway_step.call_opened [OF o(1), of "[]"] by (simp add: y1_def y0_def)
  then have "gateway_run (toy_config Allow) toy_keys () (\<lambda>_ _ _. True) y1 []" by (rule gateway_run.stepped [OF r0]) simp
  from cached_validator_pinned [OF this, unfolded toy_config_simps] o(2) show ?thesis
    by (intro exI [of _ y1]) (simp add: y1_def)
qed

theorem agent_sees_no_credential_witness:
  "\<exists>resp' :: response. rs_Result resp' = ''key [REDACTED:credential]'' \<and> \<not> sublist ''hunter2hunter2'' (rs_Result resp')"
proof -
  obtain y :: "unit system" and e and resp :: response where y: "sample_store [e] (gw_store (sy_gw y))" "r_ts (e_rcpt e) = sample_ts"
    using sample_recorded [of Allow] by auto
  let ?cfg = "toy_config Allow" and ?p = "sample_pending Allow 0" and ?ee = "sample_ee True sample_ts"
  have p: "sample_like 0 ?p" by (rule sample_pending_like)
  obtain g1 resp1 where s: "exec_seal ?cfg (sy_gw y) ?p resp sample_outcome ?ee = (g1, Inr (resp1, sample_sealed))" "same_calls (sy_gw y) g1"
    using sample_exec_seal [OF p] by blast
  have "sample_store [e] (gw_store g1)"
    using y(1) s(2) same_log_holds [of "gw_store (sy_gw y)" "gw_store g1" toy "[e]"] by (simp add: same_calls_def sample_store_def same_log_def)
  then obtain g2 resp2 where r: "exec_record ?cfg g1 ?p resp1 sample_sealed (time_of sample_ts) True = (g2, Inr resp2)"
    "rs_Result resp2 = ''key [REDACTED:credential]''"
    using sample_exec_record [of "[e]" g1 0 ?p sample_ts Allow resp1] p y(2) ts_valid ts_ascii by (auto simp: last_ts_def)
  have x: "execute ?cfg (sy_gw y) ?p resp ?ee = (addTaint g2 ''job'' (se_labels sample_sealed), [sample_uc 0], Inr resp2)"
    using s(1) r(1) p by (simp add: execute_def sample_exec_tool) (simp add: sample_ee_def sample_like_def)
  have "\<not> sublist ''hunter2hunter2'' (rs_Result resp2)"
    by (rule agent_sees_no_credential [OF x, of "sample_uc 0" "sample_credential\<lparr>cr_Inject := ''header''\<rparr>"])
      (simp_all add: sample_uc_def sample_secret minScrubLen_def scrub_forms_def sample_scrubbable)
  with r(2) show ?thesis by (intro exI [of _ resp2]) simp
qed

section \<open>After a held call was approved and resumed\<close>

lemma sample_approval_written:
  assumes "sample_store [e] s" "held_like 0 d" "digest_Valid dg"
  shows "receipt_Validate (fill (s_app s) (approval_receipt d (sample_statement 0) sample_ts dg)) = Inr ()"
    "receipt_utf8 (fill (s_app s) (approval_receipt d (sample_statement 0) sample_ts dg))"
proof -
  note a = sample_store_app [OF assms(1)]
  let ?r = "fill (s_app s) (approval_receipt d (sample_statement 0) sample_ts dg)"
  have "header_ok ?r"
    using a ts_valid by (simp add: header_ok_def approval_receipt_def fill_def id_ok_ascii receipt_Version_def)
  moreover have "context_ok ?r sample_botactor sample_callrec"
    using assms(2) by (simp add: context_ok_def approval_receipt_def fill_def held_like_def sample_botactor_def
        sample_callrec_def id_ok_ascii sample_texts)
  moreover have "approval_ok ?r \<lparr>a_decision_seq = 0, a_outcome = Approved, a_approver = ''bob'', a_statement = dg, a_expires_ts = expiry_ts\<rparr>"
    using assms(2,3) a(4) ts_order ts_valid by (simp add: approval_ok_def approval_receipt_def fill_def held_like_def sample_statement_def id_ok_ascii)
  moreover have "r_type ?r = TypeApproval" by simp
  ultimately show "receipt_Validate ?r = Inr ()" using Validate_approval by blast
  show "receipt_utf8 ?r"
    using a digest_Valid_ascii [OF a(6)] digest_Valid_ascii [OF assms(3)] assms(2)
    by (simp add: receipt_utf8_def json_of_defs approval_receipt_def fill_def held_like_def sample_botactor_def sample_statement_def
        sample_callrec_def utf8_valid_ascii sample_texts ts_ascii receipt_Domain_def receipt_consts)
qed

lemma sample_approval_weight:
  assumes "sample_store [e] s" "held_like 0 d" "digest_Valid dg"
  shows "weight (json_of_receipt (fill (s_app s) (approval_receipt d (sample_statement 0) sample_ts dg))) < 60000"
proof -
  have n: "length (show_int 0) = 1" "length (show_int 1) = 1" by code_simp+
  have t: "length sample_ts = 24" "length expiry_ts = 24" by (simp_all add: sample_ts_def expiry_ts_def)
  show ?thesis
    using sample_store_app [OF assms(1)] assms(2) digest_Valid_length [OF sample_store_app(6) [OF assms(1)]] digest_Valid_length [OF assms(3)]
      digest_Valid_length [OF sample_texts(1)] digest_Valid_length [OF sample_texts(2)]
    by (simp add: json_of_defs approval_receipt_def held_like_def fill_def n t sample_statement_def
        sample_botactor_def sample_callrec_def receipt_Domain_def receipt_consts receipt_Version_def)
qed

lemma sample_checked:
  assumes "gw_pending g = [(0, sample_pending RequireApproval 0)]" "statement_Sign toy (Some toy_signer) (sample_statement 0) = Inr sg"
    "signed_Line toy sg = Inr line" "ParseLine toy line = Inr sg"
  shows "Approve_check (toy_config RequireApproval) g line (time_of sample_ts) =
    Inr (0, sample_accepted (pc_decision (sample_pending RequireApproval 0)) line)"
proof -
  let ?k = "\<lambda>kid. if kid = ''bob'' then Some toy_public else None"
  have "Accept toy sg (pc_decision (sample_pending RequireApproval 0)) ?k (time_of sample_ts) DefaultLimits =
      Inr (sample_accepted (pc_decision (sample_pending RequireApproval 0)) line)"
    by (rule sample_Accept [OF assms(2,3) _ sample_held_like]) simp
  moreover have "statement_Verify toy sg ?k = Inr (sample_statement 0)" by (rule sample_statement_verifies [OF assms(2)]) simp
  ultimately show ?thesis by (simp add: Approve_check_def assms(1,4)) (simp add: sample_statement_def sample_pending_def)
qed

lemma sample_approved:
  assumes "sample_store [e] (gw_store g)" "gw_pending g = [(0, sample_pending RequireApproval 0)]" "r_ts (e_rcpt e) = sample_ts"
  shows "\<exists>sg line acc ap g' e'. statement_Sign toy (Some toy_signer) (sample_statement 0) = Inr sg \<and> signed_Line toy sg = Inr line \<and>
    Approve_check (toy_config RequireApproval) g line (time_of sample_ts) = Inr (0, acc) \<and>
    Approve_record (toy_config RequireApproval) g 0 acc True True = (g', Inr ap) \<and>
    a_outcome ap = Approved \<and> a_expires_ts ap = expiry_ts \<and> gw_taint g' = gw_taint g \<and>
    gw_pending g' = [(0, (sample_pending RequireApproval 0)\<lparr>pc_approval := Some ap\<rparr>)] \<and>
    log_after (gw_store g) (gw_store g') [e] (ac_Receipt acc) = [e, e'] \<and> sample_store [e, e'] (gw_store g') \<and>
    r_ts (e_rcpt e') = sample_ts \<and>
    (signer_after [e] = ''k1'' \<longrightarrow> well_signed toy toy_keys () (gw_store g) [e] e')"
proof -
  let ?cfg = "toy_config RequireApproval" and ?p = "sample_pending RequireApproval 0"
  obtain sg line where sg: "statement_Sign toy (Some toy_signer) (sample_statement 0) = Inr sg" "signed_Line toy sg = Inr line"
    "ParseLine toy line = Inr sg"
    using sample_signed [of 0] by auto
  let ?acc = "sample_accepted (pc_decision ?p) line"
  have chk: "Approve_check ?cfg g line (time_of sample_ts) = Inr (0, ?acc)" by (rule sample_checked [OF assms(2) sg])
  define dg where "dg = digest_SHA256 (sha256 toy) line"
  have r: "ac_Receipt ?acc = approval_receipt (pc_decision ?p) (sample_statement 0) sample_ts dg" "ac_StatementLine ?acc = line"
    by (simp_all add: sample_accepted_def Let_def dg_def sample_held_simps)
  obtain s1 d where s1: "SaveStatement toy (gw_store g) line True = (s1, Inr d)"
    by (auto simp: SaveStatement_def sg(2,3) Let_def)
  note sl = SaveStatement_same_log [OF s1]
  have st1: "sample_store [e] s1" using assms(1) sl same_log_holds [OF sl, of toy "[e]"] by (simp add: sample_store_def same_log_def)
  have dg: "digest_Valid dg" by (simp add: dg_def)
  note w = sample_approval_written [OF st1 sample_held_like dg]
  let ?r = "approval_receipt (pc_decision ?p) (sample_statement 0) sample_ts dg"
  have ty: "r_type ?r \<noteq> TypeKeyRotation" "r_ts ?r = sample_ts" by (simp_all add: receipt_consts) (simp add: approval_receipt_def)
  obtain s2 a where a: "store_Append toy s1 ?r True = (s2, Inr a)" "sample_store ([e] @ [store_entry s1 (ap_Line a) ?r]) s2"
    "log_after s1 s2 [e] ?r = [e] @ [store_entry s1 (ap_Line a) ?r]"
    using sample_append [OF st1 ty(1) w(2,1)] assms(3) ty(2) by (auto simp: last_ts_def)
  have la: "log_after (gw_store g) s2 [e] ?r = [e, store_entry s1 (ap_Line a) ?r]"
    using log_after_Append [OF _ a(1) sl, of "[e]"] st1 by (simp add: sample_store_def)
  obtain sg' a' where A: "Append toy (s_app s1) ?r = (a', Inr (sg', ap_Line a))"
    using store_Append_Inr [OF _ a(1), of "[e]"] st1 by (auto simp: sample_store_def)
  have pl: "plain_line (ap_Line a)"
    using line_plain [OF A _ _ w(2) sample_approval_weight [OF st1 sample_held_like dg]] sample_store_app [OF st1] by simp
  have ws: "well_signed toy toy_keys () (gw_store g) [e] (store_entry s1 (ap_Line a) ?r)" if "signer_after [e] = ''k1''"
  proof -
    have "r_type ?r = TypeApproval" "r_result ?r = None" by (simp_all add: approval_receipt_def)
    then show ?thesis using assms(1) that w(2) pl toy_signer_ok
      by (simp add: well_signed_def sample_store_def sample_key_accepted utf8_valid_ascii in_time_def types_distinct fill_def)
  qed
  define ap where "ap = \<lparr>a_decision_seq = 0, a_outcome = Approved, a_approver = ''bob'', a_statement = dg, a_expires_ts = expiry_ts\<rparr>"
  have ra: "r_approval ?r = Some ap" by (simp add: ap_def sample_held_simps sample_statement_def)
  have pa: "AList.map_entry 0 (\<lambda>p. p\<lparr>pc_approval := Some ap\<rparr>) (gw_pending g) = [(0, ?p\<lparr>pc_approval := Some ap\<rparr>)]"
    by (simp add: assms(2))
  let ?g = "g\<lparr>gw_store := s2, gw_pending := [(0, ?p\<lparr>pc_approval := Some ap\<rparr>)]\<rparr>"
  have "Approve_record ?cfg g 0 ?acc True True = (?g, Inr ap)"
    unfolding Approve_record_def r toy_config_simps s1 prod.case sum.case a(1) ra of_option_simps pa by simp
  with chk la a(2) show ?thesis
    by (intro exI [of _ sg] exI [of _ line] exI [of _ ?acc] exI [of _ ap] exI [of _ ?g] exI [of _ "store_entry s1 (ap_Line a) ?r"])
      (simp add: ap_def r ty(2) sg(1,2) ws)
qed

text \<open>The held call, answered and not yet resumed.\<close>

definition sample_answer :: "approval \<Rightarrow> pending_call" where
  "sample_answer ap = (sample_pending RequireApproval 0)\<lparr>pc_approval := Some ap\<rparr>"

lemma toy_log_signer:
  assumes "log_ok toy toy_keys () chainID revs [e]" "r_type (e_rcpt e) = TypeDecision"
  shows "signer_after [e] = ''k1''"
proof -
  have adm: "admissible toy toy_keys () chainID revs [] e" using log_okD [OF assms(1), of 0] by simp
  then have "e_kid e = ''k1''" by (auto simp: admissible_def authentic_def toy_keys_def StaticKeys_def split: if_splits)
  moreover have "r_rotation (e_rcpt e) = None"
    using Validate_refs(4) [OF admissible_Validate [OF adm]] assms(2) by (auto simp: types_distinct)
  ultimately show ?thesis by (simp add: signer_after_def)
qed

lemma sample_answered_signed:
  "\<exists>(y :: unit system) e e' ap. gateway_run (toy_config RequireApproval) toy_keys () (well_signed toy toy_keys ()) y [e, e'] \<and>
     sample_store [e, e'] (gw_store (sy_gw y)) \<and> r_ts (e_rcpt e') = sample_ts \<and> sy_threads y = [] \<and>
     gw_pending (sy_gw y) = [(0, sample_answer ap)] \<and> a_outcome ap = Approved \<and> a_expires_ts ap = expiry_ts"
proof -
  let ?cfg = "toy_config RequireApproval"
  obtain y :: "unit system" and e resp where y: "gateway_run ?cfg toy_keys () (well_signed toy toy_keys ()) y [e]"
    "sample_store [e] (gw_store (sy_gw y))" "r_ts (e_rcpt e) = sample_ts"
    "sy_threads y = (if RequireApproval = Allow then [Executing (sample_pending RequireApproval 0) resp False] else [])"
    "gw_pending (sy_gw y) = (if RequireApproval = Allow then [] else [(0, sample_pending RequireApproval 0)])"
    "decision_at [e] 0 = Some (e_rcpt e)"
    using sample_recorded [of RequireApproval] by blast
  have ne: "RequireApproval \<noteq> Allow" by (simp add: receipt_consts)
  have "log_ok toy toy_keys () (s_chainID (gw_store (sy_gw y))) [] [e]"
    using gateway_run_store_inv [of ?cfg toy_keys "()" y "[e]"] y(1) toy_ok(2) by (simp add: store_inv_def)
  then have sa: "signer_after [e] = ''k1''" by (rule toy_log_signer) (use y(6) in \<open>simp add: decision_at_def split: if_splits\<close>)
  obtain line acc ap g e' where a: "Approve_check ?cfg (sy_gw y) line (time_of sample_ts) = Inr (0, acc)"
    "Approve_record ?cfg (sy_gw y) 0 acc True True = (g, Inr ap)" "a_outcome ap = Approved" "a_expires_ts ap = expiry_ts"
    "gw_pending g = [(0, (sample_pending RequireApproval 0)\<lparr>pc_approval := Some ap\<rparr>)]"
    "log_after (gw_store (sy_gw y)) (gw_store g) [e] (ac_Receipt acc) = [e, e']" "sample_store [e, e'] (gw_store g)"
    "r_ts (e_rcpt e') = sample_ts" "well_signed toy toy_keys () (gw_store (sy_gw y)) [e] e'"
    using sample_approved [OF y(2) _ y(3)] y(5) ne sa by auto
  define y' where "y' = y\<lparr>sy_gw := g\<rparr>"
  have s: "gateway_step ?cfg (y, [e]) (y', [e, e'])"
    using gateway_step.approved [OF a(1,2), of "[e]"] a(6) by (simp add: y'_def)
  have "gateway_run ?cfg toy_keys () (well_signed toy toy_keys ()) y' [e, e']"
    by (rule gateway_run.stepped [OF y(1) s]) (use a(9) in simp)
  with a ne y(4) show ?thesis
    by (intro exI [of _ y'] exI [of _ e] exI [of _ e'] exI [of _ ap]) (simp add: y'_def sample_answer_def)
qed

lemma sample_answered:
  "\<exists>(y :: unit system) e e' ap. gateway_run (toy_config RequireApproval) toy_keys () (\<lambda>_ _ _. True) y [e, e'] \<and>
     sample_store [e, e'] (gw_store (sy_gw y)) \<and> r_ts (e_rcpt e') = sample_ts \<and> sy_threads y = [] \<and>
     gw_pending (sy_gw y) = [(0, sample_answer ap)] \<and> a_outcome ap = Approved \<and> a_expires_ts ap = expiry_ts"
proof -
  obtain y :: "unit system" and e e' ap where y: "gateway_run (toy_config RequireApproval) toy_keys () (well_signed toy toy_keys ()) y [e, e']"
    "sample_store [e, e'] (gw_store (sy_gw y))" "r_ts (e_rcpt e') = sample_ts" "sy_threads y = []"
    "gw_pending (sy_gw y) = [(0, sample_answer ap)]" "a_outcome ap = Approved" "a_expires_ts ap = expiry_ts"
    using sample_answered_signed by blast
  have "gateway_run (toy_config RequireApproval) toy_keys () (\<lambda>_ _ _. True) y [e, e']" by (rule gateway_run_mono [OF y(1)]) simp
  with y show ?thesis by blast
qed

lemma sample_answer_simps:
  "pc_decision (sample_answer ap) = pc_decision (sample_pending RequireApproval 0)" "\<not> pc_running (sample_answer ap)"
  "pc_approval (sample_answer ap) = Some ap"
  by (simp_all add: sample_answer_def) (simp add: sample_pending_def)

lemma sample_Resume_begin:
  assumes "gw_pending g = [(0, sample_answer ap)]" "a_outcome ap = Approved" "a_expires_ts ap = expiry_ts"
  shows "\<exists>resp. Resume_begin (toy_config RequireApproval) g [] 0 (time_of sample_ts) =
    (g\<lparr>gw_pending := [(0, (sample_answer ap)\<lparr>pc_running := True\<rparr>)]\<rparr>, Inr (resp, (sample_answer ap)\<lparr>pc_running := True\<rparr>))"
proof -
  obtain t where t: "VerifyTask toy task_x509 [] [] (time_of sample_ts) = Inr t" "t_claims t = sample_claims" using sample_task by blast
  show ?thesis using ts_order
    by (simp add: Resume_begin_def t assms sample_answer_simps sample_held_simps sample_claims_def sample_botactor_def
        format_time_of ts_valid Let_def not_le)
qed

lemma sample_answer_like: "sample_like 0 ((sample_answer ap)\<lparr>pc_running := b\<rparr>)"
  unfolding sample_answer_def by (intro sample_pending_like)

text \<open>The tool of the resumed call has run; its result is not yet in the log.\<close>

lemma sample_resumed:
  "\<exists>(y :: unit system) e e' ap resp. gateway_run (toy_config RequireApproval) toy_keys () (\<lambda>_ _ _. True) y [e, e'] \<and>
     sample_store [e, e'] (gw_store (sy_gw y)) \<and> r_ts (e_rcpt e') = sample_ts \<and>
     sy_threads y = [Sealed ((sample_answer ap)\<lparr>pc_running := True\<rparr>) resp True sample_sealed] \<and>
     map_of (gw_pending (sy_gw y)) 0 = Some ((sample_answer ap)\<lparr>pc_running := True\<rparr>) \<and> a_expires_ts ap = expiry_ts"
proof -
  let ?cfg = "toy_config RequireApproval"
  obtain y :: "unit system" and e e' ap where y: "gateway_run ?cfg toy_keys () (\<lambda>_ _ _. True) y [e, e']"
    "sample_store [e, e'] (gw_store (sy_gw y))" "r_ts (e_rcpt e') = sample_ts" "sy_threads y = []"
    "gw_pending (sy_gw y) = [(0, sample_answer ap)]" "a_outcome ap = Approved" "a_expires_ts ap = expiry_ts"
    using sample_answered by blast
  let ?p = "(sample_answer ap)\<lparr>pc_running := True\<rparr>" and ?ee = "sample_ee True sample_ts"
  define g1 where "g1 = (sy_gw y)\<lparr>gw_pending := [(0, ?p)]\<rparr>"
  obtain resp where b: "Resume_begin ?cfg (sy_gw y) [] 0 (time_of sample_ts) = (g1, Inr (resp, ?p))"
    using sample_Resume_begin [OF y(5,6,7)] by (auto simp: g1_def)
  define y1 where "y1 = y\<lparr>sy_gw := g1, sy_threads := [Executing ?p resp True]\<rparr>"
  have 1: "gateway_step ?cfg (y, [e, e']) (y1, [e, e'])"
    using gateway_step.resume_begun [OF b, of "[e, e']"] y(4) by (simp add: y1_def)
  define y2 where "y2 = y1\<lparr>sy_threads := [Called ?p resp True sample_outcome],
    sy_calls := sy_calls y1 @ map (Pair (store_Next (gw_store (sy_gw y1)))) [sample_uc 0]\<rparr>"
  have 2: "gateway_step ?cfg (y1, [e, e']) (y2, [e, e'])"
    using gateway_step.tool_called [OF _ sample_exec_tool [OF sample_answer_like [where ap = ap and b = True]],
        where y = y1 and ts = "[]" and resp = resp and b = True and us = "[]" and es = "[e, e']"]
    by (simp add: y2_def y1_def)
  obtain g3 resp3 where s: "exec_seal ?cfg (sy_gw y2) ?p resp sample_outcome ?ee = (g3, Inr (resp3, sample_sealed))" "same_calls (sy_gw y2) g3"
    using sample_exec_seal [OF sample_answer_like] by blast
  define y3 where "y3 = y2\<lparr>sy_gw := g3, sy_threads := [Sealed ?p resp3 True sample_sealed]\<rparr>"
  have 3: "gateway_step ?cfg (y2, [e, e']) (y3, [e, e'])"
    using gateway_step.result_sealed [OF _ s(1), where ts = "[]" and b = True and us = "[]" and es = "[e, e']"] by (simp add: y3_def y2_def)
  have r1: "gateway_run ?cfg toy_keys () (\<lambda>_ _ _. True) y1 [e, e']" by (rule gateway_run.stepped [OF y(1) 1]) simp
  have r2: "gateway_run ?cfg toy_keys () (\<lambda>_ _ _. True) y2 [e, e']" by (rule gateway_run.stepped [OF r1 2]) simp
  have r3: "gateway_run ?cfg toy_keys () (\<lambda>_ _ _. True) y3 [e, e']" by (rule gateway_run.stepped [OF r2 3]) simp
  have "gw_store (sy_gw y2) = gw_store (sy_gw y)" "gw_pending (sy_gw y2) = [(0, ?p)]" by (simp_all add: y2_def y1_def g1_def)
  then have "sample_store [e, e'] (gw_store g3)" "gw_pending g3 = [(0, ?p)]"
    using y(2) s(2) same_log_holds [of "gw_store (sy_gw y)" "gw_store g3" toy "[e, e']"]
    by (simp_all add: same_calls_def sample_store_def same_log_def)
  with r3 y(3,7) show ?thesis
    by (intro exI [of _ y3] exI [of _ e] exI [of _ e'] exI [of _ ap] exI [of _ resp3]) (simp add: y3_def)
qed

theorem late_result_breaks_log_witness:
  "\<exists>(g :: unit gateway) (g' :: unit gateway) ucs resp line. ucs \<noteq> [] \<and>
     gateway_Resume (toy_config RequireApproval) g [] 0 (time_of sample_ts) (sample_ee True late_ts) = (g', ucs, Inr resp) \<and>
     store_VerifyWithKeys toy (gw_store g) toy_keys () \<in> range Inr \<and> store_lines (gw_store g') = store_lines (gw_store g) @ [line] \<and>
     VerifyAll toy (store_Export (gw_store g')) ''c1'' toy_keys () [] [] \<notin> range Inr"
proof -
  let ?cfg = "toy_config RequireApproval" and ?ee = "sample_ee True late_ts"
  obtain y :: "unit system" and e e' ap where y: "gateway_run ?cfg toy_keys () (well_signed toy toy_keys ()) y [e, e']"
    "sample_store [e, e'] (gw_store (sy_gw y))" "r_ts (e_rcpt e') = sample_ts" "sy_threads y = []"
    "gw_pending (sy_gw y) = [(0, sample_answer ap)]" "a_outcome ap = Approved" "a_expires_ts ap = expiry_ts"
    using sample_answered_signed by blast
  let ?p = "(sample_answer ap)\<lparr>pc_running := True\<rparr>"
  define g1 where "g1 = (sy_gw y)\<lparr>gw_pending := [(0, ?p)]\<rparr>"
  obtain resp where b: "Resume_begin ?cfg (sy_gw y) [] 0 (time_of sample_ts) = (g1, Inr (resp, ?p))"
    using sample_Resume_begin [OF y(5,6,7)] by (auto simp: g1_def)
  have like: "sample_like 0 ?p" by (rule sample_answer_like)
  have t: "exec_tool ?cfg ?p ?ee = ([sample_uc 0], sample_outcome)" by (rule sample_exec_tool [OF like])
  obtain g2 resp2 where s: "exec_seal ?cfg g1 ?p resp sample_outcome ?ee = (g2, Inr (resp2, sample_sealed))" "same_calls g1 g2"
    using sample_exec_seal [OF like] by blast
  have st: "sample_store [e, e'] (gw_store g2)"
    using y(2) s(2) same_log_holds [of "gw_store (sy_gw y)" "gw_store g2" toy "[e, e']"]
    by (simp add: same_calls_def sample_store_def same_log_def g1_def)
  have ee: "ee_Now ?ee = time_of late_ts" "ee_AppendOk ?ee" "length late_ts = 24" by (simp_all add: sample_ee_def late_ts_def)
  obtain g3 e4 resp3 where x: "exec_record ?cfg g2 ?p resp2 sample_sealed (ee_Now ?ee) (ee_AppendOk ?ee) = (g3, Inr resp3)"
    "sample_store ([e, e'] @ [e4]) (gw_store g3)" "plain_line (e_line e4)"
    using sample_exec_record [OF st like, where now = late_ts and res = RequireApproval and resp = resp2]
      y(3) ts_valid ts_ascii ts_order ee by (auto simp: last_ts_def)
  have late: "pc_approval ?p = Some ap" "a_expires_ts ap < format_ts (ee_Now ?ee)"
    using y(7) ts_order ts_valid ee by (simp_all add: format_time_of sample_answer_simps)
  have u: "receipt_utf8 (fill (s_app (gw_store (sy_gw y))) (stamped (result_receipt ?p sample_sealed) (ee_Now ?ee)))"
    using sample_result_written(2) [OF y(2) like _ _ ts_valid(3) ts_ascii(3)] ee by simp
  have y1: "gateway_run ?cfg toy_keys () (well_signed (cf_C ?cfg) toy_keys ()) y [e, e']" "jcs_ok (jcs (cf_C ?cfg))"
    using y(1) toy_ok(2) by simp_all
  note all = late_result_breaks_log [where ?'k' = unit, OF y1 b t s(1) x(1) late u]
  then obtain g line where g: "gateway_Resume ?cfg (sy_gw y) [] 0 (time_of sample_ts) ?ee = (g, [sample_uc 0], Inr resp3)"
    "store_VerifyWithKeys toy (gw_store (sy_gw y)) toy_keys () \<in> range Inr"
    "store_lines (gw_store g) = store_lines (gw_store (sy_gw y)) @ [line]"
    "plain_line line \<longrightarrow> (\<forall>later. VerifyAll toy (store_Export (gw_store g) @ later) ''c1'' toy_keys () [] [] \<notin> range Inr)"
    unfolding toy_config_simps by blast
  have "gw_store g = gw_store g3"
    using g(1) b t s(1) x(1) by (auto simp: gateway_Resume_def execute_def Resume_end_def addTaint_def)
  then have "line = e_line e4"
    using g(3) y(2) x(2) by (simp add: sample_store_def store_lines_def ordered_rows_def store_holds_def rows_of_lines)
  with g(4) x(3) have "VerifyAll toy (store_Export (gw_store g) @ []) ''c1'' toy_keys () [] [] \<notin> range Inr" by blast
  with g show ?thesis by (intro exI [of _ "sy_gw y"] exI [of _ g] exI [of _ "[sample_uc 0]"] exI [of _ resp3] exI [of _ line]) simp
qed

lemma store_Append_failed: "store_holds C es s \<Longrightarrow> \<exists>s' x. store_Append C s r False = (s', Inl x)"
  by (auto simp: store_Append_def Let_def insert_row_def split: sum.split prod.split)

text \<open>The result of the resumed call cannot be written: the call can be resumed again.\<close>

theorem Resume_runs_again_witness:
  "\<exists>(g :: unit gateway) g' e p. gateway_Resume (toy_config RequireApproval) g [] 0 (time_of sample_ts) (sample_ee False sample_ts) =
      (g', [sample_uc 0], Inl e) \<and> gw_pending g = [(0, p)] \<and> gw_pending g' = gw_pending g \<and>
     fst (snd (gateway_Resume (toy_config RequireApproval) g' [] 0 (time_of sample_ts) (sample_ee False sample_ts))) = [sample_uc 0]"
proof -
  let ?cfg = "toy_config RequireApproval" and ?ee = "sample_ee False sample_ts"
  obtain y :: "unit system" and e e' ap where y: "gateway_run ?cfg toy_keys () (\<lambda>_ _ _. True) y [e, e']"
    "sample_store [e, e'] (gw_store (sy_gw y))" "gw_pending (sy_gw y) = [(0, sample_answer ap)]" "a_outcome ap = Approved" "a_expires_ts ap = expiry_ts"
    using sample_answered by blast
  let ?p = "(sample_answer ap)\<lparr>pc_running := True\<rparr>"
  obtain g1 resp where b: "Resume_begin ?cfg (sy_gw y) [] 0 (time_of sample_ts) = (g1, Inr (resp, ?p))"
    using sample_Resume_begin [OF y(3,4,5)] by blast
  obtain g2 resp2 where s: "exec_seal ?cfg g1 ?p resp sample_outcome ?ee = (g2, Inr (resp2, sample_sealed))" "same_calls g1 g2"
    using sample_exec_seal [OF sample_answer_like] by blast
  have "gw_store g1 = gw_store (sy_gw y)" using Resume_begin_Inr [OF b] by auto
  then have "store_holds toy [e, e'] (gw_store g2)"
    using y(2) s(2) same_log_holds [of "gw_store (sy_gw y)" "gw_store g2" toy "[e, e']"]
    by (simp add: same_calls_def sample_store_def)
  then have "\<exists>st x. store_Append toy (gw_store g2) ((result_receipt ?p sample_sealed)\<lparr>r_ts := format_ts (time_of sample_ts)\<rparr>) False = (st, Inl x)"
    by (rule store_Append_failed)
  then obtain g3 x where r: "exec_record ?cfg g2 ?p resp2 sample_sealed (time_of sample_ts) False = (g3, Inl x)"
    by (auto simp: exec_record_def appendReceipt_def)
  have "execute ?cfg g1 ?p resp ?ee = (g3, [sample_uc 0], Inl x)"
    using s(1) r by (simp add: execute_def sample_exec_tool [OF sample_answer_like]) (simp add: sample_ee_def)
  then have R: "gateway_Resume ?cfg (sy_gw y) [] 0 (time_of sample_ts) ?ee = (Resume_end g3 0 True, [sample_uc 0], Inl x)"
    by (simp add: gateway_Resume_def b)
  from Resume_runs_again [OF R] y(3) R show ?thesis
    by (intro exI [of _ "sy_gw y"] exI [of _ "Resume_end g3 0 True"] exI [of _ x] exI [of _ "sample_answer ap"]) simp
qed

theorem Resume_is_steps_witness:
  "\<exists>(y :: unit system) es. gw_pending (sy_gw y) \<noteq> [] \<and> (case gateway_Resume (toy_config RequireApproval) (sy_gw y) [] 0 (time_of sample_ts) (sample_ee True sample_ts) of
     (g, ucs, x) \<Rightarrow> reaches (toy_config RequireApproval) (y, es) g (sy_threads y) ucs)"
proof -
  let ?cfg = "toy_config RequireApproval"
  obtain y :: "unit system" and e e' ap where y: "gateway_run ?cfg toy_keys () (\<lambda>_ _ _. True) y [e, e']"
    "gw_pending (sy_gw y) = [(0, sample_answer ap)]"
    using sample_answered by blast
  have inv: "gw_inv ?cfg y [e, e']" by (rule gateway_run_inv [OF y(1)]) (use toy_ok(2) in simp)
  from Resume_is_steps [OF gw_inv_parts(4) [OF inv], of "[]" 0 "time_of sample_ts" "sample_ee True sample_ts"] y(2)
  show ?thesis by (intro exI [of _ y] exI [of _ "[e, e']"]) simp
qed

theorem ListPending_complete_witness:
  "\<exists>(g :: unit gateway) vs p v. gw_pending g = [(0, p)] \<and> ListPending toy g = Inr vs \<and> pending_show toy p = Inr v \<and> v \<in> set vs \<and>
     sorted_wrt (<) (map (\<lambda>v. r_seq (pv_Decision v)) vs)"
proof -
  let ?cfg = "toy_config RequireApproval"
  obtain y :: "unit system" and e e' ap where y: "gateway_run ?cfg toy_keys () (\<lambda>_ _ _. True) y [e, e']"
    "gw_pending (sy_gw y) = [(0, sample_answer ap)]"
    using sample_answered by blast
  have inv: "gw_inv ?cfg y [e, e']" by (rule gateway_run_inv [OF y(1)]) (use toy_ok(2) in simp)
  obtain v where v: "pending_show toy (sample_answer ap) = Inr v" "r_seq (pv_Decision v) = 0"
    by (simp add: pending_show_def sample_answer_simps sample_held_simps sample_CallDigest)
  then obtain vs where l: "ListPending toy (sy_gw y) = Inr vs" by (simp add: ListPending_def y(2) sample_answer_simps)
  from ListPending_complete [OF gw_inv_parts(4) [OF inv] l] y(2) v l sample_answer_simps(2) [of ap]
  show ?thesis by (intro exI [of _ "sy_gw y"] exI [of _ vs] exI [of _ "sample_answer ap"] exI [of _ v]) auto
qed

theorem taint_is_union_of_results_witness:
  "\<exists>n (y :: unit system) es. run_since (toy_config RequireApproval) toy_keys () (\<lambda>_ _ _. True) n y es \<and> length es = 3 \<and> n \<le> length es \<and>
     set (taintOf (sy_gw y) ''job'') = log_taint ''job'' (drop n es) \<and> set sample_labels \<subseteq> set (taintOf (sy_gw y) ''job'')"
proof -
  let ?cfg = "toy_config RequireApproval"
  obtain y :: "unit system" and e e' ap resp where y: "gateway_run ?cfg toy_keys () (\<lambda>_ _ _. True) y [e, e']"
    "sample_store [e, e'] (gw_store (sy_gw y))" "r_ts (e_rcpt e') = sample_ts"
    "sy_threads y = [Sealed ((sample_answer ap)\<lparr>pc_running := True\<rparr>) resp True sample_sealed]"
    using sample_resumed by blast
  let ?p = "(sample_answer ap)\<lparr>pc_running := True\<rparr>"
  obtain g e3 resp3 where x: "exec_record ?cfg (sy_gw y) ?p resp sample_sealed (time_of sample_ts) True = (g, Inr resp3)"
    "log_after (gw_store (sy_gw y)) (gw_store g) [e, e'] (stamped (result_receipt ?p sample_sealed) (time_of sample_ts)) = [e, e', e3]"
    using sample_exec_record [OF y(2) sample_answer_like [where ap = ap and b = True], where now = sample_ts and resp = resp and res = RequireApproval]
      y(3) ts_valid by (auto simp: last_ts_def sample_ts_def)
  define y1 where "y1 = y\<lparr>sy_gw := g, sy_threads := [Recorded ?p True sample_labels]\<rparr>"
  have 1: "gateway_step ?cfg (y, [e, e']) (y1, [e, e', e3])"
    using gateway_step.result_recorded [where cfg = ?cfg and y = y and ts = "[]" and us = "[]" and es = "[e, e']", OF _ x(1)] y(4) x(2)
    by (simp add: y1_def sample_sealed_def)
  define y2 where "y2 = y1\<lparr>sy_gw := addTaint g ''job'' sample_labels, sy_threads := [Returning 0 False]\<rparr>"
  have t: "r_task_id (pc_decision ?p) = ''job''" "seq_of ?p = 0" using sample_answer_like [where ap = ap and b = True] by (simp_all add: sample_like_def seq_of_def)
  have 2: "gateway_step ?cfg (y1, [e, e', e3]) (y2, [e, e', e3])"
    using gateway_step.taint_added [where cfg = ?cfg and y = y1 and ts = "[]" and us = "[]" and es = "[e, e', e3]" and p = ?p and b = True and labels = sample_labels]
    t by (simp add: y1_def y2_def)
  have r1: "gateway_run ?cfg toy_keys () (\<lambda>_ _ _. True) y1 [e, e', e3]" by (rule gateway_run.stepped [OF y(1) 1]) simp
  have "gateway_run ?cfg toy_keys () (\<lambda>_ _ _. True) y2 [e, e', e3]" by (rule gateway_run.stepped [OF r1 2]) simp
  from run_run_since [OF this] obtain n where n: "run_since ?cfg toy_keys () (\<lambda>_ _ _. True) n y2 [e, e', e3]" ..
  have "jcs_ok (jcs (cf_C ?cfg))" using toy_ok(2) by simp
  note th = taint_is_union_of_results [OF n this]
  have "flight_taint ''job'' (sy_threads y2) = {}" by (simp add: y2_def)
  then have "set (taintOf (sy_gw y2) ''job'') = log_taint ''job'' (drop n [e, e', e3])" using th by blast
  moreover have "set sample_labels \<subseteq> set (taintOf (sy_gw y2) ''job'')" by (auto simp: y2_def taintOf_addTaint add_labels)
  ultimately show ?thesis using n th by (intro exI [of _ n] exI [of _ y2] exI [of _ "[e, e', e3]"]) simp
qed

section \<open>The store, the identities and the keys\<close>

theorem store_append_atomic_witness:
  "\<exists>s s' (a :: appended). store_Append toy s (stamped (pr_receipt (sample_prepared Allow [])) (time_of sample_ts)) True = (s', Inr a) \<and>
     ap_Seq a = 0 \<and> store_lines s' = store_lines s @ [ap_Line a] \<and> store_Next s' = store_Next s + 1"
proof -
  let ?r = "stamped (pr_receipt (sample_prepared Allow [])) (time_of sample_ts)"
  obtain s where s: "sample_store [] s" using toy_store by blast
  have t: "r_type ?r \<noteq> TypeKeyRotation" by (simp add: sample_prepared_def Let_def decision_receipt_def stamped_def types_distinct)
  obtain s' a where a: "store_Append toy s ?r True = (s', Inr a)"
    using sample_append [OF s t sample_decision_written(2,1) [OF s]] by (auto simp: last_ts_def)
  have "store_holds toy [] s" using s by (simp add: sample_store_def)
  from store_append_atomic [OF this a] a show ?thesis by (intro exI [of _ s] exI [of _ s'] exI [of _ a]) simp
qed

lemma sample_store_history: "\<exists>s e. store_history toy s [e] \<and> store_inv toy toy_keys () s [e] \<and> sample_store [e] s \<and>
    r_type (e_rcpt e) = TypeDecision \<and> well_signed toy toy_keys () s [] e"
proof -
  let ?r = "stamped (pr_receipt (sample_prepared Allow [])) (time_of sample_ts)"
  obtain s where s: "store_Open toy ''p'' empty_db (Some toy_signer) ''k1'' ''c1'' True = (s_db s, Inr s)" "sample_store [] s"
    using toy_store by blast
  have r0: "store_history toy s []"
    by (rule store_history.opened [OF s(1)]) (simp_all add: utf8_valid_ascii toy_signer_ok)
  have t: "r_type ?r \<noteq> TypeKeyRotation" "r_type (fill a ?r) = TypeDecision" for a
    by (simp_all add: sample_prepared_def Let_def decision_receipt_def stamped_def types_distinct)
  obtain s' a where a: "store_Append toy s ?r True = (s', Inr a)" "sample_store ([] @ [store_entry s (ap_Line a) ?r]) s'"
    using sample_append [OF s(2) t(1) sample_decision_written(2,1) [OF s(2)]] by (auto simp: last_ts_def)
  let ?e = "store_entry s (ap_Line a) ?r"
  have w: "well_signed toy toy_keys () s [] ?e" by (rule sample_well_signed [OF s(2) _ a(1)]) simp
  have ty: "r_type (e_rcpt ?e) = TypeDecision" using t(2) by (simp add: store_entry_def new_entry_def)
  have h: "honest toy toy_keys () s [] ?e"
    using w ty by (auto simp: well_signed_def honest_def body_admissible_def types_distinct)
  obtain sg a' where A: "Append toy (s_app s) ?r = (a', Inr (sg, ap_Line a))"
    using store_Append_Inr [OF _ a(1), of "[]"] s(2) by (auto simp: sample_store_def)
  have "store_inv toy toy_keys () s []" using s(2) by (simp add: store_inv_def sample_store_def utf8_valid_ascii)
  from honest_extends [OF this toy_ok(2) A h] a(2) s(2) have "store_inv toy toy_keys () s' [?e]"
    by (simp add: store_inv_def sample_store_def utf8_valid_ascii)
  moreover have "store_history toy s' [?e]" using store_history.appended [OF r0 a(1)] by simp
  moreover have "well_signed toy toy_keys () s' [] ?e"
    using w a(2) s(2) by (simp add: well_signed_def sample_store_def)
  ultimately show ?thesis using a(2) ty by (intro exI [of _ s'] exI [of _ ?e]) simp
qed

theorem store_log_verifies_witness:
  "\<exists>s e. store_lines s = [e_line e] \<and> linked toy (s_chainID s) [] [] e \<and>
     store_VerifyWithKeys toy s toy_keys () = Inr (report_of toy (s_chainID s) [] [e], keys_after toy_keys () [e])"
proof -
  obtain s e where s: "store_history toy s [e]" "store_inv toy toy_keys () s [e]" "r_type (e_rcpt e) = TypeDecision"
    "well_signed toy toy_keys () s [] e"
    using sample_store_history by blast
  have adm: "admissible toy toy_keys () (s_chainID s) [] [] e"
    using s(2) log_okD [of toy toy_keys "()" "s_chainID s" "[]" "[e]" 0] by (simp add: store_inv_def)
  then have "k_Resolve toy_keys (keys_after toy_keys () []) (e_kid e) = Some (e_pub e)" "body_admissible toy_keys () [] e"
    by (auto simp: admissible_body authentic_def)
  with store_log_verifies [OF s(1) toy_ok(2), of toy_keys "()"] s(4) show ?thesis
    by (intro exI [of _ s] exI [of _ e]) (simp add: well_signed_def)
qed

theorem task_credential_purpose_witness:
  "\<exists>t. VerifyTask toy task_x509 [] [] 0 = Inr t \<and> (\<exists>e. VerifyKeyEpoch toy task_x509 [] [] 0 = Inl e) \<and>
     (\<exists>e. CheckServer [task_cert] = Inl e) \<and> value_ok (tc_Agent (t_claims t))"
proof -
  obtain t where t: "VerifyTask toy task_x509 [] [] 0 = Inr t" using sample_task by blast
  have "x_Parse task_x509 [] = Some task_cert" by (simp add: task_x509_def)
  with task_credential_purpose [OF t, of "[]" 0] t show ?thesis by (intro exI [of _ t]) auto
qed

text \<open>A certificate authority that issues one task credential.\<close>

definition issue_template :: certificate where
  "issue_template = leaf_template\<lparr>ct_CommonName := ''bot'', ct_NotBefore := 0, ct_NotAfter := 60 * ns_per_s,
     ct_ExtKeyUsage := [ClientAuth], ct_Policies := [PolicyTaskCredential],
     ct_URIs := [urn uriAgent ''bot'', urn uriPrincipal ''ann'', urn uriTask ''job''], ct_Serial := 7\<rparr>"

definition issue_key :: bytes where
  "issue_key = replicate 1952 (CHR ''m'')"

definition issue_x509 :: x509 where
  "issue_x509 = \<lparr>x_Parse = (\<lambda>der. if der = ''leaf'' then Some (issue_template\<lparr>ct_SigAlg := ''ML-DSA-65'', ct_MLDSA := Some issue_key\<rparr>)
       else Some (leaf_template\<lparr>ct_IsCA := True, ct_NotAfter := 3600 * ns_per_s\<rparr>)),
     x_Verify = (\<lambda>_ _ _ _. True), x_SelfSign = (\<lambda>_ _. None),
     x_Create = (\<lambda>tmpl ca pub. if tmpl = issue_template \<and> pub = issue_key then Some ''leaf'' else None)\<rparr>"

theorem IssueTask_VerifyTask_witness:
  "\<exists>(ca :: ca) t. IssueTask issue_x509 7 ca sample_claims issue_key 0 (60 * ns_per_s) = Inr ''leaf'' \<and>
     VerifyTask toy issue_x509 ''leaf'' (ca_Pool ca) (30 * ns_per_s) = Inr t \<and> t_claims t = sample_claims"
proof -
  define ca :: ca where "ca = \<lparr>ca_Cert = ''root'', ca_Key = \<lparr>mk_seed = [], mk_pub = issue_key\<rparr>\<rparr>"
  have ca: "ca_Cert ca = ''root''" by (simp add: ca_def)
  have w: "whole_s 0 = 0" "whole_s (60 * ns_per_s) = 60 * ns_per_s" by (simp_all add: whole_s_def)
  have k: "isMLDSA65 issue_key" by (simp add: isMLDSA65_def issue_key_def)
  have T: "ct_NotBefore issue_template = 0" "ct_NotAfter issue_template = 60 * ns_per_s"
    by (simp_all add: issue_template_def)
  have "issue_template\<lparr>ct_SigAlg := ''ML-DSA-65'', ct_MLDSA := Some issue_key, ct_NotBefore := 0, ct_NotAfter := 60 * ns_per_s\<rparr> =
      issue_template\<lparr>ct_SigAlg := ''ML-DSA-65'', ct_MLDSA := Some issue_key\<rparr>"
    by (simp add: issue_template_def)
  then have ok: "x509_ok issue_x509 ca"
    using T w by (auto simp: x509_ok_def issue_x509_def)
  have i: "IssueTask issue_x509 7 ca sample_claims issue_key 0 (60 * ns_per_s) = Inr ''leaf''"
    using task_values k
    by (simp add: IssueTask_def claims_check_def checkValue_def require_def ca_issue_def sample_claims_def issue_x509_def
        issue_template_def sat64_def MaxTaskLifetime_def ClockSkew_def ns_per_s_def)
  have p: "x_Parse issue_x509 (ca_Cert ca) = Some (leaf_template\<lparr>ct_IsCA := True, ct_NotAfter := 3600 * ns_per_s\<rparr>)"
    by (simp add: ca issue_x509_def)
  have "\<exists>t. VerifyTask toy issue_x509 ''leaf'' (ca_Pool ca) (30 * ns_per_s) = Inr t \<and> t_claims t = sample_claims \<and>
      t_Key t = issue_key \<and> t_NotAfter t = whole_s (60 * ns_per_s)"
    by (rule IssueTask_VerifyTask [OF i ok p]) (simp_all add: valid_at_def leaf_template_def whole_s_def ns_per_s_def)
  with i show ?thesis by blast
qed

end
