(* ===== verification/Revocation.thy ===== *)
theory Revocation
  imports Checkpoint Identity
begin

text \<open>
  Withdrawn keys: \<open>internal/revocation/revocation.go\<close> (statements that the root signs, their file, and
  reading it back verified) and \<open>internal/revocation/match.go\<close> (the anchored checkpoint that each of
  them names).  A revocation has an envelope of its own, of the same three members as a receipt's.
\<close>

section \<open>Statements\<close>

definition revocation_Version :: int where
  "revocation_Version = 1"

definition revocation_Domain :: string where
  "revocation_Domain = ''agent-warden/revocation/v1''"

definition revocation_Alg :: string where
  "revocation_Alg = ''ML-DSA-65''"

definition revocation_context :: string where
  "revocation_context = ''agent-warden/revocation/v1''"

record revocation =
  rv_v :: int
  rv_domain :: string
  rv_chain_id :: string
  rv_kid :: string
  rv_size :: int
  rv_head :: string
  rv_reason :: string
  rv_ts :: string

record rev_header =
  rh_alg :: string
  rh_domain :: string

datatype revocation_error =
  RInvalid string
| RBadSignature
| RMalformed string
| REncode canonical_error
| RSignFailed
| NoRootKey
| NoRootCertificate
| RootNotMLDSA
| RTooLong

definition json_of_revocation :: "revocation \<Rightarrow> json" where
  "json_of_revocation r = JObj ([(''v'', JInt (rv_v r)), (''domain'', JStr (rv_domain r)),
     (''chain_id'', JStr (rv_chain_id r)), (''kid'', JStr (rv_kid r)), (''effective_size'', JInt (rv_size r)),
     (''effective_head'', JStr (rv_head r))] @ omit_str ''reason'' (rv_reason r) @ [(''ts'', JStr (rv_ts r))])"

definition dec_revocation :: "json \<Rightarrow> revocation option" where
  "dec_revocation j = do {
     f \<leftarrow> fields_of [''v'', ''domain'', ''chain_id'', ''kid'', ''effective_size'', ''effective_head'', ''reason'', ''ts''] j;
     v \<leftarrow> get_int f ''v''; d \<leftarrow> get_str f ''domain''; i \<leftarrow> get_str f ''chain_id''; k \<leftarrow> get_str f ''kid'';
     n \<leftarrow> get_int f ''effective_size''; h \<leftarrow> get_str f ''effective_head''; r \<leftarrow> get_str f ''reason''; t \<leftarrow> get_str f ''ts'';
     Some \<lparr>rv_v = v, rv_domain = d, rv_chain_id = i, rv_kid = k, rv_size = n, rv_head = h, rv_reason = r, rv_ts = t\<rparr> }"

definition json_of_rev_header :: "rev_header \<Rightarrow> json" where
  "json_of_rev_header h = JObj [(''alg'', JStr (rh_alg h)), (''domain'', JStr (rh_domain h))]"

definition dec_rev_header :: "json \<Rightarrow> rev_header option" where
  "dec_rev_header j = do { f \<leftarrow> fields_of [''alg'', ''domain''] j; a \<leftarrow> get_str f ''alg''; d \<leftarrow> get_str f ''domain'';
     Some \<lparr>rh_alg = a, rh_domain = d\<rparr> }"

definition rev_validID :: "string \<Rightarrow> string \<Rightarrow> revocation_error + unit" where
  "rev_validID field s =
     (if s = [] \<or> length s > 256 then Inl (RInvalid field)
      else if list_ex control (runes s) then Inl (RInvalid field)
      else Inr ())"

definition revocation_Validate :: "revocation \<Rightarrow> revocation_error + unit" where
  "revocation_Validate r =
     (if rv_v r \<noteq> revocation_Version then Inl (RInvalid ''v'')
      else if rv_domain r \<noteq> revocation_Domain then Inl (RInvalid ''domain'')
      else ebind (rev_validID ''chain_id'' (rv_chain_id r)) (\<lambda>_.
      ebind (rev_validID ''kid'' (rv_kid r)) (\<lambda>_.
      if rv_size r < 1 \<or> rv_size r > MaxSafeInteger then Inl (RInvalid ''effective_size'')
      else if \<not> digest_Valid (rv_head r) then Inl (RInvalid ''effective_head'')
      else ebind (if rv_reason r \<noteq> [] then rev_validID ''reason'' (rv_reason r) else Inr ()) (\<lambda>_.
      if \<not> valid_ts (rv_ts r) then Inl (RInvalid ''ts'') else Inr ()))))"

section \<open>Signing and verifying\<close>

text \<open>An ML-DSA public key knows its parameter set; the three sets have keys of different sizes.\<close>

definition key_params :: "bytes \<Rightarrow> mldsa_params" where
  "key_params pub = (if length pub = 1312 then MLDSA44 else if length pub = 2592 then MLDSA87 else MLDSA65)"

definition revocation_Sign :: "'x crypto_scheme \<Rightarrow> mldsa_key option \<Rightarrow> revocation \<Rightarrow> revocation_error + signed" where
  "revocation_Sign C root r =
     (case root of None \<Rightarrow> Inl NoRootKey | Some k \<Rightarrow>
      ebind (revocation_Validate r) (\<lambda>_.
      ebind (map_err REncode (canonical_Encode (jcs C) (json_of_revocation r))) (\<lambda>payload.
      ebind (map_err REncode (canonical_Encode (jcs C)
          (json_of_rev_header \<lparr>rh_alg = revocation_Alg, rh_domain = revocation_Domain\<rparr>))) (\<lambda>hdr.
      let s = \<lparr>s_payload = b64_encode payload, s_protected = b64_encode hdr, s_signature = []\<rparr> in
      ebind (of_option RSignFailed
          (mldsa_sign C (key_params (mk_pub k)) (mk_seed k) (signingInput s) revocation_context)) (\<lambda>sig.
      Inr (s\<lparr>s_signature := b64_encode sig\<rparr>))))))"

definition revocation_RootKey :: "certificate option \<Rightarrow> revocation_error + bytes" where
  "revocation_RootKey root = (case root of None \<Rightarrow> Inl NoRootCertificate
     | Some cert \<Rightarrow> of_option RootNotMLDSA (ct_MLDSA cert))"

definition revocation_Verify :: "'x crypto_scheme \<Rightarrow> bytes option \<Rightarrow> signed \<Rightarrow> revocation_error + revocation" where
  "revocation_Verify C root s =
     (case root of None \<Rightarrow> Inl NoRootKey | Some pub \<Rightarrow>
      ebind (of_option (RMalformed ''protected'') (b64_decode (s_protected s))) (\<lambda>raw.
      ebind (map_err (\<lambda>_. RMalformed ''protected'')
          (DecodeStrict (jcs C) dec_rev_header json_of_rev_header raw)) (\<lambda>h.
      if rh_alg h \<noteq> revocation_Alg then Inl (RMalformed ''alg'')
      else if rh_domain h \<noteq> revocation_Domain then Inl (RMalformed ''domain'')
      else ebind (of_option (RMalformed ''signature'') (b64_decode (s_signature s))) (\<lambda>sig.
      if \<not> mldsa_verify C (key_params pub) pub (signingInput s) sig revocation_context then Inl RBadSignature
      else ebind (of_option (RMalformed ''payload'') (b64_decode (s_payload s))) (\<lambda>payload.
      ebind (map_err (\<lambda>_. RMalformed ''payload'')
          (DecodeStrict (jcs C) dec_revocation json_of_revocation payload)) (\<lambda>r.
      ebind (revocation_Validate r) (\<lambda>_. Inr r)))))))"

definition revocation_ParseLine :: "'x crypto_scheme \<Rightarrow> bytes \<Rightarrow> revocation_error + signed" where
  "revocation_ParseLine C line = map_err (\<lambda>_. RMalformed ''line'') (DecodeStrict (jcs C) dec_signed json_of_signed line)"

section \<open>The file of revocations\<close>

text \<open>The content of the file is its bytes; \<open>write\<close> is the outcome of the file system as for an anchor.\<close>

definition revocation_Publish :: "'x crypto_scheme \<Rightarrow> bytes \<Rightarrow> signed \<Rightarrow> nat option \<Rightarrow> bool \<times> bytes" where
  "revocation_Publish C file s write =
     (case signed_Line C s of Inl _ \<Rightarrow> (False, file)
      | Inr line \<Rightarrow> (case write of None \<Rightarrow> (True, file @ line @ [newline])
        | Some n \<Rightarrow> (False, file @ take n (line @ [newline]))))"

definition read_revocation ::
  "'x crypto_scheme \<Rightarrow> string \<Rightarrow> bytes option \<Rightarrow> revocation list \<Rightarrow> bytes \<Rightarrow> revocation_error + revocation list" where
  "read_revocation C chainID root out line =
     (if line = [] then Inr out
      else ebind (revocation_ParseLine C line) (\<lambda>s.
      ebind (revocation_Verify C root s) (\<lambda>r.
      if rv_chain_id r \<noteq> chainID then Inr out else Inr (out @ [r]))))"

definition revocation_ReadVerified ::
  "'x crypto_scheme \<Rightarrow> bytes \<Rightarrow> string \<Rightarrow> bytes option \<Rightarrow> revocation_error + revocation list" where
  "revocation_ReadVerified C file chainID root = (let (lines, toolong) = scan_lines file in
     ebind (efold (read_revocation C chainID root) [] lines) (\<lambda>out.
     if toolong then Inl RTooLong else Inr out))"

section \<open>The checkpoint that a revocation names\<close>

record effective =
  ef_Kid :: string
  ef_Size :: int
  ef_Reason :: string

definition match_one :: "checkpoint list \<Rightarrow> revocation \<Rightarrow> revocation_error + effective" where
  "match_one cps r =
     (case find (\<lambda>c. c_size c = rv_size r) cps of
        None \<Rightarrow> Inl (RInvalid ''not anchored'')
      | Some cp \<Rightarrow> if c_head cp \<noteq> rv_head r then Inl (RInvalid ''another history'')
          else Inr \<lparr>ef_Kid = rv_kid r, ef_Size = rv_size r, ef_Reason = rv_reason r\<rparr>)"

definition revocation_Match :: "revocation list \<Rightarrow> checkpoint list \<Rightarrow> revocation_error + effective list" where
  "revocation_Match revs cps = efold (\<lambda>out r. ebind (match_one cps r) (\<lambda>e. Inr (out @ [e]))) [] revs"

section \<open>Lemmas\<close>

definition revocation_ok :: "revocation \<Rightarrow> bool" where
  "revocation_ok r \<longleftrightarrow> rv_v r = 1 \<and> rv_domain r = revocation_Domain \<and> id_ok (rv_chain_id r) \<and> id_ok (rv_kid r) \<and>
     1 \<le> rv_size r \<and> rv_size r < 2 ^ 53 \<and> digest_Valid (rv_head r) \<and> (rv_reason r = [] \<or> id_ok (rv_reason r)) \<and> valid_ts (rv_ts r)"

lemma rev_validID_Inr [simp]: "rev_validID field s = Inr u \<longleftrightarrow> id_ok s"
  by (auto simp: rev_validID_def id_ok_def list_ex_control not_less)

lemma revocation_Validate_Inr [simp]: "revocation_Validate r = Inr u \<longleftrightarrow> revocation_ok r"
  by (auto simp: revocation_Validate_def revocation_ok_def revocation_Version_def MaxSafeInteger_def)

lemma json_safe_revocation: "revocation_ok r \<Longrightarrow> json_safe (json_of_revocation r)"
  by (simp add: json_of_revocation_def revocation_ok_def keys_omit)

lemma dec_revocation_sorted:
  "json_safe (json_of_revocation r) \<Longrightarrow> dec_revocation (sort_json (json_of_revocation r)) = Some r"
  unfolding json_of_revocation_def dec_revocation_def
  by (subst fields_of_sorted) (auto simp: keys_omit struct_simps)

lemma dec_rev_header_sorted [simp]: "dec_rev_header (sort_json (json_of_rev_header h)) = Some h"
  unfolding json_of_rev_header_def dec_rev_header_def by (subst fields_of_sorted) (simp_all add: struct_simps)

definition rev_hdr :: rev_header where
  "rev_hdr = \<lparr>rh_alg = revocation_Alg, rh_domain = revocation_Domain\<rparr>"

lemma rev_hdr_json: "json_ok (json_of_rev_header rev_hdr)" "json_safe (json_of_rev_header rev_hdr)"
  by (simp_all add: json_of_rev_header_def rev_hdr_def revocation_Alg_def revocation_Domain_def utf8_valid_ascii)

lemma rev_hdr_iff: "h = rev_hdr \<longleftrightarrow> rh_alg h = revocation_Alg \<and> rh_domain h = revocation_Domain"
  by (cases h) (simp add: rev_hdr_def)

text \<open>What signing and verifying come to.\<close>

lemma revocation_Sign_Inr:
  "revocation_Sign C root r = Inr s \<longleftrightarrow> (\<exists>k payload hdr sig. root = Some k \<and> revocation_ok r \<and>
     canonical_Encode (jcs C) (json_of_revocation r) = Inr payload \<and>
     canonical_Encode (jcs C) (json_of_rev_header rev_hdr) = Inr hdr \<and>
     mldsa_sign C (key_params (mk_pub k)) (mk_seed k) (signingInput s) revocation_context = Some sig \<and>
     s = \<lparr>s_payload = b64_encode payload, s_protected = b64_encode hdr, s_signature = b64_encode sig\<rparr>)"
  by (auto simp: revocation_Sign_def rev_hdr_def signingInput_def Let_def split: option.splits)

lemma revocation_Verify_Inr:
  "revocation_Verify C (Some pub) s = Inr r \<longleftrightarrow> (\<exists>raw sig payload. b64_decode (s_protected s) = Some raw \<and>
     DecodeStrict (jcs C) dec_rev_header json_of_rev_header raw = Inr rev_hdr \<and> b64_decode (s_signature s) = Some sig \<and>
     mldsa_verify C (key_params pub) pub (signingInput s) sig revocation_context \<and> b64_decode (s_payload s) = Some payload \<and>
     DecodeStrict (jcs C) dec_revocation json_of_revocation payload = Inr r \<and> revocation_ok r)"
  by (auto simp: revocation_Verify_def rev_hdr_iff [symmetric] dest: rev_hdr_iff [THEN iffD2, OF conjI]
      intro!: exI [of _ rev_hdr])

definition root_pair :: "'x crypto_scheme \<Rightarrow> mldsa_key \<Rightarrow> bool" where
  "root_pair C k \<longleftrightarrow> primitives_ok C \<and> mldsa_public C (key_params (mk_pub k)) (mk_seed k) = Some (mk_pub k)"

lemma revocation_Sign_verifies:
  assumes "root_pair C k" "jcs_ok (jcs C)" "json_ok (json_of_revocation r)" "revocation_Sign C (Some k) r = Inr s"
  shows "revocation_Verify C (Some (mk_pub k)) s = Inr r"
proof -
  obtain payload hdr sig where s: "revocation_ok r" "canonical_Encode (jcs C) (json_of_revocation r) = Inr payload"
    "canonical_Encode (jcs C) (json_of_rev_header rev_hdr) = Inr hdr"
    "mldsa_sign C (key_params (mk_pub k)) (mk_seed k) (signingInput s) revocation_context = Some sig"
    "s = \<lparr>s_payload = b64_encode payload, s_protected = b64_encode hdr, s_signature = b64_encode sig\<rparr>"
    using assms(4) by (auto simp: revocation_Sign_Inr)
  have "DecodeStrict (jcs C) dec_rev_header json_of_rev_header hdr = Inr rev_hdr"
    using DecodeStrict_Encode [of "jcs C" json_of_rev_header rev_hdr hdr dec_rev_header] assms(2) s(3) rev_hdr_json by simp
  moreover have "DecodeStrict (jcs C) dec_revocation json_of_revocation payload = Inr r"
    using assms(3) json_safe_revocation [OF s(1)] s(2) dec_revocation_sorted
    by (intro DecodeStrict_Encode [OF assms(2)]) auto
  moreover have "mldsa_verify C (key_params (mk_pub k)) (mk_pub k) (signingInput s) sig revocation_context"
    using assms(1) s(4) by (auto simp: root_pair_def primitives_ok_def)
  ultimately show ?thesis using s(1,5) by (simp add: revocation_Verify_Inr b64_decode_encode)
qed

lemma revocation_Sign_line:
  assumes "jcs_ok (jcs C)" "revocation_Sign C root r = Inr s"
  shows "\<exists>line. signed_Line C s = Inr line \<and> revocation_ParseLine C line = Inr s"
proof -
  have a: "json_ok (json_of_signed s)" "json_safe (json_of_signed s)"
    using assms(2) by (auto simp: revocation_Sign_Inr intro!: json_signed_ok)
  then obtain line where "signed_Line C s = Inr line"
    using canonical_Encode_ok [OF assms(1)] by (auto simp: signed_Line_def)
  with DecodeStrict_Encode [OF assms(1), of json_of_signed s line dec_signed] a show ?thesis
    by (auto simp: revocation_ParseLine_def signed_Line_def)
qed

section \<open>The file read back\<close>

lemma revocation_ReadVerified_Inr:
  "revocation_ReadVerified C file chainID root = Inr rs \<longleftrightarrow> \<not> snd (scan_lines file) \<and>
     efold (read_revocation C chainID root) [] (fst (scan_lines file)) = Inr rs"
  by (auto simp: revocation_ReadVerified_def split: prod.splits)

lemma json_signed_line_nonempty: "revocation_ParseLine C line = Inr s \<Longrightarrow> jcs_ok (jcs C) \<Longrightarrow> line \<noteq> []"
  by (auto simp: revocation_ParseLine_def DecodeStrict_Inr decode_into_def decode_json_def skip_ws_def split: option.splits)

text \<open>
  publishing adds exactly the revocation that was signed: a file of complete lines that reads back as
  a list of revocations reads back, after the root signed one more and it was published, as that list
  followed by the new one, which only readers of another chain do not see.
\<close>

theorem revocation_published:
  assumes "revocation_ReadVerified C file chainID (Some (mk_pub k)) = Inr rs" "complete_lines file" "jcs_ok (jcs C)"
    and "root_pair C k" "json_ok (json_of_revocation r)" "revocation_Sign C (Some k) r = Inr s"
    and "signed_Line C s = Inr line" "plain_line line" "revocation_Publish C file s None = (ok, file')"
  shows "ok \<and> complete_lines file' \<and>
    revocation_ReadVerified C file' chainID (Some (mk_pub k)) = Inr (rs @ (if rv_chain_id r = chainID then [r] else []))"
proof -
  have f: "file' = file @ line @ [newline]" "ok" using assms(7,9) by (simp_all add: revocation_Publish_def)
  have p: "revocation_ParseLine C line = Inr s" using revocation_Sign_line [OF assms(3,6)] assms(7) by auto
  have "scan_lines file = (fst (scan_lines file), False)"
    using assms(1) by (simp add: revocation_ReadVerified_Inr prod_eq_iff)
  then have l: "scan_lines file' = (fst (scan_lines file) @ [line], False)"
    unfolding f(1) by (rule scan_append_line [OF assms(2,8)])
  have "read_revocation C chainID (Some (mk_pub k)) rs line = Inr (rs @ (if rv_chain_id r = chainID then [r] else []))"
    using p json_signed_line_nonempty [OF p assms(3)] revocation_Sign_verifies [OF assms(4,3,5,6)]
    by (simp add: read_revocation_def)
  then show ?thesis using assms(1) f l by (simp add: revocation_ReadVerified_Inr efold_append complete_lines_def)
qed

text \<open>Whatever a file reads back as, the root signed it, for this chain.\<close>

definition root_signed :: "'x crypto_scheme \<Rightarrow> bytes option \<Rightarrow> revocation \<Rightarrow> bool" where
  "root_signed C root r \<longleftrightarrow> (\<exists>s. revocation_Verify C root s = Inr r)"

lemma read_revocations_signed:
  assumes "efold (read_revocation C chainID root) [] ls = Inr rs"
  shows "\<forall>r \<in> set rs. root_signed C root r \<and> rv_chain_id r = chainID"
  by (rule efold_invariant [OF assms, where I = "\<lambda>_ out. \<forall>r \<in> set out. root_signed C root r \<and> rv_chain_id r = chainID"])
    (auto simp: read_revocation_def root_signed_def split: if_splits)

section \<open>Matching\<close>

lemma revocation_Match_map:
  "revocation_Match revs cps = Inr es \<longleftrightarrow> list_all2 (\<lambda>r e. match_one cps r = Inr e) revs es"
proof -
  have "efold (\<lambda>out r. ebind (match_one cps r) (\<lambda>e. Inr (out @ [e]))) out revs = Inr es \<longleftrightarrow>
      (\<exists>es'. es = out @ es' \<and> list_all2 (\<lambda>r e. match_one cps r = Inr e) revs es')" for out
    by (induction revs arbitrary: out) (auto simp: list_all2_Cons1)
  then show ?thesis by (simp add: revocation_Match_def)
qed

text \<open>
  each revocation needs an anchored checkpoint: against an anchor that holds one checkpoint per size,
  matching succeeds exactly when every revocation names the size and the head of an anchored
  checkpoint, and then keeps every revocation, in order, with its size and reason.
\<close>

theorem revocation_Match_iff:
  assumes "distinct (map c_size cps)"
  shows "revocation_Match revs cps = Inr es \<longleftrightarrow>
    (\<forall>r \<in> set revs. \<exists>c \<in> set cps. c_size c = rv_size r \<and> c_head c = rv_head r) \<and>
    es = map (\<lambda>r. \<lparr>ef_Kid = rv_kid r, ef_Size = rv_size r, ef_Reason = rv_reason r\<rparr>) revs"
proof -
  have "match_one cps r = Inr e \<longleftrightarrow> (\<exists>c \<in> set cps. c_size c = rv_size r \<and> c_head c = rv_head r) \<and>
      e = \<lparr>ef_Kid = rv_kid r, ef_Size = rv_size r, ef_Reason = rv_reason r\<rparr>" for r e
    by (auto simp: match_one_def find_distinct [OF assms])
  then show ?thesis unfolding revocation_Match_map
    by (induction revs arbitrary: es) (auto simp: list_all2_Cons1)
qed

end
