(* ===== verification/S3Store.thy ===== *)
theory S3Store
  imports Checkpoint Identity "HOL-Library.AList"
begin

text \<open>
  The write-once object store: the client of \<open>internal/anchor/s3/client.go\<close> over any transport, and the
  in-process store of \<open>internal/anchor/s3/s3fake/fake.go\<close>, versions and Object Lock included.

  A request stands for what its method, path, query and headers ask, and a response for what the client
  reads its status, headers and body as.  Dates on the wire are cut to whole seconds.  The text of URLs,
  the parsing of XML documents and the signature of a request (\<open>sigv4.go\<close>) are below this level: the store
  here sees requests whose signature it accepted, and names are text that XML carries unchanged.  A listing comes
  with the length of its text, because the client reads no more than 16 MiB of it.
\<close>

section \<open>Requests and responses\<close>

datatype date = NoDate | BadDate | At time

record put_headers =
  ph_IfNoneMatch :: string
  ph_LockMode :: string
  ph_RetainUntil :: date
  ph_Md5 :: "bytes option"
  ph_Sha256 :: "bytes option"

datatype s3_op =
  PutObject string bytes put_headers
| GetObject string string
| GetRetention string string
| ListVersionsPage string string string
| DeleteObject string string bool

datatype entry_kind = KVersion | KDeleteMarker | KOther

record list_entry =
  le_Kind :: entry_kind
  le_Key :: string
  le_VersionID :: string
  le_IsLatest :: bool
  le_LastModified :: date

record list_result =
  lr_IsTruncated :: bool
  lr_NextKeyMarker :: string
  lr_NextVersionIDMarker :: string
  lr_Entries :: "list_entry list"

datatype s3_body =
  NoBody
| ErrorXML string
| ObjectBody bytes date string date
| RetentionXML string date
| ListXML list_result nat
| BadXML

record s3_response =
  rp_Status :: int
  rp_VersionID :: string
  rp_Body :: s3_body

datatype s3_error =
  S3Transport
| S3Status int
| S3Exists
| S3NotFound
| S3BadReply
| S3TooLarge
| S3Endless
| S3RepeatsPage
| ErrNotLocked
| ErrRewritten
| ErrStray
| S3BadName
| S3WrongChain
| S3BadRetention
| S3Nothing
| S3Encode
| ErrConflict

section \<open>The client\<close>

definition MaxObject :: nat where
  "MaxObject = 1048576"

definition LockCompliance :: string where
  "LockCompliance = ''COMPLIANCE''"

record s3_object =
  ob_Body :: bytes
  ob_VersionID :: string
  ob_LastModified :: date
  ob_LockMode :: string
  ob_RetainUntil :: date

record s3_version =
  sv_Key :: string
  sv_VersionID :: string
  sv_LastModified :: time
  sv_IsLatest :: bool
  sv_DeleteMarker :: bool

text \<open>
  \<open>send\<close> is the transport: a request changes the state of the world and gets a response, or none.  \<open>md5\<close>
  and SHA-256 are the library's hashes.
\<close>

type_synonym 'st transport = "'st \<Rightarrow> s3_op \<Rightarrow> 'st \<times> s3_response option"

definition PutLocked ::
  "(bytes \<Rightarrow> bytes) \<Rightarrow> (bytes \<Rightarrow> bytes) \<Rightarrow> 'st transport \<Rightarrow> 'st \<Rightarrow> string \<Rightarrow> bytes \<Rightarrow> time \<Rightarrow> 'st \<times> (s3_error + string)" where
  "PutLocked md5 sha send st key body retainUntil =
     (case send st (PutObject key body \<lparr>ph_IfNoneMatch = ''*'', ph_LockMode = LockCompliance,
          ph_RetainUntil = At (whole_s retainUntil), ph_Md5 = Some (md5 body), ph_Sha256 = Some (sha body)\<rparr>) of
        (st', None) \<Rightarrow> (st', Inl S3Transport)
      | (st', Some r) \<Rightarrow> (st',
          if rp_Status r = 412 then Inl S3Exists
          else if rp_Status r \<noteq> 200 then Inl (S3Status (rp_Status r))
          else Inr (rp_VersionID r)))"

definition s3_Get :: "'st transport \<Rightarrow> 'st \<Rightarrow> string \<Rightarrow> string \<Rightarrow> 'st \<times> (s3_error + s3_object)" where
  "s3_Get send st key versionID =
     (case send st (GetObject key versionID) of
        (st', None) \<Rightarrow> (st', Inl S3Transport)
      | (st', Some r) \<Rightarrow> (st',
          if rp_Status r = 404 then Inl S3NotFound
          else if rp_Status r \<noteq> 200 then Inl (S3Status (rp_Status r))
          else (case rp_Body r of
            ObjectBody b lm mode ru \<Rightarrow>
              if length b > MaxObject then Inl S3TooLarge
              else if lm = BadDate \<or> ru = BadDate then Inl S3BadReply
              else Inr \<lparr>ob_Body = b, ob_VersionID = rp_VersionID r, ob_LastModified = lm, ob_LockMode = mode, ob_RetainUntil = ru\<rparr>
          | _ \<Rightarrow> Inl S3BadReply)))"

definition s3_Retention :: "'st transport \<Rightarrow> 'st \<Rightarrow> string \<Rightarrow> string \<Rightarrow> 'st \<times> (s3_error + string \<times> time)" where
  "s3_Retention send st key versionID =
     (case send st (GetRetention key versionID) of
        (st', None) \<Rightarrow> (st', Inl S3Transport)
      | (st', Some r) \<Rightarrow> (st',
          if rp_Status r = 404 then Inl S3NotFound
          else if rp_Status r \<noteq> 200 then Inl (S3Status (rp_Status r))
          else (case rp_Body r of RetentionXML mode (At t) \<Rightarrow> Inr (mode, t) | _ \<Rightarrow> Inl S3BadReply)))"

definition parse_entry :: "list_entry \<Rightarrow> s3_error + s3_version list" where
  "parse_entry e =
     (if le_Kind e = KOther then Inr []
      else if le_Key e = [] \<or> le_VersionID e = [] then Inl S3BadReply
      else (case le_LastModified e of
        At t \<Rightarrow> Inr [\<lparr>sv_Key = le_Key e, sv_VersionID = le_VersionID e, sv_LastModified = t,
          sv_IsLatest = le_IsLatest e, sv_DeleteMarker = (le_Kind e = KDeleteMarker)\<rparr>]
      | _ \<Rightarrow> Inl S3BadReply))"

definition parseListing :: "s3_body \<Rightarrow> s3_error + list_result \<times> s3_version list" where
  "parseListing b =
     (case b of ListXML r _ \<Rightarrow>
        ebind (efold (\<lambda>out e. ebind (parse_entry e) (\<lambda>vs. Inr (out @ vs))) [] (lr_Entries r)) (\<lambda>vs. Inr (r, vs))
      | _ \<Rightarrow> Inl S3BadReply)"

text \<open>\<open>io.LimitReader\<close>: a longer page is cut off, and what is left is not a document.\<close>

definition maxListing :: nat where
  "maxListing = 16777216"

definition read_listing :: "s3_body \<Rightarrow> s3_body" where
  "read_listing b = (case b of ListXML r n \<Rightarrow> if n \<le> maxListing then b else BadXML | _ \<Rightarrow> b)"

text \<open>The loop over pages; the first argument is the number of pages that may still be asked for.\<close>

fun list_pages ::
  "nat \<Rightarrow> 'st transport \<Rightarrow> string \<Rightarrow> 'st \<Rightarrow> string \<Rightarrow> string \<Rightarrow> s3_version list \<Rightarrow> 'st \<times> (s3_error + s3_version list)" where
  "list_pages 0 send pre st km vm out = (st, Inl S3Endless)"
| "list_pages (Suc n) send pre st km vm out =
     (case send st (ListVersionsPage pre km vm) of
        (st', None) \<Rightarrow> (st', Inl S3Transport)
      | (st', Some r) \<Rightarrow>
          if rp_Status r \<noteq> 200 then (st', Inl (S3Status (rp_Status r)))
          else (case parseListing (read_listing (rp_Body r)) of
            Inl e \<Rightarrow> (st', Inl e)
          | Inr (lr, vs) \<Rightarrow>
              if \<not> lr_IsTruncated lr then (st', Inr (out @ vs))
              else if lr_NextKeyMarker lr = km \<and> lr_NextVersionIDMarker lr = vm then (st', Inl S3RepeatsPage)
              else list_pages n send pre st' (lr_NextKeyMarker lr) (lr_NextVersionIDMarker lr) (out @ vs)))"

definition maxPages :: nat where
  "maxPages = 10001"

definition ListVersions :: "'st transport \<Rightarrow> 'st \<Rightarrow> string \<Rightarrow> 'st \<times> (s3_error + s3_version list)" where
  "ListVersions send st pre = list_pages maxPages send pre st [] [] []"

section \<open>The in-process store\<close>

record fake_version =
  fv_ID :: string
  fv_Data :: bytes
  fv_DeleteMarker :: bool
  fv_Mode :: string
  fv_RetainUntil :: time
  fv_Modified :: time

text \<open>The names that hold a version, each with its versions, newest last; the clock is an argument.\<close>

record fake_server =
  fk_down :: bool
  fk_seq :: int
  fk_objects :: "(string \<times> fake_version list) list"
  fk_pageMax :: nat
  fk_puts :: int

definition fake_New :: fake_server where
  "fake_New = \<lparr>fk_down = False, fk_seq = 0, fk_objects = [], fk_pageMax = 1000, fk_puts = 0\<rparr>"

definition SetDown :: "fake_server \<Rightarrow> bool \<Rightarrow> fake_server" where
  "SetDown s down = s\<lparr>fk_down := down\<rparr>"

definition SetPageSize :: "fake_server \<Rightarrow> nat \<Rightarrow> fake_server" where
  "SetPageSize s n = s\<lparr>fk_pageMax := n\<rparr>"

definition fake_Versions :: "fake_server \<Rightarrow> string \<Rightarrow> fake_version list" where
  "fake_Versions s key = (case map_of (fk_objects s) key of None \<Rightarrow> [] | Some vs \<Rightarrow> vs)"

definition sortedKeys :: "fake_server \<Rightarrow> string list" where
  "sortedKeys s = sort (map fst (fk_objects s))"

definition fail :: "int \<Rightarrow> string \<Rightarrow> s3_response" where
  "fail status code = \<lparr>rp_Status = status, rp_VersionID = [], rp_Body = ErrorXML code\<rparr>"

definition fake_latest :: "fake_server \<Rightarrow> string \<Rightarrow> fake_version option" where
  "fake_latest s key = (if fake_Versions s key = [] then None else Some (last (fake_Versions s key)))"

definition fake_find :: "fake_server \<Rightarrow> string \<Rightarrow> string \<Rightarrow> fake_version option" where
  "fake_find s key vid = find (\<lambda>v. fv_ID v = vid) (fake_Versions s key)"

definition newVersion :: "fake_server \<Rightarrow> time \<Rightarrow> fake_server \<times> string \<times> time" where
  "newVersion s now = (s\<lparr>fk_seq := fk_seq s + 1\<rparr>, ''v'' @ append_int (fk_seq s + 1) 6, whole_s now)"

definition add_version :: "fake_server \<Rightarrow> string \<Rightarrow> fake_version \<Rightarrow> fake_server" where
  "add_version s key v = s\<lparr>fk_objects := AList.update key (fake_Versions s key @ [v]) (fk_objects s)\<rparr>"

definition lock_refused :: "time \<Rightarrow> put_headers \<Rightarrow> bool" where
  "lock_refused now h \<longleftrightarrow> (ph_LockMode h \<noteq> [] \<or> ph_RetainUntil h \<noteq> NoDate) \<and>
     (ph_LockMode h \<notin> {LockCompliance, ''GOVERNANCE''} \<or>
      (case ph_RetainUntil h of At u \<Rightarrow> \<not> now < u | _ \<Rightarrow> True) \<or> ph_Md5 h = None \<and> ph_Sha256 h = None)"

definition lock_code :: "time \<Rightarrow> put_headers \<Rightarrow> string" where
  "lock_code now h = (if ph_LockMode h \<notin> {LockCompliance, ''GOVERNANCE''} then ''InvalidArgument''
     else (case ph_RetainUntil h of At u \<Rightarrow> if now < u then ''InvalidRequest'' else ''InvalidArgument'' | _ \<Rightarrow> ''InvalidArgument''))"

definition fake_put ::
  "(bytes \<Rightarrow> bytes) \<Rightarrow> (bytes \<Rightarrow> bytes) \<Rightarrow> fake_server \<Rightarrow> time \<Rightarrow> string \<Rightarrow> bytes \<Rightarrow> put_headers \<Rightarrow> fake_server \<times> s3_response" where
  "fake_put md5 sha s now key body h =
     (if lock_refused now h then (s, fail 400 (lock_code now h))
      else if ph_Md5 h \<noteq> None \<and> ph_Md5 h \<noteq> Some (md5 body) then (s, fail 400 ''BadDigest'')
      else if ph_Sha256 h \<noteq> None \<and> ph_Sha256 h \<noteq> Some (sha body) then (s, fail 400 ''BadDigest'')
      else if ph_IfNoneMatch h \<noteq> [] \<and> ph_IfNoneMatch h \<noteq> ''*'' then (s, fail 501 ''NotImplemented'')
      else if ph_IfNoneMatch h \<noteq> [] \<and> (case fake_latest s key of None \<Rightarrow> False | Some l \<Rightarrow> \<not> fv_DeleteMarker l)
        then (s, fail 412 ''PreconditionFailed'')
      else let (s1, vid, modified) = newVersion s now;
          v = \<lparr>fv_ID = vid, fv_Data = body, fv_DeleteMarker = False, fv_Mode = ph_LockMode h,
            fv_RetainUntil = (case ph_RetainUntil h of At u \<Rightarrow> u | _ \<Rightarrow> 0), fv_Modified = modified\<rparr> in
        ((add_version s1 key v)\<lparr>fk_puts := fk_puts s + 1\<rparr>, \<lparr>rp_Status = 200, rp_VersionID = vid, rp_Body = NoBody\<rparr>))"

definition pick :: "fake_server \<Rightarrow> string \<Rightarrow> string \<Rightarrow> fake_version option" where
  "pick s key vid = (if vid \<noteq> [] then fake_find s key vid else fake_latest s key)"

definition fake_get :: "fake_server \<Rightarrow> string \<Rightarrow> string \<Rightarrow> s3_response" where
  "fake_get s key vid =
     (case pick s key vid of None \<Rightarrow> fail 404 ''NoSuchKey''
      | Some v \<Rightarrow>
          if fv_DeleteMarker v then (if vid \<noteq> [] then fail 405 ''MethodNotAllowed'' else fail 404 ''NoSuchKey'')
          else \<lparr>rp_Status = 200, rp_VersionID = fv_ID v,
            rp_Body = (if fv_Mode v \<noteq> [] then ObjectBody (fv_Data v) (At (fv_Modified v)) (fv_Mode v) (At (whole_s (fv_RetainUntil v)))
              else ObjectBody (fv_Data v) (At (fv_Modified v)) [] NoDate)\<rparr>)"

definition fake_retention :: "fake_server \<Rightarrow> string \<Rightarrow> string \<Rightarrow> s3_response" where
  "fake_retention s key vid =
     (case pick s key vid of None \<Rightarrow> fail 404 ''NoSuchKey''
      | Some v \<Rightarrow>
          if fv_DeleteMarker v then fail 404 ''NoSuchKey''
          else if fv_Mode v = [] then fail 404 ''NoSuchObjectLockConfiguration''
          else \<lparr>rp_Status = 200, rp_VersionID = [], rp_Body = RetentionXML (fv_Mode v) (At (whole_s (fv_RetainUntil v)))\<rparr>)"

definition fake_locked :: "time \<Rightarrow> bool \<Rightarrow> fake_version \<Rightarrow> bool" where
  "fake_locked now bypass v \<longleftrightarrow> (fv_Mode v \<noteq> [] \<and> now < fv_RetainUntil v) \<and> \<not> (fv_Mode v = ''GOVERNANCE'' \<and> bypass)"

definition fake_delete :: "fake_server \<Rightarrow> time \<Rightarrow> string \<Rightarrow> string \<Rightarrow> bool \<Rightarrow> fake_server \<times> s3_response" where
  "fake_delete s now key vid bypass =
     (if vid = [] then
        (let (s1, nid, modified) = newVersion s now in
         (add_version s1 key \<lparr>fv_ID = nid, fv_Data = [], fv_DeleteMarker = True, fv_Mode = [], fv_RetainUntil = 0, fv_Modified = modified\<rparr>,
          \<lparr>rp_Status = 204, rp_VersionID = [], rp_Body = NoBody\<rparr>))
      else (case fake_find s key vid of None \<Rightarrow> (s, fail 404 ''NoSuchVersion'')
        | Some v \<Rightarrow>
            if fake_locked now bypass v then (s, fail 403 ''AccessDenied'')
            else (let vs = remove1 v (fake_Versions s key) in
              (s\<lparr>fk_objects := (if vs = [] then AList.delete key (fk_objects s) else AList.update key vs (fk_objects s))\<rparr>,
               \<lparr>rp_Status = 204, rp_VersionID = [], rp_Body = NoBody\<rparr>))))"

text \<open>The listing: every version of every name with the prefix, names sorted, newest first.\<close>

definition all_entries :: "fake_server \<Rightarrow> string \<Rightarrow> (string \<times> fake_version) list" where
  "all_entries s pre = concat (map (\<lambda>k. map (Pair k) (rev (fake_Versions s k))) (filter (\<lambda>k. take (length pre) k = pre) (sortedKeys s)))"

definition start_after :: "(string \<times> fake_version) list \<Rightarrow> string \<Rightarrow> string \<Rightarrow> nat" where
  "start_after xs km vm = (if km = [] then 0 else
     (let i = length (takeWhile (\<lambda>(k, v). \<not> (k = km \<and> fv_ID v = vm)) xs) in if i < length xs then i + 1 else 0))"

definition list_entry_of :: "fake_server \<Rightarrow> string \<times> fake_version \<Rightarrow> list_entry" where
  "list_entry_of s kv = (case kv of (k, v) \<Rightarrow> \<lparr>le_Kind = (if fv_DeleteMarker v then KDeleteMarker else KVersion), le_Key = k,
     le_VersionID = fv_ID v, le_IsLatest = (fake_latest s k = Some v), le_LastModified = At (fv_Modified v)\<rparr>)"

text \<open>The text of a page, as the store writes it.\<close>

definition xml_char :: "nat \<Rightarrow> bool" where
  "xml_char r \<longleftrightarrow> r \<in> {9, 10, 13} \<or> 32 \<le> r \<and> r \<le> 55295 \<or> 57344 \<le> r \<and> r \<le> 65533 \<or> 65536 \<le> r \<and> r \<le> 1114111"

definition xml_rune :: "nat \<Rightarrow> string" where
  "xml_rune r = (if r = 34 then ''&#34;'' else if r = 39 then ''&#39;'' else if r = 38 then ''&amp;'' else if r = 60 then ''&lt;''
     else if r = 62 then ''&gt;'' else if r = 9 then ''&#x9;'' else if r = 10 then ''&#xA;'' else if r = 13 then ''&#xD;''
     else encode_rune (if xml_char r then r else 65533))"

definition xmlEscape :: "string \<Rightarrow> string" where
  "xmlEscape s = concat (map xml_rune (runes s))"

text \<open>
  A name that XML carries: the UTF-8 of characters that XML allows. Escaped and read back it is the same name; the
  listing below gives the client the names themselves, which is what the program does for these names only.
\<close>

definition xml_name :: "string \<Rightarrow> bool" where
  "xml_name k \<longleftrightarrow> list_all xml_char (runes k) \<and> concat (map encode_rune (runes k)) = k"

definition xml_elem :: "string \<Rightarrow> string \<Rightarrow> string" where
  "xml_elem tag body = ''<'' @ tag @ ''>'' @ body @ ''</'' @ tag @ ''>''"

definition xml_bool :: "bool \<Rightarrow> string" where
  "xml_bool b = (if b then ''true'' else ''false'')"

definition entry_text :: "list_entry \<Rightarrow> string" where
  "entry_text e = xml_elem (if le_Kind e = KDeleteMarker then ''DeleteMarker'' else ''Version'')
     (xml_elem ''Key'' (xmlEscape (le_Key e)) @ xml_elem ''VersionId'' (le_VersionID e) @ xml_elem ''IsLatest'' (xml_bool (le_IsLatest e)) @
      xml_elem ''LastModified'' (case le_LastModified e of At t \<Rightarrow> format_ts t | _ \<Rightarrow> []))"

definition list_text :: "list_result \<Rightarrow> string" where
  "list_text r = xml_elem ''ListVersionsResult'' (xml_elem ''IsTruncated'' (xml_bool (lr_IsTruncated r)) @
     (if lr_IsTruncated r then xml_elem ''NextKeyMarker'' (xmlEscape (lr_NextKeyMarker r)) @
        xml_elem ''NextVersionIdMarker'' (lr_NextVersionIDMarker r) else []) @
     concat (map entry_text (lr_Entries r)))"

definition list_page :: "fake_server \<Rightarrow> string \<Rightarrow> nat \<Rightarrow> list_result" where
  "list_page s pre start =
     (let xs = all_entries s pre; end = min (start + fk_pageMax s) (length xs); truncated = end < length xs in
      \<lparr>lr_IsTruncated = truncated,
         lr_NextKeyMarker = (if truncated then fst (xs ! (end - 1)) else []),
         lr_NextVersionIDMarker = (if truncated then fv_ID (snd (xs ! (end - 1))) else []),
         lr_Entries = map (list_entry_of s) (take (end - start) (drop start xs))\<rparr>)"

definition fake_list :: "fake_server \<Rightarrow> string \<Rightarrow> string \<Rightarrow> string \<Rightarrow> s3_response" where
  "fake_list s pre km vm =
     (let r = list_page s pre (start_after (all_entries s pre) km vm) in
      \<lparr>rp_Status = 200, rp_VersionID = [], rp_Body = ListXML r (length (list_text r))\<rparr>)"

definition ServeHTTP ::
  "(bytes \<Rightarrow> bytes) \<Rightarrow> (bytes \<Rightarrow> bytes) \<Rightarrow> time \<Rightarrow> fake_server \<Rightarrow> s3_op \<Rightarrow> fake_server \<times> s3_response" where
  "ServeHTTP md5 sha now s rq =
     (if fk_down s then (s, fail 503 ''SlowDown'')
      else (case rq of
          ListVersionsPage pre km vm \<Rightarrow> (s, fake_list s pre km vm)
        | PutObject key body h \<Rightarrow> if key = [] then (s, fail 501 ''NotImplemented'') else fake_put md5 sha s now key body h
        | GetRetention key vid \<Rightarrow> if key = [] then (s, fail 501 ''NotImplemented'') else (s, fake_retention s key vid)
        | GetObject key vid \<Rightarrow> if key = [] then (s, fail 501 ''NotImplemented'') else (s, fake_get s key vid)
        | DeleteObject key vid bypass \<Rightarrow> if key = [] then (s, fail 501 ''NotImplemented'') else fake_delete s now key vid bypass))"

text \<open>The store as a transport.\<close>

definition fake_send :: "(bytes \<Rightarrow> bytes) \<Rightarrow> (bytes \<Rightarrow> bytes) \<Rightarrow> time \<Rightarrow> fake_server transport" where
  "fake_send md5 sha now s rq = (let (s', r) = ServeHTTP md5 sha now s rq in (s', Some r))"

lemma ascii_xml_name:
  assumes "list_all (\<lambda>c. 32 \<le> byte c \<and> byte c < 128) k"
  shows "xml_name k"
proof -
  have "runes k = map byte k"
    using assms by (induction k) (simp_all add: runes.simps [of "_ # _"] runes.simps [of "[]"])
  moreover have "list_all xml_char (map byte k)"
    using assms by (auto simp: xml_char_def list_all_iff)
  moreover have "concat (map encode_rune (map byte k)) = k"
    using assms by (induction k) (simp_all add: encode_rune_def)
  ultimately show ?thesis by (simp add: xml_name_def)
qed

section \<open>Version IDs are unique\<close>

definition dec_value :: "string \<Rightarrow> int" where
  "dec_value s = foldl (\<lambda>a c. 10 * a + digit_val c) 0 s"

lemma dec_value_snoc [simp]: "dec_value (s @ [c]) = 10 * dec_value s + digit_val c"
  by (simp add: dec_value_def)

lemma dec_value_digits: "dec_value (dec_digits n) = int n"
proof (induction n rule: dec_digits.induct)
  case (1 n)
  show ?case
  proof (cases "n < 10")
    case True
    then show ?thesis by (subst dec_digits.simps) (simp add: dec_value_def)
  next
    case False
    with 1 show ?thesis by (subst dec_digits.simps) (simp add: zdiv_int zmod_int)
  qed
qed

lemma dec_value_zeros: "dec_value (replicate n (CHR ''0'') @ s) = dec_value s"
proof (induction n)
  case (Suc n)
  have "digit_val (CHR ''0'') = 0" by code_simp
  then show ?case using Suc by (simp add: dec_value_def)
qed simp

lemma dec_value_append_int: "0 \<le> n \<Longrightarrow> dec_value (append_int n w) = n"
  by (simp add: append_int_def Let_def dec_value_zeros dec_value_digits)

definition version_id :: "int \<Rightarrow> string" where
  "version_id n = ''v'' @ append_int n 6"

lemma version_id_inj: "0 \<le> m \<Longrightarrow> 0 \<le> n \<Longrightarrow> version_id m = version_id n \<longleftrightarrow> m = n"
  using dec_value_append_int by (metis append_same_eq append_eq_append_conv version_id_def)

lemma version_id_nonempty [simp]: "version_id n \<noteq> []" "[] \<noteq> version_id n"
  by (simp_all add: version_id_def)

text \<open>What every request keeps of the store's tables.\<close>

definition fake_ok :: "fake_server \<Rightarrow> bool" where
  "fake_ok s \<longleftrightarrow> 0 \<le> fk_seq s \<and> distinct (map fst (fk_objects s)) \<and>
     (\<forall>k. distinct (map fv_ID (fake_Versions s k)) \<and>
        (\<forall>v \<in> set (fake_Versions s k). k \<noteq> [] \<and> (\<exists>n. 1 \<le> n \<and> n \<le> fk_seq s \<and> fv_ID v = version_id n)))"

lemma fake_New_ok: "fake_ok fake_New"
  by (simp add: fake_ok_def fake_New_def fake_Versions_def)

lemma fake_okD:
  assumes "fake_ok s"
  shows "0 \<le> fk_seq s" "distinct (map fst (fk_objects s))" "distinct (map fv_ID (fake_Versions s k))"
    "v \<in> set (fake_Versions s k) \<Longrightarrow> k \<noteq> [] \<and> (\<exists>n. 1 \<le> n \<and> n \<le> fk_seq s \<and> fv_ID v = version_id n)"
  using assms by (simp_all add: fake_ok_def)

lemma fresh_id:
  assumes "fake_ok s" "v \<in> set (fake_Versions s k)"
  shows "fv_ID v \<noteq> version_id (fk_seq s + 1)"
  using fake_okD(1) [OF assms(1)] fake_okD(4) [OF assms] by (auto simp: version_id_inj)

lemma newVersion_eq: "newVersion s now = (s\<lparr>fk_seq := fk_seq s + 1\<rparr>, version_id (fk_seq s + 1), whole_s now)"
  by (simp add: newVersion_def version_id_def)

lemma Versions_add: "fake_Versions (add_version s key v) k = fake_Versions s k @ (if k = key then [v] else [])"
  by (simp add: fake_Versions_def add_version_def AList.update_conv' split: option.split)

lemma Versions_seq [simp]: "fake_Versions (s\<lparr>fk_seq := n\<rparr>) k = fake_Versions s k"
  "fake_Versions (s\<lparr>fk_puts := m\<rparr>) k = fake_Versions s k"
  by (simp_all add: fake_Versions_def)

lemma add_version_ok:
  assumes "fake_ok s" "key \<noteq> []" "fv_ID v = version_id (fk_seq s + 1)"
  shows "fake_ok (add_version (s\<lparr>fk_seq := fk_seq s + 1\<rparr>) key v)" (is "fake_ok ?t")
proof -
  note s = fake_okD [OF assms(1)]
  have t: "fk_seq ?t = fk_seq s + 1" "distinct (map fst (fk_objects ?t))"
    using s(2) by (simp_all add: add_version_def AList.distinct_update)
  have old: "\<exists>n. 1 \<le> n \<and> n \<le> fk_seq s + 1 \<and> fv_ID w = version_id n" if "w \<in> set (fake_Versions s k)" for w k
    using s(4) [OF that] by force
  have new: "\<exists>n. 1 \<le> n \<and> n \<le> fk_seq s + 1 \<and> fv_ID v = version_id n"
    using s(1) assms(3) by (intro exI [of _ "fk_seq s + 1"]) simp
  have "fv_ID v \<notin> fv_ID ` set (fake_Versions s key)"
  proof
    assume "fv_ID v \<in> fv_ID ` set (fake_Versions s key)"
    then obtain w where "w \<in> set (fake_Versions s key)" "fv_ID w = fv_ID v" by auto
    with fresh_id [OF assms(1)] assms(3) show False by metis
  qed
  then have "distinct (map fv_ID (fake_Versions ?t k))" for k
    using s(3) [of key] s(3) [of k] by (simp add: Versions_add)
  moreover have "k \<noteq> [] \<and> (\<exists>n. 1 \<le> n \<and> n \<le> fk_seq ?t \<and> fv_ID w = version_id n)" if "w \<in> set (fake_Versions ?t k)" for w k
    using that s(4) [of w k] old [of w k] new assms(2) unfolding t(1) by (auto simp: Versions_add split: if_splits)
  ultimately show ?thesis using s(1) t unfolding fake_ok_def by simp
qed

lemma fake_put_cases:
  assumes "fake_put md5 sha s now key body h = (s', r)"
  shows "s' = s \<and> rp_Status r \<noteq> 200 \<or>
    (\<exists>v. s' = (add_version (s\<lparr>fk_seq := fk_seq s + 1\<rparr>) key v)\<lparr>fk_puts := fk_puts s + 1\<rparr> \<and>
       v = \<lparr>fv_ID = version_id (fk_seq s + 1), fv_Data = body, fv_DeleteMarker = False, fv_Mode = ph_LockMode h,
          fv_RetainUntil = (case ph_RetainUntil h of At u \<Rightarrow> u | _ \<Rightarrow> 0), fv_Modified = whole_s now\<rparr> \<and>
       r = \<lparr>rp_Status = 200, rp_VersionID = version_id (fk_seq s + 1), rp_Body = NoBody\<rparr> \<and> \<not> lock_refused now h)"
  using assms by (auto simp: fake_put_def newVersion_eq fail_def split: if_splits option.splits)

lemma fake_delete_cases:
  assumes "fake_delete s now key vid bypass = (s', r)"
  shows "s' = s \<or> (\<exists>v. s' = add_version (s\<lparr>fk_seq := fk_seq s + 1\<rparr>) key v \<and> fv_ID v = version_id (fk_seq s + 1)) \<or>
    (\<exists>v vs. fake_find s key vid = Some v \<and> \<not> fake_locked now bypass v \<and> vs = remove1 v (fake_Versions s key) \<and>
       s' = s\<lparr>fk_objects := (if vs = [] then AList.delete key (fk_objects s) else AList.update key vs (fk_objects s))\<rparr>)"
  using assms by (auto simp: fake_delete_def newVersion_eq fail_def Let_def split: if_splits option.splits)

lemma Versions_removed:
  "fake_Versions (s\<lparr>fk_objects := (if vs = [] then AList.delete key (fk_objects s) else AList.update key vs (fk_objects s))\<rparr>) k =
     (if k = key then vs else fake_Versions s k)"
  by (auto simp: fake_Versions_def AList.update_conv' AList.delete_conv')

lemma fake_removed_ok:
  assumes "fake_ok s" "vs = remove1 v (fake_Versions s key)"
  shows "fake_ok (s\<lparr>fk_objects := (if vs = [] then AList.delete key (fk_objects s) else AList.update key vs (fk_objects s))\<rparr>)"
    (is "fake_ok ?t")
proof -
  note s = fake_okD [OF assms(1)]
  have "distinct (map fst (fk_objects ?t))" using s(2) by (simp add: AList.distinct_delete AList.distinct_update)
  moreover have "distinct (map fv_ID vs)" using s(3) [of key] unfolding assms(2)
    by (simp add: distinct_map distinct_remove1 inj_on_def set_remove1_eq)
  moreover have sub: "w \<in> set vs \<Longrightarrow> w \<in> set (fake_Versions s key)" for w using notin_set_remove1 assms(2) by metis
  ultimately show ?thesis
    using s(1,3) s(4) [of _ key, OF sub] s(4) unfolding fake_ok_def Versions_removed by simp
qed

text \<open>Every request leaves a name as it is, adds a new version to it, or removes one that is not locked.\<close>

lemma ServeHTTP_cases:
  assumes "ServeHTTP md5 sha now s rq = (s', r)"
  shows "s' = s \<or>
    (\<exists>key v n. key \<noteq> [] \<and> fv_ID v = version_id (fk_seq s + 1) \<and>
       s' = (add_version (s\<lparr>fk_seq := fk_seq s + 1\<rparr>) key v)\<lparr>fk_puts := n\<rparr>) \<or>
    (\<exists>key vid bypass v vs. fake_find s key vid = Some v \<and> \<not> fake_locked now bypass v \<and> vs = remove1 v (fake_Versions s key) \<and>
       s' = s\<lparr>fk_objects := (if vs = [] then AList.delete key (fk_objects s) else AList.update key vs (fk_objects s))\<rparr>)"
proof (cases rq)
  case (PutObject key body h)
  with assms have "s' = s \<or> key \<noteq> [] \<and> fake_put md5 sha s now key body h = (s', r)" by (auto simp: ServeHTTP_def split: if_splits)
  then show ?thesis
  proof (elim disjE conjE)
    assume "fake_put md5 sha s now key body h = (s', r)" "key \<noteq> []"
    with fake_put_cases [OF this(1)] show ?thesis
      by (elim disjE exE conjE) (simp, intro disjI2 disjI1 exI conjI, assumption, simp_all)
  qed simp
next
  case (DeleteObject key vid bypass)
  with assms have "s' = s \<or> key \<noteq> [] \<and> fake_delete s now key vid bypass = (s', r)" by (auto simp: ServeHTTP_def split: if_splits)
  then show ?thesis
  proof (elim disjE conjE)
    assume k: "fake_delete s now key vid bypass = (s', r)" "key \<noteq> []"
    have keep: "t = t\<lparr>fk_puts := fk_puts t\<rparr>" for t :: fake_server by simp
    from fake_delete_cases [OF k(1)] show ?thesis
    proof (elim disjE)
      assume "\<exists>v. s' = add_version (s\<lparr>fk_seq := fk_seq s + 1\<rparr>) key v \<and> fv_ID v = version_id (fk_seq s + 1)"
      then show ?thesis using k(2) keep by blast
    qed blast+
  qed simp
qed (use assms in \<open>auto simp: ServeHTTP_def split: if_splits\<close>)

lemma ServeHTTP_ok:
  assumes "ServeHTTP md5 sha now s rq = (s', r)" "fake_ok s"
  shows "fake_ok s'"
proof -
  have puts: "fake_ok (t\<lparr>fk_puts := n\<rparr>) = fake_ok t" for t n by (simp add: fake_ok_def)
  from ServeHTTP_cases [OF assms(1)] show ?thesis
  proof (elim disjE exE conjE)
    fix key v n assume "key \<noteq> []" "fv_ID v = version_id (fk_seq s + 1)" "s' = (add_version (s\<lparr>fk_seq := fk_seq s + 1\<rparr>) key v)\<lparr>fk_puts := n\<rparr>"
    with add_version_ok [OF assms(2)] show ?thesis by (simp only: puts)
  next
    fix key vid v vs assume "vs = remove1 v (fake_Versions s key)"
      "s' = s\<lparr>fk_objects := (if vs = [] then AList.delete key (fk_objects s) else AList.update key vs (fk_objects s))\<rparr>"
    with fake_removed_ok [OF assms(2)] show ?thesis by simp
  qed (use assms(2) in simp)
qed

section \<open>Object Lock\<close>

text \<open>What a lock is worth: until its retention ends, no request of anyone removes or changes the version.\<close>

definition holds_locked :: "fake_server \<Rightarrow> string \<Rightarrow> fake_version \<Rightarrow> bool" where
  "holds_locked s key v \<longleftrightarrow> v \<in> set (fake_Versions s key) \<and> fv_Mode v = LockCompliance \<and> \<not> fv_DeleteMarker v"

lemma locked_survives:
  assumes "ServeHTTP md5 sha now s rq = (s', r)" "holds_locked s key v" "now < fv_RetainUntil v"
  shows "holds_locked s' key v"
proof -
  have v: "v \<in> set (fake_Versions s key)" "fv_Mode v = LockCompliance" "\<not> fv_DeleteMarker v"
    using assms(2) by (simp_all add: holds_locked_def)
  from ServeHTTP_cases [OF assms(1)] have "v \<in> set (fake_Versions s' key)"
  proof (elim disjE exE conjE)
    fix k vid bypass w vs assume w: "\<not> fake_locked now bypass w" "vs = remove1 w (fake_Versions s k)"
      "s' = s\<lparr>fk_objects := (if vs = [] then AList.delete k (fk_objects s) else AList.update k vs (fk_objects s))\<rparr>"
    have "w \<noteq> v" using w(1) v(2) assms(3) by (auto simp: fake_locked_def LockCompliance_def)
    then show ?thesis using v(1) unfolding w(3) Versions_removed by (cases "key = k") (simp_all add: w(2))
  qed (use v(1) in \<open>simp_all add: Versions_add\<close>)
  then show ?thesis using v by (simp add: holds_locked_def)
qed

lemma Versions_switches [simp]:
  "fake_Versions (SetDown s b) = fake_Versions s" "fake_Versions (SetPageSize s n) = fake_Versions s"
  by (simp_all add: fun_eq_iff fake_Versions_def SetDown_def SetPageSize_def)

lemma fake_ok_switches [simp]: "fake_ok (SetDown s b) = fake_ok s" "fake_ok (SetPageSize s n) = fake_ok s"
  by (simp_all add: fake_ok_def) (simp_all add: SetDown_def SetPageSize_def)

lemma holds_locked_switches [simp]:
  "holds_locked (SetDown s b) key v = holds_locked s key v" "holds_locked (SetPageSize s n) key v = holds_locked s key v"
  by (simp_all add: holds_locked_def)

text \<open>
  The store at work before time \<open>U\<close>: anybody with the store's credentials sends requests, the store goes
  down and comes back, and lists in pages of any size.
\<close>

inductive fake_run :: "(bytes \<Rightarrow> bytes) \<Rightarrow> (bytes \<Rightarrow> bytes) \<Rightarrow> time \<Rightarrow> fake_server \<Rightarrow> fake_server \<Rightarrow> bool" for md5 sha U s where
  here: "fake_run md5 sha U s s"
| request: "fake_run md5 sha U s t \<Longrightarrow> now < U \<Longrightarrow> ServeHTTP md5 sha now t rq = (t', r) \<Longrightarrow> fake_run md5 sha U s t'"
| switched: "fake_run md5 sha U s t \<Longrightarrow> fake_run md5 sha U s (SetDown t b)"
| paged: "fake_run md5 sha U s t \<Longrightarrow> fake_run md5 sha U s (SetPageSize t n)"

lemma fake_run_ok: "fake_run md5 sha U s t \<Longrightarrow> fake_ok s \<Longrightarrow> fake_ok t"
  by (induction rule: fake_run.induct) (simp_all add: ServeHTTP_ok)

lemma fake_run_locked:
  assumes "fake_run md5 sha U s t" "holds_locked s key v" "U \<le> fv_RetainUntil v"
  shows "holds_locked t key v"
  using assms(1)
proof (induction rule: fake_run.induct)
  case (request t now rq t' r)
  from locked_survives [OF request.hyps(3) request.IH] request.hyps(2) assms(3) show ?case by simp
qed (use assms(2) in simp_all)

section \<open>Listing\<close>

definition sv_of :: "fake_server \<Rightarrow> string \<times> fake_version \<Rightarrow> s3_version" where
  "sv_of s kv = (case kv of (k, v) \<Rightarrow> \<lparr>sv_Key = k, sv_VersionID = fv_ID v, sv_LastModified = fv_Modified v,
     sv_IsLatest = (fake_latest s k = Some v), sv_DeleteMarker = fv_DeleteMarker v\<rparr>)"

definition mark :: "string \<times> fake_version \<Rightarrow> string \<times> string" where
  "mark kv = (fst kv, fv_ID (snd kv))"

lemma all_entries_set:
  "(k, v) \<in> set (all_entries s pre) \<longleftrightarrow> v \<in> set (fake_Versions s k) \<and> take (length pre) k = pre"
proof -
  have "v \<in> set (fake_Versions s k) \<Longrightarrow> k \<in> fst ` set (fk_objects s)"
    using map_of_SomeD [of "fk_objects s" k] by (cases "map_of (fk_objects s) k") (force simp: fake_Versions_def)+
  then show ?thesis by (auto simp: all_entries_def sortedKeys_def)
qed

lemma distinct_entries: "distinct ks \<Longrightarrow> (\<And>k. distinct (map f (g k))) \<Longrightarrow>
    distinct (map (\<lambda>kv. (fst kv, f (snd kv))) (concat (map (\<lambda>k. map (Pair k) (rev (g k))) ks)))"
proof (induction ks)
  case (Cons k ks)
  have "distinct (map (Pair k) (map f (rev (g k))))"
    using Cons.prems(2) [of k] by (simp add: distinct_map inj_on_def rev_map [symmetric])
  then show ?case using Cons by (auto simp: comp_def)
qed simp

lemma all_entries_distinct: "fake_ok s \<Longrightarrow> distinct (map mark (all_entries s pre))"
  unfolding mark_def all_entries_def using fake_okD(2,3)
  by (intro distinct_entries) (simp_all add: sortedKeys_def)

lemma start_after_at:
  assumes "distinct (map mark xs)" "i < length xs" "mark (xs ! i) = (km, vm)" "km \<noteq> []"
  shows "start_after xs km vm = i + 1"
proof -
  let ?P = "\<lambda>(k, v). \<not> (k = km \<and> fv_ID v = vm)"
  have P: "?P kv \<longleftrightarrow> mark kv \<noteq> (km, vm)" for kv by (cases kv) (auto simp: mark_def)
  have "takeWhile ?P xs = take i xs"
  proof (rule takeWhile_eq_take_P_nth)
    fix j assume j: "j < i" "j < length xs"
    then have "mark (xs ! j) \<noteq> mark (xs ! i)" using assms(1,2) nth_eq_iff_index_eq [of "map mark xs" j i] by simp
    then show "?P (xs ! j)" using assms(3) unfolding P by simp
  qed (use assms(3) in \<open>simp only: P not_not\<close>)
  then show ?thesis using assms(2,4) by (simp add: start_after_def Let_def)
qed

lemma parse_entries:
  assumes "\<forall>kv \<in> set xs. fst kv \<noteq> [] \<and> fv_ID (snd kv) \<noteq> []"
  shows "efold (\<lambda>out e. ebind (parse_entry e) (\<lambda>vs. Inr (out @ vs))) out (map (list_entry_of s) xs) = Inr (out @ map (sv_of s) xs)"
  using assms
proof (induction xs arbitrary: out)
  case (Cons kv xs)
  have "parse_entry (list_entry_of s kv) = Inr [sv_of s kv]"
    using Cons.prems by (cases kv) (simp add: parse_entry_def list_entry_of_def sv_of_def)
  then show ?case using Cons by simp
qed simp

text \<open>A page that the client can read whole.\<close>

definition page_fits :: "fake_server \<Rightarrow> string \<Rightarrow> nat \<Rightarrow> bool" where
  "page_fits s pre i \<longleftrightarrow> length (list_text (list_page s pre i)) \<le> maxListing"

lemma list_pages_next:
  assumes "send st (ListVersionsPage pre km vm) = (st', Some r)" "rp_Status r = 200"
    and "parseListing (read_listing (rp_Body r)) = Inr (lr, vs)" "lr_IsTruncated lr"
    and "\<not> (lr_NextKeyMarker lr = km \<and> lr_NextVersionIDMarker lr = vm)"
  shows "list_pages (Suc n) send pre st km vm out = list_pages n send pre st' (lr_NextKeyMarker lr) (lr_NextVersionIDMarker lr) (out @ vs)"
  using assms(1-4) by (simp add: if_not_P [OF assms(5)])

lemma list_pages_from:
  assumes "fake_ok s" "\<not> fk_down s" "0 < fk_pageMax s" and xs: "xs = all_entries s pre"
  shows "(i = 0 \<and> km = [] \<and> vm = [] \<or> 0 < i \<and> mark (xs ! (i - 1)) = (km, vm)) \<Longrightarrow> i \<le> length xs \<Longrightarrow>
    \<exists>x. list_pages n (fake_send md5 sha now) pre s km vm out = (s, x) \<and>
      (x = (if 0 < n \<and> length xs - i \<le> n * fk_pageMax s then Inr (out @ map (sv_of s) (drop i xs)) else Inl S3Endless) \<or>
       x = Inl S3BadReply \<and> (\<exists>j \<ge> i. j \<le> length xs \<and> \<not> page_fits s pre j))"
proof (induction n arbitrary: i km vm out)
  case (Suc n)
  let ?p = "fk_pageMax s"
  define e where "e = min (i + ?p) (length xs)"
  have entry: "fst kv \<noteq> [] \<and> fv_ID (snd kv) \<noteq> []" if "kv \<in> set xs" for kv
    using that fake_okD(4) [OF assms(1), of "snd kv" "fst kv"] all_entries_set [of "fst kv" "snd kv" s pre] xs by auto
  have start: "start_after xs km vm = i"
  proof (cases "i = 0")
    case True
    then show ?thesis using Suc.prems(1) by (simp add: start_after_def)
  next
    case False
    then have m: "mark (xs ! (i - 1)) = (km, vm)" "i - 1 < length xs" using Suc.prems(1,2) by auto
    have "km \<noteq> []" using entry [of "xs ! (i - 1)"] m by (auto simp: mark_def)
    from start_after_at [OF _ m(2,1) this] all_entries_distinct [OF assms(1), of pre] False show ?thesis by (simp add: xs)
  qed
  let ?lr = "\<lparr>lr_IsTruncated = e < length xs, lr_NextKeyMarker = (if e < length xs then fst (xs ! (e - 1)) else []),
    lr_NextVersionIDMarker = (if e < length xs then fv_ID (snd (xs ! (e - 1))) else []),
    lr_Entries = map (list_entry_of s) (take (e - i) (drop i xs))\<rparr>"
  have lp: "list_page s pre i = ?lr" by (simp add: list_page_def Let_def xs [symmetric] e_def)
  have page: "fake_send md5 sha now s (ListVersionsPage pre km vm) =
      (s, Some \<lparr>rp_Status = 200, rp_VersionID = [], rp_Body = ListXML ?lr (length (list_text ?lr))\<rparr>)"
    using assms(2) start by (simp add: fake_send_def ServeHTTP_def fake_list_def Let_def xs [symmetric] lp)
  show ?case
  proof (cases "page_fits s pre i")
    case False
    then have "read_listing (ListXML ?lr (length (list_text ?lr))) = BadXML" by (simp add: page_fits_def lp read_listing_def)
    then have "list_pages (Suc n) (fake_send md5 sha now) pre s km vm out = (s, Inl S3BadReply)"
      using page by (simp add: parseListing_def)
    then show ?thesis using False Suc.prems(2) by blast
  next
    case fits: True
    then have parse: "parseListing (read_listing (ListXML ?lr (length (list_text ?lr)))) = Inr (?lr, map (sv_of s) (take (e - i) (drop i xs)))"
      using parse_entries [of "take (e - i) (drop i xs)" "[]" s] entry
      by (simp add: parseListing_def page_fits_def lp read_listing_def) (meson in_set_dropD in_set_takeD)
    show ?thesis
    proof (cases "e < length xs")
      case False
      then have "e - i = length xs - i" "length xs - i \<le> ?p" by (simp_all add: e_def)
      then show ?thesis using page parse False by (simp add: trans_le_add1)
    next
      case True
      have e: "e = i + ?p" "i < e" using True assms(3) by (simp_all add: e_def)
      have mark: "mark (xs ! (e - 1)) = (lr_NextKeyMarker ?lr, lr_NextVersionIDMarker ?lr)" using True by (simp add: mark_def)
      have "mark (xs ! (e - 1)) \<noteq> (km, vm)"
      proof (cases "i = 0")
        case True
        then show ?thesis using entry [of "xs ! (e - 1)"] Suc.prems(1) e \<open>e < length xs\<close> by (auto simp: mark_def)
      next
        case False
        then have "mark (xs ! (i - 1)) = (km, vm)" using Suc.prems(1) by simp
        moreover have "mark (xs ! (e - 1)) \<noteq> mark (xs ! (i - 1))"
          using nth_eq_iff_index_eq [OF all_entries_distinct [OF assms(1), of pre], of "e - 1" "i - 1"] e True False xs by simp
        ultimately show ?thesis by simp
      qed
      then have new: "\<not> (lr_NextKeyMarker ?lr = km \<and> lr_NextVersionIDMarker ?lr = vm)" using mark by simp
      have len: "0 < n \<and> length xs - e \<le> n * ?p \<longleftrightarrow> length xs - i \<le> Suc n * ?p" using True e by (cases n) auto
      have app: "take (e - i) (drop i xs) @ drop e xs = drop i xs"
        using e(2) append_take_drop_id [of "e - i" "drop i xs"] by simp
      have step: "list_pages (Suc n) (fake_send md5 sha now) pre s km vm out =
          list_pages n (fake_send md5 sha now) pre s (lr_NextKeyMarker ?lr) (lr_NextVersionIDMarker ?lr)
            (out @ map (sv_of s) (take (e - i) (drop i xs)))"
      proof (rule list_pages_next [where send = "fake_send md5 sha now", OF page])
        show "\<not> (lr_NextKeyMarker ?lr = km \<and> lr_NextVersionIDMarker ?lr = vm)" by (rule new)
      qed (use parse True in simp_all)
      obtain x where x: "list_pages n (fake_send md5 sha now) pre s (lr_NextKeyMarker ?lr) (lr_NextVersionIDMarker ?lr)
            (out @ map (sv_of s) (take (e - i) (drop i xs))) = (s, x)"
        "x = (if 0 < n \<and> length xs - e \<le> n * ?p then Inr ((out @ map (sv_of s) (take (e - i) (drop i xs))) @ map (sv_of s) (drop e xs))
            else Inl S3Endless) \<or> x = Inl S3BadReply \<and> (\<exists>j \<ge> e. j \<le> length xs \<and> \<not> page_fits s pre j)"
        using Suc.IH [of e "lr_NextKeyMarker ?lr" "lr_NextVersionIDMarker ?lr" "out @ map (sv_of s) (take (e - i) (drop i xs))"] mark e True
        by auto
      have "(out @ map (sv_of s) (take (e - i) (drop i xs))) @ map (sv_of s) (drop e xs) = out @ map (sv_of s) (drop i xs)"
        using app by (simp add: map_append [symmetric] del: map_append)
      with x(2) have "x = (if 0 < Suc n \<and> length xs - i \<le> Suc n * ?p then Inr (out @ map (sv_of s) (drop i xs)) else Inl S3Endless) \<or>
          x = Inl S3BadReply \<and> (\<exists>j \<ge> i. j \<le> length xs \<and> \<not> page_fits s pre j)"
        unfolding len using e(2) by (auto dest: less_imp_le order_trans)
      then show ?thesis unfolding step x(1) by blast
    qed
  qed
qed simp

lemma list_pages_all:
  assumes "fake_ok s" "\<not> fk_down s" "0 < fk_pageMax s"
  shows "\<exists>x. ListVersions (fake_send md5 sha now) s pre = (s, x) \<and>
    (x = (if length (all_entries s pre) \<le> 10001 * fk_pageMax s then Inr (map (sv_of s) (all_entries s pre)) else Inl S3Endless) \<or>
     x = Inl S3BadReply \<and> (\<exists>i \<le> length (all_entries s pre). \<not> page_fits s pre i))"
  using list_pages_from [OF assms refl, of 0 "[]" "[]" pre maxPages md5 sha now "[]"]
  by (auto simp: ListVersions_def maxPages_def simp del: list_pages.simps)

text \<open>A page of at most a thousand names of at most 1024 bytes, as the object store of S3 has them, fits.\<close>

lemma xml_rune_length: "length (xml_rune r) \<le> 5"
  by (simp add: xml_rune_def encode_rune_def)

lemma runes_length: "length (runes s) \<le> length s"
proof (induction s rule: runes.induct)
  case (1 s)
  show ?case
  proof (cases "s = []")
    case False
    show ?thesis
    proof (cases "decode_rune s")
      case None
      then show ?thesis using 1(1) [OF False None] False by (subst runes.simps) (cases s; simp)
    next
      case (Some p)
      obtain r n where p: "p = (r, n)" by (cases p)
      have "0 < n \<and> n \<le> length s" using decode_rune_width Some p by blast
      then show ?thesis using 1(2) [OF False Some p [symmetric]] False Some p
        by (subst runes.simps) (simp, linarith)
    qed
  qed (simp add: runes.simps)
qed

lemma xmlEscape_length: "length (xmlEscape s) \<le> 5 * length s"
proof -
  have "length (concat (map xml_rune rs)) \<le> 5 * length rs" for rs
  proof (induction rs)
    case (Cons r rs)
    then show ?case using xml_rune_length [of r] by simp
  qed simp
  from this [of "runes s"] runes_length [of s] show ?thesis unfolding xmlEscape_def by linarith
qed

lemma length_format_ts: "0 \<le> t \<Longrightarrow> t < y10k \<Longrightarrow> length (format_ts t) = 24"
  by (simp add: format_ts_def fmt_civil_padw civil_of_wf)

lemma small_pages_fit:
  assumes "fk_pageMax s \<le> 1000"
    and "\<forall>(k, v) \<in> set (all_entries s pre). length k \<le> 1024 \<and> length (fv_ID v) \<le> 1024 \<and> length (format_ts (fv_Modified v)) \<le> 1024"
  shows "page_fits s pre i"
proof -
  let ?xs = "all_entries s pre"
  define ys where "ys = take (min (i + fk_pageMax s) (length ?xs) - i) (drop i ?xs)"
  have len: "length ys \<le> 1000" using assms(1) by (simp add: ys_def)
  have sub: "kv \<in> set ?xs" if "kv \<in> set ys" for kv using that unfolding ys_def by (meson in_set_dropD in_set_takeD)
  have one: "length (entry_text (list_entry_of s kv)) \<le> 8000" if "kv \<in> set ?xs" for kv
  proof -
    obtain k v where kv: "kv = (k, v)" by (cases kv)
    have "length k \<le> 1024" "length (fv_ID v) \<le> 1024" "length (format_ts (fv_Modified v)) \<le> 1024"
      using bspec [OF assms(2) that] by (simp_all add: kv)
    then show ?thesis using xmlEscape_length [of k]
      by (simp add: kv entry_text_def list_entry_of_def xml_elem_def xml_bool_def)
  qed
  have "length (concat (map entry_text (map (list_entry_of s) zs))) \<le> 8000 * length zs" if "set zs \<subseteq> set ?xs" for zs
    using that
  proof (induction zs)
    case (Cons z zs)
    then show ?case using one [of z] by simp
  qed simp
  then have "length (concat (map entry_text (map (list_entry_of s) ys))) \<le> 8000 * 1000"
    using len sub by (meson mult_le_mono2 order_trans subsetI)
  moreover have "length (xmlEscape (lr_NextKeyMarker (list_page s pre i))) \<le> 5120" "length (lr_NextVersionIDMarker (list_page s pre i)) \<le> 1024"
  proof -
    let ?e = "min (i + fk_pageMax s) (length ?xs)"
    have mem: "?e < length ?xs \<Longrightarrow> ?xs ! (?e - 1) \<in> set ?xs" by (intro nth_mem) simp
    then have "?e < length ?xs \<Longrightarrow> length (fst (?xs ! (?e - 1))) \<le> 1024 \<and> length (fv_ID (snd (?xs ! (?e - 1)))) \<le> 1024"
      using assms(2) by (auto simp: case_prod_unfold)
    then have "?e < length ?xs \<Longrightarrow> length (xmlEscape (fst (?xs ! (?e - 1)))) \<le> 5120 \<and> length (fv_ID (snd (?xs ! (?e - 1)))) \<le> 1024"
      using xmlEscape_length [of "fst (?xs ! (?e - 1))"] by fastforce
    then show "length (xmlEscape (lr_NextKeyMarker (list_page s pre i))) \<le> 5120" "length (lr_NextVersionIDMarker (list_page s pre i)) \<le> 1024"
      using xmlEscape_length [of "[]"] by (auto simp: list_page_def Let_def)
  qed
  moreover have "lr_Entries (list_page s pre i) = map (list_entry_of s) ys" by (simp add: list_page_def Let_def ys_def)
  ultimately show ?thesis by (simp add: page_fits_def list_text_def xml_elem_def xml_bool_def maxListing_def)
qed

text \<open>
  C39: the listing is complete whatever the page size, for names that XML carries and as long as the client can read
  each page whole (it stops at 16 MiB): \<open>ListVersions\<close> returns every version and delete marker under the prefix, once,
  in the store's order, unless the store needs more than the 10001 pages the client asks for.
\<close>

theorem ListVersions_complete:
  assumes "fake_ok s" "\<not> fk_down s" "0 < fk_pageMax s" "\<forall>(k, v) \<in> set (all_entries s pre). xml_name k"
    and "\<forall>i \<le> length (all_entries s pre). length (list_text (list_page s pre i)) \<le> 16777216"
  shows "ListVersions (fake_send md5 sha now) s pre =
    (s, if length (all_entries s pre) \<le> 10001 * fk_pageMax s then Inr (map (sv_of s) (all_entries s pre)) else Inl S3Endless)"
proof -
  have "\<forall>i \<le> length (all_entries s pre). page_fits s pre i" using assms(5) by (simp add: page_fits_def maxListing_def)
  with list_pages_all [OF assms(1-3), of md5 sha now pre] show ?thesis by auto
qed

end
