(* ===== verification/S3Anchor.thy ===== *)
theory S3Anchor
  imports S3Store
begin

text \<open>
  Checkpoints in the write-once store: \<open>internal/anchor/s3/anchor.go\<close> (names and publishing) and
  \<open>internal/anchor/s3/read.go\<close> (reading a chain's checkpoints back by the rules of ADR-0017).
\<close>

section \<open>Names\<close>

definition safe_char :: "char \<Rightarrow> bool" where
  "safe_char c \<longleftrightarrow> alnum c \<or> c = CHR ''.'' \<or> c = CHR ''_'' \<or> c = CHR ''-''"

definition safeChainID :: "string \<Rightarrow> bool" where
  "safeChainID s \<longleftrightarrow> 1 \<le> length s \<and> length s \<le> 256 \<and> list_all safe_char s"

definition safePrefix :: "string \<Rightarrow> bool" where
  "safePrefix s \<longleftrightarrow> list_all (\<lambda>seg. seg \<noteq> [] \<and> list_all safe_char seg) (split_on (CHR ''/'') s)"

definition ValidName :: "string \<Rightarrow> string \<Rightarrow> bool" where
  "ValidName pre chainID \<longleftrightarrow> safeChainID chainID \<and> chainID \<noteq> ''.'' \<and> chainID \<noteq> ''..'' \<and>
     (pre \<noteq> [] \<longrightarrow> safePrefix pre \<and> list_all (\<lambda>seg. seg \<noteq> ''.'' \<and> seg \<noteq> ''..'') (split_on (CHR ''/'') pre))"

definition ChainPrefix :: "string \<Rightarrow> string \<Rightarrow> string" where
  "ChainPrefix pre chainID = (if pre = [] then chainID @ ''/'' else pre @ ''/'' @ chainID @ ''/'')"

text \<open>\<open>%020d\<close>, a sign included in the width.\<close>

definition pad20 :: "int \<Rightarrow> string" where
  "pad20 n = (if n < 0 then ''-'' @ append_int (- n) 19 else append_int n 20)"

definition ObjectName :: "string \<Rightarrow> string \<Rightarrow> int \<Rightarrow> string" where
  "ObjectName pre chainID sz = ChainPrefix pre chainID @ pad20 sz @ ''.json''"

section \<open>Publishing\<close>

record s3_anchor =
  an_Prefix :: string
  an_ChainID :: string
  an_Retention :: int

text \<open>Nil pointers are \<open>None\<close>; \<open>now\<close> is the client's clock.\<close>

definition anchor_Publish ::
  "'x crypto_scheme \<Rightarrow> (bytes \<Rightarrow> bytes) \<Rightarrow> 'st transport \<Rightarrow> 'st \<Rightarrow> s3_anchor \<Rightarrow> time \<Rightarrow> checkpoint option \<Rightarrow> signed option
     \<Rightarrow> 'st \<times> (s3_error + unit)" where
  "anchor_Publish C md5 send st a now mc ms =
     (case (mc, ms) of (Some c, Some s) \<Rightarrow>
        if c_chain_id c \<noteq> an_ChainID a then (st, Inl S3WrongChain)
        else if an_Retention a \<le> 0 then (st, Inl S3BadRetention)
        else (case signed_Line C s of Inl e \<Rightarrow> (st, Inl S3Encode) | Inr line \<Rightarrow>
          let name = ObjectName (an_Prefix a) (an_ChainID a) (c_size c) in
          (case PutLocked md5 (sum256 C) send st name line (now + an_Retention a) of
             (st1, Inr vid) \<Rightarrow> (st1, Inr ())
           | (st1, Inl e) \<Rightarrow>
               if e \<noteq> S3Exists then (st1, Inl e)
               else (case s3_Get send st1 name [] of
                 (st2, Inl e) \<Rightarrow> (st2, Inl e)
               | (st2, Inr got) \<Rightarrow> (st2, if ob_Body got \<noteq> line then Inl ErrConflict else Inr ()))))
      | _ \<Rightarrow> (st, Inl S3Nothing))"

section \<open>Reading\<close>

record anchored_object =
  ao_Object :: string
  ao_VersionID :: string
  ao_Size :: int
  ao_Line :: bytes
  ao_StoredAt :: time
  ao_RetainUntil :: time

record notices =
  no_DeleteMarkers :: "string list"
  no_Duplicates :: "string list"

definition sizeOf :: "string \<Rightarrow> string \<Rightarrow> int option" where
  "sizeOf base name =
     (let rest = (case cut_prefix base name of None \<Rightarrow> name | Some r \<Rightarrow> r);
          digits = take (length rest - 5) rest in
      if length rest < 5 \<or> drop (length rest - 5) rest \<noteq> ''.json'' then None
      else if length digits \<noteq> 20 \<or> \<not> list_all is_digit digits then None
      else let n = dec_value digits in if n > 2 ^ 63 - 1 \<or> n < 1 then None else Some n)"

text \<open>The oldest version: the last of the list, unless an earlier one was modified strictly before it.\<close>

definition oldest_index :: "s3_version list \<Rightarrow> nat" where
  "oldest_index vs = foldl (\<lambda>old i. if sv_LastModified (vs ! i) < sv_LastModified (vs ! old) then i else old)
     (length vs - 1) (rev [0..<length vs - 1])"

fun read_versions :: "'st transport \<Rightarrow> time \<Rightarrow> string \<Rightarrow> 'st \<Rightarrow> s3_version list \<Rightarrow> 'st \<times> (s3_error + (bytes \<times> time) list)" where
  "read_versions send now name st [] = (st, Inr [])"
| "read_versions send now name st (v # vs) =
     (case s3_Retention send st name (sv_VersionID v) of
        (st1, Inl e) \<Rightarrow> (st1, Inl (if e = S3NotFound then ErrNotLocked else e))
      | (st1, Inr (mode, until)) \<Rightarrow>
          if mode \<noteq> LockCompliance \<or> \<not> now < until then (st1, Inl ErrNotLocked)
          else (case s3_Get send st1 name (sv_VersionID v) of
            (st2, Inl e) \<Rightarrow> (st2, Inl e)
          | (st2, Inr obj) \<Rightarrow> (case read_versions send now name st2 vs of
              (st3, Inl e) \<Rightarrow> (st3, Inl e)
            | (st3, Inr bs) \<Rightarrow> (st3, Inr ((ob_Body obj, until) # bs)))))"

definition read_name ::
  "'st transport \<Rightarrow> time \<Rightarrow> string \<Rightarrow> s3_version list \<Rightarrow> string \<Rightarrow> 'st \<Rightarrow> anchored_object list \<times> notices
     \<Rightarrow> 'st \<times> (s3_error + anchored_object list \<times> notices)" where
  "read_name send now base vs name st acc =
     (case acc of (out, notes) \<Rightarrow>
      let here = filter (\<lambda>v. sv_Key v = name) vs;
          objects = filter (\<lambda>v. \<not> sv_DeleteMarker v) here;
          notes1 = (if list_ex sv_DeleteMarker here then notes\<lparr>no_DeleteMarkers := no_DeleteMarkers notes @ [name]\<rparr> else notes) in
      if objects = [] then (st, Inr (out, notes1))
      else (case sizeOf base name of None \<Rightarrow> (st, Inl ErrStray) | Some sz \<Rightarrow>
        let old = oldest_index objects in
        (case read_versions send now name st objects of
          (st1, Inl e) \<Rightarrow> (st1, Inl e)
        | (st1, Inr bodies) \<Rightarrow>
            if list_ex (\<lambda>b. fst b \<noteq> fst (bodies ! old)) bodies then (st1, Inl ErrRewritten)
            else (st1, Inr (out @ [\<lparr>ao_Object = name, ao_VersionID = sv_VersionID (objects ! old), ao_Size = sz,
                ao_Line = fst (bodies ! old), ao_StoredAt = sv_LastModified (objects ! old), ao_RetainUntil = snd (bodies ! old)\<rparr>],
              if length objects > 1 then notes1\<lparr>no_Duplicates := no_Duplicates notes1 @ [name]\<rparr> else notes1)))))"

fun read_names ::
  "'st transport \<Rightarrow> time \<Rightarrow> string \<Rightarrow> s3_version list \<Rightarrow> string list \<Rightarrow> 'st \<Rightarrow> anchored_object list \<times> notices
     \<Rightarrow> 'st \<times> (s3_error + anchored_object list \<times> notices)" where
  "read_names send now base vs [] st acc = (st, Inr acc)"
| "read_names send now base vs (name # names) st acc =
     (case read_name send now base vs name st acc of
        (st1, Inl e) \<Rightarrow> (st1, Inl e)
      | (st1, Inr acc1) \<Rightarrow> read_names send now base vs names st1 acc1)"

definition s3_Read ::
  "'st transport \<Rightarrow> 'st \<Rightarrow> string \<Rightarrow> string \<Rightarrow> time \<Rightarrow> 'st \<times> (s3_error + anchored_object list \<times> notices)" where
  "s3_Read send st pre chainID now =
     (if \<not> ValidName pre chainID then (st, Inl S3BadName)
      else let base = ChainPrefix pre chainID in
        (case ListVersions send st base of
          (st1, Inl e) \<Rightarrow> (st1, Inl e)
        | (st1, Inr vs) \<Rightarrow>
            (let ours = filter (\<lambda>v. cut_prefix base (sv_Key v) \<noteq> None) vs;
                 names = sort (remdups (map sv_Key ours)) in
             read_names send now base ours names st1 ([], \<lparr>no_DeleteMarkers = [], no_Duplicates = []\<rparr>))))"

section \<open>Names and sizes\<close>

lemma length_pad20: "0 \<le> n \<Longrightarrow> n < 10 ^ 20 \<Longrightarrow> pad20 n = padw 20 n"
  by (simp add: pad20_def append_int_padw)

lemma padw_all_digits: "0 \<le> n \<Longrightarrow> list_all is_digit (padw w n)"
  by (induction w arbitrary: n) simp_all

lemma dec_value_padw: "0 \<le> n \<Longrightarrow> n < 10 ^ w \<Longrightarrow> dec_value (padw w n) = n"
proof (induction w arbitrary: n)
  case 0
  then show ?case by (simp add: dec_value_def)
next
  case (Suc w)
  then have "dec_value (padw w (n div 10)) = n div 10" by (intro Suc.IH) simp_all
  then show ?case using Suc.prems by simp
qed

text \<open>Twenty digits are the name of their value, and names sort as sizes do.\<close>

lemma digits_padw: "list_all is_digit s \<Longrightarrow> padw (length s) (dec_value s) = s"
proof (induction s rule: rev_induct)
  case (snoc c s)
  have c: "is_digit c" using snoc.prems by simp
  then have v: "0 \<le> digit_val c" "digit_val c < 10" by (auto simp: is_digit_def digit_val_def char_le_int)
  have "digit (digit_val c) = c" by (simp add: digit_def digit_val_def)
  then show ?case using snoc v by (simp add: div_add_self1)
qed simp

lemma sizeOf_Some:
  assumes "sizeOf base name = Some n" "cut_prefix base name \<noteq> None"
  shows "1 \<le> n \<and> n < 2 ^ 63 \<and> name = base @ padw 20 n @ ''.json''"
proof -
  obtain rest where r: "cut_prefix base name = Some rest" using assms(2) by auto
  define digits where "digits = take (length rest - 5) rest"
  have d: "drop (length rest - 5) rest = ''.json''" "length digits = 20" "list_all is_digit digits" "n = dec_value digits" "1 \<le> n" "n < 2 ^ 63"
    using assms(1) r by (auto simp: sizeOf_def digits_def Let_def split: if_splits)
  have "rest = digits @ ''.json''" using append_take_drop_id [of "length rest - 5" rest] d(1) by (simp add: digits_def)
  moreover have "padw 20 n = digits" using digits_padw [OF d(3)] d(2,4) by simp
  ultimately show ?thesis using r d by (simp add: cut_prefix_Some)
qed

lemma sizeOf_name: "1 \<le> n \<Longrightarrow> n < 2 ^ 63 \<Longrightarrow> sizeOf base (base @ padw 20 n @ ''.json'') = Some n"
proof -
  assume n: "1 \<le> n" "n < 2 ^ 63"
  have "cut_prefix base (base @ r) = Some r" for r by (simp add: cut_prefix_Some)
  then show ?thesis using n padw_all_digits [of n 20] dec_value_padw [of n 20] by (simp add: sizeOf_def Let_def)
qed

lemma ObjectName_padw: "0 \<le> n \<Longrightarrow> n < 2 ^ 63 \<Longrightarrow> ObjectName pre chainID n = ChainPrefix pre chainID @ padw 20 n @ ''.json''"
  by (simp add: ObjectName_def length_pad20)

section \<open>What the reader may rely on\<close>

text \<open>
  The interface of a store to its reader: reads keep whatever is known of the store.  Of a store that is not
  trusted nothing is known; of the in-process store that it answers reads from a state that does not change.
\<close>

fun is_read :: "s3_op \<Rightarrow> bool" where
  "is_read (PutObject key body h) \<longleftrightarrow> False"
| "is_read (DeleteObject key vid bypass) \<longleftrightarrow> False"
| "is_read rq \<longleftrightarrow> True"

text \<open>The store said of this version, when asked, that it is locked in compliance mode and holds these bytes.\<close>

definition vouched :: "'st transport \<Rightarrow> ('st \<Rightarrow> bool) \<Rightarrow> time \<Rightarrow> string \<Rightarrow> s3_version \<Rightarrow> bytes \<Rightarrow> time \<Rightarrow> bool" where
  "vouched send known now name v line until \<longleftrightarrow> now < until \<and>
     (\<exists>st st'. known st \<and> s3_Retention send st name (sv_VersionID v) = (st', Inr (LockCompliance, until))) \<and>
     (\<exists>st st' ob. known st \<and> s3_Get send st name (sv_VersionID v) = (st', Inr ob) \<and> ob_Body ob = line)"

definition objects_of :: "s3_version list \<Rightarrow> string \<Rightarrow> s3_version list" where
  "objects_of vs name = filter (\<lambda>v. \<not> sv_DeleteMarker v) (filter (\<lambda>v. sv_Key v = name) vs)"

definition anchored_as :: "'st transport \<Rightarrow> ('st \<Rightarrow> bool) \<Rightarrow> time \<Rightarrow> string \<Rightarrow> s3_version list \<Rightarrow> anchored_object \<Rightarrow> bool" where
  "anchored_as send known now base vs a \<longleftrightarrow> sizeOf base (ao_Object a) = Some (ao_Size a) \<and> now < ao_RetainUntil a \<and>
     (\<exists>v \<in> set (objects_of vs (ao_Object a)). sv_VersionID v = ao_VersionID a \<and> sv_LastModified v = ao_StoredAt a) \<and>
     (\<forall>v \<in> set (objects_of vs (ao_Object a)). \<exists>until. vouched send known now (ao_Object a) v (ao_Line a) until)"

locale object_store =
  fixes send :: "'st transport" and known :: "'st \<Rightarrow> bool"
  assumes read_keeps: "known st \<Longrightarrow> is_read rq \<Longrightarrow> send st rq = (st', r) \<Longrightarrow> known st'"
begin

lemma Get_keeps: "known st \<Longrightarrow> s3_Get send st k v = (st', x) \<Longrightarrow> known st'"
  using read_keeps [of st "GetObject k v"] by (auto simp: s3_Get_def split: prod.splits option.splits)

lemma Retention_keeps: "known st \<Longrightarrow> s3_Retention send st k v = (st', x) \<Longrightarrow> known st'"
  using read_keeps [of st "GetRetention k v"] by (auto simp: s3_Retention_def split: prod.splits option.splits)

lemma list_pages_keeps: "known st \<Longrightarrow> list_pages n send pre st km vm out = (st', x) \<Longrightarrow> known st'"
proof (induction n arbitrary: st km vm out)
  case (Suc n)
  obtain st1 r where s: "send st (ListVersionsPage pre km vm) = (st1, r)" by fastforce
  then have "known st1" using read_keeps [OF Suc.prems(1), of "ListVersionsPage pre km vm"] by simp
  with Suc.IH [of st1] Suc.prems(2) s show ?case by (auto split: option.splits if_splits sum.splits)
qed simp

lemma ListVersions_keeps: "known st \<Longrightarrow> ListVersions send st pre = (st', x) \<Longrightarrow> known st'"
  unfolding ListVersions_def by (rule list_pages_keeps)

lemma read_versions_Inr:
  "known st \<Longrightarrow> read_versions send now name st vs = (st', Inr bs) \<Longrightarrow>
     known st' \<and> list_all2 (\<lambda>v b. vouched send known now name v (fst b) (snd b)) vs bs"
proof (induction vs arbitrary: st bs)
  case (Cons v vs)
  obtain st1 x where 1: "s3_Retention send st name (sv_VersionID v) = (st1, x)" by fastforce
  obtain mode until where x: "x = Inr (mode, until)" "mode = LockCompliance" "now < until"
    using Cons.prems(2) 1 by (auto split: sum.splits prod.splits if_splits)
  obtain st2 y where 2: "s3_Get send st1 name (sv_VersionID v) = (st2, y)" by fastforce
  obtain ob where y: "y = Inr ob" using Cons.prems(2) 1 x 2 by (auto split: sum.splits)
  obtain bs' where bs: "read_versions send now name st2 vs = (st', Inr bs')" "bs = (ob_Body ob, until) # bs'"
    using Cons.prems(2) 1 x 2 y by (auto split: prod.splits sum.splits)
  have k: "known st1" "known st2" using Retention_keeps [OF Cons.prems(1) 1] Get_keeps 2 by blast+
  have "vouched send known now name v (ob_Body ob) until"
    using Cons.prems(1) 1 2 x y k(1) unfolding vouched_def by blast
  with Cons.IH [OF k(2) bs(1)] bs(2) show ?case by simp
qed simp

lemma foldl_pick: "old < n \<Longrightarrow> set is \<subseteq> {..<n} \<Longrightarrow> foldl (\<lambda>old i. if f i old then i else old) old is < (n :: nat)"
  by (induction "is" arbitrary: old) auto

lemma oldest_index_less: "vs \<noteq> [] \<Longrightarrow> oldest_index vs < length vs"
  unfolding oldest_index_def by (rule foldl_pick) auto

lemma read_name_Inr:
  assumes "known st" "read_name send now base vs name st (out, nts) = (st', Inr (out', nts'))"
  shows "known st' \<and> (objects_of vs name = [] \<and> out' = out \<or>
    objects_of vs name \<noteq> [] \<and> (\<exists>a. out' = out @ [a] \<and> ao_Object a = name \<and> anchored_as send known now base vs a))"
proof (cases "objects_of vs name = []")
  case True
  then show ?thesis using assms by (auto simp: read_name_def objects_of_def Let_def)
next
  case False
  let ?os = "objects_of vs name" and ?old = "oldest_index (objects_of vs name)"
  obtain sz where sz: "sizeOf base name = Some sz"
    using assms(2) False by (auto simp: read_name_def objects_of_def [symmetric] Let_def simp del: filter_filter split: option.splits)
  obtain st1 x where r: "read_versions send now name st ?os = (st1, x)" by fastforce
  obtain bodies where b: "x = Inr bodies"
    using assms(2) False sz r by (auto simp: read_name_def objects_of_def [symmetric] Let_def simp del: filter_filter split: sum.splits)
  note ok = read_versions_Inr [OF assms(1) r [unfolded b]]
  have same: "\<forall>b \<in> set bodies. fst b = fst (bodies ! ?old)" and st: "st' = st1"
    and out: "out' = out @ [\<lparr>ao_Object = name, ao_VersionID = sv_VersionID (?os ! ?old), ao_Size = sz,
        ao_Line = fst (bodies ! ?old), ao_StoredAt = sv_LastModified (?os ! ?old), ao_RetainUntil = snd (bodies ! ?old)\<rparr>]"
    using assms(2) False sz r b
    by (auto simp: read_name_def objects_of_def [symmetric] Let_def list_ex_iff simp del: filter_filter split: if_splits)
  have len: "?old < length ?os" "length bodies = length ?os"
    using oldest_index_less [OF False] ok by (auto dest: list_all2_lengthD)
  have each: "vouched send known now name (?os ! i) (fst (bodies ! ?old)) (snd (bodies ! i))" if "i < length ?os" for i
  proof -
    have "vouched send known now name (?os ! i) (fst (bodies ! i)) (snd (bodies ! i))"
      using ok list_all2_nthD that by fastforce
    moreover have "bodies ! i \<in> set bodies" using that len(2) by simp
    ultimately show ?thesis using same by simp
  qed
  then have "now < snd (bodies ! ?old)" using len(1) by (auto simp: vouched_def)
  moreover have "\<forall>v \<in> set ?os. \<exists>until. vouched send known now name v (fst (bodies ! ?old)) until"
    using each by (metis in_set_conv_nth)
  moreover have "?os ! ?old \<in> set ?os" using len(1) by simp
  ultimately show ?thesis using ok st out sz False by (auto simp: anchored_as_def)
qed

lemma read_names_Inr:
  "known st \<Longrightarrow> read_names send now base vs names st (out, nts) = (st', Inr (out', nts')) \<Longrightarrow>
     known st' \<and> (\<exists>as. out' = out @ as \<and> map ao_Object as = filter (\<lambda>n. objects_of vs n \<noteq> []) names \<and>
       (\<forall>a \<in> set as. anchored_as send known now base vs a))"
proof (induction names arbitrary: st out nts)
  case (Cons name names)
  obtain st1 x where r: "read_name send now base vs name st (out, nts) = (st1, x)" by fastforce
  obtain out1 notes1 where x: "x = Inr (out1, notes1)" using Cons.prems(2) r by (auto split: sum.splits)
  note n = read_name_Inr [OF Cons.prems(1) r [unfolded x]]
  have "read_names send now base vs names st1 (out1, notes1) = (st', Inr (out', nts'))" using Cons.prems(2) r x by simp
  then have IH: "known st' \<and> (\<exists>as. out' = out1 @ as \<and> map ao_Object as = filter (\<lambda>n. objects_of vs n \<noteq> []) names \<and>
       (\<forall>a \<in> set as. anchored_as send known now base vs a))"
    using Cons.IH n by blast
  then obtain as where as: "out' = out1 @ as" "map ao_Object as = filter (\<lambda>n. objects_of vs n \<noteq> []) names"
    "\<forall>a \<in> set as. anchored_as send known now base vs a" by blast
  from n show ?case
  proof (elim conjE disjE exE)
    assume "objects_of vs name = []" "out1 = out"
    then show ?thesis using IH by simp
  next
    fix a assume "objects_of vs name \<noteq> []" "out1 = out @ [a]" "ao_Object a = name" "anchored_as send known now base vs a"
    then show ?thesis using IH as by (intro conjI exI [of _ "a # as"]) auto
  qed
qed simp

lemma Read_anchored:
  assumes "known st" "s3_Read send st pre chainID now = (st', Inr (out, nts))"
  shows "\<exists>st1 vs. ListVersions send st (ChainPrefix pre chainID) = (st1, Inr vs) \<and> known st1 \<and>
    sorted_wrt (<) (map ao_Object out) \<and>
    (\<forall>a \<in> set out. anchored_as send known now (ChainPrefix pre chainID)
       (filter (\<lambda>v. cut_prefix (ChainPrefix pre chainID) (sv_Key v) \<noteq> None) vs) a) \<and>
    (\<forall>v \<in> set vs. cut_prefix (ChainPrefix pre chainID) (sv_Key v) \<noteq> None \<and> \<not> sv_DeleteMarker v \<longrightarrow>
       (\<exists>a \<in> set out. ao_Object a = sv_Key v))"
proof -
  let ?base = "ChainPrefix pre chainID"
  obtain st1 x where l: "ListVersions send st ?base = (st1, x)" by fastforce
  obtain vs where x: "x = Inr vs" using assms(2) l by (auto simp: s3_Read_def Let_def split: if_splits sum.splits)
  define ours where "ours = filter (\<lambda>v. cut_prefix ?base (sv_Key v) \<noteq> None) vs"
  define names where "names = sort (remdups (map sv_Key ours))"
  have k: "known st1" by (rule ListVersions_keeps [OF assms(1) l])
  have "read_names send now ?base ours names st1 ([], \<lparr>no_DeleteMarkers = [], no_Duplicates = []\<rparr>) = (st', Inr (out, nts))"
    using assms(2) l x by (auto simp: s3_Read_def Let_def ours_def names_def split: if_splits)
  from read_names_Inr [OF k this]
  have as: "map ao_Object out = filter (\<lambda>n. objects_of ours n \<noteq> []) names" "\<forall>a \<in> set out. anchored_as send known now ?base ours a" by auto
  have "sorted_wrt (<) names" by (simp add: names_def strict_sorted_iff)
  then have "sorted_wrt (<) (map ao_Object out)" unfolding as(1) by (rule sorted_wrt_filter)
  moreover have "\<exists>a \<in> set out. ao_Object a = sv_Key v" if "v \<in> set vs" "cut_prefix ?base (sv_Key v) \<noteq> None" "\<not> sv_DeleteMarker v" for v
  proof -
    have "sv_Key v \<in> set (filter (\<lambda>n. objects_of ours n \<noteq> []) names)"
      using that by (auto simp: names_def ours_def objects_of_def filter_empty_conv)
    then have "sv_Key v \<in> ao_Object ` set out" using as(1) by (metis list.set_map)
    then show ?thesis by auto
  qed
  ultimately show ?thesis using l x k as(2) by (auto simp: ours_def)
qed

end

interpretation any_store: object_store send "\<lambda>_. True" for send :: "'st transport"
  by unfold_locales simp

text \<open>
  whatever store answers, the checkpoints that \<open>Read\<close> returns are in strictly increasing size, each under
  the name of its size, and they account for the whole listing: of every object version that the store lists
  under the chain's prefix, the store said that it is locked in compliance mode beyond now, and it gave for
  it the very bytes that \<open>Read\<close> returns for its name.
\<close>

theorem Read_sound:
  assumes "s3_Read send st pre chainID now = (st', Inr (out, nts))"
  shows "\<exists>st1 vs. ListVersions send st (ChainPrefix pre chainID) = (st1, Inr vs) \<and> sorted_wrt (<) (map ao_Size out) \<and>
    (\<forall>a \<in> set out. 1 \<le> ao_Size a \<and> ao_Object a = ObjectName pre chainID (ao_Size a) \<and> now < ao_RetainUntil a) \<and>
    (\<forall>v \<in> set vs. cut_prefix (ChainPrefix pre chainID) (sv_Key v) \<noteq> None \<and> \<not> sv_DeleteMarker v \<longrightarrow>
       (\<exists>a \<in> set out. ao_Object a = sv_Key v \<and>
          (\<exists>st st' until. s3_Retention send st (sv_Key v) (sv_VersionID v) = (st', Inr (LockCompliance, until)) \<and> now < until) \<and>
          (\<exists>st st' ob. s3_Get send st (sv_Key v) (sv_VersionID v) = (st', Inr ob) \<and> ob_Body ob = ao_Line a)))"
proof -
  let ?base = "ChainPrefix pre chainID"
  obtain st1 vs where r: "ListVersions send st ?base = (st1, Inr vs)" "sorted_wrt (<) (map ao_Object out)"
    "\<forall>a \<in> set out. anchored_as send (\<lambda>_. True) now ?base (filter (\<lambda>v. cut_prefix ?base (sv_Key v) \<noteq> None) vs) a"
    "\<forall>v \<in> set vs. cut_prefix ?base (sv_Key v) \<noteq> None \<and> \<not> sv_DeleteMarker v \<longrightarrow> (\<exists>a \<in> set out. ao_Object a = sv_Key v)"
    using any_store.Read_anchored [OF TrueI assms] by blast
  have nm: "1 \<le> ao_Size a \<and> ao_Size a < 2 ^ 63 \<and> ao_Object a = ?base @ padw 20 (ao_Size a) @ ''.json'' \<and> now < ao_RetainUntil a"
    if a: "a \<in> set out" for a
  proof -
    have "anchored_as send (\<lambda>_. True) now ?base (filter (\<lambda>v. cut_prefix ?base (sv_Key v) \<noteq> None) vs) a" using r(3) a by blast
    then obtain v where v: "sizeOf ?base (ao_Object a) = Some (ao_Size a)" "now < ao_RetainUntil a"
      "v \<in> set (objects_of (filter (\<lambda>v. cut_prefix ?base (sv_Key v) \<noteq> None) vs) (ao_Object a))"
      by (auto simp: anchored_as_def)
    then have "cut_prefix ?base (ao_Object a) \<noteq> None" by (auto simp: objects_of_def)
    with sizeOf_Some [OF v(1)] v(2) show ?thesis by blast
  qed
  have "sorted_wrt (<) (map ao_Size out)"
    using r(2) nm
  proof (induction out)
    case (Cons a out)
    have "ao_Size a < ao_Size b" if "b \<in> set out" for b
    proof -
      have "ao_Object a < ao_Object b" using Cons.prems(1) that by simp
      then have "padw 20 (ao_Size a) < padw 20 (ao_Size b)"
        using Cons.prems(2) [of a] Cons.prems(2) [of b] that by (simp add: lex_append_less)
      then show ?thesis using padw_less_iff [of "ao_Size a" 20 "ao_Size b"] Cons.prems(2) [of a] Cons.prems(2) [of b] that by simp
    qed
    then show ?case using Cons by simp
  qed simp
  moreover have "ao_Object a = ObjectName pre chainID (ao_Size a)" if "a \<in> set out" for a
    using nm [OF that] ObjectName_padw [of "ao_Size a" pre chainID] by simp
  moreover have "\<exists>a \<in> set out. ao_Object a = sv_Key v \<and>
          (\<exists>st st' until. s3_Retention send st (sv_Key v) (sv_VersionID v) = (st', Inr (LockCompliance, until)) \<and> now < until) \<and>
          (\<exists>st st' ob. s3_Get send st (sv_Key v) (sv_VersionID v) = (st', Inr ob) \<and> ob_Body ob = ao_Line a)"
    if v: "v \<in> set vs" "cut_prefix ?base (sv_Key v) \<noteq> None" "\<not> sv_DeleteMarker v" for v
  proof -
    obtain a where a: "a \<in> set out" "ao_Object a = sv_Key v" using r(4) v by blast
    moreover have "v \<in> set (objects_of (filter (\<lambda>v. cut_prefix ?base (sv_Key v) \<noteq> None) vs) (sv_Key v))"
      using v by (simp add: objects_of_def)
    ultimately have "\<exists>until. vouched send (\<lambda>_. True) now (sv_Key v) v (ao_Line a) until"
      using r(3) by (auto simp: anchored_as_def)
    then show ?thesis using a by (auto simp: vouched_def)
  qed
  ultimately show ?thesis using r(1) nm by (intro exI [of _ st1] exI [of _ vs]) blast
qed

section \<open>A published checkpoint\<close>

lemma fake_read: "is_read rq \<Longrightarrow> fake_send md5 sha now s rq = (s', r) \<Longrightarrow> s' = s"
  by (cases rq) (auto simp: fake_send_def ServeHTTP_def split: if_splits)

interpretation fake_store: object_store "fake_send md5 sha now" "\<lambda>t. t = s" for md5 sha now s
  by unfold_locales (use fake_read in blast)

lemma fake_find_here:
  assumes "fake_ok s" "v \<in> set (fake_Versions s key)"
  shows "fake_find s key (fv_ID v) = Some v" "fv_ID v \<noteq> []"
  using find_distinct [OF fake_okD(3) [OF assms(1)], where k1 = key and v = "fv_ID v" and x = v] assms(2) fake_okD(4) [OF assms]
  by (auto simp: fake_find_def)

lemma fake_Get:
  assumes "fake_ok s" "v \<in> set (fake_Versions s key)" "\<not> fv_DeleteMarker v"
    "s3_Get (fake_send md5 sha now) s key (fv_ID v) = (s', Inr ob)"
  shows "ob_Body ob = fv_Data v"
  using fake_find_here [OF assms(1,2)] assms(3,4)
  by (auto simp: s3_Get_def fake_send_def ServeHTTP_def fake_get_def pick_def fail_def split: if_splits)

lemma fake_listing:
  assumes "ListVersions (fake_send md5 sha now) s pre = (s', Inr vs)" "fake_ok s" "0 < fk_pageMax s"
  shows "vs = map (sv_of s) (all_entries s pre)"
proof -
  have "\<not> fk_down s"
  proof
    assume "fk_down s"
    then have "snd (ListVersions (fake_send md5 sha now) s pre) = Inl (S3Status 503)"
      by (simp add: ListVersions_def maxPages_def fake_send_def ServeHTTP_def fail_def eval_nat_numeral del: list_pages.simps(1))
    with assms(1) show False by simp
  qed
  from list_pages_all [OF assms(2) this assms(3), of md5 sha now pre] assms(1)
  show ?thesis by (auto split: if_splits)
qed

lemma locked_is_read:
  assumes "fake_ok t" "0 < fk_pageMax t" "holds_locked t (ObjectName pre chainID n) v" "1 \<le> n" "n < 2 ^ 63"
    and "s3_Read (fake_send md5 sha now) t pre chainID now' = (t', Inr (out, nts))"
  shows "\<exists>a \<in> set out. ao_Size a = n \<and> ao_Line a = fv_Data v"
proof -
  let ?base = "ChainPrefix pre chainID" and ?name = "ObjectName pre chainID n" and ?send = "fake_send md5 sha now"
  have v: "v \<in> set (fake_Versions t ?name)" "\<not> fv_DeleteMarker v" using assms(3) by (simp_all add: holds_locked_def)
  have name: "?name = ?base @ padw 20 n @ ''.json''" using assms(4,5) by (simp add: ObjectName_padw)
  define ours :: "s3_version list \<Rightarrow> s3_version list" where "ours vs = filter (\<lambda>v. cut_prefix ?base (sv_Key v) \<noteq> None) vs" for vs
  obtain st1 vs where r: "ListVersions ?send t ?base = (st1, Inr vs)"
    "\<forall>a \<in> set out. anchored_as ?send (\<lambda>x. x = t) now' ?base (ours vs) a"
    "\<forall>v \<in> set vs. cut_prefix ?base (sv_Key v) \<noteq> None \<and> \<not> sv_DeleteMarker v \<longrightarrow> (\<exists>a \<in> set out. ao_Object a = sv_Key v)"
    using fake_store.Read_anchored [OF refl assms(6)] unfolding ours_def by blast
  let ?sv = "sv_of t (?name, v)"
  have sv: "sv_Key ?sv = ?name" "\<not> sv_DeleteMarker ?sv" "sv_VersionID ?sv = fv_ID v" using v(2) by (simp_all add: sv_of_def)
  have pre: "cut_prefix ?base ?name \<noteq> None" by (simp add: name cut_prefix_Some)
  have "(?name, v) \<in> set (all_entries t ?base)" using v(1) name by (simp add: all_entries_set)
  then have vs: "?sv \<in> set vs" using fake_listing [OF r(1) assms(1,2)] by (metis image_eqI list.set_map)
  then obtain a where a: "a \<in> set out" "ao_Object a = ?name" using r(3) pre sv(1,2) by metis
  have "?sv \<in> set (objects_of (ours vs) ?name)"
    using vs pre sv by (simp add: objects_of_def ours_def)
  then obtain until where "sizeOf ?base ?name = Some (ao_Size a)" "vouched ?send (\<lambda>x. x = t) now' ?name ?sv (ao_Line a) until"
    using r(2) a unfolding anchored_as_def by metis
  moreover from this(2) obtain t2 ob where "s3_Get ?send t ?name (fv_ID v) = (t2, Inr ob)" "ob_Body ob = ao_Line a"
    by (auto simp: vouched_def sv(3))
  ultimately have "ao_Size a = n" "ao_Line a = fv_Data v"
    using fake_Get [OF assms(1) v] sizeOf_name [OF assms(4,5), of ?base] name by auto
  with a(1) show ?thesis by blast
qed

lemma published_read:
  assumes "anchor_Publish C md5 (fake_send md5 (sum256 C) now0) s0 a now1 (Some c) (Some sg) = (s1, Inr ())"
    and "fake_ok s0" "fake_latest s0 (ObjectName (an_Prefix a) (an_ChainID a) (c_size c)) = None"
    and "1 \<le> c_size c" "c_size c < 2 ^ 63"
    and "fake_run md5 (sum256 C) U s1 t" "U \<le> whole_s (now1 + an_Retention a)" "0 < fk_pageMax t"
    and "s3_Read (fake_send md5 (sum256 C) now2) t (an_Prefix a) (an_ChainID a) now3 = (t', Inr (out, nts))"
  shows "\<exists>b \<in> set out. ao_Size b = c_size c \<and> signed_Line C sg = Inr (ao_Line b)"
proof -
  let ?name = "ObjectName (an_Prefix a) (an_ChainID a) (c_size c)" and ?send = "fake_send md5 (sum256 C) now0"
  obtain line where line: "signed_Line C sg = Inr line"
    using assms(1) by (auto simp: anchor_Publish_def split: if_splits sum.splits)
  obtain st1 x where p: "PutLocked md5 (sum256 C) ?send s0 ?name line (now1 + an_Retention a) = (st1, x)" by fastforce
  have ne: "x \<noteq> Inl S3Exists"
    using p assms(3) by (auto simp: PutLocked_def fake_send_def ServeHTTP_def fake_put_def fail_def newVersion_eq Let_def split: if_splits)
  then obtain vid where x: "x = Inr vid" "s1 = st1"
    using assms(1) line p by (auto simp: anchor_Publish_def Let_def split: if_splits sum.splits)
  obtain v where v: "s1 = (add_version (s0\<lparr>fk_seq := fk_seq s0 + 1\<rparr>) ?name v)\<lparr>fk_puts := fk_puts s0 + 1\<rparr>"
    "v = \<lparr>fv_ID = version_id (fk_seq s0 + 1), fv_Data = line, fv_DeleteMarker = False, fv_Mode = LockCompliance,
       fv_RetainUntil = whole_s (now1 + an_Retention a), fv_Modified = whole_s now0\<rparr>" "?name \<noteq> []"
    using p x by (auto simp: PutLocked_def fake_send_def ServeHTTP_def fake_put_def fail_def newVersion_eq Let_def split: if_splits)
  have "fake_ok s1"
    using add_version_ok [OF assms(2) v(3), of v] v(1,2) by (simp add: fake_ok_def)
  then have ok: "fake_ok t" using fake_run_ok [OF assms(6)] by blast
  have "holds_locked s1 ?name v" using v(1,2) by (simp add: holds_locked_def Versions_add)
  then have "holds_locked t ?name v" using fake_run_locked [OF assms(6)] assms(7) v(2) by simp
  from locked_is_read [OF ok assms(8) this assms(4,5,9)] line v(2) show ?thesis by auto
qed

text \<open>
  C19: a published checkpoint survives: once \<open>Publish\<close> stored a checkpoint under a name that held nothing, then,
  until its retention ends, whatever requests anyone sends with the store's credentials and however the
  store fails and pages, every \<open>Read\<close> of the chain that succeeds returns this very line under this size.
\<close>

theorem published_checkpoint_survives:
  assumes "anchor_Publish C md5 (fake_send md5 (sum256 C) now0) s0 a now1 (Some c) (Some sg) = (s1, Inr ())"
    and "fake_ok s0" "fake_latest s0 (ObjectName (an_Prefix a) (an_ChainID a) (c_size c)) = None"
    and "1 \<le> c_size c" "c_size c < 2 ^ 63"
    and "fake_run md5 (sum256 C) U s1 t" "U \<le> whole_s (now1 + an_Retention a)" "0 < fk_pageMax t"
    and "s3_Read (fake_send md5 (sum256 C) now2) t (an_Prefix a) (an_ChainID a) now3 = (t', Inr (out, nts))"
  shows "\<exists>b \<in> set out. ao_Size b = c_size c \<and> signed_Line C sg = Inr (ao_Line b)"
  by (rule published_read [OF assms])

text \<open>
  C36: a published checkpoint need not be locked: where the name already holds these very bytes as an object without a
  lock, \<open>Publish\<close> reports success and leaves the store as it is, and a request of whoever holds the store's credentials
  removes the object, so that nothing is left under the name, however long the retention that was asked for.
\<close>

theorem unlocked_publish_removable:
  assumes "fake_ok s" "\<not> fk_down s" "fake_Versions s (ObjectName (an_Prefix a) (an_ChainID a) (c_size c)) = [v]"
    and "fv_Mode v = []" "\<not> fv_DeleteMarker v" "signed_Line C sg = Inr (fv_Data v)" "length (fv_Data v) \<le> MaxObject"
    and "c_chain_id c = an_ChainID a" "0 < an_Retention a" "now0 < whole_s (now1 + an_Retention a)"
  shows "anchor_Publish C md5 (fake_send md5 (sum256 C) now0) s a now1 (Some c) (Some sg) = (s, Inr ()) \<and>
    (\<exists>s' r. ServeHTTP md5 (sum256 C) now2 s (DeleteObject (ObjectName (an_Prefix a) (an_ChainID a) (c_size c)) (fv_ID v) False) = (s', r) \<and>
      fake_Versions s' (ObjectName (an_Prefix a) (an_ChainID a) (c_size c)) = [])"
proof -
  let ?name = "ObjectName (an_Prefix a) (an_ChainID a) (c_size c)"
  have v: "v \<in> set (fake_Versions s ?name)" using assms(3) by simp
  note here = fake_find_here [OF assms(1) v] and name = fake_okD(4) [OF assms(1) v]
  have latest: "fake_latest s ?name = Some v" using assms(3) by (simp add: fake_latest_def)
  have "PutLocked md5 (sum256 C) (fake_send md5 (sum256 C) now0) s ?name (fv_Data v) (now1 + an_Retention a) = (s, Inl S3Exists)"
    using assms(2,5,10) latest name
    by (simp add: PutLocked_def fake_send_def ServeHTTP_def fake_put_def lock_refused_def fail_def)
  moreover have "\<exists>ob. s3_Get (fake_send md5 (sum256 C) now0) s ?name [] = (s, Inr ob) \<and> ob_Body ob = fv_Data v"
    using assms(2,4,5,7) latest name
    by (simp add: s3_Get_def fake_send_def ServeHTTP_def fake_get_def pick_def)
  ultimately have "anchor_Publish C md5 (fake_send md5 (sum256 C) now0) s a now1 (Some c) (Some sg) = (s, Inr ())"
    using assms(6,8,9) by (auto simp: anchor_Publish_def Let_def)
  moreover have "\<exists>s' r. ServeHTTP md5 (sum256 C) now2 s (DeleteObject ?name (fv_ID v) False) = (s', r) \<and> fake_Versions s' ?name = []"
    using assms(2-4) here name by (simp add: ServeHTTP_def fake_delete_def fake_locked_def fake_Versions_def [of "_\<lparr>fk_objects := _\<rparr>"] delete_conv')
  ultimately show ?thesis by blast
qed

end
