(* ===== verification/Tsa.thy ===== *)
theory Tsa
  imports GoText Identity
begin

text \<open>
  Timestamps over anchored checkpoints (\<open>internal/tsa/tsa.go\<close>): asking an authority, judging a token, and
  the file of tokens that is kept beside the anchor.  The RFC 3161 encoding is the third-party package
  \<open>digitorus/timestamp\<close>, and certificate chains belong to \<open>crypto/x509\<close>; both are fields of a
  \<open>timestamp_lib\<close> record.
\<close>

section \<open>Tokens and the library\<close>

definition tsa_maxResponse :: nat where
  "tsa_maxResponse = 1048576"

definition TokenVersion :: int where
  "TokenVersion = 1"

datatype hash_alg = HashSHA256 | HashOther

record tsa_cert =
  tk_Raw :: bytes
  tk_ExtKeyUsage :: "ext_usage list"

record token_info =
  ti_HashAlgorithm :: hash_alg
  ti_HashedMessage :: bytes
  ti_Certificates :: "tsa_cert list"
  ti_Time :: time

text \<open>\<open>tl_VerifyCert\<close> is \<open>leaf.Verify\<close> with its roots, intermediates, time and required usages.\<close>

record timestamp_lib =
  tl_CreateRequest :: "bytes \<Rightarrow> bytes option"
  tl_ParseResponse :: "bytes \<Rightarrow> bytes option"
  tl_Parse :: "bytes \<Rightarrow> token_info option"
  tl_VerifyCert :: "tsa_cert \<Rightarrow> bytes list \<Rightarrow> tsa_cert list \<Rightarrow> time \<Rightarrow> ext_usage list \<Rightarrow> bool"

record token =
  tok_V :: int
  tok_Message :: string
  tok_Token :: string

datatype tsa_error =
  TsaRequest
| TsaTransport
| TsaRead
| TsaStatus int
| TsaResponse
| TsaNoToken
| TsaInvalid string
| TsaLine string
| TsaNoRoots

definition tsa_Digest :: "'x crypto_scheme \<Rightarrow> bytes \<Rightarrow> string" where
  "tsa_Digest C message = digest_prefix @ hex_encode (sum256 C message)"

section \<open>Asking an authority\<close>

text \<open>
  \<open>post\<close> is the HTTP exchange: nothing when it fails, else the status and the body, or no body when reading
  it fails.  The request holds the hash of the message, which is what \<open>CreateRequest\<close> makes of its bytes.
\<close>

definition Stamp ::
  "timestamp_lib \<Rightarrow> (bytes \<Rightarrow> (int \<times> bytes option) option) \<Rightarrow> bytes \<Rightarrow> tsa_error + bytes" where
  "Stamp T post message =
     ebind (of_option TsaRequest (tl_CreateRequest T message)) (\<lambda>req.
     ebind (of_option TsaTransport (post req)) (\<lambda>(status, reply).
     ebind (of_option TsaRead reply) (\<lambda>b.
     let body = take tsa_maxResponse b in
     if status \<noteq> 200 then Inl (TsaStatus status)
     else ebind (of_option TsaResponse (tl_ParseResponse T body)) (\<lambda>raw.
     if raw = [] then Inl TsaNoToken else Inr raw))))"

section \<open>Judging a token\<close>

definition canTimestamp :: "tsa_cert \<Rightarrow> bool" where
  "canTimestamp c \<longleftrightarrow> list_ex (\<lambda>eku. eku = TimeStamping) (tk_ExtKeyUsage c)"

text \<open>The first certificate that may timestamp, and the others.\<close>

fun split_certs :: "tsa_cert list \<Rightarrow> tsa_cert option \<Rightarrow> tsa_cert list \<Rightarrow> tsa_cert option \<times> tsa_cert list" where
  "split_certs [] leaf mid = (leaf, mid)"
| "split_certs (c # cs) leaf mid = (if canTimestamp c \<and> leaf = None then split_certs cs (Some c) mid
     else split_certs cs leaf (mid @ [c]))"

definition tsa_Verify ::
  "timestamp_lib \<Rightarrow> 'x crypto_scheme \<Rightarrow> bytes \<Rightarrow> bytes \<Rightarrow> bytes list option \<Rightarrow> tsa_error + time" where
  "tsa_Verify T C token message roots =
     ebind (of_option (TsaInvalid ''parse'') (tl_Parse T token)) (\<lambda>ts.
     if ti_HashAlgorithm ts \<noteq> HashSHA256 then Inl (TsaInvalid ''hash'')
     else if ti_HashedMessage ts \<noteq> sum256 C message then Inl (TsaInvalid ''data'')
     else if ti_Certificates ts = [] then Inl (TsaInvalid ''certificate'')
     else (case roots of None \<Rightarrow> Inl (TsaInvalid ''roots'') | Some rs \<Rightarrow>
       (case split_certs (ti_Certificates ts) None [] of
          (None, _) \<Rightarrow> Inl (TsaInvalid ''usage'')
        | (Some leaf, mid) \<Rightarrow>
            if \<not> tl_VerifyCert T leaf rs mid (ti_Time ts) [TimeStamping] then Inl (TsaInvalid ''chain'')
            else Inr (ti_Time ts))))"

section \<open>The token file\<close>

definition json_of_token :: "token \<Rightarrow> json" where
  "json_of_token t = JObj [(''v'', JInt (tok_V t)), (''message'', JStr (tok_Message t)), (''token'', JStr (tok_Token t))]"

definition dec_token :: "json \<Rightarrow> token option" where
  "dec_token j = do { f \<leftarrow> fields_of [''v'', ''message'', ''token''] j;
     v \<leftarrow> get_int f ''v''; m \<leftarrow> get_str f ''message''; t \<leftarrow> get_str f ''token'';
     Some \<lparr>tok_V = v, tok_Message = m, tok_Token = t\<rparr> }"

text \<open>The content of the file is its bytes; \<open>write\<close> is the outcome of the file system as for an anchor.\<close>

definition AppendToken :: "'x crypto_scheme \<Rightarrow> bytes \<Rightarrow> bytes \<Rightarrow> bytes \<Rightarrow> nat option \<Rightarrow> bool \<times> bytes" where
  "AppendToken C file message token write =
     (let line = marshal (json_of_token \<lparr>tok_V = TokenVersion, tok_Message = tsa_Digest C message,
        tok_Token = b64_pad (b64_std token)\<rparr>) in
      case write of None \<Rightarrow> (True, file @ line @ [newline]) | Some n \<Rightarrow> (False, file @ take n (line @ [newline])))"

type_synonym tokens = "string \<Rightarrow> bytes list"

definition read_token :: "tokens \<Rightarrow> bytes \<Rightarrow> tsa_error + tokens" where
  "read_token out line =
     (if trim_space line = [] then Inr out
      else ebind (of_option (TsaLine ''decode'') (decode_into dec_token line)) (\<lambda>t.
        if tok_V t \<noteq> TokenVersion then Inl (TsaLine ''v'')
        else (case std_decode (tok_Token t) of None \<Rightarrow> Inl (TsaLine ''base64'')
          | Some der \<Rightarrow> if der = [] then Inl (TsaLine ''base64'')
              else Inr (out(tok_Message t := out (tok_Message t) @ [der])))))"

definition ReadTokens :: "bytes \<Rightarrow> tsa_error + tokens" where
  "ReadTokens data = efold read_token (\<lambda>_. []) (split_lines (trim_space data))"

text \<open>\<open>certs\<close> is \<open>AppendCertsFromPEM\<close>: the certificates of a PEM text, none when there is no valid one.\<close>

definition LoadRoots :: "(bytes \<Rightarrow> bytes list option) \<Rightarrow> bytes option \<Rightarrow> tsa_error + bytes list" where
  "LoadRoots certs file = ebind (of_option TsaRead file) (\<lambda>data. of_option TsaNoRoots (certs data))"

section \<open>Lemmas\<close>

lemma tsa_Digest_eq: "tsa_Digest C m = digest_SHA256 (sha256 C) m"
  by (simp add: tsa_Digest_def digest_SHA256_def digest_of_hash_def)

lemma split_certs_eq: "split_certs cs leaf mid =
    (case leaf of Some l \<Rightarrow> (Some l, mid @ cs)
     | None \<Rightarrow> (find canTimestamp cs, mid @ takeWhile (\<lambda>c. \<not> canTimestamp c) cs @ tl (dropWhile (\<lambda>c. \<not> canTimestamp c) cs)))"
  by (induction cs arbitrary: leaf mid) (auto split: option.splits)

lemma tsa_Verify_Inr:
  "tsa_Verify T C token message roots = Inr t \<longleftrightarrow> (\<exists>ts rs leaf. tl_Parse T token = Some ts \<and>
     ti_HashAlgorithm ts = HashSHA256 \<and> ti_HashedMessage ts = sum256 C message \<and> roots = Some rs \<and>
     find canTimestamp (ti_Certificates ts) = Some leaf \<and> t = ti_Time ts \<and>
     tl_VerifyCert T leaf rs (takeWhile (\<lambda>c. \<not> canTimestamp c) (ti_Certificates ts) @
       tl (dropWhile (\<lambda>c. \<not> canTimestamp c) (ti_Certificates ts))) t [TimeStamping])"
  by (auto simp: tsa_Verify_def split_certs_eq split: option.splits)

text \<open>One line of the file: printable ASCII between braces.\<close>

definition token_line :: "'x crypto_scheme \<Rightarrow> bytes \<times> bytes \<Rightarrow> bytes" where
  "token_line C p = marshal (json_of_token \<lparr>tok_V = TokenVersion, tok_Message = tsa_Digest C (fst p),
     tok_Token = b64_pad (b64_std (snd p))\<rparr>)"

definition solid :: "bytes \<Rightarrow> bool" where
  "solid l \<longleftrightarrow> l \<noteq> [] \<and> ascii l \<and> newline \<notin> set l \<and> \<not> is_space (byte (hd l)) \<and> \<not> is_space (byte (last l))"

lemma solid_trim:
  assumes "solid a" "solid b" "ascii m"
  shows "trim_space (a @ m @ b @ [newline]) = a @ m @ b"
proof -
  obtain x xs where a: "a = x # xs" "\<not> is_space (byte x)" using assms(1) by (cases a) (auto simp: solid_def)
  obtain y ys where b: "b = ys @ [y]" "\<not> is_space (byte y)" using assms(2) by (cases b rule: rev_cases) (auto simp: solid_def)
  have nl: "is_space (byte newline)" "byte newline < 128" by (simp_all add: is_space_def newline_def)
  have "ascii (a @ m @ b @ [newline])" using assms nl by (simp add: solid_def)
  then show "trim_space (a @ m @ b @ [newline]) = a @ m @ b"
    by (simp add: trim_space_ascii a b nl)
qed


lemma solid_trim_self: "solid a \<Longrightarrow> trim_space a = a"
proof -
  assume a: "solid a"
  then obtain z zs where z: "a = zs @ [z]" "\<not> is_space (byte z)" by (cases a rule: rev_cases) (auto simp: solid_def)
  then have "rev (dropWhile (\<lambda>c. is_space (byte c)) (rev a)) = a" by simp
  moreover have "dropWhile (\<lambda>c. is_space (byte c)) a = a" using a by (cases a) (auto simp: solid_def)
  ultimately show ?thesis using a by (simp add: trim_space_ascii solid_def)
qed

text \<open>Characters that JSON text needs no escape for.\<close>

definition bare :: "char \<Rightarrow> bool" where
  "bare c \<longleftrightarrow> 32 < byte c \<and> byte c < 127 \<and> byte c \<notin> {34, 38, 60, 62, 92}"

lemma escape_bare: "list_all bare s \<Longrightarrow> escape_string s = s"
proof (induction s)
  case Nil
  show ?case by (subst escape_string.simps) simp
next
  case (Cons c s)
  then show ?case by (subst escape_string.simps) (simp add: bare_def escape_rune_def)
qed

lemma bare_digest: "list_all bare (tsa_Digest C m)"
proof -
  have h: "bare (hex_digit n)" if "n < 16" for n using that by (simp add: bare_def hex_digit_byte)
  have "list_all bare (hex_encode b)" for b
    by (induction b) (simp_all add: h byte_less less_mult_imp_div_less)
  then show ?thesis by (simp add: tsa_Digest_def digest_prefix_def bare_def)
qed

lemma bare_std: "list_all bare (b64_pad (b64_std v))"
proof -
  have "bare (std_char n)" if n: "n < 64" for n
    using n b64_char_byte [OF n] by (auto simp: bare_def std_char_def split: if_splits)
  then show ?thesis using b64_std_sextets [of v] by (auto simp: list_all_iff b64_pad_def bare_def)
qed

lemma bare_ascii: "list_all bare s \<Longrightarrow> ascii s" "list_all bare s \<Longrightarrow> newline \<notin> set s"
  by (auto simp: list_all_iff ascii_def bare_def newline_def)

lemma solid_token_line: "solid (token_line C p)"
proof -
  have q34: "char_of (34 :: nat) = CHR 0x22" by code_simp
  have q: "quote_json s = CHR 0x22 # s @ [CHR 0x22]" if "list_all bare s" for s
    using that by (simp add: quote_json_def escape_bare q34)
  have b: "list_all bare ''v''" "list_all bare ''message''" "list_all bare ''token''" by (simp_all add: bare_def)
  have i: "marshal (JInt TokenVersion) = ''1''" by code_simp
  have nl: "newline = CHR 0x0A" by code_simp
  have m: "marshal (JStr s) = quote_json s" for s by simp
  have "token_line C p = CHR ''{'' # commas [quote_json ''v'' @ CHR '':'' # ''1'', quote_json ''message'' @ CHR '':'' # quote_json (tsa_Digest C (fst p)),
      quote_json ''token'' @ CHR '':'' # quote_json (b64_pad (b64_std (snd p)))] @ ''}''"
    by (simp only: token_line_def json_of_token_def marshal_obj list.map member_simp i m token.simps append.simps)
  then show ?thesis
    using bare_ascii [OF bare_digest, of C "fst p"] bare_ascii [OF bare_std, of "snd p"]
    unfolding q [OF b(1)] q [OF b(2)] q [OF b(3)] q [OF bare_digest] q [OF bare_std]
    by (simp add: solid_def is_space_def nl)
qed

lemma split_solid:
  "list_all solid ls \<Longrightarrow> solid l \<Longrightarrow> split_lines (concat (map (\<lambda>l. l @ [newline]) ls) @ l) = ls @ [l]"
  by (induction ls) (simp_all add: split_lines_line split_lines_last solid_def)

lemma ascii_lines: "list_all solid ls \<Longrightarrow> ascii (concat (map (\<lambda>l. l @ [newline]) ls))"
  by (induction ls) (simp_all add: solid_def newline_def)

lemma split_trim_solid:
  assumes "list_all solid ls" "ls \<noteq> []"
  shows "split_lines (trim_space (concat (map (\<lambda>l. l @ [newline]) ls))) = ls"
proof (cases ls rule: rev_cases)
  case (snoc ks l)
  have l: "solid l" "list_all solid ks" using assms(1) snoc by simp_all
  let ?f = "concat (map (\<lambda>l. l @ [newline]) ks)"
  have "trim_space (?f @ l @ [newline]) = ?f @ l"
  proof (cases ks)
    case Nil
    obtain y ys where b: "l = ys @ [y]" "\<not> is_space (byte y)" using l by (cases l rule: rev_cases) (auto simp: solid_def)
    have "ascii l" using l(1) by (simp add: solid_def)
    have "dropWhile (\<lambda>c. is_space (byte c)) (l @ [newline]) = l @ [newline]" using l(1) by (cases l) (auto simp: solid_def)
    moreover have "is_space (byte newline)" "byte newline < 128" by (simp_all add: is_space_def newline_def)
    ultimately show ?thesis using Nil b \<open>ascii l\<close> by (simp add: trim_space_ascii)
  next
    case (Cons k ks')
    have "ascii ([newline] @ concat (map (\<lambda>l. l @ [newline]) ks'))"
      using ascii_lines [of ks'] l(2) Cons by (simp add: newline_def)
    from solid_trim [OF _ l(1) this, of k] l(2) Cons show ?thesis by simp
  qed
  then show ?thesis using split_solid [OF l(2,1)] snoc by simp
qed (use assms in simp)

lemma read_token_line:
  assumes "snd p \<noteq> []"
  shows "read_token out (token_line C p) = Inr (out(tsa_Digest C (fst p) := out (tsa_Digest C (fst p)) @ [snd p]))"
proof -
  let ?t = "\<lparr>tok_V = TokenVersion, tok_Message = tsa_Digest C (fst p), tok_Token = b64_pad (b64_std (snd p))\<rparr>"
  have u: "utf8_valid (b64_pad (b64_std v))" for v
    using b64_std_sextets [of v] std_char_ok(4) by (intro utf8_valid_ascii) (auto simp: b64_pad_def ascii_def list_all_iff)
  have "json_ok (json_of_token ?t)" by (simp add: json_of_token_def tsa_Digest_eq u utf8_valid_ascii)
  then have "decode_json (token_line C p) = Some (json_of_token ?t, [])" by (simp add: token_line_def decode_marshal)
  moreover have "dec_token (json_of_token ?t) = Some ?t"
    by (simp add: dec_token_def json_of_token_def fields_of_def field_name_def get_int_def get_str_def TokenVersion_def)
  ultimately have "decode_into dec_token (token_line C p) = Some ?t" by (simp add: decode_into_def)
  moreover have "trim_space (token_line C p) \<noteq> []"
    using solid_trim_self [OF solid_token_line [of C p]] solid_token_line [of C p] by (simp add: solid_def)
  ultimately show ?thesis using assms by (simp add: read_token_def std_decode_pad)
qed

text \<open>
  tokens written read back by what they stamp: after any tokens were appended to a new file, reading it gives
  for every digest the tokens that were appended for messages of that digest, in that order.
\<close>

theorem appended_tokens_read_back:
  assumes "\<forall>p \<in> set ps. snd p \<noteq> []"
  shows "ReadTokens (foldl (\<lambda>file (message, token). snd (AppendToken C file message token None)) [] ps) =
    Inr (\<lambda>d. map snd (filter (\<lambda>p. tsa_Digest C (fst p) = d) ps))"
proof -
  have content: "foldl (\<lambda>file (message, token). snd (AppendToken C file message token None)) [] ps =
      concat (map (\<lambda>l. l @ [newline]) (map (token_line C) ps))"
    by (induction ps rule: rev_induct) (auto simp: AppendToken_def token_line_def Let_def)
  have fold: "efold read_token out (map (token_line C) ps) =
      Inr (\<lambda>d. out d @ map snd (filter (\<lambda>p. tsa_Digest C (fst p) = d) ps))" for out
    using assms by (induction ps arbitrary: out) (auto simp: read_token_line fun_eq_iff)
  show ?thesis
  proof (cases ps)
    case Nil
    then show ?thesis by (simp add: ReadTokens_def trim_space_def read_token_def)
  next
    case (Cons p ps')
    then have "split_lines (trim_space (concat (map (\<lambda>l. l @ [newline]) (map (token_line C) ps)))) = map (token_line C) ps"
      by (intro split_trim_solid) (auto simp: list_all_iff solid_token_line)
    then show ?thesis unfolding ReadTokens_def content by (simp only: fold) simp
  qed
qed

end
