(* ===== verification/Keyfile.thy ===== *)
theory Keyfile
  imports GoText Identity
begin

text \<open>
  Key and certificate files (\<open>internal/keyfile/keyfile.go\<close>).  A file system is a map from paths to nodes; an
  operation also takes what the kernel makes of it.  The PEM syntax and the PKCS\#8 and X.509 encodings are the
  fields of a \<open>pem_lib\<close> record and of \<open>x509\<close>.
\<close>

section \<open>Files\<close>

text \<open>
  \<open>os.Lstat\<close> sees the node of a path; opening it for reading follows symbolic links, of which the kernel
  allows forty.  Opening with \<open>O\_EXCL\<close> fails when there is any node, a link included.
\<close>

datatype node = Regular "32 word" bytes | Symlink string | Irregular "32 word"

type_synonym filesystem = "string \<rightharpoonup> node"

fun follow :: "nat \<Rightarrow> filesystem \<Rightarrow> string \<Rightarrow> node option" where
  "follow 0 fs path = None"
| "follow (Suc n) fs path = (case fs path of Some (Symlink target) \<Rightarrow> follow n fs target | x \<Rightarrow> x)"

definition os_ReadFile :: "filesystem \<Rightarrow> string \<Rightarrow> bytes option" where
  "os_ReadFile fs path = (case follow 41 fs path of Some (Regular _ b) \<Rightarrow> Some b | _ \<Rightarrow> None)"

text \<open>How far creating a file gets: not opened, this many bytes written, written but not synced, or done.\<close>

datatype io_outcome = IoOpen | IoWrite nat | IoSync | IoClose | IoDone

datatype keyfile_error =
  ErrExists
| KeyfileIO
| NotRegular
| BadMode
| NoPEM
| WrongPEMType
| PEMHeaders
| PEMTrailing
| NotMLDSA
| BadPKCS8
| BadCertificate
| BadComposite composite_error

text \<open>\<open>umask\<close> belongs to the process: permission bits that a new file does not get.\<close>

definition writeNew ::
  "filesystem \<Rightarrow> string \<Rightarrow> bytes \<Rightarrow> 32 word \<Rightarrow> 32 word \<Rightarrow> io_outcome \<Rightarrow> filesystem \<times> (keyfile_error + unit)" where
  "writeNew fs path data mode umask io =
     (let new = (\<lambda>b. fs(path \<mapsto> Regular (and mode (not umask)) b)) in
      if fs path \<noteq> None then (fs, Inl ErrExists)
      else (case io of
          IoOpen \<Rightarrow> (fs, Inl KeyfileIO)
        | IoWrite n \<Rightarrow> (new (take n data), Inl KeyfileIO)
        | IoSync \<Rightarrow> (new data, Inl KeyfileIO)
        | IoClose \<Rightarrow> (new data, Inl KeyfileIO)
        | IoDone \<Rightarrow> (new data, Inr ())))"

section \<open>PEM\<close>

record pem_block =
  pb_Type :: string
  pb_Headers :: "(string \<times> string) list"
  pb_Bytes :: bytes

record pem_lib =
  pem_Decode :: "bytes \<Rightarrow> pem_block option \<times> bytes"
  pem_EncodeToMemory :: "pem_block \<Rightarrow> bytes"
  pkcs8_Marshal :: "mldsa_key \<Rightarrow> bytes option"
  pkcs8_Parse :: "bytes \<Rightarrow> mldsa_key option option"

text \<open>\<open>pkcs8\_Parse\<close>: nothing on an error, and no ML-DSA key when it parses as another kind of key.\<close>

definition CompositePEMType :: string where
  "CompositePEMType = ''WARDEN ML-DSA-65-ED25519 PRIVATE KEY''"

definition privateKeyType :: string where
  "privateKeyType = ''PRIVATE KEY''"

definition certificateType :: string where
  "certificateType = ''CERTIFICATE''"

definition readPEM :: "pem_lib \<Rightarrow> filesystem \<Rightarrow> string \<Rightarrow> string \<Rightarrow> bool \<Rightarrow> keyfile_error + bytes" where
  "readPEM P fs path wantType private =
     ebind (if private then (case fs path of
          None \<Rightarrow> Inl KeyfileIO
        | Some (Regular perm _) \<Rightarrow> if and perm 63 \<noteq> 0 then Inl BadMode else Inr ()
        | Some _ \<Rightarrow> Inl NotRegular) else Inr ()) (\<lambda>_.
     ebind (of_option KeyfileIO (os_ReadFile fs path)) (\<lambda>data.
     (case pem_Decode P data of
        (None, _) \<Rightarrow> Inl NoPEM
      | (Some block, rest) \<Rightarrow>
          if pb_Type block \<noteq> wantType then Inl WrongPEMType
          else if pb_Headers block \<noteq> [] then Inl PEMHeaders
          else if trim_space rest \<noteq> [] then Inl PEMTrailing
          else Inr (pb_Bytes block))))"

section \<open>Keys and certificates\<close>

definition WriteMLDSA ::
  "pem_lib \<Rightarrow> filesystem \<Rightarrow> string \<Rightarrow> mldsa_key \<Rightarrow> 32 word \<Rightarrow> io_outcome \<Rightarrow> filesystem \<times> (keyfile_error + unit)" where
  "WriteMLDSA P fs path k umask io =
     (if length (mk_pub k) \<noteq> 1952 then (fs, Inl NotMLDSA)
      else (case pkcs8_Marshal P k of None \<Rightarrow> (fs, Inl BadPKCS8)
        | Some der \<Rightarrow> writeNew fs path (pem_EncodeToMemory P \<lparr>pb_Type = privateKeyType, pb_Headers = [], pb_Bytes = der\<rparr>) 384 umask io))"

definition ReadMLDSA :: "pem_lib \<Rightarrow> filesystem \<Rightarrow> string \<Rightarrow> keyfile_error + mldsa_key" where
  "ReadMLDSA P fs path =
     ebind (readPEM P fs path privateKeyType True) (\<lambda>der.
     ebind (of_option BadPKCS8 (pkcs8_Parse P der)) (\<lambda>key.
     (case key of None \<Rightarrow> Inl NotMLDSA
      | Some k \<Rightarrow> if length (mk_pub k) \<noteq> 1952 then Inl NotMLDSA else Inr k)))"

definition WriteComposite ::
  "pem_lib \<Rightarrow> filesystem \<Rightarrow> string \<Rightarrow> private_key \<Rightarrow> 32 word \<Rightarrow> io_outcome \<Rightarrow> filesystem \<times> (keyfile_error + unit)" where
  "WriteComposite P fs path k umask io =
     writeNew fs path (pem_EncodeToMemory P \<lparr>pb_Type = CompositePEMType, pb_Headers = [], pb_Bytes = key_Seed k\<rparr>) 384 umask io"

definition ReadComposite :: "'x crypto_scheme \<Rightarrow> pem_lib \<Rightarrow> filesystem \<Rightarrow> string \<Rightarrow> keyfile_error + private_key" where
  "ReadComposite C P fs path =
     ebind (readPEM P fs path CompositePEMType True) (\<lambda>seed.
     map_err BadComposite (NewPrivateKey C MLDSA65Ed25519 seed))"

definition WriteCertificate ::
  "x509 \<Rightarrow> pem_lib \<Rightarrow> filesystem \<Rightarrow> string \<Rightarrow> bytes \<Rightarrow> 32 word \<Rightarrow> io_outcome \<Rightarrow> filesystem \<times> (keyfile_error + unit)" where
  "WriteCertificate X P fs path der umask io =
     (if x_Parse X der = None then (fs, Inl BadCertificate)
      else writeNew fs path (pem_EncodeToMemory P \<lparr>pb_Type = certificateType, pb_Headers = [], pb_Bytes = der\<rparr>) 420 umask io)"

definition ReadCertificate :: "x509 \<Rightarrow> pem_lib \<Rightarrow> filesystem \<Rightarrow> string \<Rightarrow> keyfile_error + bytes" where
  "ReadCertificate X P fs path =
     ebind (readPEM P fs path certificateType False) (\<lambda>der.
     if x_Parse X der = None then Inl BadCertificate else Inr der)"

section \<open>Lemmas\<close>

lemma writeNew_frame: "writeNew fs path data mode umask io = (fs', r) \<Longrightarrow> fs q = Some x \<Longrightarrow> fs' q = Some x"
  by (auto simp: writeNew_def Let_def split: if_splits io_outcome.splits)

lemma writeNew_Inr:
  "writeNew fs path data mode umask io = (fs', Inr u) \<longleftrightarrow>
     fs path = None \<and> io = IoDone \<and> fs' = fs(path \<mapsto> Regular (and mode (not umask)) data)"
  by (auto simp: writeNew_def Let_def split: io_outcome.splits)

lemma os_ReadFile_regular: "fs path = Some (Regular p b) \<Longrightarrow> os_ReadFile fs path = Some b"
  by (simp add: os_ReadFile_def eval_nat_numeral)

lemma readPEM_Inr:
  "readPEM P fs path want private = Inr b \<longleftrightarrow>
     (private \<longrightarrow> (\<exists>perm data. fs path = Some (Regular perm data) \<and> and perm 63 = 0)) \<and>
     (\<exists>data block rest. os_ReadFile fs path = Some data \<and> pem_Decode P data = (Some block, rest) \<and>
        pb_Type block = want \<and> pb_Headers block = [] \<and> trim_space rest = [] \<and> pb_Bytes block = b)"
proof -
  have "(case pem_Decode P data of (None, _) \<Rightarrow> Inl NoPEM
      | (Some block, rest) \<Rightarrow> if pb_Type block \<noteq> want then Inl WrongPEMType
          else if pb_Headers block \<noteq> [] then Inl PEMHeaders
          else if trim_space rest \<noteq> [] then Inl PEMTrailing else Inr (pb_Bytes block)) = Inr b \<longleftrightarrow>
      (\<exists>block rest. pem_Decode P data = (Some block, rest) \<and> pb_Type block = want \<and> pb_Headers block = [] \<and>
        trim_space rest = [] \<and> pb_Bytes block = b)" for data
    by (cases "pem_Decode P data") (auto split: option.splits)
  moreover have "(if private then (case fs path of None \<Rightarrow> Inl KeyfileIO
        | Some (Regular perm _) \<Rightarrow> if and perm 63 \<noteq> 0 then Inl BadMode else Inr ()
        | Some _ \<Rightarrow> Inl NotRegular) else Inr ()) = Inr u \<longleftrightarrow>
      (private \<longrightarrow> (\<exists>perm data. fs path = Some (Regular perm data) \<and> and perm 63 = 0))" for u
  proof (cases "fs path")
    case (Some a)
    then show ?thesis by (cases a) auto
  qed simp
  ultimately show ?thesis by (simp add: readPEM_def)
qed

text \<open>What the code relies on: encoding a block and decoding it again gives it back.\<close>

definition pem_ok :: "pem_lib \<Rightarrow> bool" where
  "pem_ok P \<longleftrightarrow> (\<forall>t b. pem_Decode P (pem_EncodeToMemory P \<lparr>pb_Type = t, pb_Headers = [], pb_Bytes = b\<rparr>) =
       (Some \<lparr>pb_Type = t, pb_Headers = [], pb_Bytes = b\<rparr>, [])) \<and>
     (\<forall>k der. pkcs8_Marshal P k = Some der \<longrightarrow> pkcs8_Parse P der = Some (Some k))"

lemma trim_space_Nil [simp]: "trim_space [] = []"
  by (simp add: trim_space_def)

lemma owner_only: "and (and 384 (not umask)) 63 = (0 :: 32 word)"
proof -
  have "and (384 :: 32 word) 63 = 0" by simp
  then show ?thesis by (metis and.assoc and.commute and_zero_eq)
qed

lemma written_pem_read:
  assumes "pem_ok P" "fs path = Some (Regular perm (pem_EncodeToMemory P \<lparr>pb_Type = t, pb_Headers = [], pb_Bytes = b\<rparr>))"
    and "private \<Longrightarrow> and perm 63 = 0"
  shows "readPEM P fs path t private = Inr b"
proof -
  have "os_ReadFile fs path = Some (pem_EncodeToMemory P \<lparr>pb_Type = t, pb_Headers = [], pb_Bytes = b\<rparr>)"
    by (rule os_ReadFile_regular) (rule assms(2))
  then show ?thesis unfolding readPEM_Inr using assms by (auto simp: pem_ok_def)
qed

lemma written_key_file:
  assumes "writeNew fs path data 384 umask io = (fs', Inr ())"
  shows "\<exists>p. fs' path = Some (Regular p data) \<and> and p 63 = 0"
  using assms owner_only by (auto simp: writeNew_Inr)

text \<open>
  key files keep their key and nothing is overwritten: whatever writing a private key comes to, every file
  that was there is as it was; when it succeeds, the new file is regular and closed to group and others,
  whatever the process's umask is, and reading it gives the key that was written.
\<close>

theorem key_file_round_trip:
  assumes "pem_ok P" "NewPrivateKey C MLDSA65Ed25519 seed = Inr k"
    and "WriteComposite P fs path k umask io = (fs', r)"
  shows "(\<forall>q x. fs q = Some x \<longrightarrow> fs' q = Some x) \<and>
    (r = Inr () \<longrightarrow> ReadComposite C P fs' path = Inr k \<and> (\<exists>p b. fs' path = Some (Regular p b) \<and> and p 63 = 0))"
proof (intro conjI impI)
  show "\<forall>q x. fs q = Some x \<longrightarrow> fs' q = Some x"
    using assms(3) unfolding WriteComposite_def by (auto dest: writeNew_frame)
next
  let ?data = "pem_EncodeToMemory P \<lparr>pb_Type = CompositePEMType, pb_Headers = [], pb_Bytes = key_Seed k\<rparr>"
  assume "r = Inr ()"
  then obtain p where p: "fs' path = Some (Regular p ?data)" "and p 63 = 0"
    using assms(3) written_key_file unfolding WriteComposite_def by blast
  then show "\<exists>p b. fs' path = Some (Regular p b) \<and> and p 63 = 0" by blast
  have "key_Seed k = seed" using assms(2) by (auto simp: NewPrivateKey_def key_Seed_def)
  moreover have "readPEM P fs' path CompositePEMType True = Inr (key_Seed k)"
    by (rule written_pem_read [where fs = fs' and path = path, OF assms(1), OF p(1) p(2)])
  ultimately show "ReadComposite C P fs' path = Inr k" using assms(2) by (simp add: ReadComposite_def)
qed

text \<open>The same for the ML-DSA keys of the root and of task credentials.\<close>

lemma mldsa_file_round_trip:
  assumes "pem_ok P" "WriteMLDSA P fs path k umask io = (fs', Inr ())"
  shows "ReadMLDSA P fs' path = Inr k"
proof -
  obtain der where der: "length (mk_pub k) = 1952" "pkcs8_Marshal P k = Some der"
    "writeNew fs path (pem_EncodeToMemory P \<lparr>pb_Type = privateKeyType, pb_Headers = [], pb_Bytes = der\<rparr>) 384 umask io = (fs', Inr ())"
    using assms(2) by (auto simp: WriteMLDSA_def split: if_splits option.splits)
  obtain p where p: "fs' path = Some (Regular p (pem_EncodeToMemory P \<lparr>pb_Type = privateKeyType, pb_Headers = [], pb_Bytes = der\<rparr>))"
    "and p 63 = 0" using written_key_file [OF der(3)] by blast
  have "readPEM P fs' path privateKeyType True = Inr der" by (rule written_pem_read [where fs = fs' and path = path, OF assms(1), OF p(1) p(2)])
  then show ?thesis using der(1,2) assms(1) by (simp add: ReadMLDSA_def pem_ok_def)
qed

text \<open>A private key is only ever read from a regular file that group and others cannot access.\<close>

lemma private_key_file_closed:
  assumes "ReadComposite C P fs path = Inr k \<or> ReadMLDSA P fs path = Inr m"
  shows "\<exists>perm data. fs path = Some (Regular perm data) \<and> and perm 63 = 0"
  using assms by (auto simp: ReadComposite_def ReadMLDSA_def readPEM_Inr)

end
