(* ===== verification/WardenVerify.thy ===== *)
theory WardenVerify
  imports Keys Revocation S3Anchor Tsa Keyfile LogTheorems
begin

text \<open>
  The verifier program (\<open>cmd/warden-verify/main.go\<close> and \<open>store.go\<close>) with the endpoint rule it takes from
  \<open>internal/config/config.go\<close>: from its flags and files to its exit status and its report.  A run is a chain of
  stages; the value that ends a run early is a \<open>stop\<close>.  The report's text (\<open>printText\<close>) is not modelled.
\<close>

section \<open>Flags and the outside world\<close>

definition exitVerified :: int where "exitVerified = 0"
definition exitFailed :: int where "exitFailed = 1"
definition exitUsage :: int where "exitUsage = 2"

definition noStoreCheckpointWarning :: string where
  "noStoreCheckpointWarning = ''WARNING: the anchor store holds no checkpoints for this chain. The log was checked ''
     @ ''only against the anchor file, which whoever runs Warden can rewrite together with the log.''"

definition noCheckpointWarning :: string where
  "noCheckpointWarning = ''WARNING: no anchored checkpoints were checked. Without them, deleting the newest ''
     @ ''receipts or rewriting the whole log with the signing key cannot be detected.''"

record store_flags =
  sf_endpoint :: string
  sf_region :: string
  sf_bucket :: string
  sf_prefix :: string
  sf_pathStyle :: bool
  sf_skew :: int
  sf_timeout :: int

record flags =
  fl_log :: string
  fl_chain :: string
  fl_keys :: string
  fl_anchor :: string
  fl_tokens :: string
  fl_tsaRoots :: string
  fl_root :: string
  fl_revocations :: string
  fl_store :: store_flags
  fl_json :: bool
  fl_version :: bool
  fl_NArg :: nat

record store_client =
  sc_Endpoint :: string
  sc_Region :: string
  sc_Bucket :: string
  sc_PathStyle :: bool
  sc_AccessKeyID :: string
  sc_SecretAccessKey :: string
  sc_Timeout :: int

record url =
  url_Scheme :: string
  url_Host :: string
  url_Hostname :: string
  url_RawQuery :: string
  url_HasUser :: bool

text \<open>
  What a run uses of the operating system and of libraries: the files, the environment, the clock, \<open>url.Parse\<close>
  and the loopback test of \<open>net.ParseIP\<close>, the store that a client reaches, and the libraries of the
  components.
\<close>

record 'st world =
  w_fs :: filesystem
  w_Getenv :: "string \<Rightarrow> string"
  w_now :: time
  w_url :: "string \<Rightarrow> url option"
  w_ParseIP :: "string \<Rightarrow> bool option"
  w_send :: "store_client \<Rightarrow> 'st transport"
  w_x509 :: x509
  w_pem :: pem_lib
  w_tsa :: timestamp_lib
  w_certs :: "bytes \<Rightarrow> bytes list option"

section \<open>Results\<close>

record revoked_view =
  rw_Kid :: string
  rw_From :: int
  rw_Reason :: string

record store_view =
  vw_Location :: string
  vw_Checkpoints :: "anchored_object list"
  vw_Notices :: notices
  vw_Unanchored :: int

datatype run_error =
  AnchorError checkpoint_error
| StoreRules s3_error
| StoreLines checkpoint_error
| StoreSize string
| StoreTime string
| StoreLate string
| StoreDiffers string
| RevocationError revocation_error
| RevocationUnread
| TimestampError string tsa_error

record run_result =
  rr_Verified :: bool
  rr_ChainID :: string
  rr_Receipts :: int
  rr_LastSeq :: "int option"
  rr_Head :: string
  rr_Checkpoints :: int
  rr_Timestamps :: int
  rr_StampedAt :: string
  rr_Checkpointed :: int
  rr_Unanchored :: int
  rr_OpenDecisions :: "int list"
  rr_Warning :: string
  rr_Rotations :: "handover list"
  rr_Revocations :: "revoked_view list"
  rr_Store :: "store_view option"
  rr_Stage :: string
  rr_Failure :: "failure option"
  rr_Error :: "run_error option"

text \<open>
  How a run ends early: a usage or file error, a failed verification with its report, or a panic, which the
  Go runtime turns into exit status 2.
\<close>

datatype stop = StopUsage | StopFailed run_result | StopPanic

definition zero_result :: "string \<Rightarrow> run_result" where
  "zero_result chainID = \<lparr>rr_Verified = False, rr_ChainID = chainID, rr_Receipts = 0, rr_LastSeq = None, rr_Head = [],
     rr_Checkpoints = 0, rr_Timestamps = 0, rr_StampedAt = [], rr_Checkpointed = 0, rr_Unanchored = 0,
     rr_OpenDecisions = [], rr_Warning = [], rr_Rotations = [], rr_Revocations = [], rr_Store = None, rr_Stage = [],
     rr_Failure = None, rr_Error = None\<rparr>"

definition failed :: "run_result \<Rightarrow> string \<Rightarrow> run_error \<Rightarrow> stop" where
  "failed res stage e = StopFailed (res\<lparr>rr_Stage := stage, rr_Error := Some e\<rparr>)"

section \<open>The store\<close>

definition CheckStoreEndpoint :: "'st world \<Rightarrow> string \<Rightarrow> bool" where
  "CheckStoreEndpoint W endpoint =
     (case w_url W endpoint of None \<Rightarrow> False | Some u \<Rightarrow>
        if url_Host u = [] \<or> url_Scheme u \<noteq> ''https'' \<and> url_Scheme u \<noteq> ''http'' then False
        else if url_Scheme u = ''http'' \<and> url_Hostname u \<noteq> ''localhost'' \<and> w_ParseIP W (url_Hostname u) \<noteq> Some True then False
        else if url_RawQuery u \<noteq> [] \<or> url_HasUser u then False
        else True)"

definition sf_set :: "store_flags \<Rightarrow> bool" where
  "sf_set f \<longleftrightarrow> sf_endpoint f \<noteq> [] \<or> sf_region f \<noteq> [] \<or> sf_bucket f \<noteq> [] \<or> sf_prefix f \<noteq> []"

definition sf_location :: "store_flags \<Rightarrow> string \<Rightarrow> string" where
  "sf_location f chainID = sf_endpoint f @ '', bucket '' @ sf_bucket f @ '', '' @ ChainPrefix (sf_prefix f) chainID"

definition EnvAnchorAccessKeyID :: string where
  "EnvAnchorAccessKeyID = ''WARDEN_ANCHOR_ACCESS_KEY_ID''"

definition EnvAnchorSecretAccessKey :: string where
  "EnvAnchorSecretAccessKey = ''WARDEN_ANCHOR_SECRET_ACCESS_KEY''"

definition sf_client :: "'st world \<Rightarrow> store_flags \<Rightarrow> store_client option" where
  "sf_client W f =
     (if sf_endpoint f = [] \<or> sf_region f = [] \<or> sf_bucket f = [] then None
      else if \<not> CheckStoreEndpoint W (sf_endpoint f) then None
      else if sf_skew f < 0 \<or> sf_timeout f < ns_per_s then None
      else let k = w_Getenv W EnvAnchorAccessKeyID; s = w_Getenv W EnvAnchorSecretAccessKey in
        if k = [] \<or> s = [] then None
        else Some \<lparr>sc_Endpoint = sf_endpoint f, sc_Region = sf_region f, sc_Bucket = sf_bucket f, sc_PathStyle = sf_pathStyle f,
          sc_AccessKeyID = k, sc_SecretAccessKey = s, sc_Timeout = sf_timeout f\<rparr>)"

type_synonym file_lines = "int \<rightharpoonup> bytes"

text \<open>
  The loop over the checkpoints that the stored lines hold.  It indexes the stored objects by the position of
  the checkpoint, and indexing past the end panics.
\<close>

datatype read_store_error = Unreadable | Refused run_error | IndexPanic

fun check_stored ::
  "int \<Rightarrow> file_lines \<Rightarrow> anchored_object list \<Rightarrow> checkpoint list \<Rightarrow> read_store_error + unit" where
  "check_stored skew fileLines stored [] = Inr ()"
| "check_stored skew fileLines [] (c # cs) = Inl IndexPanic"
| "check_stored skew fileLines (a # stored) (c # cs) =
     (if c_size c \<noteq> ao_Size a then Inl (Refused (StoreSize (ao_Object a)))
      else (case parse_ts (c_ts c) of None \<Rightarrow> Inl (Refused (StoreTime (ao_Object a)))
        | Some made \<Rightarrow>
            if made > ao_StoredAt a + skew then Inl (Refused (StoreLate (ao_Object a)))
            else (case fileLines (c_size c) of
                Some line \<Rightarrow> if line \<noteq> ao_Line a then Inl (Refused (StoreDiffers (ao_Object a)))
                  else check_stored skew fileLines stored cs
              | None \<Rightarrow> check_stored skew fileLines stored cs)))"

definition readStore ::
  "'x crypto_scheme \<Rightarrow> 'st world \<Rightarrow> store_flags \<Rightarrow> store_client \<Rightarrow> 'st \<Rightarrow> string \<Rightarrow> key_resolver \<Rightarrow> file_lines
     \<Rightarrow> 'st \<times> (read_store_error + checkpoint list \<times> store_view)" where
  "readStore C W f client st chainID resolve fileLines =
     (case s3_Read (w_send W client) st (sf_prefix f) chainID (w_now W) of
        (st', Inl e) \<Rightarrow> (st', Inl (if e \<in> {ErrNotLocked, ErrRewritten, ErrStray} then Refused (StoreRules e) else Unreadable))
      | (st', Inr (stored, nts)) \<Rightarrow> (st',
          (let joined = concat (map (\<lambda>a. ao_Line a @ [newline]) stored) in
           ebind (map_err (\<lambda>e. Refused (StoreLines e)) (ReadVerified C joined chainID resolve)) (\<lambda>cps.
           ebind (check_stored (sf_skew f) fileLines stored cps) (\<lambda>_.
           Inr (cps, \<lparr>vw_Location = sf_location f chainID, vw_Checkpoints = stored, vw_Notices = nts, vw_Unanchored = 0\<rparr>))))))"

definition merge_step :: "(int \<times> checkpoint) list \<Rightarrow> checkpoint \<Rightarrow> (int \<times> checkpoint) list" where
  "merge_step bySize c = AList.update (c_size c) c bySize"

definition verify_merge :: "checkpoint list \<Rightarrow> checkpoint list \<Rightarrow> checkpoint list" where
  "verify_merge a b = sort_key c_size (map snd (foldl merge_step [] (a @ b)))"

section \<open>The stages of a run\<close>

text \<open>
  \<open>os.Open\<close> fails when the path leads to nothing; what is opened may still not be readable as bytes, as a directory
  is not, and then the scanner meets the error before its first line.
\<close>

definition os_Open :: "filesystem \<Rightarrow> string \<Rightarrow> bytes option option" where
  "os_Open fs path = (case follow 41 fs path of Some (Regular _ b) \<Rightarrow> Some (Some b) | Some (Irregular _) \<Rightarrow> Some None | _ \<Rightarrow> None)"

lemma os_Open_content: "os_Open fs p = Some (Some b) \<longleftrightarrow> os_ReadFile fs p = Some b"
  by (auto simp: os_Open_def os_ReadFile_def split: option.splits node.splits)

definition open_log :: "'st world \<Rightarrow> flags \<Rightarrow> run_result \<Rightarrow> stop + bytes" where
  "open_log W f res = (case os_Open (w_fs W) (fl_log f) of None \<Rightarrow> Inl StopUsage
     | Some None \<Rightarrow> Inl (StopFailed (res\<lparr>rr_Stage := ''log'', rr_Failure := Some \<lparr>f_Line = 1, f_Seq = 0, f_Reason = Malformed\<rparr>\<rparr>))
     | Some (Some log) \<Rightarrow> Inr log)"

lemma open_log_Inr: "open_log W f res = Inr log \<longleftrightarrow> os_ReadFile (w_fs W) (fl_log f) = Some log"
  by (auto simp: open_log_def os_Open_content [symmetric] split: option.splits)

record keyring =
  kr_trusted :: trusted
  kr_rotating :: "rotating option"
  kr_rootKey :: "bytes option"

text \<open>Flags that are checked before anything is read.\<close>

definition usage_ok :: "flags \<Rightarrow> bool" where
  "usage_ok f \<longleftrightarrow> \<not> (fl_NArg f > 0 \<or> fl_log f = [] \<or> fl_chain f = [] \<or> fl_keys f = [])"

definition load_trust :: "'x crypto_scheme \<Rightarrow> 'st world \<Rightarrow> flags \<Rightarrow> stop + trusted" where
  "load_trust C W f = ebind (of_option StopUsage (os_ReadFile (w_fs W) (fl_keys f))) (\<lambda>keyData.
     map_err (\<lambda>_. StopUsage) (keys_Parse C keyData))"

definition open_store :: "'st world \<Rightarrow> flags \<Rightarrow> stop + store_client option" where
  "open_store W f = (if sf_set (fl_store f) then map_err (\<lambda>_. StopUsage) (ebind (of_option () (sf_client W (fl_store f))) (\<lambda>c. Inr (Some c)))
     else Inr None)"

definition load_root :: "'st world \<Rightarrow> flags \<Rightarrow> trusted \<Rightarrow> stop + keyring" where
  "load_root W f trusted =
     (if fl_root f = [] then Inr \<lparr>kr_trusted = trusted, kr_rotating = None, kr_rootKey = None\<rparr>
      else ebind (map_err (\<lambda>_. StopUsage) (ReadCertificate (w_x509 W) (w_pem W) (w_fs W) (fl_root f))) (\<lambda>der.
      ebind (of_option StopUsage (x_Parse (w_x509 W) der)) (\<lambda>rootCert.
      ebind (map_err (\<lambda>_. StopUsage) (revocation_RootKey (Some rootCert))) (\<lambda>rootKey.
      Inr \<lparr>kr_trusted = trusted, kr_rotating = Some (NewRotating trusted (Some [der])), kr_rootKey = Some rootKey\<rparr>))))"

text \<open>The keys that a chain is verified with; verifying may teach a rotating directory new ones.\<close>

definition ring_verify ::
  "'x crypto_scheme \<Rightarrow> x509 \<Rightarrow> keyring \<Rightarrow> bytes \<Rightarrow> string \<Rightarrow> checkpoint list \<Rightarrow> revoked list \<Rightarrow> failure + report \<times> keyring" where
  "ring_verify C X kr log chainID cps revs =
     (case kr_rotating kr of
        None \<Rightarrow> ebind (VerifyAll C log chainID (StaticKeys (Resolver (kr_trusted kr))) () cps revs) (\<lambda>(rep, _). Inr (rep, kr))
      | Some rot \<Rightarrow> ebind (VerifyAll C log chainID (Rotating C X) rot cps revs) (\<lambda>(rep, rot').
          Inr (rep, kr\<lparr>kr_rotating := Some rot'\<rparr>)))"

definition ring_resolve :: "keyring \<Rightarrow> key_resolver" where
  "ring_resolve kr = (case kr_rotating kr of None \<Rightarrow> Resolver (kr_trusted kr) | Some rot \<Rightarrow> rotating_Resolve rot)"

text \<open>The log is read once before the anchor, when keys can be learned from it.\<close>

definition learn_keys ::
  "'x crypto_scheme \<Rightarrow> 'st world \<Rightarrow> flags \<Rightarrow> bool \<Rightarrow> run_result \<Rightarrow> keyring \<Rightarrow> stop + keyring" where
  "learn_keys C W f haveAnchor res kr =
     (if kr_rotating kr \<noteq> None \<and> haveAnchor then
        ebind (open_log W f res) (\<lambda>log.
        ebind (map_err (\<lambda>e. StopFailed (res\<lparr>rr_Stage := ''log'', rr_Failure := Some e\<rparr>))
          (ring_verify C (w_x509 W) kr log (fl_chain f) [] [])) (\<lambda>(_, kr'). Inr kr'))
      else Inr kr)"

type_synonym labelled = "string \<times> bytes"

definition anchor_lines :: "bytes \<Rightarrow> bytes list" where
  "anchor_lines data = filter (\<lambda>l. trim_space l \<noteq> []) (split_lines (trim_space data))"

fun lines_by_size :: "bytes list \<Rightarrow> checkpoint list \<Rightarrow> file_lines \<Rightarrow> file_lines" where
  "lines_by_size (l # ls) (c # cs) m = lines_by_size ls cs (m(c_size c \<mapsto> l))"
| "lines_by_size _ _ m = m"

definition read_anchor ::
  "'x crypto_scheme \<Rightarrow> 'st world \<Rightarrow> flags \<Rightarrow> run_result \<Rightarrow> key_resolver
     \<Rightarrow> stop + checkpoint list \<times> labelled list \<times> file_lines" where
  "read_anchor C W f res resolve =
     (if fl_anchor f = [] then Inr ([], [], Map.empty)
      else ebind (of_option StopUsage (os_ReadFile (w_fs W) (fl_anchor f))) (\<lambda>data.
      ebind (map_err (\<lambda>e. failed res ''anchor'' (AnchorError e)) (ReadVerified C data (fl_chain f) resolve)) (\<lambda>cps.
      let lines = anchor_lines data in
      Inr (cps, map (\<lambda>i. (''anchor line '' @ show_int (int i + 1), lines ! i)) [0..<length lines],
        lines_by_size lines cps Map.empty))))"

definition read_anchors ::
  "'x crypto_scheme \<Rightarrow> 'st world \<Rightarrow> flags \<Rightarrow> 'st \<Rightarrow> store_client option \<Rightarrow> run_result \<Rightarrow> key_resolver
     \<Rightarrow> 'st \<times> (stop + checkpoint list \<times> labelled list \<times> run_result)" where
  "read_anchors C W f st store res resolve =
     (case read_anchor C W f res resolve of Inl s \<Rightarrow> (st, Inl s)
      | Inr (cps, labels, fileLines) \<Rightarrow>
        (case store of None \<Rightarrow> (st, Inr (cps, labels, res))
         | Some client \<Rightarrow> (case readStore C W (fl_store f) client st (fl_chain f) resolve fileLines of
             (st', Inl Unreadable) \<Rightarrow> (st', Inl StopUsage)
           | (st', Inl (Refused e)) \<Rightarrow> (st', Inl (failed res ''anchor store'' e))
           | (st', Inl IndexPanic) \<Rightarrow> (st', Inl StopPanic)
           | (st', Inr (storeCps, vw)) \<Rightarrow> (st', Inr (verify_merge cps storeCps,
               labels @ map (\<lambda>a. (ao_Object a, ao_Line a)) (filter (\<lambda>a. fileLines (ao_Size a) = None) (vw_Checkpoints vw)),
               res\<lparr>rr_Store := Some vw\<rparr>)))))"

definition read_revocations ::
  "'x crypto_scheme \<Rightarrow> 'st world \<Rightarrow> flags \<Rightarrow> run_result \<Rightarrow> keyring \<Rightarrow> checkpoint list \<Rightarrow> stop + revoked list \<times> run_result" where
  "read_revocations C W f res kr cps =
     (if fl_revocations f = [] then Inr ([], res)
      else ebind (of_option StopUsage (os_Open (w_fs W) (fl_revocations f))) (\<lambda>opened.
      ebind (of_option (failed res ''revocation'' RevocationUnread) opened) (\<lambda>data.
      ebind (map_err (\<lambda>e. failed res ''revocation'' (RevocationError e)) (revocation_ReadVerified C data (fl_chain f) (kr_rootKey kr))) (\<lambda>revs.
      ebind (map_err (\<lambda>e. failed res ''revocation'' (RevocationError e)) (revocation_Match revs cps)) (\<lambda>es.
      Inr (map (\<lambda>e. \<lparr>rv_Kid = ef_Kid e, rv_EffectiveSize = ef_Size e\<rparr>) es,
        res\<lparr>rr_Revocations := rr_Revocations res @ map (\<lambda>e. \<lparr>rw_Kid = ef_Kid e, rw_From = ef_Size e, rw_Reason = ef_Reason e\<rparr>) es\<rparr>))))))"

text \<open>\<open>time.Time\<close>'s zero value is the first instant of year 1.\<close>

definition zero_time :: time where
  "zero_time = 366 * 86400 * ns_per_s"

definition rfc3339 :: "time \<Rightarrow> string" where
  "rfc3339 t = take 19 (format_ts t) @ ''Z''"

fun check_tokens ::
  "timestamp_lib \<Rightarrow> 'x crypto_scheme \<Rightarrow> bytes list \<Rightarrow> string \<Rightarrow> bytes \<Rightarrow> bytes list \<Rightarrow> int \<times> time \<Rightarrow> (int \<times> run_error) + int \<times> time" where
  "check_tokens T C roots label line [] acc = Inr acc"
| "check_tokens T C roots label line (token # tokens) (n, earliest) =
     (case tsa_Verify T C token line (Some roots) of
        Inl e \<Rightarrow> Inl (n, TimestampError label e)
      | Inr t \<Rightarrow> check_tokens T C roots label line tokens (n + 1, if earliest = zero_time \<or> t < earliest then t else earliest))"

definition check_timestamps ::
  "'x crypto_scheme \<Rightarrow> 'st world \<Rightarrow> flags \<Rightarrow> bool \<Rightarrow> labelled list \<Rightarrow> run_result \<Rightarrow> stop + run_result" where
  "check_timestamps C W f haveAnchor labels res =
     (if fl_tokens f = [] \<and> fl_tsaRoots f = [] then Inr res
      else if fl_tokens f = [] \<or> fl_tsaRoots f = [] \<or> \<not> haveAnchor then Inl StopUsage
      else ebind (map_err (\<lambda>_. StopUsage) (LoadRoots (w_certs W) (os_ReadFile (w_fs W) (fl_tsaRoots f)))) (\<lambda>roots.
      ebind (of_option StopUsage (os_ReadFile (w_fs W) (fl_tokens f))) (\<lambda>tokenData.
      ebind (map_err (\<lambda>_. StopUsage) (ReadTokens tokenData)) (\<lambda>tokens.
      ebind (map_err (\<lambda>(n, e). failed (res\<lparr>rr_Timestamps := n\<rparr>) ''timestamp'' e)
        (efold (\<lambda>acc (label, line). check_tokens (w_tsa W) C roots label line (tokens (tsa_Digest C line)) acc) (0, zero_time) labels)) (\<lambda>(n, earliest).
      Inr (res\<lparr>rr_Timestamps := n, rr_StampedAt := (if earliest \<noteq> zero_time then rfc3339 earliest else [])\<rparr>))))))"

definition finish ::
  "run_result \<Rightarrow> report \<Rightarrow> checkpoint list \<Rightarrow> run_result" where
  "finish res rep cps =
     (let res1 = res\<lparr>rr_Verified := True, rr_Rotations := rep_Rotations rep, rr_Receipts := rep_Receipts rep,
            rr_LastSeq := Some (rep_LastSeq rep), rr_Head := rep_Head rep, rr_Checkpointed := rep_Checkpointed rep,
            rr_Unanchored := rep_Unanchored rep, rr_OpenDecisions := rep_OpenDecisions rep\<rparr>;
          res2 = (case rr_Store res1 of None \<Rightarrow> res1
            | Some vw \<Rightarrow> res1\<lparr>rr_Store := Some (vw\<lparr>vw_Unanchored := rep_Receipts rep -
                (if vw_Checkpoints vw = [] then 0 else ao_Size (last (vw_Checkpoints vw)))\<rparr>)\<rparr>) in
      if cps = [] then res2\<lparr>rr_Warning := noCheckpointWarning\<rparr>
      else (case rr_Store res2 of
          Some vw \<Rightarrow> if vw_Checkpoints vw = [] then res2\<lparr>rr_Warning := noStoreCheckpointWarning\<rparr> else res2
        | None \<Rightarrow> res2))"

definition verify_log ::
  "'x crypto_scheme \<Rightarrow> 'st world \<Rightarrow> flags \<Rightarrow> bool \<Rightarrow> keyring \<Rightarrow> checkpoint list \<times> labelled list \<times> run_result \<Rightarrow> stop + run_result" where
  "verify_log C W f haveAnchor kr = (\<lambda>(cps, labels, res).
     let res1 = res\<lparr>rr_Checkpoints := int (length cps)\<rparr> in
     ebind (read_revocations C W f res1 kr cps) (\<lambda>(revoked, res2).
     ebind (check_timestamps C W f haveAnchor labels res2) (\<lambda>res3.
     ebind (open_log W f res3) (\<lambda>log.
     ebind (map_err (\<lambda>e. StopFailed (res3\<lparr>rr_Stage := ''log'', rr_Failure := Some e\<rparr>))
       (ring_verify C (w_x509 W) kr log (fl_chain f) cps revoked)) (\<lambda>(rep, _).
     Inr (finish res3 rep cps))))))"

text \<open>The stages up to the anchors; \<open>fl\<close> is nothing when the flags do not parse.\<close>

definition prepare ::
  "'x crypto_scheme \<Rightarrow> 'st world \<Rightarrow> flags \<Rightarrow> stop + keyring \<times> store_client option" where
  "prepare C W f =
     (if \<not> usage_ok f then Inl StopUsage
      else ebind (load_trust C W f) (\<lambda>trusted.
      ebind (open_store W f) (\<lambda>store.
      let haveAnchor = fl_anchor f \<noteq> [] \<or> store \<noteq> None in
      if fl_revocations f \<noteq> [] \<and> (fl_root f = [] \<or> \<not> haveAnchor) then Inl StopUsage
      else ebind (load_root W f trusted) (\<lambda>kr0.
      ebind (learn_keys C W f haveAnchor (zero_result (fl_chain f)) kr0) (\<lambda>kr.
      Inr (kr, store))))))"

datatype run_output = NoOutput | VersionLine | JSONReport run_result | TextReport run_result string

definition emit :: "flags \<Rightarrow> int \<Rightarrow> run_result \<Rightarrow> int \<times> run_output" where
  "emit f code res = (code, if fl_json f then JSONReport res else TextReport res (rr_Warning res))"

definition exit_of :: "flags \<Rightarrow> stop + run_result \<Rightarrow> int \<times> run_output" where
  "exit_of f x = (case x of
     Inl StopUsage \<Rightarrow> (exitUsage, NoOutput)
   | Inl StopPanic \<Rightarrow> (2, NoOutput)
   | Inl (StopFailed res) \<Rightarrow> emit f exitFailed res
   | Inr res \<Rightarrow> emit f exitVerified res)"

definition run_stages ::
  "'x crypto_scheme \<Rightarrow> 'st world \<Rightarrow> flags \<Rightarrow> 'st \<Rightarrow> 'st \<times> (stop + run_result)" where
  "run_stages C W f st =
     (case prepare C W f of Inl s \<Rightarrow> (st, Inl s)
      | Inr (kr, store) \<Rightarrow>
        (case read_anchors C W f st store (zero_result (fl_chain f)) (ring_resolve kr) of
           (st', Inl s) \<Rightarrow> (st', Inl s)
         | (st', Inr x) \<Rightarrow> (st', verify_log C W f (fl_anchor f \<noteq> [] \<or> store \<noteq> None) kr x)))"

definition verify_run ::
  "'x crypto_scheme \<Rightarrow> 'st world \<Rightarrow> flags option \<Rightarrow> 'st \<Rightarrow> 'st \<times> int \<times> run_output" where
  "verify_run C W fl st =
     (case fl of None \<Rightarrow> (st, exitUsage, NoOutput)
      | Some f \<Rightarrow> if fl_version f then (st, exitVerified, VersionLine)
          else (case run_stages C W f st of (st', x) \<Rightarrow> (st', exit_of f x)))"


section \<open>What an accepting run established\<close>

text \<open>A log is admissible under the keys of a ring.\<close>

definition ring_log_ok ::
  "'x crypto_scheme \<Rightarrow> x509 \<Rightarrow> keyring \<Rightarrow> string \<Rightarrow> revoked list \<Rightarrow> entry list \<Rightarrow> bool" where
  "ring_log_ok C X kr chainID revs es \<longleftrightarrow> (case kr_rotating kr of
      None \<Rightarrow> log_ok C (StaticKeys (Resolver (kr_trusted kr))) () chainID revs es
    | Some rot \<Rightarrow> log_ok C (Rotating C X) rot chainID revs es)"

lemma ring_verify_Inr:
  assumes "ring_verify C X kr log chainID cps revs = Inr (rep, kr')"
  shows "\<exists>es. scan_lines log = (map e_line es, False) \<and> es \<noteq> [] \<and> ring_log_ok C X kr chainID revs es \<and>
    (\<forall>c \<in> set cps. cp_matches C chainID (map e_line es) c) \<and> rep = report_of C chainID cps es"
  using assms by (fastforce simp: ring_verify_def ring_log_ok_def VerifyAll_Inr verified_log_def split: option.splits)

lemma ring_log_ok_linked:
  assumes "ring_log_ok C X kr chainID revs es" "i < length es"
  shows "linked C chainID revs (take i es) (es ! i)"
proof (cases "kr_rotating kr")
  case None
  then have "log_ok C (StaticKeys (Resolver (kr_trusted kr))) () chainID revs es" using assms(1) by (simp add: ring_log_ok_def)
  from log_ok_linked [OF this assms(2)] show ?thesis .
next
  case (Some rot)
  then have "log_ok C (Rotating C X) rot chainID revs es" using assms(1) by (simp add: ring_log_ok_def)
  from log_ok_linked [OF this assms(2)] show ?thesis .
qed

lemma ring_log_ok_authentic:
  assumes "ring_log_ok C X kr chainID revs es" "i < length es"
  shows "\<exists>sg. ParseLine C (e_line (es ! i)) = Inr sg \<and> signed_KeyID C sg = Inr (e_kid (es ! i)) \<and>
    receipt_Verify C (e_pub (es ! i)) sg = Inr (e_rcpt (es ! i))"
proof (cases "kr_rotating kr")
  case None
  then have "log_ok C (StaticKeys (Resolver (kr_trusted kr))) () chainID revs es" using assms(1) by (simp add: ring_log_ok_def)
  from log_ok_authentic [OF this assms(2)] show ?thesis by (auto simp: authentic_def)
next
  case (Some rot)
  then have "log_ok C (Rotating C X) rot chainID revs es" using assms(1) by (simp add: ring_log_ok_def)
  from log_ok_authentic [OF this assms(2)] show ?thesis by (auto simp: authentic_def)
qed

text \<open>The stages of a run that exits with status 0, with what they computed.\<close>

definition accepted_run ::
  "'x crypto_scheme \<Rightarrow> 'st world \<Rightarrow> flags \<Rightarrow> 'st \<Rightarrow> 'st \<Rightarrow> run_output \<Rightarrow> keyring \<Rightarrow> store_client option \<Rightarrow> checkpoint list
     \<Rightarrow> revoked list \<Rightarrow> bytes \<Rightarrow> entry list \<Rightarrow> bool" where
  "accepted_run C W f st st' out kr store cps revs log es \<longleftrightarrow> (\<exists>labels res1 res2 res3.
     prepare C W f = Inr (kr, store) \<and>
     read_anchors C W f st store (zero_result (fl_chain f)) (ring_resolve kr) = (st', Inr (cps, labels, res1)) \<and>
     read_revocations C W f (res1\<lparr>rr_Checkpoints := int (length cps)\<rparr>) kr cps = Inr (revs, res2) \<and>
     check_timestamps C W f (fl_anchor f \<noteq> [] \<or> store \<noteq> None) labels res2 = Inr res3 \<and>
     os_ReadFile (w_fs W) (fl_log f) = Some log \<and> scan_lines log = (map e_line es, False) \<and> es \<noteq> [] \<and>
     ring_log_ok C (w_x509 W) kr (fl_chain f) revs es \<and> (\<forall>c \<in> set cps. cp_matches C (fl_chain f) (map e_line es) c) \<and>
     out = snd (emit f exitVerified (finish res3 (report_of C (fl_chain f) cps es) cps)))"

lemma run_accepts:
  assumes "verify_run C W (Some f) st = (st', exitVerified, out)" "\<not> fl_version f"
  shows "\<exists>kr store cps revs log es. accepted_run C W f st st' out kr store cps revs log es"
proof -
  obtain x where x: "run_stages C W f st = (st', x)" "exit_of f x = (exitVerified, out)"
    using assms by (auto simp: verify_run_def split: prod.splits)
  then obtain res where res: "x = Inr res" "out = snd (emit f exitVerified res)"
    by (auto simp: exit_of_def exitVerified_def exitUsage_def exitFailed_def emit_def split: sum.splits stop.splits)
  obtain kr store where p: "prepare C W f = Inr (kr, store)"
    using x(1) res(1) by (auto simp: run_stages_def split: sum.splits)
  obtain y where y: "read_anchors C W f st store (zero_result (fl_chain f)) (ring_resolve kr) = (st', Inr y)"
    "verify_log C W f (fl_anchor f \<noteq> [] \<or> store \<noteq> None) kr y = Inr res"
    using x(1) res(1) p by (auto simp: run_stages_def split: sum.splits prod.splits)
  obtain cps labels res1 where yy: "y = (cps, labels, res1)" by (cases y)
  obtain revs res2 res3 log rep kr' where z:
    "read_revocations C W f (res1\<lparr>rr_Checkpoints := int (length cps)\<rparr>) kr cps = Inr (revs, res2)"
    "check_timestamps C W f (fl_anchor f \<noteq> [] \<or> store \<noteq> None) labels res2 = Inr res3"
    "os_ReadFile (w_fs W) (fl_log f) = Some log"
    "ring_verify C (w_x509 W) kr log (fl_chain f) cps revs = Inr (rep, kr')" "res = finish res3 rep cps"
    using y(2) unfolding yy verify_log_def by (auto simp: Let_def open_log_Inr)
  obtain es where es: "scan_lines log = (map e_line es, False)" "es \<noteq> []" "ring_log_ok C (w_x509 W) kr (fl_chain f) revs es"
    "\<forall>c \<in> set cps. cp_matches C (fl_chain f) (map e_line es) c" "rep = report_of C (fl_chain f) cps es"
    using ring_verify_Inr [OF z(4)] by blast
  have "accepted_run C W f st st' out kr store cps revs log es"
    unfolding accepted_run_def
    by (rule exI [of _ labels], rule exI [of _ res1], rule exI [of _ res2], rule exI [of _ res3])
      (use p y(1) yy z(1-3) es res(2) z(5) in simp)
  then show ?thesis by blast
qed

section \<open>Checkpoints from two anchors\<close>

lemma merge_fold_keys: "distinct (map fst m) \<Longrightarrow> distinct (map fst (foldl merge_step m xs))"
  by (induction xs arbitrary: m) (simp_all add: merge_step_def distinct_update)

lemma merge_fold_map_of:
  "map_of (foldl merge_step m xs) = map_of m ++ map_of (rev (map (\<lambda>c. (c_size c, c)) xs))"
proof (induction xs arbitrary: m)
  case (Cons x xs)
  have "map_of (foldl merge_step m (x # xs)) = map_of (merge_step m x) ++ map_of (rev (map (\<lambda>c. (c_size c, c)) xs))"
    using Cons by simp
  moreover have "map_of (merge_step m x) = (map_of m)(c_size x \<mapsto> x)" by (simp add: merge_step_def update_conv')
  ultimately show ?case by simp
qed simp

lemma set_verify_merge:
  "c \<in> set (verify_merge a b) \<longleftrightarrow> map_of (rev (map (\<lambda>c. (c_size c, c)) (a @ b))) (c_size c) = Some c"
proof -
  let ?m = "foldl merge_step [] (a @ b)"
  have d: "distinct (map fst ?m)" by (rule merge_fold_keys) simp
  have mo: "map_of ?m = map_of (rev (map (\<lambda>c. (c_size c, c)) (a @ b)))" using merge_fold_map_of [of "[]" "a @ b"] by simp
  have k: "k = c_size c" if "(k, c) \<in> set ?m" for k
  proof -
    have "map_of ?m k = Some c" using that d by simp
    then have "(k, c) \<in> set (rev (map (\<lambda>c. (c_size c, c)) (a @ b)))" unfolding mo by (rule map_of_SomeD)
    then show ?thesis by auto
  qed
  have "c \<in> set (verify_merge a b) \<longleftrightarrow> (\<exists>k. (k, c) \<in> set ?m)" by (force simp: verify_merge_def)
  also have "\<dots> \<longleftrightarrow> (c_size c, c) \<in> set ?m" using k by blast
  also have "\<dots> \<longleftrightarrow> map_of ?m (c_size c) = Some c" using d by simp
  finally show ?thesis unfolding mo .
qed

lemma in_verify_merge:
  assumes "distinct (map c_size b)"
  shows "c \<in> set b \<Longrightarrow> c \<in> set (verify_merge a b)"
    and "distinct (map c_size a) \<Longrightarrow> c \<in> set a \<Longrightarrow> c_size c \<notin> c_size ` set b \<Longrightarrow> c \<in> set (verify_merge a b)"
proof -
  let ?g = "\<lambda>c :: checkpoint. (c_size c, c)"
  have one: "map_of (rev (map ?g xs)) (c_size c) = Some c" if "distinct (map c_size xs)" "c \<in> set xs" for xs
    by (rule map_of_is_SomeI) (use that in \<open>simp_all add: comp_def rev_map [symmetric]\<close>)
  have none: "map_of (rev (map ?g xs)) k = None" if "k \<notin> c_size ` set xs" for xs k
    using that by (auto simp: map_of_eq_None_iff)
  show "c \<in> set b \<Longrightarrow> c \<in> set (verify_merge a b)"
    using one [OF assms] by (simp add: set_verify_merge)
  show "distinct (map c_size a) \<Longrightarrow> c \<in> set a \<Longrightarrow> c_size c \<notin> c_size ` set b \<Longrightarrow> c \<in> set (verify_merge a b)"
    using one [of a] none [of "c_size c" b] by (simp add: set_verify_merge map_add_def)
qed

lemma anchored_sizes: "anchored C chainID keys ls cps \<Longrightarrow> distinct (map c_size cps)"
proof -
  assume "anchored C chainID keys ls cps"
  then have "sorted_wrt cp_before cps" by (simp add: anchored_def)
  then show ?thesis by (induction cps) (auto simp: cp_before_def)
qed


section \<open>What the anchors vouch for\<close>

lemma prepare_Inr:
  assumes "prepare C W f = Inr (kr, store)"
  shows "open_store W f = Inr store"
    and "\<exists>trusted kr0. load_trust C W f = Inr trusted \<and> load_root W f trusted = Inr kr0 \<and>
      learn_keys C W f (fl_anchor f \<noteq> [] \<or> store \<noteq> None) (zero_result (fl_chain f)) kr0 = Inr kr"
    and "fl_revocations f \<noteq> [] \<Longrightarrow> fl_root f \<noteq> [] \<and> (fl_anchor f \<noteq> [] \<or> store \<noteq> None)"
  using assms by (auto simp: prepare_def Let_def split: if_splits)

lemma open_store_Some: "sf_set (fl_store f) \<Longrightarrow> open_store W f = Inr store \<Longrightarrow> \<exists>client. store = Some client"
  by (auto simp: open_store_def)

lemma open_store_None: "\<not> sf_set (fl_store f) \<Longrightarrow> open_store W f = Inr store \<Longrightarrow> store = None"
  by (auto simp: open_store_def)

lemma read_anchors_store:
  assumes "read_anchors C W f st (Some client) res resolve = (st', Inr (cps, labels, res'))"
  obtains fileCps labels0 fileLines stored nts storeCps where "read_anchor C W f res resolve = Inr (fileCps, labels0, fileLines)"
    "s3_Read (w_send W client) st (sf_prefix (fl_store f)) (fl_chain f) (w_now W) = (st', Inr (stored, nts))"
    "ReadVerified C (concat (map (\<lambda>a. ao_Line a @ [newline]) stored)) (fl_chain f) resolve = Inr storeCps"
    "check_stored (sf_skew (fl_store f)) fileLines stored storeCps = Inr ()"
    "cps = verify_merge fileCps storeCps"
proof -
  obtain fileCps labels0 fileLines where a: "read_anchor C W f res resolve = Inr (fileCps, labels0, fileLines)"
    using assms by (auto simp: read_anchors_def split: sum.splits prod.splits)
  obtain y where y: "readStore C W (fl_store f) client st (fl_chain f) resolve fileLines = (st', Inr y)"
    "cps = verify_merge fileCps (fst y)"
    using assms a by (auto simp: read_anchors_def split: sum.splits prod.splits read_store_error.splits)
  obtain stored nts where r: "s3_Read (w_send W client) st (sf_prefix (fl_store f)) (fl_chain f) (w_now W) = (st', Inr (stored, nts))"
    using y(1) by (auto simp: readStore_def split: sum.splits prod.splits)
  show ?thesis
    by (rule that [OF a r, of "fst y"]) (use y r in \<open>auto simp: readStore_def Let_def\<close>)
qed

lemma scanned_line:
  assumes "plain_line l" "complete_lines pre" "scan_lines (pre @ l @ newline # post) = (ls, False)"
  shows "l \<in> set ls"
proof -
  let ?s = "segments (pre @ l @ newline # post)"
  have seg: "?s = segments pre @ l # segments post"
    using assms(1,2) by (simp add: segments_append segments_line plain_line_def)
  have "\<not> list_ex (\<lambda>l. \<not> length l < maxLine) ?s" using assms(3) by (simp add: scan_lines_def Let_def)
  then have t: "takeWhile (\<lambda>l. length l < maxLine) ?s = ?s" by (auto simp: takeWhile_eq_all_conv list_ex_iff)
  have "ls = map dropCR ?s" using assms(3) unfolding scan_lines_def Let_def t by simp
  then show ?thesis using assms(1) unfolding seg by (simp add: plain_line_def dropCR_plain)
qed

lemma list_all2_mem: "list_all2 P xs ys \<Longrightarrow> x \<in> set xs \<Longrightarrow> \<exists>y \<in> set ys. P x y"
  by (induction rule: list_all2_induct) auto

lemma find_in: "find P xs = Some x \<Longrightarrow> x \<in> set xs \<and> P x"
  by (auto simp: find_Some_iff)

lemma anchored_line: "anchored C chainID keys ls cps \<Longrightarrow> l \<in> set ls \<Longrightarrow> \<exists>c \<in> set cps. anchor_line C chainID keys l c"
  using list_all2_mem [of "anchor_line C chainID keys" ls cps l] by (simp add: anchored_def)

lemma joined_line:
  assumes "b \<in> set stored" "plain_line (ao_Line b)" "scan_lines (concat (map (\<lambda>a. ao_Line a @ [newline]) stored)) = (ls, False)"
  shows "ao_Line b \<in> set ls"
proof -
  obtain xs ys where s: "stored = xs @ b # ys" using assms(1) by (meson split_list)
  have "complete_lines (concat (map (\<lambda>a. ao_Line a @ [newline]) xs))"
    by (cases xs rule: rev_cases) (simp_all add: complete_lines_def)
  from scanned_line [OF assms(2) this] assms(3) show ?thesis by (simp add: s)
qed

lemma signed_checkpoint_only:
  assumes "checkpoint_Sign C mk kid c = Inr sg" "signed_Line C sg = Inr line" "jcs_ok (jcs C)" "json_ok (json_of_checkpoint c)"
    and "anchor_line C chainID keys line c'"
  shows "c' = c"
proof -
  obtain payload where pl: "checkpoint_ok c" "SignPayload C mk kid payload = Inr sg"
    "canonical_Encode (jcs C) (json_of_checkpoint c) = Inr payload"
    using assms(1) by (auto simp: checkpoint_Sign_def)
  have "ParseLine C line = Inr sg" using SignPayload_line [OF assms(3) pl(2)] assms(2) by auto
  moreover have "DecodeStrict (jcs C) dec_checkpoint json_of_checkpoint payload = Inr c"
    using assms(4) json_safe_checkpoint [OF pl(1)] pl(3) dec_checkpoint_sorted
    by (intro DecodeStrict_Encode [OF assms(3)]) auto
  moreover have "b64_decode (s_payload sg) = Some payload"
    using pl(2) by (auto simp: SignPayload_Inr b64_decode_encode)
  ultimately show ?thesis
    using assms(5) by (auto simp: anchor_line_def checkpoint_Verify_Inr VerifyPayload_Inr)
qed

text \<open>
  C17: truncating or rewriting the log below a checkpoint in the write-once store is always found out: once the
  checkpoint over some lines was published under a name that held no object before, then, until its retention ends,
  whatever anyone does to the store with its credentials and whatever file the log is now, a run of the verifier that reads
  the store and exits with status 0 read a log that begins with those lines, unless two strings hashed for the trees collide.
\<close>

theorem published_checkpoint_binds_verifier:
  assumes "builder_Checkpoint C (build C (an_ChainID a) lines0) ts = Inr c" "checkpoint_Sign C mk kid c = Inr sg"
    and "jcs_ok (jcs C)" "json_ok (json_of_checkpoint c)" "signed_Line C sg = Inr line" "plain_line line"
    and "anchor_Publish C md5 (fake_send md5 (sum256 C) now0) s0 a now1 (Some c) (Some sg) = (s1, Inr ())"
    and "fake_ok s0" "fake_latest s0 (ObjectName (an_Prefix a) (an_ChainID a) (c_size c)) = None"
    and "fake_run md5 (sum256 C) U s1 t" "U \<le> whole_s (now1 + an_Retention a)" "0 < fk_pageMax t"
    and "\<forall>client. w_send W client = fake_send md5 (sum256 C) now2" "\<not> fl_version f" "sf_set (fl_store f)"
    and "sf_prefix (fl_store f) = an_Prefix a" "fl_chain f = an_ChainID a"
    and "verify_run C W (Some f) t = (t', exitVerified, out)" "os_ReadFile (w_fs W) (fl_log f) = Some log"
    and "no_collision (sha256 C) (tree_pre (sha256 C) lines0 \<union>
      tree_pre (sha256 C) (take (length lines0) (fst (scan_lines log))))"
  shows "take (length lines0) (fst (scan_lines log)) = lines0"
proof -
  obtain kr store cps revs es where "accepted_run C W f t t' out kr store cps revs log es"
    using run_accepts [OF assms(18,14)] assms(19) by (auto simp: accepted_run_def)
  then obtain labels res1 where run: "prepare C W f = Inr (kr, store)"
    "read_anchors C W f t store (zero_result (fl_chain f)) (ring_resolve kr) = (t', Inr (cps, labels, res1))"
    "scan_lines log = (map e_line es, False)" "\<forall>c \<in> set cps. cp_matches C (fl_chain f) (map e_line es) c"
    unfolding accepted_run_def by blast
  obtain client where "store = Some client"
    using open_store_Some [OF assms(15) prepare_Inr(1) [OF run(1)]] by blast
  then obtain fileCps stored nts storeCps where st:
    "s3_Read (w_send W client) t (sf_prefix (fl_store f)) (fl_chain f) (w_now W) = (t', Inr (stored, nts))"
    "ReadVerified C (concat (map (\<lambda>a. ao_Line a @ [newline]) stored)) (fl_chain f) (ring_resolve kr) = Inr storeCps"
    "cps = verify_merge fileCps storeCps"
    using run(2) by (auto elim: read_anchors_store)
  have size: "1 \<le> c_size c" "c_size c < 2 ^ 63"
    using builder_Checkpoint_commits [OF assms(1)] by (auto simp: checkpoint_ok_def)
  have "s3_Read (fake_send md5 (sum256 C) now2) t (an_Prefix a) (an_ChainID a) (w_now W) = (t', Inr (stored, nts))"
    using st(1) assms(13,16,17) by simp
  from published_read [OF assms(7-9) size assms(10-12) this]
  obtain b where b: "b \<in> set stored" "ao_Line b = line" using assms(5) by auto
  have an: "anchored C (fl_chain f) (ring_resolve kr) (fst (scan_lines (concat (map (\<lambda>a. ao_Line a @ [newline]) stored)))) storeCps"
    by (rule ReadVerified_anchored [OF st(2)])
  have "line \<in> set (fst (scan_lines (concat (map (\<lambda>a. ao_Line a @ [newline]) stored))))"
    using joined_line [OF b(1), of "fst (scan_lines (concat (map (\<lambda>a. ao_Line a @ [newline]) stored)))"] b(2) assms(6) st(2)
    by (simp add: ReadVerified_Inr prod_eq_iff)
  then obtain c' where c': "c' \<in> set storeCps" "anchor_line C (fl_chain f) (ring_resolve kr) line c'"
    using anchored_line [OF an] by blast
  have "c' = c" by (rule signed_checkpoint_only [OF assms(2,5,3,4) c'(2)])
  then have "c \<in> set cps" using in_verify_merge(1) [OF anchored_sizes [OF an] c'(1)] st(3) by simp
  then have "cp_matches C (fl_chain f) (map e_line es) c" using run(4) by blast
  from matching_prefix [OF this assms(1)] assms(20) run(3) show ?thesis by simp
qed


text \<open>An object of the store that passes holds exactly one line: the loop would run past the end otherwise.\<close>

lemma check_stored_Inr:
  "check_stored skew fileLines stored cps = Inr () \<Longrightarrow> length cps \<le> length stored \<and>
     (\<forall>i < length cps. c_size (cps ! i) = ao_Size (stored ! i) \<and>
        (\<exists>made. parse_ts (c_ts (cps ! i)) = Some made \<and> made \<le> ao_StoredAt (stored ! i) + skew) \<and>
        (\<forall>l. fileLines (c_size (cps ! i)) = Some l \<longrightarrow> l = ao_Line (stored ! i)))"
proof (induction skew fileLines stored cps rule: check_stored.induct)
  case (3 skew fileLines a stored c cs)
  then have "check_stored skew fileLines stored cs = Inr ()" "c_size c = ao_Size a"
    "\<exists>made. parse_ts (c_ts c) = Some made \<and> made \<le> ao_StoredAt a + skew"
    "\<forall>l. fileLines (c_size c) = Some l \<longrightarrow> l = ao_Line a"
    by (auto split: if_splits option.splits)
  with 3 show ?case by (fastforce simp: nth_Cons less_Suc_eq_0_disj split: if_splits option.splits)
qed auto

lemma segments_nonempty: "s \<noteq> [] \<Longrightarrow> segments s \<noteq> []"
  by (cases s rule: segments.cases) (auto split: list.splits)

lemma segments_one:
  assumes "length (segments (l @ [newline])) = 1"
  shows "segments (l @ [newline]) = [l]"
proof (cases "newline \<in> set l")
  case True
  then obtain x y where l: "l = x @ newline # y" "newline \<notin> set x" by (meson split_list_first)
  then have "segments (l @ [newline]) = x # segments (y @ [newline])" by (simp add: segments_line)
  with assms segments_nonempty [of "y @ [newline]"] show ?thesis by simp
next
  case False
  then show ?thesis using segments_line [of l "[]"] by simp
qed

lemma segments_joined:
  "segments (concat (map (\<lambda>l. l @ [newline]) ls)) = concat (map (\<lambda>l. segments (l @ [newline])) ls)"
proof (induction ls)
  case (Cons l ls)
  have "segments ((l @ [newline]) @ concat (map (\<lambda>l. l @ [newline]) ls)) = segments (l @ [newline]) @ segments (concat (map (\<lambda>l. l @ [newline]) ls))"
    by (rule segments_append) (simp add: complete_lines_def)
  then show ?case by (simp only: list.map concat.simps Cons)
qed simp

lemma one_line_each:
  assumes "length (segments (concat (map (\<lambda>l. l @ [newline]) ls))) \<le> length ls"
  shows "segments (concat (map (\<lambda>l. l @ [newline]) ls)) = ls"
  using assms
proof (induction ls)
  case (Cons l ls)
  let ?n = "length (segments (concat (map (\<lambda>l. l @ [newline]) ls)))"
  have one: "1 \<le> length (segments (l @ [newline]))" for l using segments_nonempty [of "l @ [newline]"] by (cases "segments (l @ [newline])") simp_all
  have ge: "length ks \<le> length (segments (concat (map (\<lambda>l. l @ [newline]) ks)))" for ks
    unfolding segments_joined
  proof (induction ks)
    case (Cons k ks)
    with one [of k] show ?case by (simp only: list.map concat.simps length_append list.size)
  qed simp
  have "length (segments (l @ [newline])) + ?n \<le> Suc (length ls)"
    using Cons.prems unfolding segments_joined by (simp only: list.map concat.simps length_append list.size)
  then have n: "length (segments (l @ [newline])) = 1" "?n \<le> length ls" using ge [of ls] one [of l] by linarith+
  have "concat (map (\<lambda>l. segments (l @ [newline])) ls) = ls" using Cons.IH [OF n(2)] unfolding segments_joined .
  then show ?case unfolding segments_joined using segments_one [OF n(1)] by (simp only: list.map concat.simps append.simps)
qed simp

definition object_holds :: "'x crypto_scheme \<Rightarrow> string \<Rightarrow> key_resolver \<Rightarrow> int \<Rightarrow> anchored_object \<Rightarrow> checkpoint \<Rightarrow> bool" where
  "object_holds C chainID keys skew a c \<longleftrightarrow> anchor_line C chainID keys (dropCR (ao_Line a)) c \<and> c_size c = ao_Size a \<and>
     (\<exists>made. parse_ts (c_ts c) = Some made \<and> made \<le> ao_StoredAt a + skew)"

lemma stored_checkpoints:
  assumes "ReadVerified C (concat (map (\<lambda>a. ao_Line a @ [newline]) stored)) chainID keys = Inr cps"
    and "check_stored skew fileLines stored cps = Inr ()"
  shows "list_all2 (object_holds C chainID keys skew) stored cps"
proof -
  let ?j = "concat (map (\<lambda>l. l @ [newline]) (map ao_Line stored))"
  have j: "concat (map (\<lambda>a. ao_Line a @ [newline]) stored) = ?j" by (simp add: comp_def)
  have an: "list_all2 (anchor_line C chainID keys) (fst (scan_lines ?j)) cps" "\<not> snd (scan_lines ?j)"
    using assms(1) ReadVerified_anchored [OF assms(1)] unfolding j by (simp_all add: anchored_def ReadVerified_Inr)
  have t: "takeWhile (\<lambda>l. length l < maxLine) (segments ?j) = segments ?j"
    using an(2) by (auto simp: scan_lines_def Let_def takeWhile_eq_all_conv list_ex_iff)
  have ls: "fst (scan_lines ?j) = map dropCR (segments ?j)" unfolding scan_lines_def Let_def t by simp
  have "length (segments ?j) \<le> length (map ao_Line stored)"
    using list_all2_lengthD [OF an(1)] check_stored_Inr [OF assms(2)] unfolding ls by simp
  from one_line_each [OF this] ls have "list_all2 (anchor_line C chainID keys) (map (dropCR \<circ> ao_Line) stored) cps"
    using an(1) by simp
  then show ?thesis
    using check_stored_Inr [OF assms(2)] by (simp add: list_all2_conv_all_nth object_holds_def)
qed


section \<open>What exit status 0 means\<close>

lemma read_anchor_Some:
  "fl_anchor f \<noteq> [] \<Longrightarrow> read_anchor C W f res keys = Inr (cps, labels, m) \<Longrightarrow>
     \<exists>data. os_ReadFile (w_fs W) (fl_anchor f) = Some data \<and> ReadVerified C data (fl_chain f) keys = Inr cps"
  by (auto simp: read_anchor_def Let_def)

lemma read_anchors_file:
  "read_anchors C W f st None res keys = (st', Inr (cps, labels, res')) \<Longrightarrow>
     st' = st \<and> (\<exists>labels0 m. read_anchor C W f res keys = Inr (cps, labels0, m))"
  by (auto simp: read_anchors_def split: sum.splits prod.splits)

text \<open>
  The keys a run starts with are the trust file's, and the root's if one is given; verifying the log before the
  anchor only adds what the log itself certifies.  So the log is admissible under the keys a run starts with.
\<close>

definition ring_after :: "'x crypto_scheme \<Rightarrow> x509 \<Rightarrow> keyring \<Rightarrow> entry list \<Rightarrow> keyring" where
  "ring_after C X kr es = kr\<lparr>kr_rotating := map_option (\<lambda>rot. keys_after (Rotating C X) rot es) (kr_rotating kr)\<rparr>"

lemma log_ok_revoking:
  assumes "log_ok C K ks chainID [] es" "\<And>i rev. i < length es \<Longrightarrow> rev \<in> set revs \<Longrightarrow> rv_Kid rev = e_kid (es ! i) \<Longrightarrow> int i < rv_EffectiveSize rev"
  shows "log_ok C K ks chainID revs es"
  using assms by (auto simp: log_ok_def admissible_def linked_def)

lemma fresh_ring:
  assumes "learn_keys C W f b res kr0 = Inr kr" "os_ReadFile (w_fs W) (fl_log f) = Some log"
    and "scan_lines log = (map e_line es, False)" "ring_log_ok C (w_x509 W) kr (fl_chain f) revs es"
  shows "\<exists>es0. map e_line es0 = map e_line es \<and> ring_log_ok C (w_x509 W) kr0 (fl_chain f) revs es0 \<and>
    (b \<longrightarrow> ring_resolve kr = ring_resolve (ring_after C (w_x509 W) kr0 es0)) \<and> kr_rootKey kr = kr_rootKey kr0"
proof (cases "kr_rotating kr0 \<noteq> None \<and> b")
  case False
  then have kr: "kr = kr0" using assms(1) by (auto simp: learn_keys_def)
  have "b \<Longrightarrow> ring_after C (w_x509 W) kr0 es = kr0" using False by (simp add: ring_after_def)
  then show ?thesis using assms(4) kr by (intro exI [of _ es]) auto
next
  case True
  then obtain rot where rot: "kr_rotating kr0 = Some rot" and b by auto
  let ?K = "Rotating C (w_x509 W)"
  obtain rep rot' where v: "VerifyAll C log (fl_chain f) ?K rot [] [] = Inr (rep, rot')" "kr = kr0\<lparr>kr_rotating := Some rot'\<rparr>"
    using assms(1,2) True rot by (auto simp: learn_keys_def ring_verify_def open_log_Inr ebind_Inr_iff split: if_splits)
  then obtain es0 where es0: "scan_lines log = (map e_line es0, False)" "log_ok C ?K rot (fl_chain f) [] es0" "rot' = keys_after ?K rot es0"
    by (auto simp: VerifyAll_Inr verified_log_def)
  have lines: "map e_line es0 = map e_line es" using es0(1) assms(3) by simp
  then have n: "length es0 = length es" using map_eq_imp_length_eq by blast
  have ok: "log_ok C ?K rot' (fl_chain f) revs es" using assms(4) v(2) by (simp add: ring_log_ok_def)
  have "e_kid (es0 ! i) = e_kid (es ! i)" if "i < length es" for i
  proof -
    have "e_line (es0 ! i) = e_line (es ! i)" using that lines n by (metis nth_map)
    then show ?thesis using receipt_of_line [OF log_ok_authentic [OF es0(2)] log_ok_authentic [OF ok that], of i] that n by simp
  qed
  then have "log_ok C ?K rot (fl_chain f) revs es0"
    using log_ok_linked [OF ok] n by (intro log_ok_revoking [OF es0(2)]) (force simp: linked_def)
  then show ?thesis using lines v(2) es0(3) rot
    by (intro exI [of _ es0]) (simp add: ring_log_ok_def ring_after_def ring_resolve_def)
qed

text \<open>The revocations that a run enforces: those of the chain in the file, each signed by the root.\<close>

definition run_revocations :: "'x crypto_scheme \<Rightarrow> 'st world \<Rightarrow> flags \<Rightarrow> keyring \<Rightarrow> revocation list \<Rightarrow> bool" where
  "run_revocations C W f kr rs \<longleftrightarrow> (if fl_revocations f = [] then rs = []
     else \<exists>data. os_ReadFile (w_fs W) (fl_revocations f) = Some data \<and> revocation_ReadVerified C data (fl_chain f) (kr_rootKey kr) = Inr rs)"

definition revoked_of :: "revocation list \<Rightarrow> revoked list" where
  "revoked_of rs = map (\<lambda>r. \<lparr>rv_Kid = rv_kid r, rv_EffectiveSize = rv_size r\<rparr>) rs"

lemma match_one_Inr: "match_one cps r = Inr e \<Longrightarrow> ef_Kid e = rv_kid r \<and> ef_Size e = rv_size r \<and>
    (\<exists>c \<in> set cps. c_size c = rv_size r \<and> c_head c = rv_head r)"
  by (auto simp: match_one_def dest!: find_in split: option.splits if_splits)

lemma read_revocations_Inr:
  assumes "read_revocations C W f res kr cps = Inr (revs, res')"
  shows "\<exists>rs. run_revocations C W f kr rs \<and> revs = revoked_of rs \<and>
    (\<forall>r \<in> set rs. \<exists>c \<in> set cps. c_size c = rv_size r \<and> c_head c = rv_head r)"
proof (cases "fl_revocations f = []")
  case True
  then show ?thesis using assms by (auto simp: read_revocations_def run_revocations_def revoked_of_def)
next
  case False
  then obtain data rs effs where r: "os_ReadFile (w_fs W) (fl_revocations f) = Some data"
    "revocation_ReadVerified C data (fl_chain f) (kr_rootKey kr) = Inr rs" "revocation_Match rs cps = Inr effs"
    "revs = map (\<lambda>e. \<lparr>rv_Kid = ef_Kid e, rv_EffectiveSize = ef_Size e\<rparr>) effs"
    using assms by (auto simp: read_revocations_def os_Open_content [symmetric])
  note m = r(3) [unfolded revocation_Match_map]
  have "list_all2 (\<lambda>r e. \<lparr>rv_Kid = rv_kid r, rv_EffectiveSize = rv_size r\<rparr> = \<lparr>rv_Kid = ef_Kid e, rv_EffectiveSize = ef_Size e\<rparr>) rs effs"
    by (rule list_all2_mono [OF m]) (simp add: match_one_Inr)
  then have "revs = revoked_of rs" by (simp add: r(4) revoked_of_def list_eq_iff_nth_eq list_all2_conv_all_nth)
  moreover have "\<exists>c \<in> set cps. c_size c = rv_size q \<and> c_head c = rv_head q" if "q \<in> set rs" for q
    using list_all2_mem [OF m that] match_one_Inr by blast
  ultimately show ?thesis using False r(1,2) by (intro exI [of _ rs]) (auto simp: run_revocations_def)
qed

text \<open>What every run that exits with status 0 has established, with the keys it started from.\<close>

lemma run_establishes:
  assumes "verify_run C W (Some f) st = (st', exitVerified, out)" "\<not> fl_version f"
  obtains log es trusted kr0 store rs kr cps labels res1 where "os_ReadFile (w_fs W) (fl_log f) = Some log"
    "scan_lines log = (map e_line es, False)" "es \<noteq> []" "load_trust C W f = Inr trusted" "load_root W f trusted = Inr kr0"
    "open_store W f = Inr store" "run_revocations C W f kr0 rs" "ring_log_ok C (w_x509 W) kr0 (fl_chain f) (revoked_of rs) es"
    "read_anchors C W f st store (zero_result (fl_chain f)) (ring_resolve kr) = (st', Inr (cps, labels, res1))"
    "fl_anchor f \<noteq> [] \<or> store \<noteq> None \<longrightarrow> ring_resolve kr = ring_resolve (ring_after C (w_x509 W) kr0 es)"
    "\<forall>c \<in> set cps. cp_matches C (fl_chain f) (map e_line es) c"
    "\<forall>r \<in> set rs. \<exists>c \<in> set cps. c_size c = rv_size r \<and> c_head c = rv_head r"
proof -
  obtain kr store cps revs log es1 where "accepted_run C W f st st' out kr store cps revs log es1"
    using run_accepts [OF assms] by blast
  then obtain labels res1 res2 where run: "prepare C W f = Inr (kr, store)"
    "read_anchors C W f st store (zero_result (fl_chain f)) (ring_resolve kr) = (st', Inr (cps, labels, res1))"
    "read_revocations C W f (res1\<lparr>rr_Checkpoints := int (length cps)\<rparr>) kr cps = Inr (revs, res2)"
    "os_ReadFile (w_fs W) (fl_log f) = Some log" "scan_lines log = (map e_line es1, False)" "es1 \<noteq> []"
    "ring_log_ok C (w_x509 W) kr (fl_chain f) revs es1" "\<forall>c \<in> set cps. cp_matches C (fl_chain f) (map e_line es1) c"
    unfolding accepted_run_def by blast
  obtain trusted kr0 where p: "load_trust C W f = Inr trusted" "load_root W f trusted = Inr kr0"
    "learn_keys C W f (fl_anchor f \<noteq> [] \<or> store \<noteq> None) (zero_result (fl_chain f)) kr0 = Inr kr"
    using prepare_Inr(2) [OF run(1)] by blast
  obtain rs where rs: "run_revocations C W f kr rs" "revs = revoked_of rs" "\<forall>r \<in> set rs. \<exists>c \<in> set cps. c_size c = rv_size r \<and> c_head c = rv_head r"
    using read_revocations_Inr [OF run(3)] by blast
  obtain es where es: "map e_line es = map e_line es1" "ring_log_ok C (w_x509 W) kr0 (fl_chain f) revs es"
    "fl_anchor f \<noteq> [] \<or> store \<noteq> None \<longrightarrow> ring_resolve kr = ring_resolve (ring_after C (w_x509 W) kr0 es)" "kr_rootKey kr = kr_rootKey kr0"
    using fresh_ring [OF p(3) run(4,5,7)] by blast
  have "run_revocations C W f kr0 rs" using rs(1) unfolding run_revocations_def es(4) .
  moreover have "es \<noteq> []" using es(1) run(6) by auto
  ultimately show ?thesis
    using that [of log es trusted kr0 store rs kr cps labels res1] run(2,4,5,8) p(1,2) prepare_Inr(1) [OF run(1)] rs(2,3) es(1-3) by simp
qed

text \<open>
  C18: a run that exits with status 0 vouches for the log: from the keys of the trust file, or those and the root
  certificate when a root is given, every line is admissible, under the revocations of the given file; every line of an
  anchor file without a store is a signed checkpoint of the chain that the log agrees with, under these keys and those that
  the log's rotations certify; and with a store, its reading succeeded and every object it returned holds one such signed
  checkpoint of the very size that the object is named for, made no later than the store received it but for the skew.
\<close>

theorem exit_zero_vouches:
  assumes "verify_run C W (Some f) st = (st', exitVerified, out)" "\<not> fl_version f"
  shows "\<exists>log es trusted kr0 rs. os_ReadFile (w_fs W) (fl_log f) = Some log \<and> scan_lines log = (map e_line es, False) \<and> es \<noteq> [] \<and>
    load_trust C W f = Inr trusted \<and> load_root W f trusted = Inr kr0 \<and> run_revocations C W f kr0 rs \<and>
    ring_log_ok C (w_x509 W) kr0 (fl_chain f) (revoked_of rs) es \<and>
    (fl_anchor f \<noteq> [] \<and> \<not> sf_set (fl_store f) \<longrightarrow> (\<exists>data. os_ReadFile (w_fs W) (fl_anchor f) = Some data \<and>
       (\<forall>l \<in> set (fst (scan_lines data)). \<exists>c. anchor_line C (fl_chain f) (ring_resolve (ring_after C (w_x509 W) kr0 es)) l c \<and>
          cp_matches C (fl_chain f) (map e_line es) c))) \<and>
    (sf_set (fl_store f) \<longrightarrow> (\<exists>client stored nts. open_store W f = Inr (Some client) \<and>
       s3_Read (w_send W client) st (sf_prefix (fl_store f)) (fl_chain f) (w_now W) = (st', Inr (stored, nts)) \<and>
       (\<forall>a \<in> set stored. \<exists>c. object_holds C (fl_chain f) (ring_resolve (ring_after C (w_x509 W) kr0 es)) (sf_skew (fl_store f)) a c \<and>
          cp_matches C (fl_chain f) (map e_line es) c)))"
proof -
  obtain log es trusted kr0 store rs kr cps labels res1 where run: "os_ReadFile (w_fs W) (fl_log f) = Some log"
    "scan_lines log = (map e_line es, False)" "es \<noteq> []" "load_trust C W f = Inr trusted" "load_root W f trusted = Inr kr0"
    "open_store W f = Inr store" "run_revocations C W f kr0 rs" "ring_log_ok C (w_x509 W) kr0 (fl_chain f) (revoked_of rs) es"
    "read_anchors C W f st store (zero_result (fl_chain f)) (ring_resolve kr) = (st', Inr (cps, labels, res1))"
    "fl_anchor f \<noteq> [] \<or> store \<noteq> None \<longrightarrow> ring_resolve kr = ring_resolve (ring_after C (w_x509 W) kr0 es)"
    "\<forall>c \<in> set cps. cp_matches C (fl_chain f) (map e_line es) c"
    "\<forall>r \<in> set rs. \<exists>c \<in> set cps. c_size c = rv_size r \<and> c_head c = rv_head r"
    by (rule run_establishes [OF assms])
  let ?keys = "ring_resolve (ring_after C (w_x509 W) kr0 es)"
  have "\<exists>data. os_ReadFile (w_fs W) (fl_anchor f) = Some data \<and>
       (\<forall>l \<in> set (fst (scan_lines data)). \<exists>c. anchor_line C (fl_chain f) ?keys l c \<and>
          cp_matches C (fl_chain f) (map e_line es) c)" if a: "fl_anchor f \<noteq> []" "\<not> sf_set (fl_store f)"
  proof -
    have "store = None" by (rule open_store_None [OF a(2) run(6)])
    then obtain labels0 m where "read_anchor C W f (zero_result (fl_chain f)) ?keys = Inr (cps, labels0, m)"
      using run(9,10) a(1) by (auto dest: read_anchors_file)
    from read_anchor_Some [OF a(1) this] obtain data where d: "os_ReadFile (w_fs W) (fl_anchor f) = Some data"
      "ReadVerified C data (fl_chain f) ?keys = Inr cps" by blast
    show ?thesis using d(1) anchored_line [OF ReadVerified_anchored [OF d(2)]] run(11) by blast
  qed
  moreover have "\<exists>client stored nts. open_store W f = Inr (Some client) \<and>
       s3_Read (w_send W client) st (sf_prefix (fl_store f)) (fl_chain f) (w_now W) = (st', Inr (stored, nts)) \<and>
       (\<forall>a \<in> set stored. \<exists>c. object_holds C (fl_chain f) ?keys (sf_skew (fl_store f)) a c \<and>
          cp_matches C (fl_chain f) (map e_line es) c)" if s: "sf_set (fl_store f)"
  proof -
    obtain client where client: "store = Some client" using open_store_Some [OF s run(6)] by blast
    then have "read_anchors C W f st (Some client) (zero_result (fl_chain f)) ?keys = (st', Inr (cps, labels, res1))"
      using run(9,10) by simp
    then obtain fileCps labels0 fileLines stored nts storeCps where st:
      "s3_Read (w_send W client) st (sf_prefix (fl_store f)) (fl_chain f) (w_now W) = (st', Inr (stored, nts))"
      "ReadVerified C (concat (map (\<lambda>a. ao_Line a @ [newline]) stored)) (fl_chain f) ?keys = Inr storeCps"
      "check_stored (sf_skew (fl_store f)) fileLines stored storeCps = Inr ()" "cps = verify_merge fileCps storeCps"
      by (rule read_anchors_store)
    have "set storeCps \<subseteq> set cps"
      using in_verify_merge(1) [OF anchored_sizes [OF ReadVerified_anchored [OF st(2)]]] st(4) by blast
    then have "\<exists>c. object_holds C (fl_chain f) ?keys (sf_skew (fl_store f)) a c \<and>
        cp_matches C (fl_chain f) (map e_line es) c" if "a \<in> set stored" for a
      using list_all2_mem [OF stored_checkpoints [OF st(2,3)] that] run(11) by blast
    with st(1) client run(6) show ?thesis by blast
  qed
  ultimately show ?thesis using run(1-5,7,8) by blast
qed

lemma load_root_key:
  assumes "load_root W f trusted = Inr kr" "fl_root f \<noteq> []"
  shows "\<exists>der cert pub. ReadCertificate (w_x509 W) (w_pem W) (w_fs W) (fl_root f) = Inr der \<and> x_Parse (w_x509 W) der = Some cert \<and>
    ct_MLDSA cert = Some pub \<and> kr_rootKey kr = Some pub"
  using assms by (auto simp: load_root_def revocation_RootKey_def)

text \<open>
  C20: published revocations are enforced: when a run with a file of revocations exits with status 0, the whole
  file was read and verified under the key of the given root certificate; the log is admissible from the keys of the trust
  file and the root, so that each line verifies under the key of the key ID that it names; and every revocation of the chain
  names the digest of a line of the log at its size, and no line at or beyond that size is signed with the key it revokes.
\<close>

theorem revocations_enforced:
  assumes "verify_run C W (Some f) st = (st', exitVerified, out)" "\<not> fl_version f" "fl_revocations f \<noteq> []"
  shows "\<exists>log es trusted kr0 data der cert rs. os_ReadFile (w_fs W) (fl_log f) = Some log \<and> scan_lines log = (map e_line es, False) \<and>
    load_trust C W f = Inr trusted \<and> load_root W f trusted = Inr kr0 \<and>
    ring_log_ok C (w_x509 W) kr0 (fl_chain f) (revoked_of rs) es \<and>
    ReadCertificate (w_x509 W) (w_pem W) (w_fs W) (fl_root f) = Inr der \<and> x_Parse (w_x509 W) der = Some cert \<and>
    os_ReadFile (w_fs W) (fl_revocations f) = Some data \<and>
    revocation_ReadVerified C data (fl_chain f) (ct_MLDSA cert) = Inr rs \<and>
    (\<forall>r \<in> set rs. rv_head r = digest_SHA256 (sha256 C) (e_line (es ! nat (rv_size r - 1))) \<and>
       (\<forall>i < length es. int i \<ge> rv_size r \<longrightarrow> (\<exists>sg. ParseLine C (e_line (es ! i)) = Inr sg \<and>
          signed_KeyID C sg = Inr (e_kid (es ! i)) \<and> e_kid (es ! i) \<noteq> rv_kid r \<and>
          receipt_Verify C (e_pub (es ! i)) sg = Inr (e_rcpt (es ! i)))))"
proof -
  obtain log es trusted kr0 store rs cps where run: "os_ReadFile (w_fs W) (fl_log f) = Some log"
    "scan_lines log = (map e_line es, False)" "load_trust C W f = Inr trusted" "load_root W f trusted = Inr kr0"
    "open_store W f = Inr store" "run_revocations C W f kr0 rs" "ring_log_ok C (w_x509 W) kr0 (fl_chain f) (revoked_of rs) es"
    "\<forall>c \<in> set cps. cp_matches C (fl_chain f) (map e_line es) c"
    "\<forall>r \<in> set rs. \<exists>c \<in> set cps. c_size c = rv_size r \<and> c_head c = rv_head r"
    using run_establishes [OF assms(1,2)] by metis
  obtain data where r: "os_ReadFile (w_fs W) (fl_revocations f) = Some data"
    "revocation_ReadVerified C data (fl_chain f) (kr_rootKey kr0) = Inr rs"
    using run(6) assms(3) by (auto simp: run_revocations_def)
  have "fl_root f \<noteq> []"
  proof
    assume "fl_root f = []"
    then have "prepare C W f \<notin> range Inr" using assms(3) by (auto simp: prepare_def Let_def)
    then show False using run_accepts [OF assms(1,2)] by (auto simp: accepted_run_def)
  qed
  then obtain der cert pub where d: "ReadCertificate (w_x509 W) (w_pem W) (w_fs W) (fl_root f) = Inr der" "x_Parse (w_x509 W) der = Some cert"
    "ct_MLDSA cert = Some pub" "kr_rootKey kr0 = Some pub"
    using load_root_key [OF run(4)] by blast
  have "rv_head q = digest_SHA256 (sha256 C) (e_line (es ! nat (rv_size q - 1)))" if q: "q \<in> set rs" for q
  proof -
    obtain c where c: "c \<in> set cps" "c_size c = rv_size q" "c_head c = rv_head q" using run(9) q by blast
    have "efold (read_revocation C (fl_chain f) (kr_rootKey kr0)) [] (fst (scan_lines data)) = Inr rs"
      using r(2) by (simp add: revocation_ReadVerified_Inr)
    from read_revocations_signed [OF this] q have "root_signed C (kr_rootKey kr0) q" by blast
    then have "revocation_ok q" by (cases "kr_rootKey kr0") (auto simp: root_signed_def revocation_Verify_Inr revocation_Verify_def)
    then have "1 \<le> rv_size q" by (simp add: revocation_ok_def)
    moreover have "cp_matches C (fl_chain f) (map e_line es) c" using run(8) c(1) by blast
    ultimately show ?thesis using c(2,3) by (auto simp: cp_matches_def nth_map)
  qed
  moreover have "\<exists>sg. ParseLine C (e_line (es ! i)) = Inr sg \<and> signed_KeyID C sg = Inr (e_kid (es ! i)) \<and> e_kid (es ! i) \<noteq> rv_kid q \<and>
      receipt_Verify C (e_pub (es ! i)) sg = Inr (e_rcpt (es ! i))" if q: "q \<in> set rs" and i: "i < length es" "int i \<ge> rv_size q" for q i
  proof -
    have "\<lparr>rv_Kid = rv_kid q, rv_EffectiveSize = rv_size q\<rparr> \<in> set (revoked_of rs)" using q by (simp add: revoked_of_def)
    then have "e_kid (es ! i) \<noteq> rv_kid q" using ring_log_ok_linked [OF run(7) i(1)] i by (auto simp: linked_def)
    with ring_log_ok_authentic [OF run(7) i(1)] show ?thesis by blast
  qed
  ultimately show ?thesis
    by (intro exI [of _ log] exI [of _ es] exI [of _ trusted] exI [of _ kr0] exI [of _ data] exI [of _ der] exI [of _ cert] exI [of _ rs])
      (use run(1-4,7) r d in simp)
qed

section \<open>Exit status and report\<close>

definition stop_ok :: "stop \<Rightarrow> bool" where
  "stop_ok s \<longleftrightarrow> (case s of StopFailed res \<Rightarrow> \<not> rr_Verified res \<and> rr_Stage res \<noteq> [] | _ \<Rightarrow> True)"

lemma stop_ok_simps [simp]: "stop_ok StopUsage" "stop_ok StopPanic"
    "stop_ok (StopFailed res) \<longleftrightarrow> \<not> rr_Verified res \<and> rr_Stage res \<noteq> []"
    "stop_ok (failed res stage e) \<longleftrightarrow> \<not> rr_Verified res \<and> stage \<noteq> []"
  by (simp_all add: stop_ok_def failed_def)

lemma open_log_stop: "open_log W f res = Inl s \<Longrightarrow> \<not> rr_Verified res \<Longrightarrow> stop_ok s"
  by (auto simp: open_log_def split: option.splits)

lemma prepare_stop: "prepare C W f = Inl s \<Longrightarrow> stop_ok s"
  by (auto simp: prepare_def load_trust_def open_store_def load_root_def learn_keys_def open_log_def zero_result_def Let_def ebind_Inl_iff
      split: if_splits option.splits)

lemma read_anchors_stop:
  "read_anchors C W f st store res keys = (st', x) \<Longrightarrow> \<not> rr_Verified res \<Longrightarrow>
     (case x of Inl s \<Rightarrow> stop_ok s | Inr (cps, labels, res') \<Rightarrow> \<not> rr_Verified res')"
  by (auto simp: read_anchors_def read_anchor_def Let_def ebind_Inl_iff if_Inl_Inl
      split: if_splits sum.splits prod.splits option.splits read_store_error.splits)

lemma verify_log_stop:
  assumes "verify_log C W f have_anchor kr (cps, labels, res) = x" "\<not> rr_Verified res"
  shows "case x of Inl s \<Rightarrow> stop_ok s | Inr res' \<Rightarrow> rr_Verified res'"
proof -
  have rv: "case read_revocations C W f res0 kr cps of Inl s \<Rightarrow> stop_ok s | Inr (revs, res') \<Rightarrow> \<not> rr_Verified res'"
    if "\<not> rr_Verified res0" for res0
    using that by (auto simp: read_revocations_def ebind_Inl_iff split: sum.split prod.split)
  have ts: "case check_timestamps C W f have_anchor labels res0 of Inl s \<Rightarrow> stop_ok s | Inr res' \<Rightarrow> \<not> rr_Verified res'"
    if "\<not> rr_Verified res0" for res0
    using that by (auto simp: check_timestamps_def ebind_Inl_iff split: sum.split prod.split)
  have fin: "rr_Verified (finish res0 rep cps)" for res0 rep
    by (simp add: finish_def Let_def split: option.split)
  let ?res1 = "res\<lparr>rr_Checkpoints := int (length cps)\<rparr>"
  have n1: "\<not> rr_Verified ?res1" using assms(2) by simp
  show ?thesis
  proof (cases "read_revocations C W f ?res1 kr cps")
    case (Inl s)
    then show ?thesis using assms(1) rv [OF n1] by (auto simp: verify_log_def Let_def)
  next
    case r1: (Inr y)
    obtain revs res2 where y: "y = (revs, res2)" by (cases y)
    then have n2: "\<not> rr_Verified res2" using rv [OF n1] r1 by simp
    show ?thesis
    proof (cases "check_timestamps C W f have_anchor labels res2")
      case i2: (Inl s)
      have "x = Inl s" using assms(1) unfolding verify_log_def Let_def by (simp add: r1 y i2)
      then show ?thesis using ts [OF n2] i2 by simp
    next
      case r3: (Inr res3)
      then have n3: "\<not> rr_Verified res3" using ts [OF n2] by simp
      show ?thesis
        using assms(1) n3 fin open_log_stop [of W f res3] unfolding verify_log_def Let_def
        by (auto simp: r1 y r3 ebind_Inl_iff split: sum.splits prod.splits)
    qed
  qed
qed

text \<open>
  C40: the exit status says what the report says: the status is 0, 1 or 2; with 2 there is no report; and a report
  says that the log verified exactly when the status is 0, and otherwise names the stage that failed.
\<close>

theorem exit_status_matches_report:
  assumes "verify_run C W fl st = (st', code, out)"
  shows "code \<in> {0, 1, 2} \<and> (code = 2 \<longrightarrow> out = NoOutput) \<and>
    (\<forall>res warning. out = JSONReport res \<or> out = TextReport res warning \<longrightarrow>
       (rr_Verified res \<longleftrightarrow> code = 0) \<and> (code = 1 \<longrightarrow> rr_Stage res \<noteq> []))"
proof -
  have stages: "case x of Inl s \<Rightarrow> stop_ok s | Inr res' \<Rightarrow> rr_Verified res'" if x: "run_stages C W f st = (st'', x)" for f st'' x
  proof (cases "prepare C W f")
    case (Inl s)
    then show ?thesis using x prepare_stop by (auto simp: run_stages_def)
  next
    case (Inr y)
    obtain kr store where y: "y = (kr, store)" by (cases y)
    obtain st1 z where z: "read_anchors C W f st store (zero_result (fl_chain f)) (ring_resolve kr) = (st1, z)" by fastforce
    note zs = read_anchors_stop [OF z]
    show ?thesis
    proof (cases z)
      case (Inl s)
      then show ?thesis using x zs \<open>prepare C W f = Inr y\<close> y z by (auto simp: run_stages_def zero_result_def)
    next
      case zr: (Inr w)
      obtain cps labels res where w: "w = (cps, labels, res)" by (cases w)
      then have "\<not> rr_Verified res" using zs zr by (simp add: zero_result_def)
      from verify_log_stop [OF refl this] x show ?thesis
        using Inr y z zr w by (auto simp: run_stages_def)
    qed
  qed
  show ?thesis
  proof (cases fl)
    case (Some f)
    obtain st'' x where x: "run_stages C W f st = (st'', x)" by fastforce
    show ?thesis
      using assms stages [OF x] Some x
      by (auto simp: verify_run_def exit_of_def emit_def exitUsage_def exitVerified_def exitFailed_def
          split: if_splits sum.splits stop.splits)
  qed (use assms in \<open>simp add: verify_run_def exitUsage_def\<close>)
qed

text \<open>
  C22: an object of two lines crashes the verifier: when the store returns one object whose body is two
  lines, each a signed checkpoint of the chain in growing order, the first of the size of the object's name,
  reading the store indexes past its objects and the run panics instead of reporting a failure.
\<close>

theorem two_line_object_panics:
  assumes "s3_Read (w_send W client) st (sf_prefix f) chainID (w_now W) = (st', Inr ([a], nts))"
    and "ao_Line a = l1 @ newline # l2" "plain_line l1" "plain_line l2"
    and "anchor_line C chainID keys l1 c1" "anchor_line C chainID keys l2 c2" "cp_before c1 c2"
    and "c_size c1 = ao_Size a" "parse_ts (c_ts c1) = Some made" "made \<le> ao_StoredAt a + sf_skew f"
  shows "readStore C W f client st chainID keys Map.empty = (st', Inl IndexPanic)"
proof -
  have "concat (map (\<lambda>a. ao_Line a @ [newline]) [a]) = unlines [l1, l2]" using assms(2) by (simp add: unlines_def)
  moreover have "scan_lines (unlines [l1, l2]) = ([l1, l2], False)" using assms(3,4) by (intro scan_unlines) simp
  moreover have "efold (read_anchor_line C chainID keys) [] [l1, l2] = Inr [c1, c2]"
    using assms(5-7) by (auto simp: read_anchor_line_Inr)
  ultimately have "ReadVerified C (concat (map (\<lambda>a. ao_Line a @ [newline]) [a])) chainID keys = Inr [c1, c2]"
    by (simp add: ReadVerified_Inr)
  moreover have "check_stored (sf_skew f) Map.empty [a] [c1, c2] = Inl IndexPanic"
    using assms(8-10) by simp
  ultimately show ?thesis using assms(1) by (simp add: readStore_def Let_def)
qed

end
