(* ===== verification/AnchorWitnesses.thy ===== *)
theory AnchorWitnesses
  imports WardenVerify ComponentWitnesses
begin

text \<open>
  Concrete runs of the write-once store, of revocations and of the verifier program, at which the theorems about
  them are applied.
\<close>

section \<open>A signed checkpoint\<close>

definition cp_ts :: string where "cp_ts = ''2026-01-02T03:04:05.000Z''"

lemma sample_cp_fields:
  "c_chain_id sample_cp = ''c1''" "c_size sample_cp = 1" "c_ts sample_cp = cp_ts" "checkpoint_ok sample_cp"
  "c_domain sample_cp = checkpoint_Domain" "c_v sample_cp = 1"
proof -
  have ok: "commits toy ''c1'' sample_cp [e_line sample_e1]" "checkpoint_ok sample_cp"
    using builder_Checkpoint_commits [OF sample_cp_eq] by simp_all
  show "c_chain_id sample_cp = ''c1''" "c_size sample_cp = 1" using ok(1) by (simp_all add: commits_def)
  show "checkpoint_ok sample_cp" by (rule ok(2))
  then show "c_domain sample_cp = checkpoint_Domain" "c_v sample_cp = 1" by (simp_all add: checkpoint_ok_def)
  show "c_ts sample_cp = cp_ts"
    using sample_cp_eq by (simp add: builder_Checkpoint_def build_eq Let_def cp_ts_def) (metis checkpoint.select_convs(7))
qed

lemma cp_json:
  assumes "checkpoint_ok c" "c_chain_id c = ''c1''" "c_ts c = cp_ts" "c_size c = 1 \<or> c_size c = 2"
  shows "json_ok (json_of_checkpoint c)" "json_safe (json_of_checkpoint c)" "weight (json_of_checkpoint c) < 4000"
proof -
  have d: "digest_Valid (c_root c)" "digest_Valid (c_head c)" and f: "c_domain c = checkpoint_Domain" "c_v c = 1"
    using assms(1) by (simp_all add: checkpoint_ok_def)
  show "json_safe (json_of_checkpoint c)" by (rule json_safe_checkpoint [OF assms(1)])
  show "json_ok (json_of_checkpoint c)"
    using utf8_valid_ascii [OF digest_Valid_ascii [OF d(1)]] utf8_valid_ascii [OF digest_Valid_ascii [OF d(2)]]
    by (simp add: json_of_checkpoint_def assms(2,3) f checkpoint_Domain_def cp_ts_def utf8_valid_ascii)
  have "length (dec_digits 2) = 1" by code_simp
  then show "weight (json_of_checkpoint c) < 4000"
    using digest_Valid_length [OF d(1)] digest_Valid_length [OF d(2)] assms(4)
    by (auto simp: json_of_checkpoint_def assms(2,3) f checkpoint_Domain_def cp_ts_def show_int_def dec_digits_01)
qed

lemma toy_SignPayload:
  assumes "canonical_Check (jcs toy) payload = Inr ()"
  shows "\<exists>s. SignPayload toy (Some toy_signer) ''k1'' payload = Inr s"
proof -
  obtain hdr where "canonical_Encode (jcs toy) (json_of_header (new_header ''k1'')) = Inr hdr"
    using canonical_Encode_ok [OF toy_ok(2), of "json_of_header (new_header ''k1'')"]
    by (auto simp: json_header_ok utf8_valid_ascii)
  then show ?thesis using assms by (simp add: SignPayload_def Let_def id_ok_ascii)
qed

definition cp_signed :: "checkpoint \<Rightarrow> signed" where
  "cp_signed c = (case checkpoint_Sign toy (Some toy_signer) ''k1'' c of Inr s \<Rightarrow> s)"

definition cp_line :: "checkpoint \<Rightarrow> bytes" where
  "cp_line c = (case signed_Line toy (cp_signed c) of Inr l \<Rightarrow> l)"

lemma signed_short:
  assumes "SignPayload toy (Some toy_signer) ''k1'' payload = Inr s" "signed_Line toy s = Inr line" "length payload < 4000"
  shows "length line < 500000"
proof -
  obtain hdr sig where hd: "canonical_Encode (jcs toy) (json_of_header (new_header ''k1'')) = Inr hdr"
    "sig = toy_sig MLDSA65 @ replicate 64 (CHR ''f'')"
    "s = \<lparr>s_payload = b64_encode payload, s_protected = b64_encode hdr, s_signature = b64_encode sig\<rparr>"
    using assms(1) by (auto simp: SignPayload_Inr)
  have h: "length hdr < 2000"
    by (rule encoded_length [OF _ hd(1)]) (simp_all add: json_header_ok utf8_valid_ascii json_of_header_def new_header_def Alg_def AlgRef_def)
  have "json_ok (json_of_signed s)" using hd(3) by (intro json_signed_ok) simp_all
  moreover have "weight (json_of_signed s) < 500000"
    using assms(3) h length_b64_encode [of payload] length_b64_encode [of hdr] length_b64_encode [of sig]
    unfolding hd(3) by (simp add: json_of_signed_def hd(2) toy_sig_def)
  ultimately show ?thesis using encoded_length [of "json_of_signed s" line 500000] assms(2) by (simp add: signed_Line_def)
qed

lemma cp_signed:
  assumes "checkpoint_ok c" "c_chain_id c = ''c1''" "c_ts c = cp_ts" "c_size c = 1 \<or> c_size c = 2"
  shows "checkpoint_Sign toy (Some toy_signer) ''k1'' c = Inr (cp_signed c)" "signed_Line toy (cp_signed c) = Inr (cp_line c)"
    "plain_line (cp_line c)" "length (cp_line c) < 500000"
proof -
  note j = cp_json [OF assms]
  obtain payload where pl: "canonical_Encode (jcs toy) (json_of_checkpoint c) = Inr payload" "canonical_Check (jcs toy) payload = Inr ()"
    using canonical_Encode_ok [OF toy_ok(2) j(1,2)] by blast
  obtain s where s: "SignPayload toy (Some toy_signer) ''k1'' payload = Inr s" using toy_SignPayload [OF pl(2)] by blast
  have ck: "checkpoint_Sign toy (Some toy_signer) ''k1'' c = Inr s"
    using pl s assms(1) by (simp add: checkpoint_Sign_def)
  then show sg: "checkpoint_Sign toy (Some toy_signer) ''k1'' c = Inr (cp_signed c)" by (simp add: cp_signed_def)
  then have ss: "s = cp_signed c" using ck by simp
  obtain line where l: "signed_Line toy (cp_signed c) = Inr line" using SignPayload_line [OF toy_ok(2) s] ss by blast
  then show ln: "signed_Line toy (cp_signed c) = Inr (cp_line c)" by (simp add: cp_line_def)
  have p: "length payload < 4000" by (rule encoded_length [OF j(1) pl(1) j(3)])
  show "length (cp_line c) < 500000" by (rule signed_short [OF s [unfolded ss] ln p])
  show "plain_line (cp_line c)" by (rule toy_signed_plain [OF s [unfolded ss] ln]) (use p in simp)
qed

text \<open>Whoever trusts the sample's key reads the line as the checkpoint.\<close>

lemma cp_anchor_line:
  assumes "checkpoint_ok c" "c_chain_id c = ''c1''" "c_ts c = cp_ts" "c_size c = 1 \<or> c_size c = 2" "keys ''k1'' = Some toy_public"
  shows "anchor_line toy ''c1'' keys (cp_line c) c"
proof -
  note sg = cp_signed [OF assms(1-4)]
  obtain payload where pl: "SignPayload toy (Some toy_signer) ''k1'' payload = Inr (cp_signed c)"
    using sg(1) by (auto simp: checkpoint_Sign_def)
  have "ParseLine toy (cp_line c) = Inr (cp_signed c)" using SignPayload_line [OF toy_ok(2) pl] sg(2) by auto
  moreover have "signed_KeyID toy (cp_signed c) = Inr ''k1''"
    using SignPayload_header [OF toy_ok(2) pl] by (simp add: signed_KeyID_def new_header_def utf8_valid_ascii)
  moreover have "checkpoint_Verify toy toy_public (cp_signed c) = Inr c"
    by (rule file_keys.checkpoint_Sign_verifies [OF toy_signer_ok toy_ok(2) _ cp_json(1) [OF assms(1-4)] sg(1)]) (simp_all add: utf8_valid_ascii)
  ultimately show ?thesis using assms(2,5) by (auto simp: anchor_line_def)
qed

abbreviation sample_sg :: signed where "sample_sg \<equiv> cp_signed sample_cp"
abbreviation sample_line :: bytes where "sample_line \<equiv> cp_line sample_cp"

lemma sample_cp_facts: "checkpoint_ok sample_cp" "c_chain_id sample_cp = ''c1''" "c_ts sample_cp = cp_ts" "c_size sample_cp = 1 \<or> c_size sample_cp = 2"
  by (simp_all add: sample_cp_fields)

lemmas sample_sg = cp_signed [OF sample_cp_facts]

definition t0 :: time where "t0 = (case parse_ts cp_ts of Some t \<Rightarrow> t)"

lemma t0: "parse_ts cp_ts = Some t0"
  using sample_ts by (auto simp: t0_def cp_ts_def valid_ts_def split: option.splits)

section \<open>It is published\<close>

definition retention :: int where "retention = 1000 * ns_per_s"

definition sample_anchor :: s3_anchor where
  "sample_anchor = \<lparr>an_Prefix = [], an_ChainID = ''c1'', an_Retention = retention\<rparr>"

abbreviation toy_md5 :: "bytes \<Rightarrow> bytes" where "toy_md5 \<equiv> (\<lambda>_. [])"

definition cp_name :: string where "cp_name = ''c1/'' @ padw 20 1 @ ''.json''"

definition cp_version :: "bytes \<Rightarrow> fake_version" where
  "cp_version body = \<lparr>fv_ID = version_id 1, fv_Data = body, fv_DeleteMarker = False, fv_Mode = LockCompliance,
     fv_RetainUntil = whole_s (t0 + retention), fv_Modified = whole_s t0\<rparr>"

text \<open>A store that holds one locked object of the name of the checkpoint.\<close>

definition store_of :: "bytes \<Rightarrow> fake_server" where
  "store_of body = \<lparr>fk_down = False, fk_seq = 1, fk_objects = [(cp_name, [cp_version body])], fk_pageMax = 1000, fk_puts = 1\<rparr>"

abbreviation fake1 :: fake_server where "fake1 \<equiv> store_of sample_line"

lemma cp_name: "ObjectName [] ''c1'' 1 = cp_name" "cp_name \<noteq> []"
  by (simp_all add: ObjectName_padw ChainPrefix_def cp_name_def)

lemma whole_s_bounds: "whole_s t \<le> t" "t < whole_s t + ns_per_s"
  using div_mult_mod_eq [of t ns_per_s] pos_mod_bound [of ns_per_s t] pos_mod_sign [of ns_per_s t]
  by (simp_all add: whole_s_def ns_per_s_def)

lemma retained: "t0 < whole_s (t0 + retention)" "whole_s (whole_s t) = whole_s t"
  using whole_s_bounds [of "t0 + retention"] by (simp_all add: retention_def ns_per_s_def whole_s_def)

lemma sample_published:
  "anchor_Publish toy toy_md5 (fake_send toy_md5 (sum256 toy) t0) fake_New sample_anchor t0 (Some sample_cp) (Some sample_sg) = (fake1, Inr ())"
  using retained(1)
  by (simp add: anchor_Publish_def sample_anchor_def sample_cp_fields sample_sg(2) retention_def ns_per_s_def Let_def cp_name
      PutLocked_def fake_send_def ServeHTTP_def fake_put_def lock_refused_def fake_New_def fake_latest_def fake_Versions_def
      newVersion_eq add_version_def store_of_def cp_version_def LockCompliance_def)


lemma store_of_versions: "fake_Versions (store_of b) cp_name = [cp_version b]" "fake_find (store_of b) cp_name (version_id 1) = Some (cp_version b)"
    "fk_down (store_of b) = False" "fk_pageMax (store_of b) = 1000"
  by (simp_all add: fake_Versions_def fake_find_def store_of_def cp_version_def)

lemma store_of_ok: "fake_ok (store_of b)"
  by (auto simp: fake_ok_def store_of_def fake_Versions_def cp_version_def cp_name(2) intro!: exI [of _ 1])

lemma store_of_entries: "all_entries (store_of b) ''c1/'' = [(cp_name, cp_version b)]"
proof -
  have "sortedKeys (store_of b) = [cp_name]" by (simp add: sortedKeys_def store_of_def)
  moreover have "take (Suc (Suc (Suc 0))) cp_name = ''c1/''" by (simp add: cp_name_def)
  ultimately show ?thesis by (simp add: all_entries_def store_of_versions(1))
qed

definition object_of :: "bytes \<Rightarrow> anchored_object" where
  "object_of b = \<lparr>ao_Object = cp_name, ao_VersionID = version_id 1, ao_Size = 1, ao_Line = b,
     ao_StoredAt = whole_s t0, ao_RetainUntil = whole_s (t0 + retention)\<rparr>"

definition no_notices :: notices where
  "no_notices = \<lparr>no_DeleteMarkers = [], no_Duplicates = []\<rparr>"

lemma store_of_page: "page_fits (store_of b) ''c1/'' i"
proof (rule small_pages_fit)
  have "length cp_name = 28" by code_simp
  moreover have "length (version_id 1) = 7" by code_simp
  moreover have "length (format_ts (whole_s t0)) = 24"
  proof (rule length_format_ts)
    have "case parse_ts cp_ts of None \<Rightarrow> False | Some t \<Rightarrow> 0 \<le> t \<and> t < y10k" by code_simp
    then have t: "0 \<le> t0" "t0 < y10k" by (simp_all add: t0)
    show "0 \<le> whole_s t0" using t(1) by (simp add: whole_s_def ns_per_s_def zmod_le_nonneg_dividend)
    show "whole_s t0 < y10k" using t(2) whole_s_bounds(1) [of t0] by linarith
  qed
  ultimately show "\<forall>(k, v) \<in> set (all_entries (store_of b) ''c1/''). length k \<le> 1024 \<and> length (fv_ID v) \<le> 1024 \<and>
      length (format_ts (fv_Modified v)) \<le> 1024"
    by (simp add: store_of_entries cp_version_def)
qed (simp add: store_of_versions)

lemma store_of_list: "ListVersions (fake_send md5 sha now) (store_of b) ''c1/'' = (store_of b, Inr [sv_of (store_of b) (cp_name, cp_version b)])"
proof -
  obtain x where x: "ListVersions (fake_send md5 sha now) (store_of b) ''c1/'' = (store_of b, x)"
    "x = Inr [sv_of (store_of b) (cp_name, cp_version b)] \<or> x = Inl S3BadReply \<and> (\<exists>i. \<not> page_fits (store_of b) ''c1/'' i)"
    using list_pages_all [OF store_of_ok, of b md5 sha now "''c1/''"] by (auto simp: store_of_versions store_of_entries)
  then show ?thesis using store_of_page by blast
qed

lemma store_of_read:
  assumes "length b \<le> MaxObject"
  shows "s3_Read (fake_send md5 sha now) (store_of b) [] ''c1'' t0 = (store_of b, Inr ([object_of b], no_notices))"
proof -
  let ?s = "store_of b" and ?v = "sv_of (store_of b) (cp_name, cp_version b)"
  have v: "sv_Key ?v = cp_name" "sv_VersionID ?v = version_id 1" "\<not> sv_DeleteMarker ?v" "sv_LastModified ?v = whole_s t0"
    by (simp_all add: sv_of_def cp_version_def)
  have cut: "cut_prefix ''c1/'' cp_name = Some (padw 20 1 @ ''.json'')" by (simp add: cp_name_def cut_prefix_def)
  have size: "sizeOf ''c1/'' cp_name = Some 1" using sizeOf_name [of 1 "''c1/''"] by (simp add: cp_name_def)
  have ret: "s3_Retention (fake_send md5 sha now) ?s cp_name (version_id 1) = (?s, Inr (LockCompliance, whole_s (t0 + retention)))"
    by (simp add: s3_Retention_def fake_send_def ServeHTTP_def fake_retention_def pick_def store_of_versions cp_name(2))
      (simp add: cp_version_def LockCompliance_def retained(2))
  have "\<exists>ob. s3_Get (fake_send md5 sha now) ?s cp_name (version_id 1) = (?s, Inr ob) \<and> ob_Body ob = b"
    by (simp add: s3_Get_def fake_send_def ServeHTTP_def fake_get_def pick_def store_of_versions cp_name(2))
      (simp add: cp_version_def LockCompliance_def assms not_less)
  then obtain ob where ob: "s3_Get (fake_send md5 sha now) ?s cp_name (version_id 1) = (?s, Inr ob)" "ob_Body ob = b" by blast
  have versions: "read_versions (fake_send md5 sha now) t0 cp_name ?s [?v] = (?s, Inr [(b, whole_s (t0 + retention))])"
    using retained(1) by (simp add: v ret ob)
  have name: "ValidName [] ''c1''" by code_simp
  have base: "ChainPrefix [] ''c1'' = ''c1/''" by (simp add: ChainPrefix_def)
  show ?thesis
    by (simp add: s3_Read_def name base store_of_list v cut read_name_def size versions oldest_index_def Let_def no_notices_def
        object_of_def del: read_versions.simps)
qed

abbreviation cp_object :: anchored_object where "cp_object \<equiv> object_of sample_line"

lemma fake1_read: "s3_Read (fake_send md5 sha now) fake1 [] ''c1'' t0 = (fake1, Inr ([cp_object], no_notices))"
  by (rule store_of_read) (use sample_sg(4) in \<open>simp add: MaxObject_def\<close>)

theorem published_checkpoint_survives_witness:
  "\<exists>b \<in> set [cp_object]. ao_Size b = c_size sample_cp \<and> signed_Line toy sample_sg = Inr (ao_Line b)"
proof (rule published_checkpoint_survives [OF sample_published])
  show "fake_ok fake_New" by (rule fake_New_ok)
  show "fake_latest fake_New (ObjectName (an_Prefix sample_anchor) (an_ChainID sample_anchor) (c_size sample_cp)) = None"
    by (simp add: fake_latest_def fake_Versions_def fake_New_def)
  show "fake_run toy_md5 (sum256 toy) (whole_s (t0 + retention)) fake1 fake1" by (rule fake_run.here)
  show "s3_Read (fake_send toy_md5 (sum256 toy) t0) fake1 (an_Prefix sample_anchor) (an_ChainID sample_anchor) t0 = (fake1, Inr ([cp_object], no_notices))"
    using fake1_read by (simp add: sample_anchor_def)
qed (simp_all add: sample_cp_fields sample_anchor_def store_of_versions)

theorem Read_sound_witness:
  "\<exists>st1 vs. ListVersions (fake_send toy_md5 (sum256 toy) t0) fake1 (ChainPrefix [] ''c1'') = (st1, Inr vs) \<and>
    sorted_wrt (<) (map ao_Size [cp_object]) \<and>
    (\<forall>a \<in> set [cp_object]. 1 \<le> ao_Size a \<and> ao_Object a = ObjectName [] ''c1'' (ao_Size a) \<and> t0 < ao_RetainUntil a) \<and>
    (\<forall>v \<in> set vs. cut_prefix (ChainPrefix [] ''c1'') (sv_Key v) \<noteq> None \<and> \<not> sv_DeleteMarker v \<longrightarrow>
       (\<exists>a \<in> set [cp_object]. ao_Object a = sv_Key v \<and>
          (\<exists>st st' until. s3_Retention (fake_send toy_md5 (sum256 toy) t0) st (sv_Key v) (sv_VersionID v) = (st', Inr (LockCompliance, until)) \<and> t0 < until) \<and>
          (\<exists>st st' ob. s3_Get (fake_send toy_md5 (sum256 toy) t0) st (sv_Key v) (sv_VersionID v) = (st', Inr ob) \<and> ob_Body ob = ao_Line a)))"
  by (rule Read_sound [OF fake1_read])

theorem ListVersions_complete_witness:
  "ListVersions (fake_send toy_md5 (sum256 toy) t0) fake1 ''c1/'' =
    (fake1, if length (all_entries fake1 ''c1/'') \<le> 10001 * fk_pageMax fake1 then Inr (map (sv_of fake1) (all_entries fake1 ''c1/'')) else Inl S3Endless)"
proof (rule ListVersions_complete)
  have "list_all (\<lambda>c. 32 \<le> byte c \<and> byte c < 128) cp_name" by code_simp
  then have "xml_name cp_name" by (rule ascii_xml_name)
  then show "\<forall>(k, v) \<in> set (all_entries fake1 ''c1/''). xml_name k" by (simp add: store_of_entries)
  show "\<forall>i \<le> length (all_entries fake1 ''c1/''). length (list_text (list_page fake1 ''c1/'' i)) \<le> 16777216"
    using store_of_page by (simp add: page_fits_def maxListing_def)
qed (simp_all add: store_of_ok store_of_versions)

text \<open>The same bytes under the same name, without a lock.\<close>

definition unlocked_version :: fake_version where
  "unlocked_version = (cp_version sample_line)\<lparr>fv_Mode := [], fv_RetainUntil := 0\<rparr>"

definition unlocked_store :: fake_server where
  "unlocked_store = fake1\<lparr>fk_objects := [(cp_name, [unlocked_version])]\<rparr>"

theorem unlocked_publish_removable_witness:
  "anchor_Publish toy toy_md5 (fake_send toy_md5 (sum256 toy) t0) unlocked_store sample_anchor t0 (Some sample_cp) (Some sample_sg) =
      (unlocked_store, Inr ()) \<and>
    (\<exists>s' r. ServeHTTP toy_md5 (sum256 toy) t0 unlocked_store
        (DeleteObject (ObjectName (an_Prefix sample_anchor) (an_ChainID sample_anchor) (c_size sample_cp)) (fv_ID unlocked_version) False) = (s', r) \<and>
      fake_Versions s' (ObjectName (an_Prefix sample_anchor) (an_ChainID sample_anchor) (c_size sample_cp)) = [])"
proof (rule unlocked_publish_removable)
  show "fake_ok unlocked_store"
    by (auto simp: fake_ok_def unlocked_store_def unlocked_version_def store_of_def fake_Versions_def cp_version_def cp_name(2) intro!: exI [of _ 1])
  show "fake_Versions unlocked_store (ObjectName (an_Prefix sample_anchor) (an_ChainID sample_anchor) (c_size sample_cp)) = [unlocked_version]"
    by (simp add: unlocked_store_def fake_Versions_def sample_anchor_def sample_cp_fields cp_name)
  show "signed_Line toy sample_sg = Inr (fv_Data unlocked_version)" by (simp add: unlocked_version_def cp_version_def sample_sg(2))
  show "length (fv_Data unlocked_version) \<le> MaxObject" using sample_sg(4) by (simp add: unlocked_version_def cp_version_def MaxObject_def)
  show "t0 < whole_s (t0 + an_Retention sample_anchor)" using retained(1) by (simp add: sample_anchor_def)
qed (simp_all add: unlocked_store_def store_of_def unlocked_version_def cp_version_def sample_anchor_def sample_cp_fields retention_def ns_per_s_def)

section \<open>Keys in files and tokens\<close>

text \<open>An encoding of PEM blocks that has the property the code relies on.\<close>

definition toy_encode :: "pem_block \<Rightarrow> bytes" where
  "toy_encode b = replicate (length (pb_Type b)) (CHR ''x'') @ ''y'' @ pb_Type b @ pb_Bytes b"

definition toy_decode :: "bytes \<Rightarrow> pem_block option \<times> bytes" where
  "toy_decode s = (let n = length (takeWhile (\<lambda>c. c = CHR ''x'') s) in
     (Some \<lparr>pb_Type = take n (drop (n + 1) s), pb_Headers = [], pb_Bytes = drop (2 * n + 1) s\<rparr>, []))"

definition toy_pem :: pem_lib where
  "toy_pem = \<lparr>pem_Decode = toy_decode, pem_EncodeToMemory = toy_encode,
     pkcs8_Marshal = (\<lambda>k. if length (mk_seed k) = 32 then Some (mk_seed k @ mk_pub k) else None),
     pkcs8_Parse = (\<lambda>s. Some (Some \<lparr>mk_seed = take 32 s, mk_pub = drop 32 s\<rparr>))\<rparr>"

lemma toy_pem_ok: "pem_ok toy_pem"
proof -
  have "takeWhile (\<lambda>c. c = CHR ''x'') (replicate n (CHR ''x'') @ CHR ''y'' # s) = replicate n (CHR ''x'')" for n s
    by (induction n) simp_all
  then show ?thesis by (auto simp: pem_ok_def toy_pem_def toy_decode_def toy_encode_def Let_def split: if_splits)
qed

theorem key_file_round_trip_witness:
  "\<exists>fs' r. WriteComposite toy_pem Map.empty ''k'' toy_private 0 IoDone = (fs', r) \<and>
    (\<forall>q x. Map.empty q = Some x \<longrightarrow> fs' q = Some x) \<and>
    (r = Inr () \<longrightarrow> ReadComposite toy toy_pem fs' ''k'' = Inr toy_private \<and> (\<exists>p b. fs' ''k'' = Some (Regular p b) \<and> and p 63 = 0))"
proof -
  obtain fs' r where w: "WriteComposite toy_pem Map.empty ''k'' toy_private 0 IoDone = (fs', r)" by fastforce
  show ?thesis using w key_file_round_trip [OF toy_pem_ok toy_private_new w] by blast
qed

theorem appended_tokens_read_back_witness:
  "ReadTokens (foldl (\<lambda>file (message, token). snd (AppendToken toy file message token None)) [] [(''m'', ''t'')]) =
    Inr (\<lambda>d. map snd (filter (\<lambda>p. tsa_Digest toy (fst p) = d) [(''m'', ''t'')]))"
  by (rule appended_tokens_read_back) simp


section \<open>A revocation\<close>

definition toy_root :: mldsa_key where
  "toy_root = \<lparr>mk_seed = ''s'', mk_pub = toy_pub MLDSA65\<rparr>"

lemma toy_root_pair: "root_pair toy toy_root"
  using toy_ok(1) by (simp add: root_pair_def toy_root_def key_params_def) (simp add: toy_def toy_pub_def)

definition sample_rev :: revocation where
  "sample_rev = \<lparr>rv_v = 1, rv_domain = revocation_Domain, rv_chain_id = ''c1'', rv_kid = ''k2'', rv_size = 1,
     rv_head = c_head sample_cp, rv_reason = [], rv_ts = cp_ts\<rparr>"

lemma sample_rev_ok: "revocation_ok sample_rev" "json_ok (json_of_revocation sample_rev)"
    "weight (json_of_revocation sample_rev) < 60000"
proof -
  have d: "digest_Valid (c_head sample_cp)" using sample_cp_fields(4) by (simp add: checkpoint_ok_def)
  show "revocation_ok sample_rev"
    using d sample_ts by (simp add: revocation_ok_def sample_rev_def id_ok_ascii cp_ts_def)
  show "json_ok (json_of_revocation sample_rev)"
    using utf8_valid_ascii [OF digest_Valid_ascii [OF d]]
    by (simp add: json_of_revocation_def sample_rev_def omit_str_def revocation_Domain_def cp_ts_def utf8_valid_ascii)
  show "weight (json_of_revocation sample_rev) < 60000"
    using digest_Valid_length [OF d]
    by (simp add: json_of_revocation_def sample_rev_def omit_str_def revocation_Domain_def cp_ts_def show_int_def dec_digits_01)
qed

definition rev_sg :: signed where
  "rev_sg = (case revocation_Sign toy (Some toy_root) sample_rev of Inr s \<Rightarrow> s)"

definition rev_line :: bytes where
  "rev_line = (case signed_Line toy rev_sg of Inr l \<Rightarrow> l)"

lemma rev_sg: "revocation_Sign toy (Some toy_root) sample_rev = Inr rev_sg" "signed_Line toy rev_sg = Inr rev_line" "plain_line rev_line"
proof -
  obtain payload where pl: "canonical_Encode (jcs toy) (json_of_revocation sample_rev) = Inr payload"
    using canonical_Encode_ok [OF toy_ok(2) sample_rev_ok(2) json_safe_revocation [OF sample_rev_ok(1)]] by blast
  obtain hdr where hdr: "canonical_Encode (jcs toy) (json_of_rev_header rev_hdr) = Inr hdr"
    using canonical_Encode_ok [OF toy_ok(2) rev_hdr_json] by blast
  let ?sig = "toy_sig MLDSA65"
  have sign: "mldsa_sign toy p sd m ctx = Some (toy_sig p)" for p sd m ctx by (simp add: toy_def)
  have "\<exists>s. revocation_Sign toy (Some toy_root) sample_rev = Inr s"
    unfolding revocation_Sign_Inr using pl hdr sample_rev_ok(1) by (auto simp: sign)
  then show sg: "revocation_Sign toy (Some toy_root) sample_rev = Inr rev_sg" by (auto simp: rev_sg_def)
  then have s: "rev_sg = \<lparr>s_payload = b64_encode payload, s_protected = b64_encode hdr, s_signature = b64_encode ?sig\<rparr>"
    using pl hdr unfolding revocation_Sign_Inr by (auto simp: sign toy_root_def key_params_def toy_pub_def)
  obtain line where "signed_Line toy rev_sg = Inr line" using revocation_Sign_line [OF toy_ok(2) sg] by blast
  then show ln: "signed_Line toy rev_sg = Inr rev_line" by (simp add: rev_line_def)
  have "length payload < 60000" by (rule encoded_length [OF sample_rev_ok(2) pl sample_rev_ok(3)])
  moreover have "length hdr < 2000"
    by (rule encoded_length [OF rev_hdr_json(1) hdr])
      (simp add: json_of_rev_header_def rev_hdr_def revocation_Alg_def revocation_Domain_def)
  moreover have "length ?sig = 3309" by (simp add: toy_sig_def)
  ultimately have "weight (json_of_signed rev_sg) < maxLine"
    using length_b64_encode [of payload] length_b64_encode [of hdr] length_b64_encode [of ?sig]
    unfolding s by (simp add: json_of_signed_def maxLine_def)
  moreover have "json_ok (json_of_signed rev_sg)" unfolding s by (simp add: json_signed_ok)
  ultimately show "plain_line rev_line"
    using ln by (intro encoded_plain [of "json_of_signed rev_sg"]) (simp_all add: signed_Line_def toy_ok(3))
qed

lemma no_revocations: "revocation_ReadVerified toy [] ''c1'' root = Inr []"
  by (simp add: revocation_ReadVerified_def scan_lines_def Let_def)

theorem revocation_published_witness:
  "\<exists>ok file'. revocation_Publish toy [] rev_sg None = (ok, file') \<and> ok \<and> complete_lines file' \<and>
    revocation_ReadVerified toy file' ''c1'' (Some (mk_pub toy_root)) = Inr ([] @ (if rv_chain_id sample_rev = ''c1'' then [sample_rev] else []))"
proof -
  obtain ok file' where p: "revocation_Publish toy [] rev_sg None = (ok, file')" by fastforce
  show ?thesis
    using p revocation_published [OF no_revocations _ toy_ok(2) toy_root_pair sample_rev_ok(2) rev_sg p] by (auto simp: complete_lines_def)
qed

text \<open>The file of revocations, read back.\<close>

lemma rev_file: "revocation_ReadVerified toy (rev_line @ [newline]) ''c1'' (Some (toy_pub MLDSA65)) = Inr [sample_rev]"
proof -
  have p: "revocation_ParseLine toy rev_line = Inr rev_sg" using revocation_Sign_line [OF toy_ok(2) rev_sg(1)] rev_sg(2) by auto
  have "revocation_Verify toy (Some (mk_pub toy_root)) rev_sg = Inr sample_rev"
    by (rule revocation_Sign_verifies [OF toy_root_pair toy_ok(2) sample_rev_ok(2) rev_sg(1)])
  then have "revocation_Verify toy (Some (toy_pub MLDSA65)) rev_sg = Inr sample_rev" by (simp add: toy_root_def)
  moreover have "scan_lines (rev_line @ [newline]) = ([rev_line], False)"
    using scan_unlines [of "[rev_line]"] rev_sg(3) by (simp add: unlines_def)
  moreover have "rev_line \<noteq> []" by (rule json_signed_line_nonempty [OF p toy_ok(2)])
  ultimately show ?thesis
    using p by (simp add: revocation_ReadVerified_def read_revocation_def) (simp add: sample_rev_def)
qed

theorem revocation_Match_iff_witness:
  "revocation_Match [sample_rev] [sample_cp] = Inr [\<lparr>ef_Kid = ''k2'', ef_Size = 1, ef_Reason = []\<rparr>] \<longleftrightarrow>
    (\<forall>r \<in> set [sample_rev]. \<exists>c \<in> set [sample_cp]. c_size c = rv_size r \<and> c_head c = rv_head r) \<and>
    [\<lparr>ef_Kid = ''k2'', ef_Size = 1, ef_Reason = []\<rparr>] =
      map (\<lambda>r. \<lparr>ef_Kid = rv_kid r, ef_Size = rv_size r, ef_Reason = rv_reason r\<rparr>) [sample_rev]"
  by (rule revocation_Match_iff) simp

lemma rev_match: "revocation_Match [sample_rev] [sample_cp] = Inr [\<lparr>ef_Kid = ''k2'', ef_Size = 1, ef_Reason = []\<rparr>]"
  by (simp add: revocation_Match_def match_one_def sample_cp_fields) (simp add: sample_rev_def)


section \<open>Two lines in one object\<close>

abbreviation cp2 :: checkpoint where "cp2 \<equiv> sample_cp\<lparr>c_size := 2\<rparr>"

lemma cp2_facts: "checkpoint_ok cp2" "c_chain_id cp2 = ''c1''" "c_ts cp2 = cp_ts" "c_size cp2 = 1 \<or> c_size cp2 = 2"
  using sample_cp_fields by (simp_all add: checkpoint_ok_def)

definition two_lines :: bytes where "two_lines = sample_line @ newline # cp_line cp2"

definition sample_store :: store_flags where
  "sample_store = \<lparr>sf_endpoint = ''https://s'', sf_region = ''r'', sf_bucket = ''b'', sf_prefix = [], sf_pathStyle = True,
     sf_skew = 300 * ns_per_s, sf_timeout = 30 * ns_per_s\<rparr>"

definition sample_client :: store_client where
  "sample_client = \<lparr>sc_Endpoint = ''https://s'', sc_Region = ''r'', sc_Bucket = ''b'', sc_PathStyle = True,
     sc_AccessKeyID = ''id'', sc_SecretAccessKey = ''secret'', sc_Timeout = 30 * ns_per_s\<rparr>"

definition keys_file :: bytes where
  "keys_file = marshal (json_of_set (Some [PublicJWK ''k1'' toy_public]))"

definition root_cert :: certificate where
  "root_cert = leaf_template\<lparr>ct_IsCA := True, ct_MLDSA := Some (toy_pub MLDSA65)\<rparr>"

definition sample_files :: filesystem where
  "sample_files = [''log'' \<mapsto> Regular 420 sample_log1, ''keys'' \<mapsto> Regular 420 keys_file,
     ''revs'' \<mapsto> Regular 420 (rev_line @ [newline]),
     ''root'' \<mapsto> Regular 420 (toy_encode \<lparr>pb_Type = certificateType, pb_Headers = [], pb_Bytes = ''der''\<rparr>)]"

definition sample_world :: "fake_server world" where
  "sample_world = \<lparr>w_fs = sample_files, w_Getenv = (\<lambda>k. if k = EnvAnchorAccessKeyID then ''id'' else ''secret''), w_now = t0,
     w_url = (\<lambda>u. Some \<lparr>url_Scheme = ''https'', url_Host = ''s'', url_Hostname = ''s'', url_RawQuery = [], url_HasUser = False\<rparr>),
     w_ParseIP = (\<lambda>_. None), w_send = (\<lambda>_. fake_send toy_md5 (sum256 toy) t0),
     w_x509 = toy_x509\<lparr>x_Parse := (\<lambda>_. Some root_cert)\<rparr>, w_pem = toy_pem,
     w_tsa = \<lparr>tl_CreateRequest = (\<lambda>_. None), tl_ParseResponse = (\<lambda>_. None), tl_Parse = (\<lambda>_. None), tl_VerifyCert = (\<lambda>_ _ _ _ _. False)\<rparr>,
     w_certs = (\<lambda>_. None)\<rparr>"

theorem two_line_object_panics_witness:
  "readStore toy sample_world sample_store sample_client (store_of two_lines) ''c1'' [''k1'' \<mapsto> toy_public] Map.empty =
    (store_of two_lines, Inl IndexPanic)"
proof (rule two_line_object_panics)
  have "length two_lines \<le> MaxObject"
    using sample_sg(4) cp_signed(4) [OF cp2_facts] by (simp add: two_lines_def MaxObject_def)
  from store_of_read [OF this]
  show "s3_Read (w_send sample_world sample_client) (store_of two_lines) (sf_prefix sample_store) ''c1'' (w_now sample_world) =
      (store_of two_lines, Inr ([object_of two_lines], no_notices))"
    by (simp add: sample_world_def sample_store_def)
  show "ao_Line (object_of two_lines) = sample_line @ newline # cp_line cp2" by (simp add: object_of_def two_lines_def)
  show "anchor_line toy ''c1'' [''k1'' \<mapsto> toy_public] sample_line sample_cp" by (rule cp_anchor_line [OF sample_cp_facts]) simp
  show "anchor_line toy ''c1'' [''k1'' \<mapsto> toy_public] (cp_line cp2) cp2" by (rule cp_anchor_line [OF cp2_facts]) simp
  show "cp_before sample_cp cp2" by (simp add: cp_before_def sample_cp_fields)
  show "parse_ts (c_ts sample_cp) = Some t0" by (simp add: sample_cp_fields t0)
  show "t0 \<le> ao_StoredAt (object_of two_lines) + sf_skew sample_store"
    using whole_s_bounds [of t0] by (simp add: object_of_def sample_store_def ns_per_s_def)
qed (use sample_sg(3) cp_signed(3) [OF cp2_facts] in \<open>simp_all add: sample_cp_fields object_of_def\<close>)


section \<open>A run of the verifier\<close>

definition sample_flags :: flags where
  "sample_flags = \<lparr>fl_log = ''log'', fl_chain = ''c1'', fl_keys = ''keys'', fl_anchor = [], fl_tokens = [], fl_tsaRoots = [],
     fl_root = ''root'', fl_revocations = ''revs'', fl_store = sample_store, fl_json = True, fl_version = False, fl_NArg = 0\<rparr>"

abbreviation "sample_X \<equiv> w_x509 sample_world"

definition sample_rotating :: rotating where
  "sample_rotating = NewRotating [''k1'' \<mapsto> toy_public] (Some [''der''])"

definition sample_ring :: keyring where
  "sample_ring = \<lparr>kr_trusted = [''k1'' \<mapsto> toy_public], kr_rotating = Some sample_rotating, kr_rootKey = Some (toy_pub MLDSA65)\<rparr>"

lemma sample_files_read:
  "os_ReadFile sample_files ''log'' = Some sample_log1" "os_ReadFile sample_files ''keys'' = Some keys_file"
  "os_ReadFile sample_files ''revs'' = Some (rev_line @ [newline])"
  "os_ReadFile sample_files ''root'' = Some (toy_encode \<lparr>pb_Type = certificateType, pb_Headers = [], pb_Bytes = ''der''\<rparr>)"
  by (rule os_ReadFile_regular, simp add: sample_files_def)+

lemma sample_known: "k_Resolve (Rotating toy X) sample_rotating ''k1'' = Some toy_public"
  by (simp add: Rotating_Resolve sample_rotating_def NewRotating_def)

lemma sample_e1_matches:
  assumes "k_Resolve K ks ''k1'' = Some toy_public" "\<forall>rev \<in> set revs. rv_Kid rev = ''k1'' \<longrightarrow> 0 < rv_EffectiveSize rev" "set cps \<subseteq> {sample_cp}"
  shows "VerifyAll toy sample_log1 ''c1'' K ks cps revs = Inr (report_of toy ''c1'' cps [sample_e1], keys_after K ks [sample_e1])"
proof -
  have "verified_log toy sample_log1 ''c1'' K ks cps revs [sample_e1]"
    using sample_e1_ok [OF assms(1,2)] sample_cp_verified assms(3) by (auto simp: verified_log_def)
  then show ?thesis unfolding VerifyAll_Inr by blast
qed

lemma sample_no_rotation: "keys_after K ks [sample_e1] = ks"
proof -
  have "r_rotation (e_rcpt sample_e1) = None"
    by (simp add: sample_e1_def new_entry_def fill_def sample_decision_def sample_receipt_def)
  then show ?thesis by (simp add: keys_after_def accept_rotation_def)
qed

lemma sample_prepare: "prepare toy sample_world sample_flags = Inr (sample_ring, Some sample_client)"
proof -
  have u: "usage_ok sample_flags" by (simp add: usage_ok_def sample_flags_def)
  have t: "load_trust toy sample_world sample_flags = Inr [''k1'' \<mapsto> toy_public]"
    using trust_file_roundtrip_witness
    by (simp add: load_trust_def sample_world_def sample_flags_def sample_files_read keys_file_def)
  have c: "sf_client sample_world sample_store = Some sample_client"
    by (simp add: sf_client_def CheckStoreEndpoint_def sample_world_def sample_store_def sample_client_def ns_per_s_def
        EnvAnchorAccessKeyID_def EnvAnchorSecretAccessKey_def Let_def)
  have o: "open_store sample_world sample_flags = Inr (Some sample_client)"
    by (simp add: open_store_def sample_flags_def sf_set_def c) (simp add: sample_store_def)
  have "readPEM toy_pem sample_files ''root'' certificateType False = Inr ''der''"
    using toy_pem_ok sample_files_read(4) by (simp add: readPEM_Inr pem_ok_def) (simp add: toy_pem_def)
  then have "ReadCertificate sample_X toy_pem sample_files ''root'' = Inr ''der''"
    by (simp add: ReadCertificate_def sample_world_def)
  then have r: "load_root sample_world sample_flags [''k1'' \<mapsto> toy_public] = Inr sample_ring"
    by (simp add: load_root_def sample_flags_def sample_ring_def sample_rotating_def revocation_RootKey_def root_cert_def
        sample_world_def)
  have "ring_verify toy sample_X sample_ring sample_log1 ''c1'' [] [] = Inr (report_of toy ''c1'' [] [sample_e1], sample_ring)"
    using sample_e1_matches [OF sample_known, of "[]" "[]" sample_X] sample_no_rotation
    by (simp add: ring_verify_def sample_ring_def)
  then have l: "learn_keys toy sample_world sample_flags True (zero_result ''c1'') sample_ring = Inr sample_ring"
    by (simp add: learn_keys_def open_log_def os_Open_content sample_flags_def) (simp add: sample_world_def sample_files_read)
  show ?thesis using u t o r l by (simp add: prepare_def Let_def sample_flags_def)
qed

lemma sample_anchors:
  "read_anchors toy sample_world sample_flags fake1 (Some sample_client) res (ring_resolve sample_ring) =
    (fake1, Inr ([sample_cp], [(cp_name, sample_line)], res\<lparr>rr_Store := Some \<lparr>vw_Location = sf_location sample_store ''c1'',
       vw_Checkpoints = [cp_object], vw_Notices = no_notices, vw_Unanchored = 0\<rparr>\<rparr>))"
proof -
  have "ring_resolve sample_ring ''k1'' = Some toy_public"
    by (simp add: ring_resolve_def sample_ring_def sample_rotating_def NewRotating_def rotating_Resolve_def)
  then have al: "anchor_line toy ''c1'' (ring_resolve sample_ring) sample_line sample_cp" by (rule cp_anchor_line [OF sample_cp_facts])
  have "scan_lines (sample_line @ [newline]) = ([sample_line], False)"
    using scan_unlines [of "[sample_line]"] sample_sg(3) by (simp add: unlines_def)
  moreover have "efold (read_anchor_line toy ''c1'' (ring_resolve sample_ring)) [] [sample_line] = Inr [sample_cp]"
    using al by (auto simp: read_anchor_line_Inr)
  ultimately have rv: "ReadVerified toy (sample_line @ [newline]) ''c1'' (ring_resolve sample_ring) = Inr [sample_cp]"
    by (simp add: ReadVerified_Inr)
  have cs: "check_stored (300 * ns_per_s) Map.empty [cp_object] [sample_cp] = Inr ()"
    using whole_s_bounds [of t0] by (simp add: sample_cp_fields object_of_def t0 ns_per_s_def not_less)
  have "readStore toy sample_world sample_store sample_client fake1 ''c1'' (ring_resolve sample_ring) Map.empty =
     (fake1, Inr ([sample_cp], \<lparr>vw_Location = sf_location sample_store ''c1'', vw_Checkpoints = [cp_object], vw_Notices = no_notices, vw_Unanchored = 0\<rparr>))"
    using fake1_read rv cs by (simp add: readStore_def sample_world_def sample_store_def object_of_def)
  then show ?thesis
    by (simp add: read_anchors_def read_anchor_def sample_flags_def)
      (simp add: verify_merge_def merge_step_def object_of_def)
qed

lemma sample_run: "\<exists>out. verify_run toy sample_world (Some sample_flags) fake1 = (fake1, exitVerified, out)"
proof -
  have rr: "\<exists>res'. read_revocations toy sample_world sample_flags res sample_ring [sample_cp] =
      Inr ([\<lparr>rv_Kid = ''k2'', rv_EffectiveSize = 1\<rparr>], res')" for res
  proof -
    have "os_Open (w_fs sample_world) (fl_revocations sample_flags) = Some (Some (rev_line @ [newline]))"
      by (simp add: os_Open_content sample_flags_def sample_world_def sample_files_read)
    then show ?thesis using rev_file by (simp add: read_revocations_def sample_flags_def sample_ring_def rev_match)
  qed
  have ts: "check_timestamps toy sample_world sample_flags True labels res = Inr res" for labels res
    by (simp add: check_timestamps_def sample_flags_def)
  have rv: "ring_verify toy sample_X sample_ring sample_log1 ''c1'' [sample_cp] [\<lparr>rv_Kid = ''k2'', rv_EffectiveSize = 1\<rparr>] =
      Inr (report_of toy ''c1'' [sample_cp] [sample_e1], sample_ring)"
    using sample_e1_matches [OF sample_known, of "[\<lparr>rv_Kid = ''k2'', rv_EffectiveSize = 1\<rparr>]" "[sample_cp]" sample_X] sample_no_rotation
    by (simp add: ring_verify_def sample_ring_def)
  have log: "os_ReadFile (w_fs sample_world) (fl_log sample_flags) = Some sample_log1" "fl_chain sample_flags = ''c1''"
    by (simp_all add: sample_world_def sample_flags_def sample_files_read)
  have "\<exists>res'. verify_log toy sample_world sample_flags True sample_ring ([sample_cp], labels, res) = Inr res'" for labels res
  proof -
    obtain res' where r: "read_revocations toy sample_world sample_flags (res\<lparr>rr_Checkpoints := int (length [sample_cp])\<rparr>) sample_ring [sample_cp] =
      Inr ([\<lparr>rv_Kid = ''k2'', rv_EffectiveSize = 1\<rparr>], res')" using rr by blast
    have "open_log sample_world sample_flags r = Inr sample_log1" for r by (simp add: open_log_Inr log)
    then show ?thesis unfolding verify_log_def Let_def prod.case r by (simp add: ts log rv)
  qed
  then obtain res' where "run_stages toy sample_world sample_flags fake1 = (fake1, Inr res')"
    unfolding run_stages_def sample_prepare sum.case prod.case sample_anchors by (auto simp: log)
  then show ?thesis by (simp add: verify_run_def exit_of_def emit_def sample_flags_def)
qed

lemma sample_flags_facts: "\<not> fl_version sample_flags" "sf_set (fl_store sample_flags)" "sf_prefix (fl_store sample_flags) = []"
    "fl_chain sample_flags = ''c1''" "fl_revocations sample_flags \<noteq> []"
    "os_ReadFile (w_fs sample_world) (fl_log sample_flags) = Some sample_log1"
  by (simp_all add: sample_flags_def sample_store_def sf_set_def sample_world_def sample_files_read)

theorem published_checkpoint_binds_verifier_witness:
  "take (length [e_line sample_e1]) (fst (scan_lines sample_log1)) = [e_line sample_e1]"
proof -
  obtain out where run: "verify_run toy sample_world (Some sample_flags) fake1 = (fake1, exitVerified, out)" using sample_run by blast
  show ?thesis
  proof (rule published_checkpoint_binds_verifier [where a = sample_anchor, OF _ sample_sg(1) toy_ok(2) _ sample_sg(2,3) sample_published fake_New_ok
        _ fake_run.here order_refl _ _ _ _ _ _ run])
    show "builder_Checkpoint toy (build toy (an_ChainID sample_anchor) [e_line sample_e1]) ''2026-01-02T03:04:05.000Z'' = Inr sample_cp"
      using sample_cp_eq by (simp add: sample_anchor_def)
    show "json_ok (json_of_checkpoint sample_cp)" by (rule cp_json(1) [OF sample_cp_facts])
    show "fake_latest fake_New (ObjectName (an_Prefix sample_anchor) (an_ChainID sample_anchor) (c_size sample_cp)) = None"
      by (simp add: fake_latest_def fake_Versions_def fake_New_def)
    show "\<forall>client. w_send sample_world client = fake_send toy_md5 (sum256 toy) t0" by (simp add: sample_world_def)
    show "no_collision (sha256 toy) (tree_pre (sha256 toy) [e_line sample_e1]
      \<union> tree_pre (sha256 toy) (take (length [e_line sample_e1]) (fst (scan_lines sample_log1))))"
      by (simp add: sample_scan tree_pre_def no_collision_def)
  qed (simp_all add: sample_flags_facts store_of_versions sample_anchor_def)
qed

theorem revocations_enforced_witness:
  "\<exists>log es trusted kr0 data der cert rs. os_ReadFile (w_fs sample_world) (fl_log sample_flags) = Some log \<and> scan_lines log = (map e_line es, False) \<and>
    load_trust toy sample_world sample_flags = Inr trusted \<and> load_root sample_world sample_flags trusted = Inr kr0 \<and>
    ring_log_ok toy sample_X kr0 (fl_chain sample_flags) (revoked_of rs) es \<and>
    ReadCertificate sample_X (w_pem sample_world) (w_fs sample_world) (fl_root sample_flags) = Inr der \<and> x_Parse sample_X der = Some cert \<and>
    os_ReadFile (w_fs sample_world) (fl_revocations sample_flags) = Some data \<and>
    revocation_ReadVerified toy data (fl_chain sample_flags) (ct_MLDSA cert) = Inr rs \<and>
    (\<forall>r \<in> set rs. rv_head r = digest_SHA256 (sha256 toy) (e_line (es ! nat (rv_size r - 1))) \<and>
       (\<forall>i < length es. int i \<ge> rv_size r \<longrightarrow> (\<exists>sg. ParseLine toy (e_line (es ! i)) = Inr sg \<and>
          signed_KeyID toy sg = Inr (e_kid (es ! i)) \<and> e_kid (es ! i) \<noteq> rv_kid r \<and>
          receipt_Verify toy (e_pub (es ! i)) sg = Inr (e_rcpt (es ! i)))))"
proof -
  obtain out where "verify_run toy sample_world (Some sample_flags) fake1 = (fake1, exitVerified, out)" using sample_run by blast
  from revocations_enforced [OF this sample_flags_facts(1,5)] show ?thesis .
qed

theorem exit_status_matches_report_witness:
  "\<exists>st' code out. verify_run toy sample_world (Some sample_flags) fake1 = (st', code, out) \<and>
    code \<in> {0, 1, 2} \<and> (code = 2 \<longrightarrow> out = NoOutput) \<and>
    (\<forall>res warning. out = JSONReport res \<or> out = TextReport res warning \<longrightarrow>
       (rr_Verified res \<longleftrightarrow> code = 0) \<and> (code = 1 \<longrightarrow> rr_Stage res \<noteq> []))"
proof -
  obtain st' code out where r: "verify_run toy sample_world (Some sample_flags) fake1 = (st', code, out)" by (metis prod_cases3)
  from exit_status_matches_report [OF r] r show ?thesis by blast
qed

theorem exit_zero_vouches_witness:
  "\<exists>log es trusted kr0 rs. os_ReadFile (w_fs sample_world) (fl_log sample_flags) = Some log \<and> scan_lines log = (map e_line es, False) \<and> es \<noteq> [] \<and>
    load_trust toy sample_world sample_flags = Inr trusted \<and> load_root sample_world sample_flags trusted = Inr kr0 \<and>
    run_revocations toy sample_world sample_flags kr0 rs \<and>
    ring_log_ok toy sample_X kr0 (fl_chain sample_flags) (revoked_of rs) es \<and>
    (fl_anchor sample_flags \<noteq> [] \<and> \<not> sf_set (fl_store sample_flags) \<longrightarrow> (\<exists>data. os_ReadFile (w_fs sample_world) (fl_anchor sample_flags) = Some data \<and>
       (\<forall>l \<in> set (fst (scan_lines data)). \<exists>c. anchor_line toy (fl_chain sample_flags) (ring_resolve (ring_after toy sample_X kr0 es)) l c \<and>
          cp_matches toy (fl_chain sample_flags) (map e_line es) c))) \<and>
    (sf_set (fl_store sample_flags) \<longrightarrow> (\<exists>client stored nts. open_store sample_world sample_flags = Inr (Some client) \<and>
       s3_Read (w_send sample_world client) fake1 (sf_prefix (fl_store sample_flags)) (fl_chain sample_flags) (w_now sample_world) = (fake1, Inr (stored, nts)) \<and>
       (\<forall>a \<in> set stored. \<exists>c. object_holds toy (fl_chain sample_flags) (ring_resolve (ring_after toy sample_X kr0 es)) (sf_skew (fl_store sample_flags)) a c \<and>
          cp_matches toy (fl_chain sample_flags) (map e_line es) c)))"
proof -
  obtain out where "verify_run toy sample_world (Some sample_flags) fake1 = (fake1, exitVerified, out)" using sample_run by blast
  from exit_zero_vouches [OF this sample_flags_facts(1)] show ?thesis .
qed

end
