(* ===== verification/ApproverApi.thy ===== *)
theory ApproverApi
  imports GatewayRules GatewayTheorems GoText
begin

text \<open>
  The approver API and its client (\<open>internal/approverapi/approverapi.go\<close>).  A handler is a function from
  the request body to a reply; the JSON text of replies is below the model, which has the values they
  encode.  The table of nonces is the server's own state.  The client's transport is an argument: what
  the theorems say of the client holds of any server.
\<close>

section \<open>Requests and replies\<close>

definition RequestDomain :: string where
  "RequestDomain = ''agent-warden/approver-request/v1''"

definition MaxClockSkew :: int where
  "MaxClockSkew = 60 * ns_per_s"

definition maxBody :: nat where
  "maxBody = 65536"

definition nonce_char :: "char \<Rightarrow> bool" where
  "nonce_char c \<longleftrightarrow> byte c \<in> {48..57} \<union> {65..90} \<union> {97..122} \<union> {45, 95}"

definition noncePattern :: "string \<Rightarrow> bool" where
  "noncePattern s \<longleftrightarrow> list_all nonce_char s \<and> 22 \<le> length s \<and> length s \<le> 64"

record list_request =
  lr_domain :: string
  lr_approver :: string
  lr_nonce :: string
  lr_ts :: string

definition json_of_list_request :: "list_request \<Rightarrow> json" where
  "json_of_list_request q = JObj [(''domain'', JStr (lr_domain q)), (''approver'', JStr (lr_approver q)),
     (''nonce'', JStr (lr_nonce q)), (''ts'', JStr (lr_ts q))]"

definition dec_list_request :: "json \<Rightarrow> list_request option" where
  "dec_list_request j = do {
     f \<leftarrow> fields_of [''domain'', ''approver'', ''nonce'', ''ts''] j;
     d \<leftarrow> get_str f ''domain''; a \<leftarrow> get_str f ''approver''; n \<leftarrow> get_str f ''nonce''; t \<leftarrow> get_str f ''ts'';
     Some \<lparr>lr_domain = d, lr_approver = a, lr_nonce = n, lr_ts = t\<rparr> }"

record pending_shown =
  pn_ChainID :: string
  pn_DecisionSeq :: int
  pn_DecisionTS :: string
  pn_TaskID :: string
  pn_Actor :: actor
  pn_Call :: call
  pn_Rule :: string
  pn_Taint :: "string list"
  pn_Args :: bytes
  pn_ArgsSalt :: string
  pn_Approval :: "approval option"

record submitted =
  sb_DecisionSeq :: int
  sb_Outcome :: string
  sb_Approver :: string
  sb_ExpiresTS :: string

text \<open>
  A reply: \<open>fail\<close> with a status, or status 200 with a value (\<open>None\<close> when encoding it fails: \<open>reply\<close>
  drops that error and sends no body), or a connection closed by a panic.
\<close>

datatype 'a http_reply = HttpFail nat string | HttpOK "'a option" | HttpAborted

text \<open>\<open>readBody\<close>: \<open>None\<close> is a body that cannot be read.\<close>

definition readBody :: "bytes option \<Rightarrow> string + bytes" where
  "readBody mb = ebind (of_option ''read error'' mb) (\<lambda>b.
     if maxBody < length b then Inl ''request too large'' else Inr (trim_space b))"

section \<open>The server\<close>

type_synonym nonces = "string \<rightharpoonup> time"

text \<open>\<open>authenticate\<close> up to the lock: the approver and the request they signed, with its time.\<close>

definition checked_request ::
  "'x crypto_scheme \<Rightarrow> key_resolver \<Rightarrow> bytes \<Rightarrow> time \<Rightarrow> string + string \<times> list_request \<times> time" where
  "checked_request C approvers body now =
     ebind (map_err (\<lambda>_. ''malformed request'') (ParseLine C body)) (\<lambda>sg.
     ebind (map_err (\<lambda>_. ''malformed request'') (signed_KeyID C sg)) (\<lambda>kid.
     ebind (of_option ''unknown approver'' (approvers kid)) (\<lambda>pub.
     ebind (map_err (\<lambda>_. ''bad signature'') (VerifyPayload C pub sg)) (\<lambda>payload.
     ebind (map_err (\<lambda>_. ''malformed request'')
         (DecodeStrict (jcs C) dec_list_request json_of_list_request payload)) (\<lambda>q.
     if lr_domain q \<noteq> RequestDomain \<or> lr_approver q \<noteq> kid \<or> \<not> noncePattern (lr_nonce q)
       then Inl ''malformed request''
     else case parse_ts (lr_ts q) of
       None \<Rightarrow> Inl ''request timestamp outside the allowed window''
     | Some ts \<Rightarrow> if ts < now - MaxClockSkew \<or> now + MaxClockSkew < ts
         then Inl ''request timestamp outside the allowed window''
         else Inr (kid, q, ts))))))"

text \<open>Under the lock: expired nonces are forgotten, then the nonce is consumed.\<close>

definition forget_nonces :: "nonces \<Rightarrow> time \<Rightarrow> nonces" where
  "forget_nonces ns now = (\<lambda>n. case ns n of None \<Rightarrow> None | Some forget \<Rightarrow> if forget < now then None else Some forget)"

definition consume_nonce :: "nonces \<Rightarrow> string \<Rightarrow> time \<Rightarrow> time \<Rightarrow> nonces \<times> (string + unit)" where
  "consume_nonce ns n ts now =
     (let ns' = forget_nonces ns now in
      if ns' n \<noteq> None then (ns', Inl ''request already used'')
      else (ns'(n \<mapsto> ts + 2 * MaxClockSkew), Inr ()))"

definition authenticate ::
  "'x crypto_scheme \<Rightarrow> key_resolver \<Rightarrow> nonces \<Rightarrow> bytes \<Rightarrow> time \<Rightarrow> nonces \<times> (string + string)" where
  "authenticate C approvers ns body now =
     (case checked_request C approvers body now of
        Inl e \<Rightarrow> (ns, Inl e)
      | Inr (kid, q, ts) \<Rightarrow> (case consume_nonce ns (lr_nonce q) ts now of
          (ns', Inl e) \<Rightarrow> (ns', Inl e) | (ns', Inr _) \<Rightarrow> (ns', Inr kid)))"

text \<open>
  One entry of the list; \<open>ok\<close> says whether the database can be read.  A \<open>json.RawMessage\<close> is compacted
  as it is encoded; none at all is \<open>null\<close>.
\<close>

definition show_pending :: "store \<Rightarrow> bool \<Rightarrow> pending_view \<Rightarrow> pending_shown http_reply + pending_shown" where
  "show_pending s ok v =
     (let d = pv_Decision v in
      case r_call d of None \<Rightarrow> Inl HttpAborted | Some c \<Rightarrow>
      ebind (map_err (\<lambda>_. HttpFail 500 ''could not read argument opening'') (get_opening s (args_commitment c) ok))
        (\<lambda>(salt, _).
      case (r_actor d, r_decision d) of
        (Some a, Some dec) \<Rightarrow> Inr \<lparr>pn_ChainID = r_chain_id d, pn_DecisionSeq = r_seq d, pn_DecisionTS = r_ts d,
          pn_TaskID = r_task_id d, pn_Actor = a, pn_Call = c, pn_Rule = d_rule dec, pn_Taint = d_taint dec,
          pn_Args = pv_Args v, pn_ArgsSalt = b64_encode salt, pn_Approval = pv_Approval v\<rparr>
      | _ \<Rightarrow> Inl HttpAborted))"

definition sent_pending :: "pending_shown \<Rightarrow> pending_shown option" where
  "sent_pending p = map_option (\<lambda>a. p\<lparr>pn_Args := a\<rparr>)
     (if pn_Args p = [] then Some ''null'' else marshal_raw (pn_Args p))"

definition retype :: "'a http_reply \<Rightarrow> 'b http_reply" where
  "retype r = (case r of HttpFail n e \<Rightarrow> HttpFail n e | HttpOK _ \<Rightarrow> HttpOK None | HttpAborted \<Rightarrow> HttpAborted)"

text \<open>\<open>Server.list\<close>; \<open>ok i\<close> says whether the database can be read for the \<open>i\<close>th call.\<close>

definition server_list ::
  "crypto \<Rightarrow> key_resolver \<Rightarrow> 'v gateway \<Rightarrow> nonces \<Rightarrow> bytes option \<Rightarrow> time \<Rightarrow> (nat \<Rightarrow> bool) \<Rightarrow>
     nonces \<times> pending_shown list http_reply" where
  "server_list C approvers g ns mb now ok =
     (case readBody mb of Inl e \<Rightarrow> (ns, HttpFail 400 e) | Inr body \<Rightarrow>
     (case authenticate C approvers ns body now of
        (ns', Inl e) \<Rightarrow> (ns', HttpFail 401 e)
      | (ns', Inr _) \<Rightarrow> (ns', case ListPending C g of
          Inl (StatementRefused ApprovalPanic) \<Rightarrow> HttpAborted
        | Inl _ \<Rightarrow> HttpFail 500 ''could not list pending calls''
        | Inr vs \<Rightarrow> (case esequence (map2 (\<lambda>i. show_pending (gw_store g) (ok i)) [0..<length vs] vs) of
            Inl r \<Rightarrow> retype r
          | Inr ps \<Rightarrow> HttpOK (those (map sent_pending ps))))))"

text \<open>What \<open>Server.submit\<close> makes of the error that \<open>Approve\<close> returns.\<close>

fun submit_status :: "gateway_error \<Rightarrow> submitted http_reply" where
  "submit_status (StatementRefused ErrSelfApproval) = HttpFail 403 ''an approver cannot approve their own call''"
| "submit_status (StatementRefused (ErrStatement e)) = HttpFail 400 e"
| "submit_status (StatementRefused (ErrMismatch e)) = HttpFail 400 e"
| "submit_status (StatementRefused ErrExpired) = HttpFail 400 ''expired''"
| "submit_status (StatementRefused ErrNotPending) = HttpFail 400 ''not pending''"
| "submit_status (StatementRefused ApprovalPanic) = HttpAborted"
| "submit_status NotPending = HttpFail 404 ''no call is waiting under that decision''"
| "submit_status AlreadyAnswered = HttpFail 409 ''that call has already been approved or rejected''"
| "submit_status ReceiptFailed = HttpFail 503 ''the approval could not be recorded''"
| "submit_status _ = HttpFail 500 ''approval failed''"

definition server_submit ::
  "('p, 'v) gateway_config \<Rightarrow> 'v gateway \<Rightarrow> bytes option \<Rightarrow> time \<Rightarrow> bool \<Rightarrow> bool \<Rightarrow> 'v gateway \<times> submitted http_reply" where
  "server_submit cfg g mb now ok1 ok2 =
     (case readBody mb of Inl e \<Rightarrow> (g, HttpFail 400 e) | Inr body \<Rightarrow>
     (case gateway_Approve cfg g body now ok1 ok2 of
        (g', Inl e) \<Rightarrow> (g', submit_status e)
      | (g', Inr a) \<Rightarrow> (g', HttpOK (Some \<lparr>sb_DecisionSeq = a_decision_seq a, sb_Outcome = a_outcome a,
          sb_Approver = a_approver a, sb_ExpiresTS = a_expires_ts a\<rparr>))))"

section \<open>The client\<close>

datatype client_error =
  ErrTampered int
| ClientEncode canonical_error
| ClientEnvelope envelope_error
| ClientStatement approval_error
| Transport
| Refused nat string

text \<open>\<open>Check\<close>: the shown arguments open the commitment of the shown call.\<close>

definition verify_raw :: "'x crypto_scheme \<Rightarrow> string \<Rightarrow> bytes \<Rightarrow> bytes \<Rightarrow> bool" where
  "verify_raw C com salt raw \<longleftrightarrow> digest_Valid com \<and>
     (case (if raw = [] then Some ''null'' else marshal_raw raw) of None \<Rightarrow> False | Some b \<Rightarrow> commit_Sum C salt b = Inr com)"

definition client_Check :: "'x crypto_scheme \<Rightarrow> pending_shown \<Rightarrow> client_error + unit" where
  "client_Check C p = (case b64_decode (pn_ArgsSalt p) of
     None \<Rightarrow> Inl (ErrTampered (pn_DecisionSeq p))
   | Some salt \<Rightarrow> require (verify_raw C (args_commitment (pn_Call p)) salt (pn_Args p)) (ErrTampered (pn_DecisionSeq p)))"

definition shown_statement :: "pending_shown \<Rightarrow> string \<Rightarrow> string \<Rightarrow> string \<Rightarrow> int \<Rightarrow> time \<Rightarrow> statement" where
  "shown_statement p cd approver out ttl now = \<lparr>st_domain = StatementDomain, st_chain_id = pn_ChainID p,
     st_decision_seq = pn_DecisionSeq p, st_call_digest = cd, st_outcome = out, st_approver = approver,
     st_expires_ts = format_ts (now + ttl), st_ts = format_ts now\<rparr>"

definition client_Sign ::
  "'x crypto_scheme \<Rightarrow> signer option \<Rightarrow> string \<Rightarrow> pending_shown \<Rightarrow> string \<Rightarrow> int \<Rightarrow> time \<Rightarrow> client_error + bytes" where
  "client_Sign C k approver p out ttl now =
     ebind (client_Check C p) (\<lambda>_.
     ebind (map_err ClientStatement (CallDigest C (pn_TaskID p) (pn_Actor p) (pn_Call p))) (\<lambda>cd.
     ebind (map_err ClientStatement (statement_Sign C k (shown_statement p cd approver out ttl now))) (\<lambda>sg.
     map_err ClientEncode (signed_Line C sg))))"

text \<open>
  \<open>post\<close>: the transport answers a path and a body with a status and the decoded reply, \<open>None\<close> where the
  exchange or the decoding fails; a refusal has its message.
\<close>

type_synonym 'a transport = "string \<Rightarrow> bytes \<Rightarrow> (nat \<times> string \<times> 'a option) option"

definition client_post :: "'a transport \<Rightarrow> string \<Rightarrow> bytes \<Rightarrow> client_error + 'a" where
  "client_post http path body =
     ebind (of_option Transport (http path body)) (\<lambda>(status, msg, v).
     if status \<noteq> 200 then Inl (Refused status msg) else of_option Transport v)"

definition list_line ::
  "'x crypto_scheme \<Rightarrow> signer option \<Rightarrow> string \<Rightarrow> bytes \<Rightarrow> time \<Rightarrow> client_error + bytes" where
  "list_line C k approver rnd now =
     ebind (map_err ClientEncode (canonical_Encode (jcs C) (json_of_list_request
       \<lparr>lr_domain = RequestDomain, lr_approver = approver, lr_nonce = b64_encode rnd, lr_ts = format_ts now\<rparr>))) (\<lambda>payload.
     ebind (map_err ClientEnvelope (SignPayload C k approver payload)) (\<lambda>sg.
     map_err ClientEncode (signed_Line C sg)))"

definition client_List ::
  "'x crypto_scheme \<Rightarrow> signer option \<Rightarrow> string \<Rightarrow> bytes \<Rightarrow> time \<Rightarrow> pending_shown list transport \<Rightarrow>
     client_error + pending_shown list" where
  "client_List C k approver rnd now http =
     ebind (list_line C k approver rnd now) (\<lambda>line.
     ebind (client_post http ''/v1/pending'' line) (\<lambda>ps.
     ebind (esequence (map (client_Check C) ps)) (\<lambda>_. Inr ps)))"

definition client_Submit :: "submitted transport \<Rightarrow> bytes \<Rightarrow> client_error + submitted" where
  "client_Submit http statement = client_post http ''/v1/approvals'' statement"


section \<open>List requests\<close>

text \<open>The answers of a server to requests, in the order in which they take its lock.\<close>

fun auth_run :: "'x crypto_scheme \<Rightarrow> key_resolver \<Rightarrow> nonces \<Rightarrow> (bytes \<times> time) list \<Rightarrow> (string + string) list" where
  "auth_run C approvers ns [] = []"
| "auth_run C approvers ns ((body, now) # qs) =
     (let (ns', x) = authenticate C approvers ns body now in x # auth_run C approvers ns' qs)"

lemma auth_run_length [simp]: "length (auth_run C ap ns qs) = length qs"
  by (induction C ap ns qs rule: auth_run.induct) (simp_all split: prod.split)

lemma authenticate_Inr:
  "authenticate C ap ns body now = (ns', Inr kid) \<longleftrightarrow> (\<exists>q ts. checked_request C ap body now = Inr (kid, q, ts) \<and>
     forget_nonces ns now (lr_nonce q) = None \<and> ns' = (forget_nonces ns now)(lr_nonce q \<mapsto> ts + 2 * MaxClockSkew))"
  by (auto simp: authenticate_def consume_nonce_def Let_def split: sum.splits prod.splits if_splits)

lemma checked_request_Inr:
  "checked_request C ap body now = Inr (kid, q, ts) \<longleftrightarrow> (\<exists>sg pub payload. ParseLine C body = Inr sg \<and>
     signed_KeyID C sg = Inr kid \<and> ap kid = Some pub \<and> VerifyPayload C pub sg = Inr payload \<and>
     DecodeStrict (jcs C) dec_list_request json_of_list_request payload = Inr q \<and>
     lr_domain q = RequestDomain \<and> lr_approver q = kid \<and> noncePattern (lr_nonce q) \<and> parse_ts (lr_ts q) = Some ts \<and>
     ts - MaxClockSkew \<le> now \<and> now \<le> ts + MaxClockSkew)"
  by (auto simp: checked_request_def)

lemma checked_request_window:
  "checked_request C ap body now = Inr (kid, q, ts) \<Longrightarrow> parse_ts (lr_ts q) = Some ts \<and> ts - MaxClockSkew \<le> now \<and> now \<le> ts + MaxClockSkew"
  by (auto simp: checked_request_Inr)

text \<open>The request in a body does not depend on the clock.\<close>

lemma checked_request_same:
  assumes "checked_request C ap body now = Inr (kid, q, ts)" "checked_request C ap body now' = Inr (kid', q', ts')"
  shows "kid' = kid \<and> q' = q \<and> ts' = ts"
proof -
  obtain sg pub payload where a: "ParseLine C body = Inr sg" "signed_KeyID C sg = Inr kid" "ap kid = Some pub"
    "VerifyPayload C pub sg = Inr payload" "DecodeStrict (jcs C) dec_list_request json_of_list_request payload = Inr q"
    "parse_ts (lr_ts q) = Some ts"
    using assms(1) unfolding checked_request_Inr by blast
  obtain sg' pub' payload' where b: "ParseLine C body = Inr sg'" "signed_KeyID C sg' = Inr kid'" "ap kid' = Some pub'"
    "VerifyPayload C pub' sg' = Inr payload'" "DecodeStrict (jcs C) dec_list_request json_of_list_request payload' = Inr q'"
    "parse_ts (lr_ts q') = Some ts'"
    using assms(2) unfolding checked_request_Inr by blast
  have "sg' = sg" using a(1) b(1) by simp
  then have k: "kid' = kid" using a(2) b(2) by simp
  then have "payload' = payload" using a(3,4) b(3,4) \<open>sg' = sg\<close> by simp
  then show ?thesis using a(5,6) b(5,6) k by simp
qed

lemma authenticate_keeps:
  assumes "ns n = Some forget" "now \<le> forget" "authenticate C ap ns body now = (ns', x)"
  shows "ns' n = Some forget \<and> (\<forall>kid q ts. checked_request C ap body now = Inr (kid, q, ts) \<and> lr_nonce q = n \<longrightarrow> (\<exists>e. x = Inl e))"
  using assms
  by (auto simp: authenticate_def consume_nonce_def forget_nonces_def Let_def split: sum.splits prod.splits if_splits)

lemma auth_run_used:
  assumes "ns n = Some forget" "j < length qs" "\<forall>k \<le> j. snd (qs ! k) \<le> forget"
    and "checked_request C ap (fst (qs ! j)) (snd (qs ! j)) = Inr (kid, q, ts)" "lr_nonce q = n"
  shows "\<exists>e. auth_run C ap ns qs ! j = Inl e"
  using assms
proof (induction qs arbitrary: ns j)
  case (Cons b qs)
  obtain body now where b: "b = (body, now)" by (cases b)
  obtain ns' x where a: "authenticate C ap ns body now = (ns', x)" by fastforce
  have le: "now \<le> forget" using Cons.prems(3) b by (auto dest: spec [of _ 0])
  note k = authenticate_keeps [OF Cons.prems(1) le a]
  show ?case
  proof (cases j)
    case 0
    then show ?thesis using k Cons.prems(4,5) a b by auto
  next
    case (Suc i)
    have "\<exists>e. auth_run C ap ns' qs ! i = Inl e"
      by (rule Cons.IH) (use Cons.prems Suc k in auto)
    then show ?thesis using a b Suc by simp
  qed
qed simp

lemma auth_run_accepted:
  assumes "i < length qs" "auth_run C ap ns qs ! i = Inr kid" "\<forall>k. i < k \<and> k \<le> j \<longrightarrow> snd (qs ! k) \<le> ts + 2 * MaxClockSkew"
    and "i < j" "j < length qs" "checked_request C ap (fst (qs ! i)) (snd (qs ! i)) = Inr (kid, q, ts)"
    and "checked_request C ap (fst (qs ! j)) (snd (qs ! j)) = Inr (kid', q', ts')" "lr_nonce q' = lr_nonce q"
  shows "\<exists>e. auth_run C ap ns qs ! j = Inl e"
  using assms
proof (induction qs arbitrary: ns i j)
  case (Cons b qs)
  obtain body now where b: "b = (body, now)" by (cases b)
  obtain ns' x where a: "authenticate C ap ns body now = (ns', x)" by fastforce
  obtain j' where j: "j = Suc j'" using Cons.prems(4) by (cases j) auto
  have tail: "snd (qs ! k) \<le> ts + 2 * MaxClockSkew" if "i \<le> k" "k \<le> j'" for k
    using Cons.prems(3) that j by (auto dest: spec [of _ "Suc k"])
  show ?case
  proof (cases i)
    case 0
    then have x: "authenticate C ap ns body now = (ns', Inr kid)" using Cons.prems(2) a b by simp
    then have "ns' (lr_nonce q) = Some (ts + 2 * MaxClockSkew)"
      using Cons.prems(6) 0 b by (auto simp: authenticate_Inr)
    then have "\<exists>e. auth_run C ap ns' qs ! j' = Inl e"
      using auth_run_used [where j = j' and qs = qs and C = C and ap = ap and q = q'] Cons.prems j 0 tail by auto
    then show ?thesis using a b j by simp
  next
    case (Suc i')
    have "\<exists>e. auth_run C ap ns' qs ! j' = Inl e"
      by (rule Cons.IH [of i' ns' j']) (use Cons.prems a b Suc j in \<open>auto dest: spec [of _ "Suc _"]\<close>)
    then show ?thesis using a b j by simp
  qed
qed simp

lemma auth_run_Inr:
  assumes "i < length qs" "auth_run C ap ns qs ! i = Inr kid"
  shows "\<exists>q ts. checked_request C ap (fst (qs ! i)) (snd (qs ! i)) = Inr (kid, q, ts)"
  using assms
proof (induction qs arbitrary: ns i)
  case (Cons b qs)
  obtain body now where b: "b = (body, now)" by (cases b)
  obtain ns' x where a: "authenticate C ap ns body now = (ns', x)" by fastforce
  show ?case
  proof (cases i)
    case 0
    then show ?thesis using Cons.prems a b by (auto simp: authenticate_Inr)
  next
    case (Suc i')
    then show ?thesis using Cons.IH [of i' ns'] Cons.prems a b by simp
  qed
qed simp

text \<open>
  C33: A signed list request is accepted at most once, whatever other requests come before, between and after,
  as long as no request in between read the clock more than a minute later than the repetition.
\<close>

theorem list_request_once:
  assumes "i < j" "j < length qs" "fst (qs ! j) = fst (qs ! i)"
    and "auth_run C ap ns qs ! i = Inr kid" "\<forall>k. i < k \<and> k < j \<longrightarrow> snd (qs ! k) \<le> snd (qs ! j) + MaxClockSkew"
  shows "\<exists>e. auth_run C ap ns qs ! j = Inl e"
proof (rule ccontr)
  assume n: "\<nexists>e. auth_run C ap ns qs ! j = Inl e"
  then obtain kid' where "auth_run C ap ns qs ! j = Inr kid'" by (cases "auth_run C ap ns qs ! j") auto
  then obtain q' ts' where j: "checked_request C ap (fst (qs ! j)) (snd (qs ! j)) = Inr (kid', q', ts')"
    using auth_run_Inr [OF assms(2)] by blast
  obtain q ts where i: "checked_request C ap (fst (qs ! i)) (snd (qs ! i)) = Inr (kid, q, ts)"
    using auth_run_Inr [OF _ assms(4)] assms(1,2) by auto
  have same: "kid' = kid \<and> q' = q \<and> ts' = ts" by (rule checked_request_same [OF i j [unfolded assms(3)]])
  have w: "snd (qs ! j) \<le> ts + MaxClockSkew" using checked_request_window [OF j] same by simp
  have "\<forall>k. i < k \<and> k \<le> j \<longrightarrow> snd (qs ! k) \<le> ts + 2 * MaxClockSkew"
    using assms(5) w by (fastforce simp: le_less MaxClockSkew_def ns_per_s_def)
  then have "\<exists>e. auth_run C ap ns qs ! j = Inl e"
    using auth_run_accepted [OF _ assms(4) _ assms(1,2) i j] assms(1,2) same by simp
  with n show False ..
qed

text \<open>The table of nonces is not kept: a server that starts anew accepts what the one before it accepted.\<close>

theorem restart_forgets_requests:
  assumes "authenticate C ap ns body now = (ns', Inr kid)" "checked_request C ap body now' = Inr (kid', q', ts')"
  shows "snd (authenticate C ap Map.empty body now') = Inr kid"
proof -
  obtain q ts where c: "checked_request C ap body now = Inr (kid, q, ts)" using assms(1) by (auto simp: authenticate_Inr)
  show ?thesis using checked_request_same [OF c assms(2)] assms(2)
    by (auto simp: authenticate_def consume_nonce_def forget_nonces_def)
qed

section \<open>What the client signs\<close>

lemma client_Check_Inr:
  "client_Check C p = Inr u \<longleftrightarrow> (\<exists>salt. b64_decode (pn_ArgsSalt p) = Some salt \<and>
     verify_raw C (args_commitment (pn_Call p)) salt (pn_Args p))"
  by (auto simp: client_Check_def split: option.splits)

text \<open>The canonical form of raw arguments, and what a commitment to them hashes.\<close>

definition raw_json :: "bytes \<Rightarrow> bytes option" where
  "raw_json raw = (if raw = [] then Some ''null'' else marshal_raw raw)"

definition args_canon :: "'x crypto_scheme \<Rightarrow> bytes \<Rightarrow> bytes option" where
  "args_canon C raw = (case raw_json raw of None \<Rightarrow> None
     | Some b \<Rightarrow> (case canonical_Transform (jcs C) b of Inl _ \<Rightarrow> None | Inr c \<Rightarrow> Some c))"

definition args_pre :: "'x crypto_scheme \<Rightarrow> bytes \<Rightarrow> bytes \<Rightarrow> bytes set" where
  "args_pre C salt raw = {salt @ c | c. args_canon C raw = Some c}"

lemma verify_raw_canon:
  "verify_raw C com salt raw \<longleftrightarrow> length salt = SaltSize \<and> (\<exists>c. args_canon C raw = Some c \<and> com = digest_SHA256 (sha256 C) (salt @ c))"
  by (auto simp: verify_raw_def args_canon_def raw_json_def commit_Sum_def split: option.splits sum.splits)

lemma verify_raw_inj:
  assumes "verify_raw C com salt raw" "verify_raw C com salt' raw'" "no_collision (sha256 C) (args_pre C salt raw \<union> args_pre C salt' raw')"
  shows "args_canon C raw = args_canon C raw' \<and> args_canon C raw \<noteq> None"
proof -
  obtain c c' where c: "args_canon C raw = Some c" "args_canon C raw' = Some c'" "length salt = SaltSize" "length salt' = SaltSize"
    "sha256 C (salt @ c) = sha256 C (salt' @ c')"
    using assms(1,2) by (auto simp: verify_raw_canon)
  have "salt @ c = salt' @ c'" by (rule no_collisionD [OF assms(3) c(5)]) (use c in \<open>auto simp: args_pre_def\<close>)
  then show ?thesis using c by simp
qed

lemma commit_Sum_valid: "commit_Sum C salt b = Inr com \<Longrightarrow> digest_Valid com"
  by (auto simp: commit_Sum_def)

lemma call_of_commits:
  assumes "call_of cfg srv t args r"
  shows "\<exists>c salt. r_call r = Some c \<and> verify_raw (cf_C cfg) (args_commitment c) salt args"
proof -
  obtain c b salt where c: "r_call r = Some c" "marshal_raw args = Some b" "commit_Sum (cf_C cfg) salt b = Inr (args_commitment c)"
    using assms by (auto simp: call_of_def)
  moreover have "args \<noteq> []" using c(2) by (auto simp: marshal_raw_def unmarshal_json_def decode_json_def skip_ws_def)
  moreover have "digest_Valid (args_commitment c)" using c(3) by (rule commit_Sum_valid)
  ultimately show ?thesis by (auto simp: verify_raw_def)
qed

lemma client_Sign_Inr:
  "client_Sign C k me p out ttl now = Inr line \<longleftrightarrow> client_Check C p = Inr () \<and>
     (\<exists>cd sg. CallDigest C (pn_TaskID p) (pn_Actor p) (pn_Call p) = Inr cd \<and>
       statement_Sign C k (shown_statement p cd me out ttl now) = Inr sg \<and> signed_Line C sg = Inr line)"
  by (auto simp: client_Sign_def)

text \<open>Whoever verifies a signed statement reads what was signed.\<close>

lemma statement_Sign_read:
  assumes "jcs_ok (jcs C)" "statement_Sign C k s = Inr sg" "signed_Line C sg = Inr line" "json_ok (json_of_statement s)"
    and "ParseLine C line = Inr sg'" "statement_Verify C sg' keys = Inr s'"
  shows "s' = s"
proof -
  obtain payload where pl: "statement_ok s" "canonical_Encode (jcs C) (json_of_statement s) = Inr payload"
    "SignPayload C k (st_approver s) payload = Inr sg"
    using assms(2) by (auto simp: statement_Sign_def statement_Validate_Inr)
  have "sg' = sg" using SignPayload_line [OF assms(1) pl(3)] assms(3,5) by auto
  moreover have "b64_decode (s_payload sg) = Some payload" using pl(3) by (auto simp: SignPayload_Inr b64_decode_encode)
  ultimately have "DecodeStrict (jcs C) dec_statement json_of_statement payload = Inr s'"
    using assms(6) by (auto simp: statement_Verify_Inr VerifyPayload_Inr)
  moreover have "DecodeStrict (jcs C) dec_statement json_of_statement payload = Inr s"
    using json_safe_statement [OF pl(1)] pl(2) assms(4) dec_statement_sorted by (intro DecodeStrict_Encode [OF assms(1)]) auto
  ultimately show ?thesis by simp
qed

lemma Accept_call:
  assumes "Accept C sg d keys now lim = Inr acc"
  shows "\<exists>a c. r_actor d = Some a \<and> r_call d = Some c \<and> statement_Verify C sg keys = Inr (ac_Statement acc) \<and>
    st_decision_seq (ac_Statement acc) = r_seq d \<and> CallDigest C (r_task_id d) a c = Inr (st_call_digest (ac_Statement acc)) \<and>
    map_option a_outcome (r_approval (ac_Receipt acc)) = Some (st_outcome (ac_Statement acc)) \<and>
    map_option a_approver (r_approval (ac_Receipt acc)) = Some (st_approver (ac_Statement acc))"
  using assms unfolding Accept_def Let_def by (auto simp: approval_receipt_def split: option.splits)

lemma Accept_seq:
  "Accept C sg d keys now lim = Inr acc \<Longrightarrow> map_option a_decision_seq (r_approval (ac_Receipt acc)) = Some (r_seq d) \<and>
     st_decision_seq (ac_Statement acc) = r_seq d \<and> statement_Verify C sg keys = Inr (ac_Statement acc)"
  unfolding Accept_def Let_def by (auto simp: approval_receipt_def split: option.splits)

lemma Approve_check_shown:
  "Approve_check cfg g line now = Inr (s, acc) \<longleftrightarrow> (\<exists>sg st p. ParseLine (cf_C cfg) line = Inr sg \<and>
     statement_Verify (cf_C cfg) sg (cf_Approvers cfg) = Inr st \<and> st_decision_seq st = s \<and> map_of (gw_pending g) s = Some p \<and>
     pc_approval p = None \<and> Accept (cf_C cfg) sg (pc_decision p) (cf_Approvers cfg) now (cf_Limits cfg) = Inr acc)"
  by (auto simp: Approve_check_def)

text \<open>
  C5: What an approver saw is what they approve: when the gateway accepts the statement that the client signed
  for a call it was shown, by whatever server, then the call that the gateway holds under that decision is the
  call that was shown: the same task, agent, principal, tool, manifest and outcome, and the arguments that
  the gateway keeps for the tool have the canonical form of the shown ones, unless two of the named
  hashed strings collide.
\<close>

theorem approved_call_was_seen:
  assumes "gateway_run cfg K ks good y es" "jcs_ok (jcs (cf_C cfg))"
    and "client_Sign (cf_C cfg) k me p out ttl t = Inr line" "Approve_check cfg (sy_gw y) line now = Inr (s, acc)"
    and "list_all utf8_valid [pn_ChainID p, me]" "shown_utf8 (pn_TaskID p) (pn_Actor p) (pn_Call p)"
    and "map_of (gw_pending (sy_gw y)) s = Some q" "r_actor (pc_decision q) = Some a" "r_call (pc_decision q) = Some c"
    and "shown_utf8 (r_task_id (pc_decision q)) a c"
    and "no_collision (sha256 (cf_C cfg)) (call_pre (cf_C cfg) (pn_TaskID p) (pn_Actor p) (pn_Call p) \<union>
      call_pre (cf_C cfg) (r_task_id (pc_decision q)) a c)"
  shows "s = pn_DecisionSeq p \<and> r_task_id (pc_decision q) = pn_TaskID p \<and> a = pn_Actor p \<and> c = pn_Call p \<and>
    map_option a_outcome (r_approval (ac_Receipt acc)) = Some out \<and> map_option a_approver (r_approval (ac_Receipt acc)) = Some me \<and>
    (\<exists>salt salt'. b64_decode (pn_ArgsSalt p) = Some salt \<and> verify_raw (cf_C cfg) (args_commitment c) salt' (pc_args q) \<and>
      (no_collision (sha256 (cf_C cfg)) (args_pre (cf_C cfg) salt (pn_Args p) \<union> args_pre (cf_C cfg) salt' (pc_args q)) \<longrightarrow>
        args_canon (cf_C cfg) (pn_Args p) = args_canon (cf_C cfg) (pc_args q) \<and> args_canon (cf_C cfg) (pc_args q) \<noteq> None))"
proof -
  let ?C = "cf_C cfg"
  obtain cd sg where sg: "client_Check ?C p = Inr ()" "CallDigest ?C (pn_TaskID p) (pn_Actor p) (pn_Call p) = Inr cd"
    "statement_Sign ?C k (shown_statement p cd me out ttl t) = Inr sg" "signed_Line ?C sg = Inr line"
    using assms(3) by (auto simp: client_Sign_Inr)
  obtain sg' st where ap: "ParseLine ?C line = Inr sg'" "statement_Verify ?C sg' (cf_Approvers cfg) = Inr st" "st_decision_seq st = s"
    "Accept ?C sg' (pc_decision q) (cf_Approvers cfg) now (cf_Limits cfg) = Inr acc"
    using assms(4,7) by (auto simp: Approve_check_shown)
  let ?st = "shown_statement p cd me out ttl t"
  have "statement_ok ?st" using sg(3) by (auto simp: statement_Sign_def statement_Validate_Inr)
  then have "json_ok (json_of_statement ?st)" using assms(5)
    using utf8_valid_ascii [OF digest_Valid_ascii [of cd]]
    by (auto simp: json_of_statement_def shown_statement_def statement_ok_def StatementDomain_def Approved_def Rejected_def
        utf8_valid_ascii)
  then have st: "st = ?st" using statement_Sign_read [OF assms(2) sg(3,4) _ ap(1,2)] by simp
  have sel: "st_call_digest ?st = cd" "st_outcome ?st = out" "st_approver ?st = me" "st_decision_seq ?st = pn_DecisionSeq p"
    by (simp_all add: shown_statement_def)
  have acs: "ac_Statement acc = st" "CallDigest ?C (r_task_id (pc_decision q)) a c = Inr cd"
      "map_option a_outcome (r_approval (ac_Receipt acc)) = Some out" "map_option a_approver (r_approval (ac_Receipt acc)) = Some me"
    using Accept_call [OF ap(4)] ap(2) assms(8,9) sel unfolding st [symmetric] by auto
  have same: "r_task_id (pc_decision q) = pn_TaskID p \<and> a = pn_Actor p \<and> c = pn_Call p"
    using CallDigest_inj [OF sg(2) acs(2) assms(2,6,10,11)] by auto
  obtain salt where salt: "b64_decode (pn_ArgsSalt p) = Some salt" "verify_raw ?C (args_commitment c) salt (pn_Args p)"
    using sg(1) same by (auto simp: client_Check_Inr)
  have "pending_ok cfg es s q"
    using gateway_run_inv [OF assms(1,2)] held_okD assms(7) by (auto simp: gw_inv_def)
  then obtain salt' where salt': "verify_raw ?C (args_commitment c) salt' (pc_args q)"
    using call_of_commits [of cfg "pc_server q" "pc_tool q" "pc_args q" "pc_decision q"] assms(9)
    by (auto simp: pending_ok_def decided_def)
  have "\<exists>salt salt'. b64_decode (pn_ArgsSalt p) = Some salt \<and> verify_raw ?C (args_commitment c) salt' (pc_args q) \<and>
      (no_collision (sha256 ?C) (args_pre ?C salt (pn_Args p) \<union> args_pre ?C salt' (pc_args q)) \<longrightarrow>
        args_canon ?C (pn_Args p) = args_canon ?C (pc_args q) \<and> args_canon ?C (pc_args q) \<noteq> None)"
    using salt(1) salt' verify_raw_inj [OF salt(2) salt'] by metis
  then show ?thesis using same acs(3,4) ap(3) sel(4) st by simp
qed


section \<open>An honest request is accepted\<close>

lemma nonce_char_b64: "n < 64 \<Longrightarrow> nonce_char (b64_char n)"
  by (auto simp: nonce_char_def b64_char_byte)

lemma nonce_chars_b64: "list_all nonce_char (b64_encode s)"
  by (induction s rule: b64_encode.induct) (simp_all add: b64_sextets nonce_char_b64)

lemma b64_length_quanta: "length s mod 3 = 0 \<Longrightarrow> 3 * length (b64_encode s) = 4 * length s"
  by (induction s rule: b64_encode.induct) auto

lemma dec_list_request_sorted: "dec_list_request (sort_json (json_of_list_request q)) = Some q"
  unfolding json_of_list_request_def dec_list_request_def by (subst fields_of_sorted) (auto simp: struct_simps)

lemma list_line_checked:
  assumes "file_signer C k" "jcs_ok (jcs C)" "utf8_valid me" "list_line C (Some k) me rnd now = Inr line" "length rnd = 24"
    and "sgn_Public k = Some p" "ap me = Some p" "0 \<le> now" "now < y10k" "\<bar>now' - (now - now mod ns_per_ms)\<bar> \<le> MaxClockSkew"
  shows "checked_request C ap line now' = Inr (me, \<lparr>lr_domain = RequestDomain, lr_approver = me, lr_nonce = b64_encode rnd,
    lr_ts = format_ts now\<rparr>, now - now mod ns_per_ms)"
proof -
  let ?q = "\<lparr>lr_domain = RequestDomain, lr_approver = me, lr_nonce = b64_encode rnd, lr_ts = format_ts now\<rparr>"
  obtain payload sg where pl: "canonical_Encode (jcs C) (json_of_list_request ?q) = Inr payload"
    "SignPayload C (Some k) me payload = Inr sg" "signed_Line C sg = Inr line"
    using assms(4) by (auto simp: list_line_def)
  have j: "json_ok (json_of_list_request ?q)" "json_safe (json_of_list_request ?q)"
    using assms(3) by (simp_all add: json_of_list_request_def RequestDomain_def utf8_valid_ascii)
  have "DecodeStrict (jcs C) dec_list_request json_of_list_request payload = Inr ?q"
    using DecodeStrict_Encode [where enc = json_of_list_request and v = ?q, OF assms(2) j pl(1)]
      dec_list_request_sorted by blast
  moreover have "ParseLine C line = Inr sg" using SignPayload_line [OF assms(2) pl(2)] pl(3) by auto
  moreover have "signed_KeyID C sg = Inr me"
    using SignPayload_header [OF assms(2) pl(2) assms(3)] by (simp add: signed_KeyID_def new_header_def)
  moreover have "VerifyPayload C p sg = Inr payload"
    by (rule file_keys.SignPayload_verifies [OF assms(1-3) pl(2) assms(6)])
  moreover have "noncePattern (b64_encode rnd)"
    using b64_length_quanta [of rnd] assms(5) by (simp add: noncePattern_def nonce_chars_b64)
  moreover have "parse_ts (format_ts now) = Some (now - now mod ns_per_ms)"
    using assms(8,9) parse_format_ts by blast
  ultimately show ?thesis using assms(7,10) by (auto simp: checked_request_Inr)
qed

text \<open>
  The list request that a client signs is accepted by a server that trusts its key, whose clock is at most a
  minute away from the client's and that has not seen the nonce.
\<close>

theorem list_request_accepted:
  assumes "file_signer C k" "jcs_ok (jcs C)" "utf8_valid me" "list_line C (Some k) me rnd now = Inr line" "length rnd = 24"
    and "sgn_Public k = Some p" "ap me = Some p" "0 \<le> now" "now < y10k" "\<bar>now' - (now - now mod ns_per_ms)\<bar> \<le> MaxClockSkew"
    and "ns (b64_encode rnd) = None"
  shows "snd (authenticate C ap ns line now') = Inr me"
  using list_line_checked [where C = C and ap = ap, OF assms(1-10)] assms(11)
  by (simp add: authenticate_def consume_nonce_def forget_nonces_def)

section \<open>What a submission changes\<close>

lemma Approve_record_Inr:
  assumes "Approve_record cfg g s acc ok1 ok2 = (g', Inr a)"
  shows "r_approval (ac_Receipt acc) = Some a \<and>
    gw_pending g' = AList.map_entry s (\<lambda>p. p\<lparr>pc_approval := Some a\<rparr>) (gw_pending g)"
  using assms by (auto simp: Approve_record_def split: prod.splits sum.splits)

lemma Approve_record_Inl:
  assumes "Approve_record cfg g s acc ok1 ok2 = (g', Inl e)" "store_holds (cf_C cfg) es (gw_store g)" "r_approval (ac_Receipt acc) \<noteq> None"
  shows "gw_pending g' = gw_pending g \<and> store_holds (cf_C cfg) es (gw_store g')"
proof -
  obtain s1 x where s1: "SaveStatement (cf_C cfg) (gw_store g) (ac_StatementLine acc) ok1 = (s1, x)" by fastforce
  have h: "store_holds (cf_C cfg) es s1" using SaveStatement_same_log [OF s1] assms(2) by (simp add: same_log_holds)
  obtain s2 z where s2: "store_Append (cf_C cfg) s1 (ac_Receipt acc) ok2 = (s2, z)" by fastforce
  show ?thesis using assms(1,3) h s1 s2 store_Append_Inl [OF h, of "ac_Receipt acc" ok2]
    by (cases x; cases z) (auto simp: Approve_record_def)
qed

lemma Accept_has_approval: "Accept C sg d keys now lim = Inr acc \<Longrightarrow> r_approval (ac_Receipt acc) \<noteq> None"
  using Accept_call [of C sg d keys now lim acc] by auto

lemma submit_status_fails: "submit_status e \<noteq> HttpOK v"
  by (cases e rule: submit_status.cases) simp_all

text \<open>
  C35: A submission is answered with success exactly when the approval of that decision is recorded and the held
  call carries it; whatever else is answered, an error or a closed connection, no held call has changed
  and the log is the one from before.
\<close>

theorem submit_all_or_nothing:
  assumes "store_holds (cf_C cfg) es (gw_store g)" "server_submit cfg g mb now ok1 ok2 = (g', rep)"
  shows "case rep of
      HttpOK v \<Rightarrow> (\<exists>body acc a. readBody mb = Inr body \<and> Approve_check cfg g body now = Inr (a_decision_seq a, acc) \<and>
        v = Some \<lparr>sb_DecisionSeq = a_decision_seq a, sb_Outcome = a_outcome a, sb_Approver = a_approver a,
          sb_ExpiresTS = a_expires_ts a\<rparr> \<and> r_approval (ac_Receipt acc) = Some a \<and>
        gw_pending g' = AList.map_entry (a_decision_seq a) (\<lambda>p. p\<lparr>pc_approval := Some a\<rparr>) (gw_pending g))
    | _ \<Rightarrow> gw_pending g' = gw_pending g \<and> store_holds (cf_C cfg) es (gw_store g')"
proof (cases "ebind (map_err Inl (readBody mb)) (\<lambda>body. map_err Inr (Approve_check cfg g body now))")
  case (Inl e)
  then show ?thesis using assms submit_status_fails
    by (auto simp: server_submit_def gateway_Approve_def ebind_Inl_iff split: http_reply.splits)
next
  case (Inr sa)
  obtain body s acc where b: "readBody mb = Inr body" "Approve_check cfg g body now = Inr (s, acc)"
    using Inr by (cases sa) auto
  have h: "r_approval (ac_Receipt acc) \<noteq> None" using b(2) Accept_has_approval by (auto simp: Approve_check_shown)
  obtain g1 x where r: "Approve_record cfg g s acc ok1 ok2 = (g1, x)" by fastforce
  show ?thesis
  proof (cases x)
    case (Inl e)
    then have "g' = g1" "rep = submit_status e" using assms(2) b r by (simp_all add: server_submit_def gateway_Approve_def)
    then show ?thesis using Approve_record_Inl [OF r [unfolded Inl] assms(1) h] submit_status_fails
      by (auto split: http_reply.splits)
  next
    case (Inr a)
    have "a_decision_seq a = s"
      using Approve_record_Inr [OF r [unfolded Inr]] b(2) by (auto simp: Approve_check_shown dest!: Accept_seq)
    then show ?thesis using Approve_record_Inr [OF r [unfolded Inr]] Inr b r assms(2)
      by (auto simp: server_submit_def gateway_Approve_def)
  qed
qed

end
