(* ===== verification/ApproverWitnesses.thy ===== *)
theory ApproverWitnesses
  imports GatewayWitnesses ApproverApi Tsa
begin

text \<open>
  The approver API on concrete input: the sample call is held, an approver lists it, signs what they see and
  submits it.
\<close>

section \<open>A line that survives trimming\<close>

lemma bare_b64: "list_all bare (b64_encode s)"
proof -
  have "bare (b64_char n)" if "n < 64" for n using b64_char_byte [OF that] that by (auto simp: bare_def)
  then show ?thesis by (induction s rule: b64_encode.induct) (simp_all add: b64_sextets)
qed

lemma envelope_line:
  assumes "SignPayload toy k kid payload = Inr sg" "signed_Line toy sg = Inr line"
  shows "solid line \<and> length line \<le> length (s_payload sg) + length (s_protected sg) + length (s_signature sg) + 100"
proof -
  obtain p h g where sg: "sg = \<lparr>s_payload = b64_encode p, s_protected = b64_encode h, s_signature = b64_encode g\<rparr>"
    using assms(1) by (auto simp: SignPayload_Inr)
  have srt: "sort_json (json_of_signed sg) = json_of_signed sg" by (simp add: json_of_signed_def sort_key_def less_list_code)
  have line: "line = marshal (json_of_signed sg)"
    using canonical_Encode_model [of "json_of_signed sg" line] assms json_signed_ok srt
    by (auto simp: signed_Line_def toy_ok(3) SignPayload_Inr)
  have q34: "char_of (34 :: nat) = CHR 0x22" by code_simp
  have nl: "newline = CHR 0x0A" by code_simp
  have q: "quote_json s = CHR 0x22 # s @ [CHR 0x22]" if "list_all bare s" for s
    using that by (simp add: quote_json_def escape_bare q34)
  have b: "list_all bare ''payload''" "list_all bare ''protected''" "list_all bare ''signature''" by (simp_all add: bare_def)
  note a = bare_ascii(1) [OF bare_b64] bare_ascii(2) [OF bare_b64]
  show ?thesis
    unfolding line json_of_signed_def sg
    using a by (simp add: q [OF b(1)] q [OF b(2)] q [OF b(3)] q [OF bare_b64] solid_def is_space_def nl)
qed

section \<open>Listing\<close>

definition sample_nonce :: bytes where
  "sample_nonce = replicate 24 (CHR ''r'')"

lemma sample_list_line: "\<exists>line. list_line toy (Some toy_signer) ''bob'' sample_nonce (time_of sample_ts) = Inr line"
proof -
  let ?q = "\<lparr>lr_domain = RequestDomain, lr_approver = ''bob'', lr_nonce = b64_encode sample_nonce, lr_ts = format_ts (time_of sample_ts)\<rparr>"
  have j: "json_ok (json_of_list_request ?q)" "json_safe (json_of_list_request ?q)"
    by (simp_all add: json_of_list_request_def RequestDomain_def utf8_valid_ascii)
  obtain payload where p: "canonical_Encode (jcs toy) (json_of_list_request ?q) = Inr payload" "canonical_Check (jcs toy) payload = Inr ()"
    using canonical_Encode_ok [OF toy_ok(2) j] by blast
  obtain hdr where "canonical_Encode (jcs toy) (json_of_header (new_header ''bob'')) = Inr hdr"
    using canonical_Encode_ok [OF toy_ok(2), of "json_of_header (new_header ''bob'')"]
    by (auto simp: json_header_ok utf8_valid_ascii)
  then obtain sg where s: "SignPayload toy (Some toy_signer) ''bob'' payload = Inr sg"
    using p(2) by (auto simp: SignPayload_Inr id_ok_ascii)
  then obtain line where "signed_Line toy sg = Inr line" using SignPayload_line [OF toy_ok(2) s] by blast
  with p s show ?thesis by (auto simp: list_line_def)
qed

lemma sample_list_now: "time_of sample_ts - (time_of sample_ts - time_of sample_ts mod ns_per_ms) = 0"
  by code_simp

theorem list_request_accepted_witness:
  "\<exists>line. list_line toy (Some toy_signer) ''bob'' sample_nonce (time_of sample_ts) = Inr line \<and>
     snd (authenticate toy toy_approvers Map.empty line (time_of sample_ts)) = Inr ''bob''"
proof -
  obtain line where l: "list_line toy (Some toy_signer) ''bob'' sample_nonce (time_of sample_ts) = Inr line" using sample_list_line by blast
  have "snd (authenticate toy toy_approvers Map.empty line (time_of sample_ts)) = Inr ''bob''"
    by (rule list_request_accepted [OF toy_signer_ok toy_ok(2) _ l, of toy_public])
      (use sample_times sample_list_now in \<open>simp_all add: utf8_valid_ascii sample_nonce_def toy_approvers_bob MaxClockSkew_def ns_per_s_def\<close>)
  with l show ?thesis by blast
qed

text \<open>The first of two equal requests is accepted; the second is sent half a minute later.\<close>

theorem list_request_once_witness:
  "\<exists>line e. auth_run toy toy_approvers Map.empty [(line, time_of sample_ts), (line, time_of sample_ts + 30 * ns_per_s)] ! 1 = Inl e"
proof -
  obtain line where l: "list_line toy (Some toy_signer) ''bob'' sample_nonce (time_of sample_ts) = Inr line" using sample_list_line by blast
  have a: "snd (authenticate toy toy_approvers Map.empty line (time_of sample_ts)) = Inr ''bob''"
    using list_line_checked [OF toy_signer_ok toy_ok(2) _ l, of toy_public toy_approvers "time_of sample_ts"] sample_times sample_list_now
    by (simp add: utf8_valid_ascii sample_nonce_def toy_approvers_bob MaxClockSkew_def ns_per_s_def
        authenticate_def consume_nonce_def forget_nonces_def)
  let ?qs = "[(line, time_of sample_ts), (line, time_of sample_ts + 30 * ns_per_s)]"
  have f: "auth_run toy toy_approvers Map.empty ?qs ! 0 = Inr ''bob''"
    using a by (cases "authenticate toy toy_approvers Map.empty line (time_of sample_ts)") simp
  have "\<exists>e. auth_run toy toy_approvers Map.empty ?qs ! 1 = Inl e"
    by (rule list_request_once [OF _ _ _ f]) simp_all
  then show ?thesis by blast
qed

section \<open>Approving what is seen\<close>

definition sample_shown_pending :: pending_shown where
  "sample_shown_pending = \<lparr>pn_ChainID = ''c1'', pn_DecisionSeq = 0, pn_DecisionTS = sample_ts, pn_TaskID = ''job'',
     pn_Actor = sample_botactor, pn_Call = sample_callrec, pn_Rule = [], pn_Taint = [], pn_Args = ''{}'',
     pn_ArgsSalt = b64_encode sample_salt, pn_Approval = None\<rparr>"

definition sample_ttl :: int where
  "sample_ttl = time_of expiry_ts - time_of sample_ts"

lemma sample_client_Sign:
  "\<exists>sg line. client_Sign toy (Some toy_signer) ''bob'' sample_shown_pending Approved sample_ttl (time_of sample_ts) = Inr line \<and>
     statement_Sign toy (Some toy_signer) (sample_statement 0) = Inr sg \<and> signed_Line toy sg = Inr line \<and> ParseLine toy line = Inr sg"
proof -
  have c: "marshal_raw ''{}'' = Some ''{}''" "canonical_Transform (jcs toy) ''{}'' = Inr ''{}''"
    by (simp_all add: toy_ok(3)) (code_simp+)
  have "verify_raw toy sample_commitment sample_salt ''{}''"
    using c by (simp add: verify_raw_def sample_texts commit_Sum_def sample_commitment_def) (simp add: sample_salt_def SaltSize_def)
  then have "client_Check toy sample_shown_pending = Inr ()"
    by (simp add: client_Check_def sample_shown_pending_def b64_decode_encode sample_callrec_def)
  moreover have "shown_statement sample_shown_pending sample_calldigest ''bob'' Approved sample_ttl (time_of sample_ts) = sample_statement 0"
    by (simp add: shown_statement_def sample_shown_pending_def sample_statement_def sample_ttl_def format_time_of ts_valid)
  ultimately show ?thesis using sample_signed [of 0] sample_CallDigest(1)
    by (auto simp: client_Sign_def) (simp add: sample_shown_pending_def)
qed

theorem approved_call_was_seen_witness:
  "\<exists>(y :: unit system) es line s acc q salt salt'. gateway_run (toy_config RequireApproval) toy_keys () (well_signed toy toy_keys ()) y es \<and>
     client_Sign toy (Some toy_signer) ''bob'' sample_shown_pending Approved sample_ttl (time_of sample_ts) = Inr line \<and>
     Approve_check (toy_config RequireApproval) (sy_gw y) line (time_of sample_ts) = Inr (s, acc) \<and>
     map_of (gw_pending (sy_gw y)) s = Some q \<and> s = 0 \<and> r_task_id (pc_decision q) = ''job'' \<and>
     map_option a_outcome (r_approval (ac_Receipt acc)) = Some Approved \<and> b64_decode (pn_ArgsSalt sample_shown_pending) = Some salt \<and>
     verify_raw toy sample_commitment salt' (pc_args q)"
proof -
  let ?cfg = "toy_config RequireApproval" and ?q = "sample_pending RequireApproval 0"
  obtain y :: "unit system" and e where y: "gateway_run ?cfg toy_keys () (well_signed toy toy_keys ()) y [e]"
    "gw_pending (sy_gw y) = [(0, ?q)]"
    using sample_recorded [of RequireApproval] by (auto simp: receipt_consts)
  obtain sg line where l: "client_Sign toy (Some toy_signer) ''bob'' sample_shown_pending Approved sample_ttl (time_of sample_ts) = Inr line"
    "statement_Sign toy (Some toy_signer) (sample_statement 0) = Inr sg" "signed_Line toy sg = Inr line" "ParseLine toy line = Inr sg"
    using sample_client_Sign by blast
  note a = sample_checked [OF y(2) l(2-4)]
  have cf: "cf_C ?cfg = toy" by (simp add: toy_config_def)
  have p: "pn_TaskID sample_shown_pending = ''job''" "pn_Actor sample_shown_pending = sample_botactor"
    "pn_Call sample_shown_pending = sample_callrec" "pn_ChainID sample_shown_pending = ''c1''"
    by (simp_all add: sample_shown_pending_def)
  have nc: "no_collision (sha256 toy) (call_pre toy ''job'' sample_botactor sample_callrec \<union> call_pre toy ''job'' sample_botactor sample_callrec)"
    by (auto simp: no_collision_def inj_on_def call_pre_def)
  have q: "map_of (gw_pending (sy_gw y)) 0 = Some ?q" by (simp add: y(2))
  from approved_call_was_seen [OF y(1), unfolded cf, OF toy_ok(2) l(1) a _ _ q sample_held_simps(5,6), unfolded p sample_held_simps(7)]
  have r: "map_option a_outcome (r_approval (ac_Receipt (sample_accepted (pc_decision ?q) line))) = Some Approved \<and>
    (\<exists>salt salt'. b64_decode (pn_ArgsSalt sample_shown_pending) = Some salt \<and> verify_raw toy (args_commitment sample_callrec) salt' (pc_args ?q))"
    using nc sample_shown by (auto simp: utf8_valid_ascii)
  have sc: "args_commitment sample_callrec = sample_commitment" by (simp add: sample_callrec_def)
  show ?thesis using y(1) l(1) a q r sample_held_simps(7) unfolding sc by blast
qed

lemma sample_statement_line:
  assumes "statement_Sign toy (Some toy_signer) (sample_statement 0) = Inr sg" "signed_Line toy sg = Inr line"
  shows "solid line \<and> length line \<le> maxBody"
proof -
  obtain payload where pl: "canonical_Encode (jcs toy) (json_of_statement (sample_statement 0)) = Inr payload"
    "SignPayload toy (Some toy_signer) ''bob'' payload = Inr sg"
    using assms(1) by (auto simp: statement_Sign_def) (simp add: sample_statement_def)
  obtain hdr where hd: "canonical_Encode (jcs toy) (json_of_header (new_header ''bob'')) = Inr hdr"
    "sg = \<lparr>s_payload = b64_encode payload, s_protected = b64_encode hdr,
      s_signature = b64_encode (toy_sig MLDSA65 @ replicate 64 (CHR ''f''))\<rparr>"
    using pl(2) by (auto simp: SignPayload_Inr)
  have h: "length hdr < 2000"
    by (rule encoded_length [OF _ hd(1)]) (simp_all add: json_header_ok utf8_valid_ascii json_of_header_def new_header_def Alg_def AlgRef_def)
  have p: "length payload < 4000"
    by (rule encoded_length [OF sample_statement_json pl(1)])
      (use digest_Valid_length [OF sample_CallDigest(2)] in \<open>simp add: json_of_statement_def sample_statement_def
        StatementDomain_def receipt_consts sample_ts_def expiry_ts_def show_int_def dec_digits_01\<close>)
  have "length (b64_encode (toy_sig MLDSA65 @ replicate 64 (CHR ''f''))) \<le> 8000"
    using length_b64_encode [of "toy_sig MLDSA65 @ replicate 64 (CHR ''f'')"] by (simp add: toy_sig_def)
  then show ?thesis using envelope_line [OF pl(2) assms(2)] h p length_b64_encode [of payload] length_b64_encode [of hdr]
    by (simp add: hd(2) maxBody_def)
qed

theorem submit_all_or_nothing_witness:
  "\<exists>(y :: unit system) line g' ap. server_submit (toy_config RequireApproval) (sy_gw y) (Some line) (time_of sample_ts) True True =
       (g', HttpOK (Some \<lparr>sb_DecisionSeq = a_decision_seq ap, sb_Outcome = a_outcome ap, sb_Approver = a_approver ap,
         sb_ExpiresTS = a_expires_ts ap\<rparr>)) \<and> a_expires_ts ap = expiry_ts \<and>
     gw_pending g' = AList.map_entry (a_decision_seq ap) (\<lambda>p. p\<lparr>pc_approval := Some ap\<rparr>) (gw_pending (sy_gw y))"
proof -
  let ?cfg = "toy_config RequireApproval"
  obtain y :: "unit system" and e where y: "sample_store [e] (gw_store (sy_gw y))" "r_ts (e_rcpt e) = sample_ts"
    "gw_pending (sy_gw y) = [(0, sample_pending RequireApproval 0)]"
    using sample_recorded [of RequireApproval] by (auto simp: receipt_consts)
  obtain sg line acc ap g' where l: "statement_Sign toy (Some toy_signer) (sample_statement 0) = Inr sg" "signed_Line toy sg = Inr line"
    and a: "Approve_check ?cfg (sy_gw y) line (time_of sample_ts) = Inr (0, acc)"
    "Approve_record ?cfg (sy_gw y) 0 acc True True = (g', Inr ap)" "a_outcome ap = Approved" "a_expires_ts ap = expiry_ts"
    using sample_approved [OF y(1,3,2)] by blast
  have b: "readBody (Some line) = Inr line" using sample_statement_line [OF l(1,2)] by (simp add: readBody_def solid_trim_self)
  have r: "server_submit ?cfg (sy_gw y) (Some line) (time_of sample_ts) True True =
      (g', HttpOK (Some \<lparr>sb_DecisionSeq = a_decision_seq ap, sb_Outcome = Approved, sb_Approver = a_approver ap, sb_ExpiresTS = expiry_ts\<rparr>))"
    using a b by (simp add: server_submit_def gateway_Approve_def)
  have cf: "cf_C ?cfg = toy" by (simp add: toy_config_def)
  obtain body acc' x where x: "Some \<lparr>sb_DecisionSeq = a_decision_seq ap, sb_Outcome = Approved, sb_Approver = a_approver ap, sb_ExpiresTS = expiry_ts\<rparr> =
      Some \<lparr>sb_DecisionSeq = a_decision_seq x, sb_Outcome = a_outcome x, sb_Approver = a_approver x, sb_ExpiresTS = a_expires_ts x\<rparr>"
    "gw_pending g' = AList.map_entry (a_decision_seq x) (\<lambda>p. p\<lparr>pc_approval := Some x\<rparr>) (gw_pending (sy_gw y))"
    using submit_all_or_nothing [where cfg = ?cfg and es = "[e]", unfolded cf, OF _ r] y(1) by (auto simp: sample_store_def)
  show ?thesis
    by (intro exI [of _ y] exI [of _ line] exI [of _ g'] exI [of _ x]) (use r x in simp)
qed

end
