(* ===== verification/Upstream.thy ===== *)
theory Upstream
  imports GatewayRules GoText
begin

text \<open>
  Tool servers (\<open>internal/upstream/upstream.go\<close>).  The Model Context Protocol package is a parameter: what a
  session lists and answers is an argument.  Connecting is modelled up to the session: which servers are
  accepted, the environment of a process, the header of a request.
\<close>

section \<open>Servers\<close>

definition Reserved :: string where
  "Reserved = ''warden''"

definition serverNamePattern :: "string \<Rightarrow> bool" where
  "serverNamePattern = matches_chars (\<lambda>c. upper c \<or> lower c \<or> decimal c \<or> c \<in> set ''_-'') 64"

record tool_server =
  sv_Name :: string
  sv_URL :: string
  sv_Command :: "string list"

datatype upstream_error =
  BadServer string
| Undeliverable string
| ServerSecret broker_error
| ConnectFailed
| UnknownServer
| NoSuchTool
| ToolListing
| ToolDefinition
| CallFailed
| BadAuthors string
| RenderFailed

text \<open>\<open>validate\<close> for the bindings of the server, as \<open>Describe\<close> lists them.\<close>

fun deliverable :: "tool_server \<Rightarrow> binding list \<Rightarrow> upstream_error + unit" where
  "deliverable s [] = Inr ()"
| "deliverable s (b # bs) =
     (if sv_URL s \<noteq> [] \<and> bd_Inject b = InjectEnv then Inl (Undeliverable ''environment credential'')
      else if sv_URL s = [] \<and> bd_Inject b = InjectHeader then Inl (Undeliverable ''header credential'')
      else if sv_URL s = [] \<and> bd_Tool b \<noteq> ''*'' then Inl (Undeliverable ''per-tool credential'')
      else deliverable s bs)"

definition upstream_validate :: "tool_server \<Rightarrow> binding list \<Rightarrow> string list \<Rightarrow> upstream_error + unit" where
  "upstream_validate s bindings existing =
     (if \<not> serverNamePattern (sv_Name s) then Inl (BadServer ''name'')
      else if sv_Name s = Reserved then Inl (BadServer ''reserved'')
      else if sv_Name s \<in> set existing then Inl (BadServer ''duplicate'')
      else if (sv_URL s = []) = (sv_Command s = []) then Inl (BadServer ''URL or command'')
      else deliverable s bindings)"

text \<open>
  A session, as far as it is decided here: the endpoint, or the program with the environment it is started in.
\<close>

datatype session = HTTPSession string | ProcessSession "string list" "(string \<times> string) list"

definition open_session :: "broker \<Rightarrow> string \<Rightarrow> tool_server \<Rightarrow> upstream_error + session" where
  "open_session brk path s =
     (if sv_URL s \<noteq> [] then Inr (HTTPSession (sv_URL s))
      else ebind (map_err ServerSecret (ServerCredentials brk (sv_Name s))) (\<lambda>creds.
        Inr (ProcessSession (sv_Command s)
          ((''PATH'', path) # map (\<lambda>c. (cr_Name c, secret_Reveal (cr_Value c))) creds))))"

text \<open>
  \<open>Connect\<close>; \<open>keys\<close> is the order in which \<open>Describe\<close> visits the bindings, \<open>ok\<close> says whether the session to
  a server can be opened.  On an error the sessions opened so far are closed.
\<close>

definition connect_one ::
  "broker \<Rightarrow> (string \<times> string) list \<Rightarrow> string \<Rightarrow> (string \<Rightarrow> bool) \<Rightarrow> (string \<times> session) list \<Rightarrow> tool_server \<Rightarrow>
     upstream_error + (string \<times> session) list" where
  "connect_one brk keys path ok ss s =
     ebind (upstream_validate s (broker_Describe brk keys (sv_Name s)) (map fst ss)) (\<lambda>_.
     ebind (open_session brk path s) (\<lambda>x.
     if ok (sv_Name s) then Inr (ss @ [(sv_Name s, x)]) else Inl ConnectFailed))"

definition Connect ::
  "broker \<Rightarrow> (string \<times> string) list \<Rightarrow> string \<Rightarrow> (string \<Rightarrow> bool) \<Rightarrow> tool_server list \<Rightarrow>
     upstream_error + (string \<times> session) list" where
  "Connect brk keys path ok servers = efold (connect_one brk keys path ok) [] servers"

section \<open>The header of a request\<close>

text \<open>\<open>http.Header\<close> is a map under canonical names (\<open>textproto.CanonicalMIMEHeaderKey\<close>).\<close>

type_synonym http_header = "string \<rightharpoonup> string list"

definition up_char :: "char \<Rightarrow> char" where
  "up_char c = (if 97 \<le> byte c \<and> byte c \<le> 122 then char_of (byte c - 32) else c)"

fun canon_key :: "bool \<Rightarrow> string \<Rightarrow> string" where
  "canon_key up [] = []"
| "canon_key up (c # s) = (if up then up_char c else fold_char c) # canon_key (c = CHR ''-'') s"

definition header_char :: "char \<Rightarrow> bool" where
  "header_char c \<longleftrightarrow> upper c \<or> lower c \<or> decimal c \<or> c \<in> set ''!#$%&*+.^_|~-'' \<or> byte c = 39 \<or> byte c = 96"

definition canonical_key :: "string \<Rightarrow> string" where
  "canonical_key s = (if list_all header_char s then canon_key True s else s)"

definition header_Set :: "http_header \<Rightarrow> string \<Rightarrow> string \<Rightarrow> http_header" where
  "header_Set h k v = h(canonical_key k \<mapsto> [v])"

definition header_Get :: "http_header \<Rightarrow> string \<Rightarrow> string" where
  "header_Get h k = (case h (canonical_key k) of Some (v # _) \<Rightarrow> v | _ \<Rightarrow> [])"

definition header_Del :: "http_header \<Rightarrow> string \<Rightarrow> http_header" where
  "header_Del h k = h(canonical_key k := None)"

definition set_credential :: "http_header \<Rightarrow> credential \<Rightarrow> http_header" where
  "set_credential h c = (if cr_Inject c = InjectHeader then header_Set h (cr_Name c) (secret_Reveal (cr_Value c)) else h)"

definition RoundTrip :: "credential list \<Rightarrow> http_header \<Rightarrow> http_header" where
  "RoundTrip creds h = foldl set_credential h creds"

section \<open>Tools and their manifests\<close>

text \<open>
  A listed tool: for the values of type \<open>any\<close>, \<open>None\<close> is nil and otherwise there is what \<open>json.Marshal\<close> makes of
  the value, if it can.
\<close>

record mcp_tool =
  mt_Name :: string
  mt_Title :: string
  mt_Description :: string
  mt_InputSchema :: "bytes option option"
  mt_OutputSchema :: "bytes option option"
  mt_Annotations :: "bytes option option"

text \<open>
  \<open>json.Unmarshal\<close> into \<open>any\<close>: the last of two equal members stays; \<open>num\<close> is what becomes of a number, which is
  a floating-point value.
\<close>

fun any_json :: "(json \<Rightarrow> json) \<Rightarrow> json \<Rightarrow> json" where
  "any_json num (JArr js) = JArr (map (any_json num) js)"
| "any_json num (JObj fs) = JObj (AList.clearjunk (rev (map (\<lambda>(k, j). (k, any_json num j)) fs)))"
| "any_json num (JInt i) = num (JInt i)"
| "any_json num (JNum s) = num (JNum s)"
| "any_json num j = j"

definition upstream_normalize :: "(json \<Rightarrow> json) \<Rightarrow> bytes option option \<Rightarrow> upstream_error + json option" where
  "upstream_normalize num v =
     (case v of None \<Rightarrow> Inr None
      | Some m \<Rightarrow> ebind (of_option ToolDefinition m) (\<lambda>b.
          if b = ''null'' then Inr None
          else ebind (of_option ToolDefinition (unmarshal_json b)) (\<lambda>j. Inr (Some (any_json num j)))))"

definition toManifest :: "(json \<Rightarrow> json) \<Rightarrow> string \<Rightarrow> mcp_tool \<Rightarrow> upstream_error + Manifest" where
  "toManifest num server t =
     ebind (upstream_normalize num (mt_InputSchema t)) (\<lambda>i.
     ebind (upstream_normalize num (mt_OutputSchema t)) (\<lambda>out.
     ebind (upstream_normalize num (mt_Annotations t)) (\<lambda>a.
     Inr \<lparr>m_Server = server, m_Name = mt_Name t, m_Title = mt_Title t, m_Description = mt_Description t,
       m_InputSchema = i, m_OutputSchema = out, m_Annotations = a\<rparr>)))"

text \<open>What a session lists: tools, and \<open>None\<close> where listing fails.\<close>

definition upstream_Tools ::
  "(json \<Rightarrow> json) \<Rightarrow> (string \<times> session) list \<Rightarrow> (string \<Rightarrow> mcp_tool option list) \<Rightarrow> string \<Rightarrow> upstream_error + Manifest list" where
  "upstream_Tools num ss listed server =
     ebind (of_option UnknownServer (map_of ss server)) (\<lambda>_.
     efold (\<lambda>out t. ebind (of_option ToolListing t) (\<lambda>t. ebind (toManifest num server t) (\<lambda>m. Inr (out @ [m])))) []
       (listed server))"

definition upstream_Manifest ::
  "(json \<Rightarrow> json) \<Rightarrow> (string \<times> session) list \<Rightarrow> (string \<Rightarrow> mcp_tool option list) \<Rightarrow> string \<Rightarrow> string \<Rightarrow> upstream_error + Manifest" where
  "upstream_Manifest num ss listed server toolName =
     ebind (upstream_Tools num ss listed server) (\<lambda>ms.
     of_option NoSuchTool (find (\<lambda>m. m_Name m = toolName) ms))"

section \<open>Results\<close>

definition AuthorsMetaKey :: string where
  "AuthorsMetaKey = ''io.github.fkadusei.agent-warden/authors''"

definition maxAuthors :: nat where "maxAuthors = 32"
definition maxAuthorLen :: nat where "maxAuthorLen = 256"

fun read_authors :: "json list \<Rightarrow> upstream_error + string list" where
  "read_authors [] = Inr []"
| "read_authors (JStr s # items) =
     (if s = [] \<or> length s > maxAuthorLen then Inl (BadAuthors ''length'')
      else if list_ex (\<lambda>r. r < 32 \<or> r = 127) (runes s) then Inl (BadAuthors ''control character'')
      else ebind (read_authors items) (\<lambda>out. Inr (s # out)))"
| "read_authors (_ # items) = Inl (BadAuthors ''not a string'')"

definition Authors :: "(string \<rightharpoonup> json) \<Rightarrow> upstream_error + string list" where
  "Authors meta = (case meta AuthorsMetaKey of
     None \<Rightarrow> Inr []
   | Some (JArr items) \<Rightarrow> if length items > maxAuthors then Inl (BadAuthors ''too many'') else read_authors items
   | Some _ \<Rightarrow> Inl (BadAuthors ''not a list''))"

text \<open>An item of content: its text if it is text, and its JSON as the protocol package writes it, if it can.\<close>

record content_item =
  ci_Text :: "string option"
  ci_JSON :: "json option"

record call_answer =
  an_Content :: "content_item list option"
  an_Structured :: "json option"
  an_IsError :: bool
  an_Meta :: "string \<rightharpoonup> json"

definition render_json :: "call_answer \<Rightarrow> upstream_error + bytes" where
  "render_json res =
     (case (case an_Content res of None \<Rightarrow> Some JNull | Some items \<Rightarrow> map_option JArr (those (map ci_JSON items))) of
        None \<Rightarrow> Inl RenderFailed
      | Some content \<Rightarrow> Inr (marshal (JObj ((''content'', content) #
          omit_ptr ''structuredContent'' sort_json (an_Structured res)))))"

definition upstream_render :: "call_answer \<Rightarrow> upstream_error + bytes" where
  "upstream_render res =
     (case those (map ci_Text (slice (an_Content res))) of
        Some texts \<Rightarrow> if an_Structured res = None then Inr (join [newline] texts) else render_json res
      | None \<Rightarrow> render_json res)"

text \<open>\<open>Upstream.Call\<close>: \<open>answer\<close> is what the session answers, if it does.\<close>

definition upstream_Call :: "(string \<times> session) list \<Rightarrow> string \<Rightarrow> call_answer option \<Rightarrow> upstream_error + tool_result" where
  "upstream_Call ss server answer =
     ebind (of_option UnknownServer (map_of ss server)) (\<lambda>_.
     ebind (of_option CallFailed answer) (\<lambda>res.
     ebind (upstream_render res) (\<lambda>content.
     ebind (Authors (an_Meta res)) (\<lambda>authors.
     Inr \<lparr>tr_Content = content, tr_IsError = an_IsError res, tr_Authors = authors\<rparr>))))"

section \<open>Who wrote a result\<close>

lemma read_authors_Inr:
  "read_authors items = Inr out \<longleftrightarrow> items = map JStr out \<and>
     (\<forall>s \<in> set out. s \<noteq> [] \<and> length s \<le> maxAuthorLen \<and> list_all (\<lambda>r. 32 \<le> r \<and> r \<noteq> 127) (runes s))"
proof (induction items arbitrary: out rule: read_authors.induct)
  case (2 s items)
  have "list_ex (\<lambda>r. r < 32 \<or> r = 127) (runes s) \<longleftrightarrow> \<not> list_all (\<lambda>r. 32 \<le> r \<and> r \<noteq> 127) (runes s)"
    by (auto simp: list_ex_iff list_all_iff not_le)
  then show ?case using 2 by (cases out) auto
qed auto

lemma Authors_Inr:
  "Authors meta = Inr out \<longleftrightarrow> meta AuthorsMetaKey = None \<and> out = [] \<or>
     meta AuthorsMetaKey = Some (JArr (map JStr out)) \<and> length out \<le> maxAuthors \<and>
     (\<forall>s \<in> set out. s \<noteq> [] \<and> length s \<le> maxAuthorLen \<and> list_all (\<lambda>r. 32 \<le> r \<and> r \<noteq> 127) (runes s))"
  by (auto simp: Authors_def read_authors_Inr not_less split: option.splits json.splits if_splits)

text \<open>
  Provenance that a tool server states is never dropped: a result whose metadata names authors is
  returned with exactly those authors, or the call fails; and when one of them is not the principal who made
  the call, the labels of the result say so, whatever else is configured.
\<close>

theorem stated_authors_label:
  assumes "upstream_Call ss server (Some res) = Inr r" "an_Meta res AuthorsMetaKey = Some v"
  shows "v = JArr (map JStr (tr_Authors r)) \<and>
    ((\<exists>a \<in> set (tr_Authors r). Some a \<noteq> map_option principal (r_actor (pc_decision p))) \<longrightarrow>
      TaintForeignPrincipal \<in> set (result_labels cfg p r content echoed))"
proof -
  have "Authors (an_Meta res) = Inr (tr_Authors r)" using assms(1) by (auto simp: upstream_Call_def)
  then have "v = JArr (map JStr (tr_Authors r))" using assms(2) by (auto simp: Authors_Inr)
  then show ?thesis by (auto simp: result_labels_def list_ex_iff)
qed

section \<open>Credentials reach the server they are bound to\<close>

lemma deliverable_Inr:
  "deliverable s bs = Inr u \<longleftrightarrow> (\<forall>b \<in> set bs. (sv_URL s \<noteq> [] \<longrightarrow> bd_Inject b \<noteq> InjectEnv) \<and>
     (sv_URL s = [] \<longrightarrow> bd_Inject b \<noteq> InjectHeader \<and> bd_Tool b = ''*''))"
  by (induction bs) auto

lemma connect_each:
  assumes "efold (connect_one brk keys path ok) ss servers = Inr ss'" "s \<in> set servers"
  shows "\<exists>existing. upstream_validate s (broker_Describe brk keys (sv_Name s)) existing = Inr () \<and>
    (\<exists>x. open_session brk path s = Inr x \<and> (sv_Name s, x) \<in> set ss')"
  using assms
proof (induction servers arbitrary: ss)
  case (Cons t servers)
  obtain ss1 where s1: "connect_one brk keys path ok ss t = Inr ss1" "efold (connect_one brk keys path ok) ss1 servers = Inr ss'"
    using Cons.prems(1) by auto
  have step: "set xs \<subseteq> set ys" if "connect_one brk keys path ok xs u = Inr ys" for xs ys u
    using that by (auto simp: connect_one_def split: if_splits)
  have keep: "set xs \<subseteq> set ys" if "efold (connect_one brk keys path ok) xs ts = Inr ys" for xs ys ts
    using that by (induction ts arbitrary: xs) (auto dest: step)
  show ?case
  proof (cases "s = t")
    case True
    then obtain x where "upstream_validate s (broker_Describe brk keys (sv_Name s)) (map fst ss) = Inr ()"
      "open_session brk path s = Inr x" "ss1 = ss @ [(sv_Name s, x)]"
      using s1(1) by (auto simp: connect_one_def split: if_splits)
    then show ?thesis using keep [OF s1(2)] by auto
  next
    case False
    then show ?thesis using Cons.IH [OF s1(2)] Cons.prems(2) by simp
  qed
qed simp

text \<open>\<open>keys\<close> lists every key under which the broker has bindings.\<close>

definition all_keys :: "broker \<Rightarrow> (string \<times> string) list \<Rightarrow> bool" where
  "all_keys brk keys \<longleftrightarrow> (\<forall>k. br_bindings brk k \<noteq> [] \<longrightarrow> k \<in> set keys)"

lemma all_keys_Describe:
  "all_keys brk keys \<Longrightarrow> b \<in> set (br_bindings brk (srv, t)) \<Longrightarrow> b \<in> set (broker_Describe brk keys srv)"
  by (force simp: all_keys_def broker_Describe_def)

lemma fold_up_char: "fold_char (up_char c) = fold_char c"
  by (auto simp: fold_char_def up_char_def byte_char_of)

lemma fold_fold_char: "fold_char (fold_char c) = fold_char c"
  by (auto simp: fold_char_def byte_char_of)

lemma fold_canon_key: "map fold_char (canon_key up s) = map fold_char s"
  by (induction up s rule: canon_key.induct) (simp_all add: fold_up_char fold_fold_char)

lemma canonical_key_fold: "canonical_key a = canonical_key b \<Longrightarrow> map fold_char a = map fold_char b"
  using fold_canon_key [of True a] fold_canon_key [of True b] by (auto simp: canonical_key_def split: if_splits)

lemma set_credentials:
  assumes "\<forall>c \<in> set creds. cr_Inject c = InjectHeader" "distinct (map (\<lambda>c. canonical_key (cr_Name c)) creds)"
  shows "(\<forall>c \<in> set creds. RoundTrip creds h (canonical_key (cr_Name c)) = Some [secret_Reveal (cr_Value c)]) \<and>
    (k \<notin> (\<lambda>c. canonical_key (cr_Name c)) ` set creds \<longrightarrow> RoundTrip creds h k = h k)"
  using assms
proof (induction creds rule: rev_induct)
  case (snoc d creds)
  have r: "RoundTrip (creds @ [d]) h = header_Set (RoundTrip creds h) (cr_Name d) (secret_Reveal (cr_Value d))"
    using snoc.prems(1) by (simp add: RoundTrip_def set_credential_def)
  have new: "canonical_key (cr_Name x) \<noteq> canonical_key (cr_Name d)" if "x \<in> set creds" for x
    using that snoc.prems(2) by (auto simp: image_iff)
  have old: "x \<in> set creds \<Longrightarrow> RoundTrip creds h (canonical_key (cr_Name x)) = Some [secret_Reveal (cr_Value x)]"
      "k \<notin> (\<lambda>c. canonical_key (cr_Name c)) ` set creds \<longrightarrow> RoundTrip creds h k = h k" for x
    using snoc.IH snoc.prems by auto
  show ?case unfolding r header_Set_def using old new by auto
qed (simp add: RoundTrip_def)

lemma For_names:
  assumes "broker_For b srv t = Inr creds"
  shows "t \<noteq> ''*'' \<and> map (\<lambda>c. (cr_Inject c, cr_Name c)) creds =
    map (\<lambda>bd. (bd_Inject bd, bd_Name bd)) (br_bindings b (srv, ''*'') @ br_bindings b (srv, t))"
proof -
  have "map (\<lambda>c. (cr_Inject c, cr_Name c)) (map2 (\<lambda>bd v. \<lparr>cr_Inject = bd_Inject bd, cr_Name = bd_Name bd,
      cr_Value = \<lparr>sec_v = bd_Prefix bd @ v\<rparr>\<rparr>) bds vs) = map (\<lambda>bd. (bd_Inject bd, bd_Name bd)) bds"
    if "length bds = length vs" for bds :: "binding list" and vs
    using that by (induction bds vs rule: list_induct2) simp_all
  then show ?thesis using assms by (auto simp: broker_For_all_or_nothing dest: list_all2_lengthD)
qed

text \<open>
  On a connected HTTP server every credential that the broker has for a call arrives: the request carries
  each under its header with its own value, none overwrites another, and no other header changes.
\<close>

theorem credentials_delivered:
  assumes "broker_Load data src = Inr brk" "all_keys brk keys" "Connect brk keys path ok servers = Inr ss"
    and "s \<in> set servers" "sv_URL s \<noteq> []" "broker_For brk (sv_Name s) t = Inr creds"
  shows "(c \<in> set creds \<longrightarrow> cr_Inject c = InjectHeader \<and>
      RoundTrip creds h (canonical_key (cr_Name c)) = Some [secret_Reveal (cr_Value c)]) \<and>
    (k \<notin> (\<lambda>c. canonical_key (cr_Name c)) ` set creds \<longrightarrow> RoundTrip creds h k = h k)"
proof -
  let ?bds = "br_bindings brk (sv_Name s, ''*'') @ br_bindings brk (sv_Name s, t)"
  note f = For_names [OF assms(6)]
  obtain existing where "upstream_validate s (broker_Describe brk keys (sv_Name s)) existing = Inr ()"
    using connect_each [OF assms(3) [unfolded Connect_def] assms(4)] by blast
  then have "deliverable s (broker_Describe brk keys (sv_Name s)) = Inr ()" by (auto simp: upstream_validate_def)
  then have "bd_Inject b \<noteq> InjectEnv" if "b \<in> set ?bds" for b
    using that assms(5) all_keys_Describe [OF assms(2)] unfolding deliverable_Inr by (metis UnE set_append)
  moreover note slots = broker_Load_slots [OF assms(1), of t "sv_Name s"] f
  moreover have "checkBinding b src = Inr ()" if "b \<in> set ?bds" for b using slots that by blast
  ultimately have bh: "bd_Inject b = InjectHeader" if "b \<in> set ?bds" for b
    using that by (fastforce simp: checkBinding_def split: if_splits)
  have ch: "\<forall>c \<in> set creds. cr_Inject c = InjectHeader"
  proof
    fix c assume "c \<in> set creds"
    then have "(cr_Inject c, cr_Name c) \<in> set (map (\<lambda>bd. (bd_Inject bd, bd_Name bd)) ?bds)" using f by (metis (mono_tags) image_eqI list.set_map)
    then show "cr_Inject c = InjectHeader" using bh by auto
  qed
  have d: "distinct (map slot_of ?bds)" using slots by blast
  have "map slot_of ?bds = map (\<lambda>n. (sv_Name s, InjectHeader, n)) (map (\<lambda>b. map fold_char (bd_Name b)) ?bds)"
    unfolding list.map_comp by (rule map_cong [OF refl]) (use bh slots in \<open>auto simp: slot_of_def canonicalName_def\<close>)
  then have "distinct (map (\<lambda>b. map fold_char (bd_Name b)) ?bds)" using d by (metis distinct_map)
  moreover have "map (\<lambda>b. map fold_char (bd_Name b)) ?bds = map (\<lambda>c. map fold_char (cr_Name c)) creds"
  proof -
    have "map (\<lambda>b. map fold_char (bd_Name b)) ?bds = map (map fold_char \<circ> snd) (map (\<lambda>bd. (bd_Inject bd, bd_Name bd)) ?bds)"
      by (simp add: comp_def)
    also have "\<dots> = map (map fold_char \<circ> snd) (map (\<lambda>c. (cr_Inject c, cr_Name c)) creds)" using f by simp
    finally show ?thesis by (simp add: comp_def)
  qed
  ultimately have "distinct (map (\<lambda>c. map fold_char (cr_Name c)) creds)" by (simp only:)
  then have "distinct (map (\<lambda>c. canonical_key (cr_Name c)) creds)"
    by (auto simp: distinct_map inj_on_def dest: canonical_key_fold)
  then show ?thesis using set_credentials [OF ch] ch by blast
qed

text \<open>The process of a connected stdio server has in its environment what \<open>For\<close> gives any of its tools.\<close>

theorem process_environment:
  assumes "broker_Load data src = Inr brk" "all_keys brk keys" "Connect brk keys path ok servers = Inr ss" "s \<in> set servers"
    "sv_URL s = []" "t \<noteq> ''*''"
  shows "\<exists>creds. broker_For brk (sv_Name s) t = Inr creds \<and> (sv_Name s, ProcessSession (sv_Command s)
    ((''PATH'', path) # map (\<lambda>c. (cr_Name c, secret_Reveal (cr_Value c))) creds)) \<in> set ss"
proof -
  obtain existing x where v: "upstream_validate s (broker_Describe brk keys (sv_Name s)) existing = Inr ()"
    "open_session brk path s = Inr x" "(sv_Name s, x) \<in> set ss"
    using connect_each [OF assms(3) [unfolded Connect_def] assms(4)] by blast
  have "deliverable s (broker_Describe brk keys (sv_Name s)) = Inr ()" using v(1) by (auto simp: upstream_validate_def)
  then have tool: "bd_Tool b = ''*''" if "b \<in> set (br_bindings brk (sv_Name s, t))" for b
    using that assms(5) all_keys_Describe [OF assms(2)] unfolding deliverable_Inr by blast
  moreover have "bd_Tool b = t" if "b \<in> set (br_bindings brk (sv_Name s, t))" for b
    using that by (auto intro: broker_Load_inv [OF assms(1)] simp: load_inv_def)
  ultimately have "br_bindings brk (sv_Name s, t) = []" using assms(6) by (metis list.set_intros(1) neq_Nil_conv)
  then have "broker_For brk (sv_Name s) t = ServerCredentials brk (sv_Name s)" using assms(6) by (simp add: broker_For_def ServerCredentials_def)
  then show ?thesis using v(2,3) assms(5) by (auto simp: open_session_def)
qed

end
