(* ===== verification/McpGw.thy ===== *)
theory McpGw
  imports Upstream
begin

text \<open>
  What agents talk to (\<open>internal/mcpgw/mcpgw.go\<close>): the identity that the TLS handshake proved, the tools that are
  exposed, and what an agent is told.  The protocol package is a parameter: whether it takes a tool definition.
\<close>

section \<open>The peer certificate\<close>

definition PeerCertificateHeader :: string where
  "PeerCertificateHeader = ''X-Warden-Peer-Certificate''"

definition ResumeTool :: string where
  "ResumeTool = Reserved @ ''.resume''"

record tls_state =
  tls_HandshakeComplete :: bool
  tls_VerifiedChains :: nat
  tls_PeerCertificates :: "bytes list"

text \<open>The middleware: \<open>None\<close> is status 401, otherwise the header that the handlers see.\<close>

definition mcp_authenticate :: "tls_state option \<Rightarrow> http_header \<Rightarrow> http_header option" where
  "mcp_authenticate tls h0 =
     (let h = header_Del h0 PeerCertificateHeader in
      case tls of None \<Rightarrow> None | Some c \<Rightarrow>
      if \<not> tls_HandshakeComplete c \<or> tls_VerifiedChains c = 0 \<or> tls_PeerCertificates c = [] then None
      else Some (header_Set h PeerCertificateHeader (b64_pad (b64_std (hd (tls_PeerCertificates c))))))"

definition mcp_credential :: "http_header option \<Rightarrow> string + bytes" where
  "mcp_credential extra =
     ebind (of_option ''no transport headers'' extra) (\<lambda>h.
     let v = header_Get h PeerCertificateHeader in
     if v = [] then Inl ''no verified client certificate'' else of_option ''illegal base64 data'' (std_decode v))"

section \<open>What the agent is told\<close>

record tool_reply =
  tl_IsError :: bool
  tl_Text :: string

definition reply_text :: "bool \<Rightarrow> string \<Rightarrow> tool_reply" where
  "reply_text isError s = \<lparr>tl_IsError = isError, tl_Text = s\<rparr>"

text \<open>\<open>why\<close> is the text of an error that says why a call is not approved.\<close>

definition renderResponse :: "(nat \<Rightarrow> bool) \<Rightarrow> string \<Rightarrow> gateway_error + response \<Rightarrow> tool_reply" where
  "renderResponse printable why x = (case x of
     Inl (Unauthenticated e) \<Rightarrow> reply_text True ''Warden refused the call: the task credential was rejected.''
   | Inl ReceiptFailed \<Rightarrow> reply_text True ''Warden refused the call: its receipt could not be recorded.''
   | Inl UpstreamUnavailable \<Rightarrow> reply_text True ''Warden refused the call: the tool server is unavailable.''
   | Inl NotApproved \<Rightarrow> reply_text True (''Warden will not run this call: '' @ why @ ''.'')
   | Inl NotPending \<Rightarrow> reply_text True ''Warden has no call waiting under that decision.''
   | Inl CredentialMismatch \<Rightarrow> reply_text True ''Warden refused: this credential is not the one that made the original call.''
   | Inl _ \<Rightarrow> reply_text True ''Warden refused the call.''
   | Inr r \<Rightarrow> (case rs_Status r of
       Ok \<Rightarrow> reply_text False (rs_Result r)
     | Denied \<Rightarrow>
         if rs_Rule r = [] then reply_text True
           (''Denied by Warden: no policy permits this call. Decision receipt #'' @ show_int (rs_DecisionSeq r) @ ''.'')
         else reply_text True (''Denied by Warden (rule '' @ go_quote printable (rs_Rule r) @ ''). Decision receipt #'' @
           show_int (rs_DecisionSeq r) @ ''.'' @
           (if rs_Rule r = RuleInvalidArguments \<and> rs_Detail r \<noteq> [] then '' '' @ rs_Detail r else []))
     | PendingApproval \<Rightarrow> reply_text True (''This call needs human approval (rule '' @ go_quote printable (rs_Rule r) @
         ''). Decision receipt #'' @ show_int (rs_DecisionSeq r) @ ''. Once it is approved, call '' @ ResumeTool @
         '' with {'' @ quote_json ''decision_seq'' @ '': '' @ show_int (rs_DecisionSeq r) @ ''}.'')
     | ToolError \<Rightarrow> reply_text True (''Tool error: '' @ rs_Detail r @ ''. Decision receipt #'' @ show_int (rs_DecisionSeq r) @
         '', result receipt #'' @ show_int (rs_ResultSeq r) @ ''.'' @ (if rs_Result r \<noteq> [] then newline # rs_Result r else []))))"

section \<open>The handlers\<close>

definition credential_refused :: "string \<Rightarrow> tool_reply" where
  "credential_refused e = reply_text True (''Warden refused the call: '' @ e @ ''.'')"

definition callHandler ::
  "('p, 'v) gateway_config \<Rightarrow> 'v gateway \<Rightarrow> call_env \<Rightarrow> time \<Rightarrow> bool \<Rightarrow> exec_env \<Rightarrow> string \<Rightarrow> string \<Rightarrow> string \<Rightarrow>
     http_header option \<Rightarrow> bytes \<Rightarrow> 'v gateway \<times> upstream_call list \<times> tool_reply" where
  "callHandler cfg g ce now ok ee why server toolName extra args =
     (case mcp_credential extra of
        Inl e \<Rightarrow> (g, [], credential_refused e)
      | Inr cred \<Rightarrow> (let (g', ucs, x) = gateway_Call cfg g ce now ok ee cred server toolName args in
          (g', ucs, renderResponse (cf_IsPrint cfg) why x)))"

text \<open>The arguments of \<open>warden.resume\<close>: a missing or null number is refused.\<close>

definition dec_resume_args :: "json \<Rightarrow> int option option" where
  "dec_resume_args j = do { f \<leftarrow> fields_of [''decision_seq''] j;
     (case f ''decision_seq'' of None \<Rightarrow> Some None | Some JNull \<Rightarrow> Some None
      | Some _ \<Rightarrow> map_option Some (get_int f ''decision_seq'')) }"

definition resume_args :: "bytes \<Rightarrow> int option" where
  "resume_args args = (case decode_into dec_resume_args args of
     Some (Some n) \<Rightarrow> if n < 0 then None else Some n | _ \<Rightarrow> None)"

definition resumeHandler ::
  "('p, 'v) gateway_config \<Rightarrow> 'v gateway \<Rightarrow> time \<Rightarrow> exec_env \<Rightarrow> string \<Rightarrow> http_header option \<Rightarrow> bytes \<Rightarrow>
     'v gateway \<times> upstream_call list \<times> tool_reply" where
  "resumeHandler cfg g now ee why extra args =
     (case mcp_credential extra of
        Inl e \<Rightarrow> (g, [], credential_refused e)
      | Inr cred \<Rightarrow> (case resume_args args of
          None \<Rightarrow> (g, [], reply_text True (''warden.resume needs {'' @ quote_json ''decision_seq'' @ '': <non-negative integer>}.''))
        | Some n \<Rightarrow> (let (g', ucs, x) = gateway_Resume cfg g cred n now ee in
            (g', ucs, renderResponse (cf_IsPrint cfg) why x))))"

section \<open>Exposed tools\<close>

definition toolNamePattern :: "string \<Rightarrow> bool" where
  "toolNamePattern = namePattern"

datatype withheld = ByPin registry_error | ByName | ByDefinition

text \<open>A handler runs a tool of a server, or resumes.\<close>

datatype target = CallTool string string | ResumeCall

record exposed =
  ex_Table :: "(string \<times> target) list"
  ex_Withheld :: "(string \<times> withheld) list"

definition withhold :: "exposed \<Rightarrow> string \<Rightarrow> withheld \<Rightarrow> exposed" where
  "withhold x i r = x\<lparr>ex_Withheld := ex_Withheld x @ [(i, r)]\<rparr>"

definition expose_one :: "(Manifest \<Rightarrow> bool) \<Rightarrow> string \<Rightarrow> exposed \<Rightarrow> checked \<Rightarrow> exposed" where
  "expose_one add srv x c =
     (let m = ck_Manifest c; name = srv @ ''.'' @ m_Name m in
      if \<not> toolNamePattern name then withhold x (Manifest_ID m) ByName
      else if \<not> add m then withhold x (Manifest_ID m) ByDefinition
      else x\<lparr>ex_Table := ex_Table x @ [(name, CallTool srv (m_Name m))]\<rparr>)"

definition withhold_pin :: "exposed \<Rightarrow> checked \<Rightarrow> exposed" where
  "withhold_pin x c = (case ck_Err c of None \<Rightarrow> x | Some e \<Rightarrow> withhold x (Manifest_ID (ck_Manifest c)) (ByPin e))"

definition expose_server ::
  "'x crypto_scheme \<Rightarrow> registry \<Rightarrow> (Manifest \<Rightarrow> bool) \<Rightarrow> (string \<Rightarrow> upstream_error + Manifest list) \<Rightarrow> exposed \<Rightarrow> string \<Rightarrow>
     upstream_error + exposed" where
  "expose_server C reg add tools x srv =
     ebind (tools srv) (\<lambda>ms.
     let rev = registry_Review C reg ms;
         x1 = foldl withhold_pin x (rv_Unpinned rev @ rv_Changed rev @ rv_Invalid rev) in
     Inr (foldl (expose_one add srv) x1 (rv_Allowed rev)))"

text \<open>\<open>NewHandler\<close>: the table of tools that the protocol package dispatches on; \<open>add\<close> says which definitions it takes.\<close>

definition NewHandler ::
  "'x crypto_scheme \<Rightarrow> registry \<Rightarrow> (Manifest \<Rightarrow> bool) \<Rightarrow> bool \<Rightarrow> (string \<Rightarrow> upstream_error + Manifest list) \<Rightarrow> string list \<Rightarrow>
     upstream_error + exposed" where
  "NewHandler C reg add addResume tools servers =
     ebind (efold (expose_server C reg add tools) \<lparr>ex_Table = [], ex_Withheld = []\<rparr> servers) (\<lambda>x.
     if \<not> addResume then Inl ToolDefinition
     else Inr (x\<lparr>ex_Table := ex_Table x @ [(ResumeTool, ResumeCall)]\<rparr>))"

text \<open>A request to the agent's endpoint, once it names a tool of the table.\<close>

definition serve_call ::
  "('p, 'v) gateway_config \<Rightarrow> 'v gateway \<Rightarrow> call_env \<Rightarrow> time \<Rightarrow> bool \<Rightarrow> exec_env \<Rightarrow> string \<Rightarrow> tls_state option \<Rightarrow> http_header \<Rightarrow>
     target \<Rightarrow> bytes \<Rightarrow> 'v gateway \<times> upstream_call list \<times> tool_reply option" where
  "serve_call cfg g ce now ok ee why tls h target args =
     (case mcp_authenticate tls h of
        None \<Rightarrow> (g, [], None)
      | Some h' \<Rightarrow> (case target of
          CallTool srv t \<Rightarrow> (let (g', ucs, r) = callHandler cfg g ce now ok ee why srv t (Some h') args in (g', ucs, Some r))
        | ResumeCall \<Rightarrow> (let (g', ucs, r) = resumeHandler cfg g now ee why (Some h') args in (g', ucs, Some r))))"

section \<open>Whose call it is\<close>

lemma peer_credential:
  assumes "mcp_authenticate tls h = Some h'"
  shows "\<exists>c raw rest. tls = Some c \<and> tls_HandshakeComplete c \<and> 0 < tls_VerifiedChains c \<and> tls_PeerCertificates c = raw # rest \<and>
    (raw \<noteq> [] \<longrightarrow> mcp_credential (Some h') = Inr raw)"
proof -
  obtain c raw rest where c: "tls = Some c" "tls_HandshakeComplete c" "0 < tls_VerifiedChains c" "tls_PeerCertificates c = raw # rest"
    "h' = header_Set (header_Del h PeerCertificateHeader) PeerCertificateHeader (b64_pad (b64_std raw))"
    using assms by (cases tls; cases "tls_PeerCertificates (the tls)") (auto simp: mcp_authenticate_def Let_def split: if_splits)
  have "b64_pad (b64_std raw) \<noteq> []" if "raw \<noteq> []"
    using that std_decode_pad [of raw] by (cases raw rule: b64_encode.cases) (auto simp: b64_pad_def b64_std_def)
  then show ?thesis using c by (auto simp: mcp_credential_def header_Get_def header_Set_def std_decode_pad)
qed

text \<open>
  C34: A call runs under the certificate that the TLS handshake verified and under nothing else: whatever
  headers the client sends, the gateway is called with the bytes of the peer's own certificate; and
  without a verified one nothing happens.
\<close>

theorem call_acts_as_peer:
  assumes "\<forall>c. tls = Some c \<longrightarrow> [] \<notin> set (tls_PeerCertificates c)"
  shows "serve_call cfg g ce now ok ee why tls h (CallTool srv t) args =
    (case tls of
       Some c \<Rightarrow> if tls_HandshakeComplete c \<and> 0 < tls_VerifiedChains c \<and> tls_PeerCertificates c \<noteq> [] then
           (let (g', ucs, x) = gateway_Call cfg g ce now ok ee (hd (tls_PeerCertificates c)) srv t args in
             (g', ucs, Some (renderResponse (cf_IsPrint cfg) why x)))
         else (g, [], None)
     | None \<Rightarrow> (g, [], None))"
proof (cases "mcp_authenticate tls h")
  case None
  then show ?thesis by (auto simp: serve_call_def mcp_authenticate_def Let_def split: option.splits if_splits)
next
  case (Some h')
  obtain c raw rest where p: "tls = Some c" "tls_HandshakeComplete c" "0 < tls_VerifiedChains c" "tls_PeerCertificates c = raw # rest"
    "raw \<noteq> [] \<longrightarrow> mcp_credential (Some h') = Inr raw"
    using peer_credential [OF Some] by blast
  then have "mcp_credential (Some h') = Inr raw" using assms by auto
  then show ?thesis using Some p by (simp add: serve_call_def callHandler_def Let_def split: prod.split)
qed

section \<open>What the names of exposed tools mean\<close>

lemma expose_tools:
  "ex_Table (foldl (expose_one add srv) x cs) = ex_Table x @
     map (\<lambda>c. (srv @ ''.'' @ m_Name (ck_Manifest c), CallTool srv (m_Name (ck_Manifest c))))
       (filter (\<lambda>c. toolNamePattern (srv @ ''.'' @ m_Name (ck_Manifest c)) \<and> add (ck_Manifest c)) cs)"
  by (induction cs arbitrary: x) (auto simp: expose_one_def withhold_def Let_def)

lemma withhold_pins: "ex_Table (foldl withhold_pin x cs) = ex_Table x"
  by (induction cs arbitrary: x) (auto simp: withhold_pin_def withhold_def split: option.split)

definition table_ok ::
  "'x crypto_scheme \<Rightarrow> registry \<Rightarrow> (string \<Rightarrow> upstream_error + Manifest list) \<Rightarrow> string list \<Rightarrow> (string \<times> target) list \<Rightarrow> bool" where
  "table_ok C reg tools servers tab \<longleftrightarrow> (\<forall>(n, tg) \<in> set tab. \<exists>srv m ms d. srv \<in> set servers \<and> n = srv @ ''.'' @ m_Name m \<and>
     tg = CallTool srv (m_Name m) \<and> tools srv = Inr ms \<and> m \<in> set ms \<and> Manifest_Digest C m = Inr d \<and> reg (Manifest_ID m) = Some d)"

lemma expose_server_ok:
  assumes "expose_server C reg add tools x srv = Inr y" "table_ok C reg tools servers (ex_Table x)" "srv \<in> set servers"
  shows "table_ok C reg tools servers (ex_Table y)"
proof -
  obtain ms where ms: "tools srv = Inr ms" "ex_Table y = ex_Table x @
      map (\<lambda>c. (srv @ ''.'' @ m_Name (ck_Manifest c), CallTool srv (m_Name (ck_Manifest c))))
       (filter (\<lambda>c. toolNamePattern (srv @ ''.'' @ m_Name (ck_Manifest c)) \<and> add (ck_Manifest c)) (rv_Allowed (registry_Review C reg ms)))"
    using assms(1) by (auto simp: expose_server_def Let_def expose_tools withhold_pins)
  have "ck_Manifest c \<in> set ms \<and> (\<exists>d. Manifest_Digest C (ck_Manifest c) = Inr d \<and> reg (Manifest_ID (ck_Manifest c)) = Some d)"
    if "c \<in> set (rv_Allowed (registry_Review C reg ms))" for c
  proof -
    have "ck_Manifest c \<in> set (map ck_Manifest (rv_Allowed (registry_Review C reg ms)))" using that by simp
    then show ?thesis using registry_Review_partition [of C reg ms] by auto
  qed
  then show ?thesis using assms(2,3) ms unfolding table_ok_def by fastforce
qed

lemma server_no_dot: "serverNamePattern s \<Longrightarrow> CHR ''.'' \<notin> set s"
  by (auto simp: serverNamePattern_def matches_chars_def list_all_iff upper_def lower_def decimal_def)

text \<open>
  Every name that agents can call means one thing: a tool of a configured server whose current
  manifest is the pinned one, the same for all handlers under that name, and no server can take the
  name of \<open>warden.resume\<close>, which is Warden's own.
\<close>

theorem exposed_names:
  assumes "Connect brk keys path ok svs = Inr ss" "NewHandler C reg add addResume tools (map sv_Name svs) = Inr x"
    and "(n, tg) \<in> set (ex_Table x)"
  shows "(n = ResumeTool \<longleftrightarrow> tg = ResumeCall) \<and> (\<forall>tg'. (n, tg') \<in> set (ex_Table x) \<longrightarrow> tg' = tg) \<and>
    (\<forall>srv t. tg = CallTool srv t \<longrightarrow> (\<exists>ms m d. tools srv = Inr ms \<and> m \<in> set ms \<and> m_Name m = t \<and>
      Manifest_Digest C m = Inr d \<and> reg (Manifest_ID m) = Some d))"
proof -
  let ?servers = "map sv_Name svs"
  obtain y where y: "efold (expose_server C reg add tools) \<lparr>ex_Table = [], ex_Withheld = []\<rparr> ?servers = Inr y"
    "ex_Table x = ex_Table y @ [(ResumeTool, ResumeCall)]"
    using assms(2) by (auto simp: NewHandler_def split: if_splits)
  have tab: "table_ok C reg tools ?servers (ex_Table y)"
  proof -
    have "efold (expose_server C reg add tools) z ss = Inr y' \<Longrightarrow> table_ok C reg tools ?servers (ex_Table z) \<Longrightarrow>
        set ss \<subseteq> set ?servers \<Longrightarrow> table_ok C reg tools ?servers (ex_Table y')" for z y' ss
      by (induction ss arbitrary: z) (auto dest: expose_server_ok [where servers = ?servers])
    then show ?thesis using y(1) by (auto simp: table_ok_def)
  qed
  have sv: "serverNamePattern srv \<and> srv \<noteq> Reserved" if "srv \<in> set ?servers" for srv
    using that connect_each [OF assms(1) [unfolded Connect_def]] by (auto simp: upstream_validate_def split: if_splits)
  have cut: "srv = srv' \<and> t = t'" if "srv @ ''.'' @ t = srv' @ ''.'' @ t'" "CHR ''.'' \<notin> set srv" "CHR ''.'' \<notin> set srv'" for srv srv' t t' :: string
    using that split_at_first [of srv "CHR ''.''" t srv' t'] by simp
  have dots: "CHR ''.'' \<notin> set srv" "CHR ''.'' \<notin> set Reserved" if "srv \<in> set ?servers" for srv
    using sv [OF that] server_no_dot by (auto simp: Reserved_def)
  have call: "\<exists>srv m ms d. srv \<in> set ?servers \<and> n' = srv @ ''.'' @ m_Name m \<and> tg' = CallTool srv (m_Name m) \<and> n' \<noteq> ResumeTool \<and>
      tools srv = Inr ms \<and> m \<in> set ms \<and> Manifest_Digest C m = Inr d \<and> reg (Manifest_ID m) = Some d"
    if e: "(n', tg') \<in> set (ex_Table y)" for n' tg'
  proof -
    obtain srv m ms d where m: "srv \<in> set ?servers" "n' = srv @ ''.'' @ m_Name m" "tg' = CallTool srv (m_Name m)"
      "tools srv = Inr ms" "m \<in> set ms" "Manifest_Digest C m = Inr d" "reg (Manifest_ID m) = Some d"
      using bspec [OF tab [unfolded table_ok_def] e] by auto
    have "n' \<noteq> ResumeTool"
      using cut [of srv "m_Name m" Reserved "''resume''"] dots [OF m(1)] sv [OF m(1)] m(2) by (auto simp: ResumeTool_def)
    with m show ?thesis by blast
  qed
  have same: "tg1 = tg2" if a: "(n', tg1) \<in> set (ex_Table y)" "(n', tg2) \<in> set (ex_Table y)" for n' tg1 tg2
  proof -
    obtain s1 and m1 :: Manifest where 1: "s1 \<in> set ?servers" "n' = s1 @ ''.'' @ m_Name m1" "tg1 = CallTool s1 (m_Name m1)" using call [OF a(1)] by blast
    obtain s2 and m2 :: Manifest where 2: "s2 \<in> set ?servers" "n' = s2 @ ''.'' @ m_Name m2" "tg2 = CallTool s2 (m_Name m2)" using call [OF a(2)] by blast
    show ?thesis using cut [of s1 "m_Name m1" s2 "m_Name m2"] dots(1) 1 2 by auto
  qed
  show ?thesis
  proof (cases "(n, tg) \<in> set (ex_Table y)")
    case True
    then obtain srv m ms d where "tg = CallTool srv (m_Name m)" "n \<noteq> ResumeTool" "tools srv = Inr ms" "m \<in> set ms"
      "Manifest_Digest C m = Inr d" "reg (Manifest_ID m) = Some d" using call by blast
    then show ?thesis using y(2) same [OF True] by auto
  next
    case False
    then have r: "n = ResumeTool" "tg = ResumeCall" using assms(3) y(2) by auto
    then have "\<forall>tg'. (n, tg') \<in> set (ex_Table x) \<longrightarrow> tg' = tg" using call [of n] y(2) by auto
    with r show ?thesis by simp
  qed
qed

end
