(* ===== verification/Inspect.thy ===== *)
theory Inspect
  imports GatewayRules
begin

text \<open>
  The inspection of tool output (\<open>internal/inspect/inspect.go\<close>).  Texts are lists of runes.  The package's regular
  expressions are written as terms of a small type with an executable matcher; \<open>(?is)\<close> is the folding of
  letters and \<open>.\<close> as any rune.  Lower-casing of runes is Unicode data, an argument.
\<close>

section \<open>Regular expressions\<close>

text \<open>A class of runes, a word boundary, a sequence, a choice, and a repetition between two bounds.\<close>

datatype rx = Eps | Cls "(nat \<times> nat) list" | WordB | Seq rx rx | Alt rx rx | Rep rx nat "nat option"

definition in_ranges :: "(nat \<times> nat) list \<Rightarrow> nat \<Rightarrow> bool" where
  "in_ranges rs r \<longleftrightarrow> list_ex (\<lambda>(lo, hi). lo \<le> r \<and> r \<le> hi) rs"

definition word_rune :: "nat \<Rightarrow> bool" where
  "word_rune = in_ranges [(48, 57), (65, 90), (95, 95), (97, 122)]"

definition boundary :: "nat list \<Rightarrow> nat \<Rightarrow> bool" where
  "boundary s i \<longleftrightarrow> (0 < i \<and> i \<le> length s \<and> word_rune (s ! (i - 1))) \<noteq> (i < length s \<and> word_rune (s ! i))"

text \<open>The positions where a match that starts at a position may end.\<close>

definition image_list :: "(nat \<Rightarrow> nat list) \<Rightarrow> nat list \<Rightarrow> nat list" where
  "image_list f ps = remdups (concat (map f ps))"

fun exactly :: "(nat \<Rightarrow> nat list) \<Rightarrow> nat \<Rightarrow> nat list \<Rightarrow> nat list" where
  "exactly f 0 ps = ps"
| "exactly f (Suc n) ps = exactly f n (image_list f ps)"

fun at_most :: "(nat \<Rightarrow> nat list) \<Rightarrow> nat \<Rightarrow> nat list \<Rightarrow> nat list" where
  "at_most f 0 ps = ps"
| "at_most f (Suc n) ps = remdups (ps @ at_most f n (image_list f ps))"

fun ends :: "rx \<Rightarrow> nat list \<Rightarrow> nat \<Rightarrow> nat list" where
  "ends Eps s i = [i]"
| "ends (Cls rs) s i = (if i < length s \<and> in_ranges rs (s ! i) then [Suc i] else [])"
| "ends WordB s i = (if boundary s i then [i] else [])"
| "ends (Seq a b) s i = image_list (ends b s) (ends a s i)"
| "ends (Alt a b) s i = remdups (ends a s i @ ends b s i)"
| "ends (Rep a m n) s i =
     at_most (ends a s) (case n of None \<Rightarrow> length s | Some n \<Rightarrow> n - m) (exactly (ends a s) m [i])"

definition rx_MatchString :: "rx \<Rightarrow> nat list \<Rightarrow> bool" where
  "rx_MatchString r s \<longleftrightarrow> list_ex (\<lambda>i. ends r s i \<noteq> []) [0..<Suc (length s)]"

text \<open>Literals without and with folding; under folding k and s have a third form.\<close>

definition seqs :: "rx list \<Rightarrow> rx" where
  "seqs rs = foldr Seq rs Eps"

definition alts :: "rx list \<Rightarrow> rx" where
  "alts rs = (case rs of [] \<Rightarrow> Cls [] | r # rs \<Rightarrow> foldl Alt r rs)"

definition opt :: "rx \<Rightarrow> rx" where
  "opt r = Rep r 0 (Some 1)"

definition exact_runes :: "nat list \<Rightarrow> rx" where
  "exact_runes rs = seqs (map (\<lambda>r. Cls [(r, r)]) rs)"

definition fold_rune :: "nat \<Rightarrow> (nat \<times> nat) list" where
  "fold_rune r = (if 97 \<le> r \<and> r \<le> 122 then [(r, r), (r - 32, r - 32)] @ (if r = 107 then [(8490, 8490)] else if r = 115 then [(383, 383)] else [])
     else [(r, r)])"

definition word :: "string \<Rightarrow> rx" where
  "word w = seqs (map (\<lambda>c. Cls (fold_rune (byte c))) w)"

definition plural :: "string \<Rightarrow> rx" where
  "plural w = Seq (word w) (opt (word ''s''))"

definition words :: "string list \<Rightarrow> rx" where
  "words ws = alts (map word ws)"

definition any :: rx where "any = Cls [(0, 1114111)]"
definition white :: rx where "white = Cls [(9, 10), (12, 13), (32, 32)]"
definition whites :: rx where "whites = Rep white 0 None"
definition up_to :: "nat \<Rightarrow> rx" where "up_to n = Rep any 0 (Some n)"
definition bounded :: "rx \<Rightarrow> rx" where "bounded r = seqs [WordB, r, WordB]"

section \<open>Patterns\<close>

definition instructionPatterns :: "rx list" where
  "instructionPatterns =
    [seqs [bounded (words [''ignore'', ''disregard'', ''forget'', ''override'']), up_to 30,
       bounded (words [''previous'', ''prior'', ''above'', ''earlier'', ''preceding'', ''all'', ''your'', ''the'']), up_to 20,
       bounded (alts [plural ''instruction'', plural ''direction'', word ''rules'', word ''guidelines'', plural ''prompt'',
         plural ''message'', word ''context''])],
     seqs [bounded (words [''new'', ''updated'', ''revised'', ''real'', ''actual'', ''hidden'']), Rep white 1 None,
       opt (Seq (word ''system'') (Rep white 1 None)), alts [plural ''instruction'', plural ''directive'', word ''prompt''],
       whites, word '':''],
     bounded (word ''you are now''),
     seqs [bounded (word ''from now on''), up_to 40, bounded (words [''you'', ''assistant'', ''agent''])],
     seqs [word ''<'', opt (word ''|''), whites, words [''im_start'', ''im_end'', ''system'', ''endoftext''], whites,
       opt (word ''|''), word ''>''],
     seqs [word ''['', opt (word ''/''), word ''inst]''],
     seqs [word ''<'', opt (word ''/''), whites, alts [word ''system'', plural ''instruction'', word ''assistant''], whites, word ''>''],
     seqs [WordB, words [''ai'', ''assistant'', ''agent'', ''model'', ''llm'', ''chatbot'', ''copilot''], opt (word ''s''), WordB, up_to 40,
       bounded (words [''must'', ''should'', ''are instructed to'', ''need to'', ''have to''])],
     seqs [bounded (alts [word ''do not'', seqs [word ''don'', Cls [(39, 39)], word ''t''], word ''never'']), Rep white 1 None,
       words [''tell'', ''inform'', ''mention'', ''reveal'', ''show''], WordB, up_to 30,
       bounded (words [''user'', ''human'', ''anyone'', ''customer'', ''operator''])],
     seqs [bounded (words [''reveal'', ''print'', ''output'', ''dump'', ''send'', ''share'', ''leak'', ''exfiltrate'', ''email'']), up_to 40,
       bounded (alts [seqs [word ''api'', opt (Cls [(32, 32), (95, 95), (45, 45)]), plural ''key''], plural ''credential'',
         plural ''password'', plural ''secret'', plural ''token'', word ''system prompt'', plural ''environment variable''])]]"

definition zeros :: "rx" where
  "zeros = Seq (word ''0'') (opt (Seq (word ''.'') (Rep (word ''0'') 1 None)))"

definition hiddenMarkup :: "rx list" where
  "hiddenMarkup =
    [word ''<!--'',
     seqs [word ''display'', whites, word '':'', whites, word ''none''],
     seqs [word ''visibility'', whites, word '':'', whites, word ''hidden''],
     seqs [word ''font-size'', whites, word '':'', whites, zeros, opt (words [''px'', ''pt'', ''em'', ''rem'', ''%'']), whites,
       Cls [(59, 59), (34, 34), (39, 39), (125, 125)]],
     seqs [word ''opacity'', whites, word '':'', whites, zeros, whites, Cls [(59, 59), (34, 34), (39, 39), (125, 125)]]]"

section \<open>Normalisation\<close>

definition invisible :: "nat \<Rightarrow> bool" where
  "invisible = in_ranges [(8203, 8207), (8234, 8238), (8288, 8292), (8294, 8297), (65279, 65279), (917504, 917631)]"

text \<open>The loop of \<open>normalize\<close>, with the flag of the last rune written being a space.\<close>

fun collapse :: "bool \<Rightarrow> nat list \<Rightarrow> nat list" where
  "collapse space [] = []"
| "collapse space (r # rs) =
     (if invisible r then collapse space rs
      else if is_space r then (if space then collapse True rs else 32 # collapse True rs)
      else r # collapse False rs)"

definition inspect_normalize :: "bytes \<Rightarrow> nat list \<times> bool" where
  "inspect_normalize s = (collapse False (runes s), list_ex invisible (runes s))"

section \<open>The four kinds\<close>

definition Encoded :: string where "Encoded = ''encoded_blob''"
definition Hidden :: string where "Hidden = ''hidden_text''"
definition Instruction :: string where "Instruction = ''instruction''"
definition ToolDirective :: string where "ToolDirective = ''tool_directive''"

definition kind_Flag :: "string \<Rightarrow> string" where
  "kind_Flag k = ''flag:'' @ k"

definition anyMatch :: "rx list \<Rightarrow> nat list \<Rightarrow> bool" where
  "anyMatch res s = list_ex (\<lambda>r. rx_MatchString r s) res"

text \<open>The literal runes of a tool's name, and the three ways it is written.\<close>

fun has_runes :: "nat list \<Rightarrow> nat list \<Rightarrow> bool" where
  "has_runes [] v = (v = [])"
| "has_runes (r # rs) v = (take (length v) (r # rs) = v \<or> has_runes rs v)"

definition variants :: "nat list \<Rightarrow> nat list list" where
  "variants name = remdups_adj [name, map (\<lambda>r. if r = 46 then 47 else r) name, map (\<lambda>r. if r = 46 then 95 else r) name]"

definition exact :: "string \<Rightarrow> rx" where
  "exact w = exact_runes (map byte w)"

definition line_char :: rx where "line_char = Cls [(0, 9), (11, 1114111)]"

definition directive_rx :: "nat list \<Rightarrow> rx" where
  "directive_rx v =
     (let q = exact_runes v; dq = Cls [(34, 34)] in
      alts [seqs [WordB, alts (map exact [''call'', ''use'', ''invoke'', ''run'', ''execute'', ''trigger'']), WordB,
          Rep line_char 0 (Some 30), q],
        seqs [q, whites, exact ''(''],
        seqs [dq, alts (map exact [''name'', ''tool'']), dq, whites, exact '':'', whites, dq, q, dq]])"

definition directsTool :: "(nat \<Rightarrow> nat) \<Rightarrow> nat list \<Rightarrow> bytes list \<Rightarrow> bool" where
  "directsTool lower_rune s tools =
     (let low = map lower_rune s in
      list_ex (\<lambda>t. t \<noteq> [] \<and>
        list_ex (\<lambda>v. has_runes low v \<and> rx_MatchString (directive_rx v) low) (variants (map lower_rune (runes t)))) tools)"

text \<open>
  \<open>FindAllString\<close> of the base64 pattern gives the maximal runs of its class of at least 120 runes (each with
  the padding that follows, which has no part in the test).
\<close>

definition b64_class :: "nat \<Rightarrow> bool" where
  "b64_class = in_ranges [(65, 90), (97, 122), (48, 57), (43, 43), (47, 47), (95, 95), (45, 45)]"

function maximal_runs :: "nat list \<Rightarrow> nat list list" where
  "maximal_runs s = (if s = [] then []
     else if b64_class (hd s) then takeWhile b64_class s # maximal_runs (dropWhile b64_class s)
     else maximal_runs (tl s))"
  by auto
termination
proof (relation "measure length")
  fix s :: "nat list" assume "s \<noteq> []" "b64_class (hd s)"
  then show "(dropWhile b64_class s, s) \<in> measure length"
    by (cases s) (simp_all add: length_dropWhile_le le_imp_less_Suc)
qed auto

declare maximal_runs.simps [simp del]

definition encoded :: "nat list \<Rightarrow> bool" where
  "encoded s = list_ex (\<lambda>m. 120 \<le> length m \<and> list_ex (\<lambda>r. 65 \<le> r \<and> r \<le> 90) m \<and> list_ex (\<lambda>r. 97 \<le> r \<and> r \<le> 122) m \<and>
     list_ex (\<lambda>r. 48 \<le> r \<and> r \<le> 57) m) (maximal_runs s)"

definition inspect_Inspect :: "(nat \<Rightarrow> nat) \<Rightarrow> bytes \<Rightarrow> bytes list \<Rightarrow> string list" where
  "inspect_Inspect lower_rune t tools =
     (let (norm, hidden) = inspect_normalize t in
      sort ((if hidden \<or> anyMatch hiddenMarkup norm then [Hidden] else []) @
        (if anyMatch instructionPatterns norm then [Instruction] else []) @
        (if directsTool lower_rune norm tools then [ToolDirective] else []) @
        (if encoded norm then [Encoded] else [])))"

definition inspect_Flags :: "string list \<Rightarrow> string list" where
  "inspect_Flags kinds = map kind_Flag kinds"


section \<open>The matcher and the meaning of expressions\<close>

text \<open>The pairs of positions between which an expression matches.\<close>

fun meaning :: "rx \<Rightarrow> nat list \<Rightarrow> (nat \<times> nat) set" where
  "meaning Eps s = Id"
| "meaning (Cls rs) s = {(i, Suc i) | i. i < length s \<and> in_ranges rs (s ! i)}"
| "meaning WordB s = {(i, i) | i. boundary s i}"
| "meaning (Seq a b) s = meaning a s O meaning b s"
| "meaning (Alt a b) s = meaning a s \<union> meaning b s"
| "meaning (Rep a m n) s = (\<Union>k \<in> {k. m \<le> k \<and> (case n of None \<Rightarrow> True | Some n \<Rightarrow> k \<le> max m n)}. meaning a s ^^ k)"

definition steps_of :: "(nat \<Rightarrow> nat list) \<Rightarrow> (nat \<times> nat) set" where
  "steps_of f = {(i, j). j \<in> set (f i)}"

lemma set_image_list [simp]: "set (image_list f ps) = steps_of f `` set ps"
  by (auto simp: image_list_def steps_of_def)

lemma pow_shift: "(R ^^ n) `` R `` P = R `` (R ^^ n) `` P"
  by (metis relcomp_Image relpow_commute)

lemma set_exactly: "set (exactly f n ps) = (steps_of f ^^ n) `` set ps"
  by (induction n arbitrary: ps) (simp_all add: pow_shift relcomp_Image)

lemma set_at_most: "set (at_most f n ps) = (\<Union>k \<in> {..n}. (steps_of f ^^ k) `` set ps)"
proof (induction n arbitrary: ps)
  case (Suc n)
  have "{..Suc n} = insert 0 (Suc ` {..n})" by (auto simp: image_iff) (metis Suc_le_D atMost_iff gr0_implies_Suc not_gr_zero less_Suc_eq_le Suc_le_mono)
  then show ?case using Suc by (simp add: pow_shift relcomp_Image)
qed simp

text \<open>A match ends where it starts or further on in the text, so a long repetition can drop empty turns.\<close>

lemma meaning_forward: "(i, j) \<in> meaning r s \<Longrightarrow> i \<le> j \<and> (i < j \<longrightarrow> j \<le> length s)"
proof (induction r arbitrary: i j)
  case (Rep a m n)
  have "(i, j) \<in> meaning a s ^^ k \<Longrightarrow> i \<le> j \<and> (i < j \<longrightarrow> j \<le> length s)" for k
  proof (induction k arbitrary: j)
    case (Suc k)
    then obtain x where "(i, x) \<in> meaning a s ^^ k" "(x, j) \<in> meaning a s" by auto
    then show ?case using Suc.IH [of x] Rep.IH [of x j] by fastforce
  qed simp
  then show ?case using Rep.prems by auto
qed fastforce+

lemma relpow_progress:
  assumes "(i, j) \<in> R ^^ n" "\<And>x y. (x, y) \<in> R \<Longrightarrow> x \<le> y"
  shows "i \<le> j \<and> (\<exists>k \<le> j - i. (i, j) \<in> (R :: (nat \<times> nat) set) ^^ k)"
  using assms(1)
proof (induction n arbitrary: j)
  case (Suc n)
  then obtain x where x: "(i, x) \<in> R ^^ n" "(x, j) \<in> R" by auto
  then obtain k where k: "i \<le> x" "k \<le> x - i" "(i, x) \<in> R ^^ k" using Suc.IH by blast
  show ?case
  proof (cases "x = j")
    case False
    then have "x < j" using assms(2) [OF x(2)] by simp
    moreover have "(i, j) \<in> R ^^ Suc k" using k(3) x(2) by auto
    ultimately show ?thesis using k(1,2) by (intro conjI exI [of _ "Suc k"]) auto
  qed (use k in auto)
qed (auto intro: exI [of _ 0])

lemma repeat_bounded:
  assumes "(i, j) \<in> meaning a s ^^ n"
  shows "\<exists>k \<le> length s. (i, j) \<in> meaning a s ^^ k"
proof -
  have f: "\<And>x y. (x, y) \<in> meaning a s \<Longrightarrow> x \<le> y" using meaning_forward by blast
  obtain k where k: "i \<le> j" "k \<le> j - i" "(i, j) \<in> meaning a s ^^ k" using relpow_progress [OF assms f] by blast
  have "(i, j) \<in> meaning (Rep a n None) s" using assms by auto
  from meaning_forward [OF this] k show ?thesis by (cases "i < j") (auto intro: exI [of _ k])
qed

text \<open>
  The matcher computes the meaning of an expression: from a position it returns exactly the positions up to
  which the expression matches, unbounded repetitions included, although it looks only as many times as
  the text is long.
\<close>

lemma ends_meaning: "j \<in> set (ends r s i) \<longleftrightarrow> (i, j) \<in> meaning r s"
proof (induction r arbitrary: i j)
  case (Seq a b)
  then show ?case by (auto simp: steps_of_def)
next
  case (Rep a m n)
  have R: "steps_of (ends a s) = meaning a s" using Rep.IH by (auto simp: steps_of_def)
  show ?case
  proof (cases n)
    case None
    have "(\<exists>k \<le> length s. (i, j) \<in> meaning a s ^^ m O meaning a s ^^ k) \<longleftrightarrow> (\<exists>k \<ge> m. (i, j) \<in> meaning a s ^^ k)"
    proof
      assume "\<exists>k \<le> length s. (i, j) \<in> meaning a s ^^ m O meaning a s ^^ k"
      then show "\<exists>k \<ge> m. (i, j) \<in> meaning a s ^^ k" by (metis relpow_add le_add1)
    next
      assume "\<exists>k \<ge> m. (i, j) \<in> meaning a s ^^ k"
      then obtain k where "(i, j) \<in> meaning a s ^^ m O meaning a s ^^ k" by (metis relpow_add le_add_diff_inverse)
      then obtain x where x: "(i, x) \<in> meaning a s ^^ m" "(x, j) \<in> meaning a s ^^ k" by auto
      obtain k' where "k' \<le> length s" "(x, j) \<in> meaning a s ^^ k'" using repeat_bounded [OF x(2)] by blast
      with x(1) show "\<exists>k \<le> length s. (i, j) \<in> meaning a s ^^ m O meaning a s ^^ k" by blast
    qed
    then show ?thesis using None by (auto simp: set_at_most set_exactly R relcomp_Image [symmetric])
  next
    case (Some n')
    have "(\<exists>k \<le> n' - m. (i, j) \<in> meaning a s ^^ m O meaning a s ^^ k) \<longleftrightarrow> (\<exists>k. m \<le> k \<and> k \<le> max m n' \<and> (i, j) \<in> meaning a s ^^ k)"
    proof
      assume "\<exists>k \<le> n' - m. (i, j) \<in> meaning a s ^^ m O meaning a s ^^ k"
      then obtain k where k: "k \<le> n' - m" "(i, j) \<in> meaning a s ^^ (m + k)" by (metis relpow_add)
      then show "\<exists>k. m \<le> k \<and> k \<le> max m n' \<and> (i, j) \<in> meaning a s ^^ k" by (intro exI [of _ "m + k"]) auto
    next
      assume "\<exists>k. m \<le> k \<and> k \<le> max m n' \<and> (i, j) \<in> meaning a s ^^ k"
      then obtain k where k: "m \<le> k" "k \<le> max m n'" "(i, j) \<in> meaning a s ^^ k" by blast
      then show "\<exists>k \<le> n' - m. (i, j) \<in> meaning a s ^^ m O meaning a s ^^ k"
        by (intro exI [of _ "k - m"]) (auto simp: relpow_add [symmetric])
    qed
    then show ?thesis using Some by (auto simp: set_at_most set_exactly R relcomp_Image [symmetric])
  qed
qed auto

section \<open>Invisible runes hide nothing\<close>

lemma collapse_visible: "collapse b (filter (\<lambda>r. \<not> invisible r) rs) = collapse b rs"
  by (induction b rs rule: collapse.induct) auto

lemma inspect_sorted: "sorted (inspect_Inspect low t tools) \<and> distinct (inspect_Inspect low t tools)"
  by (simp add: inspect_Inspect_def Let_def Hidden_def Instruction_def ToolDirective_def Encoded_def split: prod.split)

text \<open>
  C37: Runes that a reader cannot see hide nothing from the inspection: two contents that agree once they are
  left out get the same kinds of finding apart from hidden text, and the gateway taints a result that has
  one with the label for hidden text.
\<close>

theorem invisible_runes_hide_nothing:
  assumes "filter (\<lambda>r. \<not> invisible r) (runes t) = filter (\<lambda>r. \<not> invisible r) (runes u)"
    and "cf_Inspect cfg = Some (\<lambda>content. inspect_Flags (inspect_Inspect low content tools))"
  shows "(k \<noteq> Hidden \<longrightarrow> k \<in> set (inspect_Inspect low t tools) \<longleftrightarrow> k \<in> set (inspect_Inspect low u tools)) \<and>
    (list_ex invisible (runes u) \<longrightarrow> kind_Flag Hidden \<in> set (result_labels cfg p r u echoed))"
proof -
  have "fst (inspect_normalize t) = fst (inspect_normalize u)"
    using assms(1) collapse_visible [of False "runes t"] collapse_visible [of False "runes u"] by (simp add: inspect_normalize_def)
  then have "k \<noteq> Hidden \<longrightarrow> k \<in> set (inspect_Inspect low t tools) \<longleftrightarrow> k \<in> set (inspect_Inspect low u tools)"
    by (cases "inspect_normalize t"; cases "inspect_normalize u") (auto simp: inspect_Inspect_def)
  moreover have "Hidden \<in> set (inspect_Inspect low u tools)" if "list_ex invisible (runes u)"
    using that by (simp add: inspect_Inspect_def inspect_normalize_def)
  ultimately show ?thesis using assms(2) by (auto simp: result_labels_def inspect_Flags_def)
qed

end
