(* ===== verification/EdgeWitnesses.thy ===== *)
theory EdgeWitnesses
  imports GatewayWitnesses McpGw Inspect
begin

text \<open>
  The edges of the gateway on concrete input: a connected tool server, the tools that agents see, a call over TLS,
  a result with authors and a text with an invisible rune.
\<close>

section \<open>Tool servers\<close>

definition sample_server :: tool_server where
  "sample_server = \<lparr>sv_Name = ''s'', sv_URL = ''http://localhost:9100/s'', sv_Command = []\<rparr>"

lemma sample_all_keys: "all_keys sample_broker [(''s'', ''t'')]"
  by (auto simp: all_keys_def sample_broker_def)

lemma sample_Connect: "Connect sample_broker [(''s'', ''t'')] [] (\<lambda>_. True) [sample_server] = Inr [(''s'', HTTPSession ''http://localhost:9100/s'')]"
proof -
  have "serverNamePattern ''s''" by code_simp
  then show ?thesis
    by (simp add: Connect_def connect_one_def upstream_validate_def sample_server_def broker_Describe_def sample_broker_def
        sample_bd_def open_session_def Reserved_def InjectEnv_def InjectHeader_def)
qed

lemma sample_credential_header: "sample_credential\<lparr>cr_Inject := ''header''\<rparr> = sample_credential"
  by (simp add: sample_credential_def InjectHeader_def)

theorem credentials_delivered_witness:
  "RoundTrip [sample_credential] Map.empty (canonical_key (cr_Name sample_credential)) = Some [''hunter2hunter2'']"
proof -
  have n: "sv_Name sample_server = ''s''" "sv_URL sample_server \<noteq> []" by (simp_all add: sample_server_def)
  have b: "sample_broker\<lparr>br_sources := sample_sources\<rparr> = sample_broker" by (simp add: sample_broker_def)
  have f: "broker_For sample_broker (sv_Name sample_server) ''t'' = Inr [sample_credential]"
    using sample_For unfolding b n sample_credential_header .
  have "RoundTrip [sample_credential] Map.empty (canonical_key (cr_Name sample_credential)) = Some [secret_Reveal (cr_Value sample_credential)]"
    using credentials_delivered [OF sample_broker_Load sample_all_keys sample_Connect _ n(2) f,
        where c = sample_credential and h = Map.empty] by simp
  then show ?thesis by (simp only: secret_Reveal_def sample_secret)
qed

theorem exposed_names_witness:
  "\<exists>x. NewHandler toy sample_registry (\<lambda>_. True) True (\<lambda>_. Inr [sample_manifest]) [''s''] = Inr x \<and>
     (''s.t'', CallTool ''s'' ''t'') \<in> set (ex_Table x) \<and>
     (\<exists>ms m d. Inr ms = (Inr [sample_manifest] :: upstream_error + Manifest list) \<and> m \<in> set ms \<and> m_Name m = ''t'' \<and>
       Manifest_Digest toy m = Inr d \<and> sample_registry (Manifest_ID m) = Some d)"
proof -
  have p: "toolNamePattern ''s.t''" by code_simp
  have m: "m_Name sample_manifest = ''t''" by (simp add: sample_manifest_def)
  let ?x = "\<lparr>ex_Table = [(''s.t'', CallTool ''s'' ''t''), (ResumeTool, ResumeCall)], ex_Withheld = []\<rparr>"
  have h: "NewHandler toy sample_registry (\<lambda>_. True) True (\<lambda>_. Inr [sample_manifest]) (map sv_Name [sample_server]) = Inr ?x"
    using p m sample_check
    by (simp add: NewHandler_def expose_server_def registry_Review_eq checked_of_def expose_one_def Let_def sample_server_def refused_def)
  have i: "(''s.t'', CallTool ''s'' ''t'') \<in> set (ex_Table ?x)" by simp
  have s: "map sv_Name [sample_server] = [''s'']" by (simp add: sample_server_def)
  show ?thesis using exposed_names [OF sample_Connect h i] h i unfolding s by auto
qed

section \<open>A call over TLS\<close>

definition sample_tls :: tls_state where
  "sample_tls = \<lparr>tls_HandshakeComplete = True, tls_VerifiedChains = 1, tls_PeerCertificates = [''der'']\<rparr>"

theorem call_acts_as_peer_witness:
  "\<forall>(g :: unit gateway) h. serve_call (toy_config Allow) g sample_ce 0 True (sample_ee True sample_ts) [] (Some sample_tls) h (CallTool ''s'' ''t'') ''{}'' =
    (let (g', ucs, x) = gateway_Call (toy_config Allow) g sample_ce 0 True (sample_ee True sample_ts) ''der'' ''s'' ''t'' ''{}'' in
      (g', ucs, Some (renderResponse (cf_IsPrint (toy_config Allow)) [] x)))"
proof -
  have t: "\<forall>c. Some sample_tls = Some c \<longrightarrow> [] \<notin> set (tls_PeerCertificates c)" by (simp add: sample_tls_def)
  have c: "tls_HandshakeComplete sample_tls" "0 < tls_VerifiedChains sample_tls" "tls_PeerCertificates sample_tls = [''der'']"
    by (simp_all add: sample_tls_def)
  show ?thesis
  proof (intro allI)
    fix g :: "unit gateway" and h
    show "serve_call (toy_config Allow) g sample_ce 0 True (sample_ee True sample_ts) [] (Some sample_tls) h (CallTool ''s'' ''t'') ''{}'' =
      (let (g', ucs, x) = gateway_Call (toy_config Allow) g sample_ce 0 True (sample_ee True sample_ts) ''der'' ''s'' ''t'' ''{}'' in
        (g', ucs, Some (renderResponse (cf_IsPrint (toy_config Allow)) [] x)))"
      by (subst call_acts_as_peer [OF t]) (simp only: option.case c list.simps list.sel if_True simp_thms not_Cons_self2)
  qed
qed

section \<open>A result with authors\<close>

definition sample_callanswer :: call_answer where
  "sample_callanswer = \<lparr>an_Content = Some [\<lparr>ci_Text = Some ''hi'', ci_JSON = None\<rparr>], an_Structured = None, an_IsError = False,
     an_Meta = [AuthorsMetaKey \<mapsto> JArr [JStr ''eve'']]\<rparr>"

theorem stated_authors_label_witness:
  "\<exists>r. upstream_Call [(''s'', HTTPSession ''u'')] ''s'' (Some sample_callanswer) = Inr r \<and> tr_Authors r = [''eve''] \<and>
     TaintForeignPrincipal \<in> set (result_labels (toy_config Allow) (sample_pending Allow 0) r (tr_Content r) False)"
proof -
  let ?r = "\<lparr>tr_Content = ''hi'', tr_IsError = False, tr_Authors = [''eve'']\<rparr>"
  have "Authors [AuthorsMetaKey \<mapsto> JArr [JStr ''eve'']] = Inr [''eve'']"
    by (simp add: Authors_def maxAuthors_def maxAuthorLen_def) (code_simp)
  then have c: "upstream_Call [(''s'', HTTPSession ''u'')] ''s'' (Some sample_callanswer) = Inr ?r"
    by (simp add: upstream_Call_def sample_callanswer_def upstream_render_def slice_def)
  have m: "an_Meta sample_callanswer AuthorsMetaKey = Some (JArr [JStr ''eve''])" by (simp add: sample_callanswer_def)
  have "TaintForeignPrincipal \<in> set (result_labels (toy_config Allow) (sample_pending Allow 0) ?r ''hi'' False)"
    using stated_authors_label [OF c m, of "sample_pending Allow 0" "toy_config Allow" "''hi''" False]
    by (simp add: sample_held_simps sample_botactor_def)
  with c show ?thesis by simp
qed

section \<open>An invisible rune\<close>

definition zero_width :: bytes where
  "zero_width = map char_of [97, 226, 128, 139, 98 :: nat]"

lemma zero_width_runes: "runes zero_width = [97, 8203, 98]" "runes ''ab'' = [97, 98]"
  by (code_simp+)

definition inspecting_config :: "(unit, unit) gateway_config" where
  "inspecting_config = (toy_config Allow)\<lparr>cf_Inspect := Some (\<lambda>content. inspect_Flags (inspect_Inspect id content [''s.t'']))\<rparr>"

theorem invisible_runes_hide_nothing_witness:
  "(Instruction \<in> set (inspect_Inspect id ''ab'' [''s.t'']) \<longleftrightarrow> Instruction \<in> set (inspect_Inspect id zero_width [''s.t''])) \<and>
    kind_Flag Hidden \<in> set (result_labels inspecting_config (sample_pending Allow 0)
      \<lparr>tr_Content = zero_width, tr_IsError = False, tr_Authors = []\<rparr> zero_width False)"
proof -
  have v: "invisible 8203" "\<not> invisible 97" "\<not> invisible 98" by (simp_all add: invisible_def in_ranges_def)
  have f: "filter (\<lambda>r. \<not> invisible r) (runes ''ab'') = filter (\<lambda>r. \<not> invisible r) (runes zero_width)"
    unfolding zero_width_runes using v by simp
  have c: "cf_Inspect inspecting_config = Some (\<lambda>content. inspect_Flags (inspect_Inspect id content [''s.t'']))"
    by (simp add: inspecting_config_def)
  have n: "Instruction \<noteq> Hidden" by (simp add: Instruction_def Hidden_def)
  have e: "list_ex invisible (runes zero_width)" unfolding zero_width_runes(1) using v(1) by simp
  show ?thesis using invisible_runes_hide_nothing [OF f c, of Instruction] n e by blast
qed

end
