(* ===== verification/JsonIndent.thy ===== *)
theory JsonIndent
  imports JsonStruct Lines
begin

text \<open>
  \<open>json.MarshalIndent\<close> with two spaces, as the program writes its own files: every member and element on a line
  of its own, a space after the colon.  What it writes decodes to the value that was written.
\<close>

definition line_start :: "nat \<Rightarrow> string" where
  "line_start d = newline # replicate (2 * d) (CHR '' '')"

fun marshal_indent :: "nat \<Rightarrow> json \<Rightarrow> string" where
  "marshal_indent d (JArr js) = (if js = [] then ''[]'' else
     CHR ''['' # commas (map (\<lambda>j. line_start (Suc d) @ marshal_indent (Suc d) j) js) @ line_start d @ '']'')"
| "marshal_indent d (JObj fs) = (if fs = [] then ''{}'' else
     CHR ''{'' # commas (map (\<lambda>(k, j). line_start (Suc d) @ quote_json k @ '': '' @ marshal_indent (Suc d) j) fs) @ line_start d @ ''}'')"
| "marshal_indent d j = marshal j"

definition MarshalIndent :: "json \<Rightarrow> bytes" where
  "MarshalIndent j = marshal_indent 0 j"

section \<open>Space before a value\<close>

lemma skip_line_start [simp]: "skip_ws (line_start d @ s) = skip_ws s"
  by (induction d) (simp_all add: line_start_def skip_ws_def json_ws_def newline_def)

lemma skip_space [simp]: "skip_ws (CHR '' '' # s) = skip_ws s"
  by (simp add: skip_ws_def json_ws_def)

lemma parse_value_ws: "skip_ws a = skip_ws b \<Longrightarrow> parse_value n a = parse_value n b"
  by (cases n) simp_all

lemma parse_elems_ws: "skip_ws a = skip_ws b \<Longrightarrow> parse_elems n a = parse_elems n b"
  by (cases n) (simp_all add: parse_value_ws [of a b])

lemma parse_members_ws: "skip_ws a = skip_ws b \<Longrightarrow> parse_members n a = parse_members n b"
  by (cases n) simp_all

lemma follows_line_start [simp]: "follows (line_start d @ s)"
  by (simp add: line_start_def newline_def follows_def json_ws_def)

section \<open>Decoding\<close>

definition element :: "nat \<Rightarrow> json \<Rightarrow> string" where
  "element d j = line_start d @ marshal_indent d j"

definition indented :: "nat \<Rightarrow> string \<times> json \<Rightarrow> string" where
  "indented d kj = line_start d @ quote_json (fst kj) @ '': '' @ marshal_indent d (snd kj)"

lemma indented_pair: "indented d (k, j) = line_start d @ quote_json k @ '': '' @ marshal_indent d j"
  by (simp add: indented_def)

lemma marshal_indent_eq:
  "marshal_indent d (JArr js) = (if js = [] then ''[]'' else CHR ''['' # commas (map (element (Suc d)) js) @ line_start d @ '']'')"
  "marshal_indent d (JObj fs) = (if fs = [] then ''{}'' else CHR ''{'' # commas (map (indented (Suc d)) fs) @ line_start d @ ''}'')"
  by (simp_all add: element_def [abs_def] indented_def [abs_def] case_prod_unfold)

lemma marshal_indent_head: "json_ok j \<Longrightarrow> \<exists>c u. marshal_indent d j = c # u \<and> \<not> json_ws c \<and> c \<noteq> CHR '']''"
proof -
  assume ok: "json_ok j"
  obtain c u where "marshal j = c # u" "\<not> json_ws c" "c \<noteq> CHR '']''" by (rule marshal_head [OF ok])
  then show ?thesis by (cases j) auto
qed

lemma parse_elems_indent:
  assumes "\<And>j n t. j \<in> set js \<Longrightarrow> json_ok j \<Longrightarrow> 2 * length (marshal_indent d j) \<le> n \<Longrightarrow> follows t \<Longrightarrow>
      parse_value n (marshal_indent d j @ t) = Some (j, t)"
    and "js \<noteq> []" "list_all json_ok js" "2 * length (commas (map (element d) js)) + 1 \<le> n"
  shows "parse_elems n (commas (map (element d) js) @ line_start e @ CHR '']'' # t) = Some (js, t)"
  using assms
proof (induction js arbitrary: n)
  case (Cons j js)
  then obtain m where n: "n = Suc m" by (cases n) auto
  have w: "parse_value k (line_start d @ u) = parse_value k u" for k u by (rule parse_value_ws) simp
  show ?case
  proof (cases "js = []")
    case True
    with Cons.prems n w show ?thesis by (simp add: element_def)
  next
    case False
    with Cons.prems(4) n have m: "2 * length (marshal_indent d j) \<le> m" "2 * length (commas (map (element d) js)) + 1 \<le> m"
      by (simp_all add: commas_Cons element_def [of d j])
    have "parse_value m (marshal_indent d j @ CHR '','' # commas (map (element d) js) @ line_start e @ CHR '']'' # t)
        = Some (j, CHR '','' # commas (map (element d) js) @ line_start e @ CHR '']'' # t)"
      using Cons.prems m by simp
    moreover have "parse_elems m (commas (map (element d) js) @ line_start e @ CHR '']'' # t) = Some (js, t)"
      using Cons.IH [OF _ False _ m(2)] Cons.prems by simp
    ultimately show ?thesis using False n w by (simp add: commas_Cons element_def [of d j])
  qed
qed simp

lemma parse_members_indent:
  assumes "\<And>k j n t. (k, j) \<in> set fs \<Longrightarrow> json_ok j \<Longrightarrow> 2 * length (marshal_indent d j) \<le> n \<Longrightarrow> follows t \<Longrightarrow>
      parse_value n (marshal_indent d j @ t) = Some (j, t)"
    and "fs \<noteq> []" "list_all (\<lambda>(k, j). utf8_valid k \<and> json_ok j) fs"
    and "2 * length (commas (map (indented d) fs)) + 1 \<le> n"
  shows "parse_members n (commas (map (indented d) fs) @ line_start e @ CHR ''}'' # t) = Some (fs, t)"
  using assms
proof (induction fs arbitrary: n)
  case (Cons kj fs)
  obtain k j where kj: "kj = (k, j)" by (cases kj)
  obtain m where n: "n = Suc m" using Cons.prems(4) by (cases n) auto
  have k: "parse_chars (escape_string k @ char_of (34 :: nat) # u) = Some (k, u)" for u
    using Cons.prems(3) kj parse_chars_escape by simp
  have j: "2 * length (marshal_indent d j) \<le> m \<Longrightarrow> follows u \<Longrightarrow> parse_value m (CHR '' '' # marshal_indent d j @ u) = Some (j, u)" for u
    using Cons.prems(1) [of k j m u] Cons.prems(3) kj parse_value_ws [OF skip_space, of m "marshal_indent d j @ u"] by simp
  show ?case
  proof (cases "fs = []")
    case True
    with Cons.prems(4) k j n show ?thesis by (simp add: indented_pair quote_json_def kj)
  next
    case False
    with Cons.prems(4) n have m: "2 * length (marshal_indent d j) \<le> m" "2 * length (commas (map (indented d) fs)) + 1 \<le> m"
      by (simp_all add: commas_Cons indented_pair kj)
    have "parse_members m (commas (map (indented d) fs) @ line_start e @ CHR ''}'' # t) = Some (fs, t)"
    proof (rule Cons.IH [OF _ False _ m(2)])
      show "parse_value n (marshal_indent d j @ t) = Some (j, t)"
        if "(k, j) \<in> set fs" "json_ok j" "2 * length (marshal_indent d j) \<le> n" "follows t" for k j n t
        using Cons.prems(1) [OF _ that(2,3,4)] that(1) by auto
    qed (use Cons.prems(3) in simp)
    with k j [OF m(1)] False n show ?thesis by (simp add: indented_pair quote_json_def kj commas_Cons)
  qed
qed simp

lemma skip_ws_element: "json_ok j \<Longrightarrow> js \<noteq> [] \<Longrightarrow> hd js = j \<Longrightarrow>
    \<exists>c u. skip_ws (commas (map (element d) js) @ t) = c # u \<and> c \<noteq> CHR '']''"
  using marshal_indent_head [of j d] by (cases js; cases "tl js") (auto simp: element_def)

lemma skip_ws_indented: "fs \<noteq> [] \<Longrightarrow> \<exists>u. skip_ws (commas (map (indented d) fs) @ t) = char_of (34 :: nat) # u"
  by (cases fs; cases "tl fs") (auto simp: indented_def quote_json_def)

lemma parse_indent:
  "json_ok j \<Longrightarrow> 2 * length (marshal_indent d j) \<le> n \<Longrightarrow> follows t \<Longrightarrow> parse_value n (marshal_indent d j @ t) = Some (j, t)"
proof (induction j arbitrary: d n t)
  case (JArr js)
  show ?case
  proof (cases "js = []")
    case True
    then show ?thesis using JArr.prems parse_marshal [of "JArr js" n t] by simp
  next
    case False
    with JArr.prems obtain m where n: "n = Suc (Suc m)" by (cases n; cases "n - 1") auto
    have "parse_elems (Suc m) (commas (map (element (Suc d)) js) @ line_start d @ CHR '']'' # t) = Some (js, t)"
      using JArr False n by (intro parse_elems_indent) (simp_all add: marshal_indent_eq del: marshal_indent.simps)
    moreover have "json_ok (hd js)" using False JArr.prems(1) by (cases js) simp_all
    then obtain c u where "skip_ws (commas (map (element (Suc d)) js) @ line_start d @ CHR '']'' # t) = c # u" "c \<noteq> CHR '']''"
      using skip_ws_element [OF _ False refl] by blast
    ultimately show ?thesis using False n by (simp add: marshal_indent_eq del: marshal_indent.simps parse_elems.simps)
  qed
next
  case (JObj fs)
  show ?case
  proof (cases "fs = []")
    case True
    then show ?thesis using JObj.prems parse_marshal [of "JObj fs" n t] by simp
  next
    case False
    with JObj.prems obtain m where n: "n = Suc (Suc m)" by (cases n; cases "n - 1") auto
    have "parse_members (Suc m) (commas (map (indented (Suc d)) fs) @ line_start d @ CHR ''}'' # t) = Some (fs, t)"
    proof (rule parse_members_indent [OF _ False])
      show "parse_value n (marshal_indent (Suc d) j @ t) = Some (j, t)"
        if "(k, j) \<in> set fs" "json_ok j" "2 * length (marshal_indent (Suc d) j) \<le> n" "follows t" for k j n t
        using JObj.IH [OF that(1) _ that(2,3,4)] by simp
      show "list_all (\<lambda>(k, j). utf8_valid k \<and> json_ok j) fs" using JObj.prems(1) by simp
      show "2 * length (commas (map (indented (Suc d)) fs)) + 1 \<le> Suc m"
        using JObj.prems(2) n False by (simp add: marshal_indent_eq del: marshal_indent.simps)
    qed
    moreover obtain u where "skip_ws (commas (map (indented (Suc d)) fs) @ line_start d @ CHR ''}'' # t) = char_of (34 :: nat) # u"
      using skip_ws_indented [OF False] by blast
    moreover have "char_of (34 :: nat) \<noteq> CHR ''}''" by code_simp
    ultimately show ?thesis using False n by (simp add: marshal_indent_eq del: marshal_indent.simps parse_members.simps)
  qed
qed (use parse_marshal in \<open>fastforce simp del: marshal.simps\<close>)+

lemma decode_MarshalIndent: "json_ok j \<Longrightarrow> skip_ws t = [] \<Longrightarrow> follows t \<Longrightarrow> decode_json (MarshalIndent j @ t) = Some (j, t)"
  using parse_indent [of j 0 "2 * length (MarshalIndent j @ t) + 1" t] by (simp add: decode_json_def MarshalIndent_def)

end
