(* ===== verification/Config.thy ===== *)
theory Config
  imports WardenVerify Policy Broker JsonIndent
begin

text \<open>
  The configuration (\<open>internal/config/config.go\<close>): decoding \<open>warden.json\<close>, defaults, validation, labels and paths.
  Parsing and printing a \<open>time.Duration\<close> are parameters, and so are the working directory and, in a \<open>world\<close>,
  files and URLs.  Of a member given twice the last counts; a map is the list of its entries by key.
\<close>

section \<open>Paths\<close>

fun clean_segments :: "bool \<Rightarrow> string list \<Rightarrow> string list \<Rightarrow> string list" where
  "clean_segments rooted acc [] = rev acc"
| "clean_segments rooted acc (s # ss) =
     (if s = [] \<or> s = ''.'' then clean_segments rooted acc ss
      else if s = ''..'' then
        (case acc of a # as \<Rightarrow> if a \<noteq> ''..'' then clean_segments rooted as ss else clean_segments rooted (s # acc) ss
         | [] \<Rightarrow> clean_segments rooted (if rooted then [] else [s]) ss)
      else clean_segments rooted (s # acc) ss)"

definition path_IsAbs :: "string \<Rightarrow> bool" where
  "path_IsAbs p \<longleftrightarrow> p \<noteq> [] \<and> hd p = CHR ''/''"

definition path_Clean :: "string \<Rightarrow> string" where
  "path_Clean p =
     (let s = join ''/'' (clean_segments (path_IsAbs p) [] (split_on (CHR ''/'') p)) in
      if path_IsAbs p then CHR ''/'' # s else if s = [] then ''.'' else s)"

definition path_Join :: "string \<Rightarrow> string \<Rightarrow> string" where
  "path_Join a b = (if a = [] \<and> b = [] then [] else if a = [] then path_Clean b
     else if b = [] then path_Clean a else path_Clean (a @ ''/'' @ b))"

definition path_Abs :: "string \<Rightarrow> string \<Rightarrow> string" where
  "path_Abs wd p = (if path_IsAbs p then path_Clean p else path_Join wd p)"

definition path_Dir :: "string \<Rightarrow> string" where
  "path_Dir p = path_Clean (rev (dropWhile (\<lambda>c. c \<noteq> CHR ''/'') (rev p)))"

section \<open>Settings\<close>

record tls_files =
  tf_CACert :: string
  tf_CAKey :: string
  tf_ServerCert :: string
  tf_ServerKey :: string

record server_entry =
  sn_Name :: string
  sn_URL :: string
  sn_Command :: "string list"

record tsa_config =
  ta_URL :: string
  ta_Timeout :: int
  ta_Tokens :: string

record anchor_store =
  as_Endpoint :: string
  as_Region :: string
  as_Bucket :: string
  as_Prefix :: string
  as_PathStyle :: bool
  as_RetentionDays :: int
  as_Timeout :: int

record config =
  wc_ChainID :: string
  wc_Kid :: string
  wc_Listen :: string
  wc_ApproverListen :: string
  wc_TLS :: tls_files
  wc_ReceiptKey :: string
  wc_ReceiptCert :: string
  wc_Store :: string
  wc_Anchor :: string
  wc_Revocations :: string
  wc_CheckpointEvery :: int
  wc_CheckpointInterval :: int
  wc_Policy :: string
  wc_Pins :: string
  wc_Broker :: string
  wc_SecretsDir :: string
  wc_Approvers :: string
  wc_Roles :: "(string \<times> string list option) list"
  wc_Taint :: "(string \<times> string) list"
  wc_ToolTaint :: "(string \<times> string) list"
  wc_TSA :: "tsa_config option"
  wc_AnchorStore :: "anchor_store option"
  wc_Servers :: "server_entry list option"
  wc_dir :: string

datatype config_error =
  ConfigRead
| ConfigSyntax
| ConfigTrailing
| Required
| NoServers
| BadSchedule
| SameListen
| BadToolTaint
| BadTaint
| BadTSA
| BadEndpoint
| BadRegion
| BadBucket
| BadRetention
| BadTimeout

section \<open>Decoding\<close>

record durations =
  du_Parse :: "string \<Rightarrow> int option"
  du_String :: "int \<Rightarrow> string"

definition get_duration :: "durations \<Rightarrow> (string \<Rightarrow> json option) \<Rightarrow> string \<Rightarrow> int option" where
  "get_duration D f k = (case f k of None \<Rightarrow> Some 0 | Some j \<Rightarrow> Option.bind (as_str j) (du_Parse D))"

definition get_bool :: "(string \<Rightarrow> json option) \<Rightarrow> string \<Rightarrow> bool option" where
  "get_bool f k = (case f k of None \<Rightarrow> Some False | Some JNull \<Rightarrow> Some False | Some (JBool b) \<Rightarrow> Some b | _ \<Rightarrow> None)"

definition as_slice :: "json \<Rightarrow> string list option option" where
  "as_slice j = (case j of JNull \<Rightarrow> Some None | JArr js \<Rightarrow> map_option Some (those (map as_str js)) | _ \<Rightarrow> None)"

definition entries_of :: "(string \<times> 'a) list \<Rightarrow> (string \<times> 'a) list" where
  "entries_of xs = map (\<lambda>k. (k, the (map_of (rev xs) k))) (sort (remdups (map fst xs)))"

definition get_map :: "(json \<Rightarrow> 'a option) \<Rightarrow> (string \<Rightarrow> json option) \<Rightarrow> string \<Rightarrow> (string \<times> 'a) list option" where
  "get_map dec f k = (case f k of None \<Rightarrow> Some [] | Some JNull \<Rightarrow> Some []
     | Some (JObj fs) \<Rightarrow> map_option entries_of (those (map (\<lambda>(k, j). map_option (Pair k) (dec j)) fs)) | _ \<Rightarrow> None)"

definition dec_tls :: "json \<Rightarrow> tls_files option" where
  "dec_tls j = do { f \<leftarrow> fields_of [''ca_cert'', ''ca_key'', ''server_cert'', ''server_key''] j;
     a \<leftarrow> get_str f ''ca_cert''; b \<leftarrow> get_str f ''ca_key''; c \<leftarrow> get_str f ''server_cert''; d \<leftarrow> get_str f ''server_key'';
     Some \<lparr>tf_CACert = a, tf_CAKey = b, tf_ServerCert = c, tf_ServerKey = d\<rparr> }"

definition dec_server :: "json \<Rightarrow> server_entry option" where
  "dec_server j = do { f \<leftarrow> fields_of [''name'', ''url'', ''command''] j;
     n \<leftarrow> get_str f ''name''; u \<leftarrow> get_str f ''url''; c \<leftarrow> get_strs f ''command'';
     Some \<lparr>sn_Name = n, sn_URL = u, sn_Command = c\<rparr> }"

definition dec_tsa :: "durations \<Rightarrow> json \<Rightarrow> tsa_config option" where
  "dec_tsa D j = do { f \<leftarrow> fields_of [''url'', ''timeout'', ''tokens''] j;
     u \<leftarrow> get_str f ''url''; t \<leftarrow> get_duration D f ''timeout''; k \<leftarrow> get_str f ''tokens'';
     Some \<lparr>ta_URL = u, ta_Timeout = t, ta_Tokens = k\<rparr> }"

definition dec_anchor_store :: "durations \<Rightarrow> json \<Rightarrow> anchor_store option" where
  "dec_anchor_store D j = do {
     f \<leftarrow> fields_of [''endpoint'', ''region'', ''bucket'', ''prefix'', ''path_style'', ''retention_days'', ''timeout''] j;
     e \<leftarrow> get_str f ''endpoint''; r \<leftarrow> get_str f ''region''; b \<leftarrow> get_str f ''bucket''; p \<leftarrow> get_str f ''prefix'';
     s \<leftarrow> get_bool f ''path_style''; n \<leftarrow> get_int f ''retention_days''; t \<leftarrow> get_duration D f ''timeout'';
     Some \<lparr>as_Endpoint = e, as_Region = r, as_Bucket = b, as_Prefix = p, as_PathStyle = s, as_RetentionDays = n, as_Timeout = t\<rparr> }"

definition zero_tls :: tls_files where
  "zero_tls = \<lparr>tf_CACert = [], tf_CAKey = [], tf_ServerCert = [], tf_ServerKey = []\<rparr>"

definition config_fields :: "string list" where
  "config_fields = [''chain_id'', ''kid'', ''listen'', ''approver_listen'', ''tls'', ''receipt_key'', ''receipt_cert'', ''store'', ''anchor'',
     ''revocations'', ''checkpoint_every'', ''checkpoint_interval'', ''policy'', ''pins'', ''broker'', ''secrets_dir'', ''approvers'',
     ''roles'', ''taint'', ''tool_taint'', ''tsa'', ''anchor_store'', ''servers'']"

definition dec_config :: "durations \<Rightarrow> json \<Rightarrow> config option" where
  "dec_config D j = do { f \<leftarrow> fields_of config_fields j;
     chain \<leftarrow> get_str f ''chain_id''; kid \<leftarrow> get_str f ''kid''; l \<leftarrow> get_str f ''listen''; al \<leftarrow> get_str f ''approver_listen'';
     tls \<leftarrow> get_ptr dec_tls f ''tls'';
     rk \<leftarrow> get_str f ''receipt_key''; rc \<leftarrow> get_str f ''receipt_cert''; st \<leftarrow> get_str f ''store''; an \<leftarrow> get_str f ''anchor'';
     rv \<leftarrow> get_str f ''revocations''; ev \<leftarrow> get_int f ''checkpoint_every''; iv \<leftarrow> get_duration D f ''checkpoint_interval'';
     po \<leftarrow> get_str f ''policy''; pi \<leftarrow> get_str f ''pins''; br \<leftarrow> get_str f ''broker''; sd \<leftarrow> get_str f ''secrets_dir'';
     ap \<leftarrow> get_str f ''approvers''; ro \<leftarrow> get_map as_slice f ''roles''; ta \<leftarrow> get_map as_str f ''taint'';
     tt \<leftarrow> get_map as_str f ''tool_taint''; ts \<leftarrow> get_ptr (dec_tsa D) f ''tsa'';
     sto \<leftarrow> get_ptr (dec_anchor_store D) f ''anchor_store''; sv \<leftarrow> get_arr dec_server f ''servers'';
     Some \<lparr>wc_ChainID = chain, wc_Kid = kid, wc_Listen = l, wc_ApproverListen = al,
       wc_TLS = (case tls of None \<Rightarrow> zero_tls | Some t \<Rightarrow> t), wc_ReceiptKey = rk, wc_ReceiptCert = rc, wc_Store = st, wc_Anchor = an,
       wc_Revocations = rv, wc_CheckpointEvery = ev, wc_CheckpointInterval = iv, wc_Policy = po, wc_Pins = pi, wc_Broker = br,
       wc_SecretsDir = sd, wc_Approvers = ap, wc_Roles = ro, wc_Taint = ta, wc_ToolTaint = tt, wc_TSA = ts, wc_AnchorStore = sto,
       wc_Servers = sv, wc_dir = []\<rparr> }"

section \<open>Validation\<close>

definition bucketName :: "string \<Rightarrow> bool" where
  "bucketName s \<longleftrightarrow> 3 \<le> length s \<and> length s \<le> 63 \<and> list_all (\<lambda>c. lower c \<or> decimal c \<or> c = CHR ''.'' \<or> c = CHR ''-'') s \<and>
     (lower (hd s) \<or> decimal (hd s)) \<and> (lower (last s) \<or> decimal (last s))"

definition anchor_store_validate :: "'st world \<Rightarrow> anchor_store \<Rightarrow> config_error + unit" where
  "anchor_store_validate W a =
     (if \<not> CheckStoreEndpoint W (as_Endpoint a) then Inl BadEndpoint
      else if as_Region a = [] then Inl BadRegion
      else if \<not> bucketName (as_Bucket a) then Inl BadBucket
      else if as_RetentionDays a < 1 \<or> as_RetentionDays a > 36500 then Inl BadRetention
      else if as_Timeout a < ns_per_s then Inl BadTimeout
      else Inr ())"

definition tool_taint_ok :: "string \<times> string \<Rightarrow> bool" where
  "tool_taint_ok kv \<longleftrightarrow> (let server = takeWhile (\<lambda>c. c \<noteq> CHR ''/'') (fst kv);
       rest = dropWhile (\<lambda>c. c \<noteq> CHR ''/'') (fst kv) in
     rest \<noteq> [] \<and> server \<noteq> [] \<and> tl rest \<noteq> [] \<and> CHR ''/'' \<notin> set (tl rest) \<and> snd kv \<noteq> [])"

definition config_validate :: "'st world \<Rightarrow> config \<Rightarrow> config_error + unit" where
  "config_validate W c =
     (if [] \<in> set [wc_ChainID c, wc_Kid c, wc_Listen c, wc_ApproverListen c, tf_CACert (wc_TLS c), tf_ServerCert (wc_TLS c),
         tf_ServerKey (wc_TLS c), wc_ReceiptKey c, wc_Store c, wc_Anchor c, wc_Policy c, wc_Pins c, wc_Broker c, wc_Approvers c]
        then Inl Required
      else if wc_Servers c = None \<or> wc_Servers c = Some [] then Inl NoServers
      else if wc_CheckpointEvery c < 1 \<or> wc_CheckpointInterval c < ns_per_s then Inl BadSchedule
      else if wc_Listen c = wc_ApproverListen c then Inl SameListen
      else if \<not> list_all tool_taint_ok (wc_ToolTaint c) then Inl BadToolTaint
      else if \<not> list_all (\<lambda>(s, l). s \<noteq> [] \<and> l \<noteq> []) (wc_Taint c) then Inl BadTaint
      else if (case wc_TSA c of None \<Rightarrow> False | Some t \<Rightarrow>
          \<not> prefix ''http://'' (ta_URL t) \<and> \<not> prefix ''https://'' (ta_URL t) \<or> ta_Timeout t < ns_per_s) then Inl BadTSA
      else (case wc_AnchorStore c of None \<Rightarrow> Inr () | Some a \<Rightarrow> anchor_store_validate W a))"

definition tsa_defaults :: "tsa_config \<Rightarrow> tsa_config" where
  "tsa_defaults t = t\<lparr>ta_Timeout := (if ta_Timeout t = 0 then 10 * ns_per_s else ta_Timeout t),
     ta_Tokens := (if ta_Tokens t = [] then ''data/tokens.jsonl'' else ta_Tokens t)\<rparr>"

definition store_defaults :: "anchor_store \<Rightarrow> anchor_store" where
  "store_defaults a = a\<lparr>as_Timeout := (if as_Timeout a = 0 then 10 * ns_per_s else as_Timeout a)\<rparr>"

definition with_defaults :: "config \<Rightarrow> config" where
  "with_defaults c = c\<lparr>
     wc_CheckpointEvery := (if wc_CheckpointEvery c = 0 then 100 else wc_CheckpointEvery c),
     wc_CheckpointInterval := (if wc_CheckpointInterval c = 0 then 60 * ns_per_s else wc_CheckpointInterval c),
     wc_Revocations := (if wc_Revocations c = [] then ''data/revocations.jsonl'' else wc_Revocations c),
     wc_TSA := map_option tsa_defaults (wc_TSA c),
     wc_AnchorStore := map_option store_defaults (wc_AnchorStore c)\<rparr>"

definition config_Load :: "'st world \<Rightarrow> durations \<Rightarrow> string \<Rightarrow> string \<Rightarrow> config_error + config" where
  "config_Load W D wd path =
     ebind (of_option ConfigRead (os_ReadFile (w_fs W) path)) (\<lambda>data.
     ebind (of_option ConfigSyntax (decode_json data)) (\<lambda>(j, rest).
     ebind (of_option ConfigSyntax (dec_config D j)) (\<lambda>c0.
     if dec_More rest then Inl ConfigTrailing
     else let c = (with_defaults c0)\<lparr>wc_dir := path_Dir (path_Abs wd path)\<rparr> in
       ebind (config_validate W c) (\<lambda>_. Inr c))))"

section \<open>Labels and paths\<close>

definition config_Label :: "config \<Rightarrow> string \<Rightarrow> string \<Rightarrow> string" where
  "config_Label c server toolName = (case map_of (wc_ToolTaint c) (server @ ''/'' @ toolName) of
     Some l \<Rightarrow> l | None \<Rightarrow> (case map_of (wc_Taint c) server of None \<Rightarrow> [] | Some l \<Rightarrow> l))"

definition config_Path :: "config \<Rightarrow> string \<Rightarrow> string" where
  "config_Path c p = (if p = [] \<or> path_IsAbs p then p else path_Join (wc_dir c) p)"

definition config_Dir :: "config \<Rightarrow> string" where
  "config_Dir c = wc_dir c"

section \<open>Encoding\<close>

definition json_of_map :: "('a \<Rightarrow> json) \<Rightarrow> (string \<times> 'a) list \<Rightarrow> json" where
  "json_of_map enc xs = JObj (map (\<lambda>(k, v). (k, enc v)) xs)"

definition omit_map :: "string \<Rightarrow> ('a \<Rightarrow> json) \<Rightarrow> (string \<times> 'a) list \<Rightarrow> (string \<times> json) list" where
  "omit_map k enc xs = (if xs = [] then [] else [(k, json_of_map enc xs)])"

definition json_of_tls :: "tls_files \<Rightarrow> json" where
  "json_of_tls t = JObj ((''ca_cert'', JStr (tf_CACert t)) # omit_str ''ca_key'' (tf_CAKey t) @
     [(''server_cert'', JStr (tf_ServerCert t)), (''server_key'', JStr (tf_ServerKey t))])"

definition json_of_server :: "server_entry \<Rightarrow> json" where
  "json_of_server s = JObj ((''name'', JStr (sn_Name s)) # omit_str ''url'' (sn_URL s) @ omit_strs ''command'' (sn_Command s))"

definition json_of_tsa :: "durations \<Rightarrow> tsa_config \<Rightarrow> json" where
  "json_of_tsa D t = JObj ([(''url'', JStr (ta_URL t)), (''timeout'', JStr (du_String D (ta_Timeout t)))] @
     omit_str ''tokens'' (ta_Tokens t))"

definition json_of_anchor_store :: "durations \<Rightarrow> anchor_store \<Rightarrow> json" where
  "json_of_anchor_store D a = JObj ([(''endpoint'', JStr (as_Endpoint a)), (''region'', JStr (as_Region a)),
     (''bucket'', JStr (as_Bucket a))] @ omit_str ''prefix'' (as_Prefix a) @
     (if as_PathStyle a then [(''path_style'', JBool True)] else []) @
     [(''retention_days'', JInt (as_RetentionDays a)), (''timeout'', JStr (du_String D (as_Timeout a)))])"

definition json_of_config :: "durations \<Rightarrow> config \<Rightarrow> json" where
  "json_of_config D c = JObj ([(''chain_id'', JStr (wc_ChainID c)), (''kid'', JStr (wc_Kid c)), (''listen'', JStr (wc_Listen c)),
     (''approver_listen'', JStr (wc_ApproverListen c)), (''tls'', json_of_tls (wc_TLS c)), (''receipt_key'', JStr (wc_ReceiptKey c))] @
     omit_str ''receipt_cert'' (wc_ReceiptCert c) @ [(''store'', JStr (wc_Store c)), (''anchor'', JStr (wc_Anchor c))] @
     omit_str ''revocations'' (wc_Revocations c) @ [(''checkpoint_every'', JInt (wc_CheckpointEvery c)),
     (''checkpoint_interval'', JStr (du_String D (wc_CheckpointInterval c))), (''policy'', JStr (wc_Policy c)),
     (''pins'', JStr (wc_Pins c)), (''broker'', JStr (wc_Broker c))] @ omit_str ''secrets_dir'' (wc_SecretsDir c) @
     [(''approvers'', JStr (wc_Approvers c))] @ omit_map ''roles'' (json_of_slice JStr) (wc_Roles c) @
     omit_map ''taint'' JStr (wc_Taint c) @ omit_map ''tool_taint'' JStr (wc_ToolTaint c) @
     omit_ptr ''tsa'' (json_of_tsa D) (wc_TSA c) @ omit_ptr ''anchor_store'' (json_of_anchor_store D) (wc_AnchorStore c) @
     [(''servers'', json_of_slice json_of_server (wc_Servers c))])"


section \<open>What is saved loads\<close>

lemma fields_of_exact:
  assumes "distinct (map fst fs)" "set (map fst fs) \<subseteq> set names"
  shows "fields_of names (JObj fs) = Some (map_of fs)"
proof -
  have "those (map (\<lambda>(k, v). map_option (\<lambda>n. (n, v)) (field_name names k)) fs) = Some fs"
    using assms(2) by (induction fs) (auto simp: field_name_def)
  moreover have "map_of (rev fs) = map_of fs"
    using assms(1) by (intro map_of_perm) simp_all
  ultimately show ?thesis by (simp add: fields_of_def)
qed

lemma entries_of_sorted: "sorted (map fst xs) \<Longrightarrow> distinct (map fst xs) \<Longrightarrow> entries_of xs = xs"
proof -
  assume s: "sorted (map fst xs)" and d: "distinct (map fst xs)"
  have "map_of (rev xs) = map_of xs" using d by (intro map_of_perm) simp_all
  moreover have "sort (remdups (map fst xs)) = map fst xs" using s d by (simp add: distinct_remdups_id sort_key_id_if_sorted)
  ultimately show ?thesis using d by (auto simp: entries_of_def intro!: map_idI)
qed

lemma map_of_omit_map: "map_of (omit_map k enc xs) = (\<lambda>k'. if k' = k \<and> xs \<noteq> [] then Some (json_of_map enc xs) else None)"
  by (auto simp: omit_map_def)

lemma map_of_omit_flag: "map_of (if b then [(k, j)] else []) = (\<lambda>k'. if k' = k \<and> b then Some j else None)"
  by auto

lemma keys_omit_map: "map fst (omit_map k enc xs) = (if xs = [] then [] else [k])"
  by (simp add: omit_map_def)

lemma keys_omit_flag: "map fst (if b then [(k, j)] else []) = (if b then [k] else [])"
  by simp

lemmas config_simps = map_of_omit_str map_of_omit_strs map_of_omit_ptr map_of_omit_map map_of_omit_flag map_add_def
  keys_omit keys_omit_map keys_omit_flag

lemma those_pairs:
  assumes "\<And>x. x \<in> set xs \<Longrightarrow> dec (enc (snd x)) = Some (snd x)"
  shows "those (map (\<lambda>(k, j). map_option (Pair k) (dec j)) (map (\<lambda>(k, v). (k, enc v)) xs)) = Some xs"
  using assms by (induction xs) (auto simp: case_prod_unfold)

lemma get_map_encoded:
  assumes "f k = (if xs \<noteq> [] then Some (json_of_map enc xs) else None)" "\<And>x. x \<in> set xs \<Longrightarrow> dec (enc (snd x)) = Some (snd x)"
    and "sorted (map fst xs)" "distinct (map fst xs)"
  shows "get_map dec f k = Some xs"
proof (cases "xs = []")
  case True
  then show ?thesis using assms(1) by (simp add: get_map_def)
next
  case False
  have "those (map (\<lambda>(k, j). map_option (Pair k) (dec j)) (map (\<lambda>(k, v). (k, enc v)) xs)) = Some xs"
    by (rule those_pairs) (rule assms(2))
  then show ?thesis using assms(1) False entries_of_sorted [OF assms(3,4)] by (simp add: get_map_def json_of_map_def)
qed

lemma as_slice_encoded: "as_slice (json_of_slice JStr x) = Some x"
  by (cases x) (simp_all add: as_slice_def json_of_slice_def comp_def)

lemma dec_tls_encoded: "dec_tls (json_of_tls t) = Some t"
  unfolding json_of_tls_def dec_tls_def
  by (subst fields_of_exact) (auto simp: config_simps get_str_def)

lemma dec_server_encoded: "dec_server (json_of_server x) = Some x"
  unfolding json_of_server_def dec_server_def
  by (subst fields_of_exact) (auto simp: config_simps get_str_def get_strs_def comp_def)

definition durations_ok :: "durations \<Rightarrow> bool" where
  "durations_ok D \<longleftrightarrow> (\<forall>d. du_Parse D (du_String D d) = Some d)"

lemma dec_tsa_encoded: "durations_ok D \<Longrightarrow> dec_tsa D (json_of_tsa D t) = Some t"
  unfolding json_of_tsa_def dec_tsa_def
  by (subst fields_of_exact) (auto simp: config_simps get_str_def get_duration_def durations_ok_def)

lemma dec_anchor_store_encoded:
  "durations_ok D \<Longrightarrow> 1 \<le> as_RetentionDays a \<Longrightarrow> as_RetentionDays a \<le> 36500 \<Longrightarrow>
    dec_anchor_store D (json_of_anchor_store D a) = Some a"
  unfolding json_of_anchor_store_def dec_anchor_store_def
  by (subst fields_of_exact) (auto simp: config_simps get_str_def get_int_def get_bool_def get_duration_def durations_ok_def)

lemma get_ptr_encoded:
  assumes "f k = map_option enc x" "\<And>a. x = Some a \<Longrightarrow> enc a \<noteq> JNull \<and> dec (enc a) = Some a"
  shows "get_ptr dec f k = Some x"
proof (cases x)
  case (Some a)
  then show ?thesis using assms by (cases "enc a") (auto simp: get_ptr_def)
qed (use assms in \<open>simp add: get_ptr_def\<close>)

lemma get_arr_encoded:
  assumes "f k = Some (json_of_slice enc x)" "\<And>a. dec (enc a) = Some a"
  shows "get_arr dec f k = Some x"
  using assms by (cases x) (simp_all add: get_arr_def json_of_slice_def comp_def)

definition map_ok :: "(string \<times> 'a) list \<Rightarrow> bool" where
  "map_ok xs \<longleftrightarrow> sorted (map fst xs) \<and> distinct (map fst xs)"

definition config_savable :: "config \<Rightarrow> bool" where
  "config_savable c \<longleftrightarrow> map_ok (wc_Roles c) \<and> map_ok (wc_Taint c) \<and> map_ok (wc_ToolTaint c) \<and>
     1 \<le> wc_CheckpointEvery c \<and> wc_CheckpointEvery c < 2 ^ 63 \<and>
     pred_option (\<lambda>a. 1 \<le> as_RetentionDays a \<and> as_RetentionDays a \<le> 36500) (wc_AnchorStore c)"

lemma dec_config_encoded:
  assumes "durations_ok D" "config_savable c"
  shows "dec_config D (json_of_config D c) = Some (c\<lparr>wc_dir := []\<rparr>)"
proof -
  obtain fs where fs: "json_of_config D c = JObj fs" by (simp add: json_of_config_def)
  note f = fs [unfolded json_of_config_def json.inject, symmetric]
  have dist: "distinct (map fst fs)" "set (map fst fs) \<subseteq> set config_fields"
    unfolding f config_fields_def by (simp_all add: keys_omit keys_omit_map del: set_map)
  have strs: "get_str (map_of fs) ''chain_id'' = Some (wc_ChainID c)" "get_str (map_of fs) ''kid'' = Some (wc_Kid c)"
    "get_str (map_of fs) ''listen'' = Some (wc_Listen c)" "get_str (map_of fs) ''approver_listen'' = Some (wc_ApproverListen c)"
    "get_str (map_of fs) ''receipt_key'' = Some (wc_ReceiptKey c)" "get_str (map_of fs) ''receipt_cert'' = Some (wc_ReceiptCert c)"
    "get_str (map_of fs) ''store'' = Some (wc_Store c)" "get_str (map_of fs) ''anchor'' = Some (wc_Anchor c)"
    "get_str (map_of fs) ''revocations'' = Some (wc_Revocations c)" "get_str (map_of fs) ''policy'' = Some (wc_Policy c)"
    "get_str (map_of fs) ''pins'' = Some (wc_Pins c)" "get_str (map_of fs) ''broker'' = Some (wc_Broker c)"
    "get_str (map_of fs) ''secrets_dir'' = Some (wc_SecretsDir c)" "get_str (map_of fs) ''approvers'' = Some (wc_Approvers c)"
    unfolding f by (simp_all add: config_simps get_str_def)
  have rest: "map_of fs ''tls'' = Some (json_of_tls (wc_TLS c))" "map_of fs ''checkpoint_every'' = Some (JInt (wc_CheckpointEvery c))"
    "map_of fs ''checkpoint_interval'' = Some (JStr (du_String D (wc_CheckpointInterval c)))"
    "map_of fs ''roles'' = (if wc_Roles c \<noteq> [] then Some (json_of_map (json_of_slice JStr) (wc_Roles c)) else None)"
    "map_of fs ''taint'' = (if wc_Taint c \<noteq> [] then Some (json_of_map JStr (wc_Taint c)) else None)"
    "map_of fs ''tool_taint'' = (if wc_ToolTaint c \<noteq> [] then Some (json_of_map JStr (wc_ToolTaint c)) else None)"
    "map_of fs ''tsa'' = map_option (json_of_tsa D) (wc_TSA c)"
    "map_of fs ''anchor_store'' = map_option (json_of_anchor_store D) (wc_AnchorStore c)"
    "map_of fs ''servers'' = Some (json_of_slice json_of_server (wc_Servers c))"
    unfolding f by (simp_all add: config_simps split: option.split)
  have o: "get_ptr dec_tls (map_of fs) ''tls'' = Some (Some (wc_TLS c))"
    "get_ptr (dec_tsa D) (map_of fs) ''tsa'' = Some (wc_TSA c)"
    "get_ptr (dec_anchor_store D) (map_of fs) ''anchor_store'' = Some (wc_AnchorStore c)"
    using assms rest dec_anchor_store_encoded [OF assms(1)]
    by (auto intro!: get_ptr_encoded simp: dec_tls_encoded dec_tsa_encoded config_savable_def)
      (simp_all add: json_of_tls_def json_of_tsa_def json_of_anchor_store_def)
  have m: "get_map as_slice (map_of fs) ''roles'' = Some (wc_Roles c)" "get_map as_str (map_of fs) ''taint'' = Some (wc_Taint c)"
    "get_map as_str (map_of fs) ''tool_taint'' = Some (wc_ToolTaint c)"
    using assms(2) rest by (auto intro!: get_map_encoded simp: as_slice_encoded config_savable_def map_ok_def)
  have n: "get_int (map_of fs) ''checkpoint_every'' = Some (wc_CheckpointEvery c)"
    "get_duration D (map_of fs) ''checkpoint_interval'' = Some (wc_CheckpointInterval c)"
    using assms rest by (simp_all add: get_int_def get_duration_def durations_ok_def config_savable_def)
  have sv: "get_arr dec_server (map_of fs) ''servers'' = Some (wc_Servers c)"
    by (rule get_arr_encoded [where enc = json_of_server]) (simp_all add: rest(9) dec_server_encoded)
  show ?thesis unfolding fs dec_config_def fields_of_exact [OF dist] by (simp add: strs o m n sv)
qed

lemma map_ok_entries: "map_ok (entries_of xs)"
  by (simp add: map_ok_def entries_of_def comp_def)

lemma map_ok_Nil [simp]: "map_ok []"
  by (simp add: map_ok_def)

lemma get_map_ok: "get_map dec f k = Some xs \<Longrightarrow> map_ok xs"
  by (auto simp: get_map_def map_ok_entries split: option.splits json.splits)

lemma get_int_bounded: "get_int f k = Some i \<Longrightarrow> i < 2 ^ 63"
  by (auto simp: get_int_def split: option.splits json.splits if_splits)

text \<open>What a configuration that loads is like.\<close>

lemma tsa_defaults_idem [simp]: "tsa_defaults (tsa_defaults t) = tsa_defaults t"
  by (cases t) (simp add: tsa_defaults_def ns_per_s_def)

lemma store_defaults_idem [simp]: "store_defaults (store_defaults a) = store_defaults a"
  by (cases a) (simp add: store_defaults_def ns_per_s_def)

lemma with_defaults_idem: "with_defaults (with_defaults c) = with_defaults c"
  by (cases c) (simp add: with_defaults_def option.map_comp comp_def ns_per_s_def)

lemma with_defaults_updates:
  "with_defaults (c\<lparr>wc_dir := p\<rparr>) = (with_defaults c)\<lparr>wc_dir := p\<rparr>"
  "with_defaults (c\<lparr>wc_Kid := k\<rparr>) = (with_defaults c)\<lparr>wc_Kid := k\<rparr>"
  "with_defaults (c\<lparr>wc_ReceiptKey := k\<rparr>) = (with_defaults c)\<lparr>wc_ReceiptKey := k\<rparr>"
  "with_defaults (c\<lparr>wc_ReceiptCert := k\<rparr>) = (with_defaults c)\<lparr>wc_ReceiptCert := k\<rparr>"
  by (cases c; simp add: with_defaults_def)+

lemma config_Load_Inr:
  assumes "config_Load W D wd path = Inr c"
  shows "config_validate W c = Inr () \<and> with_defaults c = c \<and> wc_dir c = path_Dir (path_Abs wd path) \<and> config_savable c"
proof -
  obtain j c0 where c0: "dec_config D j = Some c0" "c = (with_defaults c0)\<lparr>wc_dir := path_Dir (path_Abs wd path)\<rparr>"
    and v: "config_validate W c = Inr ()"
    using assms by (auto simp: config_Load_def Let_def split: if_splits)
  have m: "map_ok (wc_Roles c0) \<and> map_ok (wc_Taint c0) \<and> map_ok (wc_ToolTaint c0) \<and> wc_CheckpointEvery c0 < 2 ^ 63"
    using c0(1) unfolding dec_config_def by (auto simp: bind_eq_Some_conv dest: get_map_ok get_int_bounded)
  have "1 \<le> wc_CheckpointEvery c" "pred_option (\<lambda>a. 1 \<le> as_RetentionDays a \<and> as_RetentionDays a \<le> 36500) (wc_AnchorStore c)"
    using v by (auto simp: config_validate_def anchor_store_validate_def pred_option_def split: if_splits option.splits)
  with m v show ?thesis unfolding config_savable_def by (auto simp: c0(2) with_defaults_updates with_defaults_idem) (simp_all add: with_defaults_def)
qed

text \<open>A file as \<open>saveConfig\<close> writes it loads as the configuration it was written from.\<close>

lemma config_Load_saved:
  assumes "durations_ok D" "config_savable c" "with_defaults c = c" "config_validate W c = Inr ()"
    and "wc_dir c = path_Dir (path_Abs wd path)" "json_ok (json_of_config D c)"
    and "os_ReadFile (w_fs W) path = Some (MarshalIndent (json_of_config D c) @ [newline])"
  shows "config_Load W D wd path = Inr c"
proof -
  have "decode_json (MarshalIndent (json_of_config D c) @ [newline]) = Some (json_of_config D c, [newline])"
    by (rule decode_MarshalIndent [OF assms(6)]) (simp_all add: skip_ws_def json_ws_def newline_def follows_def)
  moreover have "\<not> dec_More [newline]" by (simp add: dec_More_def skip_ws_def json_ws_def newline_def)
  moreover have "with_defaults (c\<lparr>wc_dir := []\<rparr>)\<lparr>wc_dir := path_Dir (path_Abs wd path)\<rparr> = c"
  proof -
    have "with_defaults (c\<lparr>wc_dir := []\<rparr>) = c\<lparr>wc_dir := []\<rparr>" by (simp only: with_defaults_updates assms(3))
    then show ?thesis by (simp flip: assms(5))
  qed
  ultimately show ?thesis
    using dec_config_encoded [OF assms(1,2)] assms(4) by (simp add: config_Load_def assms(7) Let_def)
qed

text \<open>
  The configuration that the program saves is the configuration that it loads: what \<open>saveConfig\<close> writes, line
  ends and all, is read back by \<open>Load\<close> as the very settings, so that a rotation changes only what it means to change.
\<close>

theorem saved_config_loads:
  assumes "durations_ok D" "config_Load W0 D wd path = Inr c0"
    and "c = c0\<lparr>wc_Kid := kid, wc_ReceiptKey := rkey, wc_ReceiptCert := rcert\<rparr>" "kid \<noteq> []" "rkey \<noteq> []"
    and "os_ReadFile (w_fs W) path = Some (MarshalIndent (json_of_config D c) @ [newline])" "json_ok (json_of_config D c)"
    and "w_url W = w_url W0" "w_ParseIP W = w_ParseIP W0"
  shows "config_Load W D wd path = Inr c"
proof (rule config_Load_saved [OF assms(1) _ _ _ _ assms(7,6)])
  note l = config_Load_Inr [OF assms(2)]
  have e: "CheckStoreEndpoint W u = CheckStoreEndpoint W0 u" for u by (simp only: CheckStoreEndpoint_def assms(8,9))
  show "config_validate W c = Inr ()"
    using l assms(4,5) by (auto simp: assms(3) config_validate_def anchor_store_validate_def e split: if_splits option.splits)
  show "with_defaults c = c" using l by (simp only: assms(3) with_defaults_updates)
  show "config_savable c" using l by (simp add: assms(3) config_savable_def)
  show "wc_dir c = path_Dir (path_Abs wd path)" using l by (simp add: assms(3))
qed

end
