(* ===== verification/Checkpointer.thy ===== *)
theory Checkpointer
  imports Config Store Tsa S3Anchor
begin

text \<open>
  The checkpointer of \<open>cmd/warden/serve.go\<close>: every second it decides whether a checkpoint is due, signs one over
  the exported log, appends it to the anchor file, has it timestamped, and offers the newest one to the write-once
  store, with growing waits while the store cannot be reached.  Its mutex makes each tick one step.  File contents,
  clocks and the answers of the two services are arguments.
\<close>

section \<open>State\<close>

record signed_checkpoint =
  sk_c :: checkpoint
  sk_s :: signed

record checkpointer =
  ck_key :: signer
  ck_kid :: string
  ck_chain :: string
  ck_policy :: checkpoint_policy
  ck_stamp :: bool
  ck_external :: "s3_anchor option"
  ck_pending :: "signed_checkpoint option"
  ck_failures :: int
  ck_nextTry :: "time option"
  ck_lastSize :: int
  ck_lastAt :: time

definition maxAnchorBackoff :: int where
  "maxAnchorBackoff = 5 * 60 * ns_per_s"

datatype start_error =
  BadAnchorName
| NoAnchorCredentials
| AnchorFile
| ExistingAnchor checkpoint_error
| LastAnchorLine envelope_error

text \<open>The messages it prints.\<close>

datatype message =
  CheckpointFailed
| TimestampFailed
| StoreReached int int
| StoreForked int
| StoreUnreachable int int

section \<open>Starting\<close>

definition newStoreAnchor :: "(string \<Rightarrow> string) \<Rightarrow> config \<Rightarrow> anchor_store \<Rightarrow> start_error + s3_anchor" where
  "newStoreAnchor getenv cfg a =
     (if \<not> ValidName (as_Prefix a) (wc_ChainID cfg) then Inl BadAnchorName
      else if getenv EnvAnchorAccessKeyID = [] \<or> getenv EnvAnchorSecretAccessKey = [] then Inl NoAnchorCredentials
      else Inr \<lparr>an_Prefix = as_Prefix a, an_ChainID = wc_ChainID cfg,
        an_Retention = sint (of_int (as_RetentionDays a) * 24 * of_int (3600 * ns_per_s) :: 64 word)\<rparr>)"

text \<open>Every key of the trust file is known, if there is one, and the current key.\<close>

definition anchor_keys :: "string \<Rightarrow> public_key option \<Rightarrow> trusted option \<Rightarrow> key_resolver" where
  "anchor_keys kid pub trusted k = (if k = kid then pub else case trusted of None \<Rightarrow> None | Some t \<Rightarrow> t k)"

text \<open>\<open>data\<close> is the anchor file: missing, unreadable, or its bytes.\<close>

datatype file_data = Missing | Unreadable | Content bytes

definition newCheckpointer ::
  "'x crypto_scheme \<Rightarrow> (string \<Rightarrow> string) \<Rightarrow> config \<Rightarrow> signer \<Rightarrow> trusted option \<Rightarrow> file_data \<Rightarrow> time \<Rightarrow> start_error + checkpointer" where
  "newCheckpointer C getenv cfg key trusted data now =
     ebind (case wc_AnchorStore cfg of None \<Rightarrow> Inr None
        | Some a \<Rightarrow> ebind (newStoreAnchor getenv cfg a) (\<lambda>x. Inr (Some x))) (\<lambda>ext.
     let c = \<lparr>ck_key = key, ck_kid = wc_Kid cfg, ck_chain = wc_ChainID cfg,
         ck_policy = \<lparr>cp_Every = wc_CheckpointEvery cfg, cp_Interval = wc_CheckpointInterval cfg\<rparr>,
         ck_stamp = (wc_TSA cfg \<noteq> None), ck_external = ext, ck_pending = None, ck_failures = 0, ck_nextTry = None,
         ck_lastSize = 0, ck_lastAt = now\<rparr> in
     case data of Missing \<Rightarrow> Inr c | Unreadable \<Rightarrow> Inl AnchorFile
     | Content b \<Rightarrow>
        ebind (map_err ExistingAnchor (ReadVerified C b (wc_ChainID cfg) (anchor_keys (wc_Kid cfg) (sgn_Public key) trusted))) (\<lambda>cps.
        if cps = [] then Inr c
        else let c1 = c\<lparr>ck_lastSize := c_size (last cps)\<rparr> in
          if ext = None then Inr c1
          else ebind (map_err LastAnchorLine (ParseLine C (last (split_lines (trim_space b))))) (\<lambda>s.
            Inr (c1\<lparr>ck_pending := Some \<lparr>sk_c = last cps, sk_s = s\<rparr>\<rparr>))))"

section \<open>A tick\<close>

text \<open>The lines of an export, as \<open>bytes.Split\<close> gives them.\<close>

definition export_lines :: "bytes \<Rightarrow> bytes list" where
  "export_lines b = split_lines (if b \<noteq> [] \<and> last b = newline then butlast b else b)"

text \<open>
  The outcomes of a tick: whether the log can be exported, how the write to the anchor file ends, what the
  authority answers and how the write to the token file ends.
\<close>

record tick_env =
  te_Export :: bool
  te_Write :: "nat option"
  te_Post :: "bytes \<Rightarrow> (int \<times> bytes option) option"
  te_TokenWrite :: "nat option"

record anchor_files =
  af_anchor :: bytes
  af_tokens :: bytes

definition timestamp ::
  "'x crypto_scheme \<Rightarrow> timestamp_lib \<Rightarrow> tick_env \<Rightarrow> anchor_files \<Rightarrow> signed \<Rightarrow> anchor_files \<times> bool" where
  "timestamp C T te fl s =
     (case signed_Line C s of Inl _ \<Rightarrow> (fl, False)
      | Inr line \<Rightarrow> (case Stamp T (te_Post te) line of Inl _ \<Rightarrow> (fl, False)
        | Inr tok \<Rightarrow> (let (ok, toks) = AppendToken C (af_tokens fl) line tok (te_TokenWrite te) in (fl\<lparr>af_tokens := toks\<rparr>, ok))))"

definition new_checkpoint ::
  "'x crypto_scheme \<Rightarrow> checkpointer \<Rightarrow> store \<Rightarrow> time \<Rightarrow> checkpoint_error + signed_checkpoint" where
  "new_checkpoint C k s now =
     (let b = foldl (builder_Add C) (NewBuilder (ck_chain k)) (export_lines (store_Export s)) in
      ebind (builder_Checkpoint C b (format_ts now)) (\<lambda>cp.
      ebind (checkpoint_Sign C (Some (ck_key k)) (ck_kid k) cp) (\<lambda>sg. Inr \<lparr>sk_c = cp, sk_s = sg\<rparr>)))"

definition checkpointLocked ::
  "'x crypto_scheme \<Rightarrow> timestamp_lib \<Rightarrow> tick_env \<Rightarrow> checkpointer \<Rightarrow> anchor_files \<Rightarrow> store \<Rightarrow> store \<Rightarrow> time \<Rightarrow> bool \<Rightarrow>
     checkpointer \<times> anchor_files \<times> message list \<times> bool" where
  "checkpointLocked C T te k fl s0 s now force =
     (let sz = store_Next s0 in
      if sz = 0 \<or> sz \<le> ck_lastSize k \<or> \<not> force \<and> \<not> policy_Due (ck_policy k) (ck_lastSize k) sz (ck_lastAt k) now
        then (k, fl, [], True)
      else if \<not> te_Export te then (k, fl, [], False)
      else (case new_checkpoint C k s now of Inl _ \<Rightarrow> (k, fl, [], False)
      | Inr p \<Rightarrow> (case file_Publish C (af_anchor fl) (sk_s p) (te_Write te) of
          (False, b) \<Rightarrow> (k, fl\<lparr>af_anchor := b\<rparr>, [], False)
        | (True, b) \<Rightarrow>
            let k1 = k\<lparr>ck_lastSize := c_size (sk_c p), ck_lastAt := now\<rparr>;
                k2 = (if ck_external k = None then k1 else k1\<lparr>ck_pending := Some p\<rparr>);
                fl1 = fl\<lparr>af_anchor := b\<rparr> in
            if \<not> ck_stamp k then (k2, fl1, [], True)
            else (let (fl2, ok) = timestamp C T te fl1 (sk_s p) in (k2, fl2, if ok then [] else [TimestampFailed], True)))))"

text \<open>The wait after \<open>n\<close> failures, a shifted 64-bit duration.\<close>

definition backoff :: "int \<Rightarrow> int" where
  "backoff n = min (sint (push_bit (nat (min n 9)) (of_int ns_per_s :: 64 word))) maxAnchorBackoff"

definition anchorExternally ::
  "'x crypto_scheme \<Rightarrow> (bytes \<Rightarrow> bytes) \<Rightarrow> 'st transport \<Rightarrow> 'st \<Rightarrow> checkpointer \<Rightarrow> time \<Rightarrow> bool \<Rightarrow>
     'st \<times> checkpointer \<times> message list" where
  "anchorExternally C md5 send st k now force =
     (case (ck_external k, ck_pending k) of (Some a, Some p) \<Rightarrow>
        if \<not> force \<and> (case ck_nextTry k of None \<Rightarrow> False | Some t \<Rightarrow> now < t) then (st, k, [])
        else (case anchor_Publish C md5 send st a now (Some (sk_c p)) (Some (sk_s p)) of
          (st', Inr _) \<Rightarrow> (st', k\<lparr>ck_pending := None, ck_failures := 0, ck_nextTry := None\<rparr>,
            if 0 < ck_failures k then [StoreReached (c_size (sk_c p)) (ck_failures k)] else [])
        | (st', Inl e) \<Rightarrow>
            if e = ErrConflict then (st', k\<lparr>ck_pending := None, ck_failures := 0, ck_nextTry := None\<rparr>,
              [StoreForked (c_size (sk_c p))])
            else let n = ck_failures k + 1 in
              (st', k\<lparr>ck_failures := n, ck_nextTry := Some (now + backoff n)\<rparr>, [StoreUnreachable n (backoff n)]))
      | _ \<Rightarrow> (st, k, []))"

text \<open>
  \<open>checkpoint\<close> and what its caller prints when it fails; \<open>now\<close> and \<open>now'\<close> are the two readings of the clock, and \<open>s0\<close> and
  \<open>s\<close> the log when its size is asked for and when it is exported: calls are recorded between the two.
\<close>

definition tick ::
  "'x crypto_scheme \<Rightarrow> timestamp_lib \<Rightarrow> (bytes \<Rightarrow> bytes) \<Rightarrow> 'st transport \<Rightarrow> tick_env \<Rightarrow> 'st \<Rightarrow> checkpointer \<Rightarrow> anchor_files \<Rightarrow> store \<Rightarrow> store \<Rightarrow>
     time \<Rightarrow> time \<Rightarrow> bool \<Rightarrow> 'st \<times> checkpointer \<times> anchor_files \<times> message list" where
  "tick C T md5 send te st k fl s0 s now now' force =
     (let (k1, fl1, ms, ok) = checkpointLocked C T te k fl s0 s now force;
          (st', k2, ms') = anchorExternally C md5 send st k1 now' force in
      (st', k2, fl1, ms @ ms' @ (if ok then [] else [CheckpointFailed])))"

section \<open>What a tick writes\<close>

lemma butlast_unlines: "ls \<noteq> [] \<Longrightarrow> list_all (\<lambda>l. newline \<notin> set l) ls \<Longrightarrow> split_lines (butlast (unlines ls)) = ls"
proof (induction ls)
  case (Cons l ls)
  have u: "unlines (l # ls) = l @ newline # unlines ls" by (simp add: unlines_def)
  show ?case
  proof (cases "ls = []")
    case True
    then show ?thesis using Cons.prems(2) by (simp add: unlines_def split_lines_last butlast_append)
  next
    case False
    then have "unlines ls \<noteq> []" by (cases ls) (simp_all add: unlines_def)
    then have "butlast (unlines (l # ls)) = l @ newline # butlast (unlines ls)" unfolding u by (simp add: butlast_append)
    then show ?thesis using Cons False by (simp add: split_lines_line)
  qed
qed simp

lemma export_lines_unlines: "ls \<noteq> [] \<Longrightarrow> list_all plain_line ls \<Longrightarrow> export_lines (unlines ls) = ls"
proof -
  assume ls: "ls \<noteq> []" "list_all plain_line ls"
  have "unlines ls \<noteq> [] \<and> last (unlines ls) = newline"
    using ls(1) by (cases ls rule: rev_cases) (simp_all add: unlines_def)
  then show ?thesis using butlast_unlines [OF ls(1)] ls(2) by (simp add: export_lines_def list_all_iff plain_line_def)
qed

lemma store_export: "store_holds C es s \<Longrightarrow> store_Export s = unlines (map e_line es) \<and> store_Next s = int (length es)"
  by (simp add: store_Export_def store_lines_def ordered_rows_def store_holds_def rows_of_lines store_Next_def appender_at_def)

lemma new_checkpoint_covers:
  assumes "store_holds C es s" "es \<noteq> []" "list_all plain_line (map e_line es)" "new_checkpoint C k s now = Inr p"
  shows "commits C (ck_chain k) (sk_c p) (map e_line es) \<and> checkpoint_ok (sk_c p) \<and> c_ts (sk_c p) = format_ts now \<and>
    checkpoint_Sign C (Some (ck_key k)) (ck_kid k) (sk_c p) = Inr (sk_s p)"
proof -
  have "export_lines (store_Export s) = map e_line es"
    using store_export [OF assms(1)] export_lines_unlines [OF _ assms(3)] assms(2) by simp
  then obtain cp where cp: "builder_Checkpoint C (build C (ck_chain k) (map e_line es)) (format_ts now) = Inr cp"
    "checkpoint_Sign C (Some (ck_key k)) (ck_kid k) cp = Inr (sk_s p)" "sk_c p = cp"
    using assms(4) by (auto simp: new_checkpoint_def build_def Let_def)
  have "c_ts cp = format_ts now" using cp(1) by (auto simp: builder_Checkpoint_def Let_def split: if_splits)
  with builder_Checkpoint_commits [OF cp(1)] cp(2,3) show ?thesis by simp
qed

lemma checkpointLocked_cases:
  assumes "checkpointLocked C T te k fl s0 s now force = (k', fl', ms, ok)" "te_Write te = None \<or> af_anchor fl' = af_anchor fl"
  shows "k' = k \<and> af_anchor fl' = af_anchor fl \<or>
    (\<exists>p line. new_checkpoint C k s now = Inr p \<and> signed_Line C (sk_s p) = Inr line \<and>
       af_anchor fl' = af_anchor fl @ line @ [newline] \<and> ck_lastSize k < store_Next s0 \<and> store_Next s0 \<noteq> 0 \<and>
       k' = k\<lparr>ck_lastSize := c_size (sk_c p), ck_lastAt := now,
         ck_pending := (if ck_external k = None then ck_pending k else Some p)\<rparr>)"
proof (cases "new_checkpoint C k s now")
  case (Inl e)
  then show ?thesis using assms(1) by (auto simp: checkpointLocked_def Let_def split: if_splits)
next
  case (Inr p)
  have t: "af_anchor (fst (timestamp C T te fl1 sg)) = af_anchor fl1" for fl1 sg
    by (auto simp: timestamp_def split: sum.split prod.split)
  show ?thesis
  proof (cases "signed_Line C (sk_s p)")
    case (Inl e)
    then show ?thesis using assms(1) Inr by (auto simp: checkpointLocked_def file_Publish_def Let_def split: if_splits)
  next
    case line: (Inr line)
    show ?thesis
    proof (cases "te_Write te")
      case None
      show ?thesis using assms(1) Inr line None t [of "fl\<lparr>af_anchor := af_anchor fl @ line @ [newline]\<rparr>" "sk_s p"]
        by (cases "timestamp C T te (fl\<lparr>af_anchor := af_anchor fl @ line @ [newline]\<rparr>) (sk_s p)")
          (auto simp: checkpointLocked_def file_Publish_def Let_def split: if_splits)
    next
      case (Some n)
      then show ?thesis using assms Inr line by (auto simp: checkpointLocked_def file_Publish_def Let_def split: if_splits)
    qed
  qed
qed

lemma anchorExternally_keeps:
  "anchorExternally C md5 send st k now force = (st', k', ms) \<Longrightarrow>
    k' = k\<lparr>ck_pending := ck_pending k', ck_failures := ck_failures k', ck_nextTry := ck_nextTry k'\<rparr> \<and>
    (ck_pending k' = ck_pending k \<or> ck_pending k' = None)"
  by (auto simp: anchorExternally_def Let_def split: option.splits prod.splits sum.splits if_splits)

section \<open>The anchor file always reads back\<close>

lemma anchored_reads: "anchored C chainID keys lines cps \<Longrightarrow> efold (read_anchor_line C chainID keys) [] lines = Inr cps"
proof (induction lines arbitrary: cps rule: rev_induct)
  case (snoc l ls)
  then obtain cs c where c: "cps = cs @ [c]" "list_all2 (anchor_line C chainID keys) ls cs" "anchor_line C chainID keys l c"
    by (auto simp: anchored_def list_all2_append1 list_all2_Cons1)
  have "sorted_wrt cp_before cs \<and> (cs \<noteq> [] \<longrightarrow> cp_before (last cs) c)"
    using snoc.prems sorted_wrt_snoc [of cp_before cs c] cp_before_trans by (auto simp: anchored_def c(1))
  then have "efold (read_anchor_line C chainID keys) [] ls = Inr cs" "read_anchor_line C chainID keys cs l = Inr (cs @ [c])"
    using snoc.IH [of cs] c by (auto simp: anchored_def read_anchor_line_Inr)
  then show ?case by (simp add: efold_snoc_Inr c(1))
qed (simp add: anchored_def)

lemma anchored_mono: "anchored C chainID keys ls cps \<Longrightarrow> keys \<subseteq>\<^sub>m keys' \<Longrightarrow> anchored C chainID keys' ls cps"
proof -
  assume a: "anchored C chainID keys ls cps" and m: "keys \<subseteq>\<^sub>m keys'"
  have "anchor_line C chainID keys l c \<Longrightarrow> anchor_line C chainID keys' l c" for l c
    using m by (fastforce simp: anchor_line_def map_le_def dom_def)
  then show ?thesis using a by (auto simp: anchored_def intro: list_all2_mono)
qed

lemma cp_matches_grow: "cp_matches C chainID ls c \<Longrightarrow> 1 \<le> c_size c \<Longrightarrow> cp_matches C chainID (ls @ ls') c"
  by (auto simp: cp_matches_def nth_append)

lemma commits_matches: "commits C chainID c ls \<Longrightarrow> cp_matches C chainID ls c"
proof -
  have "nat (int (length ls) - 1) = length ls - 1" by simp
  then show "commits C chainID c ls \<Longrightarrow> cp_matches C chainID ls c"
    by (auto simp: commits_def cp_matches_def last_conv_nth simp del: nat_minus_as_int)
qed

text \<open>What holds of the anchor file, with the checkpoints it holds, the log and the last reading of the clock.\<close>

definition anchor_inv ::
  "'x crypto_scheme \<Rightarrow> string \<Rightarrow> key_resolver \<Rightarrow> bytes \<Rightarrow> bytes list \<Rightarrow> checkpoint list \<Rightarrow> bytes list \<Rightarrow> time \<Rightarrow> bool" where
  "anchor_inv C chainID keys b als cps ls t \<longleftrightarrow> b = unlines als \<and> list_all plain_line als \<and> list_all plain_line ls \<and>
     anchored C chainID keys als cps \<and>
     (\<forall>c \<in> set cps. cp_matches C chainID ls c \<and> 1 \<le> c_size c \<and> c_ts c \<le> format_ts t) \<and> 0 \<le> t \<and> t < y10k"

definition last_size :: "checkpoint list \<Rightarrow> int" where
  "last_size cps = (if cps = [] then 0 else c_size (last cps))"

lemma anchor_inv_reads: "anchor_inv C chainID keys b als cps ls t \<Longrightarrow> ReadVerified C b chainID keys = Inr cps"
  by (simp add: anchor_inv_def ReadVerified_Inr scan_unlines anchored_reads)

lemma anchor_inv_append:
  assumes "anchor_inv C chainID keys b als cps ls t" "t \<le> now" "now < y10k"
    and "commits C chainID c ls" "checkpoint_ok c" "c_ts c = format_ts now" "last_size cps < int (length ls)"
    and "anchor_line C chainID keys line c" "plain_line line"
  shows "anchor_inv C chainID keys (b @ line @ [newline]) (als @ [line]) (cps @ [c]) ls now"
proof -
  have f: "format_ts t \<le> format_ts now" using assms(1-3) by (intro format_ts_mono) (simp_all add: anchor_inv_def)
  have "c_size c = int (length ls)" using assms(4) by (simp add: commits_def)
  moreover have "cps \<noteq> [] \<Longrightarrow> c_ts (last cps) \<le> format_ts t" using assms(1) by (simp add: anchor_inv_def)
  ultimately have "cps \<noteq> [] \<longrightarrow> cp_before (last cps) c"
    using assms(6,7) f by (auto simp: cp_before_def last_size_def)
  then have "anchored C chainID keys (als @ [line]) (cps @ [c])"
    using assms(1,8) sorted_wrt_snoc [of cp_before cps c] cp_before_trans
    by (auto simp: anchored_def anchor_inv_def intro: list_all2_appendI)
  moreover have "unlines (als @ [line]) = b @ line @ [newline]" using assms(1) by (simp add: anchor_inv_def unlines_def)
  ultimately show ?thesis
    using assms f commits_matches [OF assms(4)] by (force simp: anchor_inv_def checkpoint_ok_def)
qed

text \<open>
  The histories of an anchor file: the log grows, Warden starts (with a key it has and a trust file that holds every
  key of the chain so far) and stops at any moment, ticks, and the store changes as it likes.  A write to the anchor
  file succeeds, or fails and leaves any part of its line behind, all of it included; the first argument says whether
  every failed write so far left nothing.  The clock does not go back, and lines are shorter than a reader's buffer.
\<close>

inductive anchor_run ::
  "'x crypto_scheme \<Rightarrow> timestamp_lib \<Rightarrow> (bytes \<Rightarrow> bytes) \<Rightarrow> string \<Rightarrow>
     bool \<Rightarrow> checkpointer option \<Rightarrow> 'st \<Rightarrow> anchor_files \<Rightarrow> bytes list \<Rightarrow> key_resolver \<Rightarrow> time \<Rightarrow> bool"
  for C T md5 chainID where
  nothing: "af_anchor fl = [] \<Longrightarrow> 0 \<le> t \<Longrightarrow> t < y10k \<Longrightarrow> anchor_run C T md5 chainID True None st fl [] Map.empty t"
| logged: "anchor_run C T md5 chainID w rn st fl ls keys t \<Longrightarrow> plain_line l \<Longrightarrow> anchor_run C T md5 chainID w rn st fl (ls @ [l]) keys t"
| elsewhere: "anchor_run C T md5 chainID w rn st fl ls keys t \<Longrightarrow> anchor_run C T md5 chainID w rn st' fl ls keys t"
| stopped: "anchor_run C T md5 chainID w rn st fl ls keys t \<Longrightarrow> anchor_run C T md5 chainID w None st fl ls keys t"
| started: "anchor_run C T md5 chainID w rn st fl ls keys t \<Longrightarrow>
    newCheckpointer C getenv cfg key trusted data now = Inr k \<Longrightarrow> wc_ChainID cfg = chainID \<Longrightarrow>
    data = Content (af_anchor fl) \<or> data = Missing \<and> af_anchor fl = [] \<Longrightarrow>
    file_signer C key \<Longrightarrow> utf8_valid (wc_Kid cfg) \<Longrightarrow> keys \<subseteq>\<^sub>m anchor_keys (wc_Kid cfg) (sgn_Public key) trusted \<Longrightarrow>
    anchor_run C T md5 chainID w (Some k) st fl ls (anchor_keys (wc_Kid cfg) (sgn_Public key) trusted) t"
| ticked: "anchor_run C T md5 chainID w (Some k) st fl ls keys t \<Longrightarrow> store_holds C es s \<Longrightarrow> map e_line es = ls \<Longrightarrow>
    store_Next s0 \<le> store_Next s \<Longrightarrow> tick C T md5 send te st k fl s0 s now now' force = (st', k', fl', ms) \<Longrightarrow>
    t \<le> now \<Longrightarrow> now < y10k \<Longrightarrow> (\<forall>line. af_anchor fl' = af_anchor fl @ line @ [newline] \<longrightarrow> plain_line line) \<Longrightarrow>
    w' = (w \<and> (te_Write te = None \<or> af_anchor fl' = af_anchor fl)) \<Longrightarrow>
    anchor_run C T md5 chainID w' (Some k') st' fl' ls keys now"

text \<open>What holds of the checkpointer that runs.\<close>

definition running_inv :: "'x crypto_scheme \<Rightarrow> string \<Rightarrow> key_resolver \<Rightarrow> checkpoint list \<Rightarrow> bytes list \<Rightarrow> checkpointer \<Rightarrow> bool" where
  "running_inv C chainID keys cps als k \<longleftrightarrow> ck_chain k = chainID \<and> file_signer C (ck_key k) \<and> utf8_valid (ck_kid k) \<and>
     keys (ck_kid k) = sgn_Public (ck_key k) \<and> ck_lastSize k = last_size cps \<and>
     (\<forall>p. ck_pending k = Some p \<longrightarrow> ck_external k \<noteq> None \<and> cps \<noteq> [] \<and> sk_c p = last cps)"

lemma newCheckpointer_inv:
  assumes "newCheckpointer C getenv cfg key trusted data now = Inr k" "anchor_inv C (wc_ChainID cfg) keys b als cps ls t"
    and "data = Content b \<or> data = Missing \<and> b = []" "keys \<subseteq>\<^sub>m anchor_keys (wc_Kid cfg) (sgn_Public key) trusted"
    and "file_signer C key" "utf8_valid (wc_Kid cfg)"
  shows "anchor_inv C (wc_ChainID cfg) (anchor_keys (wc_Kid cfg) (sgn_Public key) trusted) b als cps ls t \<and>
    running_inv C (wc_ChainID cfg) (anchor_keys (wc_Kid cfg) (sgn_Public key) trusted) cps als k"
proof -
  let ?ks = "anchor_keys (wc_Kid cfg) (sgn_Public key) trusted"
  have i: "anchor_inv C (wc_ChainID cfg) ?ks b als cps ls t"
    using assms(2) anchored_mono [OF _ assms(4)] by (auto simp: anchor_inv_def)
  note r = anchor_inv_reads [OF i]
  have "running_inv C (wc_ChainID cfg) ?ks cps als k"
  proof (cases "data = Missing")
    case True
    then have "cps = []" using assms(3) i by (auto simp: anchor_inv_def unlines_def anchored_def)
    with True show ?thesis using assms(1,5,6)
      by (auto simp: newCheckpointer_def running_inv_def anchor_keys_def last_size_def Let_def)
  next
    case False
    then show ?thesis using assms(1,3,5,6) r
      by (auto simp: newCheckpointer_def running_inv_def anchor_keys_def last_size_def Let_def split: if_splits)
  qed
  with i show ?thesis ..
qed

lemma signed_anchor_line:
  assumes "checkpoint_Sign C (Some k) kid c = Inr sg" "file_signer C k" "jcs_ok (jcs C)" "utf8_valid kid" "checkpoint_ok c"
    and "utf8_valid (c_chain_id c)" "utf8_valid (c_ts c)" "keys kid = sgn_Public k" "signed_Line C sg = Inr line" "c_chain_id c = chainID"
  shows "anchor_line C chainID keys line c"
proof -
  obtain payload where pl: "SignPayload C (Some k) kid payload = Inr sg" using assms(1) by (auto simp: checkpoint_Sign_def)
  obtain p where p: "sgn_Public k = Some p" using file_keys.signer_has_key [OF assms(2)] by blast
  have "digest_Valid (c_root c)" "digest_Valid (c_head c)" using assms(5) by (simp_all add: checkpoint_ok_def)
  then have j: "json_ok (json_of_checkpoint c)"
    using assms(6,7) by (simp add: json_of_checkpoint_def checkpoint_Domain_def utf8_valid_ascii digest_Valid_ascii
        checkpoint_ok_def [THEN iffD1, OF assms(5)])
  have "checkpoint_Verify C p sg = Inr c"
    by (rule file_keys.checkpoint_Sign_verifies [OF assms(2,3,4) j assms(1) p])
  moreover have "ParseLine C line = Inr sg" using SignPayload_line [OF assms(3) pl] assms(9) by auto
  moreover have "signed_KeyID C sg = Inr kid"
    using SignPayload_header [OF assms(3) pl assms(4)] by (simp add: signed_KeyID_def new_header_def)
  ultimately show ?thesis using assms(8,10) p by (auto simp: anchor_line_def)
qed

lemma tick_inv:
  assumes "tick C T md5 send te st k fl s0 s now now' force = (st', k', fl', ms)" "te_Write te = None \<or> af_anchor fl' = af_anchor fl"
    and "anchor_inv C chainID keys (af_anchor fl) als cps (map e_line es) t" "running_inv C chainID keys cps als k"
    and "store_holds C es s" "t \<le> now" "now < y10k" "jcs_ok (jcs C)" "utf8_valid chainID"
    and "\<forall>line. af_anchor fl' = af_anchor fl @ line @ [newline] \<longrightarrow> plain_line line" "store_Next s0 \<le> store_Next s"
  shows "\<exists>als' cps'. anchor_inv C chainID keys (af_anchor fl') als' cps' (map e_line es) now \<and> running_inv C chainID keys cps' als' k'"
proof -
  obtain k1 fl1 ms1 ok ms2 where l: "checkpointLocked C T te k fl s0 s now force = (k1, fl1, ms1, ok)"
    and x: "anchorExternally C md5 send st k1 now' force = (st', k', ms2)" and fl: "fl' = fl1"
    using assms(1) by (auto simp: tick_def split: prod.splits)
  note r = assms(4) [unfolded running_inv_def]
  have later: "anchor_inv C chainID keys (af_anchor fl) als cps (map e_line es) now"
    using assms(3,6,7) format_ts_mono [of t now] by (force simp: anchor_inv_def)
  have step: "\<exists>als' cps'. anchor_inv C chainID keys (af_anchor fl1) als' cps' (map e_line es) now \<and> running_inv C chainID keys cps' als' k1"
    using checkpointLocked_cases [OF l assms(2) [unfolded fl]]
  proof (elim disjE exE conjE)
    assume "k1 = k" "af_anchor fl1 = af_anchor fl"
    then show ?thesis using later assms(4) by auto
  next
    fix p line
    assume p: "new_checkpoint C k s now = Inr p" "signed_Line C (sk_s p) = Inr line"
      "af_anchor fl1 = af_anchor fl @ line @ [newline]" "ck_lastSize k < store_Next s0" "store_Next s0 \<noteq> 0"
      and k1: "k1 = k\<lparr>ck_lastSize := c_size (sk_c p), ck_lastAt := now,
         ck_pending := (if ck_external k = None then ck_pending k else Some p)\<rparr>"
    have n: "store_Next s = int (length es)" using store_export [OF assms(5)] by simp
    have "0 \<le> last_size cps" using assms(3) by (auto simp: last_size_def anchor_inv_def) (metis last_in_set order_trans zero_le_one)
    then have es: "es \<noteq> []" using p(4) assms(11) n r by auto
    have pl: "list_all plain_line (map e_line es)" using assms(3) by (simp add: anchor_inv_def)
    note c = new_checkpoint_covers [OF assms(5) es pl p(1)]
    have chain: "c_chain_id (sk_c p) = chainID" using c r by (simp add: commits_def)
    have al: "anchor_line C chainID keys line (sk_c p)"
      by (rule signed_anchor_line [where k = "ck_key k" and kid = "ck_kid k"]) (use c r assms(8,9) p(2) chain in auto)
    have "anchor_inv C chainID keys (af_anchor fl1) (als @ [line]) (cps @ [sk_c p]) (map e_line es) now"
      unfolding p(3)
      by (rule anchor_inv_append [OF assms(3,6,7) _ _ _ _ al]) (use c r p(3,4) n assms(10,11) fl in auto)
    moreover have "running_inv C chainID keys (cps @ [sk_c p]) (als @ [line]) k1"
      using r unfolding running_inv_def k1 by (cases "ck_external k") (auto simp: last_size_def)
    ultimately show ?thesis by blast
  qed
  have "running_inv C chainID keys cps' als' k1 \<Longrightarrow> running_inv C chainID keys cps' als' k'" for cps' als'
    using anchorExternally_keeps [OF x] by (cases k1; cases k') (auto simp: running_inv_def)
  then show ?thesis using step unfolding fl by blast
qed

lemma anchor_run_inv:
  assumes "anchor_run C T md5 chainID w rn st fl ls keys t" "jcs_ok (jcs C)" "utf8_valid chainID" w
  shows "\<exists>als cps. anchor_inv C chainID keys (af_anchor fl) als cps ls t \<and>
    (case rn of None \<Rightarrow> True | Some k \<Rightarrow> running_inv C chainID keys cps als k)"
  using assms
proof (induction rule: anchor_run.induct)
  case (nothing fl t st)
  then have "anchor_inv C chainID Map.empty (af_anchor fl) [] [] [] t" by (simp add: anchor_inv_def unlines_def anchored_def)
  then show ?case by auto
next
  case (logged w rn st fl ls keys t l)
  then obtain als cps where i: "anchor_inv C chainID keys (af_anchor fl) als cps ls t"
    "case rn of None \<Rightarrow> True | Some k \<Rightarrow> running_inv C chainID keys cps als k" by blast
  then have "anchor_inv C chainID keys (af_anchor fl) als cps (ls @ [l]) t"
    using logged.hyps(2) by (simp add: anchor_inv_def cp_matches_grow)
  with i(2) show ?case by blast
next
  case (started w rn st fl ls keys t getenv cfg key trusted data now k)
  then obtain als cps where i: "anchor_inv C (wc_ChainID cfg) keys (af_anchor fl) als cps ls t" by blast
  then show ?case using newCheckpointer_inv [OF started.hyps(2) i _ started.hyps(7,5,6)] started.hyps(3,4) by auto
next
  case (ticked w k st fl ls keys t es s s0 send te now now' force st' k' fl' ms w')
  then have w: "te_Write te = None \<or> af_anchor fl' = af_anchor fl" by simp
  show ?case using ticked tick_inv [OF ticked.hyps(5) w] by fastforce
qed auto

lemma report_of_covered:
  "report_of C chainID cps es = (report_of C chainID [] es)\<lparr>rep_Checkpointed := covered_by cps, rep_Unanchored := int (length es) - covered_by cps\<rparr>"
  by (simp add: report_of_def)

text \<open>
  C10: The log and its anchor agree: in every history of starts, stops and ticks, as long as the clock does not go back
  and a write to the anchor file that fails leaves nothing behind, the anchor file reads back under the keys of the
  chain, and whoever accepts the exported log also accepts it together with all the checkpoints of the anchor: they
  change nothing in the report but the number of receipts they cover.
\<close>

theorem log_verifies_against_anchor:
  assumes "anchor_run C T md5 chainID True rn st fl (map e_line es) keys t" "store_holds C es s" "s_chainID s = chainID"
    and "jcs_ok (jcs C)" "utf8_valid chainID"
  shows "\<exists>cps. ReadVerified C (af_anchor fl) chainID keys = Inr cps \<and>
    (\<forall>rep ks'. store_VerifyWithKeys C s K ks = Inr (rep, ks') \<longrightarrow> VerifyAll C (store_Export s) chainID K ks cps [] =
       Inr (rep\<lparr>rep_Checkpointed := covered_by cps, rep_Unanchored := rep_Receipts rep - covered_by cps\<rparr>, ks'))"
proof -
  obtain als cps where a: "anchor_inv C chainID keys (af_anchor fl) als cps (map e_line es) t"
    using anchor_run_inv [OF assms(1,4,5)] by auto
  have "VerifyAll C (store_Export s) chainID K ks cps [] =
      Inr (rep\<lparr>rep_Checkpointed := covered_by cps, rep_Unanchored := rep_Receipts rep - covered_by cps\<rparr>, ks')"
    if v: "store_VerifyWithKeys C s K ks = Inr (rep, ks')" for rep ks'
  proof -
    obtain es' where es': "verified_log C (store_Export s) chainID K ks [] [] es'" "rep = report_of C chainID [] es'" "ks' = keys_after K ks es'"
      using v assms(3) by (auto simp: store_VerifyWithKeys_def VerifyWithKeys_def VerifyAll_Inr)
    have pl: "list_all plain_line (map e_line es)" using a by (simp add: anchor_inv_def)
    have "map e_line es' = map e_line es"
      using es'(1) store_export [OF assms(2)] scan_unlines [OF pl] by (simp add: verified_log_def)
    then have "verified_log C (store_Export s) chainID K ks cps [] es'"
      using es'(1) a by (simp add: verified_log_def anchor_inv_def)
    moreover have "report_of C chainID cps es' = rep\<lparr>rep_Checkpointed := covered_by cps, rep_Unanchored := rep_Receipts rep - covered_by cps\<rparr>"
      by (subst report_of_covered) (simp add: es'(2) report_of_def)
    ultimately show ?thesis using es'(3) by (auto simp: VerifyAll_Inr)
  qed
  then show ?thesis using anchor_inv_reads [OF a] by blast
qed

section \<open>Checkpoints that are due are made\<close>

definition can_sign :: "signer \<Rightarrow> string \<Rightarrow> bool" where
  "can_sign k kid \<longleftrightarrow> id_ok kid \<and> (\<exists>p. sgn_Public k = Some p \<and> suite_Name (pk_suite p) = Alg) \<and> (\<forall>m. \<exists>sig. sgn_Sign k m = Inr sig)"

lemma SignPayload_succeeds:
  assumes "can_sign k kid" "utf8_valid kid" "jcs_ok (jcs C)" "canonical_Check (jcs C) payload = Inr ()"
  shows "\<exists>sg line. SignPayload C (Some k) kid payload = Inr sg \<and> signed_Line C sg = Inr line"
proof -
  obtain hdr where h: "canonical_Encode (jcs C) (json_of_header (new_header kid)) = Inr hdr"
    using canonical_Encode_ok [OF assms(3) json_header_ok(1) [THEN iffD2, OF assms(2)] json_header_ok(2)] by blast
  obtain p where p: "sgn_Public k = Some p" "suite_Name (pk_suite p) = Alg" "id_ok kid" using assms(1) by (auto simp: can_sign_def)
  let ?s = "\<lambda>sig. \<lparr>s_payload = b64_encode payload, s_protected = b64_encode hdr, s_signature = b64_encode sig\<rparr>"
  have "signingInput (?s sig) = signingInput (?s [])" for sig by (simp add: signingInput_def)
  moreover obtain sig where "sgn_Sign k (signingInput (?s [])) = Inr sig" using assms(1) by (auto simp: can_sign_def)
  ultimately have "SignPayload C (Some k) kid payload = Inr (?s sig)" using h p assms(4) unfolding SignPayload_Inr by metis
  then show ?thesis using SignPayload_line [OF assms(3)] by blast
qed

lemma new_checkpoint_succeeds:
  assumes "store_holds C es s" "es \<noteq> []" "list_all plain_line (map e_line es)" "length es < 2 ^ 53" "0 \<le> now" "now < y10k"
    and "can_sign (ck_key k) (ck_kid k)" "utf8_valid (ck_kid k)" "id_ok (ck_chain k)" "utf8_valid (ck_chain k)" "jcs_ok (jcs C)"
  shows "\<exists>p line. new_checkpoint C k s now = Inr p \<and> signed_Line C (sk_s p) = Inr line"
proof -
  have e: "export_lines (store_Export s) = map e_line es"
    using store_export [OF assms(1)] export_lines_unlines [OF _ assms(3)] assms(2) by simp
  obtain c where c: "builder_Checkpoint C (build C (ck_chain k) (map e_line es)) (format_ts now) = Inr c"
    using builder_Checkpoint_succeeds [of "map e_line es" "ck_chain k" "format_ts now" C] assms(2,4,5,6,9) valid_ts_format by auto
  have ok: "checkpoint_ok c" "c_chain_id c = ck_chain k" "c_ts c = format_ts now"
    using builder_Checkpoint_commits [OF c] c by (auto simp: commits_def builder_Checkpoint_def Let_def split: if_splits)
  then have "digest_Valid (c_root c)" "digest_Valid (c_head c)" "c_v c = 1" "c_domain c = checkpoint_Domain" by (simp_all add: checkpoint_ok_def)
  then have "json_ok (json_of_checkpoint c)" "json_safe (json_of_checkpoint c)"
    using ok assms(10) json_safe_checkpoint [OF ok(1)]
    by (simp_all add: json_of_checkpoint_def checkpoint_Domain_def utf8_valid_ascii digest_Valid_ascii)
  then obtain payload where pl: "canonical_Encode (jcs C) (json_of_checkpoint c) = Inr payload" "canonical_Check (jcs C) payload = Inr ()"
    using canonical_Encode_ok [OF assms(11)] by blast
  obtain sg line where "SignPayload C (Some (ck_key k)) (ck_kid k) payload = Inr sg" "signed_Line C sg = Inr line"
    using SignPayload_succeeds [OF assms(7,8,11) pl(2)] by blast
  then show ?thesis using c e pl(1) ok(1) by (auto simp: new_checkpoint_def build_def Let_def checkpoint_Sign_def)
qed


section \<open>The waits for the store\<close>

lemma sint_small: "- (2 ^ 63) \<le> i \<Longrightarrow> i < 2 ^ 63 \<Longrightarrow> sint (word_of_int i :: 64 word) = i"
  by (simp add: signed_of_int signed_take_bit_int_eq_self)

lemma backoff_exact: "1 \<le> n \<Longrightarrow> backoff n = min (2 ^ nat (min n 9) * ns_per_s) maxAnchorBackoff"
proof -
  assume "1 \<le> n"
  define m where "m = nat (min n 9)"
  have "m \<le> 9" by (simp add: m_def)
  then have "(2 :: int) ^ m \<le> 2 ^ 9" by (intro power_increasing) simp_all
  then have b: "2 ^ m * ns_per_s < 2 ^ 63" "0 \<le> (2 :: int) ^ m * ns_per_s" by (simp_all add: ns_per_s_def)
  have "push_bit m (word_of_int ns_per_s :: 64 word) = word_of_int (2 ^ m * ns_per_s)"
    by (simp add: push_bit_eq_mult mult.commute)
  then have "sint (push_bit m (word_of_int ns_per_s :: 64 word)) = 2 ^ m * ns_per_s"
    using sint_small [of "2 ^ m * ns_per_s"] b by (simp del: of_int_mult of_int_power)
  then show ?thesis by (simp add: backoff_def flip: m_def)
qed

text \<open>
  C38: A tick offers the newest checkpoint to the store unless it waits: one \<open>Publish\<close> is made, and then either nothing
  is pending, because the store has the checkpoint or holds another of its size, or the same checkpoint stays
  pending and the next try is between two seconds and five minutes away.
\<close>

theorem pending_checkpoint_offered:
  assumes "anchorExternally C md5 send st k now force = (st', k', ms)" "ck_external k = Some a" "ck_pending k = Some p"
    and "force \<or> (\<forall>t. ck_nextTry k = Some t \<longrightarrow> t \<le> now)" "0 \<le> ck_failures k"
  shows "\<exists>r. anchor_Publish C md5 send st a now (Some (sk_c p)) (Some (sk_s p)) = (st', r) \<and>
    (if r = Inr () \<or> r = Inl ErrConflict then ck_pending k' = None \<and> ck_failures k' = 0
     else ck_pending k' = Some p \<and> ck_failures k' = ck_failures k + 1 \<and>
       (\<exists>t. ck_nextTry k' = Some t \<and> now + 2 * ns_per_s \<le> t \<and> t \<le> now + maxAnchorBackoff \<and>
         t - now = min (2 ^ nat (min (ck_failures k + 1) 9) * ns_per_s) maxAnchorBackoff))"
proof -
  obtain st1 r where r: "anchor_Publish C md5 send st a now (Some (sk_c p)) (Some (sk_s p)) = (st1, r)" by fastforce
  have w: "\<not> (\<not> force \<and> (case ck_nextTry k of None \<Rightarrow> False | Some t \<Rightarrow> now < t))"
    using assms(4) by (auto split: option.splits)
  have pow: "(2 :: int) ^ 1 \<le> 2 ^ nat (min (ck_failures k + 1) 9)" using assms(5) by (intro power_increasing) auto
  have b: "backoff (ck_failures k + 1) = min (2 ^ nat (min (ck_failures k + 1) 9) * ns_per_s) maxAnchorBackoff"
    using assms(5) by (intro backoff_exact) simp
  have bb: "2 * ns_per_s \<le> backoff (ck_failures k + 1)" "backoff (ck_failures k + 1) \<le> maxAnchorBackoff"
    unfolding b using pow by (simp_all add: maxAnchorBackoff_def ns_per_s_def)
  show ?thesis
  proof (cases r)
    case (Inr u)
    then show ?thesis using assms(1-3) r w by (auto simp: anchorExternally_def)
  next
    case (Inl e)
    show ?thesis
    proof (cases "e = ErrConflict")
      case True
      then show ?thesis using assms(1-3) r w Inl by (auto simp: anchorExternally_def)
    next
      case False
      then have "st' = st1 \<and> k' = k\<lparr>ck_failures := ck_failures k + 1, ck_nextTry := Some (now + backoff (ck_failures k + 1))\<rparr>"
        using assms(1-3) r w Inl by (auto simp: anchorExternally_def Let_def)
      then show ?thesis using False Inl r bb b assms(3) by auto
    qed
  qed
qed

text \<open>For a configuration that loads the retention of a checkpoint does not overflow.\<close>

theorem retention_exact:
  assumes "config_Load W D wd path = Inr cfg" "wc_AnchorStore cfg = Some a" "newStoreAnchor getenv cfg a = Inr x"
  shows "an_Retention x = as_RetentionDays a * (24 * 3600 * ns_per_s) \<and> 0 < an_Retention x"
proof -
  have d: "1 \<le> as_RetentionDays a" "as_RetentionDays a \<le> 36500"
    using config_Load_Inr [OF assms(1)] assms(2) by (simp_all add: config_savable_def)
  have "sint (of_int (as_RetentionDays a * (24 * 3600 * ns_per_s)) :: 64 word) = as_RetentionDays a * (24 * 3600 * ns_per_s)"
    using d by (intro sint_small) (auto simp: ns_per_s_def)
  then show ?thesis using assms(3) d by (auto simp: newStoreAnchor_def algebra_simps ns_per_s_def split: if_splits)
qed

section \<open>A write that fails after it was made\<close>

lemma efold_Inl_append: "efold f x xs = Inl e \<Longrightarrow> efold f x (xs @ ys) = Inl e"
  by (simp add: efold_append)

lemma same_size_refused:
  assumes "anchored C chainID keys (als @ [line]) (cps @ [c])" "anchor_line C chainID keys line' c'" "c_size c' = c_size c"
  shows "efold (read_anchor_line C chainID keys) [] ((als @ [line] @ [line']) @ later) = Inl ErrAnchorOrder"
proof -
  have "read_anchor_line C chainID keys (cps @ [c]) line' = Inl ErrAnchorOrder"
    using assms(2,3) by (auto simp: read_anchor_line_def anchor_line_def)
  then have "efold (read_anchor_line C chainID keys) [] ((als @ [line]) @ [line']) = Inl ErrAnchorOrder"
    unfolding efold_append [of _ _ "als @ [line]"] anchored_reads [OF assms(1)] by simp
  from efold_Inl_append [OF this, of later] show ?thesis by simp
qed

lemma sat64_mono: "a \<le> b \<Longrightarrow> sat64 a \<le> sat64 b"
  by (auto simp: sat64_def)

lemma policy_Due_later: "policy_Due p l n at t \<Longrightarrow> t \<le> t' \<Longrightarrow> policy_Due p l n at t'"
  using sat64_mono [of "t - at" "t' - at"] by (auto simp: policy_Due_def split: if_splits)

lemma new_checkpoint_same:
  "ck_key k' = ck_key k \<Longrightarrow> ck_kid k' = ck_kid k \<Longrightarrow> ck_chain k' = ck_chain k \<Longrightarrow> new_checkpoint C k' s now = new_checkpoint C k s now"
  by (simp add: new_checkpoint_def)

text \<open>
  C11: One failed \<open>fsync\<close> can end an anchor: when a checkpoint is due and its line is written but \<open>Publish\<close> reports an
  error, the checkpointer does not know that it is there, and if the log has not grown at a later tick whose write
  succeeds, that tick appends a second checkpoint of the same size.  From then on nobody can read the anchor file,
  whatever is appended to it: the verifier refuses it, and Warden does not start with it.
\<close>

theorem failed_sync_breaks_anchor:
  assumes "anchor_run C T md5 chainID True (Some k) st fl (map e_line es) keys t" "store_holds C es s"
    and "jcs_ok (jcs C)" "utf8_valid chainID" "t \<le> t1" "t1 \<le> t2" "t1 < y10k"
    and "policy_Due (ck_policy k) (ck_lastSize k) (store_Next s) (ck_lastAt k) t1"
    and "new_checkpoint C k s t1 = Inr p1" "signed_Line C (sk_s p1) = Inr line1" "plain_line line1"
    and "te_Export te1" "te_Write te1 = Some n" "length line1 < n"
    and "tick C T md5 send1 te1 st k fl s s t1 t1' False = (st1, k1, fl1, ms1)"
    and "new_checkpoint C k s t2 = Inr p2" "signed_Line C (sk_s p2) = Inr line2" "plain_line line2"
    and "te_Export te2" "te_Write te2 = None"
    and "tick C T md5 send2 te2 st2 k1 fl1 s s t2 t2' False = (st3, k2, fl2, ms2)"
    and "list_all plain_line later"
  shows "ReadVerified C (af_anchor fl2 @ unlines later) chainID keys = Inl ErrAnchorOrder \<and>
    (wc_ChainID cfg = chainID \<longrightarrow> anchor_keys (wc_Kid cfg) (sgn_Public key) trusted = keys \<longrightarrow>
      newCheckpointer C getenv cfg key trusted (Content (af_anchor fl2 @ unlines later)) now \<notin> range Inr)"
proof -
  obtain als cps where i: "anchor_inv C chainID keys (af_anchor fl) als cps (map e_line es) t" "running_inv C chainID keys cps als k"
    using anchor_run_inv [OF assms(1,3,4)] by auto
  note r = i(2) [unfolded running_inv_def]
  have n: "store_Next s = int (length es)" using store_export [OF assms(2)] by simp
  have size: "ck_lastSize k < int (length es)" using assms(8) n by (auto simp: policy_Due_def split: if_splits)
  have "0 \<le> ck_lastSize k" using i r by (auto simp: last_size_def anchor_inv_def) (metis last_in_set order_trans zero_le_one)
  then have es: "es \<noteq> []" using size by auto
  have pl: "list_all plain_line (map e_line es)" using i(1) by (simp add: anchor_inv_def)
  obtain ka fla msa oka msb where one: "checkpointLocked C T te1 k fl s s t1 False = (ka, fla, msa, oka)"
    and x1: "anchorExternally C md5 send1 st ka t1' False = (st1, k1, msb)" and fl1: "fl1 = fla"
    using assms(15) by (auto simp: tick_def split: prod.splits)
  have one: "ka = k \<and> af_anchor fl1 = af_anchor fl @ line1 @ [newline]"
    using one es assms(8-10,12-14) n size fl1 by (auto simp: checkpointLocked_def file_Publish_def Let_def)
  then have k1: "ck_key k1 = ck_key k" "ck_kid k1 = ck_kid k" "ck_chain k1 = ck_chain k" "ck_lastSize k1 = ck_lastSize k"
    "ck_policy k1 = ck_policy k" "ck_lastAt k1 = ck_lastAt k"
    using anchorExternally_keeps [OF x1] by (cases k1; cases k; simp)+
  have due: "policy_Due (ck_policy k1) (ck_lastSize k1) (store_Next s) (ck_lastAt k1) t2"
    using policy_Due_later [OF assms(8,6)] k1 by simp
  have p2: "new_checkpoint C k1 s t2 = Inr p2" using assms(16) new_checkpoint_same k1(1-3) by metis
  obtain kb flb msc okb msd where two: "checkpointLocked C T te2 k1 fl1 s s t2 False = (kb, flb, msc, okb)" and fl2: "fl2 = flb"
    using assms(21) by (auto simp: tick_def split: prod.splits)
  have ts: "af_anchor (fst (timestamp C T te2 f g)) = af_anchor f" for f g
    by (auto simp: timestamp_def split: sum.split prod.split)
  have two: "af_anchor fl2 = af_anchor fl @ line1 @ [newline] @ line2 @ [newline]"
    using two es size due p2 assms(17,19,20) n one k1(4) fl2 ts [of "fl1\<lparr>af_anchor := af_anchor fl @ line1 @ newline # line2 @ [newline]\<rparr>" "sk_s p2"]
    by (cases "timestamp C T te2 (fl1\<lparr>af_anchor := af_anchor fl @ line1 @ newline # line2 @ [newline]\<rparr>) (sk_s p2)")
      (auto simp: checkpointLocked_def file_Publish_def Let_def split: if_splits)
  note c1 = new_checkpoint_covers [OF assms(2) es pl assms(9)]
  note c2 = new_checkpoint_covers [OF assms(2) es pl assms(16)]
  have cc: "commits C chainID (sk_c p1) (map e_line es)" using c1 r by simp
  have al1: "anchor_line C chainID keys line1 (sk_c p1)"
    by (rule signed_anchor_line [where k = "ck_key k" and kid = "ck_kid k"]) (use c1 r assms(3,4,10) in \<open>auto simp: commits_def\<close>)
  have al2: "anchor_line C chainID keys line2 (sk_c p2)"
    by (rule signed_anchor_line [where k = "ck_key k" and kid = "ck_kid k"]) (use c2 r assms(3,4,17) in \<open>auto simp: commits_def\<close>)
  have "anchor_inv C chainID keys (af_anchor fl @ line1 @ [newline]) (als @ [line1]) (cps @ [sk_c p1]) (map e_line es) t1"
    by (rule anchor_inv_append [OF i(1) assms(5,7) cc _ _ _ al1 assms(11)]) (use c1 r size in auto)
  then have a: "anchored C chainID keys (als @ [line1]) (cps @ [sk_c p1])" "unlines (als @ [line1]) = af_anchor fl @ line1 @ [newline]"
    "list_all plain_line (als @ [line1])" by (simp_all add: anchor_inv_def)
  have sz: "c_size (sk_c p2) = c_size (sk_c p1)" using c1 c2 by (simp add: commits_def)
  have u: "af_anchor fl2 @ unlines later = unlines ((als @ [line1] @ [line2]) @ later)"
    using two a(2) by (simp add: unlines_def)
  have "scan_lines (af_anchor fl2 @ unlines later) = ((als @ [line1] @ [line2]) @ later, False)"
    unfolding u by (rule scan_unlines) (use a(3) assms(18,22) in simp)
  then have rv: "ReadVerified C (af_anchor fl2 @ unlines later) chainID keys = Inl ErrAnchorOrder"
    using same_size_refused [OF a(1) al2 sz, of later] by (simp add: ReadVerified_def)
  then show ?thesis by (auto simp: newCheckpointer_def Let_def split: if_splits)
qed

end
