(* ===== verification/CheckpointWitnesses.thy ===== *)
theory CheckpointWitnesses
  imports Checkpointer AnchorWitnesses GatewayWitnesses
begin

text \<open>
  The checkpointer and the configuration at work: Warden starts over a log of one receipt, checkpoints it, offers the
  checkpoint to the in-process store, and meets a disk that fails once.
\<close>

section \<open>Warden starts\<close>

definition sample_wc :: config where
  "sample_wc = \<lparr>wc_ChainID = ''c1'', wc_Kid = ''k1'', wc_Listen = ''l'', wc_ApproverListen = ''a'',
     wc_TLS = \<lparr>tf_CACert = ''ca'', tf_CAKey = ''ck'', tf_ServerCert = ''sc'', tf_ServerKey = ''sk''\<rparr>, wc_ReceiptKey = ''rk'', wc_ReceiptCert = [],
     wc_Store = ''db'', wc_Anchor = ''an'', wc_Revocations = ''rv'', wc_CheckpointEvery = 1, wc_CheckpointInterval = ns_per_s,
     wc_Policy = ''po'', wc_Pins = ''pi'', wc_Broker = ''br'', wc_SecretsDir = [], wc_Approvers = ''ap'', wc_Roles = [], wc_Taint = [],
     wc_ToolTaint = [], wc_TSA = None, wc_AnchorStore = None, wc_Servers = Some [\<lparr>sn_Name = ''s'', sn_URL = ''u'', sn_Command = []\<rparr>],
     wc_dir = ''/''\<rparr>"

definition sample_ck :: checkpointer where
  "sample_ck = \<lparr>ck_key = toy_signer, ck_kid = ''k1'', ck_chain = ''c1'', ck_policy = \<lparr>cp_Every = 1, cp_Interval = ns_per_s\<rparr>,
     ck_stamp = False, ck_external = None, ck_pending = None, ck_failures = 0, ck_nextTry = None, ck_lastSize = 0, ck_lastAt = t0\<rparr>"

definition no_files :: anchor_files where
  "no_files = \<lparr>af_anchor = [], af_tokens = []\<rparr>"

definition sample_te :: "nat option \<Rightarrow> tick_env" where
  "sample_te w = \<lparr>te_Export = True, te_Write = w, te_Post = (\<lambda>_. None), te_TokenWrite = None\<rparr>"

lemma sample_newCheckpointer: "newCheckpointer toy (\<lambda>_. []) sample_wc toy_signer None Missing t0 = Inr sample_ck"
  by (simp add: newCheckpointer_def sample_wc_def sample_ck_def)

lemma format_t0: "format_ts t0 = cp_ts" "0 \<le> t0" "t0 < y10k"
proof -
  have v: "valid_ts cp_ts" using sample_ts by (simp add: cp_ts_def)
  then show "format_ts t0 = cp_ts" using t0 by (simp add: valid_ts_def)
  have "t0 = time_of sample_ts" using t0 by (simp add: time_of_def cp_ts_def sample_ts_def)
  then show "0 \<le> t0" "t0 < y10k" using sample_times(3,4) by simp_all
qed

lemma sample_log:
  assumes "store_inv toy toy_keys () s [e]"
  shows "store_holds toy [e] s" "plain_line (e_line e)" "s_chainID s = ''c1'' \<Longrightarrow> jcs_ok (jcs toy)"
  using assms toy_ok(2) by (simp_all add: store_inv_def)

lemma sample_started:
  assumes "store_inv toy toy_keys () s [e]"
  shows "anchor_run toy T toy_md5 ''c1'' True (Some sample_ck) fake_New no_files (map e_line [e]) (anchor_keys ''k1'' (Some toy_public) None) t0"
proof -
  have "anchor_run toy T toy_md5 ''c1'' True None fake_New no_files [] Map.empty t0"
    by (rule anchor_run.nothing) (simp_all add: no_files_def format_t0)
  from anchor_run.logged [OF this sample_log(2) [OF assms]]
  have r: "anchor_run toy T toy_md5 ''c1'' True None fake_New no_files (map e_line [e]) Map.empty t0" by simp
  show ?thesis
    using anchor_run.started [OF r sample_newCheckpointer]
    by (simp add: sample_wc_def no_files_def toy_signer_ok utf8_valid_ascii)
qed

lemma sample_can_sign: "can_sign toy_signer ''k1''"
  by (simp add: can_sign_def id_ok_ascii)

lemma sample_new_checkpoint:
  assumes "store_inv toy toy_keys () s [e]" "ck_key k = toy_signer" "ck_kid k = ''k1''" "ck_chain k = ''c1''"
  shows "\<exists>c. new_checkpoint toy k s t0 = Inr \<lparr>sk_c = c, sk_s = cp_signed c\<rparr> \<and> c_size c = 1 \<and>
    signed_Line toy (cp_signed c) = Inr (cp_line c) \<and> plain_line (cp_line c)"
proof -
  note l = sample_log [OF assms(1)]
  obtain p where p: "new_checkpoint toy k s t0 = Inr p"
    using new_checkpoint_succeeds [OF l(1), of t0 k] l(2) assms(2-4) format_t0 toy_ok(2) sample_can_sign
    by (auto simp: utf8_valid_ascii id_ok_ascii)
  have c: "checkpoint_ok (sk_c p)" "c_chain_id (sk_c p) = ''c1''" "c_ts (sk_c p) = cp_ts" "c_size (sk_c p) = 1"
    "checkpoint_Sign toy (Some toy_signer) ''k1'' (sk_c p) = Inr (sk_s p)"
    using new_checkpoint_covers [OF l(1) _ _ p] l(2) assms(2-4) format_t0(1) by (simp_all add: commits_def)
  then have "sk_s p = cp_signed (sk_c p)" by (simp add: cp_signed_def)
  then have "p = \<lparr>sk_c = sk_c p, sk_s = cp_signed (sk_c p)\<rparr>" by (cases p) simp
  then show ?thesis using p c cp_signed [of "sk_c p"] by metis
qed

lemma sample_tick:
  assumes "store_inv toy toy_keys () s [e]"
  shows "\<exists>line. tick toy T toy_md5 send (sample_te None) st sample_ck no_files s s t0 t0 True =
    (st, sample_ck\<lparr>ck_lastSize := 1, ck_lastAt := t0\<rparr>, \<lparr>af_anchor = line @ [newline], af_tokens = []\<rparr>, []) \<and> plain_line line"
proof -
  obtain c where c: "new_checkpoint toy sample_ck s t0 = Inr \<lparr>sk_c = c, sk_s = cp_signed c\<rparr>" "c_size c = 1"
    "signed_Line toy (cp_signed c) = Inr (cp_line c)" "plain_line (cp_line c)"
    using sample_new_checkpoint [OF assms, of sample_ck] by (auto simp: sample_ck_def)
  have n: "store_Next s = 1" using store_export [OF sample_log(1) [OF assms]] by simp
  have "checkpointLocked toy T (sample_te None) sample_ck no_files s s t0 True =
    (sample_ck\<lparr>ck_lastSize := 1, ck_lastAt := t0\<rparr>, \<lparr>af_anchor = cp_line c @ [newline], af_tokens = []\<rparr>, [], True)"
    by (simp add: checkpointLocked_def c n Let_def file_Publish_def sample_te_def) (simp add: sample_ck_def no_files_def)
  then show ?thesis using c(4) by (simp add: tick_def anchorExternally_def) (simp add: sample_ck_def)
qed

theorem log_verifies_against_anchor_witness:
  "\<exists>s (e :: entry) b cps rep. b \<noteq> [] \<and> ReadVerified toy b ''c1'' (anchor_keys ''k1'' (Some toy_public) None) = Inr cps \<and>
     store_VerifyWithKeys toy s toy_keys () = Inr (rep, keys_after toy_keys () [e]) \<and>
     VerifyAll toy (store_Export s) ''c1'' toy_keys () cps [] =
       Inr (rep\<lparr>rep_Checkpointed := covered_by cps, rep_Unanchored := rep_Receipts rep - covered_by cps\<rparr>, keys_after toy_keys () [e])"
proof -
  obtain s e where s: "store_inv toy toy_keys () s [e]" "sample_store [e] s" using sample_store_history by blast
  obtain line where t: "tick toy (w_tsa sample_world) toy_md5 (fake_send toy_md5 (sum256 toy) t0) (sample_te None) fake_New sample_ck no_files s s t0 t0 True =
    (fake_New, sample_ck\<lparr>ck_lastSize := 1, ck_lastAt := t0\<rparr>, \<lparr>af_anchor = line @ [newline], af_tokens = []\<rparr>, [])" "plain_line line"
    using sample_tick [OF s(1), where T = "w_tsa sample_world" and send = "fake_send toy_md5 (sum256 toy) t0" and st = fake_New] by blast
  have r: "anchor_run toy (w_tsa sample_world) toy_md5 ''c1'' True (Some (sample_ck\<lparr>ck_lastSize := 1, ck_lastAt := t0\<rparr>)) fake_New
      \<lparr>af_anchor = line @ [newline], af_tokens = []\<rparr> (map e_line [e]) (anchor_keys ''k1'' (Some toy_public) None) t0"
    by (rule anchor_run.ticked [OF sample_started [OF s(1)] sample_log(1) [OF s(1)] refl order_refl t(1)])
      (use t(2) in \<open>simp_all add: sample_te_def format_t0 no_files_def\<close>)
  have v: "store_VerifyWithKeys toy s toy_keys () = Inr (report_of toy ''c1'' [] [e], keys_after toy_keys () [e])"
    using store_inv_verifies [OF s(1)] s(2) by (simp add: sample_store_def)
  have "s_chainID s = ''c1''" using s(2) by (simp add: sample_store_def)
  from log_verifies_against_anchor [OF r sample_log(1) [OF s(1)] this toy_ok(2), of toy_keys "()"] v show ?thesis
    by (intro exI [of _ s] exI [of _ e] exI [of _ "line @ [newline]"]) (auto simp: utf8_valid_ascii)
qed


section \<open>The store is offered a checkpoint\<close>

theorem pending_checkpoint_offered_witness:
  "\<exists>st' k' ms. anchorExternally toy toy_md5 (fake_send toy_md5 (sum256 toy) t0) fake_New
      (sample_ck\<lparr>ck_external := Some sample_anchor, ck_pending := Some \<lparr>sk_c = sample_cp, sk_s = sample_sg\<rparr>\<rparr>) t0 False = (st', k', ms) \<and>
    st' = fake1 \<and> ck_pending k' = None"
proof -
  let ?k = "sample_ck\<lparr>ck_external := Some sample_anchor, ck_pending := Some \<lparr>sk_c = sample_cp, sk_s = sample_sg\<rparr>\<rparr>"
  obtain st' k' ms where x: "anchorExternally toy toy_md5 (fake_send toy_md5 (sum256 toy) t0) fake_New ?k t0 False = (st', k', ms)"
    by (metis prod_cases3)
  from pending_checkpoint_offered [OF x, of sample_anchor "\<lparr>sk_c = sample_cp, sk_s = sample_sg\<rparr>"] sample_published x
  show ?thesis by (auto simp: sample_ck_def)
qed

section \<open>A disk that fails once\<close>

theorem failed_sync_breaks_anchor_witness:
  "\<exists>b. b \<noteq> [] \<and> ReadVerified toy b ''c1'' (anchor_keys ''k1'' (Some toy_public) None) = Inl ErrAnchorOrder \<and>
     newCheckpointer toy (\<lambda>_. []) sample_wc toy_signer None (Content b) t0 \<notin> range Inr"
proof -
  obtain s e where s: "store_inv toy toy_keys () s [e]" "sample_store [e] s" using sample_store_history by blast
  have k: "ck_key sample_ck = toy_signer" "ck_kid sample_ck = ''k1''" "ck_chain sample_ck = ''c1''" "ck_lastSize sample_ck = 0"
    "ck_external sample_ck = None" "\<not> ck_stamp sample_ck" "ck_policy sample_ck = \<lparr>cp_Every = 1, cp_Interval = ns_per_s\<rparr>"
    by (simp_all add: sample_ck_def)
  obtain c where c: "new_checkpoint toy sample_ck s t0 = Inr \<lparr>sk_c = c, sk_s = cp_signed c\<rparr>" "c_size c = 1"
    "signed_Line toy (cp_signed c) = Inr (cp_line c)" "plain_line (cp_line c)"
    using sample_new_checkpoint [OF s(1) k(1-3)] by blast
  have n: "store_Next s = 1" using store_export [OF sample_log(1) [OF s(1)]] by simp
  have due: "policy_Due (ck_policy sample_ck) (ck_lastSize sample_ck) (store_Next s) (ck_lastAt sample_ck) t0"
    by (simp add: policy_Due_def n k)
  let ?w = "sample_te (Some (length (cp_line c) + 1))" and ?T = "w_tsa sample_world" and ?send = "fake_send toy_md5 (sum256 toy) t0"
  let ?fl = "\<lparr>af_anchor = cp_line c @ [newline], af_tokens = []\<rparr>"
  let ?fl2 = "\<lparr>af_anchor = (cp_line c @ [newline]) @ cp_line c @ [newline], af_tokens = []\<rparr>"
  have "checkpointLocked toy ?T ?w sample_ck no_files s s t0 False = (sample_ck, ?fl, [], False)"
    using due by (simp add: checkpointLocked_def c n Let_def file_Publish_def sample_te_def k no_files_def)
  then have one: "tick toy ?T toy_md5 ?send ?w fake_New sample_ck no_files s s t0 t0 False = (fake_New, sample_ck, ?fl, [CheckpointFailed])"
    by (simp add: tick_def anchorExternally_def k)
  have "checkpointLocked toy ?T (sample_te None) sample_ck ?fl s s t0 False = (sample_ck\<lparr>ck_lastSize := 1, ck_lastAt := t0\<rparr>, ?fl2, [], True)"
    using due by (simp add: checkpointLocked_def c n Let_def file_Publish_def sample_te_def k)
  then have two: "tick toy ?T toy_md5 ?send (sample_te None) fake_New sample_ck ?fl s s t0 t0 False =
      (fake_New, sample_ck\<lparr>ck_lastSize := 1, ck_lastAt := t0\<rparr>, ?fl2, [])"
    by (simp add: tick_def anchorExternally_def k)
  have te: "te_Export (sample_te w)" "te_Write (sample_te w) = w" for w by (simp_all add: sample_te_def)
  have "utf8_valid ''c1''" by (simp add: utf8_valid_ascii)
  from failed_sync_breaks_anchor [OF sample_started [OF s(1)] sample_log(1) [OF s(1)] toy_ok(2) this order_refl order_refl format_t0(3) due
      c(1) _ c(4) te _ one c(1) _ c(4) te two, of "[]" sample_wc toy_signer None "\<lambda>_. []" t0] c(3)
  have "ReadVerified toy ((cp_line c @ [newline]) @ cp_line c @ [newline]) ''c1'' (anchor_keys ''k1'' (Some toy_public) None) = Inl ErrAnchorOrder \<and>
      newCheckpointer toy (\<lambda>_. []) sample_wc toy_signer None (Content ((cp_line c @ [newline]) @ cp_line c @ [newline])) t0 \<notin> range Inr"
    by (simp add: unlines_def sample_wc_def)
  then show ?thesis by blast
qed

section \<open>The configuration is saved\<close>

definition sample_durations :: durations where
  "sample_durations = \<lparr>du_Parse = (\<lambda>s. case decode_json s of Some (JInt i, _) \<Rightarrow> Some i | _ \<Rightarrow> None), du_String = show_int\<rparr>"

lemma sample_durations_ok: "durations_ok sample_durations"
proof -
  have "decode_json (show_int i) = Some (JInt i, [])" for i using decode_marshal [of "JInt i"] by simp
  then show ?thesis by (simp add: durations_ok_def sample_durations_def)
qed

definition config_world :: "config \<Rightarrow> fake_server world" where
  "config_world c = sample_world\<lparr>w_fs := [''w.json'' \<mapsto> Regular 420 (MarshalIndent (json_of_config sample_durations c) @ [newline])]\<rparr>"

lemma sample_config_json: "ascii kid \<Longrightarrow> ascii rkey \<Longrightarrow> ascii rcert \<Longrightarrow>
    json_ok (json_of_config sample_durations (sample_wc\<lparr>wc_Kid := kid, wc_ReceiptKey := rkey, wc_ReceiptCert := rcert\<rparr>))"
  by (simp add: json_of_config_def sample_wc_def json_of_tls_def json_of_server_def json_of_slice_def omit_map_def
      sample_durations_def omit_str_def omit_strs_def omit_ptr_def utf8_valid_ascii)

lemma sample_dir: "path_Dir (path_Abs ''/'' ''w.json'') = ''/''"
  by code_simp

lemma config_world_read: "os_ReadFile (w_fs (config_world c)) ''w.json'' = Some (MarshalIndent (json_of_config sample_durations c) @ [newline])"
  by (rule os_ReadFile_regular) (simp add: config_world_def)

lemma sample_config_Load: "config_Load (config_world sample_wc) sample_durations ''/'' ''w.json'' = Inr sample_wc"
proof (rule config_Load_saved [OF sample_durations_ok _ _ _ _ _ config_world_read])
  show "json_ok (json_of_config sample_durations sample_wc)"
    using sample_config_json [of "''k1''" "''rk''" "[]"] by (simp add: sample_wc_def)
qed (simp_all add: sample_dir, simp_all add: sample_wc_def config_savable_def with_defaults_def config_validate_def ns_per_s_def)

theorem saved_config_loads_witness:
  "\<exists>c. wc_Kid c = ''k2'' \<and> config_Load (config_world c) sample_durations ''/'' ''w.json'' = Inr c"
proof -
  let ?c = "sample_wc\<lparr>wc_Kid := ''k2'', wc_ReceiptKey := ''k2.key'', wc_ReceiptCert := ''k2.pem''\<rparr>"
  from saved_config_loads [OF sample_durations_ok sample_config_Load refl _ _ config_world_read sample_config_json,
      of "''k2''" "''k2.key''" "''k2.pem''"]
  have "config_Load (config_world ?c) sample_durations ''/'' ''w.json'' = Inr ?c" by (simp add: config_world_def)
  then show ?thesis by (intro exI [of _ ?c]) simp
qed

end
