(* ===== verification/JsonLoose.thy ===== *)
theory JsonLoose
  imports JsonIndent
begin

text \<open>
  \<open>json.Unmarshal\<close> into structs, which skips the members it does not know, and a fact about all decoding: every
  string that comes out of it is text, whatever the bytes were.
\<close>

section \<open>Unknown members are skipped\<close>

definition loose_fields :: "string list \<Rightarrow> json \<Rightarrow> (string \<Rightarrow> json option) option" where
  "loose_fields names j = (case j of
     JObj fs \<Rightarrow> Some (map_of (rev (List.map_filter (\<lambda>(k, v). map_option (\<lambda>n. (n, v)) (field_name names k)) fs)))
   | JNull \<Rightarrow> Some (\<lambda>_. None)
   | _ \<Rightarrow> None)"

lemma map_filter_those: "those (map f xs) = Some ys \<Longrightarrow> List.map_filter f xs = ys"
  by (induction xs arbitrary: ys) (auto simp: map_filter_simps split: option.splits)

text \<open>What the strict decoder takes the loose one takes too, with the same result.\<close>

lemma loose_fields_strict: "fields_of names j = Some f \<Longrightarrow> loose_fields names j = Some f"
  by (auto simp: fields_of_def loose_fields_def split: json.splits dest!: map_filter_those)

section \<open>What is decoded is text\<close>

lemma byte_char [simp]: "n < 256 \<Longrightarrow> byte (char_of n) = n"
  by simp

lemma cont_char: "cont_byte (char_of (128 + n mod 64 :: nat))"
proof -
  have "128 + n mod 64 < 256" by presburger
  then show ?thesis by (simp add: cont_byte_def)
qed

lemma rune_parts:
  assumes "(r :: nat) \<le> 1114111"
  shows "r div 262144 < 5" "r div 262144 = 4 \<Longrightarrow> r div 4096 mod 64 < 16" "r div 262144 = 0 \<Longrightarrow> 65536 \<le> r \<Longrightarrow> 16 \<le> r div 4096 mod 64"
proof -
  define q where "q = r div 4096"
  have h: "r div 262144 = q div 64" by (simp add: q_def div_mult2_eq [symmetric])
  have q: "q \<le> 271" using div_le_mono [OF assms, of 4096] by (simp add: q_def)
  have m: "q = 64 * (q div 64) + q mod 64" by simp
  show "r div 262144 < 5" unfolding h using q m by linarith
  show "r div 262144 = 4 \<Longrightarrow> r div 4096 mod 64 < 16" unfolding h q_def [symmetric] using q m by linarith
  assume "r div 262144 = 0" "65536 \<le> r"
  moreover from this(2) have "16 \<le> q" using div_le_mono [of 65536 r 4096] by (simp add: q_def)
  ultimately show "16 \<le> r div 4096 mod 64" unfolding h q_def [symmetric] using m by linarith
qed

lemma rune_parts3:
  assumes "(r :: nat) < 65536" "2048 \<le> r" "\<not> (55296 \<le> r \<and> r < 57344)"
  shows "r div 4096 < 16" "r div 4096 = 0 \<Longrightarrow> 32 \<le> r div 64 mod 64" "r div 4096 = 13 \<Longrightarrow> r div 64 mod 64 < 32"
proof -
  define q where "q = r div 64"
  have h: "r div 4096 = q div 64" by (simp add: q_def div_mult2_eq [symmetric])
  have q: "q \<le> 1023" "32 \<le> q"
    using div_le_mono [of r 65535 64] div_le_mono [of 2048 r 64] assms(1,2) by (simp_all add: q_def)
  have m: "q = 64 * (q div 64) + q mod 64" "q mod 64 < 64" by simp_all
  show "r div 4096 < 16" unfolding h using q m by linarith
  show "r div 4096 = 0 \<Longrightarrow> 32 \<le> r div 64 mod 64" unfolding h q_def [symmetric] using q m by linarith
  assume "r div 4096 = 13"
  then have "q < 896" unfolding h using m by linarith
  then have "r < 57344" by (simp add: q_def div_less_iff_less_mult)
  then have "r < 55296" using assms(3) by simp
  then have "q < 864" by (simp add: q_def div_less_iff_less_mult)
  with \<open>r div 4096 = 13\<close> show "r div 64 mod 64 < 32" unfolding h q_def [symmetric] using m by linarith
qed

lemma utf8_valid_encode_rune: "utf8_valid (encode_rune r)"
proof -
  have d: "utf8_valid s" if "decode_rune s = Some (x, length s)" for s x
    using that by (subst utf8_valid.simps) simp
  consider (one) "r < 128" | (two) "128 \<le> r" "r < 2048" | (bad) "55296 \<le> r \<and> r < 57344 \<or> 1114111 < r"
    | (three) "2048 \<le> r" "r < 65536" "\<not> (55296 \<le> r \<and> r < 57344)" | (four) "65536 \<le> r" "r \<le> 1114111" by linarith
  then show ?thesis
  proof cases
    case one
    then show ?thesis by (simp add: encode_rune_def d [of _ r])
  next
    case two
    have "r div 64 < 32" "2 \<le> r div 64" using two by (simp_all add: div_less_iff_less_mult less_eq_div_iff_mult_less_eq)
    with two show ?thesis by (intro d) (simp add: encode_rune_def cont_char Let_def)
  next
    case bad
    then have e: "encode_rune r = map char_of [239, 191, 189 :: nat]" by (auto simp: encode_rune_def)
    show ?thesis unfolding e by (rule d [of _ 65533]) (simp add: cont_byte_def)
  next
    case three
    note q = rune_parts3 [OF three(2,1,3)]
    show ?thesis using three q by (intro d) (auto simp: encode_rune_def cont_char Let_def)
  next
    case four
    note q = rune_parts [OF four(2)]
    show ?thesis using four q by (intro d) (auto simp: encode_rune_def cont_char Let_def)
  qed
qed

lemma char_step_valid: "char_step s = Some (a, u) \<Longrightarrow> utf8_valid a"
proof (cases s)
  case (Cons c s')
  have u: "unicode_escape t = Some (a, u) \<Longrightarrow> utf8_valid a" for t
    by (auto simp: unicode_escape_def bind_eq_Some_conv utf8_valid_encode_rune split: if_splits option.splits)
  have e: "char_escape x = Some d \<Longrightarrow> utf8_valid [d]" for x d
    by (auto simp: char_escape_def split: if_splits)
  assume "char_step s = Some (a, u)"
  with Cons u e show ?thesis
    by (auto simp: utf8_valid_encode_rune split: if_splits list.splits option.splits simp del: decode_rune.simps
        dest!: decode_rune_valid)
qed simp

lemma parse_chars_valid: "parse_chars s = Some (a, u) \<Longrightarrow> utf8_valid a"
proof (induction s arbitrary: a u rule: parse_chars.induct)
  case (1 s)
  show ?case
  proof (cases s)
    case (Cons c t)
    then show ?thesis using 1 char_step_valid [of s]
      by (auto simp: parse_chars.simps [of "c # t"] utf8_valid_append split: if_splits option.splits simp del: char_step.simps)
  qed (use 1 in \<open>simp add: parse_chars.simps\<close>)
qed

fun json_text :: "json \<Rightarrow> bool" where
  "json_text (JStr s) = utf8_valid s"
| "json_text (JArr js) = list_all json_text js"
| "json_text (JObj fs) = list_all (\<lambda>(k, j). utf8_valid k \<and> json_text j) fs"
| "json_text _ = True"

lemma parse_number_text: "parse_number s = Some (j, t) \<Longrightarrow> json_text j"
  by (auto simp: parse_number_def Let_def bind_eq_Some_conv split: prod.splits if_splits)

lemma parse_value_text:
  assumes "\<And>s js t. parse_elems n s = Some (js, t) \<Longrightarrow> list_all json_text js"
    and "\<And>s fs t. parse_members n s = Some (fs, t) \<Longrightarrow> list_all (\<lambda>(k, j). utf8_valid k \<and> json_text j) fs"
    and "parse_value (Suc n) s0 = Some (j, t)"
  shows "json_text j"
proof (cases "skip_ws s0")
  case (Cons c s)
  then show ?thesis using assms
    by (auto split: list.splits if_splits dest: parse_chars_valid parse_number_text simp del: json_text.simps)
        (auto dest: parse_chars_valid)
qed (use assms in simp)

lemma parse_elems_text:
  assumes "\<And>s j t. parse_value n s = Some (j, t) \<Longrightarrow> json_text j"
    and "\<And>s js t. parse_elems n s = Some (js, t) \<Longrightarrow> list_all json_text js"
    and "parse_elems (Suc n) s = Some (js, t)"
  shows "list_all json_text js"
proof -
  obtain j t' where v: "parse_value n s = Some (j, t')" using assms(3) by (auto simp: bind_eq_Some_conv)
  then show ?thesis using assms(3) assms(1) [OF v] assms(2) by (cases "skip_ws t'") (auto split: if_splits)
qed

lemma parse_members_text:
  assumes "\<And>s j t. parse_value n s = Some (j, t) \<Longrightarrow> json_text j"
    and "\<And>s fs t. parse_members n s = Some (fs, t) \<Longrightarrow> list_all (\<lambda>(k, j). utf8_valid k \<and> json_text j) fs"
    and "parse_members (Suc n) s = Some (fs, t)"
  shows "list_all (\<lambda>(k, j). utf8_valid k \<and> json_text j) fs"
proof -
  obtain q s1 where q: "skip_ws s = q # s1" "byte q = 34" using assms(3) by (auto split: list.splits if_splits)
  obtain k s2 where k: "parse_chars s1 = Some (k, s2)" using assms(3) q by (auto simp: bind_eq_Some_conv)
  obtain s3 where s3: "skip_ws s2 = CHR '':'' # s3" using assms(3) q k by (auto split: list.splits if_splits)
  obtain j t' where v: "parse_value n s3 = Some (j, t')" using assms(3) q k s3 by (auto simp: bind_eq_Some_conv)
  show ?thesis using assms(3) q k s3 v assms(1) [OF v] assms(2) parse_chars_valid [OF k]
    by (cases "skip_ws t'") (auto split: if_splits)
qed

lemma parse_text:
  "(\<forall>s j t. parse_value n s = Some (j, t) \<longrightarrow> json_text j) \<and>
   (\<forall>s js t. parse_elems n s = Some (js, t) \<longrightarrow> list_all json_text js) \<and>
   (\<forall>s fs t. parse_members n s = Some (fs, t) \<longrightarrow> list_all (\<lambda>(k, j). utf8_valid k \<and> json_text j) fs)"
proof (induction n)
  case (Suc n)
  show ?case
  proof (intro conjI allI impI)
    show "parse_value (Suc n) s = Some (j, t) \<Longrightarrow> json_text j" for s j t
      using parse_value_text [of n s j t] Suc by blast
    show "parse_elems (Suc n) s = Some (js, t) \<Longrightarrow> list_all json_text js" for s js t
      using parse_elems_text [of n s js t] Suc by blast
    show "parse_members (Suc n) s = Some (fs, t) \<Longrightarrow> list_all (\<lambda>(k, j). utf8_valid k \<and> json_text j) fs" for s fs t
      using parse_members_text [of n s fs t] Suc by blast
  qed
qed simp

lemma decode_text: "decode_json s = Some (j, t) \<Longrightarrow> json_text j"
  unfolding decode_json_def using parse_text by blast

lemma map_filter_SomeD: "y \<in> set (List.map_filter f xs) \<Longrightarrow> \<exists>x \<in> set xs. f x = Some y"
  by (auto simp: map_filter_def)

lemma loose_fields_text:
  assumes "json_text j" "loose_fields names j = Some f" "f k = Some x"
  shows "json_text x"
proof -
  obtain fs where "j = JObj fs" "(k, x) \<in> set (List.map_filter (\<lambda>(k, v). map_option (\<lambda>n. (n, v)) (field_name names k)) fs)"
    using assms(2,3) by (auto simp: loose_fields_def split: json.splits dest!: map_of_SomeD)
  then show ?thesis using assms(1) by (auto simp: list_all_iff dest!: map_filter_SomeD)
qed

lemma get_str_text: "(\<And>x. f k = Some x \<Longrightarrow> json_text x) \<Longrightarrow> get_str f k = Some s \<Longrightarrow> utf8_valid s"
  by (force simp: get_str_def as_str_def split: option.splits json.splits)

end
