(* ===== verification/Rotation.thy ===== *)
theory Rotation
  imports Config JsonLoose Store Keys Keyfile
begin

text \<open>
  Key rotation on the command line (\<open>cmd/warden/rotate.go\<close>, and the parts of \<open>main.go\<close> and \<open>admin.go\<close> it uses).
  The state is the file system of the \<open>world\<close> and the tables of the store; the key that \<open>GenerateKey\<close> makes, the
  serial number and how each write ends are arguments.
\<close>

section \<open>Files\<close>

text \<open>\<open>replace\<close> writes a temporary file with a name of its own and renames it over the path; a failure leaves the path as it was.\<close>

definition replace_file :: "filesystem \<Rightarrow> string \<Rightarrow> bytes \<Rightarrow> 32 word \<Rightarrow> bool \<Rightarrow> filesystem \<times> bool" where
  "replace_file fs path data mode ok = (if ok then (fs(path \<mapsto> Regular mode data), True) else (fs, False))"

definition os_Remove :: "filesystem \<Rightarrow> string \<Rightarrow> bool \<Rightarrow> filesystem" where
  "os_Remove fs path ok = (if ok then fs(path := None) else fs)"

datatype command_error =
  MissingFlag
| BadConfig config_error
| KidInUse
| KidRetired
| NoCAKey
| KeyFile keyfile_error
| TrustRead
| BadTrust keys_error
| TrustSyntax
| TrustHolds
| NotReplaced
| NotGenerated composite_error
| NotIssued identity_error
| StoreNotOpened store_error
| NotRotated store_error
| TrustNotUpdated command_error
| ConfigNotUpdated

definition trustFile :: "config \<Rightarrow> string" where
  "trustFile cfg = path_Join (config_Dir cfg) ''keys.json''"

definition trustedKeys :: "'x crypto_scheme \<Rightarrow> filesystem \<Rightarrow> config \<Rightarrow> command_error + trusted" where
  "trustedKeys C fs cfg =
     ebind (of_option TrustRead (os_ReadFile fs (trustFile cfg))) (\<lambda>data. map_err BadTrust (keys_Parse C data))"

definition loose_jwk :: "json \<Rightarrow> jwk option" where
  "loose_jwk j = do {
     f \<leftarrow> loose_fields [''kty'', ''alg'', ''kid'', ''pub'', ''priv''] j;
     t \<leftarrow> get_str f ''kty''; a \<leftarrow> get_str f ''alg''; k \<leftarrow> get_str f ''kid''; p \<leftarrow> get_str f ''pub'';
     x \<leftarrow> get_ptr as_str f ''priv'';
     Some \<lparr>jwk_Kty = t, jwk_Alg = a, jwk_Kid = k, jwk_Pub = p, jwk_Priv = x\<rparr> }"

definition unmarshal_set :: "bytes \<Rightarrow> jwk list option" where
  "unmarshal_set data = do { j \<leftarrow> unmarshal_json data; f \<leftarrow> loose_fields [''keys''] j;
     ks \<leftarrow> get_arr loose_jwk f ''keys''; Some (case ks of None \<Rightarrow> [] | Some l \<Rightarrow> l) }"

definition addTrustedKey ::
  "'x crypto_scheme \<Rightarrow> filesystem \<Rightarrow> config \<Rightarrow> string \<Rightarrow> public_key \<Rightarrow> bool \<Rightarrow> filesystem \<times> (command_error + unit)" where
  "addTrustedKey C fs cfg kid pub ok =
     (case os_ReadFile fs (trustFile cfg) of None \<Rightarrow> (fs, Inl TrustRead) | Some data \<Rightarrow>
      (case unmarshal_set data of None \<Rightarrow> (fs, Inl TrustSyntax) | Some ks \<Rightarrow>
       if list_ex (\<lambda>k. jwk_Kid k = kid) ks then (fs, Inl TrustHolds)
       else let out = MarshalIndent (json_of_set (Some (ks @ [PublicJWK kid pub]))) in
         (case keys_Parse C out of Inl e \<Rightarrow> (fs, Inl (BadTrust e))
          | Inr _ \<Rightarrow> (case replace_file fs (trustFile cfg) (out @ [newline]) 420 ok of
              (fs', False) \<Rightarrow> (fs', Inl NotReplaced) | (fs', True) \<Rightarrow> (fs', Inr ())))))"

definition saveConfig :: "durations \<Rightarrow> filesystem \<Rightarrow> string \<Rightarrow> config \<Rightarrow> bool \<Rightarrow> filesystem \<times> bool" where
  "saveConfig D fs path cfg ok = replace_file fs path (MarshalIndent (json_of_config D cfg) @ [newline]) 420 ok"

definition loadCA :: "x509 \<Rightarrow> pem_lib \<Rightarrow> filesystem \<Rightarrow> config \<Rightarrow> command_error + ca" where
  "loadCA X P fs cfg =
     (if tf_CAKey (wc_TLS cfg) = [] then Inl NoCAKey
      else ebind (map_err KeyFile (ReadMLDSA P fs (config_Path cfg (tf_CAKey (wc_TLS cfg))))) (\<lambda>key.
        ebind (map_err KeyFile (ReadCertificate X P fs (config_Path cfg (tf_CACert (wc_TLS cfg))))) (\<lambda>der.
        if x_Parse X der = None then Inl (KeyFile BadCertificate) else Inr \<lparr>ca_Cert = der, ca_Key = key\<rparr>)))"

section \<open>Rotating\<close>

record rotate_env =
  ro_Now :: time
  ro_Seed :: bytes
  ro_Serial :: int
  ro_Umask :: "32 word"
  ro_Key :: io_outcome
  ro_Cert :: io_outcome
  ro_RemoveKey :: bool
  ro_RemoveCert :: bool
  ro_Open :: bool
  ro_Rotate :: bool
  ro_Trust :: bool
  ro_Config :: bool

text \<open>Everything before the first write.\<close>

definition rotate_prepare ::
  "'x crypto_scheme \<Rightarrow> 'st world \<Rightarrow> durations \<Rightarrow> rotate_env \<Rightarrow> string \<Rightarrow> string \<Rightarrow> string \<Rightarrow> int \<Rightarrow>
     command_error + config \<times> private_key \<times> private_key \<times> bytes" where
  "rotate_prepare C W D E wd path newKid ttl =
     (if newKid = [] then Inl MissingFlag
      else ebind (map_err BadConfig (config_Load W D wd path)) (\<lambda>cfg.
      if newKid = wc_Kid cfg then Inl KidInUse
      else if (case trustedKeys C (w_fs W) cfg of Inr t \<Rightarrow> t newKid \<noteq> None | Inl _ \<Rightarrow> False) then Inl KidRetired
      else ebind (loadCA (w_x509 W) (w_pem W) (w_fs W) cfg) (\<lambda>ca.
      ebind (map_err KeyFile (ReadComposite C (w_pem W) (w_fs W) (config_Path cfg (wc_ReceiptKey cfg)))) (\<lambda>outgoing.
      ebind (map_err NotGenerated (GenerateKey C MLDSA65Ed25519 (ro_Seed E))) (\<lambda>incoming.
      ebind (map_err NotIssued (IssueKeyEpoch C (w_x509 W) (ro_Serial E) ca newKid (sk_pub incoming)
        (ro_Now E - 60 * ns_per_s) (ro_Now E + ttl))) (\<lambda>der.
      Inr (cfg, outgoing, incoming, der)))))))"

definition rotation_receipt :: "'x crypto_scheme \<Rightarrow> string \<Rightarrow> string \<Rightarrow> public_key \<Rightarrow> bytes \<Rightarrow> string \<Rightarrow> time \<Rightarrow> receipt" where
  "rotation_receipt C old new pub der reason now =
     \<lparr>r_v = receipt_Version, r_domain = receipt_Domain, r_chain_id = [], r_seq = 0, r_prev = [], r_ts = format_ts now,
      r_type = TypeKeyRotation, r_task_id = [], r_actor = None, r_call = None, r_decision = None, r_result = None,
      r_approval = None, r_rotation = Some \<lparr>rot_from = old, rot_to = new, rot_key = digest_SHA256 (sha256 C) (pub_Bytes pub),
        rot_certificate = b64_encode der, rot_reason = reason\<rparr>\<rparr>"

definition receipt_path :: "string \<Rightarrow> string \<Rightarrow> string" where
  "receipt_path newKid ext = path_Join ''pki'' (''receipt-'' @ newKid @ ext)"

definition rotated_config :: "config \<Rightarrow> string \<Rightarrow> config" where
  "rotated_config cfg newKid = cfg\<lparr>wc_Kid := newKid, wc_ReceiptKey := receipt_path newKid ''.key'',
     wc_ReceiptCert := receipt_path newKid ''.pem''\<rparr>"

text \<open>From the handover on, nothing is undone.\<close>

definition rotate_finish ::
  "'x crypto_scheme \<Rightarrow> durations \<Rightarrow> rotate_env \<Rightarrow> string \<Rightarrow> config \<Rightarrow> string \<Rightarrow> public_key \<Rightarrow> filesystem \<Rightarrow> filesystem \<times> (command_error + unit)" where
  "rotate_finish C D E path cfg newKid pub fs =
     (case addTrustedKey C fs cfg newKid pub (ro_Trust E) of
        (fs1, Inl e) \<Rightarrow> (fs1, Inl (TrustNotUpdated e))
      | (fs1, Inr _) \<Rightarrow> (case saveConfig D fs1 path (rotated_config cfg newKid) (ro_Config E) of
          (fs2, False) \<Rightarrow> (fs2, Inl ConfigNotUpdated) | (fs2, True) \<Rightarrow> (fs2, Inr ())))"

definition cmdRotateKey ::
  "'x crypto_scheme \<Rightarrow> 'st world \<Rightarrow> durations \<Rightarrow> rotate_env \<Rightarrow> string \<Rightarrow> string \<Rightarrow> string \<Rightarrow> string \<Rightarrow> int \<Rightarrow> database \<Rightarrow>
     filesystem \<times> database \<times> (command_error + int)" where
  "cmdRotateKey C W D E wd path newKid reason ttl db =
     (case rotate_prepare C W D E wd path newKid ttl of Inl e \<Rightarrow> (w_fs W, db, Inl e) | Inr (cfg, outgoing, incoming, der) \<Rightarrow>
      let absKey = config_Path cfg (receipt_path newKid ''.key''); absCert = config_Path cfg (receipt_path newKid ''.pem'');
          cleanup = (\<lambda>fs. os_Remove (os_Remove fs absKey (ro_RemoveKey E)) absCert (ro_RemoveCert E)) in
      (case WriteComposite (w_pem W) (w_fs W) absKey incoming (ro_Umask E) (ro_Key E) of
        (fs1, Inl e) \<Rightarrow> (fs1, db, Inl (KeyFile e))
      | (fs1, Inr _) \<Rightarrow>
      (case WriteCertificate (w_x509 W) (w_pem W) fs1 absCert der (ro_Umask E) (ro_Cert E) of
        (fs2, Inl e) \<Rightarrow> (cleanup fs2, db, Inl (KeyFile e))
      | (fs2, Inr _) \<Rightarrow>
      (case store_Open C (config_Path cfg (wc_Store cfg)) db (Some (private_signer C outgoing)) (wc_Kid cfg) (wc_ChainID cfg) (ro_Open E) of
        (db1, Inl e) \<Rightarrow> (cleanup fs2, db1, Inl (StoreNotOpened e))
      | (db1, Inr s) \<Rightarrow>
      (case store_Rotate C s (rotation_receipt C (wc_Kid cfg) newKid (sk_pub incoming) der reason (ro_Now E))
          (Some (private_signer C incoming)) (ro_Rotate E) of
        (s', Inl e) \<Rightarrow> (cleanup fs2, s_db s', Inl (NotRotated e))
      | (s', Inr a) \<Rightarrow>
          (case rotate_finish C D E path cfg newKid (sk_pub incoming) fs2 of
             (fs', Inl e) \<Rightarrow> (fs', s_db s', Inl e)
           | (fs', Inr _) \<Rightarrow> (fs', s_db s', Inr (ap_Seq a))))))))"

section \<open>What the files say afterwards\<close>

lemma those_mono: "those (map f xs) = Some ys \<Longrightarrow> (\<And>x y. f x = Some y \<Longrightarrow> g x = Some y) \<Longrightarrow> those (map g xs) = Some ys"
  by (induction xs arbitrary: ys) (auto split: option.splits)

lemma loose_jwk_strict: "dec_jwk j = Some k \<Longrightarrow> loose_jwk j = Some k"
  unfolding dec_jwk_def loose_jwk_def by (auto simp: bind_eq_Some_conv dest!: loose_fields_strict)

lemma get_arr_mono:
  assumes "get_arr dec f k = Some x" "\<And>j y. dec j = Some y \<Longrightarrow> dec' j = Some y"
  shows "get_arr dec' f k = Some x"
  using assms by (auto simp: get_arr_def split: option.splits json.splits dest: those_mono [of dec _ _ dec'])

text \<open>A trust file that the verifier takes and \<open>Unmarshal\<close> takes means the same to both.\<close>

lemma unmarshal_set_strict:
  assumes "keys_Parse C data = Inr t" "unmarshal_set data = Some ks"
  shows "efold (add_key C) Map.empty ks = Inr t"
proof -
  obtain j rest x where d: "decode_json data = Some (j, rest)" "dec_set j = Some x" 
    "efold (add_key C) Map.empty (case x of None \<Rightarrow> [] | Some l \<Rightarrow> l) = Inr t"
    using assms(1) by (auto simp: keys_Parse_def Let_def split: if_splits)
  obtain f where f: "fields_of [''keys''] j = Some f" "get_arr dec_jwk f ''keys'' = Some x"
    using d(2) by (auto simp: dec_set_def bind_eq_Some_conv)
  have "get_arr loose_jwk f ''keys'' = Some x" by (rule get_arr_mono [OF f(2)]) (rule loose_jwk_strict)
  then have "ks = (case x of None \<Rightarrow> [] | Some l \<Rightarrow> l)"
    using assms(2) d(1) loose_fields_strict [OF f(1)]
    by (auto simp: unmarshal_set_def unmarshal_json_def bind_eq_Some_conv split: if_splits)
  with d(3) show ?thesis by simp
qed

definition jwk_text :: "jwk \<Rightarrow> bool" where
  "jwk_text k \<longleftrightarrow> utf8_valid (jwk_Kty k) \<and> utf8_valid (jwk_Alg k) \<and> utf8_valid (jwk_Kid k) \<and> utf8_valid (jwk_Pub k) \<and>
     pred_option utf8_valid (jwk_Priv k)"

lemma get_ptr_str_text: "(\<And>x. f k = Some x \<Longrightarrow> json_text x) \<Longrightarrow> get_ptr as_str f k = Some s \<Longrightarrow> pred_option utf8_valid s"
  by (force simp: get_ptr_def as_str_def split: option.splits json.splits)

lemma loose_jwk_text: "json_text j \<Longrightarrow> loose_jwk j = Some k \<Longrightarrow> jwk_text k"
  unfolding loose_jwk_def jwk_text_def
  by (auto simp: bind_eq_Some_conv intro: get_str_text get_ptr_str_text loose_fields_text)

lemma those_all: "those (map f xs) = Some ys \<Longrightarrow> \<forall>x \<in> set xs. \<forall>y. f x = Some y \<longrightarrow> P y \<Longrightarrow> list_all P ys"
  by (induction xs arbitrary: ys) (auto split: option.splits)

lemma unmarshal_json_Some: "unmarshal_json s = Some j \<longleftrightarrow> (\<exists>t. decode_json s = Some (j, t) \<and> skip_ws t = [])"
  by (auto simp: unmarshal_json_def split: option.splits if_splits)

lemma unmarshal_set_text: "unmarshal_set data = Some ks \<Longrightarrow> list_all jwk_text ks"
proof -
  assume "unmarshal_set data = Some ks"
  then obtain j rest f x where j: "decode_json data = Some (j, rest)" "loose_fields [''keys''] j = Some f"
    "get_arr loose_jwk f ''keys'' = Some x" "ks = (case x of None \<Rightarrow> [] | Some l \<Rightarrow> l)"
    by (auto simp: unmarshal_set_def unmarshal_json_Some bind_eq_Some_conv)
  show ?thesis
  proof (cases "f ''keys''")
    case (Some a)
    then have a: "json_text a" using loose_fields_text [OF decode_text [OF j(1)] j(2)] by blast
    show ?thesis
    proof (cases a)
      case (JArr js)
      then obtain l where l: "x = Some l" "those (map loose_jwk js) = Some l" using j(3) Some by (auto simp: get_arr_def)
      have "list_all jwk_text l"
        by (rule those_all [OF l(2)]) (use a JArr in \<open>auto simp: list_all_iff intro: loose_jwk_text\<close>)
      then show ?thesis using j(4) l(1) by simp
    qed (use j(3,4) Some in \<open>auto simp: get_arr_def\<close>)
  qed (use j(3,4) in \<open>auto simp: get_arr_def\<close>)
qed

lemma jwk_text_json: "list_all jwk_text ks \<Longrightarrow> json_ok (json_of_set (Some ks))"
  by (auto simp: json_of_set_def json_of_slice_def json_of_jwk_def jwk_text_def list_all_iff omit_ptr_def utf8_valid_ascii option.pred_set
      split: option.splits)

lemma keys_Parse_written:
  assumes "list_all jwk_text ks" "ks \<noteq> []" "t = [] \<or> t = [newline]"
  shows "keys_Parse C (MarshalIndent (json_of_set (Some ks)) @ t) = efold (add_key C) Map.empty ks"
proof -
  have "decode_json (MarshalIndent (json_of_set (Some ks)) @ t) = Some (json_of_set (Some ks), t)"
    by (rule decode_MarshalIndent [OF jwk_text_json [OF assms(1)]])
      (use assms(3) in \<open>auto simp: skip_ws_def json_ws_def newline_def follows_def\<close>)
  moreover have "\<not> dec_More t" using assms(3) by (auto simp: dec_More_def skip_ws_def json_ws_def newline_def)
  ultimately show ?thesis using assms(2) by (simp add: keys_Parse_def dec_set_of)
qed

text \<open>A generated key is in the trust file under its key ID, beside all keys that were there.\<close>

lemma generated_parses:
  assumes "primitives_ok C" "GenerateKey C MLDSA65Ed25519 seed = Inr k"
  shows "ParsePublicKey C MLDSA65Ed25519 (pub_Bytes (sk_pub k)) = Inr (sk_pub k)" "suite_Name (pk_suite (sk_pub k)) = Alg"
    "length (pk_mldsa (sk_pub k)) = 1952" "length (pk_ed (sk_pub k)) = 32" "mldsa_public_ok C MLDSA65 (pk_mldsa (sk_pub k))"
    "pk_suite (sk_pub k) = MLDSA65Ed25519"
proof -
  obtain mk where k: "mldsa_public C MLDSA65 (take 32 seed) = Some mk"
    "sk_pub k = \<lparr>pk_suite = MLDSA65Ed25519, pk_mldsa = mk, pk_ed = ed_public C (drop 32 seed)\<rparr>"
    using assms(2) by (auto simp: GenerateKey_def NewPrivateKey_def MLDSA65Ed25519_def split: if_splits)
  have l: "length mk = 1952 \<and> mldsa_public_ok C MLDSA65 mk" using k(1) assms(1) by (fastforce simp: primitives_ok_def)
  moreover have e: "length (ed_public C (drop 32 seed)) = 32" using assms(1) by (simp add: primitives_ok_def)
  ultimately show "ParsePublicKey C MLDSA65Ed25519 (pub_Bytes (sk_pub k)) = Inr (sk_pub k)"
    by (simp add: k(2) ParsePublicKey_def pub_Bytes_def PublicKeySize_def) (simp add: MLDSA65Ed25519_def)
  show "suite_Name (pk_suite (sk_pub k)) = Alg" by (simp add: k(2) MLDSA65Ed25519_def Alg_def)
  show "length (pk_mldsa (sk_pub k)) = 1952" "length (pk_ed (sk_pub k)) = 32" "mldsa_public_ok C MLDSA65 (pk_mldsa (sk_pub k))"
    "pk_suite (sk_pub k) = MLDSA65Ed25519"
    using l e by (simp_all add: k(2))
qed

lemma addTrustedKey_Inr:
  assumes "addTrustedKey C fs cfg kid pub ok = (fs', Inr u)" "utf8_valid kid"
    and "ParsePublicKey C MLDSA65Ed25519 (pub_Bytes pub) = Inr pub" "suite_Name (pk_suite pub) = Alg"
  shows "\<exists>data t'. fs' = fs(trustFile cfg \<mapsto> Regular 420 data) \<and> keys_Parse C data = Inr t' \<and> t' kid = Some pub \<and>
    (\<forall>t. trustedKeys C fs cfg = Inr t \<longrightarrow> t' = t(kid \<mapsto> pub))"
proof -
  let ?new = "PublicJWK kid pub"
  obtain data ks t' where a: "os_ReadFile fs (trustFile cfg) = Some data" "unmarshal_set data = Some ks"
    "keys_Parse C (MarshalIndent (json_of_set (Some (ks @ [?new])))) = Inr t'"
    "fs' = fs(trustFile cfg \<mapsto> Regular 420 (MarshalIndent (json_of_set (Some (ks @ [?new]))) @ [newline]))"
    using assms(1) by (auto simp: addTrustedKey_def replace_file_def Let_def split: option.splits if_splits sum.splits)
  have "list_all jwk_text (ks @ [?new])"
    using unmarshal_set_text [OF a(2)] assms(2,4)
    by (simp add: jwk_text_def PublicJWK_def KeyType_def utf8_valid_ascii Alg_def)
  note p = keys_Parse_written [OF this, of _ C]
  have e: "efold (add_key C) Map.empty (ks @ [?new]) = Inr t'" using a(3) p [of "[]"] by simp
  then obtain t0 where t0: "efold (add_key C) Map.empty ks = Inr t0" "add_key C t0 ?new = Inr t'"
    by (auto simp: efold_append)
  have t': "t' = t0(kid \<mapsto> pub)" using t0(2) assms(3) by (auto simp: add_key_def PublicJWK_def b64_decode_encode split: if_splits)
  have "trustedKeys C fs cfg = Inr t \<Longrightarrow> t = t0" for t
    using unmarshal_set_strict [OF _ a(2), of C t] t0(1) by (simp add: trustedKeys_def a(1))
  with a(4) t' e p [of "[newline]"] show ?thesis
    by (intro exI [of _ "MarshalIndent (json_of_set (Some (ks @ [?new]))) @ [newline]"] exI [of _ t']) auto
qed

section \<open>A Warden that can start\<close>

text \<open>
  The configuration loads, the receipt key is there and is the one the trust file names, and the tables are a log of
  the chain that this key continues.
\<close>

definition warden_ready ::
  "'x crypto_scheme \<Rightarrow> 'st world \<Rightarrow> durations \<Rightarrow> string \<Rightarrow> string \<Rightarrow> database \<Rightarrow> config \<Rightarrow> trusted \<Rightarrow> store \<Rightarrow> entry list \<Rightarrow> bool" where
  "warden_ready C W D wd path db cfg t s es \<longleftrightarrow> config_Load W D wd path = Inr cfg \<and> trustedKeys C (w_fs W) cfg = Inr t \<and>
     (\<exists>k. ReadComposite C (w_pem W) (w_fs W) (config_Path cfg (wc_ReceiptKey cfg)) = Inr k \<and> s_key s = Some (private_signer C k) \<and>
       t (wc_Kid cfg) = Some (sk_pub k)) \<and>
     s_kid s = wc_Kid cfg \<and> s_chainID s = wc_ChainID cfg \<and> s_db s = db \<and> store_holds C es s"

lemma follow_mono: "follow n fs p = Some (Regular m b) \<Longrightarrow> fs \<subseteq>\<^sub>m fs' \<Longrightarrow> follow n fs' p = Some (Regular m b)"
proof (induction n fs p rule: follow.induct)
  case (2 n fs p)
  then obtain x where x: "fs p = Some x" by (cases "fs p") auto
  then have "fs' p = Some x" using 2(3) by (metis domI map_le_def)
  with 2 x show ?case by (auto split: node.splits)
qed simp

lemma os_ReadFile_Some: "os_ReadFile fs p = Some b \<longleftrightarrow> (\<exists>m. follow 41 fs p = Some (Regular m b))"
  unfolding os_ReadFile_def by (auto simp del: follow.simps split: option.splits node.splits)

lemma os_ReadFile_mono: "os_ReadFile fs p = Some b \<Longrightarrow> fs \<subseteq>\<^sub>m fs' \<Longrightarrow> os_ReadFile fs' p = Some b"
  unfolding os_ReadFile_Some using follow_mono by blast

lemma os_ReadFile_dom: "os_ReadFile fs p = Some b \<Longrightarrow> fs p \<noteq> None"
proof -
  have "(41 :: nat) = Suc 40" by simp
  then show "os_ReadFile fs p = Some b \<Longrightarrow> fs p \<noteq> None"
    unfolding os_ReadFile_Some by (cases "fs p") (auto simp only: follow.simps option.case)
qed

lemma WriteComposite_Inr:
  assumes "WriteComposite P fs p k umask io = (fs', Inr u)" "NewPrivateKey C MLDSA65Ed25519 seed = Inr k" "pem_ok P"
  shows "fs p = None \<and> (\<exists>n. fs' = fs(p \<mapsto> n) \<and> (\<forall>fs''. fs'' p = Some n \<longrightarrow> ReadComposite C P fs'' p = Inr k))"
proof -
  let ?data = "pem_EncodeToMemory P \<lparr>pb_Type = CompositePEMType, pb_Headers = [], pb_Bytes = key_Seed k\<rparr>"
  have w: "writeNew fs p ?data 384 umask io = (fs', Inr u)" using assms(1) by (simp add: WriteComposite_def)
  let ?n = "Regular (and 384 (not umask)) ?data"
  have n: "fs p = None" "fs' = fs(p \<mapsto> ?n)" using w by (simp_all add: writeNew_Inr)
  have "key_Seed k = seed" using assms(2) by (auto simp: NewPrivateKey_def key_Seed_def split: if_splits)
  then have "ReadComposite C P fs'' p = Inr k" if "fs'' p = Some ?n" for fs''
    using written_pem_read [where fs = fs'' and path = p, OF assms(3) that owner_only] assms(2) by (simp add: ReadComposite_def)
  then show ?thesis using n by blast
qed

lemma WriteCertificate_Inr:
  "WriteCertificate X P fs p der umask io = (fs', Inr u) \<Longrightarrow> fs p = None \<and> (\<exists>n. fs' = fs(p \<mapsto> n))"
  by (auto simp: WriteCertificate_def writeNew_Inr split: if_splits)

lemma path_Clean_nonempty: "path_Clean p \<noteq> []"
  by (auto simp: path_Clean_def Let_def)

lemma receipt_path_nonempty: "receipt_path newKid ext \<noteq> []"
  by (simp add: receipt_path_def path_Join_def path_Clean_nonempty)

lemma value_ok_ascii: "value_ok v \<Longrightarrow> ascii v"
proof -
  have "alnum c \<or> c \<in> set ''._~@:+-'' \<Longrightarrow> byte c < 128" for c by (auto simp: alnum_def Let_def)
  then show "value_ok v \<Longrightarrow> ascii v" by (auto simp: value_ok_def ascii_def list_all_iff)
qed

lemma rotated_config_simps [simp]:
  "wc_Kid (rotated_config cfg kid) = kid" "wc_ReceiptKey (rotated_config cfg kid) = receipt_path kid ''.key''"
  "wc_ChainID (rotated_config cfg kid) = wc_ChainID cfg" "config_Path (rotated_config cfg kid) = config_Path cfg"
  "trustedKeys C fs (rotated_config cfg kid) = trustedKeys C fs cfg"
  by (simp_all add: rotated_config_def config_Path_def fun_eq_iff trustedKeys_def trustFile_def config_Dir_def)

lemma rotate_prepare_Inr:
  "rotate_prepare C W D E wd path newKid ttl = Inr (cfg, outgoing, incoming, der) \<Longrightarrow>
    newKid \<noteq> [] \<and> config_Load W D wd path = Inr cfg \<and> newKid \<noteq> wc_Kid cfg \<and>
    (\<forall>t. trustedKeys C (w_fs W) cfg = Inr t \<longrightarrow> t newKid = None) \<and>
    ReadComposite C (w_pem W) (w_fs W) (config_Path cfg (wc_ReceiptKey cfg)) = Inr outgoing \<and>
    GenerateKey C MLDSA65Ed25519 (ro_Seed E) = Inr incoming \<and>
    (\<exists>ca. loadCA (w_x509 W) (w_pem W) (w_fs W) cfg = Inr ca \<and> IssueKeyEpoch C (w_x509 W) (ro_Serial E) ca newKid (sk_pub incoming)
        (ro_Now E - 60 * ns_per_s) (ro_Now E + ttl) = Inr der)"
  by (auto simp: rotate_prepare_def split: if_splits)

text \<open>What a successful rotation did, step by step.\<close>

lemma cmdRotateKey_Inr:
  assumes "cmdRotateKey C W D E wd path newKid reason ttl db = (fs', db', Inr n)"
  obtains cfg outgoing incoming der fs1 fs2 db1 s s' a where
    "rotate_prepare C W D E wd path newKid ttl = Inr (cfg, outgoing, incoming, der)"
    "WriteComposite (w_pem W) (w_fs W) (config_Path cfg (receipt_path newKid ''.key'')) incoming (ro_Umask E) (ro_Key E) = (fs1, Inr ())"
    "WriteCertificate (w_x509 W) (w_pem W) fs1 (config_Path cfg (receipt_path newKid ''.pem'')) der (ro_Umask E) (ro_Cert E) = (fs2, Inr ())"
    "store_Open C (config_Path cfg (wc_Store cfg)) db (Some (private_signer C outgoing)) (wc_Kid cfg) (wc_ChainID cfg) (ro_Open E) = (db1, Inr s)"
    "store_Rotate C s (rotation_receipt C (wc_Kid cfg) newKid (sk_pub incoming) der reason (ro_Now E))
       (Some (private_signer C incoming)) (ro_Rotate E) = (s', Inr a)"
    "rotate_finish C D E path cfg newKid (sk_pub incoming) fs2 = (fs', Inr ())" "db' = s_db s'" "n = ap_Seq a"
proof -
  obtain cfg outgoing incoming der where p: "rotate_prepare C W D E wd path newKid ttl = Inr (cfg, outgoing, incoming, der)"
    using assms by (cases "rotate_prepare C W D E wd path newKid ttl") (auto simp: cmdRotateKey_def)
  obtain fs1 where k: "WriteComposite (w_pem W) (w_fs W) (config_Path cfg (receipt_path newKid ''.key'')) incoming (ro_Umask E) (ro_Key E) = (fs1, Inr ())"
    using assms p by (auto simp: cmdRotateKey_def Let_def split: prod.splits sum.splits)
  obtain fs2 where c: "WriteCertificate (w_x509 W) (w_pem W) fs1 (config_Path cfg (receipt_path newKid ''.pem'')) der (ro_Umask E) (ro_Cert E) = (fs2, Inr ())"
    using assms p k by (auto simp: cmdRotateKey_def Let_def split: prod.splits sum.splits)
  obtain db1 s where o: "store_Open C (config_Path cfg (wc_Store cfg)) db (Some (private_signer C outgoing)) (wc_Kid cfg) (wc_ChainID cfg) (ro_Open E) = (db1, Inr s)"
    using assms p k c by (auto simp: cmdRotateKey_def Let_def split: prod.splits sum.splits)
  obtain s' a where r: "store_Rotate C s (rotation_receipt C (wc_Kid cfg) newKid (sk_pub incoming) der reason (ro_Now E))
       (Some (private_signer C incoming)) (ro_Rotate E) = (s', Inr a)"
    using assms p k c o by (auto simp: cmdRotateKey_def Let_def split: prod.splits sum.splits)
  have "rotate_finish C D E path cfg newKid (sk_pub incoming) fs2 = (fs', Inr ()) \<and> db' = s_db s' \<and> n = ap_Seq a"
    using assms p k c o r by (auto simp: cmdRotateKey_def Let_def split: prod.splits sum.splits)
  with that p k c o r show ?thesis by blast
qed

lemma rotate_finish_Inr:
  assumes "rotate_finish C D E path cfg newKid pub fs = (fs', Inr ())"
  obtains fs1 where "addTrustedKey C fs cfg newKid pub (ro_Trust E) = (fs1, Inr ())"
    "fs' = fs1(path \<mapsto> Regular 420 (MarshalIndent (json_of_config D (rotated_config cfg newKid)) @ [newline]))"
proof -
  obtain fs1 where a: "addTrustedKey C fs cfg newKid pub (ro_Trust E) = (fs1, Inr ())"
    using assms by (auto simp: rotate_finish_def split: prod.splits sum.splits)
  with assms that show ?thesis
    by (auto simp: rotate_finish_def saveConfig_def replace_file_def split: if_splits bool.splits)
qed

lemma config_Load_updated:
  assumes "durations_ok D" "config_Load W D wd path = Inr cfg" "newKid \<noteq> []" "json_ok (json_of_config D (rotated_config cfg newKid))"
    and "fs path = Some (Regular m (MarshalIndent (json_of_config D (rotated_config cfg newKid)) @ [newline]))"
  shows "config_Load (W\<lparr>w_fs := fs\<rparr>) D wd path = Inr (rotated_config cfg newKid)"
  by (rule saved_config_loads [where ?W0.0 = W and kid = newKid and rkey = "receipt_path newKid ''.key''" and rcert = "receipt_path newKid ''.pem''",
        OF assms(1,2) rotated_config_def assms(3) receipt_path_nonempty _ assms(4)])
    (simp_all add: os_ReadFile_regular [where fs = fs and path = path, OF assms(5)])

text \<open>
  C14: A rotation that succeeds leaves a Warden that starts: the configuration it wrote loads and differs in the receipt key
  only, the incoming private key is in its file, the trust file has it under its key ID beside every key it had, and
  the tables hold the old log and one more receipt, which the incoming key continues.
\<close>

theorem rotated_warden_ready:
  assumes "warden_ready C W D wd path db cfg t s es"
    and "cmdRotateKey C W D E wd path newKid reason ttl db = (fs', db', Inr n)"
    and "durations_ok D" "pem_ok (w_pem W)" "jcs_ok (jcs C)" "primitives_ok C"
    and "trustFile cfg \<noteq> path" "utf8_valid (wc_ChainID cfg)" "json_ok (json_of_config D (rotated_config cfg newKid))"
  shows "\<exists>pub s' e. warden_ready C (W\<lparr>w_fs := fs'\<rparr>) D wd path db' (rotated_config cfg newKid) (t(newKid \<mapsto> pub)) s' (es @ [e]) \<and>
    n = int (length es) \<and> r_type (e_rcpt e) = TypeKeyRotation \<and> e_kid e = wc_Kid cfg \<and> t newKid = None"
proof -
  note ready = assms(1) [unfolded warden_ready_def]
  have load: "config_Load W D wd path = Inr cfg" and trust: "trustedKeys C (w_fs W) cfg = Inr t" using ready by blast+
  obtain cfg' outgoing incoming der fs1 fs2 db1 s1 s' a where c:
    "rotate_prepare C W D E wd path newKid ttl = Inr (cfg', outgoing, incoming, der)"
    "WriteComposite (w_pem W) (w_fs W) (config_Path cfg' (receipt_path newKid ''.key'')) incoming (ro_Umask E) (ro_Key E) = (fs1, Inr ())"
    "WriteCertificate (w_x509 W) (w_pem W) fs1 (config_Path cfg' (receipt_path newKid ''.pem'')) der (ro_Umask E) (ro_Cert E) = (fs2, Inr ())"
    "store_Open C (config_Path cfg' (wc_Store cfg')) db (Some (private_signer C outgoing)) (wc_Kid cfg') (wc_ChainID cfg') (ro_Open E) = (db1, Inr s1)"
    "store_Rotate C s1 (rotation_receipt C (wc_Kid cfg') newKid (sk_pub incoming) der reason (ro_Now E))
       (Some (private_signer C incoming)) (ro_Rotate E) = (s', Inr a)"
    "rotate_finish C D E path cfg' newKid (sk_pub incoming) fs2 = (fs', Inr ())" "db' = s_db s'" "n = ap_Seq a"
    by (rule cmdRotateKey_Inr [OF assms(2)])
  note p = rotate_prepare_Inr [OF c(1)]
  have cfg': "cfg' = cfg" using p load by simp
  note c = c [unfolded cfg'] and p = p [unfolded cfg']
  have gen: "NewPrivateKey C MLDSA65Ed25519 (ro_Seed E) = Inr incoming" using p by (simp add: GenerateKey_def)
  let ?key = "config_Path cfg (receipt_path newKid ''.key'')" and ?cert = "config_Path cfg (receipt_path newKid ''.pem'')"
  obtain kn where k: "w_fs W ?key = None" "fs1 = (w_fs W)(?key \<mapsto> kn)"
    "\<And>fs''. fs'' ?key = Some kn \<Longrightarrow> ReadComposite C (w_pem W) fs'' ?key = Inr incoming"
    using WriteComposite_Inr [OF c(2) gen assms(4)] by blast
  obtain cn where cn: "fs1 ?cert = None" "fs2 = fs1(?cert \<mapsto> cn)" using WriteCertificate_Inr [OF c(3)] by blast
  have ext: "w_fs W \<subseteq>\<^sub>m fs2" using k(1,2) cn by (auto simp: map_le_def)
  obtain data where data: "os_ReadFile (w_fs W) (trustFile cfg) = Some data" using trust by (auto simp: trustedKeys_def)
  have dom: "w_fs W (trustFile cfg) \<noteq> None" by (rule os_ReadFile_dom [OF data])
  obtain cdata where "os_ReadFile (w_fs W) path = Some cdata" using load by (auto simp: config_Load_def)
  then have dom2: "w_fs W path \<noteq> None" by (rule os_ReadFile_dom)
  have t2: "trustedKeys C fs2 cfg = Inr t"
    using trust data os_ReadFile_mono [OF data ext] by (simp add: trustedKeys_def)
  obtain fs3 where f: "addTrustedKey C fs2 cfg newKid (sk_pub incoming) (ro_Trust E) = (fs3, Inr ())"
    "fs' = fs3(path \<mapsto> Regular 420 (MarshalIndent (json_of_config D (rotated_config cfg newKid)) @ [newline]))"
    by (rule rotate_finish_Inr [OF c(6)])
  have kid: "value_ok newKid" using p by (auto simp: IssueKeyEpoch_def checkValue_def require_def split: if_splits)
  have "utf8_valid newKid"
    by (rule utf8_valid_ascii [OF value_ok_ascii [OF kid]])
  note gp = generated_parses [OF assms(6), of "ro_Seed E" incoming]
  obtain tdata where td: "fs3 = fs2(trustFile cfg \<mapsto> Regular 420 tdata)" "keys_Parse C tdata = Inr (t(newKid \<mapsto> sk_pub incoming))"
    using addTrustedKey_Inr [OF f(1) \<open>utf8_valid newKid\<close> gp(1,2)] p t2 by fastforce
  have "trustedKeys C fs' cfg = Inr (t(newKid \<mapsto> sk_pub incoming))"
    using td(2) os_ReadFile_regular [of fs' "trustFile cfg"] assms(7) by (simp add: trustedKeys_def f(2) td(1))
  moreover have "ReadComposite C (w_pem W) fs' ?key = Inr incoming"
    using k(1,2) cn dom dom2 by (intro k(3)) (auto simp: f(2) td(1))
  moreover have "config_Load (W\<lparr>w_fs := fs'\<rparr>) D wd path = Inr (rotated_config cfg newKid)"
    by (rule config_Load_updated [OF assms(3) load _ assms(9)]) (use p f(2) in auto)
  moreover have s1: "s1 = s"
    using store_Open_again [of C es s "config_Path cfg (wc_Store cfg)" "ro_Open E" db1 s1] c(4) ready p by auto
  have "\<exists>line. s_key s' = Some (private_signer C incoming) \<and> s_kid s' = newKid \<and> s_chainID s' = s_chainID s \<and> ap_Seq a = int (length es) \<and>
      store_holds C (es @ [store_entry s line (rotation_receipt C (wc_Kid cfg) newKid (sk_pub incoming) der reason (ro_Now E))]) s'"
    using store_Rotate_cases [OF _ c(5) assms(5), of es] ready assms(8) \<open>utf8_valid newKid\<close>
    by (auto simp: s1 rotation_receipt_def)
  then obtain line where "s_key s' = Some (private_signer C incoming)" "s_kid s' = newKid" "s_chainID s' = s_chainID s" "ap_Seq a = int (length es)"
    "store_holds C (es @ [store_entry s line (rotation_receipt C (wc_Kid cfg) newKid (sk_pub incoming) der reason (ro_Now E))]) s'" by blast
  moreover have "ap_kid (s_app s) = wc_Kid cfg" using ready by (auto simp: store_holds_def)
  ultimately show ?thesis
    using ready c(7,8) p trust
    by (intro exI [of _ "sk_pub incoming"] exI [of _ s'] exI [of _ "store_entry s line (rotation_receipt C (wc_Kid cfg) newKid (sk_pub incoming) der reason (ro_Now E))"])
      (simp add: warden_ready_def rotation_receipt_def)
qed

section \<open>A rotation that fails\<close>

lemma cmdRotateKey_prepared:
  assumes "rotate_prepare C W D E wd path newKid ttl = Inr (cfg, outgoing, incoming, der)"
    and "WriteComposite (w_pem W) (w_fs W) (config_Path cfg (receipt_path newKid ''.key'')) incoming (ro_Umask E) (ro_Key E) = (fs1, Inr ())"
  shows "cmdRotateKey C W D E wd path newKid reason ttl db =
     (let absKey = config_Path cfg (receipt_path newKid ''.key''); absCert = config_Path cfg (receipt_path newKid ''.pem'');
          cleanup = (\<lambda>fs. os_Remove (os_Remove fs absKey (ro_RemoveKey E)) absCert (ro_RemoveCert E)) in
      (case WriteCertificate (w_x509 W) (w_pem W) fs1 absCert der (ro_Umask E) (ro_Cert E) of
        (fs2, Inl e) \<Rightarrow> (cleanup fs2, db, Inl (KeyFile e))
      | (fs2, Inr _) \<Rightarrow>
      (case store_Open C (config_Path cfg (wc_Store cfg)) db (Some (private_signer C outgoing)) (wc_Kid cfg) (wc_ChainID cfg) (ro_Open E) of
        (db1, Inl e) \<Rightarrow> (cleanup fs2, db1, Inl (StoreNotOpened e))
      | (db1, Inr s) \<Rightarrow>
      (case store_Rotate C s (rotation_receipt C (wc_Kid cfg) newKid (sk_pub incoming) der reason (ro_Now E))
          (Some (private_signer C incoming)) (ro_Rotate E) of
        (s', Inl e) \<Rightarrow> (cleanup fs2, s_db s', Inl (NotRotated e))
      | (s', Inr a) \<Rightarrow>
          (case rotate_finish C D E path cfg newKid (sk_pub incoming) fs2 of
             (fs', Inl e) \<Rightarrow> (fs', s_db s', Inl e)
           | (fs', Inr _) \<Rightarrow> (fs', s_db s', Inr (ap_Seq a)))))))"
  by (simp add: cmdRotateKey_def assms Let_def)

lemma WriteCertificate_frame:
  "WriteCertificate X P fs p der umask io = (fs', r) \<Longrightarrow> fs p = None \<Longrightarrow> fs'(p := None) = fs"
  by (auto simp: WriteCertificate_def writeNew_def Let_def split: if_splits io_outcome.splits)

lemma WriteComposite_undone: "WriteComposite P fs p k umask io = (fs1, Inr u) \<Longrightarrow> fs1(p := None) = fs"
  by (auto simp: WriteComposite_def writeNew_Inr)

lemma WriteComposite_Inl: "WriteComposite P fs p k umask io = (fs1, Inl e) \<Longrightarrow> io \<in> {IoOpen, IoDone} \<Longrightarrow> fs1 = fs"
  by (auto simp: WriteComposite_def writeNew_def Let_def split: if_splits)

text \<open>
  A rotation that fails before the log hands over is undone: when the two files it would write have free names, when
  the write of the key file does not stop half-way and what it wrote can be removed again, the file system and the
  tables are as they were, whatever failed.
\<close>

theorem failed_rotation_undone:
  assumes "warden_ready C W D wd path db cfg t s es"
    and "cmdRotateKey C W D E wd path newKid reason ttl db = (fs', db', Inl e)"
    and "\<forall>e'. e \<noteq> TrustNotUpdated e'" "e \<noteq> ConfigNotUpdated" "jcs_ok (jcs C)" "utf8_valid (wc_ChainID cfg)"
    and "w_fs W (config_Path cfg (receipt_path newKid ''.pem'')) = None" "ro_Key E \<in> {IoOpen, IoDone}" "ro_RemoveKey E" "ro_RemoveCert E"
    and "config_Path cfg (receipt_path newKid ''.pem'') \<noteq> config_Path cfg (receipt_path newKid ''.key'')"
  shows "fs' = w_fs W \<and> db' = db"
proof (cases "rotate_prepare C W D E wd path newKid ttl")
  case (Inl e')
  then show ?thesis using assms(2) by (simp add: cmdRotateKey_def)
next
  case (Inr x)
  obtain cfg' outgoing incoming der where x: "x = (cfg', outgoing, incoming, der)" by (cases x)
  note pr = Inr [unfolded x]
  note p = rotate_prepare_Inr [OF pr]
  have cfg: "cfg' = cfg" using p assms(1) by (auto simp: warden_ready_def)
  note pr = pr [unfolded cfg] and p = p [unfolded cfg]
  let ?key = "config_Path cfg (receipt_path newKid ''.key'')" and ?cert = "config_Path cfg (receipt_path newKid ''.pem'')"
  obtain fs1 r1 where k: "WriteComposite (w_pem W) (w_fs W) ?key incoming (ro_Umask E) (ro_Key E) = (fs1, r1)" by fastforce
  show ?thesis
  proof (cases r1)
    case (Inl e1)
    then show ?thesis using assms(2) pr k WriteComposite_Inl [OF k [unfolded Inl] assms(8)]
      by (simp add: cmdRotateKey_def Let_def)
  next
    case (Inr u)
    then have k: "WriteComposite (w_pem W) (w_fs W) ?key incoming (ro_Umask E) (ro_Key E) = (fs1, Inr ())" using k by simp
    note run = assms(2) [unfolded cmdRotateKey_prepared [OF pr k] Let_def]
    obtain fs2 r2 where c: "WriteCertificate (w_x509 W) (w_pem W) fs1 ?cert der (ro_Umask E) (ro_Cert E) = (fs2, r2)" by fastforce
    have undo: "os_Remove (os_Remove fs2 ?key (ro_RemoveKey E)) ?cert (ro_RemoveCert E) = w_fs W"
    proof -
      have "fs1 ?cert = None" using WriteComposite_undone [OF k] assms(7,11) by (metis fun_upd_apply)
      then have "fs2(?cert := None) = fs1" by (rule WriteCertificate_frame [OF c])
      then have "fs2(?key := None, ?cert := None) = fs1(?key := None)" using assms(11) by (metis fun_upd_twist)
      then show ?thesis using assms(9,10) WriteComposite_undone [OF k] by (simp add: os_Remove_def)
    qed
    show ?thesis
    proof (cases r2)
      case (Inl e2)
      then show ?thesis using run c undo by simp
    next
      case r2: (Inr u2)
      obtain db1 r3 where o: "store_Open C (config_Path cfg (wc_Store cfg)) db (Some (private_signer C outgoing)) (wc_Kid cfg)
          (wc_ChainID cfg) (ro_Open E) = (db1, r3)" by fastforce
      show ?thesis
      proof (cases r3)
        case (Inl e3)
        then have "db1 = db" using o by (auto simp: store_Open_def split: if_splits sum.splits)
        then show ?thesis using run c r2 o Inl undo by simp
      next
        case r3: (Inr s1)
        have s1: "s1 = s"
          using store_Open_again [of C es s "config_Path cfg (wc_Store cfg)" "ro_Open E" db1 s1] o r3 assms(1) p
          by (auto simp: warden_ready_def)
        obtain s' r4 where r: "store_Rotate C s (rotation_receipt C (wc_Kid cfg) newKid (sk_pub incoming) der reason (ro_Now E))
          (Some (private_signer C incoming)) (ro_Rotate E) = (s', r4)" by fastforce
        show ?thesis
        proof (cases r4)
          case (Inl e4)
          have "value_ok newKid" using p by (auto simp: IssueKeyEpoch_def checkValue_def require_def split: if_splits)
          then have "utf8_valid newKid" by (intro utf8_valid_ascii value_ok_ascii)
          then have "s' = s" using store_Rotate_cases [OF _ r assms(5), of es] assms(1,6) Inl
            by (auto simp: warden_ready_def rotation_receipt_def)
          then show ?thesis using run c r2 o r3 s1 r Inl undo assms(1) by (simp add: warden_ready_def)
        next
          case (Inr a)
          have "\<exists>e'. e = TrustNotUpdated e' \<or> e = ConfigNotUpdated"
            using run c r2 o r3 s1 r Inr by (auto simp: rotate_finish_def split: prod.splits sum.splits bool.splits)
          then show ?thesis using assms(3,4) by blast
        qed
      qed
    qed
  qed
qed

text \<open>
  But it also removes what it did not write: when there is a file under the name of the new certificate, the command
  refuses to overwrite it, and then its clean-up deletes it.
\<close>

theorem failed_rotation_removes_certificate:
  assumes "rotate_prepare C W D E wd path newKid ttl = Inr (cfg, outgoing, incoming, der)"
    and "w_fs W (config_Path cfg (receipt_path newKid ''.key'')) = None" "ro_Key E = IoDone"
    and "w_fs W (config_Path cfg (receipt_path newKid ''.pem'')) = Some n" "x_Parse (w_x509 W) der \<noteq> None"
    and "ro_RemoveCert E"
  shows "\<exists>fs'. cmdRotateKey C W D E wd path newKid reason ttl db = (fs', db, Inl (KeyFile ErrExists)) \<and>
    fs' (config_Path cfg (receipt_path newKid ''.pem'')) = None"
proof -
  obtain fs1 n1 where k: "WriteComposite (w_pem W) (w_fs W) (config_Path cfg (receipt_path newKid ''.key'')) incoming (ro_Umask E) (ro_Key E) = (fs1, Inr ())"
    "fs1 = (w_fs W)(config_Path cfg (receipt_path newKid ''.key'') \<mapsto> n1)"
    using assms(2,3) by (simp add: WriteComposite_def writeNew_def Let_def)
  have "WriteCertificate (w_x509 W) (w_pem W) fs1 (config_Path cfg (receipt_path newKid ''.pem'')) der (ro_Umask E) (ro_Cert E) = (fs1, Inl ErrExists)"
    using assms(4,5) by (simp add: WriteCertificate_def writeNew_def k(2))
  then show ?thesis unfolding cmdRotateKey_prepared [OF assms(1) k(1)] using assms(6) by (simp add: Let_def os_Remove_def)
qed

end
