(* ===== verification/RotationLog.thy ===== *)
theory RotationLog
  imports Rotation
begin

text \<open>
  What the verifier says of a log after \<open>rotate-key\<close>: with a certificate that outlives the rotation the log still
  verifies for an auditor who trusts the root, and with one that does not it never verifies again.
\<close>

section \<open>Key epochs that are issued verify\<close>

lemma IssueKeyEpoch_Inr:
  assumes "IssueKeyEpoch C X sn ca kid pub nb na = Inr der" "length (pk_ed pub) = 32"
  shows "value_ok kid \<and> x_Create X (leaf_template\<lparr>ct_CommonName := kid, ct_NotBefore := nb, ct_NotAfter := na,
    ct_Policies := [PolicyKeyEpoch], ct_URIs := [urn uriKid kid, urn uriEd25519 (b64_encode (pk_ed pub))], ct_Serial := sn\<rparr>) ca
      (pk_mldsa pub) = Some der"
  using assms by (auto simp: IssueKeyEpoch_def Let_def checkValue_def require_def ca_issue_def pub_Bytes_def split: if_splits)

lemma b64_length: "length (b64_encode bs) \<le> 2 * length bs + 1 \<and> (bs \<noteq> [] \<longrightarrow> b64_encode bs \<noteq> [])"
  by (induction bs rule: b64_encode.induct) auto

lemma b64_value_ok: "length b = 32 \<Longrightarrow> value_ok (b64_encode b)"
proof -
  assume l: "length b = 32"
  have ch: "char_of (45 :: nat) = CHR ''-''" "char_of (95 :: nat) = CHR ''_''" by code_simp+
  have "alnum c \<or> c = CHR ''-'' \<or> c = CHR ''_''" if "b64_val c \<noteq> None" for c
    using that byte_eq_char [of c 45] byte_eq_char [of c 95] ch by (auto simp: b64_val_def alnum_def Let_def split: if_splits)
  then have "list_all (\<lambda>c. alnum c \<or> c \<in> set ''._~@:+-'') (b64_encode b)"
    using b64_quanta_encode [of b] unfolding list_all_iff by fastforce
  moreover have "1 \<le> length (b64_encode b)" "length (b64_encode b) \<le> 256"
    using b64_length [of b] l by (cases "b64_encode b"; auto)+
  ultimately show ?thesis by (simp add: value_ok_def)
qed

lemma IssueKeyEpoch_VerifyKeyEpoch:
  assumes "IssueKeyEpoch C X sn ca kid pub nb na = Inr der" "x509_ok X ca" "x_Parse X (ca_Cert ca) = Some root"
    and "valid_at root at" "whole_s nb \<le> at" "at \<le> whole_s na"
    and "ParsePublicKey C MLDSA65Ed25519 (pub_Bytes pub) = Inr pub" "length (pk_mldsa pub) = 1952" "length (pk_ed pub) = 32"
  shows "\<exists>e. VerifyKeyEpoch C X der (ca_Pool ca) at = Inr e \<and> ke_Kid e = kid \<and> ke_Key e = pub"
proof -
  note i = IssueKeyEpoch_Inr [OF assms(1,9)]
  have x: "x_Verify X [ca_Cert ca] der at [UsageAny]"
    using x509_okD(2) [OF assms(2) conjunct2 [OF i] assms(3,4)] assms(5,6) by (simp add: leaf_template_def)
  show ?thesis
    using x509_okD(1) [OF assms(2) conjunct2 [OF i]] x i b64_value_ok [OF assms(9)] assms(7-9)
    by (simp add: VerifyKeyEpoch_def cert_verify_def ca_Pool_def leaf_template_def urn_def isMLDSA65_def b64_decode_encode pub_Bytes_def)
qed

section \<open>The log after a rotation\<close>

lemma rotating_roots: "rot_roots (keys_after (Rotating C X) ks es) = rot_roots ks"
proof (induction es rule: rev_induct)
  case (snoc e es)
  have "k_Accept (Rotating C X) r kid d c t = Some r' \<Longrightarrow> rot_roots r' = rot_roots r" for r kid d c t r'
    using rotating_Accept_cases [of C X r kid d c t r'] by (auto simp: rotating_Accept_Some)
  with snoc show ?case by (auto simp: keys_after_snoc accept_rotation_def bind_eq_Some_conv split: option.split)
qed (simp add: keys_after_def)

text \<open>The directory of an auditor who trusts the root learns the incoming key from the certificate.\<close>

lemma rotation_accepted:
  assumes "VerifyKeyEpoch C X der [root] at = Inr ep" "ke_Kid ep = kid" "ke_Key ep = pub" "rot_roots r = Some [root]"
    and "rot_known r kid = None" "parse_ts (r_ts x) = Some at"
    and "r_rotation x = Some \<lparr>rot_from = old, rot_to = kid, rot_key = digest_SHA256 (sha256 C) (pub_Bytes pub),
        rot_certificate = b64_encode der, rot_reason = reason\<rparr>"
  shows "\<exists>r'. accept_rotation (Rotating C X) r x = Some r' \<and> rot_known r' kid = Some pub"
  using assms by (auto simp: accept_rotation_def b64_decode_encode rotating_Accept_Some rotating_Accept_def)

text \<open>And no auditor learns it from a certificate that is not valid when the log says it was handed over.\<close>

lemma rotation_refused:
  assumes "\<And>roots. VerifyKeyEpoch C X der roots at \<notin> range Inr" "parse_ts (r_ts x) = Some at"
    and "r_rotation x = Some rot" "rot_certificate rot = b64_encode der"
  shows "accept_rotation (Rotating C X) r x = None"
proof -
  have "rotating_Accept C X r kid d der at = Inr r' \<Longrightarrow> False" for kid d r'
    using assms(1) rotating_Accept_cases [of C X r kid d der at r'] by (fastforce simp: epoch_certs_def)
  then have "k_Accept (Rotating C X) r kid d der at = None" for kid d
    by (cases "k_Accept (Rotating C X) r kid d der at") (auto simp: rotating_Accept_Some)
  with assms(2-4) show ?thesis by (simp add: accept_rotation_def b64_decode_encode)
qed

lemma whole_s_near: "whole_s t \<le> t" "t < whole_s t + ns_per_s"
  using div_mult_mod_eq [of t ns_per_s] pos_mod_bound [of ns_per_s t] pos_mod_sign [of ns_per_s t]
  by (simp_all add: whole_s_def ns_per_s_def)

lemma ms_near: "now - now mod ns_per_ms \<le> now" "now - ns_per_ms < now - now mod ns_per_ms"
  using pos_mod_bound [of ns_per_ms now] pos_mod_sign [of ns_per_ms now] by (simp_all add: ns_per_ms_def)

text \<open>What a rotation that succeeded did to the log.\<close>

lemma cmdRotateKey_log:
  assumes "warden_ready C W D wd path db cfg t s es"
    and "cmdRotateKey C W D E wd path newKid reason ttl db = (fs', db', Inr n)" "jcs_ok (jcs C)" "utf8_valid (wc_ChainID cfg)"
  obtains ca outgoing incoming der s' sg line a where
    "loadCA (w_x509 W) (w_pem W) (w_fs W) cfg = Inr ca" "value_ok newKid" "t newKid = None"
    "IssueKeyEpoch C (w_x509 W) (ro_Serial E) ca newKid (sk_pub incoming) (ro_Now E - 60 * ns_per_s) (ro_Now E + ttl) = Inr der"
    "GenerateKey C MLDSA65Ed25519 (ro_Seed E) = Inr incoming"
    "s_key s = Some (private_signer C outgoing)" "t (wc_Kid cfg) = Some (sk_pub outgoing)"
    "ReadComposite C (w_pem W) (w_fs W) (config_Path cfg (wc_ReceiptKey cfg)) = Inr outgoing"
    "Append C (s_app s) (rotation_receipt C (wc_Kid cfg) newKid (sk_pub incoming) der reason (ro_Now E)) = (a, Inr (sg, line))"
    "db' = s_db s'" "s_key s' = Some (private_signer C incoming)" "s_kid s' = newKid" "s_chainID s' = s_chainID s"
    "store_holds C (es @ [store_entry s line (rotation_receipt C (wc_Kid cfg) newKid (sk_pub incoming) der reason (ro_Now E))]) s'"
proof -
  note ready = assms(1) [unfolded warden_ready_def]
  obtain cfg' outgoing incoming der fs1 fs2 db1 s1 s' a where c:
    "rotate_prepare C W D E wd path newKid ttl = Inr (cfg', outgoing, incoming, der)"
    "store_Open C (config_Path cfg' (wc_Store cfg')) db (Some (private_signer C outgoing)) (wc_Kid cfg') (wc_ChainID cfg') (ro_Open E) = (db1, Inr s1)"
    "store_Rotate C s1 (rotation_receipt C (wc_Kid cfg') newKid (sk_pub incoming) der reason (ro_Now E))
       (Some (private_signer C incoming)) (ro_Rotate E) = (s', Inr a)" "db' = s_db s'"
    by (rule cmdRotateKey_Inr [OF assms(2)])
  note p = rotate_prepare_Inr [OF c(1)]
  have cfg': "cfg' = cfg" using p ready by simp
  note c = c [unfolded cfg'] and p = p [unfolded cfg']
  have kid: "value_ok newKid" using p by (auto simp: IssueKeyEpoch_def checkValue_def require_def split: if_splits)
  have s1: "s1 = s"
    using store_Open_again [of C es s "config_Path cfg (wc_Store cfg)" "ro_Open E" db1 s1] c(2) ready p by auto
  obtain sg line b where r: "s_key s' = Some (private_signer C incoming)" "s_kid s' = newKid" "s_chainID s' = s_chainID s"
    "Append C (s_app s) (rotation_receipt C (wc_Kid cfg) newKid (sk_pub incoming) der reason (ro_Now E)) = (b, Inr (sg, line))"
    "store_holds C (es @ [store_entry s line (rotation_receipt C (wc_Kid cfg) newKid (sk_pub incoming) der reason (ro_Now E))]) s'"
    using store_Rotate_cases [OF _ c(3) assms(3), of es] ready assms(4) utf8_valid_ascii [OF value_ok_ascii [OF kid]]
    by (auto simp: s1 rotation_receipt_def)
  obtain ca where "loadCA (w_x509 W) (w_pem W) (w_fs W) cfg = Inr ca" 
    "IssueKeyEpoch C (w_x509 W) (ro_Serial E) ca newKid (sk_pub incoming) (ro_Now E - 60 * ns_per_s) (ro_Now E + ttl) = Inr der"
    using p by blast
  moreover have "t newKid = None" "s_key s = Some (private_signer C outgoing)" "t (wc_Kid cfg) = Some (sk_pub outgoing)" using ready p by auto
  ultimately show ?thesis using that r c(4) kid p by blast
qed

text \<open>
  C12: Rotation keeps a log auditable: let an auditor who trusts the root certificate accept the log and know the outgoing key
  but no key under the incoming key ID, let the root be valid at the time of the rotation, and let the new certificate be
  given a life of at least one second (C13 shows what a shorter one can do). Then after \<open>rotate-key\<close> the same auditor accepts the longer
  log and from then on knows the incoming key, provided that the line written is within the scanner's limit.
\<close>

theorem rotation_keeps_log_verifiable:
  assumes "warden_ready C W D wd path db cfg t s es"
    and "cmdRotateKey C W D E wd path newKid reason ttl db = (fs', db', Inr n)"
    and "store_inv C (Rotating C (w_x509 W)) ks s es"
    and "key_accepted (Rotating C (w_x509 W)) ks [] es (wc_Kid cfg) pub" "t (wc_Kid cfg) = Some pub"
    and "loadCA (w_x509 W) (w_pem W) (w_fs W) cfg = Inr ca" "rot_roots ks = Some [ca_Cert ca]"
    and "rot_known (keys_after (Rotating C (w_x509 W)) ks es) newKid = None"
    and "x509_ok (w_x509 W) ca" "x_Parse (w_x509 W) (ca_Cert ca) = Some root" "valid_at root (ro_Now E - ro_Now E mod ns_per_ms)"
    and "0 \<le> ro_Now E" "ro_Now E < y10k" "ns_per_s \<le> ttl" "utf8_valid (wc_Kid cfg)" "utf8_valid reason"
    and "primitives_ok C" "jcs_ok (jcs C)"
  shows "\<exists>s' e pub'. s_db s' = db' \<and> store_holds C (es @ [e]) s' \<and> (plain_line (e_line e) \<longrightarrow> store_inv C (Rotating C (w_x509 W)) ks s' (es @ [e]) \<and>
     key_accepted (Rotating C (w_x509 W)) ks [] (es @ [e]) newKid pub' \<and>
     store_VerifyWithKeys C s' (Rotating C (w_x509 W)) ks =
       Inr (report_of C (wc_ChainID cfg) [] (es @ [e]), keys_after (Rotating C (w_x509 W)) ks (es @ [e])))"
proof -
  let ?K = "Rotating C (w_x509 W)" and ?at = "ro_Now E - ro_Now E mod ns_per_ms"
  note ready = assms(1) [unfolded warden_ready_def]
  have chain: "s_chainID s = wc_ChainID cfg" "utf8_valid (wc_ChainID cfg)" using ready assms(3) by (auto simp: store_inv_def)
  obtain ca' outgoing incoming der s' sg line a where c:
    "loadCA (w_x509 W) (w_pem W) (w_fs W) cfg = Inr ca'" "value_ok newKid" "t newKid = None"
    "IssueKeyEpoch C (w_x509 W) (ro_Serial E) ca' newKid (sk_pub incoming) (ro_Now E - 60 * ns_per_s) (ro_Now E + ttl) = Inr der"
    "GenerateKey C MLDSA65Ed25519 (ro_Seed E) = Inr incoming"
    "s_key s = Some (private_signer C outgoing)" "t (wc_Kid cfg) = Some (sk_pub outgoing)"
    "ReadComposite C (w_pem W) (w_fs W) (config_Path cfg (wc_ReceiptKey cfg)) = Inr outgoing"
    "Append C (s_app s) (rotation_receipt C (wc_Kid cfg) newKid (sk_pub incoming) der reason (ro_Now E)) = (a, Inr (sg, line))"
    "db' = s_db s'" "s_key s' = Some (private_signer C incoming)" "s_kid s' = newKid" "s_chainID s' = s_chainID s"
    "store_holds C (es @ [store_entry s line (rotation_receipt C (wc_Kid cfg) newKid (sk_pub incoming) der reason (ro_Now E))]) s'"
    by (rule cmdRotateKey_log [OF assms(1,2,18) chain(2)])
  let ?r = "rotation_receipt C (wc_Kid cfg) newKid (sk_pub incoming) der reason (ro_Now E)"
  let ?e = "store_entry s line ?r"
  note gp = generated_parses [OF assms(17) c(5)]
  have ts: "parse_ts (format_ts (ro_Now E)) = Some ?at" by (rule parse_format_ts [OF assms(12,13)])
  have time: "whole_s (ro_Now E - 60 * ns_per_s) \<le> ?at" "?at \<le> whole_s (ro_Now E + ttl)"
    using whole_s_near [of "ro_Now E - 60 * ns_per_s"] whole_s_near [of "ro_Now E + ttl"] ms_near [of "ro_Now E"] assms(14)
    by (simp_all add: ns_per_s_def ns_per_ms_def)
  have ca: "ca' = ca" using c(1) assms(6) by simp
  obtain ep where ep: "VerifyKeyEpoch C (w_x509 W) der [ca_Cert ca] ?at = Inr ep" "ke_Kid ep = newKid" "ke_Key ep = sk_pub incoming"
    using IssueKeyEpoch_VerifyKeyEpoch [OF c(4) [unfolded ca] assms(9-11) time gp(1,3,4)] by (auto simp: ca_Pool_def)
  have rx: "r_ts (e_rcpt ?e) = format_ts (ro_Now E)" "r_rotation (e_rcpt ?e) = Some \<lparr>rot_from = wc_Kid cfg, rot_to = newKid,
      rot_key = digest_SHA256 (sha256 C) (pub_Bytes (sk_pub incoming)), rot_certificate = b64_encode der, rot_reason = reason\<rparr>"
    "r_type (e_rcpt ?e) = TypeKeyRotation"
    by (simp_all add: rotation_receipt_def fill_def)
  obtain ks' where ks': "accept_rotation ?K (keys_after ?K ks es) (e_rcpt ?e) = Some ks'" "rot_known ks' newKid = Some (sk_pub incoming)"
    using rotation_accepted [OF ep _ assms(8) _ rx(2)] rx(1) ts assms(7) by (auto simp: rotating_roots)
  have kid: "ap_kid (s_app s) = wc_Kid cfg" "s_kid s = wc_Kid cfg" using ready by (auto simp: store_holds_def)
  have "file_signer C (private_signer C outgoing)"
    using c(8) assms(17) by (auto simp: file_signer_def ReadComposite_def)
  moreover have "body_admissible ?K ks es ?e"
    using ks'(1) rx kid by (simp add: body_admissible_def rotation_admissible_def receipt_consts)
  moreover have "receipt_utf8 (e_rcpt ?e)"
  proof -
    have "digest_Valid (ap_prev (s_app s))" "ap_chainID (s_app s) = s_chainID s"
      using ready by (auto simp: store_holds_def appender_ok_def appender_at_def)
    then show ?thesis
      using chain assms(15,16) utf8_valid_ascii [OF value_ok_ascii [OF c(2)]]
      by (simp add: receipt_utf8_def json_of_receipt_def receipt_members_def rotation_receipt_def fill_def json_of_rotation_def omit_ptr_def omit_str_def
          utf8_valid_ascii digest_Valid_ascii receipt_Domain_def receipt_consts)
  qed
  ultimately have h: "plain_line line \<Longrightarrow> honest C ?K ks s es ?e"
    using assms(4,5,15) c(6,7) kid by (auto simp: honest_def private_signer_def)
  have inv: "store_inv C ?K ks s' (es @ [?e])" if "plain_line line"
    using honest_extends [OF assms(3,18) c(9) h [OF that]] c(13,14) chain by (simp add: store_inv_def)
  have acc: "key_accepted ?K ks [] (es @ [?e]) newKid (sk_pub incoming)"
    using ks' rx(2) by (simp add: key_accepted_def keys_after_snoc signer_after_snoc Rotating_Resolve)
  show ?thesis
    using inv acc store_inv_verifies [OF inv] c(10,13,14) chain
    by (intro exI [of _ s'] exI [of _ ?e] exI [of _ "sk_pub incoming"]) simp
qed

section \<open>A certificate that has already expired\<close>

text \<open>A line fixes its receipt, whoever's key verifies it.\<close>

lemma receipt_Verify_same:
  assumes "receipt_Verify C p s = Inr r" "receipt_Verify C q s = Inr r'"
  shows "r = r'"
proof -
  have v: "b64_decode (s_payload s) = Some b" if "VerifyPayload C p s = Inr b" for p b
    using that by (auto simp: VerifyPayload_def split: if_splits)
  have "b = b'" if "VerifyPayload C p s = Inr b" "VerifyPayload C q s = Inr b'" for b b'
    using v [OF that(1)] v [OF that(2)] by simp
  with assms show ?thesis by (fastforce simp: receipt_Verify_Inr)
qed

lemma expired_epoch_refused:
  assumes "x509_ok X ca" "IssueKeyEpoch C X sn ca kid pub nb na = Inr der" "length (pk_ed pub) = 32" "whole_s na < at"
    and "\<And>roots us c. x_Verify X roots der at us \<Longrightarrow> x_Parse X der = Some c \<Longrightarrow> valid_at c at"
  shows "VerifyKeyEpoch C X der roots at \<notin> range Inr"
proof
  assume "VerifyKeyEpoch C X der roots at \<in> range Inr"
  then obtain cert vals where v: "cert_verify X der roots at PolicyKeyEpoch [UsageAny] [uriKid, uriEd25519] = Inr (cert, vals)"
    by (cases "cert_verify X der roots at PolicyKeyEpoch [UsageAny] [uriKid, uriEd25519]") (auto simp: VerifyKeyEpoch_def)
  have "ct_NotAfter cert = whole_s na"
    using cert_verify_Inr(1) [OF v] x509_okD(1) [OF assms(1) conjunct2 [OF IssueKeyEpoch_Inr [OF assms(2,3)]]] by auto
  with assms(5) [OF cert_verify_Inr(2,1) [OF v]] assms(4) v show False
    using cert_verify_Inr(1,2) [OF v] by (auto simp: valid_at_def)
qed

text \<open>
  C13: The command does not look at the life it gives the certificate: with one that ends before the timestamp of the
  receipt (no life, a negative one, or the rest of a second), the rotation succeeds, and the log never verifies again for
  an auditor who relies on the root, whatever keys they start from, whatever is appended and whatever checkpoints they hold.
\<close>

theorem short_certificate_breaks_log:
  assumes "warden_ready C W D wd path db cfg t s es"
    and "cmdRotateKey C W D E wd path newKid reason ttl db = (fs', db', Inr n)"
    and "loadCA (w_x509 W) (w_pem W) (w_fs W) cfg = Inr ca" "x509_ok (w_x509 W) ca"
    and "\<And>roots der us c. x_Verify (w_x509 W) roots der (ro_Now E - ro_Now E mod ns_per_ms) us \<Longrightarrow> x_Parse (w_x509 W) der = Some c \<Longrightarrow>
      valid_at c (ro_Now E - ro_Now E mod ns_per_ms)"
    and "0 \<le> ro_Now E" "ro_Now E < y10k" "whole_s (ro_Now E + ttl) < ro_Now E - ro_Now E mod ns_per_ms"
    and "primitives_ok C" "jcs_ok (jcs C)" "utf8_valid (wc_ChainID cfg)" "utf8_valid (wc_Kid cfg)" "utf8_valid reason"
    and "s_db s' = db'" "take (length es + 1) (fst (scan_lines log)) = store_lines s'"
  shows "VerifyAll C log chainID (Rotating C (w_x509 W)) ks cps revs \<notin> range Inr"
proof
  let ?K = "Rotating C (w_x509 W)" and ?at = "ro_Now E - ro_Now E mod ns_per_ms"
  assume "VerifyAll C log chainID ?K ks cps revs \<in> range Inr"
  then obtain es' where es': "scan_lines log = (map e_line es', False)" "log_ok C ?K ks chainID revs es'"
    by (auto simp: verified_log_def VerifyAll_Inr)
  obtain ca' outgoing incoming der s'' sg line a where c:
    "loadCA (w_x509 W) (w_pem W) (w_fs W) cfg = Inr ca'"
    "IssueKeyEpoch C (w_x509 W) (ro_Serial E) ca' newKid (sk_pub incoming) (ro_Now E - 60 * ns_per_s) (ro_Now E + ttl) = Inr der"
    "GenerateKey C MLDSA65Ed25519 (ro_Seed E) = Inr incoming" "value_ok newKid"
    "s_key s = Some (private_signer C outgoing)"
    "ReadComposite C (w_pem W) (w_fs W) (config_Path cfg (wc_ReceiptKey cfg)) = Inr outgoing"
    "Append C (s_app s) (rotation_receipt C (wc_Kid cfg) newKid (sk_pub incoming) der reason (ro_Now E)) = (a, Inr (sg, line))"
    "db' = s_db s''"
    "store_holds C (es @ [store_entry s line (rotation_receipt C (wc_Kid cfg) newKid (sk_pub incoming) der reason (ro_Now E))]) s''"
    by (rule cmdRotateKey_log [OF assms(1,2,10,11)])
  let ?r = "rotation_receipt C (wc_Kid cfg) newKid (sk_pub incoming) der reason (ro_Now E)"
  note gp = generated_parses [OF assms(9) c(3)]
  have ca: "ca' = ca" using c(1) assms(3) by simp
  note ready = assms(1) [unfolded warden_ready_def]
  have "store_lines s' = map e_line (es @ [store_entry s line ?r])"
    using c(8,9) assms(14) by (simp add: store_lines_def ordered_rows_def store_holds_def rows_of_lines)
  then have "take (length es + 1) (map e_line es') = map e_line es @ [line]" using assms(15) es'(1) by simp
  then have l: "take (length es + 1) (map e_line es') = map e_line es @ [line]" .
  then have "length (take (length es + 1) (map e_line es')) = length es + 1" by simp
  then have n1: "length es < length es'" by simp
  have "take (length es + 1) (map e_line es') ! length es = line" unfolding l by (simp add: nth_append)
  then have n: "length es < length es'" "e_line (es' ! length es) = line" using n1 by simp_all
  have adm: "admissible C ?K ks chainID revs (take (length es) es') (es' ! length es)" by (rule log_okD [OF es'(2) n(1)])
  obtain sg' where sg': "ParseLine C line = Inr sg'" "receipt_Verify C (e_pub (es' ! length es)) sg' = Inr (e_rcpt (es' ! length es))"
    using adm n(2) by (auto simp: admissible_def authentic_def)
  have app: "ap_key (s_app s) = Some (private_signer C outgoing)" "ap_kid (s_app s) = wc_Kid cfg" "digest_Valid (ap_prev (s_app s))"
    "ap_chainID (s_app s) = wc_ChainID cfg"
    using ready c(5) by (auto simp: store_holds_def appender_ok_def appender_at_def)
  have sign: "receipt_Sign C (Some (private_signer C outgoing)) (wc_Kid cfg) (fill (s_app s) ?r) = Inr sg" "signed_Line C sg = Inr line"
    using c(7) app by (auto simp: Append_Inr)
  have fs: "file_signer C (private_signer C outgoing)" using c(6) assms(9) by (auto simp: file_signer_def ReadComposite_def)
  have u: "receipt_utf8 (fill (s_app s) ?r)"
    using assms(11-13) app utf8_valid_ascii [OF value_ok_ascii [OF c(4)]]
    by (simp add: receipt_utf8_def json_of_receipt_def receipt_members_def rotation_receipt_def fill_def json_of_rotation_def omit_ptr_def omit_str_def
          utf8_valid_ascii digest_Valid_ascii receipt_Domain_def receipt_consts)
  have "receipt_Verify C (sk_pub outgoing) sg = Inr (fill (s_app s) ?r)"
    by (rule file_keys.receipt_Sign_verifies [OF fs assms(10,12) u sign(1)]) (simp add: private_signer_def)
  moreover have "sg' = sg" using signed_line_of_Sign [OF assms(10) sign] sg'(1) by simp
  ultimately have r: "e_rcpt (es' ! length es) = fill (s_app s) ?r" using receipt_Verify_same sg'(2) by blast
  have "accept_rotation ?K (keys_after ?K ks (take (length es) es')) (fill (s_app s) ?r) = None"
  proof (rule rotation_refused)
    show "VerifyKeyEpoch C (w_x509 W) der roots ?at \<notin> range Inr" for roots
      by (rule expired_epoch_refused [OF assms(4) c(2) [unfolded ca] gp(4) assms(8)]) (rule assms(5))
    show "parse_ts (r_ts (fill (s_app s) ?r)) = Some ?at" using parse_format_ts [OF assms(6,7)] by (simp add: rotation_receipt_def fill_def)
  qed (simp_all add: rotation_receipt_def fill_def, (simp only: rotation.simps)?)
  moreover have "r_type (fill (s_app s) ?r) = TypeKeyRotation" by (simp add: rotation_receipt_def)
  ultimately show False using adm by (simp add: admissible_def rotation_admissible_def r)
qed

end
