(* ===== verification/RotationWitnesses.thy ===== *)
theory RotationWitnesses
  imports RotationLog CheckpointWitnesses
begin

text \<open>
  \<open>rotate-key\<close> at work: a Warden with files for its root, its key and its configuration hands its empty log over to a
  second key, with a certificate that lasts, with one that does not, and with its certificate's name taken.
\<close>

section \<open>A Warden on disk\<close>

definition rot_root :: certificate where
  "rot_root = root_cert\<lparr>ct_NotAfter := t0\<rparr>"

definition rot_ca :: ca where
  "rot_ca = \<lparr>ca_Cert = ''der'', ca_Key = \<lparr>mk_seed = replicate 32 (CHR ''s''), mk_pub = toy_pub MLDSA65\<rparr>\<rparr>"

definition rot_tmpl :: "int \<Rightarrow> certificate" where
  "rot_tmpl ttl = leaf_template\<lparr>ct_CommonName := ''k2'', ct_NotBefore := t0 - 60 * ns_per_s, ct_NotAfter := t0 + ttl,
     ct_Policies := [PolicyKeyEpoch], ct_URIs := [urn uriKid ''k2'', urn uriEd25519 (b64_encode (pk_ed toy_public))], ct_Serial := 7\<rparr>"

definition rot_cert :: "int \<Rightarrow> certificate" where
  "rot_cert ttl = (rot_tmpl ttl)\<lparr>ct_SigAlg := ''ML-DSA-65'', ct_MLDSA := Some (toy_pub MLDSA65),
     ct_NotBefore := whole_s (t0 - 60 * ns_per_s), ct_NotAfter := whole_s (t0 + ttl)\<rparr>"

definition rot_X :: "int \<Rightarrow> x509" where
  "rot_X ttl = \<lparr>x_Parse = [''der'' \<mapsto> rot_root, ''der2'' \<mapsto> rot_cert ttl],
     x_Verify = (\<lambda>roots d at us. roots = [''der''] \<and> d = ''der2'' \<and> valid_at (rot_cert ttl) at), x_SelfSign = (\<lambda>_ _. None),
     x_Create = (\<lambda>tmpl ca pub. if tmpl = rot_tmpl ttl \<and> ca = rot_ca \<and> pub = toy_pub MLDSA65 then Some ''der2'' else None)\<rparr>"

lemma rot_X_ok: "x509_ok (rot_X ttl) rot_ca"
  by (simp add: x509_ok_def rot_X_def rot_ca_def) (simp add: rot_cert_def rot_tmpl_def)

definition rot_fs :: filesystem where
  "rot_fs = [''w.json'' \<mapsto> Regular 420 (MarshalIndent (json_of_config sample_durations sample_wc) @ [newline]),
     ''/keys.json'' \<mapsto> Regular 420 keys_file,
     ''/ck'' \<mapsto> Regular 384 (toy_encode \<lparr>pb_Type = privateKeyType, pb_Headers = [], pb_Bytes = replicate 32 (CHR ''s'') @ toy_pub MLDSA65\<rparr>),
     ''/ca'' \<mapsto> Regular 420 (toy_encode \<lparr>pb_Type = certificateType, pb_Headers = [], pb_Bytes = ''der''\<rparr>),
     ''/rk'' \<mapsto> Regular 384 (toy_encode \<lparr>pb_Type = CompositePEMType, pb_Headers = [], pb_Bytes = key_Seed toy_private\<rparr>)]"

definition rot_world :: "int \<Rightarrow> filesystem \<Rightarrow> fake_server world" where
  "rot_world ttl fs = sample_world\<lparr>w_fs := fs, w_x509 := rot_X ttl\<rparr>"

definition rot_env :: rotate_env where
  "rot_env = \<lparr>ro_Now = t0, ro_Seed = replicate 64 (CHR ''x''), ro_Serial = 7, ro_Umask = 0, ro_Key = IoDone, ro_Cert = IoDone,
     ro_RemoveKey = True, ro_RemoveCert = True, ro_Open = True, ro_Rotate = True, ro_Trust = True, ro_Config = True\<rparr>"

lemma rot_paths:
  "config_Path sample_wc ''ck'' = ''/ck''" "config_Path sample_wc ''ca'' = ''/ca''" "config_Path sample_wc ''rk'' = ''/rk''"
  "config_Path sample_wc ''db'' = ''/db''" "trustFile sample_wc = ''/keys.json''"
  "config_Path sample_wc (receipt_path ''k2'' ''.key'') = ''/pki/receipt-k2.key''"
  "config_Path sample_wc (receipt_path ''k2'' ''.pem'') = ''/pki/receipt-k2.pem''"
proof -
  have d: "wc_dir sample_wc = ''/''" by (simp add: sample_wc_def)
  have r: "receipt_path ''k2'' ''.key'' = ''pki/receipt-k2.key''" "receipt_path ''k2'' ''.pem'' = ''pki/receipt-k2.pem''" by code_simp+
  have "path_Join ''/'' ''ck'' = ''/ck''" "path_Join ''/'' ''ca'' = ''/ca''" "path_Join ''/'' ''rk'' = ''/rk''" "path_Join ''/'' ''db'' = ''/db''"
    "path_Join ''/'' ''keys.json'' = ''/keys.json''" "path_Join ''/'' ''pki/receipt-k2.key'' = ''/pki/receipt-k2.key''"
    "path_Join ''/'' ''pki/receipt-k2.pem'' = ''/pki/receipt-k2.pem''" by code_simp+
  then show "config_Path sample_wc ''ck'' = ''/ck''" "config_Path sample_wc ''ca'' = ''/ca''" "config_Path sample_wc ''rk'' = ''/rk''"
    "config_Path sample_wc ''db'' = ''/db''" "trustFile sample_wc = ''/keys.json''"
    "config_Path sample_wc (receipt_path ''k2'' ''.key'') = ''/pki/receipt-k2.key''"
    "config_Path sample_wc (receipt_path ''k2'' ''.pem'') = ''/pki/receipt-k2.pem''"
    by (simp_all add: config_Path_def d trustFile_def config_Dir_def r path_IsAbs_def)
qed

text \<open>File systems that have these files and maybe more.\<close>

lemma rot_reads:
  assumes "rot_fs \<subseteq>\<^sub>m fs"
  shows "fs ''w.json'' = Some (Regular 420 (MarshalIndent (json_of_config sample_durations sample_wc) @ [newline]))"
    "fs ''/keys.json'' = Some (Regular 420 keys_file)"
    "fs ''/ck'' = Some (Regular 384 (toy_encode \<lparr>pb_Type = privateKeyType, pb_Headers = [], pb_Bytes = replicate 32 (CHR ''s'') @ toy_pub MLDSA65\<rparr>))"
    "fs ''/ca'' = Some (Regular 420 (toy_encode \<lparr>pb_Type = certificateType, pb_Headers = [], pb_Bytes = ''der''\<rparr>))"
    "fs ''/rk'' = Some (Regular 384 (toy_encode \<lparr>pb_Type = CompositePEMType, pb_Headers = [], pb_Bytes = key_Seed toy_private\<rparr>))"
  using assms by (auto simp: map_le_def rot_fs_def dest: bspec split: if_splits)

lemma toy_readPEM:
  assumes "fs p = Some (Regular m (toy_encode \<lparr>pb_Type = t, pb_Headers = [], pb_Bytes = b\<rparr>))" "x \<Longrightarrow> and m 63 = 0"
  shows "readPEM toy_pem fs p t x = Inr b"
proof -
  have "toy_encode = pem_EncodeToMemory toy_pem" by (simp add: toy_pem_def)
  then show ?thesis
    using written_pem_read [where fs = fs and path = p, OF toy_pem_ok, of m t b x] assms by simp
qed

lemma rot_load:
  assumes "rot_fs \<subseteq>\<^sub>m fs"
  shows "config_Load (rot_world ttl fs) sample_durations ''/'' ''w.json'' = Inr sample_wc"
    "trustedKeys toy fs sample_wc = Inr [''k1'' \<mapsto> toy_public]"
    "loadCA (rot_X ttl) toy_pem fs sample_wc = Inr rot_ca"
    "ReadComposite toy toy_pem fs (config_Path sample_wc (wc_ReceiptKey sample_wc)) = Inr toy_private"
proof -
  note r = rot_reads [OF assms]
  show "config_Load (rot_world ttl fs) sample_durations ''/'' ''w.json'' = Inr sample_wc"
  proof (rule config_Load_saved [OF sample_durations_ok])
    show "json_ok (json_of_config sample_durations sample_wc)"
      using sample_config_json [of "''k1''" "''rk''" "[]"] by (simp add: sample_wc_def)
    show "os_ReadFile (w_fs (rot_world ttl fs)) ''w.json'' = Some (MarshalIndent (json_of_config sample_durations sample_wc) @ [newline])"
      by (rule os_ReadFile_regular) (simp add: rot_world_def r(1))
  qed (simp_all add: sample_dir, simp_all add: sample_wc_def config_savable_def with_defaults_def config_validate_def ns_per_s_def)
  have k: "keys_Parse toy keys_file = Inr [''k1'' \<mapsto> toy_public]"
    using trust_file_roundtrip_witness by (simp add: keys_file_def)
  show "trustedKeys toy fs sample_wc = Inr [''k1'' \<mapsto> toy_public]"
    using os_ReadFile_regular [where fs = fs and path = "''/keys.json''", OF r(2)] k by (simp add: trustedKeys_def rot_paths)
  have "ReadMLDSA toy_pem fs ''/ck'' = Inr (ca_Key rot_ca)"
    using toy_readPEM [where x = True and fs = fs, OF r(3)] by (simp add: ReadMLDSA_def) (simp add: toy_pem_def rot_ca_def toy_pub_def)
  moreover have "ReadCertificate (rot_X ttl) toy_pem fs ''/ca'' = Inr ''der''"
    using toy_readPEM [where x = False and fs = fs, OF r(4)] by (simp add: ReadCertificate_def rot_X_def)
  ultimately show "loadCA (rot_X ttl) toy_pem fs sample_wc = Inr rot_ca"
    using rot_paths(1,2) by (simp add: loadCA_def) (simp add: sample_wc_def rot_ca_def rot_X_def)
  have "key_Seed toy_private = replicate 64 (CHR ''x'')" by (simp add: key_Seed_def toy_private_def flip: replicate_add)
  then have "ReadComposite toy toy_pem fs ''/rk'' = Inr toy_private"
    using toy_readPEM [where x = True and fs = fs, OF r(5)] toy_private_new by (simp add: ReadComposite_def)
  then show "ReadComposite toy toy_pem fs (config_Path sample_wc (wc_ReceiptKey sample_wc)) = Inr toy_private"
    using rot_paths(3) by (simp add: sample_wc_def)
qed

lemma rot_world_simps [simp]:
  "w_fs (rot_world ttl fs) = fs" "w_x509 (rot_world ttl fs) = rot_X ttl" "w_pem (rot_world ttl fs) = toy_pem"
  by (simp_all add: rot_world_def sample_world_def)

lemma rot_prepared:
  assumes "rot_fs \<subseteq>\<^sub>m fs"
  shows "rotate_prepare toy (rot_world ttl fs) sample_durations rot_env ''/'' ''w.json'' ''k2'' ttl = Inr (sample_wc, toy_private, toy_private, ''der2'')"
proof -
  note l = rot_load [OF assms]
  have g: "GenerateKey toy MLDSA65Ed25519 (ro_Seed rot_env) = Inr toy_private"
    using toy_private_new by (simp add: GenerateKey_def rot_env_def)
  have pb: "take 1952 (pub_Bytes toy_public) = toy_pub MLDSA65" "drop 1952 (pub_Bytes toy_public) = pk_ed toy_public" "length (pub_Bytes toy_public) = 1984"
    by (simp_all add: pub_Bytes_def toy_public_def toy_pub_def)
  have "value_ok ''k2''" by code_simp
  then have "IssueKeyEpoch toy (rot_X ttl) 7 rot_ca ''k2'' toy_public (t0 - 60 * ns_per_s) (t0 + ttl) = Inr ''der2''"
    using pb by (simp add: IssueKeyEpoch_def checkValue_def Let_def ca_issue_def rot_X_def rot_tmpl_def) (simp add: toy_public_def toy_def MLDSA65Ed25519_def Alg_def)
  moreover have "wc_Kid sample_wc = ''k1''" by (simp add: sample_wc_def)
  ultimately show ?thesis using l g by (simp add: rotate_prepare_def) (simp add: rot_env_def toy_private_def)
qed

section \<open>The rotation\<close>

definition rot_receipt :: receipt where
  "rot_receipt = rotation_receipt toy ''k1'' ''k2'' toy_public ''der2'' [] t0"

lemma rot_receipt_written:
  assumes "sample_store [] s"
  shows "receipt_Validate (fill (s_app s) rot_receipt) = Inr ()" "receipt_utf8 (fill (s_app s) rot_receipt)"
    "weight (json_of_receipt (fill (s_app s) rot_receipt)) < 60000"
proof -
  note a = sample_store_app [OF assms]
  let ?r = "fill (s_app s) rot_receipt" and ?d = "digest_SHA256 (sha256 toy) (pub_Bytes toy_public)"
  have v: "valid_ts cp_ts" using sample_ts by (simp add: cp_ts_def)
  have d: "digest_Valid ?d" by simp
  obtain c where c: "c = b64_encode ''der2''" by blast
  have "b64_decode c = Some ''der2''" "utf8_valid c" unfolding c by (rule b64_decode_encode, rule utf8_valid_ascii [OF b64_encode_ascii])
  then have b: "c \<noteq> [] \<and> length c \<le> 9" "b64_decode c \<noteq> None" "utf8_valid c" using b64_length [of "''der2''"] c by auto
  have f: "r_type ?r = TypeKeyRotation" "r_chain_id ?r = ''c1''" "r_seq ?r = 0" "r_prev ?r = ap_prev (s_app s)" "r_ts ?r = cp_ts"
    "r_v ?r = 1" "r_domain ?r = receipt_Domain" "r_task_id ?r = []" "r_actor ?r = None" "r_call ?r = None" "r_decision ?r = None"
    "r_result ?r = None" "r_approval ?r = None"
    "r_rotation ?r = Some \<lparr>rot_from = ''k1'', rot_to = ''k2'', rot_key = ?d, rot_certificate = c, rot_reason = []\<rparr>"
    using a format_t0(1) unfolding c by (simp_all add: rot_receipt_def rotation_receipt_def fill_def receipt_Version_def)
  have "header_ok ?r" unfolding header_ok_def f using a(6) v by (simp add: id_ok_ascii)
  moreover have "rotation_ok ?r \<lparr>rot_from = ''k1'', rot_to = ''k2'', rot_key = ?d, rot_certificate = c, rot_reason = []\<rparr>"
    unfolding rotation_ok_def f using d b by (simp add: id_ok_ascii)
  ultimately show "receipt_Validate ?r = Inr ()" using Validate_rotation [OF f(1)] by blast
  have ts: "ascii cp_ts" "length cp_ts = 24" by (simp_all add: cp_ts_def)
  show "receipt_utf8 ?r"
    unfolding receipt_utf8_def json_of_receipt_def receipt_members_def f
    using digest_Valid_ascii [OF a(6)] digest_Valid_ascii [OF d] ts b
    by (simp add: json_of_defs json_of_rotation_def utf8_valid_ascii receipt_Domain_def receipt_consts)
  have "length (show_int 0) = 1" "length (show_int 1) = 1" by code_simp+
  then show "weight (json_of_receipt ?r) < 60000"
    unfolding json_of_receipt_def receipt_members_def f
    using digest_Valid_length [OF a(6)] digest_Valid_length [OF d] ts b
    by (simp add: json_of_defs json_of_rotation_def receipt_Domain_def receipt_consts)
qed

lemma rot_Append:
  assumes "sample_store [] s"
  shows "\<exists>a sg line. Append toy (s_app s) rot_receipt = (a, Inr (sg, line)) \<and> plain_line line"
proof -
  note a = sample_store_app [OF assms]
  obtain app sg line where ap: "Append toy (s_app s) rot_receipt = (app, Inr (sg, line))"
    using file_keys.Append_succeeds [OF a(1) toy_signer_ok, of toy_public rot_receipt] a rot_receipt_written [OF assms] toy_ok
    by (auto simp: id_ok_ascii utf8_valid_ascii last_ts_def)
  from line_plain [OF ap a(1,2) rot_receipt_written(2,3) [OF assms]] ap show ?thesis by blast
qed

lemma rot_ready:
  assumes "sample_store es s" "rot_fs \<subseteq>\<^sub>m fs"
  shows "warden_ready toy (rot_world ttl fs) sample_durations ''/'' ''w.json'' (s_db s) sample_wc [''k1'' \<mapsto> toy_public] s es"
proof -
  have "wc_Kid sample_wc = ''k1''" "wc_ChainID sample_wc = ''c1''" by (simp_all add: sample_wc_def)
  moreover have "sk_pub toy_private = toy_public" by (simp add: toy_private_def)
  ultimately show ?thesis
    using rot_load [OF assms(2)] assms(1) by (simp add: warden_ready_def sample_store_def toy_signer_def)
qed

lemma rot_new_files:
  "rot_fs ''/pki/receipt-k2.key'' = None" "rot_fs ''/pki/receipt-k2.pem'' = None"
  by (simp_all add: rot_fs_def)

lemma unmarshal_set_of: "json_ok (json_of_set (Some ks)) \<Longrightarrow> unmarshal_set (marshal (json_of_set (Some ks))) = Some ks"
proof -
  assume "json_ok (json_of_set (Some ks))"
  moreover obtain f where f: "fields_of [''keys''] (json_of_set (Some ks)) = Some f" "get_arr dec_jwk f ''keys'' = Some (Some ks)"
    using dec_set_of [of ks] by (auto simp: dec_set_def bind_eq_Some_conv)
  moreover have "get_arr loose_jwk f ''keys'' = Some (Some ks)" by (rule get_arr_mono [OF f(2)]) (rule loose_jwk_strict)
  ultimately show ?thesis using loose_fields_strict [OF f(1)] by (simp add: unmarshal_set_def unmarshal_marshal)
qed

lemma toy_jwk_text: "ascii kid \<Longrightarrow> jwk_text (PublicJWK kid toy_public)"
  by (simp add: jwk_text_def PublicJWK_def KeyType_def utf8_valid_ascii Alg_def)

lemma rot_finish:
  assumes "rot_fs \<subseteq>\<^sub>m fs"
  shows "\<exists>fs'. rotate_finish toy sample_durations rot_env ''w.json'' sample_wc ''k2'' toy_public fs = (fs', Inr ())"
proof -
  let ?ks = "[PublicJWK ''k1'' toy_public]"
  have "json_ok (json_of_set (Some ?ks))" by (rule jwk_text_json) (simp add: toy_jwk_text)
  then have u: "unmarshal_set keys_file = Some ?ks" by (simp only: keys_file_def unmarshal_set_of)
  have "efold (add_key toy) Map.empty (?ks @ [PublicJWK ''k2'' toy_public]) = Inr [''k1'' \<mapsto> toy_public, ''k2'' \<mapsto> toy_public]"
    using toy_public_parses by (simp add: add_key_def PublicJWK_def b64_decode_encode)
  then have k: "keys_Parse toy (MarshalIndent (json_of_set (Some (?ks @ [PublicJWK ''k2'' toy_public])))) = Inr [''k1'' \<mapsto> toy_public, ''k2'' \<mapsto> toy_public]"
    using keys_Parse_written [of "?ks @ [PublicJWK ''k2'' toy_public]" "[]" toy] by (simp add: toy_jwk_text)
  have j: "jwk_Kid (PublicJWK ''k1'' toy_public) \<noteq> ''k2''" by (simp add: PublicJWK_def)
  note o = os_ReadFile_regular [where fs = fs and path = "''/keys.json''", OF rot_reads(2) [OF assms]]
  show ?thesis
    using o u k j by (simp add: rotate_finish_def addTrustedKey_def rot_paths Let_def replace_file_def saveConfig_def)
      (simp add: rot_env_def)
qed

lemma rot_fs_le: "rot_fs \<subseteq>\<^sub>m rot_fs(''/pki/receipt-k2.key'' \<mapsto> n1, ''/pki/receipt-k2.pem'' \<mapsto> n2)"
  "rot_fs \<subseteq>\<^sub>m rot_fs(''/pki/receipt-k2.pem'' \<mapsto> n2)"
  using rot_new_files by (auto simp: map_le_def dom_def)

lemma rot_run:
  assumes "sample_store [] s"
  shows "\<exists>fs' s' e. cmdRotateKey toy (rot_world ttl rot_fs) sample_durations rot_env ''/'' ''w.json'' ''k2'' [] ttl (s_db s) = (fs', s_db s', Inr 0) \<and>
    store_holds toy [e] s' \<and> plain_line (e_line e)"
proof -
  have s: "store_holds toy [] s" "s_key s = Some (private_signer toy toy_private)" "s_kid s = ''k1''" "s_chainID s = ''c1''"
    using assms by (simp_all add: sample_store_def toy_signer_def)
  have w: "wc_Kid sample_wc = ''k1''" "wc_ChainID sample_wc = ''c1''" "wc_Store sample_wc = ''db''" by (simp_all add: sample_wc_def)
  have pk: "sk_pub toy_private = toy_public" by (simp add: toy_private_def)
  note pr = rot_prepared [of rot_fs ttl, OF map_le_refl]
  obtain n1 where k: "WriteComposite toy_pem rot_fs ''/pki/receipt-k2.key'' toy_private (ro_Umask rot_env) (ro_Key rot_env) =
      (rot_fs(''/pki/receipt-k2.key'' \<mapsto> n1), Inr ())"
    by (simp add: WriteComposite_def writeNew_def rot_new_files) (simp add: rot_env_def)
  obtain n2 where c: "WriteCertificate (rot_X ttl) toy_pem (rot_fs(''/pki/receipt-k2.key'' \<mapsto> n1)) ''/pki/receipt-k2.pem'' ''der2'' (ro_Umask rot_env) (ro_Cert rot_env) =
      (rot_fs(''/pki/receipt-k2.key'' \<mapsto> n1, ''/pki/receipt-k2.pem'' \<mapsto> n2), Inr ())"
    by (simp add: WriteCertificate_def writeNew_def rot_new_files rot_X_def) (simp add: rot_env_def)
  have o: "store_Open toy ''/db'' (s_db s) (Some (private_signer toy toy_private)) ''k1'' ''c1'' (ro_Open rot_env) = (s_db s, Inr s)"
    using store_init_again [OF s(1), of True] by (simp add: store_Open_def s(2-4)) (simp add: rot_env_def)
  obtain a sg line where ap: "Append toy (s_app s) rot_receipt = (a, Inr (sg, line))" "plain_line line" using rot_Append [OF assms] by blast
  let ?rot = "\<lparr>rot_from = ''k1'', rot_to = ''k2'', rot_key = digest_SHA256 (sha256 toy) (pub_Bytes toy_public), rot_certificate = b64_encode ''der2'', rot_reason = []\<rparr>"
  have rr: "r_rotation rot_receipt = Some ?rot" "r_type rot_receipt = TypeKeyRotation" by (simp_all add: rot_receipt_def rotation_receipt_def)
  obtain s' where r: "store_Rotate toy s rot_receipt (Some (private_signer toy toy_private)) True = (s',
        Inr \<lparr>ap_Seq = int (length ([] :: entry list)), ap_Hash = digest_SHA256 (sha256 toy) line, ap_Line = line, ap_Signed = sg\<rparr>)"
    "store_holds toy ([] @ [store_entry s line rot_receipt]) s'"
    using store_Rotate_eq [OF s(1) toy_ok(2) _ _ rr _ _ _ ap(1), of "Some (private_signer toy toy_private)" toy_public True]
    by (auto simp: s utf8_valid_ascii signer_public_def private_signer_def pk)
  obtain fs' where f: "rotate_finish toy sample_durations rot_env ''w.json'' sample_wc ''k2'' toy_public
      (rot_fs(''/pki/receipt-k2.key'' \<mapsto> n1, ''/pki/receipt-k2.pem'' \<mapsto> n2)) = (fs', Inr ())"
    using rot_finish [where fs = "rot_fs(''/pki/receipt-k2.key'' \<mapsto> n1, ''/pki/receipt-k2.pem'' \<mapsto> n2)", OF rot_fs_le(1)] by blast
  have e: "ro_Rotate rot_env" "ro_Now rot_env = t0" by (simp_all add: rot_env_def)
  have "cmdRotateKey toy (rot_world ttl rot_fs) sample_durations rot_env ''/'' ''w.json'' ''k2'' [] ttl (s_db s) = (fs', s_db s', Inr 0)"
    using k c o r(1) f e by (simp add: cmdRotateKey_def pr rot_paths w pk Let_def flip: rot_receipt_def)
  then show ?thesis using r(2) ap(2) by (intro exI [of _ fs'] exI [of _ s'] exI [of _ "store_entry s line rot_receipt"]) simp
qed

section \<open>The theorems\<close>

lemma rot_utf8: "utf8_valid (wc_ChainID sample_wc)" "utf8_valid (wc_Kid sample_wc)" "wc_Kid sample_wc = ''k1''" "wc_ChainID sample_wc = ''c1''"
  by (simp_all add: sample_wc_def utf8_valid_ascii)

lemma rot_config_json: "json_ok (json_of_config sample_durations (rotated_config sample_wc ''k2''))"
proof -
  have r: "receipt_path ''k2'' ''.key'' = ''pki/receipt-k2.key''" "receipt_path ''k2'' ''.pem'' = ''pki/receipt-k2.pem''" by code_simp+
  show ?thesis
    using sample_config_json [of "''k2''" "''pki/receipt-k2.key''" "''pki/receipt-k2.pem''"] by (simp add: rotated_config_def r sample_wc_def)
qed

theorem rotated_warden_ready_witness:
  "\<exists>fs' db' pub s' e. warden_ready toy ((rot_world ns_per_s rot_fs)\<lparr>w_fs := fs'\<rparr>) sample_durations ''/'' ''w.json'' db'
     (rotated_config sample_wc ''k2'') [''k1'' \<mapsto> toy_public, ''k2'' \<mapsto> pub] s' [e] \<and> r_type (e_rcpt e) = TypeKeyRotation \<and> e_kid e = ''k1''"
proof -
  obtain s where s: "sample_store [] s" using toy_store by blast
  obtain fs' and s' :: store where r: "cmdRotateKey toy (rot_world ns_per_s rot_fs) sample_durations rot_env ''/'' ''w.json'' ''k2'' [] ns_per_s (s_db s) =
      (fs', s_db s', Inr 0)" using rot_run [OF s] by blast
  have "trustFile sample_wc \<noteq> ''w.json''" by (simp add: rot_paths)
  then have "\<exists>pub s2 e. warden_ready toy ((rot_world ns_per_s rot_fs)\<lparr>w_fs := fs'\<rparr>) sample_durations ''/'' ''w.json'' (s_db s')
     (rotated_config sample_wc ''k2'') [''k1'' \<mapsto> toy_public, ''k2'' \<mapsto> pub] s2 [e] \<and> r_type (e_rcpt e) = TypeKeyRotation \<and> e_kid e = ''k1''"
    using rotated_warden_ready [OF rot_ready [OF s map_le_refl] r sample_durations_ok _ toy_ok(2) _ _ rot_utf8(1) rot_config_json]
    by (auto simp: toy_ok toy_pem_ok rot_utf8)
  then show ?thesis by blast
qed

theorem failed_rotation_undone_witness:
  "\<exists>s fs' db' e. sample_store [] s \<and> cmdRotateKey toy (rot_world ns_per_s rot_fs) sample_durations (rot_env\<lparr>ro_Cert := IoOpen\<rparr>)
     ''/'' ''w.json'' ''k2'' [] ns_per_s (s_db s) = (fs', db', Inl e) \<and> fs' = rot_fs \<and> db' = s_db s"
proof -
  let ?E = "rot_env\<lparr>ro_Cert := IoOpen\<rparr>"
  obtain s where s: "sample_store [] s" using toy_store by blast
  have pr: "rotate_prepare toy (rot_world ns_per_s rot_fs) sample_durations ?E ''/'' ''w.json'' ''k2'' ns_per_s = Inr (sample_wc, toy_private, toy_private, ''der2'')"
    using rot_prepared [of rot_fs ns_per_s, OF map_le_refl] by (simp add: rotate_prepare_def)
  obtain n1 where k: "WriteComposite toy_pem rot_fs ''/pki/receipt-k2.key'' toy_private (ro_Umask ?E) (ro_Key ?E) =
      (rot_fs(''/pki/receipt-k2.key'' \<mapsto> n1), Inr ())"
    by (simp add: WriteComposite_def writeNew_def rot_new_files) (simp add: rot_env_def)
  obtain e1 where c: "WriteCertificate (rot_X ns_per_s) toy_pem (rot_fs(''/pki/receipt-k2.key'' \<mapsto> n1)) ''/pki/receipt-k2.pem'' ''der2'' (ro_Umask ?E) (ro_Cert ?E) =
      (rot_fs(''/pki/receipt-k2.key'' \<mapsto> n1), Inl e1)"
    by (simp add: WriteCertificate_def writeNew_def rot_new_files rot_X_def)
  obtain fs' db' e where r: "cmdRotateKey toy (rot_world ns_per_s rot_fs) sample_durations ?E ''/'' ''w.json'' ''k2'' [] ns_per_s (s_db s) = (fs', db', Inl e)"
    "e \<in> range KeyFile"
    using k c by (simp add: cmdRotateKey_def pr rot_paths Let_def)
  have "fs' = w_fs (rot_world ns_per_s rot_fs) \<and> db' = s_db s"
    by (rule failed_rotation_undone [OF rot_ready [OF s map_le_refl] r(1) _ _ toy_ok(2) rot_utf8(1)])
      (use r(2) in \<open>auto simp: rot_paths rot_new_files rot_env_def\<close>)
  then show ?thesis using s r by auto
qed

theorem failed_rotation_removes_certificate_witness:
  "\<exists>fs'. cmdRotateKey toy (rot_world ns_per_s (rot_fs(''/pki/receipt-k2.pem'' \<mapsto> Regular 420 ''old''))) sample_durations rot_env
     ''/'' ''w.json'' ''k2'' [] ns_per_s empty_db = (fs', empty_db, Inl (KeyFile ErrExists)) \<and> fs' ''/pki/receipt-k2.pem'' = None"
proof -
  have "\<exists>fs'. cmdRotateKey toy (rot_world ns_per_s (rot_fs(''/pki/receipt-k2.pem'' \<mapsto> Regular 420 ''old''))) sample_durations rot_env
     ''/'' ''w.json'' ''k2'' [] ns_per_s empty_db = (fs', empty_db, Inl (KeyFile ErrExists)) \<and>
     fs' (config_Path sample_wc (receipt_path ''k2'' ''.pem'')) = None"
    by (rule failed_rotation_removes_certificate [OF rot_prepared [OF rot_fs_le(2)]])
      (simp_all add: rot_paths rot_new_files, simp_all add: rot_env_def rot_X_def)
  then show ?thesis by (simp add: rot_paths)
qed

text \<open>One second past the start of \<open>t0\<close>'s millisecond.\<close>

lemma t0_ms: "t0 - t0 mod ns_per_ms = t0" "whole_s t0 = t0" by code_simp+

definition rot_ks :: rotating where
  "rot_ks = NewRotating [''k1'' \<mapsto> toy_public] (Some [''der''])"

theorem rotation_keeps_log_verifiable_witness:
  "\<exists>s db s' e pub. sample_store [] s \<and> s_db s' = db \<and> store_holds toy [e] s' \<and>
     store_VerifyWithKeys toy s' (Rotating toy (rot_X ns_per_s)) rot_ks =
       Inr (report_of toy ''c1'' [] [e], keys_after (Rotating toy (rot_X ns_per_s)) rot_ks [e]) \<and>
     key_accepted (Rotating toy (rot_X ns_per_s)) rot_ks [] [e] ''k2'' pub"
proof -
  let ?W = "rot_world ns_per_s rot_fs" and ?K = "Rotating toy (rot_X ns_per_s)"
  obtain s where s: "sample_store [] s" using toy_store by blast
  obtain fs' s1 e1 where r: "cmdRotateKey toy ?W sample_durations rot_env ''/'' ''w.json'' ''k2'' [] ns_per_s (s_db s) = (fs', s_db s1, Inr 0)"
    "store_holds toy [e1] s1" "plain_line (e_line e1)" using rot_run [OF s] by blast
  have inv: "store_inv toy (Rotating toy (w_x509 ?W)) rot_ks s []"
    using s by (simp add: store_inv_def sample_store_def utf8_valid_ascii)
  have acc: "key_accepted (Rotating toy (w_x509 ?W)) rot_ks [] [] (wc_Kid sample_wc) toy_public"
    by (simp add: key_accepted_def keys_after_def rot_ks_def NewRotating_def Rotating_Resolve rot_utf8)
  have root: "x_Parse (w_x509 ?W) (ca_Cert rot_ca) = Some rot_root" "valid_at rot_root (ro_Now rot_env - ro_Now rot_env mod ns_per_ms)"
    "x509_ok (w_x509 ?W) rot_ca"
  proof -
    have "ct_NotBefore rot_root = 0" "ct_NotAfter rot_root = t0" by (simp_all add: rot_root_def root_cert_def leaf_template_def)
    then show "valid_at rot_root (ro_Now rot_env - ro_Now rot_env mod ns_per_ms)" using format_t0(2) by (simp add: valid_at_def rot_env_def t0_ms)
  qed (use rot_X_ok in \<open>simp_all add: rot_X_def rot_ca_def\<close>)
  have ca: "loadCA (w_x509 ?W) (w_pem ?W) (w_fs ?W) sample_wc = Inr rot_ca"
    using rot_load(3) [of rot_fs ns_per_s, OF map_le_refl] by simp
  have ks: "rot_roots rot_ks = Some [ca_Cert rot_ca]" "rot_known (keys_after (Rotating toy (w_x509 ?W)) rot_ks []) ''k2'' = None"
    by (simp_all add: rot_ks_def NewRotating_def rot_ca_def keys_after_def)
  have now: "0 \<le> ro_Now rot_env" "ro_Now rot_env < y10k" using format_t0 by (simp_all add: rot_env_def)
  have kid: "[''k1'' \<mapsto> toy_public] (wc_Kid sample_wc) = Some toy_public" "utf8_valid []" by (simp_all add: rot_utf8)
  note th = rotation_keeps_log_verifiable [OF rot_ready [OF s map_le_refl] r(1) inv acc kid(1) ca ks root(3,1,2) now order_refl rot_utf8(2) kid(2) toy_ok(1,2)]
  obtain s' e pub where w: "s_db s' = s_db s1" "store_holds toy [e] s'"
    "plain_line (e_line e) \<Longrightarrow> key_accepted ?K rot_ks [] [e] ''k2'' pub \<and>
       store_VerifyWithKeys toy s' ?K rot_ks = Inr (report_of toy (wc_ChainID sample_wc) [] [e], keys_after ?K rot_ks [e])"
    using th by auto
  have "plain_line (e_line e)"
    using w(1,2) r(2,3) by (auto simp: store_holds_def rows_of_def row_of_def)
  then show ?thesis using s w rot_utf8 by auto
qed

theorem short_certificate_breaks_log_witness:
  "\<exists>s log s'. sample_store [] s \<and> store_holds toy [] s \<and> length (fst (scan_lines log)) = 1 \<and> store_lines s' = fst (scan_lines log) \<and>
     VerifyAll toy log ''c1'' (Rotating toy (rot_X (- ns_per_s))) rot_ks [] [] \<notin> range Inr"
proof -
  let ?W = "rot_world (- ns_per_s) rot_fs"
  obtain s where s: "sample_store [] s" using toy_store by blast
  obtain fs' s1 e1 where r: "cmdRotateKey toy ?W sample_durations rot_env ''/'' ''w.json'' ''k2'' [] (- ns_per_s) (s_db s) = (fs', s_db s1, Inr 0)"
    "store_holds toy [e1] s1" "plain_line (e_line e1)" using rot_run [OF s] by blast
  let ?log = "unlines [e_line e1]"
  have l: "scan_lines ?log = ([e_line e1], False)" using r(3) by (simp add: scan_unlines)
  have sl: "store_lines s1 = [e_line e1]"
    using r(2) by (simp add: store_lines_def ordered_rows_def store_holds_def rows_of_lines)
  have ca: "loadCA (w_x509 ?W) (w_pem ?W) (w_fs ?W) sample_wc = Inr rot_ca"
    using rot_load(3) [of rot_fs "- ns_per_s", OF map_le_refl] by simp
  have x: "x509_ok (w_x509 ?W) rot_ca" using rot_X_ok by simp
  have v: "valid_at c (ro_Now rot_env - ro_Now rot_env mod ns_per_ms)"
    if "x_Verify (w_x509 ?W) roots der (ro_Now rot_env - ro_Now rot_env mod ns_per_ms) us" "x_Parse (w_x509 ?W) der = Some c" for roots der us c
    using that by (auto simp: rot_X_def split: if_splits)
  have "whole_s (t0 + - ns_per_s) < t0 - t0 mod ns_per_ms" by code_simp
  then have sh: "whole_s (ro_Now rot_env + - ns_per_s) < ro_Now rot_env - ro_Now rot_env mod ns_per_ms" by (simp add: rot_env_def)
  have now: "0 \<le> ro_Now rot_env" "ro_Now rot_env < y10k" using format_t0 by (simp_all add: rot_env_def)
  have "VerifyAll toy ?log ''c1'' (Rotating toy (w_x509 ?W)) rot_ks [] [] \<notin> range Inr"
    by (rule short_certificate_breaks_log [OF rot_ready [OF s map_le_refl] r(1) ca x v now sh _ toy_ok(2) rot_utf8(1,2) _ refl])
      (simp_all add: l sl toy_ok)
  then show ?thesis using s l sl by (intro exI [of _ s] exI [of _ ?log] exI [of _ s1]) (simp add: sample_store_def)
qed

end
