(* ===== verification/Admin.thy ===== *)
theory Admin
  imports Rotation Revocation Upstream Checkpointer ApproverApi
begin

text \<open>
  The administrative commands of \<open>cmd/warden\<close> (\<open>admin.go\<close>, \<open>revoke-key\<close> of \<open>rotate.go\<close>, \<open>approve\<close> of \<open>clients.go\<close>,
  the exit status of \<open>main.go\<close>) and what \<open>serve.go\<close> reads with them.  A command is a function from the files, the
  tables where it opens them, its flags and what the operating system answers.
\<close>

section \<open>Reading\<close>

datatype admin_error =
  Command command_error
| MissingFlags
| UnknownKid
| AnchorRead
| AnchorRefused checkpoint_error
| NoCheckpoints
| NoSuchSize
| RevocationRefused revocation_error
| NotConfirmed
| NotPublished
| SetSyntax
| ApproverExists
| SetRefused keys_error
| BrokerRead
| BrokerRefused broker_error
| ServersRefused upstream_error
| PinsRefused registry_error
| ReceiptCertificate identity_error
| ReceiptMismatch
| ApproverClient client_error
| NoSuchDecision

definition splitList :: "string \<Rightarrow> string list" where
  "splitList s = filter (\<lambda>v. v \<noteq> []) (map trim_space (split_on (CHR '','') s))"

text \<open>Where opening a path for writing arrives, through at most forty symbolic links.\<close>

fun link_target :: "nat \<Rightarrow> filesystem \<Rightarrow> string \<Rightarrow> string option" where
  "link_target 0 fs path = None"
| "link_target (Suc n) fs path = (case fs path of Some (Symlink t) \<Rightarrow> link_target n fs t | _ \<Rightarrow> Some path)"

definition read_file :: "filesystem \<Rightarrow> string \<Rightarrow> file_data" where
  "read_file fs path = (case link_target 41 fs path of None \<Rightarrow> Unreadable
     | Some q \<Rightarrow> (case fs q of None \<Rightarrow> Missing | Some (Regular _ b) \<Rightarrow> Content b | Some _ \<Rightarrow> Unreadable))"

lemma follow_link_target: "follow n fs p = (case link_target n fs p of None \<Rightarrow> None | Some q \<Rightarrow> fs q)"
  by (induction n fs p rule: follow.induct) (auto split: option.splits node.splits)

lemma read_file_content: "read_file fs p = Content b \<longleftrightarrow> os_ReadFile fs p = Some b"
  unfolding read_file_def os_ReadFile_def follow_link_target by (auto split: option.splits node.splits)

lemma read_file_regular: "fs p = Some (Regular m b) \<Longrightarrow> read_file fs p = Content b"
  by (simp add: read_file_content os_ReadFile_regular)

definition loadApprovers :: "'x crypto_scheme \<Rightarrow> filesystem \<Rightarrow> string \<Rightarrow> admin_error + key_resolver" where
  "loadApprovers C fs path = (case read_file fs path of
     Missing \<Rightarrow> Inr (\<lambda>_. None)
   | Unreadable \<Rightarrow> Inl (Command TrustRead)
   | Content data \<Rightarrow> ebind (map_err SetRefused (keys_Parse C data)) (\<lambda>t. Inr (Resolver t)))"

definition secret_files :: "filesystem \<Rightarrow> string \<Rightarrow> string \<rightharpoonup> file_info" where
  "secret_files fs dir name = map_option (\<lambda>n. case n of
       Regular m b \<Rightarrow> \<lparr>fi_regular = True, fi_perm = and m 511, fi_size = int (length b), fi_content = Some b\<rparr>
     | Irregular m \<Rightarrow> \<lparr>fi_regular = False, fi_perm = and m 511, fi_size = 0, fi_content = None\<rparr>
     | Symlink t \<Rightarrow> \<lparr>fi_regular = False, fi_perm = 511, fi_size = int (length t), fi_content = None\<rparr>) (fs (path_Join dir name))"

definition loadBroker :: "(string \<rightharpoonup> bytes) \<Rightarrow> filesystem \<Rightarrow> config \<Rightarrow> admin_error + broker" where
  "loadBroker env fs cfg =
     ebind (of_option BrokerRead (os_ReadFile fs (config_Path cfg (wc_Broker cfg)))) (\<lambda>data.
     map_err BrokerRefused (broker_Load data \<lparr>src_LookupEnv = env, src_Dir = config_Path cfg (wc_SecretsDir cfg),
       src_File = secret_files fs (config_Path cfg (wc_SecretsDir cfg))\<rparr>))"

definition upstreamServers :: "config \<Rightarrow> tool_server list \<times> string list" where
  "upstreamServers cfg = (let ss = (case wc_Servers cfg of None \<Rightarrow> [] | Some l \<Rightarrow> l) in
     (map (\<lambda>s. \<lparr>sv_Name = sn_Name s, sv_URL = sn_URL s, sv_Command = sn_Command s\<rparr>) ss, map sn_Name ss))"

text \<open>The first things \<open>serve\<close> reads, up to the receipt key that it signs with: its certificate, if there is one, must be of this key under this key ID.\<close>

definition serve_key :: "'x crypto_scheme \<Rightarrow> 'st world \<Rightarrow> config \<Rightarrow> time \<Rightarrow> admin_error + private_key" where
  "serve_key C W cfg now =
     ebind (map_err (\<lambda>e. Command (KeyFile e)) (ReadCertificate (w_x509 W) (w_pem W) (w_fs W) (config_Path cfg (tf_CACert (wc_TLS cfg))))) (\<lambda>caDER.
     ebind (map_err (\<lambda>e. Command (KeyFile e)) (ReadMLDSA (w_pem W) (w_fs W) (config_Path cfg (tf_ServerKey (wc_TLS cfg))))) (\<lambda>_.
     ebind (map_err (\<lambda>e. Command (KeyFile e)) (ReadCertificate (w_x509 W) (w_pem W) (w_fs W) (config_Path cfg (tf_ServerCert (wc_TLS cfg))))) (\<lambda>_.
     ebind (map_err (\<lambda>e. Command (KeyFile e)) (ReadComposite C (w_pem W) (w_fs W) (config_Path cfg (wc_ReceiptKey cfg)))) (\<lambda>k.
     if wc_ReceiptCert cfg = [] then Inr k
     else ebind (map_err (\<lambda>e. Command (KeyFile e)) (ReadCertificate (w_x509 W) (w_pem W) (w_fs W) (config_Path cfg (wc_ReceiptCert cfg)))) (\<lambda>der.
       ebind (map_err ReceiptCertificate (VerifyKeyEpoch C (w_x509 W) der [caDER] now)) (\<lambda>ep.
       if ke_Kid ep \<noteq> wc_Kid cfg \<or> pub_Bytes (ke_Key ep) \<noteq> pub_Bytes (sk_pub k) then Inl ReceiptMismatch else Inr k))))))"

section \<open>Commands\<close>

record admin_env =
  ad_Now :: time
  ad_Seed :: bytes
  ad_Serial :: int
  ad_Umask :: "32 word"
  ad_Key :: io_outcome
  ad_Cert :: io_outcome
  ad_Replace :: bool
  ad_Open :: bool
  ad_Write :: "nat option"

definition cmdAddApprover ::
  "'x crypto_scheme \<Rightarrow> 'st world \<Rightarrow> durations \<Rightarrow> admin_env \<Rightarrow> string \<Rightarrow> string \<Rightarrow> string \<Rightarrow> string \<Rightarrow>
     filesystem \<times> (admin_error + unit)" where
  "cmdAddApprover C W D E wd cfgPath ident keyOut =
     (let fs = w_fs W in
      if ident = [] \<or> keyOut = [] then (fs, Inl MissingFlags)
      else (case config_Load W D wd cfgPath of Inl e \<Rightarrow> (fs, Inl (Command (BadConfig e))) | Inr cfg \<Rightarrow>
      let path = config_Path cfg (wc_Approvers cfg) in
      (case (case os_ReadFile fs path of None \<Rightarrow> Inr []
          | Some data \<Rightarrow> (case unmarshal_set data of None \<Rightarrow> Inl SetSyntax
            | Some ks \<Rightarrow> if list_ex (\<lambda>k. jwk_Kid k = ident) ks then Inl ApproverExists else Inr ks)) of
        Inl e \<Rightarrow> (fs, Inl e)
      | Inr ks \<Rightarrow>
      (case GenerateKey C MLDSA65Ed25519 (ad_Seed E) of Inl e \<Rightarrow> (fs, Inl (Command (NotGenerated e))) | Inr k \<Rightarrow>
      let out = MarshalIndent (json_of_set (Some (ks @ [PublicJWK ident (sk_pub k)]))) in
      (case keys_Parse C out of Inl e \<Rightarrow> (fs, Inl (SetRefused e)) | Inr _ \<Rightarrow>
      (case WriteComposite (w_pem W) fs keyOut k (ad_Umask E) (ad_Key E) of
        (fs1, Inl e) \<Rightarrow> (fs1, Inl (Command (KeyFile e)))
      | (fs1, Inr _) \<Rightarrow>
      (case replace_file fs1 path (out @ [newline]) 420 (ad_Replace E) of
        (fs2, False) \<Rightarrow> (fs2, Inl (Command NotReplaced)) | (fs2, True) \<Rightarrow> (fs2, Inr ()))))))))"

definition cmdIssueTask ::
  "'x crypto_scheme \<Rightarrow> 'st world \<Rightarrow> durations \<Rightarrow> admin_env \<Rightarrow> string \<Rightarrow> string \<Rightarrow> task_claims \<Rightarrow> int \<Rightarrow> string \<Rightarrow>
     filesystem \<times> (admin_error + unit)" where
  "cmdIssueTask C W D E wd cfgPath claims ttl pre =
     (let fs = w_fs W in
      if tc_Agent claims = [] \<or> tc_Principal claims = [] \<or> tc_Task claims = [] \<or> pre = [] then (fs, Inl MissingFlags)
      else (case config_Load W D wd cfgPath of Inl e \<Rightarrow> (fs, Inl (Command (BadConfig e))) | Inr cfg \<Rightarrow>
      (case loadCA (w_x509 W) (w_pem W) fs cfg of Inl e \<Rightarrow> (fs, Inl (Command e)) | Inr ca \<Rightarrow>
      (case mldsa_public C MLDSA65 (ad_Seed E) of None \<Rightarrow> (fs, Inl (Command (NotGenerated MldsaKey))) | Some pub \<Rightarrow>
      (case IssueTask (w_x509 W) (ad_Serial E) ca claims pub (ad_Now E - 60 * ns_per_s) (ad_Now E + ttl) of
        Inl e \<Rightarrow> (fs, Inl (Command (NotIssued e)))
      | Inr der \<Rightarrow>
      (case WriteMLDSA (w_pem W) fs (pre @ ''.key'') \<lparr>mk_seed = ad_Seed E, mk_pub = pub\<rparr> (ad_Umask E) (ad_Key E) of
        (fs1, Inl e) \<Rightarrow> (fs1, Inl (Command (KeyFile e)))
      | (fs1, Inr _) \<Rightarrow>
      (case WriteCertificate (w_x509 W) (w_pem W) fs1 (pre @ ''.pem'') der (ad_Umask E) (ad_Cert E) of
        (fs2, Inl e) \<Rightarrow> (fs2, Inl (Command (KeyFile e))) | (fs2, Inr _) \<Rightarrow> (fs2, Inr ()))))))))"

definition cmdExport ::
  "'x crypto_scheme \<Rightarrow> 'st world \<Rightarrow> durations \<Rightarrow> admin_env \<Rightarrow> string \<Rightarrow> string \<Rightarrow> string \<Rightarrow> database \<Rightarrow>
     filesystem \<times> database \<times> (admin_error + int)" where
  "cmdExport C W D E wd cfgPath dest db =
     (let fs = w_fs W in
      if dest = [] then (fs, db, Inl MissingFlags)
      else (case config_Load W D wd cfgPath of Inl e \<Rightarrow> (fs, db, Inl (Command (BadConfig e))) | Inr cfg \<Rightarrow>
      (case ReadComposite C (w_pem W) fs (config_Path cfg (wc_ReceiptKey cfg)) of
        Inl e \<Rightarrow> (fs, db, Inl (Command (KeyFile e)))
      | Inr k \<Rightarrow>
      (case store_Open C (config_Path cfg (wc_Store cfg)) db (Some (private_signer C k)) (wc_Kid cfg) (wc_ChainID cfg) (ad_Open E) of
        (db1, Inl e) \<Rightarrow> (fs, db1, Inl (Command (StoreNotOpened e)))
      | (db1, Inr s) \<Rightarrow>
      (case writeNew fs dest (store_Export s) 420 (ad_Umask E) (ad_Key E) of
        (fs1, Inl e) \<Rightarrow> (fs1, db1, Inl (Command (KeyFile e)))
      | (fs1, Inr _) \<Rightarrow> (fs1, db1, Inr (store_Next s)))))))"

text \<open>The answer on the terminal: \<open>y\<close> or \<open>Y\<close>, up to white space, on the first line.\<close>

definition confirmed :: "bytes \<Rightarrow> bool" where
  "confirmed stdin \<longleftrightarrow> trim_space (takeWhile (\<lambda>c. c \<noteq> newline) stdin) \<in> {''y'', ''Y''}"

text \<open>\<open>revocation.Publish\<close> on a file; \<open>opened\<close> says whether it can be opened for appending.\<close>

definition publish_file ::
  "'x crypto_scheme \<Rightarrow> filesystem \<Rightarrow> string \<Rightarrow> signed \<Rightarrow> bool \<Rightarrow> nat option \<Rightarrow> 32 word \<Rightarrow> filesystem \<times> bool" where
  "publish_file C fs path s opened write umask =
     (case signed_Line C s of Inl _ \<Rightarrow> (fs, False) | Inr _ \<Rightarrow>
      if \<not> opened then (fs, False)
      else (case link_target 41 fs path of None \<Rightarrow> (fs, False) | Some q \<Rightarrow>
       (case fs q of
          None \<Rightarrow> (let (ok, b) = revocation_Publish C [] s write in (fs(q \<mapsto> Regular (and 420 (not umask)) b), ok))
        | Some (Regular m b) \<Rightarrow> (let (ok, b') = revocation_Publish C b s write in (fs(q \<mapsto> Regular m b'), ok))
        | Some _ \<Rightarrow> (fs, False))))"

definition choose_checkpoint :: "checkpoint list \<Rightarrow> int \<Rightarrow> admin_error + checkpoint" where
  "choose_checkpoint cps n =
     (if cps = [] then Inl NoCheckpoints
      else if n = 0 then Inr (last cps)
      else of_option NoSuchSize (find (\<lambda>c. c_size c = n) cps))"

definition revocation_of :: "config \<Rightarrow> string \<Rightarrow> checkpoint \<Rightarrow> string \<Rightarrow> time \<Rightarrow> revocation" where
  "revocation_of cfg kid cp reason now =
     \<lparr>rv_v = revocation_Version, rv_domain = revocation_Domain, rv_chain_id = wc_ChainID cfg, rv_kid = kid,
      rv_size = c_size cp, rv_head = c_head cp, rv_reason = reason, rv_ts = format_ts now\<rparr>"

text \<open>Everything before the question.\<close>

definition revoke_prepare ::
  "'x crypto_scheme \<Rightarrow> 'st world \<Rightarrow> durations \<Rightarrow> admin_env \<Rightarrow> string \<Rightarrow> string \<Rightarrow> string \<Rightarrow> int \<Rightarrow> string \<Rightarrow>
     admin_error + config \<times> ca \<times> revocation" where
  "revoke_prepare C W D E wd cfgPath kid n reason =
     (if kid = [] then Inl MissingFlags
      else ebind (map_err (\<lambda>e. Command (BadConfig e)) (config_Load W D wd cfgPath)) (\<lambda>cfg.
      ebind (map_err Command (loadCA (w_x509 W) (w_pem W) (w_fs W) cfg)) (\<lambda>ca.
      ebind (map_err Command (trustedKeys C (w_fs W) cfg)) (\<lambda>t.
      if t kid = None then Inl UnknownKid
      else ebind (of_option AnchorRead (os_ReadFile (w_fs W) (config_Path cfg (wc_Anchor cfg)))) (\<lambda>data.
      ebind (map_err AnchorRefused (ReadVerified C data (wc_ChainID cfg) (Resolver t))) (\<lambda>cps.
      ebind (choose_checkpoint cps n) (\<lambda>cp.
      let r = revocation_of cfg kid cp reason (ad_Now E) in
      ebind (map_err RevocationRefused (revocation_Validate r)) (\<lambda>_. Inr (cfg, ca, r)))))))))"

text \<open>\<open>ok\<close> says whether the directory of the file can be made.\<close>

definition cmdRevokeKey ::
  "'x crypto_scheme \<Rightarrow> 'st world \<Rightarrow> durations \<Rightarrow> admin_env \<Rightarrow> string \<Rightarrow> string \<Rightarrow> string \<Rightarrow> int \<Rightarrow> string \<Rightarrow> bool \<Rightarrow> bytes \<Rightarrow> bool \<Rightarrow>
     filesystem \<times> (admin_error + unit)" where
  "cmdRevokeKey C W D E wd cfgPath kid n reason yes stdin ok =
     (let fs = w_fs W in
      case revoke_prepare C W D E wd cfgPath kid n reason of Inl e \<Rightarrow> (fs, Inl e) | Inr (cfg, ca, r) \<Rightarrow>
      if \<not> yes \<and> \<not> confirmed stdin then (fs, Inl NotConfirmed)
      else (case revocation_Sign C (Some (ca_Key ca)) r of Inl e \<Rightarrow> (fs, Inl (RevocationRefused e)) | Inr s \<Rightarrow>
      if \<not> ok then (fs, Inl NotPublished)
      else (case publish_file C fs (config_Path cfg (wc_Revocations cfg)) s (ad_Open E) (ad_Write E) (ad_Umask E) of
        (fs1, False) \<Rightarrow> (fs1, Inl NotPublished) | (fs1, True) \<Rightarrow> (fs1, Inr ()))))"

text \<open>
  \<open>pin\<close>: \<open>keys\<close>, \<open>path\<close>, \<open>conn\<close>, \<open>num\<close> and \<open>listed\<close> are as for \<open>Connect\<close> and \<open>Tools\<close>.  A tool that has no digest
  is reported and left out.
\<close>

definition list_tools ::
  "'x crypto_scheme \<Rightarrow> (json \<Rightarrow> json) \<Rightarrow> (string \<times> session) list \<Rightarrow> (string \<Rightarrow> mcp_tool option list) \<Rightarrow> Manifest list \<Rightarrow> string \<Rightarrow>
     admin_error + Manifest list" where
  "list_tools C num ss listed out name =
     ebind (map_err ServersRefused (upstream_Tools num ss listed name)) (\<lambda>ms.
     Inr (out @ filter (\<lambda>m. Manifest_Digest C m \<in> range Inr) ms))"

definition reviewed_tools ::
  "'x crypto_scheme \<Rightarrow> 'st world \<Rightarrow> durations \<Rightarrow> string \<Rightarrow> string \<Rightarrow> (string \<rightharpoonup> bytes) \<Rightarrow> (string \<times> string) list \<Rightarrow> string \<Rightarrow>
     (string \<Rightarrow> bool) \<Rightarrow> (json \<Rightarrow> json) \<Rightarrow> (string \<Rightarrow> mcp_tool option list) \<Rightarrow> admin_error + config \<times> Manifest list" where
  "reviewed_tools C W D wd cfgPath env keys path conn num listed =
     ebind (map_err (\<lambda>e. Command (BadConfig e)) (config_Load W D wd cfgPath)) (\<lambda>cfg.
     ebind (loadBroker env (w_fs W) cfg) (\<lambda>brk.
     let (servers, names) = upstreamServers cfg in
     ebind (map_err ServersRefused (Connect brk keys path conn servers)) (\<lambda>ss.
     ebind (case os_ReadFile (w_fs W) (config_Path cfg (wc_Pins cfg)) of None \<Rightarrow> Inr ()
        | Some data \<Rightarrow> ebind (map_err PinsRefused (registry_Load C data)) (\<lambda>_. Inr ())) (\<lambda>_.
     ebind (efold (list_tools C num ss listed) [] names) (\<lambda>all. Inr (cfg, all))))))"

definition cmdPin ::
  "'x crypto_scheme \<Rightarrow> 'st world \<Rightarrow> durations \<Rightarrow> admin_env \<Rightarrow> string \<Rightarrow> string \<Rightarrow> bool \<Rightarrow> (string \<rightharpoonup> bytes) \<Rightarrow> (string \<times> string) list \<Rightarrow> string \<Rightarrow>
     (string \<Rightarrow> bool) \<Rightarrow> (json \<Rightarrow> json) \<Rightarrow> (string \<Rightarrow> mcp_tool option list) \<Rightarrow> filesystem \<times> (admin_error + nat)" where
  "cmdPin C W D E wd cfgPath write env keys path conn num listed =
     (let fs = w_fs W in
      case reviewed_tools C W D wd cfgPath env keys path conn num listed of Inl e \<Rightarrow> (fs, Inl e) | Inr (cfg, all) \<Rightarrow>
      if \<not> write then (fs, Inr 0)
      else (case PinAll C all of Inl e \<Rightarrow> (fs, Inl (PinsRefused e)) | Inr data \<Rightarrow>
      (case replace_file fs (config_Path cfg (wc_Pins cfg)) data 420 (ad_Replace E) of
        (fs1, False) \<Rightarrow> (fs1, Inl (Command NotReplaced)) | (fs1, True) \<Rightarrow> (fs1, Inr (length all)))))"

section \<open>An approver on the command line\<close>

text \<open>What \<open>approverClient\<close> reads: the pool for the server and the key.\<close>

definition rootPool :: "'st world \<Rightarrow> string \<Rightarrow> admin_error + bytes list" where
  "rootPool W caPath =
     ebind (map_err (\<lambda>e. Command (KeyFile e)) (ReadCertificate (w_x509 W) (w_pem W) (w_fs W) caPath)) (\<lambda>der. Inr [der])"

definition approverClient :: "'x crypto_scheme \<Rightarrow> 'st world \<Rightarrow> string \<Rightarrow> string \<Rightarrow> admin_error + bytes list \<times> signer" where
  "approverClient C W caPath keyPath =
     ebind (rootPool W caPath) (\<lambda>pool.
     ebind (map_err (\<lambda>e. Command (KeyFile e)) (ReadComposite C (w_pem W) (w_fs W) keyPath)) (\<lambda>k. Inr (pool, private_signer C k)))"

text \<open>The entry that is answered, the last one of the number if there are several.\<close>

definition target_call :: "pending_shown list \<Rightarrow> int \<Rightarrow> admin_error + pending_shown" where
  "target_call pending n = of_option NoSuchDecision (find (\<lambda>p. pn_DecisionSeq p = n) (rev pending))"

datatype approve_result = Listed "pending_shown list" | Recorded submitted

text \<open>\<open>rnd\<close> are the random bytes of the list request; \<open>http\<close> and \<open>http'\<close> answer the two requests, after \<open>pool\<close> verified the server.\<close>

definition cmdApprove ::
  "'x crypto_scheme \<Rightarrow> 'st world \<Rightarrow> string \<Rightarrow> string \<Rightarrow> string \<Rightarrow> int \<Rightarrow> bool \<Rightarrow> int \<Rightarrow> bool \<Rightarrow> bytes \<Rightarrow> bytes \<Rightarrow> time \<Rightarrow> time \<Rightarrow>
     (bytes list \<Rightarrow> pending_shown list ApproverApi.transport) \<Rightarrow> (bytes list \<Rightarrow> submitted ApproverApi.transport) \<Rightarrow> admin_error + approve_result" where
  "cmdApprove C W caPath keyPath ident n reject ttl yes stdin rnd t1 t2 http http' =
     (if keyPath = [] \<or> ident = [] then Inl MissingFlags
      else ebind (approverClient C W caPath keyPath) (\<lambda>(pool, k).
      ebind (map_err ApproverClient (client_List C (Some k) ident rnd t1 (http pool))) (\<lambda>pending.
      if n < 0 then Inr (Listed pending)
      else ebind (target_call pending n) (\<lambda>p.
      if \<not> yes \<and> \<not> confirmed stdin then Inl NotConfirmed
      else ebind (map_err ApproverClient (client_Sign C (Some k) ident p (if reject then Rejected else Approved) ttl t2)) (\<lambda>st.
      ebind (map_err ApproverClient (client_Submit (http' pool) st)) (\<lambda>sub. Inr (Recorded sub)))))))"

section \<open>The program\<close>

datatype command_end = Done | Help | Failed

definition command_names :: "string list" where
  "command_names = [''init'', ''pin'', ''add-approver'', ''issue-task'', ''rotate-key'', ''revoke-key'', ''serve'', ''call'', ''approve'', ''console'', ''export'']"

definition warden_run :: "(string \<Rightarrow> string list \<Rightarrow> 'w \<Rightarrow> 'w \<times> command_end) \<Rightarrow> string list \<Rightarrow> 'w \<Rightarrow> 'w \<times> int" where
  "warden_run command args w =
     (case args of [] \<Rightarrow> (w, 2)
      | c # rest \<Rightarrow> if c \<notin> set command_names then (w, 2)
          else (case command c rest w of (w', Done) \<Rightarrow> (w', 0) | (w', Help) \<Rightarrow> (w', 2) | (w', Failed) \<Rightarrow> (w', 1)))"

end
