(* ===== verification/AdminProps.thy ===== *)
theory AdminProps
  imports Admin RotationLog WardenVerify
begin

text \<open>
  What the administrative commands leave behind.
\<close>

section \<open>Reading back\<close>

lemma added_key:
  assumes "list_all jwk_text ks" "keys_Parse C (MarshalIndent (json_of_set (Some (ks @ [PublicJWK kid pub])))) = Inr t'" "utf8_valid kid"
    and "ParsePublicKey C MLDSA65Ed25519 (pub_Bytes pub) = Inr pub" "suite_Name (pk_suite pub) = Alg"
  shows "\<exists>t0. efold (add_key C) Map.empty ks = Inr t0 \<and> t' = t0(kid \<mapsto> pub) \<and> t0 kid = None \<and>
    keys_Parse C (MarshalIndent (json_of_set (Some (ks @ [PublicJWK kid pub]))) @ [newline]) = Inr t'"
proof -
  have "list_all jwk_text (ks @ [PublicJWK kid pub])"
    using assms(1,3,5) by (simp add: jwk_text_def PublicJWK_def KeyType_def utf8_valid_ascii Alg_def)
  note p = keys_Parse_written [OF this, of _ C]
  have e: "efold (add_key C) Map.empty (ks @ [PublicJWK kid pub]) = Inr t'" using assms(2) p [of "[]"] by simp
  then obtain t0 where t0: "efold (add_key C) Map.empty ks = Inr t0" "add_key C t0 (PublicJWK kid pub) = Inr t'"
    by (auto simp: efold_append)
  moreover have "t' = t0(kid \<mapsto> pub) \<and> t0 kid = None"
    using t0(2) assms(4) by (auto simp: add_key_def PublicJWK_def b64_decode_encode split: if_splits)
  ultimately show ?thesis using e p [of "[newline]"] by simp
qed

section \<open>Approvers\<close>

lemma cmdAddApprover_Inr:
  assumes "cmdAddApprover C W D E wd cfgPath ident keyOut = (fs', Inr u)" "config_Load W D wd cfgPath = Inr cfg"
  obtains ks k t' fs1 where
    "os_ReadFile (w_fs W) (config_Path cfg (wc_Approvers cfg)) = None \<and> ks = [] \<or>
     (\<exists>data. os_ReadFile (w_fs W) (config_Path cfg (wc_Approvers cfg)) = Some data \<and> unmarshal_set data = Some ks)"
    "GenerateKey C MLDSA65Ed25519 (ad_Seed E) = Inr k"
    "keys_Parse C (MarshalIndent (json_of_set (Some (ks @ [PublicJWK ident (sk_pub k)])))) = Inr t'"
    "WriteComposite (w_pem W) (w_fs W) keyOut k (ad_Umask E) (ad_Key E) = (fs1, Inr ())"
    "fs' = fs1(config_Path cfg (wc_Approvers cfg) \<mapsto> Regular 420 (MarshalIndent (json_of_set (Some (ks @ [PublicJWK ident (sk_pub k)]))) @ [newline]))"
proof -
  let ?path = "config_Path cfg (wc_Approvers cfg)"
  note run = assms(1) [unfolded cmdAddApprover_def Let_def assms(2)]
  obtain ks where ks: "(case os_ReadFile (w_fs W) ?path of None \<Rightarrow> Inr []
      | Some data \<Rightarrow> (case unmarshal_set data of None \<Rightarrow> Inl SetSyntax
        | Some ks \<Rightarrow> if list_ex (\<lambda>k. jwk_Kid k = ident) ks then Inl ApproverExists else Inr ks)) = Inr ks"
    using run by (auto split: if_splits sum.splits)
  obtain k where k: "GenerateKey C MLDSA65Ed25519 (ad_Seed E) = Inr k"
    using run ks by (auto split: if_splits sum.splits)
  obtain t' where t: "keys_Parse C (MarshalIndent (json_of_set (Some (ks @ [PublicJWK ident (sk_pub k)])))) = Inr t'"
    using run ks k by (auto split: if_splits sum.splits)
  obtain fs1 where w: "WriteComposite (w_pem W) (w_fs W) keyOut k (ad_Umask E) (ad_Key E) = (fs1, Inr ())"
    using run ks k t by (auto split: if_splits sum.splits prod.splits)
  have "fs' = fs1(?path \<mapsto> Regular 420 (MarshalIndent (json_of_set (Some (ks @ [PublicJWK ident (sk_pub k)]))) @ [newline]))"
    using run ks k t w by (auto simp: replace_file_def split: if_splits)
  moreover have "os_ReadFile (w_fs W) ?path = None \<and> ks = [] \<or>
     (\<exists>data. os_ReadFile (w_fs W) ?path = Some data \<and> unmarshal_set data = Some ks)"
    using ks by (auto split: option.splits if_splits)
  ultimately show ?thesis using that k t w by blast
qed

text \<open>
  C29: What \<open>add-approver\<close> writes reads back: the private key from the file it names, the approvers as they were with the new
  one under a name that was free.  When the file of approvers could not be read, though, for whatever reason, nobody
  but the new approver is trusted afterwards.
\<close>

theorem added_approver_trusted:
  assumes "cmdAddApprover C W D E wd cfgPath ident keyOut = (fs', Inr ())" "config_Load W D wd cfgPath = Inr cfg"
    and "primitives_ok C" "pem_ok (w_pem W)" "utf8_valid ident" "keyOut \<noteq> config_Path cfg (wc_Approvers cfg)"
  shows "\<exists>k approvers. ReadComposite C (w_pem W) fs' keyOut = Inr k \<and>
    loadApprovers C fs' (config_Path cfg (wc_Approvers cfg)) = Inr approvers \<and> approvers ident = Some (sk_pub k) \<and>
    (\<forall>before. loadApprovers C (w_fs W) (config_Path cfg (wc_Approvers cfg)) = Inr before \<longrightarrow>
       before ident = None \<and> approvers = before(ident \<mapsto> sk_pub k)) \<and>
    (os_ReadFile (w_fs W) (config_Path cfg (wc_Approvers cfg)) = None \<longrightarrow> approvers = [ident \<mapsto> sk_pub k])"
proof -
  let ?path = "config_Path cfg (wc_Approvers cfg)"
  obtain ks k t' fs1 where c:
    "os_ReadFile (w_fs W) ?path = None \<and> ks = [] \<or> (\<exists>data. os_ReadFile (w_fs W) ?path = Some data \<and> unmarshal_set data = Some ks)"
    "GenerateKey C MLDSA65Ed25519 (ad_Seed E) = Inr k"
    "keys_Parse C (MarshalIndent (json_of_set (Some (ks @ [PublicJWK ident (sk_pub k)])))) = Inr t'"
    "WriteComposite (w_pem W) (w_fs W) keyOut k (ad_Umask E) (ad_Key E) = (fs1, Inr ())"
    "fs' = fs1(?path \<mapsto> Regular 420 (MarshalIndent (json_of_set (Some (ks @ [PublicJWK ident (sk_pub k)]))) @ [newline]))"
    by (rule cmdAddApprover_Inr [OF assms(1,2)])
  have "NewPrivateKey C MLDSA65Ed25519 (ad_Seed E) = Inr k" using c(2) by (simp add: GenerateKey_def)
  then obtain n where n: "fs1 = (w_fs W)(keyOut \<mapsto> n)" "\<forall>fs''. fs'' keyOut = Some n \<longrightarrow> ReadComposite C (w_pem W) fs'' keyOut = Inr k"
    using WriteComposite_Inr [OF c(4) _ assms(4)] by blast
  have "list_all jwk_text ks" using c(1) unmarshal_set_text by auto
  then obtain t0 where t: "efold (add_key C) Map.empty ks = Inr t0" "t' = t0(ident \<mapsto> sk_pub k)" "t0 ident = None"
    "keys_Parse C (MarshalIndent (json_of_set (Some (ks @ [PublicJWK ident (sk_pub k)]))) @ [newline]) = Inr t'"
    using added_key [OF _ c(3) assms(5) generated_parses(1,2) [OF assms(3) c(2)]] by blast
  have res: "Resolver t = t" for t :: trusted by (simp add: Resolver_def fun_eq_iff)
  have "loadApprovers C fs' ?path = Inr t'"
    using t(4) read_file_regular [of fs' ?path] by (simp add: loadApprovers_def c(5) res)
  moreover have "before = t0" if b: "loadApprovers C (w_fs W) ?path = Inr before" for before
  proof (cases "read_file (w_fs W) ?path")
    case (Content data)
    then have r: "os_ReadFile (w_fs W) ?path = Some data" by (simp add: read_file_content)
    then have "unmarshal_set data = Some ks" "keys_Parse C data = Inr before"
      using c(1) b Content by (auto simp: loadApprovers_def res)
    from unmarshal_set_strict [OF this(2,1)] t(1) show ?thesis by simp
  next
    case Missing
    then have "os_ReadFile (w_fs W) ?path \<noteq> Some data" for data by (metis file_data.distinct(3) read_file_content)
    then have "ks = []" using c(1) by auto
    then show ?thesis using b Missing t(1) by (auto simp: loadApprovers_def)
  qed (use b in \<open>simp add: loadApprovers_def\<close>)
  moreover have "t0 = Map.empty" if "os_ReadFile (w_fs W) ?path = None" using that c(1) t(1) by auto
  moreover have "ReadComposite C (w_pem W) fs' keyOut = Inr k" using n assms(6) by (simp add: c(5))
  ultimately show ?thesis using t by (intro exI [of _ k] exI [of _ t']) auto
qed

section \<open>Exports\<close>

text \<open>
  C30: What \<open>export\<close> writes is the log: on success the destination was free and is the only file that changed; it holds
  exactly the lines of the store's receipts in order, each ended by a newline, the reported number is theirs, the database is
  as it was, and an auditor with any keys gets the verdict on the file that the store gets on itself with these keys.
\<close>

theorem export_gives_the_log:
  assumes "warden_ready C W D wd cfgPath db cfg t s es" "cmdExport C W D E wd cfgPath dest db = (fs', db', Inr n)"
  shows "os_ReadFile fs' dest = Some (unlines (map e_line es)) \<and> w_fs W dest = None \<and> (\<forall>p. p \<noteq> dest \<longrightarrow> fs' p = w_fs W p) \<and>
    n = int (length es) \<and> db' = db \<and>
    (\<forall>K (ks :: 'k). VerifyAll C (unlines (map e_line es)) (wc_ChainID cfg) K ks [] [] = store_VerifyWithKeys C s K ks)"
proof -
  obtain k where r: "config_Load W D wd cfgPath = Inr cfg" "store_holds C es s" "s_kid s = wc_Kid cfg" "s_chainID s = wc_ChainID cfg"
    "s_db s = db" "s_key s = Some (private_signer C k)" "ReadComposite C (w_pem W) (w_fs W) (config_Path cfg (wc_ReceiptKey cfg)) = Inr k"
    using assms(1) by (auto simp: warden_ready_def)
  note run = assms(2) [unfolded cmdExport_def Let_def r(1)]
  obtain db1 s1 where o: "store_Open C (config_Path cfg (wc_Store cfg)) db (Some (private_signer C k)) (wc_Kid cfg) (wc_ChainID cfg) (ad_Open E) = (db1, Inr s1)"
    using run r(7) by (auto split: if_splits sum.splits prod.splits)
  then have s1: "s1 = s" "db1 = db" using store_Open_again [OF r(2), of "config_Path cfg (wc_Store cfg)" "ad_Open E" db1 s1] r by auto
  have w: "writeNew (w_fs W) dest (store_Export s) 420 (ad_Umask E) (ad_Key E) = (fs', Inr ())" "n = store_Next s" "db' = db"
    using run r(7) o s1 by (auto split: if_splits sum.splits prod.splits)
  have f: "w_fs W dest = None" "fs' = (w_fs W)(dest \<mapsto> Regular (and 420 (not (ad_Umask E))) (store_Export s))"
    using w(1) by (simp_all add: writeNew_Inr)
  have "VerifyAll C (store_Export s) (wc_ChainID cfg) K ks [] [] = store_VerifyWithKeys C s K ks" for K and ks :: 'k
    by (simp add: store_VerifyWithKeys_def VerifyWithKeys_def r(4))
  then show ?thesis using w f store_export [OF r(2)] os_ReadFile_regular [of fs' dest] by auto
qed

section \<open>Task credentials\<close>

text \<open>
  The two files that \<open>issue-task\<close> writes are a credential of the task, the agent and the principal with its key: while it
  lasts, which is at most fifteen minutes, it is accepted under the root that signed it.
\<close>

theorem issued_task_admits:
  assumes "cmdIssueTask C W D E wd cfgPath claims ttl pre = (fs', Inr ())" "config_Load W D wd cfgPath = Inr cfg"
    and "loadCA (w_x509 W) (w_pem W) (w_fs W) cfg = Inr ca" "x509_ok (w_x509 W) ca" "pem_ok (w_pem W)"
    and "x_Parse (w_x509 W) (ca_Cert ca) = Some root" "valid_at root at"
    and "whole_s (ad_Now E - 60 * ns_per_s) \<le> at" "at \<le> whole_s (ad_Now E + ttl)"
  shows "\<exists>der k t. ReadCertificate (w_x509 W) (w_pem W) fs' (pre @ ''.pem'') = Inr der \<and> ReadMLDSA (w_pem W) fs' (pre @ ''.key'') = Inr k \<and>
    VerifyTask C (w_x509 W) der (ca_Pool ca) at = Inr t \<and> t_claims t = claims \<and> t_Key t = mk_pub k \<and> ttl \<le> MaxTaskLifetime"
proof -
  note run = assms(1) [unfolded cmdIssueTask_def Let_def assms(2)]
  obtain pub der where p: "mldsa_public C MLDSA65 (ad_Seed E) = Some pub"
    "IssueTask (w_x509 W) (ad_Serial E) ca claims pub (ad_Now E - 60 * ns_per_s) (ad_Now E + ttl) = Inr der"
    using run assms(3) by (auto split: if_splits sum.splits option.splits)
  let ?k = "\<lparr>mk_seed = ad_Seed E, mk_pub = pub\<rparr>"
  obtain fs1 where k: "WriteMLDSA (w_pem W) (w_fs W) (pre @ ''.key'') ?k (ad_Umask E) (ad_Key E) = (fs1, Inr ())"
    using run assms(3) p by (auto split: if_splits sum.splits option.splits prod.splits)
  have c: "WriteCertificate (w_x509 W) (w_pem W) fs1 (pre @ ''.pem'') der (ad_Umask E) (ad_Cert E) = (fs', Inr ())"
    using run assms(3) p k by (auto split: if_splits sum.splits option.splits prod.splits)
  obtain m where m: "fs' = fs1(pre @ ''.pem'' \<mapsto> Regular m (pem_EncodeToMemory (w_pem W) \<lparr>pb_Type = certificateType, pb_Headers = [], pb_Bytes = der\<rparr>))"
    "x_Parse (w_x509 W) der \<noteq> None"
    using c by (auto simp: WriteCertificate_def writeNew_Inr split: if_splits)
  have "readPEM (w_pem W) fs' (pre @ ''.pem'') certificateType False = Inr der"
    using written_pem_read [where fs = fs' and path = "pre @ ''.pem''", OF assms(5)] by (simp add: m(1))
  then have cert: "ReadCertificate (w_x509 W) (w_pem W) fs' (pre @ ''.pem'') = Inr der" using m(2) by (simp add: ReadCertificate_def)
  have key: "ReadMLDSA (w_pem W) fs' (pre @ ''.key'') = Inr ?k"
  proof (rule mldsa_file_round_trip [OF assms(5)])
    show "WriteMLDSA (w_pem W) ((w_fs W)(pre @ ''.pem'' \<mapsto> Regular m (pem_EncodeToMemory (w_pem W)
        \<lparr>pb_Type = certificateType, pb_Headers = [], pb_Bytes = der\<rparr>))) (pre @ ''.key'') ?k (ad_Umask E) (ad_Key E) = (fs', Inr ())"
      using k by (auto simp: WriteMLDSA_def writeNew_Inr m(1) fun_upd_twist split: if_splits option.splits)
  qed
  obtain t where t: "VerifyTask C (w_x509 W) der (ca_Pool ca) at = Inr t" "t_claims t = claims" "t_Key t = pub"
    using IssueTask_VerifyTask [OF p(2) assms(4,6,7,8,9)] by blast
  have "sat64 (ad_Now E + ttl - (ad_Now E - 60 * ns_per_s)) \<le> MaxTaskLifetime + ClockSkew"
    using p(2) by (auto simp: IssueTask_def not_less split: if_splits)
  then have "ad_Now E + ttl - (ad_Now E - 60 * ns_per_s) \<le> MaxTaskLifetime + ClockSkew"
    by (subst (asm) sat64_le_iff) (simp_all add: MaxTaskLifetime_def ClockSkew_def ns_per_s_def)
  then have "ttl \<le> MaxTaskLifetime" by (simp add: ClockSkew_def ns_per_s_def)
  then show ?thesis using cert key t by (intro exI [of _ der] exI [of _ ?k] exI [of _ t]) simp
qed

section \<open>Revocations\<close>

lemma publish_file_True:
  assumes "publish_file C fs path s opened write umask = (fs', True)"
  shows "opened \<and> write = None \<and> (\<exists>q line. link_target 41 fs path = Some q \<and> signed_Line C s = Inr line \<and>
    (\<exists>m b. (fs q = None \<and> b = [] \<or> fs q = Some (Regular m b)) \<and> (\<exists>m'. fs' = fs(q \<mapsto> Regular m' (b @ line @ [newline])))))"
  using assms by (auto simp: publish_file_def revocation_Publish_def Let_def split: sum.splits if_splits option.splits node.splits)

text \<open>A name that a chain of links ends at stays its end when something is written there.\<close>

lemma link_target_end: "link_target n fs p = Some q \<Longrightarrow> \<nexists>t. fs q = Some (Symlink t)"
  by (induction n fs p rule: link_target.induct) (auto split: option.splits node.splits)

lemma link_target_write:
  "link_target n fs p = Some q \<Longrightarrow> \<nexists>t. x = Symlink t \<Longrightarrow> link_target n (fs(q \<mapsto> x)) p = Some q"
proof (induction n fs p rule: link_target.induct)
  case (2 n fs p)
  show ?case
  proof (cases "p = q")
    case True
    then show ?thesis using 2(3) by (cases x) auto
  next
    case False
    then obtain t where t: "fs p = Some (Symlink t)" "link_target n fs t = Some q"
      using 2(2) by (auto split: option.splits node.splits)
    then show ?thesis using 2(1) [OF t(1) _ t(2)] 2(3) False by simp
  qed
qed simp

lemma published_file_read:
  assumes "publish_file C fs path s opened write umask = (fs', True)"
  shows "\<exists>b line. (read_file fs path = Missing \<and> b = [] \<or> read_file fs path = Content b) \<and> signed_Line C s = Inr line \<and>
    read_file fs' path = Content (b @ line @ [newline])"
proof -
  obtain q line m b m' where q: "link_target 41 fs path = Some q" "signed_Line C s = Inr line"
    "fs q = None \<and> b = [] \<or> fs q = Some (Regular m b)" "fs' = fs(q \<mapsto> Regular m' (b @ line @ [newline]))"
    using publish_file_True [OF assms] by blast
  have "link_target 41 fs' path = Some q" unfolding q(4) by (rule link_target_write [OF q(1)]) simp
  then show ?thesis using q by (intro exI [of _ b] exI [of _ line]) (auto simp: read_file_def)
qed

lemma choose_checkpoint_Inr:
  "choose_checkpoint cps n = Inr cp \<Longrightarrow> cp \<in> set cps \<and> (if n = 0 then cp = last cps else c_size cp = n)"
  by (auto simp: choose_checkpoint_def find_Some_iff split: if_splits)

lemma revocation_matched:
  assumes "revocation_Match rs cps = Inr effs" "r \<in> set rs"
  shows "\<exists>e \<in> set effs. ef_Kid e = rv_kid r \<and> ef_Size e = rv_size r"
proof -
  obtain e where "e \<in> set effs" "match_one cps r = Inr e"
    using list_all2_mem [OF assms(1) [unfolded revocation_Match_map] assms(2)] by blast
  then show ?thesis by (intro bexI [of _ e]) (auto simp: match_one_def split: option.splits if_splits)
qed

text \<open>The revocations as a verifier hands them to the chain.\<close>

definition as_revoked :: "effective list \<Rightarrow> revoked list" where
  "as_revoked es = map (\<lambda>e. \<lparr>rv_Kid = ef_Kid e, rv_EffectiveSize = ef_Size e\<rparr>) es"

text \<open>
  C21: \<open>revoke-key\<close> withdraws a key from an anchored checkpoint on: it publishes one more revocation, which reads back under the
  root; it names the size and the head of a checkpoint of the anchor, the newest unless a size was asked for; and
  with that file, no log verifies any more in which the key signs a line at or beyond this size, whatever keys and
  checkpoints the verifier has.
\<close>

theorem revoked_key_refused:
  assumes "cmdRevokeKey C W D E wd cfgPath kid n reason yes stdin ok = (fs', Inr ())"
    and "config_Load W D wd cfgPath = Inr cfg" "loadCA (w_x509 W) (w_pem W) (w_fs W) cfg = Inr ca"
    and "read_file (w_fs W) (config_Path cfg (wc_Revocations cfg)) = Missing \<and> old = [] \<or> read_file (w_fs W) (config_Path cfg (wc_Revocations cfg)) = Content old" "complete_lines old"
    and "revocation_ReadVerified C old (wc_ChainID cfg) (Some (mk_pub (ca_Key ca))) = Inr rs"
    and "\<forall>line. os_ReadFile fs' (config_Path cfg (wc_Revocations cfg)) = Some (old @ line @ [newline]) \<longrightarrow> plain_line line"
    and "root_pair C (ca_Key ca)" "jcs_ok (jcs C)" "utf8_valid (wc_ChainID cfg)" "utf8_valid kid" "utf8_valid reason"
  shows "\<exists>t data cps cp file r. trustedKeys C (w_fs W) cfg = Inr t \<and> t kid \<noteq> None \<and>
    os_ReadFile (w_fs W) (config_Path cfg (wc_Anchor cfg)) = Some data \<and> ReadVerified C data (wc_ChainID cfg) (Resolver t) = Inr cps \<and>
    cp \<in> set cps \<and> (if n = 0 then cp = last cps else c_size cp = n) \<and>
    os_ReadFile fs' (config_Path cfg (wc_Revocations cfg)) = Some file \<and>
    revocation_ReadVerified C file (wc_ChainID cfg) (Some (mk_pub (ca_Key ca))) = Inr (rs @ [r]) \<and>
    rv_kid r = kid \<and> rv_size r = c_size cp \<and> rv_head r = c_head cp \<and>
    (\<forall>anchor effs log K ks cps' rep ks'. revocation_Match (rs @ [r]) anchor = Inr effs \<longrightarrow>
       VerifyAll C log (wc_ChainID cfg) K ks cps' (as_revoked effs) = Inr (rep, ks') \<longrightarrow>
       (\<exists>es. scan_lines log = (map e_line es, False) \<and> (\<forall>i < length es. authentic C K ks (take i es) (es ! i) \<and>
          (e_kid (es ! i) = kid \<longrightarrow> int i < c_size cp))))"
proof -
  let ?path = "config_Path cfg (wc_Revocations cfg)" and ?root = "Some (mk_pub (ca_Key ca))"
  note run = assms(1) [unfolded cmdRevokeKey_def Let_def]
  obtain cfg' ca' r where p: "revoke_prepare C W D E wd cfgPath kid n reason = Inr (cfg', ca', r)"
    using run by (auto split: sum.splits)
  obtain t data cps cp where q: "cfg' = cfg" "ca' = ca" "trustedKeys C (w_fs W) cfg = Inr t" "t kid \<noteq> None"
    "os_ReadFile (w_fs W) (config_Path cfg (wc_Anchor cfg)) = Some data" "ReadVerified C data (wc_ChainID cfg) (Resolver t) = Inr cps"
    "choose_checkpoint cps n = Inr cp" "r = revocation_of cfg kid cp reason (ad_Now E)" "revocation_ok r"
    using p by (auto simp: revoke_prepare_def assms(2,3) Let_def split: if_splits)
  obtain s where s: "revocation_Sign C (Some (ca_Key ca)) r = Inr s"
    "publish_file C (w_fs W) ?path s (ad_Open E) (ad_Write E) (ad_Umask E) = (fs', True)"
    using run p q by (auto split: sum.splits if_splits prod.splits bool.splits)
  obtain b line where w: "read_file (w_fs W) ?path = Missing \<and> b = [] \<or> read_file (w_fs W) ?path = Content b"
    "signed_Line C s = Inr line" "read_file fs' ?path = Content (b @ line @ [newline])"
    using published_file_read [OF s(2)] by blast
  then have b: "b = old" using assms(4) by (auto split: if_splits)
  then have f: "os_ReadFile fs' ?path = Some (old @ line @ [newline])" using w(3) by (simp add: read_file_content)
  have ok: "json_ok (json_of_revocation r)"
    using q(9) assms(10-12) unfolding q(8)
    by (auto simp: json_of_revocation_def revocation_of_def revocation_ok_def omit_str_def utf8_valid_ascii digest_Valid_ascii
        revocation_Domain_def)
  have rd: "revocation_ReadVerified C (old @ line @ [newline]) (wc_ChainID cfg) ?root = Inr (rs @ [r])"
    using revocation_published [OF assms(6,5,9,8) ok s(1) w(2), of True "old @ line @ [newline]"] assms(7) f w(2) q(8)
    by (simp add: revocation_Publish_def revocation_of_def)
  have rv: "rv_kid r = kid" "rv_size r = c_size cp" "rv_head r = c_head cp" unfolding q(8) by (simp_all add: revocation_of_def)
  have bound: "\<exists>es. scan_lines log = (map e_line es, False) \<and> (\<forall>i < length es. authentic C K ks (take i es) (es ! i) \<and>
          (e_kid (es ! i) = kid \<longrightarrow> int i < c_size cp))"
    if m: "revocation_Match (rs @ [r]) anchor = Inr effs" "VerifyAll C log (wc_ChainID cfg) K ks cps' (as_revoked effs) = Inr (rep, ks')"
    for anchor effs log K and ks :: 'd and cps' rep ks'
  proof -
    obtain e where e: "e \<in> set effs" "ef_Kid e = kid" "ef_Size e = c_size cp"
      using revocation_matched [OF m(1), of r] rv by auto
    then have "\<lparr>rv_Kid = kid, rv_EffectiveSize = c_size cp\<rparr> \<in> set (as_revoked effs)" by (force simp: as_revoked_def)
    from revoked_key_bounded [OF m(2) this] show ?thesis by simp
  qed
  show ?thesis
    using q(3-6) choose_checkpoint_Inr [OF q(7)] f rd rv bound
    by (intro exI [of _ t] exI [of _ data] exI [of _ cps] exI [of _ cp] exI [of _ "old @ line @ [newline]"] exI [of _ r]) blast
qed

text \<open>
  The command prints how to check a log against the revocation, without \<open>--root\<close>; but \<open>warden-verify\<close> refuses revocations
  without a root.
\<close>

lemma revocations_need_root:
  assumes "fl_revocations f \<noteq> []" "fl_root f = []" "\<not> fl_version f"
  shows "verify_run C W (Some f) st = (st, exitUsage, NoOutput)"
proof -
  have "prepare C W f = Inl StopUsage"
    using assms(1,2) by (cases "load_trust C W f"; cases "open_store W f")
      (auto simp: prepare_def Let_def load_trust_def open_store_def of_option_def split: if_splits option.splits)
  then show ?thesis using assms(3) by (simp add: verify_run_def run_stages_def exit_of_def)
qed

section \<open>Pins\<close>

lemma list_tools_Inr:
  "list_tools C num ss listed out name = Inr all \<longleftrightarrow> (\<exists>ms. upstream_Tools num ss listed name = Inr ms \<and>
     all = out @ filter (\<lambda>m. Manifest_Digest C m \<in> range Inr) ms)"
  by (auto simp: list_tools_def)

lemma listed_tools:
  assumes "efold (list_tools C num ss listed) [] names = Inr all"
  shows "set all = {m. \<exists>name ms. name \<in> set names \<and> upstream_Tools num ss listed name = Inr ms \<and> m \<in> set ms \<and> Manifest_Digest C m \<in> range Inr}"
proof -
  have "set all = set out \<union> {m. \<exists>name ms. name \<in> set names \<and> upstream_Tools num ss listed name = Inr ms \<and> m \<in> set ms \<and> Manifest_Digest C m \<in> range Inr}"
    if "efold (list_tools C num ss listed) out names = Inr all" for out
    using that
  proof (induction names arbitrary: out)
    case (Cons name names)
    then obtain ms where ms: "upstream_Tools num ss listed name = Inr ms"
      "efold (list_tools C num ss listed) (out @ filter (\<lambda>m. Manifest_Digest C m \<in> range Inr) ms) names = Inr all"
      by (auto simp: list_tools_Inr)
    show ?case unfolding Cons.IH [OF ms(2)] using ms(1) by auto
  qed simp
  from this [OF assms] show ?thesis by simp
qed

text \<open>
  \<open>pin --write\<close> pins what its servers publish at that moment: the file it writes loads, and the registry accepts every tool
  that a configured server listed and that has a digest; without \<open>--write\<close> nothing changes.
\<close>

theorem pinned_tools_accepted:
  assumes "cmdPin C W D E wd cfgPath write env keys path conn num listed = (fs', Inr n)" "jcs_ok (jcs C)"
    and "config_Load W D wd cfgPath = Inr cfg" "loadBroker env (w_fs W) cfg = Inr brk"
    and "Connect brk keys path conn (fst (upstreamServers cfg)) = Inr ss"
    and "\<forall>name \<in> set (snd (upstreamServers cfg)). \<forall>ms m. upstream_Tools num ss listed name = Inr ms \<longrightarrow> m \<in> set ms \<longrightarrow>
      utf8_valid (m_Server m) \<and> utf8_valid (m_Name m)"
  shows "if write then \<exists>data r. os_ReadFile fs' (config_Path cfg (wc_Pins cfg)) = Some data \<and> registry_Load C data = Inr r \<and>
      (\<forall>name \<in> set (snd (upstreamServers cfg)). \<exists>ms. upstream_Tools num ss listed name = Inr ms \<and>
        (\<forall>m \<in> set ms. Manifest_Digest C m \<in> range Inr \<longrightarrow> (\<exists>d. registry_Check C r m = (d, None)))) \<and>
      (\<forall>p. p \<noteq> config_Path cfg (wc_Pins cfg) \<longrightarrow> fs' p = w_fs W p)
    else fs' = w_fs W"
proof -
  note run = assms(1) [unfolded cmdPin_def Let_def]
  obtain cfg' all where r: "reviewed_tools C W D wd cfgPath env keys path conn num listed = Inr (cfg', all)"
    using run by (auto split: sum.splits)
  have l: "cfg' = cfg" "efold (list_tools C num ss listed) [] (snd (upstreamServers cfg)) = Inr all"
    using r assms(5) by (auto simp: reviewed_tools_def assms(3,4) Let_def case_prod_unfold split: option.splits)
  show ?thesis
  proof (cases "write")
    case False
    then show ?thesis using run r by simp
  next
    case True
    obtain data where d: "PinAll C all = Inr data" "fs' = (w_fs W)(config_Path cfg (wc_Pins cfg) \<mapsto> Regular 420 data)"
      using run r l(1) True by (auto simp: replace_file_def split: sum.splits if_splits prod.splits bool.splits)
    note a = listed_tools [OF l(2)]
    have "list_all (\<lambda>m. utf8_valid (m_Server m) \<and> utf8_valid (m_Name m)) all"
      using assms(6) unfolding list_all_iff a by blast
    from PinAll_Load [OF d(1) assms(2) this] obtain r where r: "registry_Load C data = Inr r" "\<forall>m \<in> set all. \<exists>d. registry_Check C r m = (d, None)" by blast
    have t: "\<exists>ms. upstream_Tools num ss listed name = Inr ms" if "name \<in> set names" "efold (list_tools C num ss listed) out names = Inr all" for name names out
      using that by (induction names arbitrary: out) (auto simp: list_tools_Inr)
    have "\<exists>ms. upstream_Tools num ss listed name = Inr ms \<and> (\<forall>m \<in> set ms. Manifest_Digest C m \<in> range Inr \<longrightarrow> (\<exists>d. registry_Check C r m = (d, None)))"
      if n: "name \<in> set (snd (upstreamServers cfg))" for name
      using t [OF n l(2)] r(2) n unfolding a by blast
    then show ?thesis using True r(1) os_ReadFile_regular [of fs' "config_Path cfg (wc_Pins cfg)"] d(2)
      by (auto intro!: exI [of _ data] exI [of _ r])
  qed
qed

section \<open>Approving\<close>

lemma find_rev_Some: "find P (rev xs) = Some x \<Longrightarrow> x \<in> set xs \<and> P x"
  by (auto simp: find_Some_iff) (metis length_rev nth_mem set_rev)

text \<open>
  \<open>approve\<close> answers only what the server showed and what was confirmed: when it records something, the entry is one that
  the verified listing has under the number that was given, its arguments open the commitment of its decision, and the
  one statement that was submitted is the one signed for this entry with the outcome asked for.
\<close>

theorem approve_answers_what_was_shown:
  assumes "cmdApprove C W caPath keyPath ident n reject ttl yes stdin rnd t1 t2 http http' = Inr (Recorded sub)"
  shows "\<exists>pool k pending p st. approverClient C W caPath keyPath = Inr (pool, k) \<and> client_List C (Some k) ident rnd t1 (http pool) = Inr pending \<and>
    p \<in> set pending \<and> pn_DecisionSeq p = n \<and> client_Check C p = Inr () \<and> (yes \<or> confirmed stdin) \<and>
    client_Sign C (Some k) ident p (if reject then Rejected else Approved) ttl t2 = Inr st \<and> client_Submit (http' pool) st = Inr sub"
proof -
  obtain pool k pending p st where c: "approverClient C W caPath keyPath = Inr (pool, k)"
    "client_List C (Some k) ident rnd t1 (http pool) = Inr pending" "target_call pending n = Inr p" "yes \<or> confirmed stdin"
    "client_Sign C (Some k) ident p (if reject then Rejected else Approved) ttl t2 = Inr st" "client_Submit (http' pool) st = Inr sub"
    using assms by (auto simp: cmdApprove_def split: if_splits)
  have "p \<in> set pending \<and> pn_DecisionSeq p = n" using c(3) find_rev_Some [of "\<lambda>p. pn_DecisionSeq p = n" pending p] by (simp add: target_call_def)
  moreover have "client_Check C p = Inr ()" using c(5) by (simp add: client_Sign_def)
  ultimately show ?thesis using c by blast
qed

section \<open>Exit status\<close>

text \<open>The exit status of the program is 0 exactly when a command ran and did what it was asked.\<close>

lemma warden_exit:
  "warden_run command args w = (w', n) \<Longrightarrow> n \<in> {0, 1, 2} \<and>
     (n = 0 \<longleftrightarrow> (\<exists>c rest. args = c # rest \<and> c \<in> set command_names \<and> command c rest w = (w', Done))) \<and>
     (args = [] \<or> hd args \<notin> set command_names \<longrightarrow> w' = w)"
  by (auto simp: warden_run_def split: list.splits if_splits prod.splits command_end.splits)

section \<open>Serving after a rotation\<close>

lemma readPEM_same:
  "fs p = Some (Regular m b) \<Longrightarrow> fs' p = Some (Regular m b) \<Longrightarrow> readPEM P fs' p t private = readPEM P fs p t private"
  by (simp add: readPEM_def os_ReadFile_regular)

lemma loadCA_Inr:
  "loadCA X P fs cfg = Inr ca \<Longrightarrow> ReadCertificate X P fs (config_Path cfg (tf_CACert (wc_TLS cfg))) = Inr (ca_Cert ca)"
  by (auto simp: loadCA_def split: if_splits option.splits)

text \<open>
  A Warden that could serve before \<open>rotate-key\<close> can serve after it: with the configuration and the files that the command wrote
  it reads the incoming key, whose certificate is good for the new key ID as long as the root and the certificate last, and
  it is the key that the trust file names.
\<close>

theorem rotated_serves:
  assumes "warden_ready C W D wd path db cfg t s es" "cmdRotateKey C W D E wd path newKid reason ttl db = (fs', db', Inr n)"
    and "serve_key C W cfg before = Inr k0" "loadCA (w_x509 W) (w_pem W) (w_fs W) cfg = Inr ca" "x509_ok (w_x509 W) ca"
    and "\<forall>f \<in> {tf_CACert, tf_ServerKey, tf_ServerCert}. config_Path cfg (f (wc_TLS cfg)) \<noteq> trustFile cfg \<and> config_Path cfg (f (wc_TLS cfg)) \<noteq> path \<and>
      (\<exists>m b. w_fs W (config_Path cfg (f (wc_TLS cfg))) = Some (Regular m b))"
    and "x_Parse (w_x509 W) (ca_Cert ca) = Some root" "valid_at root now"
    and "whole_s (ro_Now E - 60 * ns_per_s) \<le> now" "now \<le> whole_s (ro_Now E + ttl)"
    and "pem_ok (w_pem W)" "primitives_ok C" "trustFile cfg \<noteq> path"
  shows "\<exists>k. serve_key C (W\<lparr>w_fs := fs'\<rparr>) (rotated_config cfg newKid) now = Inr k \<and>
    trustedKeys C fs' (rotated_config cfg newKid) = Inr (t(newKid \<mapsto> sk_pub k))"
proof -
  let ?X = "w_x509 W" and ?P = "w_pem W"
  note ready = assms(1) [unfolded warden_ready_def]
  obtain cfg' outgoing incoming der fs1 fs2 db1 s1 s' a where c:
    "rotate_prepare C W D E wd path newKid ttl = Inr (cfg', outgoing, incoming, der)"
    "WriteComposite ?P (w_fs W) (config_Path cfg' (receipt_path newKid ''.key'')) incoming (ro_Umask E) (ro_Key E) = (fs1, Inr ())"
    "WriteCertificate ?X ?P fs1 (config_Path cfg' (receipt_path newKid ''.pem'')) der (ro_Umask E) (ro_Cert E) = (fs2, Inr ())"
    "rotate_finish C D E path cfg' newKid (sk_pub incoming) fs2 = (fs', Inr ())"
    by (rule cmdRotateKey_Inr [OF assms(2)])
  note p = rotate_prepare_Inr [OF c(1)]
  have cfg': "cfg' = cfg" using p ready by simp
  note c = c [unfolded cfg'] and p = p [unfolded cfg']
  let ?key = "config_Path cfg (receipt_path newKid ''.key'')" and ?cert = "config_Path cfg (receipt_path newKid ''.pem'')"
  have gen: "NewPrivateKey C MLDSA65Ed25519 (ro_Seed E) = Inr incoming" using p by (simp add: GenerateKey_def)
  note gp = generated_parses [OF assms(12), of "ro_Seed E" incoming]
  obtain kn where k: "w_fs W ?key = None" "fs1 = (w_fs W)(?key \<mapsto> kn)" "\<And>fs''. fs'' ?key = Some kn \<Longrightarrow> ReadComposite C ?P fs'' ?key = Inr incoming"
    using WriteComposite_Inr [OF c(2) gen assms(11)] by blast
  obtain m where cn: "fs1 ?cert = None" "x_Parse ?X der \<noteq> None"
    "fs2 = fs1(?cert \<mapsto> Regular m (pem_EncodeToMemory ?P \<lparr>pb_Type = certificateType, pb_Headers = [], pb_Bytes = der\<rparr>))"
    using c(3) by (auto simp: WriteCertificate_def writeNew_Inr split: if_splits)
  obtain data where data: "os_ReadFile (w_fs W) (trustFile cfg) = Some data" using ready by (auto simp: trustedKeys_def)
  have dom: "w_fs W (trustFile cfg) \<noteq> None" by (rule os_ReadFile_dom [OF data])
  obtain cdata where "os_ReadFile (w_fs W) path = Some cdata" using ready by (auto simp: config_Load_def)
  then have dom2: "w_fs W path \<noteq> None" by (rule os_ReadFile_dom)
  have ext: "w_fs W \<subseteq>\<^sub>m fs2" using k(1,2) cn by (auto simp: map_le_def)
  have t2: "trustedKeys C fs2 cfg = Inr t" using ready data os_ReadFile_mono [OF data ext] by (simp add: trustedKeys_def)
  obtain fs3 where f: "addTrustedKey C fs2 cfg newKid (sk_pub incoming) (ro_Trust E) = (fs3, Inr ())"
    "fs' = fs3(path \<mapsto> Regular 420 (MarshalIndent (json_of_config D (rotated_config cfg newKid)) @ [newline]))"
    by (rule rotate_finish_Inr [OF c(4)])
  have kid: "value_ok newKid" using p by (auto simp: IssueKeyEpoch_def checkValue_def require_def split: if_splits)
  obtain tdata where td: "fs3 = fs2(trustFile cfg \<mapsto> Regular 420 tdata)" "keys_Parse C tdata = Inr (t(newKid \<mapsto> sk_pub incoming))"
    using addTrustedKey_Inr [OF f(1) utf8_valid_ascii [OF value_ok_ascii [OF kid]] gp(1,2)] p t2 by fastforce
  have new: "?cert \<noteq> trustFile cfg" "?cert \<noteq> path" "?key \<noteq> trustFile cfg" "?key \<noteq> path" "?cert \<noteq> ?key"
  proof -
    have "?cert \<noteq> ?key \<and> w_fs W ?cert = None" using cn(1) by (auto simp: k(2) split: if_splits)
    then show "?cert \<noteq> trustFile cfg" "?cert \<noteq> path" "?key \<noteq> trustFile cfg" "?key \<noteq> path" "?cert \<noteq> ?key"
      using k(1) dom dom2 by auto
  qed
  have at: "fs' ?key = Some kn" "fs' ?cert = Some (Regular m (pem_EncodeToMemory ?P \<lparr>pb_Type = certificateType, pb_Headers = [], pb_Bytes = der\<rparr>))"
    using new by (simp_all add: f(2) td(1) cn(3) k(2))
  have old: "fs' q = w_fs W q" if "q \<noteq> trustFile cfg" "q \<noteq> path" "w_fs W q \<noteq> None" for q
    using that k(1) cn(1) by (auto simp: f(2) td(1) cn(3) k(2))
  have pem: "readPEM ?P fs' (config_Path cfg (g (wc_TLS cfg))) ty priv = readPEM ?P (w_fs W) (config_Path cfg (g (wc_TLS cfg))) ty priv"
    if "g \<in> {tf_CACert, tf_ServerKey, tf_ServerCert}" for g ty priv
  proof -
    let ?q = "config_Path cfg (g (wc_TLS cfg))"
    have g: "?q \<noteq> trustFile cfg \<and> ?q \<noteq> path \<and> (\<exists>m b. w_fs W ?q = Some (Regular m b))" using bspec [OF assms(6) that] .
    then obtain m b where m: "w_fs W ?q = Some (Regular m b)" by blast
    have "fs' ?q = Some (Regular m b)" using old [of ?q] g m by simp
    with m show ?thesis by (rule readPEM_same)
  qed
  have der: "IssueKeyEpoch C ?X (ro_Serial E) ca newKid (sk_pub incoming) (ro_Now E - 60 * ns_per_s) (ro_Now E + ttl) = Inr der" using p assms(4) by auto
  obtain ep where ep: "VerifyKeyEpoch C ?X der [ca_Cert ca] now = Inr ep" "ke_Kid ep = newKid" "ke_Key ep = sk_pub incoming"
    using IssueKeyEpoch_VerifyKeyEpoch [OF der assms(5,7-10) gp(1,3,4)] p by (auto simp: ca_Pool_def)
  have cert: "ReadCertificate ?X ?P fs' ?cert = Inr der"
    using written_pem_read [where fs = fs' and path = ?cert, OF assms(11) at(2)] cn(2) by (simp add: ReadCertificate_def)
  have tls: "wc_TLS (rotated_config cfg newKid) = wc_TLS cfg" "wc_ReceiptCert (rotated_config cfg newKid) = receipt_path newKid ''.pem''"
    by (simp_all add: rotated_config_def)
  have "serve_key C (W\<lparr>w_fs := fs'\<rparr>) (rotated_config cfg newKid) now = Inr incoming"
    using assms(3) loadCA_Inr [OF assms(4)] k(3) [of fs', OF at(1)] cert ep receipt_path_nonempty [of newKid "''.pem''"]
      pem [of tf_CACert] pem [of tf_ServerKey] pem [of tf_ServerCert]
    by (auto simp: serve_key_def tls ReadCertificate_def ReadMLDSA_def)
  moreover have "trustedKeys C fs' cfg = Inr (t(newKid \<mapsto> sk_pub incoming))"
    using td(2) os_ReadFile_regular [of fs' "trustFile cfg"] assms(13) by (simp add: trustedKeys_def f(2) td(1))
  ultimately show ?thesis by auto
qed

end
