(* ===== verification/Console.thy ===== *)
theory Console
  imports Admin WardenVerify
begin

text \<open>
  The operator's console (\<open>cmd/warden/console.go\<close>): a local page that shows what an exported log says, whether it
  verifies, and what waits for a person, and that can answer when it was started with an approver's key.  A handler is a
  function of the files, of the answers of the approver API and of the request.
\<close>

section \<open>The feed\<close>

record feed_view =
  fv_Seq :: int
  fv_TS :: string
  fv_Type :: string
  fv_Tool :: string
  fv_Actor :: string
  fv_Outcome :: string
  fv_Rule :: string
  fv_Taint :: "string list"

definition view_receipt :: "receipt \<Rightarrow> feed_view" where
  "view_receipt r =
     (let v = \<lparr>fv_Seq = r_seq r, fv_TS = r_ts r, fv_Type = r_type r, fv_Tool = (case r_call r of None \<Rightarrow> [] | Some c \<Rightarrow> tool c),
          fv_Actor = (case r_actor r of None \<Rightarrow> [] | Some a \<Rightarrow> agent a @ '' for '' @ principal a), fv_Outcome = [], fv_Rule = [], fv_Taint = []\<rparr> in
      case r_decision r of Some d \<Rightarrow> v\<lparr>fv_Outcome := d_result d, fv_Rule := d_rule d, fv_Taint := d_taint d\<rparr>
      | None \<Rightarrow> (case r_result r of Some x \<Rightarrow> v\<lparr>fv_Outcome := res_status x, fv_Taint := res_taint x\<rparr>
        | None \<Rightarrow> (case r_approval r of Some a \<Rightarrow> v\<lparr>fv_Outcome := a_outcome a @ '' by '' @ a_approver a\<rparr> | None \<Rightarrow> v)))"

text \<open>A line that cannot be read or whose key is unknown is left out.\<close>

definition view_line :: "'x crypto_scheme \<Rightarrow> key_resolver \<Rightarrow> bytes \<Rightarrow> feed_view option" where
  "view_line C keys line =
     (if trim_space line = [] then None
      else (case open_line C keys line of Inl _ \<Rightarrow> None | Inr (_, _, r) \<Rightarrow> Some (view_receipt r)))"

definition summarize :: "'x crypto_scheme \<Rightarrow> bytes \<Rightarrow> key_resolver \<Rightarrow> feed_view list" where
  "summarize C log keys = rev (List.map_filter (view_line C keys) (split_lines (trim_space log)))"

section \<open>The verdict\<close>

record console =
  cs_token :: string
  cs_log :: string
  cs_keys :: string
  cs_anchor :: string
  cs_tokens :: string
  cs_tsaRoots :: string
  cs_chain :: string
  cs_root :: string
  cs_approver :: "(signer \<times> string) option"
  cs_ttl :: int

text \<open>The state in which a loop that stops at an error stops.\<close>

fun walk :: "('s \<Rightarrow> 'a \<Rightarrow> 'e + 's) \<Rightarrow> 's \<Rightarrow> 'a list \<Rightarrow> 's" where
  "walk step st [] = st"
| "walk step st (x # xs) = (case step st x of Inl _ \<Rightarrow> st | Inr st' \<Rightarrow> walk step st' xs)"

text \<open>\<open>follow\<close> verifies for what it teaches the directory; whether the log verifies is not looked at.\<close>

definition follow_rotations :: "'x crypto_scheme \<Rightarrow> 'st world \<Rightarrow> console \<Rightarrow> bytes \<Rightarrow> trusted \<Rightarrow> keyfile_error + rotating" where
  "follow_rotations C W c log t =
     ebind (ReadCertificate (w_x509 W) (w_pem W) (w_fs W) (cs_root c)) (\<lambda>der.
     Inr (v_keys (walk (verify_line C (Rotating C (w_x509 W)) (cs_chain c) [])
       (init_state [] (NewRotating t (Some [der]))) (fst (scan_lines log)))))"

datatype detail =
  AnchorUnread
| AnchorBad checkpoint_error
| LogFailed failure
| Verifies
| NothingAnchored
| NoAnchorYet

record verify_view =
  cv_OK :: bool
  cv_Detail :: detail
  cv_Receipts :: int
  cv_Checkpoints :: int
  cv_Unanchored :: int
  cv_Rotations :: int
  cv_Timestamps :: int
  cv_Earliest :: string

definition no_view :: "detail \<Rightarrow> verify_view" where
  "no_view d = \<lparr>cv_OK = False, cv_Detail = d, cv_Receipts = 0, cv_Checkpoints = 0, cv_Unanchored = 0, cv_Rotations = 0,
     cv_Timestamps = 0, cv_Earliest = []\<rparr>"

text \<open>Tokens that do not verify are not counted.\<close>

definition count_token :: "timestamp_lib \<Rightarrow> 'x crypto_scheme \<Rightarrow> bytes list \<Rightarrow> bytes \<Rightarrow> int \<times> time \<Rightarrow> bytes \<Rightarrow> int \<times> time" where
  "count_token T C roots line acc token = (case tsa_Verify T C token line (Some roots) of Inl _ \<Rightarrow> acc
     | Inr at \<Rightarrow> (fst acc + 1, if snd acc = zero_time \<or> at < snd acc then at else snd acc))"

definition console_timestamps :: "'x crypto_scheme \<Rightarrow> 'st world \<Rightarrow> console \<Rightarrow> int \<times> string" where
  "console_timestamps C W c =
     (case LoadRoots (w_certs W) (os_ReadFile (w_fs W) (cs_tsaRoots c)) of Inl _ \<Rightarrow> (0, []) | Inr roots \<Rightarrow>
      (case os_ReadFile (w_fs W) (cs_tokens c) of None \<Rightarrow> (0, []) | Some data \<Rightarrow>
      (case ReadTokens data of Inl _ \<Rightarrow> (0, []) | Inr tokens \<Rightarrow>
      (case os_ReadFile (w_fs W) (cs_anchor c) of None \<Rightarrow> (0, []) | Some anchor \<Rightarrow>
        (let (n, earliest) = foldl (\<lambda>acc line. foldl (count_token (w_tsa W) C roots line) acc (tokens (tsa_Digest C line)))
               (0, zero_time) (split_lines (trim_space anchor)) in
         (n, if earliest = zero_time then [] else rfc3339 earliest))))))"

definition console_anchor :: "'x crypto_scheme \<Rightarrow> 'st world \<Rightarrow> console \<Rightarrow> key_resolver \<Rightarrow> detail + checkpoint list \<times> bool" where
  "console_anchor C W c keys =
     (if cs_anchor c = [] then Inr ([], False)
      else (case read_file (w_fs W) (cs_anchor c) of Missing \<Rightarrow> Inr ([], True) | Unreadable \<Rightarrow> Inl AnchorUnread
        | Content data \<Rightarrow> ebind (map_err AnchorBad (ReadVerified C data (cs_chain c) keys)) (\<lambda>cps. Inr (cps, False))))"

definition console_verify :: "'x crypto_scheme \<Rightarrow> 'st world \<Rightarrow> console \<Rightarrow> keyring \<Rightarrow> bytes \<Rightarrow> verify_view" where
  "console_verify C W c kr log =
     (case console_anchor C W c (ring_resolve kr) of Inl d \<Rightarrow> no_view d | Inr (cps, missing) \<Rightarrow>
      (case ring_verify C (w_x509 W) kr log (cs_chain c) cps [] of
        Inl f \<Rightarrow> (no_view (LogFailed f))\<lparr>cv_Checkpoints := int (length cps)\<rparr>
      | Inr (rep, _) \<Rightarrow>
          let (n, earliest) = (if cs_tokens c \<noteq> [] \<and> cs_tsaRoots c \<noteq> [] \<and> cs_anchor c \<noteq> [] then console_timestamps C W c else (0, [])) in
          \<lparr>cv_OK = True, cv_Detail = (if cps \<noteq> [] then Verifies else if missing then NoAnchorYet else NothingAnchored),
           cv_Receipts = rep_Receipts rep, cv_Checkpoints = int (length cps), cv_Unanchored = rep_Unanchored rep,
           cv_Rotations = int (length (rep_Rotations rep)), cv_Timestamps = n, cv_Earliest = earliest\<rparr>))"

section \<open>The API\<close>

record waiting_view =
  wv_Seq :: int
  wv_TS :: string
  wv_Tool :: string
  wv_Agent :: string
  wv_For :: string
  wv_Task :: string
  wv_Rule :: string
  wv_Taint :: "string list"
  wv_Args :: bytes
  wv_Verified :: bool
  wv_State :: string

definition view_pending :: "'x crypto_scheme \<Rightarrow> pending_shown \<Rightarrow> waiting_view" where
  "view_pending C p = \<lparr>wv_Seq = pn_DecisionSeq p, wv_TS = pn_DecisionTS p, wv_Tool = tool (pn_Call p), wv_Agent = agent (pn_Actor p),
     wv_For = principal (pn_Actor p), wv_Task = pn_TaskID p, wv_Rule = pn_Rule p, wv_Taint = pn_Taint p, wv_Args = pn_Args p,
     wv_Verified = (client_Check C p = Inr ()),
     wv_State = (case pn_Approval p of None \<Rightarrow> ''waiting'' | Some a \<Rightarrow> a_outcome a @ '' by '' @ a_approver a)\<rparr>"

record state_reply =
  sr_ChainID :: string
  sr_Approver :: "string option"
  sr_Receipts :: "feed_view list"
  sr_Pending :: "waiting_view list"
  sr_Verify :: verify_view
  sr_PendingErr :: "client_error option"

text \<open>The keys that the feed and the verdict use: those of the trust file and, given a root, those that the log introduces.\<close>

definition console_keys :: "'x crypto_scheme \<Rightarrow> 'st world \<Rightarrow> console \<Rightarrow> bytes \<Rightarrow> nat + keyring" where
  "console_keys C W c log =
     ebind (of_option 500 (os_ReadFile (w_fs W) (cs_keys c))) (\<lambda>data.
     ebind (map_err (\<lambda>_. 500) (keys_Parse C data)) (\<lambda>t.
     if cs_root c = [] then Inr \<lparr>kr_trusted = t, kr_rotating = None, kr_rootKey = None\<rparr>
     else ebind (map_err (\<lambda>_. 500) (follow_rotations C W c log t)) (\<lambda>r.
       Inr \<lparr>kr_trusted = t, kr_rotating = Some r, kr_rootKey = None\<rparr>)))"

definition console_state ::
  "'x crypto_scheme \<Rightarrow> 'st world \<Rightarrow> console \<Rightarrow> bytes \<Rightarrow> time \<Rightarrow> pending_shown list ApproverApi.transport \<Rightarrow> nat + state_reply" where
  "console_state C W c rnd now http =
     ebind (of_option 500 (os_ReadFile (w_fs W) (cs_log c))) (\<lambda>log.
     ebind (console_keys C W c log) (\<lambda>kr.
     let out = \<lparr>sr_ChainID = cs_chain c, sr_Approver = map_option snd (cs_approver c), sr_Receipts = summarize C log (ring_resolve kr),
           sr_Pending = [], sr_Verify = console_verify C W c kr log, sr_PendingErr = None\<rparr> in
     case cs_approver c of None \<Rightarrow> Inr out
     | Some (k, me) \<Rightarrow> (case client_List C (Some k) me rnd now http of
          Inl e \<Rightarrow> Inr (out\<lparr>sr_PendingErr := Some e\<rparr>)
        | Inr ps \<Rightarrow> Inr (out\<lparr>sr_Pending := map (view_pending C) ps\<rparr>))))"

text \<open>The body of an approval, cut off at 64 kB, with unknown members ignored.\<close>

definition dec_approve_request :: "bytes \<Rightarrow> (int \<times> bool \<times> string) option" where
  "dec_approve_request body = do { j \<leftarrow> unmarshal_json body; f \<leftarrow> loose_fields [''seq'', ''reject'', ''reason''] j;
     n \<leftarrow> get_int f ''seq''; b \<leftarrow> get_bool f ''reject''; r \<leftarrow> get_str f ''reason''; Some (n, b, r) }"

definition console_approve ::
  "'x crypto_scheme \<Rightarrow> console \<Rightarrow> string \<Rightarrow> bytes option \<Rightarrow> bytes \<Rightarrow> time \<Rightarrow> time \<Rightarrow>
     pending_shown list ApproverApi.transport \<Rightarrow> submitted ApproverApi.transport \<Rightarrow> nat + submitted" where
  "console_approve C c verb body rnd t1 t2 http http' =
     (case cs_approver c of None \<Rightarrow> Inl 403 | Some (k, me) \<Rightarrow>
      if verb \<noteq> ''POST'' then Inl 405
      else ebind (of_option 400 body) (\<lambda>b.
      ebind (of_option 400 (dec_approve_request (take 65536 b))) (\<lambda>(n, reject, _).
      ebind (map_err (\<lambda>_. 502) (client_List C (Some k) me rnd t1 http)) (\<lambda>pending.
      ebind (map_err (\<lambda>_. 404) (target_call pending n)) (\<lambda>p.
      ebind (map_err (\<lambda>_. 400) (client_Sign C (Some k) me p (if reject then Rejected else Approved) (cs_ttl c) t2)) (\<lambda>st.
      map_err (\<lambda>_. 502) (client_Submit http' st)))))))"

text \<open>Every call of the API carries the token of this start, in a header or in the address.\<close>

definition console_guard :: "console \<Rightarrow> string \<Rightarrow> string \<Rightarrow> nat + 'a \<Rightarrow> nat + 'a" where
  "console_guard c header query h = (if (if header = [] then query else header) \<noteq> cs_token c then Inl 403 else h)"

datatype console_reply = Page | State state_reply | Answer submitted

definition console_handler ::
  "'x crypto_scheme \<Rightarrow> 'st world \<Rightarrow> console \<Rightarrow> string \<Rightarrow> string \<Rightarrow> string \<Rightarrow> string \<Rightarrow> bytes option \<Rightarrow> bytes \<Rightarrow> time \<Rightarrow> time \<Rightarrow>
     pending_shown list ApproverApi.transport \<Rightarrow> submitted ApproverApi.transport \<Rightarrow> nat + console_reply" where
  "console_handler C W c path header query verb body rnd t1 t2 http http' =
     (if path = ''/api/state'' then console_guard c header query (ebind (console_state C W c rnd t1 http) (\<lambda>s. Inr (State s)))
      else if path = ''/api/approve'' then console_guard c header query (ebind (console_approve C c verb body rnd t1 t2 http http') (\<lambda>s. Inr (Answer s)))
      else if path \<noteq> ''/'' then Inl 404 else Inr Page)"

section \<open>Starting\<close>

definition isLoopback :: "'st world \<Rightarrow> string \<Rightarrow> bool" where
  "isLoopback W host \<longleftrightarrow> host = ''localhost'' \<or> w_ParseIP W host = Some True"

text \<open>\<open>host\<close> is what \<open>net.SplitHostPort\<close> makes of \<open>--listen\<close>; \<open>raw\<close> are the eighteen random bytes of the token.\<close>

definition cmdConsole ::
  "'x crypto_scheme \<Rightarrow> 'st world \<Rightarrow> console \<Rightarrow> string option \<Rightarrow> string \<Rightarrow> string \<Rightarrow> string \<Rightarrow> bytes \<Rightarrow> admin_error + console" where
  "cmdConsole C W c host caPath keyPath ident raw =
     (if cs_log c = [] \<or> cs_chain c = [] \<or> cs_keys c = [] then Inl MissingFlags
      else if (keyPath = []) \<noteq> (ident = []) then Inl MissingFlags
      else if (case host of None \<Rightarrow> True | Some h \<Rightarrow> \<not> isLoopback W h) then Inl MissingFlags
      else ebind (if keyPath = [] then Inr None
          else ebind (approverClient C W caPath keyPath) (\<lambda>(_, k). Inr (Some (k, ident)))) (\<lambda>ap.
        Inr (c\<lparr>cs_approver := ap, cs_token := b64_encode raw\<rparr>)))"

end
