(* ===== verification/ConsoleProps.thy ===== *)
theory ConsoleProps
  imports Console
begin

text \<open>
  The console says about a log what the verifier says, and shows all of a log that verifies.
\<close>

section \<open>Verifying twice\<close>

text \<open>A directory that has learned at least what another has.\<close>

definition rot_le :: "rotating \<Rightarrow> rotating \<Rightarrow> bool" where
  "rot_le r s \<longleftrightarrow> rot_known r \<subseteq>\<^sub>m rot_known s \<and> rot_roots r = rot_roots s"

lemma rot_le_refl: "rot_le r r"
  by (simp add: rot_le_def)

lemma rot_le_trans: "rot_le r s \<Longrightarrow> rot_le s t \<Longrightarrow> rot_le r t"
  by (auto simp: rot_le_def intro: map_le_trans)

lemma Accept_grows: "rotating_Accept C X r kid d c t = Inr r' \<Longrightarrow> rot_le r r'"
  using rotating_Accept_cases [of C X r kid d c t r'] by (auto simp: rot_le_def map_le_def)

text \<open>What was accepted once is accepted again, and teaches nothing.\<close>

lemma Accept_again:
  assumes "rotating_Accept C X r kid d c t = Inr r'" "rot_le r' s"
  shows "rotating_Accept C X s kid d c t = Inr s"
proof -
  obtain roots where roots: "rot_roots r = Some roots" using assms(1) by (auto simp: rotating_Accept_def)
  with assms(1) obtain e where e: "VerifyKeyEpoch C X c roots t = Inr e" "ke_Kid e = kid" "digest_SHA256 (sha256 C) (pub_Bytes (ke_Key e)) = d"
    "(case rot_known r kid of Some p \<Rightarrow> if pub_Bytes p = pub_Bytes (ke_Key e) then Inr r else Inl KidKnown
      | None \<Rightarrow> Inr (r\<lparr>rot_known := (rot_known r)(kid \<mapsto> ke_Key e), rot_learned := rot_learned r @ [kid]\<rparr>)) = Inr r'"
    by (simp add: rotating_Accept_def del: not_None_eq) blast
  then obtain p where p: "rot_known r' kid = Some p" "pub_Bytes p = pub_Bytes (ke_Key e)" by (auto split: option.splits if_splits)
  have "rot_known s kid = Some p" using p(1) assms(2) by (auto simp: rot_le_def map_le_def dom_def)
  moreover have "rot_roots s = Some roots" using roots assms(2) Accept_grows [OF assms(1)] by (simp add: rot_le_def)
  ultimately show ?thesis using e(1-3) p(2) by (simp add: rotating_Accept_def)
qed

lemma open_line_mono:
  assumes "open_line C keys line = Inr x" "keys \<subseteq>\<^sub>m keys'"
  shows "open_line C keys' line = Inr x"
proof -
  obtain s kid pub r where o: "ParseLine C line = Inr s" "signed_KeyID C s = Inr kid" "keys kid = Some pub" "receipt_Verify C pub s = Inr r" "x = (kid, pub, r)"
    using assms(1) by (auto simp: open_line_def)
  moreover have "keys' kid = Some pub" using o(3) assms(2) by (auto simp: map_le_def dom_def)
  ultimately show ?thesis by (simp add: open_line_def)
qed

text \<open>The heads of checkpoints play no part in whether a line is accepted.\<close>

lemma check_same:
  fixes st :: "'k verify_state"
  shows "check_link C chainID revs (st\<lparr>v_heads := h, v_keys := k\<rparr>) kid pub r = check_link C chainID revs st kid pub r"
    "check_decision (st\<lparr>v_heads := h, v_keys := k\<rparr>) r = check_decision st r"
    "check_approval (st\<lparr>v_heads := h, v_keys := k\<rparr>) r = check_approval st r"
    "check_result (st\<lparr>v_heads := h, v_keys := k\<rparr>) r = check_result st r"
    "check_rotation K (st\<lparr>v_heads := h\<rparr>) kid r = check_rotation K st kid r"
  by (cases st; simp only: check_link_def check_decision_def check_approval_def check_result_def check_rotation_def verify_state.simps)+

lemmas check_same_heads = check_same(1-4) [where k = "v_keys st" and st = st for st, simplified]

lemma check_body_heads:
  "check_body K (st\<lparr>v_heads := h\<rparr>) kid signer r =
     (case check_body K st kid signer r of Inl e \<Rightarrow> Inl e | Inr st2 \<Rightarrow> Inr (st2\<lparr>v_heads := h\<rparr>))"
  for st :: "'k verify_state"
proof -
  consider "r_type r = TypeDecision" | "r_type r \<noteq> TypeDecision" "r_type r = TypeApproval"
    | "r_type r \<noteq> TypeDecision" "r_type r \<noteq> TypeApproval" "r_type r = TypeResult"
    | "r_type r \<noteq> TypeDecision" "r_type r \<noteq> TypeApproval" "r_type r \<noteq> TypeResult" "r_type r = TypeKeyRotation"
    | "r_type r \<noteq> TypeDecision" "r_type r \<noteq> TypeApproval" "r_type r \<noteq> TypeResult" "r_type r \<noteq> TypeKeyRotation" by blast
  then show ?thesis
  proof cases
    case 1 then show ?thesis by (cases "check_decision st r") (simp_all add: check_body_def check_same_heads)
  next
    case 2 then show ?thesis by (cases "check_approval st r") (simp_all add: check_body_def check_same_heads)
  next
    case 3 then show ?thesis by (cases "check_result st r") (simp_all add: check_body_def check_same_heads)
  next
    case 4 then show ?thesis by (cases "check_rotation K st kid r") (auto simp: check_body_def check_same(5))
  next
    case 5 then show ?thesis by (simp add: check_body_def)
  qed
qed

definition finish_heads :: "'x crypto_scheme \<Rightarrow> bytes \<Rightarrow> 'k verify_state \<Rightarrow> (int \<rightharpoonup> string) \<Rightarrow> (int \<rightharpoonup> string)" where
  "finish_heads C line st h = (if h (v_seq st) \<noteq> None then h(v_seq st \<mapsto> digest_SHA256 (sha256 C) line) else h)"

lemma verify_line_heads:
  "verify_line C K chainID revs (st\<lparr>v_heads := h\<rparr>) line =
     (case verify_line C K chainID revs st line of Inl e \<Rightarrow> Inl e | Inr st2 \<Rightarrow> Inr (st2\<lparr>v_heads := finish_heads C line st2 h\<rparr>))"
  for st :: "'k verify_state"
proof -
  let ?st = "st\<lparr>v_lineNo := v_lineNo st + 1\<rparr>"
  have st: "(st\<lparr>v_heads := h\<rparr>)\<lparr>v_lineNo := v_lineNo st + 1\<rparr> = ?st\<lparr>v_heads := h\<rparr>" by simp
  have f: "finish_line C line r (st1\<lparr>v_heads := h\<rparr>) = (finish_line C line r st1)\<lparr>v_heads := finish_heads C line (finish_line C line r st1) h\<rparr>"
    for r and st1 :: "'k verify_state"
    by (simp add: finish_line_def finish_heads_def Let_def)
  show ?thesis
  proof (cases "open_line C (k_Resolve K (v_keys st)) line")
    case (Inr x)
    obtain kid pub r where x: "x = (kid, pub, r)" by (cases x)
    show ?thesis
    proof (cases "check_link C chainID revs ?st kid pub r")
      case Inr': (Inr signer)
      show ?thesis
        using Inr Inr' x by (cases "check_body K ?st kid signer r")
          (simp_all add: verify_line_def Let_def st check_same_heads check_body_heads f)
    qed (use Inr x in \<open>simp add: verify_line_def Let_def st check_same_heads\<close>)
  qed (simp add: verify_line_def Let_def)
qed

lemma check_body_keys:
  assumes "check_body (Rotating C X) st kid signer r = Inr st2" "rot_le (v_keys st2) R"
  shows "check_body (Rotating C X) (st\<lparr>v_heads := h, v_keys := R\<rparr>) kid signer r = Inr (st2\<lparr>v_heads := h, v_keys := R\<rparr>)"
proof (cases "r_type r = TypeKeyRotation")
  case True
  then have t: "r_type r \<noteq> TypeDecision" "r_type r \<noteq> TypeApproval" "r_type r \<noteq> TypeResult" by (simp_all add: receipt_consts)
  obtain ks hd where k: "check_rotation (Rotating C X) st kid r = Inr (ks, hd)"
    "st2 = st\<lparr>v_keys := ks, v_signer := kh_To hd, v_rotations := v_rotations st @ [hd]\<rparr>"
    using assms(1) t True by (auto simp: check_body_def)
  obtain rot cert at where a: "r_rotation r = Some rot" "rot_from rot = kid" "b64_decode (rot_certificate rot) = Some cert" "parse_ts (r_ts r) = Some at"
    "rotating_Accept C X (v_keys st) (rot_to rot) (rot_key rot) cert at = Inr ks"
    "hd = \<lparr>kh_Seq = v_seq st, kh_TS = r_ts r, kh_From = rot_from rot, kh_To = rot_to rot, kh_Reason = rot_reason rot\<rparr>"
    using k(1) by (auto simp: check_rotation_def rotating_Accept_Some split: option.splits if_splits)
  have "rotating_Accept C X R (rot_to rot) (rot_key rot) cert at = Inr R"
    using Accept_again [OF a(5)] assms(2) k(2) by simp
  then have "check_rotation (Rotating C X) (st\<lparr>v_heads := h, v_keys := R\<rparr>) kid r = Inr (R, hd)"
    using a by (simp add: check_rotation_def rotating_Accept_Some [THEN iffD2])
  then show ?thesis using t True k(2) by (simp add: check_body_def)
next
  case False
  then show ?thesis using assms(1) by (auto simp: check_body_def check_same split: if_splits)
qed

lemma check_body_grows:
  assumes "check_body (Rotating C X) st kid signer r = Inr st2"
  shows "rot_le (v_keys st) (v_keys st2)"
  using assms Accept_grows rot_le_refl
  by (auto simp: check_body_def check_rotation_def rotating_Accept_Some split: if_splits option.splits)

lemma verify_line_grows: "verify_line C (Rotating C X) chainID revs st line = Inr st2 \<Longrightarrow> rot_le (v_keys st) (v_keys st2)"
  by (auto simp: verify_line_def Let_def finish_line_def dest!: check_body_grows)

lemma verify_line_keys:
  fixes st :: "rotating verify_state"
  assumes "verify_line C (Rotating C X) chainID revs st line = Inr st2" "rot_le (v_keys st2) R"
  shows "verify_line C (Rotating C X) chainID revs (st\<lparr>v_keys := R\<rparr>) line = Inr (st2\<lparr>v_keys := R\<rparr>)"
proof -
  let ?K = "Rotating C X" and ?st = "st\<lparr>v_lineNo := v_lineNo st + 1\<rparr>"
  obtain kid pub r signer st1 where v: "open_line C (k_Resolve ?K (v_keys st)) line = Inr (kid, pub, r)"
    "check_link C chainID revs ?st kid pub r = Inr signer" "check_body ?K ?st kid signer r = Inr st1" "st2 = finish_line C line r st1"
    using assms(1) by (auto simp: verify_line_def Let_def)
  have k2: "v_keys st2 = v_keys st1" by (simp add: v(4) finish_line_def Let_def)
  have le: "rot_le (v_keys st) R" by (rule rot_le_trans [OF verify_line_grows [OF assms(1)] assms(2)])
  have o: "open_line C (k_Resolve ?K R) line = Inr (kid, pub, r)"
    by (rule open_line_mono [OF v(1)]) (use le in \<open>auto simp: rot_le_def map_le_def Rotating_Resolve dom_def\<close>)
  obtain s' where s': "s' = ?st\<lparr>v_heads := v_heads ?st, v_keys := R\<rparr>" by blast
  have st: "(st\<lparr>v_keys := R\<rparr>)\<lparr>v_lineNo := v_lineNo (st\<lparr>v_keys := R\<rparr>) + 1\<rparr> = s'" by (simp add: s')
  have b: "check_body ?K s' kid signer r = Inr (st1\<lparr>v_heads := v_heads ?st, v_keys := R\<rparr>)"
    unfolding s' by (rule check_body_keys [OF v(3)]) (use assms(2) k2 in simp)
  have h: "v_heads st1 = v_heads ?st" using v(3) by (auto simp: check_body_def split: if_splits prod.splits)
  have l: "check_link C chainID revs s' kid pub r = Inr signer"
    unfolding s' using v(2) by (simp only: check_same(1))
  have f: "finish_line C line r (st1\<lparr>v_heads := v_heads ?st, v_keys := R\<rparr>) = st2\<lparr>v_keys := R\<rparr>"
    by (simp add: v(4) h [symmetric] finish_line_def Let_def)
  have "k_Resolve ?K (v_keys s') = k_Resolve ?K R" by (simp add: s')
  then show ?thesis unfolding verify_line_def st Let_def using o l b f by simp
qed

text \<open>
  Verifying again with the directory that the first pass left gives the same answer, whatever checkpoints the
  second pass has.
\<close>

lemma walk_grows: "rot_le (v_keys st) (v_keys (walk (verify_line C (Rotating C X) chainID revs) st ls))"
proof (induction ls arbitrary: st)
  case (Cons l ls)
  then show ?case
    by (cases "verify_line C (Rotating C X) chainID revs st l") (auto intro: rot_le_refl rot_le_trans verify_line_grows)
qed (simp add: rot_le_refl)

lemma walk_again:
  fixes st :: "rotating verify_state"
  assumes "R = v_keys (walk (verify_line C (Rotating C X) chainID revs) st ls)"
  shows "efold (verify_line C (Rotating C X) chainID revs) (st\<lparr>v_heads := h, v_keys := R\<rparr>) ls =
    efold (verify_line C (Rotating C X) chainID revs) (st\<lparr>v_heads := h\<rparr>) ls"
    and "efold (verify_line C (Rotating C X) chainID revs) (st\<lparr>v_heads := h\<rparr>) ls = Inr st' \<Longrightarrow> v_keys st' = R"
  using assms
proof (induction ls arbitrary: st h st')
  case (Cons l ls)
  let ?v = "verify_line C (Rotating C X) chainID revs"
  {
    case 1
    show ?case
    proof (cases "?v st l")
      case (Inl e)
      then have "R = v_keys st" using 1 by simp
      then show ?thesis by simp
    next
      case (Inr st2)
      have R: "R = v_keys (walk ?v st2 ls)" using 1 Inr by simp
      have le: "rot_le (v_keys st2) R" unfolding R by (rule walk_grows)
      let ?h = "finish_heads C l st2 h"
      have a: "?v (st\<lparr>v_heads := h\<rparr>) l = Inr (st2\<lparr>v_heads := ?h\<rparr>)" using Inr by (simp add: verify_line_heads)
      have "?v ((st\<lparr>v_heads := h\<rparr>)\<lparr>v_keys := R\<rparr>) l = Inr ((st2\<lparr>v_heads := ?h\<rparr>)\<lparr>v_keys := R\<rparr>)"
        by (rule verify_line_keys [OF a]) (use le in simp)
      then show ?thesis using Cons.IH(1) [OF R, of ?h] a by simp
    qed
  next
    case 2
    show ?case
    proof (cases "?v st l")
      case (Inl e)
      then show ?thesis using 2 by (simp add: verify_line_heads)
    next
      case (Inr st2)
      have R: "R = v_keys (walk ?v st2 ls)" using 2 Inr by simp
      then show ?thesis using Cons.IH(2) [where st = st2 and h = "finish_heads C l st2 h" and st' = st', OF _ R] 2(1) Inr by (simp add: verify_line_heads)
    qed
  }
qed simp_all

lemma learned_verifies_same:
  assumes "R = v_keys (walk (verify_line C (Rotating C X) chainID []) (init_state [] r) (fst (scan_lines log)))"
  shows "VerifyAll C log chainID (Rotating C X) R cps [] = VerifyAll C log chainID (Rotating C X) r cps []"
    and "VerifyAll C log chainID (Rotating C X) r cps [] = Inr (rep, r') \<Longrightarrow> r' = R"
proof -
  have i: "init_state cps R = (init_state [] r)\<lparr>v_heads := init_heads cps, v_keys := R\<rparr>"
    "init_state cps r = (init_state [] r)\<lparr>v_heads := init_heads cps\<rparr>" by (simp_all add: init_state_def)
  show "VerifyAll C log chainID (Rotating C X) R cps [] = VerifyAll C log chainID (Rotating C X) r cps []"
    unfolding VerifyAll_def i using walk_again(1) [OF assms, of "init_heads cps"] by (simp add: case_prod_unfold)
  show "r' = R" if "VerifyAll C log chainID (Rotating C X) r cps [] = Inr (rep, r')"
    using that unfolding VerifyAll_def i
    by (auto simp: case_prod_unfold Let_def split: if_splits dest!: walk_again(2) [OF assms])
qed

section \<open>The verdict is the verifier's\<close>

text \<open>The flags of a \<open>warden-verify\<close> that looks at the files of the console.\<close>

definition console_flags :: "console \<Rightarrow> flags" where
  "console_flags c = \<lparr>fl_log = cs_log c, fl_chain = cs_chain c, fl_keys = cs_keys c, fl_anchor = cs_anchor c, fl_tokens = [],
     fl_tsaRoots = [], fl_root = cs_root c, fl_revocations = [],
     fl_store = \<lparr>sf_endpoint = [], sf_region = [], sf_bucket = [], sf_prefix = [], sf_pathStyle = False, sf_skew = 0, sf_timeout = 0\<rparr>,
     fl_json = True, fl_version = False, fl_NArg = 0\<rparr>"

lemma console_flags_simps [simp]:
  "fl_log (console_flags c) = cs_log c" "fl_chain (console_flags c) = cs_chain c" "fl_keys (console_flags c) = cs_keys c"
  "fl_anchor (console_flags c) = cs_anchor c" "fl_tokens (console_flags c) = []" "fl_tsaRoots (console_flags c) = []"
  "fl_root (console_flags c) = cs_root c" "fl_revocations (console_flags c) = []" "\<not> sf_set (fl_store (console_flags c))"
  "fl_json (console_flags c)" "\<not> fl_version (console_flags c)" "fl_NArg (console_flags c) = 0"
  by (simp_all add: console_flags_def sf_set_def)

lemma console_run:
  assumes "cs_log c \<noteq> []" "cs_chain c \<noteq> []" "cs_keys c \<noteq> []" "os_ReadFile (w_fs W) (cs_log c) = Some log"
    and "load_trust C W (console_flags c) = Inr t" "load_root W (console_flags c) t = Inr kr0"
  shows "snd (run_stages C W (console_flags c) st) = Inr res \<longleftrightarrow>
    (\<exists>kr cps labels fl rep kr'. learn_keys C W (console_flags c) (cs_anchor c \<noteq> []) (zero_result (cs_chain c)) kr0 = Inr kr \<and>
      read_anchor C W (console_flags c) (zero_result (cs_chain c)) (ring_resolve kr) = Inr (cps, labels, fl) \<and>
      ring_verify C (w_x509 W) kr log (cs_chain c) cps [] = Inr (rep, kr') \<and>
      res = finish ((zero_result (cs_chain c))\<lparr>rr_Checkpoints := int (length cps)\<rparr>) rep cps)"
proof -
  have p: "prepare C W (console_flags c) =
      ebind (learn_keys C W (console_flags c) (cs_anchor c \<noteq> []) (zero_result (cs_chain c)) kr0) (\<lambda>kr. Inr (kr, None))"
    using assms by (simp add: prepare_def usage_ok_def open_store_def)
  have v: "verify_log C W (console_flags c) b kr (cps, labels, zero_result (cs_chain c)) =
      ebind (map_err (\<lambda>e. StopFailed ((zero_result (cs_chain c))\<lparr>rr_Checkpoints := int (length cps), rr_Stage := ''log'', rr_Failure := Some e\<rparr>))
        (ring_verify C (w_x509 W) kr log (cs_chain c) cps [])) (\<lambda>(rep, _).
        Inr (finish ((zero_result (cs_chain c))\<lparr>rr_Checkpoints := int (length cps)\<rparr>) rep cps))" for b kr cps labels
    by (simp add: verify_log_def Let_def read_revocations_def check_timestamps_def open_log_Inr [THEN iffD2, of W "console_flags c", simplified, OF assms(4)])
  show ?thesis
  proof (cases "learn_keys C W (console_flags c) (cs_anchor c \<noteq> []) (zero_result (cs_chain c)) kr0")
    case (Inr kr)
    show ?thesis
    proof (cases "read_anchor C W (console_flags c) (zero_result (cs_chain c)) (ring_resolve kr)")
      case Inr': (Inr x)
      obtain cps labels fl where x: "x = (cps, labels, fl)" by (cases x)
      show ?thesis using Inr Inr' x by (auto simp: run_stages_def p read_anchors_def v)
    qed (use Inr in \<open>simp add: run_stages_def p read_anchors_def\<close>)
  qed (simp add: run_stages_def p)
qed

definition ring_accepts :: "'x crypto_scheme \<Rightarrow> x509 \<Rightarrow> bytes \<Rightarrow> string \<Rightarrow> keyring \<Rightarrow> checkpoint list \<Rightarrow> report \<Rightarrow> bool" where
  "ring_accepts C X log chainID kr cps rep \<longleftrightarrow> (\<exists>kr'. ring_verify C X kr log chainID cps [] = Inr (rep, kr'))"

lemma ring_accepts_rotating:
  "kr_rotating kr = Some r \<Longrightarrow> ring_accepts C X log chainID kr cps rep \<longleftrightarrow> (\<exists>r'. VerifyAll C log chainID (Rotating C X) r cps [] = Inr (rep, r'))"
  by (auto simp: ring_accepts_def ring_verify_def)

text \<open>Without the checkpoints a log is accepted all the more.\<close>

lemma ring_accepts_unanchored: "ring_accepts C X log chainID kr cps rep \<Longrightarrow> \<exists>rep0. ring_accepts C X log chainID kr [] rep0"
  by (cases "kr_rotating kr") (fastforce simp: ring_accepts_def ring_verify_def VerifyAll_Inr verified_log_def)+

lemma console_state_Inr:
  assumes "console_state C W c rnd now http = Inr reply"
  obtains log kr where "os_ReadFile (w_fs W) (cs_log c) = Some log" "console_keys C W c log = Inr kr"
    "sr_Verify reply = console_verify C W c kr log" "sr_Receipts reply = summarize C log (ring_resolve kr)"
proof -
  obtain log where log: "os_ReadFile (w_fs W) (cs_log c) = Some log" using assms by (auto simp: console_state_def)
  obtain kr where kr: "console_keys C W c log = Inr kr" using assms log by (auto simp: console_state_def)
  have "sr_Verify reply = console_verify C W c kr log \<and> sr_Receipts reply = summarize C log (ring_resolve kr)"
  proof (cases "cs_approver c")
    case (Some x)
    then show ?thesis
      using assms log kr by (cases x; cases "client_List C (Some (fst x)) (snd x) rnd now http") (auto simp: console_state_def Let_def)
  qed (use assms log kr in \<open>auto simp: console_state_def Let_def\<close>)
  with log kr that show ?thesis by blast
qed

lemma console_keys_ring:
  assumes "console_keys C W c log = Inr kr"
    and "\<forall>der cert. cs_root c \<noteq> [] \<longrightarrow> ReadCertificate (w_x509 W) (w_pem W) (w_fs W) (cs_root c) = Inr der \<longrightarrow>
      x_Parse (w_x509 W) der = Some cert \<longrightarrow> revocation_RootKey (Some cert) \<in> range Inr"
  obtains t kr0 where "load_trust C W (console_flags c) = Inr t" "load_root W (console_flags c) t = Inr kr0"
    "ring_accepts C (w_x509 W) log (cs_chain c) kr0 = ring_accepts C (w_x509 W) log (cs_chain c) kr"
    "\<And>cps rep kr'. ring_verify C (w_x509 W) kr0 log (cs_chain c) cps [] = Inr (rep, kr') \<Longrightarrow> kr_rotating kr' = kr_rotating kr \<and> kr_trusted kr' = kr_trusted kr"
    "kr_rotating kr0 = None \<longleftrightarrow> cs_root c = []" "cs_root c = [] \<Longrightarrow> kr0 = kr"
proof -
  obtain data t where t: "os_ReadFile (w_fs W) (cs_keys c) = Some data" "keys_Parse C data = Inr t"
    using assms(1) by (auto simp: console_keys_def)
  have l: "load_trust C W (console_flags c) = Inr t" using t by (simp add: load_trust_def)
  show ?thesis
  proof (cases "cs_root c = []")
    case True
    then have "kr = \<lparr>kr_trusted = t, kr_rotating = None, kr_rootKey = None\<rparr>" using assms(1) t by (simp add: console_keys_def)
    with True show ?thesis by (intro that [of t kr, OF l]) (auto simp: load_root_def ring_verify_def)
  next
    case False
    obtain der r where d: "ReadCertificate (w_x509 W) (w_pem W) (w_fs W) (cs_root c) = Inr der"
      "r = v_keys (walk (verify_line C (Rotating C (w_x509 W)) (cs_chain c) []) (init_state [] (NewRotating t (Some [der]))) (fst (scan_lines log)))"
      "kr = \<lparr>kr_trusted = t, kr_rotating = Some r, kr_rootKey = None\<rparr>"
      using assms(1) t False by (auto simp: console_keys_def follow_rotations_def)
    obtain cert where cert: "x_Parse (w_x509 W) der = Some cert" using d(1) by (auto simp: ReadCertificate_def split: if_splits)
    then obtain rk where rk: "revocation_RootKey (Some cert) = Inr rk" using assms(2) False d(1) by blast
    let ?kr0 = "\<lparr>kr_trusted = t, kr_rotating = Some (NewRotating t (Some [der])), kr_rootKey = Some rk\<rparr>"
    note same = learned_verifies_same [OF d(2)]
    show ?thesis
    proof (rule that [OF l, of ?kr0])
      show "load_root W (console_flags c) t = Inr ?kr0" using False d(1) cert rk by (simp add: load_root_def)
      show "ring_accepts C (w_x509 W) log (cs_chain c) ?kr0 = ring_accepts C (w_x509 W) log (cs_chain c) kr"
        by (intro ext) (simp add: ring_accepts_rotating d(3) same(1))
      show "kr_rotating kr' = kr_rotating kr \<and> kr_trusted kr' = kr_trusted kr"
        if "ring_verify C (w_x509 W) ?kr0 log (cs_chain c) cps [] = Inr (rep, kr')" for cps rep kr'
        using that same(2) by (auto simp: ring_verify_def d(3))
    qed (use False in simp_all)
  qed
qed

lemma console_verify_OK:
  "cv_OK (console_verify C W c kr log) \<longleftrightarrow> (\<exists>cps missing rep. console_anchor C W c (ring_resolve kr) = Inr (cps, missing) \<and>
     ring_accepts C (w_x509 W) log (cs_chain c) kr cps rep)"
  by (auto simp: console_verify_def ring_accepts_def no_view_def Let_def split: sum.splits prod.splits if_splits)

lemma anchor_both:
  assumes "cs_anchor c = [] \<or> os_ReadFile (w_fs W) (cs_anchor c) \<noteq> None"
  shows "(\<exists>labels fl. read_anchor C W (console_flags c) res keys = Inr (cps, labels, fl)) \<longleftrightarrow> (\<exists>missing. console_anchor C W c keys = Inr (cps, missing))"
proof (cases "cs_anchor c = []")
  case False
  then obtain data where d: "os_ReadFile (w_fs W) (cs_anchor c) = Some data" using assms by blast
  have "read_file (w_fs W) (cs_anchor c) = Content data" using d by (simp only: read_file_content)
  with False d show ?thesis by (auto simp: read_anchor_def console_anchor_def Let_def)
qed (auto simp: read_anchor_def console_anchor_def)

lemma finish_views: "rr_Receipts (finish res rep cps) = rep_Receipts rep" "rr_Unanchored (finish res rep cps) = rep_Unanchored rep"
    "rr_Rotations (finish res rep cps) = rep_Rotations rep" "rr_Checkpoints (finish res rep cps) = rr_Checkpoints res"
  by (simp_all add: finish_def Let_def split: option.split)

text \<open>What the verifier computes from the files of the console, in terms of the keys that the console uses.\<close>

lemma console_run_accepts:
  assumes "cs_log c \<noteq> []" "cs_chain c \<noteq> []" "cs_keys c \<noteq> []" "os_ReadFile (w_fs W) (cs_log c) = Some log"
    and "console_keys C W c log = Inr kr" "cs_anchor c = [] \<or> os_ReadFile (w_fs W) (cs_anchor c) \<noteq> None"
    and "\<forall>der cert. cs_root c \<noteq> [] \<longrightarrow> ReadCertificate (w_x509 W) (w_pem W) (w_fs W) (cs_root c) = Inr der \<longrightarrow>
      x_Parse (w_x509 W) der = Some cert \<longrightarrow> revocation_RootKey (Some cert) \<in> range Inr"
  shows "snd (run_stages C W (console_flags c) st) = Inr res \<longleftrightarrow>
    (\<exists>cps missing rep. console_anchor C W c (ring_resolve kr) = Inr (cps, missing) \<and> ring_accepts C (w_x509 W) log (cs_chain c) kr cps rep \<and>
      res = finish ((zero_result (cs_chain c))\<lparr>rr_Checkpoints := int (length cps)\<rparr>) rep cps)"
proof -
  let ?acc = "ring_accepts C (w_x509 W) log (cs_chain c)" and ?z = "zero_result (cs_chain c)"
  obtain t kr0 where k: "load_trust C W (console_flags c) = Inr t" "load_root W (console_flags c) t = Inr kr0" "?acc kr0 = ?acc kr"
    "\<And>cps rep kr'. ring_verify C (w_x509 W) kr0 log (cs_chain c) cps [] = Inr (rep, kr') \<Longrightarrow> kr_rotating kr' = kr_rotating kr \<and> kr_trusted kr' = kr_trusted kr"
    "kr_rotating kr0 = None \<longleftrightarrow> cs_root c = []" "cs_root c = [] \<Longrightarrow> kr0 = kr"
    using console_keys_ring [OF assms(5,7)] by blast
  have same: "ring_resolve a = ring_resolve b" "?acc a = ?acc b" if "kr_rotating a = kr_rotating b" "kr_trusted a = kr_trusted b" for a b
  proof -
    show "ring_resolve a = ring_resolve b" using that by (simp add: ring_resolve_def split: option.split)
    have "(\<exists>k. ring_verify C (w_x509 W) a log (cs_chain c) cps [] = Inr (rep, k)) \<longleftrightarrow> (\<exists>k. ring_verify C (w_x509 W) b log (cs_chain c) cps [] = Inr (rep, k))" for cps rep
      using that by (cases "kr_rotating b") (auto simp: ring_verify_def)
    then show "?acc a = ?acc b" by (intro ext) (simp add: ring_accepts_def)
  qed
  have anchor: "(\<exists>labels fl. read_anchor C W (console_flags c) ?z keys = Inr (cps, labels, fl)) \<longleftrightarrow> (\<exists>missing. console_anchor C W c keys = Inr (cps, missing))" for keys cps
    by (rule anchor_both [OF assms(6)])
  have run: "snd (run_stages C W (console_flags c) st) = Inr res \<longleftrightarrow>
    (\<exists>kr1 cps rep. learn_keys C W (console_flags c) (cs_anchor c \<noteq> []) ?z kr0 = Inr kr1 \<and>
      (\<exists>missing. console_anchor C W c (ring_resolve kr1) = Inr (cps, missing)) \<and> ?acc kr1 cps rep \<and>
      res = finish (?z\<lparr>rr_Checkpoints := int (length cps)\<rparr>) rep cps)"
    unfolding console_run [OF assms(1-4) k(1,2)] anchor [symmetric] ring_accepts_def by blast
  show ?thesis
  proof (cases "cs_root c = [] \<or> cs_anchor c = []")
    case True
    then have learn: "learn_keys C W (console_flags c) (cs_anchor c \<noteq> []) ?z kr0 = Inr kr0" using k(5) by (auto simp: learn_keys_def)
    have "console_anchor C W c (ring_resolve kr0) = console_anchor C W c (ring_resolve kr)" using True k(6) by (auto simp: console_anchor_def)
    then show ?thesis unfolding run learn by (auto simp: k(3))
  next
    case False
    then have learn: "learn_keys C W (console_flags c) (cs_anchor c \<noteq> []) ?z kr0 = Inr kr1 \<longleftrightarrow>
        (\<exists>rep. ring_verify C (w_x509 W) kr0 log (cs_chain c) [] [] = Inr (rep, kr1))" for kr1
      using k(5) open_log_Inr [THEN iffD2, of W "console_flags c", simplified, OF assms(4)] by (auto simp: learn_keys_def)
    have one: "kr_rotating kr1 = kr_rotating kr \<and> kr_trusted kr1 = kr_trusted kr"
      if "learn_keys C W (console_flags c) (cs_anchor c \<noteq> []) ?z kr0 = Inr kr1" for kr1
      using that k(4) unfolding learn by blast
    have "\<exists>kr1. learn_keys C W (console_flags c) (cs_anchor c \<noteq> []) ?z kr0 = Inr kr1" if "?acc kr cps rep" for cps rep
      using ring_accepts_unanchored [OF that] unfolding k(3) [symmetric] learn by (auto simp: ring_accepts_def)
    then show ?thesis unfolding run using one same by metis
  qed
qed

text \<open>
  C16: The console's verdict is the verifier's: on the files of a console whose anchor can be read and whose root has a key, it says
  that the log verifies exactly when \<open>warden-verify\<close> exits with status 0 there, and then both count the same receipts,
  checkpoints, unanchored receipts and rotations.
\<close>

theorem console_agrees_with_verifier:
  assumes "cs_log c \<noteq> []" "cs_chain c \<noteq> []" "cs_keys c \<noteq> []" "console_state C W c rnd now http = Inr reply"
    and "cs_anchor c = [] \<or> os_ReadFile (w_fs W) (cs_anchor c) \<noteq> None"
    and "\<forall>der cert. cs_root c \<noteq> [] \<longrightarrow> ReadCertificate (w_x509 W) (w_pem W) (w_fs W) (cs_root c) = Inr der \<longrightarrow>
      x_Parse (w_x509 W) der = Some cert \<longrightarrow> revocation_RootKey (Some cert) \<in> range Inr"
  shows "if cv_OK (sr_Verify reply)
    then \<exists>res st'. verify_run C W (Some (console_flags c)) st = (st', exitVerified, JSONReport res) \<and>
      cv_Receipts (sr_Verify reply) = rr_Receipts res \<and> cv_Checkpoints (sr_Verify reply) = rr_Checkpoints res \<and>
      cv_Unanchored (sr_Verify reply) = rr_Unanchored res \<and> cv_Rotations (sr_Verify reply) = int (length (rr_Rotations res))
    else fst (snd (verify_run C W (Some (console_flags c)) st)) \<noteq> exitVerified"
proof -
  obtain log kr where k: "os_ReadFile (w_fs W) (cs_log c) = Some log" "console_keys C W c log = Inr kr"
    "sr_Verify reply = console_verify C W c kr log"
    by (rule console_state_Inr [OF assms(4)])
  note run = console_run_accepts [OF assms(1-3) k(1,2) assms(5,6), of st]
  obtain st' x where x: "run_stages C W (console_flags c) st = (st', x)" by fastforce
  have v: "verify_run C W (Some (console_flags c)) st = (st', exit_of (console_flags c) x)" by (simp add: verify_run_def x)
  show ?thesis
  proof (cases "cv_OK (sr_Verify reply)")
    case True
    then obtain cps missing rep where a: "console_anchor C W c (ring_resolve kr) = Inr (cps, missing)"
      "ring_accepts C (w_x509 W) log (cs_chain c) kr cps rep"
      unfolding k(3) console_verify_OK by blast
    let ?res = "finish ((zero_result (cs_chain c))\<lparr>rr_Checkpoints := int (length cps)\<rparr>) rep cps"
    have "x = Inr ?res" using run [of ?res] a x by auto
    moreover have "cv_Receipts (sr_Verify reply) = rep_Receipts rep \<and> cv_Checkpoints (sr_Verify reply) = int (length cps) \<and>
        cv_Unanchored (sr_Verify reply) = rep_Unanchored rep \<and> cv_Rotations (sr_Verify reply) = int (length (rep_Rotations rep))"
      using a unfolding k(3) by (auto simp: console_verify_def ring_accepts_def Let_def split: prod.splits)
    ultimately show ?thesis using True by (simp add: v exit_of_def emit_def finish_views)
  next
    case False
    have "x \<noteq> Inr res" for res
      using run [of res] False x unfolding k(3) console_verify_OK by auto
    then have "fst (exit_of (console_flags c) x) \<noteq> exitVerified"
      by (cases x) (auto simp: exit_of_def emit_def exitUsage_def exitFailed_def exitVerified_def split: stop.splits)
    with False show ?thesis by (simp add: v)
  qed
qed

section \<open>The lines of a log that verifies\<close>

text \<open>
  What RFC 8785 says of the lines of a log: an object of the three members in order whose strings hold no characters but
  those of base64 and line breaks, which both printers escape alike, is in canonical form.
\<close>

definition keeps_envelopes :: "(bytes \<Rightarrow> bytes option) \<Rightarrow> bool" where
  "keeps_envelopes f \<longleftrightarrow> (\<forall>s. b64_decode (s_payload s) \<noteq> None \<and> b64_decode (s_protected s) \<noteq> None \<and> b64_decode (s_signature s) \<noteq> None \<longrightarrow>
     f (marshal (json_of_signed s)) = Some (marshal (json_of_signed s)))"

lemma b64_decode_ascii:
  assumes "b64_decode s \<noteq> None"
  shows "ascii s"
proof -
  obtain bs where f: "filter (\<lambda>c. \<not> crlf c) s = b64_encode bs" using assms by (auto simp: b64_decode_Some)
  have "byte c < 128" if "c \<in> set s" for c
  proof (cases "crlf c")
    case False
    then have "c \<in> set (filter (\<lambda>c. \<not> crlf c) s)" using that by simp
    then have "c \<in> set (b64_encode bs)" unfolding f .
    then show ?thesis using b64_encode_ascii [of bs] by (simp add: ascii_def list_all_iff)
  qed (auto simp: crlf_def)
  then show ?thesis by (simp add: ascii_def list_all_iff)
qed

lemma keeps_envelopes_model: "keeps_envelopes jcs_model"
proof -
  have "jcs_model (marshal (json_of_signed s)) = Some (marshal (json_of_signed s))"
    if "ascii (s_payload s)" "ascii (s_protected s)" "ascii (s_signature s)" for s
  proof -
    have "sort_json (json_of_signed s) = json_of_signed s" by (simp add: json_of_signed_def sort_key_def less_list_code)
    then show ?thesis using json_signed_ok(1) [OF that] by (simp add: jcs_model_def decode_marshal)
  qed
  then show ?thesis by (simp add: keeps_envelopes_def b64_decode_ascii)
qed

lemma escape_ascii: "ascii s \<Longrightarrow> ascii (escape_string s) \<and> newline \<notin> set (escape_string s)"
proof (induction s)
  case Nil
  show ?case by (simp add: escape_string.simps [of "[]"])
next
  case (Cons c s)
  have "ascii [hex_digit n] \<and> newline \<noteq> hex_digit n" if "n < 16" for n
  proof
    have b: "byte (hex_digit n) = (if n < 10 then 48 + n else 87 + n)" using that by (rule hex_digit_byte)
    show "ascii [hex_digit n]" using that b by simp
    show "newline \<noteq> hex_digit n"
    proof
      assume "newline = hex_digit n"
      then have "hex_digit n = newline" by simp
      then have "byte (hex_digit n) = 10" by (simp add: newline_def)
      with b show False by (simp split: if_splits)
    qed
  qed
  moreover have "newline \<noteq> char_of (92 :: nat)" "newline \<noteq> CHR ''u''" by code_simp+
  ultimately have hex: "ascii (hex4 n) \<and> newline \<notin> set (hex4 n)" for n by (simp add: hex4_def)
  have "ascii (escape_rune (byte c) [c]) \<and> newline \<notin> set (escape_rune (byte c) [c])" if "byte c < 128"
  proof -
    have nl: "newline = CHR 0x0A" "char_of (92 :: nat) = CHR 0x5C" by code_simp+
    have "c \<noteq> newline" if "byte c \<noteq> 10" using that by (auto simp: newline_def)
    then show ?thesis using that hex by (auto simp: escape_rune_def nl)
  qed
  then show ?case using Cons by (simp add: escape_string.simps [of "c # s"])
qed

lemma envelope_solid:
  assumes "ascii (s_payload s)" "ascii (s_protected s)" "ascii (s_signature s)"
  shows "solid (marshal (json_of_signed s))"
proof -
  have q: "ascii (quote_json t) \<and> newline \<notin> set (quote_json t)" if "ascii t" for t
    using escape_ascii [OF that] by (simp add: quote_json_def newline_def)
  have nl: "newline = CHR 0x0A" by code_simp
  have "ascii ''payload''" "ascii ''protected''" "ascii ''signature''" by simp_all
  note q [OF this(1)] q [OF this(2)] q [OF this(3)] q [OF assms(1)] q [OF assms(2)] q [OF assms(3)]
  then show ?thesis by (simp add: json_of_signed_def solid_def is_space_def nl)
qed

text \<open>A line that opens has no white space at its ends.\<close>

lemma opened_solid:
  assumes "open_line C keys line = Inr x" "keeps_envelopes (jcs C)"
  shows "solid line"
proof -
  obtain s kid pub r where o: "ParseLine C line = Inr s" "signed_KeyID C s = Inr kid" "receipt_Verify C pub s = Inr r"
    using assms(1) by (auto simp: open_line_def)
  have b: "b64_decode (s_payload s) \<noteq> None" "b64_decode (s_protected s) \<noteq> None" "b64_decode (s_signature s) \<noteq> None"
    using o(2,3) by (auto simp: receipt_Verify_Inr VerifyPayload_Inr signed_KeyID_def signed_header_def)
  have "jcs C (marshal (json_of_signed s)) = Some line"
    using o(1) by (auto simp: ParseLine_def DecodeStrict_Inr canonical_Encode_Inr)
  then have "line = marshal (json_of_signed s)" using assms(2) b by (simp add: keeps_envelopes_def)
  then show ?thesis using envelope_solid [of s] b64_decode_ascii [OF b(1)] b64_decode_ascii [OF b(2)] b64_decode_ascii [OF b(3)] by simp
qed

lemma segments_whole:
  "(s = unlines (segments s) \<or> segments s \<noteq> [] \<and> s @ [newline] = unlines (segments s)) \<and> (\<forall>l \<in> set (segments s). set l \<subseteq> set s)"
proof (induction s rule: length_induct)
  case (1 s)
  show ?case
  proof (cases "newline \<in> set s")
    case True
    then obtain l t where s: "s = l @ newline # t" "newline \<notin> set l" by (metis split_list_first)
    then have "length t < length s" by simp
    with 1 have "(t = unlines (segments t) \<or> segments t \<noteq> [] \<and> t @ [newline] = unlines (segments t)) \<and> (\<forall>l \<in> set (segments t). set l \<subseteq> set t)" by blast
    then show ?thesis by (auto simp: s segments_line unlines_def)
  next
    case False
    have one: "segments (c # l) = [c # l]" if "newline \<notin> set (c # l)" for c l
      using that by (induction l arbitrary: c) auto
    show ?thesis
    proof (cases s)
      case (Cons c l)
      then have "segments s = [s]" using False one by metis
      then show ?thesis by (simp add: unlines_def Cons)
    qed (simp add: unlines_def)
  qed
qed

text \<open>Splitting a log the way the feed does gives the lines that the verifier reads, if those are solid and end without CR.\<close>

lemma scan_solid:
  assumes "carriage \<notin> set log" "scan_lines log = (ms, False)" "list_all solid ms" "ms \<noteq> []"
  shows "split_lines (trim_space log) = ms"
proof -
  have sub: "set l \<subseteq> set log" if "l \<in> set (segments log)" for l using segments_whole [of log] that by blast
  have t: "takeWhile (\<lambda>l. length l < maxLine) (segments log) = segments log"
    using assms(2) by (auto simp: scan_lines_def Let_def takeWhile_eq_all_conv list_ex_iff)
  have "map dropCR (segments log) = segments log"
  proof (rule map_idI)
    fix l assume "l \<in> set (segments log)"
    then have "carriage \<notin> set l" using sub assms(1) by blast
    then have "\<not> (l \<noteq> [] \<and> last l = carriage)" by (metis last_in_set)
    then show "dropCR l = l" by (auto simp: dropCR_def)
  qed
  then have ms: "segments log = ms" using assms(2) by (simp add: scan_lines_def Let_def t)
  from conjunct1 [OF segments_whole [of log]] show ?thesis
  proof
    assume "log = unlines (segments log)"
    then show ?thesis using split_trim_solid [OF assms(3,4)] unlines_def [of ms] ms by metis
  next
    assume u: "segments log \<noteq> [] \<and> log @ [newline] = unlines (segments log)"
    obtain ks l where k: "ms = ks @ [l]" using assms(4) by (cases ms rule: rev_cases) auto
    have log: "log = concat (map (\<lambda>l. l @ [newline]) ks) @ l" using u by (simp add: ms k unlines_def)
    have l: "solid l" "list_all solid ks" using assms(3) k by simp_all
    have a: "ascii log" using ascii_lines [OF l(2)] l(1) by (simp add: log solid_def)
    obtain y ys where y: "l = ys @ [y]" "\<not> is_space (byte y)" using l(1) by (cases l rule: rev_cases) (auto simp: solid_def)
    have "log \<noteq> [] \<and> \<not> is_space (byte (hd log))" using l by (cases ks) (auto simp: log solid_def)
    then have "dropWhile (\<lambda>c. is_space (byte c)) log = log" by (cases log) auto
    then have "trim_space log = log" using y by (simp add: trim_space_ascii [OF a]) (simp add: log)
    then show ?thesis using split_solid [OF l(2,1)] log k by simp
  qed
qed

section \<open>The feed\<close>

lemma log_ok_opens:
  assumes "log_ok C K ks chainID revs es" "e \<in> set es" "\<And>es' es'' kid p. es = es' @ es'' \<Longrightarrow> k_Resolve K (keys_after K ks es') kid = Some p \<Longrightarrow> keys kid = Some p"
  shows "open_line C keys (e_line e) = Inr (e_kid e, e_pub e, e_rcpt e)"
proof -
  obtain i where i: "i < length es" "es ! i = e" using assms(2) by (auto simp: in_set_conv_nth)
  then have "authentic C K ks (take i es) e" using assms(1) by (auto simp: log_ok_def admissible_def)
  moreover have "es = take i es @ drop i es" by simp
  note assms(3) [OF this]
  ultimately show ?thesis by (auto simp: authentic_def open_line_def)
qed

text \<open>The keys that a console uses open every line of a log that they accept.\<close>

lemma console_opens:
  assumes "console_keys C W c log = Inr kr" "ring_accepts C (w_x509 W) log (cs_chain c) kr cps rep"
  shows "\<exists>es. scan_lines log = (map e_line es, False) \<and> es \<noteq> [] \<and> ring_log_ok C (w_x509 W) kr (cs_chain c) [] es \<and>
    (\<forall>e \<in> set es. open_line C (ring_resolve kr) (e_line e) = Inr (e_kid e, e_pub e, e_rcpt e))"
proof (cases "kr_rotating kr")
  case None
  then obtain es where es: "verified_log C log (cs_chain c) (StaticKeys (Resolver (kr_trusted kr))) () cps [] es"
    using assms(2) by (auto simp: ring_accepts_def ring_verify_def VerifyAll_Inr)
  have "open_line C (ring_resolve kr) (e_line e) = Inr (e_kid e, e_pub e, e_rcpt e)" if "e \<in> set es" for e
    by (rule log_ok_opens [OF _ that]) (use es None in \<open>auto simp: verified_log_def ring_resolve_def StaticKeys_def\<close>)
  then show ?thesis using es None by (auto simp: verified_log_def ring_log_ok_def)
next
  case (Some R)
  let ?K = "Rotating C (w_x509 W)"
  obtain t der where R: "R = v_keys (walk (verify_line C ?K (cs_chain c) []) (init_state [] (NewRotating t (Some [der]))) (fst (scan_lines log)))"
    using assms(1) Some by (auto simp: console_keys_def follow_rotations_def split: if_splits)
  obtain r' where r': "VerifyAll C log (cs_chain c) ?K R cps [] = Inr (rep, r')" using assms(2) by (auto simp: ring_accepts_rotating [OF Some])
  then have "r' = R" using learned_verifies_same [OF R] by simp
  with r' obtain es where es: "verified_log C log (cs_chain c) ?K R cps [] es" "R = keys_after ?K R es" by (auto simp: VerifyAll_Inr)
  have "open_line C (ring_resolve kr) (e_line e) = Inr (e_kid e, e_pub e, e_rcpt e)" if "e \<in> set es" for e
  proof (rule log_ok_opens [OF _ that])
    show "log_ok C ?K R (cs_chain c) [] es" using es(1) by (simp add: verified_log_def)
    show "ring_resolve kr kid = Some p" if s: "es = es' @ es''" "k_Resolve ?K (keys_after ?K R es') kid = Some p" for es' es'' kid p
    proof -
      have "keys_after ?K R es = keys_after ?K (keys_after ?K R es') es''" by (simp add: s(1) keys_after_def)
      then have "k_Resolve ?K R kid = Some p" using rotating_keys.keys_after_keeps [OF s(2), of es''] es(2) by simp
      then show ?thesis using Some by (simp add: ring_resolve_def Rotating_def)
    qed
  qed
  then show ?thesis using es(1) Some by (auto simp: verified_log_def ring_log_ok_def)
qed

text \<open>
  C23: The feed hides nothing of a log without carriage returns: when the console says that the log verifies, and the log has no
  carriage return, then the feed shows every receipt of the lines that the verifier reads, newest first, those after a
  rotation among them, given what RFC 8785 says of the canonical form of such lines.
\<close>

theorem console_feed_complete:
  assumes "console_state C W c rnd now http = Inr reply" "cv_OK (sr_Verify reply)"
    and "os_ReadFile (w_fs W) (cs_log c) = Some log" "carriage \<notin> set log" "keeps_envelopes (jcs C)"
  shows "\<exists>kr es. console_keys C W c log = Inr kr \<and> scan_lines log = (map e_line es, False) \<and> es \<noteq> [] \<and>
    ring_log_ok C (w_x509 W) kr (cs_chain c) [] es \<and> sr_Receipts reply = rev (map (\<lambda>e. view_receipt (e_rcpt e)) es)"
proof -
  obtain kr where k: "console_keys C W c log = Inr kr" "sr_Verify reply = console_verify C W c kr log"
    "sr_Receipts reply = summarize C log (ring_resolve kr)"
    using console_state_Inr [OF assms(1)] assms(3) by (metis option.inject)
  obtain cps rep where "ring_accepts C (w_x509 W) log (cs_chain c) kr cps rep"
    using assms(2) unfolding k(2) console_verify_OK by blast
  from console_opens [OF k(1) this] obtain es where es: "scan_lines log = (map e_line es, False)" "es \<noteq> []"
    "ring_log_ok C (w_x509 W) kr (cs_chain c) [] es"
    "\<forall>e \<in> set es. open_line C (ring_resolve kr) (e_line e) = Inr (e_kid e, e_pub e, e_rcpt e)" by blast
  have sol: "solid (e_line e)" if "e \<in> set es" for e using opened_solid [OF bspec [OF es(4) that] assms(5)] .
  then have lines: "split_lines (trim_space log) = map e_line es"
    using scan_solid [OF assms(4) es(1)] es(2) by (simp add: list_all_iff)
  have feed: "List.map_filter (view_line C (ring_resolve kr)) (map e_line xs) = map (\<lambda>e. view_receipt (e_rcpt e)) xs"
    if "\<forall>e \<in> set xs. open_line C (ring_resolve kr) (e_line e) = Inr (e_kid e, e_pub e, e_rcpt e) \<and> trim_space (e_line e) \<noteq> []" for xs
    using that by (induction xs) (simp_all add: view_line_def map_filter_simps)
  have "trim_space (e_line e) \<noteq> []" if "e \<in> set es" for e
    using solid_trim_self [OF sol [OF that]] sol [OF that] by (simp add: solid_def)
  then have "summarize C log (ring_resolve kr) = rev (map (\<lambda>e. view_receipt (e_rcpt e)) es)"
    using feed [of es] es(4) by (simp add: summarize_def lines)
  then show ?thesis using k es(1-3) by (intro exI [of _ kr] exI [of _ es]) simp
qed

text \<open>
  With a carriage return at its end, a line that the verifier reads without it is one that the feed leaves out, silently.
\<close>

theorem feed_omits_carriage_return:
  assumes "keeps_envelopes (jcs C)"
  shows "dropCR (line @ [carriage]) = line" and "view_line C keys (line @ [carriage]) = None"
proof -
  show "dropCR (line @ [carriage]) = line" by (simp add: dropCR_def)
  have "is_space (byte carriage)" by (simp add: is_space_def carriage_def)
  then have "open_line C keys (line @ [carriage]) \<noteq> Inr x" for x
    using opened_solid [OF _ assms, of keys "line @ [carriage]" x] by (auto simp: solid_def)
  then show "view_line C keys (line @ [carriage]) = None" by (auto simp: view_line_def split: sum.splits)
qed

text \<open>Without the token of its start a console tells and does nothing, and one without an approver's key answers nothing.\<close>

lemma console_guarded:
  "path \<in> {''/api/state'', ''/api/approve''} \<Longrightarrow> (if header = [] then query else header) \<noteq> cs_token c \<Longrightarrow>
     console_handler C W c path header query verb body rnd t1 t2 http http' = Inl 403"
  "cs_approver c = None \<Longrightarrow> console_handler C W c path header query verb body rnd t1 t2 http http' \<noteq> Inr (Answer sub)"
  by (auto simp: console_handler_def console_guard_def console_approve_def split: if_splits)

end
