(* ===== verification/AdminWitnesses.thy ===== *)
theory AdminWitnesses
  imports AdminProps ConsoleProps RotationWitnesses ApproverWitnesses
begin

text \<open>
  The administrative commands and the console at work on the files of a small Warden.
\<close>

section \<open>Approvers\<close>

definition adm_env :: admin_env where
  "adm_env = \<lparr>ad_Now = t0, ad_Seed = replicate 64 (CHR ''x''), ad_Serial = 7, ad_Umask = 0, ad_Key = IoDone, ad_Cert = IoDone,
     ad_Replace = True, ad_Open = True, ad_Write = None\<rparr>"

definition adm_fs :: filesystem where
  "adm_fs = rot_fs(''/ap'' \<mapsto> Regular 420 keys_file)"

lemma adm_fs_le: "rot_fs \<subseteq>\<^sub>m adm_fs"
  by (simp add: map_le_def adm_fs_def rot_fs_def)

lemma adm_paths: "config_Path sample_wc ''ap'' = ''/ap''" "config_Path sample_wc ''an'' = ''/an''" "config_Path sample_wc ''rv'' = ''/rv''"
proof -
  have d: "wc_dir sample_wc = ''/''" by (simp add: sample_wc_def)
  have "path_Join ''/'' ''ap'' = ''/ap''" "path_Join ''/'' ''an'' = ''/an''" "path_Join ''/'' ''rv'' = ''/rv''" by code_simp+
  then show "config_Path sample_wc ''ap'' = ''/ap''" "config_Path sample_wc ''an'' = ''/an''" "config_Path sample_wc ''rv'' = ''/rv''"
    by (simp_all add: config_Path_def d path_IsAbs_def)
qed

lemma adm_wc: "wc_Approvers sample_wc = ''ap''" "wc_Anchor sample_wc = ''an''" "wc_Revocations sample_wc = ''rv''"
    "wc_ReceiptKey sample_wc = ''rk''" "wc_Store sample_wc = ''db''"
  by (simp_all add: sample_wc_def)

lemma adm_keys_file: "unmarshal_set keys_file = Some [PublicJWK ''k1'' toy_public]"
proof -
  have "json_ok (json_of_set (Some [PublicJWK ''k1'' toy_public]))" by (rule jwk_text_json) (simp add: toy_jwk_text)
  then show ?thesis by (simp only: keys_file_def unmarshal_set_of)
qed

lemma adm_add:
  "\<exists>fs'. cmdAddApprover toy (rot_world 0 adm_fs) sample_durations adm_env ''/'' ''w.json'' ''ann'' ''/ann.key'' = (fs', Inr ())"
proof -
  let ?ks = "[PublicJWK ''k1'' toy_public]"
  have "efold (add_key toy) Map.empty (?ks @ [PublicJWK ''ann'' toy_public]) = Inr [''k1'' \<mapsto> toy_public, ''ann'' \<mapsto> toy_public]"
    using toy_public_parses by (simp add: add_key_def PublicJWK_def b64_decode_encode)
  then have k: "keys_Parse toy (MarshalIndent (json_of_set (Some (?ks @ [PublicJWK ''ann'' toy_public])))) = Inr [''k1'' \<mapsto> toy_public, ''ann'' \<mapsto> toy_public]"
    using keys_Parse_written [of "?ks @ [PublicJWK ''ann'' toy_public]" "[]" toy] by (simp add: toy_jwk_text)
  have j: "jwk_Kid (PublicJWK ''k1'' toy_public) \<noteq> ''ann''" by (simp add: PublicJWK_def)
  have r: "os_ReadFile adm_fs ''/ap'' = Some keys_file" by (rule os_ReadFile_regular) (simp add: adm_fs_def)
  have g: "GenerateKey toy MLDSA65Ed25519 (ad_Seed adm_env) = Inr toy_private" "sk_pub toy_private = toy_public"
    using toy_private_new by (simp_all add: GenerateKey_def adm_env_def) (simp add: toy_private_def)
  have n: "adm_fs ''/ann.key'' = None" by (simp add: adm_fs_def rot_fs_def)
  obtain fs1 where w: "WriteComposite toy_pem adm_fs ''/ann.key'' toy_private (ad_Umask adm_env) (ad_Key adm_env) = (fs1, Inr ())"
    using n by (simp add: WriteComposite_def writeNew_def) (simp add: adm_env_def)
  have e: "ad_Replace adm_env" by (simp add: adm_env_def)
  show ?thesis
    using rot_load(1) [OF adm_fs_le, of 0] adm_keys_file k j r g w e
    by (simp add: cmdAddApprover_def Let_def adm_wc adm_paths replace_file_def)
qed

theorem added_approver_trusted_witness:
  "\<exists>fs' k approvers. cmdAddApprover toy (rot_world 0 adm_fs) sample_durations adm_env ''/'' ''w.json'' ''ann'' ''/ann.key'' = (fs', Inr ()) \<and>
     ReadComposite toy toy_pem fs' ''/ann.key'' = Inr k \<and> loadApprovers toy fs' ''/ap'' = Inr approvers \<and>
     approvers ''ann'' = Some (sk_pub k) \<and> approvers ''k1'' = Some toy_public"
proof -
  obtain fs' where r: "cmdAddApprover toy (rot_world 0 adm_fs) sample_durations adm_env ''/'' ''w.json'' ''ann'' ''/ann.key'' = (fs', Inr ())"
    using adm_add by blast
  have b: "loadApprovers toy adm_fs ''/ap'' = Inr [''k1'' \<mapsto> toy_public]"
  proof -
    have "read_file adm_fs ''/ap'' = Content keys_file" by (rule read_file_regular) (simp add: adm_fs_def)
    moreover have "keys_Parse toy keys_file = Inr [''k1'' \<mapsto> toy_public]" using trust_file_roundtrip_witness by (simp add: keys_file_def)
    ultimately show ?thesis by (simp add: loadApprovers_def Resolver_def fun_eq_iff)
  qed
  have "''/ann.key'' \<noteq> config_Path sample_wc (wc_Approvers sample_wc)" by (simp add: adm_wc adm_paths)
  from added_approver_trusted [OF r rot_load(1) [OF adm_fs_le] toy_ok(1) _ _ this] obtain k approvers where
    "ReadComposite toy toy_pem fs' ''/ann.key'' = Inr k" "loadApprovers toy fs' ''/ap'' = Inr approvers" "approvers ''ann'' = Some (sk_pub k)"
    "\<forall>before. loadApprovers toy adm_fs ''/ap'' = Inr before \<longrightarrow> approvers = before(''ann'' \<mapsto> sk_pub k)"
    by (auto simp: adm_wc adm_paths toy_pem_ok utf8_valid_ascii)
  with r b show ?thesis by auto
qed

section \<open>Exports\<close>

theorem export_gives_the_log_witness:
  "\<exists>s e fs'. store_holds toy [e] s \<and> cmdExport toy (rot_world 0 adm_fs) sample_durations adm_env ''/'' ''w.json'' ''/out'' (s_db s) = (fs', s_db s, Inr 1) \<and>
     os_ReadFile fs' ''/out'' = Some (unlines [e_line e]) \<and>
     VerifyAll toy (unlines [e_line e]) ''c1'' toy_keys () [] [] = Inr (report_of toy ''c1'' [] [e], keys_after toy_keys () [e])"
proof -
  obtain s e where s: "store_inv toy toy_keys () s [e]" "sample_store [e] s" using sample_store_history by blast
  have h: "store_holds toy [e] s" "s_key s = Some (private_signer toy toy_private)" "s_kid s = ''k1''" "s_chainID s = ''c1''"
    using s(2) by (simp_all add: sample_store_def toy_signer_def)
  have w: "wc_Kid sample_wc = ''k1''" "wc_ChainID sample_wc = ''c1''" by (simp_all add: sample_wc_def)
  have o: "store_Open toy ''/db'' (s_db s) (Some (private_signer toy toy_private)) ''k1'' ''c1'' (ad_Open adm_env) = (s_db s, Inr s)"
    using store_init_again [OF h(1), of True] by (simp add: store_Open_def h(2-4)) (simp add: adm_env_def)
  obtain fs' where n: "writeNew adm_fs ''/out'' (store_Export s) 420 (ad_Umask adm_env) (ad_Key adm_env) = (fs', Inr ())"
    by (simp add: writeNew_def adm_fs_def rot_fs_def) (simp add: adm_env_def)
  have k: "ReadComposite toy toy_pem adm_fs ''/rk'' = Inr toy_private"
    using rot_load(4) [OF adm_fs_le] by (simp add: adm_wc rot_paths)
  have r: "cmdExport toy (rot_world 0 adm_fs) sample_durations adm_env ''/'' ''w.json'' ''/out'' (s_db s) = (fs', s_db s, Inr (store_Next s))"
    using rot_load(1) [OF adm_fs_le, of 0] k o n by (simp add: cmdExport_def Let_def adm_wc rot_paths w)
  note th = export_gives_the_log [OF rot_ready [OF s(2) adm_fs_le] r, where ?'k = unit]
  have "store_VerifyWithKeys toy s toy_keys () = Inr (report_of toy ''c1'' [] [e], keys_after toy_keys () [e])"
    using store_inv_verifies [OF s(1)] h(4) by simp
  moreover have "store_Next s = 1" using store_export [OF h(1)] by simp
  ultimately show ?thesis using h(1) r th by (intro exI [of _ s] exI [of _ e] exI [of _ fs']) (simp add: w)
qed

section \<open>Revocations\<close>

lemma rev_plain:
  assumes "revocation_Sign toy (Some k) r = Inr sg" "signed_Line toy sg = Inr line" "json_ok (json_of_revocation r)"
    and "weight (json_of_revocation r) < 60000" "key_params (mk_pub k) = MLDSA65"
  shows "plain_line line"
proof -
  obtain payload hdr where p: "canonical_Encode (jcs toy) (json_of_revocation r) = Inr payload" "canonical_Encode (jcs toy) (json_of_rev_header rev_hdr) = Inr hdr"
    "sg = \<lparr>s_payload = b64_encode payload, s_protected = b64_encode hdr, s_signature = b64_encode (toy_sig MLDSA65)\<rparr>"
    using assms(1,5) by (auto simp: revocation_Sign_Inr toy_def)
  have "length payload < 60000" by (rule encoded_length [OF assms(3) p(1) assms(4)])
  moreover have "length hdr < 2000"
    by (rule encoded_length [OF rev_hdr_json(1) p(2)])
      (simp add: json_of_rev_header_def rev_hdr_def revocation_Alg_def revocation_Domain_def)
  moreover have "length (toy_sig MLDSA65) = 3309" by (simp add: toy_sig_def)
  ultimately have "weight (json_of_signed sg) < maxLine"
    using length_b64_encode [of payload] length_b64_encode [of hdr] length_b64_encode [of "toy_sig MLDSA65"]
    unfolding p(3) by (simp add: json_of_signed_def maxLine_def)
  moreover have "json_ok (json_of_signed sg)" unfolding p(3) by (simp add: json_signed_ok)
  ultimately show "plain_line line"
    using assms(2) by (intro encoded_plain [of "json_of_signed sg"]) (simp_all add: signed_Line_def toy_ok(3))
qed

definition adm_rev :: revocation where
  "adm_rev = revocation_of sample_wc ''k1'' sample_cp [] t0"

lemma adm_rev_ok: "revocation_ok adm_rev" "json_ok (json_of_revocation adm_rev)" "weight (json_of_revocation adm_rev) < 60000"
proof -
  have e: "adm_rev = sample_rev\<lparr>rv_kid := ''k1''\<rparr>"
    by (simp add: adm_rev_def revocation_of_def sample_rev_def sample_wc_def sample_cp_fields format_t0 revocation_Version_def)
  show "revocation_ok adm_rev" using sample_rev_ok(1) by (simp add: e revocation_ok_def sample_rev_def id_ok_ascii)
  show "json_ok (json_of_revocation adm_rev)" using sample_rev_ok(2)
    by (simp add: e json_of_revocation_def sample_rev_def omit_str_def utf8_valid_ascii)
  show "weight (json_of_revocation adm_rev) < 60000" using sample_rev_ok(3) by (simp add: e json_of_revocation_def sample_rev_def)
qed

definition rev_fs :: filesystem where
  "rev_fs = rot_fs(''/an'' \<mapsto> Regular 420 (sample_line @ [newline]))"

lemma rev_fs_le: "rot_fs \<subseteq>\<^sub>m rev_fs"
  by (simp add: map_le_def rev_fs_def rot_fs_def)

lemma sample_anchor_read: "ReadVerified toy (sample_line @ [newline]) ''c1'' [''k1'' \<mapsto> toy_public] = Inr [sample_cp]"
proof -
  have al: "anchor_line toy ''c1'' [''k1'' \<mapsto> toy_public] sample_line sample_cp" by (rule cp_anchor_line [OF sample_cp_facts]) simp
  have "scan_lines (sample_line @ [newline]) = ([sample_line], False)"
    using scan_unlines [of "[sample_line]"] sample_sg(3) by (simp add: unlines_def)
  moreover have "efold (read_anchor_line toy ''c1'' [''k1'' \<mapsto> toy_public]) [] [sample_line] = Inr [sample_cp]"
    using al by (auto simp: read_anchor_line_Inr)
  ultimately show ?thesis by (simp add: ReadVerified_Inr)
qed

lemma rot_root_pair: "root_pair toy (ca_Key rot_ca)" "key_params (mk_pub (ca_Key rot_ca)) = MLDSA65"
  using toy_ok(1) by (simp_all add: root_pair_def rot_ca_def key_params_def) (simp_all add: toy_def toy_pub_def)

lemma adm_revoke:
  "\<exists>sg line. revocation_Sign toy (Some (ca_Key rot_ca)) adm_rev = Inr sg \<and> signed_Line toy sg = Inr line \<and> plain_line line \<and>
     cmdRevokeKey toy (rot_world 0 rev_fs) sample_durations adm_env ''/'' ''w.json'' ''k1'' 0 [] True [] True =
       (rev_fs(''/rv'' \<mapsto> Regular 420 (line @ [newline])), Inr ())"
proof -
  obtain payload where pl: "canonical_Encode (jcs toy) (json_of_revocation adm_rev) = Inr payload"
    using canonical_Encode_ok [OF toy_ok(2) adm_rev_ok(2) json_safe_revocation [OF adm_rev_ok(1)]] by blast
  obtain hdr where hdr: "canonical_Encode (jcs toy) (json_of_rev_header rev_hdr) = Inr hdr"
    using canonical_Encode_ok [OF toy_ok(2) rev_hdr_json] by blast
  have sign: "mldsa_sign toy p sd m ctx = Some (toy_sig p)" for p sd m ctx by (simp add: toy_def)
  have "\<exists>s. revocation_Sign toy (Some (ca_Key rot_ca)) adm_rev = Inr s"
    unfolding revocation_Sign_Inr using pl hdr adm_rev_ok(1) by (auto simp: sign)
  then obtain sg where sg: "revocation_Sign toy (Some (ca_Key rot_ca)) adm_rev = Inr sg" by blast
  obtain line where ln: "signed_Line toy sg = Inr line" using revocation_Sign_line [OF toy_ok(2) sg] by blast
  have pn: "plain_line line" by (rule rev_plain [OF sg ln adm_rev_ok(2,3) rot_root_pair(2)])
  note l = rot_load [OF rev_fs_le]
  have a: "os_ReadFile rev_fs ''/an'' = Some (sample_line @ [newline])" by (rule os_ReadFile_regular) (simp add: rev_fs_def)
  have res: "Resolver [''k1'' \<mapsto> toy_public] = [''k1'' \<mapsto> toy_public]" by (simp add: Resolver_def fun_eq_iff)
  have c: "choose_checkpoint [sample_cp] 0 = Inr sample_cp" by (simp add: choose_checkpoint_def)
  have w: "wc_ChainID sample_wc = ''c1''" by (simp add: sample_wc_def)
  have e: "ad_Now adm_env = t0" "ad_Open adm_env" "ad_Write adm_env = None" "ad_Umask adm_env = 0" by (simp_all add: adm_env_def)
  have "revocation_Validate adm_rev = Inr ()" using adm_rev_ok(1) by simp
  then have p: "revoke_prepare toy (rot_world 0 rev_fs) sample_durations adm_env ''/'' ''w.json'' ''k1'' 0 [] = Inr (sample_wc, rot_ca, adm_rev)"
    using l(1-3) a sample_anchor_read c by (simp add: revoke_prepare_def Let_def adm_wc adm_paths w res e flip: adm_rev_def)
  have n: "rev_fs ''/rv'' = None" by (simp add: rev_fs_def rot_fs_def)
  have t: "link_target 41 rev_fs ''/rv'' = Some ''/rv''" using n by (simp add: numeral_eq_Suc)
  have "publish_file toy rev_fs ''/rv'' sg True None 0 = (rev_fs(''/rv'' \<mapsto> Regular 420 (line @ [newline])), True)"
    using n t ln by (simp add: publish_file_def revocation_Publish_def)
  then show ?thesis using sg ln pn p by (intro exI [of _ sg] exI [of _ line]) (simp add: cmdRevokeKey_def adm_wc adm_paths e)
qed

theorem revoked_key_refused_witness:
  "\<exists>fs' file r. cmdRevokeKey toy (rot_world 0 rev_fs) sample_durations adm_env ''/'' ''w.json'' ''k1'' 0 [] True [] True = (fs', Inr ()) \<and>
     os_ReadFile fs' ''/rv'' = Some file \<and> revocation_ReadVerified toy file ''c1'' (Some (toy_pub MLDSA65)) = Inr [r] \<and>
     rv_kid r = ''k1'' \<and> rv_size r = 1"
proof -
  obtain sg line where v: "plain_line line" "cmdRevokeKey toy (rot_world 0 rev_fs) sample_durations adm_env ''/'' ''w.json'' ''k1'' 0 [] True [] True =
       (rev_fs(''/rv'' \<mapsto> Regular 420 (line @ [newline])), Inr ())" using adm_revoke by blast
  let ?fs = "rev_fs(''/rv'' \<mapsto> Regular 420 (line @ [newline]))"
  have f: "os_ReadFile ?fs ''/rv'' = Some (line @ [newline])" by (rule os_ReadFile_regular) simp
  have ca: "loadCA (w_x509 (rot_world 0 rev_fs)) (w_pem (rot_world 0 rev_fs)) (w_fs (rot_world 0 rev_fs)) sample_wc = Inr rot_ca"
    using rot_load(3) [OF rev_fs_le, of 0] by simp
  have m: "read_file (w_fs (rot_world 0 rev_fs)) (config_Path sample_wc (wc_Revocations sample_wc)) = Missing \<and> [] = ([] :: bytes) \<or>
      read_file (w_fs (rot_world 0 rev_fs)) (config_Path sample_wc (wc_Revocations sample_wc)) = Content []"
    by (simp add: adm_wc adm_paths read_file_def numeral_eq_Suc rev_fs_def rot_fs_def)
  have w: "wc_ChainID sample_wc = ''c1''" "mk_pub (ca_Key rot_ca) = toy_pub MLDSA65" by (simp_all add: sample_wc_def rot_ca_def)
  have "complete_lines []" by (simp add: complete_lines_def)
  note th = revoked_key_refused [OF v(2) rot_load(1) [OF rev_fs_le] ca m this _ _ rot_root_pair(1) toy_ok(2)]
  obtain t data cps cp body r where "trustedKeys toy rev_fs sample_wc = Inr t" "os_ReadFile rev_fs ''/an'' = Some data"
    "ReadVerified toy data ''c1'' (Resolver t) = Inr cps" "cp = last cps" "os_ReadFile ?fs ''/rv'' = Some body"
    "revocation_ReadVerified toy body ''c1'' (Some (toy_pub MLDSA65)) = Inr [r]" "rv_kid r = ''k1''" "rv_size r = c_size cp"
    using th no_revocations v(1) by (auto simp: adm_wc adm_paths f w utf8_valid_ascii)
  moreover have "os_ReadFile rev_fs ''/an'' = Some (sample_line @ [newline])" by (rule os_ReadFile_regular) (simp add: rev_fs_def)
  moreover have "Resolver [''k1'' \<mapsto> toy_public] = [''k1'' \<mapsto> toy_public]" by (simp add: Resolver_def fun_eq_iff)
  ultimately have "rv_size r = 1"
    using rot_load(2) [OF rev_fs_le] sample_anchor_read sample_cp_fields by auto
  with v(2) \<open>os_ReadFile ?fs ''/rv'' = Some body\<close> \<open>rv_kid r = ''k1''\<close>
    \<open>revocation_ReadVerified toy body ''c1'' (Some (toy_pub MLDSA65)) = Inr [r]\<close> show ?thesis by blast
qed

section \<open>The console\<close>

definition sample_console :: console where
  "sample_console = \<lparr>cs_token = ''t'', cs_log = ''log'', cs_keys = ''keys'', cs_anchor = [], cs_tokens = [], cs_tsaRoots = [],
     cs_chain = ''c1'', cs_root = ''root'', cs_approver = None, cs_ttl = 0\<rparr>"

definition console_ring :: keyring where
  "console_ring = \<lparr>kr_trusted = [''k1'' \<mapsto> toy_public], kr_rotating = Some sample_rotating, kr_rootKey = None\<rparr>"

lemma sample_root: "ReadCertificate sample_X toy_pem sample_files ''root'' = Inr ''der''"
proof -
  have "readPEM toy_pem sample_files ''root'' certificateType False = Inr ''der''"
    using toy_pem_ok sample_files_read(4) by (simp add: readPEM_Inr pem_ok_def) (simp add: toy_pem_def)
  then show ?thesis by (simp add: ReadCertificate_def sample_world_def)
qed

lemma sample_console_keys: "console_keys toy sample_world sample_console sample_log1 = Inr console_ring"
proof -
  let ?K = "Rotating toy sample_X"
  let ?R = "v_keys (walk (verify_line toy ?K ''c1'' []) (init_state [] sample_rotating) (fst (scan_lines sample_log1)))"
  have t: "keys_Parse toy keys_file = Inr [''k1'' \<mapsto> toy_public]" using trust_file_roundtrip_witness by (simp add: keys_file_def)
  have "VerifyAll toy sample_log1 ''c1'' ?K sample_rotating [] [] = Inr (report_of toy ''c1'' [] [sample_e1], sample_rotating)"
    using sample_e1_matches [OF sample_known, of "[]" "[]" sample_X] sample_no_rotation by simp
  from learned_verifies_same(2) [OF refl this] have R: "?R = sample_rotating" by simp
  have f: "follow_rotations toy sample_world sample_console sample_log1 [''k1'' \<mapsto> toy_public] = Inr sample_rotating"
    using sample_root R by (simp add: follow_rotations_def sample_console_def) (simp add: sample_world_def sample_rotating_def)
  show ?thesis using t f by (simp add: console_keys_def console_ring_def)
    (simp add: sample_console_def sample_world_def sample_files_read)
qed

lemma sample_console_state:
  "\<exists>reply. console_state toy sample_world sample_console rnd now http = Inr reply \<and>
     sr_Verify reply = console_verify toy sample_world sample_console console_ring sample_log1"
proof -
  have "os_ReadFile (w_fs sample_world) (cs_log sample_console) = Some sample_log1" "cs_approver sample_console = None"
    by (simp_all add: sample_console_def sample_world_def sample_files_read)
  then show ?thesis using sample_console_keys by (simp add: console_state_def Let_def)
qed

lemma sample_console_OK: "cv_OK (console_verify toy sample_world sample_console console_ring sample_log1)"
proof -
  have "VerifyAll toy sample_log1 ''c1'' (Rotating toy sample_X) sample_rotating [] [] = Inr (report_of toy ''c1'' [] [sample_e1], sample_rotating)"
    using sample_e1_matches [OF sample_known, of "[]" "[]" sample_X] sample_no_rotation by simp
  then have "ring_accepts toy sample_X sample_log1 ''c1'' console_ring [] (report_of toy ''c1'' [] [sample_e1])"
    by (simp add: ring_accepts_rotating [of _ sample_rotating] console_ring_def)
  then show ?thesis unfolding console_verify_OK by (simp add: console_anchor_def) (auto simp: sample_console_def)
qed

theorem console_agrees_with_verifier_witness:
  "\<exists>reply st' res. console_state toy sample_world sample_console [] t0 (\<lambda>_ _. None) = Inr reply \<and> cv_OK (sr_Verify reply) \<and>
     verify_run toy sample_world (Some (console_flags sample_console)) fake1 = (st', exitVerified, JSONReport res) \<and>
     cv_Receipts (sr_Verify reply) = rr_Receipts res"
proof -
  obtain reply where r: "console_state toy sample_world sample_console [] t0 (\<lambda>_ _. None) = Inr reply" "cv_OK (sr_Verify reply)"
    using sample_console_state [of "[]" t0 "\<lambda>_ _. None"] sample_console_OK by auto
  have x: "x_Parse (w_x509 sample_world) der = Some root_cert" for der by (simp add: sample_world_def)
  have "\<exists>res st'. verify_run toy sample_world (Some (console_flags sample_console)) fake1 = (st', exitVerified, JSONReport res) \<and>
      cv_Receipts (sr_Verify reply) = rr_Receipts res \<and> cv_Checkpoints (sr_Verify reply) = rr_Checkpoints res \<and>
      cv_Unanchored (sr_Verify reply) = rr_Unanchored res \<and> cv_Rotations (sr_Verify reply) = int (length (rr_Rotations res))"
    using console_agrees_with_verifier [OF _ _ _ r(1), of fake1] r(2) x
    by (auto simp: sample_console_def revocation_RootKey_def root_cert_def split: if_splits)
  then show ?thesis using r by blast
qed

theorem console_feed_complete_witness:
  "\<exists>reply. console_state toy sample_world sample_console [] t0 (\<lambda>_ _. None) = Inr reply \<and> sr_Receipts reply = [view_receipt (e_rcpt sample_e1)]"
proof -
  obtain reply where r: "console_state toy sample_world sample_console [] t0 (\<lambda>_ _. None) = Inr reply" "cv_OK (sr_Verify reply)"
    using sample_console_state [of "[]" t0 "\<lambda>_ _. None"] sample_console_OK by auto
  have log: "os_ReadFile (w_fs sample_world) (cs_log sample_console) = Some sample_log1"
    by (simp add: sample_console_def sample_world_def sample_files_read)
  have scan: "scan_lines sample_log1 = ([e_line sample_e1], False)" by (simp add: sample_scan)
  have "carriage \<notin> set sample_log1"
  proof -
    have "carriage \<noteq> newline" by code_simp
    then show ?thesis using sample_lines(3) by (simp add: sample_log1_def unlines_def plain_line_def)
  qed
  from console_feed_complete [OF r log this] obtain kr :: keyring and es :: "entry list" where f: "console_keys toy sample_world sample_console sample_log1 = Inr kr"
    "scan_lines sample_log1 = (map e_line es, False)" "ring_log_ok toy sample_X kr (cs_chain sample_console) [] es"
    "sr_Receipts reply = rev (map (\<lambda>e. view_receipt (e_rcpt e)) es)"
    using keeps_envelopes_model by (auto simp: toy_ok(3))
  obtain e where e: "es = [e]" "e_line e = e_line sample_e1" using f(2) scan by (cases es) auto
  have k: "kr = console_ring" using f(1) sample_console_keys by simp
  have "log_ok toy (Rotating toy sample_X) sample_rotating ''c1'' [] [e]" "log_ok toy (Rotating toy sample_X) sample_rotating ''c1'' [] [sample_e1]"
    using f(3) sample_e1_ok [OF sample_known, of "[]" sample_X] by (simp_all add: verified_log_def e k ring_log_ok_def console_ring_def sample_console_def)
  then have "authentic toy (Rotating toy sample_X) sample_rotating [] e" "authentic toy (Rotating toy sample_X) sample_rotating [] sample_e1"
    by (auto simp: log_ok_def admissible_def)
  then have "e_rcpt e = e_rcpt sample_e1" using e(2) receipt_Verify_same by (auto simp: authentic_def)
  with r(1) f(4) e(1) show ?thesis by auto
qed

end
