(* ===== verification/Spec2Isabelle.thy ===== *)
theory Spec2Isabelle
  imports GatewayWitnesses AnchorWitnesses ApproverWitnesses EdgeWitnesses CheckpointWitnesses RotationWitnesses AdminWitnesses
begin

text \<open>
  Agent Warden: a gateway between agents and tool servers that asks policy before every tool call,
  holds what needs a person, and writes a signed, hash-chained receipt of every decision, approval and
  result before the thing it describes can be relied on; a checkpointer that anchors the head of that log
  in a file, with time-stamps and in a write-once store; and a verifier that checks such a log and its
  anchors with nothing but public keys.  This development models them in Isabelle/HOL and proves what makes
  them trustworthy.

  \<^bold>\<open>Parts and theories.\<close>

  \<^item> Ground: \<open>Prelude\<close> (errors as sums, folds that stop at an error), \<open>GoTime\<close> (the RFC 3339 format
    with milliseconds that all timestamps use, as \<open>time.Parse\<close> and \<open>Format\<close> treat it, and that its
    order is the order of time), \<open>GoBytes\<close> (UTF-8 decoding, hex, raw URL base64), \<open>GoText\<close> (runes, trimming,
    lines, standard base64), \<open>Json\<close>, \<open>JsonStruct\<close>, \<open>JsonIndent\<close> and \<open>JsonLoose\<close> (\<open>encoding/json\<close>: printing,
    decoding, structs with and without unknown members, \<open>omitempty\<close>, indentation), \<open>Lines\<close> (\<open>bufio.Scanner\<close>
    with its limit).
  \<^item> Cryptographic shell: \<open>Digest\<close> (\<open>internal/digest\<close>), \<open>Merkle\<close> (\<open>internal/merkle\<close>), \<open>Canonical\<close>
    (\<open>internal/canonical\<close>), \<open>Composite\<close> (\<open>internal/composite\<close>), \<open>Commit\<close> (\<open>internal/commit\<close>), \<open>Keys\<close>
    (\<open>internal/keys\<close>), \<open>Identity\<close> (\<open>internal/identity\<close>), \<open>Keyfile\<close> (\<open>internal/keyfile\<close>, over files with symbolic
    links and permissions), \<open>Revocation\<close> (\<open>internal/revocation\<close>), \<open>Tsa\<close> (\<open>internal/tsa/tsa.go\<close>).
  \<^item> The log: \<open>Receipt\<close> and \<open>Envelope\<close> (\<open>internal/receipt\<close>), \<open>Chain\<close> and \<open>Verify\<close> (\<open>internal/chain\<close>),
    \<open>Checkpoint\<close> (\<open>internal/checkpoint\<close>), \<open>Store\<close> (\<open>internal/store\<close>); \<open>LogSpec\<close>, \<open>AppendLog\<close> and \<open>LogTheorems\<close> specify it.
  \<^item> Anchors: \<open>S3Store\<close> (\<open>internal/anchor/s3/client.go\<close> over any transport, and the in-process store of
    \<open>s3fake/fake.go\<close>), \<open>S3Anchor\<close> (\<open>anchor.go\<close> and \<open>read.go\<close>), \<open>Checkpointer\<close> (the checkpointer of
    \<open>cmd/warden/serve.go\<close>).
  \<^item> Decisions: \<open>Registry\<close> (\<open>internal/registry\<close>), \<open>Policy\<close> (\<open>internal/policy\<close>), \<open>Argschema\<close>
    (\<open>internal/argschema\<close>), \<open>Approval\<close> (\<open>internal/approval\<close>), \<open>Broker\<close> (\<open>internal/broker\<close>), \<open>Inspect\<close>
    (\<open>internal/inspect\<close>, with an executable matcher for its regular expressions).
  \<^item> The gateway: \<open>Gateway\<close> has the handlers of \<open>internal/gateway/gateway.go\<close>, \<open>GatewayRun\<close> interleaves
    their phases; \<open>GatewaySteps\<close>, \<open>GatewayRules\<close>, \<open>GatewayTaint\<close> and \<open>GatewayTheorems\<close> hold what follows.
  \<^item> The edges: \<open>ApproverApi\<close> (\<open>internal/approverapi\<close>, server and client), \<open>Upstream\<close>
    (\<open>internal/upstream\<close>), \<open>McpGw\<close> (\<open>internal/mcpgw\<close>).
  \<^item> Programs: \<open>WardenVerify\<close> (\<open>cmd/warden-verify\<close>, from flags to report and exit status), \<open>Config\<close>
    (\<open>internal/config\<close>), \<open>Rotation\<close> and \<open>RotationLog\<close> (\<open>rotate-key\<close> of \<open>cmd/warden/rotate.go\<close>), \<open>Admin\<close> and
    \<open>AdminProps\<close> (\<open>pin\<close>, \<open>add-approver\<close>, \<open>issue-task\<close>, \<open>export\<close>, \<open>revoke-key\<close> and \<open>approve\<close> of \<open>cmd/warden\<close>, the key that
    \<open>serve\<close> starts with, and the exit status), \<open>Console\<close> and \<open>ConsoleProps\<close> (\<open>cmd/warden/console.go\<close>).

  \<^bold>\<open>How the model corresponds to the code.\<close>  Structs are records with the fields of the source,
  string enumerations are their strings, errors are datatypes returned in a sum, a method that changes
  its receiver returns the new record.  The tables of the store are a record and files are a map from paths;
  whether a database statement or a write succeeds and how far it gets, the clock, random bytes and the answers of
  servers are arguments.  Third-party code (SHA-256 and SHA-512, ML-DSA, Ed25519, the RFC 8785 transformer, X.509,
  PEM, RFC 3161, Cedar, JSON Schema, the Model Context Protocol, the text of durations) is a field of a parameter record;
  what is assumed of it is a named hypothesis (\<open>jcs_ok\<close>, \<open>keeps_envelopes\<close>, \<open>primitives_ok\<close>, \<open>x509_ok\<close>, \<open>pem_ok\<close>, \<open>durations_ok\<close>,
  \<open>no_collision\<close> on the very strings that a proof compares).
  \<open>Call\<close> and \<open>Resume\<close> are composed of phases, each of which touches shared state once, under the lock
  the code holds there; the theorems about the gateway quantify over all interleavings of phases, all
  failures and all restarts, and \<open>GatewaySteps\<close> shows that the composed handlers are such sequences.
  \<open>LogSpec\<close> is the abstract specification of a log (every receipt is authentic, linked and
  admissible after those before it) and \<open>LogTheorems\<close> shows that the verification loop accepts exactly
  those logs; \<open>AppendLog\<close> shows that the appender stays within it.

  \<^bold>\<open>Interfaces.\<close>  The client of an interface is proved once in a locale: signers (\<open>signing\<close> in \<open>Composite\<close>,
  interpreted on key files), key directories (\<open>key_directory\<close> in \<open>Keys\<close>, interpreted on static and rotating
  directories), the receipt log that the gateway uses (\<open>receipt_log\<close> in \<open>GatewayRun\<close>, interpreted on the store), and
  object stores (\<open>object_store\<close> in \<open>S3Anchor\<close>, interpreted on any transport at all, where only what the client
  checks itself is known, and on the in-process store).

  \<^bold>\<open>What is proved.\<close>

  \<^item> Logs: the verifier refines the specification of logs, and hence: no call without authority, one key at a time,
    rotations certified, revocations enforced, a head determines the log, a checkpoint pins its prefix.
  \<^item> Writers: what a store writes is linked and signed, and verifies exactly when the receipts given to it are admissible in
    their order; what the gateway gives it is, as long as no result outlives its approval.  The gateway writes the authority
    for a call before it makes it, makes an allowed call at most once, keeps the taint of a task equal to what its results
    say, and shows no injected credential to the agent.
  \<^item> Anchors: what the checkpointer writes reads back and agrees with the log through restarts and failures, as long as a
    failed write leaves nothing behind; a checkpoint that is due is made, and a pending one is offered to the store with bounded waits.  A checkpoint that was
    published under a free name survives in the write-once store whatever is done with the credentials of the store, and
    binds every run of the verifier that exits with 0; listing a store page by page ends and is complete.
  \<^item> Verifier program: its exit status says what its report says, and 0 vouches for the log, the anchor file, the
    stored checkpoints and the revocations.
  \<^item> Key rotation: the files and tables that \<open>rotate-key\<close> leaves are a working Warden, and an auditor who trusts the
    root can follow.
  \<^item> Administration: an approver who is added is trusted and the others stay so, an export is the log of the store and
    gets its verdict, a revoked key is refused from the anchored checkpoint on, pinned tools are accepted, an issued
    credential admits its task.  The console says of a log what the verifier says, and when it says that a log
    without carriage returns verifies its feed shows every receipt, those after a rotation too.
  \<^item> Edges: what an approver signs is what was shown and what the gateway held; a list request is good once; a call
    over HTTP acts for the certificate of the handshake; credentials reach the server they are bound to;
    invisible runes hide nothing from inspection.
  \<^item> Where the code falls short of its documents, a theorem shows it: a result recorded after its approval expired, an
    approval that runs twice, a failed \<open>fsync\<close> of the anchor, a rotation with a certificate that has ended, a
    stored object of two lines, a checkpoint taken as published without a lock, a feed that leaves out lines with CRLF ends.

  \<open>Sample\<close>, \<open>GatewaySample\<close> and \<open>GatewayScenario\<close> run the model on concrete input; \<open>Witnesses\<close>,
  \<open>ComponentWitnesses\<close>, \<open>GatewayWitnesses\<close>, \<open>AnchorWitnesses\<close>, \<open>ApproverWitnesses\<close>, \<open>EdgeWitnesses\<close>,
  \<open>CheckpointWitnesses\<close>, \<open>RotationWitnesses\<close> and \<open>AdminWitnesses\<close> apply the properties there.

  \<^bold>\<open>Bounds.\<close>  Three definitions take a bound.  The JSON parser has fuel of twice the length of its input plus one,
  which is enough because of two nested calls at least one follows the consumption of a byte (\<open>Json\<close>); listing a store asks
  for at most as many pages as the code does, \<open>maxPages\<close>, and reads as much of each, \<open>maxListing\<close>; and opening a file follows at most 40 symbolic links, as Linux does.
  All other loops are structural or have a measure.  Sizes and indices of inclusion proofs are 64-bit words, and so are
  the back-off and the retention of the checkpointer; durations saturate where \<open>time.Duration\<close> does; sequence numbers are
  integers, kept below \<open>2 ^ 53\<close> by validation.

  \<^bold>\<open>Not modelled.\<close>  Of the programs: \<open>init\<close>, \<open>call\<close>, the listeners of \<open>serve\<close> and of the console, flag parsing and
  printed text, which is input and output around the packages above; the test and demonstration harnesses (\<open>internal/gate\<close>,
  \<open>internal/scenario\<close>, \<open>internal/doccheck\<close>, \<open>internal/exampletools\<close>, \<open>warden-gate\<close>, \<open>warden-demo\<close>, \<open>example-tools\<close>).
  Of the write-once store: AWS request signing and the text of URLs, headers and XML, since requests and responses are values
  here; so the in-process store checks no signatures.  Of the listing, the text is modelled for its length, which the
  client limits, and the client is given the names as they were stored, which is what XML carries for names of its
  characters in UTF-8 (\<open>xml_name\<close>).  The local timestamp authority, which only calls libraries.
  Goroutines appear only as interleavings of the phases that locks make atomic.
\<close>

end
